(* ===== verification/Prelude.thy ===== *)
theory Prelude
  imports Main "HOL-Library.Word"
begin

text \<open>
  Shared ground of the development: the machine integers of
  \<^verbatim>\<open>kernel/include/types.h\<close>, flag tests, little-endian access to raw blocks, the
  result type of kernel operations, and the generic lemmas and fact collections that
  the component theories use.
\<close>

unbundle bit_operations_syntax

subsection \<open>Machine integers\<close>

text \<open>
  A C integer is a word of its width.  Signed types share the word type of the
  unsigned type of the same width; a signed comparison reads them through
  \<^const>\<open>sint\<close>.
\<close>

type_synonym int8_t = "8 word"
type_synonym uint8_t = "8 word"
type_synonym int16_t = "16 word"
type_synonym uint16_t = "16 word"
type_synonym int32_t = "32 word"
type_synonym uint32_t = "32 word"
type_synonym dev_t = "16 word"
type_synonym ino_t = "16 word"
type_synonym mode_t = "16 word"
type_synonym daddr_t = "32 word"
type_synonym pid_t = "16 word"
type_synonym byte = "8 word"

definition major :: "dev_t \<Rightarrow> nat" where
  "major x = unat (drop_bit 8 x AND 0xFF)"

definition minor :: "dev_t \<Rightarrow> nat" where
  "minor x = unat (x AND 0xFF)"

definition makedev :: "nat \<Rightarrow> nat \<Rightarrow> dev_t" where
  "makedev maj mn = push_bit 8 (of_nat maj) OR (of_nat mn AND 0xFF)"

abbreviation (input) NODEV :: dev_t where "NODEV \<equiv> - 1"

lemma sint_unat_if:
  "sint (w :: 'a::len word) = (if unat w < 2 ^ (LENGTH('a) - 1) then int (unat w)
     else int (unat w) - 2 ^ LENGTH('a))"
proof -
  let ?n = "LENGTH('a)"
  have p: "(2 :: int) ^ ?n = 2 * 2 ^ (?n - 1)"
    by (metis len_gt_0 power_minus_mult mult.commute)
  have b: "0 \<le> uint w" "uint w < 2 ^ ?n" by (simp_all add: uint_ge_0)
  have s: "sint w = (uint w + 2 ^ (?n - 1)) mod 2 ^ ?n - 2 ^ (?n - 1)"
    by (simp add: sint_uint signed_take_bit_eq_take_bit_shift take_bit_eq_mod)
  show ?thesis
  proof (cases "unat w < 2 ^ (?n - 1)")
    case True
    then have "int (unat w) < int (2 ^ (?n - 1))" by (simp only: of_nat_less_iff)
    then have "uint w < 2 ^ (?n - 1)" by simp
    with b p have "(uint w + 2 ^ (?n - 1)) mod 2 ^ ?n = uint w + 2 ^ (?n - 1)"
      by (intro mod_pos_pos_trivial) auto
    with True s show ?thesis by simp
  next
    case False
    then have "int (2 ^ (?n - 1)) \<le> int (unat w)" by (simp only: of_nat_le_iff not_less)
    then have "2 ^ (?n - 1) \<le> uint w" by simp
    have "(uint w + 2 ^ (?n - 1)) mod 2 ^ ?n = (uint w + 2 ^ (?n - 1) - 2 ^ ?n) mod 2 ^ ?n"
      by (simp only: minus_mod_self2)
    also have "\<dots> = uint w + 2 ^ (?n - 1) - 2 ^ ?n"
      using b p \<open>2 ^ (?n - 1) \<le> uint w\<close> by (intro mod_pos_pos_trivial) linarith+
    finally have "(uint w + 2 ^ (?n - 1)) mod 2 ^ ?n = uint w + 2 ^ (?n - 1) - 2 ^ ?n" .
    with False s p show ?thesis by simp
  qed
qed

lemma sint_small32: "unat (w :: 32 word) < 2 ^ 31 \<Longrightarrow> sint w = int (unat w)"
  by (simp add: sint_unat_if)

lemma sint_pos32: "0 \<le> sint (w :: 32 word) \<longleftrightarrow> unat w < 2 ^ 31"
proof -
  have "int (unat w) < 2 ^ 32" using uint_lt2p [of w] by simp
  then show ?thesis by (simp add: sint_unat_if)
qed

lemma sint8_range: "- 128 \<le> sint (x :: 8 word)" "sint (x :: 8 word) < 128"
  using sint_greater_eq [of x] sint_less [of x] by simp_all

lemma sint_of_int8: "- 128 \<le> x \<Longrightarrow> x < 128 \<Longrightarrow> sint (of_int x :: 8 word) = x"
  by (simp add: signed_of_int signed_take_bit_int_eq_self)

lemma and_full8 [simp]: "(w :: 8 word) AND 255 = w"
proof -
  have "(255 :: 8 word) = - 1" by simp
  then show ?thesis by (simp only: and.right_neutral)
qed

subsection \<open>Fact collections\<close>

named_theorems flag_simps \<open>tests of flag words after setting or clearing bits\<close>
named_theorems mem_simps \<open>reading a block or a memory back after a write\<close>
named_theorems run_simps \<open>unfolding of kernel operations that cannot block\<close>
named_theorems frame_simps \<open>parts of the kernel state an operation leaves alone\<close>

subsection \<open>Flags\<close>

text \<open>The C test \<^verbatim>\<open>(x & m) != 0\<close>.\<close>

definition hasf :: "'a::len word \<Rightarrow> 'a word \<Rightarrow> bool" where
  "hasf x m \<longleftrightarrow> x AND m \<noteq> 0"

lemma hasf_0 [simp, flag_simps]: "\<not> hasf 0 m"
  by (simp add: hasf_def)

lemma hasf_none [simp, flag_simps]: "\<not> hasf x 0"
  by (simp add: hasf_def)

lemma hasf_or [flag_simps]: "hasf (x OR a) m \<longleftrightarrow> hasf x m \<or> hasf a m"
  by (simp add: hasf_def bit.conj_disj_distrib2 or_eq_0_iff)

lemma hasf_clear [flag_simps]: "m AND a = 0 \<Longrightarrow> hasf (x AND NOT a) m \<longleftrightarrow> hasf x m"
proof -
  assume "m AND a = 0"
  then have "(x AND NOT a) AND m = x AND m"
    by (metis (no_types) and.assoc and.commute bit.conj_cancel_right bit.conj_disj_distrib
        bit.disj_cancel_right or.commute or.right_neutral and.right_neutral)
  then show ?thesis by (simp add: hasf_def)
qed

lemma hasf_cleared [flag_simps]: "m AND NOT a = 0 \<Longrightarrow> \<not> hasf (x AND NOT a) m"
  by (simp add: hasf_def and.assoc) (metis and.commute and_zero_eq)

lemma hasf_mask: "hasf (x AND y) m \<longleftrightarrow> hasf x (y AND m)"
  by (simp add: hasf_def and.assoc)

subsection \<open>Raw blocks and little-endian fields\<close>

text \<open>
  A block (the 512 bytes a buffer's \<^verbatim>\<open>b_addr\<close> points to, or a block of the disk) is
  a function from byte offsets; only offsets below \<open>BSIZE\<close> are ever used.  The code
  overlays C structures on blocks, so the model reads and writes them byte by byte, in
  the little-endian order of the x86.
\<close>

type_synonym block = "nat \<Rightarrow> byte"

definition get16 :: "block \<Rightarrow> nat \<Rightarrow> 16 word" where
  "get16 b i = ucast (b i) OR push_bit 8 (ucast (b (i + 1)))"

definition put16 :: "block \<Rightarrow> nat \<Rightarrow> 16 word \<Rightarrow> block" where
  "put16 b i v = b(i := ucast v, i + 1 := ucast (drop_bit 8 v))"

definition get32 :: "block \<Rightarrow> nat \<Rightarrow> 32 word" where
  "get32 b i = ucast (b i) OR push_bit 8 (ucast (b (i + 1)))
     OR push_bit 16 (ucast (b (i + 2))) OR push_bit 24 (ucast (b (i + 3)))"

definition put32 :: "block \<Rightarrow> nat \<Rightarrow> 32 word \<Rightarrow> block" where
  "put32 b i v = b(i := ucast v, i + 1 := ucast (drop_bit 8 v),
     i + 2 := ucast (drop_bit 16 v), i + 3 := ucast (drop_bit 24 v))"

text \<open>\<^verbatim>\<open>bcopy(src, dst, n)\<close> between two blocks at given offsets.\<close>

definition bcopy :: "block \<Rightarrow> nat \<Rightarrow> block \<Rightarrow> nat \<Rightarrow> nat \<Rightarrow> block" where
  "bcopy src i dst j n = (\<lambda>p. if j \<le> p \<and> p < j + n then src (i + (p - j)) else dst p)"

lemma get16_put16 [simp, mem_simps]: "get16 (put16 b i v) i = v"
  unfolding get16_def put16_def
  by (rule bit_word_eqI) (auto simp: bit_simps)

lemma get32_put32 [simp, mem_simps]: "get32 (put32 b i v) i = v"
  unfolding get32_def put32_def
  apply (rule bit_word_eqI)
  apply (auto simp: bit_simps)
  subgoal for n by (cases "24 \<le> n") auto
  done

lemma get16_cong: "b i = c j \<Longrightarrow> b (i + 1) = c (j + 1) \<Longrightarrow> get16 b i = get16 c j"
  by (simp add: get16_def)

lemma get32_cong:
  "(\<And>d. d < 4 \<Longrightarrow> b (i + d) = c (j + d)) \<Longrightarrow> get32 b i = get32 c j"
proof -
  assume eq: "\<And>d. d < 4 \<Longrightarrow> b (i + d) = c (j + d)"
  have "b i = c j" "b (i + 1) = c (j + 1)" "b (i + 2) = c (j + 2)" "b (i + 3) = c (j + 3)"
    using eq [of 0] eq [of 1] eq [of 2] eq [of 3] by simp_all
  then show ?thesis by (simp add: get32_def)
qed

lemma put16_apply: "p < i \<or> i + 2 \<le> p \<Longrightarrow> put16 b i v p = b p"
  by (auto simp: put16_def)

lemma put32_apply: "p < i \<or> i + 4 \<le> p \<Longrightarrow> put32 b i v p = b p"
  by (auto simp: put32_def)

lemma get16_put16_other [mem_simps]: "j + 2 \<le> i \<or> i + 2 \<le> j \<Longrightarrow> get16 (put16 b i v) j = get16 b j"
  by (rule get16_cong) (auto simp: put16_apply)

lemma get16_put32_other [mem_simps]: "j + 2 \<le> i \<or> i + 4 \<le> j \<Longrightarrow> get16 (put32 b i v) j = get16 b j"
  by (rule get16_cong) (auto simp: put32_apply)

lemma get32_put32_other [mem_simps]: "j + 4 \<le> i \<or> i + 4 \<le> j \<Longrightarrow> get32 (put32 b i v) j = get32 b j"
  by (rule get32_cong) (auto simp: put32_apply)

lemma get32_put16_other [mem_simps]: "j + 4 \<le> i \<or> i + 2 \<le> j \<Longrightarrow> get32 (put16 b i v) j = get32 b j"
  by (rule get32_cong) (auto simp: put16_apply)

lemma get16_upd_other [mem_simps]: "p < i \<or> i + 2 \<le> p \<Longrightarrow> get16 (b(p := v)) i = get16 b i"
  by (rule get16_cong) auto

lemma get32_upd_other [mem_simps]: "p < i \<or> i + 4 \<le> p \<Longrightarrow> get32 (b(p := v)) i = get32 b i"
  by (rule get32_cong) auto

lemma bcopy_all [mem_simps]: "p < n \<Longrightarrow> bcopy src 0 dst 0 n p = src p"
  by (simp add: bcopy_def)

lemma get32_bcopy_in [mem_simps]:
  "j \<le> p \<Longrightarrow> p + 4 \<le> j + n \<Longrightarrow> get32 (bcopy src i dst j n) p = get32 src (i + (p - j))"
  by (rule get32_cong) (auto simp: bcopy_def intro!: arg_cong [where f = src])

lemma get32_bcopy_out [mem_simps]:
  "p + 4 \<le> j \<or> j + n \<le> p \<Longrightarrow> get32 (bcopy src i dst j n) p = get32 dst p"
  by (rule get32_cong) (auto simp: bcopy_def)

lemma get16_bcopy_out [mem_simps]:
  "p + 2 \<le> j \<or> j + n \<le> p \<Longrightarrow> get16 (bcopy src i dst j n) p = get16 dst p"
  by (rule get16_cong) (auto simp: bcopy_def)

lemma get16_bcopy_in [mem_simps]:
  "j \<le> p \<Longrightarrow> p + 2 \<le> j + n \<Longrightarrow> get16 (bcopy src i dst j n) p = get16 src (i + (p - j))"
  by (rule get16_cong) (auto simp: bcopy_def intro!: arg_cong [where f = src])

subsection \<open>Lists\<close>

text \<open>The first index at which a table entry satisfies a test: the \<^verbatim>\<open>for\<close> loops over
  \<^verbatim>\<open>proc\<close>, \<^verbatim>\<open>file\<close>, \<^verbatim>\<open>u_ofile\<close> and \<^verbatim>\<open>mount\<close>.\<close>

fun find_slot :: "('a \<Rightarrow> bool) \<Rightarrow> 'a list \<Rightarrow> nat option" where
  "find_slot P [] = None"
| "find_slot P (x # xs) = (if P x then Some 0 else map_option Suc (find_slot P xs))"

lemma find_slot_None_iff: "find_slot P xs = None \<longleftrightarrow> (\<forall>x\<in>set xs. \<not> P x)"
  by (induction xs) auto

lemma find_slot_SomeD:
  "find_slot P xs = Some i \<Longrightarrow> i < length xs \<and> P (xs ! i) \<and> (\<forall>j<i. \<not> P (xs ! j))"
proof (induction xs arbitrary: i)
  case Nil
  then show ?case by simp
next
  case (Cons x xs)
  then show ?case
    by (auto simp: less_Suc_eq_0_disj nth_Cons' split: if_splits)
qed

lemma find_slot_SomeI:
  "i < length xs \<Longrightarrow> P (xs ! i) \<Longrightarrow> \<forall>j<i. \<not> P (xs ! j) \<Longrightarrow> find_slot P xs = Some i"
proof (induction xs arbitrary: i)
  case Nil
  then show ?case by simp
next
  case (Cons x xs)
  show ?case
  proof (cases i)
    case 0
    with Cons.prems show ?thesis by simp
  next
    case (Suc j)
    have "\<not> P x" using Cons.prems(3) Suc by force
    moreover have "find_slot P xs = Some j"
      using Cons.prems Suc by (intro Cons.IH) force+
    ultimately show ?thesis by (simp add: Suc)
  qed
qed

end
