(* ===== verification/Kernel_State.thy ===== *)
theory Kernel_State
  imports Prelude
begin

text \<open>
  The data of the kernel, from the headers of \<^verbatim>\<open>kernel/include\<close>: one record per C
  structure with the structure's fields at their widths, the constants the code tests,
  and one record \<open>kernel\<close> for the global variables.  Pointers into a global array are
  indices into the corresponding list (an option where the code tests for
  \<^verbatim>\<open>NULL\<close>); the pointers of the buffer lists, which also point at list heads, have a
  type of their own.  Left out of the structures are only the words that hold machine
  context (\<^verbatim>\<open>u_rsav\<close>, \<^verbatim>\<open>u_fsav\<close>, \<^verbatim>\<open>u_qsav\<close>, \<^verbatim>\<open>u_ssav\<close>, \<^verbatim>\<open>u_stack\<close>) and the
  PDP-11 segment registers, which no modelled code reads.
\<close>

subsection \<open>Parameters\<close>

abbreviation (input) NBUF :: nat where "NBUF \<equiv> 15"
abbreviation (input) NINODE :: nat where "NINODE \<equiv> 100"
abbreviation (input) NFILE :: nat where "NFILE \<equiv> 100"
abbreviation (input) NMOUNT :: nat where "NMOUNT \<equiv> 5"
abbreviation (input) NOFILE :: nat where "NOFILE \<equiv> 15"
abbreviation (input) NPROC :: nat where "NPROC \<equiv> 50"
abbreviation (input) NTEXT :: nat where "NTEXT \<equiv> 40"
abbreviation (input) NCALL :: nat where "NCALL \<equiv> 20"
abbreviation (input) NSIG :: nat where "NSIG \<equiv> 20"
abbreviation (input) NBLKDEV :: nat where "NBLKDEV \<equiv> 4"
abbreviation (input) NEXEC :: int where "NEXEC \<equiv> 3"
abbreviation (input) NICFREE :: int where "NICFREE \<equiv> 50"
abbreviation (input) NICINOD :: int where "NICINOD \<equiv> 50"
abbreviation (input) BSIZE :: nat where "BSIZE \<equiv> 512"
abbreviation (input) NINDIR :: nat where "NINDIR \<equiv> 128"
abbreviation (input) DIRSIZ :: nat where "DIRSIZ \<equiv> 14"
abbreviation (input) ROOTINO :: ino_t where "ROOTINO \<equiv> 1"
abbreviation (input) HZ :: int where "HZ \<equiv> 100"
abbreviation (input) USIZE :: uint32_t where "USIZE \<equiv> 64"

text \<open>Sleep priorities.\<close>

abbreviation (input) PSWP :: int where "PSWP \<equiv> - 100"
abbreviation (input) PINOD :: int where "PINOD \<equiv> - 90"
abbreviation (input) PRIBIO :: int where "PRIBIO \<equiv> - 50"
abbreviation (input) PPIPE :: int where "PPIPE \<equiv> 1"
abbreviation (input) PWAIT :: int where "PWAIT \<equiv> 40"
abbreviation (input) PSLEP :: int where "PSLEP \<equiv> 90"
abbreviation (input) PUSER :: int where "PUSER \<equiv> 100"

text \<open>Signals.\<close>

abbreviation (input) SIGINS :: nat where "SIGINS \<equiv> 4"
abbreviation (input) SIGTRC :: nat where "SIGTRC \<equiv> 5"
abbreviation (input) SIGKIL :: nat where "SIGKIL \<equiv> 9"
abbreviation (input) SIGPIPE :: nat where "SIGPIPE \<equiv> 13"
abbreviation (input) SIGCHLD :: nat where "SIGCHLD \<equiv> 17"

text \<open>Error numbers.\<close>

abbreviation (input) EPERM :: int8_t where "EPERM \<equiv> 1"
abbreviation (input) ENOENT :: int8_t where "ENOENT \<equiv> 2"
abbreviation (input) ESRCH :: int8_t where "ESRCH \<equiv> 3"
abbreviation (input) EINTR :: int8_t where "EINTR \<equiv> 4"
abbreviation (input) EIO :: int8_t where "EIO \<equiv> 5"
abbreviation (input) ENXIO :: int8_t where "ENXIO \<equiv> 6"
abbreviation (input) E2BIG :: int8_t where "E2BIG \<equiv> 7"
abbreviation (input) ENOEXEC :: int8_t where "ENOEXEC \<equiv> 8"
abbreviation (input) EBADF :: int8_t where "EBADF \<equiv> 9"
abbreviation (input) ECHILD :: int8_t where "ECHILD \<equiv> 10"
abbreviation (input) EAGAIN :: int8_t where "EAGAIN \<equiv> 11"
abbreviation (input) ENOMEM :: int8_t where "ENOMEM \<equiv> 12"
abbreviation (input) EACCES :: int8_t where "EACCES \<equiv> 13"
abbreviation (input) ENOTBLK :: int8_t where "ENOTBLK \<equiv> 15"
abbreviation (input) EBUSY :: int8_t where "EBUSY \<equiv> 16"
abbreviation (input) EEXIST :: int8_t where "EEXIST \<equiv> 17"
abbreviation (input) EXDEV :: int8_t where "EXDEV \<equiv> 18"
abbreviation (input) ENODEV :: int8_t where "ENODEV \<equiv> 19"
abbreviation (input) ENOTDIR :: int8_t where "ENOTDIR \<equiv> 20"
abbreviation (input) EISDIR :: int8_t where "EISDIR \<equiv> 21"
abbreviation (input) EINVAL :: int8_t where "EINVAL \<equiv> 22"
abbreviation (input) ENFILE :: int8_t where "ENFILE \<equiv> 23"
abbreviation (input) EMFILE :: int8_t where "EMFILE \<equiv> 24"
abbreviation (input) ENOTTY :: int8_t where "ENOTTY \<equiv> 25"
abbreviation (input) ETXTBSY :: int8_t where "ETXTBSY \<equiv> 26"
abbreviation (input) ENOSPC :: int8_t where "ENOSPC \<equiv> 28"
abbreviation (input) ESPIPE :: int8_t where "ESPIPE \<equiv> 29"
abbreviation (input) EROFS :: int8_t where "EROFS \<equiv> 30"
abbreviation (input) EPIPE :: int8_t where "EPIPE \<equiv> 32"
abbreviation (input) ENOSYS :: int8_t where "ENOSYS \<equiv> 38"
abbreviation (input) EFAULT :: int8_t where "EFAULT \<equiv> 106"

subsection \<open>Pointers and sleep channels\<close>

text \<open>A \<^verbatim>\<open>struct buf *\<close>: a buffer of the pool, the header of the free list
  (\<^verbatim>\<open>&bfreelist\<close>), or a device table cast to a buffer (\<^verbatim>\<open>(struct buf *)dp\<close>), whose
  list head has the same layout.\<close>

datatype bptr = Buf nat | FreeHd | DevTab nat | NilB

text \<open>The addresses the kernel sleeps on.  \<open>ChInode i n\<close> is \<open>n\<close> bytes into
  \<^verbatim>\<open>inode[i]\<close>, so that \<^verbatim>\<open>ip + 1\<close> and \<^verbatim>\<open>(caddr_t)ip + 1\<close> are different
  channels, as they are different addresses.\<close>

datatype chan = ChNone | ChInode nat nat | ChBuf bptr | ChProc nat | ChRunin | ChRunout
  | ChFlock bptr | ChIlock bptr | ChLbolt | ChTout | ChExecnt | ChUser | ChIpc | ChText nat
  | ChRawq | ChOutq | ChKbd

text \<open>A \<^verbatim>\<open>caddr_t\<close> used for I/O: a user address, or an offset into a kernel object
  (\<^verbatim>\<open>u.u_dent\<close>, or the one local buffer of the calling function).\<close>

datatype caddr = UAddr uint32_t | KDent nat | KLocal nat

subsection \<open>struct proc\<close>

record proc =
  p_stat :: int8_t
  p_flag :: int8_t
  p_pri :: int8_t
  p_sig :: int8_t
  p_uid :: uint8_t
  p_time :: int8_t
  p_cpu :: int8_t
  p_nice :: int8_t
  p_ttyp :: "nat option"
  p_pid :: pid_t
  p_ppid :: pid_t
  p_pgrp :: pid_t
  p_sid :: pid_t
  p_umask :: uint16_t
  p_sigmask :: uint16_t
  p_exit :: uint16_t
  p_addr :: uint32_t
  p_size :: uint32_t
  p_wchan :: chan
  p_textp :: "nat option"
  p_esp :: uint32_t
  p_ebp :: uint32_t
  p_cr3 :: uint32_t

abbreviation (input) SNULL :: int8_t where "SNULL \<equiv> 0"
abbreviation (input) SSLEEP :: int8_t where "SSLEEP \<equiv> 1"
abbreviation (input) SWAIT :: int8_t where "SWAIT \<equiv> 2"
abbreviation (input) SRUN :: int8_t where "SRUN \<equiv> 3"
abbreviation (input) SIDL :: int8_t where "SIDL \<equiv> 4"
abbreviation (input) SZOMB :: int8_t where "SZOMB \<equiv> 5"
abbreviation (input) SSTOP :: int8_t where "SSTOP \<equiv> 6"

abbreviation (input) SLOAD :: int8_t where "SLOAD \<equiv> 1"
abbreviation (input) SSYS :: int8_t where "SSYS \<equiv> 2"
abbreviation (input) SLOCK :: int8_t where "SLOCK \<equiv> 4"
abbreviation (input) SSWAP :: int8_t where "SSWAP \<equiv> 8"
abbreviation (input) STRC :: int8_t where "STRC \<equiv> 16"
abbreviation (input) SWTED :: int8_t where "SWTED \<equiv> 32"

definition empty_proc :: proc where
  "empty_proc = \<lparr>p_stat = 0, p_flag = 0, p_pri = 0, p_sig = 0, p_uid = 0, p_time = 0, p_cpu = 0,
     p_nice = 0, p_ttyp = None, p_pid = 0, p_ppid = 0, p_pgrp = 0, p_sid = 0, p_umask = 0,
     p_sigmask = 0, p_exit = 0, p_addr = 0, p_size = 0, p_wchan = ChNone, p_textp = None,
     p_esp = 0, p_ebp = 0, p_cr3 = 0\<rparr>"

text \<open>The process table and the scheduler's flags (\<^verbatim>\<open>kernel/include/systm.h\<close>).\<close>

record sched =
  procs :: "proc list"
  runin :: int8_t
  runout :: int8_t
  runrun :: int8_t
  curpri :: int8_t
  curproc :: "nat option"
  mpid :: int32_t

subsection \<open>struct user\<close>

record user =
  u_segflg :: int8_t
  u_error :: int8_t
  u_uid :: uint8_t
  u_gid :: uint8_t
  u_ruid :: uint8_t
  u_rgid :: uint8_t
  u_procp :: nat
  u_base :: caddr
  u_count :: uint32_t
  u_offset0 :: int32_t
  u_offset1 :: int32_t
  u_cdir :: "nat option"
  u_dbuf :: block
  u_dirp :: caddr
  u_dent :: block
  u_pdir :: "nat option"
  u_ofile :: "nat option list"
  u_fdflags :: "uint8_t list"
  u_arg :: "uint32_t list"
  u_ar0 :: "uint32_t list"
  u_tsize :: uint32_t
  u_dsize :: uint32_t
  u_ssize :: uint32_t
  u_sep :: int32_t
  u_signal :: "uint32_t list"
  u_sigrest :: "uint32_t list"
  u_utime :: uint32_t
  u_stime :: uint32_t
  u_cutime0 :: uint32_t
  u_cutime1 :: uint32_t
  u_cstime0 :: uint32_t
  u_cstime1 :: uint32_t
  u_prof :: "uint32_t list"
  u_intflg :: int8_t

text \<open>Indices of the saved registers in the trap frame (\<^verbatim>\<open>reg.h\<close>).\<close>

abbreviation (input) ESP_SAVE :: nat where "ESP_SAVE \<equiv> 7"
abbreviation (input) EDX :: nat where "EDX \<equiv> 9"
abbreviation (input) ECX :: nat where "ECX \<equiv> 10"
abbreviation (input) EAX :: nat where "EAX \<equiv> 11"
abbreviation (input) EIP :: nat where "EIP \<equiv> 14"
abbreviation (input) EFLAGS :: nat where "EFLAGS \<equiv> 16"

text \<open>\<^verbatim>\<open>u.u_dent.u_ino\<close> and \<^verbatim>\<open>u.u_dent.u_name[i]\<close>: the directory entry is a
  16-byte object that the code also addresses through \<^verbatim>\<open>&u.u_dent\<close>.\<close>

definition dent_ino :: "block \<Rightarrow> ino_t" where
  "dent_ino d = get16 d 0"

definition dent_name :: "block \<Rightarrow> nat \<Rightarrow> byte" where
  "dent_name d i = d (2 + i)"

subsection \<open>struct buf, struct devtab and the block switch\<close>

record buf =
  b_flags :: int32_t
  b_forw :: bptr
  b_back :: bptr
  av_forw :: bptr
  av_back :: bptr
  b_dev :: dev_t
  b_wcount :: int32_t
  b_addr :: block
  b_blkno :: int32_t
  b_error :: int8_t
  b_resid :: uint32_t

abbreviation (input) B_READ :: int32_t where "B_READ \<equiv> 1"
abbreviation (input) B_DONE :: int32_t where "B_DONE \<equiv> 2"
abbreviation (input) B_ERROR :: int32_t where "B_ERROR \<equiv> 4"
abbreviation (input) B_BUSY :: int32_t where "B_BUSY \<equiv> 8"
abbreviation (input) B_WANTED :: int32_t where "B_WANTED \<equiv> 64"
abbreviation (input) B_ASYNC :: int32_t where "B_ASYNC \<equiv> 256"
abbreviation (input) B_DELWRI :: int32_t where "B_DELWRI \<equiv> 512"

text \<open>An entry of \<^verbatim>\<open>bdevsw\<close>.  The driver a function pointer points to is named by
  \<open>bdrv\<close>; the RAM disk is the one whose code is modelled.\<close>

datatype bdrv = NoDrv | RamDrv

record bdevent =
  d_strategy :: bdrv
  d_tab :: bool

text \<open>The buffer cache.  \<open>bufs\<close> holds the pool \<^verbatim>\<open>buf[NBUF]\<close> and, at the other
  pointers, the list headers; \<^verbatim>\<open>b_addr\<close> is the block the buffer's address points to.\<close>

record bio =
  bufs :: "bptr \<Rightarrow> buf"
  bdevsw :: "bdevent list"
  nblkdev :: nat
  ramdisk :: "nat \<Rightarrow> block"

subsection \<open>The superblock and the disk inode\<close>

text \<open>\<^verbatim>\<open>struct filsys\<close> as the compiler lays it out on the superblock's buffer.\<close>

definition s_isize :: "block \<Rightarrow> uint16_t" where "s_isize b = get16 b 0"
definition s_fsize :: "block \<Rightarrow> daddr_t" where "s_fsize b = get32 b 4"
definition s_nfree :: "block \<Rightarrow> int16_t" where "s_nfree b = get16 b 8"
definition s_free :: "block \<Rightarrow> nat \<Rightarrow> daddr_t" where "s_free b i = get32 b (12 + 4 * i)"
definition s_ninode :: "block \<Rightarrow> int16_t" where "s_ninode b = get16 b 212"
definition s_inode :: "block \<Rightarrow> nat \<Rightarrow> ino_t" where "s_inode b i = get16 b (214 + 2 * i)"
definition s_flock :: "block \<Rightarrow> int8_t" where "s_flock b = b 314"
definition s_ilock :: "block \<Rightarrow> int8_t" where "s_ilock b = b 315"
definition s_fmod :: "block \<Rightarrow> int8_t" where "s_fmod b = b 316"
definition s_ronly :: "block \<Rightarrow> int8_t" where "s_ronly b = b 317"

definition set_nfree :: "int16_t \<Rightarrow> block \<Rightarrow> block" where "set_nfree v b = put16 b 8 v"
definition set_free :: "nat \<Rightarrow> daddr_t \<Rightarrow> block \<Rightarrow> block" where
  "set_free i v b = put32 b (12 + 4 * i) v"
definition set_ninode :: "int16_t \<Rightarrow> block \<Rightarrow> block" where "set_ninode v b = put16 b 212 v"
definition set_inode :: "nat \<Rightarrow> ino_t \<Rightarrow> block \<Rightarrow> block" where
  "set_inode i v b = put16 b (214 + 2 * i) v"
definition set_flock :: "int8_t \<Rightarrow> block \<Rightarrow> block" where "set_flock v b = b(314 := v)"
definition set_ilock :: "int8_t \<Rightarrow> block \<Rightarrow> block" where "set_ilock v b = b(315 := v)"
definition set_fmod :: "int8_t \<Rightarrow> block \<Rightarrow> block" where "set_fmod v b = b(316 := v)"
definition set_ronly :: "int8_t \<Rightarrow> block \<Rightarrow> block" where "set_ronly v b = b(317 := v)"
definition set_stime :: "int32_t \<Rightarrow> int32_t \<Rightarrow> block \<Rightarrow> block" where
  "set_stime t0 t1 b = put32 (put32 b 320 t0) 324 t1"

lemmas sb_defs = s_isize_def s_fsize_def s_nfree_def s_free_def s_ninode_def s_inode_def
  s_flock_def s_ilock_def s_fmod_def s_ronly_def set_nfree_def set_free_def set_ninode_def
  set_inode_def set_flock_def set_ilock_def set_fmod_def set_ronly_def set_stime_def

subsection \<open>struct inode, struct file, struct mount, struct text, struct callo\<close>

record inode =
  i_flag :: int8_t
  i_count :: int8_t
  i_dev :: dev_t
  i_number :: ino_t
  i_mode :: mode_t
  i_nlink :: int8_t
  i_uid :: uint16_t
  i_gid :: uint16_t
  i_size0 :: uint8_t
  i_size1 :: uint32_t
  i_addr :: "daddr_t list"
  i_lastr :: daddr_t
  i_atime :: int32_t
  i_mtime :: int32_t
  i_ctime :: int32_t

abbreviation (input) ILOCK :: int8_t where "ILOCK \<equiv> 1"
abbreviation (input) IUPD :: int8_t where "IUPD \<equiv> 2"
abbreviation (input) IACC :: int8_t where "IACC \<equiv> 4"
abbreviation (input) IMOUNT :: int8_t where "IMOUNT \<equiv> 8"
abbreviation (input) IWANT :: int8_t where "IWANT \<equiv> 16"
abbreviation (input) ITEXT :: int8_t where "ITEXT \<equiv> 32"
abbreviation (input) ICHG :: int8_t where "ICHG \<equiv> 64"

abbreviation (input) IALLOC :: mode_t where "IALLOC \<equiv> 0x8000"
abbreviation (input) IFMT :: mode_t where "IFMT \<equiv> 0x6000"
abbreviation (input) IFDIR :: mode_t where "IFDIR \<equiv> 0x4000"
abbreviation (input) IFCHR :: mode_t where "IFCHR \<equiv> 0x2000"
abbreviation (input) IFBLK :: mode_t where "IFBLK \<equiv> 0x6000"
abbreviation (input) IFREG :: mode_t where "IFREG \<equiv> 0"
abbreviation (input) ILARG :: mode_t where "ILARG \<equiv> 0x1000"
abbreviation (input) ISUID :: mode_t where "ISUID \<equiv> 0x800"
abbreviation (input) ISGID :: mode_t where "ISGID \<equiv> 0x400"
abbreviation (input) ISVTX :: mode_t where "ISVTX \<equiv> 0x200"
abbreviation (input) IREAD :: mode_t where "IREAD \<equiv> 0x100"
abbreviation (input) IWRITE :: mode_t where "IWRITE \<equiv> 0x80"
abbreviation (input) IEXEC :: mode_t where "IEXEC \<equiv> 0x40"

record openfile =
  f_flag :: int8_t
  f_count :: int8_t
  f_inode :: nat
  f_offset0 :: int32_t
  f_offset1 :: int32_t

abbreviation (input) FREAD :: int8_t where "FREAD \<equiv> 1"
abbreviation (input) FWRITE :: int8_t where "FWRITE \<equiv> 2"
abbreviation (input) FPIPE :: int8_t where "FPIPE \<equiv> 4"
abbreviation (input) FAPPEND :: int8_t where "FAPPEND \<equiv> 8"
abbreviation (input) FNONBLOCK :: int8_t where "FNONBLOCK \<equiv> 16"

record mount =
  m_dev :: dev_t
  m_bufp :: bptr
  m_inodp :: "nat option"

record textseg =
  x_daddr :: daddr_t
  x_caddr :: daddr_t
  x_size :: uint32_t
  x_iptr :: "nat option"
  x_count :: int8_t
  x_ccount :: int8_t
  x_flag :: int8_t

abbreviation (input) XLOCK :: int8_t where "XLOCK \<equiv> 1"
abbreviation (input) XWANT :: int8_t where "XWANT \<equiv> 2"

text \<open>A callout; \<^verbatim>\<open>c_func\<close> is the address of the routine, \<open>None\<close> for \<^verbatim>\<open>NULL\<close>.\<close>

record callo =
  c_time :: int32_t
  c_arg :: uint32_t
  c_func :: "nat option"

text \<open>An entry of a resource map (\<^verbatim>\<open>struct map\<close> of \<^verbatim>\<open>malloc.c\<close>).\<close>

record mapent =
  m_size :: int32_t
  m_addr :: int32_t

subsection \<open>The kernel's global state\<close>

record fsys =
  inodes :: "inode list"
  mounts :: "mount list"
  rootdir :: "nat option"
  rootdev :: dev_t
  updlock :: int32_t
  rablock :: int32_t

text \<open>The \<^verbatim>\<open>ptrace\<close> mailbox of \<^verbatim>\<open>sig.c\<close>.\<close>

record ipcbox =
  ip_lock :: int8_t
  ip_req :: int8_t
  ip_addr :: uint32_t
  ip_data :: int32_t

record clk =
  lbolt :: int32_t
  time0 :: int32_t
  time1 :: int32_t
  tout0 :: int32_t
  tout1 :: int32_t
  callout :: "callo list"

text \<open>\<open>k_u\<close> is the global \<^verbatim>\<open>u\<close>; \<open>k_uarea\<close> is the copy of the u-area kept at the
  start of each process's image (\<^verbatim>\<open>p_addr * 64\<close>), by process slot.  \<open>phys\<close> is the
  physical memory the user images lie in, and \<open>klocal\<close> the one local object of the running
  system call that a kernel-space \<^verbatim>\<open>u_base\<close> or \<^verbatim>\<open>u_dirp\<close> can point to.\<close>

record kernel =
  k_u :: user
  k_uarea :: "nat \<Rightarrow> user"
  k_sch :: sched
  k_bio :: bio
  k_fs :: fsys
  k_file :: "openfile list"
  k_text :: "textseg list"
  k_clk :: clk
  k_ipc :: ipcbox
  coremap :: "mapent list"
  execnt :: int32_t
  maxmem :: uint32_t
  phys :: "uint32_t \<Rightarrow> byte"
  klocal :: block
  gdt3 :: "64 word"
  gdt4 :: "64 word"

subsection \<open>The zeroed global data\<close>

definition zero_user :: user where
  "zero_user = \<lparr>u_segflg = 0, u_error = 0, u_uid = 0, u_gid = 0, u_ruid = 0, u_rgid = 0, u_procp = 0,
     u_base = UAddr 0, u_count = 0, u_offset0 = 0, u_offset1 = 0, u_cdir = None, u_dbuf = (\<lambda>_. 0),
     u_dirp = UAddr 0, u_dent = (\<lambda>_. 0), u_pdir = None, u_ofile = replicate NOFILE None,
     u_fdflags = replicate NOFILE 0, u_arg = replicate 6 0, u_ar0 = replicate 19 0, u_tsize = 0,
     u_dsize = 0, u_ssize = 0, u_sep = 0, u_signal = replicate NSIG 0, u_sigrest = replicate NSIG 0,
     u_utime = 0, u_stime = 0, u_cutime0 = 0, u_cutime1 = 0, u_cstime0 = 0, u_cstime1 = 0,
     u_prof = replicate 4 0, u_intflg = 0\<rparr>"

definition zero_buf :: buf where
  "zero_buf = \<lparr>b_flags = 0, b_forw = NilB, b_back = NilB, av_forw = NilB, av_back = NilB, b_dev = 0,
     b_wcount = 0, b_addr = (\<lambda>_. 0), b_blkno = 0, b_error = 0, b_resid = 0\<rparr>"

definition zero_inode :: inode where
  "zero_inode = \<lparr>i_flag = 0, i_count = 0, i_dev = 0, i_number = 0, i_mode = 0, i_nlink = 0, i_uid = 0,
     i_gid = 0, i_size0 = 0, i_size1 = 0, i_addr = replicate 8 0, i_lastr = 0, i_atime = 0,
     i_mtime = 0, i_ctime = 0\<rparr>"

definition zero_kernel :: kernel where
  "zero_kernel = \<lparr>k_u = zero_user, k_uarea = (\<lambda>_. zero_user),
     k_sch = \<lparr>procs = replicate NPROC empty_proc, runin = 0, runout = 0, runrun = 0, curpri = 0,
       curproc = None, mpid = 0\<rparr>,
     k_bio = \<lparr>bufs = (\<lambda>_. zero_buf), bdevsw = replicate NBLKDEV \<lparr>d_strategy = NoDrv, d_tab = False\<rparr>,
       nblkdev = 0, ramdisk = (\<lambda>_ _. 0)\<rparr>,
     k_fs = \<lparr>inodes = replicate NINODE zero_inode,
       mounts = replicate NMOUNT \<lparr>m_dev = 0, m_bufp = NilB, m_inodp = None\<rparr>,
       rootdir = None, rootdev = 0, updlock = 0, rablock = 0\<rparr>,
     k_file = replicate NFILE \<lparr>f_flag = 0, f_count = 0, f_inode = 0, f_offset0 = 0, f_offset1 = 0\<rparr>,
     k_text = replicate NTEXT \<lparr>x_daddr = 0, x_caddr = 0, x_size = 0, x_iptr = None, x_count = 0,
       x_ccount = 0, x_flag = 0\<rparr>,
     k_clk = \<lparr>lbolt = 0, time0 = 0, time1 = 0, tout0 = 0, tout1 = 0,
       callout = replicate NCALL \<lparr>c_time = 0, c_arg = 0, c_func = None\<rparr>\<rparr>,
     k_ipc = \<lparr>ip_lock = 0, ip_req = 0, ip_addr = 0, ip_data = 0\<rparr>,
     coremap = replicate 50 \<lparr>m_size = 0, m_addr = 0\<rparr>, execnt = 0, maxmem = 0, phys = (\<lambda>_. 0),
     klocal = (\<lambda>_. 0), gdt3 = 0, gdt4 = 0\<rparr>"

end
