(* ===== verification/Kernel_Monad.thy ===== *)
theory Kernel_Monad
  imports Kernel_State
begin

text \<open>
  How an operation of the kernel runs.  A C function that only computes and updates is a
  function on \<^typ>\<open>kernel\<close>.  One that can also stop before its end, because it sleeps,
  panics or loops for ever, returns a \<open>res\<close>: \<open>Ret\<close> with its value and the final state,
  or \<open>Stop\<close> with the reason and the state at that point.  The loops that wait
  (\<^verbatim>\<open>while (locked) sleep(...)\<close>) stop at their first sleep; when the process is woken
  it runs the same code again from the loop's label, which is calling the operation
  again in the state of that moment.
\<close>

datatype stop =
    Slept                \<comment> \<open>gave up the processor in \<^verbatim>\<open>sleep\<close>, on the channel in \<open>p_wchan\<close>\<close>
  | Interrupted          \<comment> \<open>\<^verbatim>\<open>sleep\<close> took the non-local goto \<^verbatim>\<open>aretu(u.u_qsav)\<close>\<close>
  | Switched             \<comment> \<open>called \<^verbatim>\<open>swtch\<close>, and another process runs\<close>
  | Idling               \<comment> \<open>\<^verbatim>\<open>swtch\<close> found no process to run\<close>
  | Exits                \<comment> \<open>called \<^verbatim>\<open>exit\<close>\<close>
  | Panicked string      \<comment> \<open>called \<^verbatim>\<open>panic\<close>\<close>
  | Spins                \<comment> \<open>a loop ran past the number of rounds its data allow\<close>
  | OutOfBounds          \<comment> \<open>accessed an array past its end (undefined in C)\<close>
  | CharDriver bool dev_t  \<comment> \<open>entered a character driver (write?), outside the model\<close>

datatype 'a res = Ret 'a kernel | Stop stop kernel

type_synonym 'a kop = "kernel \<Rightarrow> 'a res"

definition ret :: "'a \<Rightarrow> 'a kop" where
  "ret x k = Ret x k"

definition stop :: "stop \<Rightarrow> 'a kop" where
  "stop c k = Stop c k"

definition kbind :: "'a kop \<Rightarrow> ('a \<Rightarrow> 'b kop) \<Rightarrow> 'b kop" where
  "kbind m f k = (case m k of Ret x k' \<Rightarrow> f x k' | Stop c k' \<Rightarrow> Stop c k')"

text \<open>Sequencing of two statements, a statement that only updates, and an expression
  that only reads.\<close>

definition kseq :: "unit kop \<Rightarrow> 'b kop \<Rightarrow> 'b kop" where
  "kseq m n = kbind m (\<lambda>_. n)"

definition act :: "(kernel \<Rightarrow> kernel) \<Rightarrow> unit kop" where
  "act f k = Ret () (f k)"

definition ask :: "(kernel \<Rightarrow> 'a) \<Rightarrow> 'a kop" where
  "ask f k = Ret (f k) k"

text \<open>A loop that does one operation for each element.\<close>

primrec each :: "('a \<Rightarrow> unit kop) \<Rightarrow> 'a list \<Rightarrow> unit kop" where
  "each f [] = ret ()"
| "each f (x # xs) = kseq (f x) (each f xs)"

lemma ret_run [simp]: "ret x k = Ret x k"
  by (simp add: ret_def)

lemma stop_run [simp]: "stop c k = Stop c k"
  by (simp add: stop_def)

lemma act_run [simp]: "act f k = Ret () (f k)"
  by (simp add: act_def)

lemma ask_run [simp]: "ask f k = Ret (f k) k"
  by (simp add: ask_def)

lemma kbind_Ret [simp]: "m k = Ret x k' \<Longrightarrow> kbind m f k = f x k'"
  by (simp add: kbind_def)

lemma kbind_Stop [simp]: "m k = Stop c k' \<Longrightarrow> kbind m f k = Stop c k'"
  by (simp add: kbind_def)

lemma kseq_Ret [simp]: "m k = Ret () k' \<Longrightarrow> kseq m n k = n k'"
  by (simp add: kseq_def)

lemma kseq_Stop [simp]: "m k = Stop c k' \<Longrightarrow> kseq m n k = Stop c k'"
  by (simp add: kseq_def)

lemma kbind_Ret_iff:
  "kbind m f k = Ret y k'' \<longleftrightarrow> (\<exists>x k'. m k = Ret x k' \<and> f x k' = Ret y k'')"
  by (simp add: kbind_def split: res.splits)

lemma kseq_Ret_iff:
  "kseq m n k = Ret y k'' \<longleftrightarrow> (\<exists>k'. m k = Ret () k' \<and> n k' = Ret y k'')"
  by (simp add: kseq_def kbind_Ret_iff)

lemmas run_iffs = kbind_Ret_iff kseq_Ret_iff

subsection \<open>Reading and updating the parts of the state\<close>

definition upd_u :: "(user \<Rightarrow> user) \<Rightarrow> kernel \<Rightarrow> kernel" where
  "upd_u f k = k\<lparr>k_u := f (k_u k)\<rparr>"

definition set_error :: "int8_t \<Rightarrow> kernel \<Rightarrow> kernel" where
  "set_error e = upd_u (\<lambda>u. u\<lparr>u_error := e\<rparr>)"

definition upd_sch :: "(sched \<Rightarrow> sched) \<Rightarrow> kernel \<Rightarrow> kernel" where
  "upd_sch f k = k\<lparr>k_sch := f (k_sch k)\<rparr>"

definition bufp :: "kernel \<Rightarrow> bptr \<Rightarrow> buf" where
  "bufp k bp = bufs (k_bio k) bp"

definition upd_buf :: "bptr \<Rightarrow> (buf \<Rightarrow> buf) \<Rightarrow> kernel \<Rightarrow> kernel" where
  "upd_buf bp f k = k\<lparr>k_bio := (k_bio k)\<lparr>bufs := (bufs (k_bio k))(bp := f (bufs (k_bio k) bp))\<rparr>\<rparr>"

definition inodep :: "kernel \<Rightarrow> nat \<Rightarrow> inode" where
  "inodep k i = inodes (k_fs k) ! i"

definition upd_inode :: "nat \<Rightarrow> (inode \<Rightarrow> inode) \<Rightarrow> kernel \<Rightarrow> kernel" where
  "upd_inode i f k = k\<lparr>k_fs := (k_fs k)\<lparr>inodes := (inodes (k_fs k))[i := f (inodes (k_fs k) ! i)]\<rparr>\<rparr>"

definition upd_file :: "nat \<Rightarrow> (openfile \<Rightarrow> openfile) \<Rightarrow> kernel \<Rightarrow> kernel" where
  "upd_file i f k = k\<lparr>k_file := (k_file k)[i := f (k_file k ! i)]\<rparr>"

definition procp :: "kernel \<Rightarrow> nat \<Rightarrow> proc" where
  "procp k i = procs (k_sch k) ! i"

definition upd_proc :: "nat \<Rightarrow> (proc \<Rightarrow> proc) \<Rightarrow> kernel \<Rightarrow> kernel" where
  "upd_proc i f = upd_sch (\<lambda>s. s\<lparr>procs := (procs s)[i := f (procs s ! i)]\<rparr>)"

text \<open>\<^verbatim>\<open>u.u_ar0[r] = v\<close> and \<^verbatim>\<open>u.u_arg[n]\<close>.\<close>

definition set_ar0 :: "nat \<Rightarrow> uint32_t \<Rightarrow> kernel \<Rightarrow> kernel" where
  "set_ar0 r v = upd_u (\<lambda>u. u\<lparr>u_ar0 := (u_ar0 u)[r := v]\<rparr>)"

definition arg :: "nat \<Rightarrow> kernel \<Rightarrow> uint32_t" where
  "arg n k = u_arg (k_u k) ! n"

lemmas upd_defs = upd_u_def upd_sch_def upd_buf_def upd_inode_def upd_file_def upd_proc_def
  set_error_def set_ar0_def

subsection \<open>What each update leaves alone\<close>

lemma upd_u_sel [simp]:
  "k_u (upd_u f k) = f (k_u k)"
  "k_uarea (upd_u f k) = k_uarea k"
  "k_sch (upd_u f k) = k_sch k"
  "k_bio (upd_u f k) = k_bio k"
  "k_fs (upd_u f k) = k_fs k"
  "k_file (upd_u f k) = k_file k"
  "k_text (upd_u f k) = k_text k"
  "k_clk (upd_u f k) = k_clk k"
  "k_ipc (upd_u f k) = k_ipc k"
  "coremap (upd_u f k) = coremap k"
  "execnt (upd_u f k) = execnt k"
  "maxmem (upd_u f k) = maxmem k"
  "phys (upd_u f k) = phys k"
  "klocal (upd_u f k) = klocal k"
  "gdt3 (upd_u f k) = gdt3 k"
  "gdt4 (upd_u f k) = gdt4 k"
  by (simp_all add: upd_u_def)

lemma upd_sch_sel [simp]:
  "k_u (upd_sch f k) = k_u k"
  "k_uarea (upd_sch f k) = k_uarea k"
  "k_sch (upd_sch f k) = f (k_sch k)"
  "k_bio (upd_sch f k) = k_bio k"
  "k_fs (upd_sch f k) = k_fs k"
  "k_file (upd_sch f k) = k_file k"
  "k_text (upd_sch f k) = k_text k"
  "k_clk (upd_sch f k) = k_clk k"
  "k_ipc (upd_sch f k) = k_ipc k"
  "coremap (upd_sch f k) = coremap k"
  "execnt (upd_sch f k) = execnt k"
  "maxmem (upd_sch f k) = maxmem k"
  "phys (upd_sch f k) = phys k"
  "klocal (upd_sch f k) = klocal k"
  "gdt3 (upd_sch f k) = gdt3 k"
  "gdt4 (upd_sch f k) = gdt4 k"
  by (simp_all add: upd_sch_def)

lemma upd_buf_sel [simp]:
  "k_u (upd_buf bp g k) = k_u k"
  "k_uarea (upd_buf bp g k) = k_uarea k"
  "k_sch (upd_buf bp g k) = k_sch k"
  "k_fs (upd_buf bp g k) = k_fs k"
  "k_file (upd_buf bp g k) = k_file k"
  "k_text (upd_buf bp g k) = k_text k"
  "k_clk (upd_buf bp g k) = k_clk k"
  "k_ipc (upd_buf bp g k) = k_ipc k"
  "coremap (upd_buf bp g k) = coremap k"
  "execnt (upd_buf bp g k) = execnt k"
  "maxmem (upd_buf bp g k) = maxmem k"
  "phys (upd_buf bp g k) = phys k"
  "klocal (upd_buf bp g k) = klocal k"
  "gdt3 (upd_buf bp g k) = gdt3 k"
  "gdt4 (upd_buf bp g k) = gdt4 k"
  by (simp_all add: upd_buf_def)

lemma upd_inode_sel [simp]:
  "k_u (upd_inode i h k) = k_u k"
  "k_uarea (upd_inode i h k) = k_uarea k"
  "k_sch (upd_inode i h k) = k_sch k"
  "k_bio (upd_inode i h k) = k_bio k"
  "k_file (upd_inode i h k) = k_file k"
  "k_text (upd_inode i h k) = k_text k"
  "k_clk (upd_inode i h k) = k_clk k"
  "k_ipc (upd_inode i h k) = k_ipc k"
  "coremap (upd_inode i h k) = coremap k"
  "execnt (upd_inode i h k) = execnt k"
  "maxmem (upd_inode i h k) = maxmem k"
  "phys (upd_inode i h k) = phys k"
  "klocal (upd_inode i h k) = klocal k"
  "gdt3 (upd_inode i h k) = gdt3 k"
  "gdt4 (upd_inode i h k) = gdt4 k"
  by (simp_all add: upd_inode_def)

lemma upd_file_sel [simp]:
  "k_u (upd_file i o' k) = k_u k"
  "k_uarea (upd_file i o' k) = k_uarea k"
  "k_sch (upd_file i o' k) = k_sch k"
  "k_bio (upd_file i o' k) = k_bio k"
  "k_fs (upd_file i o' k) = k_fs k"
  "k_file (upd_file i o' k) = (k_file k)[i := o' (k_file k ! i)]"
  "k_text (upd_file i o' k) = k_text k"
  "k_clk (upd_file i o' k) = k_clk k"
  "k_ipc (upd_file i o' k) = k_ipc k"
  "coremap (upd_file i o' k) = coremap k"
  "execnt (upd_file i o' k) = execnt k"
  "maxmem (upd_file i o' k) = maxmem k"
  "phys (upd_file i o' k) = phys k"
  "klocal (upd_file i o' k) = klocal k"
  "gdt3 (upd_file i o' k) = gdt3 k"
  "gdt4 (upd_file i o' k) = gdt4 k"
  by (simp_all add: upd_file_def)

lemma set_error_u [simp]: "k_u (set_error e k) = (k_u k)\<lparr>u_error := e\<rparr>"
  by (simp add: set_error_def)

lemma set_ar0_u [simp]: "k_u (set_ar0 r v k) = (k_u k)\<lparr>u_ar0 := (u_ar0 (k_u k))[r := v]\<rparr>"
  by (simp add: set_ar0_def)

lemma set_error_sel [simp]:
  "k_uarea (set_error e k) = k_uarea k"
  "k_sch (set_error e k) = k_sch k"
  "k_bio (set_error e k) = k_bio k"
  "k_fs (set_error e k) = k_fs k"
  "k_file (set_error e k) = k_file k"
  "k_text (set_error e k) = k_text k"
  "k_clk (set_error e k) = k_clk k"
  "k_ipc (set_error e k) = k_ipc k"
  "coremap (set_error e k) = coremap k"
  "execnt (set_error e k) = execnt k"
  "maxmem (set_error e k) = maxmem k"
  "phys (set_error e k) = phys k"
  "klocal (set_error e k) = klocal k"
  "gdt3 (set_error e k) = gdt3 k"
  "gdt4 (set_error e k) = gdt4 k"
  by (simp_all add: set_error_def)

lemma set_ar0_sel [simp]:
  "k_uarea (set_ar0 r v k) = k_uarea k"
  "k_sch (set_ar0 r v k) = k_sch k"
  "k_bio (set_ar0 r v k) = k_bio k"
  "k_fs (set_ar0 r v k) = k_fs k"
  "k_file (set_ar0 r v k) = k_file k"
  "k_text (set_ar0 r v k) = k_text k"
  "k_clk (set_ar0 r v k) = k_clk k"
  "k_ipc (set_ar0 r v k) = k_ipc k"
  "coremap (set_ar0 r v k) = coremap k"
  "execnt (set_ar0 r v k) = execnt k"
  "maxmem (set_ar0 r v k) = maxmem k"
  "phys (set_ar0 r v k) = phys k"
  "klocal (set_ar0 r v k) = klocal k"
  "gdt3 (set_ar0 r v k) = gdt3 k"
  "gdt4 (set_ar0 r v k) = gdt4 k"
  by (simp_all add: set_ar0_def)

lemma upd_proc_sel [simp]:
  "k_u (upd_proc i p k) = k_u k"
  "k_uarea (upd_proc i p k) = k_uarea k"
  "k_bio (upd_proc i p k) = k_bio k"
  "k_fs (upd_proc i p k) = k_fs k"
  "k_file (upd_proc i p k) = k_file k"
  "k_text (upd_proc i p k) = k_text k"
  "k_clk (upd_proc i p k) = k_clk k"
  "k_ipc (upd_proc i p k) = k_ipc k"
  "coremap (upd_proc i p k) = coremap k"
  "execnt (upd_proc i p k) = execnt k"
  "maxmem (upd_proc i p k) = maxmem k"
  "phys (upd_proc i p k) = phys k"
  "klocal (upd_proc i p k) = klocal k"
  "gdt3 (upd_proc i p k) = gdt3 k"
  "gdt4 (upd_proc i p k) = gdt4 k"
  by (simp_all add: upd_proc_def)

lemma bufp_upd_buf [simp]: "bufp (upd_buf bp g k) bq = (if bq = bp then g (bufp k bp) else bufp k bq)"
  by (simp add: bufp_def upd_buf_def)

lemma upd_buf_bio [simp]:
  "bdevsw (k_bio (upd_buf bp g k)) = bdevsw (k_bio k)" "nblkdev (k_bio (upd_buf bp g k)) = nblkdev (k_bio k)"
  "ramdisk (k_bio (upd_buf bp g k)) = ramdisk (k_bio k)"
  by (simp_all add: upd_buf_def)

lemma inodep_upd_inode [simp]:
  "i < length (inodes (k_fs k)) \<Longrightarrow> inodep (upd_inode i h k) j = (if j = i then h (inodep k i) else inodep k j)"
  by (simp add: inodep_def upd_inode_def)

lemma upd_inode_fs [simp]:
  "length (inodes (k_fs (upd_inode i h k))) = length (inodes (k_fs k))"
  "mounts (k_fs (upd_inode i h k)) = mounts (k_fs k)" "rootdir (k_fs (upd_inode i h k)) = rootdir (k_fs k)"
  "rootdev (k_fs (upd_inode i h k)) = rootdev (k_fs k)" "updlock (k_fs (upd_inode i h k)) = updlock (k_fs k)"
  "rablock (k_fs (upd_inode i h k)) = rablock (k_fs k)"
  by (simp_all add: upd_inode_def)

lemma procp_upd_proc [simp]:
  "i < length (procs (k_sch k)) \<Longrightarrow> procp (upd_proc i p k) j = (if j = i then p (procp k i) else procp k j)"
  by (simp add: procp_def upd_proc_def)

lemma upd_proc_sch [simp]:
  "length (procs (k_sch (upd_proc i p k))) = length (procs (k_sch k))"
  "runin (k_sch (upd_proc i p k)) = runin (k_sch k)" "runout (k_sch (upd_proc i p k)) = runout (k_sch k)"
  "runrun (k_sch (upd_proc i p k)) = runrun (k_sch k)" "curpri (k_sch (upd_proc i p k)) = curpri (k_sch k)"
  "curproc (k_sch (upd_proc i p k)) = curproc (k_sch k)" "mpid (k_sch (upd_proc i p k)) = mpid (k_sch k)"
  by (simp_all add: upd_proc_def)

text \<open>A part of the state read through \<^verbatim>\<open>bufp\<close>, \<^verbatim>\<open>inodep\<close> or \<^verbatim>\<open>procp\<close>.\<close>

lemma bufp_cong: "k_bio k = k_bio k' \<Longrightarrow> bufp k = bufp k'"
  by (simp add: bufp_def fun_eq_iff)

lemma inodep_cong: "k_fs k = k_fs k' \<Longrightarrow> inodep k = inodep k'"
  by (simp add: inodep_def fun_eq_iff)

lemma procp_cong: "k_sch k = k_sch k' \<Longrightarrow> procp k = procp k'"
  by (simp add: procp_def fun_eq_iff)

lemma procp_fields [simp]:
  "procp (k\<lparr>k_u := x0\<rparr>) = procp k"
  "procp (k\<lparr>k_uarea := x1\<rparr>) = procp k"
  "procp (k\<lparr>k_bio := x3\<rparr>) = procp k"
  "procp (k\<lparr>k_fs := x4\<rparr>) = procp k"
  "procp (k\<lparr>k_file := x5\<rparr>) = procp k"
  "procp (k\<lparr>k_text := x6\<rparr>) = procp k"
  "procp (k\<lparr>k_clk := x7\<rparr>) = procp k"
  "procp (k\<lparr>k_ipc := x8\<rparr>) = procp k"
  "procp (k\<lparr>coremap := x9\<rparr>) = procp k"
  "procp (k\<lparr>execnt := x10\<rparr>) = procp k"
  "procp (k\<lparr>maxmem := x11\<rparr>) = procp k"
  "procp (k\<lparr>phys := x12\<rparr>) = procp k"
  "procp (k\<lparr>klocal := x13\<rparr>) = procp k"
  "procp (k\<lparr>gdt3 := x14\<rparr>) = procp k"
  "procp (k\<lparr>gdt4 := x15\<rparr>) = procp k"
  by (simp_all add: procp_def fun_eq_iff)

lemma procp_upd_u [simp]: "procp (upd_u f k) = procp k"
  by (rule procp_cong) simp

lemma procp_upd_buf [simp]: "procp (upd_buf bp g k) = procp k"
  by (rule procp_cong) simp

lemma procp_upd_inode [simp]: "procp (upd_inode i h k) = procp k"
  by (rule procp_cong) simp

lemma procp_upd_file [simp]: "procp (upd_file i o' k) = procp k"
  by (rule procp_cong) simp

lemma procp_set_error [simp]: "procp (set_error e k) = procp k"
  by (rule procp_cong) simp

lemma procp_set_ar0 [simp]: "procp (set_ar0 r v k) = procp k"
  by (rule procp_cong) simp

lemma bufp_fields [simp]:
  "bufp (k\<lparr>k_u := x0\<rparr>) = bufp k"
  "bufp (k\<lparr>k_uarea := x1\<rparr>) = bufp k"
  "bufp (k\<lparr>k_sch := x2\<rparr>) = bufp k"
  "bufp (k\<lparr>k_fs := x4\<rparr>) = bufp k"
  "bufp (k\<lparr>k_file := x5\<rparr>) = bufp k"
  "bufp (k\<lparr>k_text := x6\<rparr>) = bufp k"
  "bufp (k\<lparr>k_clk := x7\<rparr>) = bufp k"
  "bufp (k\<lparr>k_ipc := x8\<rparr>) = bufp k"
  "bufp (k\<lparr>coremap := x9\<rparr>) = bufp k"
  "bufp (k\<lparr>execnt := x10\<rparr>) = bufp k"
  "bufp (k\<lparr>maxmem := x11\<rparr>) = bufp k"
  "bufp (k\<lparr>phys := x12\<rparr>) = bufp k"
  "bufp (k\<lparr>klocal := x13\<rparr>) = bufp k"
  "bufp (k\<lparr>gdt3 := x14\<rparr>) = bufp k"
  "bufp (k\<lparr>gdt4 := x15\<rparr>) = bufp k"
  by (simp_all add: bufp_def fun_eq_iff)

lemma bufp_upd_u [simp]: "bufp (upd_u f k) = bufp k"
  by (rule bufp_cong) simp

lemma bufp_upd_sch [simp]: "bufp (upd_sch f k) = bufp k"
  by (rule bufp_cong) simp

lemma bufp_upd_inode [simp]: "bufp (upd_inode i h k) = bufp k"
  by (rule bufp_cong) simp

lemma bufp_upd_file [simp]: "bufp (upd_file i o' k) = bufp k"
  by (rule bufp_cong) simp

lemma bufp_set_error [simp]: "bufp (set_error e k) = bufp k"
  by (rule bufp_cong) simp

lemma bufp_set_ar0 [simp]: "bufp (set_ar0 r v k) = bufp k"
  by (rule bufp_cong) simp

lemma bufp_upd_proc [simp]: "bufp (upd_proc i p k) = bufp k"
  by (rule bufp_cong) simp

lemma inodep_fields [simp]:
  "inodep (k\<lparr>k_u := x0\<rparr>) = inodep k"
  "inodep (k\<lparr>k_uarea := x1\<rparr>) = inodep k"
  "inodep (k\<lparr>k_sch := x2\<rparr>) = inodep k"
  "inodep (k\<lparr>k_bio := x3\<rparr>) = inodep k"
  "inodep (k\<lparr>k_file := x5\<rparr>) = inodep k"
  "inodep (k\<lparr>k_text := x6\<rparr>) = inodep k"
  "inodep (k\<lparr>k_clk := x7\<rparr>) = inodep k"
  "inodep (k\<lparr>k_ipc := x8\<rparr>) = inodep k"
  "inodep (k\<lparr>coremap := x9\<rparr>) = inodep k"
  "inodep (k\<lparr>execnt := x10\<rparr>) = inodep k"
  "inodep (k\<lparr>maxmem := x11\<rparr>) = inodep k"
  "inodep (k\<lparr>phys := x12\<rparr>) = inodep k"
  "inodep (k\<lparr>klocal := x13\<rparr>) = inodep k"
  "inodep (k\<lparr>gdt3 := x14\<rparr>) = inodep k"
  "inodep (k\<lparr>gdt4 := x15\<rparr>) = inodep k"
  by (simp_all add: inodep_def fun_eq_iff)

lemma inodep_upd_u [simp]: "inodep (upd_u f k) = inodep k"
  by (rule inodep_cong) simp

lemma inodep_upd_sch [simp]: "inodep (upd_sch f k) = inodep k"
  by (rule inodep_cong) simp

lemma inodep_upd_buf [simp]: "inodep (upd_buf bp g k) = inodep k"
  by (rule inodep_cong) simp

lemma inodep_upd_file [simp]: "inodep (upd_file i o' k) = inodep k"
  by (rule inodep_cong) simp

lemma inodep_set_error [simp]: "inodep (set_error e k) = inodep k"
  by (rule inodep_cong) simp

lemma inodep_set_ar0 [simp]: "inodep (set_ar0 r v k) = inodep k"
  by (rule inodep_cong) simp

lemma inodep_upd_proc [simp]: "inodep (upd_proc i p k) = inodep k"
  by (rule inodep_cong) simp

end
