(* ===== verification/Malloc.thy ===== *)
theory Malloc
  imports Kernel_Monad
begin

text \<open>
  \<^verbatim>\<open>kernel/malloc.c\<close>: the resource map that hands out core.  The map is an array of
  (size, address) entries ended by an entry of size 0; a pointer into it is the suffix
  of the array that starts there, and running off the array is \<open>None\<close>.

  The invariant \<open>wfm\<close> says that the entries are sorted, coalesced (no two touch) and
  end below \<open>2 ^ 31\<close>; \<open>munits\<close> is the set of free units the map stands for.  The lemmas
  show that the two operations are subtraction and union on that set.
\<close>

subsection \<open>The code\<close>

text \<open>The \<^verbatim>\<open>do ... while\<close> that removes an entry by moving the ones after it down.\<close>

fun shift_down :: "mapent list \<Rightarrow> mapent list option" where
  "shift_down (x # y # r) =
     (if m_size y = 0 then Some (y # y # r) else map_option ((#) y) (shift_down (y # r)))"
| "shift_down _ = None"

fun malloc_map :: "mapent list \<Rightarrow> int32_t \<Rightarrow> (uint32_t \<times> mapent list) option" where
  "malloc_map [] sz = None"
| "malloc_map (bp # r) sz =
     (if m_size bp = 0 then Some (0, bp # r)
      else if sint sz \<le> sint (m_size bp) then
        (let a = m_addr bp;
             bp' = bp\<lparr>m_addr := m_addr bp + sz, m_size := m_size bp - sz\<rparr>
         in if m_size bp' = 0 then map_option (Pair a) (shift_down (bp' # r))
            else Some (a, bp' # r))
      else map_option (apsnd ((#) bp)) (malloc_map r sz))"

text \<open>The \<^verbatim>\<open>while (bp->m_size)\<close> loop of \<^verbatim>\<open>mfree\<close>, after a merge on both sides.\<close>

fun close_up :: "mapent list \<Rightarrow> mapent list option" where
  "close_up [] = None"
| "close_up (x # r) =
     (if m_size x = 0 then Some (x # r)
      else case r of [] \<Rightarrow> None | y # _ \<Rightarrow> map_option ((#) y) (close_up r))"

text \<open>The \<^verbatim>\<open>do ... while (size = t)\<close> loop that inserts an entry and moves the rest up.\<close>

fun push_entry :: "int32_t \<Rightarrow> uint32_t \<Rightarrow> mapent list \<Rightarrow> mapent list option" where
  "push_entry sz addr [] = None"
| "push_entry sz addr (bp # r) =
     (if m_size bp = 0 then Some (\<lparr>m_size = sz, m_addr = addr\<rparr> # r)
      else map_option ((#) \<lparr>m_size = sz, m_addr = addr\<rparr>) (push_entry (m_size bp) (m_addr bp) r))"

text \<open>The \<^verbatim>\<open>else\<close> branch of \<^verbatim>\<open>mfree\<close>: no merge with the entry below.\<close>

definition free_here :: "int32_t \<Rightarrow> uint32_t \<Rightarrow> mapent \<Rightarrow> mapent list \<Rightarrow> mapent list option" where
  "free_here sz addr bp r =
     (if addr + sz = m_addr bp \<and> m_size bp \<noteq> 0 then
        Some (bp\<lparr>m_addr := m_addr bp - sz, m_size := m_size bp + sz\<rparr> # r)
      else if sz \<noteq> 0 then push_entry sz addr (bp # r)
      else Some (bp # r))"

text \<open>\<open>prev\<close> is the entry at \<^verbatim>\<open>bp - 1\<close>, when there is one.\<close>

fun mfree_at :: "mapent option \<Rightarrow> mapent list \<Rightarrow> int32_t \<Rightarrow> uint32_t \<Rightarrow> mapent list option" where
  "mfree_at prev [] sz addr = None"
| "mfree_at prev (bp # r) sz addr =
     (if m_addr bp \<le> addr \<and> m_size bp \<noteq> 0 then
        (case prev of
           None \<Rightarrow> mfree_at (Some bp) r sz addr
         | Some p \<Rightarrow> map_option ((#) p) (mfree_at (Some bp) r sz addr))
      else
        (case prev of
           None \<Rightarrow> free_here sz addr bp r
         | Some p \<Rightarrow>
             if m_addr p + m_size p = addr then
               (if addr + sz = m_addr bp then
                  map_option ((#) (p\<lparr>m_size := m_size p + sz + m_size bp\<rparr>)) (close_up (bp # r))
                else Some (p\<lparr>m_size := m_size p + sz\<rparr> # bp # r))
             else map_option ((#) p) (free_here sz addr bp r)))"

definition mfree_map :: "mapent list \<Rightarrow> int32_t \<Rightarrow> uint32_t \<Rightarrow> mapent list option" where
  "mfree_map mp sz addr = mfree_at None mp sz addr"

text \<open>The calls the kernel makes, on \<^verbatim>\<open>coremap\<close>.\<close>

definition malloc_core :: "int32_t \<Rightarrow> uint32_t kop" where
  "malloc_core sz k = (case malloc_map (coremap k) sz of
       None \<Rightarrow> Stop OutOfBounds k
     | Some (a, mp) \<Rightarrow> Ret a (k\<lparr>coremap := mp\<rparr>))"

definition mfree_core :: "int32_t \<Rightarrow> uint32_t \<Rightarrow> unit kop" where
  "mfree_core sz addr k = (case mfree_map (coremap k) sz addr of
       None \<Rightarrow> Stop OutOfBounds k
     | Some mp \<Rightarrow> Ret () (k\<lparr>coremap := mp\<rparr>))"

subsection \<open>Invariant and abstraction\<close>

definition lo :: "mapent \<Rightarrow> nat" where "lo e = unat (m_addr e)"
definition hi :: "mapent \<Rightarrow> nat" where "hi e = unat (m_addr e) + unat (m_size e)"

fun wfm :: "nat \<Rightarrow> mapent list \<Rightarrow> bool" where
  "wfm b [] = False"
| "wfm b (e # r) = (if m_size e = 0 then (\<forall>x\<in>set r. m_size x = 0)
     else b < lo e \<and> hi e < 2 ^ 31 \<and> wfm (hi e) r)"

fun munits :: "mapent list \<Rightarrow> nat set" where
  "munits [] = {}"
| "munits (e # r) = (if m_size e = 0 then {} else {lo e..<hi e} \<union> munits r)"

definition wf_map :: "mapent list \<Rightarrow> bool" where
  "wf_map mp = wfm 0 mp"

definition entries :: "mapent list \<Rightarrow> mapent list" where
  "entries mp = takeWhile (\<lambda>e. m_size e \<noteq> 0) mp"

text \<open>There is a free entry beside the terminator.\<close>

definition has_room :: "mapent list \<Rightarrow> bool" where
  "has_room mp \<longleftrightarrow> length (entries mp) + 2 \<le> length mp"

lemma unat_size_pos: "m_size e \<noteq> 0 \<longleftrightarrow> 0 < unat (m_size e)"
  by (simp add: unat_gt_0)

lemma hi_gt_lo: "m_size e \<noteq> 0 \<Longrightarrow> lo e < hi e"
  by (simp add: lo_def hi_def unat_size_pos)

lemma hi_conv: "hi e < 2 ^ 31 \<Longrightarrow> unat (m_addr e + m_size e) = hi e"
  by (simp add: hi_def unat_word_ariths)

lemma wfm_mono: "wfm b l \<Longrightarrow> b' \<le> b \<Longrightarrow> wfm b' l"
  by (cases l) (auto split: if_splits)

lemma munits_above: "wfm b l \<Longrightarrow> x \<in> munits l \<Longrightarrow> b < x"
  by (induction l arbitrary: b) (force split: if_splits dest: hi_gt_lo)+

lemma munits_bound: "wfm b l \<Longrightarrow> x \<in> munits l \<Longrightarrow> Suc x < 2 ^ 31"
  by (induction l arbitrary: b) (force split: if_splits)+

subsection \<open>Allocation\<close>

lemma shift_down_wfm:
  "wfm b r \<Longrightarrow> \<exists>l. shift_down (x # r) = Some l \<and> wfm b l \<and> munits l = munits r"
proof (induction r arbitrary: x b)
  case Nil
  then show ?case by simp
next
  case (Cons y r)
  show ?case
  proof (cases "m_size y = 0")
    case True
    with Cons.prems show ?thesis by simp
  next
    case False
    with Cons.prems have "wfm (hi y) r" by simp
    from Cons.IH [OF this, of y] obtain l
      where "shift_down (y # r) = Some l" "wfm (hi y) l" "munits l = munits r" by blast
    with False Cons.prems show ?thesis by simp
  qed
qed

lemma fits_iff:
  fixes sz :: int32_t
  assumes "unat (m_size e) < 2 ^ 31" "0 < sint sz"
  shows "sint sz \<le> sint (m_size e) \<longleftrightarrow> unat sz \<le> unat (m_size e)"
proof -
  have "unat sz < 2 ^ 31" using assms(2) sint_pos32 [of sz] by linarith
  with assms show ?thesis by (simp add: sint_small32 del: of_nat_unat)
qed

text \<open>What an allocation does to a map: nothing, with the result 0, when no entry is
  large enough; otherwise the region it returns was free and is no longer.\<close>

definition alloc_effect :: "mapent list \<Rightarrow> nat \<Rightarrow> nat \<Rightarrow> mapent list \<Rightarrow> bool" where
  "alloc_effect mp n a mp' \<longleftrightarrow>
     (if a = 0 then mp' = mp \<and> (\<forall>e\<in>set (entries mp). unat (m_size e) < n)
      else {a..<a + n} \<subseteq> munits mp \<and> munits mp' = munits mp - {a..<a + n})"

lemma take_front:
  assumes "wfm b (e # r)" "m_size e \<noteq> 0" "0 < unat sz" "unat sz \<le> unat (m_size e)"
  defines "e' \<equiv> e\<lparr>m_addr := m_addr e + sz, m_size := m_size e - sz\<rparr>"
  shows "lo e' = lo e + unat sz" "hi e' = hi e"
proof -
  from assms(1,2) have h: "hi e < 2 ^ 31" by simp
  have "unat (m_size e - sz) = unat (m_size e) - unat sz"
    using assms(4) by (simp add: unat_sub word_le_nat_alt)
  moreover have "unat (m_addr e + sz) = unat (m_addr e) + unat sz"
    using h assms(4) by (simp add: hi_def unat_word_ariths)
  ultimately show "lo e' = lo e + unat sz" "hi e' = hi e"
    using assms(4) by (simp_all add: lo_def hi_def e'_def)
qed

lemma malloc_map_wfm:
  assumes "wfm b mp" "0 < sint sz"
  shows "\<exists>a mp'. malloc_map mp sz = Some (a, mp') \<and> wfm b mp' \<and> (a = 0 \<or> b < unat a)
    \<and> alloc_effect mp (unat sz) (unat a) mp'"
  using assms(1)
proof (induction mp arbitrary: b)
  case Nil
  then show ?case by simp
next
  case (Cons e r)
  have szpos: "0 < unat sz"
    using assms(2) by (metis gr0I less_irrefl sint_0 unat_eq_zero)
  consider (last) "m_size e = 0"
    | (fit) "m_size e \<noteq> 0" "unat sz \<le> unat (m_size e)"
    | (skip) "m_size e \<noteq> 0" "unat (m_size e) < unat sz" by linarith
  then show ?case
  proof cases
    case last
    with Cons.prems show ?thesis by (simp add: alloc_effect_def entries_def)
  next
    case fit
    from fit Cons.prems have e: "b < lo e" "hi e < 2 ^ 31" "wfm (hi e) r" by auto
    define e' where "e' = e\<lparr>m_addr := m_addr e + sz, m_size := m_size e - sz\<rparr>"
    have e': "lo e' = lo e + unat sz" "hi e' = hi e"
      using take_front [OF Cons.prems fit(1) szpos fit(2)] by (simp_all add: e'_def)
    have small: "unat (m_size e) < 2 ^ 31" using e(2) by (simp add: hi_def)
    have above: "\<And>x. x \<in> munits r \<Longrightarrow> hi e < x" using munits_above [OF e(3)] .
    have le: "lo e + unat sz \<le> hi e" using fit(2) by (simp add: lo_def hi_def)
    have a0: "unat (m_addr e) = lo e" by (simp add: lo_def)
    have fits: "sint sz \<le> sint (m_size e)" using fits_iff [OF small assms(2)] fit(2) by simp
    have region: "lo e \<noteq> 0" "{lo e..<lo e + unat sz} \<subseteq> munits (e # r)"
      using e(1) le fit(1) by auto
    show ?thesis
    proof (cases "m_size e' = 0")
      case True
      then have whole: "lo e + unat sz = hi e"
        using e' by (simp add: hi_def lo_def)
      obtain l where l: "shift_down (e' # r) = Some l" "wfm (hi e) l" "munits l = munits r"
        using shift_down_wfm [OF e(3), of e'] by blast
      have "malloc_map (e # r) sz = Some (m_addr e, l)"
        using fit(1) fits True l(1) by (simp add: Let_def e'_def)
      moreover have "wfm b l" by (rule wfm_mono [OF l(2)]) (use e(1) le in linarith)
      moreover have "munits l = munits (e # r) - {lo e..<lo e + unat sz}"
        using l(3) fit(1) whole above by force
      ultimately show ?thesis
        using region e(1) by (simp add: alloc_effect_def a0)
    next
      case False
      have "malloc_map (e # r) sz = Some (m_addr e, e' # r)"
        using fit(1) fits False by (simp add: Let_def e'_def)
      moreover have "munits (e' # r) = munits (e # r) - {lo e..<lo e + unat sz}"
        using False fit(1) above e' le by force
      moreover have "wfm b (e' # r)" using False e e' by simp
      ultimately show ?thesis
        using region e(1) by (simp add: alloc_effect_def a0 del: munits.simps wfm.simps)
    qed
  next
    case skip
    from skip Cons.prems have e: "b < lo e" "hi e < 2 ^ 31" "wfm (hi e) r" by auto
    have small: "unat (m_size e) < 2 ^ 31" using e(2) by (simp add: hi_def)
    from Cons.IH [OF e(3)] obtain a mp' where ih: "malloc_map r sz = Some (a, mp')"
      "wfm (hi e) mp'" "a = 0 \<or> hi e < unat a" "alloc_effect r (unat sz) (unat a) mp'" by blast
    have "lo e < hi e" using skip(1) by (rule hi_gt_lo)
    with ih e skip have "alloc_effect (e # r) (unat sz) (unat a) (e # mp')"
      by (auto simp: alloc_effect_def entries_def unat_eq_zero split: if_splits)
    then show ?thesis
      using skip ih e \<open>lo e < hi e\<close> fits_iff [OF small assms(2)] by auto
  qed
qed

text \<open>The search is first fit.\<close>

lemma malloc_map_first_fit:
  assumes "wfm b mp" "0 < sint sz" "malloc_map mp sz = Some (a, mp')"
  shows "a = (case find_slot (\<lambda>e. unat sz \<le> unat (m_size e)) (entries mp) of
      None \<Rightarrow> 0 | Some i \<Rightarrow> m_addr (entries mp ! i))"
  using assms(1,3)
proof (induction mp arbitrary: b a mp')
  case Nil
  then show ?case by simp
next
  case (Cons e r)
  show ?case
  proof (cases "m_size e = 0")
    case True
    then have "entries (e # r) = []" by (simp add: entries_def)
    with True Cons.prems show ?thesis by simp
  next
    case False
    with Cons.prems have "unat (m_size e) < 2 ^ 31" and wr: "wfm (hi e) r"
      by (auto simp: hi_def)
    note fit = fits_iff [OF this(1) assms(2)]
    show ?thesis
      using False Cons.prems(2) Cons.IH [OF wr]
      by (fastforce simp: entries_def fit Let_def split: if_splits option.splits)
  qed
qed

subsection \<open>Release\<close>

lemma has_room_ConsD: "has_room (e # r) \<Longrightarrow> m_size e \<noteq> 0 \<Longrightarrow> has_room r"
  by (simp add: has_room_def entries_def)

lemma has_room_lastD: "has_room (e # r) \<Longrightarrow> m_size e = 0 \<Longrightarrow> r \<noteq> []"
  by (auto simp: has_room_def entries_def)

lemma close_up_wfm:
  "m_size x \<noteq> 0 \<Longrightarrow> wfm b r \<Longrightarrow> \<exists>l. close_up (x # r) = Some l \<and> wfm b l \<and> munits l = munits r"
proof (induction r arbitrary: x b)
  case Nil
  then show ?case by simp
next
  case (Cons y r)
  show ?case
  proof (cases "m_size y = 0")
    case True
    with Cons.prems show ?thesis by simp
  next
    case False
    with Cons.prems have "wfm (hi y) r" by simp
    from Cons.IH [OF False this] obtain l
      where "close_up (y # r) = Some l" "wfm (hi y) l" "munits l = munits r" by blast
    with False Cons.prems show ?thesis by simp
  qed
qed

lemma push_entry_wfm:
  "has_room l \<Longrightarrow> wfm (hi e) l \<Longrightarrow>
   \<exists>l'. push_entry (m_size e) (m_addr e) l = Some (\<lparr>m_size = m_size e, m_addr = m_addr e\<rparr> # l')
     \<and> wfm (hi e) l' \<and> munits l' = munits l"
proof (induction l arbitrary: e)
  case Nil
  then show ?case by simp
next
  case (Cons bp r)
  show ?case
  proof (cases "m_size bp = 0")
    case True
    with Cons.prems obtain y r' where "r = y # r'"
      using has_room_lastD by (cases r) auto
    with True Cons.prems show ?thesis by simp
  next
    case False
    with Cons.prems have "has_room r" "wfm (hi bp) r" "hi e < lo bp" "hi bp < 2 ^ 31"
      by (auto dest: has_room_ConsD)
    with Cons.IH [of bp] False show ?thesis
      by (auto simp: lo_def hi_def)
  qed
qed

text \<open>A release of \<open>sz\<close> units at \<open>addr\<close> that stays inside the signed range.\<close>

definition release_ok :: "int32_t \<Rightarrow> uint32_t \<Rightarrow> bool" where
  "release_ok sz addr \<longleftrightarrow> 0 < unat sz \<and> unat addr + unat sz < 2 ^ 31"

lemma sz_pos: "release_ok sz addr \<Longrightarrow> 0 < unat sz"
  by (simp add: release_ok_def)

lemma sz_nz: "release_ok sz addr \<Longrightarrow> sz \<noteq> 0"
  by (auto simp: release_ok_def)

lemma top: "release_ok sz addr \<Longrightarrow> unat addr + unat sz < 2 ^ 31"
  by (simp add: release_ok_def)

lemma adjacent_iff:
  assumes "release_ok sz addr"
  shows "addr + sz = m_addr bp \<longleftrightarrow> lo bp = unat addr + unat sz"
proof -
  have "unat (addr + sz) = unat addr + unat sz"
    using top [OF assms] by (simp add: unat_word_ariths)
  then show ?thesis by (metis lo_def word_unat_eq_iff)
qed

lemma below_iff: "hi p < 2 ^ 31 \<Longrightarrow> m_addr p + m_size p = addr \<longleftrightarrow> hi p = unat addr"
  by (metis hi_conv word_unat_eq_iff)

lemma free_here_wfm:
  assumes rel: "release_ok sz addr"
    and "wfm b (bp # r)" "b < unat addr" "has_room (bp # r)"
    and exit: "m_size bp = 0 \<or> unat addr < lo bp"
    and disj: "{unat addr..<unat addr + unat sz} \<inter> munits (bp # r) = {}"
  shows "\<exists>l. free_here sz addr bp r = Some l \<and> wfm b l
    \<and> munits l = {unat addr..<unat addr + unat sz} \<union> munits (bp # r)"
proof (cases "m_size bp \<noteq> 0 \<and> addr + sz = m_addr bp")
  case True
  then have adj: "lo bp = unat addr + unat sz" by (simp add: adjacent_iff [OF rel])
  let ?n = "bp\<lparr>m_addr := m_addr bp - sz, m_size := m_size bp + sz\<rparr>"
  from True assms(2) have bp: "hi bp < 2 ^ 31" "wfm (hi bp) r" by auto
  have "m_addr bp - sz = addr" using True by (metis add_diff_cancel_right')
  then have lo: "lo ?n = unat addr" by (simp add: lo_def)
  have size: "unat (m_size bp + sz) = unat (m_size bp) + unat sz"
    using bp(1) adj by (simp add: hi_def lo_def unat_word_ariths)
  with lo adj have hi: "hi ?n = hi bp" by (simp add: hi_def lo_def)
  have nz: "m_size bp + sz \<noteq> 0" using size sz_pos [OF rel] by (metis add_eq_0_iff_both_eq_0 less_irrefl
        unat_0)
  have "lo bp \<le> hi bp" by (simp add: lo_def hi_def)
  then have "{unat addr..<hi bp} = {unat addr..<unat addr + unat sz} \<union> {lo bp..<hi bp}"
    using adj by auto
  then show ?thesis
    using True lo hi nz bp assms(3) by (auto simp: free_here_def)
next
  case False
  let ?e = "\<lparr>m_size = sz, m_addr = addr\<rparr>"
  have e: "lo ?e = unat addr" "hi ?e = unat addr + unat sz" by (simp_all add: lo_def hi_def)
  have "wfm (hi ?e) (bp # r)"
  proof (cases "m_size bp = 0")
    case True
    with assms(2) show ?thesis by simp
  next
    case nz: False
    with exit have lt: "unat addr < lo bp" by simp
    have "lo bp \<in> munits (bp # r)" using nz hi_gt_lo [OF nz] by simp
    with disj lt have "unat addr + unat sz \<le> lo bp" 
      by (metis IntI atLeastLessThan_iff empty_iff less_imp_le not_le)
    moreover have "unat addr + unat sz \<noteq> lo bp" using False nz by (simp add: adjacent_iff [OF rel])
    ultimately show ?thesis using assms(2) nz e by simp
  qed
  from push_entry_wfm [OF assms(4) this] obtain l where
    l: "push_entry sz addr (bp # r) = Some (?e # l)" "wfm (hi ?e) l" "munits l = munits (bp # r)"
    by auto
  with False have "free_here sz addr bp r = Some (?e # l)"
    by (auto simp: free_here_def sz_nz [OF rel])
  moreover have "wfm b (?e # l)" using l(2) assms(3) top [OF rel] e sz_nz [OF rel] by simp
  moreover have "munits (?e # l) = {unat addr..<unat addr + unat sz} \<union> munits (bp # r)"
    using l(3) e sz_nz [OF rel] by simp
  ultimately show ?thesis by blast
qed

lemma loop_iff: "m_addr bp \<le> addr \<longleftrightarrow> lo bp \<le> unat addr"
  by (simp add: lo_def word_le_nat_alt)

lemma merge_below:
  assumes rel: "release_ok sz addr" and adj: "hi p = unat addr"
  shows "lo (p\<lparr>m_size := m_size p + sz\<rparr>) = lo p"
    and "hi (p\<lparr>m_size := m_size p + sz\<rparr>) = unat addr + unat sz"
    and "m_size p + sz \<noteq> 0"
proof -
  have s: "unat (m_size p + sz) = unat (m_size p) + unat sz"
    using adj top [OF rel] by (simp add: hi_def unat_word_ariths)
  then show "m_size p + sz \<noteq> 0" using sz_pos [OF rel] by (metis add_eq_0_iff_both_eq_0 less_irrefl unat_0)
  show "lo (p\<lparr>m_size := m_size p + sz\<rparr>) = lo p" by (simp add: lo_def)
  show "hi (p\<lparr>m_size := m_size p + sz\<rparr>) = unat addr + unat sz"
    using s adj by (simp add: hi_def)
qed

lemma disjoint_start: "{a..<a + n} \<inter> S = {} \<Longrightarrow> 0 < n \<Longrightarrow> (a :: nat) \<notin> S"
  by (metis IntI atLeastLessThan_iff empty_iff less_add_same_cancel1 order_refl)

lemma mfree_at_Some:
  assumes rel: "release_ok sz addr"
  shows "wfm (hi p) l \<Longrightarrow> m_size p \<noteq> 0 \<Longrightarrow> hi p < 2 ^ 31 \<Longrightarrow> b < lo p \<Longrightarrow> hi p \<le> unat addr \<Longrightarrow>
    has_room l \<Longrightarrow> {unat addr..<unat addr + unat sz} \<inter> munits l = {} \<Longrightarrow>
    \<exists>l'. mfree_at (Some p) l sz addr = Some l' \<and> wfm b l'
      \<and> munits l' = {lo p..<hi p} \<union> {unat addr..<unat addr + unat sz} \<union> munits l"
proof (induction l arbitrary: p b)
  case Nil
  then show ?case by simp
next
  case (Cons bp r)
  note prems = Cons.prems and n = sz_pos [OF rel]
  show ?case
  proof (cases "m_addr bp \<le> addr \<and> m_size bp \<noteq> 0")
    case True
    then have bp: "lo bp \<le> unat addr" "m_size bp \<noteq> 0" by (simp_all add: loop_iff)
    with prems have w: "hi p < lo bp" "hi bp < 2 ^ 31" "wfm (hi bp) r" by auto
    have "unat addr \<notin> munits (bp # r)" using disjoint_start [OF prems(7) n] .
    with bp have "hi bp \<le> unat addr" by auto
    with Cons.IH [OF w(3) bp(2) w(2) w(1)] prems bp obtain l' where
      "mfree_at (Some bp) r sz addr = Some l'" "wfm (hi p) l'"
      "munits l' = {lo bp..<hi bp} \<union> {unat addr..<unat addr + unat sz} \<union> munits r"
      by (auto dest: has_room_ConsD)
    with True prems show ?thesis by auto
  next
    case False
    then have exit: "m_size bp = 0 \<or> unat addr < lo bp" by (auto simp: loop_iff)
    show ?thesis
    proof (cases "hi p = unat addr")
      case True
      then have adj: "m_addr p + m_size p = addr" using below_iff prems(3) by blast
      note mb = merge_below [OF rel True]
      have U: "{lo p..<unat addr + unat sz} = {lo p..<hi p} \<union> {unat addr..<unat addr + unat sz}"
        using True hi_gt_lo [OF prems(2)] by auto
      show ?thesis
      proof (cases "addr + sz = m_addr bp \<and> m_size bp \<noteq> 0")
        case both: True
        then have lobp: "lo bp = unat addr + unat sz" by (simp add: adjacent_iff [OF rel])
        from both prems have w: "hi bp < 2 ^ 31" "wfm (hi bp) r" by auto
        let ?q = "p\<lparr>m_size := m_size p + sz + m_size bp\<rparr>"
        obtain l' where l': "close_up (bp # r) = Some l'" "wfm (hi bp) l'" "munits l' = munits r"
          using close_up_wfm [of bp "hi bp" r] both w by blast
        have "unat (m_size p + sz + m_size bp) = unat (m_size p + sz) + unat (m_size bp)"
          using mb(2) lobp w(1) by (simp add: hi_def lo_def unat_word_ariths)
        then have q: "lo ?q = lo p" "hi ?q = hi bp" "m_size ?q \<noteq> 0"
          using mb lobp unat_size_pos [of bp] both
          by (auto simp: hi_def lo_def unat_size_pos simp flip: unat_gt_0)
        have "{lo p..<hi bp} = {lo p..<unat addr + unat sz} \<union> {lo bp..<hi bp}"
          using lobp True hi_gt_lo [OF prems(2)] hi_gt_lo [of bp] both by auto
        with U q l' both prems w False adj show ?thesis by auto
      next
        case one: False
        let ?q = "p\<lparr>m_size := m_size p + sz\<rparr>"
        have "wfm (hi ?q) (bp # r)"
        proof (cases "m_size bp = 0")
          case nz: False
          with exit have "unat addr < lo bp" by simp
          moreover have "lo bp \<in> munits (bp # r)" using nz hi_gt_lo [OF nz] by simp
          ultimately have "unat addr + unat sz \<le> lo bp"
            using prems(7) by (metis IntI atLeastLessThan_iff empty_iff less_imp_le not_le)
          moreover have "unat addr + unat sz \<noteq> lo bp"
            using one nz by (simp add: adjacent_iff [OF rel])
          ultimately show ?thesis using prems(1) nz mb(2) by simp
        qed (use prems in simp)
        then have "wfm b (?q # bp # r)"
          using mb prems(4) top [OF rel] by simp
        moreover have "munits (?q # bp # r)
            = {lo p..<hi p} \<union> {unat addr..<unat addr + unat sz} \<union> munits (bp # r)"
          using mb U by (simp del: munits.simps(2) add: munits.simps(2) [of ?q])
        moreover have "mfree_at (Some p) (bp # r) sz addr = Some (?q # bp # r)"
          using False adj one by auto
        ultimately show ?thesis by blast
      qed
    next
      case apart: False
      then have "m_addr p + m_size p \<noteq> addr" using below_iff prems(3) by blast
      moreover have "hi p < unat addr" using apart prems(5) by simp
      ultimately obtain l' where l': "free_here sz addr bp r = Some l'" "wfm (hi p) l'"
        "munits l' = {unat addr..<unat addr + unat sz} \<union> munits (bp # r)"
        and "m_addr p + m_size p \<noteq> addr"
        using free_here_wfm [OF rel prems(1) _ prems(6) exit prems(7)] by blast
      then have "mfree_at (Some p) (bp # r) sz addr = Some (p # l')"
        using False by auto
      moreover have "wfm b (p # l')" using l'(2) prems(2-4) by simp
      moreover have "munits (p # l')
          = {lo p..<hi p} \<union> {unat addr..<unat addr + unat sz} \<union> munits (bp # r)"
        by (simp only: munits.simps(2) [of p l'] l'(3) prems(2) Un_assoc if_False)
      ultimately show ?thesis by blast
    qed
  qed
qed

lemma mfree_map_wfm:
  assumes rel: "release_ok sz addr" and "wf_map mp" "0 < unat addr" "has_room mp"
    and disj: "{unat addr..<unat addr + unat sz} \<inter> munits mp = {}"
  shows "\<exists>mp'. mfree_map mp sz addr = Some mp' \<and> wf_map mp'
    \<and> munits mp' = {unat addr..<unat addr + unat sz} \<union> munits mp"
proof (cases mp)
  case Nil
  with assms(2) show ?thesis by (simp add: wf_map_def)
next
  case (Cons bp r)
  note prems = assms [unfolded Cons wf_map_def]
  show ?thesis
  proof (cases "m_addr bp \<le> addr \<and> m_size bp \<noteq> 0")
    case True
    then have bp: "lo bp \<le> unat addr" "m_size bp \<noteq> 0" by (simp_all add: loop_iff)
    with prems have w: "0 < lo bp" "hi bp < 2 ^ 31" "wfm (hi bp) r" by auto
    have "unat addr \<notin> munits (bp # r)" using disjoint_start [OF prems(5) sz_pos [OF rel]] .
    with bp have "hi bp \<le> unat addr" by auto
    with mfree_at_Some [OF rel w(3) bp(2) w(2) w(1)] prems bp obtain l' where
      "mfree_at (Some bp) r sz addr = Some l'" "wfm 0 l'"
      "munits l' = {lo bp..<hi bp} \<union> {unat addr..<unat addr + unat sz} \<union> munits r"
      by (auto dest: has_room_ConsD)
    with True show ?thesis by (auto simp: Cons mfree_map_def wf_map_def)
  next
    case False
    then have "m_size bp = 0 \<or> unat addr < lo bp" by (auto simp: loop_iff)
    from free_here_wfm [OF rel prems(2,3,4) this prems(5)] False show ?thesis
      by (auto simp: Cons mfree_map_def wf_map_def simp del: munits.simps wfm.simps)
  qed
qed

subsection \<open>The map is a canonical form of its set of units\<close>

lemma wfm_canonical:
  "wfm b l \<Longrightarrow> wfm b' l' \<Longrightarrow> munits l = munits l' \<Longrightarrow> entries l = entries l'"
proof (induction l arbitrary: b b' l')
  case Nil
  then show ?case by simp
next
  case (Cons e r)
  obtain e' r' where l': "l' = e' # r'" using Cons.prems(2) by (cases l') auto
  have ne: "m_size f \<noteq> 0 \<Longrightarrow> lo f \<in> munits (f # q)" for f q
    using hi_gt_lo [of f] by simp
  show ?case
  proof (cases "m_size e = 0 \<or> m_size e' = 0")
    case True
    with Cons.prems(3) ne [of e r] ne [of e' r'] have "m_size e = 0" "m_size e' = 0"
      by (auto simp: l' split: if_splits)
    then show ?thesis by (simp add: l' entries_def)
  next
    case False
    then have nz: "m_size e \<noteq> 0" "m_size e' \<noteq> 0" by auto
    with Cons.prems have w: "wfm (hi e) r" "wfm (hi e') r'" by (auto simp: l')
    note ab = munits_above [OF w(1)] munits_above [OF w(2)]
    note gt = hi_gt_lo [OF nz(1)] hi_gt_lo [OF nz(2)]
    have eq: "{lo e..<hi e} \<union> munits r = {lo e'..<hi e'} \<union> munits r'"
      using Cons.prems(3) nz by (simp add: l')
    have "lo e \<in> {lo e'..<hi e'} \<union> munits r'" "lo e' \<in> {lo e..<hi e} \<union> munits r"
      using eq gt by auto
    then have lo: "lo e = lo e'" using ab gt by fastforce
    have "hi e \<notin> {lo e'..<hi e'} \<union> munits r'" "hi e' \<notin> {lo e..<hi e} \<union> munits r"
      using eq ab gt by fastforce+
    then have hi: "hi e = hi e'" using lo gt by auto
    have "m_addr e = m_addr e'" "m_size e = m_size e'"
      using lo hi by (simp_all add: lo_def hi_def word_unat_eq_iff)
    then have "e = e'" by simp
    moreover have "munits r = munits r'"
    proof -
      have "munits r = munits (e # r) - {lo e..<hi e}" using nz ab(1) gt by force
      also have "\<dots> = munits l' - {lo e'..<hi e'}" using Cons.prems(3) lo hi by simp
      also have "\<dots> = munits r'" using nz ab(2) gt by (force simp: l')
      finally show ?thesis .
    qed
    ultimately show ?thesis
      using Cons.IH [OF w] nz by (simp add: l' entries_def)
  qed
qed

lemma shift_down_room:
  "wfm b r \<Longrightarrow> shift_down (x # r) = Some l \<Longrightarrow>
   length l = Suc (length r) \<and> entries l = entries r"
proof (induction r arbitrary: x b l)
  case Nil
  then show ?case by simp
next
  case (Cons y r)
  then show ?case
    by (cases "m_size y = 0") (fastforce simp: entries_def)+
qed

lemma malloc_map_room:
  "wfm b mp \<Longrightarrow> malloc_map mp sz = Some (a, mp') \<Longrightarrow>
   length mp' = length mp \<and> length (entries mp') \<le> length (entries mp)"
proof (induction mp arbitrary: b mp')
  case Nil
  then show ?case by simp
next
  case (Cons e r)
  show ?case
  proof (cases "m_size e = 0 \<or> sint sz \<le> sint (m_size e)")
    case False
    with Cons.prems obtain r' where "malloc_map r sz = Some (a, r')" "mp' = e # r'" "wfm (hi e) r"
      by auto
    with Cons.IH False show ?thesis by (fastforce simp: entries_def)
  next
    case True
    with Cons.prems shift_down_room [of "hi e" r] show ?thesis
      by (fastforce simp: Let_def entries_def split: if_splits)
  qed
qed

lemma malloc_mfree_entries:
  assumes wf: "wf_map mp" and room: "has_room mp" and sz: "0 < sint sz"
    and m: "malloc_map mp sz = Some (a, mp')" and a: "a \<noteq> 0"
  shows "\<exists>mp''. mfree_map mp' sz a = Some mp'' \<and> wf_map mp'' \<and> entries mp'' = entries mp"
proof -
  from malloc_map_wfm [OF wf [unfolded wf_map_def] sz] m a
  have w: "wf_map mp'" "0 < unat a" and eff: "alloc_effect mp (unat sz) (unat a) mp'"
    by (auto simp: wf_map_def)
  from a have "unat a \<noteq> 0" by (simp add: unat_eq_zero)
  with eff have reg: "{unat a..<unat a + unat sz} \<subseteq> munits mp"
    "munits mp' = munits mp - {unat a..<unat a + unat sz}"
    by (auto simp: alloc_effect_def)
  have szpos: "0 < unat sz" using sz by (metis gr0I less_irrefl sint_0 unat_eq_zero)
  then have "unat a + unat sz - 1 \<in> munits mp" using reg(1) by auto
  then have "Suc (unat a + unat sz - 1) < 2 ^ 31"
    by (rule munits_bound [OF wf [unfolded wf_map_def]])
  with szpos have rel: "release_ok sz a" by (simp add: release_ok_def)
  have "has_room mp'"
    using malloc_map_room [OF wf [unfolded wf_map_def] m] room by (simp add: has_room_def)
  from mfree_map_wfm [OF rel w this] reg obtain mp'' where
    "mfree_map mp' sz a = Some mp''" "wf_map mp''" "munits mp'' = munits mp" by auto
  with wfm_canonical [of 0 mp'' 0 mp] wf show ?thesis by (auto simp: wf_map_def)
qed

subsection \<open>Properties\<close>

text \<open>C13: On a well-formed core map \<^verbatim>\<open>malloc\<close> stays inside the array and keeps the
  map sorted and coalesced; a result 0 means that no entry is large enough and the map is
  unchanged, and any other result is the start of a region that was free and no longer is, taken
  from the first entry that is large enough.\<close>

theorem malloc_takes_free:
  assumes "wf_map mp" "0 < sint sz"
  shows "\<exists>a mp'. malloc_map mp sz = Some (a, mp') \<and> wf_map mp' \<and> alloc_effect mp (unat sz) (unat a) mp'
    \<and> a = (case find_slot (\<lambda>e. unat sz \<le> unat (m_size e)) (entries mp) of
        None \<Rightarrow> 0 | Some i \<Rightarrow> m_addr (entries mp ! i))"
proof -
  from malloc_map_wfm [OF assms(1) [unfolded wf_map_def] assms(2)] obtain a mp' where
    m: "malloc_map mp sz = Some (a, mp')" "wf_map mp'" "alloc_effect mp (unat sz) (unat a) mp'"
    by (auto simp: wf_map_def)
  with malloc_map_first_fit [OF assms(1) [unfolded wf_map_def] assms(2) m(1)] show ?thesis by blast
qed

text \<open>A map with two free regions and room for one more.\<close>

definition small_map :: "mapent list" where
  "small_map = [\<lparr>m_size = 4, m_addr = 10\<rparr>, \<lparr>m_size = 8, m_addr = 20\<rparr>, \<lparr>m_size = 0, m_addr = 0\<rparr>, \<lparr>m_size = 0, m_addr = 0\<rparr>]"

lemma small_map_ok: "wf_map small_map" "has_room small_map"
  by (simp_all add: small_map_def wf_map_def lo_def hi_def has_room_def entries_def)

theorem malloc_takes_free_witness: "\<exists>mp'. malloc_map small_map 6 = Some (20, mp') \<and> wf_map mp'"
  using malloc_takes_free [OF small_map_ok(1), of 6] by (auto simp: small_map_def entries_def)

text \<open>C14: Releasing a region that is not free, into a map that has room for one more entry,
  keeps the map sorted and coalesced and adds exactly the region to the free units.\<close>

theorem mfree_adds_region:
  assumes "release_ok sz addr" "wf_map mp" "0 < unat addr" "has_room mp"
    and "{unat addr..<unat addr + unat sz} \<inter> munits mp = {}"
  shows "\<exists>mp'. mfree_map mp sz addr = Some mp' \<and> wf_map mp'
    \<and> munits mp' = {unat addr..<unat addr + unat sz} \<union> munits mp"
  using mfree_map_wfm [OF assms] .

theorem mfree_adds_region_witness:
  "\<exists>mp'. mfree_map small_map 6 14 = Some mp' \<and> munits mp' = {14..<20} \<union> munits small_map"
proof -
  have "{unat (14 :: uint32_t)..<unat (14 :: uint32_t) + unat (6 :: int32_t)} \<inter> munits small_map = {}"
    by (auto simp: small_map_def lo_def hi_def)
  from mfree_adds_region [OF _ small_map_ok(1) _ small_map_ok(2) this] show ?thesis
    by (auto simp: release_ok_def)
qed

lemma malloc_mfree_roundtrip:
  assumes "wf_map mp" "has_room mp" "0 < sint sz" "malloc_map mp sz = Some (a, mp')" "a \<noteq> 0"
  shows "\<exists>mp''. mfree_map mp' sz a = Some mp'' \<and> wf_map mp'' \<and> entries mp'' = entries mp"
  using malloc_mfree_entries [OF assms] .

end
