(* ===== verification/Wakeup.thy ===== *)
theory Wakeup
  imports Kernel_Monad
begin

text \<open>
  The part of \<^verbatim>\<open>kernel/sched/slp.c\<close> that the rest of the kernel calls from below:
  \<^verbatim>\<open>setrun\<close>, \<^verbatim>\<open>wakeup\<close>, \<^verbatim>\<open>setpri\<close> and \<^verbatim>\<open>update_pos\<close>.  They work on the process
  table and the scheduler's flags only, so each is a function on \<^typ>\<open>sched\<close> and its
  kernel version updates that part.

  \<^verbatim>\<open>setrun\<close> and \<^verbatim>\<open>wakeup\<close> call each other, but only once: \<^verbatim>\<open>setrun\<close> clears
  \<^verbatim>\<open>runout\<close> before it calls \<^verbatim>\<open>wakeup(&runout)\<close>.  The definition unrolls that one
  call; \<open>setrun_eq\<close> and \<open>wakeup_s_def\<close> are the equations of the source.
\<close>

subsection \<open>The code\<close>

definition setrun_core :: "nat \<Rightarrow> sched \<Rightarrow> sched" where
  "setrun_core i s =
     (let rp = procs s ! i;
          s' = s\<lparr>procs := (procs s)[i := rp\<lparr>p_wchan := ChNone, p_stat := SRUN\<rparr>]\<rparr>
      in if sint (p_pri rp) < sint (curpri s) then s'\<lparr>runrun := runrun s + 1\<rparr> else s')"

text \<open>The loop of \<^verbatim>\<open>wakeup\<close> over the process table.\<close>

definition wake_scan :: "(nat \<Rightarrow> sched \<Rightarrow> sched) \<Rightarrow> chan \<Rightarrow> sched \<Rightarrow> sched" where
  "wake_scan run c s =
     fold (\<lambda>i s. if p_wchan (procs s ! i) = c then run i s else s) [0..<NPROC] s"

text \<open>The last statement of \<^verbatim>\<open>setrun\<close>: wake the swapper for a process that is not in core.\<close>

definition wake_swapper :: "(chan \<Rightarrow> sched \<Rightarrow> sched) \<Rightarrow> nat \<Rightarrow> sched \<Rightarrow> sched" where
  "wake_swapper wk i s =
     (if runout s \<noteq> 0 \<and> \<not> hasf (p_flag (procs s ! i)) SLOAD
      then wk ChRunout (s\<lparr>runout := 0\<rparr>) else s)"

definition setrun_s :: "nat \<Rightarrow> sched \<Rightarrow> sched" where
  "setrun_s i s = wake_swapper (wake_scan setrun_core) i (setrun_core i s)"

definition wakeup_s :: "chan \<Rightarrow> sched \<Rightarrow> sched" where
  "wakeup_s c s = wake_scan setrun_s c s"

definition setpri_s :: "nat \<Rightarrow> sched \<Rightarrow> sched" where
  "setpri_s i s =
     (let pp = procs s ! i;
          p0 = int (unat (p_cpu pp AND 0xFF)) div 16 + (PUSER + sint (p_nice pp));
          p = (if p0 > 127 then 127 else p0);
          s' = (if p > sint (curpri s) then s\<lparr>runrun := runrun s + 1\<rparr> else s)
      in s'\<lparr>procs := (procs s)[i := pp\<lparr>p_pri := of_int p\<rparr>]\<rparr>)"

definition setrun :: "nat \<Rightarrow> kernel \<Rightarrow> kernel" where "setrun i = upd_sch (setrun_s i)"
definition wakeup :: "chan \<Rightarrow> kernel \<Rightarrow> kernel" where "wakeup c = upd_sch (wakeup_s c)"
definition setpri :: "nat \<Rightarrow> kernel \<Rightarrow> kernel" where "setpri i = upd_sch (setpri_s i)"

text \<open>\<^verbatim>\<open>update_pos\<close>: the user code and data descriptors for a process image.  Its last two lines
  store the kernel's stack, the same constants every time, in the task state segment; that store is
  \<open>setup_tss\<close> of \<open>Machine\<close>.\<close>

definition seg_descr :: "uint32_t \<Rightarrow> uint32_t \<Rightarrow> 64 word" where
  "seg_descr base access =
     (let limit = 0xFFFFF :: uint32_t;
          low = (limit AND 0xFFFF) OR push_bit 16 (base AND 0xFFFF);
          high = (base AND 0xFF000000) OR push_bit 20 0xC OR (limit AND 0xF0000)
            OR access OR (drop_bit 16 base AND 0xFF)
      in push_bit 32 (ucast high) OR ucast low)"

definition update_pos :: "nat \<Rightarrow> kernel \<Rightarrow> kernel" where
  "update_pos i k =
     (let base = (p_addr (procp k i) + USIZE) * 64
      in k\<lparr>gdt3 := seg_descr base 0xFA00, gdt4 := seg_descr base 0xF200\<rparr>)"

text \<open>The base address the processor reads from a descriptor.\<close>

definition descr_base :: "64 word \<Rightarrow> uint32_t" where
  "descr_base d = (ucast (drop_bit 16 d) AND 0xFFFF) OR push_bit 16 (ucast (drop_bit 32 d) AND 0xFF)
     OR (ucast (drop_bit 32 d) AND 0xFF000000)"

definition descr_dpl :: "64 word \<Rightarrow> nat" where
  "descr_dpl d = unat (drop_bit 45 d AND 3)"

subsection \<open>Segment descriptors\<close>

lemma descr_consts: "(0xFFFF::32 word) = mask 16" "(0xFF::32 word) = mask 8" "(0xFF000000::32 word) = push_bit 24 (mask 8)"
  "(0xF0000::32 word) = push_bit 16 (mask 4)" "push_bit 20 (0xC::32 word) = push_bit 22 (mask 2)" "(0xFFFFF::32 word) = mask 20"
  by (simp_all add: mask_eq_exp_minus_1 push_bit_eq_mult)
lemma access_bits: "a = 0xFA00 \<or> a = 0xF200 \<Longrightarrow> bit (a::32 word) n \<Longrightarrow> 8 \<le> n \<and> n < 16"
proof -
  assume a: "a = 0xFA00 \<or> a = 0xF200" and b: "bit a n"
  have "a AND 0xFF = 0" "drop_bit 16 a = 0" using a by (auto simp: drop_bit_eq_div)
  have "\<not> n < 8"
  proof
    assume "n < 8"
    with b have "bit (a AND 0xFF) n" unfolding descr_consts by (simp add: bit_simps)
    with \<open>a AND 0xFF = 0\<close> show False by simp
  qed
  moreover have "n < 16"
  proof (rule ccontr)
    assume "\<not> n < 16"
    with b have "bit (drop_bit 16 a) (n - 16)" by (simp add: bit_simps)
    with \<open>drop_bit 16 a = 0\<close> show False by simp
  qed
  ultimately show ?thesis by simp
qed
lemma descr_base_seg: "a = 0xFA00 \<or> a = 0xF200 \<Longrightarrow> descr_base (seg_descr base a) = base"
proof (rule bit_word_eqI)
  fix n assume a: "a = 0xFA00 \<or> a = 0xF200" and "n < LENGTH(32)"
  then have n: "n < 32" by simp
  have ba: "\<not> bit a n" if "n < 8 \<or> 16 \<le> n" for n using access_bits [OF a, of n] that by auto
  consider "n < 16" | "16 \<le> n" "n < 24" | "24 \<le> n" by linarith
  then show "bit (descr_base (seg_descr base a)) n = bit base n"
    unfolding descr_base_def seg_descr_def Let_def descr_consts
    using n by cases (auto simp: bit_simps ba)
qed

subsection \<open>Waking processes\<close>

text \<open>The effect of making all processes of a set runnable, in any order.\<close>

definition woken :: "proc \<Rightarrow> proc" where
  "woken p = p\<lparr>p_wchan := ChNone, p_stat := SRUN\<rparr>"

definition run_set :: "nat set \<Rightarrow> sched \<Rightarrow> sched" where
  "run_set W s = s\<lparr>procs := map (\<lambda>i. if i \<in> W then woken (procs s ! i) else procs s ! i) [0..<length (procs s)],
     runrun := runrun s + of_nat (card {i \<in> W. i < length (procs s) \<and> sint (p_pri (procs s ! i)) < sint (curpri s)})\<rparr>"

definition sleepers :: "chan \<Rightarrow> sched \<Rightarrow> nat set" where
  "sleepers c s = {i. i < length (procs s) \<and> p_wchan (procs s ! i) = c}"

lemma run_set_simps [simp]:
  "length (procs (run_set W s)) = length (procs s)"
  "i < length (procs s) \<Longrightarrow> procs (run_set W s) ! i = (if i \<in> W then woken (procs s ! i) else procs s ! i)"
  "curpri (run_set W s) = curpri s" "runout (run_set W s) = runout s" "runin (run_set W s) = runin s"
  "mpid (run_set W s) = mpid s" "curproc (run_set W s) = curproc s"
  by (simp_all add: run_set_def)

lemma woken_simps [simp]:
  "p_pri (woken p) = p_pri p" "p_flag (woken p) = p_flag p" "p_wchan (woken p) = ChNone"
  "p_stat (woken p) = SRUN" "p_pid (woken p) = p_pid p" "p_sig (woken p) = p_sig p" "p_ppid (woken p) = p_ppid p"
  "p_pgrp (woken p) = p_pgrp p" "p_sid (woken p) = p_sid p" "p_ttyp (woken p) = p_ttyp p" "p_uid (woken p) = p_uid p"
  "p_sigmask (woken p) = p_sigmask p" "p_addr (woken p) = p_addr p" "p_size (woken p) = p_size p"
  "woken (woken p) = woken p"
  by (simp_all add: woken_def)

lemma run_set_empty [simp]: "run_set {} s = s"
  by (simp add: run_set_def map_nth)

lemma setrun_core_run_set:
  "i < length (procs s) \<Longrightarrow> setrun_core i s = run_set {i} s"
proof -
  assume i: "i < length (procs s)"
  have l: "(procs s)[i := woken (procs s ! i)]
      = map (\<lambda>j. if j = i then woken (procs s ! j) else procs s ! j) [0..<length (procs s)]"
    by (rule nth_equalityI) (auto simp: nth_list_update)
  have "{j. j = i \<and> j < length (procs s) \<and> sint (p_pri (procs s ! j)) < sint (curpri s)}
      = (if sint (p_pri (procs s ! i)) < sint (curpri s) then {i} else {})"
    using i by auto
  then show ?thesis
    by (simp add: setrun_core_def run_set_def Let_def l flip: woken_def)
qed

lemma run_set_run_set:
  assumes "A \<inter> B = {}"
  shows "run_set A (run_set B s) = run_set (A \<union> B) s"
proof -
  let ?n = "length (procs s)" and ?hot = "\<lambda>i. sint (p_pri (procs s ! i)) < sint (curpri s)"
  have c: "card {i \<in> A \<union> B. i < ?n \<and> ?hot i}
      = card {i \<in> B. i < ?n \<and> ?hot i} + card {i \<in> A. i < ?n \<and> ?hot i}"
    using assms by (subst card_Un_disjoint [symmetric]) (auto intro!: arg_cong [where f = card])
  have "{i \<in> A. i < ?n \<and> sint (p_pri (procs (run_set B s) ! i)) < sint (curpri s)}
      = {i \<in> A. i < ?n \<and> ?hot i}"
    by (auto split: if_splits)
  moreover have "map (\<lambda>i. if i \<in> A then woken (procs (run_set B s) ! i) else procs (run_set B s) ! i) [0..<?n]
      = map (\<lambda>i. if i \<in> A \<union> B then woken (procs s ! i) else procs s ! i) [0..<?n]"
    by (rule map_cong) auto
  moreover have "run_set B s = s\<lparr>procs := procs (run_set B s), runrun := runrun s
      + of_nat (card {i \<in> B. i < ?n \<and> ?hot i})\<rparr>"
    by (simp add: run_set_def)
  ultimately show ?thesis
    unfolding run_set_def [of A "run_set B s"] run_set_def [of "A \<union> B"] c
    by (intro sched.equality) (simp_all, simp add: run_set_def)
qed

lemma sleepers_run_set:
  "c \<noteq> ChNone \<Longrightarrow> sleepers c (run_set W s) = sleepers c s - W"
  by (auto simp: sleepers_def split: if_splits)

lemma run_set_runout: "run_set W (s\<lparr>runout := v\<rparr>) = (run_set W s)\<lparr>runout := v\<rparr>"
  by (simp add: run_set_def)

lemma sleepers_runout [simp]: "sleepers c (s\<lparr>runout := v\<rparr>) = sleepers c s"
  by (simp add: sleepers_def)

lemma scan_core:
  assumes c: "c \<noteq> ChNone" and "distinct xs" "set xs \<subseteq> {..<length (procs s)}"
  shows "fold (\<lambda>i s. if p_wchan (procs s ! i) = c then setrun_core i s else s) xs s
    = run_set (sleepers c s \<inter> set xs) s"
  using assms(2,3)
proof (induction xs rule: rev_induct)
  case Nil
  then show ?case by simp
next
  case (snoc x xs)
  let ?t = "run_set (sleepers c s \<inter> set xs) s"
  have x: "x < length (procs s)" "x \<notin> set xs" using snoc.prems by auto
  show ?case
  proof (cases "p_wchan (procs s ! x) = c")
    case True
    then have "sleepers c s \<inter> set (xs @ [x]) = {x} \<union> (sleepers c s \<inter> set xs)"
      using x by (auto simp: sleepers_def)
    moreover have "setrun_core x ?t = run_set {x} ?t"
      using x by (simp add: setrun_core_run_set)
    ultimately show ?thesis
      using snoc True x by (simp add: run_set_run_set)
  next
    case False
    then have "sleepers c s \<inter> set (xs @ [x]) = sleepers c s \<inter> set xs"
      by (auto simp: sleepers_def)
    with False snoc x show ?thesis by simp
  qed
qed

lemma wake_scan_core:
  assumes "c \<noteq> ChNone" "length (procs s) = NPROC"
  shows "wake_scan setrun_core c s = run_set (sleepers c s) s"
proof -
  have "sleepers c s \<inter> {0..<NPROC} = sleepers c s"
    using assms(2) by (auto simp: sleepers_def)
  with scan_core [OF assms(1), of "[0..<NPROC]" s] assms(2) show ?thesis
    by (simp add: wake_scan_def atLeast0LessThan)
qed

text \<open>The swapper is woken too when \<^verbatim>\<open>runout\<close> is set and a woken process is out of core.\<close>

definition rouses :: "nat set \<Rightarrow> sched \<Rightarrow> bool" where
  "rouses W s \<longleftrightarrow> runout s \<noteq> 0 \<and> (\<exists>i\<in>W. \<not> hasf (p_flag (procs s ! i)) SLOAD)"

definition wake_effect :: "nat set \<Rightarrow> sched \<Rightarrow> sched" where
  "wake_effect W s = (if rouses W s then run_set (W \<union> sleepers ChRunout s) (s\<lparr>runout := 0\<rparr>) else run_set W s)"

lemma setrun_s_effect:
  assumes "length (procs s) = NPROC" "i < NPROC"
  shows "setrun_s i s = wake_effect {i} s"
proof -
  have "sleepers ChRunout (run_set {i} s) \<inter> {i} = {}"
    by (simp add: sleepers_run_set)
  then have "run_set (sleepers ChRunout s - {i}) (run_set {i} (s\<lparr>runout := 0\<rparr>))
      = run_set ({i} \<union> sleepers ChRunout s) (s\<lparr>runout := 0\<rparr>)"
    by (subst run_set_run_set) (auto intro!: arg_cong2 [where f = run_set])
  with assms show ?thesis
    by (simp add: setrun_s_def wake_swapper_def setrun_core_run_set wake_scan_core wake_effect_def
        rouses_def sleepers_run_set flip: run_set_runout)
qed

lemma scan_setrun:
  assumes c: "c \<noteq> ChNone" and n: "length (procs s) = NPROC"
    and "distinct xs" "set xs \<subseteq> {..<NPROC}"
  shows "fold (\<lambda>i s. if p_wchan (procs s ! i) = c then setrun_s i s else s) xs s
    = wake_effect (sleepers c s \<inter> set xs) s"
  using assms(3,4)
proof (induction xs rule: rev_induct)
  case Nil
  then show ?case by (simp add: wake_effect_def rouses_def)
next
  case (snoc x xs)
  let ?W = "sleepers c s \<inter> set xs" and ?R = "sleepers ChRunout s"
  have x: "x < NPROC" "x \<notin> set xs" using snoc.prems by auto
  note IH = snoc.IH [OF _ _]
  show ?case
  proof (cases "p_wchan (procs s ! x) = c")
    case False
    then have W: "sleepers c s \<inter> set (xs @ [x]) = ?W" by (auto simp: sleepers_def)
    have "p_wchan (procs (wake_effect ?W s) ! x) \<noteq> c"
      using False x n c by (simp add: wake_effect_def)
    with snoc W show ?thesis by simp
  next
    case True
    then have W: "sleepers c s \<inter> set (xs @ [x]) = {x} \<union> ?W"
      using x n by (auto simp: sleepers_def)
    have rW: "rouses ({x} \<union> ?W) s \<longleftrightarrow> rouses {x} s \<or> rouses ?W s" by (auto simp: rouses_def)
    show ?thesis
    proof (cases "rouses ?W s")
      case old: True
      let ?t = "run_set (?W \<union> ?R) (s\<lparr>runout := 0\<rparr>)"
      have t: "wake_effect ?W s = ?t" using old by (simp add: wake_effect_def)
      show ?thesis
      proof (cases "c = ChRunout")
        case True
        then have "x \<in> ?R" using \<open>p_wchan (procs s ! x) = c\<close> x n by (simp add: sleepers_def)
        then have "p_wchan (procs ?t ! x) \<noteq> c" using x n c by simp
        moreover have "{x} \<union> ?W \<union> ?R = ?W \<union> ?R" using \<open>x \<in> ?R\<close> by auto
        ultimately show ?thesis using snoc W t rW old by (simp add: wake_effect_def)
      next
        case False
        then have nx: "x \<notin> ?W \<union> ?R" using True x by (auto simp: sleepers_def)
        have "setrun_s x ?t = wake_effect {x} ?t" using x n by (simp add: setrun_s_effect)
        also have "\<dots> = run_set {x} ?t" by (simp add: wake_effect_def rouses_def)
        also have "\<dots> = run_set ({x} \<union> (?W \<union> ?R)) (s\<lparr>runout := 0\<rparr>)"
          using nx by (subst run_set_run_set) auto
        finally show ?thesis
          using snoc W t rW old True nx x n by (simp add: wake_effect_def Un_assoc)
      qed
    next
      case old: False
      let ?t = "run_set ?W s"
      have t: "wake_effect ?W s = ?t" using old by (simp add: wake_effect_def)
      have r: "rouses {x} ?t \<longleftrightarrow> rouses {x} s" using x n by (simp add: rouses_def)
      have "setrun_s x ?t = wake_effect {x} ?t" using x n by (simp add: setrun_s_effect)
      also have "\<dots> = wake_effect ({x} \<union> ?W) s"
      proof (cases "rouses {x} s")
        case True
        have "{x} \<union> (?R - ?W) \<union> ?W = {x} \<union> ?W \<union> ?R" "({x} \<union> (?R - ?W)) \<inter> ?W = {}"
          using x by auto
        then show ?thesis using True r rW
          by (simp add: wake_effect_def sleepers_run_set run_set_run_set flip: run_set_runout)
      next
        case False
        then show ?thesis using r rW old x
          by (simp add: wake_effect_def run_set_run_set)
      qed
      finally show ?thesis using snoc W t True x n by simp
    qed
  qed
qed

lemma wakeup_s_effect:
  assumes "c \<noteq> ChNone" "length (procs s) = NPROC"
  shows "wakeup_s c s = wake_effect (sleepers c s) s"
proof -
  have "sleepers c s \<inter> {0..<NPROC} = sleepers c s"
    using assms(2) by (auto simp: sleepers_def)
  with scan_setrun [OF assms, of "[0..<NPROC]"] show ?thesis
    by (simp add: wakeup_s_def wake_scan_def atLeast0LessThan)
qed

text \<open>\<^verbatim>\<open>setrun\<close> as the source has it: its last call is the same \<^verbatim>\<open>wakeup\<close>.\<close>

lemma setrun_eq:
  assumes "length (procs s) = NPROC" "i < NPROC"
  shows "setrun_s i s = wake_swapper wakeup_s i (setrun_core i s)"
  using assms
  by (simp add: setrun_s_def wake_swapper_def setrun_core_run_set wake_scan_core wakeup_s_effect
      wake_effect_def rouses_def)

subsection \<open>The kernel versions\<close>

lemma setrun_sel [simp]:
  "k_u (setrun i k) = k_u k"
  "k_uarea (setrun i k) = k_uarea k"
  "k_bio (setrun i k) = k_bio k"
  "k_fs (setrun i k) = k_fs k"
  "k_file (setrun i k) = k_file k"
  "k_text (setrun i k) = k_text k"
  "k_clk (setrun i k) = k_clk k"
  "k_ipc (setrun i k) = k_ipc k"
  "coremap (setrun i k) = coremap k"
  "execnt (setrun i k) = execnt k"
  "maxmem (setrun i k) = maxmem k"
  "phys (setrun i k) = phys k"
  "klocal (setrun i k) = klocal k"
  "gdt3 (setrun i k) = gdt3 k"
  "gdt4 (setrun i k) = gdt4 k"
  by (simp_all add: setrun_def)

lemma wakeup_sel [simp]:
  "k_u (wakeup c k) = k_u k"
  "k_uarea (wakeup c k) = k_uarea k"
  "k_bio (wakeup c k) = k_bio k"
  "k_fs (wakeup c k) = k_fs k"
  "k_file (wakeup c k) = k_file k"
  "k_text (wakeup c k) = k_text k"
  "k_clk (wakeup c k) = k_clk k"
  "k_ipc (wakeup c k) = k_ipc k"
  "coremap (wakeup c k) = coremap k"
  "execnt (wakeup c k) = execnt k"
  "maxmem (wakeup c k) = maxmem k"
  "phys (wakeup c k) = phys k"
  "klocal (wakeup c k) = klocal k"
  "gdt3 (wakeup c k) = gdt3 k"
  "gdt4 (wakeup c k) = gdt4 k"
  by (simp_all add: wakeup_def)

lemma setpri_sel [simp]:
  "k_u (setpri i k) = k_u k"
  "k_uarea (setpri i k) = k_uarea k"
  "k_bio (setpri i k) = k_bio k"
  "k_fs (setpri i k) = k_fs k"
  "k_file (setpri i k) = k_file k"
  "k_text (setpri i k) = k_text k"
  "k_clk (setpri i k) = k_clk k"
  "k_ipc (setpri i k) = k_ipc k"
  "coremap (setpri i k) = coremap k"
  "execnt (setpri i k) = execnt k"
  "maxmem (setpri i k) = maxmem k"
  "phys (setpri i k) = phys k"
  "klocal (setpri i k) = klocal k"
  "gdt3 (setpri i k) = gdt3 k"
  "gdt4 (setpri i k) = gdt4 k"
  by (simp_all add: setpri_def)

lemma update_pos_sel [simp]:
  "k_u (update_pos i k) = k_u k"
  "k_uarea (update_pos i k) = k_uarea k"
  "k_sch (update_pos i k) = k_sch k"
  "k_bio (update_pos i k) = k_bio k"
  "k_fs (update_pos i k) = k_fs k"
  "k_file (update_pos i k) = k_file k"
  "k_text (update_pos i k) = k_text k"
  "k_clk (update_pos i k) = k_clk k"
  "k_ipc (update_pos i k) = k_ipc k"
  "coremap (update_pos i k) = coremap k"
  "execnt (update_pos i k) = execnt k"
  "maxmem (update_pos i k) = maxmem k"
  "phys (update_pos i k) = phys k"
  "klocal (update_pos i k) = klocal k"
  by (simp_all add: update_pos_def Let_def)

lemma wake_effect_len [simp]: "length (procs (wake_effect W s)) = length (procs s)"
  by (simp add: wake_effect_def)

text \<open>Waking changes no field of a process but its state and its channel.\<close>

lemma wake_effect_fields [simp]:
  assumes "j < length (procs s)"
  shows "p_sig (procs (wake_effect W s) ! j) = p_sig (procs s ! j)"
    "p_pid (procs (wake_effect W s) ! j) = p_pid (procs s ! j)"
    "p_ppid (procs (wake_effect W s) ! j) = p_ppid (procs s ! j)"
    "p_pgrp (procs (wake_effect W s) ! j) = p_pgrp (procs s ! j)"
    "p_sid (procs (wake_effect W s) ! j) = p_sid (procs s ! j)"
    "p_ttyp (procs (wake_effect W s) ! j) = p_ttyp (procs s ! j)"
    "p_uid (procs (wake_effect W s) ! j) = p_uid (procs s ! j)"
    "p_flag (procs (wake_effect W s) ! j) = p_flag (procs s ! j)"
    "p_pri (procs (wake_effect W s) ! j) = p_pri (procs s ! j)"
    "p_sigmask (procs (wake_effect W s) ! j) = p_sigmask (procs s ! j)"
  using assms by (simp_all add: wake_effect_def)

lemma bufp_wakeup [simp]: "bufp (wakeup c k) = bufp k"
  by (rule bufp_cong) simp

lemma inodep_wakeup [simp]: "inodep (wakeup c k) = inodep k"
  by (rule inodep_cong) simp

lemma bufp_setrun [simp]: "bufp (setrun i k) = bufp k"
  by (rule bufp_cong) simp

lemma inodep_setrun [simp]: "inodep (setrun i k) = inodep k"
  by (rule inodep_cong) simp

lemma bufp_setpri [simp]: "bufp (setpri i k) = bufp k"
  by (rule bufp_cong) simp

lemma inodep_setpri [simp]: "inodep (setpri i k) = inodep k"
  by (rule inodep_cong) simp

lemma sch_setrun:
  "length (procs (k_sch k)) = NPROC \<Longrightarrow> i < NPROC \<Longrightarrow> k_sch (setrun i k) = wake_effect {i} (k_sch k)"
  by (simp add: setrun_def setrun_s_effect)

lemma sch_wakeup:
  "length (procs (k_sch k)) = NPROC \<Longrightarrow> c \<noteq> ChNone \<Longrightarrow>
   k_sch (wakeup c k) = wake_effect (sleepers c (k_sch k)) (k_sch k)"
  by (simp add: wakeup_def wakeup_s_effect)

lemma nproc_setrun [simp]:
  "length (procs (k_sch k)) = NPROC \<Longrightarrow> i < NPROC \<Longrightarrow> length (procs (k_sch (setrun i k))) = NPROC"
  by (simp add: sch_setrun)

lemma nproc_wakeup [simp]:
  "length (procs (k_sch k)) = NPROC \<Longrightarrow> c \<noteq> ChNone \<Longrightarrow> length (procs (k_sch (wakeup c k))) = NPROC"
  by (simp add: sch_wakeup)

lemma nproc_setpri [simp]: "length (procs (k_sch (setpri i k))) = length (procs (k_sch k))"
  by (simp add: setpri_def setpri_s_def Let_def)

subsection \<open>Properties\<close>

text \<open>Where the images of the processes lie, which no wakeup changes.\<close>

definition images :: "sched \<Rightarrow> (uint32_t \<times> uint32_t) list" where
  "images s = map (\<lambda>p. (p_addr p, p_size p)) (procs s)"

lemma images_setrun_core: "images (setrun_core i s) = images s"
proof (cases "i < length (procs s)")
  case True
  then show ?thesis by (simp add: images_def setrun_core_def Let_def map_update list_update_same_conv)
next
  case False
  then show ?thesis by (simp add: images_def setrun_core_def Let_def list_update_beyond)
qed

lemma images_wake_scan: "(\<And>i s. images (f i s) = images s) \<Longrightarrow> images (wake_scan f c s) = images s"
proof -
  assume f: "\<And>i s. images (f i s) = images s"
  have "images (fold (\<lambda>i s. if p_wchan (procs s ! i) = c then f i s else s) xs s) = images s" for xs s
    by (induction xs arbitrary: s) (simp_all add: f)
  then show ?thesis by (simp add: wake_scan_def)
qed

lemma images_setrun_s [simp]: "images (setrun_s i s) = images s"
proof -
  have "images (s\<lparr>runout := v\<rparr>) = images s" for s v by (simp add: images_def)
  then show ?thesis by (simp add: setrun_s_def wake_swapper_def images_setrun_core images_wake_scan)
qed

lemma images_wakeup [simp]: "images (k_sch (wakeup c k)) = images (k_sch k)"
  by (simp add: wakeup_def wakeup_s_def images_wake_scan)

text \<open>C10: \<^verbatim>\<open>wakeup(chan)\<close> makes exactly the processes that sleep on \<^verbatim>\<open>chan\<close> runnable,
  takes them off the channel and changes nothing else of the process table, except that the
  swapper's sleepers on \<^verbatim>\<open>runout\<close> are woken with them when the flag is set and one of the
  woken processes is out of core.\<close>

theorem wakeup_wakes:
  assumes "length (procs (k_sch k)) = NPROC" "c \<noteq> ChNone" "i < NPROC"
  shows "procp (wakeup c k) i =
    (if p_wchan (procp k i) = c
        \<or> (p_wchan (procp k i) = ChRunout \<and> runout (k_sch k) \<noteq> 0
            \<and> (\<exists>j<NPROC. p_wchan (procp k j) = c \<and> \<not> hasf (p_flag (procp k j)) SLOAD))
     then (procp k i)\<lparr>p_wchan := ChNone, p_stat := SRUN\<rparr> else procp k i)"
  using assms
  by (auto simp: procp_def sch_wakeup wake_effect_def rouses_def sleepers_def woken_def)

theorem wakeup_wakes_witness:
  "procp (wakeup ChLbolt (upd_proc 3 (\<lambda>p. p\<lparr>p_wchan := ChLbolt, p_stat := SSLEEP\<rparr>) zero_kernel)) 3
    = empty_proc\<lparr>p_stat := SRUN\<rparr>"
  by (subst wakeup_wakes) (simp_all add: zero_kernel_def upd_proc_def upd_sch_def procp_def empty_proc_def)

lemma setpri_priority:
  assumes "i < length (procs (k_sch k))"
  shows "let p = min 127 (int (unat (p_cpu (procp k i))) div 16 + PUSER + sint (p_nice (procp k i)))
    in sint (p_pri (procp (setpri i k) i)) = p
      \<and> runrun (k_sch (setpri i k)) = runrun (k_sch k) + (if p > sint (curpri (k_sch k)) then 1 else 0)"
proof -
  have "0 \<le> int (unat (p_cpu (procp k i))) div 16" by (simp add: pos_imp_zdiv_nonneg_iff)
  with sint8_range [of "p_nice (procp k i)"]
  show ?thesis using assms
    by (simp add: setpri_def setpri_s_def procp_def Let_def sint_of_int8 min_def)
qed
text \<open>Both user descriptors start, as the processor decodes them, at the image after the u-area.\<close>

lemma update_pos_base:
  "descr_base (gdt3 (update_pos i k)) = (p_addr (procp k i) + USIZE) * 64
   \<and> descr_base (gdt4 (update_pos i k)) = (p_addr (procp k i) + USIZE) * 64"
  by (simp add: update_pos_def Let_def descr_base_seg)

lemma wake_effect_image [simp]:
  assumes "j < length (procs s)"
  shows "p_addr (procs (wake_effect W s) ! j) = p_addr (procs s ! j)"
    "p_size (procs (wake_effect W s) ! j) = p_size (procs s ! j)"
  using assms by (simp_all add: wake_effect_def)

end
