(* ===== verification/Sig.thy ===== *)
theory Sig
  imports Wakeup
begin

text \<open>
  \<^verbatim>\<open>kernel/sig.c\<close>, the part below the file system: posting signals to one process, to
  a terminal and to a process group, the test for a pending signal, the \<^verbatim>\<open>ptrace\<close> stop
  and the \<^verbatim>\<open>kill\<close> and \<^verbatim>\<open>signal\<close> system calls.  Delivery, which may write a core
  file, is in \<open>Psig\<close>.
\<close>

subsection \<open>Posting\<close>

definition psignal :: "nat \<Rightarrow> int \<Rightarrow> kernel \<Rightarrow> kernel" where
  "psignal i sig k =
     (if sig \<ge> int NSIG then k
      else
        (let k1 = (if p_sig (procp k i) \<noteq> of_nat SIGKIL
                   then upd_proc i (\<lambda>p. p\<lparr>p_sig := of_int sig\<rparr>) k else k)
         in if p_stat (procp k1 i) = SSLEEP \<or> p_stat (procp k1 i) = SWAIT then setrun i k1 else k1))"

text \<open>The loops over the process table: \<open>each_proc test act\<close>.\<close>

definition each_proc :: "(proc \<Rightarrow> bool) \<Rightarrow> (nat \<Rightarrow> kernel \<Rightarrow> kernel) \<Rightarrow> kernel \<Rightarrow> kernel" where
  "each_proc t f k = fold (\<lambda>i k. if t (procp k i) then f i k else k) [0..<NPROC] k"

definition signal_tty :: "nat option \<Rightarrow> int \<Rightarrow> kernel \<Rightarrow> kernel" where
  "signal_tty tp sig = each_proc (\<lambda>p. p_ttyp p = tp) (\<lambda>i. psignal i sig)"

definition pgsignal :: "int \<Rightarrow> int \<Rightarrow> kernel \<Rightarrow> kernel" where
  "pgsignal pgid sig k =
     (if pgid \<le> 0 then k
      else each_proc (\<lambda>p. sint (p_pgrp p) = pgid) (\<lambda>i. psignal i sig) k)"

subsection \<open>Stopping for the tracer\<close>

text \<open>\<open>stop_self\<close> is \<^verbatim>\<open>stop\<close> up to the \<^verbatim>\<open>swtch\<close> (or the \<^verbatim>\<open>exit\<close> when the parent is
  gone); \<open>procxmt\<close> runs when the process is continued.\<close>

definition stop_self :: "unit kop" where
  "stop_self k =
     (let cp = u_procp (k_u k);
          gone = Stop Exits k
      in if p_ppid (procp k cp) \<noteq> 1 then
           (case find_slot (\<lambda>p. p_pid p = p_ppid (procp k cp)) (procs (k_sch k)) of
              Some pp \<Rightarrow> Stop Switched (upd_proc cp (\<lambda>p. p\<lparr>p_stat := SSTOP\<rparr>) (wakeup (ChProc pp) k))
            | None \<Rightarrow> gone)
         else gone)"

definition take_sig :: "kernel \<Rightarrow> kernel" where
  "take_sig k =
     (let d = sint (ip_data (k_ipc k))
      in if d > 0 \<and> d < int NSIG
         then upd_proc (u_procp (k_u k)) (\<lambda>p. p\<lparr>p_sig := ucast (ip_data (k_ipc k))\<rparr>) k else k)"

definition procxmt :: "bool kop" where
  "procxmt k =
     (let p = procp k (u_procp (k_u k));
          i = sint (ip_req (k_ipc k));
          k1 = wakeup ChIpc (k\<lparr>k_ipc := (k_ipc k)\<lparr>ip_req := 0, ip_lock := 0\<rparr>\<rparr>)
      in if sint (ip_lock (k_ipc k)) \<noteq> sint (p_pid p) then Ret False k
         else if i = 7 then Ret True (take_sig k1)
         else if i = 8 then Stop Exits k1
         else if i = 9 then
           Ret True (take_sig (set_ar0 EFLAGS (u_ar0 (k_u k1) ! EFLAGS OR 0x100) k1))
         else Ret False k1)"

text \<open>\<^verbatim>\<open>stop\<close> after the process runs again: it returns, or stops once more.\<close>

definition stop_resumed :: "unit kop" where
  "stop_resumed k =
     (if \<not> hasf (p_flag (procp k (u_procp (k_u k)))) STRC then Ret () k
      else kbind procxmt (\<lambda>b. if b then ret () else stop_self) k)"

subsection \<open>Is there a signal?\<close>

definition sig_bit :: "int \<Rightarrow> uint16_t" where
  "sig_bit n = ucast (push_bit (nat (n - 1)) (1 :: uint32_t))"

text \<open>\<^verbatim>\<open>issig\<close> once a traced process is past \<^verbatim>\<open>stop\<close>.\<close>

definition issig_untraced :: "kernel \<Rightarrow> int" where
  "issig_untraced k =
     (let p = procp k (u_procp (k_u k)); n = sint (p_sig p)
      in if n = 0 then 0
         else if n \<noteq> int SIGKIL \<and> hasf (p_sigmask p) (sig_bit n) then 0
         else if (u_signal (k_u k) ! nat n) AND 1 = 0 then n else 0)"

definition issig :: "int kop" where
  "issig k =
     (let p = procp k (u_procp (k_u k))
      in if p_sig p \<noteq> 0 \<and> hasf (p_flag p) STRC
         then kseq stop_self (ask issig_untraced) k
         else Ret (issig_untraced k) k)"

subsection \<open>System calls\<close>

definition kill_targets :: "int \<Rightarrow> int \<Rightarrow> nat \<Rightarrow> kernel \<Rightarrow> kernel" where
  "kill_targets pid sig i k =
     (let p = procp k i; me = u_procp (k_u k)
      in if p_stat p = SNULL then k
         else if pid = 0 then
           (if p_ttyp p = p_ttyp (procp k me) \<and> i \<noteq> me then psignal i sig k else k)
         else if pid = -1 then
           (if u_uid (k_u k) = 0 \<and> i \<noteq> me then psignal i sig k else k)
         else k)"

text \<open>The value is what the C function returns.\<close>

definition kill :: "kernel \<Rightarrow> int \<times> kernel" where
  "kill k =
     (let pid = sint (arg 0 k); sig = sint (arg 1 k)
      in if sig < 0 \<or> sig \<ge> int NSIG then (-1, set_error EINVAL k)
         else if pid > 0 then
           (case find_slot (\<lambda>p. p_stat p \<noteq> SNULL \<and> sint (p_pid p) = pid) (procs (k_sch k)) of
              None \<Rightarrow> (-1, set_error ESRCH k)
            | Some i \<Rightarrow>
                if u_uid (k_u k) \<noteq> 0 \<and> u_uid (k_u k) \<noteq> p_uid (procp k i) then (-1, set_error EPERM k)
                else (0, psignal i sig k))
         else (0, fold (kill_targets pid sig) [0..<NPROC] k))"

definition ssig :: "kernel \<Rightarrow> int \<times> kernel" where
  "ssig k =
     (let sig = sint (arg 0 k); func = arg 1 k
      in if sig \<le> 0 \<or> sig \<ge> int NSIG \<or> sig = int SIGKIL then (-1, set_error EINVAL k)
         else
           (let old = u_signal (k_u k) ! nat sig
            in (0, set_ar0 EAX old (upd_u (\<lambda>u. u\<lparr>u_signal := (u_signal u)[nat sig := func]\<rparr>) k))))"

subsection \<open>What posting does\<close>

lemma psignal_sel [simp]:
  "k_u (psignal i sig k) = k_u k"
  "k_uarea (psignal i sig k) = k_uarea k"
  "k_bio (psignal i sig k) = k_bio k"
  "k_fs (psignal i sig k) = k_fs k"
  "k_file (psignal i sig k) = k_file k"
  "k_text (psignal i sig k) = k_text k"
  "k_clk (psignal i sig k) = k_clk k"
  "k_ipc (psignal i sig k) = k_ipc k"
  "coremap (psignal i sig k) = coremap k"
  "execnt (psignal i sig k) = execnt k"
  "maxmem (psignal i sig k) = maxmem k"
  "phys (psignal i sig k) = phys k"
  "klocal (psignal i sig k) = klocal k"
  "gdt3 (psignal i sig k) = gdt3 k"
  "gdt4 (psignal i sig k) = gdt4 k"
  by (simp_all add: psignal_def Let_def)

lemma nproc_psignal [simp]:
  "length (procs (k_sch k)) = NPROC \<Longrightarrow> i < NPROC \<Longrightarrow> length (procs (k_sch (psignal i sig k))) = NPROC"
  by (simp add: psignal_def Let_def)

text \<open>Only the target's \<^verbatim>\<open>p_sig\<close> changes; identities never do.\<close>

lemma psignal_procp:
  assumes "length (procs (k_sch k)) = NPROC" "i < NPROC" "j < NPROC"
  shows "p_sig (procp (psignal i sig k) j) =
      (if j = i \<and> sig < int NSIG \<and> p_sig (procp k i) \<noteq> of_nat SIGKIL then of_int sig else p_sig (procp k j))"
    and "p_pgrp (procp (psignal i sig k) j) = p_pgrp (procp k j)"
    and "p_ttyp (procp (psignal i sig k) j) = p_ttyp (procp k j)"
    and "p_uid (procp (psignal i sig k) j) = p_uid (procp k j)"
    and "p_pid (procp (psignal i sig k) j) = p_pid (procp k j)"
    and "p_flag (procp (psignal i sig k) j) = p_flag (procp k j)"
  using assms
  by (simp_all add: psignal_def Let_def procp_def sch_setrun upd_proc_def nth_list_update)

lemma psignal_stat:
  assumes "length (procs (k_sch k)) = NPROC" "i < NPROC" "sig < int NSIG"
  shows "p_stat (procp (psignal i sig k) i) =
      (if p_stat (procp k i) = SSLEEP \<or> p_stat (procp k i) = SWAIT then SRUN else p_stat (procp k i))"
  using assms
  by (simp add: psignal_def Let_def procp_def sch_setrun upd_proc_def wake_effect_def)

lemma each_proc_psignal:
  assumes "length (procs (k_sch k)) = NPROC"
    and t: "\<And>i k. length (procs (k_sch k)) = NPROC \<Longrightarrow> i < NPROC \<Longrightarrow>
      \<forall>j<NPROC. t (procp (psignal i sig k) j) = t (procp k j)"
  shows "length (procs (k_sch (each_proc t (\<lambda>i. psignal i sig) k))) = NPROC"
    and "j < NPROC \<Longrightarrow> p_sig (procp (each_proc t (\<lambda>i. psignal i sig) k) j) =
      (if t (procp k j) \<and> sig < int NSIG \<and> p_sig (procp k j) \<noteq> of_nat SIGKIL
       then of_int sig else p_sig (procp k j))"
proof -
  define f where "f = (\<lambda>i k. if t (procp k i) then psignal i sig k else k)"
  have "length (procs (k_sch (fold f xs k))) = NPROC
      \<and> (\<forall>j<NPROC. t (procp (fold f xs k) j) = t (procp k j)
          \<and> p_sig (procp (fold f xs k) j) =
            (if j \<in> set xs \<and> t (procp k j) \<and> sig < int NSIG \<and> p_sig (procp k j) \<noteq> of_nat SIGKIL
             then of_int sig else p_sig (procp k j)))"
    if "distinct xs" "set xs \<subseteq> {..<NPROC}" for xs
    using that
  proof (induction xs rule: rev_induct)
    case Nil
    then show ?case using assms(1) by simp
  next
    case (snoc x xs)
    then have x: "x < NPROC" "x \<notin> set xs" by auto
    let ?m = "fold f xs k"
    have m: "length (procs (k_sch ?m)) = NPROC" using snoc by simp
    have "fold f (xs @ [x]) k = (if t (procp k x) then psignal x sig ?m else ?m)"
      using snoc x by (simp add: f_def)
    with snoc x m t [OF m x(1)] psignal_procp(1) [OF m x(1)] show ?case by auto
  qed
  from this [of "[0..<NPROC]"]
  show "length (procs (k_sch (each_proc t (\<lambda>i. psignal i sig) k))) = NPROC"
    and "j < NPROC \<Longrightarrow> p_sig (procp (each_proc t (\<lambda>i. psignal i sig) k) j) =
      (if t (procp k j) \<and> sig < int NSIG \<and> p_sig (procp k j) \<noteq> of_nat SIGKIL
       then of_int sig else p_sig (procp k j))"
    by (simp_all add: each_proc_def f_def atLeast0LessThan)
qed

subsection \<open>Properties\<close>

text \<open>C15: \<^verbatim>\<open>psignal\<close> records the signal in the target unless a kill is already
  pending there, and a sleeping target becomes runnable.\<close>

theorem psignal_post:
  assumes "length (procs (k_sch k)) = NPROC" "i < NPROC" "sig < int NSIG"
  shows "p_sig (procp (psignal i sig k) i) = (if p_sig (procp k i) = 9 then 9 else of_int sig)
    \<and> p_stat (procp (psignal i sig k) i) =
      (if p_stat (procp k i) \<in> {SSLEEP, SWAIT} then SRUN else p_stat (procp k i))"
  using assms psignal_procp(1) [OF assms(1,2,2)] psignal_stat [OF assms] by simp

theorem psignal_post_witness:
  "p_sig (procp (psignal 2 15 zero_kernel) 2) = 15"
  using psignal_post [of zero_kernel 2 15] by (simp add: zero_kernel_def procp_def empty_proc_def)

lemma pgsignal_members:
  assumes "length (procs (k_sch k)) = NPROC" "0 < pgid" "sig < int NSIG" "i < NPROC"
  shows "p_sig (procp (pgsignal pgid sig k) i) =
    (if sint (p_pgrp (procp k i)) = pgid \<and> p_sig (procp k i) \<noteq> 9 then of_int sig
     else p_sig (procp k i))"
  using assms each_proc_psignal(2) [OF assms(1), where t = "\<lambda>p. sint (p_pgrp p) = pgid"]
  by (simp add: pgsignal_def psignal_procp(2))

lemma issig_masking:
  assumes p: "p = procp k (u_procp (k_u k))" "\<not> hasf (p_flag p) STRC"
    and n: "n = sint (p_sig p)" "0 < n" "n < int NSIG"
    and caught: "(u_signal (k_u k) ! nat n) AND 1 = 0"
  shows "issig k = Ret (if n \<noteq> int SIGKIL \<and> n \<le> 16 \<and> bit (p_sigmask p) (nat (n - 1)) then 0 else n) k"
proof -
  have nz: "p_sig p \<noteq> 0" using n by auto
  have "hasf (p_sigmask p) (sig_bit n) \<longleftrightarrow> n \<le> 16 \<and> bit (p_sigmask p) (nat (n - 1))"
  proof (cases "n \<le> 16")
    case True
    then have l: "nat (n - 1) < 16" using n by simp
    have sb: "bit (sig_bit n) m \<longleftrightarrow> m = nat (n - 1)" for m
      using l by (auto simp: sig_bit_def bit_simps)
    show ?thesis
    proof
      assume "hasf (p_sigmask p) (sig_bit n)"
      then obtain m where "bit (p_sigmask p AND sig_bit n) m"
        by (auto simp: hasf_def bit_eq_iff)
      with sb True show "n \<le> 16 \<and> bit (p_sigmask p) (nat (n - 1))" by (auto simp: bit_simps)
    next
      assume "n \<le> 16 \<and> bit (p_sigmask p) (nat (n - 1))"
      then have "bit (p_sigmask p AND sig_bit n) (nat (n - 1))" using sb by (simp add: bit_simps)
      then show "hasf (p_sigmask p) (sig_bit n)" by (auto simp: hasf_def)
    qed
  next
    case False
    have "sig_bit n = 0"
      by (rule bit_word_eqI) (use False in \<open>auto simp: sig_bit_def bit_simps\<close>)
    with False show ?thesis by (simp add: hasf_def)
  qed
  then show ?thesis
    using nz p n caught by (simp add: issig_def issig_untraced_def Let_def)
qed

lemma kill_permission:
  assumes "0 \<le> sint (arg 1 k)" "sint (arg 1 k) < int NSIG" "0 < sint (arg 0 k)"
    and "find_slot (\<lambda>p. p_stat p \<noteq> SNULL \<and> sint (p_pid p) = sint (arg 0 k)) (procs (k_sch k)) = Some i"
    and "u_uid (k_u k) \<noteq> 0" "u_uid (k_u k) \<noteq> p_uid (procp k i)"
  shows "kill k = (-1, set_error EPERM k)"
  using assms by (simp add: kill_def Let_def)

lemma psignal_image:
  assumes "length (procs (k_sch k)) = NPROC" "i < NPROC" "j < NPROC"
  shows "p_addr (procp (psignal i sig k) j) = p_addr (procp k j)"
    "p_size (procp (psignal i sig k) j) = p_size (procp k j)"
  using assms by (simp_all add: psignal_def Let_def procp_def sch_setrun upd_proc_def nth_list_update)

definition image_kept :: "kernel \<Rightarrow> kernel \<Rightarrow> bool" where
  "image_kept k k' \<longleftrightarrow> k_u k' = k_u k \<and> phys k' = phys k \<and> length (procs (k_sch k')) = length (procs (k_sch k))
     \<and> (\<forall>j<NPROC. p_addr (procp k' j) = p_addr (procp k j) \<and> p_size (procp k' j) = p_size (procp k j))"

lemma pgsignal_image:
  assumes "length (procs (k_sch k)) = NPROC"
  shows "image_kept k (pgsignal g sig k)"
proof -
  define f where "f = (\<lambda>i k. if sint (p_pgrp (procp k i)) = g then psignal i sig k else k)"
  have K: "image_kept k (fold f xs k)" if "set xs \<subseteq> {..<NPROC}" for xs
    using that assms
  proof (induction xs arbitrary: k)
    case Nil
    then show ?case by (simp add: image_kept_def)
  next
    case (Cons i xs)
    have "image_kept k (f i k)" using Cons.prems by (auto simp: image_kept_def f_def psignal_image)
    moreover have "image_kept (f i k) (fold f xs (f i k))"
      using Cons.prems calculation by (intro Cons.IH) (auto simp: image_kept_def)
    ultimately show ?case by (simp add: image_kept_def)
  qed
  have "image_kept k (fold f [0..<NPROC] k)" by (rule K) auto
  then show ?thesis by (simp add: pgsignal_def each_proc_def f_def) (simp add: image_kept_def)
qed

end
