(* ===== verification/Slp.thy ===== *)
theory Slp
  imports Sig Malloc
begin

text \<open>
  The rest of \<^verbatim>\<open>kernel/sched/slp.c\<close>: going to sleep, the choice of the next process
  and the context switch, the swapper's loop, and the two operations that build process
  images, \<^verbatim>\<open>expand\<close> and \<^verbatim>\<open>newproc\<close>.

  \<open>sleep\<close> ends at the point where the C function calls \<^verbatim>\<open>swtch\<close>: its value is
  \<open>Stop Slept\<close> with the sleeping process in the table, and \<open>swtch\<close> is the operation the
  machine runs next.  An image is the \<open>p_size\<close> units of 64 bytes at \<open>p_addr\<close>; the u-area at
  its start is kept apart as \<open>k_uarea\<close>.  No image lies at the address of \<^verbatim>\<open>u\<close> itself,
  so the tests against \<^verbatim>\<open>&u\<close> always succeed.
\<close>

subsection \<open>sleep\<close>

definition mark_asleep :: "chan \<Rightarrow> int8_t \<Rightarrow> int \<Rightarrow> kernel \<Rightarrow> kernel" where
  "mark_asleep c st pri k =
     upd_proc (u_procp (k_u k)) (\<lambda>p. p\<lparr>p_wchan := c, p_stat := st, p_pri := of_int pri\<rparr>) k"

definition sleep_low :: "chan \<Rightarrow> int \<Rightarrow> unit kop" where
  "sleep_low c pri = kbind issig (\<lambda>n.
     if n \<noteq> 0 then stop Interrupted
     else (\<lambda>k.
       let k1 = mark_asleep c SWAIT pri k;
           k2 = (if runin (k_sch k1) \<noteq> 0 then wakeup ChRunin (upd_sch (\<lambda>s. s\<lparr>runin := 0\<rparr>) k1) else k1)
       in Stop Slept k2))"

definition sleep :: "chan \<Rightarrow> int \<Rightarrow> unit kop" where
  "sleep c pri =
     (if pri \<ge> 0 then sleep_low c pri else (\<lambda>k. Stop Slept (mark_asleep c SSLEEP pri k)))"

text \<open>What a low-priority sleeper does when \<^verbatim>\<open>swtch\<close> returns to it.\<close>

definition sleep_resumed :: "unit kop" where
  "sleep_resumed = kbind issig (\<lambda>n. if n \<noteq> 0 then stop Interrupted else ret ())"

subsection \<open>swtch\<close>

definition runnable :: "proc \<Rightarrow> bool" where
  "runnable p \<longleftrightarrow> p_stat p = SRUN \<and> hasf (p_flag p) SLOAD"

definition pick_step :: "proc list \<Rightarrow> nat \<Rightarrow> nat option \<Rightarrow> nat option" where
  "pick_step ps i best =
     (if runnable (ps ! i) then
        (case best of
           None \<Rightarrow> Some i
         | Some b \<Rightarrow> if sint (p_pri (ps ! i)) < sint (p_pri (ps ! b)) then Some i else best)
      else best)"

definition pick :: "proc list \<Rightarrow> nat option" where
  "pick ps = fold (pick_step ps) [0..<NPROC] None"

definition load_u :: "nat \<Rightarrow> kernel \<Rightarrow> kernel" where
  "load_u p k = k\<lparr>k_u := k_uarea k p\<rparr>"

definition save_u :: "nat \<Rightarrow> kernel \<Rightarrow> kernel" where
  "save_u p k = k\<lparr>k_uarea := (k_uarea k)(p := k_u k)\<rparr>"

definition swtch :: "unit kop" where
  "swtch k =
     (case pick (procs (k_sch k)) of
        None \<Rightarrow> Stop Idling k
      | Some p \<Rightarrow>
          if curproc (k_sch k) = Some p then Ret () (upd_sch (\<lambda>s. s\<lparr>runrun := 0\<rparr>) k)
          else
            (let last = curproc (k_sch k);
                 k1 = upd_sch (\<lambda>s. s\<lparr>curproc := Some p, curpri := p_pri (procs s ! p)\<rparr>) k
             in if p_addr (procp k p) = 0 then Stop Switched (update_pos p k1)
                else
                  (case last of
                     None \<Rightarrow> Stop Switched (load_u p (update_pos p k1))
                   | Some l \<Rightarrow>
                       if p_addr (procp k l) \<noteq> 0
                       then Stop Switched (load_u p (save_u l (update_pos p k1)))
                       else Stop Switched (load_u p (update_pos p k1)))))"

subsection \<open>sched\<close>

definition swap_step :: "proc list \<Rightarrow> nat \<Rightarrow> nat option \<times> int \<Rightarrow> nat option \<times> int" where
  "swap_step ps i = (\<lambda>(p1, n).
     if p_stat (ps ! i) = SRUN \<and> \<not> hasf (p_flag (ps ! i)) SLOAD \<and> sint (p_time (ps ! i)) > n
     then (Some i, sint (p_time (ps ! i))) else (p1, n))"

definition swap_pick :: "proc list \<Rightarrow> nat option" where
  "swap_pick ps = fst (fold (swap_step ps) [0..<NPROC] (None, -1))"

text \<open>The rounds from \<^verbatim>\<open>loop\<close> until it sleeps; each round loads one process, so
  \<open>NPROC + 1\<close> rounds are enough.\<close>

fun sched_loop :: "nat \<Rightarrow> unit kop" where
  "sched_loop 0 k = Stop Spins k"
| "sched_loop (Suc f) k =
     (case swap_pick (procs (k_sch k)) of
        None \<Rightarrow> sleep ChRunout PSWP (upd_sch (\<lambda>s. s\<lparr>runout := runout s + 1\<rparr>) k)
      | Some p1 \<Rightarrow>
          sched_loop f (upd_proc p1 (\<lambda>p. p\<lparr>p_flag := p_flag p OR SLOAD, p_time := 0\<rparr>) k))"

definition sched_run :: "unit kop" where
  "sched_run = sched_loop (NPROC + 1)"

subsection \<open>Images: copyseg, clearseg, expand, newproc\<close>

definition copyseg :: "uint32_t \<Rightarrow> uint32_t \<Rightarrow> (uint32_t \<Rightarrow> byte) \<Rightarrow> (uint32_t \<Rightarrow> byte)" where
  "copyseg src dst m = (\<lambda>a. if a - dst * 64 < 64 then m (src * 64 + (a - dst * 64)) else m a)"

definition clearseg :: "uint32_t \<Rightarrow> (uint32_t \<Rightarrow> byte) \<Rightarrow> (uint32_t \<Rightarrow> byte)" where
  "clearseg dst m = (\<lambda>a. if a - dst * 64 < 64 then 0 else m a)"

definition copy_units :: "uint32_t \<Rightarrow> uint32_t \<Rightarrow> nat \<Rightarrow> nat \<Rightarrow> (uint32_t \<Rightarrow> byte) \<Rightarrow> (uint32_t \<Rightarrow> byte)" where
  "copy_units src dst i n m = fold (\<lambda>j. copyseg (src + of_nat j) (dst + of_nat j)) [i..<n] m"

definition clear_units :: "uint32_t \<Rightarrow> nat \<Rightarrow> nat \<Rightarrow> (uint32_t \<Rightarrow> byte) \<Rightarrow> (uint32_t \<Rightarrow> byte)" where
  "clear_units dst i n m = fold (\<lambda>j. clearseg (dst + of_nat j)) [i..<n] m"

definition expand :: "int32_t \<Rightarrow> unit kop" where
  "expand newsize k =
     (let i = u_procp (k_u k); p = procp k i
      in if newsize \<le> p_size p then Ret () (upd_proc i (\<lambda>p. p\<lparr>p_size := newsize\<rparr>) k)
         else kbind (malloc_core newsize) (\<lambda>a1 k.
           if a1 = 0 then Ret () (set_error ENOMEM k)
           else
             (let n = nat (sint (p_size p)); n' = nat (sint newsize);
                  k1 = k\<lparr>phys := clear_units a1 n n' (copy_units (p_addr p) a1 0 n (phys k))\<rparr>
              in kseq (mfree_core (p_size p) (p_addr p))
                   (\<lambda>k. Ret () (update_pos i (upd_proc i (\<lambda>p. p\<lparr>p_addr := a1, p_size := newsize\<rparr>) k))) k1)) k)"

definition new_entry :: "proc \<Rightarrow> pid_t \<Rightarrow> proc \<Rightarrow> proc" where
  "new_entry p1 pid p2 = p2\<lparr>p_stat := SRUN, p_flag := SLOAD, p_pri := of_int PUSER, p_pid := pid,
     p_ppid := p_pid p1, p_uid := p_uid p1, p_time := 0, p_cpu := 0, p_nice := p_nice p1,
     p_ttyp := p_ttyp p1, p_textp := p_textp p1\<rparr>"

definition share_one :: "nat \<Rightarrow> kernel \<Rightarrow> kernel" where
  "share_one i k = (case u_ofile (k_u k) ! i of
     None \<Rightarrow> k | Some f \<Rightarrow> upd_file f (\<lambda>fp. fp\<lparr>f_count := f_count fp + 1\<rparr>) k)"

definition share_files :: "kernel \<Rightarrow> kernel" where
  "share_files k = fold share_one [0..<NOFILE] k"

definition share_cdir :: "kernel \<Rightarrow> kernel" where
  "share_cdir k = (case u_cdir (k_u k) of
     None \<Rightarrow> k | Some d \<Rightarrow> upd_inode d (\<lambda>ip. ip\<lparr>i_count := i_count ip + 1\<rparr>) k)"

text \<open>The value is what the parent gets, 0 or -1; the child, when \<^verbatim>\<open>swtch\<close> first picks
  it, comes back from the same call with 1.\<close>

definition newproc :: "int kop" where
  "newproc k =
     (case find_slot (\<lambda>p. p_stat p = SNULL) (procs (k_sch k)) of
        None \<Rightarrow> Ret (-1) (set_error EAGAIN k)
      | Some c \<Rightarrow>
          (let i = u_procp (k_u k);
               k1 = upd_sch (\<lambda>s. s\<lparr>mpid := mpid s + 1\<rparr>) k;
               k2 = upd_proc c (new_entry (procp k1 i) (ucast (mpid (k_sch k1)))) k1;
               size = p_size (procp k2 i)
           in kbind (malloc_core size) (\<lambda>a k.
                if a = 0 then Ret (-1) (upd_proc c (\<lambda>p. p\<lparr>p_stat := SNULL\<rparr>) (set_error ENOMEM k))
                else
                  (let k3 = upd_proc c (\<lambda>p. p\<lparr>p_addr := a, p_size := size\<rparr>) k;
                       k4 = k3\<lparr>k_uarea := (k_uarea k3)(c := (k_u k3)\<lparr>u_procp := c\<rparr>)\<rparr>;
                       k5 = k4\<lparr>phys := copy_units (p_addr (procp k4 i)) a (unat USIZE) (nat (sint size)) (phys k4)\<rparr>
                   in Ret 0 (share_cdir (share_files k5)))) k2))"

subsection \<open>The scheduler's choice\<close>

lemma fold_upt_Suc [simp]: "fold f [0..<Suc n] x = f n (fold f [0..<n] x)"
  by simp

definition swappable :: "proc \<Rightarrow> bool" where
  "swappable p \<longleftrightarrow> p_stat p = SRUN \<and> \<not> hasf (p_flag p) SLOAD \<and> 0 \<le> sint (p_time p)"

lemma pick_step_simps:
  "pick_step ps i None = (if runnable (ps ! i) then Some i else None)"
  "pick_step ps i (Some b) = (if runnable (ps ! i) \<and> sint (p_pri (ps ! i)) < sint (p_pri (ps ! b)) then Some i else Some b)"
  by (simp_all add: pick_step_def)

lemma swap_step_simp:
  "swap_step ps i (p1, n) = (if swappable (ps ! i) \<and> 0 \<le> n \<and> sint (p_time (ps ! i)) > n \<or> swappable (ps ! i) \<and> n = -1
     then (Some i, sint (p_time (ps ! i))) else (p1, n))" if "-1 \<le> n"
  using that by (auto simp: swap_step_def swappable_def)

lemma pick_upto:
  "case fold (pick_step ps) [0..<n] None of
     None \<Rightarrow> \<forall>j<n. \<not> runnable (ps ! j)
   | Some i \<Rightarrow> i < n \<and> runnable (ps ! i)
       \<and> (\<forall>j<n. runnable (ps ! j) \<longrightarrow> sint (p_pri (ps ! i)) \<le> sint (p_pri (ps ! j)))
       \<and> (\<forall>j<i. runnable (ps ! j) \<longrightarrow> sint (p_pri (ps ! i)) < sint (p_pri (ps ! j)))"
proof (induction n)
  case 0
  then show ?case by simp
next
  case (Suc n)
  show ?case
  proof (cases "fold (pick_step ps) [0..<n] None")
    case None
    with Suc show ?thesis by (auto simp: pick_step_simps less_Suc_eq)
  next
    case (Some b)
    with Suc have b: "b < n" "runnable (ps ! b)"
      "\<And>j. j < n \<Longrightarrow> runnable (ps ! j) \<Longrightarrow> sint (p_pri (ps ! b)) \<le> sint (p_pri (ps ! j))"
      "\<And>j. j < b \<Longrightarrow> runnable (ps ! j) \<Longrightarrow> sint (p_pri (ps ! b)) < sint (p_pri (ps ! j))"
      by auto
    show ?thesis
      using Some b(1,2,4) by (auto simp: pick_step_simps less_Suc_eq dest: b(3) intro: order_trans less_le_trans)
  qed
qed

lemma pick_cases:
  "case pick ps of
     None \<Rightarrow> \<forall>j<NPROC. \<not> runnable (ps ! j)
   | Some i \<Rightarrow> i < NPROC \<and> runnable (ps ! i)
       \<and> (\<forall>j<NPROC. runnable (ps ! j) \<longrightarrow> sint (p_pri (ps ! i)) \<le> sint (p_pri (ps ! j)))
       \<and> (\<forall>j<i. runnable (ps ! j) \<longrightarrow> sint (p_pri (ps ! i)) < sint (p_pri (ps ! j)))"
  using pick_upto [where ps = ps and n = NPROC] unfolding pick_def .

subsection \<open>The swapper\<close>

lemma swap_upto:
  "case fold (swap_step ps) [0..<n] (None, -1) of
     (None, m) \<Rightarrow> m = -1 \<and> (\<forall>j<n. \<not> swappable (ps ! j))
   | (Some i, m) \<Rightarrow> i < n \<and> swappable (ps ! i) \<and> m = sint (p_time (ps ! i))
       \<and> (\<forall>j<n. swappable (ps ! j) \<longrightarrow> sint (p_time (ps ! j)) \<le> m)"
proof (induction n)
  case 0
  then show ?case by simp
next
  case (Suc n)
  obtain b m where bm: "fold (swap_step ps) [0..<n] (None, -1) = (b, m)" by fastforce
  with Suc show ?case
  proof (cases b)
    case None
    with bm Suc show ?thesis by (auto simp: swap_step_simp less_Suc_eq)
  next
    case (Some i)
    with bm Suc have "0 \<le> m" by (simp add: swappable_def)
    with Some bm Suc show ?thesis
      by (auto simp: swap_step_simp less_Suc_eq intro: order_trans [OF _ less_imp_le])
  qed
qed

lemma swap_pick_cases:
  "swap_pick ps = None \<Longrightarrow> j < NPROC \<Longrightarrow> \<not> swappable (ps ! j)"
  "swap_pick ps = Some i \<Longrightarrow> i < NPROC \<and> swappable (ps ! i)
     \<and> (\<forall>j<NPROC. swappable (ps ! j) \<longrightarrow> sint (p_time (ps ! j)) \<le> sint (p_time (ps ! i)))"
  using swap_upto [where ps = ps and n = NPROC]
  by (auto simp: swap_pick_def split: prod.splits option.splits)

definition to_load :: "kernel \<Rightarrow> nat set" where
  "to_load k = {j. j < NPROC \<and> swappable (procp k j)}"

lemma sched_loop_ends:
  "length (procs (k_sch k)) = NPROC \<Longrightarrow> card (to_load k) < f \<Longrightarrow>
   \<exists>k'. sched_loop f k = Stop Slept (mark_asleep ChRunout SSLEEP PSWP k')
     \<and> length (procs (k_sch k')) = NPROC \<and> u_procp (k_u k') = u_procp (k_u k)
     \<and> (\<forall>j<NPROC. \<not> swappable (procp k' j))"
proof (induction f arbitrary: k)
  case 0
  then show ?case by simp
next
  case (Suc f)
  show ?case
  proof (cases "swap_pick (procs (k_sch k))")
    case None
    let ?k = "upd_sch (\<lambda>s. s\<lparr>runout := runout s + 1\<rparr>) k"
    have "\<forall>j<NPROC. \<not> swappable (procp ?k j)"
      using swap_pick_cases(1) [OF None] by (simp add: procp_def)
    with None Suc.prems show ?thesis
      by (intro exI [of _ ?k]) (simp add: sleep_def)
  next
    case (Some i)
    let ?k = "upd_proc i (\<lambda>p. p\<lparr>p_flag := p_flag p OR SLOAD, p_time := 0\<rparr>) k"
    have i: "i < NPROC" "swappable (procp k i)"
      using swap_pick_cases(2) [OF Some] by (simp_all add: procp_def)
    have "to_load ?k = to_load k - {i}"
      using i Suc.prems by (auto simp: to_load_def swappable_def flag_simps hasf_def split: if_splits)
    moreover have "i \<in> to_load k" "finite (to_load k)" using i by (auto simp: to_load_def)
    ultimately have "card (to_load ?k) < f"
      using Suc.prems(2) by (simp add: card_Diff_singleton) (metis card_gt_0_iff empty_iff less_Suc_eq_0_disj Suc_pred less_SucE not_less_eq)
    with Suc.IH [of ?k] Suc.prems(1) Some i show ?thesis by simp
  qed
qed

subsection \<open>Memory images\<close>

text \<open>Byte \<open>i\<close> of the 64-byte unit \<open>u\<close> of the physical memory, which has \<open>2 ^ 26\<close> units.\<close>

definition munit :: "(uint32_t \<Rightarrow> byte) \<Rightarrow> nat \<Rightarrow> nat \<Rightarrow> byte" where
  "munit m u i = m (of_nat (64 * u + i))"

lemma unit_test:
  assumes "u < 2 ^ 26" "d < 2 ^ 26" "i < 64"
  shows "(of_nat (64 * u + i) :: 32 word) - of_nat d * 64 < 64 \<longleftrightarrow> u = d"
proof -
  have a: "unat (of_nat (64 * u + i) :: 32 word) = 64 * u + i"
    using assms by (simp add: unat_of_nat del: of_nat_add of_nat_mult)
  have b: "unat (of_nat d * 64 :: 32 word) = 64 * d"
    using assms by (simp add: unat_word_ariths unat_of_nat)
  show ?thesis
  proof (cases "64 * d \<le> 64 * u + i")
    case True
    then have "unat ((of_nat (64 * u + i) :: 32 word) - of_nat d * 64) = 64 * u + i - 64 * d"
      by (metis a b unat_sub word_le_nat_alt)
    then have "(of_nat (64 * u + i) :: 32 word) - of_nat d * 64 < 64 \<longleftrightarrow> 64 * u + i - 64 * d < 64"
      by (simp add: word_less_nat_alt del: of_nat_add of_nat_mult)
    with True assms show ?thesis by auto
  next
    case False
    have "unat ((of_nat (64 * u + i) :: 32 word) - of_nat d * 64) = 64 * u + i + 2 ^ 32 - 64 * d"
      using False assms a b by (simp add: unat_sub_if_size word_size del: of_nat_add of_nat_mult)
    then have "(of_nat (64 * u + i) :: 32 word) - of_nat d * 64 < 64 \<longleftrightarrow> 64 * u + i + 2 ^ 32 - 64 * d < 64"
      by (simp add: word_less_nat_alt del: of_nat_add of_nat_mult)
    with False assms show ?thesis by auto
  qed
qed

lemma munit_copyseg:
  assumes "u < 2 ^ 26" "d < 2 ^ 26" "i < 64"
  shows "munit (copyseg (of_nat s) (of_nat d) m) u i = (if u = d then munit m s i else munit m u i)"
proof (cases "u = d")
  case True
  then have "of_nat s * 64 + ((of_nat (64 * u + i) :: 32 word) - of_nat d * 64) = of_nat (64 * s + i)"
    by (simp add: algebra_simps)
  with unit_test [OF assms] True show ?thesis
    by (simp add: munit_def copyseg_def del: of_nat_add of_nat_mult)
next
  case False
  with unit_test [OF assms] show ?thesis by (simp add: munit_def copyseg_def del: of_nat_add of_nat_mult)
qed

lemma munit_clearseg:
  "u < 2 ^ 26 \<Longrightarrow> d < 2 ^ 26 \<Longrightarrow> i < 64 \<Longrightarrow>
   munit (clearseg (of_nat d) m) u i = (if u = d then 0 else munit m u i)"
  using unit_test [of u d i] by (simp add: munit_def clearseg_def del: of_nat_add of_nat_mult)

lemma munit_copy_units:
  assumes "s + n \<le> 2 ^ 26" "d + n \<le> 2 ^ 26" "s + n \<le> d \<or> d + n \<le> s" "b < 64" "i \<le> n"
  shows "u < 2 ^ 26 \<Longrightarrow> munit (copy_units (of_nat s) (of_nat d) i n m) u b =
    (if d + i \<le> u \<and> u < d + n then munit m (s + (u - d)) b else munit m u b)"
  using assms(5,1-4)
proof (induction n arbitrary: u rule: dec_induct)
  case base
  then show ?case by (auto simp: copy_units_def)
next
  case (step n)
  have c: "copy_units (of_nat s) (of_nat d) i (Suc n) m
      = copyseg (of_nat (s + n)) (of_nat (d + n)) (copy_units (of_nat s) (of_nat d) i n m)"
    using step.hyps by (simp add: copy_units_def)
  have IH: "munit (copy_units (of_nat s) (of_nat d) i n m) v b =
    (if d + i \<le> v \<and> v < d + n then munit m (s + (v - d)) b else munit m v b)" if "v < 2 ^ 26" for v
  proof -
    have "s + n \<le> 2 ^ 26" "d + n \<le> 2 ^ 26" "s + n \<le> d \<or> d + n \<le> s" using step.prems by auto
    with step.IH [OF that] step.prems(5) show ?thesis by blast
  qed
  show ?case
    unfolding c using step.prems step.hyps by (subst munit_copyseg) (auto simp: IH)
qed

lemma munit_clear_units:
  assumes "d + n \<le> 2 ^ 26" "b < 64" "i \<le> n"
  shows "u < 2 ^ 26 \<Longrightarrow> munit (clear_units (of_nat d) i n m) u b =
    (if d + i \<le> u \<and> u < d + n then 0 else munit m u b)"
  using assms(3,1,2)
proof (induction n arbitrary: u rule: dec_induct)
  case base
  then show ?case by (auto simp: clear_units_def)
next
  case (step n)
  have c: "clear_units (of_nat d) i (Suc n) m = clearseg (of_nat (d + n)) (clear_units (of_nat d) i n m)"
    using step.hyps by (simp add: clear_units_def)
  have IH: "munit (clear_units (of_nat d) i n m) v b =
    (if d + i \<le> v \<and> v < d + n then 0 else munit m v b)" if "v < 2 ^ 26" for v
    using step.IH [OF that] step.prems by simp
  show ?case
    unfolding c using step.prems step.hyps by (subst munit_clearseg) (auto simp: IH)
qed

text \<open>The core map is well formed, and the image of process \<open>i\<close> lies in memory outside it.\<close>

definition region :: "uint32_t \<Rightarrow> uint32_t \<Rightarrow> nat set" where
  "region addr sz = {unat addr..<unat addr + unat sz}"

definition core_ok :: "kernel \<Rightarrow> bool" where
  "core_ok k \<longleftrightarrow> wf_map (coremap k) \<and> has_room (coremap k) \<and> munits (coremap k) \<subseteq> {..<2 ^ 26}"

definition image_ok :: "kernel \<Rightarrow> nat \<Rightarrow> bool" where
  "image_ok k i \<longleftrightarrow> i < length (procs (k_sch k)) \<and> p_addr (procp k i) \<noteq> 0 \<and> p_size (procp k i) \<noteq> 0
     \<and> unat (p_addr (procp k i)) + unat (p_size (procp k i)) \<le> 2 ^ 26
     \<and> region (p_addr (procp k i)) (p_size (procp k i)) \<inter> munits (coremap k) = {}"

lemma malloc_core_ok:
  assumes "core_ok k" "0 < sint sz"
  shows "\<exists>a k'. malloc_core sz k = Ret a k' \<and> k' = k\<lparr>coremap := coremap k'\<rparr> \<and> core_ok k'
    \<and> (if a = 0 then coremap k' = coremap k
       else unat a + unat sz \<le> 2 ^ 26 \<and> region a sz \<subseteq> munits (coremap k)
          \<and> munits (coremap k') = munits (coremap k) - region a sz)
    \<and> (a = 0 \<longleftrightarrow> (\<forall>e\<in>set (entries (coremap k)). unat (m_size e) < unat sz))"
proof -
  from assms(1) have w: "wfm 0 (coremap k)" by (simp add: core_ok_def wf_map_def)
  obtain a mp' where m: "malloc_map (coremap k) sz = Some (a, mp')" "wfm 0 mp'"
    "alloc_effect (coremap k) (unat sz) (unat a) mp'"
    using malloc_map_wfm [OF w assms(2)] by blast
  have room: "has_room mp'"
    using malloc_map_room [OF w m(1)] assms(1) by (simp add: core_ok_def has_room_def)
  have sz: "0 < unat sz" using assms(2) by (metis gr0I less_irrefl sint_0 unat_eq_zero)
  have "unat a + unat sz \<le> 2 ^ 26" if "a \<noteq> 0" "region a sz \<subseteq> munits (coremap k)"
  proof -
    have "unat a + unat sz - 1 \<in> region a sz" using sz by (auto simp: region_def)
    with that(2) assms(1) have "unat a + unat sz - 1 < 2 ^ 26"
      unfolding core_ok_def by blast
    with sz show ?thesis by simp
  qed
  moreover have "alloc_effect (coremap k) (unat sz) (unat a) mp' \<longleftrightarrow>
      (if a = 0 then mp' = coremap k \<and> (\<forall>e\<in>set (entries (coremap k)). unat (m_size e) < unat sz)
       else region a sz \<subseteq> munits (coremap k) \<and> munits mp' = munits (coremap k) - region a sz)"
    by (simp add: alloc_effect_def region_def unat_eq_zero)
  moreover have "a = 0" if "\<forall>e\<in>set (entries (coremap k)). unat (m_size e) < unat sz"
  proof -
    from that have "find_slot (\<lambda>e. unat sz \<le> unat (m_size e)) (entries (coremap k)) = None"
      by (auto simp: find_slot_None_iff)
    then show ?thesis using malloc_map_first_fit [OF w assms(2) m(1)] by simp
  qed
  ultimately show ?thesis
    using m room assms(1)
    by (intro exI [of _ a] exI [of _ "k\<lparr>coremap := mp'\<rparr>"])
      (auto simp: malloc_core_def core_ok_def wf_map_def split: if_splits)
qed

lemma mfree_core_ok:
  assumes "core_ok k" "addr \<noteq> 0" "sz \<noteq> 0" "unat addr + unat sz \<le> 2 ^ 26"
    "region addr sz \<inter> munits (coremap k) = {}"
  shows "\<exists>mp. mfree_core sz addr k = Ret () (k\<lparr>coremap := mp\<rparr>) \<and> wf_map mp
    \<and> munits mp = region addr sz \<union> munits (coremap k)"
proof -
  have "0 < unat addr" "0 < unat sz" using assms(2,3) by (simp_all add: unat_gt_0)
  with assms mfree_map_wfm [of sz addr "coremap k"] show ?thesis
    by (auto simp: core_ok_def release_ok_def region_def mfree_core_def)
qed

subsection \<open>Sharing the files\<close>

lemma share_upto:
  assumes "\<forall>i<n. \<forall>f. u_ofile (k_u k) ! i = Some f \<longrightarrow> f < length (k_file k)"
  shows "fold share_one [0..<n] k = k\<lparr>k_file := map (\<lambda>f. (k_file k ! f)\<lparr>f_count := f_count (k_file k ! f)
      + of_nat (card {i. i < n \<and> u_ofile (k_u k) ! i = Some f})\<rparr>) [0..<length (k_file k)]\<rparr>"
  using assms(1)
proof (induction n)
  case 0
  then show ?case by (simp add: map_nth)
next
  case (Suc n)
  have "\<forall>i<n. \<forall>f. u_ofile (k_u k) ! i = Some f \<longrightarrow> f < length (k_file k)"
    using Suc.prems by (simp add: less_Suc_eq)
  note IH = Suc.IH [OF this]
  show ?case
  proof (cases "u_ofile (k_u k) ! n")
    case None
    then have "{i. i < Suc n \<and> u_ofile (k_u k) ! i = Some f} = {i. i < n \<and> u_ofile (k_u k) ! i = Some f}" for f
      by (auto simp: less_Suc_eq)
    with None IH show ?thesis by (simp add: share_one_def [of n])
  next
    case (Some h)
    have c: "card {i. i < Suc n \<and> u_ofile (k_u k) ! i = Some f}
        = card {i. i < n \<and> u_ofile (k_u k) ! i = Some f} + (if f = h then 1 else 0)" for f
    proof -
      have e: "{i. i < Suc n \<and> u_ofile (k_u k) ! i = Some f}
        = {i. i < n \<and> u_ofile (k_u k) ! i = Some f} \<union> (if f = h then {n} else {})"
        using Some by (auto simp: less_Suc_eq)
      then show ?thesis unfolding e by (subst card_Un_disjoint) auto
    qed
    have h: "h < length (k_file k)" using Suc.prems Some by blast
    have "fold share_one [0..<Suc n] k = share_one n (fold share_one [0..<n] k)" by simp
    also have "\<dots> = k\<lparr>k_file := map (\<lambda>f. (k_file k ! f)\<lparr>f_count := f_count (k_file k ! f)
      + of_nat (card {i. i < Suc n \<and> u_ofile (k_u k) ! i = Some f})\<rparr>) [0..<length (k_file k)]\<rparr>"
      using IH h Some
      by (auto simp: share_one_def [of n] upd_file_def c intro!: kernel.equality nth_equalityI simp: nth_list_update)
    finally show ?thesis .
  qed
qed

definition files_ok :: "kernel \<Rightarrow> bool" where
  "files_ok k \<longleftrightarrow> (\<forall>i<NOFILE. \<forall>f. u_ofile (k_u k) ! i = Some f \<longrightarrow> f < length (k_file k))
     \<and> (\<forall>d. u_cdir (k_u k) = Some d \<longrightarrow> d < length (inodes (k_fs k)))"

lemma share_files_eq:
  "files_ok k \<Longrightarrow> share_files k = k\<lparr>k_file := map (\<lambda>f. (k_file k ! f)\<lparr>f_count := f_count (k_file k ! f)
      + of_nat (card {i. i < NOFILE \<and> u_ofile (k_u k) ! i = Some f})\<rparr>) [0..<length (k_file k)]\<rparr>"
  using share_upto [of NOFILE k] by (simp add: files_ok_def share_files_def)

lemma share_cdir_sel [simp]:
  "k_u (share_cdir k) = k_u k" "k_uarea (share_cdir k) = k_uarea k" "k_sch (share_cdir k) = k_sch k"
  "k_file (share_cdir k) = k_file k" "phys (share_cdir k) = phys k" "coremap (share_cdir k) = coremap k"
  by (simp_all add: share_cdir_def split: option.splits)

lemma procp_share_cdir [simp]: "procp (share_cdir k) = procp k"
  by (rule procp_cong) simp

subsection \<open>A small machine\<close>

text \<open>One process with an image of 70 units at unit 100, and 1000 free units at 2000.\<close>

definition boot_kernel :: kernel where
  "boot_kernel = upd_proc 0 (\<lambda>p. p\<lparr>p_stat := SRUN, p_flag := SLOAD, p_pid := 1, p_addr := 100, p_size := 70\<rparr>)
     (zero_kernel\<lparr>coremap := [\<lparr>m_size = 1000, m_addr = 2000\<rparr>, \<lparr>m_size = 0, m_addr = 0\<rparr>, \<lparr>m_size = 0, m_addr = 0\<rparr>]\<rparr>)"

lemma boot_coremap:
  "coremap boot_kernel = [\<lparr>m_size = 1000, m_addr = 2000\<rparr>, \<lparr>m_size = 0, m_addr = 0\<rparr>, \<lparr>m_size = 0, m_addr = 0\<rparr>]"
  by (simp add: boot_kernel_def)

lemma boot_u: "k_u boot_kernel = zero_user" "u_procp zero_user = 0"
  by (simp_all add: boot_kernel_def zero_kernel_def zero_user_def)

lemma boot_procs: "procs (k_sch boot_kernel) = (replicate NPROC empty_proc)
    [0 := empty_proc\<lparr>p_stat := SRUN, p_flag := SLOAD, p_pid := 1, p_addr := 100, p_size := 70\<rparr>]"
  by (simp add: boot_kernel_def zero_kernel_def upd_proc_def upd_sch_def)

lemma boot_procp:
  "i < NPROC \<Longrightarrow> procp boot_kernel i = (if i = 0
     then empty_proc\<lparr>p_stat := SRUN, p_flag := SLOAD, p_pid := 1, p_addr := 100, p_size := 70\<rparr> else empty_proc)"
  by (simp add: procp_def boot_procs nth_list_update)

lemma boot_core_ok: "core_ok boot_kernel"
  by (auto simp: core_ok_def boot_coremap wf_map_def has_room_def entries_def lo_def hi_def)

lemma boot_image_ok: "image_ok boot_kernel 0"
  by (simp add: image_ok_def boot_procs boot_procp region_def boot_coremap lo_def hi_def empty_proc_def)

lemma boot_files_ok: "files_ok boot_kernel"
  by (auto simp: files_ok_def boot_u zero_user_def nth_Cons' split: if_splits)

subsection \<open>Properties\<close>

lemma pick_best:
  "case pick ps of
     None \<Rightarrow> \<forall>j<NPROC. \<not> runnable (ps ! j)
   | Some i \<Rightarrow> i < NPROC \<and> runnable (ps ! i)
       \<and> (\<forall>j<NPROC. \<not> runnable (ps ! j) \<or> sint (p_pri (ps ! i)) \<le> sint (p_pri (ps ! j)))
       \<and> (\<forall>j<i. \<not> runnable (ps ! j) \<or> sint (p_pri (ps ! i)) < sint (p_pri (ps ! j)))"
  using pick_cases [of ps] by (auto split: option.splits)

text \<open>C11: The swapper's loop ends: after at most NPROC + 1 rounds it sleeps on
  \<^verbatim>\<open>runout\<close>, and then no runnable process (with a residence time of at least 0) is
  left out of core.\<close>

theorem sched_run_loads_all:
  assumes "length (procs (k_sch k)) = NPROC"
  shows "\<exists>k'. sched_run k = Stop Slept (mark_asleep ChRunout SSLEEP PSWP k')
    \<and> u_procp (k_u k') = u_procp (k_u k)
    \<and> (\<forall>j<NPROC. p_stat (procp k' j) \<noteq> SRUN \<or> hasf (p_flag (procp k' j)) SLOAD
         \<or> sint (p_time (procp k' j)) < 0)"
proof -
  have "card (to_load k) \<le> card {..<NPROC}"
    by (rule card_mono) (auto simp: to_load_def)
  with sched_loop_ends [OF assms, of "NPROC + 1"] show ?thesis
    unfolding sched_run_def swappable_def by fastforce
qed

theorem sched_run_loads_all_witness: "\<exists>k'. sched_run zero_kernel = Stop Slept k'"
  using sched_run_loads_all [of zero_kernel] by (auto simp: zero_kernel_def)

lemma swtch_saves_and_restores:
  assumes "pick (procs (k_sch k)) = Some p" "curproc (k_sch k) = Some l" "p \<noteq> l"
    and "p_addr (procp k p) \<noteq> 0" "p_addr (procp k l) \<noteq> 0"
  shows "\<exists>k'. swtch k = Stop Switched k' \<and> k_u k' = k_uarea k p
    \<and> k_uarea k' l = k_u k \<and> curproc (k_sch k') = Some p
    \<and> curpri (k_sch k') = p_pri (procp k p)
    \<and> descr_base (gdt4 k') = (p_addr (procp k p) + USIZE) * 64
    \<and> (\<forall>k2. k_uarea k2 l \<noteq> k_uarea k' l \<or> pick (procs (k_sch k2)) \<noteq> Some l
         \<or> curproc (k_sch k2) = Some l \<or> curproc (k_sch k2) = None \<or> p_addr (procp k2 l) = 0
         \<or> (\<exists>k3. swtch k2 = Stop Switched k3 \<and> k_u k3 = k_u k))"
  using assms
  by (auto simp: swtch_def Let_def load_u_def save_u_def procp_def update_pos_def descr_base_seg
      split: option.splits)

text \<open>A slot is free, and the core map has or has not an entry of the image's size.\<close>

lemma newproc_slot:
  assumes "core_ok k" and im: "image_ok k (u_procp (k_u k))" and "files_ok k"
    and slot: "find_slot (\<lambda>p. p_stat p = SNULL) (procs (k_sch k)) = Some c"
    and live: "p_stat (procp k (u_procp (k_u k))) \<noteq> SNULL"
    and big: "USIZE \<le> p_size (procp k (u_procp (k_u k)))"
  shows "\<exists>r k'. newproc k = Ret r k' \<and>
    (if \<forall>e\<in>set (entries (coremap k)). unat (m_size e) < unat (p_size (procp k (u_procp (k_u k))))
     then r = -1 \<and> u_error (k_u k') = ENOMEM \<and> p_stat (procp k' c) = SNULL
       \<and> coremap k' = coremap k \<and> k_file k' = k_file k
     else (let p = procp k (u_procp (k_u k)); q = procp k' c in
         r = 0 \<and> p_stat q = SRUN \<and> p_flag q = SLOAD \<and> p_ppid q = p_pid p
         \<and> p_pid q = ucast (mpid (k_sch k) + 1) \<and> p_size q = p_size p
         \<and> region (p_addr q) (p_size q) \<subseteq> munits (coremap k)
         \<and> munits (coremap k') = munits (coremap k) - region (p_addr q) (p_size q)
         \<and> k_uarea k' c = (k_u k)\<lparr>u_procp := c\<rparr>
         \<and> (\<forall>d<unat (p_size p). d < unat USIZE \<or> (\<forall>b<64.
              munit (phys k') (unat (p_addr q) + d) b = munit (phys k) (unat (p_addr p) + d) b))
         \<and> (\<forall>f<length (k_file k). f_count (k_file k' ! f) = f_count (k_file k ! f)
              + of_nat (card {n. n < NOFILE \<and> u_ofile (k_u k) ! n = Some f}))
         \<and> (\<forall>j. j \<noteq> c \<longrightarrow> procp k' j = procp k j)))"
proof -
  define i where "i = u_procp (k_u k)"
  define p where "p = procp k i"
  let ?pid = "ucast (mpid (k_sch k) + 1) :: pid_t"
  let ?k1 = "upd_sch (\<lambda>s. s\<lparr>mpid := mpid s + 1\<rparr>) k"
  let ?k2 = "upd_proc c (new_entry p ?pid) ?k1"
  have c: "c < length (procs (k_sch k))" "p_stat (procp k c) = SNULL"
    using find_slot_SomeD [OF slot] by (simp_all add: procp_def)
  then have ne: "c \<noteq> i" using live by (auto simp: i_def)
  have im': "i < length (procs (k_sch k))" "p_size p \<noteq> 0" "unat (p_addr p) + unat (p_size p) \<le> 2 ^ 26"
    "region (p_addr p) (p_size p) \<inter> munits (coremap k) = {}"
    using im by (simp_all add: image_ok_def p_def i_def)
  have pi: "procp ?k1 i = p" "procp ?k2 i = p" "procp ?k2 c = new_entry p ?pid (procp k c)"
    using ne c by (simp_all add: procp_def p_def upd_proc_def)
  have core: "core_ok ?k2" using assms(1) by (simp add: core_ok_def)
  have small: "unat (p_size p) < 2 ^ 31" using im'(3) by simp
  then have ps: "0 < sint (p_size p)" "nat (sint (p_size p)) = unat (p_size p)"
    using im'(2) by (simp_all add: sint_small32 unat_gt_0 del: of_nat_unat)
  obtain a k3 where m: "malloc_core (p_size p) ?k2 = Ret a k3" "k3 = ?k2\<lparr>coremap := coremap k3\<rparr>"
    and eff: "if a = 0 then coremap k3 = coremap ?k2
       else unat a + unat (p_size p) \<le> 2 ^ 26 \<and> region a (p_size p) \<subseteq> munits (coremap ?k2)
          \<and> munits (coremap k3) = munits (coremap ?k2) - region a (p_size p)"
    and fit2: "a = 0 \<longleftrightarrow> (\<forall>e\<in>set (entries (coremap ?k2)). unat (m_size e) < unat (p_size p))"
    using malloc_core_ok [OF core ps(1)] by blast
  have fit: "a = 0 \<longleftrightarrow> (\<forall>e\<in>set (entries (coremap k)). unat (m_size e) < unat (p_size p))"
    using fit2 by simp
  have eq: "procp k3 = procp ?k2" "phys k3 = phys k" "k_u k3 = k_u k" "k_file k3 = k_file k"
    "length (procs (k_sch k3)) = length (procs (k_sch k))" "k_fs k3 = k_fs k"
    by (subst m(2), simp add: procp_def fun_eq_iff)+
  show ?thesis
  proof (cases "a = 0")
    case True
    let ?k' = "upd_proc c (\<lambda>p. p\<lparr>p_stat := SNULL\<rparr>) (set_error ENOMEM k3)"
    have "newproc k = Ret (-1) ?k'"
      using True m(1) slot pi by (simp add: newproc_def Let_def i_def [symmetric])
    moreover have "p_stat (procp ?k' c) = SNULL" using c eq by (simp add: procp_def upd_proc_def)
    ultimately show ?thesis using True eff fit eq
      by (intro exI [of _ "-1"] exI [of _ ?k']) (simp add: p_def i_def)
  next
    case False
    with eff have a: "unat a + unat (p_size p) \<le> 2 ^ 26" "region a (p_size p) \<subseteq> munits (coremap k)"
      "munits (coremap k3) = munits (coremap k) - region a (p_size p)" by simp_all
    let ?k4 = "upd_proc c (\<lambda>q. q\<lparr>p_addr := a, p_size := p_size p\<rparr>) k3"
    let ?k5 = "?k4\<lparr>k_uarea := (k_uarea k3)(c := (k_u k)\<lparr>u_procp := c\<rparr>),
      phys := copy_units (p_addr p) a 64 (unat (p_size p)) (phys k)\<rparr>"
    let ?k' = "share_cdir (share_files ?k5)"
    have p4: "procp ?k4 i = p" "procp ?k4 c = (new_entry p ?pid (procp k c))\<lparr>p_addr := a, p_size := p_size p\<rparr>"
      using c ne eq pi by (simp_all add: procp_upd_proc)
    have "newproc k = Ret 0 (share_cdir (share_files ?k5))"
      using False m(1) slot pi p4 ps eq by (simp add: newproc_def Let_def i_def [symmetric])
    moreover have sf: "share_files ?k5 = ?k5\<lparr>k_file := map (\<lambda>f. (k_file k ! f)\<lparr>f_count := f_count (k_file k ! f)
      + of_nat (card {i. i < NOFILE \<and> u_ofile (k_u k) ! i = Some f})\<rparr>) [0..<length (k_file k)]\<rparr>"
      using share_files_eq [of ?k5] assms(3) eq by (simp add: files_ok_def)
    moreover have q: "procp ?k' c = (new_entry p ?pid (procp k c))\<lparr>p_addr := a, p_size := p_size p\<rparr>"
      using p4(2) by (simp add: sf)
    moreover have "munit (phys ?k') (unat a + d) b = munit (phys k) (unat (p_addr p) + d) b"
      if "d < unat (p_size p)" "\<not> d < unat USIZE" "b < 64" for d b
    proof -
      have "unat (p_addr p) + unat (p_size p) \<le> unat a \<or> unat a + unat (p_size p) \<le> unat (p_addr p)"
      proof (rule ccontr)
        assume "\<not> ?thesis"
        then have "max (unat a) (unat (p_addr p)) \<in> region (p_addr p) (p_size p) \<inter> region a (p_size p)"
          by (auto simp: region_def max_def)
        with im'(4) a(2) show False by auto
      qed
      moreover have "unat USIZE \<le> unat (p_size p)" using big by (simp add: word_le_nat_alt p_def i_def)
      ultimately show ?thesis
        using that a(1) im'(3)
          munit_copy_units [of "unat (p_addr p)" "unat (p_size p)" "unat a" b "unat USIZE" "unat a + d" "phys k"]
        by (simp add: sf)
    qed
    moreover have "procp ?k' j = procp k j" if "j \<noteq> c" for j
    proof -
      have "procp ?k4 j = procp k3 j" using that by (simp add: procp_def upd_proc_def upd_sch_def)
      also have "\<dots> = procp k j" unfolding eq(1) using that by (simp add: procp_def upd_proc_def upd_sch_def)
      finally show ?thesis by (simp add: sf)
    qed
    moreover have nofit: "\<not> (\<forall>e\<in>set (entries (coremap k)). unat (m_size e) < unat (p_size p))"
      using False fit by simp
    ultimately show ?thesis
      using a by (intro exI [of _ 0] exI [of _ ?k'])
        (auto simp: Let_def i_def [symmetric] p_def [symmetric] new_entry_def if_not_P [OF nofit])
  qed
qed

text \<open>C12: With no free slot \<^verbatim>\<open>newproc\<close> fails with \<^verbatim>\<open>EAGAIN\<close> and changes nothing else. With
  one, it fails with \<^verbatim>\<open>ENOMEM\<close> exactly when no entry of the core map is as large as the
  parent's image, and then the slot is free again and the map as it was. Otherwise it creates a
  runnable, loaded child with a new pid in a region that was free: the child has the parent's u-area
  (linked to its own slot), a copy of the parent's image after the u-area, every open file counts
  one more reference for each descriptor on it, and no other process changes.\<close>

theorem newproc_child:
  assumes "core_ok k" "image_ok k (u_procp (k_u k))" "files_ok k"
    and "p_stat (procp k (u_procp (k_u k))) \<noteq> SNULL" "USIZE \<le> p_size (procp k (u_procp (k_u k)))"
  shows "case find_slot (\<lambda>p. p_stat p = SNULL) (procs (k_sch k)) of
      None \<Rightarrow> newproc k = Ret (-1) (set_error EAGAIN k)
    | Some c \<Rightarrow> \<exists>r k'. newproc k = Ret r k' \<and>
      (if \<forall>e\<in>set (entries (coremap k)). unat (m_size e) < unat (p_size (procp k (u_procp (k_u k))))
       then r = -1 \<and> u_error (k_u k') = ENOMEM \<and> p_stat (procp k' c) = SNULL
         \<and> coremap k' = coremap k \<and> k_file k' = k_file k
       else (let p = procp k (u_procp (k_u k)); q = procp k' c in
           r = 0 \<and> p_stat q = SRUN \<and> p_flag q = SLOAD \<and> p_ppid q = p_pid p
           \<and> p_pid q = ucast (mpid (k_sch k) + 1) \<and> p_size q = p_size p
           \<and> region (p_addr q) (p_size q) \<subseteq> munits (coremap k)
           \<and> munits (coremap k') = munits (coremap k) - region (p_addr q) (p_size q)
           \<and> k_uarea k' c = (k_u k)\<lparr>u_procp := c\<rparr>
           \<and> (\<forall>d<unat (p_size p). d < unat USIZE \<or> (\<forall>b<64.
                munit (phys k') (unat (p_addr q) + d) b = munit (phys k) (unat (p_addr p) + d) b))
           \<and> (\<forall>f<length (k_file k). f_count (k_file k' ! f) = f_count (k_file k ! f)
                + of_nat (card {n. n < NOFILE \<and> u_ofile (k_u k) ! n = Some f}))
           \<and> (\<forall>j. j \<noteq> c \<longrightarrow> procp k' j = procp k j)))"
proof (cases "find_slot (\<lambda>p. p_stat p = SNULL) (procs (k_sch k))")
  case None
  then show ?thesis by (simp add: newproc_def)
next
  case (Some c)
  show ?thesis unfolding Some option.case by (rule newproc_slot [OF assms(1-3) Some assms(4,5)])
qed

theorem newproc_child_witness:
  "\<exists>k'. newproc boot_kernel = Ret 0 k' \<and> p_stat (procp k' 1) = SRUN \<and> p_ppid (procp k' 1) = p_pid (procp boot_kernel 0)"
proof -
  let ?p = "procp boot_kernel (u_procp (k_u boot_kernel))"
  have slot: "find_slot (\<lambda>p. p_stat p = SNULL) (procs (k_sch boot_kernel)) = Some 1"
    by (rule find_slot_SomeI) (simp_all add: boot_procs empty_proc_def)
  have ok: "image_ok boot_kernel (u_procp (k_u boot_kernel))" "p_stat ?p \<noteq> SNULL" "USIZE \<le> p_size ?p"
    using boot_image_ok by (simp_all add: boot_u boot_procp)
  have room: "\<not> (\<forall>e\<in>set (entries (coremap boot_kernel)). unat (m_size e) < unat (p_size ?p))"
    by (simp add: boot_coremap boot_u boot_procp entries_def)
  show ?thesis
    using newproc_child [OF boot_core_ok ok(1) boot_files_ok ok(2,3)]
    unfolding slot option.case if_not_P [OF room] Let_def by (auto simp: boot_u)
qed

lemma expand_grow:
  assumes core: "core_ok k" and im: "image_ok k (u_procp (k_u k))"
    and sz: "0 < sint newsize" "p_size (procp k (u_procp (k_u k))) < newsize"
  shows "\<exists>k'. expand newsize k = Ret () k' \<and>
    (k' = set_error ENOMEM k \<or>
     (let i = u_procp (k_u k); p = procp k i; p' = procp k' i in
        p_size p' = newsize \<and> wf_map (coremap k') \<and> region (p_addr p') newsize \<subseteq> munits (coremap k)
        \<and> munits (coremap k') = munits (coremap k) \<union> region (p_addr p) (p_size p) - region (p_addr p') newsize
        \<and> (\<forall>u<unat newsize. \<forall>b<64. munit (phys k') (unat (p_addr p') + u) b =
            (if u < unat (p_size p) then munit (phys k) (unat (p_addr p) + u) b else 0))))"
proof -
  define i where "i = u_procp (k_u k)"
  define p where "p = procp k i"
  note im = im [folded i_def] and sz = sz [folded i_def]
  obtain a k1 where m: "malloc_core newsize k = Ret a k1" "k1 = k\<lparr>coremap := coremap k1\<rparr>" "core_ok k1"
    and eff: "if a = 0 then coremap k1 = coremap k
       else unat a + unat newsize \<le> 2 ^ 26 \<and> region a newsize \<subseteq> munits (coremap k)
          \<and> munits (coremap k1) = munits (coremap k) - region a newsize"
    using malloc_core_ok [OF core sz(1)] by blast
  have eq: "procp k1 = procp k" "phys k1 = phys k" "k_u k1 = k_u k" "k_sch k1 = k_sch k"
    by (subst m(2), simp add: procp_def fun_eq_iff)+
  have n: "nat (sint newsize) = unat newsize"
    using sz(1) sint_pos32 [of newsize] by (simp add: sint_small32)
  have pn: "nat (sint (p_size p)) = unat (p_size p)"
  proof -
    have "unat (p_size p) < 2 ^ 31" using im by (simp add: image_ok_def p_def)
    then show ?thesis by (simp add: sint_small32)
  qed
  show ?thesis
  proof (cases "a = 0")
    case True
    with eff have "k1 = k" using m(2) by simp
    with True m(1) sz show ?thesis by (simp add: expand_def Let_def not_le i_def)
  next
    case False
    with eff have a: "unat a + unat newsize \<le> 2 ^ 26" "region a newsize \<subseteq> munits (coremap k)"
      "munits (coremap k1) = munits (coremap k) - region a newsize" by auto
    let ?ph = "clear_units a (unat (p_size p)) (unat newsize) (copy_units (p_addr p) a 0 (unat (p_size p)) (phys k))"
    let ?k2 = "k1\<lparr>phys := ?ph\<rparr>"
    have im': "p_addr p \<noteq> 0" "p_size p \<noteq> 0" "unat (p_addr p) + unat (p_size p) \<le> 2 ^ 26"
      "region (p_addr p) (p_size p) \<inter> munits (coremap k) = {}" "i < length (procs (k_sch k))"
      using im by (simp_all add: image_ok_def p_def)
    obtain mp where f: "mfree_core (p_size p) (p_addr p) ?k2 = Ret () (?k2\<lparr>coremap := mp\<rparr>)" "wf_map mp"
      "munits mp = region (p_addr p) (p_size p) \<union> munits (coremap k1)"
      using mfree_core_ok [of ?k2 "p_addr p" "p_size p"] m(3) im' a(3)
      by (auto simp: core_ok_def)
    let ?k3 = "update_pos i (upd_proc i (\<lambda>p. p\<lparr>p_addr := a, p_size := newsize\<rparr>) (?k2\<lparr>coremap := mp\<rparr>))"
    have run: "expand newsize k = Ret () ?k3"
      using m(1) sz False f n pn eq by (simp add: expand_def Let_def not_le i_def [symmetric] p_def)
    have p': "procp ?k3 i = (procp k i)\<lparr>p_addr := a, p_size := newsize\<rparr>"
      using im'(5) eq by (simp add: procp_def upd_proc_def)
    have lt: "unat (p_size p) < unat newsize" using sz(2) by (simp add: word_less_nat_alt p_def)
    have sep: "unat (p_addr p) + unat (p_size p) \<le> unat a \<or> unat a + unat (p_size p) \<le> unat (p_addr p)"
    proof (rule ccontr)
      assume "\<not> ?thesis"
      then have "max (unat a) (unat (p_addr p)) \<in> region (p_addr p) (p_size p) \<inter> region a newsize"
        using lt by (auto simp: region_def max_def)
      with im'(4) a(2) show False by auto
    qed
    have mem: "munit ?ph (unat a + u) b =
        (if u < unat (p_size p) then munit (phys k) (unat (p_addr p) + u) b else 0)"
      if u: "u < unat newsize" "b < 64" for u b
      using u a(1) im'(3) lt sep
        munit_clear_units [of "unat a" "unat newsize" b "unat (p_size p)" "unat a + u"
          "copy_units (p_addr p) a 0 (unat (p_size p)) (phys k)"]
        munit_copy_units [of "unat (p_addr p)" "unat (p_size p)" "unat a" b 0 "unat a + u" "phys k"]
      by simp
    have "munits mp = munits (coremap k) \<union> region (p_addr p) (p_size p) - region a newsize"
      using f(3) a(2,3) im'(4) by auto
    with run p' mem f(2) a(2) show ?thesis
      by (intro exI [of _ ?k3]) (simp add: Let_def i_def [symmetric] p_def)
  qed
qed

lemma expand_moves:
  assumes core: "core_ok k" and im: "image_ok k (u_procp (k_u k))"
    and sz: "0 < sint newsize" "p_size (procp k (u_procp (k_u k))) < newsize"
  shows "\<exists>k'. expand newsize k = Ret () k' \<and>
    (k' = set_error ENOMEM k \<or>
     (let i = u_procp (k_u k); p = procp k i; p' = procp k' i in
        p_size p' = newsize \<and> wf_map (coremap k') \<and> region (p_addr p') newsize \<subseteq> munits (coremap k)
        \<and> munits (coremap k') = munits (coremap k) \<union> region (p_addr p) (p_size p) - region (p_addr p') newsize
        \<and> (\<forall>u<unat newsize. \<forall>b<64. munit (phys k') (unat (p_addr p') + u) b =
            (if u < unat (p_size p) then munit (phys k) (unat (p_addr p) + u) b else 0))))"
  using assms by (rule expand_grow)

lemma expand_shrink:
  assumes "newsize \<le> p_size (procp k (u_procp (k_u k)))"
  shows "expand newsize k = Ret () (upd_proc (u_procp (k_u k)) (\<lambda>p. p\<lparr>p_size := newsize\<rparr>) k)"
  using assms by (simp add: expand_def Let_def)

text \<open>C27: \<^verbatim>\<open>exec\<close> shrinks the image to the u-area and then grows it to the new size.  The units
  between are lost: when the second \<^verbatim>\<open>expand\<close> succeeds, they are in the new image only if they
  were free before, which they were not, and they are not in the free map either.  When it fails
  with \<^verbatim>\<open>ENOMEM\<close> nothing is claimed of them.\<close>

theorem exec_loses_core:
  assumes core: "core_ok k" and im: "image_ok k (u_procp (k_u k))"
    and sz: "USIZE < p_size (procp k (u_procp (k_u k)))" "0 < sint newsize" "USIZE < newsize"
  shows "\<exists>k1 k2. expand USIZE k = Ret () k1 \<and> expand newsize k1 = Ret () k2 \<and>
    (k2 = set_error ENOMEM k1 \<or>
     (let i = u_procp (k_u k); p = procp k i;
          lost = {unat (p_addr p) + unat (USIZE :: uint32_t)..<unat (p_addr p) + unat (p_size p)}
      in lost \<noteq> {} \<and> lost \<inter> munits (coremap k2) = {} \<and> lost \<inter> region (p_addr (procp k2 i)) newsize = {}))"
proof -
  let ?i = "u_procp (k_u k)" and ?p = "procp k (u_procp (k_u k))"
  let ?k1 = "upd_proc ?i (\<lambda>p. p\<lparr>p_size := USIZE\<rparr>) k"
  have sh: "expand USIZE k = Ret () ?k1" using sz(1) by (intro expand_shrink) simp
  have len: "?i < length (procs (k_sch k))" using im by (simp add: image_ok_def)
  have p1: "procp ?k1 ?i = ?p\<lparr>p_size := USIZE\<rparr>" using len by simp
  have lt: "unat (USIZE :: uint32_t) < unat (p_size ?p)" using sz(1) by (simp add: word_less_nat_alt)
  have sub: "region (p_addr ?p) USIZE \<subseteq> region (p_addr ?p) (p_size ?p)" using lt by (auto simp: region_def)
  have "core_ok ?k1" using core by (simp add: core_ok_def)
  moreover have "image_ok ?k1 (u_procp (k_u ?k1))"
    using im sub lt p1 by (auto simp: image_ok_def)
  moreover have "p_size (procp ?k1 (u_procp (k_u ?k1))) < newsize" using sz(3) p1 by simp
  ultimately obtain k2 where k2: "expand newsize ?k1 = Ret () k2"
    and eff: "k2 = set_error ENOMEM ?k1 \<or>
      (region (p_addr (procp k2 ?i)) newsize \<subseteq> munits (coremap k)
       \<and> munits (coremap k2) = munits (coremap k) \<union> region (p_addr ?p) USIZE - region (p_addr (procp k2 ?i)) newsize)"
    using expand_grow [of ?k1 newsize] sz(2) p1 unfolding Let_def by fastforce
  have dis: "region (p_addr ?p) (p_size ?p) \<inter> munits (coremap k) = {}" using im by (simp add: image_ok_def)
  let ?lost = "{unat (p_addr ?p) + unat (USIZE :: uint32_t)..<unat (p_addr ?p) + unat (p_size ?p)}"
  have l: "?lost \<subseteq> region (p_addr ?p) (p_size ?p)" "?lost \<inter> region (p_addr ?p) USIZE = {}" "?lost \<noteq> {}"
    using lt by (auto simp: region_def)
  have "k2 = set_error ENOMEM ?k1 \<or>
      (?lost \<inter> munits (coremap k2) = {} \<and> ?lost \<inter> region (p_addr (procp k2 ?i)) newsize = {})"
    using eff l(1,2) dis by blast
  with sh k2 l(3) show ?thesis unfolding Let_def by blast
qed

theorem exec_loses_core_witness:
  "USIZE < p_size (procp boot_kernel (u_procp (k_u boot_kernel))) \<and>
   (\<exists>k1 k2. expand USIZE boot_kernel = Ret () k1 \<and> expand 80 k1 = Ret () k2)"
proof -
  have h: "image_ok boot_kernel (u_procp (k_u boot_kernel))"
    "USIZE < p_size (procp boot_kernel (u_procp (k_u boot_kernel)))"
    "0 < sint (80 :: int32_t)" "(USIZE :: uint32_t) < 80"
    using boot_image_ok by (simp_all add: boot_u boot_procp)
  from exec_loses_core [OF boot_core_ok h] h(2) show ?thesis by blast
qed

end
