(* ===== verification/Bio.thy ===== *)
theory Bio
  imports Slp
begin

text \<open>
  \<^verbatim>\<open>kernel/fs/bio.c\<close>, the buffer cache, and the RAM disk's \<^verbatim>\<open>rd_strategy\<close>.  The free
  list and the device chains are the doubly linked rings of the source, walked through the
  links of the buffers; the walks carry fuel \<open>NBUF + 1\<close>, one step more than a ring has
  buffers.  The RAM disk completes every transfer before it returns, so a driver call is the
  transfer followed by \<^verbatim>\<open>iodone\<close>.
\<close>

subsection \<open>Releasing a buffer\<close>

definition set_flags :: "int32_t \<Rightarrow> buf \<Rightarrow> buf" where
  "set_flags m b = b\<lparr>b_flags := b_flags b OR m\<rparr>"

definition clear_flags :: "int32_t \<Rightarrow> buf \<Rightarrow> buf" where
  "clear_flags m b = b\<lparr>b_flags := b_flags b AND NOT m\<rparr>"

abbreviation (input) flagged :: "kernel \<Rightarrow> bptr \<Rightarrow> int32_t \<Rightarrow> bool" where
  "flagged k bp m \<equiv> hasf (b_flags (bufp k bp)) m"

definition av_append :: "bptr \<Rightarrow> kernel \<Rightarrow> kernel" where
  "av_append bp k =
     (let k1 = upd_buf bp (\<lambda>b. b\<lparr>av_back := av_back (bufp k FreeHd)\<rparr>) k;
          k2 = upd_buf bp (\<lambda>b. b\<lparr>av_forw := FreeHd\<rparr>) k1;
          k3 = upd_buf (av_back (bufp k2 FreeHd)) (\<lambda>b. b\<lparr>av_forw := bp\<rparr>) k2
      in upd_buf FreeHd (\<lambda>b. b\<lparr>av_back := bp\<rparr>) k3)"

definition brelse :: "bptr \<Rightarrow> kernel \<Rightarrow> kernel" where
  "brelse bp k =
     (let k1 = (if flagged k bp B_WANTED then wakeup (ChBuf bp) k else k);
          k2 = (if flagged k1 FreeHd B_WANTED
                then wakeup (ChBuf FreeHd) (upd_buf FreeHd (clear_flags B_WANTED) k1) else k1);
          k3 = (if flagged k2 bp B_ERROR then upd_buf bp (\<lambda>b. b\<lparr>b_dev := NODEV\<rparr>) k2 else k2);
          k4 = upd_buf bp (clear_flags (B_WANTED OR B_BUSY OR B_ASYNC)) k3
      in av_append bp k4)"

definition av_unlink :: "bptr \<Rightarrow> kernel \<Rightarrow> kernel" where
  "av_unlink bp k =
     (let k1 = upd_buf (av_back (bufp k bp)) (\<lambda>b. b\<lparr>av_forw := av_forw (bufp k bp)\<rparr>) k
      in upd_buf (av_forw (bufp k1 bp)) (\<lambda>b. b\<lparr>av_back := av_back (bufp k1 bp)\<rparr>) k1)"

definition notavail :: "bptr \<Rightarrow> kernel \<Rightarrow> kernel" where
  "notavail bp k = upd_buf bp (set_flags B_BUSY) (av_unlink bp k)"

definition iodone :: "bptr \<Rightarrow> kernel \<Rightarrow> kernel" where
  "iodone bp k =
     (let k1 = upd_buf bp (set_flags B_DONE) k
      in if flagged k1 bp B_ASYNC then brelse bp k1
         else wakeup (ChBuf bp) (upd_buf bp (clear_flags B_WANTED) k1))"

definition geterror :: "bptr \<Rightarrow> kernel \<Rightarrow> kernel" where
  "geterror bp k =
     (if flagged k bp B_ERROR then
        (if b_error (bufp k bp) \<noteq> 0 then set_error (b_error (bufp k bp)) k else set_error EIO k)
      else k)"

text \<open>The loop of \<^verbatim>\<open>iowait\<close> stops at its first \<^verbatim>\<open>sleep\<close>.\<close>

definition iowait :: "bptr \<Rightarrow> unit kop" where
  "iowait bp k =
     (if \<not> flagged k bp B_DONE then sleep (ChBuf bp) PRIBIO k else Ret () (geterror bp k))"

definition clrbuf :: "bptr \<Rightarrow> kernel \<Rightarrow> kernel" where
  "clrbuf bp = upd_buf bp (\<lambda>b. b\<lparr>b_addr := (\<lambda>i. if i < BSIZE then 0 else b_addr b i)\<rparr>)"

subsection \<open>The RAM disk\<close>

abbreviation (input) RAMDISK_BLOCKS :: int where "RAMDISK_BLOCKS \<equiv> 16384"

text \<open>The number of bytes of a transfer.  For a word count whose double does not fit an \<^verbatim>\<open>int\<close>,
  which no caller sets, the product is undefined in C; here it is the number itself.\<close>

definition rd_count :: "buf \<Rightarrow> int" where
  "rd_count b =
     (let count = - sint (b_wcount b) * 2
      in if sint (b_blkno b) + count div int BSIZE > RAMDISK_BLOCKS
         then (RAMDISK_BLOCKS - sint (b_blkno b)) * int BSIZE else count)"

definition rd_read :: "nat \<Rightarrow> nat \<Rightarrow> (nat \<Rightarrow> block) \<Rightarrow> block \<Rightarrow> block" where
  "rd_read bn n disk b = (\<lambda>i. if i < n then disk (bn + i div BSIZE) (i mod BSIZE) else b i)"

definition rd_write :: "nat \<Rightarrow> nat \<Rightarrow> block \<Rightarrow> (nat \<Rightarrow> block) \<Rightarrow> (nat \<Rightarrow> block)" where
  "rd_write bn n b disk =
     (\<lambda>d i. if bn \<le> d \<and> i < BSIZE \<and> (d - bn) * BSIZE + i < n then b ((d - bn) * BSIZE + i) else disk d i)"

definition upd_disk :: "((nat \<Rightarrow> block) \<Rightarrow> (nat \<Rightarrow> block)) \<Rightarrow> kernel \<Rightarrow> kernel" where
  "upd_disk f k = k\<lparr>k_bio := (k_bio k)\<lparr>ramdisk := f (ramdisk (k_bio k))\<rparr>\<rparr>"

definition rd_strategy :: "bptr \<Rightarrow> kernel \<Rightarrow> kernel" where
  "rd_strategy bp k =
     (let b = bufp k bp; blkno = sint (b_blkno b)
      in if blkno < 0 \<or> blkno \<ge> RAMDISK_BLOCKS then
           iodone bp (upd_buf bp (\<lambda>b. (set_flags B_ERROR b)\<lparr>b_error := ENXIO\<rparr>) k)
         else
           (let n = nat (rd_count b);
                k1 = (if flagged k bp B_READ
                      then upd_buf bp (\<lambda>b. b\<lparr>b_addr := rd_read (nat blkno) n (ramdisk (k_bio k)) (b_addr b)\<rparr>) k
                      else upd_disk (rd_write (nat blkno) n (b_addr b)) k)
            in iodone bp (upd_buf bp (\<lambda>b. b\<lparr>b_resid := 0\<rparr>) k1)))"

text \<open>\<^verbatim>\<open>bdevsw[major(dev)]\<close>, and the call through \<^verbatim>\<open>d_strategy\<close> with what the
  caller does when the pointer is null.\<close>

definition bdev :: "dev_t \<Rightarrow> kernel \<Rightarrow> bdevent option" where
  "bdev dev k = (if major dev < length (bdevsw (k_bio k)) then Some (bdevsw (k_bio k) ! major dev) else None)"

definition strategy :: "dev_t \<Rightarrow> bptr \<Rightarrow> (kernel \<Rightarrow> kernel) \<Rightarrow> unit kop" where
  "strategy dev bp nodriver k =
     (case bdev dev k of
        None \<Rightarrow> Stop OutOfBounds k
      | Some d \<Rightarrow> (case d_strategy d of
          NoDrv \<Rightarrow> Ret () (nodriver k) | RamDrv \<Rightarrow> Ret () (rd_strategy bp k)))"

subsection \<open>Writing\<close>

definition bwrite :: "bptr \<Rightarrow> unit kop" where
  "bwrite bp k =
     (let flag = b_flags (bufp k bp);
          k1 = upd_buf bp (\<lambda>b. (clear_flags (B_READ OR B_DONE OR B_ERROR OR B_DELWRI) b)\<lparr>b_wcount := - 256\<rparr>) k
      in kseq (strategy (b_dev (bufp k1 bp)) bp (upd_buf bp (set_flags (B_DONE OR B_ERROR))))
           (if \<not> hasf flag B_ASYNC then kseq (iowait bp) (act (brelse bp))
            else if \<not> hasf flag B_DELWRI then act (geterror bp)
            else ret ()) k1)"

definition bdwrite :: "bptr \<Rightarrow> kernel \<Rightarrow> kernel" where
  "bdwrite bp k = brelse bp (upd_buf bp (set_flags (B_DELWRI OR B_DONE)) k)"

definition bawrite :: "bptr \<Rightarrow> unit kop" where
  "bawrite bp k = bwrite bp (upd_buf bp (set_flags B_ASYNC) k)"

subsection \<open>Finding a buffer\<close>

text \<open>A walk along a ring: \<open>None\<close> when the fuel runs out, \<open>Some None\<close> when it comes back
  to the head.\<close>

fun walk :: "nat \<Rightarrow> (bptr \<Rightarrow> bptr) \<Rightarrow> (bptr \<Rightarrow> bool) \<Rightarrow> bptr \<Rightarrow> bptr \<Rightarrow> bptr option option" where
  "walk n nx t h bp =
     (if bp = h then Some None
      else if t bp then Some (Some bp)
      else (case n of 0 \<Rightarrow> None | Suc m \<Rightarrow> walk m nx t h (nx bp)))"

definition is_block :: "kernel \<Rightarrow> dev_t \<Rightarrow> int32_t \<Rightarrow> bptr \<Rightarrow> bool" where
  "is_block k dev blkno bp \<longleftrightarrow> b_blkno (bufp k bp) = blkno \<and> b_dev (bufp k bp) = dev"

definition find_block :: "dev_t \<Rightarrow> int32_t \<Rightarrow> kernel \<Rightarrow> bptr option option" where
  "find_block dev blkno k =
     (let dp = DevTab (major dev)
      in walk (NBUF + 1) (\<lambda>bp. b_forw (bufp k bp)) (is_block k dev blkno) dp (b_forw (bufp k dp)))"

definition incore :: "dev_t \<Rightarrow> int32_t \<Rightarrow> bptr option kop" where
  "incore dev blkno k =
     (if major dev \<ge> nblkdev (k_bio k) then Ret None k
      else (case bdev dev k of
          None \<Rightarrow> Stop OutOfBounds k
        | Some d \<Rightarrow>
            if \<not> d_tab d then Ret None k
            else (case find_block dev blkno k of None \<Rightarrow> Stop Spins k | Some r \<Rightarrow> Ret r k)))"

text \<open>The end of \<^verbatim>\<open>getblk\<close>: a free buffer moves to the head of its new chain.\<close>

definition rechain :: "dev_t \<Rightarrow> bptr \<Rightarrow> kernel \<Rightarrow> kernel" where
  "rechain dev bp k =
     (let dp = DevTab (major dev);
          k1 = upd_buf (b_back (bufp k bp)) (\<lambda>b. b\<lparr>b_forw := b_forw (bufp k bp)\<rparr>) k;
          k2 = upd_buf (b_forw (bufp k1 bp)) (\<lambda>b. b\<lparr>b_back := b_back (bufp k1 bp)\<rparr>) k1
      in if dev \<noteq> NODEV then
           (let k3 = upd_buf bp (\<lambda>b. b\<lparr>b_forw := b_forw (bufp k2 dp)\<rparr>) k2;
                k4 = upd_buf bp (\<lambda>b. b\<lparr>b_back := dp\<rparr>) k3;
                k5 = upd_buf (b_forw (bufp k4 dp)) (\<lambda>b. b\<lparr>b_back := bp\<rparr>) k4
            in upd_buf dp (\<lambda>b. b\<lparr>b_forw := bp\<rparr>) k5)
         else upd_buf bp (\<lambda>b. b\<lparr>b_forw := bp, b_back := bp\<rparr>) k2)"

definition reassign :: "dev_t \<Rightarrow> int32_t \<Rightarrow> bptr \<Rightarrow> kernel \<Rightarrow> kernel" where
  "reassign dev blkno bp k =
     upd_buf bp (\<lambda>b. b\<lparr>b_dev := dev, b_blkno := blkno\<rparr>)
       (rechain dev bp (upd_buf bp (\<lambda>b. b\<lparr>b_flags := B_BUSY\<rparr>) k))"

text \<open>\<open>again\<close> is the \<^verbatim>\<open>goto loop\<close>.\<close>

definition getblk_free :: "(bptr kop) \<Rightarrow> dev_t \<Rightarrow> int32_t \<Rightarrow> bptr kop" where
  "getblk_free again dev blkno k =
     (if av_forw (bufp k FreeHd) = FreeHd then
        kseq (sleep (ChBuf FreeHd) PRIBIO) (stop Spins) (upd_buf FreeHd (set_flags B_WANTED) k)
      else
        (let bp = av_forw (bufp k FreeHd);
             k1 = notavail bp k
         in if flagged k1 bp B_DELWRI then
              kseq (bwrite bp) again (upd_buf bp (set_flags B_ASYNC) k1)
            else Ret bp (reassign dev blkno bp k1)))"

definition getblk_found :: "bptr \<Rightarrow> bptr kop" where
  "getblk_found bp k =
     (if flagged k bp B_BUSY then
        kseq (sleep (ChBuf bp) PRIBIO) (stop Spins) (upd_buf bp (set_flags B_WANTED) k)
      else Ret bp (notavail bp k))"

fun getblk_loop :: "nat \<Rightarrow> dev_t \<Rightarrow> int32_t \<Rightarrow> bptr kop" where
  "getblk_loop n dev blkno k =
     (let again = (case n of 0 \<Rightarrow> stop Spins | Suc m \<Rightarrow> getblk_loop m dev blkno)
      in if dev = NODEV then getblk_free again dev blkno k
         else (case bdev dev k of
             None \<Rightarrow> Stop OutOfBounds k
           | Some d \<Rightarrow>
               if \<not> d_tab d then Stop (Panicked ''devtab'') k
               else (case find_block dev blkno k of
                   None \<Rightarrow> Stop Spins k
                 | Some (Some bp) \<Rightarrow> getblk_found bp k
                 | Some None \<Rightarrow> getblk_free again dev blkno k)))"

definition getblk :: "dev_t \<Rightarrow> int32_t \<Rightarrow> bptr kop" where
  "getblk dev blkno k =
     (if dev \<noteq> NODEV \<and> major dev \<ge> nblkdev (k_bio k) then Stop (Panicked ''blkdev'') k
      else getblk_loop (NBUF + 1) dev blkno k)"

subsection \<open>Reading\<close>

definition start_read :: "int32_t \<Rightarrow> bptr \<Rightarrow> kernel \<Rightarrow> kernel" where
  "start_read fl bp = upd_buf bp (\<lambda>b. (set_flags fl b)\<lparr>b_wcount := - 256\<rparr>)"

definition bread :: "dev_t \<Rightarrow> int32_t \<Rightarrow> bptr kop" where
  "bread dev blkno = kbind (getblk dev blkno) (\<lambda>bp k.
     if flagged k bp B_DONE then Ret bp k
     else kseq (act (start_read B_READ bp))
       (kseq (strategy dev bp (upd_buf bp (set_flags (B_DONE OR B_ERROR))))
         (kseq (iowait bp) (ret bp))) k)"

definition breada_first :: "dev_t \<Rightarrow> int32_t \<Rightarrow> bptr option kop" where
  "breada_first dev blkno = kbind (incore dev blkno) (\<lambda>r.
     if r \<noteq> None then ret None
     else kbind (getblk dev blkno) (\<lambda>bp k.
       if flagged k bp B_DONE then Ret (Some bp) k
       else kseq (act (start_read B_READ bp)) (kseq (strategy dev bp id) (ret (Some bp))) k))"

definition breada_ahead :: "dev_t \<Rightarrow> int32_t \<Rightarrow> unit kop" where
  "breada_ahead dev rablkno =
     (if rablkno = 0 then ret ()
      else kbind (incore dev rablkno) (\<lambda>r.
        if r \<noteq> None then ret ()
        else kbind (getblk dev rablkno) (\<lambda>rabp k.
          if flagged k rabp B_DONE then Ret () (brelse rabp k)
          else kseq (act (start_read (B_READ OR B_ASYNC) rabp)) (strategy dev rabp id) k)))"

definition breada :: "dev_t \<Rightarrow> int32_t \<Rightarrow> int32_t \<Rightarrow> bptr kop" where
  "breada dev blkno rablkno = kbind (breada_first dev blkno) (\<lambda>r.
     kseq (breada_ahead dev rablkno)
       (case r of None \<Rightarrow> bread dev blkno | Some bp \<Rightarrow> kseq (iowait bp) (ret bp)))"

subsection \<open>Flushing and initialisation\<close>

fun bflush_loop :: "nat \<Rightarrow> dev_t \<Rightarrow> unit kop" where
  "bflush_loop n dev k =
     (case walk (NBUF + 1) (\<lambda>bp. av_forw (bufp k bp))
         (\<lambda>bp. flagged k bp B_DELWRI \<and> (dev = NODEV \<or> b_dev (bufp k bp) = dev)) FreeHd (av_forw (bufp k FreeHd)) of
        None \<Rightarrow> Stop Spins k
      | Some None \<Rightarrow> Ret () k
      | Some (Some bp) \<Rightarrow>
          kseq (bwrite bp) (case n of 0 \<Rightarrow> stop Spins | Suc m \<Rightarrow> bflush_loop m dev)
            (notavail bp (upd_buf bp (set_flags B_ASYNC) k)))"

definition bflush :: "dev_t \<Rightarrow> unit kop" where
  "bflush = bflush_loop (NBUF + 1)"

definition binit_buf :: "nat \<Rightarrow> kernel \<Rightarrow> kernel" where
  "binit_buf i k =
     brelse (Buf i) (upd_buf (Buf i) (\<lambda>b. b\<lparr>b_dev := NODEV, b_forw := Buf i, b_back := Buf i, b_flags := B_BUSY\<rparr>) k)"

text \<open>The loop over \<^verbatim>\<open>bdevsw\<close>, which ends at the first entry without a driver.\<close>

fun binit_devs :: "nat \<Rightarrow> bdevent list \<Rightarrow> kernel \<Rightarrow> kernel" where
  "binit_devs i [] k = k"
| "binit_devs i (d # ds) k =
     (if d_strategy d = NoDrv then k
      else
        (let k1 = (if d_tab d then upd_buf (DevTab i) (\<lambda>b. b\<lparr>b_forw := DevTab i, b_back := DevTab i\<rparr>) k else k)
         in binit_devs (i + 1) ds (k1\<lparr>k_bio := (k_bio k1)\<lparr>nblkdev := nblkdev (k_bio k1) + 1\<rparr>\<rparr>)))"

definition binit :: "kernel \<Rightarrow> kernel" where
  "binit k =
     (let k1 = upd_buf FreeHd (\<lambda>b. b\<lparr>b_forw := FreeHd, b_back := FreeHd, av_forw := FreeHd, av_back := FreeHd, b_flags := 0\<rparr>) k;
          k2 = fold binit_buf [0..<NBUF] k1;
          k3 = k2\<lparr>k_bio := (k_bio k2)\<lparr>nblkdev := 0\<rparr>\<rparr>
      in binit_devs 0 (bdevsw (k_bio k3)) k3)"

declare getblk_loop.simps [simp del] bflush_loop.simps [simp del]

end
