(* ===== verification/Linked_Rings.thy ===== *)
theory Linked_Rings
  imports Kernel_Monad
begin

text \<open>
  Doubly linked rings with a head.  The cache keeps two kinds of them through the same
  buffers, the free list (\<^verbatim>\<open>av_forw\<close>, \<^verbatim>\<open>av_back\<close>) and the device chains
  (\<^verbatim>\<open>b_forw\<close>, \<^verbatim>\<open>b_back\<close>).  The locale \<open>links\<close> is what the list code relies on: a
  pair of link fields that can be read and assigned.  It is interpreted in \<open>Bio_Inv\<close> for
  both pairs.
\<close>

subsection \<open>Paths and rings\<close>

fun chain :: "('p \<Rightarrow> 'p) \<Rightarrow> 'p \<Rightarrow> 'p list \<Rightarrow> 'p \<Rightarrow> bool" where
  "chain nx a [] b \<longleftrightarrow> nx a = b"
| "chain nx a (x # xs) b \<longleftrightarrow> nx a = x \<and> chain nx x xs b"

definition ring :: "('p \<Rightarrow> 'p) \<Rightarrow> ('p \<Rightarrow> 'p) \<Rightarrow> 'p \<Rightarrow> 'p list \<Rightarrow> bool" where
  "ring nx pv h xs \<longleftrightarrow> distinct (h # xs) \<and> chain nx h xs h \<and> chain pv h (rev xs) h"

lemma chain_append [simp]:
  "chain nx a (xs @ x # ys) b \<longleftrightarrow> chain nx a xs x \<and> chain nx x ys b"
  by (induction xs arbitrary: a) auto

lemma chain_cong:
  "(\<And>p. p \<in> set (a # xs) \<Longrightarrow> nx p = nx' p) \<Longrightarrow> chain nx a xs b \<longleftrightarrow> chain nx' a xs b"
  by (induction xs arbitrary: a) auto

lemma chain_redirect:
  "chain nx a xs b \<Longrightarrow> distinct (a # xs) \<Longrightarrow> chain (nx(last (a # xs) := c)) a xs c"
proof (induction xs arbitrary: a)
  case Nil
  then show ?case by simp
next
  case (Cons x xs)
  then have "a \<noteq> last (x # xs)" by (metis distinct.simps(2) last_in_set list.distinct(1))
  with Cons show ?case by simp
qed

lemma chain_first: "chain nx a xs b \<Longrightarrow> nx a = (case xs of [] \<Rightarrow> b | x # _ \<Rightarrow> x)"
  by (cases xs) auto

lemma chain_unlink:
  assumes "chain nx h (xs @ p # ys) h" "distinct (h # xs @ p # ys)"
  shows "chain (nx(last (h # xs) := nx p)) h (xs @ ys) h"
proof (cases ys)
  case Nil
  with assms show ?thesis by (auto simp del: last.simps intro!: chain_redirect [where b = p])
next
  case (Cons y zs)
  have "chain (nx(last (h # xs) := y)) h xs y"
    using assms by (intro chain_redirect [where b = p]) auto
  moreover have "last (h # xs) \<notin> set ys"
    using assms(2) last_in_set [of "h # xs"] by (auto simp del: last.simps)
  then have "chain (nx(last (h # xs) := y)) y zs h \<longleftrightarrow> chain nx y zs h"
    using Cons by (intro chain_cong) (auto simp del: last.simps)
  ultimately show ?thesis using assms(1) Cons by (simp del: last.simps)
qed

lemma chain_insert:
  assumes "chain nx h (xs @ ys) h" "distinct (h # xs @ ys)" "p \<notin> set (h # xs @ ys)"
  shows "chain (nx(p := nx (last (h # xs)), last (h # xs) := p)) h (xs @ p # ys) h"
proof -
  let ?l = "last (h # xs)"
  let ?nx = "nx(p := nx ?l, ?l := p)"
  have l: "?l \<in> set (h # xs)" "?l \<noteq> p" using assms(3) last_in_set [of "h # xs"] by (auto simp del: last.simps)
  show ?thesis
  proof (cases ys)
    case Nil
    have "chain (nx(p := nx ?l)) h xs h"
      using assms(1,3) Nil by (subst chain_cong [where nx' = nx]) auto
    then have "chain ?nx h xs p" using assms(2) Nil by (intro chain_redirect) auto
    moreover have "nx ?l = h" using assms(1) Nil
      by (metis append_Nil2 append_butlast_last_id chain.simps(1) chain_append list.distinct(1) append_Cons
          butlast.simps(2) last.simps neq_Nil_conv)
    ultimately show ?thesis using Nil l by simp
  next
    case (Cons y zs)
    have "chain (nx(p := nx ?l)) h xs y"
      using assms(1,3) Cons by (subst chain_cong [where nx' = nx]) auto
    then have a: "chain ?nx h xs p" using assms(2) by (intro chain_redirect) auto
    have "nx ?l = y"
      using assms(1) Cons
      by (cases xs rule: rev_cases) auto
    moreover have "?l \<notin> set ys" using l(1) assms(2) by auto
    then have "chain ?nx y zs h \<longleftrightarrow> chain nx y zs h"
      using Cons assms(3) by (intro chain_cong) (auto simp del: last.simps)
    ultimately show ?thesis using a assms(1) Cons l by (simp del: last.simps)
  qed
qed

lemma chain_last: "chain nx a xs b \<Longrightarrow> nx (last (a # xs)) = b"
  by (induction xs arbitrary: a) auto

lemma ring_nx_pv:
  assumes "ring nx pv h (xs @ p # ys)"
  shows "pv p = last (h # xs)" "nx p = hd (ys @ [h])"
    "p \<noteq> last (h # xs)" "p \<noteq> hd (ys @ [h])"
proof -
  have "chain pv h (rev ys @ p # rev xs) h" "chain nx h (xs @ p # ys) h"
    using assms by (simp_all add: ring_def)
  then have "chain pv p (rev xs) h" "chain nx p ys h" by simp_all
  then show "pv p = last (h # xs)" "nx p = hd (ys @ [h])"
    by (cases xs rule: rev_cases; simp) (cases ys; use \<open>chain nx p ys h\<close> in simp)
  show "p \<noteq> last (h # xs)" "p \<noteq> hd (ys @ [h])"
    using assms last_in_set [of "h # xs"] hd_in_set [of "ys @ [h]"]
    by (auto simp: ring_def simp del: last.simps hd_append)
qed

lemma ring_unlink:
  assumes "ring nx pv h (xs @ p # ys)"
  shows "ring (nx(pv p := nx p)) (pv(nx p := pv p)) h (xs @ ys)"
proof -
  note np = ring_nx_pv [OF assms]
  have d: "distinct (h # xs @ p # ys)" and c: "chain nx h (xs @ p # ys) h"
    "chain pv h (rev ys @ p # rev xs) h" using assms by (auto simp: ring_def)
  have d': "distinct (h # rev ys @ p # rev xs)" using d by auto
  have "last (h # rev ys) = nx p" using np(2) by (cases ys) auto
  with chain_unlink [OF c(1) d] chain_unlink [OF c(2) d'] np(1) d show ?thesis
    by (simp add: ring_def del: last.simps)
qed

lemma ring_insert:
  assumes "ring nx pv h (xs @ ys)" "p \<notin> set (h # xs @ ys)"
  defines "a \<equiv> last (h # xs)" and "b \<equiv> hd (ys @ [h])"
  shows "ring (nx(p := b, a := p)) (pv(p := a, b := p)) h (xs @ p # ys)"
proof -
  have d: "distinct (h # xs @ ys)" "distinct (h # rev ys @ rev xs)" and c: "chain nx h (xs @ ys) h"
    "chain pv h (rev ys @ rev xs) h" using assms(1) by (auto simp: ring_def)
  have "nx a = b"
    using c(1) by (cases xs rule: rev_cases; cases ys) (auto simp: a_def b_def)
  moreover have "pv b = a"
    using c(2) by (cases xs rule: rev_cases; cases ys) (auto simp: a_def b_def)
  moreover have "last (h # rev ys) = b" by (cases ys) (auto simp: b_def)
  ultimately show ?thesis
    using chain_insert [OF c(1) d(1) assms(2)] chain_insert [OF c(2) d(2), of p] assms(2) d
    by (auto simp: ring_def a_def [symmetric] simp del: last.simps)
qed

lemma ring_cong:
  "(\<And>p. p \<in> set (h # xs) \<Longrightarrow> nx p = nx' p \<and> pv p = pv' p) \<Longrightarrow> ring nx pv h xs \<longleftrightarrow> ring nx' pv' h xs"
  using chain_cong [of h xs nx nx' h] chain_cong [of h "rev xs" pv pv' h] by (auto simp: ring_def)

subsection \<open>Link fields\<close>

locale links =
  fixes nx pv :: "'s \<Rightarrow> 'p \<Rightarrow> 'p"
    and set_nx set_pv :: "'p \<Rightarrow> 'p \<Rightarrow> 's \<Rightarrow> 's"
  assumes nx_set_nx: "nx (set_nx p q s) r = (if r = p then q else nx s r)"
    and pv_set_nx: "pv (set_nx p q s) r = pv s r"
    and nx_set_pv: "nx (set_pv p q s) r = nx s r"
    and pv_set_pv: "pv (set_pv p q s) r = (if r = p then q else pv s r)"
begin

lemma nx_fun: "nx (set_nx p q s) = (nx s)(p := q)" "nx (set_pv p q s) = nx s"
  by (auto simp: nx_set_nx nx_set_pv)

lemma pv_fun: "pv (set_pv p q s) = (pv s)(p := q)" "pv (set_nx p q s) = pv s"
  by (auto simp: pv_set_pv pv_set_nx)

text \<open>\<^verbatim>\<open>p->back->forw = p->forw; p->forw->back = p->back\<close>\<close>

lemma unlink_ring:
  assumes "ring (nx s) (pv s) h (xs @ p # ys)"
  defines "s1 \<equiv> set_nx (pv s p) (nx s p) s"
  defines "s2 \<equiv> set_pv (nx s1 p) (pv s1 p) s1"
  shows "ring (nx s2) (pv s2) h (xs @ ys)" "nx s2 = (nx s)(pv s p := nx s p)" "pv s2 = (pv s)(nx s p := pv s p)"
proof -
  have "pv s p \<noteq> p" using ring_nx_pv [OF assms(1)] by metis
  then have "nx s2 = (nx s)(pv s p := nx s p)" "pv s2 = (pv s)(nx s p := pv s p)"
    by (simp_all add: s2_def s1_def nx_fun pv_fun)
  with ring_unlink [OF assms(1)] show "ring (nx s2) (pv s2) h (xs @ ys)"
    "nx s2 = (nx s)(pv s p := nx s p)" "pv s2 = (pv s)(nx s p := pv s p)" by simp_all
qed

text \<open>Insertion at the end: \<^verbatim>\<open>p->back = h->back; p->forw = h; h->back->forw = p;
  h->back = p\<close>.\<close>

lemma append_ring:
  assumes "ring (nx s) (pv s) h xs" "p \<notin> set (h # xs)"
  defines "s2 \<equiv> set_nx p h (set_pv p (pv s h) s)"
  defines "s4 \<equiv> set_pv h p (set_nx (pv s2 h) p s2)"
  shows "ring (nx s4) (pv s4) h (xs @ [p])" "nx s4 = (nx s)(p := h, pv s h := p)" "pv s4 = (pv s)(p := pv s h, h := p)"
proof -
  have "pv s h = last (h # xs)"
    using assms(1) by (cases xs rule: rev_cases) (auto simp: ring_def)
  moreover have "p \<noteq> h" using assms(2) by simp
  ultimately show "nx s4 = (nx s)(p := h, pv s h := p)" "pv s4 = (pv s)(p := pv s h, h := p)"
    and "ring (nx s4) (pv s4) h (xs @ [p])"
    using ring_insert [of "nx s" "pv s" h xs "[]" p] assms(1,2)
    by (simp_all add: s4_def s2_def nx_fun pv_fun)
qed

text \<open>Insertion at the front: \<^verbatim>\<open>p->forw = h->forw; p->back = h; h->forw->back = p;
  h->forw = p\<close>.\<close>

lemma push_ring:
  assumes "ring (nx s) (pv s) h xs" "p \<notin> set (h # xs)"
  defines "s2 \<equiv> set_pv p h (set_nx p (nx s h) s)"
  defines "s4 \<equiv> set_nx h p (set_pv (nx s2 h) p s2)"
  shows "ring (nx s4) (pv s4) h (p # xs)" "nx s4 = (nx s)(p := nx s h, h := p)" "pv s4 = (pv s)(p := h, nx s h := p)"
proof -
  have "nx s h = hd (xs @ [h])"
    using assms(1) by (cases xs) (auto simp: ring_def)
  moreover have "p \<noteq> h" using assms(2) by simp
  ultimately show "nx s4 = (nx s)(p := nx s h, h := p)" "pv s4 = (pv s)(p := h, nx s h := p)"
    and "ring (nx s4) (pv s4) h (p # xs)"
    using ring_insert [of "nx s" "pv s" h "[]" xs p] assms(1,2)
    by (simp_all add: s4_def s2_def nx_fun pv_fun)
qed

end

end
