(* ===== verification/Bio_Inv.thy ===== *)
theory Bio_Inv
  imports Bio Linked_Rings
begin

text \<open>
  The invariant of the buffer cache and the abstraction it implements.  The setting is the
  running system's: every cached block belongs to one device \<open>dv\<close>, whose driver is the RAM
  disk.  \<open>cache_inv\<close> says that the free list holds exactly the buffers that are not busy, that
  the device chain holds every buffer with an identity, that no block has two buffers, that a
  delayed write is complete and that a free clean copy agrees with the disk.  \<open>content\<close> is the
  abstraction: the block as a reader must see it, the cached copy if there is one and the
  disk's otherwise.
\<close>

subsection \<open>The link fields\<close>

interpretation av: links "\<lambda>k p. av_forw (bufp k p)" "\<lambda>k p. av_back (bufp k p)"
  "\<lambda>p q. upd_buf p (\<lambda>b. b\<lparr>av_forw := q\<rparr>)" "\<lambda>p q. upd_buf p (\<lambda>b. b\<lparr>av_back := q\<rparr>)"
  by unfold_locales simp_all

interpretation dc: links "\<lambda>k p. b_forw (bufp k p)" "\<lambda>k p. b_back (bufp k p)"
  "\<lambda>p q. upd_buf p (\<lambda>b. b\<lparr>b_forw := q\<rparr>)" "\<lambda>p q. upd_buf p (\<lambda>b. b\<lparr>b_back := q\<rparr>)"
  by unfold_locales simp_all

abbreviation av_ring :: "kernel \<Rightarrow> nat list \<Rightarrow> bool" where
  "av_ring k fl \<equiv> ring (\<lambda>p. av_forw (bufp k p)) (\<lambda>p. av_back (bufp k p)) FreeHd (map Buf fl)"

abbreviation dev_ring :: "kernel \<Rightarrow> bptr \<Rightarrow> nat list \<Rightarrow> bool" where
  "dev_ring k h ch \<equiv> ring (\<lambda>p. b_forw (bufp k p)) (\<lambda>p. b_back (bufp k p)) h (map Buf ch)"

subsection \<open>Invariant and abstraction\<close>

abbreviation (input) bflag :: "kernel \<Rightarrow> nat \<Rightarrow> int32_t \<Rightarrow> bool" where
  "bflag k i m \<equiv> hasf (b_flags (bufp k (Buf i))) m"

definition clip :: "block \<Rightarrow> block" where
  "clip b = (\<lambda>i. if i < BSIZE then b i else 0)"

definition in_range :: "int32_t \<Rightarrow> bool" where
  "in_range bn \<longleftrightarrow> 0 \<le> sint bn \<and> sint bn < RAMDISK_BLOCKS"

definition disk :: "kernel \<Rightarrow> int32_t \<Rightarrow> block" where
  "disk k bn = ramdisk (k_bio k) (nat (sint bn))"

definition holds :: "dev_t \<Rightarrow> kernel \<Rightarrow> nat \<Rightarrow> int32_t \<Rightarrow> bool" where
  "holds dv k i bn \<longleftrightarrow> b_dev (bufp k (Buf i)) = dv \<and> b_blkno (bufp k (Buf i)) = bn"

definition content :: "dev_t \<Rightarrow> kernel \<Rightarrow> int32_t \<Rightarrow> block" where
  "content dv k bn = clip (case find_slot (\<lambda>i. holds dv k i bn \<and> bflag k i B_DONE) [0..<NBUF] of
     Some i \<Rightarrow> b_addr (bufp k (Buf i)) | None \<Rightarrow> disk k bn)"

definition lists_ok :: "dev_t \<Rightarrow> kernel \<Rightarrow> nat list \<Rightarrow> nat list \<Rightarrow> bool" where
  "lists_ok dv k fl ch \<longleftrightarrow> av_ring k fl \<and> dev_ring k (DevTab (major dv)) ch
     \<and> set fl \<subseteq> {..<NBUF} \<and> set ch \<subseteq> {..<NBUF}
     \<and> (\<forall>i<NBUF. i \<notin> set ch \<longrightarrow> b_forw (bufp k (Buf i)) = Buf i \<and> b_back (bufp k (Buf i)) = Buf i)"

definition dev_ok :: "dev_t \<Rightarrow> kernel \<Rightarrow> bool" where
  "dev_ok dv k \<longleftrightarrow> dv \<noteq> NODEV \<and> major dv < nblkdev (k_bio k)
     \<and> bdev dv k = Some \<lparr>d_strategy = RamDrv, d_tab = True\<rparr>"

definition clean :: "dev_t \<Rightarrow> kernel \<Rightarrow> nat \<Rightarrow> bool" where
  "clean dv k i \<longleftrightarrow> (let b = bufp k (Buf i) in
     b_dev b = dv \<and> bflag k i B_DONE \<and> \<not> bflag k i B_DELWRI \<and> in_range (b_blkno b)
     \<longrightarrow> clip (b_addr b) = clip (disk k (b_blkno b)))"

definition dirty_ok :: "dev_t \<Rightarrow> kernel \<Rightarrow> nat \<Rightarrow> bool" where
  "dirty_ok dv k i \<longleftrightarrow> (let b = bufp k (Buf i) in
     (bflag k i B_DELWRI \<longrightarrow> b_dev b = dv \<and> in_range (b_blkno b) \<and> bflag k i B_DONE \<and> \<not> bflag k i B_ERROR)
     \<and> (b_dev b = dv \<and> in_range (b_blkno b) \<longrightarrow> \<not> bflag k i B_ERROR))"

definition data_ok :: "dev_t \<Rightarrow> kernel \<Rightarrow> nat list \<Rightarrow> nat list \<Rightarrow> bool" where
  "data_ok dv k fl ch \<longleftrightarrow>
     (\<forall>i<NBUF. i \<in> set fl \<longleftrightarrow> \<not> bflag k i B_BUSY)
     \<and> (\<forall>i<NBUF. b_dev (bufp k (Buf i)) = NODEV \<or> b_dev (bufp k (Buf i)) = dv \<and> i \<in> set ch)
     \<and> (\<forall>i<NBUF. \<forall>j<NBUF. \<forall>bn. holds dv k i bn \<and> holds dv k j bn \<longrightarrow> i = j)
     \<and> (\<forall>i<NBUF. dirty_ok dv k i)
     \<and> (\<forall>i\<in>set fl. clean dv k i \<and> \<not> bflag k i B_ASYNC)"

definition cache_inv :: "dev_t \<Rightarrow> kernel \<Rightarrow> nat list \<Rightarrow> nat list \<Rightarrow> bool" where
  "cache_inv dv k fl ch \<longleftrightarrow> dev_ok dv k \<and> lists_ok dv k fl ch \<and> data_ok dv k fl ch"

lemma content_cached:
  assumes "data_ok dv k fl ch" "i < NBUF" "holds dv k i bn" "bflag k i B_DONE"
  shows "content dv k bn = clip (b_addr (bufp k (Buf i)))"
proof -
  have "find_slot (\<lambda>i. holds dv k i bn \<and> bflag k i B_DONE) [0..<NBUF] = Some i"
  proof (rule find_slot_SomeI)
    show "\<forall>j<i. \<not> (holds dv k ([0..<NBUF] ! j) bn \<and> bflag k ([0..<NBUF] ! j) B_DONE)"
      using assms unfolding data_ok_def by (metis add_0 less_trans nat_neq_iff nth_upt)
  qed (use assms in simp_all)
  then show ?thesis by (simp add: content_def)
qed

lemma content_disk:
  assumes "\<And>i. i < NBUF \<Longrightarrow> holds dv k i bn \<Longrightarrow> \<not> bflag k i B_DONE"
  shows "content dv k bn = clip (disk k bn)"
proof -
  have "find_slot (\<lambda>i. holds dv k i bn \<and> bflag k i B_DONE) [0..<NBUF] = None"
    using assms by (auto simp: find_slot_None_iff)
  then show ?thesis by (simp add: content_def)
qed

text \<open>The cached copy, when there is one, or the disk: a case rule.\<close>

lemma content_cases:
  assumes "data_ok dv k fl ch"
  obtains (cached) i where "i < NBUF" "holds dv k i bn" "bflag k i B_DONE"
      "content dv k bn = clip (b_addr (bufp k (Buf i)))"
  | (disk) "\<And>i. i < NBUF \<Longrightarrow> holds dv k i bn \<Longrightarrow> \<not> bflag k i B_DONE"
      "content dv k bn = clip (disk k bn)"
  using content_cached [OF assms] content_disk [of dv k bn] by metis

subsection \<open>Walking a ring\<close>

lemma walk_chain:
  "chain nx a xs h \<Longrightarrow> h \<notin> set xs \<Longrightarrow> length xs \<le> n \<Longrightarrow> walk n nx t h (nx a) = Some (find t xs)"
proof (induction xs arbitrary: a n)
  case Nil
  then show ?case by simp
next
  case (Cons x xs)
  then obtain m where "n = Suc m" by (cases n) auto
  with Cons show ?case by auto
qed

lemma find_block_ring:
  assumes "dev_ring k (DevTab (major dv)) ch" "set ch \<subseteq> {..<NBUF}"
  shows "find_block dv bn k = Some (find (is_block k dv bn) (map Buf ch))"
proof -
  have "distinct ch" using assms(1) by (simp add: ring_def distinct_map)
  then have "length ch \<le> NBUF"
    using card_mono [OF finite_lessThan assms(2)] by (simp add: distinct_card)
  with walk_chain [of "\<lambda>p. b_forw (bufp k p)" "DevTab (major dv)" "map Buf ch" "DevTab (major dv)"
      "NBUF + 1" "is_block k dv bn"] assms(1)
  show ?thesis by (simp add: find_block_def ring_def Let_def)
qed

subsection \<open>What the invariant depends on\<close>

lemma bio_cong:
  assumes "k_bio k = k_bio k'"
  shows "lists_ok dv k fl ch \<longleftrightarrow> lists_ok dv k' fl ch" "data_ok dv k fl ch \<longleftrightarrow> data_ok dv k' fl ch"
    "dev_ok dv k \<longleftrightarrow> dev_ok dv k'" "cache_inv dv k fl ch \<longleftrightarrow> cache_inv dv k' fl ch"
    "content dv k = content dv k'" "disk k = disk k'" "clean dv k = clean dv k'"
proof -
  note b = bufp_cong [OF assms]
  show l: "lists_ok dv k fl ch \<longleftrightarrow> lists_ok dv k' fl ch" by (simp add: lists_ok_def b)
  show d: "disk k = disk k'" by (simp add: disk_def fun_eq_iff assms)
  show c: "clean dv k = clean dv k'" by (simp add: clean_def fun_eq_iff b d)
  show da: "data_ok dv k fl ch \<longleftrightarrow> data_ok dv k' fl ch"
    by (simp add: data_ok_def holds_def dirty_ok_def b c)
  show de: "dev_ok dv k \<longleftrightarrow> dev_ok dv k'" by (simp add: dev_ok_def bdev_def assms)
  show "cache_inv dv k fl ch \<longleftrightarrow> cache_inv dv k' fl ch" by (simp add: cache_inv_def l da de)
  show "content dv k = content dv k'" unfolding content_def holds_def b d ..
qed

lemma lists_ok_upd:
  assumes "\<And>b. av_forw (g b) = av_forw b" "\<And>b. av_back (g b) = av_back b"
    "\<And>b. b_forw (g b) = b_forw b" "\<And>b. b_back (g b) = b_back b"
  shows "lists_ok dv (upd_buf p g k) fl ch \<longleftrightarrow> lists_ok dv k fl ch"
proof -
  have "av_forw (bufp (upd_buf p g k) q) = av_forw (bufp k q)" "av_back (bufp (upd_buf p g k) q) = av_back (bufp k q)"
    "b_forw (bufp (upd_buf p g k) q) = b_forw (bufp k q)" "b_back (bufp (upd_buf p g k) q) = b_back (bufp k q)" for q
    by (simp_all add: assms)
  then show ?thesis by (simp only: lists_ok_def)
qed

lemma dev_ok_upd [simp]: "dev_ok dv (upd_buf p g k) \<longleftrightarrow> dev_ok dv k"
  by (simp add: dev_ok_def bdev_def)

lemma disk_upd_buf [simp]: "disk (upd_buf p g k) = disk k"
  by (simp add: disk_def fun_eq_iff)

text \<open>\<open>same_buf k k' j\<close>: buffer \<open>j\<close> has the same flags, identity and data.\<close>

definition same_buf :: "kernel \<Rightarrow> kernel \<Rightarrow> nat \<Rightarrow> bool" where
  "same_buf k k' j \<longleftrightarrow> (let b = bufp k (Buf j); b' = bufp k' (Buf j) in
     b_flags b' = b_flags b \<and> b_dev b' = b_dev b \<and> b_blkno b' = b_blkno b \<and> b_addr b' = b_addr b)"

lemma same_buf_refl [simp]: "same_buf k k j"
  by (simp add: same_buf_def)

lemma same_buf_trans: "same_buf k k' j \<Longrightarrow> same_buf k' k'' j \<Longrightarrow> same_buf k k'' j"
  by (simp add: same_buf_def Let_def)

lemma same_buf_facts:
  assumes "same_buf k k' j"
  shows "bflag k' j m = bflag k j m" "holds dv k' j bn = holds dv k j bn"
    "b_addr (bufp k' (Buf j)) = b_addr (bufp k (Buf j))" "b_dev (bufp k' (Buf j)) = b_dev (bufp k (Buf j))"
    "b_blkno (bufp k' (Buf j)) = b_blkno (bufp k (Buf j))" "dirty_ok dv k' j = dirty_ok dv k j"
    "disk k' = disk k \<Longrightarrow> clean dv k' j = clean dv k j"
  using assms by (auto simp: same_buf_def Let_def holds_def dirty_ok_def clean_def)

lemma data_ok_change:
  assumes old: "data_ok dv k fl ch" and i: "i < NBUF"
    and same: "\<And>j. j < NBUF \<Longrightarrow> j \<noteq> i \<Longrightarrow> same_buf k k' j" and disk: "disk k' = disk k"
    and fl: "set fl' - {i} = set fl - {i}" "i \<in> set fl' \<longleftrightarrow> \<not> bflag k' i B_BUSY" "set fl' \<subseteq> {..<NBUF}"
    and ch: "set ch \<subseteq> set ch'" "b_dev (bufp k' (Buf i)) = NODEV \<or> b_dev (bufp k' (Buf i)) = dv \<and> i \<in> set ch'"
    and uniq: "\<And>j bn. j < NBUF \<Longrightarrow> j \<noteq> i \<Longrightarrow> holds dv k' i bn \<Longrightarrow> \<not> holds dv k j bn"
    and loc: "dirty_ok dv k' i" "i \<in> set fl' \<Longrightarrow> clean dv k' i" "i \<in> set fl' \<Longrightarrow> \<not> bflag k' i B_ASYNC"
  shows "data_ok dv k' fl' ch'"
  unfolding data_ok_def
proof (intro conjI allI impI ballI)
  fix j assume j: "j < NBUF"
  show "j \<in> set fl' \<longleftrightarrow> \<not> bflag k' j B_BUSY"
    using old j fl same_buf_facts(1) [OF same [OF j]] unfolding data_ok_def by (cases "j = i") auto
  show "b_dev (bufp k' (Buf j)) = NODEV \<or> b_dev (bufp k' (Buf j)) = dv \<and> j \<in> set ch'"
    using old j ch same_buf_facts(4) [OF same [OF j]] unfolding data_ok_def by (cases "j = i") auto
  show "dirty_ok dv k' j"
    using old j loc same_buf_facts(6) [OF same [OF j]] unfolding data_ok_def by (cases "j = i") auto
  fix l bn assume l: "l < NBUF" and h: "holds dv k' j bn \<and> holds dv k' l bn"
  show "j = l"
  proof (rule ccontr)
    assume ne: "j \<noteq> l"
    consider "j = i" | "l = i" | "j \<noteq> i" "l \<noteq> i" by blast
    then show False
    proof cases
      case 1
      with uniq [OF l] ne h same_buf_facts(2) [OF same [OF l]] show False by auto
    next
      case 2
      with uniq [OF j] ne h same_buf_facts(2) [OF same [OF j]] show False by auto
    next
      case 3
      with h ne old j l same_buf_facts(2) [OF same [OF j]] same_buf_facts(2) [OF same [OF l]]
      show False unfolding data_ok_def by metis
    qed
  qed
next
  fix j assume j: "j \<in> set fl'"
  then have "j < NBUF" using fl(3) by auto
  have "clean dv k' j \<and> \<not> bflag k' j B_ASYNC"
  proof (cases "j = i")
    case False
    then have "j \<in> set fl" using j fl(1) by auto
    then show ?thesis
      using old same_buf_facts(7) [OF same [OF \<open>j < NBUF\<close> False] disk]
        same_buf_facts(1) [OF same [OF \<open>j < NBUF\<close> False]] by (simp add: data_ok_def)
  qed (use loc j in simp)
  then show "clean dv k' j" "\<not> bflag k' j B_ASYNC" by auto
qed

lemma content_change:
  assumes old: "data_ok dv k fl ch" and new: "data_ok dv k' fl' ch'" and i: "i < NBUF"
    and same: "\<And>j. j < NBUF \<Longrightarrow> j \<noteq> i \<Longrightarrow> same_buf k k' j" and disk: "disk k' bn = disk k bn"
    and gain: "holds dv k' i bn \<Longrightarrow> bflag k' i B_DONE \<Longrightarrow> content dv k bn = clip (b_addr (bufp k' (Buf i)))"
    and lose: "holds dv k i bn \<Longrightarrow> bflag k i B_DONE \<Longrightarrow> \<not> (holds dv k' i bn \<and> bflag k' i B_DONE) \<Longrightarrow>
      clip (b_addr (bufp k (Buf i))) = clip (disk k bn)"
  shows "content dv k' bn = content dv k bn"
  using old
proof (cases rule: content_cases [where bn = bn])
  case (cached j)
  show ?thesis
  proof (cases "j = i")
    case False
    note f = same_buf_facts [OF same [OF cached(1) False]]
    then have "content dv k' bn = clip (b_addr (bufp k' (Buf j)))"
      using cached by (intro content_cached [OF new]) auto
    with cached f show ?thesis by simp
  next
    case True
    show ?thesis
    proof (cases "holds dv k' i bn \<and> bflag k' i B_DONE")
      case True
      with gain content_cached [OF new i, of bn] show ?thesis by simp
    next
      case no: False
      have "content dv k' bn = clip (disk k' bn)"
      proof (rule content_disk)
        fix l assume l: "l < NBUF" "holds dv k' l bn"
        show "\<not> bflag k' l B_DONE"
        proof (cases "l = i")
          case False
          with l same_buf_facts(2) [OF same [OF l(1) False]] cached \<open>j = i\<close> old have False
            unfolding data_ok_def by metis
          then show ?thesis ..
        qed (use l no in simp)
      qed
      with lose cached True no disk show ?thesis by simp
    qed
  qed
next
  case d: disk
  show ?thesis
  proof (cases "holds dv k' i bn \<and> bflag k' i B_DONE")
    case True
    with gain content_cached [OF new i, of bn] show ?thesis by simp
  next
    case no: False
    have "content dv k' bn = clip (disk k' bn)"
    proof (rule content_disk)
      fix l assume l: "l < NBUF" "holds dv k' l bn"
      then show "\<not> bflag k' l B_DONE"
        using no d(1) [OF l(1)] same_buf_facts(1,2) [OF same [OF l(1)]] by (cases "l = i") auto
    qed
    with d disk show ?thesis by simp
  qed
qed

subsection \<open>The list operations keep the lists\<close>

text \<open>A field that an update keeps.\<close>

lemma upd_buf_keep:
  "(\<And>b. b_flags (g b) = b_flags b) \<Longrightarrow> b_flags (bufp (upd_buf p g k) q) = b_flags (bufp k q)"
  "(\<And>b. b_dev (g b) = b_dev b) \<Longrightarrow> b_dev (bufp (upd_buf p g k) q) = b_dev (bufp k q)"
  "(\<And>b. b_blkno (g b) = b_blkno b) \<Longrightarrow> b_blkno (bufp (upd_buf p g k) q) = b_blkno (bufp k q)"
  "(\<And>b. b_addr (g b) = b_addr b) \<Longrightarrow> b_addr (bufp (upd_buf p g k) q) = b_addr (bufp k q)"
  "(\<And>b. b_error (g b) = b_error b) \<Longrightarrow> b_error (bufp (upd_buf p g k) q) = b_error (bufp k q)"
  "(\<And>b. av_forw (g b) = av_forw b) \<Longrightarrow> av_forw (bufp (upd_buf p g k) q) = av_forw (bufp k q)"
  "(\<And>b. av_back (g b) = av_back b) \<Longrightarrow> av_back (bufp (upd_buf p g k) q) = av_back (bufp k q)"
  "(\<And>b. b_forw (g b) = b_forw b) \<Longrightarrow> b_forw (bufp (upd_buf p g k) q) = b_forw (bufp k q)"
  "(\<And>b. b_back (g b) = b_back b) \<Longrightarrow> b_back (bufp (upd_buf p g k) q) = b_back (bufp k q)"
  by simp_all

lemma av_append_fields [simp]:
  "b_flags (bufp (av_append bp k) p) = b_flags (bufp k p)" "b_dev (bufp (av_append bp k) p) = b_dev (bufp k p)"
  "b_blkno (bufp (av_append bp k) p) = b_blkno (bufp k p)" "b_addr (bufp (av_append bp k) p) = b_addr (bufp k p)"
  "b_forw (bufp (av_append bp k) p) = b_forw (bufp k p)" "b_back (bufp (av_append bp k) p) = b_back (bufp k p)"
  "b_error (bufp (av_append bp k) p) = b_error (bufp k p)"
  by (simp_all del: bufp_upd_buf add: av_append_def Let_def upd_buf_keep)

lemma av_unlink_fields [simp]:
  "b_flags (bufp (av_unlink bp k) p) = b_flags (bufp k p)" "b_dev (bufp (av_unlink bp k) p) = b_dev (bufp k p)"
  "b_blkno (bufp (av_unlink bp k) p) = b_blkno (bufp k p)" "b_addr (bufp (av_unlink bp k) p) = b_addr (bufp k p)"
  "b_forw (bufp (av_unlink bp k) p) = b_forw (bufp k p)" "b_back (bufp (av_unlink bp k) p) = b_back (bufp k p)"
  "b_error (bufp (av_unlink bp k) p) = b_error (bufp k p)"
  by (simp_all del: bufp_upd_buf add: av_unlink_def Let_def upd_buf_keep)

lemma lists_ok_append:
  assumes "lists_ok dv k fl ch" "i < NBUF" "i \<notin> set fl"
  shows "lists_ok dv (av_append (Buf i) k) (fl @ [i]) ch"
proof -
  have "av_ring k fl" "Buf i \<notin> set (FreeHd # map Buf fl)" using assms by (auto simp: lists_ok_def)
  from av.append_ring(1) [OF this] have "av_ring (av_append (Buf i) k) (fl @ [i])"
    by (simp add: av_append_def Let_def)
  with assms show ?thesis by (simp add: lists_ok_def)
qed

lemma lists_ok_unlink:
  assumes "lists_ok dv k (xs @ i # ys) ch"
  shows "lists_ok dv (av_unlink (Buf i) k) (xs @ ys) ch"
proof -
  have "av_ring k (xs @ i # ys)" using assms by (auto simp: lists_ok_def)
  then have "ring (\<lambda>p. av_forw (bufp k p)) (\<lambda>p. av_back (bufp k p)) FreeHd (map Buf xs @ Buf i # map Buf ys)"
    by simp
  from av.unlink_ring(1) [OF this] have "av_ring (av_unlink (Buf i) k) (xs @ ys)"
    by (simp add: av_unlink_def Let_def)
  with assms show ?thesis by (simp add: lists_ok_def)
qed

definition dc_unlink :: "bptr \<Rightarrow> kernel \<Rightarrow> kernel" where
  "dc_unlink bp k =
     (let k1 = upd_buf (b_back (bufp k bp)) (\<lambda>b. b\<lparr>b_forw := b_forw (bufp k bp)\<rparr>) k
      in upd_buf (b_forw (bufp k1 bp)) (\<lambda>b. b\<lparr>b_back := b_back (bufp k1 bp)\<rparr>) k1)"

definition dc_push :: "bptr \<Rightarrow> bptr \<Rightarrow> kernel \<Rightarrow> kernel" where
  "dc_push dp bp k =
     (let k3 = upd_buf bp (\<lambda>b. b\<lparr>b_forw := b_forw (bufp k dp)\<rparr>) k;
          k4 = upd_buf bp (\<lambda>b. b\<lparr>b_back := dp\<rparr>) k3;
          k5 = upd_buf (b_forw (bufp k4 dp)) (\<lambda>b. b\<lparr>b_back := bp\<rparr>) k4
      in upd_buf dp (\<lambda>b. b\<lparr>b_forw := bp\<rparr>) k5)"

lemma rechain_fields [simp]:
  "b_flags (bufp (rechain dev bp k) p) = b_flags (bufp k p)" "b_dev (bufp (rechain dev bp k) p) = b_dev (bufp k p)"
  "b_blkno (bufp (rechain dev bp k) p) = b_blkno (bufp k p)" "b_addr (bufp (rechain dev bp k) p) = b_addr (bufp k p)"
  "av_forw (bufp (rechain dev bp k) p) = av_forw (bufp k p)" "av_back (bufp (rechain dev bp k) p) = av_back (bufp k p)"
  "b_error (bufp (rechain dev bp k) p) = b_error (bufp k p)"
  unfolding rechain_def Let_def by (cases "dev = NODEV"; simp del: bufp_upd_buf add: upd_buf_keep)+

lemma rechain_split: "dev \<noteq> NODEV \<Longrightarrow> rechain dev bp k = dc_push (DevTab (major dev)) bp (dc_unlink bp k)"
  by (simp add: rechain_def dc_unlink_def dc_push_def Let_def)

lemma dc_unlink_av [simp]:
  "av_forw (bufp (dc_unlink bp k) p) = av_forw (bufp k p)" "av_back (bufp (dc_unlink bp k) p) = av_back (bufp k p)"
  by (simp_all add: dc_unlink_def Let_def)

lemma lists_ok_dc_unlink:
  assumes ok: "lists_ok dv k fl ch" and i: "i < NBUF"
  shows "dev_ring (dc_unlink (Buf i) k) (DevTab (major dv)) (remove1 i ch)
    \<and> (\<forall>j<NBUF. j \<noteq> i \<and> j \<notin> set ch \<longrightarrow> b_forw (bufp (dc_unlink (Buf i) k) (Buf j)) = Buf j
         \<and> b_back (bufp (dc_unlink (Buf i) k) (Buf j)) = Buf j)"
proof (cases "i \<in> set ch")
  case True
  then obtain xs ys where c: "ch = xs @ i # ys" "i \<notin> set xs" by (meson split_list_first)
  let ?h = "DevTab (major dv)"
  have r: "ring (\<lambda>p. b_forw (bufp k p)) (\<lambda>p. b_back (bufp k p)) ?h (map Buf xs @ Buf i # map Buf ys)"
    using ok c by (simp add: lists_ok_def)
  note u = dc.unlink_ring [OF r] and np = ring_nx_pv [OF r]
  have eq: "dc_unlink (Buf i) k = upd_buf (b_forw (bufp (upd_buf (b_back (bufp k (Buf i))) (\<lambda>b. b\<lparr>b_forw := b_forw (bufp k (Buf i))\<rparr>) k) (Buf i)))
    (\<lambda>b. b\<lparr>b_back := b_back (bufp (upd_buf (b_back (bufp k (Buf i))) (\<lambda>b. b\<lparr>b_forw := b_forw (bufp k (Buf i))\<rparr>) k) (Buf i))\<rparr>)
    (upd_buf (b_back (bufp k (Buf i))) (\<lambda>b. b\<lparr>b_forw := b_forw (bufp k (Buf i))\<rparr>) k)"
    by (simp only: dc_unlink_def Let_def)
  have "dev_ring (dc_unlink (Buf i) k) ?h (remove1 i ch)"
    using u(1) c by (simp only: eq) (simp add: remove1_append)
  moreover have "b_forw (bufp (dc_unlink (Buf i) k) (Buf j)) = Buf j \<and> b_back (bufp (dc_unlink (Buf i) k) (Buf j)) = Buf j"
    if j: "j < NBUF" "j \<notin> set ch" for j
  proof -
    have "last (?h # map Buf xs) \<in> set (?h # map Buf xs)" "hd (map Buf ys @ [?h]) \<in> set (map Buf ys @ [?h])"
      by (rule last_in_set hd_in_set, simp)+
    then have "b_back (bufp k (Buf i)) \<noteq> Buf j" "b_forw (bufp k (Buf i)) \<noteq> Buf j"
      using np(1,2) j c by auto
    moreover have "b_forw (bufp k (Buf j)) = Buf j" "b_back (bufp k (Buf j)) = Buf j"
      using ok j by (auto simp: lists_ok_def)
    ultimately show ?thesis
      using fun_cong [OF u(2), of "Buf j"] fun_cong [OF u(3), of "Buf j"] by (simp only: eq) simp
  qed
  ultimately show ?thesis by blast
next
  case False
  then have l: "b_forw (bufp k (Buf i)) = Buf i" "b_back (bufp k (Buf i)) = Buf i"
    using ok i by (auto simp: lists_ok_def)
  have f: "b_forw (bufp (dc_unlink (Buf i) k) p) = b_forw (bufp k p)"
    "b_back (bufp (dc_unlink (Buf i) k) p) = b_back (bufp k p)" for p
    by (auto simp: dc_unlink_def Let_def l)
  show ?thesis using ok False by (simp add: f lists_ok_def remove1_idem)
qed

lemma lists_ok_rechain:
  assumes ok: "lists_ok dv k fl ch" and i: "i < NBUF" and dv: "dv \<noteq> NODEV"
  shows "lists_ok dv (rechain dv (Buf i) k) fl (i # remove1 i ch)"
proof -
  let ?h = "DevTab (major dv)" and ?k = "dc_unlink (Buf i) k"
  have d: "distinct ch" using ok by (simp add: lists_ok_def ring_def distinct_map)
  note u = lists_ok_dc_unlink [OF ok i]
  have "Buf i \<notin> set (?h # map Buf (remove1 i ch))" using d by auto
  note p = dc.push_ring [OF conjunct1 [OF u] this]
  have eq: "rechain dv (Buf i) k = upd_buf ?h (\<lambda>b. b\<lparr>b_forw := Buf i\<rparr>)
      (upd_buf (b_forw (bufp (upd_buf (Buf i) (\<lambda>b. b\<lparr>b_back := ?h\<rparr>) (upd_buf (Buf i) (\<lambda>b. b\<lparr>b_forw := b_forw (bufp ?k ?h)\<rparr>) ?k)) ?h))
        (\<lambda>b. b\<lparr>b_back := Buf i\<rparr>)
        (upd_buf (Buf i) (\<lambda>b. b\<lparr>b_back := ?h\<rparr>) (upd_buf (Buf i) (\<lambda>b. b\<lparr>b_forw := b_forw (bufp ?k ?h)\<rparr>) ?k)))"
    by (simp only: rechain_split [OF dv] dc_push_def Let_def)
  have r: "dev_ring (rechain dv (Buf i) k) ?h (i # remove1 i ch)"
    using p(1) by (simp only: eq) simp
  have "b_forw (bufp (rechain dv (Buf i) k) (Buf j)) = Buf j \<and> b_back (bufp (rechain dv (Buf i) k) (Buf j)) = Buf j"
    if j: "j < NBUF" "j \<noteq> i" "j \<notin> set (remove1 i ch)" for j
  proof -
    have "j \<notin> set ch" using j by simp
    with u j have l: "b_forw (bufp ?k (Buf j)) = Buf j" "b_back (bufp ?k (Buf j)) = Buf j" by auto
    have "b_forw (bufp ?k ?h) = hd (map Buf (remove1 i ch) @ [?h])"
      using u by (cases "remove1 i ch") (auto simp: ring_def)
    then have "b_forw (bufp ?k ?h) \<noteq> Buf j"
      using j(3) hd_in_set [of "map Buf (remove1 i ch) @ [?h]"] by auto
    with l j show ?thesis
      using fun_cong [OF p(2), of "Buf j"] fun_cong [OF p(3), of "Buf j"] by (simp only: eq) simp
  qed
  then have self: "\<forall>j<NBUF. j \<notin> set (i # remove1 i ch) \<longrightarrow>
      b_forw (bufp (rechain dv (Buf i) k) (Buf j)) = Buf j \<and> b_back (bufp (rechain dv (Buf i) k) (Buf j)) = Buf j"
    by auto
  have "set (remove1 i ch) \<subseteq> {..<NBUF}" using ok set_remove1_subset [of i ch] by (auto simp: lists_ok_def)
  then show ?thesis
    using ok i r self unfolding lists_ok_def by (simp add: rechain_fields)
qed

subsection \<open>brelse and notavail\<close>

lemma wakeup_cache [simp]:
  "lists_ok dv (wakeup c k) fl ch = lists_ok dv k fl ch" "data_ok dv (wakeup c k) fl ch = data_ok dv k fl ch"
  "dev_ok dv (wakeup c k) = dev_ok dv k" "content dv (wakeup c k) = content dv k" "disk (wakeup c k) = disk k"
  by (rule bio_cong, simp)+

definition marks :: "bptr \<Rightarrow> kernel \<Rightarrow> kernel" where
  "marks bp k =
     (let k1 = (if flagged k bp B_WANTED then wakeup (ChBuf bp) k else k);
          k2 = (if flagged k1 FreeHd B_WANTED
                then wakeup (ChBuf FreeHd) (upd_buf FreeHd (clear_flags B_WANTED) k1) else k1);
          k3 = (if flagged k2 bp B_ERROR then upd_buf bp (\<lambda>b. b\<lparr>b_dev := NODEV\<rparr>) k2 else k2)
      in upd_buf bp (clear_flags (B_WANTED OR B_BUSY OR B_ASYNC)) k3)"

lemma brelse_marks: "brelse bp k = av_append bp (marks bp k)"
  by (simp add: brelse_def marks_def Let_def)

lemma clear_flags_fields [simp]:
  "b_flags (clear_flags m b) = b_flags b AND NOT m" "b_dev (clear_flags m b) = b_dev b"
  "b_blkno (clear_flags m b) = b_blkno b" "b_addr (clear_flags m b) = b_addr b" "b_error (clear_flags m b) = b_error b"
  "b_forw (clear_flags m b) = b_forw b" "b_back (clear_flags m b) = b_back b"
  "av_forw (clear_flags m b) = av_forw b" "av_back (clear_flags m b) = av_back b" "b_wcount (clear_flags m b) = b_wcount b"
  by (simp_all add: clear_flags_def)

lemma set_flags_fields [simp]:
  "b_flags (set_flags m b) = b_flags b OR m" "b_dev (set_flags m b) = b_dev b"
  "b_blkno (set_flags m b) = b_blkno b" "b_addr (set_flags m b) = b_addr b" "b_error (set_flags m b) = b_error b"
  "b_forw (set_flags m b) = b_forw b" "b_back (set_flags m b) = b_back b"
  "av_forw (set_flags m b) = av_forw b" "av_back (set_flags m b) = av_back b" "b_wcount (set_flags m b) = b_wcount b"
  by (simp_all add: set_flags_def)

lemma marks_frame [simp]:
  "lists_ok dv (marks bp k) fl ch = lists_ok dv k fl ch" "dev_ok dv (marks bp k) = dev_ok dv k"
  "disk (marks bp k) = disk k"
  by (simp_all add: marks_def Let_def lists_ok_upd)

lemma marks_buf:
  "bufp (marks (Buf i) k) (Buf j) = (if j = i
     then clear_flags (B_WANTED OR B_BUSY OR B_ASYNC)
       (if bflag k i B_ERROR then (bufp k (Buf i))\<lparr>b_dev := NODEV\<rparr> else bufp k (Buf i))
     else bufp k (Buf j))"
  by (simp add: marks_def Let_def)

lemma append_cache [simp]:
  "dev_ok dv (av_append bp k) = dev_ok dv k" "disk (av_append bp k) = disk k"
  "dev_ok dv (av_unlink bp k) = dev_ok dv k" "disk (av_unlink bp k) = disk k"
  by (simp_all add: av_append_def av_unlink_def Let_def)

lemma same_buf_append [simp]: "same_buf k (av_append bp k) j" "same_buf k (av_unlink bp k) j"
  by (simp_all add: same_buf_def)

lemma brelse_buf:
  "j \<noteq> i \<Longrightarrow> same_buf k (brelse (Buf i) k) j"
  "bflag (brelse (Buf i) k) i B_DONE = bflag k i B_DONE"
  "bflag (brelse (Buf i) k) i B_DELWRI = bflag k i B_DELWRI"
  "bflag (brelse (Buf i) k) i B_ERROR = bflag k i B_ERROR"
  "\<not> bflag (brelse (Buf i) k) i B_BUSY" "\<not> bflag (brelse (Buf i) k) i B_ASYNC"
  "b_dev (bufp (brelse (Buf i) k) (Buf i)) = (if bflag k i B_ERROR then NODEV else b_dev (bufp k (Buf i)))"
  "b_blkno (bufp (brelse (Buf i) k) (Buf i)) = b_blkno (bufp k (Buf i))"
  "b_addr (bufp (brelse (Buf i) k) (Buf i)) = b_addr (bufp k (Buf i))"
  by (simp_all add: brelse_marks marks_buf same_buf_def hasf_mask)

lemma brelse_inv:
  assumes inv: "cache_inv dv k fl ch" and i: "i < NBUF" "i \<notin> set fl"
    and rel: "clean dv k i"
  shows "cache_inv dv (brelse (Buf i) k) (fl @ [i]) ch"
    and "in_range bn \<Longrightarrow> content dv (brelse (Buf i) k) bn = content dv k bn"
proof -
  let ?k = "brelse (Buf i) k"
  have ok: "lists_ok dv k fl ch" "data_ok dv k fl ch" "dev_ok dv k" using inv by (auto simp: cache_inv_def)
  have dirty: "dirty_ok dv k i" using ok(2) i by (simp add: data_ok_def)
  note b = brelse_buf [where i = i and k = k]
  have nodev: "dv \<noteq> NODEV" using ok(3) by (simp add: dev_ok_def)
  have disk: "disk ?k = disk k" by (simp add: brelse_marks)
  have data: "data_ok dv ?k (fl @ [i]) ch"
  proof (rule data_ok_change [OF ok(2) i(1) b(1) disk])
    show "set (fl @ [i]) - {i} = set fl - {i}" "set (fl @ [i]) \<subseteq> {..<NBUF}"
      using i ok(1) by (auto simp: lists_ok_def)
    show "b_dev (bufp ?k (Buf i)) = NODEV \<or> b_dev (bufp ?k (Buf i)) = dv \<and> i \<in> set ch"
      using ok(2) i by (simp add: b data_ok_def)
    show "\<not> holds dv k j bn" if "j < NBUF" "j \<noteq> i" "holds dv ?k i bn" for j bn
      using that ok(2) i nodev unfolding data_ok_def holds_def by (auto simp: b split: if_splits)
    show "dirty_ok dv ?k i" using dirty nodev by (auto simp: dirty_ok_def b Let_def)
    show "clean dv ?k i" using rel nodev by (auto simp: clean_def b Let_def disk)
  qed (simp_all add: b)
  have "lists_ok dv ?k (fl @ [i]) ch"
    using lists_ok_append [OF _ i, of dv "marks (Buf i) k" ch] ok(1) by (simp add: brelse_marks)
  moreover have "dev_ok dv ?k" using ok(3) by (simp add: brelse_marks)
  ultimately show "cache_inv dv ?k (fl @ [i]) ch" using data by (simp add: cache_inv_def)
  show "content dv ?k bn = content dv k bn" if r: "in_range bn"
  proof (rule content_change [OF ok(2) data i(1) b(1)])
    show "disk ?k bn = disk k bn" by (simp add: disk)
    show "content dv k bn = clip (b_addr (bufp ?k (Buf i)))" if "holds dv ?k i bn" "bflag ?k i B_DONE"
      using that content_cached [OF ok(2) i(1), of bn] nodev by (auto simp: b holds_def split: if_splits)
    show "clip (b_addr (bufp k (Buf i))) = clip (disk k bn)"
      if "holds dv k i bn" "bflag k i B_DONE" "\<not> (holds dv ?k i bn \<and> bflag ?k i B_DONE)"
      using that r dirty by (auto simp: b holds_def dirty_ok_def Let_def split: if_splits)
  qed
qed

lemma notavail_buf:
  "j \<noteq> i \<Longrightarrow> same_buf k (notavail (Buf i) k) j"
  "b_flags (bufp (notavail (Buf i) k) (Buf i)) = b_flags (bufp k (Buf i)) OR B_BUSY"
  "b_dev (bufp (notavail (Buf i) k) (Buf j)) = b_dev (bufp k (Buf j))"
  "b_blkno (bufp (notavail (Buf i) k) (Buf j)) = b_blkno (bufp k (Buf j))"
  "b_addr (bufp (notavail (Buf i) k) (Buf j)) = b_addr (bufp k (Buf j))"
  by (simp_all add: notavail_def same_buf_def)

lemma notavail_inv:
  assumes inv: "cache_inv dv k (xs @ i # ys) ch"
  shows "cache_inv dv (notavail (Buf i) k) (xs @ ys) ch"
    and "content dv (notavail (Buf i) k) bn = content dv k bn"
    and "disk (notavail (Buf i) k) = disk k"
    and "bflag (notavail (Buf i) k) i B_BUSY"
    and "m AND B_BUSY = 0 \<Longrightarrow> bflag (notavail (Buf i) k) i m = bflag k i m"
proof -
  let ?k = "notavail (Buf i) k"
  have ok: "lists_ok dv k (xs @ i # ys) ch" "data_ok dv k (xs @ i # ys) ch" "dev_ok dv k"
    using inv by (auto simp: cache_inv_def)
  have i: "i < NBUF" and d: "distinct (xs @ i # ys)" using ok(1) by (auto simp: lists_ok_def ring_def distinct_map)
  note b = notavail_buf [where i = i and k = k]
  show disk: "disk ?k = disk k" by (simp add: notavail_def)
  show busy: "bflag ?k i B_BUSY" by (simp add: b hasf_or) (simp add: hasf_def)
  show fl: "bflag ?k i m = bflag k i m" if "m AND B_BUSY = 0" for m
    using that by (auto simp: b hasf_or) (simp add: hasf_def and.commute)
  have fl': "bflag ?k i B_DONE = bflag k i B_DONE" "bflag ?k i B_DELWRI = bflag k i B_DELWRI"
    "bflag ?k i B_ERROR = bflag k i B_ERROR" by (simp_all add: fl)
  have h: "holds dv ?k i bn = holds dv k i bn" for bn by (simp add: holds_def b)
  have data: "data_ok dv ?k (xs @ ys) ch"
  proof (rule data_ok_change [OF ok(2) i b(1) disk])
    show "set (xs @ ys) - {i} = set (xs @ i # ys) - {i}" "set (xs @ ys) \<subseteq> {..<NBUF}"
      using ok(1) by (auto simp: lists_ok_def)
    show "i \<in> set (xs @ ys) \<longleftrightarrow> \<not> bflag ?k i B_BUSY" using d busy by simp
    then show "clean dv ?k i" "\<not> bflag ?k i B_ASYNC" if "i \<in> set (xs @ ys)" using that busy by simp_all
    show "b_dev (bufp ?k (Buf i)) = NODEV \<or> b_dev (bufp ?k (Buf i)) = dv \<and> i \<in> set ch"
      using ok(2) i by (simp add: b data_ok_def)
    show "\<not> holds dv k j bn" if "j < NBUF" "j \<noteq> i" "holds dv ?k i bn" for j bn
      using that ok(2) i h unfolding data_ok_def by metis
    show "dirty_ok dv ?k i"
      using ok(2) i unfolding data_ok_def dirty_ok_def Let_def fl' b(3,4) by blast
  qed simp_all
  have "lists_ok dv ?k (xs @ ys) ch"
    using lists_ok_unlink [OF ok(1)] by (simp add: notavail_def lists_ok_upd)
  with data ok(3) show "cache_inv dv ?k (xs @ ys) ch" by (simp add: cache_inv_def notavail_def)
  show "content dv ?k bn = content dv k bn"
  proof (rule content_change [OF ok(2) data i b(1)])
    show "disk ?k bn = disk k bn" by (simp add: disk)
    show "content dv k bn = clip (b_addr (bufp ?k (Buf i)))" if "holds dv ?k i bn" "bflag ?k i B_DONE"
      using that content_cached [OF ok(2) i, of bn] unfolding h fl' b(5) by simp
    show "clip (b_addr (bufp k (Buf i))) = clip (disk k bn)"
      if "holds dv k i bn" "bflag k i B_DONE" "\<not> (holds dv ?k i bn \<and> bflag ?k i B_DONE)"
      using that unfolding h fl' by simp
  qed
qed

subsection \<open>Updating a busy buffer and the disk\<close>

definition keeps_identity :: "(buf \<Rightarrow> buf) \<Rightarrow> bool" where
  "keeps_identity g \<longleftrightarrow> (\<forall>b. av_forw (g b) = av_forw b \<and> av_back (g b) = av_back b \<and> b_forw (g b) = b_forw b
     \<and> b_back (g b) = b_back b \<and> b_dev (g b) = b_dev b \<and> b_blkno (g b) = b_blkno b)"

lemma upd_busy_inv:
  assumes inv: "cache_inv dv k fl ch" and i: "i < NBUF" "i \<notin> set fl" and g: "keeps_identity g"
    and busy: "hasf (b_flags (g (bufp k (Buf i)))) B_BUSY" and dirty: "dirty_ok dv (upd_buf (Buf i) g k) i"
  shows "cache_inv dv (upd_buf (Buf i) g k) fl ch"
    and "content dv (upd_buf (Buf i) g k) bn =
      (if holds dv k i bn then clip (if hasf (b_flags (g (bufp k (Buf i)))) B_DONE
           then b_addr (g (bufp k (Buf i))) else disk k bn)
       else content dv k bn)"
proof -
  let ?k = "upd_buf (Buf i) g k"
  have ok: "lists_ok dv k fl ch" "data_ok dv k fl ch" "dev_ok dv k" using inv by (auto simp: cache_inv_def)
  have same: "same_buf k ?k j" if "j \<noteq> i" for j using that by (simp add: same_buf_def)
  have h: "holds dv ?k i bn = holds dv k i bn" for bn using g by (simp add: holds_def keeps_identity_def)
  have data: "data_ok dv ?k fl ch"
  proof (rule data_ok_change [OF ok(2) i(1) same])
    show "b_dev (bufp ?k (Buf i)) = NODEV \<or> b_dev (bufp ?k (Buf i)) = dv \<and> i \<in> set ch"
      using ok(2) i g by (simp add: data_ok_def keeps_identity_def)
    show "\<not> holds dv k j bn" if "j < NBUF" "j \<noteq> i" "holds dv ?k i bn" for j bn
      using that ok(2) i h unfolding data_ok_def by metis
  qed (use ok i busy dirty in \<open>auto simp: lists_ok_def\<close>)
  have "lists_ok dv ?k fl ch" using ok(1) g by (simp add: lists_ok_upd keeps_identity_def)
  with data ok(3) show inv': "cache_inv dv ?k fl ch" by (simp add: cache_inv_def)
  show "content dv ?k bn = (if holds dv k i bn then clip (if hasf (b_flags (g (bufp k (Buf i)))) B_DONE
           then b_addr (g (bufp k (Buf i))) else disk k bn)
       else content dv k bn)"
  proof (cases "holds dv k i bn")
    case False
    then show ?thesis
      using content_change [OF ok(2) data i(1) same, of bn] h by simp
  next
    case True
    have other: "\<not> holds dv ?k j bn" if "j < NBUF" "j \<noteq> i" for j
      using that True same_buf_facts(2) [OF same [OF that(2)]] ok(2) i unfolding data_ok_def by metis
    show ?thesis
    proof (cases "bflag ?k i B_DONE")
      case yes: True
      with content_cached [OF data i(1), of bn] True h show ?thesis by simp
    next
      case no: False
      have "content dv ?k bn = clip (disk ?k bn)"
        by (rule content_disk) (use other no in metis)
      with no True show ?thesis by simp
    qed
  qed
qed

lemma upd_disk_sel [simp]:
  "bufp (upd_disk f k) = bufp k" "bdevsw (k_bio (upd_disk f k)) = bdevsw (k_bio k)"
  "nblkdev (k_bio (upd_disk f k)) = nblkdev (k_bio k)" "ramdisk (k_bio (upd_disk f k)) = f (ramdisk (k_bio k))"
  by (simp_all add: upd_disk_def bufp_def fun_eq_iff)

lemma in_range_inj: "in_range a \<Longrightarrow> in_range b \<Longrightarrow> nat (sint a) = nat (sint b) \<longleftrightarrow> a = b"
proof
  assume "in_range a" "in_range b" "nat (sint a) = nat (sint b)"
  then have "sint a = sint b" by (simp add: in_range_def eq_nat_nat_iff)
  then show "a = b" by (rule signed_word_eqI)
qed simp

lemma dev_ok_upd_disk [simp]: "dev_ok dv (upd_disk f k) = dev_ok dv k"
  unfolding dev_ok_def bdev_def upd_disk_sel ..

lemma disk_write:
  assumes "in_range bn" "in_range b"
  shows "clip (disk (upd_disk (rd_write (nat (sint bn)) BSIZE d) k) b) = (if b = bn then clip d else clip (disk k b))"
proof (cases "b = bn")
  case True
  then show ?thesis by (auto simp: clip_def disk_def rd_write_def fun_eq_iff)
next
  case False
  then have "nat (sint b) \<noteq> nat (sint bn)" using in_range_inj assms by blast
  then have "\<not> (nat (sint bn) \<le> nat (sint b) \<and> (nat (sint b) - nat (sint bn)) * BSIZE + i < BSIZE)" for i
    by (cases "nat (sint bn) < nat (sint b)") auto
  then have "disk (upd_disk (rd_write (nat (sint bn)) BSIZE d) k) b = disk k b"
    unfolding disk_def upd_disk_sel rd_write_def fun_eq_iff by metis
  with False show ?thesis by simp
qed

lemma disk_write_inv:
  fixes d :: block
  assumes inv: "cache_inv dv k fl ch" and i: "i < NBUF" "i \<notin> set fl" "holds dv k i bn" "in_range bn"
  defines "k' \<equiv> upd_disk (rd_write (nat (sint bn)) BSIZE d) k"
  shows "cache_inv dv k' fl ch"
    and "in_range b \<Longrightarrow> content dv k' b = (if b = bn \<and> \<not> bflag k i B_DONE then clip d else content dv k b)"
proof -
  have ok: "lists_ok dv k fl ch" "data_ok dv k fl ch" "dev_ok dv k" using inv by (auto simp: cache_inv_def)
  have b: "bufp k' = bufp k" by (simp add: k'_def)
  have h: "holds dv k' = holds dv k" by (simp add: holds_def b fun_eq_iff)
  note dw = disk_write [OF i(4), where d = d and k = k, folded k'_def]
  have "lists_ok dv k' fl ch" using ok(1) by (simp add: lists_ok_def b)
  moreover have "dev_ok dv k'" using ok(3) by (simp add: k'_def)
  moreover have data: "data_ok dv k' fl ch"
  proof -
    have "clean dv k' j" if j: "j \<in> set fl" for j
    proof -
      have "j < NBUF" "j \<noteq> i" using j i ok(1) by (auto simp: lists_ok_def)
      then have "\<not> holds dv k j bn" using i ok(2) unfolding data_ok_def by metis
      then have "b_dev (bufp k (Buf j)) = dv \<Longrightarrow> b_blkno (bufp k (Buf j)) \<noteq> bn" by (simp add: holds_def)
      then show ?thesis
        using ok(2) j by (auto simp: data_ok_def clean_def b Let_def dw)
    qed
    then show ?thesis using ok(2) by (simp add: data_ok_def b h dirty_ok_def)
  qed
  ultimately show "cache_inv dv k' fl ch" by (simp add: cache_inv_def)
  show "content dv k' b = (if b = bn \<and> \<not> bflag k i B_DONE then clip d else content dv k b)" if r: "in_range b"
    using ok(2)
  proof (cases rule: content_cases [where bn = b])
    case (cached j)
    then have "content dv k' b = content dv k b"
      using content_cached [OF data cached(1), of b] by (simp add: h b)
    moreover have "\<not> (b = bn \<and> \<not> bflag k i B_DONE)"
      using cached i ok(2) unfolding data_ok_def by metis
    ultimately show ?thesis by auto
  next
    case disk
    then have "content dv k' b = clip (disk k' b)" by (intro content_disk) (simp add: h b)
    moreover have "b = bn \<Longrightarrow> \<not> bflag k i B_DONE" using disk(1) [OF i(1)] i(3) by simp
    ultimately show ?thesis using disk dw [OF r] by auto
  qed
qed

subsection \<open>What the cache leaves alone\<close>

definition bio_frame :: "kernel \<Rightarrow> kernel \<Rightarrow> bool" where
  "bio_frame k k' \<longleftrightarrow> k_u k' = k_u k \<and> k_uarea k' = k_uarea k \<and> k_fs k' = k_fs k \<and> k_file k' = k_file k
     \<and> k_text k' = k_text k \<and> k_clk k' = k_clk k \<and> k_ipc k' = k_ipc k \<and> coremap k' = coremap k
     \<and> execnt k' = execnt k \<and> maxmem k' = maxmem k \<and> phys k' = phys k \<and> klocal k' = klocal k
     \<and> gdt3 k' = gdt3 k \<and> gdt4 k' = gdt4 k \<and> images (k_sch k') = images (k_sch k)"

lemma bio_frame_refl [simp]: "bio_frame k k"
  by (simp add: bio_frame_def)

lemma bio_frame_trans [trans]: "bio_frame k k' \<Longrightarrow> bio_frame k' k'' \<Longrightarrow> bio_frame k k''"
  by (simp add: bio_frame_def)

lemma bio_frame_ops [simp]:
  "bio_frame k (upd_buf bp g k')  = bio_frame k k'" "bio_frame k (wakeup c k') = bio_frame k k'"
  "bio_frame k (upd_disk f k') = bio_frame k k'" "bio_frame k (av_append bp k') = bio_frame k k'"
  "bio_frame k (av_unlink bp k') = bio_frame k k'"
  by (simp_all add: bio_frame_def upd_disk_def av_append_def av_unlink_def Let_def)

lemma bio_frame_brelse [simp]: "bio_frame k (brelse bp k') = bio_frame k k'"
  by (simp add: brelse_def Let_def)

lemma bio_frame_notavail [simp]: "bio_frame k (notavail bp k') = bio_frame k k'"
  by (simp add: notavail_def)

lemma bio_frame_rechain [simp]: "bio_frame k (rechain dev bp k') = bio_frame k k'"
  by (simp add: rechain_def Let_def)

lemma bio_frame_reassign [simp]: "bio_frame k (reassign dev bn bp k') = bio_frame k k'"
  by (simp add: reassign_def)

subsection \<open>Writing\<close>

definition after_write :: "bptr \<Rightarrow> kernel \<Rightarrow> kernel" where
  "after_write bp k =
     (let k1 = upd_buf bp (\<lambda>b. (clear_flags (B_READ OR B_DONE OR B_ERROR OR B_DELWRI) b)\<lparr>b_wcount := - 256\<rparr>) k;
          b = bufp k1 bp;
          k2 = upd_disk (rd_write (nat (sint (b_blkno b))) BSIZE (b_addr b)) k1
      in upd_buf bp (set_flags B_DONE) (upd_buf bp (\<lambda>b. b\<lparr>b_resid := 0\<rparr>) k2))"

lemma after_write_buf:
  "bufp (after_write bp k) bp = (bufp k bp)\<lparr>b_flags := (b_flags (bufp k bp) AND NOT 519) OR B_DONE,
     b_wcount := - 256, b_resid := 0\<rparr>"
  "bq \<noteq> bp \<Longrightarrow> bufp (after_write bp k) bq = bufp k bq"
  by (simp_all add: after_write_def Let_def set_flags_def clear_flags_def)

lemma rd_count_block: "b_wcount b = - 256 \<Longrightarrow> in_range (b_blkno b) \<Longrightarrow> rd_count b = 512"
  by (simp add: rd_count_def in_range_def)

lemma bwrite_run:
  fixes i k
  defines "bp \<equiv> Buf i"
  assumes dev: "dev_ok dv k" "b_dev (bufp k bp) = dv" and r: "in_range (b_blkno (bufp k bp))"
  shows "bwrite bp k = Ret () (if flagged k bp B_ASYNC then brelse bp (after_write bp k)
    else brelse bp (wakeup (ChBuf bp) (upd_buf bp (clear_flags B_WANTED) (after_write bp k))))"
proof -
  define k1 where "k1 = upd_buf bp (\<lambda>b. (clear_flags (B_READ OR B_DONE OR B_ERROR OR B_DELWRI) b)\<lparr>b_wcount := - 256\<rparr>) k"
  have f: "\<not> flagged k1 bp B_READ" "flagged k1 bp B_ASYNC = flagged k bp B_ASYNC"
    by (simp_all add: hasf_mask k1_def)
  have rg: "0 \<le> sint (b_blkno (bufp k bp))" "sint (b_blkno (bufp k bp)) < 16384"
    using r by (auto simp: in_range_def)
  have b1: "b_blkno (bufp k1 bp) = b_blkno (bufp k bp)" "b_addr (bufp k1 bp) = b_addr (bufp k bp)"
    "b_wcount (bufp k1 bp) = - 256" "b_dev (bufp k1 bp) = b_dev (bufp k bp)"
    by (simp_all add: k1_def)
  have aw: "after_write bp k = upd_buf bp (set_flags B_DONE) (upd_buf bp (\<lambda>b. b\<lparr>b_resid := 0\<rparr>)
      (upd_disk (rd_write (nat (sint (b_blkno (bufp k bp)))) BSIZE (b_addr (bufp k bp))) k1))"
    unfolding after_write_def Let_def k1_def [symmetric] b1 ..
  have "rd_strategy bp k1 = iodone bp (upd_buf bp (\<lambda>b. b\<lparr>b_resid := 0\<rparr>)
      (upd_disk (rd_write (nat (sint (b_blkno (bufp k bp)))) BSIZE (b_addr (bufp k bp))) k1))"
    using rg f(1) rd_count_block [of "bufp k1 bp"] r by (simp add: rd_strategy_def Let_def b1)
  also have "\<dots> = (if flagged k bp B_ASYNC then brelse bp (after_write bp k)
      else wakeup (ChBuf bp) (upd_buf bp (clear_flags B_WANTED) (after_write bp k)))"
    unfolding iodone_def Let_def aw [symmetric]
    by (simp add: after_write_buf hasf_or hasf_mask) (simp add: hasf_def)
  finally have rd: "rd_strategy bp k1 = \<dots>" .
  have dv: "bdev (b_dev (bufp k1 bp)) k1 = Some \<lparr>d_strategy = RamDrv, d_tab = True\<rparr>"
    using dev by (simp add: dev_ok_def bdev_def k1_def split: if_splits)
  have ge: "\<not> flagged (after_write bp k) bp B_ERROR" "flagged (after_write bp k) bp B_DONE"
    by (simp_all add: after_write_buf hasf_or hasf_mask) (simp_all add: hasf_def)
  have dn: "iowait bp (wakeup c (upd_buf bp (clear_flags B_WANTED) (after_write bp k)))
      = Ret () (wakeup c (upd_buf bp (clear_flags B_WANTED) (after_write bp k)))" for c
    using ge by (simp add: iowait_def geterror_def hasf_mask)
  have gb: "\<not> flagged (brelse bp (after_write bp k)) bp B_ERROR"
    using ge(1) by (simp add: bp_def brelse_buf)
  show ?thesis
  proof (cases "flagged k bp B_ASYNC")
    case True
    with rd dv gb show ?thesis
      unfolding bwrite_def Let_def k1_def [symmetric]
      by (simp add: kseq_def kbind_def strategy_def geterror_def)
  next
    case False
    with rd dv dn show ?thesis
      unfolding bwrite_def Let_def k1_def [symmetric]
      by (simp add: kseq_def kbind_def strategy_def)
  qed
qed

lemma after_write_inv:
  assumes inv: "cache_inv dv k fl ch" and i: "i < NBUF" "i \<notin> set fl" "holds dv k i bn" "in_range bn"
  shows "cache_inv dv (after_write (Buf i) k) fl ch"
    and "in_range b \<Longrightarrow> content dv (after_write (Buf i) k) b
      = (if b = bn then clip (b_addr (bufp k (Buf i))) else content dv k b)"
    and "clean dv (after_write (Buf i) k) i"
proof -
  let ?g = "\<lambda>b. (clear_flags (B_READ OR B_DONE OR B_ERROR OR B_DELWRI) b)\<lparr>b_wcount := - 256\<rparr>"
  let ?r = "\<lambda>b. b\<lparr>b_resid := 0\<rparr>"
  define k1 where "k1 = upd_buf (Buf i) ?g k"
  define k2 where "k2 = upd_disk (rd_write (nat (sint bn)) BSIZE (b_addr (bufp k (Buf i)))) k1"
  define k3 where "k3 = upd_buf (Buf i) ?r k2"
  have aw: "after_write (Buf i) k = upd_buf (Buf i) (set_flags B_DONE) k3"
    using i(3) by (simp add: after_write_def Let_def k1_def k2_def k3_def holds_def)
  have busy: "bflag k i B_BUSY" using inv i by (simp add: cache_inv_def data_ok_def)
  have b1: "bufp k1 (Buf i) = ?g (bufp k (Buf i))" "\<And>j. holds dv k1 j = holds dv k j"
    by (auto simp: k1_def holds_def fun_eq_iff)
  have b2: "bufp k2 = bufp k1" by (simp add: k2_def)
  have h: "holds dv k1 i bn" "holds dv k2 i bn" "holds dv k3 i bn"
    using i(3) by (auto simp: holds_def k2_def k3_def b1(1))
  have hb: "holds dv k i b \<longleftrightarrow> b = bn" for b using i(3) by (auto simp: holds_def)
  have fl1: "bflag k1 i B_BUSY" "\<not> bflag k1 i B_DONE" "\<not> bflag k1 i B_DELWRI" "\<not> bflag k1 i B_ERROR"
    using busy by (simp_all add: b1 hasf_mask)
  have g: "keeps_identity ?g" "keeps_identity ?r" "keeps_identity (set_flags B_DONE)"
    by (simp_all add: keeps_identity_def)
  have "cache_inv dv k1 fl ch"
    unfolding k1_def using fl1 by (intro upd_busy_inv(1) [OF inv i(1,2) g(1)])
      (simp_all add: dirty_ok_def Let_def b1(1) k1_def)
  moreover have c1: "b \<noteq> bn \<Longrightarrow> content dv k1 b = content dv k b" for b
    unfolding k1_def using fl1 hb [of b] by (subst upd_busy_inv(2) [OF inv i(1,2) g(1)])
      (simp_all add: dirty_ok_def Let_def b1(1) k1_def)
  ultimately have inv2: "cache_inv dv k2 fl ch"
    and c2: "in_range b \<Longrightarrow> content dv k2 b = (if b = bn then clip (b_addr (bufp k (Buf i))) else content dv k b)" for b
    using disk_write_inv [OF _ i(1,2) h(1) i(4)] fl1(2) by (simp_all add: k2_def c1)
  have d2: "clip (disk k2 bn) = clip (b_addr (bufp k (Buf i)))"
    using disk_write [OF i(4) i(4)] by (simp add: k2_def)
  have dirty2: "dirty_ok dv (upd_buf (Buf i) f k2) i"
    if "b_flags (f (bufp k2 (Buf i))) = b_flags (bufp k2 (Buf i)) OR x" "\<not> hasf x B_DELWRI" "\<not> hasf x B_ERROR" for f x
  proof -
    have "\<not> bflag (upd_buf (Buf i) f k2) i B_DELWRI" "\<not> bflag (upd_buf (Buf i) f k2) i B_ERROR"
      using that fl1 b2 by (simp_all add: hasf_or)
    then show ?thesis by (simp add: dirty_ok_def Let_def)
  qed
  have inv3: "cache_inv dv k3 fl ch"
    unfolding k3_def using fl1 b2 dirty2 [of ?r 0] by (intro upd_busy_inv(1) [OF inv2 i(1,2) g(2)]) simp_all
  have h2: "holds dv k2 i b \<longleftrightarrow> b = bn" for b using h(2) by (auto simp: holds_def)
  have c3: "in_range b \<Longrightarrow> content dv k3 b = (if b = bn then clip (b_addr (bufp k (Buf i))) else content dv k b)" for b
    unfolding k3_def using fl1 b2 dirty2 [of ?r 0] h2 [of b] c2 [of b] d2
    by (subst upd_busy_inv(2) [OF inv2 i(1,2) g(2)]) simp_all
  have d3: "disk k3 = disk k2" by (simp add: k3_def)
  have b3: "b_flags (bufp k3 (Buf i)) = b_flags (bufp k1 (Buf i))" "b_addr (bufp k3 (Buf i)) = b_addr (bufp k (Buf i))"
    "b_blkno (bufp k3 (Buf i)) = bn"
    using h(3) by (simp_all add: k3_def b2 b1 holds_def)
  have fl4: "hasf (b_flags (set_flags B_DONE (bufp k3 (Buf i)))) B_BUSY"
    "hasf (b_flags (set_flags B_DONE (bufp k3 (Buf i)))) B_DONE"
    using fl1 by (simp_all add: b3 hasf_or) (simp_all add: hasf_def)
  have dirty4: "dirty_ok dv (upd_buf (Buf i) (set_flags B_DONE) k3) i"
    using fl1 by (simp add: dirty_ok_def Let_def b3 hasf_or) (simp add: hasf_def)
  show "cache_inv dv (after_write (Buf i) k) fl ch"
    unfolding aw by (rule upd_busy_inv(1) [OF inv3 i(1,2) g(3) fl4(1) dirty4])
  have h3: "holds dv k3 i b \<longleftrightarrow> b = bn" for b using h(3) by (auto simp: holds_def)
  show "in_range b \<Longrightarrow> content dv (after_write (Buf i) k) b
      = (if b = bn then clip (b_addr (bufp k (Buf i))) else content dv k b)"
    unfolding aw using fl4(2) h3 [of b] c3 [of b] b3
    by (subst upd_busy_inv(2) [OF inv3 i(1,2) g(3) fl4(1) dirty4]) simp
  show "clean dv (after_write (Buf i) k) i"
    unfolding aw using d2 by (simp add: clean_def Let_def b3 d3)
qed

lemma bwrite_inv:
  assumes inv: "cache_inv dv k fl ch" and i: "i < NBUF" "i \<notin> set fl" "holds dv k i bn" "in_range bn"
  shows "\<exists>k'. bwrite (Buf i) k = Ret () k' \<and> cache_inv dv k' (fl @ [i]) ch \<and> bio_frame k k'
    \<and> (\<forall>b. in_range b \<longrightarrow> content dv k' b = (if b = bn then clip (b_addr (bufp k (Buf i))) else content dv k b))
    \<and> (\<forall>j. j \<noteq> i \<longrightarrow> same_buf k k' j) \<and> \<not> bflag k' i B_DELWRI
    \<and> (\<forall>b. in_range b \<longrightarrow> clip (disk k' b) = (if b = bn then clip (b_addr (bufp k (Buf i))) else clip (disk k b)))"
proof -
  let ?a = "after_write (Buf i) k"
  define kw where "kw = (if bflag k i B_ASYNC then ?a
    else wakeup (ChBuf (Buf i)) (upd_buf (Buf i) (clear_flags B_WANTED) ?a))"
  have hb: "b_dev (bufp k (Buf i)) = dv" "b_blkno (bufp k (Buf i)) = bn" using i(3) by (auto simp: holds_def)
  have dev: "dev_ok dv k" using inv by (simp add: cache_inv_def)
  have run: "bwrite (Buf i) k = Ret () (brelse (Buf i) kw)"
    using bwrite_run [OF dev hb(1)] i(4) hb by (simp add: kw_def)
  note aw = after_write_inv [OF inv i]
  have ha: "holds dv ?a i b \<longleftrightarrow> b = bn" for b using hb by (auto simp: holds_def after_write_buf)
  have fa: "bflag ?a i B_BUSY" "bflag ?a i B_DONE" "\<not> bflag ?a i B_DELWRI" "\<not> bflag ?a i B_ERROR"
  proof -
    have "bflag k i B_BUSY" using inv i by (simp add: cache_inv_def data_ok_def)
    then show "bflag ?a i B_BUSY" by (simp add: after_write_buf hasf_or hasf_mask)
  qed (simp_all add: after_write_buf hasf_or hasf_mask, simp_all add: hasf_def)
  have g: "keeps_identity (clear_flags B_WANTED)" by (simp add: keeps_identity_def)
  have kw: "cache_inv dv kw fl ch" "clean dv kw i" "\<And>b. in_range b \<Longrightarrow> content dv kw b = content dv ?a b"
    "disk kw = disk ?a" "\<And>j. j \<noteq> i \<Longrightarrow> same_buf k kw j" "bio_frame k kw" "\<not> bflag kw i B_DELWRI"
  proof -
    let ?u = "upd_buf (Buf i) (clear_flags B_WANTED) ?a"
    have d: "dirty_ok dv ?u i" using fa by (simp add: dirty_ok_def Let_def hasf_mask)
    have b: "hasf (b_flags (clear_flags B_WANTED (bufp ?a (Buf i)))) B_BUSY"
      "hasf (b_flags (clear_flags B_WANTED (bufp ?a (Buf i)))) B_DONE"
      using fa by (simp_all add: hasf_mask)
    note u = upd_busy_inv [OF aw(1) i(1,2) g b(1) d]
    show "cache_inv dv kw fl ch"
      using aw(1) u(1) by (simp add: kw_def cache_inv_def)
    show "clean dv kw i" using aw(3) fa by (simp add: kw_def clean_def Let_def hasf_mask)
    show "content dv kw b = content dv ?a b" if "in_range b" for b
    proof -
      have "b_addr (bufp ?a (Buf i)) = b_addr (bufp k (Buf i))" by (simp add: after_write_buf)
      with b(2) show ?thesis by (simp add: kw_def u(2) ha aw(2) [OF that] aw(2) [OF i(4)])
    qed
    show "disk kw = disk ?a" by (simp add: kw_def)
    show "same_buf k kw j" if "j \<noteq> i" for j
      using that by (simp add: kw_def same_buf_def after_write_buf)
    show "bio_frame k kw" by (simp add: kw_def after_write_def Let_def)
    show "\<not> bflag kw i B_DELWRI" using fa by (simp add: kw_def hasf_mask)
  qed
  have dk: "clip (disk ?a b) = (if b = bn then clip (b_addr (bufp k (Buf i))) else clip (disk k b))"
    if "in_range b" for b
  proof -
    have "disk ?a = disk (upd_disk (rd_write (nat (sint bn)) BSIZE (b_addr (bufp k (Buf i)))) k)"
      using hb by (simp add: after_write_def Let_def disk_def fun_eq_iff)
    with disk_write [OF i(4) that] show ?thesis by simp
  qed
  note r = brelse_inv [OF kw(1) i(1,2) kw(2)]
  have s: "same_buf k (brelse (Buf i) kw) j" if "j \<noteq> i" for j
    using same_buf_trans [OF kw(5) [OF that] brelse_buf(1) [OF that]] .
  have dr: "disk (brelse (Buf i) kw) = disk kw" by (simp add: brelse_marks)
  show ?thesis
    using run r kw s dk by (intro exI [of _ "brelse (Buf i) kw"]) (simp add: aw brelse_buf dr)
qed

text \<open>The writers' contract: a delayed write is visible at once, and so is a direct one.\<close>

lemma bdwrite_inv:
  assumes inv: "cache_inv dv k fl ch" and i: "i < NBUF" "i \<notin> set fl" "holds dv k i bn" "in_range bn"
  shows "cache_inv dv (bdwrite (Buf i) k) (fl @ [i]) ch" "bio_frame k (bdwrite (Buf i) k)"
    and "in_range b \<Longrightarrow> content dv (bdwrite (Buf i) k) b
      = (if b = bn then clip (b_addr (bufp k (Buf i))) else content dv k b)"
    and "j \<noteq> i \<Longrightarrow> same_buf k (bdwrite (Buf i) k) j"
proof -
  let ?g = "set_flags (B_DELWRI OR B_DONE)" and ?u = "upd_buf (Buf i) (set_flags (B_DELWRI OR B_DONE)) k"
  have hb: "b_dev (bufp k (Buf i)) = dv" "b_blkno (bufp k (Buf i)) = bn" using i(3) by (auto simp: holds_def)
  have busy: "bflag k i B_BUSY" and nerr: "\<not> bflag k i B_ERROR"
    using inv i hb by (auto simp: cache_inv_def data_ok_def dirty_ok_def Let_def)
  have f: "hasf (b_flags (?g (bufp k (Buf i)))) B_BUSY" "hasf (b_flags (?g (bufp k (Buf i)))) B_DONE"
    "hasf (b_flags (?g (bufp k (Buf i)))) B_DELWRI" "\<not> hasf (b_flags (?g (bufp k (Buf i)))) B_ERROR"
    using busy nerr by (simp_all add: hasf_or) (simp_all add: hasf_def)
  have d: "dirty_ok dv ?u i" using f hb i(4) by (simp add: dirty_ok_def Let_def)
  have g: "keeps_identity ?g" by (simp add: keeps_identity_def)
  note u = upd_busy_inv [OF inv i(1,2) g f(1) d]
  have c: "clean dv ?u i" using f by (simp add: clean_def Let_def)
  note r = brelse_inv [OF u(1) i(1,2) c]
  show "cache_inv dv (bdwrite (Buf i) k) (fl @ [i]) ch" using r(1) by (simp add: bdwrite_def)
  show "bio_frame k (bdwrite (Buf i) k)" by (simp add: bdwrite_def)
  show "in_range b \<Longrightarrow> content dv (bdwrite (Buf i) k) b
      = (if b = bn then clip (b_addr (bufp k (Buf i))) else content dv k b)"
    using r(2) [of b] u(2) [of b] f(2) hb by (auto simp: bdwrite_def holds_def)
  show "same_buf k (bdwrite (Buf i) k) j" if "j \<noteq> i"
    unfolding bdwrite_def by (rule same_buf_trans [OF _ brelse_buf(1) [OF that]]) (use that in \<open>simp add: same_buf_def\<close>)
qed

subsection \<open>getblk\<close>

lemma reassign_buf:
  "bufp (reassign dv bn (Buf i) k) (Buf i) = (bufp (rechain dv (Buf i) (upd_buf (Buf i) (\<lambda>b. b\<lparr>b_flags := B_BUSY\<rparr>) k)) (Buf i))
     \<lparr>b_dev := dv, b_blkno := bn\<rparr>"
  "b_flags (bufp (reassign dv bn (Buf i) k) (Buf i)) = B_BUSY"
  "b_addr (bufp (reassign dv bn (Buf i) k) p) = b_addr (bufp k p)"
  "j \<noteq> i \<Longrightarrow> same_buf k (reassign dv bn (Buf i) k) j"
  by (simp_all add: reassign_def same_buf_def)

lemma rechain_bio [simp]:
  "dev_ok dv (rechain dev bp k) = dev_ok dv k" "disk (rechain dev bp k) = disk k"
  by (simp_all add: rechain_def Let_def)

lemma reassign_inv:
  assumes inv: "cache_inv dv k fl ch" and i: "i < NBUF" "i \<notin> set fl" "clean dv k i" "\<not> bflag k i B_DELWRI"
    and new: "\<And>j. j < NBUF \<Longrightarrow> \<not> holds dv k j bn"
  defines "k' \<equiv> reassign dv bn (Buf i) k"
  shows "cache_inv dv k' fl (i # remove1 i ch)" "holds dv k' i bn" "clean dv k' i" "disk k' = disk k"
    "\<not> bflag k' i B_ASYNC" "\<not> bflag k' i B_DONE"
    and "in_range b \<Longrightarrow> content dv k' b = content dv k b"
proof -
  have ok: "lists_ok dv k fl ch" "data_ok dv k fl ch" "dev_ok dv k" using inv by (auto simp: cache_inv_def)
  note rb = reassign_buf [where dv = dv and bn = bn and i = i and k = k, folded k'_def]
  have b: "b_dev (bufp k' (Buf i)) = dv" "b_blkno (bufp k' (Buf i)) = bn" by (simp_all add: rb(1))
  then show h: "holds dv k' i bn" by (simp add: holds_def)
  show disk: "disk k' = disk k" by (simp add: k'_def reassign_def)
  show fl: "\<not> bflag k' i B_ASYNC" "\<not> bflag k' i B_DONE" by (simp_all add: rb(2)) (simp_all add: hasf_def)
  have fl': "bflag k' i B_BUSY" "\<not> bflag k' i B_DELWRI" "\<not> bflag k' i B_ERROR"
    by (simp_all add: rb(2)) (simp_all add: hasf_def)
  show "clean dv k' i" using fl by (simp add: clean_def Let_def)
  have data: "data_ok dv k' fl (i # remove1 i ch)"
  proof (rule data_ok_change [OF ok(2) i(1) rb(4) disk])
    show "\<not> holds dv k j b" if "j < NBUF" "j \<noteq> i" "holds dv k' i b" for j b
      using that new [of j] b by (simp add: holds_def)
    show "dirty_ok dv k' i" using fl' by (simp add: dirty_ok_def Let_def)
    show "set ch \<subseteq> set (i # remove1 i ch)"
    proof
      fix x assume "x \<in> set ch"
      then show "x \<in> set (i # remove1 i ch)" by (cases "x = i") simp_all
    qed
  qed (use ok i fl' b in \<open>auto simp: lists_ok_def\<close>)
  have "dv \<noteq> NODEV" using ok(3) by (simp add: dev_ok_def)
  then have "lists_ok dv k' fl (i # remove1 i ch)"
    using lists_ok_rechain [of dv "upd_buf (Buf i) (\<lambda>b. b\<lparr>b_flags := B_BUSY\<rparr>) k" fl ch i] ok(1) i(1)
    by (simp add: k'_def reassign_def lists_ok_upd)
  moreover have "dev_ok dv k'" using ok(3) by (simp add: k'_def reassign_def)
  ultimately show "cache_inv dv k' fl (i # remove1 i ch)" using data by (simp add: cache_inv_def)
  show "content dv k' b = content dv k b" if r: "in_range b"
  proof (rule content_change [OF ok(2) data i(1) rb(4)])
    show "clip (b_addr (bufp k (Buf i))) = clip (disk k b)" if "holds dv k i b" "bflag k i B_DONE"
      using that i(3,4) r by (auto simp: clean_def Let_def holds_def)
  qed (use fl disk in auto)
qed

text \<open>A buffer for no device, as \<^verbatim>\<open>getblk(NODEV, 0)\<close> takes it, leaves the chain it was on.\<close>

lemma lists_ok_rechain_nodev:
  assumes ok: "lists_ok dv k fl ch" and i: "i < NBUF"
  shows "lists_ok dv (rechain NODEV (Buf i) k) fl (remove1 i ch)"
proof -
  let ?k = "dc_unlink (Buf i) k" and ?k' = "rechain NODEV (Buf i) k"
  have d: "distinct ch" using ok by (simp add: lists_ok_def ring_def distinct_map)
  note u = lists_ok_dc_unlink [OF ok i]
  have eq: "?k' = upd_buf (Buf i) (\<lambda>b. b\<lparr>b_forw := Buf i, b_back := Buf i\<rparr>) ?k"
    by (simp add: rechain_def dc_unlink_def Let_def)
  have "dev_ring ?k' (DevTab (major dv)) (remove1 i ch)"
    by (rule iffD1 [OF ring_cong conjunct1 [OF u]]) (use d in \<open>auto simp: eq\<close>)
  moreover have "b_forw (bufp ?k' (Buf j)) = Buf j \<and> b_back (bufp ?k' (Buf j)) = Buf j"
    if "j < NBUF" "j \<notin> set (remove1 i ch)" for j
  proof (cases "j = i")
    case False
    then show ?thesis using u that by (simp add: eq)
  qed (simp add: eq i)
  moreover have "set (remove1 i ch) \<subseteq> {..<NBUF}" using ok set_remove1_subset [of i ch] by (auto simp: lists_ok_def)
  ultimately show ?thesis using ok unfolding lists_ok_def by simp
qed

lemma reassign_nodev_inv:
  fixes bn :: int32_t
  assumes inv: "cache_inv dv k fl ch" and i: "i < NBUF" "i \<notin> set fl" "clean dv k i" "\<not> bflag k i B_DELWRI"
  defines "k' \<equiv> reassign NODEV bn (Buf i) k"
  shows "cache_inv dv k' fl (remove1 i ch)" "holds NODEV k' i bn" "clean dv k' i" "\<not> bflag k' i B_ASYNC"
    and "in_range b \<Longrightarrow> content dv k' b = content dv k b"
proof -
  have ok: "lists_ok dv k fl ch" "data_ok dv k fl ch" "dev_ok dv k" using inv by (auto simp: cache_inv_def)
  have nd: "dv \<noteq> NODEV" using ok(3) by (simp add: dev_ok_def)
  note rb = reassign_buf [where dv = NODEV and bn = bn and i = i and k = k, folded k'_def]
  have b: "b_dev (bufp k' (Buf i)) = NODEV" "b_blkno (bufp k' (Buf i)) = bn" by (simp_all add: rb(1))
  then show "holds NODEV k' i bn" by (simp add: holds_def)
  have no: "\<not> holds dv k' i b" for b using b(1) nd by (simp add: holds_def)
  have disk: "disk k' = disk k" by (simp add: k'_def reassign_def)
  have fl': "bflag k' i B_BUSY" "\<not> bflag k' i B_DELWRI" "\<not> bflag k' i B_ERROR" "\<not> bflag k' i B_DONE"
    by (simp_all add: rb(2)) (simp_all add: hasf_def)
  show "\<not> bflag k' i B_ASYNC" by (simp add: rb(2)) (simp add: hasf_def)
  show "clean dv k' i" using fl' by (simp add: clean_def Let_def)
  have data: "data_ok dv k' fl ch"
  proof (rule data_ok_change [OF ok(2) i(1) rb(4) disk])
    show "dirty_ok dv k' i" using fl' by (simp add: dirty_ok_def Let_def)
  qed (use ok i fl' b no in \<open>auto simp: lists_ok_def\<close>)
  have "b_dev (bufp k' (Buf j)) = NODEV \<or> b_dev (bufp k' (Buf j)) = dv \<and> j \<in> set (remove1 i ch)" if "j < NBUF" for j
  proof (cases "j = i")
    case False
    then show ?thesis using data that by (simp add: data_ok_def)
  qed (simp add: b)
  with data have data': "data_ok dv k' fl (remove1 i ch)" unfolding data_ok_def by blast
  have "lists_ok dv k' fl (remove1 i ch)"
    using lists_ok_rechain_nodev [of dv "upd_buf (Buf i) (\<lambda>b. b\<lparr>b_flags := B_BUSY\<rparr>) k" fl ch i] ok(1) i(1)
    by (simp add: k'_def reassign_def lists_ok_upd)
  moreover have "dev_ok dv k'" using ok(3) by (simp add: k'_def reassign_def)
  ultimately show "cache_inv dv k' fl (remove1 i ch)" using data' by (simp add: cache_inv_def)
  show "content dv k' b = content dv k b" if r: "in_range b"
  proof (rule content_change [OF ok(2) data i(1) rb(4)])
    show "clip (b_addr (bufp k (Buf i))) = clip (disk k b)" if "holds dv k i b" "bflag k i B_DONE"
      using that i(3,4) r by (auto simp: clean_def Let_def holds_def)
  qed (use no disk in auto)
qed

text \<open>The cache seen from outside: \<open>B\<close> is the set of buffers that are in use.\<close>

definition cache_at :: "dev_t \<Rightarrow> kernel \<Rightarrow> nat set \<Rightarrow> bool" where
  "cache_at dv k B \<longleftrightarrow> B \<subseteq> {..<NBUF} \<and> (\<exists>fl ch. cache_inv dv k fl ch \<and> set fl = {..<NBUF} - B)"

text \<open>What a caller of \<open>getblk\<close> or \<open>bread\<close> gets.\<close>

definition obtained :: "dev_t \<Rightarrow> kernel \<Rightarrow> nat set \<Rightarrow> int32_t \<Rightarrow> nat \<Rightarrow> kernel \<Rightarrow> bool" where
  "obtained dv k B bn i k' \<longleftrightarrow> i < NBUF \<and> i \<notin> B \<and> cache_at dv k' (insert i B) \<and> holds dv k' i bn
     \<and> clean dv k' i \<and> \<not> bflag k' i B_ASYNC \<and> bio_frame k k' \<and> (\<forall>j\<in>B. same_buf k k' j \<and> (clean dv k j \<longrightarrow> clean dv k' j))
     \<and> (\<forall>b. in_range b \<longrightarrow> content dv k' b = content dv k b)"

text \<open>The same for a buffer of any device.\<close>

definition taken :: "dev_t \<Rightarrow> dev_t \<Rightarrow> kernel \<Rightarrow> nat set \<Rightarrow> int32_t \<Rightarrow> nat \<Rightarrow> kernel \<Rightarrow> bool" where
  "taken dev dv k B bn i k' \<longleftrightarrow> i < NBUF \<and> i \<notin> B \<and> cache_at dv k' (insert i B) \<and> holds dev k' i bn
     \<and> clean dv k' i \<and> \<not> bflag k' i B_ASYNC \<and> bio_frame k k' \<and> (\<forall>j\<in>B. same_buf k k' j \<and> (clean dv k j \<longrightarrow> clean dv k' j))
     \<and> (\<forall>b. in_range b \<longrightarrow> content dv k' b = content dv k b)"

lemma obtained_taken: "obtained dv = taken dv dv"
  by (simp add: obtained_def taken_def fun_eq_iff)

definition dirty_free :: "kernel \<Rightarrow> nat list \<Rightarrow> nat" where
  "dirty_free k fl = card {i \<in> set fl. bflag k i B_DELWRI}"

lemma find_block_dv:
  assumes "cache_inv dv k fl ch"
  shows "find_block dv bn k = (case find_slot (\<lambda>i. holds dv k i bn) [0..<NBUF] of
      None \<Rightarrow> Some None | Some i \<Rightarrow> Some (Some (Buf i)))"
proof -
  have ok: "lists_ok dv k fl ch" "data_ok dv k fl ch" "dev_ok dv k" using assms by (auto simp: cache_inv_def)
  have fb: "find_block dv bn k = Some (find (is_block k dv bn) (map Buf ch))"
    using ok(1) by (intro find_block_ring) (auto simp: lists_ok_def)
  have ib: "is_block k dv bn (Buf i) = holds dv k i bn" for i by (auto simp: is_block_def holds_def)
  have nodev: "dv \<noteq> NODEV" using ok(3) by (simp add: dev_ok_def)
  have inch: "i \<in> set ch" if "i < NBUF" "holds dv k i bn" for i
    using that ok(2) nodev unfolding data_ok_def holds_def by metis
  show ?thesis
  proof (cases "\<exists>i<NBUF. holds dv k i bn")
    case True
    then obtain i where i: "i < NBUF" "holds dv k i bn" by blast
    have u: "j = i" if "j < NBUF" "holds dv k j bn" for j
      using that i ok(2) unfolding data_ok_def by metis
    have "find_slot (\<lambda>i. holds dv k i bn) [0..<NBUF] = Some i"
    proof (rule find_slot_SomeI)
      show "\<forall>j<i. \<not> holds dv k ([0..<NBUF] ! j) bn"
        using i(1) u by (metis add_0 less_irrefl less_trans nth_upt)
    qed (use i in simp_all)
    moreover have "find (is_block k dv bn) (map Buf ch) = Some (Buf i)"
    proof -
      have "find (is_block k dv bn) (map Buf ch) \<noteq> None"
        using inch [OF i] i(2) ib by (auto simp: find_None_iff)
      then obtain p where p: "find (is_block k dv bn) (map Buf ch) = Some p" by blast
      then obtain j where "p = Buf j" "j \<in> set ch" "holds dv k j bn"
        using ib by (auto simp: find_Some_iff)
      with u p ok(1) show ?thesis by (auto simp: lists_ok_def)
    qed
    ultimately show ?thesis by (simp add: fb)
  next
    case False
    then have "find_slot (\<lambda>i. holds dv k i bn) [0..<NBUF] = None" by (auto simp: find_slot_None_iff)
    moreover have "find (is_block k dv bn) (map Buf ch) = None"
      using False ib ok(1) by (auto simp: find_None_iff lists_ok_def)
    ultimately show ?thesis by (simp add: fb)
  qed
qed

lemma cache_at_inv: "cache_inv dv k fl ch \<Longrightarrow> cache_at dv k ({..<NBUF} - set fl)"
  by (auto simp: cache_at_def cache_inv_def lists_ok_def)

lemma clean_notavail: "clean dv (notavail (Buf i) k) i = clean dv k i"
proof -
  have "bflag (notavail (Buf i) k) i B_DONE = bflag k i B_DONE"
    "bflag (notavail (Buf i) k) i B_DELWRI = bflag k i B_DELWRI"
    by (simp_all add: notavail_buf hasf_or) (simp_all add: hasf_def)
  moreover have "disk (notavail (Buf i) k) = disk k" by (simp add: notavail_def)
  ultimately show ?thesis by (simp only: clean_def Let_def notavail_buf)
qed

lemma clean_keep:
  assumes "same_buf k k' j" "clean dv k j" "\<And>b. in_range b \<Longrightarrow> holds dv k j b \<Longrightarrow> clip (disk k' b) = clip (disk k b)"
  shows "clean dv k' j"
  using assms by (auto simp: clean_def same_buf_def Let_def holds_def)

lemma getblk_found_ok:
  assumes inv: "cache_inv dv k fl ch" and i: "i \<in> set fl" "holds dv k i bn"
  shows "\<exists>k'. getblk_found (Buf i) k = Ret (Buf i) k' \<and> obtained dv k ({..<NBUF} - set fl) bn i k'"
proof -
  obtain xs ys where fl: "fl = xs @ i # ys" using i(1) by (meson split_list)
  note na = notavail_inv [OF inv [unfolded fl]]
  have ok: "lists_ok dv k fl ch" "data_ok dv k fl ch" using inv by (auto simp: cache_inv_def)
  have i': "i < NBUF" "\<not> bflag k i B_BUSY" "clean dv k i" "\<not> bflag k i B_ASYNC"
    using ok i(1) by (auto simp: lists_ok_def data_ok_def)
  have d: "distinct fl" using ok(1) by (simp add: lists_ok_def ring_def distinct_map)
  have "{..<NBUF} - set (xs @ ys) = insert i ({..<NBUF} - set fl)" using d i'(1) fl by auto
  then have "cache_at dv (notavail (Buf i) k) (insert i ({..<NBUF} - set fl))"
    using cache_at_inv [OF na(1)] by simp
  moreover have "same_buf k (notavail (Buf i) k) j" if "j \<notin> set fl" for j
    using that i(1) by (intro notavail_buf(1)) auto
  moreover from this have "clean dv k j \<longrightarrow> clean dv (notavail (Buf i) k) j" if "j \<notin> set fl" for j
    using that clean_keep [of k "notavail (Buf i) k" j dv] na(3) by simp
  ultimately have "obtained dv k ({..<NBUF} - set fl) bn i (notavail (Buf i) k)"
    using i i' na(2) na(5) [of B_ASYNC]
    by (simp add: obtained_def clean_notavail holds_def notavail_buf del: notavail_buf(2))
  with i'(2) show ?thesis by (simp add: getblk_found_def)
qed

lemma getblk_free_ok:
  assumes inv: "cache_inv dv k fl ch" and ne: "fl \<noteq> []" and dev: "dev = dv \<or> dev = NODEV"
    and none: "\<And>j. dev = dv \<Longrightarrow> j < NBUF \<Longrightarrow> \<not> holds dv k j bn"
    and again: "\<And>k2 fl2. cache_inv dv k2 fl2 ch \<Longrightarrow> set fl2 = set fl \<Longrightarrow> dirty_free k2 fl2 < dirty_free k fl \<Longrightarrow>
      (\<And>j. dev = dv \<Longrightarrow> j < NBUF \<Longrightarrow> holds dv k2 j bn \<Longrightarrow> j \<in> set fl2) \<Longrightarrow>
      \<exists>i k'. again k2 = Ret (Buf i) k' \<and> taken dev dv k2 ({..<NBUF} - set fl2) bn i k'"
  shows "\<exists>i k'. getblk_free again dev bn k = Ret (Buf i) k' \<and> taken dev dv k ({..<NBUF} - set fl) bn i k'"
proof -
  obtain i ys where fl: "fl = i # ys" using ne by (cases fl) auto
  have ok: "lists_ok dv k fl ch" "data_ok dv k fl ch" using inv by (auto simp: cache_inv_def)
  have hd: "av_forw (bufp k FreeHd) = Buf i" using ok(1) fl by (simp add: lists_ok_def ring_def)
  let ?k1 = "notavail (Buf i) k"
  have inv1: "cache_inv dv ?k1 ys ch" using notavail_inv(1) [of dv k "[]" i ys ch] inv fl by simp
  have c1: "content dv ?k1 b = content dv k b" for b
    using notavail_inv(2) [of dv k "[]" i ys ch] inv fl by simp
  have d: "distinct fl" using ok(1) by (simp add: lists_ok_def ring_def distinct_map)
  have i: "i < NBUF" "clean dv ?k1 i" "i \<notin> set ys" using ok fl d
    by (auto simp: lists_ok_def data_ok_def clean_notavail)
  have dw: "bflag ?k1 i B_DELWRI = bflag k i B_DELWRI"
    by (simp add: notavail_buf hasf_or) (simp add: hasf_def)
  have h1: "holds dv ?k1 j b = holds dv k j b" for j b by (simp add: holds_def notavail_buf)
  have ins: "{..<NBUF} - set ys = insert i ({..<NBUF} - set fl)" using d fl i(1) by auto
  show ?thesis
  proof (cases "bflag k i B_DELWRI")
    case False
    let ?k' = "reassign dev bn (Buf i) ?k1"
    have nd: "\<not> bflag ?k1 i B_DELWRI" using dw False by simp
    have r: "\<exists>ch'. cache_inv dv ?k' ys ch'" "holds dev ?k' i bn" "clean dv ?k' i" "\<not> bflag ?k' i B_ASYNC"
      "\<And>b. in_range b \<Longrightarrow> content dv ?k' b = content dv ?k1 b"
      using reassign_inv [OF inv1 i(1,3,2) nd] reassign_nodev_inv [OF inv1 i(1,3,2) nd] none h1 dev by blast+
    have "disk ?k' = disk k" using notavail_inv(3) [of dv k "[]" i ys ch] inv fl by (simp add: reassign_def)
    then have cl: "clean dv k j \<Longrightarrow> clean dv ?k' j" if "j \<noteq> i" for j
      using that by (intro clean_keep [of k ?k' j] same_buf_trans [OF notavail_buf(1) reassign_buf(4)]) auto
    have "cache_at dv ?k' ({..<NBUF} - set ys)" using r(1) cache_at_inv by blast
    then have "taken dev dv k ({..<NBUF} - set fl) bn i ?k'"
      unfolding taken_def
      using i fl r(2-5) c1 ins
        same_buf_trans [OF notavail_buf(1) reassign_buf(4)] cl by (auto simp: c1)
    with False hd dw show ?thesis by (auto simp: getblk_free_def Let_def)
  next
    case True
    let ?k2 = "upd_buf (Buf i) (set_flags B_ASYNC) ?k1"
    define bn0 where "bn0 = b_blkno (bufp k (Buf i))"
    have di: "b_dev (bufp k (Buf i)) = dv" "in_range bn0" "bflag k i B_DONE" "\<not> bflag k i B_ERROR"
      using ok(2) i(1) True by (auto simp: data_ok_def dirty_ok_def Let_def bn0_def)
    have f1: "b_flags (bufp ?k1 (Buf i)) = b_flags (bufp k (Buf i)) OR B_BUSY" by (simp add: notavail_buf)
    have f2: "hasf (b_flags (set_flags B_ASYNC (bufp ?k1 (Buf i)))) B_BUSY"
      "hasf (b_flags (set_flags B_ASYNC (bufp ?k1 (Buf i)))) B_DONE"
      "\<not> hasf (b_flags (set_flags B_ASYNC (bufp ?k1 (Buf i)))) B_ERROR"
      using di by (simp_all add: f1 hasf_or) (simp_all add: hasf_def)
    have g: "keeps_identity (set_flags B_ASYNC)" by (simp add: keeps_identity_def)
    have dd: "dirty_ok dv ?k2 i"
      using f2 di by (simp add: dirty_ok_def Let_def notavail_buf bn0_def)
    note u = upd_busy_inv [OF inv1 i(1,3) g f2(1) dd]
    have h2: "holds dv ?k2 i bn0" using di by (simp add: holds_def notavail_buf bn0_def)
    have hb: "holds dv k i b \<longleftrightarrow> b = bn0" for b using di by (auto simp: holds_def bn0_def)
    have ck: "content dv k bn0 = clip (b_addr (bufp k (Buf i)))"
      using content_cached [OF ok(2) i(1), of bn0] hb di by simp
    have c2: "content dv ?k2 b = content dv k b" for b
      using u(2) [of b] f2(2) h1 hb c1 ck by (simp add: notavail_buf)
    obtain k3 where w: "bwrite (Buf i) ?k2 = Ret () k3" "cache_inv dv k3 (ys @ [i]) ch" "bio_frame ?k2 k3"
      "\<And>b. in_range b \<Longrightarrow> content dv k3 b = (if b = bn0 then clip (b_addr (bufp ?k2 (Buf i))) else content dv ?k2 b)"
      "\<And>j. j \<noteq> i \<Longrightarrow> same_buf ?k2 k3 j" "\<not> bflag k3 i B_DELWRI"
      "\<And>b. in_range b \<Longrightarrow> clip (disk k3 b) = (if b = bn0 then clip (b_addr (bufp ?k2 (Buf i))) else clip (disk ?k2 b))"
      using bwrite_inv [OF u(1) i(1,3) h2 di(2)] by blast
    have c3: "content dv k3 b = content dv k b" if "in_range b" for b
      using w(4) [OF that] c2 ck by (simp add: notavail_buf)
    have s3: "same_buf k k3 j" if "j \<noteq> i" for j
    proof -
      have "same_buf k ?k2 j" using notavail_buf(1) [OF that, of k] that by (simp add: same_buf_def)
      then show ?thesis using w(5) [OF that] by (rule same_buf_trans)
    qed
    have d3: "clip (disk k3 b) = clip (disk k b)" if "in_range b" "b \<noteq> bn0" for b
      using w(7) [OF that(1)] that(2) notavail_inv(3) [of dv k "[]" i ys ch] inv fl by simp
    have cl: "clean dv k3 j" if "clean dv k j" "j \<noteq> i" "j < NBUF" for j
    proof (rule clean_keep [OF s3 [OF that(2)] that(1) d3])
      show "b \<noteq> bn0" if "holds dv k j b" for b
        using that \<open>j \<noteq> i\<close> \<open>j < NBUF\<close> i(1) ok(2) hb [of b] unfolding data_ok_def by metis
    qed
    have less: "dirty_free k3 (ys @ [i]) < dirty_free k fl"
    proof -
      have "bflag k3 j B_DELWRI = bflag k j B_DELWRI" if "j \<in> set ys" for j
        using that i(3) by (intro same_buf_facts(1) s3) auto
      then have "{j \<in> set (ys @ [i]). bflag k3 j B_DELWRI} = {j \<in> set fl. bflag k j B_DELWRI} - {i}"
        using w(6) fl i(3) by auto
      moreover have "i \<in> {j \<in> set fl. bflag k j B_DELWRI}" using True fl by simp
      ultimately show ?thesis
        unfolding dirty_free_def by (simp only:) (rule card_Diff1_less, simp_all)
    qed
    have "\<exists>i' k'. again k3 = Ret (Buf i') k' \<and> taken dev dv k3 ({..<NBUF} - set (ys @ [i])) bn i' k'"
    proof (rule again [OF w(2) _ less])
      show "set (ys @ [i]) = set fl" using fl by auto
      show "j \<in> set (ys @ [i])" if j: "dev = dv" "j < NBUF" "holds dv k3 j bn" for j
        using j none [OF j(1,2)] same_buf_facts(2) [OF s3] by (cases "j = i") auto
    qed
    then obtain i' k' where a: "again k3 = Ret (Buf i') k'" "taken dev dv k3 ({..<NBUF} - set fl) bn i' k'"
      using fl by auto
    have run: "getblk_free again dev bn k = again k3"
      using hd True dw w(1) by (simp add: getblk_free_def Let_def kseq_Ret)
    have "bio_frame k k3" using w(3) by (simp add: bio_frame_def notavail_def av_unlink_def Let_def)
    moreover have "same_buf k k' j \<and> (clean dv k j \<longrightarrow> clean dv k' j)" if "j \<in> {..<NBUF} - set fl" for j
      using that a(2) s3 [of j] cl [of j] fl by (auto simp: taken_def intro: same_buf_trans)
    ultimately have "taken dev dv k ({..<NBUF} - set fl) bn i' k'"
      using a(2) c3 by (simp add: taken_def bio_frame_trans [of k k3 k'])
    with a run show ?thesis by auto
  qed
qed

lemma getblk_loop_ok:
  "cache_inv dv k fl ch \<Longrightarrow> fl \<noteq> [] \<Longrightarrow> (\<And>j. j < NBUF \<Longrightarrow> holds dv k j bn \<Longrightarrow> j \<in> set fl) \<Longrightarrow>
   dirty_free k fl \<le> n \<Longrightarrow>
   \<exists>i k'. getblk_loop n dv bn k = Ret (Buf i) k' \<and> obtained dv k ({..<NBUF} - set fl) bn i k'"
proof (induction n arbitrary: k fl rule: less_induct)
  case (less n)
  note inv = less.prems(1)
  have dev: "dv \<noteq> NODEV" "bdev dv k = Some \<lparr>d_strategy = RamDrv, d_tab = True\<rparr>"
    using inv by (auto simp: cache_inv_def dev_ok_def)
  let ?again = "case n of 0 \<Rightarrow> stop Spins | Suc m \<Rightarrow> getblk_loop m dv bn"
  have run: "getblk_loop n dv bn k = (case find_slot (\<lambda>i. holds dv k i bn) [0..<NBUF] of
      None \<Rightarrow> getblk_free ?again dv bn k | Some i \<Rightarrow> getblk_found (Buf i) k)"
    using dev find_block_dv [OF inv, of bn]
    by (subst getblk_loop.simps) (simp add: Let_def split: option.splits)
  show ?case
  proof (cases "find_slot (\<lambda>i. holds dv k i bn) [0..<NBUF]")
    case (Some i)
    then have i: "i < NBUF" "holds dv k i bn" using find_slot_SomeD [OF Some] by auto
    have "getblk_loop n dv bn k = getblk_found (Buf i) k" using run Some by (simp only: option.case)
    with getblk_found_ok [OF inv less.prems(3) [OF i] i(2)] show ?thesis by auto
  next
    case None
    then have none: "\<And>j. j < NBUF \<Longrightarrow> \<not> holds dv k j bn" by (auto simp: find_slot_None_iff)
    have "\<exists>i k'. getblk_free ?again dv bn k = Ret (Buf i) k' \<and> obtained dv k ({..<NBUF} - set fl) bn i k'"
      unfolding obtained_taken
    proof (rule getblk_free_ok [OF inv less.prems(2) disjI1 [OF refl] none])
      fix k2 fl2
      assume a: "cache_inv dv k2 fl2 ch" "set fl2 = set fl" "dirty_free k2 fl2 < dirty_free k fl"
        "\<And>j. dv = dv \<Longrightarrow> j < NBUF \<Longrightarrow> holds dv k2 j bn \<Longrightarrow> j \<in> set fl2"
      then obtain m where m: "n = Suc m" using less.prems(4) by (cases n) auto
      have "fl2 \<noteq> []" using a(2) less.prems(2) by auto
      with m a less.prems(2,4) show "\<exists>i k'. ?again k2 = Ret (Buf i) k' \<and> taken dv dv k2 ({..<NBUF} - set fl2) bn i k'"
        using less.IH [of m k2 fl2] unfolding obtained_taken by (auto simp del: getblk_loop.simps)
    qed
    with run None show ?thesis by (simp only: option.case)
  qed
qed

lemma getblk_ok:
  assumes "cache_at dv k B" "B \<noteq> {..<NBUF}" "\<And>j. j \<in> B \<Longrightarrow> \<not> holds dv k j bn"
  shows "\<exists>i k'. getblk dv bn k = Ret (Buf i) k' \<and> obtained dv k B bn i k'"
proof -
  obtain fl ch where inv: "cache_inv dv k fl ch" "set fl = {..<NBUF} - B" and B: "B \<subseteq> {..<NBUF}"
    using assms(1) by (auto simp: cache_at_def)
  then have eq: "{..<NBUF} - set fl = B" by auto
  have "fl \<noteq> []" using assms(2) inv B by auto
  moreover have "j \<in> set fl" if "j < NBUF" "holds dv k j bn" for j using that assms(3) inv by auto
  moreover have "dirty_free k fl \<le> NBUF + 1"
  proof -
    have "dirty_free k fl \<le> card {..<NBUF}"
      unfolding dirty_free_def by (rule card_mono) (use inv in auto)
    then show ?thesis by simp
  qed
  ultimately have "\<exists>i k'. getblk_loop (NBUF + 1) dv bn k = Ret (Buf i) k' \<and> obtained dv k B bn i k'"
    using getblk_loop_ok [OF inv(1)] unfolding eq by blast
  moreover have "\<not> (dv \<noteq> NODEV \<and> major dv \<ge> nblkdev (k_bio k))"
    using inv(1) by (simp add: cache_inv_def dev_ok_def)
  ultimately show ?thesis unfolding getblk_def if_not_P by auto
qed

lemma getblk_nodev_loop_ok:
  "cache_inv dv k fl ch \<Longrightarrow> fl \<noteq> [] \<Longrightarrow> dirty_free k fl \<le> n \<Longrightarrow>
   \<exists>i k'. getblk_loop n NODEV bn k = Ret (Buf i) k' \<and> taken NODEV dv k ({..<NBUF} - set fl) bn i k'"
proof (induction n arbitrary: k fl rule: less_induct)
  case (less n)
  note inv = less.prems(1)
  let ?again = "case n of 0 \<Rightarrow> stop Spins | Suc m \<Rightarrow> getblk_loop m NODEV bn"
  have nd: "NODEV \<noteq> dv" using inv by (auto simp: cache_inv_def dev_ok_def)
  have run: "getblk_loop n NODEV bn k = getblk_free ?again NODEV bn k" by (subst getblk_loop.simps) (simp add: Let_def)
  show ?case unfolding run
  proof (rule getblk_free_ok [OF inv less.prems(2) disjI2 [OF refl]])
    fix k2 fl2
    assume a: "cache_inv dv k2 fl2 ch" "set fl2 = set fl" "dirty_free k2 fl2 < dirty_free k fl"
    then obtain m where m: "n = Suc m" using less.prems(3) by (cases n) auto
    have "fl2 \<noteq> []" using a(2) less.prems(2) by auto
    with m a less.prems(3) show "\<exists>i k'. ?again k2 = Ret (Buf i) k' \<and> taken NODEV dv k2 ({..<NBUF} - set fl2) bn i k'"
      using less.IH [of m k2 fl2] by (auto simp del: getblk_loop.simps)
  qed (use nd in simp)
qed

lemma getblk_nodev_ok:
  assumes "cache_at dv k B" "B \<noteq> {..<NBUF}"
  shows "\<exists>i k'. getblk NODEV bn k = Ret (Buf i) k' \<and> taken NODEV dv k B bn i k'"
proof -
  obtain fl ch where inv: "cache_inv dv k fl ch" "set fl = {..<NBUF} - B" and B: "B \<subseteq> {..<NBUF}"
    using assms(1) by (auto simp: cache_at_def)
  then have eq: "{..<NBUF} - set fl = B" by auto
  have "fl \<noteq> []" using assms(2) inv B by auto
  moreover have "dirty_free k fl \<le> NBUF + 1"
  proof -
    have "dirty_free k fl \<le> card {..<NBUF}"
      unfolding dirty_free_def by (rule card_mono) (use inv in auto)
    then show ?thesis by simp
  qed
  ultimately have "\<exists>i k'. getblk_loop (NBUF + 1) NODEV bn k = Ret (Buf i) k' \<and> taken NODEV dv k B bn i k'"
    using getblk_nodev_loop_ok [OF inv(1)] unfolding eq by blast
  then show ?thesis by (simp add: getblk_def del: getblk_loop.simps)
qed

end
