(* ===== verification/Cache.thy ===== *)
theory Cache
  imports Bio_Inv
begin

text \<open>
  The buffer cache for its callers: \<open>cache_at dv k B\<close> is the invariant with the set \<open>B\<close> of
  buffers in use, and each operation of \<^verbatim>\<open>bio.c\<close> has one lemma over it, with its effect
  on \<open>content\<close>.  The properties at the end are the cache's: a read returns the block last
  written, whether it is cached, delayed or on the disk, and \<^verbatim>\<open>bflush\<close> brings the disk up
  to date.
\<close>

subsection \<open>Operations on a buffer in use\<close>

lemma in_use:
  assumes "cache_at dv k B" "i \<in> B"
  obtains fl ch where "cache_inv dv k fl ch" "set fl = {..<NBUF} - B" "i < NBUF" "i \<notin> set fl" "bflag k i B_BUSY"
proof -
  obtain fl ch where a: "cache_inv dv k fl ch" "set fl = {..<NBUF} - B" "i < NBUF"
    using assms by (auto simp: cache_at_def)
  moreover have "i \<notin> set fl" using a(2) assms(2) by simp
  moreover from this have "bflag k i B_BUSY" using a(1,3) by (simp add: cache_inv_def data_ok_def)
  ultimately show ?thesis using that by blast
qed

lemma upd_at:
  assumes c: "cache_at dv k B" and i: "i \<in> B" and g: "keeps_identity g"
    and busy: "hasf (b_flags (g (bufp k (Buf i)))) B_BUSY" and dirty: "dirty_ok dv (upd_buf (Buf i) g k) i"
  shows "cache_at dv (upd_buf (Buf i) g k) B"
    and "content dv (upd_buf (Buf i) g k) bn =
      (if holds dv k i bn then clip (if hasf (b_flags (g (bufp k (Buf i)))) B_DONE
           then b_addr (g (bufp k (Buf i))) else disk k bn)
       else content dv k bn)"
proof -
  obtain fl ch where inv: "cache_inv dv k fl ch" "set fl = {..<NBUF} - B" "i < NBUF" "i \<notin> set fl"
    using in_use [OF c i] by metis
  note u = upd_busy_inv [OF inv(1,3,4) g busy dirty]
  show "cache_at dv (upd_buf (Buf i) g k) B" using u(1) inv(2) c by (auto simp: cache_at_def)
  show "content dv (upd_buf (Buf i) g k) bn =
      (if holds dv k i bn then clip (if hasf (b_flags (g (bufp k (Buf i)))) B_DONE
           then b_addr (g (bufp k (Buf i))) else disk k bn)
       else content dv k bn)" by (rule u(2))
qed

text \<open>Storing into the block of a buffer that holds valid data.\<close>

lemma store_at:
  fixes f :: "block \<Rightarrow> block"
  assumes c: "cache_at dv k B" and i: "i \<in> B" and h: "holds dv k i bn" "bflag k i B_DONE"
  defines "k' \<equiv> upd_buf (Buf i) (\<lambda>b. b\<lparr>b_addr := f (b_addr b)\<rparr>) k"
  shows "cache_at dv k' B" "holds dv k' i bn" "bflag k' i B_DONE" "bio_frame k k'"
    and "content dv k' b = (if b = bn then clip (f (b_addr (bufp k (Buf i)))) else content dv k b)"
proof -
  have g: "keeps_identity (\<lambda>b. b\<lparr>b_addr := f (b_addr b)\<rparr>)" by (simp add: keeps_identity_def)
  have busy: "bflag k i B_BUSY" using in_use [OF c i] by metis
  have "dirty_ok dv k i" using in_use [OF c i] by (auto simp: cache_inv_def data_ok_def)
  then have d: "dirty_ok dv k' i" by (simp add: dirty_ok_def Let_def k'_def)
  have hb: "holds dv k i b \<longleftrightarrow> b = bn" for b using h by (auto simp: holds_def)
  note u = upd_at [OF c i g, folded k'_def, OF _ d]
  show "cache_at dv k' B" using u(1) busy by simp
  show "content dv k' b = (if b = bn then clip (f (b_addr (bufp k (Buf i)))) else content dv k b)"
    using u(2) [of b] busy h hb by simp
  show "holds dv k' i bn" "bflag k' i B_DONE" "bio_frame k k'" using h by (simp_all add: k'_def holds_def)
qed

lemma use_release:
  "cache_inv dv k (fl @ [i]) ch \<Longrightarrow> set fl = {..<NBUF} - B \<Longrightarrow> i < NBUF \<Longrightarrow> B \<subseteq> {..<NBUF} \<Longrightarrow> cache_at dv k (B - {i})"
  unfolding cache_at_def by (intro conjI exI [of _ "fl @ [i]"] exI [of _ ch]) auto

lemma brelse_at:
  assumes c: "cache_at dv k B" and i: "i \<in> B" and cl: "clean dv k i"
  shows "cache_at dv (brelse (Buf i) k) (B - {i})" "bio_frame k (brelse (Buf i) k)"
    and "in_range b \<Longrightarrow> content dv (brelse (Buf i) k) b = content dv k b"
    and "j \<in> B - {i} \<Longrightarrow> same_buf k (brelse (Buf i) k) j"
proof -
  obtain fl ch where inv: "cache_inv dv k fl ch" "set fl = {..<NBUF} - B" "i < NBUF" "i \<notin> set fl"
    using in_use [OF c i] by metis
  note r = brelse_inv [OF inv(1,3,4) cl]
  have "B \<subseteq> {..<NBUF}" using c by (simp add: cache_at_def)
  then show "cache_at dv (brelse (Buf i) k) (B - {i})" using use_release [OF r(1) inv(2,3)] by blast
  show "in_range b \<Longrightarrow> content dv (brelse (Buf i) k) b = content dv k b" by (rule r(2))
  show "j \<in> B - {i} \<Longrightarrow> same_buf k (brelse (Buf i) k) j" by (rule brelse_buf(1)) simp
qed simp

lemma bdwrite_at:
  assumes c: "cache_at dv k B" and i: "i \<in> B" and h: "holds dv k i bn" "in_range bn"
  shows "cache_at dv (bdwrite (Buf i) k) (B - {i})" "bio_frame k (bdwrite (Buf i) k)"
    and "in_range b \<Longrightarrow> content dv (bdwrite (Buf i) k) b
      = (if b = bn then clip (b_addr (bufp k (Buf i))) else content dv k b)"
    and "j \<in> B - {i} \<Longrightarrow> same_buf k (bdwrite (Buf i) k) j"
proof -
  obtain fl ch where inv: "cache_inv dv k fl ch" "set fl = {..<NBUF} - B" "i < NBUF" "i \<notin> set fl"
    using in_use [OF c i] by metis
  note r = bdwrite_inv [OF inv(1,3,4) h]
  have "B \<subseteq> {..<NBUF}" using c by (simp add: cache_at_def)
  then show "cache_at dv (bdwrite (Buf i) k) (B - {i})" using use_release [OF r(1) inv(2,3)] by blast
  show "bio_frame k (bdwrite (Buf i) k)" by (rule r(2))
  show "in_range b \<Longrightarrow> content dv (bdwrite (Buf i) k) b
      = (if b = bn then clip (b_addr (bufp k (Buf i))) else content dv k b)" by (rule r(3))
  show "j \<in> B - {i} \<Longrightarrow> same_buf k (bdwrite (Buf i) k) j" by (rule r(4)) simp
qed

lemma bwrite_at:
  assumes c: "cache_at dv k B" and i: "i \<in> B" and h: "holds dv k i bn" "in_range bn"
  shows "\<exists>k'. bwrite (Buf i) k = Ret () k' \<and> cache_at dv k' (B - {i}) \<and> bio_frame k k'
    \<and> (\<forall>b. in_range b \<longrightarrow> content dv k' b = (if b = bn then clip (b_addr (bufp k (Buf i))) else content dv k b))
    \<and> (\<forall>j\<in>B - {i}. same_buf k k' j) \<and> clip (disk k' bn) = clip (b_addr (bufp k (Buf i)))"
proof -
  obtain fl ch where inv: "cache_inv dv k fl ch" "set fl = {..<NBUF} - B" "i < NBUF" "i \<notin> set fl"
    using in_use [OF c i] by metis
  have "B \<subseteq> {..<NBUF}" using c by (simp add: cache_at_def)
  with bwrite_inv [OF inv(1,3,4) h] use_release [OF _ inv(2,3)] h(2) show ?thesis by auto
qed

subsection \<open>bread\<close>

lemma upd_buf_upd_buf: "upd_buf p f (upd_buf p g k) = upd_buf p (\<lambda>b. f (g b)) k"
  by (simp add: upd_buf_def)

definition after_read :: "block \<Rightarrow> buf \<Rightarrow> buf" where
  "after_read d b = b\<lparr>b_wcount := - 256, b_addr := (\<lambda>i. if i < BSIZE then d i else b_addr b i), b_resid := 0,
     b_flags := ((b_flags b OR B_READ) OR B_DONE) AND NOT B_WANTED\<rparr>"

lemma after_read_fun: "after_read d = (\<lambda>b. b\<lparr>b_wcount := - 256,
     b_addr := (\<lambda>i. if i < BSIZE then d i else b_addr b i), b_resid := 0,
     b_flags := ((b_flags b OR B_READ) OR B_DONE) AND NOT B_WANTED\<rparr>)"
  by (simp add: fun_eq_iff after_read_def)

lemma rd_read_block: "rd_read n BSIZE d b = (\<lambda>i. if i < BSIZE then d n i else b i)"
  by (auto simp: rd_read_def fun_eq_iff)

lemma bread_miss:
  assumes dev: "dev_ok dv k" and b: "b_blkno (bufp k (Buf i)) = bn" "in_range bn"
    and f: "\<not> bflag k i B_DONE" "\<not> bflag k i B_ASYNC" "\<not> bflag k i B_ERROR"
  shows "kseq (act (start_read B_READ (Buf i)))
       (kseq (strategy dv (Buf i) nodriver) (kseq (iowait (Buf i)) (ret (Buf i)))) k
    = Ret (Buf i) (wakeup (ChBuf (Buf i)) (upd_buf (Buf i) (after_read (disk k bn)) k))"
proof -
  let ?k1 = "start_read B_READ (Buf i) k"
  let ?k2 = "wakeup (ChBuf (Buf i)) (upd_buf (Buf i) (after_read (disk k bn)) k)"
  have k1: "bufp ?k1 (Buf i) = (bufp k (Buf i))\<lparr>b_flags := b_flags (bufp k (Buf i)) OR B_READ, b_wcount := - 256\<rparr>"
    by (simp add: start_read_def set_flags_def)
  have rg: "0 \<le> sint bn" "sint bn < 16384" using b by (auto simp: in_range_def)
  have rc: "rd_count (bufp ?k1 (Buf i)) = 512" using b by (intro rd_count_block) (simp_all add: k1)
  have rd: "hasf (b_flags (bufp ?k1 (Buf i))) B_READ" by (simp add: k1 hasf_or) (simp add: hasf_def)
  have as: "\<not> hasf ((b_flags (bufp k (Buf i)) OR B_READ) OR B_DONE) B_ASYNC"
    using f by (simp add: hasf_or) (simp add: hasf_def)
  have bd: "ramdisk (k_bio ?k1) = ramdisk (k_bio k)" by (simp add: start_read_def)
  have "rd_strategy (Buf i) ?k1 = iodone (Buf i) (upd_buf (Buf i) (\<lambda>b. b\<lparr>b_resid := 0\<rparr>)
      (upd_buf (Buf i) (\<lambda>b. b\<lparr>b_addr := rd_read (nat (sint bn)) BSIZE (ramdisk (k_bio k)) (b_addr b)\<rparr>) ?k1))"
    using rg rc rd b(1) by (simp add: rd_strategy_def Let_def k1 bd)
  also have "\<dots> = ?k2"
    using as by (simp add: iodone_def Let_def upd_buf_upd_buf start_read_def set_flags_def clear_flags_def
        after_read_fun rd_read_block disk_def cong: if_cong)
  finally have s: "strategy dv (Buf i) nodriver ?k1 = Ret () ?k2"
    using dev by (simp add: strategy_def dev_ok_def bdev_def start_read_def split: if_splits)
  have "flagged ?k2 (Buf i) B_DONE" "\<not> flagged ?k2 (Buf i) B_ERROR"
    using f by (simp_all add: after_read_def hasf_or hasf_mask) (simp_all add: hasf_def)
  then have "iowait (Buf i) ?k2 = Ret () ?k2" by (simp add: iowait_def geterror_def)
  with s show ?thesis by (simp add: kseq_def kbind_def)
qed

lemma bread_ok:
  assumes c: "cache_at dv k B" "B \<noteq> {..<NBUF}" "\<And>j. j \<in> B \<Longrightarrow> \<not> holds dv k j bn" and r: "in_range bn"
  shows "\<exists>i k'. bread dv bn k = Ret (Buf i) k' \<and> obtained dv k B bn i k' \<and> bflag k' i B_DONE
    \<and> clip (b_addr (bufp k' (Buf i))) = content dv k bn"
proof -
  obtain i k1 where g: "getblk dv bn k = Ret (Buf i) k1" and o: "obtained dv k B bn i k1"
    using getblk_ok [OF c] by blast
  have o': "i < NBUF" "i \<notin> B" "cache_at dv k1 (insert i B)" "holds dv k1 i bn" "clean dv k1 i"
    "\<not> bflag k1 i B_ASYNC" "bio_frame k k1" "\<forall>j\<in>B. same_buf k k1 j"
    "\<And>b. in_range b \<Longrightarrow> content dv k1 b = content dv k b"
    using o by (auto simp: obtained_def)
  obtain fl ch where inv: "cache_inv dv k1 fl ch" using in_use [OF o'(3), of i] by blast
  then have data: "data_ok dv k1 fl ch" and dev: "dev_ok dv k1" by (auto simp: cache_inv_def)
  show ?thesis
  proof (cases "bflag k1 i B_DONE")
    case True
    then have "content dv k1 bn = clip (b_addr (bufp k1 (Buf i)))"
      using content_cached [OF data o'(1,4)] by simp
    with True g o o'(9) [OF r] show ?thesis by (simp add: bread_def)
  next
    case False
    let ?u = "upd_buf (Buf i) (after_read (disk k1 bn)) k1"
    let ?k' = "wakeup (ChBuf (Buf i)) ?u"
    have hb: "b_dev (bufp k1 (Buf i)) = dv" "b_blkno (bufp k1 (Buf i)) = bn" using o'(4) by (auto simp: holds_def)
    have dirty: "dirty_ok dv k1 i" using data o'(1) by (simp add: data_ok_def)
    then have f: "\<not> bflag k1 i B_DELWRI" "\<not> bflag k1 i B_ERROR"
      using False hb r by (auto simp: dirty_ok_def Let_def)
    have busy: "bflag k1 i B_BUSY" using in_use [OF o'(3), of i] by blast
    have run: "bread dv bn k = Ret (Buf i) ?k'"
      using g False bread_miss [OF dev hb(2) r False o'(6) f(2)] by (simp add: bread_def)
    have af: "hasf (b_flags (after_read d (bufp k1 (Buf i)))) B_BUSY" "hasf (b_flags (after_read d (bufp k1 (Buf i)))) B_DONE"
      "\<not> hasf (b_flags (after_read d (bufp k1 (Buf i)))) B_ERROR" "\<not> hasf (b_flags (after_read d (bufp k1 (Buf i)))) B_DELWRI"
      "\<not> hasf (b_flags (after_read d (bufp k1 (Buf i)))) B_ASYNC" for d
      using f busy o'(6) by (simp_all add: after_read_def hasf_mask hasf_or) (simp_all add: hasf_def)
    have ki: "keeps_identity (after_read d)" for d by (simp add: keeps_identity_def after_read_def)
    have d: "dirty_ok dv ?u i" using af by (simp add: dirty_ok_def Let_def)
    note u = upd_at [OF o'(3) insertI1 ki af(1) d]
    have ca: "clip (b_addr (after_read d b)) = clip d" for d b by (auto simp: after_read_def clip_def fun_eq_iff)
    have hb': "holds dv k1 i b \<longleftrightarrow> b = bn" for b using hb by (auto simp: holds_def)
    have cd: "content dv k1 bn = clip (disk k1 bn)"
    proof (rule content_disk)
      show "\<not> bflag k1 j B_DONE" if "j < NBUF" "holds dv k1 j bn" for j
        using that o'(1,4) False data unfolding data_ok_def by metis
    qed
    have cont: "content dv ?u b = content dv k b" if "in_range b" for b
      using u(2) [of b] hb' [of b] af(2) ca cd o'(9) [OF that] o'(9) [OF r] by simp
    have bio: "k_bio ?k' = k_bio ?u" by simp
    have "cache_at dv ?k' (insert i B)" using u(1) by (simp add: cache_at_def cache_inv_def)
    moreover have "holds dv ?k' i bn" using hb by (simp add: holds_def after_read_def)
    moreover have "clean dv ?k' i" using ca hb by (simp add: clean_def Let_def after_read_def)
    moreover have "bio_frame k ?k'" using o'(7) by simp
    moreover have "same_buf k ?k' j" if "j \<in> B" for j
      using o'(2,8) that by (auto simp: same_buf_def Let_def)
    moreover have "clean dv ?k' j" if "j \<in> B" "clean dv k j" for j
      using o o'(2) that by (intro clean_keep [of k1 ?k' j]) (auto simp: obtained_def same_buf_def Let_def)
    ultimately have "obtained dv k B bn i ?k'"
      using o'(1,2) af cont by (simp add: obtained_def)
    moreover have "clip (b_addr (bufp ?k' (Buf i))) = content dv k bn"
      using ca cd o'(9) [OF r] by simp
    ultimately show ?thesis using run af(2) by (intro exI [of _ i] exI [of _ ?k']) simp
  qed
qed

subsection \<open>Starting the cache\<close>

lemma binit_buf_step:
  assumes "av_ring k fl" "i \<notin> set fl"
  shows "av_ring (binit_buf i k) (fl @ [i])"
    and "bufp (binit_buf i k) (Buf i) = (bufp (binit_buf i k) (Buf i))\<lparr>b_flags := 0, b_dev := NODEV, b_forw := Buf i, b_back := Buf i\<rparr>"
    and "j \<noteq> i \<Longrightarrow> same_buf k (binit_buf i k) j \<and> b_forw (bufp (binit_buf i k) (Buf j)) = b_forw (bufp k (Buf j))
      \<and> b_back (bufp (binit_buf i k) (Buf j)) = b_back (bufp k (Buf j))"
    and "bdevsw (k_bio (binit_buf i k)) = bdevsw (k_bio k)" "disk (binit_buf i k) = disk k"
proof -
  let ?u = "upd_buf (Buf i) (\<lambda>b. b\<lparr>b_dev := NODEV, b_forw := Buf i, b_back := Buf i, b_flags := B_BUSY\<rparr>) k"
  have m: "av_ring (marks (Buf i) ?u) fl"
  proof -
    have a: "av_forw (bufp (marks (Buf i) ?u) p) = av_forw (bufp k p)" "av_back (bufp (marks (Buf i) ?u) p) = av_back (bufp k p)" for p
      by (simp_all add: marks_def Let_def)
    then show ?thesis using assms(1) by (simp only: a)
  qed
  have "Buf i \<notin> set (FreeHd # map Buf fl)" using assms(2) by auto
  from av.append_ring(1) [OF m this] show "av_ring (binit_buf i k) (fl @ [i])"
    by (simp add: binit_buf_def brelse_marks av_append_def Let_def)
  show "bufp (binit_buf i k) (Buf i) = (bufp (binit_buf i k) (Buf i))\<lparr>b_flags := 0, b_dev := NODEV, b_forw := Buf i, b_back := Buf i\<rparr>"
    by (simp add: binit_buf_def brelse_marks marks_buf)
  show "same_buf k (binit_buf i k) j \<and> b_forw (bufp (binit_buf i k) (Buf j)) = b_forw (bufp k (Buf j))
      \<and> b_back (bufp (binit_buf i k) (Buf j)) = b_back (bufp k (Buf j))" if "j \<noteq> i"
    using that by (simp add: binit_buf_def brelse_marks marks_buf same_buf_def)
  show "bdevsw (k_bio (binit_buf i k)) = bdevsw (k_bio k)" "disk (binit_buf i k) = disk k"
    by (simp_all add: binit_buf_def brelse_marks marks_def av_append_def Let_def)
qed

definition idle_buf :: "kernel \<Rightarrow> nat \<Rightarrow> bool" where
  "idle_buf k i \<longleftrightarrow> (let b = bufp k (Buf i) in b_flags b = 0 \<and> b_dev b = NODEV \<and> b_forw b = Buf i \<and> b_back b = Buf i)"

lemma binit_bufs:
  assumes "av_ring k []"
  shows "let k' = fold binit_buf [0..<n] k in av_ring k' [0..<n] \<and> (\<forall>i<n. idle_buf k' i)
    \<and> bdevsw (k_bio k') = bdevsw (k_bio k) \<and> disk k' = disk k"
proof (induction n)
  case 0
  then show ?case using assms by simp
next
  case (Suc n)
  let ?k = "fold binit_buf [0..<n] k"
  have a: "av_ring ?k [0..<n]" using Suc by (simp add: Let_def)
  note s = binit_buf_step [OF a, of n]
  have "idle_buf (binit_buf n ?k) i" if "i < Suc n" for i
  proof (cases "i = n")
    case True
    have "bufp (binit_buf n ?k) (Buf n) = (bufp (binit_buf n ?k) (Buf n))\<lparr>b_flags := 0, b_dev := NODEV, b_forw := Buf n, b_back := Buf n\<rparr>"
      using s(2) by simp
    then show ?thesis unfolding True idle_buf_def Let_def
      by (metis (no_types, lifting) buf.select_convs(1-3,6) buf.surjective buf.update_convs(1-3,6))
  next
    case False
    then have "idle_buf ?k i" using that Suc by (simp add: Let_def)
    with s(3) [of i] False show ?thesis by (simp add: idle_buf_def same_buf_def Let_def)
  qed
  with s(1,4,5) Suc show ?case by (simp add: Let_def)
qed

lemma binit_devs_frame:
  "bufp (binit_devs m ds k) (Buf i) = bufp k (Buf i)" "bufp (binit_devs m ds k) FreeHd = bufp k FreeHd"
  "bdevsw (k_bio (binit_devs m ds k)) = bdevsw (k_bio k)" "ramdisk (k_bio (binit_devs m ds k)) = ramdisk (k_bio k)"
  "j < m \<Longrightarrow> bufp (binit_devs m ds k) (DevTab j) = bufp k (DevTab j)"
  by (induction ds arbitrary: m k) (simp_all add: Let_def bufp_def upd_buf_def)

abbreviation (input) drivers :: "bdevent list \<Rightarrow> nat" where
  "drivers ds \<equiv> length (takeWhile (\<lambda>d. d_strategy d \<noteq> NoDrv) ds)"

lemma binit_devs_count: "nblkdev (k_bio (binit_devs m ds k)) = nblkdev (k_bio k) + drivers ds"
  by (induction ds arbitrary: m k) (simp_all add: Let_def upd_buf_def)

lemma binit_devs_tab:
  "i < drivers ds \<Longrightarrow> d_tab (ds ! i) \<Longrightarrow>
   b_forw (bufp (binit_devs m ds k) (DevTab (m + i))) = DevTab (m + i)
     \<and> b_back (bufp (binit_devs m ds k) (DevTab (m + i))) = DevTab (m + i)"
proof (induction ds arbitrary: m k i)
  case Nil
  then show ?case by simp
next
  case (Cons d ds)
  then have d: "d_strategy d \<noteq> NoDrv" by (auto split: if_splits)
  show ?case
  proof (cases i)
    case 0
    with Cons.prems d show ?thesis
      by (simp add: Let_def binit_devs_frame(5)) (simp add: bufp_def upd_buf_def)
  next
    case (Suc j)
    with Cons.prems d Cons.IH [of j "Suc m"] show ?thesis by (simp add: Let_def)
  qed
qed

lemma idle_data:
  assumes "\<forall>i<NBUF. idle_buf k i" "dv \<noteq> NODEV" "set fl = {..<NBUF}"
  shows "data_ok dv k fl ch" "content dv k bn = clip (disk k bn)"
proof -
  have i: "b_flags (bufp k (Buf i)) = 0" "b_dev (bufp k (Buf i)) = NODEV" if "i < NBUF" for i
    using assms(1) that by (auto simp: idle_buf_def Let_def)
  then show "data_ok dv k fl ch"
    using assms(2,3) by (auto simp: data_ok_def holds_def dirty_ok_def clean_def Let_def)
  show "content dv k bn = clip (disk k bn)"
    by (rule content_disk) (use i in simp)
qed

lemma binit_ok:
  assumes dv: "dv \<noteq> NODEV" and d: "major dv < drivers (bdevsw (k_bio k))"
    "bdevsw (k_bio k) ! major dv = \<lparr>d_strategy = RamDrv, d_tab = True\<rparr>"
  shows "cache_at dv (binit k) {}" "content dv (binit k) bn = clip (disk k bn)"
    "i < NBUF \<Longrightarrow> b_dev (bufp (binit k) (Buf i)) = NODEV"
proof -
  let ?k1 = "upd_buf FreeHd (\<lambda>b. b\<lparr>b_forw := FreeHd, b_back := FreeHd, av_forw := FreeHd, av_back := FreeHd, b_flags := 0\<rparr>) k"
  let ?k2 = "fold binit_buf [0..<NBUF] ?k1"
  let ?k3 = "?k2\<lparr>k_bio := (k_bio ?k2)\<lparr>nblkdev := 0\<rparr>\<rparr>"
  let ?k = "binit k"
  have b: "?k = binit_devs 0 (bdevsw (k_bio ?k3)) ?k3" by (simp only: binit_def Let_def)
  have b3: "bufp ?k3 = bufp ?k2" by (simp add: bufp_def fun_eq_iff)
  have "av_ring ?k1 []" by (simp add: ring_def)
  note bb = binit_bufs [OF this, of NBUF, unfolded Let_def upd_buf_bio disk_upd_buf]
  have s2: "av_ring ?k2 [0..<NBUF]" "\<forall>i<NBUF. idle_buf ?k2 i" "bdevsw (k_bio ?k2) = bdevsw (k_bio k)" "disk ?k2 = disk k"
    using bb by blast+
  have bd: "bdevsw (k_bio ?k3) = bdevsw (k_bio k)" using s2(3) by simp
  have fr: "bufp ?k (Buf i) = bufp ?k2 (Buf i)" "bufp ?k FreeHd = bufp ?k2 FreeHd" for i
    unfolding b binit_devs_frame b3 by (rule refl)+
  have idle: "\<forall>i<NBUF. idle_buf ?k i" using s2(2) by (simp only: idle_buf_def fr)
  have av: "av_ring ?k [0..<NBUF]"
    using s2(1) by (subst ring_cong [where nx' = "\<lambda>p. av_forw (bufp ?k2 p)" and pv' = "\<lambda>p. av_back (bufp ?k2 p)"])
      (auto simp: fr simp del: upt_rec_numeral)
  have "dev_ring ?k (DevTab (major dv)) []"
    using binit_devs_tab [of "major dv" "bdevsw (k_bio k)" 0 ?k3] d
    unfolding b bd by (simp add: ring_def)
  then have lists: "lists_ok dv ?k [0..<NBUF] []"
    using av idle by (simp add: lists_ok_def idle_buf_def Let_def atLeast0LessThan)
  have "major dv < length (bdevsw (k_bio k))"
    using d(1) length_takeWhile_le [of "\<lambda>d. d_strategy d \<noteq> NoDrv" "bdevsw (k_bio k)"] by linarith
  then have dev: "dev_ok dv ?k"
    using dv d unfolding b dev_ok_def bdev_def binit_devs_frame binit_devs_count bd by simp
  have dk: "disk ?k = disk k"
  proof -
    have "ramdisk (k_bio ?k) = ramdisk (k_bio ?k2)" unfolding b binit_devs_frame by simp
    then have "disk ?k = disk ?k2" by (simp add: disk_def fun_eq_iff)
    with s2(4) show ?thesis by simp
  qed
  have "data_ok dv ?k [0..<NBUF] []" by (rule idle_data [OF idle dv]) (simp add: atLeast0LessThan)
  with lists dev have "cache_inv dv ?k [0..<NBUF] []" by (simp add: cache_inv_def)
  then show "cache_at dv ?k {}" using cache_at_inv by (fastforce simp: atLeast0LessThan)
  show "content dv ?k bn = clip (disk k bn)"
    using idle_data(2) [OF idle dv, of "[0..<NBUF]"] by (simp add: dk atLeast0LessThan)
  show "i < NBUF \<Longrightarrow> b_dev (bufp ?k (Buf i)) = NODEV" using idle by (simp add: idle_buf_def Let_def)
qed

subsection \<open>bflush\<close>

lemma upd_buf_commute:
  "p \<noteq> q \<or> f (g (bufp k p)) = g (f (bufp k p)) \<Longrightarrow> upd_buf p f (upd_buf q g k) = upd_buf q g (upd_buf p f k)"
  by (auto simp: upd_buf_def bufp_def fun_upd_twist)

lemma notavail_async:
  "notavail (Buf i) (upd_buf (Buf i) (set_flags B_ASYNC) k) = upd_buf (Buf i) (set_flags B_ASYNC) (notavail (Buf i) k)"
  unfolding notavail_def av_unlink_def Let_def
  by (simp add: upd_buf_commute [of _ "Buf i" _ "set_flags B_ASYNC"] set_flags_def or.assoc or.commute or.left_commute)

lemma av_walk:
  assumes "av_ring k fl" "set fl \<subseteq> {..<NBUF}"
  shows "walk (NBUF + 1) (\<lambda>bp. av_forw (bufp k bp)) t FreeHd (av_forw (bufp k FreeHd)) = Some (find t (map Buf fl))"
proof -
  have "distinct fl" using assms(1) by (simp add: ring_def distinct_map)
  then have "length fl \<le> NBUF"
    using card_mono [OF finite_lessThan assms(2)] by (simp add: distinct_card)
  with walk_chain [of "\<lambda>p. av_forw (bufp k p)" FreeHd "map Buf fl" FreeHd "NBUF + 1" t] assms(1)
  show ?thesis by (auto simp: ring_def)
qed

text \<open>One write-behind: a free delayed buffer is taken off the list and written.\<close>

lemma flush_one:
  assumes inv: "cache_inv dv k (xs @ i # ys) ch" and dw: "bflag k i B_DELWRI"
  shows "\<exists>k'. bwrite (Buf i) (upd_buf (Buf i) (set_flags B_ASYNC) (notavail (Buf i) k)) = Ret () k'
    \<and> cache_inv dv k' (xs @ ys @ [i]) ch \<and> bio_frame k k' \<and> \<not> bflag k' i B_DELWRI
    \<and> (\<forall>j. j \<noteq> i \<longrightarrow> same_buf k k' j) \<and> (\<forall>b. in_range b \<longrightarrow> content dv k' b = content dv k b)"
proof -
  have ok: "lists_ok dv k (xs @ i # ys) ch" "data_ok dv k (xs @ i # ys) ch" using inv by (auto simp: cache_inv_def)
  have i: "i < NBUF" "i \<notin> set (xs @ ys)" using ok(1) by (auto simp: lists_ok_def ring_def distinct_map)
  note na = notavail_inv [OF inv]
  let ?k1 = "notavail (Buf i) k" and ?k2 = "upd_buf (Buf i) (set_flags B_ASYNC) (notavail (Buf i) k)"
  define bn0 where "bn0 = b_blkno (bufp k (Buf i))"
  have di: "b_dev (bufp k (Buf i)) = dv" "in_range bn0" "bflag k i B_DONE" "\<not> bflag k i B_ERROR"
    using ok(2) i(1) dw by (auto simp: data_ok_def dirty_ok_def Let_def bn0_def)
  have f1: "b_flags (bufp ?k1 (Buf i)) = b_flags (bufp k (Buf i)) OR B_BUSY" by (simp add: notavail_buf)
  have f2: "hasf (b_flags (set_flags B_ASYNC (bufp ?k1 (Buf i)))) B_BUSY"
    "hasf (b_flags (set_flags B_ASYNC (bufp ?k1 (Buf i)))) B_DONE"
    "\<not> hasf (b_flags (set_flags B_ASYNC (bufp ?k1 (Buf i)))) B_ERROR"
    using di by (simp_all add: f1 hasf_or) (simp_all add: hasf_def)
  have g: "keeps_identity (set_flags B_ASYNC)" by (simp add: keeps_identity_def)
  have dd: "dirty_ok dv ?k2 i" using f2 di by (simp add: dirty_ok_def Let_def notavail_buf bn0_def)
  note u = upd_busy_inv [OF na(1) i g f2(1) dd]
  have h2: "holds dv ?k2 i bn0" using di by (simp add: holds_def notavail_buf bn0_def)
  have hb: "holds dv k i b \<longleftrightarrow> b = bn0" for b using di by (auto simp: holds_def bn0_def)
  have h1: "holds dv ?k1 j b = holds dv k j b" for j b by (simp add: holds_def notavail_buf)
  have ck: "content dv k bn0 = clip (b_addr (bufp k (Buf i)))"
    using content_cached [OF ok(2) i(1), of bn0] hb di by simp
  have c2: "content dv ?k2 b = content dv k b" for b
    using u(2) [of b] f2(2) h1 hb na(2) ck by (simp add: notavail_buf)
  obtain k3 where w: "bwrite (Buf i) ?k2 = Ret () k3" "cache_inv dv k3 ((xs @ ys) @ [i]) ch" "bio_frame ?k2 k3"
    "\<And>b. in_range b \<Longrightarrow> content dv k3 b = (if b = bn0 then clip (b_addr (bufp ?k2 (Buf i))) else content dv ?k2 b)"
    "\<And>j. j \<noteq> i \<Longrightarrow> same_buf ?k2 k3 j" "\<not> bflag k3 i B_DELWRI"
    using bwrite_inv [OF u(1) i h2 di(2)] by blast
  have c3: "content dv k3 b = content dv k b" if "in_range b" for b
    using w(4) [OF that] c2 ck by (simp add: notavail_buf)
  have s3: "same_buf k k3 j" if "j \<noteq> i" for j
  proof -
    have "same_buf k ?k2 j" using notavail_buf(1) [OF that, of k] that by (simp add: same_buf_def)
    then show ?thesis using w(5) [OF that] by (rule same_buf_trans)
  qed
  have "bio_frame k k3" using w(3) by (simp add: bio_frame_def notavail_def av_unlink_def Let_def)
  with w(1,2,6) c3 s3 show ?thesis by auto
qed

lemma flush_less:
  assumes "distinct (xs @ i # ys)" "bflag k i B_DELWRI" "\<not> bflag k' i B_DELWRI" "\<And>j. j \<noteq> i \<Longrightarrow> same_buf k k' j"
  shows "dirty_free k' (xs @ ys @ [i]) < dirty_free k (xs @ i # ys)"
proof -
  have "bflag k' j B_DELWRI = bflag k j B_DELWRI" if "j \<in> set (xs @ ys)" for j
    using that assms(1) by (intro same_buf_facts(1) assms(4)) auto
  then have "{j \<in> set (xs @ ys @ [i]). bflag k' j B_DELWRI} = {j \<in> set (xs @ i # ys). bflag k j B_DELWRI} - {i}"
    using assms(1,3) by auto
  moreover have "i \<in> {j \<in> set (xs @ i # ys). bflag k j B_DELWRI}" using assms(2) by simp
  ultimately show ?thesis
    unfolding dirty_free_def by (simp only:) (rule card_Diff1_less, simp_all)
qed

lemma bflush_loop_ok:
  "cache_inv dv k fl ch \<Longrightarrow> dev = dv \<or> dev = NODEV \<Longrightarrow> dirty_free k fl \<le> n \<Longrightarrow>
   \<exists>k' fl'. bflush_loop n dev k = Ret () k' \<and> cache_inv dv k' fl' ch \<and> set fl' = set fl \<and> bio_frame k k'
     \<and> (\<forall>b. in_range b \<longrightarrow> content dv k' b = content dv k b) \<and> (\<forall>i\<in>set fl. \<not> bflag k' i B_DELWRI)
     \<and> (\<forall>j. j \<notin> set fl \<longrightarrow> same_buf k k' j)"
proof (induction n arbitrary: k fl rule: less_induct)
  case (less n)
  note inv = less.prems(1)
  have ok: "lists_ok dv k fl ch" "data_ok dv k fl ch" using inv by (auto simp: cache_inv_def)
  let ?t = "\<lambda>bp. flagged k bp B_DELWRI \<and> (dev = NODEV \<or> b_dev (bufp k bp) = dev)"
  have t: "?t (Buf i) \<longleftrightarrow> bflag k i B_DELWRI" if "i \<in> set fl" for i
    using that ok less.prems(2) by (auto simp: data_ok_def dirty_ok_def Let_def lists_ok_def)
  have w: "walk (NBUF + 1) (\<lambda>bp. av_forw (bufp k bp)) ?t FreeHd (av_forw (bufp k FreeHd)) = Some (find ?t (map Buf fl))"
    using ok(1) by (intro av_walk) (auto simp: lists_ok_def)
  show ?case
  proof (cases "find ?t (map Buf fl)")
    case None
    then have "\<forall>i\<in>set fl. \<not> bflag k i B_DELWRI" using t by (auto simp: find_None_iff)
    moreover have "bflush_loop n dev k = Ret () k" by (subst bflush_loop.simps) (simp only: w None option.case)
    ultimately show ?thesis using inv by (intro exI [of _ k] exI [of _ fl]) simp
  next
    case (Some p)
    then obtain i where p: "p = Buf i" "i \<in> set fl" "?t (Buf i)" by (auto simp: find_Some_iff)
    then have dw: "bflag k i B_DELWRI" by simp
    obtain xs ys where fl: "fl = xs @ i # ys" using p(2) by (meson split_list)
    have d: "distinct (xs @ i # ys)" using ok(1) unfolding fl lists_ok_def ring_def by (metis distinct.simps(2) distinct_map)
    obtain k1 where k1: "bwrite (Buf i) (upd_buf (Buf i) (set_flags B_ASYNC) (notavail (Buf i) k)) = Ret () k1"
      "cache_inv dv k1 (xs @ ys @ [i]) ch" "bio_frame k k1" "\<not> bflag k1 i B_DELWRI"
      "\<And>j. j \<noteq> i \<Longrightarrow> same_buf k k1 j" "\<And>b. in_range b \<Longrightarrow> content dv k1 b = content dv k b"
      using flush_one [OF inv [unfolded fl] dw] by blast
    have lt: "dirty_free k1 (xs @ ys @ [i]) < dirty_free k fl"
      unfolding fl by (rule flush_less [OF d dw k1(4,5)])
    then obtain m where m: "n = Suc m" using less.prems(3) by (cases n) auto
    have run: "bflush_loop n dev k = bflush_loop m dev k1"
      by (subst bflush_loop.simps) (simp only: w Some option.case p(1) notavail_async kseq_Ret [where m = "bwrite (Buf i)", OF k1(1)] m nat.case)
    have le: "dirty_free k1 (xs @ ys @ [i]) \<le> m" using lt less.prems(3) m by linarith
    have "m < n" using m by simp
    from less.IH [OF this k1(2) less.prems(2) le] obtain k' fl' where r: "bflush_loop m dev k1 = Ret () k'"
      "cache_inv dv k' fl' ch" "set fl' = set (xs @ ys @ [i])" "bio_frame k1 k'"
      "\<And>b. in_range b \<Longrightarrow> content dv k' b = content dv k1 b" "\<forall>i\<in>set (xs @ ys @ [i]). \<not> bflag k' i B_DELWRI"
      "\<And>j. j \<notin> set (xs @ ys @ [i]) \<Longrightarrow> same_buf k1 k' j" by blast
    have s: "set (xs @ ys @ [i]) = set fl" using fl by auto
    have "same_buf k k' j" if "j \<notin> set fl" for j
      using k1(5) [of j] r(7) [of j] that s p(2) by (metis same_buf_trans)
    moreover have "bio_frame k k'" using k1(3) r(4) by (rule bio_frame_trans)
    ultimately show ?thesis
      using run r k1(6) unfolding s by (intro exI [of _ k'] exI [of _ fl']) simp
  qed
qed

lemma bflush_ok:
  assumes c: "cache_at dv k B" and d: "dev = dv \<or> dev = NODEV"
  shows "\<exists>k'. bflush dev k = Ret () k' \<and> cache_at dv k' B \<and> bio_frame k k'
    \<and> (\<forall>b. in_range b \<longrightarrow> content dv k' b = content dv k b)
    \<and> (\<forall>b. in_range b \<longrightarrow> (\<exists>i\<in>B. holds dv k i b) \<or> clip (disk k' b) = content dv k b)"
proof -
  obtain fl ch where inv: "cache_inv dv k fl ch" "set fl = {..<NBUF} - B" and B: "B \<subseteq> {..<NBUF}"
    using c by (auto simp: cache_at_def)
  have "dirty_free k fl \<le> card {..<NBUF}"
    unfolding dirty_free_def by (rule card_mono) (use inv in auto)
  then have le: "dirty_free k fl \<le> NBUF + 1" by simp
  obtain k' fl' where r: "bflush dev k = Ret () k'" "cache_inv dv k' fl' ch" "set fl' = set fl" "bio_frame k k'"
    "\<And>b. in_range b \<Longrightarrow> content dv k' b = content dv k b" "\<And>i. i \<in> set fl \<Longrightarrow> \<not> bflag k' i B_DELWRI"
    "\<And>j. j \<notin> set fl \<Longrightarrow> same_buf k k' j"
    using bflush_loop_ok [OF inv(1) d le] unfolding bflush_def by blast
  have data: "data_ok dv k' fl' ch" using r(2) by (simp add: cache_inv_def)
  have "clip (disk k' b) = content dv k b" if b: "in_range b" "\<not> (\<exists>i\<in>B. holds dv k i b)" for b
    using data
  proof (cases rule: content_cases [where bn = b])
    case (cached i)
    have "i \<in> set fl"
    proof (rule ccontr)
      assume "i \<notin> set fl"
      then have "i \<in> B" using cached(1) inv(2) by auto
      moreover have "holds dv k i b" using cached(2) same_buf_facts(2) [OF r(7) [OF \<open>i \<notin> set fl\<close>]] by simp
      ultimately have "i \<in> B" "holds dv k i b" .
      with b(2) show False by blast
    qed
    then have "clean dv k' i" "\<not> bflag k' i B_DELWRI" using data r(3,6) by (auto simp: data_ok_def)
    then have "clip (b_addr (bufp k' (Buf i))) = clip (disk k' b)"
      using cached(2,3) b(1) by (auto simp: clean_def Let_def holds_def)
    with cached(4) r(5) [OF b(1)] show ?thesis by simp
  next
    case disk
    with r(5) [OF b(1)] show ?thesis by simp
  qed
  moreover have "cache_at dv k' B" using r(2,3) inv(2) B by (auto simp: cache_at_def)
  ultimately show ?thesis using r(1,4,5) by blast
qed

subsection \<open>Properties\<close>

text \<open>A machine whose only block device is the RAM disk, with a fresh cache.\<close>

definition rd_kernel :: kernel where
  "rd_kernel = binit (zero_kernel\<lparr>k_bio := (k_bio zero_kernel)\<lparr>bdevsw :=
     \<lparr>d_strategy = RamDrv, d_tab = True\<rparr> # replicate 3 \<lparr>d_strategy = NoDrv, d_tab = False\<rparr>\<rparr>\<rparr>)"

lemma major_0 [simp]: "major 0 = 0"
  by (simp add: major_def)

lemma not_in_use: "cache_at dv k B \<Longrightarrow> i \<in> B \<Longrightarrow> holds dv k i bn \<Longrightarrow> j \<in> B - {i} \<Longrightarrow> \<not> holds dv k j bn"
  unfolding cache_at_def cache_inv_def data_ok_def by (metis DiffD1 DiffD2 insertI1 lessThan_iff subsetD)

lemma some_free [simp]: "{} \<noteq> {..<NBUF}"
  by (metis empty_iff lessThan_iff zero_less_numeral)

lemma major_NODEV: "major NODEV = 255"
  by (simp add: major_def mask_eq_exp_minus_1)

text \<open>C9: \<^verbatim>\<open>binit\<close>, run with the RAM disk registered, leaves every buffer free and
  unassigned: the cache invariant holds with no buffer in use, and every block reads as the
  disk has it.\<close>

theorem binit_establishes:
  assumes "dv \<noteq> NODEV" "major dv < length (takeWhile (\<lambda>d. d_strategy d \<noteq> NoDrv) (bdevsw (k_bio k)))"
    and "bdevsw (k_bio k) ! major dv = \<lparr>d_strategy = RamDrv, d_tab = True\<rparr>"
  shows "cache_at dv (binit k) {} \<and> content dv (binit k) bn = clip (disk k bn)"
  using binit_ok [OF assms] by blast

theorem binit_establishes_witness: "cache_at 0 rd_kernel {} \<and> content 0 rd_kernel 3 = clip (\<lambda>_. 0)"
  using binit_establishes [of 0 "zero_kernel\<lparr>k_bio := (k_bio zero_kernel)\<lparr>bdevsw :=
     \<lparr>d_strategy = RamDrv, d_tab = True\<rparr> # replicate 3 \<lparr>d_strategy = NoDrv, d_tab = False\<rparr>\<rparr>\<rparr>" 3]
  by (simp add: rd_kernel_def) (simp add: zero_kernel_def disk_def)

lemma rd_kernel_ok: "cache_at 0 rd_kernel {}"
  unfolding rd_kernel_def by (rule binit_ok) simp_all

lemma rd_kernel_nodev: "i < NBUF \<Longrightarrow> b_dev (bufp rd_kernel (Buf i)) = NODEV"
  unfolding rd_kernel_def by (rule binit_ok(3) [of 0]) simp_all

lemma rd_kernel_content: "content 0 rd_kernel bn = clip (\<lambda>_. 0)"
  unfolding rd_kernel_def by (subst binit_ok(2)) (simp_all add: zero_kernel_def disk_def)

text \<open>C2: As long as some buffer is free and nobody is using the block, \<^verbatim>\<open>bread\<close>
  returns: the buffer it returns belongs to the block, is marked valid and busy, holds the block's
  contents, and no block's contents change, whichever of the delayed writes the search for a
  buffer had to push to the disk.\<close>

theorem bread_transparent:
  assumes "cache_at dv k B" "B \<noteq> {..<NBUF}" "\<forall>j\<in>B. \<not> holds dv k j bn" "in_range bn"
  shows "\<exists>i k'. bread dv bn k = Ret (Buf i) k' \<and> i \<notin> B \<and> cache_at dv k' (insert i B)
    \<and> holds dv k' i bn \<and> flagged k' (Buf i) B_DONE
    \<and> clip (b_addr (bufp k' (Buf i))) = content dv k bn
    \<and> (\<forall>b. \<not> in_range b \<or> content dv k' b = content dv k b)"
  using bread_ok [of dv k B bn] assms unfolding obtained_def by blast

theorem bread_transparent_witness:
  "\<exists>i k'. bread 0 7 rd_kernel = Ret (Buf i) k' \<and> holds 0 k' i 7"
  using bread_transparent [OF rd_kernel_ok, of 7] by (auto simp: in_range_def)

text \<open>C3: A delayed write is not lost: after \<^verbatim>\<open>bdwrite\<close> releases a buffer, the next
  \<^verbatim>\<open>bread\<close> of its block returns the data that was in it.\<close>

theorem bdwrite_bread:
  assumes "cache_at dv k B" "i \<in> B" "holds dv k i bn" "in_range bn"
  shows "\<exists>j k'. bread dv bn (bdwrite (Buf i) k) = Ret (Buf j) k' \<and> cache_at dv k' (insert j (B - {i}))
    \<and> clip (b_addr (bufp k' (Buf j))) = clip (b_addr (bufp k (Buf i)))"
proof -
  note w = bdwrite_at [OF assms]
  have i: "i < NBUF" using in_use [OF assms(1,2)] by metis
  have "B - {i} \<noteq> {..<NBUF}" using i by auto
  moreover have "\<not> holds dv (bdwrite (Buf i) k) j bn" if "j \<in> B - {i}" for j
    using not_in_use [OF assms(1-3) that] same_buf_facts(2) [OF w(4) [OF that]] by simp
  ultimately obtain j k' where "bread dv bn (bdwrite (Buf i) k) = Ret (Buf j) k'"
    "obtained dv (bdwrite (Buf i) k) (B - {i}) bn j k'" "clip (b_addr (bufp k' (Buf j))) = content dv (bdwrite (Buf i) k) bn"
    using bread_ok [OF w(1) _ _ assms(4)] by blast
  with w(3) [OF assms(4)] show ?thesis by (auto simp: obtained_def)
qed

theorem bdwrite_bread_witness: "\<exists>k i j k'. bread 0 7 (bdwrite (Buf i) k) = Ret (Buf j) k'"
proof -
  obtain i k where "obtained 0 rd_kernel {} 7 i k"
    using getblk_ok [OF rd_kernel_ok, of 7] by auto
  then have "cache_at 0 k {i}" "holds 0 k i 7" by (simp_all add: obtained_def)
  with bdwrite_bread [of 0 k "{i}" i 7] show ?thesis by (auto simp: in_range_def)
qed

text \<open>C4: \<^verbatim>\<open>bflush\<close> ends and writes everything back: the contents stay what they were,
  and the disk itself then holds the contents of every block that is not in use.\<close>

theorem bflush_syncs:
  assumes "cache_at dv k B" "dev = dv \<or> dev = NODEV"
  shows "\<exists>k'. bflush dev k = Ret () k' \<and> cache_at dv k' B
    \<and> (\<forall>b. \<not> in_range b \<or> content dv k' b = content dv k b
         \<and> ((\<exists>i\<in>B. holds dv k i b) \<or> clip (disk k' b) = content dv k b))"
  using bflush_ok [OF assms] by blast

theorem bflush_syncs_witness: "\<exists>k'. bflush NODEV rd_kernel = Ret () k'"
  using bflush_syncs [OF rd_kernel_ok, of NODEV] by auto

lemma bdwrite_of_error:
  assumes "flagged k (Buf i) B_ERROR" "length (bdevsw (k_bio k)) = NBLKDEV"
  shows "flagged (bdwrite (Buf i) k) (Buf i) B_DELWRI
    \<and> (\<exists>k'. bwrite (Buf i) (bdwrite (Buf i) k) = Stop OutOfBounds k')"
proof -
  let ?u = "upd_buf (Buf i) (set_flags (B_DELWRI OR B_DONE)) k"
  let ?k = "bdwrite (Buf i) k"
  have e: "bflag ?u i B_ERROR" "bflag ?u i B_DELWRI" using assms(1) by (simp_all add: hasf_or) (simp add: hasf_def)
  have d: "b_dev (bufp ?k (Buf i)) = NODEV" "bflag ?k i B_DELWRI"
    using e by (simp_all add: bdwrite_def brelse_buf del: bufp_upd_buf)
  have "bdevsw (k_bio ?k) = bdevsw (k_bio k)"
    by (simp add: bdwrite_def brelse_marks marks_def av_append_def Let_def)
  then have "bdev NODEV (upd_buf (Buf i) g ?k) = None" for g
    using assms(2) by (simp add: bdev_def major_NODEV)
  with d show ?thesis
    by (simp add: bwrite_def Let_def strategy_def kseq_def kbind_def)
qed

subsection \<open>breada\<close>

lemma kbind_assoc: "kbind (kbind m f) g = kbind m (\<lambda>x. kbind (f x) g)"
  by (simp add: kbind_def fun_eq_iff split: res.splits)

lemma kseq_assoc: "kbind (kseq m n) g = kseq m (kbind n g)"
  by (simp add: kseq_def kbind_assoc)

lemma kbind_ret: "kbind (ret x) f = f x"
  by (simp add: kbind_def fun_eq_iff)

lemma kseq_ret: "kseq (ret ()) n = n"
  by (simp add: kseq_def kbind_ret)

lemma obtained_flags:
  assumes "obtained dv k B bn i k1" "in_range bn"
  shows "dev_ok dv k1" "b_blkno (bufp k1 (Buf i)) = bn" "\<not> bflag k1 i B_ASYNC" "\<not> bflag k1 i B_ERROR"
    "\<not> bflag k1 i B_DONE \<Longrightarrow> \<not> bflag k1 i B_DELWRI"
proof -
  have o: "i < NBUF" "cache_at dv k1 (insert i B)" "holds dv k1 i bn" "\<not> bflag k1 i B_ASYNC"
    using assms(1) by (auto simp: obtained_def)
  obtain fl ch where inv: "cache_inv dv k1 fl ch" using in_use [OF o(2), of i] by blast
  then show "dev_ok dv k1" by (simp add: cache_inv_def)
  have hb: "b_dev (bufp k1 (Buf i)) = dv" "b_blkno (bufp k1 (Buf i)) = bn" using o(3) by (auto simp: holds_def)
  have d: "dirty_ok dv k1 i" using inv o(1) by (auto simp: cache_inv_def data_ok_def)
  show "b_blkno (bufp k1 (Buf i)) = bn" "\<not> bflag k1 i B_ASYNC" "\<not> bflag k1 i B_ERROR"
    "\<not> bflag k1 i B_DONE \<Longrightarrow> \<not> bflag k1 i B_DELWRI"
    using hb o(4) d assms(2) by (auto simp: dirty_ok_def Let_def)
qed

text \<open>Without a block to read ahead \<^verbatim>\<open>breada\<close> is \<^verbatim>\<open>bread\<close>.\<close>

lemma breada_eq:
  assumes c: "cache_at dv k B" "B \<noteq> {..<NBUF}" "\<And>j. j \<in> B \<Longrightarrow> \<not> holds dv k j bn" and r: "in_range bn"
  shows "breada dv bn 0 k = bread dv bn k"
proof -
  obtain fl ch where inv: "cache_inv dv k fl ch" using c(1) by (auto simp: cache_at_def)
  then have dev: "dev_ok dv k" by (simp add: cache_inv_def)
  obtain b where "find_block dv bn k = Some b" unfolding find_block_dv [OF inv]
    by (cases "find_slot (\<lambda>i. holds dv k i bn) [0..<NBUF]") simp_all
  then have ic: "incore dv bn k = Ret b k" using dev by (simp add: incore_def dev_ok_def)
  have ahead: "breada_ahead dv 0 = ret ()" by (simp add: breada_ahead_def)
  show ?thesis
  proof (cases b)
    case (Some bp)
    then have "breada_first dv bn k = Ret None k" using ic by (simp add: breada_first_def)
    then show ?thesis by (simp add: breada_def ahead kseq_ret)
  next
    case None
    obtain i k1 where g: "getblk dv bn k = Ret (Buf i) k1" and o: "obtained dv k B bn i k1"
      using getblk_ok [OF c] by blast
    note f = obtained_flags [OF o r]
    let ?wait = "\<lambda>r. case r of None \<Rightarrow> bread dv bn | Some bp \<Rightarrow> kseq (iowait bp) (ret bp)"
    have run: "breada dv bn 0 k = kbind (\<lambda>k. if flagged k (Buf i) B_DONE then Ret (Some (Buf i)) k
        else kseq (act (start_read B_READ (Buf i))) (kseq (strategy dv (Buf i) id) (ret (Some (Buf i)))) k) ?wait k1"
      using ic None g by (simp add: breada_def breada_first_def kbind_assoc ahead kseq_ret)
    show ?thesis
    proof (cases "flagged k1 (Buf i) B_DONE")
      case True
      then have "iowait (Buf i) k1 = Ret () k1" using f by (simp add: iowait_def geterror_def)
      then show ?thesis using run True g by (simp add: bread_def)
    next
      case False
      have "breada dv bn 0 k = kbind (kseq (act (start_read B_READ (Buf i)))
          (kseq (strategy dv (Buf i) id) (ret (Some (Buf i))))) ?wait k1"
        using run False by (simp add: kbind_def)
      also have "\<dots> = kseq (act (start_read B_READ (Buf i)))
          (kseq (strategy dv (Buf i) id) (kseq (iowait (Buf i)) (ret (Buf i)))) k1"
        by (simp add: kseq_assoc kbind_ret)
      finally show ?thesis
        using bread_miss [OF f(1,2) r _ f(3,4)] False g by (simp add: bread_def)
    qed
  qed
qed

subsection \<open>Getting a block to write and putting it back\<close>

text \<open>The cache's view of a state is that of its buffers and disks.\<close>

lemma cache_bio:
  assumes "k_bio k' = k_bio k"
  shows "cache_at dv k' B = cache_at dv k B" "content dv k' = content dv k" "holds dv k' = holds dv k"
    "clean dv k' i = clean dv k i" "bufp k' = bufp k"
proof -
  show b: "bufp k' = bufp k" by (rule bufp_cong [OF assms])
  then show h: "holds dv k' = holds dv k" by (simp add: holds_def fun_eq_iff)
  have d: "disk k' = disk k" by (simp add: disk_def fun_eq_iff assms)
  show "cache_at dv k' B = cache_at dv k B"
    by (simp add: cache_at_def cache_inv_def dev_ok_def lists_ok_def data_ok_def clean_def dirty_ok_def bdev_def b h d assms)
  show "content dv k' = content dv k" unfolding content_def b h d ..
  show "clean dv k' i = clean dv k i" by (simp add: clean_def b d)
qed

lemma fetch_ok:
  assumes c: "cache_at dv k B" "B \<noteq> {..<NBUF}" "\<And>j. j \<in> B \<Longrightarrow> \<not> holds dv k j bn" and r: "in_range bn"
  shows "\<exists>j k1. (if whole then getblk dv bn else bread dv bn) k = Ret (Buf j) k1 \<and> obtained dv k B bn j k1
    \<and> (\<not> whole \<longrightarrow> clip (b_addr (bufp k1 (Buf j))) = content dv k bn)"
  using getblk_ok [OF c] bread_ok [OF c r] by (cases whole) (simp, fastforce)+

lemma bawrite_at:
  assumes c: "cache_at dv k B" and i: "i \<in> B" and h: "holds dv k i bn" "in_range bn"
  shows "\<exists>k'. bawrite (Buf i) k = Ret () k' \<and> cache_at dv k' (B - {i}) \<and> bio_frame k k'
    \<and> (\<forall>b. in_range b \<longrightarrow> content dv k' b = (if b = bn then clip (b_addr (bufp k (Buf i))) else content dv k b))
    \<and> (\<forall>j\<in>B - {i}. same_buf k k' j)"
proof -
  let ?k = "upd_buf (Buf i) (set_flags B_ASYNC) k"
  have g: "keeps_identity (set_flags B_ASYNC)" by (simp add: keeps_identity_def set_flags_def)
  have busy: "bflag k i B_BUSY" using in_use [OF c i] by metis
  have "dirty_ok dv k i" using in_use [OF c i] by (auto simp: cache_inv_def data_ok_def)
  then have d: "dirty_ok dv ?k i"
    by (simp add: dirty_ok_def Let_def set_flags_def hasf_or) (simp add: hasf_def)
  have b: "hasf (b_flags (set_flags B_ASYNC (bufp k (Buf i)))) B_BUSY" using busy by (simp add: set_flags_def hasf_or)
  note u = upd_at [OF c i g b d]
  have hb: "holds dv k i b \<longleftrightarrow> b = bn" for b using h by (auto simp: holds_def)
  have h': "holds dv ?k i bn" using h by (simp add: holds_def set_flags_def)
  have other: "content dv ?k b = content dv k b" if "b \<noteq> bn" for b using u(2) [of b] hb that by simp
  have a: "b_addr (bufp ?k (Buf i)) = b_addr (bufp k (Buf i))" by (simp add: set_flags_def)
  have sm: "same_buf k ?k j" if "j \<noteq> i" for j using that by (simp add: same_buf_def)
  obtain k' where w: "bwrite (Buf i) ?k = Ret () k'" "cache_at dv k' (B - {i})" "bio_frame ?k k'"
    "\<forall>b. in_range b \<longrightarrow> content dv k' b = (if b = bn then clip (b_addr (bufp ?k (Buf i))) else content dv ?k b)"
    "\<forall>j\<in>B - {i}. same_buf ?k k' j"
    using bwrite_at [OF u(1) i h' h(2)] by blast
  have "bio_frame k k'" using w(3) bio_frame_trans [of k ?k k'] by simp
  moreover have "\<forall>j\<in>B - {i}. same_buf k k' j" using w(5) sm by (blast intro: same_buf_trans)
  ultimately show ?thesis using w(1,2,4) a other by (intro exI [of _ k']) (simp add: bawrite_def)
qed

lemma put_back_ok:
  assumes c: "cache_at dv k B" and i: "i \<in> B" and h: "holds dv k i bn" "in_range bn"
  shows "\<exists>k'. (if full then bawrite (Buf i) else act (bdwrite (Buf i))) k = Ret () k' \<and> cache_at dv k' (B - {i})
    \<and> bio_frame k k' \<and> (\<forall>j\<in>B - {i}. same_buf k k' j)
    \<and> (\<forall>b. in_range b \<longrightarrow> content dv k' b = (if b = bn then clip (b_addr (bufp k (Buf i))) else content dv k b))"
proof (cases full)
  case True
  then show ?thesis using bawrite_at [OF assms] by (auto intro: exI)
next
  case False
  then show ?thesis using bdwrite_at [OF assms] by simp
qed

end
