(* ===== verification/Alloc.thy ===== *)
theory Alloc
  imports Cache
begin

text \<open>
  \<^verbatim>\<open>kernel/fs/alloc.c\<close>, the block and inode free lists: \<^verbatim>\<open>getfs\<close>, \<^verbatim>\<open>badblock\<close>,
  \<^verbatim>\<open>alloc\<close>, \<^verbatim>\<open>bfree\<close> and \<^verbatim>\<open>ifree\<close>.  The in-core superblock is the block of a
  buffer that belongs to no device, and is read and written there through the layout of
  \<^verbatim>\<open>struct filsys\<close>.  The messages of \<^verbatim>\<open>prdev\<close> are not modelled.
\<close>

subsection \<open>The superblock\<close>

abbreviation (input) sb :: "kernel \<Rightarrow> bptr \<Rightarrow> block" where
  "sb k fp \<equiv> b_addr (bufp k fp)"

definition upd_sb :: "bptr \<Rightarrow> (block \<Rightarrow> block) \<Rightarrow> kernel \<Rightarrow> kernel" where
  "upd_sb fp f = upd_buf fp (\<lambda>b. b\<lparr>b_addr := f (b_addr b)\<rparr>)"

definition getfs :: "dev_t \<Rightarrow> kernel \<Rightarrow> bptr option \<times> kernel" where
  "getfs dev k =
     (case find_slot (\<lambda>mp. m_bufp mp \<noteq> NilB \<and> m_dev mp = dev) (mounts (k_fs k)) of
        None \<Rightarrow> (None, k)
      | Some m \<Rightarrow>
          (let fp = m_bufp (mounts (k_fs k) ! m)
           in (Some fp,
               if sint (s_nfree (sb k fp)) > NICFREE \<or> sint (s_ninode (sb k fp)) > NICINOD
               then upd_sb fp (\<lambda>b. set_ninode 0 (set_nfree 0 b)) k else k)))"

definition badblock :: "block \<Rightarrow> daddr_t \<Rightarrow> bool" where
  "badblock fp bno \<longleftrightarrow> sint bno < int (unat (s_isize fp)) + 2 \<or> sint bno \<ge> sint (s_fsize fp)"

subsection \<open>Blocks\<close>

text \<open>The \<^verbatim>\<open>do ... while (badblock(...))\<close> loop of \<^verbatim>\<open>alloc\<close>: the number it ends with,
  \<open>None\<close> for the jump to \<^verbatim>\<open>nospace\<close>, and the superblock with the entries taken off.\<close>

function pick_block :: "block \<Rightarrow> daddr_t option \<times> block" where
  "pick_block fp =
     (if sint (s_nfree fp) \<le> 0 then (None, fp)
      else
        (let n = s_nfree fp - 1;
             fp' = set_nfree n fp;
             bno = s_free fp' (unat n)
         in if bno = 0 then (None, fp')
            else if badblock fp' bno then pick_block fp'
            else (Some bno, fp')))"
  by auto

definition nospace :: "bptr \<Rightarrow> kernel \<Rightarrow> kernel" where
  "nospace fp k = set_error ENOSPC (upd_sb fp (set_nfree 0) k)"

text \<open>Reading the next batch: \<^verbatim>\<open>s_nfree\<close> and \<^verbatim>\<open>s_free\<close> from the block's start.\<close>

definition load_free :: "block \<Rightarrow> block \<Rightarrow> block" where
  "load_free b fp = bcopy b 4 (set_nfree (ucast (get32 b 0)) fp) 12 200"

definition refill :: "dev_t \<Rightarrow> bptr \<Rightarrow> daddr_t \<Rightarrow> unit kop" where
  "refill dev fp bno =
     kseq (act (upd_sb fp (\<lambda>b. set_flock (s_flock b + 1) b)))
       (kbind (bread dev bno) (\<lambda>bp k.
          Ret () (wakeup (ChFlock fp) (upd_sb fp (set_flock 0)
            (brelse bp (upd_sb fp (load_free (b_addr (bufp k bp))) k))))))"

definition alloc_locked :: "dev_t \<Rightarrow> bptr \<Rightarrow> bptr option kop" where
  "alloc_locked dev fp k =
     (case pick_block (sb k fp) of
        (None, s) \<Rightarrow> Ret None (nospace fp (upd_sb fp (\<lambda>_. s) k))
      | (Some bno, s) \<Rightarrow>
          kseq (if sint (s_nfree s) \<le> 0 then refill dev fp bno else ret ())
            (kbind (getblk dev bno) (\<lambda>bp k.
               Ret (Some bp) (upd_sb fp (set_fmod 1) (clrbuf bp k))))
            (upd_sb fp (\<lambda>_. s) k))"

definition alloc :: "dev_t \<Rightarrow> bptr option kop" where
  "alloc dev k =
     (case getfs dev k of
        (None, k) \<Rightarrow> Ret None (set_error ENODEV k)
      | (Some fp, k) \<Rightarrow>
          if s_flock (sb k fp) \<noteq> 0 then kseq (sleep (ChFlock fp) PINOD) (stop Spins) k
          else alloc_locked dev fp k)"

text \<open>Writing the full batch out into the block that is being freed.\<close>

definition save_free :: "block \<Rightarrow> block \<Rightarrow> block" where
  "save_free fp b = bcopy fp 12 (put32 b 0 (scast (s_nfree fp))) 4 200"

definition spill :: "dev_t \<Rightarrow> bptr \<Rightarrow> daddr_t \<Rightarrow> unit kop" where
  "spill dev fp bno =
     kseq (act (upd_sb fp (\<lambda>b. set_flock (s_flock b + 1) b)))
       (kbind (getblk dev bno) (\<lambda>bp k.
          kseq (bwrite bp)
            (act (\<lambda>k. wakeup (ChFlock fp) (upd_sb fp (set_flock 0) k)))
            (upd_sb fp (set_nfree 0) (upd_sb bp (save_free (sb k fp)) k))))"

definition push_free :: "daddr_t \<Rightarrow> block \<Rightarrow> block" where
  "push_free bno fp = set_fmod 1 (set_nfree (s_nfree fp + 1) (set_free (unat (s_nfree fp)) bno fp))"

definition bfree_locked :: "dev_t \<Rightarrow> bptr \<Rightarrow> daddr_t \<Rightarrow> unit kop" where
  "bfree_locked dev fp bno k =
     (if badblock (sb k fp) bno then Ret () k
      else
        (let k1 = (if sint (s_nfree (sb k fp)) \<le> 0
                   then upd_sb fp (\<lambda>b. set_free 0 0 (set_nfree 1 b)) k else k)
         in kseq (if sint (s_nfree (sb k1 fp)) \<ge> NICFREE then spill dev fp bno else ret ())
              (act (upd_sb fp (push_free bno))) k1))"

definition bfree :: "dev_t \<Rightarrow> daddr_t \<Rightarrow> unit kop" where
  "bfree dev bno k =
     (case getfs dev k of
        (None, k) \<Rightarrow> Ret () k
      | (Some fp, k) \<Rightarrow>
          (let k1 = upd_sb fp (set_fmod 1) k
           in if s_flock (sb k1 fp) \<noteq> 0 then kseq (sleep (ChFlock fp) PINOD) (stop Spins) k1
              else bfree_locked dev fp bno k1))"

subsection \<open>Inode numbers\<close>

definition push_inode :: "ino_t \<Rightarrow> block \<Rightarrow> block" where
  "push_inode ino fp = set_ninode (s_ninode fp + 1) (set_inode (unat (s_ninode fp)) ino fp)"

definition ifree :: "dev_t \<Rightarrow> ino_t \<Rightarrow> kernel \<Rightarrow> kernel" where
  "ifree dev ino k =
     (case getfs dev k of
        (None, k) \<Rightarrow> k
      | (Some fp, k) \<Rightarrow>
          if s_ilock (sb k fp) \<noteq> 0 \<or> sint (s_ninode (sb k fp)) \<ge> NICINOD then k
          else upd_sb fp (\<lambda>b. set_fmod 1 (push_inode ino b)) k)"

subsection \<open>Small counters\<close>

lemma unat_range16: "unat (n :: 16 word) < 65536"
  using unsigned_less [of n, where ?'a = nat] by simp

lemma sint16_pos: "0 \<le> sint (n :: 16 word) \<longleftrightarrow> unat n < 32768"
  using unat_range16 [of n] by (simp add: sint_unat_if del: of_nat_unat)

lemma sint16_nat: "unat (n :: 16 word) < 32768 \<Longrightarrow> sint n = int (unat n)"
  by (simp add: sint_unat_if del: of_nat_unat)

lemma sint_dec16: "0 < sint (n :: 16 word) \<Longrightarrow> unat (n - 1) = unat n - 1 \<and> 0 < unat n \<and> unat n < 32768"
proof -
  assume n: "0 < sint n"
  then have "unat n < 32768" "n \<noteq> 0" using sint16_pos [of n] by auto
  then show ?thesis by (simp add: unat_minus_one unat_gt_0)
qed

lemma inc16: "unat (n :: 16 word) < 32767 \<Longrightarrow> unat (n + 1) = unat n + 1"
  by (simp add: unat_word_ariths)

lemma nfree_set [simp]: "s_nfree (set_nfree n fp) = n"
  by (simp add: sb_defs)

termination pick_block
proof (relation "measure (\<lambda>fp. unat (s_nfree fp))")
  fix fp x xa xb
  assume "\<not> sint (s_nfree fp) \<le> 0" "x = s_nfree fp - 1" "xa = set_nfree x fp"
  then show "(xa, fp) \<in> measure (\<lambda>fp. unat (s_nfree fp))"
    using sint_dec16 [of "s_nfree fp"] by simp
qed simp

declare pick_block.simps [simp del]

subsection \<open>The abstract free list\<close>

text \<open>The batch in a superblock, bottom first, and the batch in a chain block.\<close>

definition batch :: "block \<Rightarrow> daddr_t list" where
  "batch fp = map (s_free fp) [0..<unat (s_nfree fp)]"

definition chain_batch :: "block \<Rightarrow> daddr_t list" where
  "chain_batch b = map (\<lambda>i. get32 b (4 + 4 * i)) [0..<unat (ucast (get32 b 0) :: int16_t)]"

text \<open>\<open>free_list c xs L\<close>: with the disk's contents \<open>c\<close>, the batch \<open>xs\<close> stands for the blocks
  \<open>L\<close>, in the order \<^verbatim>\<open>alloc\<close> hands them out.  The bottom entry of a batch is the
  sentinel 0 or the block that holds the next batch.\<close>

inductive free_list :: "(daddr_t \<Rightarrow> block) \<Rightarrow> daddr_t list \<Rightarrow> daddr_t list \<Rightarrow> bool" for c where
  empty: "free_list c [] []"
| sentinel: "free_list c (0 # ys) (rev ys)"
| link: "x \<noteq> 0 \<Longrightarrow> chain_batch (c x) \<noteq> [] \<Longrightarrow> length (chain_batch (c x)) \<le> 50 \<Longrightarrow> free_list c (chain_batch (c x)) L \<Longrightarrow>
    free_list c (x # ys) (rev ys @ x # L)"

inductive_cases free_list_ConsE: "free_list c (x # ys) L"
inductive_cases free_list_NilE: "free_list c [] L"

lemma free_list_cong:
  "free_list c xs L \<Longrightarrow> (\<And>x. x \<in> set L \<Longrightarrow> c' x = c x) \<Longrightarrow> free_list c' xs L"
proof (induction rule: free_list.induct)
  case (link x L ys)
  then have "c' x = c x" "free_list c' (chain_batch (c x)) L" by auto
  with link.hyps show ?case using free_list.link [of x c' L ys] by simp
qed (auto intro: free_list.intros)

text \<open>Taking the top of a batch of at least two, and putting a block on a batch.\<close>

lemma free_list_Cons:
  "free_list c (x # ys) L \<Longrightarrow> (x = 0 \<and> L = rev ys) \<or> (x \<noteq> 0 \<and> chain_batch (c x) \<noteq> []
     \<and> length (chain_batch (c x)) \<le> 50 \<and> (\<exists>L'. L = rev ys @ x # L' \<and> free_list c (chain_batch (c x)) L'))"
  by (erule free_list_ConsE) auto

lemma free_list_pop:
  "free_list c (ys @ [b]) L \<Longrightarrow> ys \<noteq> [] \<Longrightarrow> \<exists>L'. L = b # L' \<and> free_list c ys L'"
  by (cases ys) (auto dest!: free_list_Cons intro: free_list.intros)

lemma free_list_push:
  "free_list c xs L \<Longrightarrow> xs \<noteq> [] \<Longrightarrow> free_list c (xs @ [b]) (b # L)"
proof -
  assume f: "free_list c xs L" and "xs \<noteq> []"
  then obtain x zs where xs: "xs = x # zs" by (cases xs) auto
  from free_list_Cons [OF f [unfolded xs]] show ?thesis
    using xs free_list.sentinel [of c "zs @ [b]"] free_list.link [of x c _ "zs @ [b]"] by auto
qed

subsection \<open>The superblock operations on batches\<close>

lemma get32_clip [simp]: "i + 4 \<le> BSIZE \<Longrightarrow> get32 (clip b) i = get32 b i"
  by (rule get32_cong) (auto simp: clip_def)

lemma chain_batch_clip:
  assumes "unat (ucast (get32 b 0) :: int16_t) \<le> 50"
  shows "chain_batch (clip b) = chain_batch b"
  using assms by (auto simp: chain_batch_def)

lemma chain_batch_clip':
  assumes "length (chain_batch (clip b)) \<le> 50"
  shows "chain_batch (clip b) = chain_batch b"
  using assms by (intro chain_batch_clip) (simp add: chain_batch_def)

lemma s_free_set_nfree [simp]: "s_free (set_nfree n fp) i = s_free fp i"
  by (simp add: sb_defs mem_simps)

lemma batch_set_nfree:
  "unat n \<le> unat (s_nfree fp) \<Longrightarrow> batch (set_nfree n fp) = take (unat n) (batch fp)"
  by (simp add: batch_def take_map)

lemma batch_load:
  assumes "unat (ucast (get32 b 0) :: int16_t) \<le> 50"
  shows "batch (load_free b fp) = chain_batch b"
proof -
  have "s_nfree (load_free b fp) = ucast (get32 b 0)" by (simp add: load_free_def sb_defs mem_simps)
  moreover have "s_free (load_free b fp) i = get32 b (4 + 4 * i)" if "i < 50" for i
    using that by (simp add: load_free_def s_free_def mem_simps)
  ultimately show ?thesis using assms by (simp add: batch_def chain_batch_def)
qed

lemma chain_batch_save:
  assumes "unat (s_nfree fp) \<le> 50"
  shows "chain_batch (save_free fp b) = batch fp"
proof -
  have "ucast (scast (s_nfree fp) :: 32 word) = s_nfree fp"
    by (rule bit_word_eqI) (auto simp: bit_simps)
  then have "ucast (get32 (save_free fp b) 0) = s_nfree fp" by (simp add: save_free_def mem_simps)
  moreover have "get32 (save_free fp b) (4 + 4 * i) = s_free fp i" if "i < 50" for i
    using that by (simp add: save_free_def s_free_def mem_simps)
  ultimately show ?thesis using assms by (simp add: batch_def chain_batch_def)
qed

lemma batch_push:
  assumes "unat (s_nfree fp) < 50"
  shows "batch (push_free bno fp) = batch fp @ [bno]"
proof -
  have n: "unat (s_nfree (push_free bno fp)) = Suc (unat (s_nfree fp))"
    using assms by (simp add: push_free_def sb_defs mem_simps unat_word_ariths)
  have "s_free (push_free bno fp) i = (if i = unat (s_nfree fp) then bno else s_free fp i)" if "i < 50" for i
    using assms that by (cases i "unat (s_nfree fp)" rule: linorder_cases) (simp_all add: push_free_def sb_defs mem_simps)
  then show ?thesis using assms by (simp add: batch_def n)
qed

lemma pick_valid:
  assumes "batch fp = ys @ [b]" "unat (s_nfree fp) \<le> 50" "b \<noteq> 0" "\<not> badblock fp b"
  shows "pick_block fp = (Some b, set_nfree (s_nfree fp - 1) fp)" "batch (set_nfree (s_nfree fp - 1) fp) = ys"
    "unat (s_nfree fp - 1) = length ys"
proof -
  have l: "unat (s_nfree fp) = Suc (length ys)"
    using arg_cong [OF assms(1), of length] by (simp add: batch_def)
  then have p: "0 < sint (s_nfree fp)" using assms(2) by (simp add: sint16_nat del: of_nat_unat)
  then show u: "unat (s_nfree fp - 1) = length ys" using sint_dec16 l by simp
  have "s_free fp (length ys) = b"
    using arg_cong [OF assms(1), of "\<lambda>l. l ! length ys"] l by (simp add: batch_def nth_append)
  moreover have "badblock (set_nfree n fp) b = badblock fp b" for n
    by (simp add: badblock_def sb_defs mem_simps)
  ultimately show "pick_block fp = (Some b, set_nfree (s_nfree fp - 1) fp)"
    using p assms u by (subst pick_block.simps) (simp add: Let_def)
  show "batch (set_nfree (s_nfree fp - 1) fp) = ys"
    using l u assms(1) by (subst batch_set_nfree) auto
qed

subsection \<open>The mounted file system\<close>

definition fs_at :: "dev_t \<Rightarrow> kernel \<Rightarrow> nat set \<Rightarrow> nat \<Rightarrow> bool" where
  "fs_at dv k B s \<longleftrightarrow> cache_at dv k B \<and> s \<in> B \<and> b_dev (bufp k (Buf s)) = NODEV
     \<and> s_flock (sb k (Buf s)) = 0 \<and> unat (s_nfree (sb k (Buf s))) \<le> 50 \<and> unat (s_ninode (sb k (Buf s))) \<le> 50
     \<and> (\<exists>m. find_slot (\<lambda>mp. m_bufp mp \<noteq> NilB \<and> m_dev mp = dv) (mounts (k_fs k)) = Some m
          \<and> m_bufp (mounts (k_fs k) ! m) = Buf s)"

lemma getfs_ok: "fs_at dv k B s \<Longrightarrow> getfs dv k = (Some (Buf s), k)"
  by (auto simp: fs_at_def getfs_def Let_def sint16_nat simp del: of_nat_unat)

lemma cache_nodev: "cache_at dv k B \<Longrightarrow> dv \<noteq> NODEV"
  by (auto simp: cache_at_def cache_inv_def dev_ok_def)

text \<open>Storing into the superblock's buffer.\<close>

lemma sb_store:
  assumes c: "cache_at dv k B" and s: "s \<in> B" "b_dev (bufp k (Buf s)) = NODEV"
  shows "cache_at dv (upd_sb (Buf s) f k) B" "content dv (upd_sb (Buf s) f k) = content dv k"
    "b_dev (bufp (upd_sb (Buf s) f k) (Buf s)) = NODEV" "sb (upd_sb (Buf s) f k) (Buf s) = f (sb k (Buf s))"
    "j \<noteq> s \<Longrightarrow> same_buf k (upd_sb (Buf s) f k) j" "bio_frame k (upd_sb (Buf s) f k)"
    "disk (upd_sb (Buf s) f k) = disk k"
proof -
  have g: "keeps_identity (\<lambda>b. b\<lparr>b_addr := f (b_addr b)\<rparr>)" by (simp add: keeps_identity_def)
  have busy: "bflag k s B_BUSY" using in_use [OF c s(1)] by metis
  have "dirty_ok dv k s" using in_use [OF c s(1)] by (auto simp: cache_inv_def data_ok_def)
  then have d: "dirty_ok dv (upd_sb (Buf s) f k) s" by (simp add: dirty_ok_def Let_def upd_sb_def)
  have "\<not> holds dv k s bn" for bn using cache_nodev [OF c] s(2) by (simp add: holds_def)
  with upd_at [OF c s(1) g, folded upd_sb_def, OF _ d] busy
  show "cache_at dv (upd_sb (Buf s) f k) B" "content dv (upd_sb (Buf s) f k) = content dv k"
    by (auto simp: fun_eq_iff)
qed (simp_all add: upd_sb_def s same_buf_def)

lemma cache_at_wakeup [simp]: "cache_at dv (wakeup c k) B = cache_at dv k B"
  by (simp add: cache_at_def cache_inv_def)

lemma same_buf_wakeup [simp]: "same_buf k (wakeup c k') j = same_buf k k' j"
  by (simp add: same_buf_def)

lemma same_sb: "same_buf k k' s \<Longrightarrow> sb k' (Buf s) = sb k (Buf s)"
  by (simp add: same_buf_def Let_def)

lemma clean_other: "j \<noteq> s \<Longrightarrow> clean dv (upd_sb (Buf s) f k) j = clean dv k j"
  by (simp add: clean_def Let_def upd_sb_def)

text \<open>Storing into the buffer of a block, whether or not it has been read.\<close>

lemma store_raw:
  assumes c: "cache_at dv k B" and i: "i \<in> B" "holds dv k i bn"
  shows "cache_at dv (upd_sb (Buf i) f k) B" "b \<noteq> bn \<Longrightarrow> content dv (upd_sb (Buf i) f k) b = content dv k b"
    "sb (upd_sb (Buf i) f k) (Buf i) = f (sb k (Buf i))" "holds dv (upd_sb (Buf i) f k) i bn"
    "bio_frame k (upd_sb (Buf i) f k)" "j \<noteq> i \<Longrightarrow> same_buf k (upd_sb (Buf i) f k) j"
proof -
  have g: "keeps_identity (\<lambda>b. b\<lparr>b_addr := f (b_addr b)\<rparr>)" by (simp add: keeps_identity_def)
  have busy: "bflag k i B_BUSY" using in_use [OF c i(1)] by metis
  have "dirty_ok dv k i" using in_use [OF c i(1)] by (auto simp: cache_inv_def data_ok_def)
  then have d: "dirty_ok dv (upd_sb (Buf i) f k) i" by (simp add: dirty_ok_def Let_def upd_sb_def)
  note u = upd_at [OF c i(1) g, folded upd_sb_def, OF _ d]
  show "cache_at dv (upd_sb (Buf i) f k) B" using u(1) busy by simp
  show "b \<noteq> bn \<Longrightarrow> content dv (upd_sb (Buf i) f k) b = content dv k b"
    using u(2) [of b] busy i(2) by (auto simp: holds_def)
qed (use i in \<open>simp_all add: upd_sb_def holds_def same_buf_def\<close>)

lemma clrbuf_upd_sb: "clrbuf bp = upd_sb bp (\<lambda>b i. if i < BSIZE then 0 else b i)"
  by (simp add: clrbuf_def upd_sb_def fun_eq_iff)

lemma clrbuf_at:
  assumes c: "cache_at dv k B" and i: "i \<in> B" "holds dv k i bn"
  shows "cache_at dv (clrbuf (Buf i) k) B" "b \<noteq> bn \<Longrightarrow> content dv (clrbuf (Buf i) k) b = content dv k b"
    "clip (b_addr (bufp (clrbuf (Buf i) k) (Buf i))) = (\<lambda>_. 0)" "holds dv (clrbuf (Buf i) k) i bn"
    "bio_frame k (clrbuf (Buf i) k)" "j \<noteq> i \<Longrightarrow> same_buf k (clrbuf (Buf i) k) j"
  unfolding clrbuf_upd_sb using store_raw [OF c i] by (auto simp: clip_def fun_eq_iff)

text \<open>Reading the next batch.\<close>

lemma refill_ok:
  assumes c: "cache_at dv k B" and s: "s \<in> B" "b_dev (bufp k (Buf s)) = NODEV"
    and B: "B \<noteq> {..<NBUF}" "\<And>j. j \<in> B \<Longrightarrow> \<not> holds dv k j bno" and r: "in_range bno"
  shows "\<exists>d k'. refill dv (Buf s) bno k = Ret () k' \<and> clip d = content dv k bno
    \<and> sb k' (Buf s) = set_flock 0 (load_free d (set_flock (s_flock (sb k (Buf s)) + 1) (sb k (Buf s))))
    \<and> cache_at dv k' B \<and> b_dev (bufp k' (Buf s)) = NODEV \<and> bio_frame k k'
    \<and> (\<forall>b. in_range b \<longrightarrow> content dv k' b = content dv k b) \<and> (\<forall>j\<in>B - {s}. same_buf k k' j)"
proof -
  let ?k1 = "upd_sb (Buf s) (\<lambda>b. set_flock (s_flock b + 1) b) k"
  note s1 = sb_store [OF c s, where f = "\<lambda>b. set_flock (s_flock b + 1) b"]
  have h1: "\<not> holds dv ?k1 j bno" if "j \<in> B" for j
    using B(2) [OF that] by (auto simp: holds_def upd_sb_def)
  obtain i k2 where br: "bread dv bno ?k1 = Ret (Buf i) k2" "obtained dv ?k1 B bno i k2"
    "clip (b_addr (bufp k2 (Buf i))) = content dv ?k1 bno"
    using bread_ok [OF s1(1) B(1) h1 r] by blast
  have o: "i \<notin> B" "cache_at dv k2 (insert i B)" "clean dv k2 i" "bio_frame ?k1 k2"
    "\<And>j. j \<in> B \<Longrightarrow> same_buf ?k1 k2 j" "\<And>b. in_range b \<Longrightarrow> content dv k2 b = content dv ?k1 b"
    using br(2) by (auto simp: obtained_def)
  have ne: "i \<noteq> s" using o(1) s(1) by auto
  define d where "d = b_addr (bufp k2 (Buf i))"
  have d2: "b_dev (bufp k2 (Buf s)) = NODEV" "sb k2 (Buf s) = set_flock (s_flock (sb k (Buf s)) + 1) (sb k (Buf s))"
    using o(5) [OF s(1)] s1(3,4) by (simp_all add: same_buf_def Let_def)
  let ?k3 = "upd_sb (Buf s) (load_free d) k2"
  note s3 = sb_store [OF o(2) _ d2(1), where f = "load_free d"]
  have c3: "clean dv ?k3 i" using clean_other [OF ne] o(3) by simp
  let ?k4 = "brelse (Buf i) ?k3"
  note r4 = brelse_at [OF s3(1) insertI1 c3]
  have B4: "insert i B - {i} = B" using o(1) by auto
  have sm4: "same_buf ?k3 ?k4 j" if "j \<noteq> i" for j using that by (rule brelse_buf(1))
  have d4: "b_dev (bufp ?k4 (Buf s)) = NODEV" "sb ?k4 (Buf s) = load_free d (sb k2 (Buf s))"
    using sm4 [of s] ne s3(3,4) s(1) by (auto simp: same_buf_def Let_def)
  let ?k5 = "upd_sb (Buf s) (set_flock 0) ?k4"
  have c4: "cache_at dv ?k4 B" using r4(1) s(1) B4 by simp
  note s5 = sb_store [OF c4 s(1) d4(1), where f = "set_flock 0"]
  let ?k6 = "wakeup (ChFlock (Buf s)) ?k5"
  have run: "refill dv (Buf s) bno k = Ret () ?k6"
    using br(1) by (simp add: refill_def d_def)
  have "bio_frame k ?k6"
  proof -
    have "bio_frame k2 ?k4" using s3(6) s(1) by simp
    then have "bio_frame k ?k5" using s1(6) o(4) s5(6) by (blast intro: bio_frame_trans)
    then show ?thesis by (simp add: bio_frame_def)
  qed
  moreover have "content dv ?k6 b = content dv k b" if "in_range b" for b
    using s1(2) o(6) [OF that] s3(2) r4(3) [OF _ that] s5(2) s(1) by simp
  moreover have "same_buf k ?k6 j" if "j \<in> B - {s}" for j
  proof -
    have "j \<noteq> i" using that o(1) by auto
    then have "same_buf ?k3 ?k4 j" "same_buf k2 ?k3 j" "same_buf ?k4 ?k5 j" "same_buf ?k1 k2 j" "same_buf k ?k1 j"
      using sm4 [of j] o(5) [of j] s3(5) [of j] s5(5) [of j] s1(5) [of j] that s(1) by simp_all
    then have "same_buf k ?k5 j" by (blast intro: same_buf_trans)
    then show ?thesis by simp
  qed
  moreover have "clip d = content dv k bno" using br(3) s1(2) by (simp add: d_def)
  moreover have "cache_at dv ?k6 B" using s5(1) by simp
  moreover have "b_dev (bufp ?k6 (Buf s)) = NODEV" "sb ?k6 (Buf s) = set_flock 0 (load_free d (sb k2 (Buf s)))"
    using s5(3,4) d4(2) by simp_all
  ultimately show ?thesis using run d2(2) by auto
qed

subsection \<open>alloc and bfree on the abstract free list\<close>

lemma s_simps [simp]:
  "s_nfree (set_flock v fp) = s_nfree fp" "s_ninode (set_flock v fp) = s_ninode fp" "s_flock (set_flock v fp) = v"
  "s_nfree (set_fmod v fp) = s_nfree fp" "s_ninode (set_fmod v fp) = s_ninode fp" "s_flock (set_fmod v fp) = s_flock fp"
  "s_ninode (set_nfree n fp) = s_ninode fp" "s_flock (set_nfree n fp) = s_flock fp"
  "s_isize (load_free b fp) = s_isize fp" "s_fsize (load_free b fp) = s_fsize fp"
  "s_isize (set_flock v fp) = s_isize fp" "s_isize (set_fmod v fp) = s_isize fp" "s_isize (set_nfree n fp) = s_isize fp"
  "s_fsize (set_flock v fp) = s_fsize fp" "s_fsize (set_fmod v fp) = s_fsize fp" "s_fsize (set_nfree n fp) = s_fsize fp"
  by (simp_all add: load_free_def sb_defs mem_simps put16_apply)

lemma s_free_flags [simp]: "s_free (set_flock v fp) i = s_free fp i" if "i < 50" for fp
  using that by (simp add: sb_defs mem_simps)

lemma s_free_fmod [simp]: "s_free (set_fmod v fp) i = s_free fp i" if "i < 50" for fp
  using that by (simp add: sb_defs mem_simps)

lemma batch_flags: "unat (s_nfree fp) \<le> 50 \<Longrightarrow> batch (set_flock v fp) = batch fp"
  "unat (s_nfree fp) \<le> 50 \<Longrightarrow> batch (set_fmod v fp) = batch fp"
  by (simp_all add: batch_def)

lemma load_simps [simp]:
  "s_nfree (load_free b fp) = ucast (get32 b 0)" "s_ninode (load_free b fp) = s_ninode fp"
  by (simp_all add: load_free_def sb_defs mem_simps)

lemma length_batch: "length (batch fp) = unat (s_nfree fp)"
  by (simp add: batch_def)

lemma length_chain_batch: "length (chain_batch b) = unat (ucast (get32 b 0) :: int16_t)"
  by (simp add: chain_batch_def)

lemma badblock_cong: "s_isize fp = s_isize fp' \<Longrightarrow> s_fsize fp = s_fsize fp' \<Longrightarrow> badblock fp b = badblock fp' b"
  by (simp add: badblock_def)

lemma alloc_end:
  assumes c: "cache_at dv k B" and s: "s \<in> B" "b_dev (bufp k (Buf s)) = NODEV"
    and B: "B \<noteq> {..<NBUF}" "\<And>j. j \<in> B \<Longrightarrow> \<not> holds dv k j bno"
  shows "\<exists>i k'. kbind (getblk dv bno) (\<lambda>bp k. Ret (Some bp) (upd_sb (Buf s) (set_fmod 1) (clrbuf bp k))) k = Ret (Some (Buf i)) k'
    \<and> i \<notin> B \<and> cache_at dv k' (insert i B) \<and> holds dv k' i bno \<and> clip (b_addr (bufp k' (Buf i))) = (\<lambda>_. 0)
    \<and> sb k' (Buf s) = set_fmod 1 (sb k (Buf s)) \<and> b_dev (bufp k' (Buf s)) = NODEV \<and> bio_frame k k'
    \<and> (\<forall>b. in_range b \<and> b \<noteq> bno \<longrightarrow> content dv k' b = content dv k b) \<and> (\<forall>j\<in>B - {s}. same_buf k k' j)"
proof -
  obtain i k1 where g: "getblk dv bno k = Ret (Buf i) k1" "obtained dv k B bno i k1"
    using getblk_ok [OF c B] by blast
  have o: "i \<notin> B" "cache_at dv k1 (insert i B)" "holds dv k1 i bno" "bio_frame k k1"
    "\<And>j. j \<in> B \<Longrightarrow> same_buf k k1 j" "\<And>b. in_range b \<Longrightarrow> content dv k1 b = content dv k b"
    using g(2) by (auto simp: obtained_def)
  have ne: "i \<noteq> s" using o(1) s(1) by auto
  let ?k2 = "clrbuf (Buf i) k1"
  note c2 = clrbuf_at [OF o(2) insertI1 o(3)]
  have sm: "same_buf k ?k2 j" if "j \<in> B" for j
    using o(1,5) c2(6) [of j] that by (auto intro: same_buf_trans)
  have d2: "b_dev (bufp ?k2 (Buf s)) = NODEV" "sb ?k2 (Buf s) = sb k (Buf s)"
    using sm [OF s(1)] s(2) by (simp_all add: same_buf_def Let_def)
  let ?k' = "upd_sb (Buf s) (set_fmod 1) ?k2"
  note s3 = sb_store [OF c2(1) _ d2(1), where f = "set_fmod 1"]
  have m: "s \<in> insert i B" using s(1) by simp
  have "same_buf k ?k' j" if "j \<in> B - {s}" for j
    using sm [of j] s3(5) [OF m, of j] that by (auto intro: same_buf_trans)
  moreover have "bio_frame k ?k'" using o(4) c2(5) s3(6) [OF m] by (auto intro: bio_frame_trans)
  moreover have "holds dv ?k' i bno" "clip (b_addr (bufp ?k' (Buf i))) = (\<lambda>_. 0)"
    using s3(5) [OF m ne] c2(3,4) same_buf_facts(2,3) by (metis, metis)
  moreover have "content dv ?k' b = content dv k b" if "in_range b" "b \<noteq> bno" for b
    using s3(2) [OF m] c2(2) [OF that(2)] o(6) [OF that(1)] by simp
  ultimately show ?thesis
    using g(1) o(1) s3(1,3,4) [OF m] d2(2) by (intro exI [of _ i] exI [of _ ?k']) simp
qed

lemma fs_frame:
  assumes f: "fs_at dv k B s" and c: "cache_at dv k' B'" "s \<in> B'" and b: "b_dev (bufp k' (Buf s)) = NODEV"
    and s: "s_flock (sb k' (Buf s)) = 0" "unat (s_nfree (sb k' (Buf s))) \<le> 50" "s_ninode (sb k' (Buf s)) = s_ninode (sb k (Buf s))"
    and fr: "bio_frame k k'"
  shows "fs_at dv k' B' s"
  using assms by (auto simp: fs_at_def bio_frame_def)

lemma alloc_pops:
  assumes f: "fs_at dv k B s" and fl: "free_list (content dv k) (batch (sb k (Buf s))) (b # L)"
    and B: "B \<noteq> {..<NBUF}" and b: "\<not> badblock (sb k (Buf s)) b" "b \<noteq> 0" "in_range b"
    and L: "b \<notin> set L" "\<And>x. x \<in> set L \<Longrightarrow> in_range x" and free: "\<And>j. j \<in> B \<Longrightarrow> \<not> holds dv k j b"
  shows "\<exists>i k'. alloc dv k = Ret (Some (Buf i)) k' \<and> i \<notin> B \<and> fs_at dv k' (insert i B) s \<and> holds dv k' i b
    \<and> clip (b_addr (bufp k' (Buf i))) = (\<lambda>_. 0) \<and> free_list (content dv k') (batch (sb k' (Buf s))) L
    \<and> (\<forall>x. in_range x \<and> x \<noteq> b \<longrightarrow> content dv k' x = content dv k x) \<and> bio_frame k k'"
proof -
  let ?fp = "sb k (Buf s)"
  have c: "cache_at dv k B" "s \<in> B" "b_dev (bufp k (Buf s)) = NODEV" "s_flock ?fp = 0" "unat (s_nfree ?fp) \<le> 50"
    using f by (auto simp: fs_at_def)
  have al: "alloc dv k = alloc_locked dv (Buf s) k"
    using getfs_ok [OF f] c(4) by (simp add: alloc_def)
  have "batch ?fp \<noteq> []" using fl by (auto elim: free_list_NilE)
  then obtain ys t where yt: "batch ?fp = ys @ [t]" by (cases "batch ?fp" rule: rev_cases) auto
  have tb: "t = b"
  proof (cases "ys = []")
    case True
    with fl yt show ?thesis by (auto dest!: free_list_Cons)
  next
    case False
    with free_list_pop [of "content dv k" ys t] fl yt show ?thesis by auto
  qed
  note pk = pick_valid [OF yt [unfolded tb] c(5) b(2,1)]
  let ?s1 = "set_nfree (s_nfree ?fp - 1) ?fp"
  let ?k1 = "upd_sb (Buf s) (\<lambda>_. ?s1) k"
  note s1 = sb_store [OF c(1-3), where f = "\<lambda>_. ?s1"]
  have h1: "\<not> holds dv ?k1 j b" if "j \<in> B" for j
    using free [OF that] by (auto simp: holds_def upd_sb_def)
  have ylen: "length ys < 50" using arg_cong [OF yt, of length] c(5) by (simp add: batch_def)
  have nn: "sint (s_nfree ?s1) \<le> 0 \<longleftrightarrow> ys = []"
    using pk(3) ylen by (simp add: sint16_nat del: of_nat_unat)
  show ?thesis
  proof (cases "ys = []")
    case False
    obtain L' where L': "b # L = t # L'" "free_list (content dv k) ys L'"
      using free_list_pop [OF fl [unfolded yt] False] by auto
    then have fl': "free_list (content dv k) ys L" by simp
    obtain i k' where e: "kbind (getblk dv b) (\<lambda>bp k. Ret (Some bp) (upd_sb (Buf s) (set_fmod 1) (clrbuf bp k))) ?k1 = Ret (Some (Buf i)) k'"
      "i \<notin> B" "cache_at dv k' (insert i B)" "holds dv k' i b" "clip (b_addr (bufp k' (Buf i))) = (\<lambda>_. 0)"
      "sb k' (Buf s) = set_fmod 1 (sb ?k1 (Buf s))" "b_dev (bufp k' (Buf s)) = NODEV" "bio_frame ?k1 k'"
      "\<And>x. in_range x \<Longrightarrow> x \<noteq> b \<Longrightarrow> content dv k' x = content dv ?k1 x"
      using alloc_end [OF s1(1) c(2) s1(3) B h1] by blast
    have run: "alloc dv k = Ret (Some (Buf i)) k'"
      using e(1) False nn by (simp add: al alloc_locked_def pk(1))
    have sb': "sb k' (Buf s) = set_fmod 1 ?s1" using e(6) s1(4) by simp
    have fr: "bio_frame k k'" using s1(6) e(8) by (rule bio_frame_trans)
    have cont: "content dv k' x = content dv k x" if "in_range x" "x \<noteq> b" for x
      using e(9) [OF that] s1(2) by simp
    have "batch (sb k' (Buf s)) = ys" using sb' pk ylen by (simp add: batch_flags)
    moreover have "free_list (content dv k') ys L"
      by (rule free_list_cong [OF fl']) (use cont L in metis)
    moreover have "fs_at dv k' (insert i B) s"
      by (rule fs_frame [OF f e(3)]) (use c e(7) sb' pk(3) ylen fr in simp_all)
    ultimately show ?thesis using run e(2,4,5) cont fr by blast
  next
    case True
    then have one: "batch ?fp = [b]" using yt tb by simp
    have ch: "chain_batch (content dv k b) \<noteq> []" "length (chain_batch (content dv k b)) \<le> 50"
      "free_list (content dv k) (chain_batch (content dv k b)) L"
      using free_list_Cons [OF fl [unfolded one]] b(2) by auto
    obtain d k2 where r: "refill dv (Buf s) b ?k1 = Ret () k2" "clip d = content dv ?k1 b"
      "sb k2 (Buf s) = set_flock 0 (load_free d (set_flock (s_flock (sb ?k1 (Buf s)) + 1) (sb ?k1 (Buf s))))"
      "cache_at dv k2 B" "b_dev (bufp k2 (Buf s)) = NODEV" "bio_frame ?k1 k2"
      "\<And>b. in_range b \<Longrightarrow> content dv k2 b = content dv ?k1 b" "\<And>j. j \<in> B - {s} \<Longrightarrow> same_buf ?k1 k2 j"
      using refill_ok [OF s1(1) c(2) s1(3) B h1 b(3)] by blast
    have cd: "chain_batch (content dv k b) = chain_batch d"
      using r(2) s1(2) ch(2) chain_batch_clip' [of d] by simp
    have dl: "unat (ucast (get32 d 0) :: int16_t) \<le> 50"
      using ch(2) arg_cong [OF cd, of length] by (simp add: chain_batch_def [of d])
    have h2: "\<not> holds dv k2 j b" if "j \<in> B" for j
    proof (cases "j = s")
      case True
      then show ?thesis using r(5) cache_nodev [OF c(1)] by (auto simp: holds_def)
    next
      case False
      with h1 [OF that] same_buf_facts(2) [OF r(8)] that show ?thesis by simp
    qed
    obtain i k' where e: "kbind (getblk dv b) (\<lambda>bp k. Ret (Some bp) (upd_sb (Buf s) (set_fmod 1) (clrbuf bp k))) k2 = Ret (Some (Buf i)) k'"
      "i \<notin> B" "cache_at dv k' (insert i B)" "holds dv k' i b" "clip (b_addr (bufp k' (Buf i))) = (\<lambda>_. 0)"
      "sb k' (Buf s) = set_fmod 1 (sb k2 (Buf s))" "b_dev (bufp k' (Buf s)) = NODEV" "bio_frame k2 k'"
      "\<And>x. in_range x \<Longrightarrow> x \<noteq> b \<Longrightarrow> content dv k' x = content dv k2 x"
      using alloc_end [OF r(4) c(2) r(5) B h2] by blast
    have run: "alloc dv k = Ret (Some (Buf i)) k'"
      using e(1) True nn r(1) by (simp add: al alloc_locked_def pk(1))
    have fr: "bio_frame k k'" using s1(6) r(6) e(8) by (blast intro: bio_frame_trans)
    have cont: "content dv k' x = content dv k x" if "in_range x" "x \<noteq> b" for x
      using e(9) [OF that] r(7) [OF that(1)] s1(2) by simp
    let ?s2 = "set_flock (s_flock ?s1 + 1) ?s1"
    have sb': "sb k' (Buf s) = set_fmod 1 (set_flock 0 (load_free d ?s2))" using e(6) r(3) s1(4) by simp
    have "batch (sb k' (Buf s)) = chain_batch (content dv k b)"
      using dl cd by (simp add: sb' batch_flags batch_load)
    moreover have "free_list (content dv k') (chain_batch (content dv k b)) L"
      by (rule free_list_cong [OF ch(3)]) (use cont L in metis)
    moreover have "fs_at dv k' (insert i B) s"
      by (rule fs_frame [OF f e(3)]) (use c e(7) sb' dl fr in simp_all)
    ultimately show ?thesis using run e(2,4,5) cont fr by auto
  qed
qed

lemma spill_ok:
  assumes c: "cache_at dv k B" and s: "s \<in> B" "b_dev (bufp k (Buf s)) = NODEV"
    and B: "B \<noteq> {..<NBUF}" "\<And>j. j \<in> B \<Longrightarrow> \<not> holds dv k j bno" and r: "in_range bno"
    and n: "unat (s_nfree (sb k (Buf s))) \<le> 50"
  shows "\<exists>k'. spill dv (Buf s) bno k = Ret () k' \<and> chain_batch (content dv k' bno) = batch (sb k (Buf s))
    \<and> sb k' (Buf s) = set_flock 0 (set_nfree 0 (set_flock (s_flock (sb k (Buf s)) + 1) (sb k (Buf s))))
    \<and> cache_at dv k' B \<and> b_dev (bufp k' (Buf s)) = NODEV \<and> bio_frame k k'
    \<and> (\<forall>b. in_range b \<and> b \<noteq> bno \<longrightarrow> content dv k' b = content dv k b) \<and> (\<forall>j\<in>B - {s}. same_buf k k' j)"
proof -
  let ?k1 = "upd_sb (Buf s) (\<lambda>b. set_flock (s_flock b + 1) b) k"
  note s1 = sb_store [OF c s, where f = "\<lambda>b. set_flock (s_flock b + 1) b"]
  have h1: "\<not> holds dv ?k1 j bno" if "j \<in> B" for j
    using B(2) [OF that] by (auto simp: holds_def upd_sb_def)
  obtain i k2 where g: "getblk dv bno ?k1 = Ret (Buf i) k2" "obtained dv ?k1 B bno i k2"
    using getblk_ok [OF s1(1) B(1) h1] by blast
  have o: "i \<notin> B" "cache_at dv k2 (insert i B)" "holds dv k2 i bno" "bio_frame ?k1 k2"
    "\<And>j. j \<in> B \<Longrightarrow> same_buf ?k1 k2 j" "\<And>b. in_range b \<Longrightarrow> content dv k2 b = content dv ?k1 b"
    using g(2) by (auto simp: obtained_def)
  have ne: "i \<noteq> s" "s \<noteq> i" using o(1) s(1) by auto
  have d2: "b_dev (bufp k2 (Buf s)) = NODEV" "sb k2 (Buf s) = set_flock (s_flock (sb k (Buf s)) + 1) (sb k (Buf s))"
    using o(5) [OF s(1)] s1(3,4) by (simp_all add: same_buf_def Let_def)
  let ?f = "save_free (sb k2 (Buf s))"
  let ?k3 = "upd_sb (Buf i) ?f k2"
  note s3 = store_raw [OF o(2) insertI1 o(3), where f = ?f]
  have r3: "b_dev (bufp ?k3 (Buf s)) = NODEV" "sb ?k3 (Buf s) = sb k2 (Buf s)"
    using s3(6) [OF ne(2)] d2(1) by (simp_all add: same_buf_def Let_def)
  let ?k4 = "upd_sb (Buf s) (set_nfree 0) ?k3"
  have m: "s \<in> insert i B" using s(1) by simp
  note s4 = sb_store [OF s3(1) m r3(1), where f = "set_nfree 0"]
  have a4: "sb ?k4 (Buf i) = ?f (sb k2 (Buf i))" "holds dv ?k4 i bno"
    using s4(5) [OF ne(1)] s3(3,4) same_buf_facts(2) by (simp add: same_buf_def Let_def, metis)
  obtain k5 where w: "bwrite (Buf i) ?k4 = Ret () k5" "cache_at dv k5 (insert i B - {i})" "bio_frame ?k4 k5"
    "\<And>b. in_range b \<Longrightarrow> content dv k5 b = (if b = bno then clip (sb ?k4 (Buf i)) else content dv ?k4 b)"
    "\<And>j. j \<in> insert i B - {i} \<Longrightarrow> same_buf ?k4 k5 j"
    using bwrite_at [OF s4(1) insertI1 a4(2) r] by blast
  have B5: "insert i B - {i} = B" using o(1) by auto
  have d5: "b_dev (bufp k5 (Buf s)) = NODEV" "sb k5 (Buf s) = set_nfree 0 (sb k2 (Buf s))"
    using w(5) [of s] s(1) ne s4(3,4) r3(2) by (simp_all add: same_buf_def Let_def)
  let ?k6 = "upd_sb (Buf s) (set_flock 0) k5"
  note s6 = sb_store [OF w(2) [unfolded B5] s(1) d5(1), where f = "set_flock 0"]
  let ?k7 = "wakeup (ChFlock (Buf s)) ?k6"
  have run: "spill dv (Buf s) bno k = Ret () ?k7"
    using g(1) w(1) by (simp add: spill_def)
  have fr: "bio_frame k ?k7"
  proof -
    have "bio_frame k2 ?k4" using s3(5) s4(6) by (rule bio_frame_trans)
    then have "bio_frame k ?k6" using s1(6) o(4) w(3) s6(6) by (blast intro: bio_frame_trans)
    then show ?thesis by simp
  qed
  have cont: "content dv ?k7 b = content dv k b" if "in_range b" "b \<noteq> bno" for b
    using s1(2) o(6) [OF that(1)] s3(2) [OF that(2)] s4(2) w(4) [OF that(1)] that(2) s6(2) by simp
  have sm: "same_buf k ?k7 j" if "j \<in> B - {s}" for j
  proof -
    have "j \<noteq> i" using that o(1) by auto
    then have "same_buf ?k4 k5 j" "same_buf ?k3 ?k4 j" "same_buf k2 ?k3 j" "same_buf k5 ?k6 j" "same_buf ?k1 k2 j" "same_buf k ?k1 j"
      using w(5) [of j] o(5) [of j] s3(6) [of j] s4(5) [of j] s6(5) [of j] s1(5) [of j] that by simp_all
    then have "same_buf k ?k6 j" by (blast intro: same_buf_trans)
    then show ?thesis by simp
  qed
  have lf: "batch (sb k2 (Buf s)) = batch (sb k (Buf s))" "unat (s_nfree (sb k2 (Buf s))) \<le> 50"
    using d2(2) n by (simp_all add: batch_flags)
  have "content dv ?k7 bno = clip (?f (sb k2 (Buf i)))" using w(4) [OF r] s6(2) a4(1) by simp
  then have ch: "chain_batch (content dv ?k7 bno) = batch (sb k (Buf s))"
    using chain_batch_save [OF lf(2)] lf chain_batch_clip [of "?f (sb k2 (Buf i))"]
      arg_cong [OF chain_batch_save [OF lf(2)], of length] length_chain_batch length_batch by metis
  show ?thesis using run fr cont sm ch s6(1,3,4) d5(2) d2(2) by auto
qed

lemma push_simps [simp]:
  "unat (s_nfree fp) < 50 \<Longrightarrow> s_nfree (push_free b fp) = s_nfree fp + 1"
  "unat (s_nfree fp) < 50 \<Longrightarrow> s_ninode (push_free b fp) = s_ninode fp"
  "unat (s_nfree fp) < 50 \<Longrightarrow> s_flock (push_free b fp) = s_flock fp"
  "unat (s_nfree fp) < 50 \<Longrightarrow> s_isize (push_free b fp) = s_isize fp"
  "unat (s_nfree fp) < 50 \<Longrightarrow> s_fsize (push_free b fp) = s_fsize fp"
  by (simp_all add: push_free_def sb_defs mem_simps put16_apply put32_apply)

text \<open>An empty batch first gets the sentinel 0 as its bottom.\<close>

definition seed_free :: "block \<Rightarrow> block" where
  "seed_free b = set_free 0 0 (set_nfree 1 b)"

lemma seed_simps [simp]:
  "s_nfree (seed_free fp) = 1" "s_ninode (seed_free fp) = s_ninode fp" "s_flock (seed_free fp) = s_flock fp"
  "s_isize (seed_free fp) = s_isize fp" "s_fsize (seed_free fp) = s_fsize fp" "batch (seed_free fp) = [0]"
  by (simp_all add: seed_free_def batch_def sb_defs mem_simps put16_apply put32_apply)

definition bottomed :: "block \<Rightarrow> block" where
  "bottomed fp = (if sint (s_nfree fp) \<le> 0 then seed_free fp else fp)"

lemma bottomed:
  assumes "free_list c (batch fp) L" "unat (s_nfree fp) \<le> 50"
  shows "free_list c (batch (bottomed fp)) L" "batch (bottomed fp) \<noteq> []" "unat (s_nfree (bottomed fp)) \<le> 50"
    "s_ninode (bottomed fp) = s_ninode fp" "s_flock (bottomed fp) = s_flock fp"
    "s_isize (bottomed fp) = s_isize fp" "s_fsize (bottomed fp) = s_fsize fp"
proof -
  have n: "sint (s_nfree fp) \<le> 0 \<longleftrightarrow> batch fp = []"
    using assms(2) by (simp add: sint16_nat batch_def del: of_nat_unat)
  show "free_list c (batch (bottomed fp)) L"
    using assms(1) n free_list.sentinel [of c "[]"] by (auto simp: bottomed_def elim: free_list_NilE)
  show "batch (bottomed fp) \<noteq> []" using n by (simp add: bottomed_def)
qed (use assms(2) in \<open>simp_all add: bottomed_def\<close>)

lemma upd_sb_at: "sb (upd_sb p f k) p = f (sb k p)"
  by (simp add: upd_sb_def)

lemma upd_sb_upd_sb: "upd_sb p f (upd_sb p g k) = upd_sb p (\<lambda>x. f (g x)) k"
  by (simp add: upd_sb_def upd_buf_upd_buf)

lemma upd_sb_bottomed:
  "upd_sb p bottomed k = (if sint (s_nfree (sb k p)) \<le> 0
     then upd_sb p (\<lambda>b. set_free 0 0 (set_nfree 1 b)) k else k)"
  by (simp add: upd_sb_def upd_buf_def bottomed_def seed_free_def bufp_def)

lemma bfree_locked_bottom:
  assumes "\<not> badblock (sb k p) b"
  shows "bfree_locked dv p b k =
    kseq (if sint (s_nfree (bottomed (sb k p))) \<ge> NICFREE then spill dv p b else ret ())
      (act (upd_sb p (push_free b))) (upd_sb p bottomed k)"
proof -
  have "sb (upd_sb p bottomed k) p = bottomed (sb k p)" by (rule upd_sb_at)
  with assms show ?thesis
    unfolding bfree_locked_def upd_sb_bottomed [symmetric] Let_def by (simp only: if_False)
qed

lemma bfree_pushes:
  assumes f: "fs_at dv k B s" and fl: "free_list (content dv k) (batch (sb k (Buf s))) L"
    and B: "B \<noteq> {..<NBUF}" and b: "\<not> badblock (sb k (Buf s)) b" "b \<noteq> 0" "in_range b" "b \<notin> set L"
    and free: "\<And>j. j \<in> B \<Longrightarrow> \<not> holds dv k j b" and L: "\<And>x. x \<in> set L \<Longrightarrow> in_range x"
  shows "\<exists>k'. bfree dv b k = Ret () k' \<and> fs_at dv k' B s \<and> free_list (content dv k') (batch (sb k' (Buf s))) (b # L)
    \<and> s_isize (sb k' (Buf s)) = s_isize (sb k (Buf s)) \<and> s_fsize (sb k' (Buf s)) = s_fsize (sb k (Buf s))
    \<and> (\<forall>x. in_range x \<and> x \<noteq> b \<longrightarrow> content dv k' x = content dv k x) \<and> (\<forall>j\<in>B - {s}. same_buf k k' j) \<and> bio_frame k k'"
proof -
  let ?fp = "sb k (Buf s)"
  have c: "cache_at dv k B" "s \<in> B" "b_dev (bufp k (Buf s)) = NODEV" "s_flock ?fp = 0" "unat (s_nfree ?fp) \<le> 50"
    using f by (auto simp: fs_at_def)
  let ?f1 = "\<lambda>x. bottomed (set_fmod 1 x)"
  let ?k1 = "upd_sb (Buf s) ?f1 k"
  note s1 = sb_store [OF c(1-3), where f = ?f1]
  have bad: "\<not> badblock (sb (upd_sb (Buf s) (set_fmod 1) k) (Buf s)) b"
    using b(1) badblock_cong [of "set_fmod 1 ?fp" ?fp b] by (simp add: upd_sb_at)
  have "bfree dv b k = bfree_locked dv (Buf s) b (upd_sb (Buf s) (set_fmod 1) k)"
    using getfs_ok [OF f] c(4) by (simp add: bfree_def Let_def upd_sb_at)
  also note bfree_locked_bottom [OF bad]
  finally have bl: "bfree dv b k = kseq (if sint (s_nfree (sb ?k1 (Buf s))) \<ge> NICFREE then spill dv (Buf s) b else ret ())
      (act (upd_sb (Buf s) (push_free b))) ?k1"
    by (simp only: upd_sb_at upd_sb_upd_sb)
  let ?f2 = "bottomed (set_fmod 1 ?fp)"
  have fl2: "free_list (content dv ?k1) (batch ?f2) L" "batch ?f2 \<noteq> []" "unat (s_nfree ?f2) \<le> 50"
    and p2: "s_ninode ?f2 = s_ninode ?fp" "s_flock ?f2 = 0" "s_isize ?f2 = s_isize ?fp" "s_fsize ?f2 = s_fsize ?fp"
    using bottomed [of "content dv k" "set_fmod 1 ?fp" L] fl c(4,5) s1(2) by (simp_all add: batch_flags)
  have h1: "\<not> holds dv ?k1 j b" if "j \<in> B" for j
    using free [OF that] by (auto simp: holds_def upd_sb_def)
  have sk1: "sb ?k1 (Buf s) = ?f2" by (rule s1(4))
  have tail: ?thesis
    if k2: "(if sint (s_nfree (sb ?k1 (Buf s))) \<ge> NICFREE then spill dv (Buf s) b else ret ()) ?k1 = Ret () k2"
      "cache_at dv k2 B" "b_dev (bufp k2 (Buf s)) = NODEV" "unat (s_nfree (sb k2 (Buf s))) < 50"
      "free_list (content dv k2) (batch (sb k2 (Buf s)) @ [b]) (b # L)" "s_flock (sb k2 (Buf s)) = 0"
      "s_ninode (sb k2 (Buf s)) = s_ninode ?fp" "s_isize (sb k2 (Buf s)) = s_isize ?fp" "s_fsize (sb k2 (Buf s)) = s_fsize ?fp"
      "bio_frame ?k1 k2" "\<And>j. j \<in> B - {s} \<Longrightarrow> same_buf ?k1 k2 j"
      "\<And>x. in_range x \<Longrightarrow> x \<noteq> b \<Longrightarrow> content dv k2 x = content dv ?k1 x" for k2
  proof -
    let ?k3 = "upd_sb (Buf s) (push_free b) k2"
    note s3 = sb_store [OF k2(2) c(2) k2(3), where f = "push_free b"]
    have run: "bfree dv b k = Ret () ?k3" using k2(1) by (simp add: bl)
    have "bio_frame k ?k3" using s1(6) k2(10) s3(6) by (blast intro: bio_frame_trans)
    moreover from this have "fs_at dv ?k3 B s"
      by (intro fs_frame [OF f s3(1) c(2) s3(3)]) (use s3(4) k2 inc16 [of "s_nfree (sb k2 (Buf s))"] in simp_all)
    moreover have "free_list (content dv ?k3) (batch (sb ?k3 (Buf s))) (b # L)"
      using k2(5) s3(2,4) batch_push [OF k2(4)] by simp
    moreover have "same_buf k ?k3 j" if "j \<in> B - {s}" for j
      using s1(5) [of j] k2(11) [OF that] s3(5) [of j] that by (blast intro: same_buf_trans)
    moreover have "content dv ?k3 x = content dv k x" if "in_range x" "x \<noteq> b" for x
      using k2(12) [OF that] s3(2) s1(2) by simp
    ultimately show ?thesis using run k2(4,8,9) s3(4) by (intro exI [of _ ?k3]) simp
  qed
  show ?thesis
  proof (cases "unat (s_nfree ?f2) = 50")
    case False
    then have "unat (s_nfree ?f2) < 50" using fl2(3) by simp
    then show ?thesis
      by (intro tail [of ?k1]) (use False sk1 s1 p2 free_list_push [OF fl2(1,2)] fl2(3) in \<open>simp_all add: sint16_nat del: of_nat_unat\<close>)
  next
    case True
    obtain k2 where k2: "spill dv (Buf s) b ?k1 = Ret () k2" "chain_batch (content dv k2 b) = batch ?f2"
      "sb k2 (Buf s) = set_flock 0 (set_nfree 0 (set_flock (s_flock ?f2 + 1) ?f2))"
      "cache_at dv k2 B" "b_dev (bufp k2 (Buf s)) = NODEV" "bio_frame ?k1 k2"
      "\<And>x. in_range x \<Longrightarrow> x \<noteq> b \<Longrightarrow> content dv k2 x = content dv ?k1 x" "\<And>j. j \<in> B - {s} \<Longrightarrow> same_buf ?k1 k2 j"
      using spill_ok [OF s1(1) c(2) s1(3) B h1 b(3)] fl2(3) sk1 by auto
    have e: "batch (sb k2 (Buf s)) = []" using k2(3) by (simp add: batch_def)
    have "free_list (content dv k2) (batch ?f2) L"
      by (rule free_list_cong [OF fl2(1)]) (use k2(7) L b(4) in metis)
    then have "free_list (content dv k2) [b] (b # L)"
      using free_list.link [of b "content dv k2" L "[]"] k2(2) b(2) fl2 by (simp add: length_batch)
    then show ?thesis
      by (intro tail [of k2]) (use True sk1 k2 e p2 in \<open>simp_all add: sint16_nat del: of_nat_unat\<close>)
  qed
qed

subsection \<open>Properties\<close>

lemma disk_fs [simp]: "disk (k\<lparr>k_fs := x\<rparr>) = disk k"
  by (simp add: disk_def fun_eq_iff)

lemma cache_at_fs [simp]: "cache_at dv (k\<lparr>k_fs := x\<rparr>) B = cache_at dv k B"
  by (simp add: cache_at_def cache_inv_def dev_ok_def lists_ok_def data_ok_def clean_def dirty_ok_def
      holds_def bdev_def)

lemma content_fs [simp]: "content dv (k\<lparr>k_fs := x\<rparr>) = content dv k"
  by (rule ext) (simp add: content_def holds_def cong: option.case_cong)

text \<open>A machine with a small file system on the RAM disk: 100 blocks, two of them inode blocks, with 20
  and 21 free; its superblock is in buffer 14.\<close>

definition sb_small :: block where
  "sb_small = set_free 2 21 (set_free 1 20 (set_nfree 3 (put32 (put16 (\<lambda>_. 0) 0 2) 4 100)))"

definition fs_kernel :: kernel where
  "fs_kernel = (upd_sb (Buf 14) (\<lambda>_. sb_small) (notavail (Buf 14) rd_kernel))\<lparr>k_fs := (k_fs zero_kernel)\<lparr>mounts :=
     \<lparr>m_dev = 0, m_bufp = Buf 14, m_inodp = None\<rparr> # replicate 4 \<lparr>m_dev = 0, m_bufp = NilB, m_inodp = None\<rparr>\<rparr>\<rparr>"

lemma sb_small_fields:
  "s_isize sb_small = 2" "s_fsize sb_small = 100" "s_nfree sb_small = 3" "s_ninode sb_small = 0"
  "s_flock sb_small = 0" "batch sb_small = [0, 20, 21]"
proof -
  have "[0..<3] = [0, 1, 2 :: nat]" by (simp add: upt_rec)
  then show "batch sb_small = [0, 20, 21]"
    by (simp add: sb_small_def batch_def sb_defs mem_simps put16_apply put32_apply) (simp add: get32_def put16_def)
qed (simp_all add: sb_small_def sb_defs mem_simps put16_apply put32_apply get16_def [of "\<lambda>_. 0"])

lemma fs_kernel_at: "fs_at 0 fs_kernel {14} 14" "sb fs_kernel (Buf 14) = sb_small"
  "content 0 fs_kernel bn = clip (\<lambda>_. 0)"
proof -
  let ?k = "notavail (Buf 14) rd_kernel"
  obtain fl ch where inv: "cache_inv 0 rd_kernel fl ch" "set fl = {..<NBUF}"
    using rd_kernel_ok by (auto simp: cache_at_def)
  then have "14 \<in> set fl" by simp
  then obtain xs ys where fl: "fl = xs @ 14 # ys" by (metis in_set_conv_decomp)
  note n = notavail_inv [OF inv(1) [unfolded fl]]
  have d: "distinct fl" using inv(1) by (auto simp: cache_inv_def lists_ok_def ring_def distinct_map)
  have "{..<NBUF} - set (xs @ ys) = {14}" using inv(2) d unfolding fl by auto
  then have c: "cache_at 0 ?k {14}" using cache_at_inv [OF n(1)] by simp
  have nd: "b_dev (bufp ?k (Buf 14)) = NODEV" using rd_kernel_nodev [of 14] by (simp add: notavail_buf)
  note s = sb_store [OF c _ nd, where f = "\<lambda>_. sb_small"]
  show sb: "sb fs_kernel (Buf 14) = sb_small" using s(4) by (simp add: fs_kernel_def)
  show "content 0 fs_kernel bn = clip (\<lambda>_. 0)"
    using s(2) n(2) rd_kernel_content by (simp add: fs_kernel_def)
  show "fs_at 0 fs_kernel {14} 14"
    using s(1,3) sb by (simp add: fs_at_def sb_small_fields) (simp add: fs_kernel_def)
qed

lemma fs_kernel_list: "free_list (content 0 fs_kernel) (batch (sb fs_kernel (Buf 14))) [21, 20]"
  using free_list.sentinel [of "content 0 fs_kernel" "[20, 21]"] by (simp add: fs_kernel_at sb_small_fields)

lemma fs_kernel_held: "j \<in> {14} \<Longrightarrow> \<not> holds 0 fs_kernel j b"
  using fs_kernel_at(1) by (simp add: fs_at_def holds_def)

lemma fs_kernel_room: "{14} \<noteq> {..<NBUF}"
proof
  assume "{14} = {..<NBUF}"
  then have "0 \<in> {14 :: nat}" by simp
  then show False by simp
qed

text \<open>C7: \<^verbatim>\<open>alloc\<close> takes the first block off the free list, whether it lies in the
  superblock's batch or is the block that holds the next one: the buffer it returns belongs to that
  block and reads as zeros, the rest of the list stays as it was, and no other block changes.\<close>

theorem alloc_takes_first:
  assumes "fs_at dv k B s" "free_list (content dv k) (batch (sb k (Buf s))) (b # L)" "B \<noteq> {..<NBUF}"
    and "\<not> badblock (sb k (Buf s)) b" "b \<noteq> 0" "in_range b" "b \<notin> set L" "\<forall>x\<in>set L. in_range x"
    and "\<forall>j\<in>B. \<not> holds dv k j b"
  shows "\<exists>i k'. alloc dv k = Ret (Some (Buf i)) k' \<and> fs_at dv k' (insert i B) s \<and> holds dv k' i b
    \<and> clip (b_addr (bufp k' (Buf i))) = (\<lambda>_. 0) \<and> free_list (content dv k') (batch (sb k' (Buf s))) L
    \<and> (\<forall>x. in_range x \<and> x \<noteq> b \<longrightarrow> content dv k' x = content dv k x)"
  using alloc_pops [OF assms(1-7)] assms(8,9) by blast

theorem alloc_takes_first_witness:
  "\<exists>i k'. alloc 0 fs_kernel = Ret (Some (Buf i)) k' \<and> holds 0 k' i 21
    \<and> free_list (content 0 k') (batch (sb k' (Buf 14))) [20]"
proof -
  have "\<not> badblock (sb fs_kernel (Buf 14)) 21" by (simp add: badblock_def fs_kernel_at(2) sb_small_fields)
  moreover have "in_range 21" "\<forall>x\<in>set [20]. in_range x" by (simp_all add: in_range_def)
  moreover have "\<forall>j\<in>{14}. \<not> holds 0 fs_kernel j 21" using fs_kernel_held by blast
  moreover have "(21 :: 32 word) \<noteq> 0" "21 \<notin> set [20 :: 32 word]" by simp_all
  ultimately show ?thesis
    using alloc_takes_first [OF fs_kernel_at(1) fs_kernel_list] fs_kernel_room by blast
qed

text \<open>C8: A block given back by \<^verbatim>\<open>bfree\<close> is the one the next \<^verbatim>\<open>alloc\<close> takes, and
  the free list is then what it was before, also when the batch was full and had to be written into
  the block itself.\<close>

theorem bfree_alloc_roundtrip:
  assumes "fs_at dv k B s" "free_list (content dv k) (batch (sb k (Buf s))) L" "B \<noteq> {..<NBUF}"
    and "\<not> badblock (sb k (Buf s)) b" "b \<noteq> 0" "in_range b" "b \<notin> set L" "\<forall>x\<in>set L. in_range x"
    and "\<forall>j\<in>B. \<not> holds dv k j b"
  shows "\<exists>k1 i k2. bfree dv b k = Ret () k1 \<and> free_list (content dv k1) (batch (sb k1 (Buf s))) (b # L)
    \<and> alloc dv k1 = Ret (Some (Buf i)) k2 \<and> holds dv k2 i b
    \<and> free_list (content dv k2) (batch (sb k2 (Buf s))) L"
proof -
  obtain k1 where k1: "bfree dv b k = Ret () k1" "fs_at dv k1 B s"
    "free_list (content dv k1) (batch (sb k1 (Buf s))) (b # L)"
    "s_isize (sb k1 (Buf s)) = s_isize (sb k (Buf s))" "s_fsize (sb k1 (Buf s)) = s_fsize (sb k (Buf s))"
    "\<And>j. j \<in> B - {s} \<Longrightarrow> same_buf k k1 j"
    using bfree_pushes [OF assms(1-7)] assms(8,9) by blast
  have "\<not> holds dv k1 j b" if "j \<in> B" for j
  proof (cases "j = s")
    case True
    then show ?thesis using k1(2) cache_nodev by (auto simp: fs_at_def holds_def)
  next
    case False
    then show ?thesis using same_buf_facts(2) [OF k1(6)] assms(9) that by simp
  qed
  moreover have "\<not> badblock (sb k1 (Buf s)) b" using assms(4) badblock_cong [OF k1(4,5)] by simp
  ultimately show ?thesis
    using alloc_pops [OF k1(2,3) assms(3) _ assms(5-7)] assms(8) k1(1,3) by blast
qed

theorem bfree_alloc_roundtrip_witness:
  "\<exists>k1 i k2. bfree 0 33 fs_kernel = Ret () k1 \<and> alloc 0 k1 = Ret (Some (Buf i)) k2 \<and> holds 0 k2 i 33"
proof -
  have "\<not> badblock (sb fs_kernel (Buf 14)) 33" by (simp add: badblock_def fs_kernel_at(2) sb_small_fields)
  moreover have "in_range 33" "\<forall>x\<in>set [21, 20]. in_range x" "33 \<notin> set [21, 20 :: 32 word]" by (simp_all add: in_range_def)
  moreover have "\<forall>j\<in>{14}. \<not> holds 0 fs_kernel j 33" using fs_kernel_held by blast
  moreover have "(33 :: 32 word) \<noteq> 0" by simp
  ultimately show ?thesis
    using bfree_alloc_roundtrip [OF fs_kernel_at(1) fs_kernel_list, of 33] fs_kernel_room by blast
qed

end
