(* ===== verification/Inode.thy ===== *)
theory Inode
  imports Alloc
begin

text \<open>
  \<^verbatim>\<open>kernel/fs/iget.c\<close>: the table of in-core inodes, with \<^verbatim>\<open>iget\<close>, \<^verbatim>\<open>iput\<close>,
  \<^verbatim>\<open>iupdat\<close>, \<^verbatim>\<open>itrunc\<close>, \<^verbatim>\<open>prele\<close>, \<^verbatim>\<open>iaccess\<close> and \<^verbatim>\<open>bmap\<close>, and the part
  of \<^verbatim>\<open>kernel/fs/alloc.c\<close> that works on inodes: \<^verbatim>\<open>ialloc\<close>, \<^verbatim>\<open>update\<close> and
  \<^verbatim>\<open>iinit\<close>.  A \<^verbatim>\<open>struct inode *\<close> is an index into the table.
\<close>

subsection \<open>The inode on the disk\<close>

text \<open>\<^verbatim>\<open>struct dinode\<close> at byte \<open>o\<close> of its block.  The two halves of a time are 16-bit
  words, the high half first.\<close>

definition get_time :: "block \<Rightarrow> nat \<Rightarrow> int32_t" where
  "get_time b i = push_bit 16 (ucast (get16 b i)) OR ucast (get16 b (i + 2))"

definition put_time :: "nat \<Rightarrow> int32_t \<Rightarrow> block \<Rightarrow> block" where
  "put_time i t b = put16 (put16 b i (ucast (drop_bit 16 t))) (i + 2) (ucast t)"

definition load_dinode :: "block \<Rightarrow> nat \<Rightarrow> inode \<Rightarrow> inode" where
  "load_dinode b o' p = p\<lparr>i_mode := get16 b o', i_nlink := b (o' + 2), i_uid := ucast (b (o' + 3)),
     i_gid := ucast (b (o' + 4)), i_size0 := b (o' + 5), i_size1 := ucast (get16 b (o' + 6)),
     i_addr := map (\<lambda>j. ucast (get16 b (o' + 8 + 2 * j))) [0..<8],
     i_atime := get_time b (o' + 24), i_mtime := get_time b (o' + 28), i_ctime := get_time b (o' + 28)\<rparr>"

definition store_addrs :: "nat \<Rightarrow> daddr_t list \<Rightarrow> block \<Rightarrow> block" where
  "store_addrs o' a b = fold (\<lambda>j b. put16 b (o' + 8 + 2 * j) (ucast (a ! j))) [0..<8] b"

definition store_dinode :: "inode \<Rightarrow> nat \<Rightarrow> block \<Rightarrow> block" where
  "store_dinode p o' b =
     (let b1 = (put16 b o' (i_mode p))(o' + 2 := i_nlink p, o' + 3 := ucast (i_uid p),
            o' + 4 := ucast (i_gid p), o' + 5 := i_size0 p);
          b2 = store_addrs o' (i_addr p) (put16 b1 (o' + 6) (ucast (i_size1 p)));
          b3 = (if hasf (i_flag p) IACC then put_time (o' + 24) (i_atime p) b2 else b2)
      in if hasf (i_flag p) IUPD then put_time (o' + 28) (i_mtime p) b3 else b3)"

definition inode_block :: "ino_t \<Rightarrow> daddr_t" where
  "inode_block ino = of_nat ((unat ino + 31) div 16)"

definition inode_offset :: "ino_t \<Rightarrow> nat" where
  "inode_offset ino = 32 * ((unat ino + 31) mod 16)"

subsection \<open>Releasing and writing back\<close>

definition prele :: "nat \<Rightarrow> kernel \<Rightarrow> kernel" where
  "prele i k =
     (let k1 = upd_inode i (\<lambda>p. p\<lparr>i_flag := i_flag p AND NOT ILOCK\<rparr>) k
      in if hasf (i_flag (inodep k1 i)) IWANT
         then wakeup (ChInode i 0) (upd_inode i (\<lambda>p. p\<lparr>i_flag := i_flag p AND NOT IWANT\<rparr>) k1) else k1)"

definition iupdat :: "nat \<Rightarrow> unit kop" where
  "iupdat i k =
     (let p = inodep k i
      in if \<not> hasf (i_flag p) (IUPD OR IACC) then Ret () k
         else (case getfs (i_dev p) k of
             (None, k) \<Rightarrow> Ret () k
           | (Some fp, k) \<Rightarrow>
               if s_ronly (sb k fp) \<noteq> 0 then Ret () k
               else kbind (bread (i_dev p) (inode_block (i_number p))) (\<lambda>bp k.
                 bwrite bp (upd_sb bp (store_dinode p (inode_offset (i_number p))) k)) k))"

text \<open>The loops of \<^verbatim>\<open>itrunc\<close> over the words of an indirect block, read in the buffer each
  time, from the last to the first.\<close>

definition word_at :: "bptr \<Rightarrow> nat \<Rightarrow> kernel \<Rightarrow> daddr_t" where
  "word_at bp j k = get32 (b_addr (bufp k bp)) (4 * j)"

definition free_word :: "dev_t \<Rightarrow> bptr \<Rightarrow> nat \<Rightarrow> unit kop" where
  "free_word dev bp j k = (if word_at bp j k = 0 then Ret () k else bfree dev (word_at bp j k) k)"

definition free_second :: "dev_t \<Rightarrow> bptr \<Rightarrow> nat \<Rightarrow> unit kop" where
  "free_second dev bp j k =
     kbind (bread dev (word_at bp j k)) (\<lambda>ibp.
       kseq (each (free_word dev ibp) (rev [0..<NINDIR])) (act (brelse ibp))) k"

definition free_indirect :: "dev_t \<Rightarrow> bool \<Rightarrow> bptr \<Rightarrow> nat \<Rightarrow> unit kop" where
  "free_indirect dev dbl bp j k =
     (if word_at bp j k = 0 then Ret () k
      else kseq (if dbl then free_second dev bp j else ret ()) (free_word dev bp j) k)"

definition trunc_slot :: "nat \<Rightarrow> nat \<Rightarrow> unit kop" where
  "trunc_slot i j k =
     (let ip = inodep k i; dev = i_dev ip; bn = i_addr ip ! j
      in if bn = 0 then Ret () k
         else kseq (if hasf (i_mode ip) ILARG
                    then kbind (bread dev bn) (\<lambda>bp.
                      kseq (each (free_indirect dev (j = 7) bp) (rev [0..<NINDIR])) (act (brelse bp)))
                    else ret ())
                (kseq (bfree dev bn)
                  (act (upd_inode i (\<lambda>p. p\<lparr>i_addr := (i_addr p)[j := 0]\<rparr>)))) k)"

definition itrunc :: "nat \<Rightarrow> unit kop" where
  "itrunc i k =
     (let m = i_mode (inodep k i)
      in if m AND IFMT = IFCHR \<or> m AND IFMT = IFBLK then Ret () k
         else kseq (each (trunc_slot i) (rev [0..<8]))
           (act (upd_inode i (\<lambda>p. p\<lparr>i_mode := i_mode p AND NOT ILARG, i_size0 := 0, i_size1 := 0,
              i_flag := i_flag p OR IUPD\<rparr>))) k)"

definition iput_last :: "nat \<Rightarrow> unit kop" where
  "iput_last i k =
     kseq (if sint (i_nlink (inodep k i)) \<le> 0
           then kseq (itrunc i) (\<lambda>k.
             let k1 = upd_inode i (\<lambda>p. p\<lparr>i_mode := 0\<rparr>) k
             in Ret () (ifree (i_dev (inodep k1 i)) (i_number (inodep k1 i)) k1))
           else ret ())
       (kseq (iupdat i) (act (upd_inode i (\<lambda>p. p\<lparr>i_flag := 0, i_count := 0, i_number := 0\<rparr>)))) k"

definition iput :: "nat \<Rightarrow> unit kop" where
  "iput i k =
     (let k1 = upd_inode i (\<lambda>p. p\<lparr>i_flag := i_flag p OR ILOCK\<rparr>) k
      in if i_count (inodep k1 i) = 1 then iput_last i k1
         else Ret () (prele i (upd_inode i (\<lambda>p. p\<lparr>i_count := i_count p - 1\<rparr>) k1)))"

text \<open>\<^verbatim>\<open>iput\<close> of a pointer that may be null.\<close>

definition iput_opt :: "nat option \<Rightarrow> unit kop" where
  "iput_opt r = (case r of None \<Rightarrow> ret () | Some i \<Rightarrow> iput i)"

subsection \<open>iget\<close>

definition in_core :: "dev_t \<Rightarrow> ino_t \<Rightarrow> inode \<Rightarrow> bool" where
  "in_core dev ino p \<longleftrightarrow> i_dev p = dev \<and> i_number p = ino"

definition iget_found :: "(dev_t \<Rightarrow> ino_t \<Rightarrow> nat option kop) \<Rightarrow> nat \<Rightarrow> nat option kop" where
  "iget_found again i k =
     (let fl = i_flag (inodep k i)
      in if hasf fl ILOCK then
           kseq (sleep (ChInode i 0) PINOD) (stop Spins) (upd_inode i (\<lambda>p. p\<lparr>i_flag := i_flag p OR IWANT\<rparr>) k)
         else if hasf fl IMOUNT then
           (case find_slot (\<lambda>mp. m_inodp mp = Some i) (mounts (k_fs k)) of
              None \<Rightarrow> Stop (Panicked ''no imt'') k
            | Some m \<Rightarrow> again (m_dev (mounts (k_fs k) ! m)) ROOTINO k)
         else Ret (Some i) (upd_inode i (\<lambda>p. p\<lparr>i_count := i_count p + 1, i_flag := i_flag p OR ILOCK\<rparr>) k))"

definition iget_new :: "dev_t \<Rightarrow> ino_t \<Rightarrow> nat \<Rightarrow> nat option kop" where
  "iget_new dev ino i k =
     kbind (bread dev (inode_block ino)) (\<lambda>bp k.
       if flagged k bp B_ERROR then kseq (act (brelse bp)) (kseq (iput i) (ret None)) k
       else Ret (Some i) (brelse bp (upd_inode i (load_dinode (b_addr (bufp k bp)) (inode_offset ino)) k)))
       (upd_inode i (\<lambda>p. p\<lparr>i_dev := dev, i_number := ino, i_flag := ILOCK, i_count := 1, i_lastr := - 1\<rparr>) k)"

text \<open>The fuel bounds the \<^verbatim>\<open>goto loop\<close> that follows a mounted-on inode to the root of the
  mounted file system: one round more than there are mounts.\<close>

fun iget_loop :: "nat \<Rightarrow> dev_t \<Rightarrow> ino_t \<Rightarrow> nat option kop" where
  "iget_loop n dev ino k =
     (let again = (case n of 0 \<Rightarrow> (\<lambda>_ _. stop Spins) | Suc m \<Rightarrow> iget_loop m)
      in case find_slot (in_core dev ino) (inodes (k_fs k)) of
           Some i \<Rightarrow> iget_found again i k
         | None \<Rightarrow>
             (case find_slot (\<lambda>p. i_count p = 0) (inodes (k_fs k)) of
                None \<Rightarrow> Ret None (set_error ENFILE k)
              | Some i \<Rightarrow> iget_new dev ino i k))"

definition iget :: "dev_t \<Rightarrow> ino_t \<Rightarrow> nat option kop" where
  "iget = iget_loop (NMOUNT + 1)"

subsection \<open>iaccess\<close>

definition iaccess :: "nat \<Rightarrow> mode_t \<Rightarrow> kernel \<Rightarrow> bool \<times> kernel" where
  "iaccess i mode k =
     (let u = k_u k; ip = inodep k i;
          m = (if ucast (u_uid u) = i_uid ip then drop_bit 6 mode
               else if ucast (u_gid u) = i_gid ip then drop_bit 3 mode else mode)
      in if u_uid u = 0 then (False, k)
         else if i_mode ip AND m = 0 then (True, set_error EACCES k) else (False, k))"

subsection \<open>bmap\<close>

definition set_addr :: "nat \<Rightarrow> nat \<Rightarrow> daddr_t \<Rightarrow> kernel \<Rightarrow> kernel" where
  "set_addr i j bn = upd_inode i (\<lambda>p. p\<lparr>i_addr := (i_addr p)[j := bn]\<rparr>)"

abbreviation (input) BADBN :: daddr_t where "BADBN \<equiv> - 1"

text \<open>\<^verbatim>\<open>alloc\<close> followed by \<^verbatim>\<open>bdwrite\<close>, with the new block's number stored in between;
  \<open>None\<close> when there is no space.\<close>

definition new_block :: "dev_t \<Rightarrow> (daddr_t \<Rightarrow> kernel \<Rightarrow> kernel) \<Rightarrow> daddr_t option kop" where
  "new_block dev f = kbind (alloc dev) (\<lambda>r. case r of
     None \<Rightarrow> ret None
   | Some bp \<Rightarrow> (\<lambda>k. let nb = b_blkno (bufp k bp) in Ret (Some nb) (bdwrite bp (f nb k))))"

definition bmap_direct :: "nat \<Rightarrow> nat \<Rightarrow> bool \<Rightarrow> daddr_t kop" where
  "bmap_direct i j rw k =
     (let ip = inodep k i; nb = i_addr ip ! j
      in if nb = 0 \<and> rw then
           kbind (new_block (i_dev ip) (\<lambda>_ k. k)) (\<lambda>r. case r of
             None \<Rightarrow> ret BADBN | Some nb \<Rightarrow> kseq (act (set_addr i j nb)) (ret nb)) k
         else Ret nb k)"

text \<open>Turning the eight direct addresses into the first words of an indirect block.\<close>

definition addr_words :: "daddr_t list \<Rightarrow> block \<Rightarrow> block" where
  "addr_words a b = fold (\<lambda>j b. put32 b (4 * j) (a ! j)) [0..<8] b"

definition make_large :: "nat \<Rightarrow> bool kop" where
  "make_large i k =
     (let ip = inodep k i
      in kbind (alloc (i_dev ip)) (\<lambda>r. case r of
           None \<Rightarrow> ret False
         | Some bp \<Rightarrow> (\<lambda>k.
             Ret True (upd_inode i (\<lambda>p. p\<lparr>i_mode := i_mode p OR ILARG\<rparr>)
               (bdwrite bp
                 (upd_inode i (\<lambda>p. p\<lparr>i_addr := (replicate 8 0)[0 := b_blkno (bufp k bp)]\<rparr>)
                   (upd_sb bp (addr_words (i_addr ip)) k)))))) k)"

text \<open>A word of the indirect block in the buffer \<open>bp\<close>, allocated when it is 0 and \<open>rw\<close>
  (\<open>None\<close> when there is no space); the buffer is released.  A word past the end of the
  block is outside the array.\<close>

definition indirect_word :: "dev_t \<Rightarrow> bptr \<Rightarrow> uint32_t \<Rightarrow> bool \<Rightarrow> daddr_t option kop" where
  "indirect_word dev bp w rw k =
     (if unat w \<ge> NINDIR then Stop OutOfBounds k
      else
        (let nb = word_at bp (unat w) k
         in if nb = 0 \<and> rw then
              kbind (alloc dev) (\<lambda>r. case r of
                  None \<Rightarrow> kseq (act (brelse bp)) (ret None)
                | Some nbp \<Rightarrow> (\<lambda>k. let nb = b_blkno (bufp k nbp)
                    in Ret (Some nb) (bdwrite bp (bdwrite nbp (upd_sb bp (\<lambda>b. put32 b (4 * unat w) nb) k))))) k
            else Ret (Some nb) (brelse bp k)))"

definition bmap_last :: "dev_t \<Rightarrow> daddr_t \<Rightarrow> uint32_t \<Rightarrow> bool \<Rightarrow> daddr_t kop" where
  "bmap_last dev nb w rw = kbind (bread dev nb) (\<lambda>bp.
     kbind (indirect_word dev bp w rw) (\<lambda>r. ret (case r of None \<Rightarrow> BADBN | Some nb \<Rightarrow> nb)))"

definition bmap_double :: "dev_t \<Rightarrow> daddr_t \<Rightarrow> uint32_t \<Rightarrow> bool \<Rightarrow> daddr_t kop" where
  "bmap_double dev nb idx rw = kbind (bread dev nb) (\<lambda>bp.
     kbind (indirect_word dev bp (idx div 128) rw) (\<lambda>r. case r of
       None \<Rightarrow> ret BADBN
     | Some nb2 \<Rightarrow> if nb2 = 0 then ret BADBN else bmap_last dev nb2 (idx mod 128) rw))"

text \<open>\<^verbatim>\<open>NINDIR\<close> is a \<^verbatim>\<open>sizeof\<close>, so the comparisons and divisions by it are unsigned.\<close>

definition bmap_large :: "nat \<Rightarrow> daddr_t \<Rightarrow> bool \<Rightarrow> daddr_t kop" where
  "bmap_large i bn rw k =
     (let ip = inodep k i; dev = i_dev ip;
          j = (if bn < 896 then unat (bn div 128) else 7);
          nb = i_addr ip ! j
      in kbind (if nb \<noteq> 0 then ret (Some nb)
                else if rw then new_block dev (set_addr i j) else ret None) (\<lambda>r. case r of
           None \<Rightarrow> ret BADBN
         | Some nb \<Rightarrow> if bn < 896 then bmap_last dev nb (bn mod 128) rw
                      else bmap_double dev nb (bn - 896) rw) k)"

definition bmap :: "nat \<Rightarrow> daddr_t \<Rightarrow> bool \<Rightarrow> daddr_t kop" where
  "bmap i bn rw k =
     (if \<not> hasf (i_mode (inodep k i)) ILARG then
        (if sint bn \<ge> 8 then
           (if rw then kbind (make_large i) (\<lambda>ok. if ok then bmap_large i bn rw else ret BADBN) k
            else Ret BADBN k)
         else if sint bn < 0 then Stop OutOfBounds k
         else bmap_direct i (unat bn) rw k)
      else bmap_large i bn rw k)"

subsection \<open>ialloc\<close>

definition fresh_inode :: "int32_t \<Rightarrow> inode \<Rightarrow> inode" where
  "fresh_inode t p = p\<lparr>i_flag := 0, i_mode := 0, i_nlink := 0, i_uid := 0, i_gid := 0, i_size0 := 0,
     i_size1 := 0, i_addr := replicate 8 0, i_atime := t, i_mtime := t, i_ctime := t\<rparr>"

text \<open>The search for free inodes in one block of the i-list: the number of the last inode looked
  at, and the superblock with the numbers found.\<close>

fun scan_slots :: "kernel \<Rightarrow> dev_t \<Rightarrow> block \<Rightarrow> nat list \<Rightarrow> ino_t \<times> block \<Rightarrow> ino_t \<times> block" where
  "scan_slots k dev d [] st = st"
| "scan_slots k dev d (j # js) (ino, s) =
     (let ino' = ino + 1
      in if get16 d (32 * j) \<noteq> 0 \<or> find_slot (in_core dev ino') (inodes (k_fs k)) \<noteq> None
         then scan_slots k dev d js (ino', s)
         else (let s' = push_inode ino' s
               in if sint (s_ninode s') \<ge> NICINOD then (ino', s') else scan_slots k dev d js (ino', s')))"

primrec scan_blocks :: "dev_t \<Rightarrow> bptr \<Rightarrow> nat list \<Rightarrow> ino_t \<Rightarrow> unit kop" where
  "scan_blocks dev fp [] ino = ret ()"
| "scan_blocks dev fp (i # js) ino =
     kbind (bread dev (of_nat (i + 2))) (\<lambda>bp k.
       case scan_slots k dev (b_addr (bufp k bp)) [0..<16] (ino, sb k fp) of (ino', s) \<Rightarrow>
         (if sint (s_ninode s) \<ge> NICINOD then ret () else scan_blocks dev fp js ino')
           (brelse bp (upd_sb fp (\<lambda>_. s) k)))"

definition search_inodes :: "dev_t \<Rightarrow> bptr \<Rightarrow> unit kop" where
  "search_inodes dev fp k =
     kseq (scan_blocks dev fp [0..<unat (s_isize (sb k fp))] 0)
       (act (\<lambda>k. wakeup (ChIlock fp) (upd_sb fp (set_ilock 0) k)))
       (upd_sb fp (\<lambda>b. set_ilock (s_ilock b + 1) b) k)"

definition take_inode :: "nat option kop \<Rightarrow> dev_t \<Rightarrow> bptr \<Rightarrow> nat option kop" where
  "take_inode again dev fp k =
     (let n = s_ninode (sb k fp) - 1
      in kbind (iget dev (s_inode (sb k fp) (unat n))) (\<lambda>r. case r of
           None \<Rightarrow> ret None
         | Some i \<Rightarrow> (\<lambda>k.
             if i_mode (inodep k i) = 0
             then Ret (Some i) (upd_sb fp (set_fmod 1) (upd_inode i (fresh_inode (time1 (k_clk k))) k))
             else kseq (iput i) again k)) (upd_sb fp (set_ninode n) k))"

text \<open>The \<^verbatim>\<open>goto loop\<close> goes through the numbers in the superblock and, once they are used
  up, through those of one search: fuel \<open>2 * NICINOD + 2\<close>.\<close>

fun ialloc_loop :: "nat \<Rightarrow> dev_t \<Rightarrow> bptr \<Rightarrow> nat option kop" where
  "ialloc_loop n dev fp k =
     (let again = (case n of 0 \<Rightarrow> stop Spins | Suc m \<Rightarrow> ialloc_loop m dev fp)
      in if sint (s_ninode (sb k fp)) > 0 then take_inode again dev fp k
         else kseq (search_inodes dev fp) (\<lambda>k.
           if sint (s_ninode (sb k fp)) > 0 then again k else Ret None (set_error ENOSPC k)) k)"

definition ialloc :: "dev_t \<Rightarrow> nat option kop" where
  "ialloc dev k =
     (case getfs dev k of
        (None, k) \<Rightarrow> Ret None (set_error ENODEV k)
      | (Some fp, k) \<Rightarrow>
          if s_ilock (sb k fp) \<noteq> 0 then kseq (sleep (ChIlock fp) PINOD) (stop Spins) k
          else ialloc_loop 102 dev fp k)"

subsection \<open>update and iinit\<close>

definition sync_super :: "mount \<Rightarrow> unit kop" where
  "sync_super mp k =
     (let fp = m_bufp mp; s = sb k fp
      in if fp = NilB then Ret () k
         else if s_fmod s = 0 \<or> s_ilock s \<noteq> 0 \<or> s_flock s \<noteq> 0 \<or> s_ronly s \<noteq> 0 then Ret () k
         else kbind (getblk (m_dev mp) 1) (\<lambda>bp k.
           let k1 = upd_sb fp (\<lambda>b. set_stime (time0 (k_clk k)) (time1 (k_clk k)) (set_fmod 0 b)) k
           in bwrite bp (upd_sb bp (\<lambda>b. bcopy (sb k1 fp) 0 b 0 BSIZE) k1)) k)"

definition sync_inode :: "nat \<Rightarrow> unit kop" where
  "sync_inode i k =
     (if i_flag (inodep k i) AND (ILOCK OR IUPD) = IUPD then
        kseq (iupdat i) (act (prele i))
          (upd_inode i (\<lambda>p. p\<lparr>i_flag := i_flag p AND NOT IUPD\<rparr>)
            (upd_inode i (\<lambda>p. p\<lparr>i_flag := i_flag p OR ILOCK\<rparr>) k))
      else Ret () k)"

definition update :: "unit kop" where
  "update k =
     (if updlock (k_fs k) \<noteq> 0 then Ret () k
      else kseq (each sync_super (mounts (k_fs k)))
        (kseq (each sync_inode [0..<NINODE])
          (kseq (act (\<lambda>k. k\<lparr>k_fs := (k_fs k)\<lparr>updlock := 0\<rparr>\<rparr>)) (bflush NODEV)))
        (k\<lparr>k_fs := (k_fs k)\<lparr>updlock := updlock (k_fs k) + 1\<rparr>\<rparr>))"

definition set_time :: "int32_t \<Rightarrow> int32_t \<Rightarrow> kernel \<Rightarrow> kernel" where
  "set_time t0 t1 k = k\<lparr>k_clk := (k_clk k)\<lparr>time0 := t0, time1 := t1\<rparr>\<rparr>"

text \<open>The only driver modelled, the RAM disk, has an empty open routine.\<close>

definition iinit :: "unit kop" where
  "iinit k =
     (let dev = rootdev (k_fs k)
      in if nblkdev (k_bio k) = 0 then Ret () (set_time 0 0 k)
         else if major dev \<ge> length (bdevsw (k_bio k)) then Stop OutOfBounds k
         else kbind (bread dev 1) (\<lambda>bp k.
           if flagged k bp B_ERROR then Ret () (set_time 0 0 (brelse bp k))
           else kbind (getblk NODEV 0) (\<lambda>cp k.
             let k1 = brelse bp (upd_sb cp (\<lambda>b. bcopy (sb k bp) 0 b 0 BSIZE) k);
                 k2 = k1\<lparr>k_fs := (k_fs k1)\<lparr>mounts := (mounts (k_fs k1))[0 := (mounts (k_fs k1) ! 0)\<lparr>m_bufp := cp, m_dev := dev\<rparr>]\<rparr>\<rparr>;
                 k3 = upd_sb cp (\<lambda>b. set_ronly 0 (set_ilock 0 (set_flock 0 b))) k2
             in Ret () (set_time (get32 (sb k3 cp) 320) (get32 (sb k3 cp) 324) k3)) k) k)"

declare iget_loop.simps [simp del] ialloc_loop.simps [simp del]

subsection \<open>The disk inode\<close>

lemma put16_upd_other: "j + 2 \<le> i \<or> i < j \<Longrightarrow> (put16 b j v) i = b i"
  by (auto simp: put16_def)

lemma upt8: "[0..<8] = [0, 1, 2, 3, 4, 5, 6, 7 :: nat]"
  by (simp add: upt_rec)

lemma store_addrs_other: "p < o' + 8 \<or> o' + 24 \<le> p \<Longrightarrow> store_addrs o' a b p = b p"
  by (auto simp: store_addrs_def upt8 put16_upd_other)

lemma get16_store_addrs_other: "p + 2 \<le> o' + 8 \<or> o' + 24 \<le> p \<Longrightarrow> get16 (store_addrs o' a b) p = get16 b p"
  by (rule get16_cong) (auto simp: store_addrs_other)

lemma get16_store_addrs: "j < 8 \<Longrightarrow> get16 (store_addrs o' a b) (o' + 8 + 2 * j) = ucast (a ! j)"
proof -
  assume "j < 8"
  then have "j \<in> {0, 1, 2, 3, 4, 5, 6, 7}" by auto
  then show ?thesis by (auto simp: store_addrs_def upt8 mem_simps)
qed

lemma get_put_time [simp]: "get_time (put_time i t b) i = t"
proof -
  have "push_bit 16 (ucast (ucast (drop_bit 16 t) :: 16 word)) OR ucast (ucast t :: 16 word) = t"
    by (rule bit_word_eqI) (auto simp: bit_simps)
  then show ?thesis by (simp add: get_time_def put_time_def mem_simps)
qed

lemma put_time_other: "p < i \<or> i + 4 \<le> p \<Longrightarrow> put_time i t b p = b p"
  by (auto simp: put_time_def put16_upd_other)

lemma get16_put_time_other: "p + 2 \<le> i \<or> i + 4 \<le> p \<Longrightarrow> get16 (put_time i t b) p = get16 b p"
  by (rule get16_cong) (auto simp: put_time_other)

lemma get_put_time_other: "p + 4 \<le> i \<or> i + 4 \<le> p \<Longrightarrow> get_time (put_time i t b) p = get_time b p"
  by (auto simp: get_time_def get16_put_time_other)

lemma get_time_store_addrs: "p + 4 \<le> o' + 8 \<or> o' + 24 \<le> p \<Longrightarrow> get_time (store_addrs o' a b) p = get_time b p"
  by (auto simp: get_time_def get16_store_addrs_other)

lemma get_time_upd: "p + 4 \<le> i \<or> i < p \<Longrightarrow> get_time (b(i := v)) p = get_time b p"
  by (auto simp: get_time_def mem_simps)

lemma get_time_put16: "p + 4 \<le> i \<or> i + 2 \<le> p \<Longrightarrow> get_time (put16 b i v) p = get_time b p"
  by (auto simp: get_time_def mem_simps)

lemmas dinode_simps = get_time_upd get_time_put16 mem_simps get_put_time_other get16_put_time_other put_time_other get16_store_addrs
  get16_store_addrs_other store_addrs_other get_time_store_addrs put16_upd_other

lemma get16_clip: "i + 2 \<le> BSIZE \<Longrightarrow> get16 (clip b) i = get16 b i"
  by (rule get16_cong) (auto simp: clip_def)

text \<open>Storing keeps an inode when its fields fit into the 16-bit and 8-bit fields of the disk.\<close>

definition fits :: "inode \<Rightarrow> bool" where
  "fits p \<longleftrightarrow> length (i_addr p) = 8 \<and> (\<forall>a\<in>set (i_addr p). unat a < 65536) \<and> unat (i_uid p) < 256
     \<and> unat (i_gid p) < 256 \<and> unat (i_size1 p) < 65536"

lemma fit16: "unat (w :: 32 word) < 65536 \<Longrightarrow> ucast (ucast w :: 16 word) = w"
  by (simp add: word_unat_eq_iff unsigned_ucast_eq unsigned_take_bit_eq take_bit_nat_eq_self)

lemma fit8: "unat (w :: 16 word) < 256 \<Longrightarrow> ucast (ucast w :: 8 word) = w"
  by (simp add: word_unat_eq_iff unsigned_ucast_eq unsigned_take_bit_eq take_bit_nat_eq_self)

definition stored_times :: "inode \<Rightarrow> block \<Rightarrow> nat \<Rightarrow> int32_t \<times> int32_t" where
  "stored_times p b o' = (if hasf (i_flag p) IACC then i_atime p else get_time b (o' + 24),
     if hasf (i_flag p) IUPD then i_mtime p else get_time b (o' + 28))"

lemma load_store_dinode:
  assumes "fits p"
  shows "load_dinode (store_dinode p o' b) o' q = q\<lparr>i_mode := i_mode p, i_nlink := i_nlink p, i_uid := i_uid p,
    i_gid := i_gid p, i_size0 := i_size0 p, i_size1 := i_size1 p, i_addr := i_addr p,
    i_atime := fst (stored_times p b o'), i_mtime := snd (stored_times p b o'), i_ctime := snd (stored_times p b o')\<rparr>"
proof -
  have "get16 (store_dinode p o' b) (o' + 8 + 2 * j) = ucast (i_addr p ! j)" if "j < 8" for j
    using that by (simp add: store_dinode_def Let_def dinode_simps)
  then have a: "map (\<lambda>j. ucast (get16 (store_dinode p o' b) (o' + 8 + 2 * j))) [0..<8] = i_addr p"
    using assms by (intro nth_equalityI) (auto simp: fits_def fit16)
  have w: "ucast (ucast (i_uid p) :: 8 word) = i_uid p" "ucast (ucast (i_gid p) :: 8 word) = i_gid p"
    "ucast (ucast (i_size1 p) :: 16 word) = i_size1 p"
    using assms by (simp_all add: fits_def fit8 fit16)
  show ?thesis
    unfolding load_dinode_def a
    by (simp add: store_dinode_def Let_def dinode_simps w stored_times_def)
qed

lemma get_time_clip: "i + 4 \<le> BSIZE \<Longrightarrow> get_time (clip b) i = get_time b i"
  by (simp add: get_time_def get16_clip)

lemma clip_apply: "i < BSIZE \<Longrightarrow> clip b i = b i"
  by (simp add: clip_def)

lemma load_dinode_clip: "o' + 32 \<le> BSIZE \<Longrightarrow> load_dinode (clip b) o' q = load_dinode b o' q"
  by (simp add: load_dinode_def get_time_clip get16_clip clip_apply cong: map_cong)

subsection \<open>Inodes and the file system\<close>

lemma fs_at_upd_inode [simp]: "fs_at dv (upd_inode i f k) B s = fs_at dv k B s"
  by (simp add: fs_at_def upd_inode_def)

lemma content_upd_inode [simp]: "content dv (upd_inode i f k) = content dv k"
  by (simp add: upd_inode_def)

lemma cache_at_upd_inode [simp]: "cache_at dv (upd_inode i f k) B = cache_at dv k B"
  by (simp add: upd_inode_def)

lemma same_buf_upd_inode [simp]: "same_buf k (upd_inode i f k') j = same_buf k k' j" "same_buf (upd_inode i f k) k' j = same_buf k k' j"
  by (simp_all add: same_buf_def)

lemma holds_upd_inode [simp]: "holds dv (upd_inode i f k) = holds dv k"
  by (simp add: holds_def fun_eq_iff)

lemma fs_keep: "fs_at dv k B s \<Longrightarrow> cache_at dv k' B' \<Longrightarrow> s \<in> B' \<Longrightarrow> same_buf k k' s \<Longrightarrow> bio_frame k k' \<Longrightarrow> fs_at dv k' B' s"
  by (rule fs_frame) (auto simp: fs_at_def same_buf_def Let_def)

lemma fs_at_cache: "fs_at dv k B s \<Longrightarrow> cache_at dv k B"
  by (simp add: fs_at_def)

lemma bio_frame_inodep: "bio_frame k k' \<Longrightarrow> inodep k' = inodep k"
  by (simp add: bio_frame_def inodep_def fun_eq_iff)

lemma bio_frame_fs: "bio_frame k k' \<Longrightarrow> k_fs k' = k_fs k"
  by (simp add: bio_frame_def)

text \<open>A block read, changed and written back.\<close>

lemma read_write_ok:
  assumes f: "fs_at dv k B s" and B: "B \<noteq> {..<NBUF}" "\<forall>j\<in>B. \<not> holds dv k j bn" and r: "in_range bn"
  shows "\<exists>d k'. kbind (bread dv bn) (\<lambda>bp k. bwrite bp (upd_sb bp g k)) k = Ret () k' \<and> clip d = content dv k bn
    \<and> content dv k' bn = clip (g d) \<and> fs_at dv k' B s \<and> bio_frame k k' \<and> (\<forall>j\<in>B. same_buf k k' j)
    \<and> (\<forall>b. in_range b \<and> b \<noteq> bn \<longrightarrow> content dv k' b = content dv k b)"
proof -
  have c: "cache_at dv k B" "s \<in> B" using f by (auto simp: fs_at_def)
  obtain i k1 where br: "bread dv bn k = Ret (Buf i) k1" "obtained dv k B bn i k1"
    "clip (b_addr (bufp k1 (Buf i))) = content dv k bn"
    using bread_ok [OF c(1) B(1) _ r] B(2) by blast
  have o: "i \<notin> B" "cache_at dv k1 (insert i B)" "holds dv k1 i bn" "bio_frame k k1"
    "\<And>j. j \<in> B \<Longrightarrow> same_buf k k1 j" "\<And>b. in_range b \<Longrightarrow> content dv k1 b = content dv k b"
    using br(2) by (auto simp: obtained_def)
  let ?k2 = "upd_sb (Buf i) g k1"
  note s2 = store_raw [OF o(2) insertI1 o(3), where f = g]
  have B2: "insert i B - {i} = B" using o(1) by auto
  obtain k3 where w: "bwrite (Buf i) ?k2 = Ret () k3" "cache_at dv k3 B" "bio_frame ?k2 k3"
    "\<And>b. in_range b \<Longrightarrow> content dv k3 b = (if b = bn then clip (sb ?k2 (Buf i)) else content dv ?k2 b)"
    "\<And>j. j \<in> B \<Longrightarrow> same_buf ?k2 k3 j"
    using bwrite_at [OF s2(1) insertI1 s2(4) r] B2 by (metis (no_types, lifting))
  have fr: "bio_frame k k3" using o(4) s2(5) w(3) by (blast intro: bio_frame_trans)
  have sm: "same_buf k k3 j" if "j \<in> B" for j
  proof -
    have "j \<noteq> i" using that o(1) by auto
    then show ?thesis using o(5) [OF that] s2(6) w(5) [OF that] by (blast intro: same_buf_trans)
  qed
  have "fs_at dv k3 B s" by (rule fs_keep [OF f w(2) c(2) sm [OF c(2)] fr])
  moreover have "content dv k3 b = content dv k b" if "in_range b" "b \<noteq> bn" for b
    using w(4) [OF that(1)] s2(2) [OF that(2)] o(6) [OF that(1)] that(2) by simp
  moreover have "content dv k3 bn = clip (g (sb k1 (Buf i)))" using w(4) [OF r] s2(3) by simp
  ultimately show ?thesis using br(1,3) w(1) fr sm by (intro exI [of _ "sb k1 (Buf i)"] exI [of _ k3]) simp
qed

lemma iupdat_ok:
  assumes f: "fs_at dv k B s" and B: "B \<noteq> {..<NBUF}"
    and p: "i_dev (inodep k i) = dv" "hasf (i_flag (inodep k i)) (IUPD OR IACC)" "s_ronly (sb k (Buf s)) = 0"
    and bn: "bn = inode_block (i_number (inodep k i))" "\<forall>j\<in>B. \<not> holds dv k j bn" "in_range bn"
  shows "\<exists>d k'. iupdat i k = Ret () k' \<and> clip d = content dv k bn
    \<and> content dv k' bn = clip (store_dinode (inodep k i) (inode_offset (i_number (inodep k i))) d)
    \<and> fs_at dv k' B s \<and> bio_frame k k' \<and> (\<forall>j\<in>B. same_buf k k' j)
    \<and> (\<forall>b. in_range b \<and> b \<noteq> bn \<longrightarrow> content dv k' b = content dv k b)"
proof -
  let ?g = "store_dinode (inodep k i) (inode_offset (i_number (inodep k i)))"
  have "iupdat i k = kbind (bread dv bn) (\<lambda>bp k. bwrite bp (upd_sb bp ?g k)) k"
    using getfs_ok [OF f] p by (simp add: iupdat_def Let_def bn(1) del: getfs_def)
  with read_write_ok [OF f B bn(2,3), where g = ?g] show ?thesis by auto
qed

text \<open>Reading an inode into a free slot.\<close>

lemma iget_new_ok:
  assumes f: "fs_at dv k B s" and B: "B \<noteq> {..<NBUF}" and i: "i < length (inodes (k_fs k))"
    and bn: "bn = inode_block ino" "\<forall>j\<in>B. \<not> holds dv k j bn" "in_range bn"
  shows "\<exists>k'. iget_new dv ino i k = Ret (Some i) k' \<and> fs_at dv k' B s
    \<and> inodep k' i = load_dinode (content dv k bn) (inode_offset ino)
        ((inodep k i)\<lparr>i_dev := dv, i_number := ino, i_flag := ILOCK, i_count := 1, i_lastr := - 1\<rparr>)
    \<and> (\<forall>j. j \<noteq> i \<longrightarrow> inodep k' j = inodep k j) \<and> length (inodes (k_fs k')) = length (inodes (k_fs k))
    \<and> (\<forall>b. in_range b \<longrightarrow> content dv k' b = content dv k b) \<and> (\<forall>j\<in>B. same_buf k k' j)
    \<and> bio_frame (k\<lparr>k_fs := k_fs k'\<rparr>) k' \<and> k_fs k' = (k_fs k)\<lparr>inodes := inodes (k_fs k')\<rparr>"
proof -
  let ?f = "\<lambda>p. p\<lparr>i_dev := dv, i_number := ino, i_flag := ILOCK, i_count := 1, i_lastr := - 1\<rparr>"
  let ?k1 = "upd_inode i ?f k"
  have c: "cache_at dv ?k1 B" "s \<in> B" "fs_at dv ?k1 B s" using f by (auto simp: fs_at_def)
  obtain b k2 where br: "bread dv bn ?k1 = Ret (Buf b) k2" "obtained dv ?k1 B bn b k2"
    "clip (b_addr (bufp k2 (Buf b))) = content dv k bn"
    using bread_ok [OF c(1) B _ bn(3)] bn(2) by auto
  have o: "b \<notin> B" "cache_at dv k2 (insert b B)" "holds dv k2 b bn" "bio_frame ?k1 k2" "clean dv k2 b"
    "\<And>j. j \<in> B \<Longrightarrow> same_buf ?k1 k2 j" "\<And>b. in_range b \<Longrightarrow> content dv k2 b = content dv ?k1 b"
    using br(2) by (auto simp: obtained_def)
  have ne: "\<not> flagged k2 (Buf b) B_ERROR"
    using in_use [OF o(2) insertI1] o(3) bn(3) by (auto simp: cache_inv_def data_ok_def dirty_ok_def holds_def Let_def)
  let ?d = "b_addr (bufp k2 (Buf b))"
  let ?k3 = "upd_inode i (load_dinode ?d (inode_offset ino)) k2"
  have "clean dv ?k3 b" using o(5) by (simp add: clean_def Let_def upd_inode_def)
  moreover have "cache_at dv ?k3 (insert b B)" using o(2) by simp
  ultimately have c3: "clean dv ?k3 b" "cache_at dv ?k3 (insert b B)" by blast+
  note r = brelse_at [OF c3(2) insertI1 c3(1)]
  have B4: "insert b B - {b} = B" using o(1) by auto
  let ?k4 = "brelse (Buf b) ?k3"
  have run: "iget_new dv ino i k = Ret (Some i) ?k4"
    using br(1) ne by (simp add: iget_new_def bn(1))
  have r4: "cache_at dv ?k4 B" "bio_frame ?k3 ?k4" "\<And>b. in_range b \<Longrightarrow> content dv ?k4 b = content dv k2 b"
    "\<And>j. j \<in> B \<Longrightarrow> same_buf k2 ?k4 j"
    by (rule r(1) [unfolded B4], rule r(2), rule r(3) [unfolded content_upd_inode], assumption,
        rule r(4) [unfolded B4 same_buf_upd_inode], assumption)
  have fs: "k_fs k2 = k_fs ?k1" "k_fs ?k4 = k_fs ?k3" by (rule bio_frame_fs [OF o(4)], rule bio_frame_fs [OF r4(2)])
  have len: "length (inodes (k_fs k2)) = length (inodes (k_fs k))" by (simp add: fs(1))
  have in2: "inodep k2 = inodep ?k1" "inodep ?k4 = inodep ?k3" by (rule inodep_cong [OF fs(1)], rule inodep_cong [OF fs(2)])
  have off: "inode_offset ino + 32 \<le> BSIZE" by (simp add: inode_offset_def)
  have ld: "load_dinode ?d (inode_offset ino) q = load_dinode (content dv k bn) (inode_offset ino) q" for q
    using br(3) load_dinode_clip [OF off, of ?d] by simp
  have "inodep ?k4 i = load_dinode (content dv k bn) (inode_offset ino) (?f (inodep k i))"
    unfolding in2(2) using i len by (simp add: in2(1) ld)
  moreover have "inodep ?k4 j = inodep k j" if "j \<noteq> i" for j
    unfolding in2(2) using i len that by (simp add: in2(1))
  moreover have sm: "same_buf k ?k4 j" if "j \<in> B" for j
    by (rule same_buf_trans [OF o(6) [OF that, unfolded same_buf_upd_inode] r4(4) [OF that]])
  moreover have "fs_at dv ?k4 B s"
  proof -
    have "same_buf k ?k4 s" using sm c(2) by blast
    moreover have "mounts (k_fs ?k4) = mounts (k_fs k)" unfolding fs(2) by (simp add: fs(1))
    ultimately show ?thesis using f r4(1) unfolding fs_at_def same_buf_def Let_def by metis
  qed
  moreover have "content dv ?k4 b = content dv k b" if "in_range b" for b 
    using r4(3) [OF that] o(7) [OF that] by simp
  moreover have "length (inodes (k_fs ?k4)) = length (inodes (k_fs k))" unfolding fs(2) by (simp add: len)
  moreover have "k_fs ?k4 = (k_fs k)\<lparr>inodes := inodes (k_fs ?k4)\<rparr>" unfolding fs(2) by (simp add: upd_inode_def fs(1))
  moreover have "bio_frame (k\<lparr>k_fs := k_fs ?k4\<rparr>) ?k4"
    using o(4) r4(2) by (simp add: bio_frame_def upd_inode_def)
  ultimately show ?thesis using run by blast
qed

subsection \<open>Locking\<close>

definition inode_locked :: "nat \<Rightarrow> kernel \<Rightarrow> bool" where
  "inode_locked i k \<longleftrightarrow> hasf (i_flag (inodep k i)) ILOCK"

definition inode_wanted :: "nat \<Rightarrow> kernel \<Rightarrow> bool" where
  "inode_wanted i k \<longleftrightarrow> hasf (i_flag (inodep k i)) IWANT"

lemma prele_effect:
  assumes "i < length (inodes (k_fs k))"
  shows "k_sch (prele i k) = (if inode_wanted i k then wakeup_s (ChInode i 0) (k_sch k) else k_sch k)"
    "\<not> inode_locked i (prele i k)" "\<not> inode_wanted i (prele i k)"
    "j \<noteq> i \<Longrightarrow> inodep (prele i k) j = inodep k j" "k_bio (prele i k) = k_bio k"
  using assms
  by (simp_all add: prele_def inode_wanted_def inode_locked_def Let_def hasf_mask wakeup_def)

subsection \<open>Properties\<close>

lemma iput_last_use:
  assumes f: "fs_at dv k B s" and B: "B \<noteq> {..<NBUF}"
    and i: "i < length (inodes (k_fs k))" "i_count (inodep k i) = 1" "0 < sint (i_nlink (inodep k i))"
    and p: "i_dev (inodep k i) = dv" "hasf (i_flag (inodep k i)) (IUPD OR IACC)" "s_ronly (sb k (Buf s)) = 0"
    and bn: "bn = inode_block (i_number (inodep k i))" "\<forall>j\<in>B. \<not> holds dv k j bn" "in_range bn"
  shows "\<exists>d k'. iput i k = Ret () k' \<and> clip d = content dv k bn
    \<and> content dv k' bn = clip (store_dinode (inodep k i) (inode_offset (i_number (inodep k i))) d)
    \<and> fs_at dv k' B s \<and> (\<forall>j\<in>B. same_buf k k' j)
    \<and> inodep k' i = (inodep k i)\<lparr>i_flag := 0, i_count := 0, i_number := 0\<rparr> \<and> (\<forall>j. j \<noteq> i \<longrightarrow> inodep k' j = inodep k j)
    \<and> length (inodes (k_fs k')) = length (inodes (k_fs k))
    \<and> (\<forall>b. in_range b \<and> b \<noteq> bn \<longrightarrow> content dv k' b = content dv k b)"
proof -
  let ?k1 = "upd_inode i (\<lambda>p. p\<lparr>i_flag := i_flag p OR ILOCK\<rparr>) k"
  have p1: "inodep ?k1 i = (inodep k i)\<lparr>i_flag := i_flag (inodep k i) OR ILOCK\<rparr>" using i(1) by simp
  have fl: "hasf (i_flag (inodep k i) OR ILOCK) m = hasf (i_flag (inodep k i)) m" if "m AND ILOCK = 0" for m
    using that by (simp add: hasf_or) (simp add: hasf_def and.commute)
  have st: "store_dinode (inodep ?k1 i) = store_dinode (inodep k i)"
    by (simp add: p1 store_dinode_def fun_eq_iff Let_def fl)
  obtain d k2 where u: "iupdat i ?k1 = Ret () k2" "clip d = content dv ?k1 bn"
    "content dv k2 bn = clip (store_dinode (inodep ?k1 i) (inode_offset (i_number (inodep ?k1 i))) d)"
    "fs_at dv k2 B s" "bio_frame ?k1 k2" "\<forall>j\<in>B. same_buf ?k1 k2 j"
    "\<forall>b. in_range b \<and> b \<noteq> bn \<longrightarrow> content dv k2 b = content dv ?k1 b"
    using iupdat_ok [of dv ?k1 B s i bn] f B p bn p1 by (auto simp: fl)
  let ?k3 = "upd_inode i (\<lambda>p. p\<lparr>i_flag := 0, i_count := 0, i_number := 0\<rparr>) k2"
  have in2: "inodep k2 = inodep ?k1" by (rule inodep_cong [OF bio_frame_fs [OF u(5)]])
  have len: "length (inodes (k_fs k2)) = length (inodes (k_fs k))" unfolding bio_frame_fs [OF u(5)] by simp
  have run: "iput i k = Ret () ?k3"
    using i p1 u(1) by (simp add: iput_def Let_def iput_last_def)
  have "inodep ?k3 i = (inodep k i)\<lparr>i_flag := 0, i_count := 0, i_number := 0\<rparr>" using i(1) by (simp add: in2 len)
  moreover have "inodep ?k3 j = inodep k j" if "j \<noteq> i" for j using i(1) that by (simp add: in2 len)
  moreover have "content dv ?k3 bn = clip (store_dinode (inodep k i) (inode_offset (i_number (inodep k i))) d)"
    using u(3) unfolding st by (simp add: p1)
  ultimately show ?thesis using run u(2,4,6,7) len by (intro exI [of _ d] exI [of _ ?k3]) simp
qed

lemma hasf_or2: "hasf x (a OR b) \<longleftrightarrow> hasf x a \<or> hasf x b"
  by (simp add: hasf_def bit.conj_disj_distrib or_eq_0_iff)

lemma find_slot_absent: "(\<And>j. j < length xs \<Longrightarrow> \<not> P (xs ! j)) \<Longrightarrow> find_slot P xs = None"
  by (auto simp: find_slot_None_iff in_set_conv_nth)

lemma find_slot_present: "i < length xs \<Longrightarrow> P (xs ! i) \<Longrightarrow> \<exists>j. find_slot P xs = Some j \<and> j < length xs \<and> P (xs ! j)"
  by (metis find_slot_None_iff find_slot_SomeD not_None_eq nth_mem)

lemma iget_absent:
  assumes "\<forall>j<length (inodes (k_fs k)). \<not> in_core dev ino (inodep k j)"
    and "i < length (inodes (k_fs k))" "i_count (inodep k i) = 0"
  shows "\<exists>j. j < length (inodes (k_fs k)) \<and> i_count (inodep k j) = 0 \<and> iget dev ino k = iget_new dev ino j k"
proof -
  have "find_slot (in_core dev ino) (inodes (k_fs k)) = None"
    using assms(1) by (intro find_slot_absent) (simp add: inodep_def)
  moreover obtain j where "find_slot (\<lambda>p. i_count p = 0) (inodes (k_fs k)) = Some j" "j < length (inodes (k_fs k))" "i_count (inodep k j) = 0"
    using find_slot_present [of i "inodes (k_fs k)" "\<lambda>p. i_count p = 0"] assms(2,3) by (auto simp: inodep_def)
  ultimately show ?thesis by (auto simp: iget_def iget_loop.simps Let_def)
qed

text \<open>C16: When the last user puts an inode with changes back, the next \<^verbatim>\<open>iget\<close> of the same
  number, which has to read it from the disk into some free slot, returns a locked inode with the
  same contents, as long as they fit into the fields of the disk inode.\<close>

theorem iput_iget_roundtrip:
  assumes "fs_at dv k B s" "B \<noteq> {..<NBUF}"
    and "i < length (inodes (k_fs k))" "i_count (inodep k i) = 1" "0 < sint (i_nlink (inodep k i))"
    and "i_dev (inodep k i) = dv" "hasf (i_flag (inodep k i)) IUPD" "hasf (i_flag (inodep k i)) IACC"
    and "i_number (inodep k i) = ino" "ino \<noteq> 0" "fits (inodep k i)" "s_ronly (sb k (Buf s)) = 0"
    and "\<forall>j\<in>B. \<not> holds dv k j (inode_block ino)" "in_range (inode_block ino)"
    and "\<forall>j<length (inodes (k_fs k)). j = i \<or> \<not> in_core dv ino (inodep k j)"
  shows "\<exists>k1 j k2. iput i k = Ret () k1 \<and> iget dv ino k1 = Ret (Some j) k2 \<and> fs_at dv k2 B s
    \<and> inodep k2 j = (inodep k i)\<lparr>i_flag := ILOCK, i_lastr := - 1, i_ctime := i_mtime (inodep k i)\<rparr>"
proof -
  have fl: "hasf (i_flag (inodep k i)) (IUPD OR IACC)"
    using assms(7) by (simp only: hasf_or2 simp_thms)
  obtain d k1 where u: "iput i k = Ret () k1" "clip d = content dv k (inode_block ino)"
    "content dv k1 (inode_block ino) = clip (store_dinode (inodep k i) (inode_offset ino) d)"
    "fs_at dv k1 B s" "\<forall>j\<in>B. same_buf k k1 j"
    "inodep k1 i = (inodep k i)\<lparr>i_flag := 0, i_count := 0, i_number := 0\<rparr>" "\<forall>j. j \<noteq> i \<longrightarrow> inodep k1 j = inodep k j"
    "length (inodes (k_fs k1)) = length (inodes (k_fs k))"
    using iput_last_use [OF assms(1-6) fl assms(12) refl] assms(9,13,14) by blast
  have "\<forall>j<length (inodes (k_fs k1)). \<not> in_core dv ino (inodep k1 j)"
  proof (intro allI impI)
    fix j assume "j < length (inodes (k_fs k1))"
    then show "\<not> in_core dv ino (inodep k1 j)"
      using assms(10,15) u(6-8) by (cases "j = i") (auto simp: in_core_def)
  qed
  then obtain j where j: "j < length (inodes (k_fs k1))" "iget dv ino k1 = iget_new dv ino j k1"
    using iget_absent [of k1 dv ino i] u(6,8) assms(3) by auto
  have h1: "\<forall>j\<in>B. \<not> holds dv k1 j (inode_block ino)"
    using assms(13) u(5) same_buf_facts(2) by blast
  let ?q = "(inodep k1 j)\<lparr>i_dev := dv, i_number := ino, i_flag := ILOCK, i_count := 1, i_lastr := - 1\<rparr>"
  obtain k2 where k2: "iget_new dv ino j k1 = Ret (Some j) k2" "fs_at dv k2 B s"
    "inodep k2 j = load_dinode (content dv k1 (inode_block ino)) (inode_offset ino) ?q"
    using iget_new_ok [OF u(4) assms(2) j(1) refl h1 assms(14)] by blast
  have off: "inode_offset ino + 32 \<le> BSIZE" by (simp add: inode_offset_def)
  have "inodep k2 j = load_dinode (store_dinode (inodep k i) (inode_offset ino) d) (inode_offset ino) ?q"
    unfolding k2(3) u(3) by (rule load_dinode_clip [OF off])
  also have "\<dots> = (inodep k i)\<lparr>i_flag := ILOCK, i_lastr := - 1, i_ctime := i_mtime (inodep k i)\<rparr>"
    unfolding load_store_dinode [OF assms(11)] using assms(4,6-9)
    by (intro inode.equality) (simp_all add: stored_times_def)
  finally show ?thesis using u(1) j(2) k2(1,2) by metis
qed

definition demo_inode :: inode where
  "demo_inode = zero_inode\<lparr>i_flag := IUPD OR IACC, i_count := 1, i_number := 1, i_mode := IALLOC OR 0x1FF, i_nlink := 1,
     i_uid := 3, i_size1 := 10, i_addr := [40, 0, 0, 0, 0, 0, 0, 0], i_atime := 5, i_mtime := 70000\<rparr>"

lemma demo_inode_fields: "fits demo_inode" "hasf (i_flag demo_inode) IUPD" "hasf (i_flag demo_inode) IACC"
  by (simp_all add: demo_inode_def fits_def zero_inode_def hasf_def)

lemma fs_kernel_inodes: "length (inodes (k_fs fs_kernel)) = 100" "j < 100 \<Longrightarrow> inodep fs_kernel j = zero_inode"
  by (simp_all add: fs_kernel_def inodep_def zero_kernel_def)

theorem iput_iget_roundtrip_witness:
  "\<exists>k1 j k2. iput 5 (upd_inode 5 (\<lambda>_. demo_inode) fs_kernel) = Ret () k1 \<and> iget 0 1 k1 = Ret (Some j) k2
     \<and> i_addr (inodep k2 j) = [40, 0, 0, 0, 0, 0, 0, 0] \<and> i_mtime (inodep k2 j) = 70000"
proof -
  let ?k = "upd_inode 5 (\<lambda>_. demo_inode) fs_kernel"
  have i: "inodep ?k j = (if j = 5 then demo_inode else inodep fs_kernel j)" for j by (simp add: fs_kernel_inodes)
  have b: "inode_block 1 = 2" by (simp add: inode_block_def)
  have fr: "\<forall>j\<in>{14}. \<not> holds 0 ?k j (inode_block 1)" using fs_kernel_held by simp
  have oth: "\<forall>j<length (inodes (k_fs ?k)). j = 5 \<or> \<not> in_core 0 1 (inodep ?k j)"
    using fs_kernel_inodes by (auto simp: i in_core_def zero_inode_def)
  have d: "i_count demo_inode = 1" "0 < sint (i_nlink demo_inode)" "i_dev demo_inode = 0" "i_number demo_inode = 1"
    by (simp_all add: demo_inode_def zero_inode_def)
  obtain k1 j k2 where "iput 5 ?k = Ret () k1" "iget 0 1 k1 = Ret (Some j) k2"
    "inodep k2 j = (inodep ?k 5)\<lparr>i_flag := ILOCK, i_lastr := - 1, i_ctime := i_mtime (inodep ?k 5)\<rparr>"
    using iput_iget_roundtrip [of 0 ?k "{14}" 14 5 1, OF _ fs_kernel_room _ _ _ _ _ _ _ _ _ _ fr _ oth]
      fs_kernel_at(1,2) demo_inode_fields d
    by (auto simp: i b in_range_def sb_small_fields fs_kernel_inodes s_ronly_def sb_small_def sb_defs put16_apply put32_apply)
  then show ?thesis by (auto simp: i) (auto simp: demo_inode_def)
qed

lemma sync_drops_update:
  assumes "i < length (inodes (k_fs k))" "i_flag (inodep k i) AND (ILOCK OR IUPD OR IACC) = IUPD"
  shows "\<exists>k'. sync_inode i k = Ret () k' \<and> k_bio k' = k_bio k \<and> \<not> hasf (i_flag (inodep k' i)) (IUPD OR IACC)"
proof -
  let ?f = "i_flag (inodep k i)"
  let ?k1 = "upd_inode i (\<lambda>p. p\<lparr>i_flag := i_flag p AND NOT IUPD\<rparr>) (upd_inode i (\<lambda>p. p\<lparr>i_flag := i_flag p OR ILOCK\<rparr>) k)"
  have m: "?f AND m = (IUPD AND m)" if "7 AND m = m" for m
  proof -
    have "?f AND m = (?f AND 7) AND m" by (simp add: and.assoc that)
    with assms(2) show ?thesis by simp
  qed
  have g: "i_flag (inodep ?k1 i) = (?f OR ILOCK) AND NOT IUPD" using assms(1) by simp
  have no: "\<not> hasf (i_flag (inodep ?k1 i)) (IUPD OR IACC)"
    unfolding g by (simp add: hasf_mask hasf_or) (simp add: hasf_def m)
  have "sync_inode i k = Ret () (prele i ?k1)"
    using m [of 3] no by (simp add: sync_inode_def iupdat_def Let_def)
  moreover have "k_bio (prele i ?k1) = k_bio k" using assms(1) by (subst prele_effect(5)) simp_all
  moreover have "\<not> hasf (i_flag (inodep (prele i ?k1) i)) (IUPD OR IACC)"
    using no assms(1) by (simp add: prele_def Let_def hasf_mask wakeup_def del: g)
  ultimately show ?thesis by blast
qed

end
