(* ===== verification/Umem.thy ===== *)
theory Umem
  imports Inode
begin

text \<open>
  Access to user memory: the machine-dependent routines of \<^verbatim>\<open>kernel/sys.c\<close>
  (\<^verbatim>\<open>user_phys_addr\<close>, \<^verbatim>\<open>fubyte\<close>, \<^verbatim>\<open>fuword\<close>, \<^verbatim>\<open>subyte\<close>, \<^verbatim>\<open>suword\<close>) and
  \<^verbatim>\<open>copyin\<close> and \<^verbatim>\<open>copyout\<close> of \<^verbatim>\<open>kernel/fs/rdwri.c\<close>.  A user address is an offset
  into the image behind the u-area; an address past the image is used as a physical address.
  The kernel's own objects (\<^typ>\<open>caddr\<close>) lie above every image and above \<^verbatim>\<open>0x1000\<close>,
  so for them the routines go straight to the object.
\<close>

subsection \<open>Addresses\<close>

fun caddr_add :: "caddr \<Rightarrow> nat \<Rightarrow> caddr" where
  "caddr_add (UAddr a) n = UAddr (a + of_nat n)"
| "caddr_add (KDent i) n = KDent (i + n)"
| "caddr_add (KLocal i) n = KLocal (i + n)"

fun kload :: "caddr \<Rightarrow> kernel \<Rightarrow> byte" where
  "kload (UAddr a) k = phys k a"
| "kload (KDent i) k = u_dent (k_u k) i"
| "kload (KLocal i) k = klocal k i"

fun kstore :: "caddr \<Rightarrow> byte \<Rightarrow> kernel \<Rightarrow> kernel" where
  "kstore (UAddr a) v k = k\<lparr>phys := (phys k)(a := v)\<rparr>"
| "kstore (KDent i) v k = upd_u (\<lambda>u. u\<lparr>u_dent := (u_dent u)(i := v)\<rparr>) k"
| "kstore (KLocal i) v k = k\<lparr>klocal := (klocal k)(i := v)\<rparr>"

definition user_phys_addr :: "uint32_t \<Rightarrow> kernel \<Rightarrow> uint32_t" where
  "user_phys_addr a k =
     (let p = procp k (u_procp (k_u k))
      in if a \<ge> (p_size p - USIZE) * 64 then 0 else (p_addr p + USIZE) * 64 + a)"

subsection \<open>Bytes and words\<close>

text \<open>Where an access goes: \<open>None\<close> for the addresses that fault.\<close>

fun byte_target :: "caddr \<Rightarrow> kernel \<Rightarrow> caddr option" where
  "byte_target (UAddr a) k =
     (let pa = user_phys_addr a k
      in if pa = 0 then (if a < 0x1000 then None else Some (UAddr a)) else Some (UAddr pa))"
| "byte_target c k = Some c"

definition fubyte :: "caddr \<Rightarrow> kernel \<Rightarrow> int" where
  "fubyte c k = (case byte_target c k of None \<Rightarrow> - 1 | Some t \<Rightarrow> int (unat (kload t k)))"

definition subyte :: "caddr \<Rightarrow> byte \<Rightarrow> kernel \<Rightarrow> bool \<times> kernel" where
  "subyte c v k = (case byte_target c k of None \<Rightarrow> (False, k) | Some t \<Rightarrow> (True, kstore t v k))"

definition phys_word :: "(uint32_t \<Rightarrow> byte) \<Rightarrow> uint32_t \<Rightarrow> uint32_t" where
  "phys_word m a = get32 (\<lambda>i. m (a + of_nat i)) 0"

definition fuword :: "uint32_t \<Rightarrow> kernel \<Rightarrow> uint32_t" where
  "fuword a k =
     (if a = 0 then 0
      else
        (let pa = user_phys_addr a k
         in if pa = 0 then (if a < 0x1000 then - 1 else phys_word (phys k) a) else phys_word (phys k) pa))"

definition suword :: "uint32_t \<Rightarrow> uint32_t \<Rightarrow> kernel \<Rightarrow> bool \<times> kernel" where
  "suword a v k =
     (let pa = user_phys_addr a k
      in if pa = 0 then (False, k)
         else (True, k\<lparr>phys := (\<lambda>x. if unat (x - pa) < 4 then put32 (\<lambda>_. 0) 0 v (unat (x - pa)) else phys k x)\<rparr>))"

subsection \<open>Copying between a buffer and memory\<close>

text \<open>\<open>True\<close> is the value 0 of the C functions; the bytes before a fault have been copied.\<close>

primrec copyin :: "nat \<Rightarrow> caddr \<Rightarrow> bptr \<Rightarrow> nat \<Rightarrow> kernel \<Rightarrow> bool \<times> kernel" where
  "copyin 0 src bp d k = (True, k)"
| "copyin (Suc n) src bp d k =
     (let c = fubyte src k
      in if c < 0 then (False, k)
         else copyin n (caddr_add src 1) bp (d + 1) (upd_sb bp (\<lambda>b. b(d := of_int c)) k))"

primrec copyout :: "nat \<Rightarrow> bptr \<Rightarrow> nat \<Rightarrow> caddr \<Rightarrow> kernel \<Rightarrow> bool \<times> kernel" where
  "copyout 0 bp s dst k = (True, k)"
| "copyout (Suc n) bp s dst k =
     (case subyte dst (b_addr (bufp k bp) s) k of
        (False, k) \<Rightarrow> (False, k)
      | (True, k) \<Rightarrow> copyout n bp (s + 1) (caddr_add dst 1) k)"

subsection \<open>Where user stores go\<close>

text \<open>The physical bytes a user may address: the image behind the u-area.\<close>

definition user_bytes :: "proc \<Rightarrow> nat set" where
  "user_bytes p = {64 * (unat (p_addr p) + unat USIZE)..<64 * (unat (p_addr p) + unat (p_size p))}"

definition placed :: "proc \<Rightarrow> bool" where
  "placed p \<longleftrightarrow> unat USIZE \<le> unat (p_size p) \<and> unat (p_addr p) + unat (p_size p) < 2 ^ 26"

lemma units_bytes: "unat (w :: uint32_t) < 2 ^ 26 \<Longrightarrow> unat (w * 64) = 64 * unat w"
  by (subst unat_mult_lem [THEN iffD1]) simp_all

lemma image_limit:
  assumes "placed p"
  shows "unat ((p_size p - USIZE) * 64) = 64 * (unat (p_size p) - unat USIZE)"
    "unat ((p_addr p + USIZE) * 64) = 64 * (unat (p_addr p) + unat USIZE)"
proof -
  have s: "unat (p_size p - USIZE) = unat (p_size p) - unat USIZE"
    using assms by (simp add: placed_def unat_sub word_le_nat_alt)
  then have "unat (p_size p - USIZE) < 2 ^ 26" using assms unfolding placed_def by linarith
  from units_bytes [OF this] s show "unat ((p_size p - USIZE) * 64) = 64 * (unat (p_size p) - unat USIZE)"
    by (simp only: )
  have a: "unat (p_addr p + USIZE) = unat (p_addr p) + unat USIZE"
    using assms by (intro unat_add_lem [THEN iffD1]) (simp add: placed_def)
  then have "unat (p_addr p + USIZE) < 2 ^ 26" using assms by (simp add: placed_def)
  from units_bytes [OF this] a show "unat ((p_addr p + USIZE) * 64) = 64 * (unat (p_addr p) + unat USIZE)"
    by (simp only: )
qed

lemma placed_room:
  assumes "placed p" "n \<le> 64 * (unat (p_size p) - unat USIZE)"
  shows "64 * (unat (p_addr p) + unat USIZE) + n < 2 ^ 32"
proof -
  have "64 \<le> unat (p_size p)" "unat (p_addr p) + unat (p_size p) < 67108864"
    using assms by (simp_all add: placed_def)
  moreover have "n + 4096 \<le> 64 * unat (p_size p)" using assms calculation by (simp add: diff_mult_distrib2)
  ultimately have "64 * (unat (p_addr p) + 64) + n < 4294967296" by simp
  then show ?thesis by simp
qed

lemma user_phys_in:
  assumes "placed (procp k (u_procp (k_u k)))" "a < (p_size (procp k (u_procp (k_u k))) - USIZE) * 64"
  shows "unat (user_phys_addr a k) = 64 * (unat (p_addr (procp k (u_procp (k_u k)))) + unat USIZE) + unat a"
    "user_phys_addr a k \<noteq> 0"
proof -
  let ?p = "procp k (u_procp (k_u k))"
  have a: "unat a < 64 * (unat (p_size ?p) - unat USIZE)"
    using assms(2) unfolding word_less_nat_alt image_limit(1) [OF assms(1)] .
  have e: "user_phys_addr a k = (p_addr ?p + USIZE) * 64 + a"
    unfolding user_phys_addr_def Let_def using assms(2) by (simp only: not_le [symmetric] if_False simp_thms)
  have "unat ((p_addr ?p + USIZE) * 64) + unat a < 2 ^ 32"
    unfolding image_limit(2) [OF assms(1)] by (rule placed_room [OF assms(1) less_imp_le [OF a]])
  then have "unat ((p_addr ?p + USIZE) * 64 + a) = unat ((p_addr ?p + USIZE) * 64) + unat a"
    by (intro unat_add_lem [THEN iffD1]) simp
  then show u: "unat (user_phys_addr a k) = 64 * (unat (p_addr ?p) + unat USIZE) + unat a"
    by (simp only: e image_limit [OF assms(1)])
  then have "0 < unat (user_phys_addr a k)" by simp
  then show "user_phys_addr a k \<noteq> 0" by (simp add: unat_gt_0)
qed

text \<open>C24: A store to an address within the image changes one byte, which lies in the image, and
  the user reads it back.\<close>

theorem user_store_contained:
  assumes "placed (procp k (u_procp (k_u k)))" "a < (p_size (procp k (u_procp (k_u k))) - USIZE) * 64"
  shows "\<exists>x. subyte (UAddr a) v k = (True, k\<lparr>phys := (phys k)(x := v)\<rparr>)
    \<and> unat x \<in> user_bytes (procp k (u_procp (k_u k)))
    \<and> fubyte (UAddr a) (k\<lparr>phys := (phys k)(x := v)\<rparr>) = int (unat v)"
proof -
  let ?p = "procp k (u_procp (k_u k))" and ?x = "user_phys_addr a k"
  have "unat a < 64 * (unat (p_size ?p) - unat USIZE)"
    using assms(2) unfolding word_less_nat_alt image_limit(1) [OF assms(1)] .
  with user_phys_in(1) [OF assms] assms(1) have "unat ?x \<in> user_bytes ?p"
    by (auto simp: user_bytes_def placed_def)
  moreover have "user_phys_addr a (k\<lparr>phys := f\<rparr>) = ?x" for f
    by (simp add: user_phys_addr_def procp_def)
  ultimately show ?thesis using user_phys_in(2) [OF assms]
    by (intro exI [of _ ?x]) (simp add: subyte_def fubyte_def)
qed

text \<open>C25: An address past the image is taken as a physical address: with it a process writes into
  the image of any other process, which then reads the byte.\<close>

theorem user_store_escapes:
  assumes "placed (procp k j)" "b < (p_size (procp k j) - USIZE) * 64"
    "x = (p_addr (procp k j) + USIZE) * 64 + b" "0x1000 \<le> x"
    "(p_size (procp k (u_procp (k_u k))) - USIZE) * 64 \<le> x"
  shows "\<exists>k'. subyte (UAddr x) v k = (True, k') \<and> unat x \<in> user_bytes (procp k j)
    \<and> fubyte (UAddr b) (k'\<lparr>k_u := (k_u k')\<lparr>u_procp := j\<rparr>\<rparr>) = int (unat v)"
proof -
  let ?k' = "k\<lparr>phys := (phys k)(x := v)\<rparr>"
  let ?kj = "k\<lparr>k_u := (k_u k)\<lparr>u_procp := j\<rparr>\<rparr>"
  have pj: "procp ?kj (u_procp (k_u ?kj)) = procp k j" by simp
  have xj: "user_phys_addr b ?kj = x"
    unfolding user_phys_addr_def Let_def pj using assms(2,3) by (simp only: not_le [symmetric] if_False simp_thms)
  have "unat b < 64 * (unat (p_size (procp k j)) - unat USIZE)"
    using assms(2) unfolding word_less_nat_alt image_limit(1) [OF assms(1)] .
  with user_phys_in(1) [of ?kj b] assms(1,2) pj xj have "unat x \<in> user_bytes (procp k j)"
    by (auto simp: user_bytes_def placed_def)
  moreover have "x \<noteq> 0" using assms(4) by auto
  moreover have "user_phys_addr x k = 0" using assms(5) by (simp add: user_phys_addr_def Let_def)
  moreover have "user_phys_addr b (?k'\<lparr>k_u := (k_u ?k')\<lparr>u_procp := j\<rparr>\<rparr>) = x"
    using xj by (simp add: user_phys_addr_def procp_def)
  ultimately show ?thesis using assms(4)
    by (intro exI [of _ ?k']) (simp add: subyte_def fubyte_def not_less)
qed

text \<open>The witness: process 0 at unit 100 and process 1 at unit 200, both of 70 units.\<close>

definition two_kernel :: kernel where
  "two_kernel = upd_proc 0 (\<lambda>p. p\<lparr>p_addr := 100, p_size := 70\<rparr>) (upd_proc 1 (\<lambda>p. p\<lparr>p_addr := 200, p_size := 70\<rparr>) zero_kernel)"

lemma two_kernel_sel:
  "u_procp (k_u two_kernel) = 0" "p_addr (procp two_kernel 0) = 100" "p_size (procp two_kernel 0) = 70"
  "p_addr (procp two_kernel 1) = 200" "p_size (procp two_kernel 1) = 70"
  by (simp_all add: two_kernel_def zero_kernel_def zero_user_def)

theorem user_store_contained_witness:
  "placed (procp two_kernel (u_procp (k_u two_kernel)))
   \<and> (3 :: uint32_t) < (p_size (procp two_kernel (u_procp (k_u two_kernel))) - USIZE) * 64
   \<and> (\<exists>x. fst (subyte (UAddr 3) 9 two_kernel) \<and> unat x \<in> user_bytes (procp two_kernel 0)
     \<and> snd (subyte (UAddr 3) 9 two_kernel) = two_kernel\<lparr>phys := (phys two_kernel)(x := 9)\<rparr>)"
proof -
  have h: "placed (procp two_kernel (u_procp (k_u two_kernel)))"
    "(3 :: uint32_t) < (p_size (procp two_kernel (u_procp (k_u two_kernel))) - USIZE) * 64"
    by (simp_all add: two_kernel_sel placed_def)
  from user_store_contained [OF h, of 9] h show ?thesis by (auto simp: two_kernel_sel)
qed

theorem user_store_escapes_witness:
  "placed (procp two_kernel 1) \<and> (3 :: uint32_t) < (p_size (procp two_kernel 1) - USIZE) * 64
   \<and> (\<exists>k'. subyte (UAddr 16899) 9 two_kernel = (True, k')
     \<and> fubyte (UAddr 3) (k'\<lparr>k_u := (k_u k')\<lparr>u_procp := 1\<rparr>\<rparr>) = 9)"
proof -
  have h: "placed (procp two_kernel 1)" "(3 :: uint32_t) < (p_size (procp two_kernel 1) - USIZE) * 64"
    "(16899 :: uint32_t) = (p_addr (procp two_kernel 1) + USIZE) * 64 + 3" "0x1000 \<le> (16899 :: uint32_t)"
    "(p_size (procp two_kernel (u_procp (k_u two_kernel))) - USIZE) * 64 \<le> (16899 :: uint32_t)"
    using two_kernel_sel by (simp_all add: placed_def)
  from user_store_escapes [OF h, of 9] h(1,2) show ?thesis by auto
qed

subsection \<open>Ranges of user memory\<close>

text \<open>\<open>image k\<close> is what the translation of addresses depends on, \<open>user_range a n k\<close> says that
  the \<open>n\<close> bytes at \<open>a\<close> lie in the image of the current process, and \<open>user_list a n k\<close> are these
  bytes.\<close>

abbreviation cur :: "kernel \<Rightarrow> proc" where "cur k \<equiv> procp k (u_procp (k_u k))"

definition image_of :: "kernel \<Rightarrow> uint32_t \<times> uint32_t" where
  "image_of k = (p_addr (cur k), p_size (cur k))"

definition user_range :: "uint32_t \<Rightarrow> nat \<Rightarrow> kernel \<Rightarrow> bool" where
  "user_range a n k \<longleftrightarrow> placed (cur k) \<and> unat a + n \<le> 64 * (unat (p_size (cur k)) - unat USIZE)"

definition user_list :: "uint32_t \<Rightarrow> nat \<Rightarrow> kernel \<Rightarrow> byte list" where
  "user_list a n k = map (\<lambda>i. phys k (user_phys_addr (a + of_nat i) k)) [0..<n]"

lemma user_list_length [simp]: "length (user_list a n k) = n"
  by (simp add: user_list_def)

lemma user_phys_image: "image_of k = image_of k' \<Longrightarrow> user_phys_addr a k = user_phys_addr a k'"
  by (simp add: image_of_def user_phys_addr_def)

lemma user_range_image: "image_of k = image_of k' \<Longrightarrow> user_range a n k = user_range a n k'"
  by (simp add: image_of_def user_range_def placed_def)

lemma user_list_image: "image_of k = image_of k' \<Longrightarrow> phys k = phys k' \<Longrightarrow> user_list a n k = user_list a n k'"
  unfolding user_list_def by (simp only: user_phys_image [of k k'])

lemma image_of_phys [simp]: "image_of (k\<lparr>phys := m\<rparr>) = image_of k"
  by (simp add: image_of_def)

lemma user_range_sub: "user_range a n k \<Longrightarrow> i + m \<le> n \<Longrightarrow> user_range (a + of_nat i) m k"
proof -
  assume r: "user_range a n k" and le: "i + m \<le> n"
  have b: "64 * (unat (p_size (cur k)) - unat USIZE) < 2 ^ 32"
    using placed_room [of "cur k" "64 * (unat (p_size (cur k)) - unat USIZE)"] r by (simp add: user_range_def)
  have "unat (a + of_nat i) = unat a + i"
    using r le b unfolding user_range_def by (simp add: unat_word_ariths unat_of_nat)
  then show ?thesis using r le by (simp add: user_range_def)
qed

lemma user_addr:
  assumes "user_range a n k" "i < n"
  shows "unat (user_phys_addr (a + of_nat i) k) = 64 * (unat (p_addr (cur k)) + unat USIZE) + (unat a + i)"
    "user_phys_addr (a + of_nat i) k \<noteq> 0"
proof -
  have p: "placed (cur k)" using assms by (simp add: user_range_def)
  have b: "64 * (unat (p_size (cur k)) - unat USIZE) < 2 ^ 32"
    using placed_room [OF p, of "64 * (unat (p_size (cur k)) - unat USIZE)"] by simp
  have u: "unat (a + of_nat i) = unat a + i"
    using assms b unfolding user_range_def by (simp add: unat_word_ariths unat_of_nat)
  have "a + of_nat i < (p_size (cur k) - USIZE) * 64"
    unfolding word_less_nat_alt image_limit(1) [OF p] u using assms unfolding user_range_def by linarith
  from user_phys_in [OF p this] u
  show "unat (user_phys_addr (a + of_nat i) k) = 64 * (unat (p_addr (cur k)) + unat USIZE) + (unat a + i)"
    "user_phys_addr (a + of_nat i) k \<noteq> 0" by simp_all
qed

lemma user_addr_inj:
  assumes "user_range a n k" "i < n" "j < n"
  shows "user_phys_addr (a + of_nat i) k = user_phys_addr (a + of_nat j) k \<longleftrightarrow> i = j"
proof
  assume e: "user_phys_addr (a + of_nat i) k = user_phys_addr (a + of_nat j) k"
  have "64 * (unat (p_addr (cur k)) + unat USIZE) + (unat a + i) = 64 * (unat (p_addr (cur k)) + unat USIZE) + (unat a + j)"
    unfolding user_addr(1) [OF assms(1,2), symmetric] user_addr(1) [OF assms(1,3), symmetric] e ..
  then show "i = j" by simp
qed simp

lemma fubyte_user:
  assumes "user_range a n k" "i < n"
  shows "fubyte (UAddr (a + of_nat i)) k = int (unat (user_list a n k ! i))"
  using user_addr(2) [OF assms] assms(2) by (simp add: fubyte_def user_list_def)

lemma subyte_user:
  assumes "user_range a n k" "i < n"
  shows "\<exists>m. subyte (UAddr (a + of_nat i)) v k = (True, k\<lparr>phys := m\<rparr>)
    \<and> user_list a n (k\<lparr>phys := m\<rparr>) = (user_list a n k)[i := v]"
proof -
  let ?m = "(phys k)(user_phys_addr (a + of_nat i) k := v)"
  have "subyte (UAddr (a + of_nat i)) v k = (True, k\<lparr>phys := ?m\<rparr>)"
    using user_addr(2) [OF assms] by (simp add: subyte_def)
  moreover have "user_list a n (k\<lparr>phys := ?m\<rparr>) = (user_list a n k)[i := v]"
  proof (rule nth_equalityI)
    fix j assume "j < length (user_list a n (k\<lparr>phys := ?m\<rparr>))"
    then have "j < n" by simp
    moreover have "user_phys_addr x (k\<lparr>phys := ?m\<rparr>) = user_phys_addr x k" for x
      by (rule user_phys_image) simp
    ultimately show "user_list a n (k\<lparr>phys := ?m\<rparr>) ! j = (user_list a n k)[i := v] ! j"
      using user_addr_inj [OF assms(1), of j i] assms(2)
      by (cases "i = j") (simp_all add: user_list_def)
  qed simp
  ultimately show ?thesis by blast
qed

subsection \<open>Words in memory\<close>

lemma get32_phys_word:
  "(\<And>i. i < 4 \<Longrightarrow> m (a + of_nat i) = put32 (\<lambda>_. 0) 0 v i) \<Longrightarrow> phys_word m a = v"
proof -
  assume "\<And>i. i < 4 \<Longrightarrow> m (a + of_nat i) = put32 (\<lambda>_. 0) 0 v i"
  then have "get32 (\<lambda>i. m (a + of_nat i)) 0 = get32 (put32 (\<lambda>_. 0) 0 v) 0"
    by (intro get32_cong) simp
  then show ?thesis by (simp add: phys_word_def)
qed

definition store_word :: "uint32_t \<Rightarrow> uint32_t \<Rightarrow> (uint32_t \<Rightarrow> byte) \<Rightarrow> uint32_t \<Rightarrow> byte" where
  "store_word pa v m = (\<lambda>x. if unat (x - pa) < 4 then put32 (\<lambda>_. 0) 0 v (unat (x - pa)) else m x)"

lemma suword_in:
  "user_phys_addr a k \<noteq> 0 \<Longrightarrow> suword a v k = (True, k\<lparr>phys := store_word (user_phys_addr a k) v (phys k)\<rparr>)"
  by (simp add: suword_def store_word_def Let_def)

lemma phys_word_same: "phys_word (store_word pa v m) pa = v"
  by (rule get32_phys_word) (simp add: store_word_def unat_of_nat)

lemma phys_word_other:
  assumes "unat pb + 4 \<le> unat pa" "unat pa + 4 \<le> 2 ^ 32" shows "phys_word (store_word pa v m) pb = phys_word m pb"
proof -
  have "unat (pb + of_nat i - pa) \<ge> 4" if i: "i < 4" for i
  proof -
    have b: "unat pa < 2 ^ 32" by (rule order_less_le_trans [OF unsigned_less]) simp
    have "unat (of_nat i :: 32 word) = i" using i by (simp add: unat_of_nat)
    then have e: "unat (pb + of_nat i) = unat pb + i"
      using assms i b by (subst unat_add_lem [THEN iffD1]) simp_all
    then show ?thesis using assms i b by (simp add: unat_sub_if_size word_size)
  qed
  then have "\<not> unat (pb + of_nat i - pa) < 4" if "i < 4" for i using that by (simp add: not_less)
  then show ?thesis unfolding phys_word_def by (intro get32_cong) (simp add: store_word_def)
qed

lemma phys_word_after:
  assumes "unat pa + 4 \<le> unat pb" "unat pb + 4 \<le> 2 ^ 32" shows "phys_word (store_word pa v m) pb = phys_word m pb"
proof -
  have "unat (pb + of_nat i - pa) \<ge> 4" if i: "i < 4" for i
  proof -
    have "unat (of_nat i :: 32 word) = i" using i by (simp add: unat_of_nat)
    then have "unat (pb + of_nat i) = unat pb + i"
      using assms i by (subst unat_add_lem [THEN iffD1]) simp_all
    then show ?thesis using assms i by (simp add: unat_sub_if_size word_size)
  qed
  then have "\<not> unat (pb + of_nat i - pa) < 4" if "i < 4" for i using that by (simp add: not_less)
  then show ?thesis unfolding phys_word_def by (intro get32_cong) (simp add: store_word_def)
qed

lemma image_of_frame:
  assumes "bio_frame k k'" "u_procp (k_u k) < length (procs (k_sch k))"
  shows "image_of k' = image_of k" "length (procs (k_sch k')) = length (procs (k_sch k))" "k_u k' = k_u k" "phys k' = phys k"
proof -
  have i: "images (k_sch k') = images (k_sch k)" and u: "k_u k' = k_u k" and p: "phys k' = phys k"
    using assms(1) by (simp_all add: bio_frame_def)
  from i have l: "length (procs (k_sch k')) = length (procs (k_sch k))"
    unfolding images_def by (rule map_eq_imp_length_eq)
  have im: "image_of k = images (k_sch k) ! u_procp (k_u k)" using assms(2) by (simp add: image_of_def images_def procp_def)
  have im': "image_of k' = images (k_sch k') ! u_procp (k_u k')" using assms(2) l u by (simp add: image_of_def images_def procp_def)
  show "image_of k' = image_of k" unfolding im im' i u ..
  show "length (procs (k_sch k')) = length (procs (k_sch k))" "k_u k' = k_u k" "phys k' = phys k" by (fact l u p)+
qed

lemma user_frame:
  assumes "bio_frame k k'" "u_procp (k_u k) < length (procs (k_sch k))"
  shows "user_list a n k' = user_list a n k" "user_range a n k' = user_range a n k"
  using user_list_image [OF image_of_frame(1,4) [OF assms]] user_range_image [OF image_of_frame(1) [OF assms]] by simp_all

end
