(* ===== verification/Rdwri.thy ===== *)
theory Rdwri
  imports Umem
begin

text \<open>
  \<^verbatim>\<open>kernel/fs/rdwri.c\<close>: reading and writing the file of an inode through the cache.
  The parameters are the fields \<^verbatim>\<open>u_base\<close>, \<^verbatim>\<open>u_offset\<close>, \<^verbatim>\<open>u_count\<close> and
  \<^verbatim>\<open>u_segflg\<close> of the u-area.  A character device leaves the model.  The two loops carry
  fuel \<open>unat u_count + 1\<close>: every round but the last moves at least one byte.
\<close>

subsection \<open>Moving bytes\<close>

text \<open>The three arguments after \<open>n\<close> bytes have been moved.\<close>

definition advance :: "int \<Rightarrow> kernel \<Rightarrow> kernel" where
  "advance n = upd_u (\<lambda>u. u\<lparr>u_base := caddr_add (u_base u) (nat (n mod 2 ^ 32)),
     u_offset1 := u_offset1 u + of_int n, u_count := u_count u - of_int n\<rparr>)"

definition cpass :: "kernel \<Rightarrow> int \<times> kernel" where
  "cpass k =
     (let u = k_u k
      in if u_count u = 0 then (- 1, k)
         else if u_segflg u = 0 then
           (let c = fubyte (u_base u) k
            in if c < 0 then (- 1, set_error EFAULT k) else (c, advance 1 k))
         else (int (unat (kload (u_base u) k)), advance 1 k))"

definition passc :: "byte \<Rightarrow> kernel \<Rightarrow> bool \<times> kernel" where
  "passc c k =
     (let u = k_u k
      in if u_count u = 0 then (False, k)
         else if u_segflg u = 0 then
           (case subyte (u_base u) c k of
              (False, k) \<Rightarrow> (False, set_error EFAULT k)
            | (True, k) \<Rightarrow> (True, advance 1 k))
         else (True, advance 1 (kstore (u_base u) c k)))"

primrec pass_in :: "nat \<Rightarrow> bptr \<Rightarrow> nat \<Rightarrow> kernel \<Rightarrow> kernel" where
  "pass_in 0 bp d k = k"
| "pass_in (Suc n) bp d k =
     (case cpass k of (t, k) \<Rightarrow>
        if t < 0 then k else pass_in n bp (d + 1) (upd_sb bp (\<lambda>b. b(d := of_int t)) k))"

primrec pass_out :: "nat \<Rightarrow> bptr \<Rightarrow> nat \<Rightarrow> kernel \<Rightarrow> kernel" where
  "pass_out 0 bp s k = k"
| "pass_out (Suc n) bp s k =
     (case passc (b_addr (bufp k bp) s) k of
        (False, k) \<Rightarrow> k | (True, k) \<Rightarrow> pass_out n bp (s + 1) k)"

fun even_addr :: "caddr \<Rightarrow> bool" where
  "even_addr (UAddr a) = even (unat a)"
| "even_addr (KDent i) = even i"
| "even_addr (KLocal i) = even i"

text \<open>\<^verbatim>\<open>iomove\<close>.  The blocks are at even addresses.  The byte loop \<^verbatim>\<open>while (n--)\<close> of a
  negative \<open>n\<close> runs on through the wrap-around.\<close>

definition iomove :: "bptr \<Rightarrow> nat \<Rightarrow> int \<Rightarrow> bool \<Rightarrow> kernel \<Rightarrow> kernel" where
  "iomove bp o' n wr k =
     (let u = k_u k
      in if u_segflg u = 0 \<and> even n \<and> even o' \<and> even_addr (u_base u) then
           (let (ok, k') = (if wr then copyin (nat n) (u_base u) bp o' k else copyout (nat n) bp o' (u_base u) k)
            in if ok then advance n k' else set_error EFAULT k')
         else
           (let m = nat (n mod 2 ^ 32)
            in if wr then pass_in m bp o' k else pass_out m bp o' k))"

subsection \<open>readi\<close>

definition isize :: "inode \<Rightarrow> uint32_t" where
  "isize ip = push_bit 16 (ucast (i_size0 ip)) OR i_size1 ip"

abbreviation (input) lblock :: "int32_t \<Rightarrow> daddr_t" where
  "lblock off \<equiv> signed_drop_bit 9 off"

abbreviation (input) boff :: "int32_t \<Rightarrow> nat" where
  "boff off \<equiv> unat (off AND 511)"

text \<open>The bytes of the current block: \<^verbatim>\<open>min(BSIZE - on, u.u_count)\<close> on ints.\<close>

definition chunk :: "user \<Rightarrow> int" where
  "chunk u = min (int BSIZE - int (boff (u_offset1 u))) (sint (u_count u))"

text \<open>One block, at physical address \<open>bn\<close>; \<open>again\<close> is the next round.\<close>

definition read_block :: "unit kop \<Rightarrow> nat \<Rightarrow> dev_t \<Rightarrow> daddr_t \<Rightarrow> int \<Rightarrow> unit kop" where
  "read_block again i dev bn n k =
     (let off = u_offset1 (k_u k); lbn = lblock off
      in kbind (if i_lastr (inodep k i) + 1 = lbn then breada dev bn (rablock (k_fs k)) else bread dev bn) (\<lambda>bp k.
           let k1 = upd_inode i (\<lambda>p. p\<lparr>i_lastr := lbn\<rparr>) k
           in if flagged k1 bp B_ERROR then Ret () (brelse bp k1)
              else (let k2 = brelse bp (iomove bp (boff off) n False k1)
                    in if u_error (k_u k2) = 0 \<and> u_count (k_u k2) \<noteq> 0 then again k2 else Ret () k2)) k)"

fun readi_loop :: "nat \<Rightarrow> uint32_t \<Rightarrow> nat \<Rightarrow> unit kop" where
  "readi_loop f fsize i k =
     (let again = (case f of 0 \<Rightarrow> stop Spins | Suc g \<Rightarrow> readi_loop g fsize i);
          ip = inodep k i; off = u_offset1 (k_u k); n = chunk (k_u k)
      in if i_mode ip AND IFMT \<noteq> IFBLK then
           (let remaining = sint (fsize - off)
            in if remaining \<le> 0 then Ret () k
               else kbind (bmap i (lblock off) False) (\<lambda>bn.
                 if bn = 0 \<or> bn = BADBN then ret ()
                 else read_block again i (i_dev ip) bn (min n remaining)) k)
         else read_block again i (ucast (i_addr ip ! 0)) (lblock off) n
           (k\<lparr>k_fs := (k_fs k)\<lparr>rablock := lblock off + 1\<rparr>\<rparr>))"

definition readi :: "nat \<Rightarrow> unit kop" where
  "readi i k =
     (if u_count (k_u k) = 0 then Ret () k
      else
        (let k1 = upd_inode i (\<lambda>p. p\<lparr>i_flag := i_flag p OR IACC, i_atime := time1 (k_clk k)\<rparr>) k;
             ip = inodep k1 i
         in if i_mode ip AND IFMT = IFCHR then Stop (CharDriver False (ucast (i_addr ip ! 0))) k1
            else readi_loop (unat (u_count (k_u k))) (isize ip) i k1))"

subsection \<open>writei\<close>

definition grow_size :: "uint32_t \<Rightarrow> inode \<Rightarrow> inode" where
  "grow_size newsize p =
     (if i_mode p AND (IFBLK OR IFCHR) = 0 \<and> newsize > isize p
      then p\<lparr>i_size0 := ucast (drop_bit 16 newsize), i_size1 := newsize AND 0xFFFF\<rparr> else p)"

definition write_block :: "unit kop \<Rightarrow> nat \<Rightarrow> dev_t \<Rightarrow> daddr_t \<Rightarrow> int \<Rightarrow> unit kop" where
  "write_block again i dev bn n k =
     (let on = boff (u_offset1 (k_u k))
      in kbind (if n = int BSIZE then getblk dev bn else bread dev bn) (\<lambda>bp k.
           if flagged k bp B_ERROR then Ret () (brelse bp k)
           else
             (let k1 = iomove bp on n True k
              in kseq (if u_error (k_u k1) \<noteq> 0 then act (brelse bp)
                       else if u_offset1 (k_u k1) AND 511 = 0 then bawrite bp
                       else act (bdwrite bp))
                   (\<lambda>k. let k2 = upd_inode i (\<lambda>p. let p' = grow_size (u_offset1 (k_u k)) p
                                  in p'\<lparr>i_flag := i_flag p' OR IUPD\<rparr>) k
                        in if u_error (k_u k2) = 0 \<and> u_count (k_u k2) \<noteq> 0 then again k2 else Ret () k2) k1)) k)"

fun writei_loop :: "nat \<Rightarrow> nat \<Rightarrow> unit kop" where
  "writei_loop f i k =
     (let again = (case f of 0 \<Rightarrow> stop Spins | Suc g \<Rightarrow> writei_loop g i);
          ip = inodep k i; bn = lblock (u_offset1 (k_u k)); n = chunk (k_u k)
      in if i_mode ip AND IFMT \<noteq> IFBLK then
           kbind (bmap i bn True) (\<lambda>bn.
             if bn = 0 \<or> bn = BADBN then ret () else write_block again i (i_dev ip) bn n) k
         else write_block again i (ucast (i_addr ip ! 0)) bn n k)"

definition writei :: "nat \<Rightarrow> unit kop" where
  "writei i k =
     (let k1 = upd_inode i (\<lambda>p. p\<lparr>i_flag := i_flag p OR (IACC OR IUPD), i_mtime := time1 (k_clk k),
            i_ctime := time1 (k_clk k)\<rparr>) k;
          ip = inodep k1 i
      in if i_mode ip AND IFMT = IFCHR then Stop (CharDriver True (ucast (i_addr ip ! 0))) k1
         else if u_count (k_u k) = 0 then Ret () k1
         else writei_loop (unat (u_count (k_u k))) i k1)"

declare readi_loop.simps [simp del] writei_loop.simps [simp del]

end
