(* ===== verification/Fio.thy ===== *)
theory Fio
  imports Rdwri
begin

text \<open>
  \<^verbatim>\<open>kernel/fs/fio.c\<close>: file descriptors and the file table, opening and closing,
  permissions.  A \<^verbatim>\<open>struct file *\<close> is an index into the file table.  Opening or closing a
  character device leaves the model; the RAM disk's open and close routines are empty.
\<close>

subsection \<open>Descriptors\<close>

definition getf :: "int32_t \<Rightarrow> kernel \<Rightarrow> nat option \<times> kernel" where
  "getf fd k =
     (if sint fd < 0 \<or> sint fd \<ge> int NOFILE then (None, set_error EBADF k)
      else (case u_ofile (k_u k) ! unat fd of
              Some fp \<Rightarrow> (Some fp, k) | None \<Rightarrow> (None, set_error EBADF k)))"

definition falloc :: "kernel \<Rightarrow> nat option \<times> kernel" where
  "falloc k =
     (case find_slot (\<lambda>f. f = None) (u_ofile (k_u k)) of
        None \<Rightarrow> (None, set_error EMFILE k)
      | Some i \<Rightarrow>
          (case find_slot (\<lambda>fp. f_count fp = 0) (k_file k) of
             None \<Rightarrow> (None, set_error ENFILE k)
           | Some fp \<Rightarrow>
               (Some fp,
                upd_file fp (\<lambda>f. f\<lparr>f_count := 1, f_offset0 := 0, f_offset1 := 0\<rparr>)
                  (set_ar0 EAX (of_nat i)
                    (upd_u (\<lambda>u. u\<lparr>u_ofile := (u_ofile u)[i := Some fp], u_fdflags := (u_fdflags u)[i := 0]\<rparr>) k)))))"

definition ufalloc :: "kernel \<Rightarrow> int \<times> kernel" where
  "ufalloc k =
     (case find_slot (\<lambda>f. f = None) (u_ofile (k_u k)) of
        None \<Rightarrow> (- 1, set_error EMFILE k)
      | Some i \<Rightarrow> (int i, set_ar0 EAX (of_nat i) k))"

subsection \<open>Opening and closing\<close>

text \<open>\<^verbatim>\<open>nchrdev\<close>, which no modelled code changes, is an argument.\<close>

definition openi :: "nat \<Rightarrow> nat \<Rightarrow> bool \<Rightarrow> unit kop" where
  "openi nchrdev i rw k =
     (let ip = inodep k i; dev = ucast (i_addr ip ! 0) :: dev_t; t = i_mode ip AND IFMT
      in if t = IFCHR then
           (if major dev \<ge> nchrdev then Ret () (set_error ENXIO k) else Stop (CharDriver rw dev) k)
         else if t = IFBLK then
           (if major dev \<ge> nblkdev (k_bio k) then Ret () (set_error ENXIO k) else Ret () k)
         else Ret () k)"

definition closei :: "nat \<Rightarrow> bool \<Rightarrow> unit kop" where
  "closei i rw k =
     (let ip = inodep k i; dev = ucast (i_addr ip ! 0) :: dev_t
      in if sint (i_count ip) \<le> 1 \<and> i_mode ip AND IFMT = IFCHR then Stop (CharDriver rw dev) k
         else if sint (i_count ip) \<le> 1 \<and> i_mode ip AND IFMT = IFBLK \<and> major dev \<ge> length (bdevsw (k_bio k))
         then Stop OutOfBounds k
         else iput i k)"

definition closef :: "nat \<Rightarrow> unit kop" where
  "closef fp k =
     (let i = f_inode (k_file k ! fp);
          k1 = (if hasf (f_flag (k_file k ! fp)) FPIPE
                then wakeup (ChInode i 2) (wakeup (ChInode i 1)
                  (upd_inode i (\<lambda>p. p\<lparr>i_mode := i_mode p AND NOT (IREAD OR IWRITE)\<rparr>) k))
                else k);
          f = k_file k1 ! fp
      in kseq (if sint (f_count f) \<le> 1 then closei (f_inode f) (hasf (f_flag f) FWRITE) else ret ())
           (act (upd_file fp (\<lambda>f. f\<lparr>f_count := f_count f - 1\<rparr>))) k1)"

subsection \<open>Permissions\<close>

definition suser :: "kernel \<Rightarrow> bool \<times> kernel" where
  "suser k = (if u_uid (k_u k) = 0 then (True, k) else (False, set_error EPERM k))"

text \<open>The bits tested for the current user: the mode shifted to the owner's, the group's or
  the others' place.\<close>

definition access_bits :: "user \<Rightarrow> inode \<Rightarrow> mode_t \<Rightarrow> mode_t" where
  "access_bits u ip m =
     (if ucast (u_uid u) \<noteq> i_uid ip then
        (if ucast (u_gid u) \<noteq> i_gid ip then drop_bit 3 (drop_bit 3 m) else drop_bit 3 m)
      else m)"

definition permitted :: "user \<Rightarrow> inode \<Rightarrow> mode_t \<Rightarrow> bool" where
  "permitted u ip m =
     (if u_uid u = 0 then \<not> (m = IEXEC \<and> i_mode ip AND (IEXEC OR drop_bit 3 IEXEC OR drop_bit 6 IEXEC) = 0)
      else i_mode ip AND access_bits u ip m \<noteq> 0)"

text \<open>The value is \<open>True\<close> when access is denied, as in the source.\<close>

definition access :: "nat \<Rightarrow> mode_t \<Rightarrow> kernel \<Rightarrow> bool \<times> kernel" where
  "access i m k =
     (let ip = inodep k i;
          (fp, k) = (if m = IWRITE then getfs (i_dev ip) k else (None, k));
          rofs = (case fp of None \<Rightarrow> False | Some p \<Rightarrow> s_ronly (sb k p) \<noteq> 0)
      in if rofs then (True, set_error EROFS k)
         else if m = IWRITE \<and> hasf (i_flag ip) ITEXT then (True, set_error ETXTBSY k)
         else if permitted (k_u k) ip m then (False, k) else (True, set_error EACCES k))"

text \<open>\<^verbatim>\<open>owner\<close> after \<^verbatim>\<open>namei\<close> has returned its result.\<close>

definition owner_of :: "nat option \<Rightarrow> nat option kop" where
  "owner_of r k =
     (case r of
        None \<Rightarrow> Ret None k
      | Some i \<Rightarrow>
          if ucast (u_uid (k_u k)) = i_uid (inodep k i) then Ret (Some i) k
          else (case suser k of
             (True, k) \<Rightarrow> Ret (Some i) k
           | (False, k) \<Rightarrow> kseq (iput i) (ret None) k))"

subsection \<open>The permission check against its specification\<close>

text \<open>The specification: three bits for the owner, three for the group and three for the others,
  of which the first class the user is in counts; the superuser may do everything but execute a
  file that nobody may execute.\<close>

definition permission_class :: "user \<Rightarrow> inode \<Rightarrow> nat" where
  "permission_class u ip =
     (if ucast (u_uid u) = i_uid ip then 6 else if ucast (u_gid u) = i_gid ip then 3 else 0)"

definition may :: "user \<Rightarrow> inode \<Rightarrow> nat \<Rightarrow> bool" where
  "may u ip r \<longleftrightarrow>
     (if u_uid u = 0 then r = 0 \<longrightarrow> (\<exists>c\<in>{0, 3, 6}. bit (i_mode ip) c)
      else bit (i_mode ip) (permission_class u ip + r))"

text \<open>What bars a write whatever the mode says.\<close>

definition write_barred :: "nat \<Rightarrow> kernel \<Rightarrow> bool" where
  "write_barred i k \<longleftrightarrow>
     (case fst (getfs (i_dev (inodep k i)) k) of None \<Rightarrow> False | Some p \<Rightarrow> s_ronly (sb (snd (getfs (i_dev (inodep k i)) k)) p) \<noteq> 0)
     \<or> hasf (i_flag (inodep k i)) ITEXT"

lemma and_pow_neq0: "(x AND push_bit n 1 \<noteq> 0) \<longleftrightarrow> bit (x :: 16 word) n"
  by (simp only: bit_iff_and_push_bit_not_eq_0)

lemma permitted_may:
  assumes "r < 3" shows "permitted u ip (push_bit (6 + r) 1) = may u ip r"
proof -
  have r: "r = 0 \<or> r = 1 \<or> r = 2" using assms by auto
  have c: "permission_class u ip = 6 \<or> permission_class u ip = 3 \<or> permission_class u ip = 0"
    by (simp add: permission_class_def)
  have bits: "access_bits u ip (push_bit (6 + r) 1) = push_bit (permission_class u ip + r) 1"
    using r by (auto simp: access_bits_def permission_class_def)
  have x: "(IEXEC OR drop_bit 3 IEXEC OR drop_bit 6 IEXEC) = (push_bit 6 1 OR push_bit 3 1 OR push_bit 0 1 :: mode_t)"
    by simp
  have three: "i_mode ip AND (push_bit 6 1 OR push_bit 3 1 OR push_bit 0 1) \<noteq> 0 \<longleftrightarrow> (\<exists>c\<in>{0, 3, 6}. bit (i_mode ip) c)"
    by (simp only: bit.conj_disj_distrib or_eq_0_iff de_Morgan_conj and_pow_neq0) auto
  have e: "(push_bit (6 + r) 1 = IEXEC) \<longleftrightarrow> r = 0" using r by auto
  show ?thesis
  proof (cases "u_uid u = 0")
    case True
    then show ?thesis unfolding permitted_def may_def x e using three by auto
  next
    case False
    then show ?thesis by (simp only: permitted_def may_def if_False bits and_pow_neq0 simp_thms)
  qed
qed

text \<open>C23: \<^verbatim>\<open>access\<close> denies exactly what the specification forbids: a write on a read-only file
  system or to a running program, and what the bits of the user's class (owner before group before
  others) do not grant.\<close>

theorem access_specification:
  assumes "r < 3"
  shows "fst (access i (push_bit (6 + r) 1) k)
    \<longleftrightarrow> (r = 1 \<and> write_barred i k) \<or> \<not> may (k_u k) (inodep k i) r"
proof -
  have fr: "k_u (snd (getfs dv k)) = k_u k" "inodep (snd (getfs dv k)) = inodep k" for dv
    by (auto simp: getfs_def Let_def upd_sb_def inodep_upd_buf split: option.splits)
  have w: "(push_bit (6 + r) 1 = IWRITE) \<longleftrightarrow> r = 1"
  proof -
    have "r = 0 \<or> r = 1 \<or> r = 2" using assms by auto
    then show ?thesis by auto
  qed
  define M where "M = (push_bit (6 + r) 1 :: mode_t)"
  have wm: "M = IWRITE \<longleftrightarrow> r = 1" and pm: "permitted u ip M = may u ip r" for u ip
    using w permitted_may [OF assms] by (simp_all only: M_def)
  show ?thesis unfolding M_def [symmetric]
  proof (cases "r = 1")
    case True
    obtain fp k1 where g: "getfs (i_dev (inodep k i)) k = (fp, k1)" by force
    then have "k_u k1 = k_u k" using fr(1) [of "i_dev (inodep k i)"] by simp
    with True g wm pm show "fst (access i M k) \<longleftrightarrow> (r = 1 \<and> write_barred i k) \<or> \<not> may (k_u k) (inodep k i) r"
      by (cases fp) (auto simp: access_def write_barred_def Let_def)
  next
    case False
    with wm pm show "fst (access i M k) \<longleftrightarrow> (r = 1 \<and> write_barred i k) \<or> \<not> may (k_u k) (inodep k i) r"
      by (simp add: access_def Let_def)
  qed
qed

text \<open>The witness: an ordinary user who is not the owner, with a file others may read.\<close>

definition stranger_kernel :: kernel where
  "stranger_kernel = upd_inode 0 (\<lambda>p. p\<lparr>i_mode := 0x81A4, i_uid := 2, i_gid := 2\<rparr>)
     (upd_u (\<lambda>u. u\<lparr>u_uid := 5, u_gid := 5\<rparr>) zero_kernel)"

theorem access_specification_witness:
  "(2 :: nat) < 3 \<and> \<not> fst (access 0 IREAD stranger_kernel) \<and> fst (access 0 IWRITE stranger_kernel)"
proof -
  have st: "u_uid (k_u stranger_kernel) = 5" "u_gid (k_u stranger_kernel) = 5"
    "i_mode (inodep stranger_kernel 0) = 0x81A4" "i_uid (inodep stranger_kernel 0) = 2" "i_gid (inodep stranger_kernel 0) = 2"
    by (simp_all add: stranger_kernel_def zero_kernel_def)
  have "fst (access 0 (push_bit (6 + 2) 1) stranger_kernel) \<longleftrightarrow> False"
    by (subst access_specification) (simp_all add: may_def permission_class_def st)
  moreover have "fst (access 0 (push_bit (6 + 1) 1) stranger_kernel) \<longleftrightarrow> True"
    by (subst access_specification) (simp_all add: may_def permission_class_def st)
  ultimately show ?thesis by simp
qed

end
