(* ===== verification/Pipe.thy ===== *)
theory Pipe
  imports Fio
begin

text \<open>
  \<^verbatim>\<open>kernel/pipe.c\<close>: pipes, as files of at most 4096 bytes whose readers and writers wait
  for each other.  The loops go round again only after a sleep, which ends an operation of the
  model, or, in \<^verbatim>\<open>writep\<close>, after a part has been written: fuel \<open>unat u_count + 1\<close>.
\<close>

abbreviation (input) PIPSIZ :: uint32_t where "PIPSIZ \<equiv> 4096"

text \<open>The channels \<^verbatim>\<open>ip+1\<close> and \<^verbatim>\<open>ip+2\<close> are the addresses of the next two inodes of the
  table, \<open>ChInode (i + 1) 0\<close> and \<open>ChInode (i + 2) 0\<close>.\<close>

definition plock :: "nat \<Rightarrow> unit kop" where
  "plock i k =
     (if hasf (i_flag (inodep k i)) ILOCK
      then kseq (sleep (ChInode i 0) PPIPE) (stop Spins) (upd_inode i (\<lambda>p. p\<lparr>i_flag := i_flag p OR IWANT\<rparr>) k)
      else Ret () (upd_inode i (\<lambda>p. p\<lparr>i_flag := i_flag p OR ILOCK\<rparr>) k))"

definition set_offset :: "uint32_t \<Rightarrow> kernel \<Rightarrow> kernel" where
  "set_offset off = upd_u (\<lambda>u. u\<lparr>u_offset0 := 0, u_offset1 := off\<rparr>)"

text \<open>The head has caught up with the tail: both go back to 0 and a waiting writer is woken.\<close>

definition pipe_reset :: "nat \<Rightarrow> nat \<Rightarrow> kernel \<Rightarrow> kernel" where
  "pipe_reset fp i k =
     (if f_offset1 (k_file k ! fp) = 0 then k
      else
        (let k1 = upd_inode i (\<lambda>p. p\<lparr>i_size1 := 0\<rparr>) (upd_file fp (\<lambda>f. f\<lparr>f_offset1 := 0\<rparr>) k)
         in if hasf (i_mode (inodep k1 i)) IWRITE
            then wakeup (ChInode (i + 1) 0) (upd_inode i (\<lambda>p. p\<lparr>i_mode := i_mode p AND NOT IWRITE\<rparr>) k1)
            else k1))"

definition pipe_empty :: "nat \<Rightarrow> nat \<Rightarrow> unit kop" where
  "pipe_empty fp i k =
     (let k1 = prele i (pipe_reset fp i k)
      in if sint (i_count (inodep k1 i)) < 2 then Ret () k1
         else if hasf (f_flag (k_file k1 ! fp)) FNONBLOCK then Ret () (set_error EAGAIN k1)
         else kseq (sleep (ChInode (i + 2) 0) PPIPE) (stop Spins)
           (upd_inode i (\<lambda>p. p\<lparr>i_mode := i_mode p OR IREAD\<rparr>) k1))"

definition readp :: "nat \<Rightarrow> unit kop" where
  "readp fp k =
     (let i = f_inode (k_file k ! fp)
      in kseq (plock i) (\<lambda>k.
           if f_offset1 (k_file k ! fp) = i_size1 (inodep k i) then pipe_empty fp i k
           else kseq (readi i) (\<lambda>k.
             Ret () (prele i (upd_file fp (\<lambda>f. f\<lparr>f_offset1 := u_offset1 (k_u k)\<rparr>) k)))
             (set_offset (f_offset1 (k_file k ! fp)) k)) k)"

definition pipe_write_part :: "nat \<Rightarrow> uint32_t \<Rightarrow> unit kop" where
  "pipe_write_part i n k =
     kseq (writei i) (\<lambda>k.
       let k1 = prele i k
       in Ret () (if hasf (i_mode (inodep k1 i)) IREAD
                  then wakeup (ChInode (i + 2) 0) (upd_inode i (\<lambda>p. p\<lparr>i_mode := i_mode p AND NOT IREAD\<rparr>) k1)
                  else k1))
       (upd_u (\<lambda>u. u\<lparr>u_count := n\<rparr>) (set_offset (i_size1 (inodep k i)) k))"

text \<open>\<open>c\<close> is the number of bytes still to be written, an \<^verbatim>\<open>int\<close>.\<close>

fun writep_loop :: "nat \<Rightarrow> nat \<Rightarrow> nat \<Rightarrow> uint32_t \<Rightarrow> unit kop" where
  "writep_loop n fp i c k =
     kseq (plock i) (\<lambda>k.
       if c = 0 then Ret () (upd_u (\<lambda>u. u\<lparr>u_count := 0\<rparr>) (prele i k))
       else if sint (i_count (inodep k i)) < 2 then
         Ret () (psignal (u_procp (k_u k)) (int SIGPIPE) (set_error EPIPE (prele i k)))
       else if i_size1 (inodep k i) = PIPSIZ then
         (if hasf (f_flag (k_file k ! fp)) FNONBLOCK then Ret () (set_error EAGAIN (prele i k))
          else kseq (sleep (ChInode (i + 1) 0) PPIPE) (stop Spins)
            (prele i (upd_inode i (\<lambda>p. p\<lparr>i_mode := i_mode p OR IWRITE\<rparr>) k)))
       else
         (let part = min c (PIPSIZ - i_size1 (inodep k i))
          in kseq (pipe_write_part i part)
               (case n of 0 \<Rightarrow> stop Spins | Suc m \<Rightarrow> writep_loop m fp i (c - part)) k)) k"

definition writep :: "nat \<Rightarrow> unit kop" where
  "writep fp k = writep_loop (unat (u_count (k_u k))) fp (f_inode (k_file k ! fp)) (u_count (k_u k)) k"

text \<open>\<^verbatim>\<open>R0\<close> is \<^verbatim>\<open>EAX\<close> and \<^verbatim>\<open>R1\<close> is \<^verbatim>\<open>ECX\<close>; \<open>False\<close> is the value -1.\<close>

definition open_pipe :: "nat \<Rightarrow> nat \<Rightarrow> nat \<Rightarrow> kernel \<Rightarrow> kernel" where
  "open_pipe ip rf wp k =
     upd_inode ip (\<lambda>p. p\<lparr>i_count := 2, i_flag := IACC OR IUPD, i_mode := IALLOC\<rparr>)
       (upd_file rf (\<lambda>f. f\<lparr>f_flag := FREAD OR FPIPE, f_inode := ip\<rparr>)
         (upd_file wp (\<lambda>f. f\<lparr>f_flag := FWRITE OR FPIPE, f_inode := ip\<rparr>) k))"

definition syspipe :: "bool kop" where
  "syspipe k = kbind (ialloc (rootdev (k_fs k))) (\<lambda>r. case r of
     None \<Rightarrow> ret False
   | Some ip \<Rightarrow> (\<lambda>k. case falloc k of
       (None, k) \<Rightarrow> kseq (iput ip) (ret False) k
     | (Some rf, k) \<Rightarrow>
         (let r = u_ar0 (k_u k) ! EAX
          in case falloc k of
               (None, k) \<Rightarrow> kseq (iput ip) (ret False)
                 (upd_u (\<lambda>u. u\<lparr>u_ofile := (u_ofile u)[unat r := None]\<rparr>) (upd_file rf (\<lambda>f. f\<lparr>f_count := 0\<rparr>) k))
             | (Some wp, k) \<Rightarrow>
                 Ret True (open_pipe ip rf wp (set_ar0 EAX r (set_ar0 ECX (u_ar0 (k_u k) ! EAX) k)))))) k"

declare writep_loop.simps [simp del]

end
