(* ===== verification/Text.thy ===== *)
theory Text
  imports Pipe
begin

text \<open>
  \<^verbatim>\<open>kernel/text.c\<close>: the table of shared text segments, their reference counts and locks.
\<close>

definition upd_text :: "nat \<Rightarrow> (textseg \<Rightarrow> textseg) \<Rightarrow> kernel \<Rightarrow> kernel" where
  "upd_text x f k = k\<lparr>k_text := (k_text k)[x := f (k_text k ! x)]\<rparr>"

definition xalloc :: "nat \<Rightarrow> kernel \<Rightarrow> nat option \<times> kernel" where
  "xalloc i k =
     (case find_slot (\<lambda>x. x_iptr x = Some i) (k_text k) of
        Some x \<Rightarrow> (Some x, upd_text x (\<lambda>t. t\<lparr>x_count := x_count t + 1\<rparr>) k)
      | None \<Rightarrow>
          (case find_slot (\<lambda>x. x_iptr x = None) (k_text k) of
             None \<Rightarrow> (None, k)
           | Some x \<Rightarrow>
               (Some x, upd_inode i (\<lambda>p. p\<lparr>i_flag := i_flag p OR ITEXT, i_count := i_count p + 1\<rparr>)
                 (upd_text x (\<lambda>t. t\<lparr>x_count := 1, x_iptr := Some i, x_ccount := 0, x_caddr := 0, x_size := 0\<rparr>) k))))"

definition xfree :: "nat option \<Rightarrow> unit kop" where
  "xfree r k =
     (case r of
        None \<Rightarrow> Ret () k
      | Some x \<Rightarrow>
          (let k1 = upd_text x (\<lambda>t. t\<lparr>x_count := x_count t - 1\<rparr>) k
           in if x_count (k_text k1 ! x) \<noteq> 0 then Ret () k1
              else kseq (case x_iptr (k_text k1 ! x) of
                       None \<Rightarrow> ret ()
                     | Some i \<Rightarrow> (\<lambda>k. kseq (iput i) (act (upd_text x (\<lambda>t. t\<lparr>x_iptr := None\<rparr>)))
                         (upd_inode i (\<lambda>p. p\<lparr>i_flag := i_flag p AND NOT ITEXT\<rparr>) k)))
                     (act (upd_text x (\<lambda>t. t\<lparr>x_caddr := 0\<rparr>))) k1))"

definition xccdec :: "nat option \<Rightarrow> kernel \<Rightarrow> kernel" where
  "xccdec r k =
     (case r of
        None \<Rightarrow> k
      | Some x \<Rightarrow> if sint (x_ccount (k_text k ! x)) > 0 then upd_text x (\<lambda>t. t\<lparr>x_ccount := x_ccount t - 1\<rparr>) k else k)"

definition xunlock :: "nat option \<Rightarrow> kernel \<Rightarrow> kernel" where
  "xunlock r k =
     (case r of
        None \<Rightarrow> k
      | Some x \<Rightarrow>
          if hasf (x_flag (k_text k ! x)) XLOCK
          then wakeup (ChText x) (upd_text x (\<lambda>t. t\<lparr>x_flag := x_flag t AND NOT XLOCK\<rparr>) k) else k)"

definition xlock :: "nat option \<Rightarrow> unit kop" where
  "xlock r k =
     (case r of
        None \<Rightarrow> Ret () k
      | Some x \<Rightarrow>
          if hasf (x_flag (k_text k ! x)) XLOCK
          then kseq (sleep (ChText x) PSWP) (stop Spins) (upd_text x (\<lambda>t. t\<lparr>x_flag := x_flag t OR XWANT\<rparr>) k)
          else Ret () (upd_text x (\<lambda>t. t\<lparr>x_flag := x_flag t OR XLOCK\<rparr>) k))"

end
