(* ===== verification/Nami.thy ===== *)
theory Nami
  imports Pipe
begin

text \<open>
  \<^verbatim>\<open>kernel/fs/nami.c\<close>, the path name lookup, and the two routines of
  \<^verbatim>\<open>kernel/fs/iget.c\<close> that use its side effects, \<^verbatim>\<open>wdir\<close> and \<^verbatim>\<open>maknode\<close>.

  The argument \<open>getc\<close> is the function the C code calls through a pointer, \<open>uchar\<close> or
  \<open>schar\<close>.  The loops over the characters and the components carry fuel \<open>PATHFUEL\<close>: a path
  name of more characters is outside the model.  The search of a directory goes down with
  \<^verbatim>\<open>u_count\<close>.
\<close>

abbreviation (input) PATHFUEL :: nat where "PATHFUEL \<equiv> 65536"

subsection \<open>Characters\<close>

definition next_dirp :: "kernel \<Rightarrow> kernel" where
  "next_dirp = upd_u (\<lambda>u. u\<lparr>u_dirp := caddr_add (u_dirp u) 1\<rparr>)"

definition schar :: "kernel \<Rightarrow> int \<times> kernel" where
  "schar k = (int (unat (kload (u_dirp (k_u k)) k)), next_dirp k)"

definition uchar :: "kernel \<Rightarrow> int \<times> kernel" where
  "uchar k =
     (let c = fubyte (u_dirp (k_u k)) k; k1 = next_dirp k
      in (c, if c = - 1 then set_error EFAULT k1 else k1))"

abbreviation (input) SLASH :: int where "SLASH \<equiv> 47"

fun skip_slashes :: "nat \<Rightarrow> (kernel \<Rightarrow> int \<times> kernel) \<Rightarrow> int \<Rightarrow> int kop" where
  "skip_slashes n getc c k =
     (if c \<noteq> SLASH then Ret c k
      else (case n of 0 \<Rightarrow> Stop Spins k | Suc m \<Rightarrow> (case getc k of (c, k) \<Rightarrow> skip_slashes m getc c k)))"

text \<open>The next component: its first 14 bytes in \<^verbatim>\<open>u_dbuf\<close>; \<open>i\<close> is \<^verbatim>\<open>cp\<close>.\<close>

fun gather :: "nat \<Rightarrow> (kernel \<Rightarrow> int \<times> kernel) \<Rightarrow> nat \<Rightarrow> int \<Rightarrow> (nat \<times> int) kop" where
  "gather n getc i c k =
     (if c = SLASH \<or> c = 0 \<or> u_error (k_u k) \<noteq> 0 then Ret (i, c) k
      else (case n of
          0 \<Rightarrow> Stop Spins k
        | Suc m \<Rightarrow>
            (let k1 = (if i < DIRSIZ then upd_u (\<lambda>u. u\<lparr>u_dbuf := (u_dbuf u)(i := of_int c)\<rparr>) k else k)
             in case getc k1 of (c, k) \<Rightarrow> gather m getc (if i < DIRSIZ then i + 1 else i) c k)))"

definition pad_name :: "nat \<Rightarrow> kernel \<Rightarrow> kernel" where
  "pad_name i = upd_u (\<lambda>u. u\<lparr>u_dbuf := (\<lambda>j. if i \<le> j \<and> j < DIRSIZ then 0 else u_dbuf u j)\<rparr>)"

definition component :: "(kernel \<Rightarrow> int \<times> kernel) \<Rightarrow> int \<Rightarrow> int kop" where
  "component getc c = kbind (gather PATHFUEL getc 0 c) (\<lambda>(i, c).
     kseq (act (pad_name i)) (skip_slashes PATHFUEL getc c))"

subsection \<open>Searching a directory\<close>

text \<open>How the search ends: the entry found is in \<^verbatim>\<open>u_dent\<close>, the directory is exhausted, or
  a block cannot be read; \<open>eo\<close> is the offset behind the first empty entry.\<close>

datatype found = Entry | Missing int32_t | BadBlock

definition dir_size :: "inode \<Rightarrow> uint32_t" where
  "dir_size ip = i_size1 ip + push_bit 16 (ucast (i_size0 ip))"

text \<open>The block that holds the next entry: the one already held, or a new one at a block boundary.\<close>

definition dir_block :: "nat \<Rightarrow> bptr option \<Rightarrow> bptr option kop" where
  "dir_block dp bp k =
     (let off = u_offset1 (k_u k)
      in if off AND 511 \<noteq> 0 then Ret bp k
         else kseq (act (case bp of None \<Rightarrow> id | Some b \<Rightarrow> brelse b))
           (kbind (bmap dp (of_int (sint off div int BSIZE)) False) (\<lambda>bn.
             kbind (bread (i_dev (inodep k dp)) bn) (\<lambda>b k.
               if flagged k b B_ERROR then Ret None (brelse b k) else Ret (Some b) k))) k)"

definition take_entry :: "bptr \<Rightarrow> kernel \<Rightarrow> kernel" where
  "take_entry b k = upd_u (\<lambda>u. u\<lparr>u_dent := bcopy (b_addr (bufp k b)) (boff (u_offset1 u)) (u_dent u) 0 16,
     u_offset1 := u_offset1 u + 16, u_count := u_count u - 1\<rparr>) k"

definition name_matches :: "user \<Rightarrow> bool" where
  "name_matches u \<longleftrightarrow> (\<forall>i<DIRSIZ. u_dbuf u i = dent_name (u_dent u) i)"

fun search_dir :: "nat \<Rightarrow> nat \<Rightarrow> int32_t \<Rightarrow> bptr option \<Rightarrow> found kop" where
  "search_dir n dp eo bp k =
     (if u_count (k_u k) = 0 then Ret (Missing eo) (case bp of None \<Rightarrow> k | Some b \<Rightarrow> brelse b k)
      else kbind (dir_block dp bp) (\<lambda>r. case r of
          None \<Rightarrow> ret BadBlock
        | Some b \<Rightarrow> (\<lambda>k.
            let k1 = take_entry b k;
                again = (\<lambda>eo. case n of 0 \<Rightarrow> stop Spins | Suc m \<Rightarrow> search_dir m dp eo (Some b))
            in if dent_ino (u_dent (k_u k1)) = 0
               then again (if eo = 0 then u_offset1 (k_u k1) else eo) k1
               else if name_matches (k_u k1) then Ret Entry (brelse b k1)
               else again eo k1)) k)"

definition look_up :: "nat \<Rightarrow> found kop" where
  "look_up dp k =
     (let count = dir_size (inodep k dp) div 16
      in search_dir (unat count) dp 0 None
           (upd_u (\<lambda>u. u\<lparr>u_offset0 := 0, u_offset1 := 0, u_segflg := 1, u_count := count\<rparr>) k))"

subsection \<open>namei\<close>

text \<open>\<^verbatim>\<open>goto out\<close>.\<close>

definition namei_out :: "nat \<Rightarrow> nat option kop" where
  "namei_out dp = kseq (iput dp) (ret None)"

definition namei_missing :: "nat \<Rightarrow> nat \<Rightarrow> int \<Rightarrow> int32_t \<Rightarrow> nat option kop" where
  "namei_missing flag dp c eo k =
     (if flag = 1 \<and> c = 0 then
        (case access dp IWRITE k of
           (True, k) \<Rightarrow> namei_out dp k
         | (False, k) \<Rightarrow>
             (let k1 = upd_u (\<lambda>u. u\<lparr>u_pdir := Some dp\<rparr>) k
              in Ret None (if eo \<noteq> 0 then upd_u (\<lambda>u. u\<lparr>u_offset1 := eo - 16\<rparr>) k1
                           else upd_inode dp (\<lambda>p. p\<lparr>i_flag := i_flag p OR IUPD\<rparr>) k1)))
      else namei_out dp (set_error ENOENT k))"

definition namei_delete :: "nat \<Rightarrow> nat option kop" where
  "namei_delete dp k =
     (case access dp IWRITE k of
        (True, k) \<Rightarrow> namei_out dp k
      | (False, k) \<Rightarrow>
          kbind (iget (i_dev (inodep k dp)) (dent_ino (u_dent (k_u k)))) (\<lambda>r. case r of
              None \<Rightarrow> kseq (iput dp) (\<lambda>k. Ret None (upd_u (\<lambda>u. u\<lparr>u_pdir := None\<rparr>) k))
            | Some i \<Rightarrow> ret (Some i))
            (upd_u (\<lambda>u. u\<lparr>u_pdir := Some dp\<rparr>) k))"

text \<open>From \<^verbatim>\<open>cloop\<close>, with \<open>dp\<close> the last component matched and \<open>c\<close> the next character.\<close>

fun namei_loop :: "nat \<Rightarrow> (kernel \<Rightarrow> int \<times> kernel) \<Rightarrow> nat \<Rightarrow> nat \<Rightarrow> int \<Rightarrow> nat option kop" where
  "namei_loop n getc flag dp c k =
     (if u_error (k_u k) \<noteq> 0 then namei_out dp k
      else if c = 0 then Ret (Some dp) k
      else if i_mode (inodep k dp) AND IFMT \<noteq> IFDIR then namei_out dp (set_error ENOTDIR k)
      else (case access dp IEXEC k of
          (True, k) \<Rightarrow> namei_out dp k
        | (False, k) \<Rightarrow>
            kbind (component getc c) (\<lambda>c k.
              if u_error (k_u k) \<noteq> 0 then namei_out dp k
              else kbind (look_up dp) (\<lambda>r k.
                case r of
                  BadBlock \<Rightarrow> namei_out dp k
                | Missing eo \<Rightarrow> namei_missing flag dp c eo k
                | Entry \<Rightarrow>
                    if flag = 2 \<and> c = 0 then namei_delete dp k
                    else
                      (let dev = i_dev (inodep k dp); ino = dent_ino (u_dent (k_u k))
                       in kseq (iput dp) (kbind (iget dev ino) (\<lambda>r.
                            case r of
                              None \<Rightarrow> ret None
                            | Some dp' \<Rightarrow> (case n of 0 \<Rightarrow> stop Spins | Suc m \<Rightarrow> namei_loop m getc flag dp' c))) k)) k) k))"

definition namei :: "(kernel \<Rightarrow> int \<times> kernel) \<Rightarrow> nat \<Rightarrow> nat option kop" where
  "namei getc flag k =
     (case getc k of (c, k) \<Rightarrow>
        (case (if c = SLASH then rootdir (k_fs k) else u_cdir (k_u k)) of
           None \<Rightarrow> Ret None (set_error ENOENT k)
         | Some d \<Rightarrow>
             kbind (iget (i_dev (inodep k d)) (i_number (inodep k d))) (\<lambda>r. case r of
                 None \<Rightarrow> ret None
               | Some dp \<Rightarrow> kbind (skip_slashes PATHFUEL getc c) (\<lambda>c k.
                   if c = 0 \<and> flag \<noteq> 0 then namei_out dp (set_error ENOENT k)
                   else namei_loop PATHFUEL getc flag dp c k)) k))"

definition getdir :: "nat option kop" where
  "getdir = namei uchar 2"

definition stickycheck :: "nat \<Rightarrow> kernel \<Rightarrow> bool" where
  "stickycheck i k \<longleftrightarrow> hasf (i_mode (inodep k i)) ISVTX \<and> u_uid (k_u k) \<noteq> 0
     \<and> ucast (u_uid (k_u k)) \<noteq> i_uid (inodep k i)"

subsection \<open>wdir and maknode\<close>

definition fill_entry :: "ino_t \<Rightarrow> user \<Rightarrow> user" where
  "fill_entry ino u = u\<lparr>u_dent := bcopy (u_dbuf u) 0 (put16 (u_dent u) 0 ino) 2 DIRSIZ,
     u_count := 16, u_segflg := 1, u_base := KDent 0\<rparr>"

definition wdir :: "nat \<Rightarrow> unit kop" where
  "wdir i k =
     (let k1 = upd_u (fill_entry (i_number (inodep k i))) k
      in case u_pdir (k_u k1) of
           None \<Rightarrow> Stop OutOfBounds k1
         | Some d \<Rightarrow> kseq (writei d) (iput_opt (u_pdir (k_u k1))) k1)"

definition new_node :: "mode_t \<Rightarrow> user \<Rightarrow> int32_t \<Rightarrow> inode \<Rightarrow> inode" where
  "new_node mode u t p = p\<lparr>i_flag := i_flag p OR (IACC OR IUPD), i_mode := mode OR IALLOC, i_nlink := 1,
     i_uid := ucast (u_uid u), i_gid := ucast (u_gid u), i_atime := t, i_mtime := t, i_ctime := t\<rparr>"

definition maknode :: "mode_t \<Rightarrow> nat option kop" where
  "maknode mode k =
     (case u_pdir (k_u k) of
        None \<Rightarrow> Stop OutOfBounds k
      | Some d \<Rightarrow>
          kbind (ialloc (i_dev (inodep k d))) (\<lambda>r. case r of
              None \<Rightarrow> ret None
            | Some i \<Rightarrow> (\<lambda>k. kseq (wdir i) (ret (Some i))
                (upd_inode i (new_node mode (k_u k) (time1 (k_clk k))) k))) k)"

declare skip_slashes.simps [simp del] gather.simps [simp del] search_dir.simps [simp del] namei_loop.simps [simp del]

subsection \<open>The simplest path\<close>

lemma iget_in_core:
  assumes "find_slot (in_core dev ino) (inodes (k_fs k)) = Some i" "\<not> hasf (i_flag (inodep k i)) ILOCK"
    "\<not> hasf (i_flag (inodep k i)) IMOUNT"
  shows "iget dev ino k = Ret (Some i) (upd_inode i (\<lambda>p. p\<lparr>i_count := i_count p + 1, i_flag := i_flag p OR ILOCK\<rparr>) k)"
  using assms by (simp add: iget_def iget_loop.simps iget_found_def Let_def)

lemma skip_slashes_no: "c \<noteq> SLASH \<Longrightarrow> skip_slashes n getc c k = Ret c k"
  by (simp add: skip_slashes.simps)

lemma skip_slashes_yes: "skip_slashes (Suc n) getc SLASH k = skip_slashes n getc (fst (getc k)) (snd (getc k))"
  by (subst skip_slashes.simps) (simp add: case_prod_beta)

text \<open>A path name that consists of a slash: the root directory, in core and unlocked.\<close>

lemma namei_root:
  assumes "fubyte (u_dirp (k_u k)) k = SLASH" "fubyte (caddr_add (u_dirp (k_u k)) 1) k = 0"
    "rootdir (k_fs k) = Some d" "u_error (k_u k) = 0"
    "find_slot (in_core (i_dev (inodep k d)) (i_number (inodep k d))) (inodes (k_fs k)) = Some i"
    "\<not> hasf (i_flag (inodep k i)) ILOCK" "\<not> hasf (i_flag (inodep k i)) IMOUNT"
  shows "namei uchar 0 k = Ret (Some i) (next_dirp (upd_inode i (\<lambda>p. p\<lparr>i_count := i_count p + 1,
    i_flag := i_flag p OR ILOCK\<rparr>) (next_dirp k)))"
proof -
  let ?k1 = "next_dirp k"
  let ?k2 = "upd_inode i (\<lambda>p. p\<lparr>i_count := i_count p + 1, i_flag := i_flag p OR ILOCK\<rparr>) ?k1"
  have fr: "k_fs ?k1 = k_fs k" "inodep ?k1 = inodep k" by (simp_all add: next_dirp_def)
  have ub: "fubyte a (next_dirp k') = fubyte a k'" for a k'
    by (cases a) (simp_all add: next_dirp_def fubyte_def user_phys_addr_def Let_def)
  have ui: "fubyte a (upd_inode i h k') = fubyte a k'" for a h k'
    by (cases a) (simp_all add: fubyte_def user_phys_addr_def Let_def)
  have u1: "uchar k = (SLASH, ?k1)" using assms(1) by (simp add: uchar_def Let_def)
  have ig: "iget (i_dev (inodep ?k1 d)) (i_number (inodep ?k1 d)) ?k1 = Ret (Some i) ?k2"
    using assms(5-7) by (intro iget_in_core) (simp_all add: fr)
  have u2: "uchar ?k2 = (0, next_dirp ?k2)"
    using assms(2) by (simp add: uchar_def Let_def ub ui) (simp add: next_dirp_def)
  obtain n where n: "PATHFUEL = Suc n" by (cases "PATHFUEL") auto
  have sk: "skip_slashes PATHFUEL uchar SLASH ?k2 = Ret 0 (next_dirp ?k2)"
    unfolding n skip_slashes_yes u2 by (simp add: skip_slashes_no)
  have "u_error (k_u (next_dirp ?k2)) = 0" using assms(4) by (simp add: next_dirp_def)
  then have "namei_loop PATHFUEL uchar 0 i 0 (next_dirp ?k2) = Ret (Some i) (next_dirp ?k2)"
    by (subst namei_loop.simps) simp
  with u1 ig sk assms(3) show ?thesis by (simp add: namei_def fr(1))
qed

end
