(* ===== verification/Sys_Base.thy ===== *)
theory Sys_Base
  imports Nami Text
begin

text \<open>
  What the system calls of \<^verbatim>\<open>kernel/sys.c\<close> share: their result, the arguments, the two ways
  they reach a file (by a descriptor and by a path name), and the transfer of a structure
  between the kernel's stack and the user.  A structure is the list of its bytes.
\<close>

subsection \<open>Results\<close>

text \<open>The values 0 and -1 of a handler, and the failure with an error number.\<close>

definition okay :: "int kop" where
  "okay = ret 0"

definition fails :: "int kop" where
  "fails = ret (- 1)"

definition error :: "int8_t \<Rightarrow> int kop" where
  "error e = kseq (act (set_error e)) fails"

text \<open>\<^verbatim>\<open>u.u_ar0[EAX] = v; return 0\<close>.\<close>

definition returns :: "uint32_t \<Rightarrow> int kop" where
  "returns v = kseq (act (set_ar0 EAX v)) okay"

definition set_arg :: "nat \<Rightarrow> uint32_t \<Rightarrow> kernel \<Rightarrow> kernel" where
  "set_arg n v = upd_u (\<lambda>u. u\<lparr>u_arg := (u_arg u)[n := v]\<rparr>)"

text \<open>The tail of a handler that changes the result of another.\<close>

definition zero_eax :: "int \<Rightarrow> int kop" where
  "zero_eax r = (if r = 0 then kseq (act (set_ar0 EAX 0)) (ret r) else ret r)"

subsection \<open>Files\<close>

text \<open>\<^verbatim>\<open>fp = getf(u.u_arg[n]); if (fp == NULL) return -1;\<close>\<close>

definition with_file :: "nat \<Rightarrow> (nat \<Rightarrow> int kop) \<Rightarrow> int kop" where
  "with_file n f k =
     (case getf (arg n k) k of
        (None, k) \<Rightarrow> fails k
      | (Some fp, k) \<Rightarrow> f fp k)"

text \<open>\<^verbatim>\<open>u.u_dirp = u.u_arg[n]; ip = namei(uchar, flag)\<close>.\<close>

definition lookup_arg :: "nat \<Rightarrow> nat \<Rightarrow> nat option kop" where
  "lookup_arg n flag k = namei uchar flag (upd_u (\<lambda>u. u\<lparr>u_dirp := UAddr (u_arg u ! n)\<rparr>) k)"

text \<open>... \<^verbatim>\<open>if (ip == NULL) return -1;\<close>\<close>

definition with_path :: "nat \<Rightarrow> (nat \<Rightarrow> int kop) \<Rightarrow> int kop" where
  "with_path n f = kbind (lookup_arg n 0) (\<lambda>r. case r of None \<Rightarrow> fails | Some i \<Rightarrow> f i)"

text \<open>A failure that first puts the inode back.\<close>

definition put_error :: "nat \<Rightarrow> int8_t \<Rightarrow> int kop" where
  "put_error i e = kseq (act (set_error e)) (kseq (iput i) fails)"

text \<open>\<^verbatim>\<open>ip->i_flag |= fl; ip->i_ctime = time[1]\<close>.\<close>

definition touch :: "int8_t \<Rightarrow> nat \<Rightarrow> kernel \<Rightarrow> kernel" where
  "touch fl i k = upd_inode i (\<lambda>p. p\<lparr>i_flag := i_flag p OR fl, i_ctime := time1 (k_clk k)\<rparr>) k"

subsection \<open>Structures\<close>

definition bytes16 :: "uint16_t \<Rightarrow> byte list" where
  "bytes16 v = map (put16 (\<lambda>_. 0) 0 v) [0..<2]"

definition bytes32 :: "uint32_t \<Rightarrow> byte list" where
  "bytes32 v = map (put32 (\<lambda>_. 0) 0 v) [0..<4]"

definition word32 :: "byte list \<Rightarrow> nat \<Rightarrow> uint32_t" where
  "word32 bs i = get32 (\<lambda>j. bs ! j) i"

text \<open>\<^verbatim>\<open>copyout\<close> of a structure to a user address, and the loops of \<^verbatim>\<open>subyte\<close> that do the
  same; \<^verbatim>\<open>copyin\<close> of \<open>n\<close> bytes.  \<open>True\<close> and \<open>Some\<close> stand for the value 0.\<close>

primrec put_bytes :: "byte list \<Rightarrow> uint32_t \<Rightarrow> kernel \<Rightarrow> bool \<times> kernel" where
  "put_bytes [] a k = (True, k)"
| "put_bytes (b # bs) a k =
     (case subyte (UAddr a) b k of (False, k) \<Rightarrow> (False, k) | (True, k) \<Rightarrow> put_bytes bs (a + 1) k)"

primrec get_bytes :: "nat \<Rightarrow> uint32_t \<Rightarrow> kernel \<Rightarrow> byte list option" where
  "get_bytes 0 a k = Some []"
| "get_bytes (Suc n) a k =
     (let c = fubyte (UAddr a) k
      in if c < 0 then None else map_option (\<lambda>bs. of_int c # bs) (get_bytes n (a + 1) k))"

text \<open>\<^verbatim>\<open>if (copyout(...) < 0) { u.u_error = EFAULT; return -1; }\<close>, and with the address tested
  for null first.\<close>

definition out_or :: "byte list \<Rightarrow> uint32_t \<Rightarrow> int kop \<Rightarrow> int kop" where
  "out_or bs a rest k =
     (case put_bytes bs a k of (True, k) \<Rightarrow> rest k | (False, k) \<Rightarrow> error EFAULT k)"

definition out_opt :: "byte list \<Rightarrow> uint32_t \<Rightarrow> int kop \<Rightarrow> int kop" where
  "out_opt bs a rest = (if a = 0 then rest else out_or bs a rest)"

definition in_or :: "nat \<Rightarrow> uint32_t \<Rightarrow> (byte list \<Rightarrow> int kop) \<Rightarrow> int kop" where
  "in_or n a rest k = (case get_bytes n a k of None \<Rightarrow> error EFAULT k | Some bs \<Rightarrow> rest bs k)"

text \<open>\<^verbatim>\<open>suword\<close> in the same place.\<close>

definition suword_or :: "uint32_t \<Rightarrow> uint32_t \<Rightarrow> int kop \<Rightarrow> int kop" where
  "suword_or a v rest k = (case suword a v k of (True, k) \<Rightarrow> rest k | (False, k) \<Rightarrow> error EFAULT k)"

lemmas sys_defs = okay_def fails_def error_def returns_def put_error_def

lemma length_bytes [simp]: "length (bytes16 a) = 2" "length (bytes32 v) = 4"
  by (simp_all add: bytes16_def bytes32_def)

lemma word32_bytes32 [simp]: "word32 (bytes32 v) 0 = v"
proof -
  have "get32 (\<lambda>j. bytes32 v ! j) 0 = get32 (put32 (\<lambda>_. 0) 0 v) 0"
    by (rule get32_cong) (simp add: bytes32_def)
  then show ?thesis by (simp add: word32_def)
qed

lemma with_file_at:
  assumes "n < NOFILE" "arg a k = of_nat n" "u_ofile (k_u k) ! n = Some fp"
  shows "with_file a f k = f fp k"
proof -
  have "unat (of_nat n :: 32 word) = n" using assms(1) by (simp add: unat_of_nat)
  moreover have "sint (of_nat n :: 32 word) = int n" using assms(1) calculation by (simp add: sint_small32)
  ultimately show ?thesis using assms by (simp add: with_file_def getf_def)
qed

end
