(* ===== verification/Sys_File.thy ===== *)
theory Sys_File
  imports Sys_Base
begin

text \<open>
  The system calls of \<^verbatim>\<open>kernel/sys.c\<close> on file descriptors.  \<open>nchrdev\<close> is the number of
  character devices and \<open>inp\<close> what the console driver answers to
  \<^verbatim>\<open>console_has_input()\<close>: both are outside the model, and arguments.  A file's
  \<^verbatim>\<open>f_inode\<close> is never null, because every \<^verbatim>\<open>falloc\<close> is followed by its assignment.
\<close>

subsection \<open>read and write\<close>

text \<open>The advance of the file's offset by what was transferred.\<close>

definition advance_file :: "int32_t \<Rightarrow> openfile \<Rightarrow> openfile" where
  "advance_file xfer f =
     (let f = f\<lparr>f_offset1 := f_offset1 f + xfer\<rparr>
      in if sint (f_offset1 f) < sint xfer then f\<lparr>f_offset0 := f_offset0 f + 1\<rparr> else f)"

definition transferred :: "kernel \<Rightarrow> uint32_t" where
  "transferred k = arg 2 k - u_count (k_u k)"

definition rdwr_file :: "bool \<Rightarrow> bool \<Rightarrow> nat \<Rightarrow> bool kop" where
  "rdwr_file inp rd fp k =
     (let f = k_file k ! fp; i = f_inode f;
          k1 = upd_u (\<lambda>u. u\<lparr>u_offset0 := f_offset0 f, u_offset1 := f_offset1 f\<rparr>) k
      in if rd \<and> i_mode (inodep k1 i) AND IFMT = IFCHR \<and> hasf (f_flag f) FNONBLOCK \<and> \<not> inp
         then Ret False (set_error EAGAIN k1)
         else kseq (if rd then readi i
                    else if hasf (f_flag f) FAPPEND
                    then (\<lambda>k. writei i (upd_u (\<lambda>u. u\<lparr>u_offset0 := 0, u_offset1 := isize (inodep k i)\<rparr>) k))
                    else writei i)
                (\<lambda>k. Ret True (upd_file fp (advance_file (transferred k)) k)) k1)"

text \<open>\<open>rd\<close> is \<^verbatim>\<open>mode == FREAD\<close>.  The value \<open>False\<close> of the inner part is the early return.\<close>

definition rdwr :: "bool \<Rightarrow> bool \<Rightarrow> unit kop" where
  "rdwr inp rd k =
     (case getf (arg 0 k) k of
        (None, k) \<Rightarrow> Ret () k
      | (Some fp, k) \<Rightarrow>
          (let f = k_file k ! fp
           in if \<not> hasf (f_flag f) (if rd then FREAD else FWRITE) then Ret () (set_error EBADF k)
              else kbind (if hasf (f_flag f) FPIPE
                          then kseq (if rd then readp fp else writep fp) (ret True)
                          else rdwr_file inp rd fp)
                     (\<lambda>r. if r then act (\<lambda>k. set_ar0 EAX (transferred k) k) else ret ())
                     (upd_u (\<lambda>u. u\<lparr>u_base := UAddr (u_arg u ! 1), u_count := u_arg u ! 2, u_segflg := 0\<rparr>) k)))"

definition sysread :: "bool \<Rightarrow> int kop" where
  "sysread inp = kseq (rdwr inp True) okay"

definition syswrite :: "int kop" where
  "syswrite = kseq (rdwr False False) okay"

subsection \<open>open, creat and close\<close>

text \<open>The checks of \<^verbatim>\<open>open1\<close>: \<open>True\<close> is \<^verbatim>\<open>goto out\<close>.\<close>

definition open_denied :: "nat \<Rightarrow> uint32_t \<Rightarrow> nat \<Rightarrow> kernel \<Rightarrow> bool \<times> kernel" where
  "open_denied i mode trf k =
     (if trf = 2 then (u_error (k_u k) \<noteq> 0, k)
      else
        (let (r, k) = (if hasf mode 1 then access i IREAD k else (False, k))
         in if r then (True, k)
            else
              (let (w, k) = (if hasf mode 2 then access i IWRITE k else (False, k))
               in if w then (True, k)
                  else if hasf mode 2 \<and> i_mode (inodep k i) AND IFMT = IFDIR then (True, set_error EISDIR k)
                  else (u_error (k_u k) \<noteq> 0, k))))"

definition open1 :: "nat \<Rightarrow> nat \<Rightarrow> uint32_t \<Rightarrow> nat \<Rightarrow> unit kop" where
  "open1 nchrdev i mode trf k =
     (case open_denied i mode trf k of
        (True, k) \<Rightarrow> iput i k
      | (False, k) \<Rightarrow>
          kseq (if trf \<noteq> 0 then itrunc i else ret ())
            (\<lambda>k. case falloc (prele i k) of
                (None, k) \<Rightarrow> iput i k
              | (Some fp, k) \<Rightarrow>
                  (let fd = u_ar0 (k_u k) ! EAX
                   in kseq (openi nchrdev i (hasf mode 2))
                        (\<lambda>k. if u_error (k_u k) = 0 then Ret () k
                             else iput i (upd_file fp (\<lambda>f. f\<lparr>f_count := f_count f - 1\<rparr>)
                               (upd_u (\<lambda>u. u\<lparr>u_ofile := (u_ofile u)[unat fd := None]\<rparr>) k)))
                        (upd_file fp (\<lambda>f. f\<lparr>f_flag := ucast (mode AND 3), f_inode := i\<rparr>) k))) k)"

definition sysopen :: "nat \<Rightarrow> int kop" where
  "sysopen nchrdev = with_path 0 (\<lambda>i k.
     let k1 = set_arg 1 (arg 1 k + 1) k
     in kseq (open1 nchrdev i (arg 1 k1) 0) okay k1)"

definition creat_mode :: "kernel \<Rightarrow> mode_t" where
  "creat_mode k = (ucast (arg 1 k) AND 0xFFF AND NOT ISVTX) AND NOT (p_umask (procp k (u_procp (k_u k))))"

definition creat :: "nat \<Rightarrow> int kop" where
  "creat nchrdev = kbind (lookup_arg 0 1) (\<lambda>r. case r of
     None \<Rightarrow> (\<lambda>k.
       if u_error (k_u k) \<noteq> 0 then fails k
       else kbind (maknode (creat_mode k)) (\<lambda>r. case r of
           None \<Rightarrow> fails
         | Some i \<Rightarrow> kseq (open1 nchrdev i 2 2) okay) k)
   | Some i \<Rightarrow> kseq (open1 nchrdev i 2 1) okay)"

definition sysclose :: "int kop" where
  "sysclose = with_file 0 (\<lambda>fp k.
     kseq (closef fp) okay
       (upd_u (\<lambda>u. u\<lparr>u_ofile := (u_ofile u)[unat (u_arg u ! 0) := None],
          u_fdflags := (u_fdflags u)[unat (u_arg u ! 0) := 0]\<rparr>) k))"

subsection \<open>seek\<close>

text \<open>The pair \<^verbatim>\<open>n[0], n[1]\<close> built from the argument.\<close>

definition seek_amount :: "int32_t \<Rightarrow> uint32_t \<Rightarrow> int32_t \<times> int32_t" where
  "seek_amount t a =
     (if sint t > 2
      then (if t = 3 then drop_bit 7 a AND 0x1FF else drop_bit 7 a, push_bit 9 a)
      else (if t \<noteq> 0 \<and> sint a < 0 then - 1 else 0, a))"

definition seek_target :: "int32_t \<Rightarrow> uint32_t \<Rightarrow> openfile \<Rightarrow> inode \<Rightarrow> int32_t \<times> int32_t" where
  "seek_target t a f ip =
     (let (n0, n1) = seek_amount t a
      in if t = 1 \<or> t = 4 then
           (let m1 = n1 + f_offset1 f
            in (n0 + f_offset0 f + (if sint m1 < sint (f_offset1 f) then 1 else 0), m1))
         else if t = 2 \<or> t = 5 then
           (n0 + drop_bit 16 (isize ip), n1 + (isize ip AND 0xFFFF))
         else (n0, n1))"

definition seek :: "int kop" where
  "seek = with_file 0 (\<lambda>fp k.
     let f = k_file k ! fp
     in if hasf (f_flag f) FPIPE then error ESPIPE k
        else (case seek_target (arg 1 k) (arg 0 k) f (inodep k (f_inode f)) of
            (n0, n1) \<Rightarrow> Ret 0 (upd_file fp (\<lambda>f. f\<lparr>f_offset0 := n0, f_offset1 := n1\<rparr>) k)))"

subsection \<open>dup and its relatives\<close>

text \<open>\<^verbatim>\<open>u.u_ofile[i] = fp; fp->f_count++\<close>.\<close>

definition install :: "nat \<Rightarrow> nat \<Rightarrow> kernel \<Rightarrow> kernel" where
  "install i fp k = upd_file fp (\<lambda>f. f\<lparr>f_count := f_count f + 1\<rparr>)
     (upd_u (\<lambda>u. u\<lparr>u_ofile := (u_ofile u)[i := Some fp]\<rparr>) k)"

definition clear_fdflags :: "nat \<Rightarrow> kernel \<Rightarrow> kernel" where
  "clear_fdflags i = upd_u (\<lambda>u. u\<lparr>u_fdflags := (u_fdflags u)[i := 0]\<rparr>)"

definition dup :: "int kop" where
  "dup = with_file 0 (\<lambda>fp k.
     case find_slot (\<lambda>f. f = None) (u_ofile (k_u k)) of
       None \<Rightarrow> error EMFILE k
     | Some i \<Rightarrow> returns (of_nat i) (clear_fdflags i (install i fp k)))"

definition sys_dup :: "int kop" where
  "sys_dup = with_file 0 (\<lambda>fp k.
     case find_slot (\<lambda>f. f = None) (u_ofile (k_u k)) of
       None \<Rightarrow> error EMFILE k
     | Some i \<Rightarrow> returns (of_nat i) (install i fp k))"

definition sys_dup2 :: "int kop" where
  "sys_dup2 k =
     (let newfd = arg 1 k
      in if sint newfd < 0 \<or> sint newfd \<ge> int NOFILE then error EBADF k
         else with_file 0 (\<lambda>fp k.
           if arg 0 k = newfd then returns newfd k
           else kseq (case u_ofile (k_u k) ! unat newfd of None \<Rightarrow> ret () | Some g \<Rightarrow> closef g)
             (\<lambda>k. returns newfd (clear_fdflags (unat newfd) (install (unat newfd) fp k))) k) k)"

text \<open>The rollback of \<^verbatim>\<open>sys_pipe\<close> for one descriptor.\<close>

definition drop_fd :: "int32_t \<Rightarrow> unit kop" where
  "drop_fd fd k =
     (if 0 \<le> sint fd \<and> sint fd < int NOFILE then
        (case u_ofile (k_u k) ! unat fd of
           None \<Rightarrow> Ret () k
         | Some fp \<Rightarrow> kseq (closef fp) (act (upd_u (\<lambda>u. u\<lparr>u_ofile := (u_ofile u)[unat fd := None]\<rparr>))) k)
      else Ret () k)"

definition sys_pipe :: "int kop" where
  "sys_pipe k =
     (let ufd = arg 0 k
      in kbind syspipe (\<lambda>ok k.
           if \<not> ok then fails k
           else
             (let fd0 = u_ar0 (k_u k) ! EAX; fd1 = u_ar0 (k_u k) ! ECX;
                  (b, k) = (case suword ufd fd0 k of (False, k) \<Rightarrow> (False, k) | (True, k) \<Rightarrow> suword (ufd + 4) fd1 k)
              in if b then returns 0 k
                 else kseq (drop_fd fd0) (kseq (drop_fd fd1) (error EFAULT)) k)) k)"

subsection \<open>fcntl, isatty\<close>

definition dup_from :: "nat \<Rightarrow> int32_t \<Rightarrow> int kop" where
  "dup_from fp minfd k =
     (if sint minfd < 0 \<or> sint minfd \<ge> int NOFILE then error EINVAL k
      else (case find_slot (\<lambda>i. u_ofile (k_u k) ! i = None) [unat minfd..<NOFILE] of
          None \<Rightarrow> error EMFILE k
        | Some j \<Rightarrow>
            (let i = unat minfd + j
             in returns (of_nat i) (clear_fdflags i (install i fp k)))))"

definition file_flags :: "int8_t \<Rightarrow> uint32_t" where
  "file_flags fl = (if hasf fl FAPPEND then 8 else 0) OR (if hasf fl FNONBLOCK then 4 else 0)"

definition set_file_flags :: "uint32_t \<Rightarrow> int8_t \<Rightarrow> int8_t" where
  "set_file_flags a fl = (fl AND (FREAD OR FWRITE OR FPIPE))
     OR (if hasf a 8 then FAPPEND else 0) OR (if hasf a 4 then FNONBLOCK else 0)"

definition sys_fcntl :: "int kop" where
  "sys_fcntl = with_file 0 (\<lambda>fp k.
     let fd = unat (arg 0 k); cmd = arg 1 k; a = arg 2 k
     in if cmd = 0 then dup_from fp a k
        else if cmd = 1 then returns (if hasf (u_fdflags (k_u k) ! fd) 1 then 1 else 0) k
        else if cmd = 2 then
          Ret 0 (upd_u (\<lambda>u. u\<lparr>u_fdflags := (u_fdflags u)[fd :=
            if hasf a 1 then u_fdflags u ! fd OR 1 else u_fdflags u ! fd AND NOT 1]\<rparr>) k)
        else if cmd = 3 then returns (file_flags (f_flag (k_file k ! fp))) k
        else if cmd = 4 then Ret 0 (upd_file fp (\<lambda>f. f\<lparr>f_flag := set_file_flags a (f_flag f)\<rparr>) k)
        else error EINVAL k)"

definition sys_isatty :: "int kop" where
  "sys_isatty = with_file 0 (\<lambda>fp k.
     returns (if i_mode (inodep k (f_inode (k_file k ! fp))) AND IFMT = IFCHR then 1 else 0) k)"

end
