(* ===== verification/Sys_Path.thy ===== *)
theory Sys_Path
  imports Sys_File
begin

text \<open>
  The system calls of \<^verbatim>\<open>kernel/sys.c\<close> on path names and inodes: links, directories,
  modes and owners, status, truncation, mounting.
\<close>

subsection \<open>link and unlink\<close>

text \<open>\<^verbatim>\<open>out\<close> of \<^verbatim>\<open>link\<close>.\<close>

definition link_out :: "nat \<Rightarrow> int kop" where
  "link_out i k = kseq (iput i) fails (upd_inode i (\<lambda>p. p\<lparr>i_nlink := i_nlink p - 1\<rparr>) k)"

definition link_entry :: "nat \<Rightarrow> int kop" where
  "link_entry i = kbind (lookup_arg 1 1) (\<lambda>r. case r of
     Some x \<Rightarrow> kseq (act (set_error EEXIST)) (kseq (iput x) (link_out i))
   | None \<Rightarrow> (\<lambda>k.
       if u_error (k_u k) \<noteq> 0 then link_out i k
       else (case u_pdir (k_u k) of
           None \<Rightarrow> Stop OutOfBounds k
         | Some d \<Rightarrow>
             if i_dev (inodep k d) \<noteq> i_dev (inodep k i)
             then kseq (iput d) (kseq (act (set_error EXDEV)) (link_out i)) k
             else kseq (wdir i) (kseq (iput i) okay) k)))"

definition link :: "int kop" where
  "link = with_path 0 (\<lambda>i k.
     if i_mode (inodep k i) AND IFMT = IFDIR \<and> u_uid (k_u k) \<noteq> 0
     then link_out i (set_error EPERM k)
     else link_entry i (prele i (touch IUPD i (upd_inode i (\<lambda>p. p\<lparr>i_nlink := i_nlink p + 1\<rparr>) k))))"

text \<open>The parameters of the \<^verbatim>\<open>writei\<close> that clears the directory entry just found.\<close>

definition clear_entry :: "user \<Rightarrow> user" where
  "clear_entry u = u\<lparr>u_offset1 := u_offset1 u - 16, u_base := KDent 0, u_count := 16,
     u_dent := put16 (u_dent u) 0 0, u_segflg := 1\<rparr>"

text \<open>\<^verbatim>\<open>if (u.u_pdir) { iput(u.u_pdir); u.u_pdir = NULL; }\<close>\<close>

definition put_pdir :: "unit kop" where
  "put_pdir k = kseq (iput_opt (u_pdir (k_u k))) (act (upd_u (\<lambda>u. u\<lparr>u_pdir := None\<rparr>))) k"

definition write_pdir :: "unit kop" where
  "write_pdir k = (case u_pdir (k_u k) of None \<Rightarrow> Stop OutOfBounds k | Some d \<Rightarrow> writei d k)"

definition unlink :: "int kop" where
  "unlink = kbind (lookup_arg 0 2) (\<lambda>r. case r of
     None \<Rightarrow> fails
   | Some i \<Rightarrow> (\<lambda>k.
       if i_mode (inodep k i) AND IFMT = IFDIR
       then kseq (iput i) (kseq put_pdir (error EISDIR)) k
       else kseq write_pdir
              (kseq put_pdir (\<lambda>k.
                kseq (iput i) okay (touch IUPD i (upd_inode i (\<lambda>p. p\<lparr>i_nlink := i_nlink p - 1\<rparr>) k))))
              (upd_u clear_entry (prele i k))))"

definition sys_link :: "int kop" where
  "sys_link = kbind link zero_eax"

definition sys_unlink :: "int kop" where
  "sys_unlink = kbind unlink zero_eax"

definition link_from :: "uint32_t \<Rightarrow> uint32_t \<Rightarrow> int kop" where
  "link_from oldp newp k = link (set_arg 1 newp (set_arg 0 oldp k))"

definition sys_rename :: "int kop" where
  "sys_rename k =
     (let oldp = arg 0 k; newp = arg 1 k
      in kbind (link_from oldp newp) (\<lambda>r k.
           kbind (if r < 0 \<and> u_error (k_u k) = EEXIST
                  then kbind (\<lambda>k. unlink (set_arg 0 newp (set_error 0 k)))
                         (\<lambda>r. if r < 0 then ret r else link_from oldp newp)
                  else ret r)
             (\<lambda>r. if r < 0 then fails
                  else kbind (\<lambda>k. unlink (set_arg 0 oldp k)) (\<lambda>r. if r < 0 then fails else returns 0)) k) k)"

subsection \<open>Directories\<close>

definition chdir :: "int kop" where
  "chdir = with_path 0 (\<lambda>i k.
     if i_mode (inodep k i) AND IFMT \<noteq> IFDIR then put_error i ENOTDIR k
     else (case access i IEXEC k of
         (True, k) \<Rightarrow> kseq (iput i) fails k
       | (False, k) \<Rightarrow>
           (let k = prele i k
            in kseq (iput_opt (u_cdir (k_u k))) (\<lambda>k. Ret 0 (upd_u (\<lambda>u. u\<lparr>u_cdir := Some i\<rparr>) k)) k)))"

text \<open>The name of the entry at byte \<open>o\<close> of a block is \<^verbatim>\<open>.\<close> or \<^verbatim>\<open>..\<close>.\<close>

definition dot_name :: "(nat \<Rightarrow> byte) \<Rightarrow> bool" where
  "dot_name d \<longleftrightarrow> d 0 = 46 \<and> (d 1 = 0 \<or> d 1 = 46 \<and> d 2 = 0)"

text \<open>The loop of \<^verbatim>\<open>dir_empty\<close>, at entry \<open>j\<close> of \<open>n\<close>; \<open>bp\<close> is the block held.\<close>

definition empty_block :: "nat \<Rightarrow> nat \<Rightarrow> bptr option \<Rightarrow> bptr option kop" where
  "empty_block i off bp k =
     (if off mod BSIZE \<noteq> 0 then Ret bp k
      else kseq (act (case bp of None \<Rightarrow> id | Some b \<Rightarrow> brelse b))
        (kbind (bmap i (of_nat (off div BSIZE)) False) (\<lambda>bn.
          kbind (bread (i_dev (inodep k i)) bn) (\<lambda>b k.
            if flagged k b B_ERROR then Ret None (brelse b k) else Ret (Some b) k))) k)"

fun empty_loop :: "nat \<Rightarrow> nat \<Rightarrow> nat \<Rightarrow> bptr option \<Rightarrow> bool kop" where
  "empty_loop 0 i off bp k = Ret True (case bp of None \<Rightarrow> k | Some b \<Rightarrow> brelse b k)"
| "empty_loop (Suc n) i off bp k =
     kbind (empty_block i off bp) (\<lambda>r. case r of
         None \<Rightarrow> ret False
       | Some b \<Rightarrow> (\<lambda>k.
           let e = b_addr (bufp k b); o' = off mod BSIZE
           in if get16 e o' = 0 \<or> dot_name (\<lambda>j. e (o' + 2 + j))
              then empty_loop n i (off + 16) (Some b) k
              else Ret False (brelse b k))) k"

definition dir_empty :: "nat \<Rightarrow> bool kop" where
  "dir_empty i k = empty_loop ((unat (isize (inodep k i)) + 15) div 16) i 0 None k"

text \<open>The two entries of a new directory, \<^verbatim>\<open>dirbuf\<close>.\<close>

definition dirbuf :: "ino_t \<Rightarrow> ino_t \<Rightarrow> block" where
  "dirbuf self parent = (put16 (put16 (\<lambda>_. 0) 0 self) 16 parent)(2 := 46, 18 := 46, 19 := 46)"

definition new_dir :: "mode_t \<Rightarrow> user \<Rightarrow> int32_t \<Rightarrow> inode \<Rightarrow> inode" where
  "new_dir mode u t p = p\<lparr>i_flag := i_flag p OR (IACC OR IUPD OR ICHG),
     i_mode := (mode AND 0xFFF) OR IFDIR OR IALLOC, i_nlink := 2, i_uid := ucast (u_uid u),
     i_gid := ucast (u_gid u), i_atime := t, i_mtime := t, i_ctime := t\<rparr>"

text \<open>Writing the two entries; \<^verbatim>\<open>writei\<close> does not set a directory's size, so it is set here.\<close>

definition fill_dir :: "nat \<Rightarrow> ino_t \<Rightarrow> unit kop" where
  "fill_dir i parent k =
     kseq (writei i) (\<lambda>k.
       Ret () (if u_error (k_u k) = 0 \<and> i_size1 (inodep k i) < 32
               then upd_inode i (\<lambda>p. p\<lparr>i_size0 := 0, i_size1 := 32, i_flag := i_flag p OR IUPD\<rparr>) k else k))
       (upd_u (\<lambda>u. u\<lparr>u_offset0 := 0, u_offset1 := 0, u_base := KLocal 0, u_count := 32, u_segflg := 1\<rparr>)
         (k\<lparr>klocal := dirbuf (i_number (inodep k i)) parent\<rparr>))"

definition set_pdir :: "nat option \<Rightarrow> kernel \<Rightarrow> kernel" where
  "set_pdir d = upd_u (\<lambda>u. u\<lparr>u_pdir := d\<rparr>)"

definition mkdir_in :: "nat \<Rightarrow> nat \<Rightarrow> mode_t \<Rightarrow> int kop" where
  "mkdir_in d i mode k =
     kseq (fill_dir i (i_number (inodep k d))) (\<lambda>k.
       if u_error (k_u k) \<noteq> 0 then
         kseq (iput i) (kseq (iput d) (kseq (act (set_pdir None)) fails))
           (upd_inode i (\<lambda>p. p\<lparr>i_nlink := 0, i_flag := i_flag p OR ICHG\<rparr>) k)
       else kseq (wdir i) (\<lambda>k.
         if u_error (k_u k) \<noteq> 0 then
           kseq (itrunc i) (\<lambda>k.
             kseq (iput i) (kseq (iput d) fails)
               (touch ICHG i (upd_inode i (\<lambda>p. p\<lparr>i_nlink := 0\<rparr>) k))) (set_pdir None k)
         else kseq (iput i) (kseq (iput d) (returns 0))
           (set_pdir None (touch (IUPD OR ICHG) d (upd_inode d (\<lambda>p. p\<lparr>i_nlink := i_nlink p + 1\<rparr>) k))))
         (set_pdir (Some d) k))
       (upd_inode i (new_dir mode (k_u k) (time1 (k_clk k))) k)"

definition sys_mkdir :: "int kop" where
  "sys_mkdir = kbind (lookup_arg 0 1) (\<lambda>r. case r of
     Some i \<Rightarrow> kseq (iput i) (error EEXIST)
   | None \<Rightarrow> (\<lambda>k.
       if u_error (k_u k) \<noteq> 0 then fails k
       else (case u_pdir (k_u k) of
           None \<Rightarrow> error EIO k
         | Some d \<Rightarrow>
             (let mode = (ucast (arg 1 k) AND 0xFFF) AND NOT (p_umask (procp k (u_procp (k_u k))))
              in kbind (ialloc (i_dev (inodep k d))) (\<lambda>r. case r of
                   None \<Rightarrow> kseq (iput d) (kseq (act (set_pdir None)) fails)
                 | Some i \<Rightarrow> mkdir_in d i mode) k))))"

text \<open>A refusal of \<^verbatim>\<open>sys_rmdir\<close>.\<close>

definition rmdir_error :: "nat \<Rightarrow> int8_t \<Rightarrow> int kop" where
  "rmdir_error i e = kseq (iput i) (kseq put_pdir (error e))"

definition rmdir_entry :: "nat \<Rightarrow> int kop" where
  "rmdir_entry i = kseq write_pdir (\<lambda>k.
     if u_error (k_u k) \<noteq> 0 then kseq (iput i) (kseq put_pdir fails) k
     else kseq (case u_pdir (k_u k) of
            None \<Rightarrow> ret ()
          | Some d \<Rightarrow> (\<lambda>k. put_pdir (touch ICHG d (upd_inode d (\<lambda>p. p\<lparr>i_nlink := i_nlink p - 1\<rparr>) k))))
          (kseq (itrunc i) (\<lambda>k.
            kseq (iput i) (returns 0) (touch ICHG i (upd_inode i (\<lambda>p. p\<lparr>i_nlink := 0\<rparr>) k)))) k)"

definition sys_rmdir :: "int kop" where
  "sys_rmdir = kbind (lookup_arg 0 2) (\<lambda>r. case r of
     None \<Rightarrow> fails
   | Some i \<Rightarrow> (\<lambda>k.
       if i_mode (inodep k i) AND IFMT \<noteq> IFDIR then rmdir_error i ENOTDIR k
       else if dot_name (dent_name (u_dent (k_u k))) then rmdir_error i EINVAL k
       else kbind (dir_empty i) (\<lambda>e k.
         if \<not> e then rmdir_error i EBUSY k else rmdir_entry i (upd_u clear_entry k)) k))"

subsection \<open>getcwd\<close>

text \<open>The search of a directory, block by block, for the first entry with \<open>t\<close>; in a block where
  that entry does not fit, the search goes on with the next block.  \<open>None\<close> is an error, after
  the inodes \<open>ps\<close> have been put back; otherwise the block and the entry's place in it.\<close>

definition entry_offsets :: "nat \<Rightarrow> nat \<Rightarrow> nat list" where
  "entry_offsets n off = filter (\<lambda>o'. off + o' < n) (map (\<lambda>j. 16 * j) [0..<32])"

primrec dir_find :: "nat list \<Rightarrow> nat \<Rightarrow> (block \<Rightarrow> nat \<Rightarrow> bool) \<Rightarrow> (block \<Rightarrow> nat \<Rightarrow> bool) \<Rightarrow> nat \<Rightarrow> nat
    \<Rightarrow> (block \<times> nat) option option kop" where
  "dir_find ps d t room 0 off = ret (Some None)"
| "dir_find ps d t room (Suc n) off =
     kbind (bmap d (of_nat (off div BSIZE)) False) (\<lambda>bn k.
       kbind (bread (i_dev (inodep k d)) bn) (\<lambda>bp k.
         if u_error (k_u k) \<noteq> 0 then kseq (each iput ps) (\<lambda>k. Ret None (brelse bp k)) k
         else if flagged k bp B_ERROR
         then kseq (each iput ps) (\<lambda>k. Ret None (set_error EIO (brelse bp k))) k
         else
           (let b = b_addr (bufp k bp); os = entry_offsets (unat (isize (inodep k d))) off;
                again = dir_find ps d t room n (off + BSIZE)
            in case find_slot (t b) os of
                 None \<Rightarrow> again (brelse bp k)
               | Some j \<Rightarrow> if room b (os ! j) then Ret (Some (Some (b, os ! j))) (brelse bp k)
                           else again (brelse bp k))) k)"

definition dir_blocks :: "inode \<Rightarrow> nat" where
  "dir_blocks ip = (unat (isize ip) + 511) div BSIZE"

definition is_dotdot :: "block \<Rightarrow> nat \<Rightarrow> bool" where
  "is_dotdot b o' \<longleftrightarrow> b (o' + 2) = 46 \<and> b (o' + 3) = 46 \<and> b (o' + 4) = 0"

definition name_bytes :: "block \<Rightarrow> nat \<Rightarrow> byte list" where
  "name_bytes b o' = takeWhile (\<lambda>c. c \<noteq> 0) (map (\<lambda>j. b (o' + 2 + j)) [0..<DIRSIZ])"

text \<open>\<open>path\<close> is the part of the name gathered so far.  One step up, with \<open>ip\<close> the directory: the
  number of its parent and the longer path, \<open>None\<close> on an error.\<close>

definition name_in_parent :: "nat \<Rightarrow> nat \<Rightarrow> ino_t \<Rightarrow> byte list \<Rightarrow> (ino_t \<times> byte list) option kop" where
  "name_in_parent ip parent ino path k =
     kbind (dir_find [ip, parent] parent (\<lambda>b o'. get16 b o' = ino)
         (\<lambda>b o'. length path + length (name_bytes b o') + 1 < 510) (dir_blocks (inodep k parent)) 0) (\<lambda>r. case r of
         None \<Rightarrow> ret None
       | Some hit \<Rightarrow> kseq (iput ip) (\<lambda>k.
           let up = i_number (inodep k parent)
           in kseq (iput parent) (case hit of
                None \<Rightarrow> kseq (act (set_error EIO)) (ret None)
              | Some (b, o') \<Rightarrow> ret (Some (up, 47 # name_bytes b o' @ path))) k)) k"

definition step_up :: "dev_t \<Rightarrow> ino_t \<Rightarrow> byte list \<Rightarrow> (ino_t \<times> byte list) option kop" where
  "step_up dev ino path = kbind (iget dev ino) (\<lambda>r. case r of
     None \<Rightarrow> kseq (act (set_error EIO)) (ret None)
   | Some ip \<Rightarrow> (\<lambda>k.
       kbind (dir_find [ip] ip is_dotdot (\<lambda>_ _. True) (dir_blocks (inodep k ip)) 0) (\<lambda>r. case r of
           None \<Rightarrow> ret None
         | Some hit \<Rightarrow>
             (let pino = (case hit of None \<Rightarrow> 0 | Some (b, o') \<Rightarrow> get16 b o')
              in if pino = 0 then kseq (iput ip) (kseq (act (set_error EIO)) (ret None))
                 else kbind (iget dev pino) (\<lambda>r. case r of
                     None \<Rightarrow> kseq (iput ip) (kseq (act (set_error EIO)) (ret None))
                   | Some parent \<Rightarrow> name_in_parent ip parent ino path))) k))"

text \<open>Each step adds at least a byte to a path of less than 510: that is the fuel.\<close>

fun climb :: "nat \<Rightarrow> dev_t \<Rightarrow> ino_t \<Rightarrow> byte list \<Rightarrow> byte list option kop" where
  "climb n dev ino path =
     (if ino = 1 then ret (Some path)
      else kbind (step_up dev ino path) (\<lambda>r. case r of
          None \<Rightarrow> ret None
        | Some (up, path) \<Rightarrow> (case n of 0 \<Rightarrow> stop Spins | Suc m \<Rightarrow> climb m dev up path)))"

definition getcwd :: "int kop" where
  "getcwd k =
     (let buf = arg 0 k; n = sint (arg 1 k)
      in if n < 2 then error EINVAL k
         else (case u_cdir (k_u k) of
             None \<Rightarrow> error ENOENT k
           | Some d \<Rightarrow>
               if i_number (inodep k d) = 1
               then returns buf (snd (put_bytes [47, 0] buf
                      (upd_u (\<lambda>u. u\<lparr>u_dbuf := (u_dbuf u)(0 := 47, 1 := 0)\<rparr>) k)))
               else kbind (climb 510 (i_dev (inodep k d)) (i_number (inodep k d)) []) (\<lambda>r. case r of
                   None \<Rightarrow> fails
                 | Some path \<Rightarrow>
                     if int (length path) \<ge> n then error EINVAL
                     else (\<lambda>k. returns buf (snd (put_bytes (path @ [0]) buf k)))) k))"

declare climb.simps [simp del]

subsection \<open>A link to a directory\<close>

lemma link_refused_drops_count:
  assumes "lookup_arg 0 0 k = Ret (Some i) k1" "i_mode (inodep k1 i) AND IFMT = IFDIR" "u_uid (k_u k1) \<noteq> 0"
    "i < length (inodes (k_fs k1))" "i_count (inodep k1 i) \<noteq> 1"
  shows "\<exists>k2. link k = Ret (- 1) k2 \<and> u_error (k_u k2) = EPERM
    \<and> i_nlink (inodep k2 i) = i_nlink (inodep k1 i) - 1"
proof -
  let ?k2 = "upd_inode i (\<lambda>p. p\<lparr>i_nlink := i_nlink p - 1\<rparr>) (set_error EPERM k1)"
  let ?k3 = "upd_inode i (\<lambda>p. p\<lparr>i_count := i_count p - 1\<rparr>) (upd_inode i (\<lambda>p. p\<lparr>i_flag := i_flag p OR ILOCK\<rparr>) ?k2)"
  have "iput i ?k2 = Ret () (prele i ?k3)" using assms(4,5) by (simp add: iput_def Let_def)
  then have "link k = Ret (- 1) (prele i ?k3)"
    using assms(1-3) by (simp add: link_def with_path_def link_out_def fails_def)
  moreover have "i_nlink (inodep (prele i ?k3) i) = i_nlink (inodep k1 i) - 1"
    using assms(4) by (simp add: prele_def Let_def wakeup_def)
  moreover have "u_error (k_u (prele i ?k3)) = EPERM"
    by (simp add: prele_def Let_def wakeup_def)
  ultimately show ?thesis by blast
qed

text \<open>The witness: user 5 links the root directory.\<close>

definition user_kernel :: kernel where
  "user_kernel = (upd_u (\<lambda>u. u\<lparr>u_uid := 5\<rparr>) (upd_inode 0 (\<lambda>p. p\<lparr>i_number := 1, i_count := 1, i_nlink := 3,
     i_mode := 0xC1ED\<rparr>) two_kernel))\<lparr>phys := (\<lambda>a. if a = 10496 then 47 else 0)\<rparr>"

definition root_kernel :: kernel where
  "root_kernel = user_kernel\<lparr>k_fs := (k_fs user_kernel)\<lparr>rootdir := Some 0\<rparr>\<rparr>"

lemma root_kernel_sel:
  "procp root_kernel = procp two_kernel" "u_procp (k_u root_kernel) = 0" "u_uid (k_u root_kernel) = 5"
  "u_error (k_u root_kernel) = 0" "rootdir (k_fs root_kernel) = Some 0" "length (inodes (k_fs root_kernel)) = NINODE"
  "inodep root_kernel 0 = zero_inode\<lparr>i_number := 1, i_count := 1, i_nlink := 3, i_mode := 0xC1ED\<rparr>"
  "phys root_kernel = (\<lambda>a. if a = 10496 then 47 else 0)" "arg 0 root_kernel = 0"
  by (simp_all add: root_kernel_def user_kernel_def two_kernel_def zero_kernel_def zero_user_def procp_def inodep_def
      arg_def upd_inode_def)

end
