(* ===== verification/Sys_Inode.thy ===== *)
theory Sys_Inode
  imports Sys_Path
begin

text \<open>
  The system calls of \<^verbatim>\<open>kernel/sys.c\<close> that read or set the fields of an inode, and
  mounting.  \<open>pad\<close> are the bytes of a status structure that the code leaves uninitialised.
\<close>

subsection \<open>Modes, owners and times\<close>

definition chmod :: "int kop" where
  "chmod = with_path 0 (\<lambda>i k.
     if u_uid (k_u k) \<noteq> 0 \<and> ucast (u_uid (k_u k)) \<noteq> i_uid (inodep k i) then put_error i EPERM k
     else
       (let m = (i_mode (inodep k i) AND NOT 0xFFF) OR (ucast (arg 1 k) AND 0xFFF);
            m = (if u_uid (k_u k) \<noteq> 0 then m AND NOT ISVTX else m)
        in kseq (iput i) okay (touch IUPD i (upd_inode i (\<lambda>p. p\<lparr>i_mode := m\<rparr>) k))))"

definition sys_chmod :: "int kop" where
  "sys_chmod = kbind chmod zero_eax"

definition chown :: "int kop" where
  "chown k =
     (if u_uid (k_u k) \<noteq> 0 then error EPERM k
      else with_path 0 (\<lambda>i k.
        kseq (iput i) okay
          (touch IUPD i (upd_inode i (\<lambda>p. p\<lparr>i_uid := ucast (arg 1 k),
             i_gid := ucast (drop_bit 8 (arg 1 k))\<rparr>) k))) k)"

definition set_owner :: "nat \<Rightarrow> kernel \<Rightarrow> kernel" where
  "set_owner i k = touch ICHG i (upd_inode i (\<lambda>p. p\<lparr>i_uid := ucast (arg 1 k), i_gid := ucast (arg 2 k)\<rparr>) k)"

definition sys_chown2 :: "int kop" where
  "sys_chown2 = with_path 0 (\<lambda>i k.
     if u_uid (k_u k) \<noteq> 0 then put_error i EPERM k else kseq (iput i) okay (set_owner i k))"

definition sys_lchown :: "int kop" where
  "sys_lchown = sys_chown2"

definition sys_fchown :: "int kop" where
  "sys_fchown = with_file 0 (\<lambda>fp k.
     if u_uid (k_u k) \<noteq> 0 then error EPERM k else Ret 0 (set_owner (f_inode (k_file k ! fp)) k))"

definition fchmod_mode :: "uint8_t \<Rightarrow> mode_t \<Rightarrow> mode_t \<Rightarrow> mode_t" where
  "fchmod_mode uid mode m =
     (let m' = (m AND IFMT) OR (mode AND 0xFFF) in if uid \<noteq> 0 then m' AND NOT ISVTX else m')"

definition sys_fchmod :: "int kop" where
  "sys_fchmod = with_file 0 (\<lambda>fp k.
     let i = f_inode (k_file k ! fp); uid = u_uid (k_u k)
     in if uid \<noteq> 0 \<and> ucast uid \<noteq> i_uid (inodep k i) then error EPERM k
        else Ret 0 (touch ICHG i
          (upd_inode i (\<lambda>p. p\<lparr>i_mode := fchmod_mode uid (ucast (arg 1 k)) (i_mode p)\<rparr>) k)))"

definition utime :: "int kop" where
  "utime = with_path 0 (\<lambda>i k.
     kseq (iput i) okay (upd_inode i (\<lambda>p. p\<lparr>i_flag := i_flag p OR (IUPD OR IACC)\<rparr>) k))"

definition sys_utimes :: "int kop" where
  "sys_utimes = with_path 0 (\<lambda>i k.
     kseq (iput i) okay (upd_inode i (\<lambda>p. p\<lparr>i_flag := i_flag p OR (IUPD OR IACC)\<rparr>) k))"

definition sys_access :: "int kop" where
  "sys_access = with_path 0 (\<lambda>i k.
     case access i (ucast (arg 1 k)) k of
       (True, k) \<Rightarrow> kseq (iput i) fails k
     | (False, k) \<Rightarrow> kseq (iput i) okay k)"

definition sys_umask :: "int kop" where
  "sys_umask k =
     (let i = u_procp (k_u k)
      in returns (ucast (p_umask (procp k i)))
           (upd_proc i (\<lambda>p. p\<lparr>p_umask := ucast (arg 0 k AND 0x1FF)\<rparr>) k))"

subsection \<open>Status\<close>

text \<open>The 32 bytes of \<^verbatim>\<open>struct stat\<close>; \<open>nl\<close> are the two bytes at the link count.\<close>

definition stat_bytes :: "byte \<times> byte \<Rightarrow> byte list \<Rightarrow> inode \<Rightarrow> byte list" where
  "stat_bytes pad nl ip =
     bytes16 (i_dev ip) @ bytes16 (i_number ip) @ bytes16 (i_mode ip) @ nl @ bytes16 (i_uid ip)
     @ bytes16 (i_gid ip) @ bytes16 (ucast (i_addr ip ! 0)) @ [fst pad, snd pad] @ bytes32 (isize ip)
     @ bytes32 (i_atime ip) @ bytes32 (i_mtime ip) @ bytes32 (i_ctime ip)"

text \<open>\<^verbatim>\<open>stat1\<close>: here the link count is one byte and a byte of padding follows it.\<close>

definition stat1 :: "byte \<Rightarrow> byte \<times> byte \<Rightarrow> nat \<Rightarrow> kernel \<Rightarrow> kernel" where
  "stat1 pad0 pad i k =
     (case put_bytes (stat_bytes pad [i_nlink (inodep k i), pad0] (inodep k i)) (arg 1 k) k of
        (True, k) \<Rightarrow> k | (False, k) \<Rightarrow> set_error EFAULT k)"

definition stat :: "byte \<Rightarrow> byte \<times> byte \<Rightarrow> int kop" where
  "stat pad0 pad = with_path 0 (\<lambda>i k. kseq (iput i) okay (stat1 pad0 pad i k))"

definition fstat :: "byte \<Rightarrow> byte \<times> byte \<Rightarrow> int kop" where
  "fstat pad0 pad = with_file 0 (\<lambda>fp k. okay (stat1 pad0 pad (f_inode (k_file k ! fp)) k))"

text \<open>The common tail of \<^verbatim>\<open>sys_stat\<close> and \<^verbatim>\<open>sys_fstat\<close>: the sign of the link count is
  extended to 16 bits.\<close>

definition put_stat :: "byte \<times> byte \<Rightarrow> nat \<Rightarrow> kernel \<Rightarrow> kernel" where
  "put_stat pad i k =
     (case put_bytes (stat_bytes pad (bytes16 (scast (i_nlink (inodep k i)))) (inodep k i)) (arg 1 k) k of
        (True, k) \<Rightarrow> k | (False, k) \<Rightarrow> set_error EFAULT k)"

definition sys_stat :: "byte \<times> byte \<Rightarrow> int kop" where
  "sys_stat pad = with_path 0 (\<lambda>i k. kseq (iput i) (returns 0) (put_stat pad i k))"

definition sys_fstat :: "byte \<times> byte \<Rightarrow> int kop" where
  "sys_fstat pad = with_file 0 (\<lambda>fp k. returns 0 (put_stat pad (f_inode (k_file k ! fp)) k))"

definition sys_lstat :: "byte \<times> byte \<Rightarrow> int kop" where
  "sys_lstat = sys_stat"

subsection \<open>Truncation and fsync\<close>

definition set_size :: "nat \<Rightarrow> kernel \<Rightarrow> kernel" where
  "set_size i k =
     (let size = arg 1 k; t = time1 (k_clk k)
      in upd_inode i (\<lambda>p. p\<lparr>i_size0 := ucast (signed_drop_bit 16 size), i_size1 := size AND 0xFFFF,
           i_flag := i_flag p OR IUPD, i_mtime := t, i_ctime := t\<rparr>) k)"

definition sys_truncate :: "int kop" where
  "sys_truncate = with_path 0 (\<lambda>i k.
     if i_mode (inodep k i) AND IFMT \<noteq> IFREG then put_error i EINVAL k
     else (case access i IWRITE k of
         (True, k) \<Rightarrow> kseq (iput i) fails k
       | (False, k) \<Rightarrow> kseq (itrunc i) (kseq (iput i) okay) (set_size i k)))"

definition ftruncate :: "int kop" where
  "ftruncate = with_file 0 (\<lambda>fp k.
     let i = f_inode (k_file k ! fp)
     in if i_mode (inodep k i) AND IFMT \<noteq> IFREG then error EINVAL k
        else kseq (itrunc i) okay (set_size i k))"

definition fsync :: "int kop" where
  "fsync = with_file 0 (\<lambda>fp k.
     kseq update okay (upd_inode (f_inode (k_file k ! fp)) (\<lambda>p. p\<lparr>i_flag := i_flag p OR IUPD\<rparr>) k))"

definition sync :: "int kop" where
  "sync = kseq update okay"

subsection \<open>Special files and mounting\<close>

definition mknod :: "int kop" where
  "mknod k =
     (if u_uid (k_u k) \<noteq> 0 then error EPERM k
      else kbind (lookup_arg 0 1) (\<lambda>r. case r of
          Some i \<Rightarrow> put_error i EEXIST
        | None \<Rightarrow> (\<lambda>k.
            if u_error (k_u k) \<noteq> 0 then fails k
            else kbind (maknode (ucast (arg 1 k))) (\<lambda>r. case r of
                None \<Rightarrow> fails
              | Some i \<Rightarrow> (\<lambda>k. kseq (iput i) okay (set_addr i 0 (arg 2 k) k))) k)) k)"

text \<open>The device named by the first argument of \<^verbatim>\<open>smount\<close> and \<^verbatim>\<open>sumount\<close>.\<close>

definition with_device :: "(dev_t \<Rightarrow> int kop) \<Rightarrow> int kop" where
  "with_device f k =
     (case suser k of
        (False, k) \<Rightarrow> fails k
      | (True, k) \<Rightarrow>
          with_path 0 (\<lambda>i k.
            if i_mode (inodep k i) AND IFMT \<noteq> IFBLK then put_error i ENOTBLK k
            else (let dev = ucast (i_addr (inodep k i) ! 0) in kseq (iput i) (f dev) k)) k)"

definition record_mount :: "nat \<Rightarrow> dev_t \<Rightarrow> bptr \<Rightarrow> nat \<Rightarrow> kernel \<Rightarrow> kernel" where
  "record_mount m dev cp d k = k\<lparr>k_fs := (k_fs k)\<lparr>mounts :=
     (mounts (k_fs k))[m := \<lparr>m_dev = dev, m_bufp = cp, m_inodp = Some d\<rparr>]\<rparr>\<rparr>"

text \<open>Reading the superblock into a buffer of its own.  The RAM disk's \<^verbatim>\<open>d_open\<close> does nothing; a
  device number outside \<^verbatim>\<open>bdevsw\<close> is an access past its end.\<close>

definition mount_on :: "nat \<Rightarrow> nat \<Rightarrow> dev_t \<Rightarrow> int kop" where
  "mount_on m d dev k =
     (if major dev \<ge> length (bdevsw (k_bio k)) then Stop OutOfBounds k
      else kbind (bread dev 1) (\<lambda>bp k.
        if flagged k bp B_ERROR then kseq (act (brelse bp)) (put_error d EIO) k
        else kbind (getblk NODEV 0) (\<lambda>cp k.
          let k1 = brelse bp (upd_sb cp (\<lambda>b. bcopy (sb k bp) 0 b 0 BSIZE) k);
              k2 = (if arg 2 k1 \<noteq> 0 then upd_sb cp (set_ronly 1) k1 else k1)
          in Ret 0 (prele d (upd_inode d (\<lambda>p. p\<lparr>i_flag := i_flag p OR IMOUNT\<rparr>) (record_mount m dev cp d k2)))) k) k)"

definition smount :: "int kop" where
  "smount = with_device (\<lambda>dev. with_path 1 (\<lambda>d k.
     if i_mode (inodep k d) AND IFMT \<noteq> IFDIR then put_error d ENOTDIR k
     else if hasf (i_flag (inodep k d)) IMOUNT then put_error d EBUSY k
     else (case find_slot (\<lambda>m. m_bufp m = NilB) (mounts (k_fs k)) of
         None \<Rightarrow> put_error d ENFILE k
       | Some m \<Rightarrow> mount_on m d dev k)))"

text \<open>An inode of the device is in use, the mounted-on inode apart.\<close>

definition busy_inode :: "dev_t \<Rightarrow> nat option \<Rightarrow> kernel \<Rightarrow> bool" where
  "busy_inode dev d k \<longleftrightarrow>
     (find_slot (\<lambda>i. i_dev (inodep k i) = dev \<and> i_count (inodep k i) \<noteq> 0 \<and> d \<noteq> Some i) [0..<NINODE] \<noteq> None)"

definition unmount :: "nat \<Rightarrow> nat \<Rightarrow> int kop" where
  "unmount m d k =
     kseq (iput d) (\<lambda>k.
       Ret 0 ((brelse (m_bufp (mounts (k_fs k) ! m)) k)\<lparr>k_fs := (k_fs k)\<lparr>mounts :=
         (mounts (k_fs k))[m := (mounts (k_fs k) ! m)\<lparr>m_bufp := NilB, m_inodp := None\<rparr>]\<rparr>\<rparr>))
       (upd_inode d (\<lambda>p. p\<lparr>i_flag := i_flag p AND NOT IMOUNT\<rparr>) k)"

definition sumount :: "int kop" where
  "sumount = with_device (\<lambda>dev k.
     case find_slot (\<lambda>m. m_bufp m \<noteq> NilB \<and> m_dev m = dev) (mounts (k_fs k)) of
       None \<Rightarrow> error ENODEV k
     | Some m \<Rightarrow>
         (let d = m_inodp (mounts (k_fs k) ! m)
          in if busy_inode dev d k then error EBUSY k
             else (case d of None \<Rightarrow> Stop OutOfBounds k | Some d \<Rightarrow> unmount m d k)))"

subsection \<open>fchmod\<close>

lemma fchmod_forgets:
  assumes "n < NOFILE" "arg 0 k = of_nat n" "u_ofile (k_u k) ! n = Some fp" "f_inode (k_file k ! fp) = i"
    "i < length (inodes (k_fs k))" "u_uid (k_u k) = 0 \<or> ucast (u_uid (k_u k)) = i_uid (inodep k i)"
    "j < 8" "i_addr (inodep k i) ! j \<noteq> 0"
  shows "\<exists>k'. sys_fchmod k = Ret 0 k' \<and> \<not> hasf (i_mode (inodep k' i)) (IALLOC OR ILARG)
    \<and> bmap i (of_nat j) False k' = Ret (i_addr (inodep k i) ! j) k'"
proof -
  let ?uid = "u_uid (k_u k)"
  let ?g = "\<lambda>p. p\<lparr>i_mode := fchmod_mode ?uid (ucast (arg 1 k)) (i_mode p)\<rparr>"
  let ?k' = "touch ICHG i (upd_inode i ?g k)"
  have "sys_fchmod k = Ret 0 ?k'"
    unfolding sys_fchmod_def with_file_at [OF assms(1-3)] using assms(4,6) by (auto simp: Let_def)
  moreover have ip: "i_mode (inodep ?k' i) = fchmod_mode ?uid (ucast (arg 1 k)) (i_mode (inodep k i))"
    "i_addr (inodep ?k' i) = i_addr (inodep k i)"
    using assms(5) by (simp_all add: touch_def)
  have m: "\<not> hasf (fchmod_mode ?uid x y) (IALLOC OR ILARG)" for x y
    by (simp add: fchmod_mode_def Let_def hasf_def bit.conj_disj_distrib2 and.assoc and.left_commute)
  with ip(1) have "\<not> hasf (i_mode (inodep ?k' i)) (IALLOC OR ILARG)" by simp
  moreover from this have "\<not> hasf (i_mode (inodep ?k' i)) ILARG" unfolding hasf_or2 by blast
  moreover have "sint (of_nat j :: 32 word) = int j" "unat (of_nat j :: 32 word) = j"
    using assms(7) by (simp_all add: sint_small32 unat_of_nat)
  ultimately show ?thesis using assms(7,8) ip(2) by (intro exI [of _ ?k']) (simp add: bmap_def bmap_direct_def Let_def)
qed

definition large_file_kernel :: kernel where
  "large_file_kernel = upd_inode 0 (\<lambda>p. p\<lparr>i_mode := 0x91A4, i_addr := [77, 0, 0, 0, 0, 0, 0, 0]\<rparr>)
     (upd_u (\<lambda>u. u\<lparr>u_ofile := (u_ofile u)[0 := Some 0], u_arg := [0, 0x180, 0, 0, 0, 0]\<rparr>) zero_kernel)"

lemma large_file_kernel_sel:
  "u_ofile (k_u large_file_kernel) ! 0 = Some 0" "arg 0 large_file_kernel = 0" "u_uid (k_u large_file_kernel) = 0"
  "f_inode (k_file large_file_kernel ! 0) = 0" "length (inodes (k_fs large_file_kernel)) = NINODE"
  "i_addr (inodep large_file_kernel 0) = [77, 0, 0, 0, 0, 0, 0, 0]" "i_mode (inodep large_file_kernel 0) = 0x91A4"
  by (simp_all add: large_file_kernel_def zero_kernel_def zero_user_def arg_def)

end
