(* ===== verification/Sys_Proc.thy ===== *)
theory Sys_Proc
  imports Sys_Inode
begin

text \<open>
  The system calls of \<^verbatim>\<open>kernel/sys.c\<close> on processes: exit, wait and fork, identities,
  groups and sessions, times and priorities.
\<close>

abbreviation (input) me :: "kernel \<Rightarrow> nat" where
  "me k \<equiv> u_procp (k_u k)"

subsection \<open>exit\<close>

text \<open>\<^verbatim>\<open>exit\<close> and \<^verbatim>\<open>sys_exit\<close> up to the zombie state.\<close>

definition exit_begin :: "kernel \<Rightarrow> kernel" where
  "exit_begin k =
     upd_u (\<lambda>u. u\<lparr>u_signal := replicate NSIG 1\<rparr>)
       (upd_proc (me k) (\<lambda>p. p\<lparr>p_exit := ucast (arg 0 k), p_flag := p_flag p AND NOT STRC\<rparr>) k)"

definition exit_close :: "nat \<Rightarrow> unit kop" where
  "exit_close i k =
     (case u_ofile (k_u k) ! i of
        None \<Rightarrow> Ret () k
      | Some fp \<Rightarrow> kseq (closef fp) (act (upd_u (\<lambda>u. u\<lparr>u_ofile := (u_ofile u)[i := None]\<rparr>))) k)"

definition exit_files :: "unit kop" where
  "exit_files = kseq (each exit_close [0..<NOFILE]) (\<lambda>k. iput_opt (u_cdir (k_u k)) k)"

definition exit_text :: "unit kop" where
  "exit_text k =
     (case p_textp (procp k (me k)) of
        None \<Rightarrow> Ret () k
      | Some x \<Rightarrow> kseq (xfree (Some x)) (\<lambda>k. Ret () (upd_proc (me k) (\<lambda>p. p\<lparr>p_textp := None\<rparr>) k)) k)"

text \<open>The children go to process 1; a stopped one is set running.\<close>

definition adopt :: "nat \<Rightarrow> nat \<Rightarrow> kernel \<Rightarrow> kernel" where
  "adopt i q k =
     (if p_ppid (procp k q) = p_pid (procp k i) then
        (let k1 = upd_proc q (\<lambda>p. p\<lparr>p_ppid := 1\<rparr>) (wakeup (ChProc 1) k)
         in if p_stat (procp k1 q) = SSTOP then setrun q k1 else k1)
      else k)"

definition reparent :: "nat \<Rightarrow> kernel \<Rightarrow> kernel" where
  "reparent i k = fold (adopt i) [0..<NPROC] k"

definition parent_of :: "nat \<Rightarrow> kernel \<Rightarrow> nat option" where
  "parent_of i k = find_slot (\<lambda>p. p_pid p = p_ppid (procp k i)) (procs (k_sch k))"

definition zombie :: "nat \<Rightarrow> kernel \<Rightarrow> kernel" where
  "zombie i k = reparent i (upd_proc i (\<lambda>p. p\<lparr>p_stat := SZOMB\<rparr>) k)"

definition exit_with :: "(nat \<Rightarrow> kernel \<Rightarrow> kernel) \<Rightarrow> unit kop" where
  "exit_with tell k =
     kseq exit_files
       (kseq exit_text (\<lambda>k.
         let k1 = zombie (me k) k
         in swtch (case parent_of (me k) k1 of None \<Rightarrow> k1 | Some q \<Rightarrow> tell q k1)))
       (exit_begin k)"

definition exit_proc :: "unit kop" where
  "exit_proc = exit_with (\<lambda>q. wakeup (ChProc q))"

definition sys_exit :: "int kop" where
  "sys_exit k = kseq (exit_with (\<lambda>q k. psignal q (int SIGCHLD) (wakeup (ChProc q) k))) okay
     (set_arg 0 (push_bit 8 (arg 0 k AND 0xFF)) k)"

definition rexit :: "int kop" where
  "rexit k = kseq exit_proc okay (set_arg 0 (push_bit 8 (u_ar0 (k_u k) ! EAX)) k)"

subsection \<open>wait\<close>

definition clear_slot :: "proc \<Rightarrow> proc" where
  "clear_slot p = p\<lparr>p_addr := 0, p_stat := 0, p_pid := 0, p_ppid := 0, p_sig := 0, p_exit := 0\<rparr>"

text \<open>Giving back a zombie's memory and its slot.\<close>

definition reap :: "nat \<Rightarrow> unit kop" where
  "reap q k =
     (let p = procp k q
      in kseq (if p_addr p \<noteq> 0 \<and> p_size p \<noteq> 0 then mfree_core (p_size p) (p_addr p) else ret ())
           (act (upd_proc q clear_slot)) k)"

definition stop_status :: "proc \<Rightarrow> uint32_t" where
  "stop_status p = push_bit 8 (scast (p_sig p)) OR 0x7F"

definition report :: "uint32_t \<Rightarrow> uint32_t \<Rightarrow> kernel \<Rightarrow> kernel" where
  "report r0 r1 k = set_ar0 ECX r1 (set_ar0 EAX r0 k)"

text \<open>The scan of the table: \<open>None\<close> when a child has been reported, otherwise whether there is a
  child at all.\<close>

primrec wait_scan :: "nat list \<Rightarrow> bool \<Rightarrow> bool option kop" where
  "wait_scan [] f = ret (Some f)"
| "wait_scan (q # qs) f = (\<lambda>k.
     let p = procp k q; pid = scast (p_pid p)
     in if p_ppid p \<noteq> p_pid (procp k (me k)) then wait_scan qs f k
        else if p_stat p = SZOMB then
          kseq (reap q) (ret None) (report pid (ucast (p_exit p)) k)
        else if p_stat p = SSTOP then
          (if \<not> hasf (p_flag p) SWTED then
             Ret None (report pid (stop_status p) (upd_proc q (\<lambda>p. p\<lparr>p_flag := p_flag p OR SWTED\<rparr>) k))
           else wait_scan qs True
             (setrun q (upd_proc q (\<lambda>p. p\<lparr>p_flag := p_flag p AND NOT (STRC OR SWTED)\<rparr>) k)))
        else wait_scan qs True k)"

definition wait_sleep :: "int kop" where
  "wait_sleep k = kseq (sleep (ChProc (me k)) PWAIT) (stop Spins) k"

definition syswait :: "int kop" where
  "syswait = kbind (wait_scan [0..<NPROC] False) (\<lambda>r. case r of
     None \<Rightarrow> okay
   | Some f \<Rightarrow> if f then wait_sleep else error ECHILD)"

text \<open>The same for \<^verbatim>\<open>sys_waitpid\<close>: the value of the call when it ends in the scan.\<close>

definition put_status :: "uint32_t \<Rightarrow> uint32_t \<Rightarrow> unit kop \<Rightarrow> int option kop" where
  "put_status a v rest k =
     (case (if a = 0 then (True, k) else suword a v k) of
        (True, k) \<Rightarrow> kseq rest (ret (Some 0)) k
      | (False, k) \<Rightarrow> Ret (Some (- 1)) (set_error EFAULT k))"

definition waits_for :: "int32_t \<Rightarrow> proc \<Rightarrow> proc \<Rightarrow> bool" where
  "waits_for pid parent p \<longleftrightarrow> p_ppid p = p_pid parent \<and> (pid = - 1 \<or> scast (p_pid p) = pid)"

primrec waitpid_scan :: "int32_t \<Rightarrow> uint32_t \<Rightarrow> int32_t \<Rightarrow> nat list \<Rightarrow> bool \<Rightarrow> (int option \<times> bool) kop" where
  "waitpid_scan pid statusp opts [] f = ret (None, f)"
| "waitpid_scan pid statusp opts (q # qs) f = (\<lambda>k.
     let p = procp k q; eax = scast (p_pid p); out = (\<lambda>m. kbind m (\<lambda>r. ret (r, True)))
     in if \<not> waits_for pid (procp k (me k)) p then waitpid_scan pid statusp opts qs f k
        else if p_stat p = SZOMB then
          out (put_status statusp (ucast (p_exit p)) (reap q)) (set_ar0 EAX eax k)
        else if hasf opts 2 \<and> p_stat p = SSTOP \<and> \<not> hasf (p_flag p) SWTED then
          out (put_status statusp (stop_status p) (ret ()))
            (set_ar0 EAX eax (upd_proc q (\<lambda>p. p\<lparr>p_flag := p_flag p OR SWTED\<rparr>) k))
        else waitpid_scan pid statusp opts qs True k)"

definition sys_waitpid :: "int kop" where
  "sys_waitpid k =
     (let opts = arg 2 k
      in if hasf opts (NOT 3) then error EINVAL k
         else kbind (waitpid_scan (arg 0 k) (arg 1 k) opts [0..<NPROC] False) (\<lambda>(r, found). case r of
             Some v \<Rightarrow> ret v
           | None \<Rightarrow> if \<not> found then error ECHILD else if hasf opts 1 then returns 0 else wait_sleep) k)"

subsection \<open>fork\<close>

text \<open>The parent; and what the child does when it first runs, coming back from \<^verbatim>\<open>newproc\<close>
  with 1.\<close>

definition fork :: "int kop" where
  "fork = kbind newproc (\<lambda>r. if r < 0 then kseq (act (set_error EAGAIN)) okay
     else (\<lambda>k. returns (mpid (k_sch k)) k))"

definition fork_child :: "kernel \<Rightarrow> kernel" where
  "fork_child k = upd_u (\<lambda>u. u\<lparr>u_cstime0 := 0, u_cstime1 := 0, u_stime := 0, u_cutime1 := 0, u_utime := 0\<rparr>)
     (set_ar0 EAX 0 k)"

subsection \<open>Identities\<close>

definition getpid :: "int kop" where
  "getpid k = (let pid = p_pid (procp k (me k)) in Ret (sint pid) (set_ar0 EAX (scast pid) k))"

definition getuid :: "int kop" where
  "getuid k = (let u = k_u k
     in Ret (uint ((ucast (u_ruid u) :: int32_t) OR push_bit 8 (ucast (u_uid u)))) (set_ar0 EAX (ucast (u_ruid u)) k))"

definition getgid :: "int kop" where
  "getgid k = (let u = k_u k
     in Ret (uint ((ucast (u_rgid u) :: int32_t) OR push_bit 8 (ucast (u_gid u)))) (set_ar0 EAX (ucast (u_rgid u)) k))"

definition setuid :: "int kop" where
  "setuid k =
     (let uid = arg 0 k
      in if ucast (u_ruid (k_u k)) = uid \<or> u_uid (k_u k) = 0
         then Ret 0 (upd_proc (me k) (\<lambda>p. p\<lparr>p_uid := ucast uid\<rparr>)
                (upd_u (\<lambda>u. u\<lparr>u_uid := ucast uid, u_ruid := ucast uid\<rparr>) k))
         else error EPERM k)"

definition setgid :: "int kop" where
  "setgid k =
     (let gid = arg 0 k
      in if ucast (u_rgid (k_u k)) = gid \<or> u_uid (k_u k) = 0
         then Ret 0 (upd_u (\<lambda>u. u\<lparr>u_gid := ucast gid, u_rgid := ucast gid\<rparr>) k)
         else error EPERM k)"

subsection \<open>Groups and sessions\<close>

definition live_pid :: "int32_t \<Rightarrow> proc \<Rightarrow> bool" where
  "live_pid pid p \<longleftrightarrow> scast (p_pid p) = pid \<and> p_stat p \<noteq> SNULL"

text \<open>A process's group or session, its own number when that is 0.\<close>

definition group_of :: "(proc \<Rightarrow> pid_t) \<Rightarrow> proc \<Rightarrow> uint32_t" where
  "group_of f p = scast (if f p \<noteq> 0 then f p else p_pid p)"

definition get_group :: "(proc \<Rightarrow> pid_t) \<Rightarrow> int kop" where
  "get_group f k =
     (let pid = arg 0 k; own = procp k (me k)
      in if pid = 0 \<or> pid = scast (p_pid own) then returns (group_of f own) k
         else (case find_slot (live_pid pid) (procs (k_sch k)) of
             Some q \<Rightarrow> returns (group_of f (procp k q)) k
           | None \<Rightarrow> okay (set_error ESRCH k)))"

definition sys_getpgid :: "int kop" where
  "sys_getpgid = get_group p_pgrp"

definition sys_getsid :: "int kop" where
  "sys_getsid = get_group p_sid"

definition sys_setpgid :: "int kop" where
  "sys_setpgid k =
     (let pid = (if arg 0 k = 0 then scast (p_pid (procp k (me k))) else arg 0 k);
          pgid = (if arg 1 k = 0 then pid else arg 1 k)
      in case find_slot (live_pid pid) (procs (k_sch k)) of
           Some q \<Rightarrow> Ret 0 (upd_proc q (\<lambda>p. p\<lparr>p_pgrp := ucast pgid\<rparr>) k)
         | None \<Rightarrow> error ESRCH k)"

definition sys_setsid :: "int kop" where
  "sys_setsid k =
     (let pid = p_pid (procp k (me k))
      in returns (scast pid) (upd_proc (me k) (\<lambda>p. p\<lparr>p_sid := pid, p_pgrp := pid\<rparr>) k))"

subsection \<open>Priorities and times\<close>

definition nice :: "int kop" where
  "nice k =
     (let n = arg 0 k; n = (if sint n < 0 \<and> u_uid (k_u k) \<noteq> 0 then 0 else n)
      in Ret 0 (upd_proc (me k) (\<lambda>p. p\<lparr>p_nice := ucast n\<rparr>) k))"

definition times :: "int kop" where
  "times k =
     (let u = k_u k
      in out_or (bytes32 (u_utime u) @ bytes32 (u_stime u) @ bytes32 (u_cutime1 u) @ bytes32 (u_cstime1 u))
           (arg 0 k) okay k)"

definition gtime :: "int kop" where
  "gtime k =
     (let c = k_clk k in Ret (sint (time1 c)) (set_ar0 EDX (time1 c) (set_ar0 EAX (time0 c) k)))"

definition stime :: "int kop" where
  "stime k =
     (if u_uid (k_u k) \<noteq> 0 then error EPERM k
      else Ret 0 (k\<lparr>k_clk := (k_clk k)\<lparr>time0 := arg 0 k, time1 := arg 1 k\<rparr>\<rparr>))"

definition sys_time :: "int kop" where
  "sys_time k =
     (let now = time0 (k_clk k); rest = returns now
      in if arg 0 k \<noteq> 0 then suword_or (arg 0 k) now rest k else rest k)"

definition sys_gettimeofday :: "int kop" where
  "sys_gettimeofday k = out_opt (bytes32 (time0 (k_clk k)) @ bytes32 0) (arg 0 k) (returns 0) k"

text \<open>\<^verbatim>\<open>sslep\<close> with \<open>n\<close> rounds to go: a wakeup leads to the next.\<close>

definition sslep_rounds :: "int \<Rightarrow> int kop" where
  "sslep_rounds n = (if n \<le> 0 then okay else kseq (sleep ChUser PSLEP) (stop Spins))"

definition sslep :: "int kop" where
  "sslep k = sslep_rounds (sint (arg 0 k)) k"

definition sleep_until :: "int32_t \<Rightarrow> int kop" where
  "sleep_until target k =
     (if sint (time0 (k_clk k)) < sint target then kseq (sleep (ChProc (me k)) PSLEP) (stop Spins) k
      else returns 0 k)"

definition sys_sleep :: "int kop" where
  "sys_sleep k = sleep_until (time0 (k_clk k) + arg 0 k) k"

definition sys_nanosleep :: "int kop" where
  "sys_nanosleep k = in_or 8 (arg 0 k) (\<lambda>bs. sleep_until (time0 (k_clk k) + word32 bs 0)) k"

end
