(* ===== verification/Sys_Misc.thy ===== *)
theory Sys_Misc
  imports Sys_Proc
begin

text \<open>
  The remaining system calls of \<^verbatim>\<open>kernel/sys.c\<close>: the size of the image (with
  \<^verbatim>\<open>estabur\<close> of \<^verbatim>\<open>kernel/main.c\<close>), signal actions and masks, waiting for several files,
  limits and usage, and the calls that only fail or only succeed.
\<close>

subsection \<open>The size of the image\<close>

definition estabur :: "uint32_t \<Rightarrow> uint32_t \<Rightarrow> uint32_t \<Rightarrow> kernel \<Rightarrow> bool \<times> kernel" where
  "estabur nt nd ns k =
     (if nt + nd + ns + USIZE > maxmem k then (False, set_error ENOMEM k) else (True, k))"

text \<open>The common end of \<^verbatim>\<open>sys_brk\<close> and \<^verbatim>\<open>sys_sbrk\<close>.\<close>

definition set_dsize :: "uint32_t \<Rightarrow> uint32_t \<Rightarrow> int kop" where
  "set_dsize nd r k =
     (case estabur (u_tsize (k_u k)) nd (u_ssize (k_u k)) k of
        (False, k) \<Rightarrow> fails k
      | (True, k) \<Rightarrow> returns r (upd_u (\<lambda>u. u\<lparr>u_dsize := nd\<rparr>) k))"

definition sys_brk :: "int kop" where
  "sys_brk k =
     (let naddr = arg 0 k; ts = u_tsize (k_u k); nd = (naddr + 63) div 64
      in if naddr < ts * 64 \<or> nd < ts then error EINVAL k else set_dsize (nd - ts) 0 k)"

definition sys_sbrk :: "int kop" where
  "sys_sbrk k =
     (let u = k_u k; old = (u_tsize u + u_dsize u) * 64;
          total = int (unat old) + sint (arg 0 k)
      in if total < int (unat (u_tsize u * 64)) then error EINVAL k
         else set_dsize (of_int ((total + 63) div 64) - u_tsize u) old k)"

definition sbreak :: "int kop" where
  "sbreak k = Ret 0 (upd_u (\<lambda>u. u\<lparr>u_dsize := drop_bit 6 (arg 0 k + 63)\<rparr>) k)"

subsection \<open>Memory mapping\<close>

definition mmap_bad :: "uint32_t \<Rightarrow> int32_t \<Rightarrow> int32_t \<Rightarrow> int32_t \<Rightarrow> bool" where
  "mmap_bad len prot flags fd \<longleftrightarrow>
     len = 0 \<or> hasf flags 0x10 \<or> hasf prot (NOT 7) \<or> hasf flags 0x20 \<and> fd \<noteq> - 1"

definition io_args :: "caddr \<Rightarrow> uint32_t \<Rightarrow> int32_t \<Rightarrow> int32_t \<Rightarrow> int8_t \<Rightarrow> kernel \<Rightarrow> kernel" where
  "io_args b c o0 o1 s = upd_u (\<lambda>u. u\<lparr>u_base := b, u_count := c, u_offset0 := o0, u_offset1 := o1, u_segflg := s\<rparr>)"

text \<open>The file's contents are read to the new part of the image; the I/O parameters are saved
  and restored.\<close>

definition mmap_file :: "nat \<Rightarrow> uint32_t \<Rightarrow> int32_t \<Rightarrow> int32_t \<Rightarrow> int kop" where
  "mmap_file fp addr prot flags k =
     (let f = k_file k ! fp; i = f_inode f; t = i_mode (inodep k i) AND IFMT; u = k_u k
      in if t = IFCHR \<or> t = IFBLK then error ENODEV k
         else if hasf prot 2 \<and> \<not> hasf flags 2 \<and> \<not> hasf (f_flag f) FWRITE then error EACCES k
         else kseq (readi i) (\<lambda>k.
             let k1 = io_args (u_base u) (u_count u) (u_offset0 u) (u_offset1 u) (u_segflg u) k
             in if u_error (k_u k1) \<noteq> 0 then fails k1 else returns addr k1)
           (io_args (UAddr addr) (arg 1 k) 0 (arg 5 k) 0 k))"

definition sys_mmap :: "int kop" where
  "sys_mmap k =
     (let len = arg 1 k; prot = arg 2 k; flags = arg 3 k; fd = arg 4 k; u = k_u k;
          n = (len + 63) div 64;
          addr = (if arg 0 k = 0 then (u_tsize u + u_dsize u) * 64 else arg 0 k)
      in if mmap_bad len prot flags fd then error EINVAL k
         else (case estabur (u_tsize u) (u_dsize u + n) (u_ssize u) k of
             (False, k) \<Rightarrow> error ENOMEM k
           | (True, k) \<Rightarrow>
               (let k1 = upd_u (\<lambda>u. u\<lparr>u_dsize := u_dsize u + n\<rparr>) k
                in if fd \<noteq> - 1 \<and> \<not> hasf flags 0x20
                   then with_file 4 (\<lambda>fp. mmap_file fp addr prot flags) k1
                   else returns addr k1)))"

definition sys_munmap :: "int kop" where
  "sys_munmap = returns 0"

definition sys_mprotect :: "int kop" where
  "sys_mprotect k =
     (if arg 1 k = 0 \<or> hasf (arg 2 k) (NOT 7) then error EINVAL k
      else if arg 0 k < u_tsize (k_u k) * 64 then error EFAULT k
      else returns 0 k)"

subsection \<open>Signals\<close>

text \<open>\<^verbatim>\<open>sig > NSIG\<close> lets \<open>NSIG\<close> through, which is one past the end of \<^verbatim>\<open>u_signal\<close>.\<close>

definition put_action :: "nat \<Rightarrow> int kop \<Rightarrow> int kop" where
  "put_action n rest k =
     (let a = arg 2 k; u = k_u k
      in if a = 0 then rest k
         else if n \<ge> NSIG then Stop OutOfBounds k
         else out_or (bytes32 (u_signal u ! n) @ bytes32 0 @ bytes32 0 @ bytes32 (u_sigrest u ! n)) a rest k)"

definition sys_sigaction :: "int kop" where
  "sys_sigaction k =
     (let sig = arg 0 k; n = unat sig
      in if sint sig < 1 \<or> sint sig > int NSIG \<or> sig = of_nat SIGKIL then error EINVAL k
         else put_action n (\<lambda>k.
           if arg 1 k = 0 then returns 0 k
           else in_or 16 (arg 1 k) (\<lambda>bs k.
             if n \<ge> NSIG then Stop OutOfBounds k
             else returns 0 (upd_u (\<lambda>u. u\<lparr>u_signal := (u_signal u)[n := word32 bs 0],
                    u_sigrest := (u_sigrest u)[n := word32 bs 12]\<rparr>) k)) k) k)"

definition new_mask :: "int32_t \<Rightarrow> uint16_t \<Rightarrow> uint16_t \<Rightarrow> uint16_t option" where
  "new_mask how s old =
     (if how = 0 then Some (old OR s) else if how = 1 then Some (old AND NOT s)
      else if how = 2 then Some s else None)"

definition set_mask :: "uint16_t \<Rightarrow> kernel \<Rightarrow> kernel" where
  "set_mask m k = upd_proc (me k) (\<lambda>p. p\<lparr>p_sigmask := m\<rparr>) k"

text \<open>The mask bit of \<^verbatim>\<open>SIGKIL\<close> is cleared.\<close>

definition unmask_kill :: "uint16_t \<Rightarrow> uint16_t" where
  "unmask_kill m = m AND NOT 0x100"

definition sys_sigprocmask :: "int kop" where
  "sys_sigprocmask k =
     (let old = p_sigmask (procp k (me k))
      in out_opt (bytes32 (ucast old)) (arg 2 k) (\<lambda>k.
           if arg 1 k = 0 then returns 0 k
           else in_or 4 (arg 1 k) (\<lambda>bs k.
             case new_mask (arg 0 k) (ucast (word32 bs 0)) old of
               None \<Rightarrow> error EINVAL k
             | Some m \<Rightarrow> returns 0 (set_mask (unmask_kill m) k)) k) k)"

text \<open>\<^verbatim>\<open>sys_sigsuspend\<close> up to its sleep, and after it.\<close>

definition sys_sigsuspend :: "int kop" where
  "sys_sigsuspend k =
     (let sl = (\<lambda>k. kseq (sleep (ChProc (me k)) PSLEP) (stop Spins) k)
      in if arg 0 k = 0 then sl k
         else in_or 4 (arg 0 k) (\<lambda>bs k. sl (set_mask (unmask_kill (ucast (word32 bs 0))) k)) k)"

definition sigsuspend_resumed :: "uint16_t \<Rightarrow> int kop" where
  "sigsuspend_resumed old k = error EINTR (set_mask old k)"

definition sys_pause :: "int kop" where
  "sys_pause k = kseq (sleep (ChProc (me k)) PSLEP) (error EINTR) k"

definition sys_alarm :: "int kop" where
  "sys_alarm = returns 0"

definition pending_mask :: "int8_t \<Rightarrow> uint32_t" where
  "pending_mask s = (if 0 < sint s \<and> sint s \<le> int NSIG then push_bit (nat (sint s - 1)) 1 else 0)"

definition sys_sigpending :: "int kop" where
  "sys_sigpending k = out_opt (bytes32 (pending_mask (p_sig (procp k (me k))))) (arg 0 k) (returns 0) k"

definition sys_sigreturn :: "int kop" where
  "sys_sigreturn k =
     (let sp = u_ar0 (k_u k) ! ESP_SAVE; ip = fuword (sp + 4) k; fl = fuword (sp + 8) k
      in if ip = - 1 \<or> fl = - 1 then error EFAULT k
         else returns 0 (set_ar0 ESP_SAVE (sp + 12) (set_ar0 EFLAGS fl (set_ar0 EIP ip k))))"

subsection \<open>select and poll\<close>

text \<open>\<open>None\<close> is the value -1; \<open>inp\<close> is what the console driver answers.\<close>

definition fd_read_ready :: "bool \<Rightarrow> int32_t \<Rightarrow> kernel \<Rightarrow> bool option \<times> kernel" where
  "fd_read_ready inp fd k =
     (case getf fd k of
        (None, k) \<Rightarrow> (None, k)
      | (Some fp, k) \<Rightarrow>
          (let f = k_file k ! fp; ip = inodep k (f_inode f)
           in (Some (if hasf (f_flag f) FPIPE then i_size1 ip \<noteq> f_offset1 f \<or> sint (i_count ip) < 2
                     else if i_mode ip AND IFMT = IFCHR then inp else True), k)))"

definition fd_write_ready :: "int32_t \<Rightarrow> kernel \<Rightarrow> bool option \<times> kernel" where
  "fd_write_ready fd k =
     (case getf fd k of
        (None, k) \<Rightarrow> (None, k)
      | (Some fp, k) \<Rightarrow>
          (let f = k_file k ! fp
           in (Some (if hasf (f_flag f) FPIPE then i_size1 (inodep k (f_inode f)) < 4096 else True), k)))"

text \<open>One pass over the descriptors: the two result sets, or \<open>None\<close> for a bad descriptor.\<close>

primrec select_scan :: "bool \<Rightarrow> uint32_t \<Rightarrow> uint32_t \<Rightarrow> nat list \<Rightarrow> uint32_t \<times> uint32_t \<Rightarrow> kernel
    \<Rightarrow> (uint32_t \<times> uint32_t) option \<times> kernel" where
  "select_scan inp ir iw [] out k = (Some out, k)"
| "select_scan inp ir iw (fd # fds) out k =
     (let m = push_bit fd 1;
          (r, k) = (if hasf ir m then fd_read_ready inp (of_nat fd) k else (Some False, k))
      in case r of
           None \<Rightarrow> (None, k)
         | Some rb \<Rightarrow>
             (let (w, k) = (if hasf iw m then fd_write_ready (of_nat fd) k else (Some False, k))
              in case w of
                   None \<Rightarrow> (None, k)
                 | Some wb \<Rightarrow> select_scan inp ir iw fds
                     (fst out OR (if rb then m else 0), snd out OR (if wb then m else 0)) k))"

definition count_bits :: "uint32_t \<Rightarrow> nat" where
  "count_bits w = length (filter (bit w) [0..<32])"

definition select_done :: "uint32_t \<times> uint32_t \<Rightarrow> int kop" where
  "select_done out k =
     (let ready = returns (of_nat (count_bits (fst out) + count_bits (snd out)))
      in out_opt (bytes32 (fst out)) (arg 1 k)
           (\<lambda>k. out_opt (bytes32 (snd out)) (arg 2 k) (\<lambda>k. out_opt (bytes32 0) (arg 3 k) ready k) k) k)"

text \<open>A round of the loop; \<open>target\<close> is the time at which to give up, if any.\<close>

definition select_round :: "bool \<Rightarrow> nat \<Rightarrow> uint32_t \<Rightarrow> uint32_t \<Rightarrow> int32_t option \<Rightarrow> int kop" where
  "select_round inp nfds ir iw target k =
     (case select_scan inp ir iw [0..<nfds] (0, 0) k of
        (None, k) \<Rightarrow> error EBADF k
      | (Some out, k) \<Rightarrow>
          if out \<noteq> (0, 0) \<or> (case target of None \<Rightarrow> False | Some t \<Rightarrow> sint (time0 (k_clk k)) \<ge> sint t)
          then select_done out k
          else kseq (sleep (ChProc (me k)) PSLEP) (stop Spins) k)"

text \<open>What it does when it is woken.\<close>

definition select_resumed :: "bool \<Rightarrow> nat \<Rightarrow> uint32_t \<Rightarrow> uint32_t \<Rightarrow> int32_t option \<Rightarrow> int kop" where
  "select_resumed inp nfds ir iw target k =
     (if u_intflg (k_u k) \<noteq> 0 then error EINTR k else select_round inp nfds ir iw target k)"

definition in_opt :: "nat \<Rightarrow> uint32_t \<Rightarrow> (byte list \<Rightarrow> int kop) \<Rightarrow> int kop" where
  "in_opt n a rest = (if a = 0 then rest (replicate n 0) else in_or n a rest)"

definition select_target :: "int32_t \<Rightarrow> byte list \<Rightarrow> int32_t" where
  "select_target now tv = now + word32 tv 0 + (if sint (word32 tv 4) > 0 then 1 else 0)"

definition sys_select :: "bool \<Rightarrow> int kop" where
  "sys_select inp k =
     (let nfds = nat (min (sint (arg 0 k)) 32)
      in in_opt 4 (arg 1 k) (\<lambda>r k. in_opt 4 (arg 2 k) (\<lambda>w k. in_opt 4 (arg 3 k) (\<lambda>e k.
           in_opt 8 (arg 4 k) (\<lambda>tv k.
             select_round inp nfds (word32 r 0) (word32 w 0)
               (if arg 4 k = 0 then None else Some (select_target (time0 (k_clk k)) tv)) k) k) k) k) k)"

text \<open>A \<^verbatim>\<open>struct pollfd\<close> has the descriptor at byte 0, \<^verbatim>\<open>events\<close> at 4, \<^verbatim>\<open>revents\<close> at 6.\<close>

definition poll_one :: "bool \<Rightarrow> int32_t \<Rightarrow> uint16_t \<Rightarrow> kernel \<Rightarrow> uint16_t \<times> kernel" where
  "poll_one inp fd ev k =
     (let (r, k) = (if hasf ev 1 then (case fd_read_ready inp fd k of
              (None, k) \<Rightarrow> (0x20, k) | (Some b, k) \<Rightarrow> (if b then 1 else 0, k)) else (0, k));
          (w, k) = (if hasf ev 4 then (case fd_write_ready fd k of
              (None, k) \<Rightarrow> (0x20, k) | (Some b, k) \<Rightarrow> (if b then 4 else 0, k)) else (0, k))
      in (r OR w, k))"

primrec poll_scan :: "bool \<Rightarrow> uint32_t \<Rightarrow> nat list \<Rightarrow> nat \<Rightarrow> kernel \<Rightarrow> nat option \<times> kernel" where
  "poll_scan inp a [] n k = (Some n, k)"
| "poll_scan inp a (i # is) n k =
     (let at = a + of_nat (8 * i)
      in case get_bytes 8 at k of
           None \<Rightarrow> (None, k)
         | Some bs \<Rightarrow>
             (case poll_one inp (word32 bs 0) (get16 (\<lambda>j. bs ! j) 4) k of (rv, k) \<Rightarrow>
                (case put_bytes (take 6 bs @ bytes16 rv) at k of
                   (False, k) \<Rightarrow> (None, k)
                 | (True, k) \<Rightarrow> poll_scan inp a is (if rv \<noteq> 0 then n + 1 else n) k)))"

definition poll_round :: "bool \<Rightarrow> int32_t \<Rightarrow> int kop" where
  "poll_round inp target k =
     (let timeout = arg 2 k
      in case poll_scan inp (arg 0 k) [0..<unat (arg 1 k)] 0 k of
           (None, k) \<Rightarrow> error EFAULT k
         | (Some ready, k) \<Rightarrow>
             if ready \<noteq> 0 \<or> timeout = 0 \<or> sint timeout > 0 \<and> sint (time0 (k_clk k)) \<ge> sint target
             then returns (of_nat ready) k
             else kseq (sleep (ChProc (me k)) PSLEP) (stop Spins) k)"

definition poll_resumed :: "bool \<Rightarrow> int32_t \<Rightarrow> int kop" where
  "poll_resumed inp target k = (if u_intflg (k_u k) \<noteq> 0 then error EINTR k else poll_round inp target k)"

definition poll_target :: "int32_t \<Rightarrow> int32_t \<Rightarrow> int32_t" where
  "poll_target now timeout =
     (if sint timeout > 0 then now + of_int (sint (timeout + 999) div 1000) else 0)"

definition sys_poll :: "bool \<Rightarrow> int kop" where
  "sys_poll inp k =
     (if sint (arg 1 k) < 0 then error EINVAL k
      else poll_round inp (poll_target (time0 (k_clk k)) (arg 2 k)) k)"

subsection \<open>Limits, usage and the fixed answers\<close>

definition sys_getrlimit :: "int kop" where
  "sys_getrlimit k = out_or (bytes32 0x7FFFFFFF @ bytes32 0x7FFFFFFF) (arg 1 k) okay k"

definition sys_setrlimit :: "int kop" where
  "sys_setrlimit = okay"

definition sys_getrusage :: "int kop" where
  "sys_getrusage k =
     (let u = k_u k
      in out_or (concat (map bytes32 ([0, u_utime u, 0, u_stime u, p_size (procp k (me k))] @ replicate 13 0)))
           (arg 1 k) okay k)"

definition getswit :: "int kop" where
  "getswit = returns 0"

definition profil :: "int kop" where
  "profil k = Ret 0 (upd_u (\<lambda>u. u\<lparr>u_prof := [arg 0 k, arg 1 k, arg 2 k, arg 3 k]\<rparr>) k)"

definition ptrace :: "int kop" where
  "ptrace = error EINVAL"

definition stty :: "int kop" where
  "stty = okay"

definition gtty :: "int kop" where
  "gtty = okay"

definition sys_enosys :: "int kop" where
  "sys_enosys = error ENOSYS"

definition sys_ok :: "int kop" where
  "sys_ok = returns 0"

end
