(* ===== verification/Exec.thy ===== *)
theory Exec
  imports Sys_Misc
begin

text \<open>
  \<^verbatim>\<open>exec\<close> of \<^verbatim>\<open>kernel/sys.c\<close>, in the order of its steps: the path name is copied to the
  kernel's stack, the arguments to a buffer, the header of the file is read and checked, the
  image is sized and loaded, the arguments are laid out on the new stack, and the process's
  identities, signals, files and registers are set.  \<open>junk\<close> is the stack memory \<^verbatim>\<open>header\<close>
  occupies before it is read.
\<close>

subsection \<open>Path name and arguments\<close>

text \<open>At most 63 bytes of the path, and whether all of them could be fetched.\<close>

primrec path_bytes :: "nat \<Rightarrow> uint32_t \<Rightarrow> kernel \<Rightarrow> byte list \<times> bool" where
  "path_bytes 0 a k = ([], True)"
| "path_bytes (Suc n) a k =
     (let c = fubyte (UAddr a) k
      in if c < 0 then ([], False)
         else if c = 0 then ([0], True)
         else (case path_bytes n (a + 1) k of (bs, ok) \<Rightarrow> (of_int c # bs, ok)))"

definition kpath :: "byte list \<Rightarrow> block" where
  "kpath bs = (\<lambda>i. if i < length bs then bs ! i else 0)"

text \<open>One argument into the buffer, at byte \<open>502 - left\<close>: \<open>None\<close> is \<^verbatim>\<open>goto bad\<close>.\<close>

fun copy_arg :: "nat \<Rightarrow> bptr \<Rightarrow> uint32_t \<Rightarrow> kernel \<Rightarrow> nat option \<times> kernel" where
  "copy_arg left bp ap k =
     (let c = fubyte (UAddr ap) k
      in if c < 0 then (None, k)
         else
           (let k1 = upd_sb bp (\<lambda>b. b(502 - left := of_int c)) k
            in case left of
                 0 \<Rightarrow> (None, set_error E2BIG k1)
               | Suc m \<Rightarrow> if c = 0 then (Some m, k1) else copy_arg m bp (ap + 1) k1))"

text \<open>All arguments; every one takes at least a byte, so fuel \<open>BSIZE\<close> is enough.  The value is
  \<open>na\<close> and what is left of the buffer.\<close>

fun copy_args :: "nat \<Rightarrow> bptr \<Rightarrow> nat \<Rightarrow> nat \<Rightarrow> (nat \<times> nat) option kop" where
  "copy_args n bp na left k =
     (let ap = fuword (arg 1 k) k
      in if ap = 0 then Ret (Some (na, left)) k
         else if ap = - 1 then Ret None (set_error EFAULT k)
         else (case copy_arg left bp ap (set_arg 1 (arg 1 k + 4) k) of
             (None, k) \<Rightarrow> Ret None k
           | (Some m, k) \<Rightarrow> (case n of 0 \<Rightarrow> Stop Spins k | Suc n \<Rightarrow> copy_args n bp (na + 1) m k)))"

text \<open>The bytes gathered, made even.\<close>

definition arg_size :: "nat \<Rightarrow> nat" where
  "arg_size left = (let nc = 502 - left in if odd nc then nc + 1 else nc)"

definition pad_args :: "bptr \<Rightarrow> nat \<Rightarrow> kernel \<Rightarrow> kernel" where
  "pad_args bp left k = (let nc = 502 - left in if odd nc then upd_sb bp (\<lambda>b. b(nc := 0)) k else k)"

subsection \<open>The header\<close>

record exechdr =
  x_raw :: bool
  x_sep :: bool
  x_text :: int32_t
  x_data :: int32_t
  x_bss :: int32_t

text \<open>\<open>None\<close> is \<^verbatim>\<open>ENOEXEC\<close>.\<close>

definition header_of :: "block \<Rightarrow> uint32_t \<Rightarrow> exechdr option" where
  "header_of b fsize =
     (let h = (\<lambda>i. get32 b (4 * i))
      in if h 0 = 0x107 then Some \<lparr>x_raw = False, x_sep = False, x_text = 0, x_data = h 2 + h 1, x_bss = h 3\<rparr>
         else if h 0 = 0x109 then Some \<lparr>x_raw = False, x_sep = True, x_text = h 1, x_data = h 2, x_bss = h 3\<rparr>
         else if h 0 = 0x108 then Some \<lparr>x_raw = False, x_sep = False, x_text = h 1, x_data = h 2, x_bss = h 3\<rparr>
         else if fsize = 0 then None
         else Some \<lparr>x_raw = True, x_sep = False, x_text = 0, x_data = fsize, x_bss = 0\<rparr>)"

definition text_units :: "exechdr \<Rightarrow> int32_t" where
  "text_units h = signed_drop_bit 6 (x_text h + 63)"

definition data_units :: "exechdr \<Rightarrow> int32_t" where
  "data_units h = signed_drop_bit 6 (x_data h + x_bss h + 63)"

abbreviation (input) SSIZE :: uint32_t where "SSIZE \<equiv> 20"

subsection \<open>Ends\<close>

definition exec_leave :: "bptr option \<Rightarrow> nat \<Rightarrow> unit kop" where
  "exec_leave bp i k =
     kseq (iput i) (\<lambda>k.
       let k1 = (if sint (execnt k) \<ge> NEXEC then wakeup ChExecnt k else k)
       in Ret () (k1\<lparr>execnt := execnt k1 - 1\<rparr>))
       (case bp of None \<Rightarrow> k | Some b \<Rightarrow> brelse b k)"

definition bad :: "bptr option \<Rightarrow> nat \<Rightarrow> int kop" where
  "bad bp i = kseq (exec_leave bp i) fails"

definition bad_with :: "int8_t \<Rightarrow> bptr option \<Rightarrow> nat \<Rightarrow> int kop" where
  "bad_with e bp i = kseq (act (set_error e)) (bad bp i)"

subsection \<open>The new stack\<close>

text \<open>One string from byte \<open>cp\<close> of the buffer to address \<open>sp\<close>, its end included.  A string ends
  within the buffer's 512 bytes, which is the fuel.\<close>

fun push_string :: "nat \<Rightarrow> bptr \<Rightarrow> nat \<Rightarrow> uint32_t \<Rightarrow> kernel \<Rightarrow> (nat \<times> uint32_t) option \<times> kernel" where
  "push_string n bp cp sp k =
     (let c = b_addr (bufp k bp) cp
      in case subyte (UAddr sp) c k of
           (False, k) \<Rightarrow> (None, k)
         | (True, k) \<Rightarrow>
             (if c = 0 then (Some (cp + 1, sp + 1), k)
              else (case n of 0 \<Rightarrow> (None, k) | Suc m \<Rightarrow> push_string m bp (cp + 1) (sp + 1) k)))"

primrec push_args :: "nat \<Rightarrow> bptr \<Rightarrow> nat \<Rightarrow> uint32_t \<Rightarrow> uint32_t \<Rightarrow> kernel \<Rightarrow> uint32_t option \<times> kernel" where
  "push_args 0 bp cp argp strp k = (Some argp, k)"
| "push_args (Suc na) bp cp argp strp k =
     (case suword argp strp k of
        (False, k) \<Rightarrow> (None, k)
      | (True, k) \<Rightarrow>
          (case push_string BSIZE bp cp strp k of
             (None, k) \<Rightarrow> (None, k)
           | (Some (cp, strp), k) \<Rightarrow> push_args na bp cp (argp + 4) strp k))"

primrec push_zeros :: "nat \<Rightarrow> uint32_t \<Rightarrow> kernel \<Rightarrow> bool \<times> kernel" where
  "push_zeros 0 a k = (True, k)"
| "push_zeros (Suc n) a k = (case suword a 0 k of (False, k) \<Rightarrow> (False, k) | (True, k) \<Rightarrow> push_zeros n (a + 4) k)"

text \<open>The address of the new stack's top, \<open>None\<close> when it cannot be built.\<close>

definition stack_pointer :: "uint32_t \<Rightarrow> nat \<Rightarrow> nat \<Rightarrow> uint32_t option" where
  "stack_pointer tp nc na =
     (let needed = of_nat nc + of_nat na * 4 + 20
      in if needed > tp then None else Some ((tp - needed) AND NOT 0xF))"

definition build_stack :: "bptr \<Rightarrow> nat \<Rightarrow> uint32_t \<Rightarrow> kernel \<Rightarrow> bool \<times> kernel" where
  "build_stack bp na ap k =
     (case suword ap (of_nat na) (set_ar0 EIP 0 (set_ar0 17 ap k)) of
        (False, k) \<Rightarrow> (False, k)
      | (True, k) \<Rightarrow>
          (case push_args na bp 0 (ap + 4) (ap + 4 + of_nat na * 4 + 16) k of
             (None, k) \<Rightarrow> (False, k)
           | (Some argp, k) \<Rightarrow> push_zeros 4 argp k))"

subsection \<open>Taking over\<close>

definition set_ids :: "nat \<Rightarrow> kernel \<Rightarrow> kernel" where
  "set_ids i k =
     (if hasf (p_flag (procp k (me k))) STRC then k
      else
        (let ip = inodep k i;
             k1 = (if hasf (i_mode ip) ISUID \<and> u_uid (k_u k) \<noteq> 0
                   then upd_proc (me k) (\<lambda>p. p\<lparr>p_uid := ucast (i_uid ip)\<rparr>)
                     (upd_u (\<lambda>u. u\<lparr>u_uid := ucast (i_uid ip)\<rparr>) k) else k)
         in if hasf (i_mode ip) ISGID then upd_u (\<lambda>u. u\<lparr>u_gid := ucast (i_gid ip)\<rparr>) k1 else k1))"

definition reset_signals :: "user \<Rightarrow> user" where
  "reset_signals u = u\<lparr>u_signal := map (\<lambda>s. if s AND 1 = 0 then 0 else s) (u_signal u),
     u_sigrest := map (\<lambda>(s, r). if s AND 1 = 0 then 0 else r) (zip (u_signal u) (u_sigrest u))\<rparr>"

definition exec_close :: "nat \<Rightarrow> unit kop" where
  "exec_close i k =
     (case u_ofile (k_u k) ! i of
        None \<Rightarrow> Ret () k
      | Some fp \<Rightarrow>
          if hasf (u_fdflags (k_u k) ! i) 1
          then kseq (closef fp) (act (upd_u (\<lambda>u. u\<lparr>u_ofile := (u_ofile u)[i := None],
                 u_fdflags := (u_fdflags u)[i := 0]\<rparr>))) k
          else Ret () k)"

text \<open>\<^verbatim>\<open>UESP\<close>, \<^verbatim>\<open>EIP\<close>, \<^verbatim>\<open>EAX\<close>, the selectors \<^verbatim>\<open>CS, USS, DS, ES, FS, GS\<close> and the flags.\<close>

definition exec_regs :: "uint32_t \<Rightarrow> user \<Rightarrow> user" where
  "exec_regs sp u =
     (let r = (u_ar0 u)[17 := sp, 14 := 0, 11 := 0, 15 := 0x1B, 18 := 0x23, 3 := 0x23, 2 := 0x23, 1 := 0x23, 0 := 0x23]
      in u\<lparr>u_ar0 := r[16 := (r ! 16 OR 0x200) AND NOT 0x100]\<rparr>)"

definition exec_commit :: "bptr \<Rightarrow> nat \<Rightarrow> uint32_t \<Rightarrow> int kop" where
  "exec_commit bp i sp k =
     kseq (each exec_close [0..<NOFILE]) (\<lambda>k.
       kseq (exec_leave (Some bp) i) (\<lambda>k. Ret 0 (upd_u (exec_regs sp) k)) (update_pos (me k) k))
       (upd_u reset_signals (set_ids i k))"

subsection \<open>Loading\<close>

definition exec_stack :: "bptr \<Rightarrow> nat \<Rightarrow> nat \<Rightarrow> nat \<Rightarrow> uint32_t \<Rightarrow> int kop" where
  "exec_stack bp i na nc ds k =
     (case stack_pointer ((ds + SSIZE) * 64) nc na of
        None \<Rightarrow> bad_with E2BIG (Some bp) i k
      | Some sp \<Rightarrow>
          (case build_stack bp na sp k of
             (False, k) \<Rightarrow> bad_with EFAULT (Some bp) i k
           | (True, k) \<Rightarrow> exec_commit bp i sp k))"

text \<open>The results of \<^verbatim>\<open>xalloc\<close>, of both \<^verbatim>\<open>expand\<close>s and of the later \<^verbatim>\<open>estabur\<close>s are not
  looked at; what they leave in \<^verbatim>\<open>u_error\<close> is, after the data have been read.\<close>

definition exec_image :: "nat \<Rightarrow> exechdr \<Rightarrow> unit kop" where
  "exec_image i h k =
     (let ds = data_units h
      in kseq exit_text (kseq (expand USIZE) (\<lambda>k.
           kseq (expand (USIZE + ds + SSIZE)) (\<lambda>k.
             readi i (upd_u (\<lambda>u. u\<lparr>u_base := UAddr 0, u_offset1 := (if x_raw h then 0 else 16 + x_text h),
                 u_count := x_data h\<rparr>) (snd (estabur 0 ds 0 k))))
             (if \<not> x_raw h \<and> x_text h \<noteq> 0 then snd (xalloc i k) else k)))
           (upd_u (\<lambda>u. u\<lparr>u_prof := (u_prof u)[3 := 0]\<rparr>) k))"

definition exec_load :: "bptr \<Rightarrow> nat \<Rightarrow> nat \<Rightarrow> nat \<Rightarrow> exechdr \<Rightarrow> int kop" where
  "exec_load bp i na nc h k =
     (let ts = text_units h; ds = data_units h
      in if x_text h \<noteq> 0 \<and> \<not> hasf (i_flag (inodep k i)) ITEXT \<and> i_count (inodep k i) \<noteq> 1
         then bad_with ETXTBSY (Some bp) i k
         else (case estabur ts ds SSIZE k of
             (False, k) \<Rightarrow> bad (Some bp) i k
           | (True, k) \<Rightarrow>
               kseq (exec_image i h) (\<lambda>k.
                 if u_error (k_u k) \<noteq> 0 then bad (Some bp) i k
                 else exec_stack bp i na nc ds
                   (snd (estabur ts ds SSIZE
                     (upd_u (\<lambda>u. u\<lparr>u_tsize := ts, u_dsize := ds, u_ssize := SSIZE, u_sep := (if x_sep h then 1 else 0)\<rparr>) k)))) k))"

definition exec_header :: "block \<Rightarrow> bptr \<Rightarrow> nat \<Rightarrow> nat \<Rightarrow> nat \<Rightarrow> int kop" where
  "exec_header junk bp i na nc k =
     kseq (readi i) (\<lambda>k.
       let k1 = upd_u (\<lambda>u. u\<lparr>u_segflg := 0\<rparr>) k
       in if u_error (k_u k1) \<noteq> 0 then bad (Some bp) i k1
          else (case header_of (klocal k1) (isize (inodep k1 i)) of
              None \<Rightarrow> bad_with ENOEXEC (Some bp) i k1
            | Some h \<Rightarrow> exec_load bp i na nc h k1))
       (upd_u (\<lambda>u. u\<lparr>u_base := KLocal 0, u_count := 16, u_offset0 := 0, u_offset1 := 0, u_segflg := 1\<rparr>)
         (k\<lparr>klocal := junk\<rparr>))"

text \<open>From the count of running \<^verbatim>\<open>exec\<close>s on, with the inode \<open>i\<close> of the file.\<close>

definition exec_file :: "block \<Rightarrow> nat \<Rightarrow> int kop" where
  "exec_file junk i k =
     (if sint (execnt k) \<ge> NEXEC then kseq (sleep ChExecnt (- 1)) (stop Spins) k
      else
        (case access i IEXEC (k\<lparr>execnt := execnt k + 1\<rparr>) of
           (True, k) \<Rightarrow> bad_with EACCES None i k
         | (False, k) \<Rightarrow>
             if i_mode (inodep k i) AND IFMT \<noteq> IFREG then bad_with ENOEXEC None i k
             else kbind (getblk NODEV 0) (\<lambda>bp.
               kbind (copy_args BSIZE bp 0 502) (\<lambda>r. case r of
                   None \<Rightarrow> bad (Some bp) i
                 | Some (na, left) \<Rightarrow>
                     (\<lambda>k. exec_header junk bp i na (arg_size left) (pad_args bp left k)))) k))"

definition exec :: "block \<Rightarrow> int kop" where
  "exec junk k =
     (case path_bytes 63 (arg 0 k) k of (bs, ok) \<Rightarrow>
        if \<not> ok then error EFAULT (upd_u (\<lambda>u. u\<lparr>u_dirp := UAddr (u_arg u ! 0 + of_nat (length bs) + 1)\<rparr>) k)
        else kbind (namei schar 0) (\<lambda>r. case r of
              None \<Rightarrow> (\<lambda>k. fails (if u_error (k_u k) = 0 then set_error ENOENT k else k))
            | Some i \<Rightarrow> exec_file junk i)
            (upd_u (\<lambda>u. u\<lparr>u_dirp := KLocal 0\<rparr>) (k\<lparr>klocal := kpath bs\<rparr>)))"

declare copy_arg.simps [simp del] copy_args.simps [simp del] push_string.simps [simp del]

end
