(* ===== verification/Sys_Stubs.thy ===== *)
theory Sys_Stubs
  imports Sys_Misc
begin

text \<open>
  The calls of \<^verbatim>\<open>kernel/sys.c\<close> that exist so that a C library finds them: each sets
  \<^verbatim>\<open>ENOSYS\<close>, but for \<^verbatim>\<open>sys_set_tid_address\<close>, which succeeds.
\<close>

definition sys_futex_time64 :: "int kop" where "sys_futex_time64 = error ENOSYS"
definition sys_rt_sigqueueinfo :: "int kop" where "sys_rt_sigqueueinfo = error ENOSYS"
definition sys_sched_getaffinity :: "int kop" where "sys_sched_getaffinity = error ENOSYS"
definition sys_msgget :: "int kop" where "sys_msgget = error ENOSYS"
definition sys_msgctl :: "int kop" where "sys_msgctl = error ENOSYS"
definition sys_msgsnd :: "int kop" where "sys_msgsnd = error ENOSYS"
definition sys_msgrcv :: "int kop" where "sys_msgrcv = error ENOSYS"
definition sys_semget :: "int kop" where "sys_semget = error ENOSYS"
definition sys_semctl :: "int kop" where "sys_semctl = error ENOSYS"
definition sys_semop :: "int kop" where "sys_semop = error ENOSYS"
definition sys_capget :: "int kop" where "sys_capget = error ENOSYS"
definition sys_capset :: "int kop" where "sys_capset = error ENOSYS"
definition sys_chroot :: "int kop" where "sys_chroot = error ENOSYS"
definition sys_clock_adjtime64 :: "int kop" where "sys_clock_adjtime64 = error ENOSYS"
definition sys_shmget :: "int kop" where "sys_shmget = error ENOSYS"
definition sys_shmctl :: "int kop" where "sys_shmctl = error ENOSYS"
definition sys_shmat :: "int kop" where "sys_shmat = error ENOSYS"
definition sys_shmdt :: "int kop" where "sys_shmdt = error ENOSYS"
definition sys_copy_file_range :: "int kop" where "sys_copy_file_range = error ENOSYS"
definition sys_epoll_create1 :: "int kop" where "sys_epoll_create1 = error ENOSYS"
definition sys_epoll_ctl :: "int kop" where "sys_epoll_ctl = error ENOSYS"
definition sys_epoll_pwait :: "int kop" where "sys_epoll_pwait = error ENOSYS"
definition sys_getdents :: "int kop" where "sys_getdents = error ENOSYS"
definition sys_getitimer :: "int kop" where "sys_getitimer = error ENOSYS"
definition sys_rt_sigprocmask :: "int kop" where "sys_rt_sigprocmask = error ENOSYS"
definition sys_set_tid_address :: "int kop" where "sys_set_tid_address = returns 0"
definition sys_eventfd2 :: "int kop" where "sys_eventfd2 = error ENOSYS"
definition sys_flock :: "int kop" where "sys_flock = error ENOSYS"
definition sys_fanotify_init :: "int kop" where "sys_fanotify_init = error ENOSYS"
definition sys_fanotify_mark :: "int kop" where "sys_fanotify_mark = error ENOSYS"
definition sys_fallocate :: "int kop" where "sys_fallocate = error ENOSYS"
definition sys_rt_sigaction :: "int kop" where "sys_rt_sigaction = error ENOSYS"
definition sys_tkill :: "int kop" where "sys_tkill = error ENOSYS"
definition sys_exit_group :: "int kop" where "sys_exit_group = error ENOSYS"
definition sys_fadvise :: "int kop" where "sys_fadvise = error ENOSYS"
definition sys_openat :: "int kop" where "sys_openat = error ENOSYS"
definition sys_getrandom :: "int kop" where "sys_getrandom = error ENOSYS"
definition sys_inotify_init1 :: "int kop" where "sys_inotify_init1 = error ENOSYS"
definition sys_inotify_add_watch :: "int kop" where "sys_inotify_add_watch = error ENOSYS"
definition sys_inotify_rm_watch :: "int kop" where "sys_inotify_rm_watch = error ENOSYS"
definition sys_getpriority :: "int kop" where "sys_getpriority = error ENOSYS"
definition sys_getresgid :: "int kop" where "sys_getresgid = error ENOSYS"
definition sys_setitimer :: "int kop" where "sys_setitimer = error ENOSYS"
definition sys_waitid :: "int kop" where "sys_waitid = error ENOSYS"
definition sys_syslog :: "int kop" where "sys_syslog = error ENOSYS"
definition sys_memfd_create :: "int kop" where "sys_memfd_create = error ENOSYS"
definition sys_mlock2 :: "int kop" where "sys_mlock2 = error ENOSYS"
definition sys_membarrier :: "int kop" where "sys_membarrier = error ENOSYS"
definition sys_init_module :: "int kop" where "sys_init_module = error ENOSYS"
definition sys_delete_module :: "int kop" where "sys_delete_module = error ENOSYS"
definition sys_mount2 :: "int kop" where "sys_mount2 = error ENOSYS"
definition sys_umount2 :: "int kop" where "sys_umount2 = error ENOSYS"
definition sys_name_to_handle_at :: "int kop" where "sys_name_to_handle_at = error ENOSYS"
definition sys_open_by_handle_at :: "int kop" where "sys_open_by_handle_at = error ENOSYS"

lemmas stub_defs =
  sys_futex_time64_def sys_rt_sigqueueinfo_def sys_sched_getaffinity_def sys_msgget_def sys_msgctl_def
  sys_msgsnd_def sys_msgrcv_def sys_semget_def sys_semctl_def sys_semop_def sys_capget_def sys_capset_def
  sys_chroot_def sys_clock_adjtime64_def sys_shmget_def sys_shmctl_def sys_shmat_def sys_shmdt_def
  sys_copy_file_range_def sys_epoll_create1_def sys_epoll_ctl_def sys_epoll_pwait_def sys_getdents_def
  sys_getitimer_def sys_rt_sigprocmask_def sys_set_tid_address_def sys_eventfd2_def sys_flock_def
  sys_fanotify_init_def sys_fanotify_mark_def sys_fallocate_def sys_rt_sigaction_def sys_tkill_def
  sys_exit_group_def sys_fadvise_def sys_openat_def sys_getrandom_def sys_inotify_init1_def
  sys_inotify_add_watch_def sys_inotify_rm_watch_def sys_getpriority_def sys_getresgid_def sys_setitimer_def
  sys_waitid_def sys_syslog_def sys_memfd_create_def sys_mlock2_def sys_membarrier_def sys_init_module_def
  sys_delete_module_def sys_mount2_def sys_umount2_def sys_name_to_handle_at_def sys_open_by_handle_at_def

end
