(* ===== verification/Trap.thy ===== *)
theory Trap
  imports Exec Sys_Stubs
begin

text \<open>
  \<^verbatim>\<open>psig\<close> and \<^verbatim>\<open>core\<close> of \<^verbatim>\<open>kernel/sig.c\<close>, the system call table of
  \<^verbatim>\<open>kernel/sysent.c\<close> and the system call part of \<^verbatim>\<open>kernel/trap.c\<close>.  What lies outside the
  model is collected in the record \<open>outside\<close>: the number of character devices, the console's
  answer, uninitialised stack bytes, and the handlers of the calls on drivers.
\<close>

subsection \<open>Acting on a signal\<close>

definition core_writable :: "nat \<Rightarrow> kernel \<Rightarrow> bool \<times> kernel" where
  "core_writable i k =
     (if i_mode (inodep k i) AND IFMT \<noteq> 0 then (False, k)
      else (case access i IWRITE k of
          (True, k) \<Rightarrow> (False, k)
        | (False, k) \<Rightarrow> (\<not> hasf (i_mode (inodep k i)) ISUID \<and> \<not> hasf (i_mode (inodep k i)) ISGID, k)))"

text \<open>\<open>usize\<close> and \<open>img\<close> are the size and the bytes of \<^verbatim>\<open>struct user\<close>.\<close>

definition core_write :: "nat \<Rightarrow> block \<Rightarrow> nat \<Rightarrow> bool kop" where
  "core_write usize img i k =
     (case core_writable i k of
        (False, k) \<Rightarrow> kseq (iput i) (ret False) k
      | (True, k) \<Rightarrow>
          kseq (itrunc i) (\<lambda>k.
            kseq (writei i) (kseq (iput i) (\<lambda>k. Ret (u_error (k_u k) = 0) k))
              (upd_u (\<lambda>u. u\<lparr>u_offset0 := 0, u_offset1 := 0, u_base := KLocal 0, u_count := of_nat usize, u_segflg := 1\<rparr>)
                (k\<lparr>klocal := img\<rparr>))) k)"

definition core_name :: "byte list" where
  "core_name = [99, 111, 114, 101]"

definition core :: "nat \<Rightarrow> block \<Rightarrow> bool kop" where
  "core usize img k =
     kbind (namei schar 1) (\<lambda>r. case r of
         Some i \<Rightarrow> core_write usize img i
       | None \<Rightarrow> (\<lambda>k.
           if u_error (k_u k) \<noteq> 0 then Ret False k
           else kbind (maknode 0x1B6) (\<lambda>r. case r of None \<Rightarrow> ret False | Some i \<Rightarrow> core_write usize img i) k))
       (upd_u (\<lambda>u. u\<lparr>u_error := 0, u_dirp := KLocal 0\<rparr>) (k\<lparr>klocal := kpath core_name\<rparr>))"

definition dumps_core :: "nat \<Rightarrow> bool" where
  "dumps_core n \<longleftrightarrow> n \<in> {3, 4, 5, 6, 7, 8, 10, 11, 12}"

text \<open>The frame built for a handler.\<close>

definition sig_frame :: "nat \<Rightarrow> uint32_t \<Rightarrow> kernel \<Rightarrow> kernel" where
  "sig_frame n p k =
     (let u = k_u k; ar0 = u_ar0 u; sp = ar0 ! ESP_SAVE - 12;
          k1 = snd (suword sp (u_sigrest u ! n) k);
          k2 = snd (suword (sp + 4) (ar0 ! EIP) k1);
          k3 = snd (suword (sp + 8) (ar0 ! EFLAGS) k2)
      in set_ar0 EIP p (set_ar0 EFLAGS (ar0 ! EFLAGS AND NOT 0x100) (set_ar0 ESP_SAVE sp k3)))"

definition psig_handler :: "nat \<Rightarrow> uint32_t \<Rightarrow> kernel \<Rightarrow> kernel" where
  "psig_handler n p k =
     sig_frame n p (upd_u (\<lambda>u. u\<lparr>u_error := 0,
       u_signal := (if n \<noteq> SIGINS \<and> n \<noteq> SIGTRC then (u_signal u)[n := 0] else u_signal u)\<rparr>) k)"

definition psig_default :: "nat \<Rightarrow> block \<Rightarrow> nat \<Rightarrow> unit kop" where
  "psig_default usize img n =
     kbind (if dumps_core n then kbind (\<lambda>k. core usize img (set_arg 0 (of_nat n) k)) (\<lambda>d. ret (if d then n + 128 else n))
            else ret n)
       (\<lambda>n k. exit_proc (set_arg 0 (push_bit 8 (u_ar0 (k_u k) ! EAX) OR of_nat n) k))"

definition psig :: "nat \<Rightarrow> block \<Rightarrow> unit kop" where
  "psig usize img k =
     (let n = nat (sint (p_sig (procp k (me k)))); p = u_signal (k_u k) ! n;
          k1 = upd_proc (me k) (\<lambda>p. p\<lparr>p_sig := 0\<rparr>) k
      in if p \<noteq> 0 then Ret () (psig_handler n p k1) else psig_default usize img n k1)"

subsection \<open>The system call table\<close>

record outside =
  nchrdev_of :: nat
  console_input :: bool
  exec_junk :: block
  pad_byte :: byte
  pad_bytes :: "byte \<times> byte"
  driver_call :: "nat \<Rightarrow> int kop"
  user_size :: nat
  user_image :: block

definition kill_call :: "int kop" where
  "kill_call k = (case kill k of (r, k) \<Rightarrow> Ret r k)"

definition ssig_call :: "int kop" where
  "ssig_call k = (case ssig k of (r, k) \<Rightarrow> Ret r k)"

definition nosys :: "int kop" where
  "nosys = error EINVAL"

definition nullsys :: "int kop" where
  "nullsys = okay"

definition syspipe_call :: "int kop" where
  "syspipe_call = kbind syspipe (\<lambda>ok. ret (if ok then 0 else - 1))"

text \<open>\<^verbatim>\<open>sysent[0..49]\<close>, \<^verbatim>\<open>[50..105]\<close>, the names a C library expects up to 159, and the rest, which
  fail except for one more \<^verbatim>\<open>fork\<close> and one call that succeeds.  39 and 79 to 82 are calls on drivers.\<close>

definition sysent_v6 :: "outside \<Rightarrow> int kop list" where
  "sysent_v6 x = [nullsys, rexit, fork, sysread (console_input x), syswrite, sysopen (nchrdev_of x),
     sysclose, syswait, creat (nchrdev_of x), link, unlink, exec (exec_junk x), chdir, gtime, mknod, chmod,
     chown, sbreak, stat (pad_byte x) (pad_bytes x), seek, getpid, smount, sumount, setuid, getuid, stime,
     ptrace, nosys, fstat (pad_byte x) (pad_bytes x), nosys, nullsys, stty, gtty, nosys, nice, sslep, sync,
     kill_call, getswit, driver_call x 39, nosys, dup, syspipe_call, times, profil, nosys, setgid, getgid,
     ssig_call, getcwd]"

definition sysent_new :: "outside \<Rightarrow> int kop list" where
  "sysent_new x = [sys_exit, sys_truncate, ftruncate, fsync, utime, sys_pipe, sys_dup, sys_dup2,
     sys_stat (pad_bytes x), sys_fstat (pad_bytes x), sys_lstat (pad_bytes x), sys_link, sys_unlink,
     sys_rename, sys_mkdir, sys_rmdir, sys_chmod, sys_umask, sys_brk, sys_sbrk, sys_sigaction,
     sys_sigprocmask, sys_sigsuspend, sys_alarm, sys_pause, sys_time, sys_gettimeofday, sys_sleep,
     sys_nanosleep, driver_call x 79, driver_call x 80, driver_call x 81, driver_call x 82,
     sys_select (console_input x), sys_poll (console_input x), sys_getpgid, sys_setpgid, sys_getsid,
     sys_setsid, sys_mmap, sys_munmap, sys_getrlimit, sys_setrlimit, sys_getrusage, sys_chown2, sys_lchown,
     sys_fchown, sys_fchmod, sys_utimes, sys_fcntl, sys_access, sys_waitpid, sys_isatty, sys_sigpending,
     sys_sigreturn, sys_mprotect]"

definition sysent_musl :: "int kop list" where
  "sysent_musl = [
     sys_futex_time64, sys_rt_sigqueueinfo, sys_sched_getaffinity, sys_msgget, sys_msgctl, sys_msgsnd,
     sys_msgrcv, sys_semget, sys_semctl, sys_semop, sys_capget, sys_capset, sys_chroot, sys_clock_adjtime64,
     sys_shmget, sys_shmctl, sys_shmat, sys_ok, sys_copy_file_range, sys_epoll_create1, sys_epoll_ctl,
     sys_epoll_pwait, sys_getdents, sys_getitimer, sys_rt_sigprocmask, sys_set_tid_address, sys_eventfd2,
     sys_flock, sys_fanotify_init, sys_fanotify_mark, sys_fallocate, sys_rt_sigaction, sys_tkill,
     sys_exit_group, sys_fadvise, sys_openat, sys_getrandom, sys_inotify_init1, sys_inotify_add_watch,
     sys_inotify_rm_watch, sys_getpriority, sys_getresgid, sys_setitimer, sys_waitid, sys_syslog,
     sys_memfd_create, sys_mlock2, sys_membarrier, sys_init_module, sys_delete_module, sys_mount2,
     sys_umount2, sys_name_to_handle_at, sys_open_by_handle_at]"

definition sysent_rest :: "int kop list" where
  "sysent_rest = replicate 31 sys_enosys @ [fork] @ replicate 51 sys_enosys @ [sys_ok] @ replicate 47 sys_enosys"

definition sysent_tail :: "int kop list" where
  "sysent_tail = replicate 126 sys_enosys"

definition sysent :: "outside \<Rightarrow> nat \<Rightarrow> int kop" where
  "sysent x n =
     (if n < 50 then sysent_v6 x ! n else if n < 106 then sysent_new x ! (n - 50)
      else if n < 160 then sysent_musl ! (n - 106)
      else if n < 291 then sysent_rest ! (n - 160) else sysent_tail ! (n - 291))"

abbreviation (input) nsysent :: nat where "nsysent \<equiv> 417"

subsection \<open>trap, at vector 0x80\<close>

text \<open>\<^verbatim>\<open>u.u_ar0 = frame\<close>: the saved registers are \<open>u_ar0\<close>.\<close>

definition load_args :: "kernel \<Rightarrow> kernel" where
  "load_args k =
     (let r = u_ar0 (k_u k)
      in upd_u (\<lambda>u. u\<lparr>u_arg := [r ! 8, r ! 10, r ! 9, r ! 5, r ! 4, fuword (r ! 17) k]\<rparr>) k)"

definition trap_error :: "kernel \<Rightarrow> kernel" where
  "trap_error k =
     (let e = u_error (k_u k); fl = u_ar0 (k_u k) ! EFLAGS
      in set_ar0 EAX (scast e) (set_ar0 EFLAGS (fl OR 1) k))"

text \<open>After the handler has returned.\<close>

definition trap_result :: "kernel \<Rightarrow> kernel" where
  "trap_result k =
     (let k = (if u_intflg (k_u k) \<noteq> 0 then set_error EINTR k else k)
      in if u_error (k_u k) \<noteq> 0 then trap_error k
         else set_ar0 EFLAGS (u_ar0 (k_u k) ! EFLAGS AND NOT 1) k)"

definition trap_call :: "outside \<Rightarrow> unit kop" where
  "trap_call x k =
     (let k0 = set_error 0 k; n = u_ar0 (k_u k) ! EAX
      in if sint n < 0 \<or> sint n \<ge> int nsysent then Ret () (trap_error (set_error EINVAL k0))
         else kbind (sysent x (unat n)) (\<lambda>_. act trap_result) (load_args k0))"

text \<open>The way back to the user: another process first when \<^verbatim>\<open>runrun\<close> is set, then a signal.\<close>

definition trap_return :: "outside \<Rightarrow> unit kop" where
  "trap_return x = kbind issig (\<lambda>n. if n \<noteq> 0 then psig (user_size x) (user_image x) else ret ())"

definition trap_syscall :: "outside \<Rightarrow> unit kop" where
  "trap_syscall x = kseq (trap_call x)
     (kseq (\<lambda>k. if runrun (k_sch k) \<noteq> 0 then swtch k else Ret () k) (trap_return x))"

text \<open>The signal a processor trap from user mode raises, \<open>None\<close> for the others.\<close>

definition trap_signal :: "nat \<Rightarrow> nat option" where
  "trap_signal n =
     (if n = 0 \<or> n = 4 \<or> n = 16 then Some 8
      else if n = 1 \<or> n = 3 then Some 5
      else if n = 5 \<or> n = 11 \<or> n = 12 \<or> n = 13 \<or> n = 14 then Some 11
      else if n = 6 then Some 4
      else if n = 17 then Some 10
      else if n = 2 \<or> n = 7 \<or> n = 8 \<or> n = 10 \<or> n = 128 \<or> 32 \<le> n \<and> n < 48 then None
      else Some 11)"

definition trap_fault :: "outside \<Rightarrow> nat \<Rightarrow> unit kop" where
  "trap_fault x sig k = trap_return x (psignal (me k) (int sig) k)"

text \<open>Every number from 106 on but four is a call that is not implemented.\<close>

lemma sysent_musl_enosys:
  assumes "i < 54" "i \<noteq> 17" "i \<noteq> 25"
  shows "sysent_musl ! i = error ENOSYS"
proof -
  have "list_all2 (\<lambda>i f. i = 17 \<or> i = 25 \<or> f = error ENOSYS) [0..<54] sysent_musl"
    by (simp add: sysent_musl_def stub_defs upt_rec)
  then show ?thesis using assms by (auto dest: list_all2_nthD2 [of _ _ _ i] simp: list_all2_conv_all_nth)
qed

lemma sysent_not_implemented:
  assumes "106 \<le> n" "n < nsysent" "n \<notin> {123, 131, 191, 243}"
  shows "sysent x n k = Ret (- 1) (set_error ENOSYS k)"
proof -
  have "sysent x n = error ENOSYS"
    using assms sysent_musl_enosys [of "n - 106"]
    by (auto simp: sysent_def sysent_rest_def sysent_tail_def nth_append nth_Cons' sys_enosys_def)
  then show ?thesis by (simp add: error_def fails_def)
qed

subsection \<open>The signal frame and sigreturn\<close>

text \<open>The trap frame as \<^verbatim>\<open>isr_common\<close> leaves it at the address \<^verbatim>\<open>f\<close> of the kernel stack:
  \<^verbatim>\<open>pusha\<close> stores as \<^verbatim>\<open>ESP_SAVE\<close> the kernel's own stack pointer, the address of the slot
  \<^verbatim>\<open>TRAPNO\<close>, and not the user's, which the processor has pushed as \<^verbatim>\<open>UESP\<close>.  The memory holds
  the two slots that \<^verbatim>\<open>sigreturn\<close> reads, and the kernel stack lies above the addresses of the
  image.\<close>

abbreviation (input) TRAPNO :: nat where "TRAPNO \<equiv> 12"
abbreviation (input) ERR_SLOT :: nat where "ERR_SLOT \<equiv> 13"
abbreviation (input) UESP :: nat where "UESP \<equiv> 17"

definition trap_frame :: "uint32_t \<Rightarrow> kernel \<Rightarrow> bool" where
  "trap_frame f k \<longleftrightarrow> length (u_ar0 (k_u k)) = 19
     \<and> u_ar0 (k_u k) ! ESP_SAVE = f + of_nat (4 * TRAPNO)
     \<and> phys_word (phys k) (f + of_nat (4 * ERR_SLOT)) = u_ar0 (k_u k) ! ERR_SLOT
     \<and> phys_word (phys k) (f + of_nat (4 * EIP)) = u_ar0 (k_u k) ! EIP
     \<and> 0x1000 \<le> f \<and> (p_size (procp k (me k)) - USIZE) * 64 \<le> f \<and> unat f + 76 \<le> 2 ^ 32"

lemma trap_frame_outside:
  assumes "trap_frame f k" "d < 76"
  shows "user_phys_addr (f + d) k = 0" "f + d \<noteq> 0" "\<not> f + d < 0x1000"
proof -
  have "unat (f + d) = unat f + unat d"
    using assms by (subst unat_add_lem [THEN iffD1]) (simp_all add: trap_frame_def word_less_nat_alt)
  then have le: "f \<le> f + d" by (simp add: word_le_nat_alt)
  have f: "0x1000 \<le> f" "(p_size (procp k (me k)) - USIZE) * 64 \<le> f" using assms(1) by (simp_all add: trap_frame_def)
  show "user_phys_addr (f + d) k = 0" using order_trans [OF f(2) le] by (simp add: user_phys_addr_def Let_def)
  have "0x1000 \<le> f + d" by (rule order_trans [OF f(1) le])
  then show "f + d \<noteq> 0" "\<not> f + d < 0x1000" by (auto simp: not_less)
qed

lemma suword_outside: "user_phys_addr a k = 0 \<Longrightarrow> suword a v k = (False, k)"
  by (simp add: suword_def)

lemma fuword_outside: "user_phys_addr a k = 0 \<Longrightarrow> a \<noteq> 0 \<Longrightarrow> \<not> a < 0x1000 \<Longrightarrow> fuword a k = phys_word (phys k) a"
  by (simp add: fuword_def)

lemma sig_frame_outside:
  assumes "trap_frame f k"
  shows "sig_frame n p k = set_ar0 EIP p (set_ar0 EFLAGS (u_ar0 (k_u k) ! EFLAGS AND NOT 0x100) (set_ar0 ESP_SAVE (f + 36) k))"
proof -
  have "user_phys_addr (f + 36) k = 0" "user_phys_addr (f + 40) k = 0" "user_phys_addr (f + 44) k = 0"
    using trap_frame_outside(1) [OF assms] by simp_all
  moreover have "u_ar0 (k_u k) ! ESP_SAVE = f + 48" using assms by (simp add: trap_frame_def)
  ultimately show ?thesis by (simp add: sig_frame_def Let_def suword_outside add.commute)
qed

text \<open>C26: With the frame of a real trap, signals with handlers do not work. \<^verbatim>\<open>psig\<close> takes the
  kernel's stack pointer in \<^verbatim>\<open>ESP_SAVE\<close> for the user's: its three stores fail, so that the handler
  starts on the interrupted program's stack pointer with nothing pushed, neither a return address nor
  the saved registers. And \<^verbatim>\<open>sigreturn\<close>, called from any trap, reads the slots next to
  \<^verbatim>\<open>ESP_SAVE\<close>'s address: it sends the process to the address \<^verbatim>\<open>0\<close> (the error code of its own
  trap) with its own instruction pointer as the flags, and leaves the user's stack pointer.\<close>

theorem signal_frame_lost:
  assumes "trap_frame f k" "u_signal (k_u k) ! nat (sint (p_sig (procp k (me k)))) = p" "p \<noteq> 0"
    and "trap_frame g j" "u_ar0 (k_u j) ! ERR_SLOT = 0" "u_ar0 (k_u j) ! EIP \<noteq> - 1"
  shows "\<exists>k' j'. psig usize img k = Ret () k' \<and> phys k' = phys k
    \<and> u_ar0 (k_u k') ! EIP = p \<and> u_ar0 (k_u k') ! UESP = u_ar0 (k_u k) ! UESP
    \<and> sys_sigreturn j = Ret 0 j' \<and> u_ar0 (k_u j') ! EIP = 0
    \<and> u_ar0 (k_u j') ! EFLAGS = u_ar0 (k_u j) ! EIP \<and> u_ar0 (k_u j') ! UESP = u_ar0 (k_u j) ! UESP"
proof -
  define u :: "user \<Rightarrow> user" where "u = (\<lambda>u. u\<lparr>u_error := 0, u_signal := (let n = nat (sint (p_sig (procp k (me k))))
    in if n \<noteq> SIGINS \<and> n \<noteq> SIGTRC then (u_signal u)[n := 0] else u_signal u)\<rparr>)"
  let ?k1 = "upd_u u (upd_proc (me k) (\<lambda>p. p\<lparr>p_sig := 0\<rparr>) k)" and ?n = "nat (sint (p_sig (procp k (me k))))"
  have u: "u_ar0 (u v) = u_ar0 v" "u_procp (u v) = u_procp v" for v by (simp_all add: u_def)
  have t: "trap_frame f ?k1"
    using assms(1) u by (cases "me k < length (procs (k_sch k))")
      (simp_all add: trap_frame_def procp_def upd_proc_def upd_sch_def list_update_beyond)
  have l: "length (u_ar0 (k_u k)) = 19" "length (u_ar0 (k_u j)) = 19" using assms(1,4) by (simp_all add: trap_frame_def)
  have "psig usize img k = Ret () (sig_frame ?n p ?k1)"
    using assms(2,3) by (simp add: psig_def psig_handler_def u_def Let_def)
  moreover have "fuword (g + 52) j = 0" "fuword (g + 56) j = u_ar0 (k_u j) ! EIP"
    using assms(4,5) by (simp_all add: fuword_outside trap_frame_outside) (simp_all add: trap_frame_def)
  then have "sys_sigreturn j = returns 0 (set_ar0 ESP_SAVE (g + 60) (set_ar0 EFLAGS (u_ar0 (k_u j) ! EIP) (set_ar0 EIP 0 j)))"
    using assms(4,6) by (simp add: sys_sigreturn_def Let_def trap_frame_def add.commute)
  ultimately show ?thesis using l u
    by (simp add: sig_frame_outside [OF t] returns_def okay_def)
qed

text \<open>A process with the handler 8 for signal 2, and a trap frame at 2 MB.\<close>

definition signal_kernel :: kernel where
  "signal_kernel = upd_u (\<lambda>u. u\<lparr>u_ar0 := (replicate 19 0)[ESP_SAVE := 0x200030, EIP := 5, EFLAGS := 0x202, UESP := 100],
       u_signal := (u_signal u)[2 := 8]\<rparr>)
     (upd_proc 0 (\<lambda>p. p\<lparr>p_sig := 2\<rparr>) (two_kernel\<lparr>phys := store_word 0x200038 5 (\<lambda>_. 0)\<rparr>))"

lemma signal_kernel_frame: "trap_frame 0x200000 signal_kernel"
proof -
  let ?m = "store_word 0x200038 5 (\<lambda>_. 0)"
  have "phys_word ?m 0x200034 = phys_word (\<lambda>_. 0) 0x200034" by (rule phys_word_other) simp_all
  then have "phys_word ?m 0x200034 = 0" "phys_word ?m 0x200038 = 5"
    by (simp_all add: phys_word_same) (simp add: phys_word_def get32_def)
  then show ?thesis
    by (simp add: trap_frame_def signal_kernel_def two_kernel_def zero_kernel_def zero_user_def procp_def upd_proc_def upd_sch_def)
qed

theorem signal_frame_lost_witness:
  "\<exists>k' j'. psig 0 (\<lambda>_. 0) signal_kernel = Ret () k' \<and> u_ar0 (k_u k') ! EIP = 8 \<and> u_ar0 (k_u k') ! UESP = 100
    \<and> sys_sigreturn signal_kernel = Ret 0 j' \<and> u_ar0 (k_u j') ! EIP = 0 \<and> u_ar0 (k_u j') ! EFLAGS = 5"
proof -
  have h: "u_signal (k_u signal_kernel) ! nat (sint (p_sig (procp signal_kernel (me signal_kernel)))) = 8"
    "(8 :: uint32_t) \<noteq> 0" "u_ar0 (k_u signal_kernel) ! ERR_SLOT = 0" "u_ar0 (k_u signal_kernel) ! EIP = 5"
    "u_ar0 (k_u signal_kernel) ! UESP = 100" "(5 :: uint32_t) \<noteq> - 1"
    by (simp_all add: signal_kernel_def two_kernel_def zero_kernel_def zero_user_def procp_def upd_proc_def upd_sch_def)
  have e: "u_ar0 (k_u signal_kernel) ! EIP \<noteq> - 1" using h(4,6) by simp
  obtain k' j' where "psig 0 (\<lambda>_. 0) signal_kernel = Ret () k'" "u_ar0 (k_u k') ! EIP = 8"
    "u_ar0 (k_u k') ! UESP = 100" "sys_sigreturn signal_kernel = Ret 0 j'"
    "u_ar0 (k_u j') ! EIP = 0" "u_ar0 (k_u j') ! EFLAGS = 5"
    using signal_frame_lost [OF signal_kernel_frame h(1,2) signal_kernel_frame h(3) e, of 0 "\<lambda>_. 0"]
    unfolding h(4,5) by blast
  then show ?thesis by blast
qed

end
