(* ===== verification/Clock.thy ===== *)
theory Clock
  imports Trap
begin

text \<open>
  \<^verbatim>\<open>kernel/clock.c\<close>: the clock interrupt and the list of callouts.  The routine a callout
  calls is code outside this file: \<open>run f a\<close> is the effect of calling routine \<open>f\<close> with the
  argument \<open>a\<close>.  \<^verbatim>\<open>incupc\<close> has an empty body.  The abstract callout list says when each
  callout is due, in ticks from now; the code keeps the differences.
\<close>

subsection \<open>timeout\<close>

text \<open>Moving the entries up to the terminator one place up; \<open>x\<close> is the entry to store here.
  \<open>None\<close>: the table is full and the code writes past its end.\<close>

fun shift_up :: "callo \<Rightarrow> callo list \<Rightarrow> callo list option" where
  "shift_up x [] = None"
| "shift_up x (c # cs) =
     (if c_func c = None then (case cs of [] \<Rightarrow> None | _ # r \<Rightarrow> Some (x # c # r))
      else map_option ((#) x) (shift_up c cs))"

fun timeout_list :: "nat \<Rightarrow> uint32_t \<Rightarrow> int32_t \<Rightarrow> callo list \<Rightarrow> callo list option" where
  "timeout_list f a t [] = None"
| "timeout_list f a t (c # cs) =
     (if c_func c \<noteq> None \<and> sint (c_time c) \<le> sint t
      then map_option ((#) c) (timeout_list f a (t - c_time c) cs)
      else shift_up \<lparr>c_time = t, c_arg = a, c_func = Some f\<rparr> (c\<lparr>c_time := c_time c - t\<rparr> # cs))"

definition set_callout :: "callo list \<Rightarrow> kernel \<Rightarrow> kernel" where
  "set_callout cs k = k\<lparr>k_clk := (k_clk k)\<lparr>callout := cs\<rparr>\<rparr>"

definition timeout :: "nat \<Rightarrow> uint32_t \<Rightarrow> int32_t \<Rightarrow> unit kop" where
  "timeout f a tim k =
     (case timeout_list f a tim (callout (k_clk k)) of
        None \<Rightarrow> Stop OutOfBounds k
      | Some cs \<Rightarrow> Ret () (set_callout cs k))"

subsection \<open>The callouts of a tick\<close>

fun tick_first :: "callo list \<Rightarrow> callo list option" where
  "tick_first [] = None"
| "tick_first (c # cs) =
     (if sint (c_time c) \<le> 0 \<and> c_func c \<noteq> None then map_option ((#) c) (tick_first cs)
      else Some (c\<lparr>c_time := c_time c - 1\<rparr> # cs))"

text \<open>Calling the entries that are due, from entry \<open>i\<close> on; the value is the first that is
  not.\<close>

function run_due :: "(nat \<Rightarrow> uint32_t \<Rightarrow> kernel \<Rightarrow> kernel) \<Rightarrow> nat \<Rightarrow> nat kop" where
  "run_due run i k =
     (if i \<ge> NCALL then Stop OutOfBounds k
      else
        (let c = callout (k_clk k) ! i
         in case c_func c of
              None \<Rightarrow> Ret i k
            | Some f \<Rightarrow> if sint (c_time c) \<le> 0 then run_due run (i + 1) (run f (c_arg c) k) else Ret i k))"
  by pat_completeness auto
termination by (relation "measure (\<lambda>(run, i, k). NCALL - i)") auto

declare run_due.simps [simp del]

text \<open>Moving the entries from \<open>p1\<close> on down to \<open>p2\<close>; of the terminator only \<^verbatim>\<open>c_func\<close> is
  copied.\<close>

function move_down :: "nat \<Rightarrow> nat \<Rightarrow> callo list \<Rightarrow> callo list option" where
  "move_down p1 p2 cs =
     (if p1 \<ge> length cs then None
      else if c_func (cs ! p1) = None then Some (cs[p2 := (cs ! p2)\<lparr>c_func := None\<rparr>])
      else move_down (p1 + 1) (p2 + 1) (cs[p2 := cs ! p1]))"
  by pat_completeness auto
termination by (relation "measure (\<lambda>(p1, p2, cs). length cs - p1)") auto

declare move_down.simps [simp del]

definition callouts :: "(nat \<Rightarrow> uint32_t \<Rightarrow> kernel \<Rightarrow> kernel) \<Rightarrow> unit kop" where
  "callouts run k =
     (let cs = callout (k_clk k)
      in if c_func (cs ! 0) = None then Ret () k
         else (case tick_first cs of
             None \<Rightarrow> Stop OutOfBounds k
           | Some cs1 \<Rightarrow>
               if sint (c_time (cs1 ! 0)) > 0 then Ret () (set_callout cs1 k)
               else kbind (run_due run 0) (\<lambda>p1 k.
                   case move_down p1 0 (callout (k_clk k)) of
                     None \<Rightarrow> Stop OutOfBounds k
                   | Some cs2 \<Rightarrow> Ret () (set_callout cs2 k)) (set_callout cs1 k)))"

subsection \<open>Times and priorities\<close>

definition charge_tick :: "bool \<Rightarrow> kernel \<Rightarrow> kernel" where
  "charge_tick usr k =
     (let k1 = upd_u (\<lambda>u. if usr then u\<lparr>u_utime := u_utime u + 1\<rparr> else u\<lparr>u_stime := u_stime u + 1\<rparr>) k
      in upd_proc (me k1) (\<lambda>p. p\<lparr>p_cpu := (if p_cpu p + 1 = 0 then p_cpu p else p_cpu p + 1)\<rparr>) k1)"

definition next_second :: "clk \<Rightarrow> clk" where
  "next_second c =
     (let t = time1 c + 1
      in c\<lparr>lbolt := lbolt c - of_int HZ, time1 := t, time0 := (if t = 0 then time0 c + 1 else time0 c)\<rparr>)"

definition wake_timers :: "kernel \<Rightarrow> kernel" where
  "wake_timers k =
     (let c = k_clk k;
          k1 = (if time1 c = tout1 c \<and> time0 c = tout0 c then wakeup ChTout k else k)
      in if time1 c AND 3 = 0
         then wakeup ChLbolt (upd_sch (\<lambda>s. s\<lparr>runrun := runrun s + 1\<rparr>) k1) else k1)"

definition age :: "proc \<Rightarrow> proc" where
  "age p = p\<lparr>p_time := (if p_time p \<noteq> 127 then p_time p + 1 else p_time p),
     p_cpu := (if unat (p_cpu p) > 10 then p_cpu p - 10 else 0)\<rparr>"

definition age_proc :: "nat \<Rightarrow> kernel \<Rightarrow> kernel" where
  "age_proc i k =
     (if p_stat (procp k i) = 0 then k
      else (let k1 = upd_proc i age k
            in if sint (p_pri (procp k1 i)) > PUSER then setpri i k1 else k1))"

definition wake_swapper_in :: "kernel \<Rightarrow> kernel" where
  "wake_swapper_in k =
     (if runin (k_sch k) \<noteq> 0 then wakeup ChRunin (upd_sch (\<lambda>s. s\<lparr>runin := 0\<rparr>) k) else k)"

definition clock_second :: "nat \<Rightarrow> block \<Rightarrow> bool \<Rightarrow> unit kop" where
  "clock_second usize img usr k =
     (let k1 = wake_timers (k\<lparr>k_clk := next_second (k_clk k)\<rparr>);
          k2 = wake_swapper_in (fold age_proc [0..<NPROC] k1)
      in if usr then
           kseq (kbind issig (\<lambda>n. if n \<noteq> 0 then psig usize img else ret ())) (\<lambda>k. Ret () (setpri (me k) k)) k2
         else Ret () k2)"

text \<open>The test for user mode is on the low half of \<^verbatim>\<open>EFLAGS\<close>.\<close>

definition clock :: "(nat \<Rightarrow> uint32_t \<Rightarrow> kernel \<Rightarrow> kernel) \<Rightarrow> nat \<Rightarrow> block \<Rightarrow> uint32_t \<Rightarrow> unit kop" where
  "clock run usize img ps = kseq (callouts run) (\<lambda>k.
     let usr = (ps AND 0xFFFF \<noteq> 0);
         k1 = charge_tick usr k;
         k2 = k1\<lparr>k_clk := (k_clk k1)\<lparr>lbolt := lbolt (k_clk k1) + 1\<rparr>\<rparr>
     in if sint (lbolt (k_clk k2)) \<ge> HZ then clock_second usize img usr k2 else Ret () k2)"

subsection \<open>The abstract callout list\<close>

text \<open>When each callout is due, counted from \<open>b\<close>; the invariant: the list has a terminator, the
  differences are not negative and no due time overflows.\<close>

fun dues :: "nat \<Rightarrow> callo list \<Rightarrow> (nat \<times> nat \<times> uint32_t) list" where
  "dues b [] = []"
| "dues b (c # cs) = (case c_func c of None \<Rightarrow> []
     | Some f \<Rightarrow> (b + unat (c_time c), f, c_arg c) # dues (b + unat (c_time c)) cs)"

fun calls_ok :: "nat \<Rightarrow> callo list \<Rightarrow> bool" where
  "calls_ok b [] = False"
| "calls_ok b (c # cs) =
     (c_func c = None \<or> b + unat (c_time c) < 2 ^ 31 \<and> calls_ok (b + unat (c_time c)) cs)"

lemma dues_ge: "e \<in> set (dues b cs) \<Longrightarrow> b \<le> fst e"
  by (induction b cs rule: dues.induct) (force split: option.splits)+

lemma sint_le_iff: "unat (a :: 32 word) < 2 ^ 31 \<Longrightarrow> unat (b :: 32 word) < 2 ^ 31 \<Longrightarrow> sint a \<le> sint b \<longleftrightarrow> unat a \<le> unat b"
  by (simp only: sint_small32 of_nat_le_iff)

lemma shift_up_abs:
  "shift_up x cs = Some cs' \<Longrightarrow>
     dues b cs' = dues b (x # cs) \<and> calls_ok b cs' = calls_ok b (x # cs) \<and> length cs' = length cs"
proof (induction x cs arbitrary: b cs' rule: shift_up.induct)
  case (1 x)
  then show ?case by simp
next
  case (2 x c cs)
  show ?case
  proof (cases "c_func c = None")
    case True
    with "2.prems" show ?thesis by (auto split: list.splits option.splits)
  next
    case False
    with "2.prems" obtain r where r: "shift_up c cs = Some r" "cs' = x # r" by auto
    from "2.IH" [OF False r(1)] show ?thesis by (auto simp: r(2) split: option.splits)
  qed
qed

lemma shift_up_room:
  "calls_ok b cs \<Longrightarrow> length (dues b cs) + 1 < length cs \<Longrightarrow> \<exists>cs'. shift_up x cs = Some cs'"
proof (induction x cs arbitrary: b rule: shift_up.induct)
  case (2 x c cs)
  then show ?case
    by (cases "c_func c") (fastforce split: list.splits)+
qed simp

lemma timeout_list_abs:
  assumes "timeout_list f a t cs = Some cs'" "calls_ok b cs" "b + unat t < 2 ^ 31"
  shows "calls_ok b cs' \<and> length cs' = length cs
     \<and> dues b cs' = filter (\<lambda>e. fst e \<le> b + unat t) (dues b cs) @ (b + unat t, f, a)
          # filter (\<lambda>e. fst e > b + unat t) (dues b cs)"
  using assms
proof (induction cs arbitrary: b t cs')
  case Nil
  then show ?case by simp
next
  case (Cons c cs)
  show ?case
  proof (cases "c_func c")
    case None
    with Cons.prems(1)
    have "shift_up \<lparr>c_time = t, c_arg = a, c_func = Some f\<rparr> (c\<lparr>c_time := c_time c - t\<rparr> # cs) = Some cs'"
      by simp
    from shift_up_abs [OF this, of b] None Cons.prems(3) show ?thesis by simp
  next
    case (Some g)
    with Cons.prems(2) have ok: "b + unat (c_time c) < 2 ^ 31" "calls_ok (b + unat (c_time c)) cs"
      by simp_all
    have cmp: "sint (c_time c) \<le> sint t \<longleftrightarrow> unat (c_time c) \<le> unat t"
      using ok(1) Cons.prems(3) by (intro sint_le_iff) linarith+
    show ?thesis
    proof (cases "unat (c_time c) \<le> unat t")
      case True
      with Some cmp Cons.prems(1) obtain r
        where r: "timeout_list f a (t - c_time c) cs = Some r" "cs' = c # r" by auto
      have d: "unat (t - c_time c) = unat t - unat (c_time c)"
        using True by (simp add: unat_sub word_le_nat_alt)
      with True Cons.prems(3) have s: "b + unat (c_time c) + unat (t - c_time c) = b + unat t" by simp
      from Cons.IH [OF r(1) ok(2)] s Cons.prems(3)
      have "calls_ok (b + unat (c_time c)) r \<and> length r = length cs \<and>
        dues (b + unat (c_time c)) r = filter (\<lambda>e. fst e \<le> b + unat t) (dues (b + unat (c_time c)) cs) @ (b + unat t, f, a)
          # filter (\<lambda>e. fst e > b + unat t) (dues (b + unat (c_time c)) cs)"
        by metis
      with Some True ok(1) show ?thesis by (simp add: r(2))
    next
      case False
      with Some cmp Cons.prems(1)
      have "shift_up \<lparr>c_time = t, c_arg = a, c_func = Some f\<rparr> (c\<lparr>c_time := c_time c - t\<rparr> # cs) = Some cs'"
        by simp
      note sh = shift_up_abs [OF this, of b]
      have d: "unat (c_time c - t) = unat (c_time c) - unat t"
        using False by (simp add: unat_sub word_le_nat_alt)
      have late: "\<forall>e\<in>set (dues b (c # cs)). b + unat t < fst e"
        using Some False by (auto dest: dues_ge)
      have fl: "filter (\<lambda>e. fst e \<le> b + unat t) (dues b (c # cs)) = []"
        "filter (\<lambda>e. fst e > b + unat t) (dues b (c # cs)) = dues b (c # cs)"
        using late by (auto simp: filter_empty_conv filter_id_conv not_le simp del: dues.simps)
      show ?thesis unfolding fl using sh Some False ok Cons.prems(3) d by simp
    qed
  qed
qed

lemma timeout_list_room:
  assumes "calls_ok b cs" "length (dues b cs) + 1 < length cs"
  shows "\<exists>cs'. timeout_list f a t cs = Some cs'"
  using assms
proof (induction cs arbitrary: b t)
  case Nil
  then show ?case by simp
next
  case (Cons c cs)
  show ?case
  proof (cases "c_func c \<noteq> None \<and> sint (c_time c) \<le> sint t")
    case True
    then obtain g where "c_func c = Some g" by auto
    with Cons.prems Cons.IH [of "b + unat (c_time c)" "t - c_time c"] True show ?thesis by auto
  next
    case False
    let ?c = "c\<lparr>c_time := c_time c - t\<rparr>"
    have "\<exists>cs'. shift_up x (?c # cs) = Some cs'" for x
    proof (cases "c_func c")
      case None
      with Cons.prems show ?thesis by (cases cs) auto
    next
      case (Some g)
      with Cons.prems have "calls_ok (b + unat (c_time c)) cs"
        "length (dues (b + unat (c_time c)) cs) + 1 < length cs" by simp_all
      from shift_up_room [OF this, of ?c] Some show ?thesis by auto
    qed
    moreover from False have "\<not> (c_func c \<noteq> None \<and> sint (c_time c) \<le> sint t)" .
    ultimately show ?thesis by (simp only: timeout_list.simps if_False)
  qed
qed

text \<open>C21: \<^verbatim>\<open>timeout\<close> puts the new callout where it belongs: after it, the callouts due no later
  come first and unchanged, then the new one, due in \<open>tim\<close> ticks, then the later ones, whose due
  times the changed difference leaves as they were.\<close>

theorem timeout_schedules:
  assumes "calls_ok 0 (callout (k_clk k))" "unat tim < 2 ^ 31"
    "length (dues 0 (callout (k_clk k))) + 1 < length (callout (k_clk k))"
  shows "\<exists>cs. timeout f a tim k = Ret () (set_callout cs k) \<and> calls_ok 0 cs
    \<and> length cs = length (callout (k_clk k))
    \<and> dues 0 cs = filter (\<lambda>e. fst e \<le> unat tim) (dues 0 (callout (k_clk k))) @ (unat tim, f, a)
        # filter (\<lambda>e. fst e > unat tim) (dues 0 (callout (k_clk k)))"
proof -
  obtain cs where cs: "timeout_list f a tim (callout (k_clk k)) = Some cs"
    using timeout_list_room [OF assms(1,3)] by blast
  from timeout_list_abs [OF this assms(1)] assms(2) cs show ?thesis
    by (intro exI [of _ cs]) (simp add: timeout_def)
qed

subsection \<open>A tick\<close>

lemma dues_shift:
  "calls_ok (b + 1) cs \<Longrightarrow> dues b cs = map (\<lambda>(d, x). (d - 1, x)) (dues (b + 1) cs) \<and> calls_ok b cs"
proof (induction cs arbitrary: b)
  case (Cons c cs)
  show ?case
  proof (cases "c_func c")
    case (Some f)
    with Cons.prems have "calls_ok (b + unat (c_time c) + 1) cs" by (simp add: add.commute add.left_commute)
    from Cons.IH [OF this] Some Cons.prems show ?thesis by (simp add: add.commute add.left_commute)
  qed simp
qed simp

definition one_less :: "nat \<Rightarrow> nat \<times> 'a \<Rightarrow> nat \<times> 'a" where
  "one_less b = (\<lambda>(d, x). (if d > b then d - 1 else d, x))"

lemma tick_first_abs:
  "calls_ok b cs \<Longrightarrow> \<exists>cs1. tick_first cs = Some cs1 \<and> length cs1 = length cs \<and> calls_ok b cs1
     \<and> dues b cs1 = map (one_less b) (dues b cs)"
proof (induction cs arbitrary: b)
  case (Cons c cs)
  show ?case
  proof (cases "c_func c")
    case None
    then show ?thesis by simp
  next
    case (Some f)
    with Cons.prems have ok: "b + unat (c_time c) < 2 ^ 31" "calls_ok (b + unat (c_time c)) cs" by simp_all
    have s: "sint (c_time c) = int (unat (c_time c))" using ok(1) by (intro sint_small32) linarith
    show ?thesis
    proof (cases "unat (c_time c) = 0")
      case True
      from Cons.IH [OF ok(2)] True Some s ok(1) show ?thesis by (auto simp: one_less_def)
    next
      case False
      then have pos: "\<not> sint (c_time c) \<le> 0" using s by linarith
      have d: "unat (c_time c - 1) = unat (c_time c) - 1" using False by (metis unat_0 unat_minus_one)
      obtain n where n: "unat (c_time c) = Suc n" using False by (cases "unat (c_time c)") auto
      have sh: "dues (b + n) cs = map (\<lambda>(d, x). (d - 1, x)) (dues (b + unat (c_time c)) cs)" "calls_ok (b + n) cs"
        using dues_shift [of "b + n" cs] ok(2) n by (simp_all add: add.commute)
      have "map (one_less b) (dues (b + unat (c_time c)) cs) = map (\<lambda>(d, x). (d - 1, x)) (dues (b + unat (c_time c)) cs)"
        using n by (auto simp: one_less_def dest!: dues_ge)
      with sh Some pos d n ok(1) show ?thesis by (simp add: one_less_def)
    qed
  qed
qed simp

lemma dues_now: "takeWhile (\<lambda>e. fst e = b) (dues b cs) = filter (\<lambda>e. fst e = b) (dues b cs)"
proof (induction cs)
  case (Cons c cs)
  show ?case
  proof (cases "c_func c")
    case (Some f)
    show ?thesis
    proof (cases "unat (c_time c) = 0")
      case True
      with Some Cons.IH show ?thesis by simp
    next
      case False
      have "\<forall>e\<in>set (dues (b + unat (c_time c)) cs). fst e \<noteq> b" using False by (auto dest: dues_ge)
      with Some False show ?thesis by (simp add: filter_empty_conv)
    qed
  qed simp
qed simp

lemma dues_split:
  "calls_ok 0 cs \<Longrightarrow> Z = filter (\<lambda>e. fst e = 0) (dues 0 cs) \<Longrightarrow>
     dues 0 (drop (length Z) cs) = filter (\<lambda>e. fst e \<noteq> 0) (dues 0 cs) \<and> calls_ok 0 (drop (length Z) cs)"
proof (induction cs arbitrary: Z)
  case (Cons c cs)
  show ?case
  proof (cases "c_func c")
    case None
    with Cons.prems show ?thesis by simp
  next
    case (Some f)
    show ?thesis
    proof (cases "unat (c_time c) = 0")
      case True
      with Some Cons show ?thesis by simp
    next
      case False
      have "\<forall>e\<in>set (dues (unat (c_time c)) cs). fst e \<noteq> 0" using False by (auto dest: dues_ge)
      with Some False Cons.prems show ?thesis by (simp add: filter_empty_conv filter_id_conv)
    qed
  qed
qed simp

lemma run_due_abs:
  assumes "\<And>f a k. k_clk (run f a k) = k_clk k" "length (callout (k_clk k)) = NCALL"
    "calls_ok 0 (drop i (callout (k_clk k)))"
  shows "run_due run i k = Ret (i + length (takeWhile (\<lambda>e. fst e = 0) (dues 0 (drop i (callout (k_clk k))))))
    (fold (\<lambda>(d, f, a). run f a) (takeWhile (\<lambda>e. fst e = 0) (dues 0 (drop i (callout (k_clk k))))) k)"
  using assms
proof (induction run i k rule: run_due.induct)
  case (1 run i k)
  let ?cs = "callout (k_clk k)"
  have i: "i < NCALL"
    using "1.prems"(2,3) by (metis calls_ok.simps(1) drop_all linorder_not_le)
  then have dr: "drop i ?cs = ?cs ! i # drop (Suc i) ?cs"
    using "1.prems"(2) by (simp add: Cons_nth_drop_Suc)
  show ?case
  proof (cases "c_func (?cs ! i)")
    case None
    with i dr show ?thesis by (simp add: run_due.simps Let_def)
  next
    case (Some f)
    with "1.prems"(3) dr have ok: "unat (c_time (?cs ! i)) < 2 ^ 31"
      "calls_ok (unat (c_time (?cs ! i))) (drop (Suc i) ?cs)" by simp_all
    have s: "sint (c_time (?cs ! i)) \<le> 0 \<longleftrightarrow> unat (c_time (?cs ! i)) = 0"
      using sint_small32 [OF ok(1)] by linarith
    show ?thesis
    proof (cases "unat (c_time (?cs ! i)) = 0")
      case True
      let ?k = "run f (c_arg (?cs ! i)) k"
      have clk: "k_clk ?k = k_clk k" by (rule "1.prems"(1))
      have "run_due run i k = run_due run (i + 1) ?k"
        using i Some True s by (subst run_due.simps) (simp add: Let_def)
      with "1.IH" [OF _ refl Some] i s True "1.prems" ok(2) clk dr Some show ?thesis by simp
    next
      case False
      have "run_due run i k = Ret i k"
        using i Some False s by (subst run_due.simps) (simp add: Let_def)
      with Some False dr show ?thesis by simp
    qed
  qed
qed

lemma move_down_abs:
  "p2 \<le> p1 \<Longrightarrow> calls_ok b (drop p1 cs) \<Longrightarrow>
     \<exists>r. move_down p1 p2 cs = Some r \<and> length r = length cs \<and> take p2 r = take p2 cs
       \<and> dues b (drop p2 r) = dues b (drop p1 cs) \<and> calls_ok b (drop p2 r)"
proof (induction p1 p2 cs arbitrary: b rule: move_down.induct)
  case (1 p1 p2 cs)
  have p: "p1 < length cs"
    using "1.prems"(2) by (metis calls_ok.simps(1) drop_all linorder_not_le)
  then have dr: "drop p1 cs = cs ! p1 # drop (Suc p1) cs" by (simp add: Cons_nth_drop_Suc)
  have up: "drop p2 (cs[p2 := x]) = x # drop (Suc p2) cs" "take p2 (cs[p2 := x]) = take p2 cs" for x
    using p "1.prems"(1) by (simp_all add: Cons_nth_drop_Suc [symmetric])
  show ?case
  proof (cases "c_func (cs ! p1)")
    case None
    with p have "move_down p1 p2 cs = Some (cs[p2 := (cs ! p2)\<lparr>c_func := None\<rparr>])"
      by (simp add: move_down.simps)
    with None dr up show ?thesis by simp
  next
    case (Some f)
    let ?cs = "cs[p2 := cs ! p1]" and ?b = "b + unat (c_time (cs ! p1))"
    have md: "move_down p1 p2 cs = move_down (p1 + 1) (p2 + 1) ?cs"
      using p Some by (subst move_down.simps) simp
    have dd: "drop (p1 + 1) ?cs = drop (Suc p1) cs" using "1.prems"(1) by simp
    have ok: "b + unat (c_time (cs ! p1)) < 2 ^ 31" "calls_ok ?b (drop (p1 + 1) ?cs)"
      using "1.prems"(2) Some dr dd by simp_all
    obtain r where r: "move_down (p1 + 1) (p2 + 1) ?cs = Some r" "length r = length cs"
      "take (p2 + 1) r = take (p2 + 1) ?cs" "dues ?b (drop (p2 + 1) r) = dues ?b (drop (Suc p1) cs)"
      "calls_ok ?b (drop (p2 + 1) r)"
      using "1.IH" [OF _ _ _ ok(2)] p Some "1.prems"(1) dd by auto
    have p2: "p2 < length r" using p "1.prems"(1) r(2) by simp
    have nth: "r ! p2 = cs ! p1" "take p2 r = take p2 cs"
    proof -
      have "take (p2 + 1) r ! p2 = take (p2 + 1) ?cs ! p2" using r(3) by simp
      then show "r ! p2 = cs ! p1" using p "1.prems"(1) by simp
      have "take p2 (take (p2 + 1) r) = take p2 (take (p2 + 1) ?cs)" using r(3) by simp
      then show "take p2 r = take p2 cs" by (simp add: min_def)
    qed
    have "drop p2 r = r ! p2 # drop (p2 + 1) r" using p2 by (simp add: Cons_nth_drop_Suc)
    with nth r(4,5) Some dr ok(1) md r(1,2) show ?thesis by simp
  qed
qed

text \<open>C22: a tick of the clock runs exactly the callouts that are due at it, in the order of the
  list, takes them off, and brings every other callout one tick nearer.  \<open>run\<close> is what the
  routines do, which may be anything that leaves the clock's own data alone.\<close>

theorem tick_runs_due:
  assumes "\<And>f a k. k_clk (run f a k) = k_clk k" "length (callout (k_clk k)) = NCALL"
    "calls_ok 0 (callout (k_clk k))"
  shows "\<exists>cs1 cs2. callouts run k = Ret () (set_callout cs2
        (fold (\<lambda>(d, f, a). run f a) (filter (\<lambda>e. fst e \<le> 1) (dues 0 (callout (k_clk k)))) (set_callout cs1 k)))
    \<and> calls_ok 0 cs2
    \<and> dues 0 cs2 = map (\<lambda>(d, x). (d - 1, x)) (filter (\<lambda>e. fst e > 1) (dues 0 (callout (k_clk k))))"
proof -
  let ?cs = "callout (k_clk k)"
  let ?D = "dues 0 ?cs" and ?run = "\<lambda>(d, f, a). run f a"
  obtain c cs where c: "?cs = c # cs" using assms(2) by (cases ?cs) auto
  obtain cs1 where t: "tick_first ?cs = Some cs1" "length cs1 = NCALL" "calls_ok 0 cs1"
    "dues 0 cs1 = map (one_less 0) ?D"
    using tick_first_abs [OF assms(3)] assms(2) by auto
  have clk: "callout (k_clk (set_callout x k')) = x" for x k' by (simp add: set_callout_def)
  have keep: "k_clk (fold ?run xs k') = k_clk k'" for xs k'
    by (induction xs arbitrary: k') (auto simp: assms(1))
  have due: "filter (\<lambda>e. fst e = 0) (dues 0 cs1) = map (one_less 0) (filter (\<lambda>e. fst e \<le> 1) ?D)"
    "filter (\<lambda>e. fst e \<noteq> 0) (dues 0 cs1) = map (\<lambda>(d, x). (d - 1, x)) (filter (\<lambda>e. fst e > 1) ?D)"
    unfolding t(4) by (auto simp: filter_map one_less_def o_def case_prod_beta intro!: filter_cong map_cong)
  have same: "fold ?run (map (one_less 0) xs) k' = fold ?run xs k'" for xs k'
    by (induction xs arbitrary: k') (auto simp: one_less_def)
  let ?Z = "filter (\<lambda>e. fst e = 0) (dues 0 cs1)"
  show ?thesis
  proof (cases "c_func c")
    case None
    then have "callouts run k = Ret () (set_callout ?cs (set_callout ?cs k))"
      by (simp add: callouts_def c set_callout_def Let_def)
    with None c show ?thesis by (intro exI [of _ ?cs]) simp
  next
    case (Some f)
    obtain c1 cs1' where c1: "cs1 = c1 # cs1'" using t(2) by (cases cs1) auto
    show ?thesis
    proof (cases "sint (c_time c1) > 0")
      case True
      have ex: "callouts run k = Ret () (set_callout cs1 (set_callout cs1 k))"
        using Some c t(1) c1 True by (simp add: callouts_def set_callout_def Let_def)
      have "c_func c1 \<noteq> None"
      proof
        assume "c_func c1 = None"
        then have "dues 0 cs1 = []" by (simp add: c1)
        with t(4) Some c show False by simp
      qed
      then obtain g where g: "c_func c1 = Some g" by auto
      have "0 < unat (c_time c1)" using True by (cases "c_time c1 = 0") (auto simp: unat_gt_0)
      then have "\<forall>e\<in>set (dues 0 cs1). fst e \<noteq> 0" using g by (auto simp: c1 dest: dues_ge)
      then have z: "?Z = []" "filter (\<lambda>e. fst e \<noteq> 0) (dues 0 cs1) = dues 0 cs1"
        by (auto simp: filter_empty_conv filter_id_conv)
      with due have "filter (\<lambda>e. fst e \<le> 1) ?D = []" by simp
      with ex t(3) due(2) z(2) show ?thesis by (intro exI [of _ cs1]) simp
    next
      case False
      let ?k1 = "set_callout cs1 k"
      let ?k2 = "fold ?run ?Z ?k1"
      have rd: "run_due run 0 ?k1 = Ret (length ?Z) ?k2"
        using run_due_abs [of run ?k1 0] assms(1) t(2,3) dues_now [of 0 cs1] by (simp add: clk)
      obtain cs2 where m: "move_down (length ?Z) 0 cs1 = Some cs2" "calls_ok 0 cs2"
        "dues 0 cs2 = filter (\<lambda>e. fst e \<noteq> 0) (dues 0 cs1)"
        using move_down_abs [of 0 "length ?Z" 0 cs1] dues_split [OF t(3) refl] by auto
      have "callouts run k = Ret () (set_callout cs2 ?k2)"
        using Some c t(1) c1 False rd m(1) by (simp add: callouts_def Let_def keep clk)
      with m(2,3) due same show ?thesis by metis
    qed
  qed
qed

subsection \<open>A concrete list\<close>

definition clock_kernel :: kernel where
  "clock_kernel = set_callout ([\<lparr>c_time = 1, c_arg = 7, c_func = Some 0\<rparr>, \<lparr>c_time = 2, c_arg = 8, c_func = Some 1\<rparr>]
     @ replicate 18 \<lparr>c_time = 0, c_arg = 0, c_func = None\<rparr>) zero_kernel"

definition note_call :: "nat \<Rightarrow> uint32_t \<Rightarrow> kernel \<Rightarrow> kernel" where
  "note_call f a = upd_u (\<lambda>u. u\<lparr>u_stime := a\<rparr>)"

lemma clock_kernel_calls:
  "calls_ok 0 (callout (k_clk clock_kernel))" "length (callout (k_clk clock_kernel)) = NCALL"
  "dues 0 (callout (k_clk clock_kernel)) = [(1, 0, 7), (3, 1, 8)]"
  proof -
  have r: "replicate 18 x = x # replicate 17 x" for x :: callo using replicate_Suc [of 17 x] by simp
  show "calls_ok 0 (callout (k_clk clock_kernel))" "length (callout (k_clk clock_kernel)) = NCALL"
    "dues 0 (callout (k_clk clock_kernel)) = [(1, 0, 7), (3, 1, 8)]"
    by (simp_all add: clock_kernel_def set_callout_def r)
qed

theorem timeout_schedules_witness:
  "calls_ok 0 (callout (k_clk clock_kernel)) \<and> unat (2 :: int32_t) < 2 ^ 31
   \<and> length (dues 0 (callout (k_clk clock_kernel))) + 1 < length (callout (k_clk clock_kernel))
   \<and> (\<exists>cs. timeout 5 9 2 clock_kernel = Ret () (set_callout cs clock_kernel) \<and> dues 0 cs = [(1, 0, 7), (2, 5, 9), (3, 1, 8)])"
proof -
  have h: "calls_ok 0 (callout (k_clk clock_kernel))" "unat (2 :: int32_t) < 2 ^ 31"
    "length (dues 0 (callout (k_clk clock_kernel))) + 1 < length (callout (k_clk clock_kernel))"
    by (simp_all add: clock_kernel_calls)
  have f: "filter (\<lambda>e. fst e \<le> unat (2 :: int32_t)) [(1 :: nat, 0 :: nat, 7 :: uint32_t), (3, 1, 8)] = [(1, 0, 7)]"
    "filter (\<lambda>e. fst e > unat (2 :: int32_t)) [(1 :: nat, 0 :: nat, 7 :: uint32_t), (3, 1, 8)] = [(3, 1, 8)]" by simp_all
  from timeout_schedules [OF h, of 5 9] h f show ?thesis unfolding clock_kernel_calls(3) by auto
qed

theorem tick_runs_due_witness:
  "(\<forall>f a k. k_clk (note_call f a k) = k_clk k) \<and> length (callout (k_clk clock_kernel)) = NCALL
   \<and> calls_ok 0 (callout (k_clk clock_kernel))
   \<and> (\<exists>cs1 cs2. callouts note_call clock_kernel
        = Ret () (set_callout cs2 (note_call 0 7 (set_callout cs1 clock_kernel))) \<and> dues 0 cs2 = [(2, 1, 8)])"
proof -
  have h: "k_clk (note_call f a k) = k_clk k" for f a k by (simp add: note_call_def)
  from tick_runs_due [where run = note_call, OF h clock_kernel_calls(2,1)] h clock_kernel_calls(1,2)
  show ?thesis unfolding clock_kernel_calls(3) by auto
qed

end
