(* ===== verification/Font.thy ===== *)
theory Font
  imports Prelude
begin

text \<open>
  The bitmap font of \<^verbatim>\<open>kernel/drivers/char/font.h\<close>: eight rows of pixels for each of the
  characters 0 to 127, the most significant bit the leftmost pixel.
\<close>

definition font8x8_basic :: "byte list list" where
  "font8x8_basic =
    [[0x00, 0x00, 0x00, 0x00, 0x00, 0x00, 0x00, 0x00],
     [0x7E, 0x81, 0xA5, 0x81, 0xBD, 0x99, 0x81, 0x7E],
     [0x7E, 0xFF, 0xDB, 0xFF, 0xC3, 0xE7, 0xFF, 0x7E],
     [0x6C, 0xFE, 0xFE, 0xFE, 0x7C, 0x38, 0x10, 0x00],
     [0x10, 0x38, 0x7C, 0xFE, 0x7C, 0x38, 0x10, 0x00],
     [0x38, 0x7C, 0x38, 0xFE, 0xFE, 0x7C, 0x38, 0x7C],
     [0x10, 0x10, 0x38, 0x7C, 0xFE, 0x7C, 0x38, 0x7C],
     [0x00, 0x00, 0x18, 0x3C, 0x3C, 0x18, 0x00, 0x00],
     [0xFF, 0xFF, 0xE7, 0xC3, 0xC3, 0xE7, 0xFF, 0xFF],
     [0x00, 0x3C, 0x66, 0x42, 0x42, 0x66, 0x3C, 0x00],
     [0xFF, 0xC3, 0x99, 0xBD, 0xBD, 0x99, 0xC3, 0xFF],
     [0x0F, 0x07, 0x0F, 0x7D, 0xCC, 0xCC, 0xCC, 0x78],
     [0x3C, 0x66, 0x66, 0x66, 0x3C, 0x18, 0x7E, 0x18],
     [0x3F, 0x33, 0x3F, 0x30, 0x30, 0x70, 0xF0, 0xE0],
     [0x7F, 0x63, 0x7F, 0x63, 0x63, 0x67, 0xE6, 0xC0],
     [0x99, 0x5A, 0x3C, 0xE7, 0xE7, 0x3C, 0x5A, 0x99],
     [0x80, 0xE0, 0xF8, 0xFE, 0xF8, 0xE0, 0x80, 0x00],
     [0x02, 0x0E, 0x3E, 0xFE, 0x3E, 0x0E, 0x02, 0x00],
     [0x18, 0x3C, 0x7E, 0x18, 0x18, 0x7E, 0x3C, 0x18],
     [0x66, 0x66, 0x66, 0x66, 0x66, 0x00, 0x66, 0x00],
     [0x7F, 0xDB, 0xDB, 0x7B, 0x1B, 0x1B, 0x1B, 0x00],
     [0x3E, 0x63, 0x38, 0x6C, 0x6C, 0x38, 0xCC, 0x78],
     [0x00, 0x00, 0x00, 0x00, 0x7E, 0x7E, 0x7E, 0x00],
     [0x18, 0x3C, 0x7E, 0x18, 0x7E, 0x3C, 0x18, 0xFF],
     [0x18, 0x3C, 0x7E, 0x18, 0x18, 0x18, 0x18, 0x00],
     [0x18, 0x18, 0x18, 0x18, 0x7E, 0x3C, 0x18, 0x00],
     [0x00, 0x18, 0x0C, 0x06, 0x06, 0x0C, 0x18, 0x00],
     [0x00, 0x18, 0x30, 0x60, 0x60, 0x30, 0x18, 0x00],
     [0x00, 0x00, 0xC0, 0xC0, 0xC0, 0x00, 0x00, 0x00],
     [0x00, 0x00, 0x18, 0x18, 0x00, 0x18, 0x18, 0x00],
     [0x00, 0x00, 0x00, 0x82, 0x44, 0x28, 0x10, 0x00],
     [0x00, 0x00, 0x00, 0x10, 0x28, 0x44, 0x82, 0x00],
     [0x00, 0x00, 0x00, 0x00, 0x00, 0x00, 0x00, 0x00],
     [0x18, 0x3C, 0x3C, 0x18, 0x18, 0x00, 0x18, 0x00],
     [0x6C, 0x6C, 0x6C, 0x00, 0x00, 0x00, 0x00, 0x00],
     [0x6C, 0x6C, 0xFE, 0x6C, 0xFE, 0x6C, 0x6C, 0x00],
     [0x18, 0x7E, 0xC0, 0x7C, 0x06, 0x7E, 0x18, 0x00],
     [0x00, 0xC6, 0xCC, 0x18, 0x30, 0x66, 0xC6, 0x00],
     [0x38, 0x6C, 0x38, 0x76, 0xDC, 0xCC, 0x76, 0x00],
     [0x30, 0x30, 0x60, 0x00, 0x00, 0x00, 0x00, 0x00],
     [0x18, 0x30, 0x60, 0x60, 0x60, 0x30, 0x18, 0x00],
     [0x60, 0x30, 0x18, 0x18, 0x18, 0x30, 0x60, 0x00],
     [0x00, 0x66, 0x3C, 0xFF, 0x3C, 0x66, 0x00, 0x00],
     [0x00, 0x18, 0x18, 0x7E, 0x18, 0x18, 0x00, 0x00],
     [0x00, 0x00, 0x00, 0x00, 0x00, 0x18, 0x18, 0x30],
     [0x00, 0x00, 0x00, 0x7E, 0x00, 0x00, 0x00, 0x00],
     [0x00, 0x00, 0x00, 0x00, 0x00, 0x18, 0x18, 0x00],
     [0x00, 0x06, 0x0C, 0x18, 0x30, 0x60, 0x00, 0x00],
     [0x3C, 0x66, 0x6E, 0x76, 0x66, 0x66, 0x3C, 0x00],
     [0x18, 0x38, 0x18, 0x18, 0x18, 0x18, 0x7E, 0x00],
     [0x3C, 0x66, 0x06, 0x3C, 0x60, 0x66, 0x7E, 0x00],
     [0x3C, 0x66, 0x06, 0x1C, 0x06, 0x66, 0x3C, 0x00],
     [0x0C, 0x1C, 0x3C, 0x6C, 0xFE, 0x0C, 0x0C, 0x00],
     [0x7E, 0x60, 0x7C, 0x06, 0x06, 0x66, 0x3C, 0x00],
     [0x3C, 0x60, 0x7C, 0x66, 0x66, 0x66, 0x3C, 0x00],
     [0x7E, 0x06, 0x06, 0x0C, 0x18, 0x30, 0x30, 0x00],
     [0x3C, 0x66, 0x3C, 0x66, 0x66, 0x66, 0x3C, 0x00],
     [0x3C, 0x66, 0x66, 0x66, 0x3E, 0x06, 0x3C, 0x00],
     [0x00, 0x18, 0x18, 0x00, 0x00, 0x18, 0x18, 0x00],
     [0x00, 0x18, 0x18, 0x00, 0x00, 0x18, 0x18, 0x30],
     [0x0C, 0x18, 0x30, 0x60, 0x30, 0x18, 0x0C, 0x00],
     [0x00, 0x00, 0x7E, 0x00, 0x7E, 0x00, 0x00, 0x00],
     [0x30, 0x18, 0x0C, 0x06, 0x0C, 0x18, 0x30, 0x00],
     [0x3C, 0x66, 0x06, 0x0C, 0x18, 0x00, 0x18, 0x00],
     [0x3C, 0x66, 0x6E, 0x6E, 0x60, 0x62, 0x3C, 0x00],
     [0x18, 0x3C, 0x66, 0x66, 0x7E, 0x66, 0x66, 0x00],
     [0x7C, 0x66, 0x66, 0x7C, 0x66, 0x66, 0x7C, 0x00],
     [0x3C, 0x66, 0x60, 0x60, 0x60, 0x66, 0x3C, 0x00],
     [0x78, 0x6C, 0x66, 0x66, 0x66, 0x6C, 0x78, 0x00],
     [0x7E, 0x60, 0x60, 0x78, 0x60, 0x60, 0x7E, 0x00],
     [0x7E, 0x60, 0x60, 0x78, 0x60, 0x60, 0x60, 0x00],
     [0x3C, 0x66, 0x60, 0x6E, 0x66, 0x66, 0x3C, 0x00],
     [0x66, 0x66, 0x66, 0x7E, 0x66, 0x66, 0x66, 0x00],
     [0x3C, 0x18, 0x18, 0x18, 0x18, 0x18, 0x3C, 0x00],
     [0x1E, 0x0C, 0x0C, 0x0C, 0xCC, 0xCC, 0x78, 0x00],
     [0x66, 0x6C, 0x78, 0x70, 0x78, 0x6C, 0x66, 0x00],
     [0x60, 0x60, 0x60, 0x60, 0x60, 0x60, 0x7E, 0x00],
     [0x63, 0x77, 0x7F, 0x7F, 0x6B, 0x63, 0x63, 0x00],
     [0x66, 0x76, 0x7E, 0x7E, 0x6E, 0x66, 0x66, 0x00],
     [0x3C, 0x66, 0x66, 0x66, 0x66, 0x66, 0x3C, 0x00],
     [0x7C, 0x66, 0x66, 0x7C, 0x60, 0x60, 0x60, 0x00],
     [0x3C, 0x66, 0x66, 0x66, 0x6A, 0x6C, 0x36, 0x00],
     [0x7C, 0x66, 0x66, 0x7C, 0x6C, 0x66, 0x66, 0x00],
     [0x3C, 0x66, 0x60, 0x3C, 0x06, 0x66, 0x3C, 0x00],
     [0x7E, 0x18, 0x18, 0x18, 0x18, 0x18, 0x18, 0x00],
     [0x66, 0x66, 0x66, 0x66, 0x66, 0x66, 0x3C, 0x00],
     [0x66, 0x66, 0x66, 0x66, 0x66, 0x3C, 0x18, 0x00],
     [0x63, 0x63, 0x63, 0x6B, 0x7F, 0x77, 0x63, 0x00],
     [0x66, 0x66, 0x3C, 0x18, 0x3C, 0x66, 0x66, 0x00],
     [0x66, 0x66, 0x66, 0x3C, 0x18, 0x18, 0x18, 0x00],
     [0x7E, 0x06, 0x0C, 0x18, 0x30, 0x60, 0x7E, 0x00],
     [0x3C, 0x30, 0x30, 0x30, 0x30, 0x30, 0x3C, 0x00],
     [0x00, 0x60, 0x30, 0x18, 0x0C, 0x06, 0x00, 0x00],
     [0x3C, 0x0C, 0x0C, 0x0C, 0x0C, 0x0C, 0x3C, 0x00],
     [0x08, 0x1C, 0x36, 0x63, 0x00, 0x00, 0x00, 0x00],
     [0x00, 0x00, 0x00, 0x00, 0x00, 0x00, 0x00, 0xFF],
     [0x18, 0x0C, 0x06, 0x00, 0x00, 0x00, 0x00, 0x00],
     [0x00, 0x00, 0x3C, 0x06, 0x3E, 0x66, 0x3E, 0x00],
     [0x60, 0x60, 0x7C, 0x66, 0x66, 0x66, 0x7C, 0x00],
     [0x00, 0x00, 0x3C, 0x60, 0x60, 0x60, 0x3C, 0x00],
     [0x06, 0x06, 0x3E, 0x66, 0x66, 0x66, 0x3E, 0x00],
     [0x00, 0x00, 0x3C, 0x66, 0x7E, 0x60, 0x3C, 0x00],
     [0x1C, 0x30, 0x78, 0x30, 0x30, 0x30, 0x30, 0x00],
     [0x00, 0x00, 0x3E, 0x66, 0x66, 0x3E, 0x06, 0x3C],
     [0x60, 0x60, 0x7C, 0x66, 0x66, 0x66, 0x66, 0x00],
     [0x18, 0x00, 0x18, 0x18, 0x18, 0x18, 0x18, 0x00],
     [0x06, 0x00, 0x06, 0x06, 0x06, 0x06, 0x66, 0x3C],
     [0x60, 0x60, 0x66, 0x6C, 0x78, 0x6C, 0x66, 0x00],
     [0x38, 0x18, 0x18, 0x18, 0x18, 0x18, 0x3C, 0x00],
     [0x00, 0x00, 0xEC, 0xFE, 0xD6, 0xD6, 0xD6, 0x00],
     [0x00, 0x00, 0xDC, 0x66, 0x66, 0x66, 0x66, 0x00],
     [0x00, 0x00, 0x3C, 0x66, 0x66, 0x66, 0x3C, 0x00],
     [0x00, 0x00, 0xDC, 0x66, 0x66, 0x7C, 0x60, 0x60],
     [0x00, 0x00, 0x3E, 0x66, 0x66, 0x3E, 0x06, 0x06],
     [0x00, 0x00, 0xDE, 0x76, 0x60, 0x60, 0x60, 0x00],
     [0x00, 0x00, 0x3C, 0x60, 0x3C, 0x06, 0x3C, 0x00],
     [0x30, 0x30, 0x7C, 0x30, 0x30, 0x30, 0x1C, 0x00],
     [0x00, 0x00, 0x66, 0x66, 0x66, 0x66, 0x3E, 0x00],
     [0x00, 0x00, 0x66, 0x66, 0x66, 0x3C, 0x18, 0x00],
     [0x00, 0x00, 0xD6, 0xD6, 0xD6, 0xFE, 0x6C, 0x00],
     [0x00, 0x00, 0x66, 0x3C, 0x18, 0x3C, 0x66, 0x00],
     [0x00, 0x00, 0x66, 0x66, 0x66, 0x3E, 0x0C, 0x38],
     [0x00, 0x00, 0x7E, 0x0C, 0x18, 0x30, 0x7E, 0x00],
     [0x0E, 0x18, 0x18, 0x70, 0x18, 0x18, 0x0E, 0x00],
     [0x18, 0x18, 0x18, 0x18, 0x18, 0x18, 0x18, 0x00],
     [0x70, 0x18, 0x18, 0x0E, 0x18, 0x18, 0x70, 0x00],
     [0x3B, 0x6E, 0x00, 0x00, 0x00, 0x00, 0x00, 0x00],
     [0x7F, 0x7F, 0x7F, 0x7F, 0x7F, 0x7F, 0x7F, 0x00]]"

lemma font_length: "length font8x8_basic = 128"
  by (simp add: font8x8_basic_def)

lemma font_rows: "\<forall>r \<in> set font8x8_basic. length r = 8"
  by (simp add: font8x8_basic_def)

end
