(* ===== verification/Screen.thy ===== *)
theory Screen
  imports Kernel_State Font
begin

text \<open>
  \<^verbatim>\<open>kernel/prf.c\<close> and \<^verbatim>\<open>kernel/drivers/char/fb.c\<close>: the text screen, the frame buffer
  that replaces it, the serial line, and \<^verbatim>\<open>kprintf\<close> on top of them.  The text screen is the
  first 2000 of the 16-bit cells from \<^verbatim>\<open>0xB8000\<close> on: the video memory is a function, so that a
  store past the screen shows.  The serial line is the list of the bytes sent, and the frame
  buffer a memory of bytes.  What \<^verbatim>\<open>kprintf\<close> prints is specified as a text written with a
  pen on an endless sheet, of which the screen shows the last lines.
\<close>

subsection \<open>The frame buffer\<close>

record fbuf =
  fb_addr :: uint32_t
  fb_width :: uint32_t
  fb_height :: uint32_t
  fb_pitch :: uint32_t
  fb_bpp :: uint32_t
  cur_x :: uint32_t
  cur_y :: uint32_t
  fb_mem :: "uint32_t \<Rightarrow> byte"

definition store_pixel :: "uint32_t \<Rightarrow> uint32_t \<Rightarrow> fbuf \<Rightarrow> fbuf" where
  "store_pixel a color f =
     f\<lparr>fb_mem := (\<lambda>x. if unat (x - a) < 4 then put32 (\<lambda>_. 0) 0 color (unat (x - a)) else fb_mem f x)\<rparr>"

text \<open>The coordinates are \<^verbatim>\<open>int\<close>, the address arithmetic is unsigned.\<close>

definition fb_put_pixel :: "int32_t \<Rightarrow> int32_t \<Rightarrow> uint32_t \<Rightarrow> fbuf \<Rightarrow> fbuf" where
  "fb_put_pixel x y color f =
     (if fb_addr f = 0 then f
      else if sint x < 0 \<or> sint x \<ge> sint (fb_width f) \<or> sint y < 0 \<or> sint y \<ge> sint (fb_height f) then f
      else store_pixel (fb_addr f + y * fb_pitch f + x * 4) color f)"

definition fb_clear :: "fbuf \<Rightarrow> fbuf" where
  "fb_clear f =
     (if fb_addr f = 0 then f
      else (fold (\<lambda>y. fold (\<lambda>x. store_pixel (fb_addr f + of_nat y * fb_pitch f + of_nat x * 4) 0)
              [0..<unat (fb_width f)]) [0..<unat (fb_height f)] f)\<lparr>cur_x := 0, cur_y := 0\<rparr>)"

text \<open>\<^verbatim>\<open>fb_init\<close>, from the five fields of the multiboot information it reads; the 64-bit
  address is truncated.\<close>

definition fb_init :: "64 word \<Rightarrow> uint32_t \<Rightarrow> uint32_t \<Rightarrow> uint32_t \<Rightarrow> uint8_t \<Rightarrow> fbuf \<Rightarrow> fbuf" where
  "fb_init a w h pitch bpp f =
     fb_clear (f\<lparr>fb_addr := ucast a, fb_width := w, fb_height := h, fb_pitch := pitch,
       fb_bpp := ucast bpp, cur_x := 0, cur_y := 0\<rparr>)"

definition draw_row :: "byte \<Rightarrow> nat \<Rightarrow> fbuf \<Rightarrow> fbuf" where
  "draw_row bits y = fold (\<lambda>x f. if bit bits (7 - x)
     then fb_put_pixel (cur_x f + of_nat x) (cur_y f + of_nat y) 0x00FFFFFF f else f) [0..<8]"

definition fb_putc :: "byte \<Rightarrow> fbuf \<Rightarrow> fbuf" where
  "fb_putc c f =
     (if fb_addr f = 0 then f
      else if c = 10 then f\<lparr>cur_x := 0, cur_y := cur_y f + 10\<rparr>
      else if c = 13 then f\<lparr>cur_x := 0\<rparr>
      else
        (let f1 = (if cur_x f + 8 \<ge> fb_width f then f\<lparr>cur_x := 0, cur_y := cur_y f + 10\<rparr> else f);
             idx = (if unat c > 127 then 127 else unat c);
             f2 = fold (\<lambda>y. draw_row (font8x8_basic ! idx ! y) y) [0..<8] f1
         in f2\<lparr>cur_x := cur_x f2 + 9\<rparr>))"

subsection \<open>The text screen\<close>

abbreviation (input) VGA_WIDTH :: nat where "VGA_WIDTH \<equiv> 80"
abbreviation (input) VGA_HEIGHT :: nat where "VGA_HEIGHT \<equiv> 25"

definition cell :: "byte \<Rightarrow> uint16_t" where
  "cell c = 0x0F00 OR ucast c"

record screen =
  vga :: "nat \<Rightarrow> uint16_t"
  vga_row :: nat
  vga_col :: nat
  fb :: fbuf
  serial :: "byte list"

definition vga_scroll :: "(nat \<Rightarrow> uint16_t) \<Rightarrow> nat \<Rightarrow> uint16_t" where
  "vga_scroll v =
     (let lim = (VGA_HEIGHT - 1) * VGA_WIDTH;
          v1 = fold (\<lambda>i v. v(i := v (i + VGA_WIDTH))) [0..<lim] v
      in fold (\<lambda>i v. v(i := cell 32)) [lim..<VGA_HEIGHT * VGA_WIDTH] v1)"

text \<open>The end of \<^verbatim>\<open>vga_putchar\<close>: past the last column the cursor goes to the next line, and
  past the last line the screen scrolls, once for each line.\<close>

primrec scroll_up :: "nat \<Rightarrow> screen \<Rightarrow> screen" where
  "scroll_up 0 s = s"
| "scroll_up (Suc n) s = scroll_up n (s\<lparr>vga := vga_scroll (vga s), vga_row := vga_row s - 1\<rparr>)"

definition wrap_cursor :: "screen \<Rightarrow> screen" where
  "wrap_cursor s =
     (let s1 = (if vga_col s \<ge> VGA_WIDTH then s\<lparr>vga_col := 0, vga_row := vga_row s + 1\<rparr> else s)
      in scroll_up (vga_row s1 + 1 - VGA_HEIGHT) s1)"

definition put_cell :: "byte \<Rightarrow> screen \<Rightarrow> screen" where
  "put_cell c s =
     s\<lparr>vga := (vga s)(vga_row s * VGA_WIDTH + vga_col s := cell c), vga_col := vga_col s + 1\<rparr>"

definition vga_putchar :: "byte \<Rightarrow> screen \<Rightarrow> screen" where
  "vga_putchar c s =
     (if fb_addr (fb s) \<noteq> 0 then s\<lparr>fb := fb_putc c (fb s)\<rparr>
      else wrap_cursor
        (if c = 10 then s\<lparr>vga_col := 0, vga_row := vga_row s + 1\<rparr>
         else if c = 13 then s\<lparr>vga_col := 0\<rparr>
         else if c = 9 then s\<lparr>vga_col := (vga_col s + 8) div 8 * 8\<rparr>
         else put_cell c s))"

definition vga_clear :: "screen \<Rightarrow> screen" where
  "vga_clear s =
     (if fb_addr (fb s) \<noteq> 0 then s\<lparr>fb := fb_clear (fb s)\<rparr>
      else (s\<lparr>vga := fold (\<lambda>i v. v(i := cell 32)) [0..<VGA_WIDTH * VGA_HEIGHT] (vga s)\<rparr>)
             \<lparr>vga_row := 0, vga_col := 0\<rparr>)"

definition serial_putchar :: "byte \<Rightarrow> screen \<Rightarrow> screen" where
  "serial_putchar c s = s\<lparr>serial := serial s @ [c]\<rparr>"

subsection \<open>Strings and numbers\<close>

text \<open>A C string is the list of its bytes before the null.\<close>

definition serial_puts :: "byte list \<Rightarrow> screen \<Rightarrow> screen" where
  "serial_puts = fold (\<lambda>c s. serial_putchar c (if c = 10 then serial_putchar 13 s else s))"

definition vga_puts :: "byte list \<Rightarrow> screen \<Rightarrow> screen" where
  "vga_puts = fold vga_putchar"

definition console_puts :: "byte list \<Rightarrow> screen \<Rightarrow> screen" where
  "console_puts cs s = serial_puts cs (vga_puts cs s)"

text \<open>A character on both, in the order of \<^verbatim>\<open>kprintf\<close>.\<close>

definition both :: "byte \<Rightarrow> screen \<Rightarrow> screen" where
  "both c s = vga_putchar c (serial_putchar c s)"

text \<open>The buffer of \<^verbatim>\<open>print_int\<close> and \<^verbatim>\<open>print_hex\<close>, the last digit first, and what is
  sent.  The value \<open>- 2 ^ 31\<close> is its own negative and has no digits.\<close>

fun dec_digits :: "nat \<Rightarrow> byte list" where
  "dec_digits n = (if n = 0 then [] else of_nat (48 + n mod 10) # dec_digits (n div 10))"

definition print_int_chars :: "int32_t \<Rightarrow> byte list" where
  "print_int_chars w =
     (let neg = sint w < 0; n = (if neg then - w else w)
      in if n = 0 then [48]
         else (if neg then [45] else []) @ rev (dec_digits (nat (sint n))))"

definition print_int :: "int32_t \<Rightarrow> screen \<Rightarrow> screen" where
  "print_int w = fold both (print_int_chars w)"

definition hex_digit :: "nat \<Rightarrow> byte" where
  "hex_digit d = (if d < 10 then of_nat (48 + d) else of_nat (87 + d))"

fun hex_digits :: "nat \<Rightarrow> byte list" where
  "hex_digits n = (if n = 0 then [] else hex_digit (n mod 16) # hex_digits (n div 16))"

definition print_hex_chars :: "uint32_t \<Rightarrow> byte list" where
  "print_hex_chars w = (if w = 0 then [48] else rev (hex_digits (unat w)))"

definition print_hex :: "uint32_t \<Rightarrow> screen \<Rightarrow> screen" where
  "print_hex w = fold both (print_hex_chars w)"

declare dec_digits.simps [simp del] hex_digits.simps [simp del]

subsection \<open>kprintf\<close>

text \<open>The arguments behind the format.  \<open>None\<close> is a call whose arguments do not fit the format
  (undefined in C), and a null string prints nothing.\<close>

datatype karg = KInt uint32_t | KStr "byte list option"

definition skip_width :: "byte list \<Rightarrow> byte list" where
  "skip_width f = dropWhile (\<lambda>c. 48 \<le> c \<and> c \<le> 57)
     (case f of [] \<Rightarrow> [] | c # f' \<Rightarrow> if c = 45 then f' else f)"

lemma skip_width_length: "length (skip_width f) \<le> length f"
proof -
  have "length (dropWhile P xs) \<le> length xs" for P and xs :: "byte list"
    by (simp add: length_dropWhile_le)
  then show ?thesis unfolding skip_width_def by (cases f) (auto intro: le_SucI)
qed

lemma skip_width_tail: "skip_width f = d # f' \<Longrightarrow> length f' < Suc (length f)"
  using skip_width_length [of f] by simp

text \<open>At a null byte after \<^verbatim>\<open>%\<close> the C code prints it and goes on past the end of the string:
  also \<open>None\<close>.\<close>

function kprintf :: "byte list \<Rightarrow> karg list \<Rightarrow> screen \<Rightarrow> screen option" where
  "kprintf [] args s = Some s"
| "kprintf (c # f) args s =
     (if c \<noteq> 37 then kprintf f args (both c (if c = 10 then serial_putchar 13 s else s))
      else (case skip_width f of
          [] \<Rightarrow> None
        | d # f' \<Rightarrow>
            if d = 100 then (case args of KInt w # r \<Rightarrow> kprintf f' r (print_int w s) | _ \<Rightarrow> None)
            else if d = 120 then (case args of KInt w # r \<Rightarrow> kprintf f' r (print_hex w s) | _ \<Rightarrow> None)
            else if d = 115 then
              (case args of KStr None # r \<Rightarrow> kprintf f' r s
               | KStr (Some cs) # r \<Rightarrow> kprintf f' r (console_puts cs s) | _ \<Rightarrow> None)
            else if d = 99 then (case args of KInt w # r \<Rightarrow> kprintf f' r (both (ucast w) s) | _ \<Rightarrow> None)
            else if d = 37 then kprintf f' args (both 37 s)
            else kprintf f' args (both d (both 37 s))))"
  by pat_completeness auto
termination
  by (relation "measure (\<lambda>(f, _, _). length f)") (auto dest: skip_width_tail)

text \<open>\<^verbatim>\<open>panic\<close> up to the halt, and \<^verbatim>\<open>prdev\<close>.\<close>

definition panic_message :: "byte list \<Rightarrow> screen \<Rightarrow> screen" where
  "panic_message msg s =
     console_puts [10] (console_puts msg (console_puts [10, 10, 112, 97, 110, 105, 99, 58, 32] s))"

definition prdev :: "byte list \<Rightarrow> dev_t \<Rightarrow> screen \<Rightarrow> screen option" where
  "prdev msg dev =
     kprintf [37, 115, 32, 111, 110, 32, 100, 101, 118, 32, 37, 100, 47, 37, 100, 10]
       [KStr (Some msg), KInt (of_nat (major dev)), KInt (of_nat (minor dev))]"

subsection \<open>What is printed, on paper\<close>

text \<open>The text a format stands for, the bytes in the order they reach the screen.\<close>

function format_text :: "byte list \<Rightarrow> karg list \<Rightarrow> byte list option" where
  "format_text [] args = Some []"
| "format_text (c # f) args =
     (if c \<noteq> 37 then map_option ((@) [c]) (format_text f args)
      else (case (skip_width f, args) of
          ([], _) \<Rightarrow> None
        | (d # f', args) \<Rightarrow>
            if d \<in> {100, 120, 115, 99} then
              (case args of [] \<Rightarrow> None
               | a # r \<Rightarrow> (case (if d = 115 then (case a of KStr cs \<Rightarrow> Some (case cs of None \<Rightarrow> [] | Some t \<Rightarrow> t) | _ \<Rightarrow> None)
                    else (case a of KInt w \<Rightarrow>
                      Some (if d = 100 then print_int_chars w else if d = 120 then print_hex_chars w else [ucast w]) | _ \<Rightarrow> None)) of
                  None \<Rightarrow> None | Some t \<Rightarrow> map_option ((@) t) (format_text f' r)))
            else map_option ((@) (if d = 37 then [37] else [37, d])) (format_text f' args)))"
  by pat_completeness auto
termination
  by (relation "measure (\<lambda>(f, _). length f)") (auto dest: skip_width_tail [OF sym])

text \<open>A sheet of lines of 80 columns without an end, a pen on it, and the first of the 25 lines in
  view: the view follows the pen down, never further than it must.\<close>

record paper =
  sheet :: "nat \<Rightarrow> nat \<Rightarrow> uint16_t"
  pen_row :: nat
  pen_col :: nat
  first_seen :: nat

definition pen_line :: "paper \<Rightarrow> paper" where
  "pen_line p = p\<lparr>pen_col := 0, pen_row := pen_row p + 1,
     first_seen := max (first_seen p) (pen_row p + 2 - VGA_HEIGHT)\<rparr>"

definition pen_wrap :: "paper \<Rightarrow> paper" where
  "pen_wrap p = (if pen_col p \<ge> VGA_WIDTH then pen_line p else p)"

definition pen_putc :: "byte \<Rightarrow> paper \<Rightarrow> paper" where
  "pen_putc c p =
     (if c = 10 then pen_line p
      else if c = 13 then p\<lparr>pen_col := 0\<rparr>
      else if c = 9 then pen_wrap (p\<lparr>pen_col := (pen_col p + 8) div 8 * 8\<rparr>)
      else pen_wrap (p\<lparr>sheet := (\<lambda>r k. if r = pen_row p \<and> k = pen_col p then cell c else sheet p r k),
                     pen_col := pen_col p + 1\<rparr>))"

text \<open>The screen shows the 25 lines in view, with the cursor at the pen; the lines below them are
  still blank.\<close>

definition window :: "(nat \<Rightarrow> uint16_t) \<Rightarrow> nat \<Rightarrow> (nat \<Rightarrow> nat \<Rightarrow> uint16_t) \<Rightarrow> bool" where
  "window v top_line sh \<longleftrightarrow> (\<forall>k<VGA_WIDTH.
     (\<forall>r<VGA_HEIGHT. v (r * VGA_WIDTH + k) = sh (top_line + r) k)
     \<and> (\<forall>r. VGA_HEIGHT \<le> r \<longrightarrow> sh (top_line + r) k = cell 32))"

definition shows_paper :: "screen \<Rightarrow> paper \<Rightarrow> bool" where
  "shows_paper s p \<longleftrightarrow> fb_addr (fb s) = 0 \<and> vga_row s < VGA_HEIGHT \<and> vga_col s < VGA_WIDTH
     \<and> pen_col p = vga_col s \<and> pen_row p = first_seen p + vga_row s \<and> window (vga s) (first_seen p) (sheet p)"

text \<open>Scrolling moves every line up by one, blanks the last and leaves the memory after it.\<close>

lemma copy_down:
  "fold (\<lambda>i v. v(i := v (i + d))) [0..<n] v = (\<lambda>i. if i < n then v (i + d) else v i)"
  by (induction n) (auto simp: fun_eq_iff)

lemma blank_range:
  "fold (\<lambda>i v. v(i := x)) [m..<n] v = (\<lambda>i. if m \<le> i \<and> i < n then x else v i)"
  by (induction n) (auto simp: fun_eq_iff)

lemma vga_scroll_eq:
  "vga_scroll v i = (if i < 1920 then v (i + 80) else if i < 2000 then cell 32 else v i)"
  by (simp add: vga_scroll_def Let_def copy_down blank_range del: upt_Suc upt_conv_Cons_Cons)

lemma window_scroll:
  assumes "window v t sh"
  shows "window (vga_scroll v) (Suc t) sh"
proof -
  have v: "v (r * 80 + k) = sh (t + r) k" if "k < 80" "r < 25" for r k
    using assms that by (simp add: window_def)
  have b: "sh (t + r) k = cell 32" if "k < 80" "25 \<le> r" for r k
    using assms that by (simp add: window_def)
  have "vga_scroll v (r * 80 + k) = sh (Suc t + r) k" if "k < 80" "r < 25" for r k
  proof (cases "r < 24")
    case True
    then have "r * 80 + k < 1920" using that by linarith
    then show ?thesis using v [of k "Suc r"] that(1) True by (simp add: vga_scroll_eq ac_simps)
  next
    case False
    then have "r = 24" using that by simp
    then show ?thesis using b [of k 25] that(1) by (simp add: vga_scroll_eq add.commute)
  qed
  moreover have "sh (Suc t + r) k = cell 32" if "k < 80" "25 \<le> r" for r k
    using b [of k "Suc r"] that by simp
  ultimately show ?thesis by (simp add: window_def)
qed

lemma window_put:
  assumes "window v t sh" "row < 25" "col < 80"
  shows "window (v(row * 80 + col := x)) t (\<lambda>r k. if r = t + row \<and> k = col then x else sh r k)"
proof -
  have "(r * 80 + k = row * 80 + col) = (r = row \<and> k = col)" if "k < 80" for r k :: nat
  proof
    assume e: "r * 80 + k = row * 80 + col"
    from arg_cong [OF e, of "\<lambda>n. n div 80"] arg_cong [OF e, of "\<lambda>n. n mod 80"] that assms(3)
    show "r = row \<and> k = col" by simp
  qed simp
  with assms(1,2) show ?thesis unfolding window_def by (simp del: add_mult_distrib)
qed

lemma wrap_cursor_stays:
  assumes "vga_row s < 25" "vga_col s < 80"
  shows "wrap_cursor s = s"
  using assms by (simp add: wrap_cursor_def)

text \<open>The cursor goes down a line, as the pen does.\<close>

lemma scroll_up_line:
  assumes "shows_paper s p"
  shows "let s' = scroll_up (vga_row s + 2 - 25) (s\<lparr>vga_col := 0, vga_row := vga_row s + 1\<rparr>)
    in shows_paper s' (pen_line p) \<and> (\<forall>i\<ge>2000. vga s' i = vga s i)"
proof (cases "vga_row s = 24")
  case True
  then have "max (first_seen p) (pen_row p + 2 - 25) = Suc (first_seen p)"
    using assms by (simp add: shows_paper_def)
  moreover have "window (vga_scroll (vga s)) (Suc (first_seen p)) (sheet p)"
    using assms by (simp add: shows_paper_def window_scroll)
  ultimately show ?thesis using assms True by (simp add: shows_paper_def pen_line_def vga_scroll_eq)
next
  case False
  then have r: "vga_row s < 24" "pen_row p = first_seen p + vga_row s" using assms by (auto simp: shows_paper_def)
  then have "max (first_seen p) (pen_row p + 2 - 25) = first_seen p" "vga_row s + 2 - 25 = 0"
    by (auto intro: max_absorb1)
  with assms r(1) show ?thesis by (simp add: shows_paper_def pen_line_def)
qed

lemma wrap_cursor_line:
  assumes "fb_addr (fb s) = 0" "vga_row s < 25" "80 \<le> vga_col s" "pen_col p = vga_col s"
    "pen_row p = first_seen p + vga_row s" "window (vga s) (first_seen p) (sheet p)"
  shows "shows_paper (wrap_cursor s) (pen_wrap p) \<and> (\<forall>i\<ge>2000. vga (wrap_cursor s) i = vga s i)"
proof -
  have "shows_paper (s\<lparr>vga_col := 0\<rparr>) (p\<lparr>pen_col := 0\<rparr>)" using assms by (simp add: shows_paper_def)
  from scroll_up_line [OF this] assms(3,4) show ?thesis
    by (simp add: Let_def wrap_cursor_def pen_wrap_def pen_line_def)
qed

lemma vga_putchar_shows:
  assumes "shows_paper s p"
  shows "shows_paper (vga_putchar c s) (pen_putc c p) \<and> (\<forall>i\<ge>2000. vga (vga_putchar c s) i = vga s i)"
proof -
  note s = assms [unfolded shows_paper_def]
  have wrap: "shows_paper (wrap_cursor t) (pen_wrap q) \<and> (\<forall>i\<ge>2000. vga (wrap_cursor t) i = vga t i)"
    if "fb_addr (fb t) = 0" "vga_row t < 25" "pen_col q = vga_col t"
      "pen_row q = first_seen q + vga_row t" "window (vga t) (first_seen q) (sheet q)" for t q
  proof (cases "vga_col t < 80")
    case True
    with that have "wrap_cursor t = t" "pen_wrap q = q" by (simp_all add: wrap_cursor_stays pen_wrap_def)
    with that True show ?thesis by (simp add: shows_paper_def)
  next
    case False
    with that show ?thesis by (intro wrap_cursor_line) simp_all
  qed
  consider "c = 10" | "c = 13" | "c = 9" | "c \<notin> {9, 10, 13}" by auto
  then show ?thesis
  proof cases
    case 1
    with s scroll_up_line [OF assms] show ?thesis
      by (simp add: vga_putchar_def pen_putc_def wrap_cursor_def Let_def)
  next
    case 2
    with s show ?thesis by (simp add: vga_putchar_def pen_putc_def wrap_cursor_stays shows_paper_def)
  next
    case 3
    with s wrap [of "s\<lparr>vga_col := (vga_col s + 8) div 8 * 8\<rparr>" "p\<lparr>pen_col := (pen_col p + 8) div 8 * 8\<rparr>"]
    show ?thesis by (simp add: vga_putchar_def pen_putc_def)
  next
    case 4
    let ?p = "p\<lparr>sheet := (\<lambda>r k. if r = pen_row p \<and> k = pen_col p then cell c else sheet p r k), pen_col := pen_col p + 1\<rparr>"
    have "vga_row s * 80 + vga_col s < 2000" using s by linarith
    then have out: "vga (put_cell c s) i = vga s i" if "i \<ge> 2000" for i
      using that by (simp add: put_cell_def)
    have "window (vga (put_cell c s)) (first_seen ?p) (sheet ?p)"
      using s window_put [of "vga s" "first_seen p" "sheet p" "vga_row s" "vga_col s" "cell c"]
      by (simp add: put_cell_def)
    with 4 s out wrap [of "put_cell c s" ?p] show ?thesis
      by (simp add: vga_putchar_def pen_putc_def put_cell_def)
  qed
qed

text \<open>Printing from one screen to another: the text on paper, and nothing past the screen.\<close>

definition prints :: "byte list \<Rightarrow> screen \<Rightarrow> screen \<Rightarrow> bool" where
  "prints cs s s' \<longleftrightarrow> (\<forall>p. shows_paper s p \<longrightarrow> shows_paper s' (fold pen_putc cs p) \<and> (\<forall>i\<ge>2000. vga s' i = vga s i))"

lemma prints_serial [simp]:
  "prints cs (serial_putchar c s) s' \<longleftrightarrow> prints cs s s'" "prints cs s (serial_putchar c s') \<longleftrightarrow> prints cs s s'"
  by (simp_all add: prints_def shows_paper_def serial_putchar_def)

lemma prints_Nil [simp, intro]: "prints [] s s"
  by (simp add: prints_def)

lemma prints_trans: "prints cs s s' \<Longrightarrow> prints ds s' s'' \<Longrightarrow> prints (cs @ ds) s s''"
  unfolding prints_def by (auto simp: fold_append)

lemma prints_vga: "prints [c] s (vga_putchar c s)"
  using vga_putchar_shows by (simp add: prints_def)

lemma prints_both: "prints [c] s (both c s)"
  using prints_vga [of c "serial_putchar c s"] by (simp add: both_def)

lemma prints_fold:
  assumes "\<And>c s. prints [c] s (g c s)"
  shows "prints cs s (fold g cs s)"
proof (induction cs arbitrary: s)
  case (Cons c cs)
  show ?case using prints_trans [OF assms [of c s] Cons.IH] by simp
qed simp

lemma prints_serial_puts: "prints [] s (serial_puts cs s)"
proof -
  have "prints ds s t \<Longrightarrow> prints ds s (serial_puts cs t)" for ds t
    by (induction cs arbitrary: t) (simp_all add: serial_puts_def)
  then show ?thesis by blast
qed

lemma prints_console_puts: "prints cs s (console_puts cs s)"
  using prints_trans [OF prints_fold [of vga_putchar cs s, OF prints_vga] prints_serial_puts [of "fold vga_putchar cs s" cs]]
  by (simp add: console_puts_def vga_puts_def)

lemma prints_numbers: "prints (print_int_chars w) s (print_int w s)" "prints (print_hex_chars w) s (print_hex w s)"
  unfolding print_int_def print_hex_def by (rule prints_fold [OF prints_both])+

lemmas printing = prints_both prints_console_puts prints_numbers prints_trans [OF prints_both prints_both, simplified]

definition yields :: "byte list option \<Rightarrow> screen \<Rightarrow> screen \<Rightarrow> bool" where
  "yields t s s' \<longleftrightarrow> (\<exists>cs. t = Some cs \<and> prints cs s s')"

lemma yields_join: "yields t s1 s' \<Longrightarrow> prints cs s s1 \<Longrightarrow> yields (map_option ((@) cs) t) s s'"
  unfolding yields_def using prints_trans by fastforce

lemma yields_join_Nil: "yields t s s' \<Longrightarrow> yields (map_option (\<lambda>x. x) t) s s'"
  by (simp add: yields_def)

lemma kprintf_yields:
  "kprintf f args s = Some s' \<Longrightarrow> yields (format_text f args) s s'"
proof (induction f args s arbitrary: s' rule: kprintf.induct)
  case (1 args s)
  then show ?case by (simp add: yields_def)
next
  case (2 c f args s)
  show ?case
  proof (cases "c = 37")
    case False
    let ?s = "if c = 10 then serial_putchar 13 s else s"
    have "kprintf f args (both c ?s) = Some s'"
      using 2(9) False by (subst (asm) kprintf.simps) simp
    moreover have "prints [c] s (both c ?s)" using prints_both [of c ?s] by (simp split: if_splits)
    ultimately have "yields (map_option ((@) [c]) (format_text f args)) s s'"
      by (intro yields_join [OF 2(1) [OF False]])
    with False show ?thesis unfolding format_text.simps(2) if_P [OF False] by simp
  next
    case True
    note run = 2(9) [unfolded kprintf.simps(2) [of c f args s]]
    show ?thesis
    proof (cases "skip_width f")
      case Nil
      with run True show ?thesis by simp
    next
      case (Cons d f')
      have nT: "\<not> c \<noteq> 37" using True by simp
      note IH = 2(2-8) [OF nT Cons]
      show ?thesis
        using run True Cons IH
        by (simp split: if_splits list.splits karg.splits option.splits del: append.simps)
          (auto intro!: yields_join printing simp del: append.simps)
    qed
  qed
qed

text \<open>C28: \<^verbatim>\<open>kprintf\<close> on a text screen prints the text of its format: if the screen shows the
  lines of the sheet around the pen, it does so again once the pen has written that text (line feeds,
  returns, tabs, wrapped lines, and as many new lines as it takes, for which the screen scrolls), with
  the cursor on the screen; and no cell of the video memory past the 2000 of the screen changes.\<close>

theorem kprintf_prints_text:
  assumes "shows_paper s p" "kprintf f args s = Some s'"
  shows "\<exists>cs. format_text f args = Some cs \<and> shows_paper s' (fold pen_putc cs p)
    \<and> vga_row s' < VGA_HEIGHT \<and> vga_col s' < VGA_WIDTH \<and> (\<forall>i\<ge>2000. vga s' i = vga s i)"
proof -
  obtain cs where cs: "format_text f args = Some cs" "prints cs s s'"
    using kprintf_yields [OF assms(2)] unfolding yields_def by blast
  then have "shows_paper s' (fold pen_putc cs p)" "\<forall>i\<ge>2000. vga s' i = vga s i"
    using assms(1) unfolding prints_def by blast+
  with cs(1) show ?thesis by (auto simp: shows_paper_def)
qed

definition blank_screen :: screen where
  "blank_screen = \<lparr>vga = (\<lambda>_. cell 32), vga_row = 24, vga_col = 79,
     fb = \<lparr>fb_addr = 0, fb_width = 0, fb_height = 0, fb_pitch = 0, fb_bpp = 0, cur_x = 0, cur_y = 0,
       fb_mem = (\<lambda>_. 0)\<rparr>, serial = []\<rparr>"

text \<open>\<^verbatim>\<open>kprintf("A%d\n", 42)\<close> with the cursor in the last cell: the letter stays at the end of
  the line, which scrolls up, and the digits begin the next line, which scrolls up as well.\<close>

theorem kprintf_prints_text_witness:
  "\<exists>s. kprintf [65, 37, 100, 10] [KInt 42] blank_screen = Some s \<and> vga_row s = 24 \<and> vga_col s = 0
    \<and> vga s (22 * 80 + 79) = cell 65 \<and> vga s (23 * 80) = cell 52 \<and> vga s (23 * 80 + 1) = cell 50
    \<and> vga s 2000 = cell 32"
proof -
  let ?p = "\<lparr>sheet = (\<lambda>_ _. cell 32), pen_row = 24, pen_col = 79, first_seen = 0\<rparr>"
  have b: "shows_paper blank_screen ?p" by (simp add: shows_paper_def window_def blank_screen_def)
  have d: "print_int_chars 42 = [52, 50]" by (simp add: print_int_chars_def dec_digits.simps)
  obtain s where s: "kprintf [65, 37, 100, 10] [KInt 42] blank_screen = Some s"
    by (simp add: skip_width_def)
  have t: "format_text [65, 37, 100, 10] [KInt 42] = Some [65, 52, 50, 10]"
    by (simp add: skip_width_def d)
  define q where "q = fold pen_putc [65, 52, 50, 10] ?p"
  have q: "pen_row q = 26" "pen_col q = 0" "first_seen q = 2"
    "sheet q 24 79 = cell 65" "sheet q 25 0 = cell 52" "sheet q 25 1 = cell 50"
    by (simp_all add: q_def pen_putc_def pen_wrap_def pen_line_def)
  from kprintf_prints_text [OF b s] t have w: "shows_paper s q" "vga s 2000 = vga blank_screen 2000"
    by (simp_all add: q_def)
  have v: "vga s (r * 80 + k) = sheet q (2 + r) k" if "r < 25" "k < 80" for r k
    using w(1) that q by (simp add: shows_paper_def window_def)
  from w(1) q have "vga_row s = 24" "vga_col s = 0" by (simp_all add: shows_paper_def)
  with s w(2) q v [of 22 79] v [of 23 0] v [of 23 1] show ?thesis by (simp add: blank_screen_def)
qed

end
