(* ===== verification/Tty.thy ===== *)
theory Tty
  imports Screen Fio Slp
begin

text \<open>
  \<^verbatim>\<open>kernel/tty.c\<close>: the character lists, the line discipline and the console terminal
  \<^verbatim>\<open>cons_tty\<close>, the only \<^verbatim>\<open>struct tty\<close> of the kernel.  The blocks of a character list are
  found by the alignment of its pointers, so the pool is modelled as the memory it is: \<open>cmem\<close>
  holds the bytes of \<^verbatim>\<open>cfree\<close>, where the 12 bytes of a \<^verbatim>\<open>struct cblock\<close> are the pointer
  \<^verbatim>\<open>c_next\<close>, \<^verbatim>\<open>info[6]\<close> and two bytes of padding, and a pointer is an address.  The
  terminal's fields that no code reads (\<^verbatim>\<open>t_oproc\<close>, \<^verbatim>\<open>t_iproc\<close>, \<^verbatim>\<open>t_addr\<close>,
  \<^verbatim>\<open>t_dev\<close>, \<^verbatim>\<open>t_char\<close>, \<^verbatim>\<open>t_speeds\<close>) are left out, and so is the count of
  \<^verbatim>\<open>cdevsw\<close> in \<^verbatim>\<open>cinit\<close>.
\<close>

subsection \<open>The terminal and its queues\<close>

record clist =
  c_cc :: int32_t
  c_cf :: uint32_t
  c_cl :: uint32_t

record tty =
  t_rawq :: clist
  t_canq :: clist
  t_outq :: clist
  t_flags :: int16_t
  t_state :: int16_t
  t_delct :: int8_t
  t_col :: int8_t
  t_erase :: int8_t
  t_kill :: int8_t
  t_pgid :: int16_t

abbreviation (input) ECHO :: int16_t where "ECHO \<equiv> 8"
abbreviation (input) CRMOD :: int16_t where "CRMOD \<equiv> 16"
abbreviation (input) RAW :: int16_t where "RAW \<equiv> 32"
abbreviation (input) CARR_ON :: int16_t where "CARR_ON \<equiv> 16"
abbreviation (input) ASLEEP :: int16_t where "ASLEEP \<equiv> 64"
abbreviation (input) TTIPRI :: int where "TTIPRI \<equiv> 28"
abbreviation (input) TTOPRI :: int where "TTOPRI \<equiv> 29"
abbreviation (input) SIGINT :: int where "SIGINT \<equiv> 2"
abbreviation (input) SIGQIT :: int where "SIGQIT \<equiv> 3"
abbreviation (input) NCLIST :: nat where "NCLIST \<equiv> 100"

text \<open>The state the terminal code works on.  \<^verbatim>\<open>tty.c\<close> has a cursor of its own
  (\<open>tt_row\<close>, \<open>tt_col\<close>) on the screen's memory.\<close>

record tstate =
  t_kern :: kernel
  t_scr :: screen
  cmem :: "uint32_t \<Rightarrow> byte"
  cfreelist :: uint32_t
  cons_tty :: tty
  tt_row :: nat
  tt_col :: nat

datatype 'a tres = TRet 'a tstate | TStop stop tstate

text \<open>An operation of the kernel run on the terminal's state.\<close>

definition on_kern :: "(kernel \<Rightarrow> kernel) \<Rightarrow> tstate \<Rightarrow> tstate" where
  "on_kern f t = t\<lparr>t_kern := f (t_kern t)\<rparr>"

definition tsleep :: "chan \<Rightarrow> int \<Rightarrow> tstate \<Rightarrow> 'a tres" where
  "tsleep c pri t =
     (case sleep c pri (t_kern t) of
        Ret _ k \<Rightarrow> TStop Spins (t\<lparr>t_kern := k\<rparr>) | Stop r k \<Rightarrow> TStop r (t\<lparr>t_kern := k\<rparr>))"

datatype queue = Rawq | Canq | Outq

fun clist_of :: "queue \<Rightarrow> tstate \<Rightarrow> clist" where
  "clist_of Rawq t = t_rawq (cons_tty t)"
| "clist_of Canq t = t_canq (cons_tty t)"
| "clist_of Outq t = t_outq (cons_tty t)"

definition upd_tty :: "(tty \<Rightarrow> tty) \<Rightarrow> tstate \<Rightarrow> tstate" where
  "upd_tty f t = t\<lparr>cons_tty := f (cons_tty t)\<rparr>"

fun set_clist :: "queue \<Rightarrow> clist \<Rightarrow> tstate \<Rightarrow> tstate" where
  "set_clist Rawq c t = upd_tty (\<lambda>y. y\<lparr>t_rawq := c\<rparr>) t"
| "set_clist Canq c t = upd_tty (\<lambda>y. y\<lparr>t_canq := c\<rparr>) t"
| "set_clist Outq c t = upd_tty (\<lambda>y. y\<lparr>t_outq := c\<rparr>) t"

definition empty_clist :: clist where
  "empty_clist = \<lparr>c_cc = 0, c_cf = 0, c_cl = 0\<rparr>"

subsection \<open>Character lists\<close>

text \<open>\<^verbatim>\<open>bp->c_next\<close>, as a load and a store of four bytes at \<^verbatim>\<open>bp\<close>.\<close>

definition c_next :: "uint32_t \<Rightarrow> tstate \<Rightarrow> uint32_t" where
  "c_next bp t = phys_word (cmem t) bp"

definition set_c_next :: "uint32_t \<Rightarrow> uint32_t \<Rightarrow> tstate \<Rightarrow> tstate" where
  "set_c_next bp v t =
     t\<lparr>cmem := (\<lambda>x. if unat (x - bp) < 4 then put32 (\<lambda>_. 0) 0 v (unat (x - bp)) else cmem t x)\<rparr>"

text \<open>The loop of \<^verbatim>\<open>cinit\<close> for \<^verbatim>\<open>cfree\<close> at address \<open>base\<close>.\<close>

definition free_cblocks :: "uint32_t \<Rightarrow> nat \<Rightarrow> tstate \<Rightarrow> tstate" where
  "free_cblocks base n = fold (\<lambda>i t.
     let cp = base + 12 * of_nat i in (set_c_next cp (cfreelist t) t)\<lparr>cfreelist := cp\<rparr>) [0..<n]"

definition cinit :: "uint32_t \<Rightarrow> tstate \<Rightarrow> tstate" where
  "cinit base t =
     upd_tty (\<lambda>y. y\<lparr>t_state := 0, t_delct := 0, t_col := 0, t_erase := 8, t_kill := 64,
         t_flags := ECHO OR CRMOD, t_pgid := 0, t_rawq := empty_clist, t_canq := empty_clist,
         t_outq := empty_clist\<rparr>)
       (free_cblocks base NCLIST (t\<lparr>cfreelist := 0\<rparr>))"

definition getc :: "queue \<Rightarrow> tstate \<Rightarrow> int \<times> tstate" where
  "getc q t =
     (let p = clist_of q t
      in if sint (c_cc p) \<le> 0 then (- 1, t)
         else
           (let bp = c_cf p AND NOT 7; c = int (unat (cmem t (c_cf p)));
                cf = c_cf p + 1; cc = c_cc p - 1
            in if sint cc \<le> 0 then (c, set_clist q \<lparr>c_cc = cc, c_cf = 0, c_cl = 0\<rparr> t)
               else if cf AND 7 = 0 then
                 (c, (set_c_next bp (cfreelist t)
                       (set_clist q (p\<lparr>c_cc := cc, c_cf := c_next bp t + 4\<rparr>) t))\<lparr>cfreelist := bp\<rparr>)
               else (c, set_clist q (p\<lparr>c_cc := cc, c_cf := cf\<rparr>) t)))"

text \<open>The store of \<^verbatim>\<open>putc\<close>, at the end of the list.\<close>

definition append_char :: "byte \<Rightarrow> queue \<Rightarrow> tstate \<Rightarrow> tstate" where
  "append_char c q t =
     (let p = clist_of q t
      in set_clist q (p\<lparr>c_cl := c_cl p + 1, c_cc := c_cc p + 1\<rparr>) (t\<lparr>cmem := (cmem t)(c_cl p := c)\<rparr>))"

text \<open>\<open>True\<close> is the value 0.\<close>

definition putc :: "int \<Rightarrow> queue \<Rightarrow> tstate \<Rightarrow> bool \<times> tstate" where
  "putc c q t =
     (let p = clist_of q t; bp = cfreelist t
      in if bp = 0 then (False, t)
         else if c_cc p = 0 then
           (True, append_char (of_int c) q
             (set_clist q (p\<lparr>c_cf := bp + 4, c_cl := bp + 4\<rparr>) (t\<lparr>cfreelist := c_next bp t\<rparr>)))
         else if c_cl p AND 7 = 0 then
           (True, append_char (of_int c) q
             (set_clist q (p\<lparr>c_cl := bp + 4\<rparr>)
               (set_c_next (c_cl p - 8) bp (t\<lparr>cfreelist := c_next bp t\<rparr>))))
         else (True, append_char (of_int c) q t))"

text \<open>\<^verbatim>\<open>while (getc(q) >= 0);\<close>: one call for each character counted.\<close>

primrec getc_times :: "nat \<Rightarrow> queue \<Rightarrow> tstate \<Rightarrow> tstate" where
  "getc_times 0 q t = t"
| "getc_times (Suc n) q t = getc_times n q (snd (getc q t))"

definition drain :: "queue \<Rightarrow> tstate \<Rightarrow> tstate" where
  "drain q t = getc_times (nat (sint (c_cc (clist_of q t)))) q t"

subsection \<open>The screen of tty.c\<close>

primrec tt_scroll :: "nat \<Rightarrow> tstate \<Rightarrow> tstate" where
  "tt_scroll 0 t = t"
| "tt_scroll (Suc n) t =
     tt_scroll n (t\<lparr>t_scr := (t_scr t)\<lparr>vga := vga_scroll (vga (t_scr t))\<rparr>, tt_row := tt_row t - 1\<rparr>)"

definition vga_putc :: "int \<Rightarrow> tstate \<Rightarrow> tstate" where
  "vga_putc c t =
     (let t1 = (if c = 10 then t\<lparr>tt_col := 0, tt_row := tt_row t + 1\<rparr>
                else if c = 13 then t\<lparr>tt_col := 0\<rparr>
                else if c = 9 then t\<lparr>tt_col := (tt_col t + 8) div 8 * 8\<rparr>
                else if c = 8 then (if tt_col t > 0 then t\<lparr>tt_col := tt_col t - 1\<rparr> else t)
                else t\<lparr>t_scr := (t_scr t)\<lparr>vga := (vga (t_scr t))(tt_row t * VGA_WIDTH + tt_col t := cell (of_int c))\<rparr>,
                       tt_col := tt_col t + 1\<rparr>);
          t2 = (if tt_col t1 \<ge> VGA_WIDTH then t1\<lparr>tt_col := 0, tt_row := tt_row t1 + 1\<rparr> else t1)
      in tt_scroll (tt_row t2 + 1 - VGA_HEIGHT) t2)"

subsection \<open>Output\<close>

definition put_out :: "int \<Rightarrow> tstate \<Rightarrow> tstate" where
  "put_out c t =
     upd_tty (\<lambda>y.
       let y1 = y\<lparr>t_col := t_col y + 1\<rparr>
       in if c = 10 \<or> c = 13 then y1\<lparr>t_col := 0\<rparr>
          else if c = 8 then (if sint (t_col y1) > 0 then y1\<lparr>t_col := t_col y1 - 1\<rparr> else y1)
          else if c = 9 then y1\<lparr>t_col := of_int (sint (t_col y1) + 8) AND NOT 7\<rparr>
          else y1)
       (snd (putc c Outq t))"

definition ttyoutput :: "int \<Rightarrow> tstate \<Rightarrow> tstate" where
  "ttyoutput c t =
     put_out c (if c = 10 \<and> hasf (t_flags (cons_tty t)) CRMOD then put_out 13 t else t)"

primrec start_out :: "nat \<Rightarrow> tstate \<Rightarrow> tstate" where
  "start_out 0 t = t"
| "start_out (Suc n) t = (case getc Outq t of (c, t) \<Rightarrow> start_out n (vga_putc c t))"

definition ttstart :: "tstate \<Rightarrow> tstate" where
  "ttstart t =
     (let t1 = start_out (nat (sint (c_cc (clist_of Outq t)))) t
      in if hasf (t_state (cons_tty t1)) ASLEEP
         then on_kern (wakeup ChOutq) (upd_tty (\<lambda>y. y\<lparr>t_state := t_state y AND NOT ASLEEP\<rparr>) t1)
         else t1)"

subsection \<open>Flushing\<close>

definition flushtty :: "tstate \<Rightarrow> tstate" where
  "flushtty t =
     upd_tty (\<lambda>y. y\<lparr>t_delct := 0\<rparr>)
       (drain Rawq (on_kern (wakeup ChOutq) (on_kern (wakeup ChRawq) (drain Outq (drain Canq t)))))"

definition wflushtty :: "tstate \<Rightarrow> unit tres" where
  "wflushtty t =
     (if c_cc (clist_of Outq t) \<noteq> 0
      then tsleep ChOutq TTOPRI (upd_tty (\<lambda>y. y\<lparr>t_state := t_state y OR ASLEEP\<rparr>) t)
      else TRet () (flushtty t))"

subsection \<open>Input\<close>

text \<open>The loop of \<^verbatim>\<open>canon\<close> after the wait; every round takes a raw character, so the fuel is
  their number and one more.\<close>

fun canon_loop :: "nat \<Rightarrow> tstate \<Rightarrow> bool tres" where
  "canon_loop 0 t = TStop Spins t"
| "canon_loop (Suc n) t =
     (case getc Rawq t of (c0, t) \<Rightarrow>
        if c0 < 0 then TRet False t
        else if c0 = 255 then TRet False (upd_tty (\<lambda>y. y\<lparr>t_delct := t_delct y - 1\<rparr>) t)
        else if hasf (t_flags (cons_tty t)) RAW then TRet True (snd (putc c0 Canq t))
        else
          (let c = (if c0 = 13 \<and> hasf (t_flags (cons_tty t)) CRMOD then 10 else c0)
           in if c = sint (t_erase (cons_tty t)) then
                canon_loop n (if sint (c_cc (clist_of Canq t)) > 0 then snd (getc Canq t) else t)
              else if c = sint (t_kill (cons_tty t)) then canon_loop n (drain Canq t)
              else TRet True (snd (putc c Canq
                (if c = 10 \<or> c = 4 then upd_tty (\<lambda>y. y\<lparr>t_delct := t_delct y - 1\<rparr>) t else t)))))"

definition canon :: "tstate \<Rightarrow> bool tres" where
  "canon t =
     (if t_delct (cons_tty t) = 0 then
        (if \<not> hasf (t_state (cons_tty t)) CARR_ON then TRet False t else tsleep ChRawq TTIPRI t)
      else canon_loop (Suc (nat (sint (c_cc (clist_of Rawq t))))) t)"

text \<open>The inner loop of \<^verbatim>\<open>ttread\<close>: \<open>False\<close> when it returned on a fault.\<close>

definition next_base :: "kernel \<Rightarrow> kernel" where
  "next_base = upd_u (\<lambda>u. u\<lparr>u_base := caddr_add (u_base u) 1\<rparr>)"

primrec hand_over :: "nat \<Rightarrow> tstate \<Rightarrow> bool \<times> tstate" where
  "hand_over 0 t = (True, t)"
| "hand_over (Suc n) t =
     (if c_cc (clist_of Canq t) = 0 \<or> u_count (k_u (t_kern t)) = 0 then (True, t)
      else (case getc Canq t of (c, t) \<Rightarrow>
        if c < 0 then (True, t)
        else (case subyte (u_base (k_u (t_kern t))) (of_int c) (next_base (t_kern t)) of
            (False, k) \<Rightarrow> (False, t\<lparr>t_kern := set_error EFAULT k\<rparr>)
          | (True, k) \<Rightarrow> hand_over n (t\<lparr>t_kern := upd_u (\<lambda>u. u\<lparr>u_count := u_count u - 1\<rparr>) k\<rparr>))))"

text \<open>A round of the outer loop that does not end it takes a raw character or fills the
  caller's count.\<close>

fun ttread_loop :: "nat \<Rightarrow> tstate \<Rightarrow> unit tres" where
  "ttread_loop 0 t = TStop Spins t"
| "ttread_loop (Suc n) t =
     (if u_count (k_u (t_kern t)) = 0 then TRet () t
      else
        (let go = (\<lambda>t. case hand_over (unat (u_count (k_u (t_kern t)))) t of
                     (False, t) \<Rightarrow> TRet () t | (True, t) \<Rightarrow> ttread_loop n t)
         in if c_cc (clist_of Canq t) = 0 then
              (case canon t of
                 TRet True t \<Rightarrow> go t | TRet False t \<Rightarrow> TRet () t | TStop r t \<Rightarrow> TStop r t)
            else go t))"

definition ttread :: "tstate \<Rightarrow> unit tres" where
  "ttread t =
     (if \<not> hasf (t_state (cons_tty t)) CARR_ON then TRet () t
      else ttread_loop (nat (sint (c_cc (clist_of Rawq t))) + 3) t)"

primrec ttwrite_loop :: "nat \<Rightarrow> tstate \<Rightarrow> bool \<times> tstate" where
  "ttwrite_loop 0 t = (True, t)"
| "ttwrite_loop (Suc n) t =
     (let c = fubyte (u_base (k_u (t_kern t))) (t_kern t); t1 = on_kern next_base t
      in if c < 0 then (False, on_kern (set_error EFAULT) t1)
         else ttwrite_loop n (ttyoutput c (on_kern (upd_u (\<lambda>u. u\<lparr>u_count := u_count u - 1\<rparr>)) t1)))"

definition ttwrite :: "tstate \<Rightarrow> tstate" where
  "ttwrite t =
     (if \<not> hasf (t_state (cons_tty t)) CARR_ON then t
      else (case ttwrite_loop (unat (u_count (k_u (t_kern t)))) t of
          (False, t) \<Rightarrow> t | (True, t) \<Rightarrow> ttstart t))"

text \<open>One character typed on the terminal, number 0 of the processes' \<^verbatim>\<open>p_ttyp\<close>.\<close>

definition ttyinput :: "int \<Rightarrow> tstate \<Rightarrow> tstate" where
  "ttyinput c0 t =
     (let c7 = c0 mod 128; f = t_flags (cons_tty t);
          got = (\<lambda>t. on_kern (wakeup ChRawq) (upd_tty (\<lambda>y. y\<lparr>t_delct := t_delct y + 1\<rparr>) t))
      in if hasf f RAW then got (snd (putc c7 Rawq t))
         else
           (let c = (if c7 = 13 \<and> hasf f CRMOD then 10 else c7);
                er = sint (t_erase (cons_tty t)); kl = sint (t_kill (cons_tty t))
            in if c = 3 then flushtty (on_kern (signal_tty (Some 0) SIGINT) t)
               else if c = 28 then flushtty (on_kern (signal_tty (Some 0) SIGQIT) t)
               else
                 (let t1 = (if hasf f ECHO
                            then ttstart (if c = er then ttyoutput 8 (ttyoutput 32 (ttyoutput 8 t)) else ttyoutput c t)
                            else t);
                      t2 = snd (putc c Rawq t1)
                  in if c = 10 \<or> c = 4 \<or> c = sint (t_erase (cons_tty t2)) \<or> c = sint (t_kill (cons_tty t2))
                     then got t2 else t2)))"

subsection \<open>The console as a device, and its process group\<close>

definition tty_get_pgid :: "tstate \<Rightarrow> int" where
  "tty_get_pgid t =
     (if t_pgid (cons_tty t) \<noteq> 0 then sint (t_pgid (cons_tty t))
      else sint (p_pgrp (procp (t_kern t) (u_procp (k_u (t_kern t))))))"

definition tty_set_pgid :: "int \<Rightarrow> tstate \<Rightarrow> tstate" where
  "tty_set_pgid pgid = upd_tty (\<lambda>y. y\<lparr>t_pgid := of_int pgid\<rparr>)"

definition consopen :: "tstate \<Rightarrow> tstate" where
  "consopen = upd_tty (\<lambda>y. y\<lparr>t_state := t_state y OR CARR_ON\<rparr>)"

definition consclose :: "tstate \<Rightarrow> unit tres" where "consclose = wflushtty"
definition consread :: "tstate \<Rightarrow> unit tres" where "consread = ttread"
definition conswrite :: "tstate \<Rightarrow> tstate" where "conswrite = ttwrite"

definition scancode_to_ascii :: "byte list" where
  "scancode_to_ascii =
     [0, 27, 49, 50, 51, 52, 53, 54, 55, 56, 57, 48, 45, 61, 8, 9,
      113, 119, 101, 114, 116, 121, 117, 105, 111, 112, 91, 93, 10, 0, 97, 115,
      100, 102, 103, 104, 106, 107, 108, 59, 39, 96, 0, 92, 122, 120, 99, 118,
      98, 110, 109, 44, 46, 47, 0, 42, 0, 32] @ replicate 70 0"

text \<open>\<open>scancode\<close> is what \<^verbatim>\<open>inb(0x60)\<close> returned.\<close>

definition kbd_handler :: "uint8_t \<Rightarrow> tstate \<Rightarrow> tstate" where
  "kbd_handler scancode t =
     (if hasf scancode 0x80 then t
      else (let c = scancode_to_ascii ! unat scancode in if c \<noteq> 0 then ttyinput (sint c) t else t))"

text \<open>\<^verbatim>\<open>sgtty\<close>; the console's \<^verbatim>\<open>d_sgtty\<close>, the only one there is, does nothing.\<close>

definition sgtty :: "kernel \<Rightarrow> kernel" where
  "sgtty k =
     (case getf (arg 0 k) k of
        (None, k) \<Rightarrow> k
      | (Some fp, k) \<Rightarrow>
          if i_mode (inodep k (f_inode (k_file k ! fp))) AND IFMT \<noteq> IFCHR then set_error ENOTTY k else k)"

subsection \<open>The character pool leaks\<close>

lemma set_c_next_mem: "set_c_next bp v t = t\<lparr>cmem := store_word bp v (cmem t)\<rparr>"
  by (simp add: set_c_next_def store_word_def)

text \<open>One character typed and read: stored on the empty raw queue and taken off again.\<close>

definition typed_and_read :: "int \<Rightarrow> tstate \<Rightarrow> tstate" where
  "typed_and_read c t = snd (getc Rawq (snd (putc c Rawq t)))"

lemma typed_and_read_eq:
  assumes "c_cc (clist_of Rawq t) = 0" "cfreelist t \<noteq> 0"
  shows "fst (getc Rawq (snd (putc c Rawq t))) = int (unat (of_int c :: byte))"
    "typed_and_read c t = upd_tty (\<lambda>y. y\<lparr>t_rawq := \<lparr>c_cc = 0, c_cf = 0, c_cl = 0\<rparr>\<rparr>)
       (t\<lparr>cfreelist := c_next (cfreelist t) t, cmem := (cmem t)(cfreelist t + 4 := of_int c)\<rparr>)"
  using assms by (simp_all add: typed_and_read_def putc_def getc_def append_char_def upd_tty_def Let_def)

text \<open>Block \<open>i\<close> of the pool at \<open>base\<close>, and the pool with the first \<open>n\<close> blocks free.\<close>

definition cblock_at :: "uint32_t \<Rightarrow> nat \<Rightarrow> uint32_t" where
  "cblock_at base i = base + 12 * of_nat i"

definition free_after :: "uint32_t \<Rightarrow> nat \<Rightarrow> uint32_t" where
  "free_after base n = (case n of 0 \<Rightarrow> 0 | Suc m \<Rightarrow> cblock_at base m)"

definition pool_free :: "uint32_t \<Rightarrow> nat \<Rightarrow> tstate \<Rightarrow> bool" where
  "pool_free base n t \<longleftrightarrow> cfreelist t = free_after base n
     \<and> (\<forall>i<n. c_next (cblock_at base i) t = free_after base i)"

definition pool_place :: "uint32_t \<Rightarrow> bool" where
  "pool_place base \<longleftrightarrow> base \<noteq> 0 \<and> unat base + 12 * NCLIST \<le> 2 ^ 32"

lemma cblock_unat:
  assumes "pool_place base" "i < NCLIST"
  shows "unat (cblock_at base i) = unat base + 12 * i"
proof -
  have "unat (12 * of_nat i :: 32 word) = 12 * i"
    using assms(2) by (simp add: unat_word_ariths unat_of_nat)
  then show ?thesis unfolding cblock_at_def
    using assms by (subst unat_add_lem [THEN iffD1]) (simp_all add: pool_place_def)
qed

lemma cblock_nonzero: "pool_place base \<Longrightarrow> i < NCLIST \<Longrightarrow> cblock_at base i \<noteq> 0"
  using cblock_unat [of base i] by (auto simp: pool_place_def unat_gt_0 [symmetric])

lemma pool_free_grow:
  assumes "pool_place base" "n < NCLIST" "pool_free base n t"
  shows "pool_free base (Suc n) ((set_c_next (cblock_at base n) (cfreelist t) t)\<lparr>cfreelist := cblock_at base n\<rparr>)"
proof -
  have n: "unat (cblock_at base n) = unat base + 12 * n" by (rule cblock_unat [OF assms(1,2)])
  have "phys_word (store_word (cblock_at base n) v m) (cblock_at base i) = phys_word m (cblock_at base i)"
    if "i < n" for i v m
    using that assms n cblock_unat [OF assms(1), of i]
    by (intro phys_word_other) (simp_all add: pool_place_def)
  then show ?thesis using assms(3)
    by (auto simp: pool_free_def c_next_def set_c_next_mem phys_word_same less_Suc_eq free_after_def [of base "Suc n"])
qed

lemma cinit_pool: "pool_place base \<Longrightarrow> pool_free base NCLIST (cinit base t)"
proof -
  assume p: "pool_place base"
  have "pool_free base n (free_cblocks base n (t\<lparr>cfreelist := 0\<rparr>))" if "n \<le> NCLIST" for n
    using that
  proof (induction n)
    case 0
    then show ?case by (simp add: pool_free_def free_cblocks_def free_after_def)
  next
    case (Suc n)
    then show ?case using pool_free_grow [OF p, of n "free_cblocks base n (t\<lparr>cfreelist := 0\<rparr>)"]
      by (simp add: free_cblocks_def cblock_at_def Let_def)
  qed
  from this [of NCLIST] show ?thesis by (simp add: cinit_def pool_free_def upd_tty_def c_next_def)
qed

lemma cinit_rawq: "c_cc (clist_of Rawq (cinit base t)) = 0"
  by (simp add: cinit_def upd_tty_def empty_clist_def)

lemma pool_free_shrink:
  assumes "pool_place base" "Suc n \<le> NCLIST" "pool_free base (Suc n) t" "c_cc (clist_of Rawq t) = 0"
  shows "pool_free base n (typed_and_read c t) \<and> c_cc (clist_of Rawq (typed_and_read c t)) = 0
    \<and> fst (getc Rawq (snd (putc c Rawq t))) = int (unat (of_int c :: byte))"
proof -
  have n: "cfreelist t = cblock_at base n" "c_next (cblock_at base n) t = free_after base n"
    using assms(3) by (simp_all add: pool_free_def free_after_def [of base "Suc n"])
  have un: "unat (cblock_at base n) = unat base + 12 * n" by (rule cblock_unat [OF assms(1)]) (use assms(2) in simp)
  have nz: "cfreelist t \<noteq> 0" unfolding n(1) by (rule cblock_nonzero [OF assms(1)]) (use assms(2) in simp)
  have keep: "phys_word ((cmem t)(cblock_at base n + 4 := v)) (cblock_at base i) = phys_word (cmem t) (cblock_at base i)"
    if "i < n" for i v
  proof -
    have b: "unat base + 12 * n + 12 \<le> 2 ^ 32" using assms(1,2) by (simp add: pool_place_def)
    have u: "unat (cblock_at base n + 4) = unat base + 12 * n + 4"
      using un b by (subst unat_add_lem [THEN iffD1]) simp_all
    have i: "unat (cblock_at base i) = unat base + 12 * i"
      by (rule cblock_unat [OF assms(1)]) (use assms(2) that in simp)
    have "cblock_at base i + of_nat j \<noteq> cblock_at base n + 4" if j: "j < 4" for j
    proof -
      have "unat (of_nat j :: 32 word) = j" using j by (simp add: unat_of_nat)
      then have "unat (cblock_at base i + of_nat j) = unat base + 12 * i + j"
        using i b j \<open>i < n\<close> by (subst unat_add_lem [THEN iffD1]) simp_all
      then show ?thesis using u j \<open>i < n\<close> by (auto dest: arg_cong [where f = unat])
    qed
    then show ?thesis unfolding phys_word_def by (intro get32_cong) auto
  qed
  show ?thesis using typed_and_read_eq [OF assms(4) nz, of c] n keep assms(3)
    by (auto simp: pool_free_def c_next_def upd_tty_def)
qed

lemma clist_exhausted:
  assumes "pool_place base" "n \<le> NCLIST"
  shows "(\<forall>j<n. fst (getc Rawq (snd (putc c Rawq ((typed_and_read c ^^ j) (cinit base t))))) = int (unat (of_int c :: byte)))
    \<and> pool_free base (NCLIST - n) ((typed_and_read c ^^ n) (cinit base t))
    \<and> (n = NCLIST \<longrightarrow> putc d q ((typed_and_read c ^^ n) (cinit base t)) = (False, (typed_and_read c ^^ n) (cinit base t)))"
proof -
  let ?s = "\<lambda>j. (typed_and_read c ^^ j) (cinit base t)"
  have inv: "pool_free base (NCLIST - j) (?s j) \<and> c_cc (clist_of Rawq (?s j)) = 0" if "j \<le> NCLIST" for j
    using that
  proof (induction j)
    case 0
    then show ?case using cinit_pool [OF assms(1)] cinit_rawq by simp
  next
    case (Suc j)
    then have "Suc (NCLIST - Suc j) = NCLIST - j" by simp
    with Suc pool_free_shrink [OF assms(1), of "NCLIST - Suc j" "?s j" c] show ?case by simp
  qed
  have "fst (getc Rawq (snd (putc c Rawq (?s j)))) = int (unat (of_int c :: byte))" if "j < n" for j
  proof -
    have "j \<le> NCLIST" "Suc (NCLIST - Suc j) = NCLIST - j" using that assms(2) by simp_all
    with inv [of j] pool_free_shrink [OF assms(1), of "NCLIST - Suc j" "?s j" c] show ?thesis by simp
  qed
  moreover have "putc d q (?s n) = (False, ?s n)" if "n = NCLIST"
  proof -
    have "cfreelist (?s n) = 0" using inv [OF assms(2)] that by (simp add: pool_free_def free_after_def)
    then show ?thesis by (simp add: putc_def)
  qed
  ultimately show ?thesis using inv [OF assms(2)] by blast
qed

end
