(* ===== verification/Queues.thy ===== *)
theory Queues
  imports Main
begin

text \<open>
  What a reader relies on when it takes characters from a bounded queue that an interrupt
  fills: the characters come out in the order they went in, and those that found the queue
  full are dropped.  \<open>contents\<close> is the abstraction; the rings of the kernel interpret the
  locale in the theories that declare them.
\<close>

text \<open>The results of \<open>n\<close> removals, fewer when the queue runs empty.\<close>

fun removals :: "('q \<Rightarrow> ('a \<times> 'q) option) \<Rightarrow> nat \<Rightarrow> 'q \<Rightarrow> 'a list" where
  "removals rm 0 q = []"
| "removals rm (Suc n) q = (case rm q of None \<Rightarrow> [] | Some (x, q') \<Rightarrow> x # removals rm n q')"

locale bounded_queue =
  fixes enq :: "'a \<Rightarrow> 'q \<Rightarrow> 'q"
    and deq :: "'q \<Rightarrow> ('a \<times> 'q) option"
    and contents :: "'q \<Rightarrow> 'a list"
    and inv :: "'q \<Rightarrow> bool"
    and cap :: nat
  assumes enq_inv: "inv q \<Longrightarrow> inv (enq x q)"
    and enq_contents:
      "inv q \<Longrightarrow> contents (enq x q) = (if length (contents q) < cap then contents q @ [x] else contents q)"
    and deq_None: "inv q \<Longrightarrow> contents q = [] \<Longrightarrow> deq q = None"
    and deq_Some: "inv q \<Longrightarrow> contents q = x # xs \<Longrightarrow> \<exists>q'. deq q = Some (x, q') \<and> contents q' = xs \<and> inv q'"
    and bounded: "inv q \<Longrightarrow> length (contents q) \<le> cap"
begin

lemma enq_all_inv: "inv q \<Longrightarrow> inv (fold enq xs q)"
  by (induction xs arbitrary: q) (auto simp: enq_inv)

lemma enq_all:
  "inv q \<Longrightarrow> contents (fold enq xs q) = contents q @ take (cap - length (contents q)) xs"
proof (induction xs arbitrary: q)
  case Nil
  then show ?case by simp
next
  case (Cons x xs)
  have "contents (fold enq (x # xs) q) = contents (enq x q) @ take (cap - length (contents (enq x q))) xs"
    using Cons by (simp add: enq_inv)
  also have "\<dots> = contents q @ take (cap - length (contents q)) (x # xs)"
  proof (cases "length (contents q) < cap")
    case True
    then have "cap - length (contents q) = Suc (cap - Suc (length (contents q)))" by simp
    with True show ?thesis by (simp only: enq_contents [OF Cons.prems] if_True length_append
        list.size take_Suc_Cons append_assoc append.simps) simp
  next
    case False
    then show ?thesis by (simp add: enq_contents [OF Cons.prems])
  qed
  finally show ?case .
qed

lemma removals_contents: "inv q \<Longrightarrow> removals deq n q = take n (contents q)"
proof (induction n arbitrary: q)
  case 0
  then show ?case by simp
next
  case (Suc n)
  show ?case
  proof (cases "contents q")
    case Nil
    then show ?thesis using deq_None [OF Suc.prems] by simp
  next
    case (Cons x xs)
    then obtain q' where "deq q = Some (x, q')" "contents q' = xs" "inv q'"
      using deq_Some [OF Suc.prems] by blast
    then show ?thesis using Suc.IH Cons by simp
  qed
qed

text \<open>First in, first out.\<close>

lemma fifo:
  "inv q \<Longrightarrow> removals deq n (fold enq xs q)
     = take n (contents q @ take (cap - length (contents q)) xs)"
  by (simp add: removals_contents enq_all_inv enq_all)

end

subsection \<open>Rings in an array\<close>

text \<open>A ring of \<open>m\<close> cells read at \<open>r\<close>, holding \<open>n\<close> characters.\<close>

definition ring_slice :: "nat \<Rightarrow> 'a list \<Rightarrow> nat \<Rightarrow> nat \<Rightarrow> 'a list" where
  "ring_slice m b r n = map (\<lambda>i. b ! ((r + i) mod m)) [0..<n]"

lemma ring_slice_length [simp]: "length (ring_slice m b r n) = n"
  by (simp add: ring_slice_def)

lemma ring_slice_0 [simp]: "ring_slice m b r 0 = []"
  by (simp add: ring_slice_def)

lemma mod_add_inj:
  assumes "i < m" "j < m" "(r + i) mod m = (r + j) mod m"
  shows "i = (j :: nat)"
proof -
  have *: "x = y" if "x \<le> y" "y < m" "(r + x) mod m = (r + y) mod m" for x y :: nat
  proof -
    have "m dvd (r + y) - (r + x)" using that mod_eq_dvd_iff_nat [of "r + x" "r + y" m] by simp
    then have d: "m dvd y - x" by simp
    have "y - x = 0"
    proof (rule ccontr)
      assume "y - x \<noteq> 0"
      then have "m \<le> y - x" using d by (intro dvd_imp_le) simp_all
      then show False using that(2) by linarith
    qed
    with that(1) show ?thesis by simp
  qed
  show ?thesis using * [of i j] * [of j i] assms by (cases "i \<le> j") auto
qed

lemma ring_slice_put:
  assumes "n < m" "length b = m"
  shows "ring_slice m (b[(r + n) mod m := x]) r (Suc n) = ring_slice m b r n @ [x]"
proof -
  have "(r + n) mod m < length b" using assms by simp
  moreover have "map (\<lambda>i. b[(r + n) mod m := x] ! ((r + i) mod m)) [0..<n] = ring_slice m b r n"
    unfolding ring_slice_def
  proof (intro map_cong refl)
    fix i assume "i \<in> set [0..<n]"
    then have "(r + n) mod m \<noteq> (r + i) mod m" using mod_add_inj [of i m n r] assms by auto
    then show "b[(r + n) mod m := x] ! ((r + i) mod m) = b ! ((r + i) mod m)" by simp
  qed
  ultimately show ?thesis by (simp add: ring_slice_def)
qed

lemma ring_slice_get: "ring_slice m b r (Suc n) = b ! (r mod m) # ring_slice m b ((r + 1) mod m) n"
proof -
  have "[0..<Suc n] = 0 # map Suc [0..<n]" by (simp add: map_Suc_upt upt_conv_Cons del: upt_Suc)
  then show ?thesis by (simp only: ring_slice_def list.map) (simp add: mod_simps)
qed

end
