(* ===== verification/Console.thy ===== *)
theory Console
  imports Tty Sys_Base Queues
begin

text \<open>
  \<^verbatim>\<open>kernel/drivers/char/console.c\<close>: the ring buffer of typed characters, the keyboard and
  serial interrupts that fill it, and the console device with its line editing.  The serial
  port's receiver is the list \<open>uart_in\<close> of the bytes waiting in it.
\<close>

subsection \<open>The ring of typed characters\<close>

abbreviation (input) KBD_BUF_SIZE :: nat where "KBD_BUF_SIZE \<equiv> 128"

record kbd_ring =
  kbd_buffer :: "byte list"
  kbd_read_ptr :: nat
  kbd_write_ptr :: nat

definition kbd_next :: "kbd_ring \<Rightarrow> nat" where
  "kbd_next r = (kbd_write_ptr r + 1) mod KBD_BUF_SIZE"

definition kbd_store :: "byte \<Rightarrow> kbd_ring \<Rightarrow> kbd_ring" where
  "kbd_store c r =
     (if kbd_next r \<noteq> kbd_read_ptr r
      then r\<lparr>kbd_buffer := (kbd_buffer r)[kbd_write_ptr r := c], kbd_write_ptr := kbd_next r\<rparr> else r)"

definition kbd_fetch :: "kbd_ring \<Rightarrow> (byte \<times> kbd_ring) option" where
  "kbd_fetch r =
     (if kbd_read_ptr r = kbd_write_ptr r then None
      else Some (kbd_buffer r ! kbd_read_ptr r, r\<lparr>kbd_read_ptr := (kbd_read_ptr r + 1) mod KBD_BUF_SIZE\<rparr>))"

subsection \<open>The console's state\<close>

record termios =
  c_iflag :: uint32_t
  c_oflag :: uint32_t
  c_cflag :: uint32_t
  c_lflag :: uint32_t
  c_ccs :: "uint8_t list"

abbreviation (input) LFLAG_ISIG :: uint32_t where "LFLAG_ISIG \<equiv> 1"
abbreviation (input) LFLAG_ICANON :: uint32_t where "LFLAG_ICANON \<equiv> 2"
abbreviation (input) LFLAG_ECHO :: uint32_t where "LFLAG_ECHO \<equiv> 8"
abbreviation (input) LFLAG_ECHOE :: uint32_t where "LFLAG_ECHOE \<equiv> 16"
abbreviation (input) LFLAG_ECHOK :: uint32_t where "LFLAG_ECHOK \<equiv> 32"
abbreviation (input) IFLAG_IGNCR :: uint32_t where "IFLAG_IGNCR \<equiv> 1"
abbreviation (input) IFLAG_ICRNL :: uint32_t where "IFLAG_ICRNL \<equiv> 2"
abbreviation (input) IFLAG_INLCR :: uint32_t where "IFLAG_INLCR \<equiv> 4"
abbreviation (input) OFLAG_OPOST :: uint32_t where "OFLAG_OPOST \<equiv> 1"
abbreviation (input) OFLAG_ONLCR :: uint32_t where "OFLAG_ONLCR \<equiv> 2"
abbreviation (input) VINTR :: nat where "VINTR \<equiv> 0"
abbreviation (input) VQUIT :: nat where "VQUIT \<equiv> 1"
abbreviation (input) VERASE :: nat where "VERASE \<equiv> 2"
abbreviation (input) VKILL :: nat where "VKILL \<equiv> 3"
abbreviation (input) VEOF :: nat where "VEOF \<equiv> 4"

definition con_termios0 :: termios where
  "con_termios0 = \<lparr>c_iflag = IFLAG_ICRNL, c_oflag = OFLAG_OPOST OR OFLAG_ONLCR, c_cflag = 0,
     c_lflag = LFLAG_ECHO OR LFLAG_ECHOE OR LFLAG_ECHOK OR LFLAG_ICANON OR LFLAG_ISIG,
     c_ccs = [3, 28, 8, 64, 4] @ replicate 15 0\<rparr>"

record console =
  c_tty :: tstate
  kbd :: kbd_ring
  shift_state :: bool
  con_termios :: termios
  uart_in :: "byte list"

definition on_tty :: "(tstate \<Rightarrow> tstate) \<Rightarrow> console \<Rightarrow> console" where
  "on_tty f s = s\<lparr>c_tty := f (c_tty s)\<rparr>"

abbreviation kern :: "console \<Rightarrow> kernel" where "kern s \<equiv> t_kern (c_tty s)"

definition on_k :: "(kernel \<Rightarrow> kernel) \<Rightarrow> console \<Rightarrow> console" where
  "on_k f = on_tty (on_kern f)"

text \<open>\<^verbatim>\<open>vga_putchar(c); serial_putchar(c);\<close>\<close>

definition out_vga :: "byte \<Rightarrow> console \<Rightarrow> console" where
  "out_vga c = on_tty (\<lambda>t. t\<lparr>t_scr := vga_putchar c (t_scr t)\<rparr>)"

definition out_serial :: "byte \<Rightarrow> console \<Rightarrow> console" where
  "out_serial c = on_tty (\<lambda>t. t\<lparr>t_scr := serial_putchar c (t_scr t)\<rparr>)"

definition out_char :: "byte \<Rightarrow> console \<Rightarrow> console" where
  "out_char c s = out_serial c (out_vga c s)"

subsection \<open>Filling and emptying the ring\<close>

definition kbd_putc :: "byte \<Rightarrow> console \<Rightarrow> console" where
  "kbd_putc c s =
     (if kbd_next (kbd s) \<noteq> kbd_read_ptr (kbd s)
      then on_k (wakeup ChKbd) (s\<lparr>kbd := kbd_store c (kbd s)\<rparr>) else s)"

text \<open>The value is the \<^verbatim>\<open>char\<close> as an \<^verbatim>\<open>int\<close>, so that a byte from 128 on is negative,
  like the answer that there is none.\<close>

definition kbd_getc :: "console \<Rightarrow> int \<times> console" where
  "kbd_getc s =
     (let s1 = (if kbd_read_ptr (kbd s) = kbd_write_ptr (kbd s)
                then (case uart_in s of [] \<Rightarrow> s | c # cs \<Rightarrow> kbd_putc c (s\<lparr>uart_in := cs\<rparr>)) else s)
      in case kbd_fetch (kbd s1) of None \<Rightarrow> (- 1, s1) | Some (c, r) \<Rightarrow> (sint c, s1\<lparr>kbd := r\<rparr>))"

definition console_has_input :: "console \<Rightarrow> bool" where
  "console_has_input s \<longleftrightarrow> kbd_read_ptr (kbd s) \<noteq> kbd_write_ptr (kbd s) \<or> uart_in s \<noteq> []"

definition console_flush_input :: "console \<Rightarrow> console" where
  "console_flush_input s = s\<lparr>kbd := (kbd s)\<lparr>kbd_read_ptr := 0, kbd_write_ptr := 0\<rparr>\<rparr>"

text \<open>Both tables have 128 entries; the last 69 are 0 except the one for the keypad's minus,
  which is \<^verbatim>\<open>-1\<close>.\<close>

definition kbd_us :: "byte list" where
  "kbd_us =
     [0, 27, 49, 50, 51, 52, 53, 54, 55, 56, 57, 48, 45, 61, 8,
      9, 113, 119, 101, 114, 116, 121, 117, 105, 111, 112, 91, 93, 10,
      0, 97, 115, 100, 102, 103, 104, 106, 107, 108, 59, 39, 96, 0,
      92, 122, 120, 99, 118, 98, 110, 109, 44, 46, 47, 0, 42,
      0, 32] @ replicate 16 0 @ [- 1] @ replicate 53 0"

definition kbd_us_shift :: "byte list" where
  "kbd_us_shift =
     [0, 27, 33, 64, 35, 36, 37, 94, 38, 42, 40, 41, 95, 43, 8,
      9, 81, 87, 69, 82, 84, 89, 85, 73, 79, 80, 123, 125, 10,
      0, 65, 83, 68, 70, 71, 72, 74, 75, 76, 58, 34, 126, 0,
      124, 90, 88, 67, 86, 66, 78, 77, 60, 62, 63, 0, 42,
      0, 32] @ replicate 16 0 @ [- 1] @ replicate 53 0"

text \<open>\<open>scancode\<close> is what the keyboard's port returned.\<close>

definition kbd_intr :: "uint8_t \<Rightarrow> console \<Rightarrow> console" where
  "kbd_intr scancode s =
     (if scancode = 0x2A \<or> scancode = 0x36 then s\<lparr>shift_state := True\<rparr>
      else if scancode = 0xAA \<or> scancode = 0xB6 then s\<lparr>shift_state := False\<rparr>
      else if hasf scancode 0x80 then s
      else (let c = (if shift_state s then kbd_us_shift else kbd_us) ! unat scancode
            in if sint c > 0 then kbd_putc c s else s))"

text \<open>\<open>iir\<close> is the interrupt identification register.\<close>

definition serial_intr :: "uint8_t \<Rightarrow> console \<Rightarrow> console" where
  "serial_intr iir s =
     (if iir AND 1 = 0
      then (case uart_in s of [] \<Rightarrow> s | c # cs \<Rightarrow> kbd_putc c (s\<lparr>uart_in := cs\<rparr>)) else s)"

subsection \<open>Terminal modes\<close>

abbreviation (input) TERMIOS_SIZE :: nat where "TERMIOS_SIZE \<equiv> 36"

definition termios_bytes :: "termios \<Rightarrow> byte list" where
  "termios_bytes t = bytes32 (c_iflag t) @ bytes32 (c_oflag t) @ bytes32 (c_cflag t) @ bytes32 (c_lflag t) @ c_ccs t"

definition termios_of :: "byte list \<Rightarrow> termios" where
  "termios_of b = \<lparr>c_iflag = word32 b 0, c_oflag = word32 b 4, c_cflag = word32 b 8, c_lflag = word32 b 12,
     c_ccs = take 20 (drop 16 b)\<rparr>"

text \<open>\<open>None\<close> is the value -1; the destination has \<open>sz\<close> bytes, the source is \<open>src\<close>.\<close>

definition console_get_termios :: "int \<Rightarrow> console \<Rightarrow> byte list option" where
  "console_get_termios sz s =
     (if sz < int TERMIOS_SIZE then None else Some (termios_bytes (con_termios s)))"

definition console_set_termios :: "byte list \<Rightarrow> int \<Rightarrow> console \<Rightarrow> console option" where
  "console_set_termios src sz s =
     (if sz < int TERMIOS_SIZE then None else Some (s\<lparr>con_termios := termios_of src\<rparr>))"

subsection \<open>Reading a line\<close>

fun caddr_less :: "caddr \<Rightarrow> caddr \<Rightarrow> bool" where
  "caddr_less (UAddr a) (UAddr b) \<longleftrightarrow> a < b"
| "caddr_less (KDent i) (KDent j) \<longleftrightarrow> i < j"
| "caddr_less (KLocal i) (KLocal j) \<longleftrightarrow> i < j"
| "caddr_less _ _ \<longleftrightarrow> False"

fun caddr_pred :: "caddr \<Rightarrow> caddr" where
  "caddr_pred (UAddr a) = UAddr (a - 1)"
| "caddr_pred (KDent i) = KDent (i - 1)"
| "caddr_pred (KLocal i) = KLocal (i - 1)"

text \<open>The characters a read looks for: the configured one, or the usual one when it is 0.\<close>

definition special :: "nat \<Rightarrow> int \<Rightarrow> console \<Rightarrow> int" where
  "special i d s = (let c = c_ccs (con_termios s) ! i in if c \<noteq> 0 then uint c else d)"

definition lflag :: "uint32_t \<Rightarrow> console \<Rightarrow> bool" where
  "lflag m s = hasf (c_lflag (con_termios s)) m"

definition map_input :: "console \<Rightarrow> int \<Rightarrow> int" where
  "map_input s c =
     (let i = c_iflag (con_termios s)
      in if hasf i IFLAG_ICRNL then (if c = 13 then 10 else c)
         else if hasf i IFLAG_INLCR then (if c = 10 then 13 else c) else c)"

text \<open>Taking the last character back, and its echo: first the screen, then the line.\<close>

definition rub_out :: "console \<Rightarrow> console" where
  "rub_out s =
     (let s1 = on_k (upd_u (\<lambda>u. u\<lparr>u_base := caddr_pred (u_base u), u_count := u_count u + 1\<rparr>)) s
      in if lflag LFLAG_ECHO s1 then
           (if lflag LFLAG_ECHOE s1
            then fold out_serial [8, 32, 8] (fold out_vga [8, 32, 8] s1)
            else out_serial 8 (out_vga 8 s1))
         else s1)"

text \<open>The kill character's loop \<^verbatim>\<open>while (u.u_base > start)\<close>, once for each byte read so far.\<close>

fun rub_all :: "nat \<Rightarrow> caddr \<Rightarrow> console \<Rightarrow> console" where
  "rub_all n start s =
     (case n of 0 \<Rightarrow> s
      | Suc m \<Rightarrow> if caddr_less start (u_base (k_u (kern s))) then rub_all m start (rub_out s) else s)"

fun caddr_dist :: "caddr \<Rightarrow> caddr \<Rightarrow> nat" where
  "caddr_dist (UAddr a) (UAddr b) = unat (b - a)"
| "caddr_dist (KDent i) (KDent j) = j - i"
| "caddr_dist (KLocal i) (KLocal j) = j - i"
| "caddr_dist _ _ = 0"

definition opost :: "console \<Rightarrow> bool" where
  "opost s \<longleftrightarrow> hasf (c_oflag (con_termios s)) OFLAG_OPOST \<and> hasf (c_oflag (con_termios s)) OFLAG_ONLCR"

definition echo_char :: "int \<Rightarrow> console \<Rightarrow> console" where
  "echo_char c s =
     (if lflag LFLAG_ECHO s
      then out_char (of_int c) (if c = 10 \<and> opost s then out_char 13 s else s) else s)"

text \<open>\<^verbatim>\<open>conread\<close>: \<open>typed\<close> are the values of the successive calls of \<open>kbd_getc\<close>, into which
  the interrupts bring characters while the read waits.  \<open>Done\<close> has the C function's value and
  the calls not made; \<open>Waits\<close> is the read still polling.\<close>

datatype conres = Done int "int list" console | Waits console

fun conread_loop :: "caddr \<Rightarrow> int list \<Rightarrow> console \<Rightarrow> conres" where
  "conread_loop start typed s =
     (if u_count (k_u (kern s)) = 0 then Done 0 typed s
      else (case typed of
          [] \<Rightarrow> Waits s
        | c0 # rest \<Rightarrow>
            if c0 < 0 then conread_loop start rest s
            else if hasf (c_iflag (con_termios s)) IFLAG_IGNCR \<and> c0 = 13 then conread_loop start rest s
            else
              (let c = map_input s c0; canon = lflag LFLAG_ICANON s; isig = lflag LFLAG_ISIG s
               in if isig \<and> c = special VINTR 3 s then
                    conread_loop start rest (on_k (pgsignal (tty_get_pgid (c_tty s)) 2) s)
                  else if isig \<and> c = special VQUIT 28 s then
                    conread_loop start rest (on_k (pgsignal (tty_get_pgid (c_tty s)) 3) s)
                  else if canon \<and> (c = special VERASE 8 s \<or> c = 127) then
                    conread_loop start rest
                      (if caddr_less start (u_base (k_u (kern s))) then rub_out s else s)
                  else if canon \<and> c = special VKILL 64 s then
                    (let s1 = rub_all (caddr_dist start (u_base (k_u (kern s)))) start s
                     in conread_loop start rest
                          (if lflag LFLAG_ECHO s1 \<and> lflag LFLAG_ECHOK s1 then out_char 10 s1 else s1))
                  else if canon \<and> c = special VEOF 4 s then Done 0 rest s
                  else
                    (let s1 = echo_char c s
                     in case subyte (u_base (k_u (kern s1))) (of_int c) (kern s1) of
                          (False, k) \<Rightarrow> Done (- 1) rest (on_k (\<lambda>_. set_error EFAULT k) s1)
                        | (True, k) \<Rightarrow>
                            (let s2 = on_k (\<lambda>_. upd_u (\<lambda>u. u\<lparr>u_base := caddr_add (u_base u) 1,
                                         u_count := u_count u - 1\<rparr>) k) s1
                             in if canon \<and> c = 10 \<or> \<not> canon then Done 0 rest s2
                                else conread_loop start rest s2)))))"

definition conread :: "int list \<Rightarrow> console \<Rightarrow> conres" where
  "conread typed s = conread_loop (u_base (k_u (kern s))) typed s"

declare conread_loop.simps [simp del] rub_all.simps [simp del]

subsection \<open>Writing\<close>

primrec conwrite_loop :: "nat \<Rightarrow> console \<Rightarrow> console" where
  "conwrite_loop 0 s = s"
| "conwrite_loop (Suc n) s =
     (case cpass (kern s) of (c, k) \<Rightarrow>
        let s1 = on_k (\<lambda>_. k) s
        in if c < 0 then s1
           else conwrite_loop n (out_char (of_int c) (if opost s1 \<and> c = 10 then out_char 13 s1 else s1)))"

definition conwrite :: "console \<Rightarrow> int \<times> console" where
  "conwrite s = (0, conwrite_loop (unat (u_count (k_u (kern s)))) s)"

definition conopen :: "dev_t \<Rightarrow> int \<Rightarrow> console \<Rightarrow> int \<times> console" where "conopen dev flag s = (0, s)"
definition conclose :: "dev_t \<Rightarrow> int \<Rightarrow> console \<Rightarrow> int \<times> console" where "conclose dev flag s = (0, s)"
definition consgtty :: "dev_t \<Rightarrow> console \<Rightarrow> int \<times> console" where "consgtty dev s = (0, s)"

subsection \<open>The ring is a queue of 127 characters\<close>

definition ring_ok :: "kbd_ring \<Rightarrow> bool" where
  "ring_ok r \<longleftrightarrow> length (kbd_buffer r) = KBD_BUF_SIZE \<and> kbd_read_ptr r < KBD_BUF_SIZE \<and> kbd_write_ptr r < KBD_BUF_SIZE"

definition ring_len :: "kbd_ring \<Rightarrow> nat" where
  "ring_len r = (kbd_write_ptr r + KBD_BUF_SIZE - kbd_read_ptr r) mod KBD_BUF_SIZE"

definition ring_chars :: "kbd_ring \<Rightarrow> byte list" where
  "ring_chars r = ring_slice KBD_BUF_SIZE (kbd_buffer r) (kbd_read_ptr r) (ring_len r)"

lemma ring_len_cases:
  "ring_ok r \<Longrightarrow> ring_len r = (if kbd_read_ptr r \<le> kbd_write_ptr r then kbd_write_ptr r - kbd_read_ptr r
     else kbd_write_ptr r + KBD_BUF_SIZE - kbd_read_ptr r)"
  by (auto simp: ring_len_def ring_ok_def mod_if)

lemma kbd_next_cases:
  "ring_ok r \<Longrightarrow> kbd_next r = (if kbd_write_ptr r = 127 then 0 else kbd_write_ptr r + 1)"
  by (auto simp: kbd_next_def ring_ok_def)

lemma ring_write: "ring_ok r \<Longrightarrow> (kbd_read_ptr r + ring_len r) mod KBD_BUF_SIZE = kbd_write_ptr r"
  by (auto simp: ring_len_cases) (auto simp: ring_ok_def)

lemma ring_room: "ring_ok r \<Longrightarrow> kbd_next r \<noteq> kbd_read_ptr r \<longleftrightarrow> ring_len r < 127"
  by (auto simp: ring_len_cases kbd_next_cases) (auto simp: ring_ok_def)

lemma ring_empty: "ring_ok r \<Longrightarrow> kbd_read_ptr r = kbd_write_ptr r \<longleftrightarrow> ring_len r = 0"
  by (auto simp: ring_len_cases) (auto simp: ring_ok_def)

lemma ring_chars_length [simp]: "length (ring_chars r) = ring_len r"
  by (simp add: ring_chars_def)

lemma kbd_store_ok: "ring_ok r \<Longrightarrow> ring_ok (kbd_store c r)"
  by (auto simp: ring_ok_def kbd_store_def kbd_next_def)

lemma kbd_store_chars:
  assumes "ring_ok r"
  shows "ring_chars (kbd_store c r) = (if ring_len r < 127 then ring_chars r @ [c] else ring_chars r)"
proof (cases "ring_len r < 127")
  case True
  then have s: "kbd_store c r = r\<lparr>kbd_buffer := (kbd_buffer r)[kbd_write_ptr r := c], kbd_write_ptr := kbd_next r\<rparr>"
    using ring_room [OF assms] by (simp add: kbd_store_def)
  have "ring_len (kbd_store c r) = Suc (ring_len r)"
    using True assms unfolding ring_len_cases [OF kbd_store_ok [OF assms]] ring_len_cases [OF assms]
    by (auto simp: s kbd_next_cases ring_ok_def split: if_splits)
  moreover have "length (kbd_buffer r) = KBD_BUF_SIZE" using assms by (simp add: ring_ok_def)
  ultimately show ?thesis
    using True ring_slice_put [of "ring_len r" KBD_BUF_SIZE "kbd_buffer r" "kbd_read_ptr r" c] ring_write [OF assms]
    by (simp add: ring_chars_def s)
next
  case False
  then show ?thesis using ring_room [OF assms] by (simp add: kbd_store_def)
qed

lemma kbd_fetch_chars:
  assumes "ring_ok r" "ring_chars r = c # cs"
  shows "\<exists>r'. kbd_fetch r = Some (c, r') \<and> ring_chars r' = cs \<and> ring_ok r'"
proof -
  let ?r' = "r\<lparr>kbd_read_ptr := (kbd_read_ptr r + 1) mod KBD_BUF_SIZE\<rparr>"
  obtain n where n: "ring_len r = Suc n" using assms(2) ring_chars_length [of r] by (cases "ring_len r") auto
  have ok: "ring_ok ?r'" using assms(1) by (simp add: ring_ok_def)
  have "ring_len ?r' = n"
    using n assms(1) unfolding ring_len_cases [OF ok] ring_len_cases [OF assms(1)]
    by (auto simp: ring_ok_def mod_if split: if_splits)
  moreover have "kbd_buffer r ! (kbd_read_ptr r mod KBD_BUF_SIZE) = c"
    "ring_slice KBD_BUF_SIZE (kbd_buffer r) ((kbd_read_ptr r + 1) mod KBD_BUF_SIZE) n = cs"
    using assms(2) by (simp_all add: ring_chars_def n ring_slice_get)
  moreover have "kbd_read_ptr r \<noteq> kbd_write_ptr r" using ring_empty [OF assms(1)] n by simp
  moreover have "kbd_read_ptr r mod KBD_BUF_SIZE = kbd_read_ptr r" using assms(1) by (simp add: ring_ok_def)
  ultimately show ?thesis using ok by (auto simp: kbd_fetch_def ring_chars_def)
qed

interpretation kq: bounded_queue kbd_store kbd_fetch ring_chars ring_ok 127
proof unfold_locales
  fix r :: kbd_ring and c
  assume ok: "ring_ok r"
  show "ring_ok (kbd_store c r)" by (rule kbd_store_ok [OF ok])
  show "ring_chars (kbd_store c r) = (if length (ring_chars r) < 127 then ring_chars r @ [c] else ring_chars r)"
    by (simp add: kbd_store_chars [OF ok])
  show "length (ring_chars r) \<le> 127" using ok by (auto simp: ring_len_cases) (auto simp: ring_ok_def)
  show "kbd_fetch r = None" if "ring_chars r = []"
    using that ring_empty [OF ok] ring_chars_length [of r] by (simp add: kbd_fetch_def)
  show "\<exists>r'. kbd_fetch r = Some (c, r') \<and> ring_chars r' = cs \<and> ring_ok r'" if "ring_chars r = c # cs" for cs
    by (rule kbd_fetch_chars [OF ok that])
qed

text \<open>The values of \<open>n\<close> successive calls of \<open>kbd_getc\<close>.\<close>

primrec kbd_getcs :: "nat \<Rightarrow> console \<Rightarrow> int list" where
  "kbd_getcs 0 s = []"
| "kbd_getcs (Suc n) s = (case kbd_getc s of (c, s) \<Rightarrow> c # kbd_getcs n s)"

lemma kbd_putc_kbd: "kbd (kbd_putc c s) = kbd_store c (kbd s)" "uart_in (kbd_putc c s) = uart_in s"
  by (simp_all add: kbd_putc_def kbd_store_def on_k_def on_tty_def)

lemma kbd_putcs: "kbd (fold kbd_putc cs s) = fold kbd_store cs (kbd s)" "uart_in (fold kbd_putc cs s) = uart_in s"
  by (induction cs arbitrary: s) (simp_all add: kbd_putc_kbd)

lemma kbd_getc_cases:
  assumes "ring_ok (kbd s)"
  shows "\<exists>s'. kbd_getc s = (case map sint (ring_chars (kbd s) @ uart_in s) of [] \<Rightarrow> - 1 | c # _ \<Rightarrow> c, s')
    \<and> ring_ok (kbd s') \<and> ring_chars (kbd s') @ uart_in s' = tl (ring_chars (kbd s) @ uart_in s)"
proof (cases "ring_chars (kbd s)")
  case Nil
  then have z: "ring_len (kbd s) = 0" using ring_chars_length [of "kbd s"] by simp
  have e: "kbd_read_ptr (kbd s) = kbd_write_ptr (kbd s)" using z ring_empty [OF assms] by simp
  show ?thesis
  proof (cases "uart_in s")
    case Nil
    then show ?thesis using \<open>ring_chars (kbd s) = []\<close> e kq.deq_None [OF assms] assms
      by (simp add: kbd_getc_def)
  next
    case (Cons c cs)
    have p: "ring_chars (kbd_store c (kbd s)) = [c]" "ring_ok (kbd_store c (kbd s))"
      using kbd_store_chars [OF assms] z \<open>ring_chars (kbd s) = []\<close> kbd_store_ok [OF assms] by simp_all
    from kbd_fetch_chars [OF p(2,1)] obtain r where
      "kbd_fetch (kbd_store c (kbd s)) = Some (c, r)" "ring_chars r = []" "ring_ok r" by auto
    then show ?thesis using \<open>ring_chars (kbd s) = []\<close> e Cons
      by (simp add: kbd_getc_def kbd_putc_kbd)
  qed
next
  case (Cons c cs)
  then have "kbd_read_ptr (kbd s) \<noteq> kbd_write_ptr (kbd s)"
    using ring_empty [OF assms] ring_chars_length [of "kbd s"] by auto
  moreover obtain r where "kbd_fetch (kbd s) = Some (c, r)" "ring_chars r = cs" "ring_ok r"
    using kbd_fetch_chars [OF assms Cons] by blast
  ultimately show ?thesis using Cons by (simp add: kbd_getc_def)
qed

lemma kbd_getcs_all:
  "ring_ok (kbd s) \<Longrightarrow>
     kbd_getcs n s = take n (map sint (ring_chars (kbd s) @ uart_in s) @ replicate n (- 1))"
proof (induction n arbitrary: s)
  case 0
  then show ?case by simp
next
  case (Suc n)
  from kbd_getc_cases [OF Suc.prems] obtain s' where
    g: "kbd_getc s = (case map sint (ring_chars (kbd s) @ uart_in s) of [] \<Rightarrow> - 1 | c # _ \<Rightarrow> c, s')"
    and ok: "ring_ok (kbd s')" and t: "ring_chars (kbd s') @ uart_in s' = tl (ring_chars (kbd s) @ uart_in s)"
    by blast
  have IH: "kbd_getcs n s' = take n (map sint (tl (ring_chars (kbd s) @ uart_in s)) @ replicate n (- 1))"
    using Suc.IH [OF ok] t by simp
  show ?case
  proof (cases "ring_chars (kbd s) @ uart_in s")
    case Nil
    then show ?thesis using g IH by simp
  next
    case (Cons c cs)
    have "take n (map sint cs @ replicate n (- 1)) = take n (map sint cs @ replicate (Suc n) (- 1 :: int))"
      by (simp add: min_def del: replicate_Suc replicate.simps)
    then show ?thesis using g IH unfolding Cons by simp
  qed
qed

text \<open>C29: The ring of typed characters is a queue: the characters the interrupts store come out
  of \<^verbatim>\<open>kbd_getc\<close> in the order they were typed, after those already waiting and before those
  still in the serial receiver, and only the ones that found 127 characters waiting are lost.
  With nothing left the calls answer -1.\<close>

theorem kbd_fifo:
  assumes "ring_ok (kbd s)"
  shows "kbd_getcs n (fold kbd_putc cs s)
    = take n (map sint (ring_chars (kbd s) @ take (127 - length (ring_chars (kbd s))) cs @ uart_in s)
        @ replicate n (- 1))"
  using kbd_getcs_all [of "fold kbd_putc cs s" n] kq.enq_all_inv [OF assms, of cs] kq.enq_all [OF assms, of cs]
  by (simp add: kbd_putcs)

subsection \<open>Line editing\<close>

text \<open>What a read of at most \<open>n\<close> bytes makes of the typed characters, as a function on the
  line read so far: the line, and the characters left for the next read.\<close>

fun edit_line :: "nat \<Rightarrow> byte list \<Rightarrow> int list \<Rightarrow> (byte list \<times> int list) option" where
  "edit_line n acc typed =
     (if n \<le> length acc then Some (acc, typed)
      else (case typed of
          [] \<Rightarrow> None
        | c # rest \<Rightarrow>
            if c < 0 \<or> c = 3 \<or> c = 28 then edit_line n acc rest
            else if c = 8 \<or> c = 127 then edit_line n (butlast acc) rest
            else if c = 64 then edit_line n [] rest
            else if c = 4 then Some (acc, rest)
            else if c = 10 \<or> c = 13 then Some (acc @ [10], rest)
            else edit_line n (acc @ [of_int c]) rest))"

declare edit_line.simps [simp del]

definition reading :: "uint32_t \<Rightarrow> nat \<Rightarrow> byte list \<Rightarrow> console \<Rightarrow> bool" where
  "reading a n acc s \<longleftrightarrow> con_termios s = con_termios0 \<and> length acc \<le> n
     \<and> u_base (k_u (kern s)) = UAddr (a + of_nat (length acc))
     \<and> u_count (k_u (kern s)) = of_nat (n - length acc)
     \<and> user_range a n (kern s) \<and> take (length acc) (user_list a n (kern s)) = acc
     \<and> length (procs (k_sch (kern s))) = NPROC \<and> u_procp (k_u (kern s)) < NPROC"

lemma kern_out [simp]:
  "kern (out_vga c s) = kern s" "kern (out_serial c s) = kern s" "kern (out_char c s) = kern s"
  "con_termios (out_vga c s) = con_termios s" "con_termios (out_serial c s) = con_termios s"
  "con_termios (out_char c s) = con_termios s"
  by (simp_all add: out_char_def out_vga_def out_serial_def on_tty_def)

lemma kern_on_k [simp]: "kern (on_k f s) = f (kern s)" "con_termios (on_k f s) = con_termios s"
  by (simp_all add: on_k_def on_tty_def on_kern_def)

lemma kern_echo [simp]: "kern (echo_char c s) = kern s" "con_termios (echo_char c s) = con_termios s"
  by (simp_all add: echo_char_def)

lemma kern_rub_out [simp]:
  "kern (rub_out s) = upd_u (\<lambda>u. u\<lparr>u_base := caddr_pred (u_base u), u_count := u_count u + 1\<rparr>) (kern s)"
  "con_termios (rub_out s) = con_termios s"
  by (simp_all add: rub_out_def Let_def)

lemma reading_cong:
  assumes "reading a n acc s" "kern s' = kern s" "con_termios s' = con_termios s"
  shows "reading a n acc s'"
  using assms by (simp add: reading_def)

lemma user_range_bound: "user_range a n k \<Longrightarrow> unat a + n < 2 ^ 32"
  using placed_room [of "cur k" "unat a + n"] unfolding user_range_def by linarith

lemma reading_addr:
  assumes "reading a n acc s"
  shows "unat (a + of_nat (length acc)) = unat a + length acc"
    "unat (u_count (k_u (kern s))) = n - length acc"
proof -
  have b: "unat a + n < 2 ^ 32" "length acc \<le> n"
    using assms user_range_bound by (auto simp: reading_def)
  then show "unat (a + of_nat (length acc)) = unat a + length acc"
    by (simp add: unat_word_ariths unat_of_nat)
  show "unat (u_count (k_u (kern s))) = n - length acc"
  proof -
    have c: "u_count (k_u (kern s)) = of_nat (n - length acc)" using assms unfolding reading_def by blast
    show ?thesis unfolding c unat_of_nat by (rule mod_less) (use b in simp)
  qed
qed

lemma reading_base:
  assumes "reading a n acc s"
  shows "caddr_less (UAddr a) (u_base (k_u (kern s))) \<longleftrightarrow> acc \<noteq> []"
    "caddr_dist (UAddr a) (u_base (k_u (kern s))) = length acc"
    "u_count (k_u (kern s)) = 0 \<longleftrightarrow> n \<le> length acc"
proof -
  have "u_base (k_u (kern s)) = UAddr (a + of_nat (length acc))" using assms by (simp add: reading_def)
  moreover have "length acc < 2 ^ 32" using assms user_range_bound [of a n "kern s"] by (simp add: reading_def)
  ultimately show "caddr_less (UAddr a) (u_base (k_u (kern s))) \<longleftrightarrow> acc \<noteq> []"
    "caddr_dist (UAddr a) (u_base (k_u (kern s))) = length acc"
    using reading_addr(1) [OF assms] by (simp_all add: word_less_nat_alt unat_of_nat)
  show "u_count (k_u (kern s)) = 0 \<longleftrightarrow> n \<le> length acc"
    using reading_addr(2) [OF assms] by (metis diff_is_0_eq unat_eq_zero)
qed

lemma reading_rub_out:
  assumes "reading a n (acc @ [x]) s"
  shows "reading a n acc (rub_out s)"
proof -
  have "image_of (upd_u f (kern s)) = image_of (kern s)" if "u_procp (f (k_u (kern s))) = u_procp (k_u (kern s))" for f
    using that by (simp add: image_of_def)
  then have i: "image_of (kern (rub_out s)) = image_of (kern s)" by simp
  have t: "take (length acc) (user_list a n (kern s)) = acc"
    using assms take_take [of "length acc" "length (acc @ [x])" "user_list a n (kern s)"]
    by (simp add: reading_def del: take_take)
  have "user_list a n (kern (rub_out s)) = user_list a n (kern s)" by (rule user_list_image [OF i]) simp
  then show ?thesis
    using assms t user_range_image [OF i, of a n]
    by (simp add: reading_def Suc_diff_le [symmetric] of_nat_diff)
qed

lemma reading_rub_all: "reading a n acc s \<Longrightarrow> reading a n [] (rub_all (length acc) (UAddr a) s)"
proof (induction "length acc" arbitrary: acc s)
  case 0
  then show ?case by (simp add: rub_all.simps)
next
  case (Suc m)
  then obtain acc' x where acc: "acc = acc' @ [x]" by (metis append_butlast_last_id list.size(3) nat.simps(3))
  then have "m = length acc'" using Suc.hyps(2) by simp
  moreover have "reading a n acc' (rub_out s)" using Suc.prems acc reading_rub_out by blast
  ultimately have "reading a n [] (rub_all m (UAddr a) (rub_out s))" using Suc.hyps(1) by blast
  then show ?case using reading_base(1) [OF Suc.prems] acc Suc.hyps(2) [symmetric]
    by (subst rub_all.simps) simp
qed

lemma reading_signal:
  assumes "reading a n acc s"
  shows "reading a n acc (on_k (pgsignal g sig) s)"
proof -
  have l: "length (procs (k_sch (kern s))) = NPROC" "u_procp (k_u (kern s)) < NPROC"
    using assms by (simp_all add: reading_def)
  have f: "image_kept (kern s) (pgsignal g sig (kern s))" by (rule pgsignal_image [OF l(1)])
  then have i: "image_of (pgsignal g sig (kern s)) = image_of (kern s)" "phys (pgsignal g sig (kern s)) = phys (kern s)"
    using l(2) by (simp_all add: image_of_def image_kept_def)
  show ?thesis using assms f user_range_image [OF i(1), of a n] user_list_image [OF i, of a n]
    by (simp add: reading_def image_kept_def)
qed

lemma reading_append:
  assumes "reading a n acc s" "length acc < n"
  shows "\<exists>k. subyte (u_base (k_u (kern s))) v (kern s) = (True, k)
    \<and> reading a n (acc @ [v]) (on_k (\<lambda>_. upd_u (\<lambda>u. u\<lparr>u_base := caddr_add (u_base u) 1, u_count := u_count u - 1\<rparr>) k) s)"
proof -
  let ?up = "upd_u (\<lambda>u. u\<lparr>u_base := caddr_add (u_base u) 1, u_count := u_count u - 1\<rparr>)"
  have r: "user_range a n (kern s)" "u_base (k_u (kern s)) = UAddr (a + of_nat (length acc))"
    using assms(1) by (simp_all add: reading_def)
  from subyte_user [OF r(1) assms(2), of v] obtain m where
    m: "subyte (u_base (k_u (kern s))) v (kern s) = (True, (kern s)\<lparr>phys := m\<rparr>)"
    "user_list a n ((kern s)\<lparr>phys := m\<rparr>) = (user_list a n (kern s))[length acc := v]" unfolding r(2) by blast
  have i: "image_of (?up ((kern s)\<lparr>phys := m\<rparr>)) = image_of (kern s)" by (simp add: image_of_def)
  have "user_list a n (?up ((kern s)\<lparr>phys := m\<rparr>)) = user_list a n ((kern s)\<lparr>phys := m\<rparr>)"
    by (rule user_list_image) (simp_all add: image_of_def)
  then have l: "user_list a n (?up ((kern s)\<lparr>phys := m\<rparr>)) = (user_list a n (kern s))[length acc := v]"
    using m(2) by simp
  have "take (Suc (length acc)) ((user_list a n (kern s))[length acc := v]) = acc @ [v]"
    using assms by (simp add: reading_def take_Suc_conv_app_nth)
  then have "reading a n (acc @ [v]) (on_k (\<lambda>_. ?up ((kern s)\<lparr>phys := m\<rparr>)) s)"
    using assms l user_range_image [OF i, of a n] r(2) by (simp add: reading_def add.assoc of_nat_diff)
  with m(1) show ?thesis by blast
qed

lemma cooked_simps:
  assumes "con_termios s = con_termios0"
  shows "special VINTR 3 s = 3" "special VQUIT 28 s = 28" "special VERASE 8 s = 8" "special VKILL 64 s = 64"
    "special VEOF 4 s = 4" "lflag LFLAG_ICANON s" "lflag LFLAG_ISIG s"
    "\<not> hasf (c_iflag (con_termios s)) IFLAG_IGNCR" "map_input s c = (if c = 13 then 10 else c)"
  using assms by (simp_all add: special_def lflag_def map_input_def con_termios0_def hasf_def)

lemma conread_loop_edits:
  "reading a n acc s \<Longrightarrow>
     (case edit_line n acc typed of
        None \<Rightarrow> \<exists>s'. conread_loop (UAddr a) typed s = Waits s'
      | Some (l, rest) \<Rightarrow> \<exists>s'. conread_loop (UAddr a) typed s = Done 0 rest s' \<and> reading a n l s')"
proof (induction typed arbitrary: acc s)
  case Nil
  then show ?case using reading_base(3) [OF Nil.prems]
    by (simp add: edit_line.simps conread_loop.simps)
next
  case (Cons c0 rest)
  let ?C = "conread_loop (UAddr a)"
  have ct: "con_termios s = con_termios0" using Cons.prems by (simp add: reading_def)
  note cs = cooked_simps [OF ct] cooked_simps(2) [OF ct, unfolded One_nat_def]
  show ?case
  proof (cases "n \<le> length acc")
    case True
    then show ?thesis using reading_base(3) [OF Cons.prems] Cons.prems
      by (simp add: edit_line.simps conread_loop.simps)
  next
    case False
    then have u: "u_count (k_u (kern s)) \<noteq> 0" using reading_base(3) [OF Cons.prems] by simp
    define c where "c = (if c0 = 13 then 10 else c0)"
    have nxt: "\<exists>k. subyte (u_base (k_u (kern (echo_char c s)))) (of_int c) (kern (echo_char c s)) = (True, k)
      \<and> reading a n (acc @ [of_int c]) (on_k (\<lambda>_. upd_u (\<lambda>u. u\<lparr>u_base := caddr_add (u_base u) 1, u_count := u_count u - 1\<rparr>) k) (echo_char c s))"
      using reading_append [OF reading_cong [OF Cons.prems, of "echo_char c s"], of "of_int c"] False by simp
    have kill: "reading a n [] (let s1 = rub_all (caddr_dist (UAddr a) (u_base (k_u (kern s)))) (UAddr a) s
        in if lflag LFLAG_ECHO s1 \<and> lflag LFLAG_ECHOK s1 then out_char 10 s1 else s1)"
      using reading_rub_all [OF Cons.prems] unfolding reading_base(2) [OF Cons.prems] Let_def
      by (auto intro: reading_cong)
    have erase: "reading a n (butlast acc) (if caddr_less (UAddr a) (u_base (k_u (kern s))) then rub_out s else s)"
      using reading_base(1) [OF Cons.prems] Cons.prems
        reading_rub_out [of a n "butlast acc" "last acc" s] by (cases "acc = []") auto
    consider "c0 < 0" | "c0 = 3 \<or> c0 = 28" | "c0 = 8 \<or> c0 = 127" | "c0 = 64" | "c0 = 4"
      | "c0 = 10 \<or> c0 = 13" | "\<not> c0 < 0" "c0 \<notin> {3, 28, 8, 127, 64, 4, 10, 13}"
      by blast
    then show ?thesis
    proof cases
      case 1
      then have "?C (c0 # rest) s = ?C rest s" using u by (subst conread_loop.simps) simp
      moreover have "edit_line n acc (c0 # rest) = edit_line n acc rest" using 1 False by (subst edit_line.simps) simp
      ultimately show ?thesis using Cons.IH [OF Cons.prems] by (auto split: option.splits)
    next
      case 2
      then have "?C (c0 # rest) s = ?C rest (on_k (pgsignal (tty_get_pgid (c_tty s)) (if c0 = 3 then 2 else 3)) s)"
        using u by (cases "c0 = 3"; subst conread_loop.simps) (simp_all add: cs Let_def)
      moreover have "edit_line n acc (c0 # rest) = edit_line n acc rest" using 2 False by (subst edit_line.simps) auto
      ultimately show ?thesis using Cons.IH [OF reading_signal [OF Cons.prems]] by (auto split: option.splits)
    next
      case 3
      then have "?C (c0 # rest) s = ?C rest (if caddr_less (UAddr a) (u_base (k_u (kern s))) then rub_out s else s)"
        using u by (cases "c0 = 8"; subst conread_loop.simps) (simp_all add: cs Let_def)
      moreover have "edit_line n acc (c0 # rest) = edit_line n (butlast acc) rest"
        using 3 False by (subst edit_line.simps) auto
      ultimately show ?thesis using Cons.IH [OF erase] by (auto split: option.splits)
    next
      case 4
      then have "?C (c0 # rest) s = ?C rest (let s1 = rub_all (caddr_dist (UAddr a) (u_base (k_u (kern s)))) (UAddr a) s
        in if lflag LFLAG_ECHO s1 \<and> lflag LFLAG_ECHOK s1 then out_char 10 s1 else s1)"
        using u by (subst conread_loop.simps) (simp add: cs Let_def)
      moreover have "edit_line n acc (c0 # rest) = edit_line n [] rest" using 4 False by (subst edit_line.simps) simp
      ultimately show ?thesis using Cons.IH [OF kill] by (auto split: option.splits)
    next
      case 5
      then have "?C (c0 # rest) s = Done 0 rest s" using u by (subst conread_loop.simps) (simp add: cs Let_def)
      moreover have "edit_line n acc (c0 # rest) = Some (acc, rest)" using 5 False by (subst edit_line.simps) simp
      ultimately show ?thesis using Cons.prems by simp
    next
      case 6
      then have c10: "c = 10" by (auto simp: c_def)
      from nxt obtain k where k: "subyte (u_base (k_u (kern (echo_char 10 s)))) 10 (kern (echo_char 10 s)) = (True, k)"
        "reading a n (acc @ [10]) (on_k (\<lambda>_. upd_u (\<lambda>u. u\<lparr>u_base := caddr_add (u_base u) 1, u_count := u_count u - 1\<rparr>) k) (echo_char 10 s))"
        by (auto simp: c10)
      have "?C (c0 # rest) s = Done 0 rest (on_k (\<lambda>_. upd_u (\<lambda>u. u\<lparr>u_base := caddr_add (u_base u) 1, u_count := u_count u - 1\<rparr>) k) (echo_char 10 s))"
        using u 6 k(1) by (cases "c0 = 10"; subst conread_loop.simps) (simp_all add: cs Let_def)
      moreover have "edit_line n acc (c0 # rest) = Some (acc @ [10], rest)"
        using 6 False by (subst edit_line.simps) auto
      ultimately show ?thesis using k(2) by simp
    next
      case 7
      then have c: "c = c0" by (simp add: c_def)
      from nxt obtain k where k: "subyte (u_base (k_u (kern (echo_char c s)))) (of_int c) (kern (echo_char c s)) = (True, k)"
        "reading a n (acc @ [of_int c]) (on_k (\<lambda>_. upd_u (\<lambda>u. u\<lparr>u_base := caddr_add (u_base u) 1, u_count := u_count u - 1\<rparr>) k) (echo_char c s))"
        by blast
      have "?C (c0 # rest) s = ?C rest (on_k (\<lambda>_. upd_u (\<lambda>u. u\<lparr>u_base := caddr_add (u_base u) 1, u_count := u_count u - 1\<rparr>) k) (echo_char c s))"
        using u 7 k(1) unfolding c by (subst conread_loop.simps) (simp add: cs Let_def)
      moreover have "edit_line n acc (c0 # rest) = edit_line n (acc @ [of_int c]) rest"
        using 7 False unfolding c by (subst edit_line.simps) auto
      ultimately show ?thesis using Cons.IH [OF k(2)] by (auto split: option.splits)
    qed
  qed
qed

text \<open>C30: In its initial mode the console gives a reader the line as edited: a read of at most
  \<open>n\<close> bytes leaves in user memory what the line editor \<^const>\<open>edit_line\<close> makes of the typed
  characters (the last character erased by backspace or delete, the line so far by the kill
  character, a carriage return read as a newline, the interrupt characters removed), it ends
  where the editor ends, and it waits as long as the editor has no line.\<close>

theorem conread_edits:
  assumes "con_termios s = con_termios0" "u_base (k_u (kern s)) = UAddr a"
    "u_count (k_u (kern s)) = of_nat n" "user_range a n (kern s)"
    "length (procs (k_sch (kern s))) = NPROC" "u_procp (k_u (kern s)) < NPROC"
  shows "case edit_line n [] typed of
      None \<Rightarrow> \<exists>s'. conread typed s = Waits s'
    | Some (l, rest) \<Rightarrow> \<exists>s'. conread typed s = Done 0 rest s'
        \<and> take (length l) (user_list a n (kern s')) = l \<and> u_count (k_u (kern s')) = of_nat (n - length l)"
proof -
  have "reading a n [] s" using assms by (simp add: reading_def)
  from conread_loop_edits [OF this, of typed] show ?thesis
    unfolding conread_def assms(2) by (auto simp: reading_def split: option.splits)
qed

definition console0 :: console where
  "console0 = \<lparr>c_tty = \<lparr>t_kern = upd_u (\<lambda>u. u\<lparr>u_base := UAddr 0, u_count := 10\<rparr>) two_kernel, t_scr = blank_screen,
     cmem = (\<lambda>_. 0), cfreelist = 0, cons_tty = \<lparr>t_rawq = empty_clist, t_canq = empty_clist,
       t_outq = empty_clist, t_flags = 24, t_state = 0, t_delct = 0, t_col = 0, t_erase = 8, t_kill = 64,
       t_pgid = 0\<rparr>, tt_row = 0, tt_col = 0\<rparr>,
     kbd = \<lparr>kbd_buffer = replicate 128 0, kbd_read_ptr = 0, kbd_write_ptr = 0\<rparr>, shift_state = False,
     con_termios = con_termios0, uart_in = [120]\<rparr>"

text \<open>A b, erase, c, return.\<close>

theorem conread_edits_witness:
  "edit_line 10 [] [97, 98, 8, 99, 13, 100] = Some ([97, 99, 10], [100])
   \<and> (\<exists>s'. conread [97, 98, 8, 99, 13, 100] console0 = Done 0 [100] s'
        \<and> take 3 (user_list 0 10 (kern s')) = [97, 99, 10])"
proof -
  have e: "edit_line 10 [] [97, 98, 8, 99, 13, 100] = Some ([97, 99, 10], [100])"
    by (simp add: edit_line.simps)
  have p: "u_procp (k_u (kern console0)) = 0" "procp (kern console0) 0 = procp two_kernel 0"
    by (simp_all add: console0_def two_kernel_sel)
  have h: "con_termios console0 = con_termios0" "u_base (k_u (kern console0)) = UAddr 0"
    "u_count (k_u (kern console0)) = of_nat 10" "user_range 0 10 (kern console0)"
    "length (procs (k_sch (kern console0))) = NPROC" "u_procp (k_u (kern console0)) < NPROC"
    unfolding user_range_def placed_def p two_kernel_sel
    by (simp_all add: console0_def two_kernel_def zero_kernel_def zero_user_def)
  from conread_edits [OF h, of "[97, 98, 8, 99, 13, 100]"] have "\<exists>s'. conread [97, 98, 8, 99, 13, 100] console0 = Done 0 [100] s'
        \<and> take 3 (user_list 0 10 (kern s')) = [97, 99, 10] \<and> u_count (k_u (kern s')) = 7"
    unfolding e by (simp add: numeral_3_eq_3)
  with e show ?thesis by blast
qed

theorem kbd_fifo_witness:
  "ring_ok (kbd console0) \<and> kbd_getcs 4 (fold kbd_putc [104, 105] console0) = [104, 105, 120, - 1]"
proof -
  have k: "kbd console0 = \<lparr>kbd_buffer = replicate 128 0, kbd_read_ptr = 0, kbd_write_ptr = 0\<rparr>"
    by (simp add: console0_def)
  have h: "ring_ok (kbd console0)" unfolding k by (simp add: ring_ok_def)
  have c: "ring_chars (kbd console0) = []" unfolding k by (simp add: ring_chars_def ring_len_def)
  have u: "uart_in console0 = [120]" by (simp add: console0_def)
  from kbd_fifo [OF h, of 4 "[104, 105]"] h show ?thesis by (simp add: c u)
qed

end
