(* ===== verification/File_Map.thy ===== *)
theory File_Map
  imports Rdwri
begin

text \<open>
  Where the bytes of a file are.  \<open>dblock\<close> is the block map of \<^verbatim>\<open>bmap\<close> in \<^verbatim>\<open>kernel/fs/iget.c\<close>
  as a function of a disk image and an inode: direct blocks, seven indirect blocks and a double
  indirect one.  For a regular file in the cache, \<^verbatim>\<open>bmap\<close> computes it, whether the indirect
  blocks are cached or read from the disk, and leaves everything else as it was.
\<close>

subsection \<open>The block map of an image\<close>

type_synonym disk = "nat \<Rightarrow> block"

text \<open>A word of an indirect block, read from the disk.\<close>

definition disk_word :: "disk \<Rightarrow> nat \<Rightarrow> nat \<Rightarrow> nat" where
  "disk_word d b i = unat (get32 (d b) (4 * i))"

text \<open>The indirect blocks on the way to block \<open>n\<close> of the file, the block itself, and the bytes
  of the file.\<close>

definition dmeta :: "disk \<Rightarrow> inode \<Rightarrow> nat \<Rightarrow> nat list" where
  "dmeta d p n =
     (if \<not> hasf (i_mode p) ILARG then []
      else if n < 896 then [unat (i_addr p ! (n div 128))]
      else [unat (i_addr p ! 7), disk_word d (unat (i_addr p ! 7)) ((n - 896) div 128)])"

definition dblock :: "disk \<Rightarrow> inode \<Rightarrow> nat \<Rightarrow> nat" where
  "dblock d p n = (if \<not> hasf (i_mode p) ILARG then unat (i_addr p ! n)
     else disk_word d (last (dmeta d p n)) (n mod 128))"

definition dbyte :: "disk \<Rightarrow> inode \<Rightarrow> nat \<Rightarrow> byte" where
  "dbyte d p i = d (dblock d p (i div BSIZE)) (i mod BSIZE)"

definition disk_file :: "disk \<Rightarrow> inode \<Rightarrow> byte list" where
  "disk_file d p = map (dbyte d p) [0..<unat (isize p)]"

lemma dblock_cong:
  "i_addr p' = i_addr p \<Longrightarrow> hasf (i_mode p') ILARG = hasf (i_mode p) ILARG \<Longrightarrow> dblock d p' = dblock d p \<and> dmeta d p' = dmeta d p"
  by (simp add: dblock_def dmeta_def fun_eq_iff)

subsection \<open>Positions\<close>

lemma pos_block:
  assumes "p < 2 ^ 31"
  shows "sint (lblock (of_nat p)) = int (p div BSIZE)" "unat (lblock (of_nat p)) = p div BSIZE"
    "boff (of_nat p) = p mod BSIZE" "sint (of_nat p :: int32_t) = int p" "unat (of_nat p :: int32_t) = p"
proof -
  show u: "unat (of_nat p :: int32_t) = p" using assms by (simp add: unat_of_nat)
  then show s: "sint (of_nat p :: int32_t) = int p" using assms sint_small32 [of "of_nat p"] by simp
  show l: "sint (lblock (of_nat p)) = int (p div BSIZE)"
    using s by (simp add: sint_signed_drop_bit_eq drop_bit_eq_div zdiv_int)
  have small: "unat (lblock (of_nat p)) < 2 ^ 31" using sint_pos32 [of "lblock (of_nat p)"] l by simp
  have "int (unat (lblock (of_nat p))) = int (p div BSIZE)" using sint_small32 [OF small] l by (simp only: )
  then show "unat (lblock (of_nat p)) = p div BSIZE" by (simp only: of_nat_eq_iff)
  have "(511 :: int32_t) = mask 9" by (simp add: mask_eq_exp_minus_1)
  then have "of_nat p AND (511 :: int32_t) = take_bit 9 (of_nat p)" by (simp add: take_bit_eq_mask)
  then have "boff (of_nat p) = take_bit 9 p" by (simp only: unsigned_take_bit_eq u)
  then show "boff (of_nat p) = p mod BSIZE" by (simp add: take_bit_eq_mod)
qed

subsection \<open>Reading without a trace\<close>

text \<open>Only the cache has changed, and neither what it stands for nor the buffers in use.\<close>

definition quiet :: "dev_t \<Rightarrow> nat set \<Rightarrow> kernel \<Rightarrow> kernel \<Rightarrow> bool" where
  "quiet dv B k k' \<longleftrightarrow> cache_at dv k' B \<and> bio_frame k k' \<and> (\<forall>j\<in>B. same_buf k k' j)
     \<and> (\<forall>b. in_range b \<longrightarrow> content dv k' b = content dv k b)"

lemma quiet_trans: "quiet dv B k k' \<Longrightarrow> quiet dv B k' k'' \<Longrightarrow> quiet dv B k k''"
  unfolding quiet_def by (auto intro: bio_frame_trans same_buf_trans)

lemma quiet_refl: "cache_at dv k B \<Longrightarrow> quiet dv B k k"
  by (simp add: quiet_def)

lemma quiet_holds: "quiet dv B k k' \<Longrightarrow> j \<in> B \<Longrightarrow> holds dv k' j bn = holds dv k j bn"
  by (simp add: quiet_def same_buf_def Let_def holds_def)

lemma word_read:
  assumes c: "cache_at dv k B" "B \<noteq> {..<NBUF}" and nb: "in_range nb" "\<And>j. j \<in> B \<Longrightarrow> \<not> holds dv k j nb" and w: "unat w < 128"
  shows "\<exists>k'. kbind (bread dv nb) (\<lambda>bp. indirect_word dv bp w False) k = Ret (Some (get32 (content dv k nb) (4 * unat w))) k'
    \<and> quiet dv B k k'"
proof -
  obtain j k1 where br: "bread dv nb k = Ret (Buf j) k1" and ob: "obtained dv k B nb j k1"
    and cl: "clip (b_addr (bufp k1 (Buf j))) = content dv k nb"
    using bread_ok [OF c nb(2,1)] by blast
  have o: "j \<notin> B" "cache_at dv k1 (insert j B)" "bio_frame k k1" "clean dv k1 j"
    "\<And>j. j \<in> B \<Longrightarrow> same_buf k k1 j" "\<And>b. in_range b \<Longrightarrow> content dv k1 b = content dv k b"
    using ob by (auto simp: obtained_def)
  note r = brelse_at [OF o(2) insertI1 o(4)]
  have "insert j B - {j} = B" using o(1) by auto
  with r o have q: "quiet dv B k (brelse (Buf j) k1)"
    unfolding quiet_def by (auto intro: bio_frame_trans same_buf_trans)
  have "get32 (content dv k nb) (4 * unat w) = word_at (Buf j) (unat w) k1"
    unfolding cl [symmetric] using w by (simp add: word_at_def)
  with br w q show ?thesis by (intro exI [of _ "brelse (Buf j) k1"]) (simp add: indirect_word_def)
qed

subsection \<open>Regular files\<close>

text \<open>The cache as a disk image.\<close>

definition cached :: "dev_t \<Rightarrow> kernel \<Rightarrow> disk" where
  "cached dv k b = content dv k (of_nat b)"

text \<open>A regular file whose first \<open>M\<close> bytes have blocks, none of them in use.\<close>

definition mapped_file :: "dev_t \<Rightarrow> kernel \<Rightarrow> nat set \<Rightarrow> nat \<Rightarrow> nat \<Rightarrow> bool" where
  "mapped_file dv k B x M \<longleftrightarrow> cache_at dv k B \<and> B \<noteq> {..<NBUF} \<and> x < length (inodes (k_fs k))
     \<and> i_dev (inodep k x) = dv \<and> i_mode (inodep k x) AND IFMT = 0 \<and> rablock (k_fs k) = 0
     \<and> M \<le> (if hasf (i_mode (inodep k x)) ILARG then 17280 else 8) * BSIZE
     \<and> (\<forall>p<M. \<forall>b\<in>set (dblock (cached dv k) (inodep k x) (p div BSIZE) # dmeta (cached dv k) (inodep k x) (p div BSIZE)).
          0 < b \<and> b < 16384 \<and> (\<forall>j\<in>B. \<not> holds dv k j (of_nat b)))"

lemma block_number: "b < 16384 \<Longrightarrow> in_range (of_nat b)" "b < 16384 \<Longrightarrow> unat (of_nat b :: daddr_t) = b"
proof -
  assume b: "b < 16384"
  then show u: "unat (of_nat b :: daddr_t) = b" by (simp add: unat_of_nat)
  then show "in_range (of_nat b)" using b sint_small32 [of "of_nat b"] by (simp add: in_range_def)
qed

lemma cached_quiet: "quiet dv B k k' \<Longrightarrow> b < 16384 \<Longrightarrow> cached dv k' b = cached dv k b"
  using block_number(1) by (simp add: quiet_def cached_def)

lemma mapped_blocks:
  assumes "mapped_file dv k B x M" "p < M" "b \<in> set (dblock (cached dv k) (inodep k x) (p div BSIZE) # dmeta (cached dv k) (inodep k x) (p div BSIZE))"
  shows "0 < b" "b < 16384" "in_range (of_nat b)" "unat (of_nat b :: daddr_t) = b" "\<And>j. j \<in> B \<Longrightarrow> \<not> holds dv k j (of_nat b)"
  using assms block_number [of b] by (auto simp: mapped_file_def)

lemma bmap_mapped:
  assumes f: "mapped_file dv k B x M" and p: "p < M"
  shows "\<exists>k'. bmap x (lblock (of_nat p)) False k = Ret (of_nat (dblock (cached dv k) (inodep k x) (p div BSIZE))) k' \<and> quiet dv B k k'"
proof -
  let ?P = "inodep k x" and ?D = "cached dv k"
  define n where "n = p div BSIZE"
  define w where "w = lblock (of_nat p)"
  have M: "M \<le> (if hasf (i_mode ?P) ILARG then 17280 else 8) * BSIZE" and c: "cache_at dv k B" "B \<noteq> {..<NBUF}"
    and dv: "i_dev ?P = dv" using f by (simp_all add: mapped_file_def)
  have p31: "p < 2 ^ 31" using p M by (simp split: if_splits)
  have w: "unat w = n" "sint w = int n" using pos_block [OF p31] by (simp_all add: w_def n_def)
  note bl = mapped_blocks [OF f p, folded n_def]
  show ?thesis unfolding n_def [symmetric] w_def [symmetric]
  proof (cases "hasf (i_mode ?P) ILARG")
    case False
    then have "n < 8" using p M by (simp add: n_def)
    then show "\<exists>k'. bmap x w False k = Ret (of_nat (dblock ?D ?P n)) k' \<and> quiet dv B k k'"
      using False w quiet_refl [OF c(1)] by (simp add: bmap_def bmap_direct_def Let_def dblock_def)
  next
    case True
    then have n: "n < 17280" using p M by (simp add: n_def)
    have lt: "w < 896 \<longleftrightarrow> n < 896" by (simp add: word_less_nat_alt w(1))
    have md: "unat (w mod 128) = n mod 128" by (simp add: unat_mod w(1))
    have run: "bmap x w False k = bmap_large x w False k" using True by (simp add: bmap_def)
    show "\<exists>k'. bmap x w False k = Ret (of_nat (dblock ?D ?P n)) k' \<and> quiet dv B k k'"
    proof (cases "n < 896")
      case low: True
      let ?b = "i_addr ?P ! (n div 128)"
      have me: "dmeta ?D ?P n = [unat ?b]" using True low by (simp add: dmeta_def)
      have b: "?b \<noteq> 0" "in_range ?b" "\<And>j. j \<in> B \<Longrightarrow> \<not> holds dv k j ?b" using bl [of "unat ?b"] by (simp_all add: me unat_gt_0)
      obtain k1 where k1: "kbind (bread dv ?b) (\<lambda>bp. indirect_word dv bp (w mod 128) False) k
          = Ret (Some (get32 (content dv k ?b) (4 * unat (w mod 128)))) k1" "quiet dv B k k1"
        using word_read [OF c b(2,3), of "w mod 128"] md by auto
      have "unat (w div 128) = n div 128" by (simp add: unat_div w(1))
      moreover have "dblock ?D ?P n = unat (get32 (content dv k ?b) (4 * unat (w mod 128)))"
        using True me by (simp add: dblock_def disk_word_def cached_def md)
      moreover have "bmap_last dv ?b (w mod 128) False k = Ret (get32 (content dv k ?b) (4 * unat (w mod 128))) k1"
        unfolding bmap_last_def kbind_assoc [symmetric] using k1(1) by simp
      ultimately show ?thesis using k1(2) low lt b(1) dv unfolding run by (auto simp: bmap_large_def Let_def)
    next
      case high: False
      let ?b = "i_addr ?P ! 7"
      let ?i = "w - 896"
      have i: "unat ?i = n - 896" using high lt by (simp add: unat_sub_if_size w(1) word_le_nat_alt)
      have ii: "unat (?i div 128) = (n - 896) div 128" "unat (?i mod 128) = (n - 896) mod 128"
        by (simp_all add: unat_div unat_mod i)
      let ?c = "get32 (content dv k ?b) (4 * unat (?i div 128))"
      have me: "dmeta ?D ?P n = [unat ?b, unat ?c]" using True high by (simp add: dmeta_def disk_word_def cached_def ii)
      have b: "?b \<noteq> 0" "in_range ?b" "\<And>j. j \<in> B \<Longrightarrow> \<not> holds dv k j ?b" using bl [of "unat ?b"] by (simp_all add: me unat_gt_0)
      have c': "?c \<noteq> 0" "in_range ?c" "\<And>j. j \<in> B \<Longrightarrow> \<not> holds dv k j ?c" using bl [of "unat ?c"] by (simp_all add: me unat_gt_0)
      obtain k1 where k1: "kbind (bread dv ?b) (\<lambda>bp. indirect_word dv bp (?i div 128) False) k = Ret (Some ?c) k1" "quiet dv B k k1"
        using word_read [OF c b(2,3), of "?i div 128"] less_mult_imp_div_less [of "n - 896" 128 128] ii(1) n by auto
      have cn: "cache_at dv k1 B" "content dv k1 ?c = content dv k ?c" using k1(2) c'(2) by (simp_all add: quiet_def)
      obtain k2 where k2: "kbind (bread dv ?c) (\<lambda>bp. indirect_word dv bp (?i mod 128) False) k1
          = Ret (Some (get32 (content dv k ?c) (4 * unat (?i mod 128)))) k2" "quiet dv B k1 k2"
        using word_read [OF cn(1) c(2) c'(2), of "?i mod 128"] ii(2) c'(3) quiet_holds [OF k1(2)] cn(2) by auto
      have "n mod 128 = (n - 896) mod 128"
      proof -
        have "n = (n - 896) + 128 * 7" using high by simp
        then show ?thesis by (metis mod_mult_self2)
      qed
      then have "dblock ?D ?P n = unat (get32 (content dv k ?c) (4 * unat (?i mod 128)))"
        using True me by (simp add: dblock_def disk_word_def cached_def ii)
      moreover have "bmap_last dv ?c (?i mod 128) False k1 = Ret (get32 (content dv k ?c) (4 * unat (?i mod 128))) k2"
        unfolding bmap_last_def kbind_assoc [symmetric] using k2(1) by simp
      then have "bmap_double dv ?b ?i False k = Ret (get32 (content dv k ?c) (4 * unat (?i mod 128))) k2"
        unfolding bmap_double_def kbind_assoc [symmetric] using k1(1) c'(1) by simp
      ultimately show ?thesis using quiet_trans [OF k1(2) k2(2)] high lt b(1) dv unfolding run by (auto simp: bmap_large_def Let_def)
    qed
  qed
qed

end
