(* ===== verification/File_Io.thy ===== *)
theory File_Io
  imports File_Map
begin

text \<open>
  Reading a file back.  For a regular small file whose blocks are allocated, \<^verbatim>\<open>writei\<close> and
  \<^verbatim>\<open>readi\<close> of \<^verbatim>\<open>kernel/fs/rdwri.c\<close> implement a store and a load of a range of bytes of the
  abstract file \<open>file_byte\<close>, whatever blocks the range covers and whatever the cache and the
  disk hold of them.
\<close>

subsection \<open>Moving bytes between a buffer and the user\<close>

text \<open>A list of bytes put over a block, and over a list.\<close>

definition overlay :: "nat \<Rightarrow> byte list \<Rightarrow> block \<Rightarrow> block" where
  "overlay d xs b = (\<lambda>p. if d \<le> p \<and> p < d + length xs then xs ! (p - d) else b p)"

definition list_overlay :: "nat \<Rightarrow> 'a list \<Rightarrow> 'a list \<Rightarrow> 'a list" where
  "list_overlay i xs l = take i l @ xs @ drop (i + length xs) l"

lemma overlay_Nil [simp]: "overlay d [] b = b"
  by (auto simp: overlay_def fun_eq_iff)

lemma upd_sb_id: "upd_sb bp (\<lambda>b. b) k = k"
  by (simp add: upd_sb_def upd_buf_def)

lemma overlay_Cons: "overlay (Suc d) xs (b(d := x)) = overlay d (x # xs) b"
proof
  fix p
  show "overlay (Suc d) xs (b(d := x)) p = overlay d (x # xs) b p"
  proof (cases "p = d")
    case True
    then show ?thesis by (simp add: overlay_def)
  next
    case False
    then have "p - d = Suc (p - Suc d)" if "Suc d \<le> p" using that by simp
    with False show ?thesis by (auto simp: overlay_def)
  qed
qed

lemma list_overlay_Nil [simp]: "list_overlay i [] l = l"
  by (simp add: list_overlay_def)

lemma list_overlay_Cons:
  "i < length l \<Longrightarrow> list_overlay (Suc i) xs (l[i := x]) = list_overlay i (x # xs) l"
  by (simp add: list_overlay_def take_Suc_conv_app_nth)

lemma list_overlay_length [simp]: "i + length xs \<le> length l \<Longrightarrow> length (list_overlay i xs l) = length l"
  by (simp add: list_overlay_def)

lemma list_overlay_append:
  "i + length xs + length ys \<le> length l \<Longrightarrow>
     list_overlay (i + length xs) ys (list_overlay i xs l) = list_overlay i (xs @ ys) l"
  by (simp add: list_overlay_def ac_simps)

lemma list_overlay_all: "length xs = length l \<Longrightarrow> list_overlay 0 xs l = xs"
  by (simp add: list_overlay_def)

text \<open>The \<open>n\<close> bytes from place \<open>i\<close> of the user's range.\<close>

definition segment :: "nat \<Rightarrow> nat \<Rightarrow> 'a list \<Rightarrow> 'a list" where
  "segment i n l = take n (drop i l)"

lemma segment_0 [simp]: "segment i 0 l = []"
  by (simp add: segment_def)

lemma segment_Suc: "i < length l \<Longrightarrow> segment i (Suc n) l = l ! i # segment (Suc i) n l"
  by (simp add: segment_def Cons_nth_drop_Suc [symmetric])

lemma segment_length: "i + n \<le> length l \<Longrightarrow> length (segment i n l) = n"
  by (simp add: segment_def)

lemma segment_add: "segment i (m + n) l = segment i m l @ segment (i + m) n l"
  by (simp add: segment_def take_add add.commute)

lemma segment_all: "segment 0 (length l) l = l"
  by (simp add: segment_def)

text \<open>Nothing that only moves bytes of buffers or of the arguments moves the image.\<close>

lemma image_of_keep:
  "u_procp (k_u k') = u_procp (k_u k) \<Longrightarrow> k_sch k' = k_sch k \<Longrightarrow> image_of k' = image_of k"
  by (simp add: image_of_def procp_def)

lemma user_keep:
  assumes "u_procp (k_u k') = u_procp (k_u k)" "k_sch k' = k_sch k" "phys k' = phys k"
  shows "user_list a n k' = user_list a n k" "user_range a n k' = user_range a n k"
  using user_list_image [OF image_of_keep [OF assms(1,2)] assms(3)]
    user_range_image [OF image_of_keep [OF assms(1,2)]] by simp_all

lemma upd_sb_sel [simp]:
  "k_u (upd_sb bp f k) = k_u k" "k_sch (upd_sb bp f k) = k_sch k" "phys (upd_sb bp f k) = phys k"
  "k_fs (upd_sb bp f k) = k_fs k"
  by (simp_all add: upd_sb_def)

lemma of_int_unat8 [simp]: "of_int (int (unat (w :: 8 word))) = w"
  by simp

lemma copyin_ok:
  assumes "user_range a N k" "i + n \<le> N"
  shows "copyin n (UAddr (a + of_nat i)) bp d k
    = (True, upd_sb bp (overlay d (segment i n (user_list a N k))) k)"
  using assms
proof (induction n arbitrary: i d k)
  case 0
  have "overlay d [] = (\<lambda>b. b)" by (simp add: fun_eq_iff)
  then show ?case by (simp add: upd_sb_id)
next
  case (Suc n)
  let ?v = "user_list a N k ! i" and ?k = "upd_sb bp (\<lambda>b. b(d := user_list a N k ! i)) k"
  have f: "fubyte (UAddr (a + of_nat i)) k = int (unat ?v)"
    using fubyte_user [OF Suc.prems(1), of i] Suc.prems(2) by simp
  have u: "user_list a N ?k = user_list a N k" "user_range a N ?k" using Suc.prems(1) user_keep [of ?k k] by simp_all
  have "copyin n (UAddr (a + of_nat (Suc i))) bp (Suc d) ?k
    = (True, upd_sb bp (overlay (Suc d) (segment (Suc i) n (user_list a N k))) ?k)"
    using Suc.IH [OF u(2), of "Suc i" "Suc d"] Suc.prems(2) u(1) by simp
  moreover have "upd_sb bp (overlay (Suc d) (segment (Suc i) n (user_list a N k))) ?k
    = upd_sb bp (overlay d (segment i (Suc n) (user_list a N k))) k"
    using Suc.prems(2) by (simp add: upd_sb_upd_sb overlay_Cons segment_Suc)
  ultimately show ?case using f by (simp add: add.assoc add.commute [of 1])
qed

lemma copyout_ok:
  assumes "user_range a N k" "i + n \<le> N"
  shows "\<exists>m. copyout n bp s (UAddr (a + of_nat i)) k = (True, k\<lparr>phys := m\<rparr>)
    \<and> user_list a N (k\<lparr>phys := m\<rparr>) = list_overlay i (map (\<lambda>j. b_addr (bufp k bp) (s + j)) [0..<n]) (user_list a N k)"
  using assms
proof (induction n arbitrary: i s k)
  case 0
  then show ?case by (intro exI [of _ "phys k"]) simp
next
  case (Suc n)
  from subyte_user [OF Suc.prems(1), of i "b_addr (bufp k bp) s"] Suc.prems(2) obtain m where
    m: "subyte (UAddr (a + of_nat i)) (b_addr (bufp k bp) s) k = (True, k\<lparr>phys := m\<rparr>)"
    "user_list a N (k\<lparr>phys := m\<rparr>) = (user_list a N k)[i := b_addr (bufp k bp) s]" by auto
  have r: "user_range a N (k\<lparr>phys := m\<rparr>)" using Suc.prems(1) user_range_image [OF image_of_phys] by blast
  from Suc.IH [OF r, of "Suc i" "Suc s"] Suc.prems(2) obtain m' where
    m': "copyout n bp (Suc s) (UAddr (a + of_nat (Suc i))) (k\<lparr>phys := m\<rparr>) = (True, k\<lparr>phys := m'\<rparr>)"
    "user_list a N (k\<lparr>phys := m'\<rparr>)
      = list_overlay (Suc i) (map (\<lambda>j. b_addr (bufp k bp) (Suc s + j)) [0..<n]) (user_list a N (k\<lparr>phys := m\<rparr>))"
    by auto
  have "map (\<lambda>j. b_addr (bufp k bp) (s + j)) [0..<Suc n]
    = b_addr (bufp k bp) s # map (\<lambda>j. b_addr (bufp k bp) (Suc s + j)) [0..<n]"
    by (simp only: upt_conv_Cons list.map map_Suc_upt [symmetric] map_map zero_less_Suc) simp
  then have "list_overlay (Suc i) (map (\<lambda>j. b_addr (bufp k bp) (Suc s + j)) [0..<n]) ((user_list a N k)[i := b_addr (bufp k bp) s])
    = list_overlay i (map (\<lambda>j. b_addr (bufp k bp) (s + j)) [0..<Suc n]) (user_list a N k)"
    using Suc.prems(2) by (simp only: list_overlay_Cons user_list_length)
  then show ?case using m m' by (intro exI [of _ m']) (simp add: add.assoc add.commute [of 1])
qed

subsection \<open>The arguments of a transfer\<close>

text \<open>A transfer between the \<open>N\<close> user bytes at \<open>a\<close> and the file from \<open>off\<close> on, of which \<open>i\<close>
  bytes are done.\<close>

definition io_at :: "uint32_t \<Rightarrow> nat \<Rightarrow> nat \<Rightarrow> nat \<Rightarrow> kernel \<Rightarrow> bool" where
  "io_at a N off i k \<longleftrightarrow> u_segflg (k_u k) = 0 \<and> u_error (k_u k) = 0 \<and> i \<le> N
     \<and> u_base (k_u k) = UAddr (a + of_nat i) \<and> u_offset1 (k_u k) = of_nat (off + i)
     \<and> u_count (k_u k) = of_nat (N - i) \<and> user_range a N k
     \<and> u_procp (k_u k) < length (procs (k_sch k))"

lemma of_nat_mod32: "(of_nat (n mod 4294967296) :: 32 word) = of_nat n"
  by (rule word_unat_eq_iff [THEN iffD2]) (simp add: unat_of_nat)

lemma caddr_add_mod: "caddr_add (UAddr b) (nat (int n mod 2 ^ 32)) = UAddr (b + of_nat n)"
  by (simp add: nat_mod_distrib of_nat_mod32)

lemma advance_Suc:
  assumes "u_base (k_u k) = UAddr b"
  shows "advance (int n) (advance 1 k) = advance (int (Suc n)) k"
proof -
  have "caddr_add (caddr_add (UAddr b) (nat (1 mod 2 ^ 32))) (nat (int n mod 2 ^ 32))
    = caddr_add (UAddr b) (nat (int (Suc n) mod 2 ^ 32))"
    unfolding caddr_add_mod using caddr_add_mod [of b 1] caddr_add_mod [of "b + 1" n] by simp
  then show ?thesis by (simp add: advance_def upd_u_def assms algebra_simps)
qed

lemma advance_0: "u_base (k_u k) = UAddr b \<Longrightarrow> advance 0 k = k"
  by (simp add: advance_def upd_u_def)

lemma advance_upd_sb: "advance n (upd_sb bp f k) = upd_sb bp f (advance n k)"
  by (simp add: advance_def upd_sb_def upd_u_def upd_buf_def)

lemma advance_phys: "advance n (k\<lparr>phys := m\<rparr>) = (advance n k)\<lparr>phys := m\<rparr>"
  by (simp add: advance_def upd_u_def)

lemma advance_sel [simp]:
  "k_sch (advance n k) = k_sch k" "k_bio (advance n k) = k_bio k" "k_fs (advance n k) = k_fs k"
  "phys (advance n k) = phys k" "k_clk (advance n k) = k_clk k"
  "u_procp (k_u (advance n k)) = u_procp (k_u k)" "u_segflg (k_u (advance n k)) = u_segflg (k_u k)"
  "u_error (k_u (advance n k)) = u_error (k_u k)"
  by (simp_all add: advance_def)

lemma bufp_advance [simp]: "bufp (advance n k) = bufp k"
  by (rule bufp_cong) simp

lemma io_range: "io_at a N off i k \<Longrightarrow> user_range a N k" "io_at a N off i k \<Longrightarrow> N < 2 ^ 32"
proof -
  assume "io_at a N off i k"
  then show r: "user_range a N k" by (simp add: io_at_def)
  then show "N < 2 ^ 32"
    using placed_room [of "cur k" "unat a + N"] unfolding user_range_def by linarith
qed

lemma io_count: "io_at a N off i k \<Longrightarrow> unat (u_count (k_u k)) = N - i"
proof -
  assume io: "io_at a N off i k"
  then have c: "u_count (k_u k) = of_nat (N - i)" unfolding io_at_def by blast
  show ?thesis unfolding c unat_of_nat by (rule mod_less) (use io_range(2) [OF io] in simp)
qed

lemma io_advance:
  assumes "io_at a N off i k" "i + n \<le> N"
  shows "io_at a N off (i + n) (advance (int n) k)"
proof -
  have b: "u_base (k_u k) = UAddr (a + of_nat i)" using assms(1) by (simp add: io_at_def)
  have "u_base (k_u (advance (int n) k)) = UAddr (a + of_nat (i + n))"
    using caddr_add_mod [of "a + of_nat i" n] by (simp add: advance_def b add.assoc)
  moreover have "user_range a N (advance (int n) k)"
    using assms(1) user_keep(2) [of "advance (int n) k" k] by (simp add: io_at_def)
  ultimately show ?thesis using assms
    by (simp add: io_at_def) (simp add: advance_def of_nat_diff)
qed

lemma io_keep:
  assumes "io_at a N off i k" "k_u k' = k_u k" "k_sch k' = k_sch k"
  shows "io_at a N off i k'"
  using assms user_range_image [OF image_of_keep, of k' k a N] by (simp add: io_at_def)

lemma cpass_ok:
  assumes "io_at a N off i k" "i < N"
  shows "cpass k = (int (unat (user_list a N k ! i)), advance 1 k)"
proof -
  have "u_count (k_u k) \<noteq> 0" using io_count [OF assms(1)] assms(2) by auto
  then show ?thesis using assms fubyte_user [OF io_range(1) [OF assms(1)] assms(2)]
    by (simp add: cpass_def io_at_def)
qed

lemma passc_ok:
  assumes "io_at a N off i k" "i < N"
  shows "\<exists>m. passc v k = (True, advance 1 (k\<lparr>phys := m\<rparr>)) \<and> user_list a N (k\<lparr>phys := m\<rparr>) = (user_list a N k)[i := v]"
proof -
  have "u_count (k_u k) \<noteq> 0" using io_count [OF assms(1)] assms(2) by auto
  moreover obtain m where "subyte (UAddr (a + of_nat i)) v k = (True, k\<lparr>phys := m\<rparr>)"
    "user_list a N (k\<lparr>phys := m\<rparr>) = (user_list a N k)[i := v]"
    using subyte_user [OF io_range(1) [OF assms(1)] assms(2)] by blast
  ultimately show ?thesis using assms(1) by (intro exI [of _ m]) (simp add: passc_def io_at_def)
qed

lemma pass_in_ok:
  assumes "io_at a N off i k" "i + n \<le> N"
  shows "pass_in n bp d k = advance (int n) (upd_sb bp (overlay d (segment i n (user_list a N k))) k)"
  using assms
proof (induction n arbitrary: i d k)
  case 0
  have "overlay d [] = (\<lambda>b. b)" by (simp add: fun_eq_iff)
  then show ?case using 0 advance_0 [of k] by (simp add: upd_sb_id io_at_def)
next
  case (Suc n)
  let ?v = "user_list a N k ! i"
  let ?k = "upd_sb bp (\<lambda>b. b(d := ?v)) (advance 1 k)"
  have io: "io_at a N off (Suc i) (advance 1 k)" using io_advance [OF Suc.prems(1), of 1] Suc.prems(2) by simp
  then have io': "io_at a N off (Suc i) ?k" by (rule io_keep) simp_all
  have u: "user_list a N ?k = user_list a N k" by (rule user_keep) simp_all
  have b: "u_base (k_u (upd_sb bp f k)) = UAddr (a + of_nat i)" for f using Suc.prems(1) by (simp add: io_at_def)
  have "pass_in (Suc n) bp d k = pass_in n bp (Suc d) ?k"
    using cpass_ok [OF Suc.prems(1)] Suc.prems(2) by simp
  also have "\<dots> = advance (int n) (upd_sb bp (overlay (Suc d) (segment (Suc i) n (user_list a N k))) ?k)"
    using Suc.IH [OF io', of "Suc d"] Suc.prems(2) u by simp
  also have "\<dots> = advance (int n) (advance 1 (upd_sb bp (overlay d (segment i (Suc n) (user_list a N k))) k))"
    using Suc.prems(2) by (simp add: upd_sb_upd_sb overlay_Cons segment_Suc advance_upd_sb)
  finally show ?case using advance_Suc [OF b] by simp
qed

lemma pass_out_ok:
  assumes "io_at a N off i k" "i + n \<le> N"
  shows "\<exists>m. pass_out n bp s k = advance (int n) (k\<lparr>phys := m\<rparr>)
    \<and> user_list a N (k\<lparr>phys := m\<rparr>) = list_overlay i (map (\<lambda>j. b_addr (bufp k bp) (s + j)) [0..<n]) (user_list a N k)"
  using assms
proof (induction n arbitrary: i s k)
  case 0
  then show ?case using advance_0 [of k] by (intro exI [of _ "phys k"]) (simp add: io_at_def)
next
  case (Suc n)
  from passc_ok [OF Suc.prems(1), of "b_addr (bufp k bp) s"] Suc.prems(2) obtain m where
    m: "passc (b_addr (bufp k bp) s) k = (True, advance 1 (k\<lparr>phys := m\<rparr>))"
    "user_list a N (k\<lparr>phys := m\<rparr>) = (user_list a N k)[i := b_addr (bufp k bp) s]" by auto
  let ?k = "advance 1 (k\<lparr>phys := m\<rparr>)"
  have "io_at a N off i (k\<lparr>phys := m\<rparr>)" using Suc.prems(1) by (rule io_keep) simp_all
  then have io: "io_at a N off (Suc i) ?k" using io_advance [of a N off i _ 1] Suc.prems(2) by simp
  have u: "user_list a N ?k = user_list a N (k\<lparr>phys := m\<rparr>)" by (rule user_keep) simp_all
  from Suc.IH [OF io, of "Suc s"] Suc.prems(2) obtain m' where
    m': "pass_out n bp (Suc s) ?k = advance (int n) (?k\<lparr>phys := m'\<rparr>)"
    "user_list a N (?k\<lparr>phys := m'\<rparr>)
      = list_overlay (Suc i) (map (\<lambda>j. b_addr (bufp k bp) (Suc s + j)) [0..<n]) (user_list a N ?k)"
    by auto
  have u': "user_list a N (?k\<lparr>phys := m'\<rparr>) = user_list a N (k\<lparr>phys := m'\<rparr>)" by (rule user_keep) simp_all
  have "map (\<lambda>j. b_addr (bufp k bp) (s + j)) [0..<Suc n]
    = b_addr (bufp k bp) s # map (\<lambda>j. b_addr (bufp k bp) (Suc s + j)) [0..<n]"
    by (simp only: upt_conv_Cons list.map map_Suc_upt [symmetric] map_map zero_less_Suc) simp
  then have l: "list_overlay (Suc i) (map (\<lambda>j. b_addr (bufp k bp) (Suc s + j)) [0..<n]) ((user_list a N k)[i := b_addr (bufp k bp) s])
    = list_overlay i (map (\<lambda>j. b_addr (bufp k bp) (s + j)) [0..<Suc n]) (user_list a N k)"
    using Suc.prems(2) by (simp only: list_overlay_Cons user_list_length)
  have b: "u_base (k_u (k\<lparr>phys := m'\<rparr>)) = UAddr (a + of_nat i)" using Suc.prems(1) by (simp add: io_at_def)
  have "?k\<lparr>phys := m'\<rparr> = advance 1 (k\<lparr>phys := m'\<rparr>)" by (simp add: advance_phys)
  then have "pass_out (Suc n) bp s k = advance (int (Suc n)) (k\<lparr>phys := m'\<rparr>)"
    using m(1) m'(1) advance_Suc [OF b, of n] by simp
  then show ?case using m'(2) l u u' m(2) by (intro exI [of _ m']) simp
qed

text \<open>\<^verbatim>\<open>iomove\<close>, on either of its paths.\<close>

lemma iomove_in:
  assumes "io_at a N off i k" "i + n \<le> N"
  shows "iomove bp d (int n) True k = advance (int n) (upd_sb bp (overlay d (segment i n (user_list a N k))) k)"
proof -
  have n: "nat (int n mod 2 ^ 32) = n" using io_range(2) [OF assms(1)] assms(2) by simp
  have "u_base (k_u k) = UAddr (a + of_nat i)" using assms(1) by (simp add: io_at_def)
  then show ?thesis
    using copyin_ok [OF io_range(1) [OF assms(1)] assms(2), of bp d] pass_in_ok [OF assms, of bp d] n
    by (simp add: iomove_def Let_def)
qed

lemma iomove_out:
  assumes "io_at a N off i k" "i + n \<le> N"
  shows "\<exists>m. iomove bp s (int n) False k = advance (int n) (k\<lparr>phys := m\<rparr>)
    \<and> user_list a N (k\<lparr>phys := m\<rparr>) = list_overlay i (map (\<lambda>j. b_addr (bufp k bp) (s + j)) [0..<n]) (user_list a N k)"
proof -
  have n: "nat (int n mod 2 ^ 32) = n" using io_range(2) [OF assms(1)] assms(2) by simp
  have b: "u_base (k_u k) = UAddr (a + of_nat i)" using assms(1) by (simp add: io_at_def)
  obtain m where m: "copyout n bp s (UAddr (a + of_nat i)) k = (True, k\<lparr>phys := m\<rparr>)"
    "user_list a N (k\<lparr>phys := m\<rparr>) = list_overlay i (map (\<lambda>j. b_addr (bufp k bp) (s + j)) [0..<n]) (user_list a N k)"
    using copyout_ok [OF io_range(1) [OF assms(1)] assms(2), of bp s] by blast
  obtain m' where m': "pass_out n bp s k = advance (int n) (k\<lparr>phys := m'\<rparr>)"
    "user_list a N (k\<lparr>phys := m'\<rparr>) = list_overlay i (map (\<lambda>j. b_addr (bufp k bp) (s + j)) [0..<n]) (user_list a N k)"
    using pass_out_ok [OF assms, of bp s] by blast
  show ?thesis
  proof (cases "u_segflg (k_u k) = 0 \<and> even (int n) \<and> even s \<and> even_addr (u_base (k_u k))")
    case True
    then show ?thesis using m b by (intro exI [of _ m]) (simp add: iomove_def Let_def)
  next
    case False
    then show ?thesis using m' n b by (intro exI [of _ m']) (auto simp: iomove_def Let_def)
  qed
qed

lemma io_frame:
  assumes "io_at a N off i k" "bio_frame k k'"
  shows "io_at a N off i k'" "user_list a N k' = user_list a N k" "image_of k' = image_of k"
proof -
  have p: "u_procp (k_u k) < length (procs (k_sch k))" using assms(1) by (simp add: io_at_def)
  note f = image_of_frame [OF assms(2) p] user_frame [OF assms(2) p]
  show "io_at a N off i k'" using assms(1) f by (simp add: io_at_def)
  show "user_list a N k' = user_list a N k" "image_of k' = image_of k" by (rule f)+
qed

subsection \<open>The abstract file\<close>

text \<open>Byte \<open>p\<close> of the small file of inode \<open>x\<close>.\<close>

definition file_byte :: "dev_t \<Rightarrow> nat \<Rightarrow> kernel \<Rightarrow> nat \<Rightarrow> byte" where
  "file_byte dv x k p = content dv k (i_addr (inodep k x) ! (p div BSIZE)) (p mod BSIZE)"

text \<open>A regular file without indirect blocks whose first \<open>M\<close> bytes have blocks of their own, none
  of them in use, and no block to read ahead.\<close>

definition small_file :: "dev_t \<Rightarrow> kernel \<Rightarrow> nat set \<Rightarrow> nat \<Rightarrow> nat \<Rightarrow> bool" where
  "small_file dv k B x M \<longleftrightarrow> cache_at dv k B \<and> B \<noteq> {..<NBUF} \<and> x < length (inodes (k_fs k)) \<and> M \<le> 8 * BSIZE
     \<and> i_dev (inodep k x) = dv \<and> i_mode (inodep k x) AND IFMT = 0 \<and> \<not> hasf (i_mode (inodep k x)) ILARG
     \<and> rablock (k_fs k) = 0
     \<and> (\<forall>p<M. in_range (i_addr (inodep k x) ! (p div BSIZE)) \<and> i_addr (inodep k x) ! (p div BSIZE) \<noteq> 0
          \<and> (\<forall>j\<in>B. \<not> holds dv k j (i_addr (inodep k x) ! (p div BSIZE))))
     \<and> (\<forall>p<M. \<forall>q<M. i_addr (inodep k x) ! (p div BSIZE) = i_addr (inodep k x) ! (q div BSIZE)
          \<longrightarrow> p div BSIZE = q div BSIZE)"

text \<open>The part of the transfer that lies in the current block.\<close>

definition piece :: "nat \<Rightarrow> nat \<Rightarrow> nat" where
  "piece p r = min (BSIZE - p mod BSIZE) r"

lemma piece_bounds: "0 < r \<Longrightarrow> 0 < piece p r \<and> piece p r \<le> r \<and> p mod BSIZE + piece p r \<le> BSIZE"
  by (simp add: piece_def)

lemma piece_block: "p mod BSIZE + n \<le> BSIZE \<Longrightarrow> p \<le> q \<Longrightarrow> q < p + n \<Longrightarrow> q div BSIZE = p div BSIZE \<and> q mod BSIZE = p mod BSIZE + (q - p)"
proof -
  assume a: "p mod BSIZE + n \<le> BSIZE" "p \<le> q" "q < p + n"
  have "q = BSIZE * (p div BSIZE) + (p mod BSIZE + (q - p))" using a(2) mult_div_mod_eq [of BSIZE p] by linarith
  moreover have "p mod BSIZE + (q - p) < BSIZE" using a by linarith
  ultimately show ?thesis by (metis div_mult_self4 mod_mult_self4 div_less mod_less add.commute add_0_right zero_neq_numeral mult.commute)
qed

lemma io_position:
  assumes "io_at a N off i k" "off + N < 2 ^ 31" "i < N"
  shows "u_offset1 (k_u k) = of_nat (off + i)" "off + i < 2 ^ 31"
    "chunk (k_u k) = int (piece (off + i) (N - i))" "u_segflg (k_u k) = 0" "u_error (k_u k) = 0" "u_count (k_u k) \<noteq> 0"
proof -
  show o: "u_offset1 (k_u k) = of_nat (off + i)" "u_segflg (k_u k) = 0" "u_error (k_u k) = 0"
    using assms(1) unfolding io_at_def by blast+
  show p: "off + i < 2 ^ 31" using assms by simp
  have c: "unat (u_count (k_u k)) = N - i" by (rule io_count [OF assms(1)])
  then show "u_count (k_u k) \<noteq> 0" using assms(3) by auto
  have "sint (u_count (k_u k)) = int (N - i)" using c assms(2) sint_small32 [of "u_count (k_u k)"] by simp
  moreover have "boff (u_offset1 (k_u k)) = (off + i) mod BSIZE" unfolding o by (rule pos_block(3) [OF p])
  moreover have "(off + i) mod BSIZE < BSIZE" by simp
  ultimately show "chunk (k_u k) = int (piece (off + i) (N - i))"
    unfolding chunk_def piece_def by (simp add: of_nat_diff)
qed

lemma bmap_small:
  assumes f: "small_file dv k B x M" and p: "p < M"
  shows "bmap x (lblock (of_nat p)) rw k = Ret (i_addr (inodep k x) ! (p div BSIZE)) k"
proof -
  have "p < 8 * BSIZE" using f p by (simp add: small_file_def)
  then have "p < 2 ^ 31" "p div BSIZE < 8" by simp_all
  note b = pos_block [OF this(1)]
  have "i_addr (inodep k x) ! (p div BSIZE) \<noteq> 0" using f p by (simp add: small_file_def)
  with \<open>p div BSIZE < 8\<close> show ?thesis using f b by (simp add: bmap_def bmap_direct_def Let_def small_file_def)
qed

lemma in_range_not_bad: "in_range bn \<Longrightarrow> bn \<noteq> - 1"
  by (auto simp: in_range_def)

text \<open>A small file stays one under changes of the inode's flags, size and times.\<close>

lemma small_file_keep:
  assumes f: "small_file dv k B x M"
    and c: "cache_at dv k' B" "\<forall>j\<in>B. same_buf k k' j" "length (inodes (k_fs k')) = length (inodes (k_fs k))"
      "rablock (k_fs k') = rablock (k_fs k)"
    and i: "i_dev (inodep k' x) = i_dev (inodep k x)" "i_mode (inodep k' x) = i_mode (inodep k x)"
      "i_addr (inodep k' x) = i_addr (inodep k x)"
  shows "small_file dv k' B x M"
proof -
  have "holds dv k' j bn = holds dv k j bn" if "j \<in> B" for j bn using c(2) that by (simp add: same_buf_def Let_def holds_def)
  then show ?thesis using f c i by (simp add: small_file_def)
qed

subsection \<open>Writing one block\<close>

lemma clip_overlay:
  assumes "length xs = n" "d + n \<le> BSIZE" "whole \<longrightarrow> n = BSIZE" "\<not> whole \<longrightarrow> clip b = c" "r < BSIZE"
  shows "clip (overlay d xs b) r = (if d \<le> r \<and> r < d + n then xs ! (r - d) else c r)"
proof (cases "d \<le> r \<and> r < d + n")
  case True
  then show ?thesis using assms by (simp add: clip_def overlay_def)
next
  case False
  then have "\<not> whole" using assms(2,3,5) by auto
  then have "c r = b r" using assms(4,5) by (auto simp: clip_def)
  with False show ?thesis using assms(1,5) by (auto simp: clip_def overlay_def)
qed

text \<open>The block after the store of \<open>n\<close> bytes at \<open>d\<close>.\<close>

definition patched :: "nat \<Rightarrow> nat \<Rightarrow> byte list \<Rightarrow> block \<Rightarrow> nat \<Rightarrow> byte" where
  "patched d n xs c r = (if d \<le> r \<and> r < d + n then xs ! (r - d) else c r)"

lemma store_block_ok:
  assumes c: "cache_at dv k B" "B \<noteq> {..<NBUF}" "\<And>j. j \<in> B \<Longrightarrow> \<not> holds dv k j bn" and r: "in_range bn"
    and io: "io_at a N off i k" "i + n \<le> N" and d: "d + n \<le> BSIZE" "whole \<longrightarrow> n = BSIZE"
  shows "\<exists>j k1 k2 k3. (if whole then getblk dv bn else bread dv bn) k = Ret (Buf j) k1
    \<and> \<not> flagged k1 (Buf j) B_ERROR \<and> iomove (Buf j) d (int n) True k1 = k2 \<and> u_error (k_u k2) = 0
    \<and> (if u_offset1 (k_u k2) AND 511 = 0 then bawrite (Buf j) else act (bdwrite (Buf j))) k2 = Ret () k3
    \<and> io_at a N off (i + n) k3 \<and> user_list a N k3 = user_list a N k \<and> k_fs k3 = k_fs k
    \<and> image_of k3 = image_of k
    \<and> cache_at dv k3 B \<and> (\<forall>j\<in>B. same_buf k k3 j)
    \<and> (\<forall>q<BSIZE. content dv k3 bn q = patched d n (segment i n (user_list a N k)) (content dv k bn) q)
    \<and> (\<forall>b. in_range b \<and> b \<noteq> bn \<longrightarrow> content dv k3 b = content dv k b)"
proof -
  obtain j k1 where g: "(if whole then getblk dv bn else bread dv bn) k = Ret (Buf j) k1"
    and ob: "obtained dv k B bn j k1" and cl: "\<not> whole \<longrightarrow> clip (b_addr (bufp k1 (Buf j))) = content dv k bn"
    using fetch_ok [OF c r] by blast
  have o: "j \<notin> B" "cache_at dv k1 (insert j B)" "holds dv k1 j bn" "bio_frame k k1"
    "\<And>j. j \<in> B \<Longrightarrow> same_buf k k1 j" "\<And>b. in_range b \<Longrightarrow> content dv k1 b = content dv k b"
    using ob by (auto simp: obtained_def)
  note io1 = io_frame [OF io(1) o(4)]
  let ?xs = "segment i n (user_list a N k)"
  let ?k1s = "upd_sb (Buf j) (overlay d ?xs) k1"
  let ?k2 = "advance (int n) ?k1s"
  have mv: "iomove (Buf j) d (int n) True k1 = ?k2" using iomove_in [OF io1(1) io(2)] io1(2) by simp
  note st = store_raw [OF o(2) insertI1 o(3), where f = "overlay d ?xs"]
  have io1s: "io_at a N off i ?k1s" using io1(1) by (rule io_keep) simp_all
  then have io2: "io_at a N off (i + n) ?k2" using io(2) by (rule io_advance)
  then have e2: "u_error (k_u ?k2) = 0" by (simp add: io_at_def)
  have b2: "k_bio ?k2 = k_bio ?k1s" by simp
  note cb = cache_bio [OF b2]
  have h2: "cache_at dv ?k2 (insert j B)" "holds dv ?k2 j bn" unfolding cb by (rule st(1), rule st(4))
  obtain k3 where pb: "(if u_offset1 (k_u ?k2) AND 511 = 0 then bawrite (Buf j) else act (bdwrite (Buf j))) ?k2 = Ret () k3"
    "cache_at dv k3 (insert j B - {j})" "bio_frame ?k2 k3" "\<forall>i\<in>insert j B - {j}. same_buf ?k2 k3 i"
    "\<forall>b. in_range b \<longrightarrow> content dv k3 b = (if b = bn then clip (b_addr (bufp ?k2 (Buf j))) else content dv ?k2 b)"
    using put_back_ok [OF h2(1) insertI1 h2(2) r, of "u_offset1 (k_u ?k2) AND 511 = 0"] by blast
  have B: "insert j B - {j} = B" using o(1) by auto
  note io3 = io_frame [OF io2 pb(3)]
  have ul: "user_list a N ?k2 = user_list a N k1" by (rule user_keep) simp_all
  have "k_fs k3 = k_fs k" using bio_frame_fs [OF pb(3)] bio_frame_fs [OF o(4)] by simp
  moreover have "same_buf k k3 m" if "m \<in> B" for m
  proof -
    have "m \<noteq> j" using that o(1) by auto
    then have "same_buf k1 ?k2 m" using st(6) by (simp add: same_buf_def)
    then show ?thesis using o(5) [OF that] pb(4) that o(1) unfolding B by (blast intro: same_buf_trans)
  qed
  moreover have "content dv k3 b = content dv k b" if "in_range b" "b \<noteq> bn" for b
    using pb(5) that st(2) [OF that(2)] o(6) [OF that(1)] by (simp add: cb)
  moreover have "content dv k3 bn q = patched d n ?xs (content dv k bn) q" if "q < BSIZE" for q
  proof -
    have "content dv k3 bn = clip (overlay d ?xs (sb k1 (Buf j)))" using pb(5) r st(3) by (simp add: cb(5) del: bufp_advance)
    then show ?thesis using clip_overlay [of ?xs n d whole "sb k1 (Buf j)" "content dv k bn" q] d cl that io(2)
      by (simp add: patched_def segment_length)
  qed
  moreover have "image_of k3 = image_of k"
    using io3(3) io1(3) image_of_keep [of ?k2 k1] by simp
  ultimately show ?thesis
    using g obtained_flags(4) [OF ob r] mv e2 pb(1,2) io3 ul io1(2) B
    by (intro exI [of _ j] exI [of _ k1] exI [of _ ?k2] exI [of _ k3]) simp
qed

lemma grow_isize:
  assumes "i_mode p AND IFMT = 0" "s \<le> 8 * BSIZE"
  shows "unat (isize (grow_size (of_nat s) p)) = max (unat (isize p)) s"
proof -
  have u: "unat (of_nat s :: uint32_t) = s" using assms(2) by (simp add: unat_of_nat)
  have "unat (drop_bit 16 (of_nat s :: uint32_t)) = 0"
    unfolding unsigned_drop_bit_eq u using assms(2) by (simp add: drop_bit_eq_div take_bit_eq_mod)
  then have z: "drop_bit 16 (of_nat s :: uint32_t) = 0" by (simp only: unat_eq_zero)
  have "(0xFFFF :: uint32_t) = mask 16" by (simp add: mask_eq_exp_minus_1)
  then have "of_nat s AND (0xFFFF :: uint32_t) = take_bit 16 (of_nat s)" by (simp only: take_bit_eq_mask)
  moreover have "unat (take_bit 16 (of_nat s :: uint32_t)) = s"
    unfolding unsigned_take_bit_eq u using assms(2) by (simp add: take_bit_eq_mod)
  ultimately have m: "unat (of_nat s AND (0xFFFF :: uint32_t)) = s" by (simp only: )
  have t: "i_mode p AND (IFBLK OR IFCHR) = 0" using assms(1) by simp
  show ?thesis
  proof (cases "of_nat s > isize p")
    case True
    then have "isize (grow_size (of_nat s) p) = of_nat s AND 0xFFFF"
      using t z by (simp add: grow_size_def isize_def)
    then show ?thesis using m True u by (simp add: word_less_nat_alt)
  next
    case False
    then have "grow_size (of_nat s) p = p" by (simp add: grow_size_def)
    then show ?thesis using False u by (simp add: word_less_nat_alt)
  qed
qed

lemma grow_size_sel [simp]:
  "i_dev (grow_size m p) = i_dev p" "i_mode (grow_size m p) = i_mode p" "i_addr (grow_size m p) = i_addr p"
  by (simp_all add: grow_size_def)

lemma isize_flag [simp]: "isize (p\<lparr>i_flag := f\<rparr>) = isize p"
  by (simp add: isize_def)

lemma upd_inode_io [simp]: "io_at a N off i (upd_inode x f k) = io_at a N off i k"
  "user_list a N (upd_inode x f k) = user_list a N k" "image_of (upd_inode x f k) = image_of k"
proof -
  show "image_of (upd_inode x f k) = image_of k" by (rule image_of_keep) simp_all
  then show "user_list a N (upd_inode x f k) = user_list a N k" "io_at a N off i (upd_inode x f k) = io_at a N off i k"
    using user_range_image [of "upd_inode x f k" k a N] user_list_image [of "upd_inode x f k" k a N] by (simp_all add: io_at_def)
qed

text \<open>What a transfer into the file has done when the bytes from \<open>i\<close> up to \<open>j\<close> are stored.\<close>

definition stored :: "dev_t \<Rightarrow> nat set \<Rightarrow> nat \<Rightarrow> nat \<Rightarrow> uint32_t \<Rightarrow> nat \<Rightarrow> nat \<Rightarrow> nat \<Rightarrow> nat \<Rightarrow> kernel \<Rightarrow> kernel \<Rightarrow> bool" where
  "stored dv B x M a N off i j k k' \<longleftrightarrow> io_at a N off j k' \<and> small_file dv k' B x M
     \<and> user_list a N k' = user_list a N k \<and> image_of k' = image_of k \<and> i_addr (inodep k' x) = i_addr (inodep k x)
     \<and> unat (isize (inodep k' x)) = max (unat (isize (inodep k x))) (off + j)
     \<and> (\<forall>q<M. file_byte dv x k' q
          = (if off + i \<le> q \<and> q < off + j then user_list a N k ! (q - off) else file_byte dv x k q))"

lemma stored_trans:
  assumes "stored dv B x M a N off i j k k'" "stored dv B x M a N off j l k' k''" "i \<le> j" "j \<le> l"
  shows "stored dv B x M a N off i l k k''"
  using assms by (auto simp: stored_def)

lemma write_step:
  assumes io: "io_at a N off i k" "i < N" and f: "small_file dv k B x M" "off + N \<le> M"
  defines "p \<equiv> off + i" and "n \<equiv> piece (off + i) (N - i)"
  shows "\<exists>k'. write_block again x dv (i_addr (inodep k x) ! (p div BSIZE)) (int n) k
      = (if i + n < N then again k' else Ret () k') \<and> stored dv B x M a N off i (i + n) k k'"
proof -
  let ?bn = "i_addr (inodep k x) ! (p div BSIZE)"
  have M: "M \<le> 8 * BSIZE" and c: "cache_at dv k B" "B \<noteq> {..<NBUF}" "x < length (inodes (k_fs k))"
    and ino: "i_mode (inodep k x) AND IFMT = 0"
    using f(1) by (simp_all add: small_file_def)
  have pM: "p < M" using io(2) f(2) by (simp add: p_def)
  have bn: "in_range ?bn" "\<And>j. j \<in> B \<Longrightarrow> \<not> holds dv k j ?bn" using f(1) pM by (auto simp: small_file_def)
  have N8: "off + N \<le> 8 * BSIZE" and N31: "off + N < 2 ^ 31" using f(2) M by simp_all
  note ps = io_position [OF io(1) N31 io(2), folded p_def]
  have n: "0 < n" "i + n \<le> N" "p mod BSIZE + n \<le> BSIZE"
    using piece_bounds [of "N - i" p, folded n_def] piece_bounds [of "N - i" "off + i", folded n_def] io(2)
    unfolding p_def by linarith+
  have on: "boff (u_offset1 (k_u k)) = p mod BSIZE" unfolding ps(1) by (rule pos_block(3) [OF ps(2)])
  obtain j k1 k2 k3 where w: "(if n = BSIZE then getblk dv ?bn else bread dv ?bn) k = Ret (Buf j) k1"
    "\<not> flagged k1 (Buf j) B_ERROR" "iomove (Buf j) (p mod BSIZE) (int n) True k1 = k2" "u_error (k_u k2) = 0"
    "(if u_offset1 (k_u k2) AND 511 = 0 then bawrite (Buf j) else act (bdwrite (Buf j))) k2 = Ret () k3"
    and io3: "io_at a N off (i + n) k3" and u3: "user_list a N k3 = user_list a N k" and fs3: "k_fs k3 = k_fs k" and im3: "image_of k3 = image_of k"
    and c3: "cache_at dv k3 B" "\<forall>j\<in>B. same_buf k k3 j"
    and new: "\<forall>q<BSIZE. content dv k3 ?bn q = patched (p mod BSIZE) n (segment i n (user_list a N k)) (content dv k ?bn) q"
    and old: "\<forall>b. in_range b \<and> b \<noteq> ?bn \<longrightarrow> content dv k3 b = content dv k b"
    using store_block_ok [OF c(1,2) bn(2,1) io(1) n(2,3), of "n = BSIZE"] by blast
  let ?g = "\<lambda>q. let q' = grow_size (u_offset1 (k_u k3)) q in q'\<lparr>i_flag := i_flag q' OR IUPD\<rparr>"
  let ?k4 = "upd_inode x ?g k3"
  have o3: "u_offset1 (k_u k3) = of_nat (p + n)" using io3 by (simp add: io_at_def p_def add.assoc)
  have e3: "u_error (k_u k3) = 0" using io3 by (simp add: io_at_def)
  have cnt: "u_count (k_u k3) \<noteq> 0 \<longleftrightarrow> i + n < N"
    using io_count [OF io3] n(2) by (metis diff_is_0_eq not_le unat_eq_zero)
  have whole: "(if int n = int BSIZE then getblk dv ?bn else bread dv ?bn) k = Ret (Buf j) k1" using w(1) by simp
  have bk: "kseq (if u_error (k_u k2) \<noteq> 0 then act (brelse (Buf j))
      else if u_offset1 (k_u k2) AND 511 = 0 then bawrite (Buf j) else act (bdwrite (Buf j))) r k2 = r k3" for r :: "unit kop"
    using w(4,5) by (simp add: kseq_def kbind_def)
  have run: "write_block again x dv ?bn (int n) k = (if i + n < N then again ?k4 else Ret () ?k4)"
    unfolding write_block_def Let_def on kbind_Ret [where m = "if int n = int BSIZE then getblk dv ?bn else bread dv ?bn", OF whole]
    by (simp only: w(2,3) if_False bk) (use cnt e3 in simp)
  have i3: "inodep k3 = inodep k" by (rule inodep_cong [OF fs3])
  have x3: "x < length (inodes (k_fs k3))" using c(3) fs3 by simp
  have i4: "inodep ?k4 x = ?g (inodep k x)" using x3 i3 by simp
  have "p + n \<le> 8 * BSIZE" using n(2) N8 by (simp add: p_def)
  note gr = grow_isize [OF ino this, folded o3]
  have "isize (inodep ?k4 x) = isize (grow_size (u_offset1 (k_u k3)) (inodep k x))" unfolding i4 by (simp add: Let_def)
  then have sz: "unat (isize (inodep ?k4 x)) = max (unat (isize (inodep k x))) (off + (i + n))"
    using gr by (simp only: p_def add.assoc)
  have sf: "small_file dv ?k4 B x M"
    by (rule small_file_keep [OF f(1)]) (use c3 x3 fs3 i4 in \<open>simp_all add: Let_def\<close>)
  have fb: "file_byte dv x ?k4 q = (if off + i \<le> q \<and> q < off + (i + n) then user_list a N k ! (q - off) else file_byte dv x k q)"
    if "q < M" for q
  proof -
    have a4: "file_byte dv x ?k4 q = content dv k3 (i_addr (inodep k x) ! (q div BSIZE)) (q mod BSIZE)"
      using i4 by (simp add: file_byte_def Let_def)
    show ?thesis
    proof (cases "q div BSIZE = p div BSIZE")
      case True
      then have "q = p div BSIZE * BSIZE + q mod BSIZE" "p = p div BSIZE * BSIZE + p mod BSIZE"
        by (metis div_mult_mod_eq)+
      then have iff: "p mod BSIZE \<le> q mod BSIZE \<and> q mod BSIZE < p mod BSIZE + n \<longleftrightarrow> p \<le> q \<and> q < p + n"
        and df: "p \<le> q \<Longrightarrow> q mod BSIZE - p mod BSIZE = q - p" by linarith+
      have "segment i n (user_list a N k) ! (q - p) = user_list a N k ! (q - off)" if "p \<le> q" "q < p + n"
        using that n(2) by (simp add: segment_def p_def)
      then show ?thesis unfolding a4 True using new iff df True
        by (auto simp: patched_def file_byte_def p_def add.assoc)
    next
      case False
      then have "i_addr (inodep k x) ! (q div BSIZE) \<noteq> ?bn" "in_range (i_addr (inodep k x) ! (q div BSIZE))"
        using f(1) that pM by (auto simp: small_file_def)
      moreover have "\<not> (off + i \<le> q \<and> q < off + (i + n))"
        using piece_block [OF n(3), of q] False by (auto simp: p_def)
      ultimately show ?thesis unfolding a4 using old by (auto simp: file_byte_def)
    qed
  qed
  have "stored dv B x M a N off i (i + n) k ?k4"
    using io3 u3 im3 sf sz fb i4 unfolding stored_def by (simp add: Let_def)
  with run show ?thesis by blast
qed

lemma writei_loop_ok:
  "io_at a N off i k \<Longrightarrow> i < N \<Longrightarrow> small_file dv k B x M \<Longrightarrow> off + N \<le> M \<Longrightarrow> N - i \<le> Suc f \<Longrightarrow>
     \<exists>k'. writei_loop f x k = Ret () k' \<and> stored dv B x M a N off i N k k'"
proof (induction f arbitrary: i k rule: less_induct)
  case (less f)
  note io = less.prems(1,2) and sf = less.prems(3,4)
  let ?p = "off + i" and ?again = "case f of 0 \<Rightarrow> stop Spins | Suc g \<Rightarrow> writei_loop g x"
  define n where "n = piece ?p (N - i)"
  have M: "M \<le> 8 * BSIZE" "i_dev (inodep k x) = dv" "i_mode (inodep k x) AND IFMT = 0" using sf(1) by (simp_all add: small_file_def)
  have pM: "?p < M" using io(2) sf(2) by simp
  have n: "0 < n" "i + n \<le> N"
    using piece_bounds [of "N - i" ?p, folded n_def] io(2) by linarith+
  note ps = io_position [OF io(1) _ io(2), folded n_def]
  obtain k' where st: "write_block ?again x dv (i_addr (inodep k x) ! (?p div BSIZE)) (int n) k
      = (if i + n < N then ?again k' else Ret () k')" "stored dv B x M a N off i (i + n) k k'"
    using write_step [OF io sf, of ?again, folded n_def] by blast
  have bn: "i_addr (inodep k x) ! (?p div BSIZE) \<noteq> 0" "i_addr (inodep k x) ! (?p div BSIZE) \<noteq> - 1"
    using sf(1) pM in_range_not_bad by (auto simp: small_file_def)
  have "u_offset1 (k_u k) = of_nat ?p" "chunk (k_u k) = int n" using ps sf(2) M(1) by simp_all
  then have run: "writei_loop f x k = (if i + n < N then ?again k' else Ret () k')"
    using bmap_small [OF sf(1) pM, of True] bn M st(1)
    by (subst writei_loop.simps) (simp add: Let_def)
  show ?case
  proof (cases "i + n < N")
    case True
    then obtain g where g: "f = Suc g" using less.prems(5) n by (cases f) auto
    have "io_at a N off (i + n) k'" "small_file dv k' B x M" using st(2) by (simp_all add: stored_def)
    moreover have "N - (i + n) \<le> Suc g" using less.prems(5) n g by linarith
    ultimately obtain k'' where "writei_loop g x k' = Ret () k''" "stored dv B x M a N off (i + n) N k' k''"
      using less.IH [of g "i + n" k'] g True sf(2) by auto
    with True run g stored_trans [OF st(2)] n show ?thesis by auto
  next
    case False
    then have "i + n = N" using n by simp
    with run st(2) show ?thesis by auto
  qed
qed

lemma small_file_flags:
  assumes "small_file dv k B x M" "\<And>p. i_dev (f p) = i_dev p \<and> i_mode (f p) = i_mode p \<and> i_addr (f p) = i_addr p \<and> isize (f p) = isize p"
  shows "small_file dv (upd_inode x f k) B x M" "file_byte dv x (upd_inode x f k) = file_byte dv x k"
    "i_addr (inodep (upd_inode x f k) x) = i_addr (inodep k x)" "isize (inodep (upd_inode x f k) x) = isize (inodep k x)"
proof -
  have x: "x < length (inodes (k_fs k))" using assms(1) by (simp add: small_file_def)
  show "small_file dv (upd_inode x f k) B x M"
    by (rule small_file_keep [OF assms(1)]) (use x assms in \<open>simp_all add: small_file_def\<close>)
  show "file_byte dv x (upd_inode x f k) = file_byte dv x k" "i_addr (inodep (upd_inode x f k) x) = i_addr (inodep k x)"
    "isize (inodep (upd_inode x f k) x) = isize (inodep k x)"
    using x assms(2) by (simp_all add: file_byte_def fun_eq_iff)
qed

lemma writei_ok:
  assumes io: "io_at a N off 0 k" "0 < N" and f: "small_file dv k B x M" "off + N \<le> M"
  shows "\<exists>k'. writei x k = Ret () k' \<and> stored dv B x M a N off 0 N k k'"
proof -
  let ?f = "\<lambda>p. p\<lparr>i_flag := i_flag p OR (IACC OR IUPD), i_mtime := time1 (k_clk k), i_ctime := time1 (k_clk k)\<rparr>"
  let ?k1 = "upd_inode x ?f k"
  have same: "i_dev (?f p) = i_dev p \<and> i_mode (?f p) = i_mode p \<and> i_addr (?f p) = i_addr p \<and> isize (?f p) = isize p" for p
    by (simp add: isize_def)
  note s1 = small_file_flags [where f = ?f, OF f(1) same]
  have io1: "io_at a N off 0 ?k1" using io(1) by simp
  have cnt: "unat (u_count (k_u k)) = N" "u_count (k_u k) \<noteq> 0" using io_count [OF io(1)] io(2) by auto
  obtain k' where w: "writei_loop N x ?k1 = Ret () k'" "stored dv B x M a N off 0 N ?k1 k'"
    using writei_loop_ok [OF io1 io(2) s1(1) f(2), of N] by auto
  have "x < length (inodes (k_fs k))" "i_mode (inodep k x) AND IFMT = 0" using f(1) by (simp_all add: small_file_def)
  then have m: "i_mode (inodep ?k1 x) AND IFMT \<noteq> IFCHR" by simp
  have "stored dv B x M a N off 0 N k k'" using w(2) s1 by (simp add: stored_def)
  moreover have "writei x k = Ret () k'" using m cnt w(1) by (simp add: writei_def Let_def)
  ultimately show ?thesis by blast
qed

subsection \<open>Reading one block\<close>

text \<open>One round of \<^verbatim>\<open>readi\<close> with the block \<open>bn\<close>.\<close>

lemma read_piece:
  assumes io: "io_at a N off i k" "i < N" "off + N < 2 ^ 31"
    and c: "cache_at dv k B" "B \<noteq> {..<NBUF}" "x < length (inodes (k_fs k))" "rablock (k_fs k) = 0"
    and bn: "in_range bn" "\<And>j. j \<in> B \<Longrightarrow> \<not> holds dv k j bn"
  defines "p \<equiv> off + i" and "n \<equiv> piece (off + i) (N - i)"
  shows "\<exists>k'. read_block again x dv bn (int n) k = (if i + n < N then again k' else Ret () k')
    \<and> io_at a N off (i + n) k' \<and> cache_at dv k' B \<and> (\<forall>j\<in>B. same_buf k k' j)
    \<and> (\<forall>b. in_range b \<longrightarrow> content dv k' b = content dv k b)
    \<and> k_fs k' = k_fs (upd_inode x (\<lambda>q. q\<lparr>i_lastr := lblock (u_offset1 (k_u k))\<rparr>) k)
    \<and> user_list a N k' = list_overlay i (map (\<lambda>r. content dv k bn (p mod BSIZE + r)) [0..<n]) (user_list a N k)"
proof -
  note ps = io_position [OF io(1,3,2), folded p_def]
  have n: "0 < n" "i + n \<le> N" "p mod BSIZE + n \<le> BSIZE"
    using piece_bounds [of "N - i" p, folded n_def] piece_bounds [of "N - i" "off + i", folded n_def] io(2)
    unfolding p_def by linarith+
  have on: "boff (u_offset1 (k_u k)) = p mod BSIZE" unfolding ps(1) by (rule pos_block(3) [OF ps(2)])
  obtain j k1 where br: "bread dv bn k = Ret (Buf j) k1" and ob: "obtained dv k B bn j k1"
    and cl: "clip (b_addr (bufp k1 (Buf j))) = content dv k bn"
    using bread_ok [OF c(1,2) bn(2,1)] by blast
  have o: "j \<notin> B" "cache_at dv k1 (insert j B)" "holds dv k1 j bn" "bio_frame k k1" "clean dv k1 j"
    "\<And>j. j \<in> B \<Longrightarrow> same_buf k k1 j" "\<And>b. in_range b \<Longrightarrow> content dv k1 b = content dv k b"
    using ob by (auto simp: obtained_def)
  note io1 = io_frame [OF io(1) o(4)]
  have fs1: "k_fs k1 = k_fs k" by (rule bio_frame_fs [OF o(4)])
  let ?g = "\<lambda>q. q\<lparr>i_lastr := lblock (u_offset1 (k_u k))\<rparr>"
  let ?k1 = "upd_inode x ?g k1"
  obtain m where mv: "iomove (Buf j) (p mod BSIZE) (int n) False ?k1 = advance (int n) (?k1\<lparr>phys := m\<rparr>)"
    "user_list a N (?k1\<lparr>phys := m\<rparr>)
      = list_overlay i (map (\<lambda>r. b_addr (bufp k1 (Buf j)) (p mod BSIZE + r)) [0..<n]) (user_list a N k1)"
    using iomove_out [of a N off i ?k1 n "Buf j" "p mod BSIZE"] io1(1) n(2) by auto
  let ?k2 = "advance (int n) (?k1\<lparr>phys := m\<rparr>)"
  let ?k3 = "brelse (Buf j) ?k2"
  have "k_bio ?k2 = k_bio k1" by simp
  note cb = cache_bio [OF this]
  have rel: "cache_at dv ?k3 (insert j B - {j})" "bio_frame ?k2 ?k3" "\<And>b. in_range b \<Longrightarrow> content dv ?k3 b = content dv ?k2 b"
    "\<And>i. i \<in> insert j B - {j} \<Longrightarrow> same_buf ?k2 ?k3 i"
    using brelse_at [of dv ?k2 "insert j B" j] o(2,5) cb by auto
  have B: "insert j B - {j} = B" using o(1) by auto
  have io2: "io_at a N off (i + n) ?k2"
  proof -
    have "io_at a N off i (?k1\<lparr>phys := m\<rparr>)" by (rule io_keep [of a N off i ?k1]) (use io1(1) in simp_all)
    then show ?thesis using n(2) by (rule io_advance)
  qed
  note io3 = io_frame [OF io2 rel(2)]
  have e3: "u_error (k_u ?k3) = 0" using io3(1) by (simp add: io_at_def)
  have cnt: "u_count (k_u ?k3) \<noteq> 0 \<longleftrightarrow> i + n < N"
    using io_count [OF io3(1)] n(2) by (metis diff_is_0_eq not_le unat_eq_zero)
  have "breada dv bn 0 k = bread dv bn k" by (rule breada_eq [OF c(1,2) bn(2,1)])
  then have get: "(if i_lastr (inodep k x) + 1 = lblock (u_offset1 (k_u k)) then breada dv bn (rablock (k_fs k)) else bread dv bn) k
      = Ret (Buf j) k1" using br c(4) by simp
  have run: "read_block again x dv bn (int n) k = (if i + n < N then again ?k3 else Ret () ?k3)"
    unfolding read_block_def Let_def on
      kbind_Ret [where m = "if i_lastr (inodep k x) + 1 = lblock (u_offset1 (k_u k)) then breada dv bn (rablock (k_fs k)) else bread dv bn", OF get]
    using obtained_flags(4) [OF ob bn(1)] mv(1) e3 cnt by simp
  have fs3: "k_fs ?k3 = k_fs (upd_inode x ?g k)" using bio_frame_fs [OF rel(2)] fs1 by (simp add: upd_inode_def)
  have sm: "same_buf k ?k3 r" if "r \<in> B" for r
  proof -
    have "same_buf k1 ?k2 r" by (simp add: same_buf_def)
    then show ?thesis using o(6) [OF that] rel(4) that unfolding B by (blast intro: same_buf_trans)
  qed
  have bytes: "map (\<lambda>r. b_addr (bufp k1 (Buf j)) (p mod BSIZE + r)) [0..<n] = map (\<lambda>r. content dv k bn (p mod BSIZE + r)) [0..<n]"
    unfolding cl [symmetric] using n(3) by (simp add: clip_def)
  have "user_list a N ?k2 = user_list a N (?k1\<lparr>phys := m\<rparr>)" by (rule user_keep) simp_all
  then have ul: "user_list a N ?k3 = list_overlay i (map (\<lambda>r. content dv k bn (p mod BSIZE + r)) [0..<n]) (user_list a N k)"
    using io3(2) mv(2) io1(2) bytes by simp
  show ?thesis using run io3(1) rel(1,3) sm fs3 ul o(7) cb(2) B by (intro exI [of _ ?k3]) simp
qed

subsection \<open>Reading any mapped file\<close>

text \<open>Byte \<open>p\<close> of the file of inode \<open>x\<close>, through the indirect blocks.\<close>

definition mapped_byte :: "dev_t \<Rightarrow> nat \<Rightarrow> kernel \<Rightarrow> nat \<Rightarrow> byte" where
  "mapped_byte dv x k = dbyte (cached dv k) (inodep k x)"

definition loaded :: "dev_t \<Rightarrow> nat set \<Rightarrow> nat \<Rightarrow> nat \<Rightarrow> uint32_t \<Rightarrow> nat \<Rightarrow> nat \<Rightarrow> nat \<Rightarrow> nat \<Rightarrow> kernel \<Rightarrow> kernel \<Rightarrow> bool" where
  "loaded dv B x M a N off i j k k' \<longleftrightarrow> io_at a N off j k' \<and> mapped_file dv k' B x M
     \<and> user_list a N k' = list_overlay i (map (mapped_byte dv x k) [off + i..<off + j]) (user_list a N k)
     \<and> isize (inodep k' x) = isize (inodep k x) \<and> (\<forall>q<M. mapped_byte dv x k' q = mapped_byte dv x k q)"

lemma loaded_trans:
  assumes "loaded dv B x M a N off i j k k'" "loaded dv B x M a N off j l k' k''" "i \<le> j" "j \<le> l" "l \<le> N" "off + N \<le> M"
  shows "loaded dv B x M a N off i l k k''"
proof -
  have m: "map (mapped_byte dv x k') [off + j..<off + l] = map (mapped_byte dv x k) [off + j..<off + l]"
    using assms(1,5,6) by (auto simp: loaded_def)
  have "[off + i..<off + l] = [off + i..<off + j] @ [off + j..<off + l]"
    using assms(3,4) upt_add_eq_append [of "off + i" "off + j" "l - j"] by simp
  moreover have "i + length (map (mapped_byte dv x k) [off + i..<off + j]) = j" using assms(3) by simp
  ultimately show ?thesis
    using assms list_overlay_append [of i "map (mapped_byte dv x k) [off + i..<off + j]" "map (mapped_byte dv x k) [off + j..<off + l]" "user_list a N k"]
    by (simp add: loaded_def m)
qed

text \<open>A mapped file stays one, with the same bytes, as long as blocks, addresses and mode stay.\<close>

lemma mapped_keep:
  assumes f: "mapped_file dv k B x M"
    and c: "cache_at dv k' B" "\<And>j. j \<in> B \<Longrightarrow> same_buf k k' j" "length (inodes (k_fs k')) = length (inodes (k_fs k))"
      "rablock (k_fs k') = rablock (k_fs k)" "\<And>b. in_range b \<Longrightarrow> content dv k' b = content dv k b"
    and i: "i_dev (inodep k' x) = i_dev (inodep k x)" "i_mode (inodep k' x) = i_mode (inodep k x)"
      "i_addr (inodep k' x) = i_addr (inodep k x)"
  shows "mapped_file dv k' B x M" and "p < M \<Longrightarrow> mapped_byte dv x k' p = mapped_byte dv x k p"
proof -
  let ?P = "inodep k x" and ?D = "cached dv k"
  have h: "holds dv k' j bn = holds dv k j bn" if "j \<in> B" for j bn using c(2) [OF that] by (simp add: same_buf_def Let_def holds_def)
  have D: "cached dv k' b = ?D b" if "b < 16384" for b using c(5) block_number(1) [OF that] by (simp add: cached_def)
  have P: "dblock d (inodep k' x) = dblock d ?P" "dmeta d (inodep k' x) = dmeta d ?P" for d
    using dblock_cong [of "inodep k' x" ?P d] i by simp_all
  have m: "dmeta (cached dv k') ?P (q div BSIZE) = dmeta ?D ?P (q div BSIZE)
      \<and> dblock (cached dv k') ?P (q div BSIZE) = dblock ?D ?P (q div BSIZE)" if q: "q < M" for q
  proof -
    note bl = mapped_blocks(2) [OF f q]
    have me: "dmeta (cached dv k') ?P (q div BSIZE) = dmeta ?D ?P (q div BSIZE)"
      using D bl by (auto simp: dmeta_def disk_word_def)
    moreover have "dblock (cached dv k') ?P (q div BSIZE) = dblock ?D ?P (q div BSIZE)"
    proof (cases "hasf (i_mode ?P) ILARG")
      case True
      then have "last (dmeta ?D ?P (q div BSIZE)) \<in> set (dmeta ?D ?P (q div BSIZE))" by (intro last_in_set) (simp add: dmeta_def)
      then have "cached dv k' (last (dmeta ?D ?P (q div BSIZE))) = ?D (last (dmeta ?D ?P (q div BSIZE)))" using bl by (intro D) simp
      with me True show ?thesis by (simp add: dblock_def disk_word_def)
    qed (simp add: dblock_def)
    ultimately show ?thesis by blast
  qed
  show "mapped_file dv k' B x M" using f c(1,3,4) i h m by (simp add: mapped_file_def P)
  show "mapped_byte dv x k' p = mapped_byte dv x k p" if p: "p < M"
  proof -
    have "dblock ?D ?P (p div BSIZE) < 16384" using mapped_blocks(2) [OF f p] by simp
    then show ?thesis using m [OF p] D by (simp add: mapped_byte_def dbyte_def P)
  qed
qed

lemma readi_loop_ok:
  "io_at a N off i k \<Longrightarrow> i < N \<Longrightarrow> mapped_file dv k B x M \<Longrightarrow> off + N \<le> M \<Longrightarrow> N - i \<le> Suc f \<Longrightarrow>
     off + N \<le> unat fs \<Longrightarrow> unat fs < 2 ^ 31 \<Longrightarrow>
     \<exists>k'. readi_loop f fs x k = Ret () k' \<and> loaded dv B x M a N off i N k k'"
proof (induction f arbitrary: i k rule: less_induct)
  case (less f)
  note io = less.prems(1,2) and sf = less.prems(3,4) and sz = less.prems(6,7)
  let ?p = "off + i" and ?again = "case f of 0 \<Rightarrow> stop Spins | Suc g \<Rightarrow> readi_loop g fs x"
  let ?bn = "of_nat (dblock (cached dv k) (inodep k x) (?p div BSIZE)) :: daddr_t"
  define n where "n = piece ?p (N - i)"
  have M: "i_dev (inodep k x) = dv" "i_mode (inodep k x) AND IFMT = 0" and c: "B \<noteq> {..<NBUF}" "x < length (inodes (k_fs k))" "rablock (k_fs k) = 0"
    using sf(1) by (simp_all add: mapped_file_def)
  have pM: "?p < M" "?p < 2 ^ 31" and N31: "off + N < 2 ^ 31" using io(2) sf(2) sz by simp_all
  have n: "0 < n" "i + n \<le> N" "?p mod BSIZE + n \<le> BSIZE"
    using piece_bounds [of "N - i" ?p, folded n_def] io(2) by linarith+
  note ps = io_position [OF io(1) N31 io(2), folded n_def]
  note bl = mapped_blocks [OF sf(1) pM(1), of "dblock (cached dv k) (inodep k x) (?p div BSIZE)", simplified]
  obtain k1 where bm: "bmap x (lblock (of_nat ?p)) False k = Ret ?bn k1" "quiet dv B k k1" using bmap_mapped [OF sf(1) pM(1)] by blast
  have q1: "cache_at dv k1 B" "bio_frame k k1" "\<And>b. in_range b \<Longrightarrow> content dv k1 b = content dv k b" "\<And>j. j \<in> B \<Longrightarrow> same_buf k k1 j"
    using bm(2) by (simp_all add: quiet_def)
  note io1 = io_frame [OF io(1) q1(2)]
  have fs1: "k_fs k1 = k_fs k" by (rule bio_frame_fs [OF q1(2)])
  have u1: "k_u k1 = k_u k" using q1(2) by (simp add: bio_frame_def)
  obtain k' where st: "read_block ?again x dv ?bn (int n) k1 = (if i + n < N then ?again k' else Ret () k')"
    "io_at a N off (i + n) k'" "cache_at dv k' B" "\<forall>j\<in>B. same_buf k1 k' j" "\<And>b. in_range b \<Longrightarrow> content dv k' b = content dv k1 b"
    "k_fs k' = k_fs (upd_inode x (\<lambda>q. q\<lparr>i_lastr := lblock (u_offset1 (k_u k1))\<rparr>) k1)"
    "user_list a N k' = list_overlay i (map (\<lambda>r. content dv k1 ?bn (?p mod BSIZE + r)) [0..<n]) (user_list a N k1)"
    using read_piece [OF io1(1) io(2) N31 q1(1) c(1), of x ?bn ?again, folded n_def] c(2,3) fs1 bl(3,5) quiet_holds [OF bm(2)] by auto
  have sm: "same_buf k k' j" if "j \<in> B" for j using q1(4) st(4) that by (blast intro: same_buf_trans)
  have i': "inodep k' x = (inodep k x)\<lparr>i_lastr := lblock (u_offset1 (k_u k1))\<rparr>"
    using inodep_cong [OF st(6)] inodep_cong [OF fs1] c(2) fs1 by simp
  have fs': "length (inodes (k_fs k')) = length (inodes (k_fs k))" "rablock (k_fs k') = rablock (k_fs k)"
    using st(6) fs1 by simp_all
  have cn: "\<And>b. in_range b \<Longrightarrow> content dv k' b = content dv k b" using st(5) q1(3) by simp
  note keep = mapped_keep [OF sf(1) st(3) sm fs' cn, unfolded i']
  have bytes: "map (\<lambda>r. content dv k1 ?bn (?p mod BSIZE + r)) [0..<n] = map (mapped_byte dv x k) [off + i..<off + (i + n)]"
  proof (rule nth_equalityI)
    fix r assume "r < length (map (\<lambda>r. content dv k1 ?bn (?p mod BSIZE + r)) [0..<n])"
    then have r: "r < n" by simp
    have "(?p + r) div BSIZE = ?p div BSIZE" "(?p + r) mod BSIZE = ?p mod BSIZE + r"
      using piece_block [OF n(3), of "?p + r"] r by simp_all
    then have "mapped_byte dv x k (?p + r) = content dv k ?bn (?p mod BSIZE + r)" by (simp add: mapped_byte_def dbyte_def cached_def)
    then show "map (\<lambda>r. content dv k1 ?bn (?p mod BSIZE + r)) [0..<n] ! r = map (mapped_byte dv x k) [off + i..<off + (i + n)] ! r"
      using r q1(3) [OF bl(3)] by (simp add: add.assoc)
  qed simp
  have ld: "loaded dv B x M a N off i (i + n) k k'"
    unfolding loaded_def using st(2,7) io1(2) bytes keep by (simp add: i' isize_def)
  have o: "u_offset1 (k_u k) = of_nat ?p" "chunk (k_u k) = int n" using ps by simp_all
  have "unat (fs - of_nat ?p) = unat fs - ?p"
    using sz pos_block(5) [OF pM(2)] io(2) by (subst unat_sub) (simp_all add: word_le_nat_alt)
  then have rem: "sint (fs - u_offset1 (k_u k)) = int (unat fs - ?p)"
    using sz(2) sint_small32 [of "fs - of_nat ?p"] unfolding o by simp
  have le: "n \<le> unat fs - ?p" using n sz(1) by linarith
  then have pos: "0 < unat fs - ?p" using n(1) by linarith
  have nr: "min (int n) (int (unat fs - ?p)) = int n" "\<not> int (unat fs - ?p) \<le> 0"
    using le pos by (simp_all only: min_def of_nat_le_iff if_True not_le of_nat_0_less_iff)
  define r where "r = int (unat fs - ?p)"
  have b0: "?bn \<noteq> 0" "?bn \<noteq> - 1" using bl(1,3,4) in_range_not_bad by auto
  define bn where "bn = ?bn"
  have run: "readi_loop f fs x k = (if i + n < N then ?again k' else Ret () k')"
    using bm(1) b0 M st(1) o nr unfolding readi_loop.simps [of f] Let_def rem r_def [symmetric] bn_def [symmetric]
    by simp
  show ?case
  proof (cases "i + n < N")
    case True
    then obtain g where g: "f = Suc g" using less.prems(5) n by (cases f) auto
    have "io_at a N off (i + n) k'" "mapped_file dv k' B x M" using ld by (simp_all add: loaded_def)
    moreover have "N - (i + n) \<le> Suc g" using less.prems(5) n g by linarith
    ultimately obtain k'' where "readi_loop g fs x k' = Ret () k''" "loaded dv B x M a N off (i + n) N k' k''"
      using less.IH [of g "i + n" k'] g True sf(2) sz by auto
    with True run g loaded_trans [OF ld] n sf(2) show ?thesis by auto
  next
    case False
    then have "i + n = N" using n by simp
    with run ld show ?thesis by auto
  qed
qed

lemma mapped_upd:
  assumes "mapped_file dv k B x M"
    and "\<And>p. i_dev (f p) = i_dev p \<and> i_mode (f p) = i_mode p \<and> i_addr (f p) = i_addr p \<and> isize (f p) = isize p"
  shows "mapped_file dv (upd_inode x f k) B x M" "\<And>q. q < M \<Longrightarrow> mapped_byte dv x (upd_inode x f k) q = mapped_byte dv x k q"
    "isize (inodep (upd_inode x f k) x) = isize (inodep k x)"
proof -
  let ?k = "upd_inode x f k"
  have x: "x < length (inodes (k_fs k))" "cache_at dv k B" using assms(1) by (simp_all add: mapped_file_def)
  have "cache_at dv ?k B" "same_buf k ?k j" "content dv ?k b = content dv k b" for j b
    using x(2) by (simp_all add: same_buf_def)
  note keep = mapped_keep [OF assms(1) this(1,2) _ _ this(3)]
  show "mapped_file dv ?k B x M" "\<And>q. q < M \<Longrightarrow> mapped_byte dv x ?k q = mapped_byte dv x k q"
    using keep assms(2) x(1) by simp_all
  show "isize (inodep ?k x) = isize (inodep k x)" using assms(2) x(1) by simp
qed

lemma readi_mapped:
  assumes io: "io_at a N off 0 k" "0 < N" and f: "mapped_file dv k B x M" "off + N \<le> M"
    and sz: "off + N \<le> unat (isize (inodep k x))" "unat (isize (inodep k x)) < 2 ^ 31"
  shows "\<exists>k'. readi x k = Ret () k' \<and> user_list a N k' = map (mapped_byte dv x k) [off..<off + N]
    \<and> u_error (k_u k') = 0 \<and> u_count (k_u k') = 0 \<and> mapped_file dv k' B x M"
proof -
  let ?f = "\<lambda>p. p\<lparr>i_flag := i_flag p OR IACC, i_atime := time1 (k_clk k)\<rparr>"
  let ?k1 = "upd_inode x ?f k"
  have same: "i_dev (?f p) = i_dev p \<and> i_mode (?f p) = i_mode p \<and> i_addr (?f p) = i_addr p \<and> isize (?f p) = isize p" for p
    by (simp add: isize_def)
  note s1 = mapped_upd [where f = ?f, OF f(1) same]
  have io1: "io_at a N off 0 ?k1" using io(1) by simp
  have cnt: "unat (u_count (k_u k)) = N" "u_count (k_u k) \<noteq> 0" using io_count [OF io(1)] io(2) by auto
  obtain k' where w: "readi_loop N (isize (inodep ?k1 x)) x ?k1 = Ret () k'" "loaded dv B x M a N off 0 N ?k1 k'"
    using readi_loop_ok [OF io1 io(2) s1(1) f(2), of N "isize (inodep ?k1 x)"] s1(3) sz by auto
  have "x < length (inodes (k_fs k))" "i_mode (inodep k x) AND IFMT = 0" using f(1) by (simp_all add: mapped_file_def)
  then have m: "i_mode (inodep ?k1 x) AND IFMT \<noteq> IFCHR" by simp
  have b: "map (mapped_byte dv x ?k1) [off..<off + N] = map (mapped_byte dv x k) [off..<off + N]"
    using s1(2) f(2) by simp
  have "user_list a N k' = map (mapped_byte dv x k) [off..<off + N]" using w(2) b by (simp add: loaded_def list_overlay_all)
  moreover have "u_error (k_u k') = 0" "u_count (k_u k') = 0" "mapped_file dv k' B x M" using w(2) by (simp_all add: loaded_def io_at_def)
  moreover have "readi x k = Ret () k'" using m cnt w(1) by (simp add: readi_def Let_def)
  ultimately show ?thesis by blast
qed

lemma small_mapped:
  assumes f: "small_file dv k B x M"
  shows "mapped_file dv k B x M" "p < M \<Longrightarrow> mapped_byte dv x k p = file_byte dv x k p"
proof -
  have fl: "\<not> hasf (i_mode (inodep k x)) ILARG" using f by (simp add: small_file_def)
  have m: "dmeta d (inodep k x) n = []" "dblock d (inodep k x) n = unat (i_addr (inodep k x) ! n)" for d n
    using fl by (simp_all add: dmeta_def dblock_def)
  have "0 < unat w \<and> unat w < 16384" if "in_range w" "w \<noteq> 0" for w :: daddr_t
  proof -
    have "sint w = int (unat w)" using that(1) sint_pos32 [of w] sint_small32 [of w] by (simp add: in_range_def)
    moreover have "sint w < 16384" using that(1) by (simp add: in_range_def)
    ultimately have "unat w < 16384" by linarith
    then show ?thesis using that(2) by (simp add: unat_gt_0)
  qed
  then show "mapped_file dv k B x M" using f fl by (simp add: mapped_file_def small_file_def m)
  show "mapped_byte dv x k p = file_byte dv x k p"
    by (simp add: mapped_byte_def dbyte_def file_byte_def cached_def m)
qed

subsection \<open>Properties\<close>

text \<open>C5: \<^verbatim>\<open>writei\<close> stores the user's bytes into the file at the offset: for a transfer of
  \<open>N\<close> bytes over allocated blocks it ends without an error, byte \<open>off + q\<close> of the file is
  then byte \<open>q\<close> of the user's buffer and every other byte is what it was, the size is the old
  one or the end of the transfer, and the count is used up.  The file is one of at most 8 direct
  blocks, all of them allocated up to the end of the transfer (\<open>small_file\<close>).\<close>

theorem writei_stores:
  assumes "io_at a N off 0 k" "0 < N" "small_file dv k B x M" "off + N \<le> M"
  shows "\<exists>k'. writei x k = Ret () k' \<and> u_error (k_u k') = 0 \<and> u_count (k_u k') = 0
    \<and> small_file dv k' B x M \<and> unat (isize (inodep k' x)) = max (unat (isize (inodep k x))) (off + N)
    \<and> (\<forall>q<M. file_byte dv x k' q
         = (if off \<le> q \<and> q < off + N then user_list a N k ! (q - off) else file_byte dv x k q))"
proof -
  obtain k' where "writei x k = Ret () k'" "stored dv B x M a N off 0 N k k'"
    using writei_ok [OF assms] by blast
  then show ?thesis by (intro exI [of _ k']) (simp add: stored_def io_at_def)
qed

text \<open>The arguments of a transfer of \<open>N\<close> bytes at \<open>off\<close> with the user's buffer at \<open>a\<close>, as
  the system calls set them.\<close>

definition set_io :: "uint32_t \<Rightarrow> nat \<Rightarrow> nat \<Rightarrow> kernel \<Rightarrow> kernel" where
  "set_io a N off = upd_u (\<lambda>u. u\<lparr>u_base := UAddr a, u_count := of_nat N, u_offset1 := of_nat off, u_segflg := 0\<rparr>)"

lemma set_io_at:
  assumes "u_error (k_u k) = 0" "user_range a N k" "u_procp (k_u k) < length (procs (k_sch k))"
  shows "io_at a N off 0 (set_io a N off k)"
proof -
  have "image_of (set_io a N off k) = image_of k" by (rule image_of_keep) (simp_all add: set_io_def)
  from user_range_image [OF this] show ?thesis using assms by (simp add: io_at_def) (simp add: set_io_def)
qed

lemma small_file_u:
  assumes "small_file dv k B x M"
  shows "small_file dv (upd_u f k) B x M"
proof -
  have "cache_at dv (upd_u f k) B" using assms cache_bio [of "upd_u f k" k] by (simp add: small_file_def)
  then show ?thesis by (rule small_file_keep [OF assms]) (simp_all add: same_buf_def)
qed

text \<open>C6: What is written is what is read: after \<^verbatim>\<open>writei\<close> of \<open>N\<close> bytes from one user
  buffer, \<^verbatim>\<open>readi\<close> of the same part of the file into another buffer of the process returns
  these bytes, over block boundaries and whether the blocks are cached, delayed or on the disk, for
  a file of at most 8 direct blocks that are all allocated.\<close>

theorem write_read_roundtrip:
  assumes "io_at a N off 0 k" "0 < N" "small_file dv k B x M" "off + N \<le> M"
    and "unat (isize (inodep k x)) < 2 ^ 31" "user_range b N k"
  shows "\<exists>k' k''. writei x k = Ret () k' \<and> readi x (set_io b N off k') = Ret () k''
    \<and> user_list b N k'' = user_list a N k \<and> u_error (k_u k'') = 0"
proof -
  obtain k' where w: "writei x k = Ret () k'" "stored dv B x M a N off 0 N k k'"
    using writei_ok [OF assms(1-4)] by blast
  let ?k = "set_io b N off k'"
  have e: "u_error (k_u k') = 0" "u_procp (k_u k') < length (procs (k_sch k'))" "user_range b N k'"
    using w(2) assms(6) user_range_image [of k' k b N] by (simp_all add: stored_def io_at_def)
  note io = set_io_at [OF e(1,3,2), of off]
  have sf: "small_file dv ?k B x M" using w(2) small_file_u by (simp add: stored_def set_io_def)
  have i: "inodep ?k = inodep k'" by (simp add: set_io_def)
  have M: "M \<le> 8 * BSIZE" using assms(3) by (simp add: small_file_def)
  have sz: "off + N \<le> unat (isize (inodep ?k x))" "unat (isize (inodep ?k x)) < 2 ^ 31"
    using w(2) assms(4,5) M by (simp_all add: stored_def i)
  note mf = small_mapped [OF sf]
  obtain k'' where r: "readi x ?k = Ret () k''" "user_list b N k'' = map (mapped_byte dv x ?k) [off..<off + N]" "u_error (k_u k'') = 0"
    using readi_mapped [OF io assms(2) mf(1) assms(4) sz] by blast
  have "content dv ?k = content dv k'" by (rule cache_bio) (simp add: set_io_def)
  then have fb: "mapped_byte dv x ?k q = file_byte dv x k' q" if "q < M" for q using mf(2) [OF that] by (simp add: file_byte_def i)
  have "map (mapped_byte dv x ?k) [off..<off + N] = user_list a N k"
    by (rule nth_equalityI) (use w(2) assms(4) in \<open>simp_all add: stored_def fb\<close>)
  then show ?thesis using w(1) r by auto
qed

text \<open>The witness: inode 3 has blocks 100 and 101, and a process with 6400 bytes of memory moves
  600 bytes at offset 300, over the boundary of the two blocks.\<close>

definition file_kernel :: kernel where
  "file_kernel = set_io 0 600 300 (upd_proc 0 (\<lambda>p. p\<lparr>p_addr := 100, p_size := 164\<rparr>)
     (upd_inode 3 (\<lambda>p. p\<lparr>i_nlink := 1, i_addr := [100, 101, 0, 0, 0, 0, 0, 0]\<rparr>)
       (zero_kernel\<lparr>k_bio := k_bio rd_kernel\<rparr>)))"

lemma file_kernel_ok:
  "io_at 0 600 300 0 file_kernel" "small_file 0 file_kernel {} 3 1024" "user_range 1000 600 file_kernel"
  "isize (inodep file_kernel 3) = 0"
proof -
  have i: "inodep file_kernel 3 = zero_inode\<lparr>i_nlink := 1, i_addr := [100, 101, 0, 0, 0, 0, 0, 0]\<rparr>"
    by (simp add: file_kernel_def set_io_def inodep_def upd_inode_def zero_kernel_def)
  have p: "p_addr (procp file_kernel 0) = 100" "p_size (procp file_kernel 0) = 164" "length (procs (k_sch file_kernel)) = 50"
    "u_procp (k_u file_kernel) = 0" "u_error (k_u file_kernel) = 0"
    by (simp_all add: file_kernel_def set_io_def zero_kernel_def zero_user_def)
  have r: "user_range a 600 file_kernel" if "unat a \<le> 1000" for a
    using that by (simp add: user_range_def placed_def p)
  show "user_range 1000 600 file_kernel" by (rule r) simp
  have "io_at 0 600 300 0 (set_io 0 600 300 file_kernel)" using set_io_at [of file_kernel 0 600 300] r [of 0] p by simp
  moreover have "set_io 0 600 300 file_kernel = file_kernel" by (simp add: file_kernel_def set_io_def upd_u_def)
  ultimately show "io_at 0 600 300 0 file_kernel" by simp
  show "isize (inodep file_kernel 3) = 0" by (simp add: i isize_def zero_inode_def)
  have "cache_at 0 file_kernel {}"
    using rd_kernel_ok cache_bio [of file_kernel rd_kernel] by (simp add: file_kernel_def set_io_def)
  moreover have "q div BSIZE = 0 \<or> q div BSIZE = 1" if "q < 1024" for q using that by auto
  then have "i_addr (inodep file_kernel 3) ! (q div BSIZE) = (if q div BSIZE = 0 then 100 else 101)" if "q < 1024" for q
    using that by (fastforce simp: i)
  moreover have "rablock (k_fs file_kernel) = 0" "length (inodes (k_fs file_kernel)) = 100"
    by (simp_all add: file_kernel_def set_io_def zero_kernel_def)
  ultimately show "small_file 0 file_kernel {} 3 1024"
    unfolding small_file_def using i by (auto simp: in_range_def zero_inode_def hasf_def)
qed

theorem writei_stores_witness:
  "small_file 0 file_kernel {} 3 1024 \<and> (\<exists>k'. writei 3 file_kernel = Ret () k' \<and> u_count (k_u k') = 0
     \<and> unat (isize (inodep k' 3)) = 900 \<and> file_byte 0 3 k' 511 = user_list 0 600 file_kernel ! 211
     \<and> file_byte 0 3 k' 512 = user_list 0 600 file_kernel ! 212)"
  using writei_stores [OF file_kernel_ok(1) _ file_kernel_ok(2)] file_kernel_ok(2,4) by fastforce

theorem write_read_roundtrip_witness:
  "small_file 0 file_kernel {} 3 1024 \<and> (\<exists>k' k''. writei 3 file_kernel = Ret () k'
     \<and> readi 3 (set_io 1000 600 300 k') = Ret () k'' \<and> user_list 1000 600 k'' = user_list 0 600 file_kernel)"
  using write_read_roundtrip [OF file_kernel_ok(1) _ file_kernel_ok(2) _ _ file_kernel_ok(3)] file_kernel_ok(2,4) by fastforce

end
