(* ===== verification/Sys_Dev.thy ===== *)
theory Sys_Dev
  imports Console Sys_Misc File_Io
begin

text \<open>
  The calls of \<^verbatim>\<open>kernel/sys.c\<close> and \<^verbatim>\<open>kernel/sys_fb.c\<close> that reach the console: they work on the
  console's state, which holds the kernel's.  None of them sleeps.
\<close>

definition dev_error :: "int8_t \<Rightarrow> console \<Rightarrow> int \<times> console" where
  "dev_error e s = (- 1, on_k (set_error e) s)"

definition dev_okay :: "console \<Rightarrow> int \<times> console" where
  "dev_okay s = (0, on_k (set_ar0 EAX 0) s)"

text \<open>\<^verbatim>\<open>if (copyout(...) < 0) { u.u_error = EFAULT; return -1; }\<close>, and the same for \<^verbatim>\<open>copyin\<close>.\<close>

definition dev_out :: "byte list \<Rightarrow> uint32_t \<Rightarrow> (console \<Rightarrow> int \<times> console) \<Rightarrow> console \<Rightarrow> int \<times> console" where
  "dev_out bs a rest s =
     (case put_bytes bs a (kern s) of
        (True, k) \<Rightarrow> rest (on_k (\<lambda>_. k) s) | (False, k) \<Rightarrow> dev_error EFAULT (on_k (\<lambda>_. k) s))"

definition dev_in :: "nat \<Rightarrow> uint32_t \<Rightarrow> (byte list \<Rightarrow> console \<Rightarrow> int \<times> console) \<Rightarrow> console \<Rightarrow> int \<times> console" where
  "dev_in n a rest s = (case get_bytes n a (kern s) of None \<Rightarrow> dev_error EFAULT s | Some bs \<Rightarrow> rest bs s)"

text \<open>The file of descriptor 0 has to be a character device.\<close>

definition with_terminal :: "(console \<Rightarrow> int \<times> console) \<Rightarrow> console \<Rightarrow> int \<times> console" where
  "with_terminal f s =
     (case getf (arg 0 (kern s)) (kern s) of
        (None, k) \<Rightarrow> (- 1, on_k (\<lambda>_. k) s)
      | (Some fp, k) \<Rightarrow>
          if i_mode (inodep k (f_inode (k_file k ! fp))) AND IFMT \<noteq> IFCHR then dev_error ENOTTY (on_k (\<lambda>_. k) s)
          else f (on_k (\<lambda>_. k) s))"

definition get_modes :: "uint32_t \<Rightarrow> console \<Rightarrow> int \<times> console" where
  "get_modes a s =
     (case console_get_termios 36 s of None \<Rightarrow> dev_error EFAULT s | Some bs \<Rightarrow> dev_out bs a dev_okay s)"

definition set_modes :: "uint32_t \<Rightarrow> console \<Rightarrow> int \<times> console" where
  "set_modes a = dev_in 36 a (\<lambda>bs s.
     case console_set_termios bs 36 s of None \<Rightarrow> dev_error EINVAL s | Some s \<Rightarrow> dev_okay s)"

definition sys_tcgetattr :: "console \<Rightarrow> int \<times> console" where
  "sys_tcgetattr = with_terminal (\<lambda>s. get_modes (arg 1 (kern s)) s)"

definition sys_tcsetattr :: "console \<Rightarrow> int \<times> console" where
  "sys_tcsetattr = with_terminal (\<lambda>s. set_modes (arg 2 (kern s)) s)"

definition sys_tcflush :: "console \<Rightarrow> int \<times> console" where
  "sys_tcflush s = dev_okay (console_flush_input s)"

abbreviation (input) TCGETS :: uint32_t where "TCGETS \<equiv> 0x5401"
abbreviation (input) TCSETS :: uint32_t where "TCSETS \<equiv> 0x5402"
abbreviation (input) TIOCGPGRP :: uint32_t where "TIOCGPGRP \<equiv> 0x540F"
abbreviation (input) TIOCSPGRP :: uint32_t where "TIOCSPGRP \<equiv> 0x5410"
abbreviation (input) TIOCGWINSZ :: uint32_t where "TIOCGWINSZ \<equiv> 0x5413"

definition get_pgrp :: "uint32_t \<Rightarrow> console \<Rightarrow> int \<times> console" where
  "get_pgrp a s =
     (case suword a (of_int (tty_get_pgid (c_tty s))) (kern s) of
        (True, k) \<Rightarrow> dev_okay (on_k (\<lambda>_. k) s) | (False, k) \<Rightarrow> dev_error EFAULT (on_k (\<lambda>_. k) s))"

definition set_pgrp :: "uint32_t \<Rightarrow> console \<Rightarrow> int \<times> console" where
  "set_pgrp a s =
     (let pgid = sint (fuword a (kern s))
      in if pgid < 0 then dev_error EFAULT s else dev_okay (on_tty (tty_set_pgid pgid) s))"

definition window_size :: "byte list" where
  "window_size = bytes16 24 @ bytes16 80 @ bytes16 0 @ bytes16 0"

definition sys_ioctl :: "console \<Rightarrow> int \<times> console" where
  "sys_ioctl s =
     (let req = arg 1 (kern s); argp = arg 2 (kern s)
      in if req = TCGETS then get_modes argp s
         else if req = TCSETS then set_modes argp s
         else if req = TIOCGPGRP then get_pgrp argp s
         else if req = TIOCSPGRP then set_pgrp argp s
         else if req = TIOCGWINSZ then dev_out window_size argp dev_okay s
         else dev_error ENOTTY s)"

definition fb_info :: "fbuf \<Rightarrow> byte list" where
  "fb_info f = bytes32 (fb_width f) @ bytes32 (fb_height f) @ bytes32 (fb_pitch f) @ bytes32 (fb_bpp f) @ bytes32 (fb_addr f)"

text \<open>\<^verbatim>\<open>getfbinfo\<close> does not set the result register.\<close>

definition getfbinfo :: "console \<Rightarrow> int \<times> console" where
  "getfbinfo s =
     (let f = fb (t_scr (c_tty s))
      in if fb_addr f = 0 then dev_error ENODEV s
         else dev_out (fb_info f) (arg 0 (kern s)) (\<lambda>s. (0, s)) s)"

text \<open>The entries 39 and 79 to 82 of \<^verbatim>\<open>sysent\<close>.\<close>

definition dev_call :: "nat \<Rightarrow> console \<Rightarrow> int \<times> console" where
  "dev_call n =
     (if n = 39 then getfbinfo else if n = 79 then sys_tcgetattr else if n = 80 then sys_tcsetattr
      else if n = 81 then sys_tcflush else sys_ioctl)"

subsection \<open>Copies of a structure\<close>

lemma get_bytes_user:
  assumes "user_range a N k" "i + n \<le> N"
  shows "get_bytes n (a + of_nat i) k = Some (take n (drop i (user_list a N k)))"
  using assms(2)
proof (induction n arbitrary: i)
  case (Suc n)
  let ?l = "user_list a N k"
  have "get_bytes n (a + of_nat i + 1) k = Some (take n (drop (Suc i) ?l))"
    using Suc.IH [of "Suc i"] Suc.prems by (simp add: add.assoc add.commute [of 1])
  moreover have "drop i ?l = ?l ! i # drop (Suc i) ?l" using Suc.prems by (intro Cons_nth_drop_Suc [symmetric]) simp
  ultimately show ?case using fubyte_user [OF assms(1), of i] Suc.prems by simp
qed simp

lemma put_bytes_user:
  assumes "user_range a N k" "i + length bs \<le> N"
  shows "\<exists>m. put_bytes bs (a + of_nat i) k = (True, k\<lparr>phys := m\<rparr>)
    \<and> user_list a N (k\<lparr>phys := m\<rparr>) = list_overlay i bs (user_list a N k)"
  using assms
proof (induction bs arbitrary: i k)
  case Nil
  then show ?case by (intro exI [of _ "phys k"]) simp
next
  case (Cons b bs)
  obtain m where m: "subyte (UAddr (a + of_nat i)) b k = (True, k\<lparr>phys := m\<rparr>)"
    "user_list a N (k\<lparr>phys := m\<rparr>) = (user_list a N k)[i := b]"
    using subyte_user [OF Cons.prems(1), of i b] Cons.prems(2) by auto
  have r: "user_range a N (k\<lparr>phys := m\<rparr>)" using Cons.prems(1) user_range_image [OF image_of_phys] by blast
  obtain m' where m': "put_bytes bs (a + of_nat (Suc i)) (k\<lparr>phys := m\<rparr>) = (True, k\<lparr>phys := m'\<rparr>)"
    "user_list a N (k\<lparr>phys := m'\<rparr>) = list_overlay (Suc i) bs ((user_list a N k)[i := b])"
    using Cons.IH [OF r, of "Suc i"] Cons.prems(2) m(2) by auto
  have "i < length (user_list a N k)" using Cons.prems(2) by simp
  then have "list_overlay (Suc i) bs ((user_list a N k)[i := b]) = list_overlay i (b # bs) (user_list a N k)"
    by (rule list_overlay_Cons)
  then show ?case using m(1) m' by (intro exI [of _ m']) (simp add: add.assoc add.commute [of 1])
qed

lemma get32_bytes:
  "(ucast (get32 b i) :: byte) = b i" "(ucast (drop_bit 8 (get32 b i)) :: byte) = b (i + 1)"
  "(ucast (drop_bit 16 (get32 b i)) :: byte) = b (i + 2)" "(ucast (drop_bit 24 (get32 b i)) :: byte) = b (i + 3)"
  by (rule bit_word_eqI; auto simp: get32_def bit_simps dest: bit_imp_le_length)+

lemma bytes32_list: "bytes32 v = [ucast v, ucast (drop_bit 8 v), ucast (drop_bit 16 v), ucast (drop_bit 24 v)]"
  by (simp add: bytes32_def put32_def upt_rec)

lemma take4: "i + 4 \<le> length bs \<Longrightarrow> take 4 (drop i bs) = [bs ! i, bs ! (i + 1), bs ! (i + 2), bs ! (i + 3)]"
  by (rule nth_equalityI) (auto simp: less_Suc_eq numeral_eq_Suc)

lemma bytes32_word32: "i + 4 \<le> length bs \<Longrightarrow> bytes32 (word32 bs i) = take 4 (drop i bs)"
  unfolding bytes32_list word32_def get32_bytes by (simp only: take4)

lemma termios_bytes_of: "length bs = 36 \<Longrightarrow> termios_bytes (termios_of bs) = bs"
proof -
  assume l: "length bs = 36"
  have "bs = take 4 (drop 0 bs) @ take 4 (drop 4 bs) @ take 4 (drop 8 bs) @ take 4 (drop 12 bs) @ drop 16 bs"
  proof -
    have "take 4 (drop i bs) @ drop (i + 4) bs = drop i bs" for i
      using append_take_drop_id [of 4 "drop i bs"] by (simp add: add.commute)
    from this [of 0] this [of 4] this [of 8] this [of 12] show ?thesis by simp
  qed
  then show ?thesis using l by (simp add: termios_bytes_def termios_of_def bytes32_word32)
qed

lemma dev_out_user:
  assumes "user_range a N k" "length bs = N" "k = kern s"
  shows "\<exists>m. dev_out bs a rest s = rest (on_k (\<lambda>_. k\<lparr>phys := m\<rparr>) s) \<and> user_list a N (k\<lparr>phys := m\<rparr>) = bs"
proof -
  obtain m where "put_bytes bs a k = (True, k\<lparr>phys := m\<rparr>)" "user_list a N (k\<lparr>phys := m\<rparr>) = list_overlay 0 bs (user_list a N k)"
    using put_bytes_user [OF assms(1), of 0 bs] assms(2) by auto
  then show ?thesis using assms(2,3) by (intro exI [of _ m]) (simp add: dev_out_def list_overlay_all)
qed

lemma set_modes_run:
  assumes "user_range a 36 (kern s)"
  shows "set_modes a s = dev_okay (s\<lparr>con_termios := termios_of (user_list a 36 (kern s))\<rparr>)"
  using get_bytes_user [OF assms, of 0 36] by (simp add: set_modes_def dev_in_def console_set_termios_def)

text \<open>The modes set with \<^verbatim>\<open>tcsetattr\<close> or \<^verbatim>\<open>ioctl(TCSETS)\<close> from one buffer of a process are, byte for
  byte, what \<^verbatim>\<open>tcgetattr\<close> or \<^verbatim>\<open>ioctl(TCGETS)\<close> stores into another.\<close>

lemma modes_roundtrip:
  assumes "user_range a 36 (kern s)" "user_range b 36 (kern s)" 
  shows "\<exists>s' s''. set_modes a s = (0, s') \<and> get_modes b s' = (0, s'') \<and> user_list b 36 (kern s'') = user_list a 36 (kern s)"
proof -
  let ?bs = "user_list a 36 (kern s)"
  let ?s = "on_k (set_ar0 EAX 0) (s\<lparr>con_termios := termios_of ?bs\<rparr>)"
  have 1: "set_modes a s = (0, ?s)" using set_modes_run [OF assms(1)] by (simp add: dev_okay_def)
  have i: "image_of (kern ?s) = image_of (kern s)"
    by (rule image_of_keep) (simp_all add: on_k_def on_tty_def on_kern_def)
  have r: "user_range b 36 (kern ?s)" using assms(2) user_range_image [OF i] by simp
  have g: "console_get_termios 36 ?s = Some ?bs"
    by (simp add: console_get_termios_def on_k_def on_tty_def termios_bytes_of)
  obtain m where m: "dev_out ?bs b dev_okay ?s = dev_okay (on_k (\<lambda>_. (kern ?s)\<lparr>phys := m\<rparr>) ?s)"
    "user_list b 36 ((kern ?s)\<lparr>phys := m\<rparr>) = ?bs" using dev_out_user [OF r _ refl, of ?bs] by auto
  have "user_list b 36 (set_ar0 EAX 0 ((kern ?s)\<lparr>phys := m\<rparr>)) = ?bs"
    using user_keep(1) [of "set_ar0 EAX 0 ((kern ?s)\<lparr>phys := m\<rparr>)" "(kern ?s)\<lparr>phys := m\<rparr>" b 36] m(2) by simp
  then show ?thesis using 1 g m(1)
    by (intro exI [of _ ?s] exI [of _ "snd (get_modes b ?s)"])
      (simp add: get_modes_def dev_okay_def on_k_def on_tty_def on_kern_def)
qed

end
