(* ===== verification/Bio_Raw.thy ===== *)
theory Bio_Raw
  imports Cache Umem
begin

text \<open>
  The transfers of \<^verbatim>\<open>kernel/fs/bio.c\<close> that bypass the cache: \<^verbatim>\<open>swap\<close> and \<^verbatim>\<open>physio\<close>.  They use
  the buffer \<^verbatim>\<open>swbuf\<close>, which is not in the table \<^verbatim>\<open>buf\<close> and never on a list; its \<^verbatim>\<open>b_addr\<close>
  points into physical memory, so the bytes are taken from there before the driver runs and
  put back after a read.
\<close>

abbreviation (input) swbuf :: bptr where "swbuf \<equiv> Buf NBUF"
abbreviation (input) B_PHYS :: int32_t where "B_PHYS \<equiv> 16"

definition phys_block :: "uint32_t \<Rightarrow> kernel \<Rightarrow> block" where
  "phys_block a k = (\<lambda>i. phys k (a + of_nat i))"

definition store_phys :: "uint32_t \<Rightarrow> nat \<Rightarrow> block \<Rightarrow> kernel \<Rightarrow> kernel" where
  "store_phys a n b k = k\<lparr>phys := (\<lambda>x. if unat (x - a) < n then b (unat (x - a)) else phys k x)\<rparr>"

text \<open>The driver's transfer between the device and the memory at \<open>a\<close>.\<close>

definition raw_transfer :: "uint32_t \<Rightarrow> nat \<Rightarrow> (kernel \<Rightarrow> kernel) \<Rightarrow> kernel \<Rightarrow> kernel" where
  "raw_transfer a n drv k =
     (let k1 = drv (upd_buf swbuf (\<lambda>b. b\<lparr>b_addr := phys_block a k\<rparr>) k)
      in if flagged k swbuf B_READ then store_phys a n (b_addr (bufp k1 swbuf)) k1 else k1)"

text \<open>The loops of both stop at their first \<^verbatim>\<open>sleep\<close>.\<close>

definition swap_done :: "unit kop" where
  "swap_done k =
     (if \<not> flagged k swbuf B_DONE then sleep (ChBuf swbuf) (- 100) k
      else
        (let k1 = (if flagged k swbuf B_WANTED then wakeup (ChBuf swbuf) k else k);
             k2 = upd_buf swbuf (clear_flags (B_BUSY OR B_WANTED)) k1
         in if flagged k2 swbuf B_ERROR then Stop (Panicked ''swap error'') k2 else Ret () k2))"

definition swap :: "dev_t \<Rightarrow> int32_t \<Rightarrow> uint32_t \<Rightarrow> int32_t \<Rightarrow> bool \<Rightarrow> unit kop" where
  "swap swapdev blkno addr count rdflg k =
     (if flagged k swbuf B_BUSY then sleep (ChBuf swbuf) (- 100) (upd_buf swbuf (set_flags B_WANTED) k)
      else
        (let k1 = upd_buf swbuf (\<lambda>b. b\<lparr>b_flags := B_BUSY OR B_PHYS OR (if rdflg then B_READ else 0), b_dev := swapdev,
               b_blkno := blkno, b_wcount := - (count * 256)\<rparr>) k
         in case bdev swapdev k1 of
              None \<Rightarrow> Stop OutOfBounds k1
            | Some d \<Rightarrow> swap_done (case d_strategy d of
                  NoDrv \<Rightarrow> upd_buf swbuf (set_flags (B_DONE OR B_ERROR)) k1
                | RamDrv \<Rightarrow> raw_transfer addr (unat (count * 512)) (rd_strategy swbuf) k1)))"

text \<open>\<^verbatim>\<open>physio\<close>, for the strategy routine of a device; a null \<^verbatim>\<open>bp\<close> is \<^verbatim>\<open>swbuf\<close>, the only
  buffer anything could pass.  \<open>addr\<close> is \<^verbatim>\<open>u.u_base\<close> as a pointer.\<close>

definition physio_done :: "unit kop" where
  "physio_done k =
     (let k1 = upd_u (\<lambda>u. u\<lparr>u_count := (- b_wcount (bufp k swbuf)) * 2 - u_count u\<rparr>) k;
          k2 = (if flagged k1 swbuf B_WANTED then wakeup (ChBuf swbuf) k1 else k1)
      in Ret () (upd_buf swbuf (clear_flags (B_BUSY OR B_WANTED OR B_PHYS)) k2))"

definition physio :: "(kernel \<Rightarrow> kernel) \<Rightarrow> dev_t \<Rightarrow> bool \<Rightarrow> uint32_t \<Rightarrow> unit kop" where
  "physio drv dev rw addr k =
     (if flagged k swbuf B_BUSY then sleep (ChBuf swbuf) PRIBIO (upd_buf swbuf (set_flags B_WANTED) k)
      else
        (let u = k_u k;
             k1 = upd_buf swbuf (\<lambda>b. b\<lparr>b_flags := B_BUSY OR B_PHYS OR (if rw then B_READ else 0), b_dev := dev, b_error := 0,
               b_blkno := signed_drop_bit 9 (u_offset1 u), b_wcount := - (u_count u div 2)\<rparr>) k
         in kseq (iowait swbuf) physio_done (raw_transfer addr (unat (u_count u div 2 * 2)) drv k1)))"

subsection \<open>What is swapped out comes back\<close>

lemma raw_count:
  fixes count :: int32_t
  assumes "unat count \<le> 16384" "b_wcount b = - (count * 256)" "0 \<le> sint (b_blkno b)" "sint (b_blkno b) + int (unat count) \<le> 16384"
  shows "rd_count b = int (512 * unat count)" "unat (count * 512) = 512 * unat count"
proof -
  have u: "unat (count * 256) = unat count * 256" "unat (count * 512) = 512 * unat count"
    using assms(1) by (simp_all add: unat_word_ariths)
  have c: "sint (count * 256) = int (unat count * 256)" using sint_small32 [of "count * 256"] u(1) assms(1) by simp
  moreover have "sint (- (count * 256)) = - int (unat count * 256)"
  proof -
    have "sint (- (count * 256)) = signed_take_bit 31 (- sint (count * 256))" by (simp only: sint_word_ariths) simp
    also have "\<dots> = - int (unat count * 256)"
      unfolding c using assms(1) by (intro signed_take_bit_int_eq_self) (simp_all del: of_nat_unat)
    finally show ?thesis .
  qed
  ultimately have "- sint (b_wcount b) * 2 = int (512 * unat count)" using assms(2) by simp
  then show "rd_count b = int (512 * unat count)" using assms(4) by (simp add: rd_count_def Let_def)
  show "unat (count * 512) = 512 * unat count" by (rule u(2))
qed

text \<open>A request on \<open>swbuf\<close> as \<open>swap\<close> makes it.\<close>

definition swap_request :: "dev_t \<Rightarrow> int32_t \<Rightarrow> int32_t \<Rightarrow> bool \<Rightarrow> kernel \<Rightarrow> kernel" where
  "swap_request dv blkno count rd = upd_buf swbuf (\<lambda>b. b\<lparr>b_flags := B_BUSY OR B_PHYS OR (if rd then B_READ else 0),
     b_dev := dv, b_blkno := blkno, b_wcount := - (count * 256)\<rparr>)"

definition swap_ok :: "dev_t \<Rightarrow> int32_t \<Rightarrow> int32_t \<Rightarrow> kernel \<Rightarrow> bool" where
  "swap_ok dv blkno count k \<longleftrightarrow> bdev dv k = Some \<lparr>d_strategy = RamDrv, d_tab = True\<rparr> \<and> \<not> flagged k swbuf B_BUSY
     \<and> 0 < unat count \<and> 0 \<le> sint blkno \<and> sint blkno + int (unat count) \<le> 16384"

lemma swap_flags:
  "hasf (B_BUSY OR B_PHYS OR (if rd then B_READ else 0)) B_READ = rd"
  "\<not> hasf ((B_BUSY OR B_PHYS OR (if rd then B_READ else 0)) OR B_DONE) B_ASYNC"
  "\<not> hasf ((B_BUSY OR B_PHYS OR (if rd then B_READ else 0)) OR B_DONE) B_ERROR"
  by (simp_all add: hasf_def)

lemma swap_run:
  assumes ok: "swap_ok dv blkno count k"
  defines "n \<equiv> 512 * unat count" and "b \<equiv> nat (sint blkno)"
  shows "\<exists>k'. swap dv blkno a count rd k = Ret () k' \<and> (\<not> flagged k' swbuf B_BUSY)
    \<and> bdevsw (k_bio k') = bdevsw (k_bio k) \<and> nblkdev (k_bio k') = nblkdev (k_bio k)
    \<and> ramdisk (k_bio k') = (if rd then ramdisk (k_bio k) else rd_write b n (phys_block a k) (ramdisk (k_bio k)))
    \<and> phys k' = (if rd then phys (store_phys a n (rd_read b n (ramdisk (k_bio k)) (phys_block a k)) k) else phys k)"
proof -
  have rng: "0 \<le> sint blkno" "sint blkno < 16384" "unat count \<le> 16384" "sint blkno + int (unat count) \<le> 16384"
    using ok unfolding swap_ok_def by linarith+
  let ?k1 = "swap_request dv blkno count rd k"
  let ?f = "B_BUSY OR B_PHYS OR (if rd then B_READ else 0) :: int32_t"
  define k2 where "k2 = upd_buf swbuf (\<lambda>b. b\<lparr>b_addr := phys_block a ?k1\<rparr>) ?k1"
  have pb: "phys_block a ?k1 = phys_block a k" unfolding phys_block_def swap_request_def by simp
  have b2: "b_flags (bufp k2 swbuf) = ?f" "b_blkno (bufp k2 swbuf) = blkno" "b_wcount (bufp k2 swbuf) = - (count * 256)"
    "b_addr (bufp k2 swbuf) = phys_block a k"
    unfolding k2_def pb by (simp_all add: swap_request_def)
  have r2: "ramdisk (k_bio k2) = ramdisk (k_bio k)" "phys k2 = phys k" "bdevsw (k_bio k2) = bdevsw (k_bio k)"
    "nblkdev (k_bio k2) = nblkdev (k_bio k)"
    by (simp_all add: k2_def swap_request_def)
  have cnt: "rd_count (bufp k2 swbuf) = int n" "unat (count * 512) = n"
    using raw_count [OF rng(3) b2(3)] rng(1,4) b2(2) by (simp_all add: n_def)
  define k3 where "k3 = (if rd then upd_buf swbuf (\<lambda>x. x\<lparr>b_addr := rd_read b n (ramdisk (k_bio k)) (b_addr x)\<rparr>) k2
    else upd_disk (rd_write b n (phys_block a k)) k2)"
  define k4 where "k4 = wakeup (ChBuf swbuf) (upd_buf swbuf (clear_flags B_WANTED) (upd_buf swbuf (set_flags B_DONE) (upd_buf swbuf (\<lambda>b. b\<lparr>b_resid := 0\<rparr>) k3)))"
  have f3: "b_flags (bufp k3 swbuf) = ?f" using b2(1) by (simp add: k3_def)
  have "rd_strategy swbuf k2 = iodone swbuf (upd_buf swbuf (\<lambda>b. b\<lparr>b_resid := 0\<rparr>) k3)"
    using rng b2 cnt(1) r2(1) swap_flags(1) [of rd] by (simp add: rd_strategy_def Let_def k3_def b_def)
  also have "\<dots> = k4" using f3 swap_flags(2) [of rd] by (simp add: iodone_def Let_def k4_def set_flags_def)
  finally have st: "rd_strategy swbuf k2 = k4" .
  have b4: "b_flags (bufp k4 swbuf) = (?f OR B_DONE) AND NOT B_WANTED" using f3 by (simp add: k4_def set_flags_def clear_flags_def)
  have a4: "b_addr (bufp k4 swbuf) = (if rd then rd_read b n (ramdisk (k_bio k)) (phys_block a k) else phys_block a k)"
    using b2(4) by (simp add: k4_def k3_def set_flags_def clear_flags_def)
  define k5 where "k5 = (if rd then store_phys a n (b_addr (bufp k4 swbuf)) k4 else k4)"
  have t: "raw_transfer a n (rd_strategy swbuf) ?k1 = k5"
    using st swap_flags(1) [of rd] by (simp add: raw_transfer_def Let_def k5_def k2_def swap_request_def)
  have b5: "bufp k5 swbuf = bufp k4 swbuf" by (simp add: k5_def store_phys_def bufp_def)
  have "flagged k5 swbuf B_DONE" "\<not> flagged k5 swbuf B_WANTED" "\<not> flagged k5 swbuf B_ERROR"
    using b4 b5 by (simp_all add: hasf_def)
  then have dn: "swap_done k5 = Ret () (upd_buf swbuf (clear_flags (B_BUSY OR B_WANTED)) k5)"
    by (simp add: swap_done_def Let_def clear_flags_def hasf_mask)
  have "swap dv blkno a count rd k = Ret () (upd_buf swbuf (clear_flags (B_BUSY OR B_WANTED)) k5)"
    using ok t dn cnt(2) by (simp add: swap_def swap_ok_def Let_def bdev_def swap_request_def cong: if_cong split: if_splits)
  moreover have "ramdisk (k_bio k5) = (if rd then ramdisk (k_bio k) else rd_write b n (phys_block a k) (ramdisk (k_bio k)))"
    "bdevsw (k_bio k5) = bdevsw (k_bio k)" "nblkdev (k_bio k5) = nblkdev (k_bio k)"
    using r2 by (simp_all add: k5_def store_phys_def k4_def k3_def)
  moreover have "phys k5 = (if rd then phys (store_phys a n (rd_read b n (ramdisk (k_bio k)) (phys_block a k)) k) else phys k)"
  proof -
    have "phys k4 = phys k" using r2(2) by (cases rd) (simp_all add: k4_def k3_def upd_disk_def)
    then show ?thesis using a4 by (cases rd) (simp_all add: k5_def store_phys_def fun_eq_iff)
  qed
  moreover have "\<not> flagged (upd_buf swbuf (clear_flags (B_BUSY OR B_WANTED)) k5) swbuf B_BUSY"
    by (simp add: clear_flags_def hasf_mask)
  ultimately show ?thesis by (intro exI [of _ "upd_buf swbuf (clear_flags (B_BUSY OR B_WANTED)) k5"]) simp
qed

text \<open>Reading back the blocks that were written gives the bytes that were written.\<close>

lemma rd_read_write:
  assumes "i < n"
  shows "rd_read b n (rd_write b n d dsk) e i = d i"
  using assms by (simp add: rd_read_def rd_write_def)

text \<open>When \<open>count\<close> blocks of memory are written out and, after anything
  that leaves the RAM disk, the switch table and \<^verbatim>\<open>swbuf\<close> alone (as overwriting memory does),
  read into memory at any address, both calls return, the memory there holds the bytes that
  were written, and memory outside the transfer is as it was.\<close>
lemma swap_roundtrip:
  assumes ok: "swap_ok dv blkno count k"
  shows "\<exists>k1. swap dv blkno a count False k = Ret () k1 \<and>
    (\<forall>k2. k_bio k2 = k_bio k1 \<longrightarrow> (\<exists>k3. swap dv blkno a' count True k2 = Ret () k3 \<and>
      (\<forall>x. phys k3 x = (if unat (x - a') < 512 * unat count then phys k (a + (x - a')) else phys k2 x))))"
proof -
  obtain k1 where s: "swap dv blkno a count False k = Ret () k1" and nb: "\<not> flagged k1 swbuf B_BUSY"
    and sw: "bdevsw (k_bio k1) = bdevsw (k_bio k)" "nblkdev (k_bio k1) = nblkdev (k_bio k)"
    and rd: "ramdisk (k_bio k1) = rd_write (nat (sint blkno)) (512 * unat count) (phys_block a k) (ramdisk (k_bio k))"
    using swap_run [OF ok, of a False] by (auto simp only: if_False)
  have "\<exists>k3. swap dv blkno a' count True k2 = Ret () k3 \<and>
      (\<forall>x. phys k3 x = (if unat (x - a') < 512 * unat count then phys k (a + (x - a')) else phys k2 x))"
    if e: "k_bio k2 = k_bio k1" for k2
  proof -
    have ok2: "swap_ok dv blkno count k2"
      using ok nb sw e by (simp add: swap_ok_def bdev_def bufp_def split: if_splits)
    obtain k3 where s3: "swap dv blkno a' count True k2 = Ret () k3"
      and p3: "phys k3 = phys (store_phys a' (512 * unat count)
        (rd_read (nat (sint blkno)) (512 * unat count) (ramdisk (k_bio k2)) (phys_block a' k2)) k2)"
      using swap_run [OF ok2, of a' True] by (auto simp only: if_True)
    then show ?thesis
      by (auto simp: store_phys_def e rd rd_read_write phys_block_def)
  qed
  then show ?thesis using s by blast
qed

end
