(* ===== verification/Ide.thy ===== *)
theory Ide
  imports Cache
begin

text \<open>
  The ATA driver of \<^verbatim>\<open>kernel/drivers/block/ide.c\<close>.  The disk is behind four port routines,
  the fields of a record \<open>ports\<close> over a state of the disk that the driver never sees; what a
  working disk does is the predicate \<open>ata_disk\<close>.
\<close>

record 'd ports =
  p_inb :: "uint16_t \<Rightarrow> 'd \<Rightarrow> byte \<times> 'd"
  p_outb :: "uint16_t \<Rightarrow> byte \<Rightarrow> 'd \<Rightarrow> 'd"
  p_inw :: "uint16_t \<Rightarrow> 'd \<Rightarrow> 16 word \<times> 'd"
  p_outw :: "uint16_t \<Rightarrow> 16 word \<Rightarrow> 'd \<Rightarrow> 'd"

abbreviation (input) ATA_DATA :: uint16_t where "ATA_DATA \<equiv> 0x1F0"
abbreviation (input) ATA_SECCNT :: uint16_t where "ATA_SECCNT \<equiv> 0x1F2"
abbreviation (input) ATA_LBA0 :: uint16_t where "ATA_LBA0 \<equiv> 0x1F3"
abbreviation (input) ATA_LBA1 :: uint16_t where "ATA_LBA1 \<equiv> 0x1F4"
abbreviation (input) ATA_LBA2 :: uint16_t where "ATA_LBA2 \<equiv> 0x1F5"
abbreviation (input) ATA_HDDEVSEL :: uint16_t where "ATA_HDDEVSEL \<equiv> 0x1F6"
abbreviation (input) ATA_STATUS :: uint16_t where "ATA_STATUS \<equiv> 0x1F7"
abbreviation (input) ATA_SR_BSY :: byte where "ATA_SR_BSY \<equiv> 0x80"
abbreviation (input) ATA_SR_DRQ :: byte where "ATA_SR_DRQ \<equiv> 0x08"
abbreviation (input) ATA_SR_ERR :: byte where "ATA_SR_ERR \<equiv> 0x01"
abbreviation (input) ATA_CMD_READ :: byte where "ATA_CMD_READ \<equiv> 0x20"
abbreviation (input) ATA_CMD_WRITE :: byte where "ATA_CMD_WRITE \<equiv> 0x30"
abbreviation (input) IDE_MAJOR :: nat where "IDE_MAJOR \<equiv> 1"
abbreviation (input) ATA_POLLS :: nat where "ATA_POLLS \<equiv> 100000"

text \<open>The two loops over the status register, with the number of rounds left.\<close>

primrec wait_ready :: "'d ports \<Rightarrow> nat \<Rightarrow> 'd \<Rightarrow> bool \<times> 'd" where
  "wait_ready p 0 d = (False, d)"
| "wait_ready p (Suc n) d =
     (let (st, d) = p_inb p ATA_STATUS d in if st AND ATA_SR_BSY = 0 then (True, d) else wait_ready p n d)"

primrec wait_drq :: "'d ports \<Rightarrow> nat \<Rightarrow> 'd \<Rightarrow> bool \<times> 'd" where
  "wait_drq p 0 d = (False, d)"
| "wait_drq p (Suc n) d =
     (let (st, d) = p_inb p ATA_STATUS d
      in if st AND ATA_SR_ERR \<noteq> 0 then (False, d)
         else if st AND ATA_SR_BSY = 0 \<and> st AND ATA_SR_DRQ \<noteq> 0 then (True, d)
         else wait_drq p n d)"

definition ide_wait_ready :: "'d ports \<Rightarrow> 'd \<Rightarrow> bool \<times> 'd" where
  "ide_wait_ready p = wait_ready p ATA_POLLS"

definition ide_wait_drq :: "'d ports \<Rightarrow> 'd \<Rightarrow> bool \<times> 'd" where
  "ide_wait_drq p = wait_drq p ATA_POLLS"

definition ide_select_lba :: "'d ports \<Rightarrow> uint32_t \<Rightarrow> 'd \<Rightarrow> bool \<times> 'd" where
  "ide_select_lba p lba d =
     (case ide_wait_ready p d of
        (False, d) \<Rightarrow> (False, d)
      | (True, d) \<Rightarrow>
          (let d = p_outb p ATA_HDDEVSEL (0xE0 OR (ucast (drop_bit 24 lba) AND 0x0F)) d;
               d = p_outb p ATA_SECCNT 1 d;
               d = p_outb p ATA_LBA0 (ucast lba) d;
               d = p_outb p ATA_LBA1 (ucast (drop_bit 8 lba)) d;
               d = p_outb p ATA_LBA2 (ucast (drop_bit 16 lba)) d
           in (True, d)))"

definition ide_open :: "bool \<Rightarrow> int" where
  "ide_open present = (if present then 0 else - 1)"

definition ide_close :: int where
  "ide_close = 0"

text \<open>The words of one sector, between the data port and the buffer at \<open>off\<close>.\<close>

primrec read_words :: "'d ports \<Rightarrow> nat \<Rightarrow> nat \<Rightarrow> block \<times> 'd \<Rightarrow> block \<times> 'd" where
  "read_words p at 0 s = s"
| "read_words p at (Suc n) s =
     (let (w, d) = p_inw p ATA_DATA (snd s)
      in read_words p (at + 2) n ((fst s)(at := ucast w, at + 1 := ucast (drop_bit 8 w)), d))"

primrec write_words :: "'d ports \<Rightarrow> nat \<Rightarrow> nat \<Rightarrow> block \<Rightarrow> 'd \<Rightarrow> 'd" where
  "write_words p at 0 b d = d"
| "write_words p at (Suc n) b d =
     write_words p (at + 2) n b (p_outw p ATA_DATA (ucast (b at) OR push_bit 8 (ucast (b (at + 1)))) d)"

text \<open>One round of the loop of \<^verbatim>\<open>ide_strategy\<close>; \<open>False\<close> is its \<^verbatim>\<open>break\<close> with \<^verbatim>\<open>EIO\<close>.\<close>

definition ide_sector :: "'d ports \<Rightarrow> bool \<Rightarrow> uint32_t \<Rightarrow> nat \<Rightarrow> block \<times> 'd \<Rightarrow> bool \<times> block \<times> 'd" where
  "ide_sector p rd lba off s =
     (case ide_select_lba p lba (snd s) of
        (False, d) \<Rightarrow> (False, fst s, d)
      | (True, d) \<Rightarrow>
          (case ide_wait_drq p (p_outb p ATA_STATUS (if rd then ATA_CMD_READ else ATA_CMD_WRITE) d) of
             (False, d) \<Rightarrow> (False, fst s, d)
           | (True, d) \<Rightarrow>
               (True, if rd then read_words p off 256 (fst s, d) else (fst s, write_words p off 256 (fst s) d))))"

primrec ide_sectors :: "'d ports \<Rightarrow> bool \<Rightarrow> nat \<Rightarrow> uint32_t \<Rightarrow> nat \<Rightarrow> block \<times> 'd \<Rightarrow> bool \<times> block \<times> 'd" where
  "ide_sectors p rd 0 lba off s = (True, s)"
| "ide_sectors p rd (Suc n) lba off s =
     (case ide_sector p rd lba off s of
        (False, s) \<Rightarrow> (False, s) | (True, s) \<Rightarrow> ide_sectors p rd n (lba + 1) (off + BSIZE) s)"

definition ide_count :: "buf \<Rightarrow> int" where
  "ide_count b = sint ((- b_wcount b) * 2)"

definition ide_fail :: "int8_t \<Rightarrow> bptr \<Rightarrow> kernel \<Rightarrow> kernel" where
  "ide_fail e bp = upd_buf bp (\<lambda>b. (set_flags B_ERROR b)\<lparr>b_error := e\<rparr>)"

definition ide_strategy :: "'d ports \<Rightarrow> bool \<Rightarrow> bptr \<Rightarrow> 'd \<times> kernel \<Rightarrow> int \<times> 'd \<times> kernel" where
  "ide_strategy p present bp s =
     (let d = fst s; k = snd s; b = bufp k bp; count = ide_count b
      in if \<not> present then (- 1, d, iodone bp (ide_fail ENXIO bp k))
         else if count \<le> 0 \<or> count mod int BSIZE \<noteq> 0 then (- 1, d, iodone bp (ide_fail EINVAL bp k))
         else
           (let (ok, a, d) = ide_sectors p (flagged k bp B_READ) (nat (count div int BSIZE)) (b_blkno b) 0 (b_addr b, d);
                k = upd_buf bp (\<lambda>b. b\<lparr>b_addr := a\<rparr>) k;
                k = (if ok then k else ide_fail EIO bp k)
            in (0, d, iodone bp (upd_buf bp (\<lambda>b. b\<lparr>b_resid := 0\<rparr>) k))))"

text \<open>\<^verbatim>\<open>ide_init\<close>: the switch table of block devices and its length are \<open>sw\<close> and \<open>n\<close>.\<close>

definition ide_init :: "'d ports \<Rightarrow> 'e \<Rightarrow> 'd \<Rightarrow> 'e list \<times> nat \<Rightarrow> bool \<times> 'd \<times> 'e list \<times> nat" where
  "ide_init p ide_bdevsw d t =
     (let (st, d) = p_inb p ATA_STATUS d
      in if st = 0 \<or> st = 0xFF then (False, d, t)
         else (True, d, (fst t)[IDE_MAJOR := ide_bdevsw], if snd t \<le> IDE_MAJOR then IDE_MAJOR + 1 else snd t))"

subsection \<open>What a working disk does\<close>

text \<open>The registers of the disk that the driver writes, where a transfer stands (the number of
  words moved), and the sectors.\<close>

datatype ata_phase = AtaIdle | AtaIn nat | AtaOut nat

record ata =
  a_sel :: byte
  a_cnt :: byte
  a_lba0 :: byte
  a_lba1 :: byte
  a_lba2 :: byte
  a_phase :: ata_phase
  a_sectors :: "nat \<Rightarrow> block"

definition ata_lba :: "ata \<Rightarrow> nat" where
  "ata_lba a = unat (a_lba0 a) + 256 * unat (a_lba1 a) + 65536 * unat (a_lba2 a) + 16777216 * (unat (a_sel a) mod 16)"

definition ata_set :: "uint16_t \<Rightarrow> byte \<Rightarrow> ata \<Rightarrow> ata" where
  "ata_set port x a =
     (if port = ATA_HDDEVSEL then a\<lparr>a_sel := x\<rparr> else if port = ATA_SECCNT then a\<lparr>a_cnt := x\<rparr>
      else if port = ATA_LBA0 then a\<lparr>a_lba0 := x\<rparr> else if port = ATA_LBA1 then a\<lparr>a_lba1 := x\<rparr>
      else if port = ATA_LBA2 then a\<lparr>a_lba2 := x\<rparr> else a)"

definition ata_next :: "(nat \<Rightarrow> ata_phase) \<Rightarrow> nat \<Rightarrow> ata_phase" where
  "ata_next f i = (if i < 255 then f (Suc i) else AtaIdle)"

definition word_at :: "block \<Rightarrow> nat \<Rightarrow> 16 word" where
  "word_at b i = ucast (b (2 * i)) OR push_bit 8 (ucast (b (2 * i + 1)))"

definition put_word :: "nat \<Rightarrow> 16 word \<Rightarrow> block \<Rightarrow> block" where
  "put_word i w b = b(2 * i := ucast w, 2 * i + 1 := ucast (drop_bit 8 w))"

text \<open>The documented behaviour of a disk of \<open>N\<close> sectors that answers in time: \<open>v\<close> is what its
  state means, \<open>late\<close> the number of status reads that will still find it busy, \<open>ok\<close> the states
  it can be in.  Nothing is said of a command given while it is busy or in a transfer, nor of a
  sector it does not have.\<close>

definition ata_status :: "'d ports \<Rightarrow> ('d \<Rightarrow> ata) \<Rightarrow> ('d \<Rightarrow> nat) \<Rightarrow> ('d \<Rightarrow> bool) \<Rightarrow> bool" where
  "ata_status p v late ok \<longleftrightarrow> (\<forall>d. ok d \<longrightarrow> (\<exists>st d'. p_inb p ATA_STATUS d = (st, d') \<and> ok d' \<and> v d' = v d
     \<and> late d' = late d - 1 \<and> st AND ATA_SR_ERR = 0 \<and> (st AND ATA_SR_BSY = 0 \<longleftrightarrow> late d = 0)
     \<and> (late d = 0 \<longrightarrow> (st AND ATA_SR_DRQ = 0 \<longleftrightarrow> a_phase (v d) = AtaIdle))))"

definition ata_registers :: "'d ports \<Rightarrow> ('d \<Rightarrow> ata) \<Rightarrow> ('d \<Rightarrow> nat) \<Rightarrow> ('d \<Rightarrow> bool) \<Rightarrow> bool" where
  "ata_registers p v late ok \<longleftrightarrow>
     (\<forall>d port x. ok d \<and> late d = 0 \<and> a_phase (v d) = AtaIdle
        \<and> port \<in> {ATA_HDDEVSEL, ATA_SECCNT, ATA_LBA0, ATA_LBA1, ATA_LBA2} \<longrightarrow>
      (let d' = p_outb p port x d in ok d' \<and> late d' = 0 \<and> v d' = ata_set port x (v d)))"

definition ata_commands :: "'d ports \<Rightarrow> ('d \<Rightarrow> ata) \<Rightarrow> ('d \<Rightarrow> nat) \<Rightarrow> ('d \<Rightarrow> bool) \<Rightarrow> nat \<Rightarrow> bool" where
  "ata_commands p v late ok N \<longleftrightarrow>
     (\<forall>d. ok d \<and> late d = 0 \<and> a_phase (v d) = AtaIdle \<and> a_cnt (v d) = 1 \<and> a_sel (v d) AND 0xF0 = 0xE0
        \<and> ata_lba (v d) < N \<longrightarrow>
      (\<forall>(c, ph) \<in> {(ATA_CMD_READ, AtaIn 0), (ATA_CMD_WRITE, AtaOut 0)}.
        let d' = p_outb p ATA_STATUS c d in ok d' \<and> late d' < ATA_POLLS \<and> v d' = (v d)\<lparr>a_phase := ph\<rparr>))"

definition ata_data :: "'d ports \<Rightarrow> ('d \<Rightarrow> ata) \<Rightarrow> ('d \<Rightarrow> nat) \<Rightarrow> ('d \<Rightarrow> bool) \<Rightarrow> bool" where
  "ata_data p v late ok \<longleftrightarrow>
     (\<forall>d i. ok d \<and> late d = 0 \<and> a_phase (v d) = AtaIn i \<longrightarrow>
        (let (w, d') = p_inw p ATA_DATA d
         in w = word_at (a_sectors (v d) (ata_lba (v d))) i \<and> ok d' \<and> v d' = (v d)\<lparr>a_phase := ata_next AtaIn i\<rparr>
            \<and> late d' < ATA_POLLS \<and> (i < 255 \<longrightarrow> late d' = 0)))
   \<and> (\<forall>d i w. ok d \<and> late d = 0 \<and> a_phase (v d) = AtaOut i \<longrightarrow>
        (let d' = p_outw p ATA_DATA w d
         in ok d' \<and> v d' = (v d)\<lparr>a_phase := ata_next AtaOut i,
              a_sectors := (a_sectors (v d))(ata_lba (v d) := put_word i w (a_sectors (v d) (ata_lba (v d))))\<rparr>
            \<and> late d' < ATA_POLLS \<and> (i < 255 \<longrightarrow> late d' = 0)))"

definition ata_disk :: "'d ports \<Rightarrow> ('d \<Rightarrow> ata) \<Rightarrow> ('d \<Rightarrow> nat) \<Rightarrow> ('d \<Rightarrow> bool) \<Rightarrow> nat \<Rightarrow> bool" where
  "ata_disk p v late ok N \<longleftrightarrow> ata_status p v late ok \<and> ata_registers p v late ok \<and> ata_commands p v late ok N
     \<and> ata_data p v late ok \<and> N \<le> 2 ^ 28"

text \<open>Between two transfers.\<close>

definition at_rest :: "('d \<Rightarrow> ata) \<Rightarrow> ('d \<Rightarrow> nat) \<Rightarrow> ('d \<Rightarrow> bool) \<Rightarrow> 'd \<Rightarrow> bool" where
  "at_rest v late ok d \<longleftrightarrow> ok d \<and> late d < ATA_POLLS \<and> a_phase (v d) = AtaIdle"

subsection \<open>One sector\<close>

lemma wait_ready_ok:
  assumes "ata_status p v late ok" "ok d" "late d < n"
  shows "\<exists>d'. wait_ready p n d = (True, d') \<and> ok d' \<and> late d' = 0 \<and> v d' = v d"
  using assms(2,3)
proof (induction n arbitrary: d)
  case (Suc n)
  obtain st d' where s: "p_inb p ATA_STATUS d = (st, d')" "ok d'" "v d' = v d" "late d' = late d - 1"
    "st AND ATA_SR_BSY = 0 \<longleftrightarrow> late d = 0"
    using assms(1) Suc.prems(1) unfolding ata_status_def by blast
  show ?case
  proof (cases "late d = 0")
    case True
    then show ?thesis using s by simp
  next
    case False
    then show ?thesis using s Suc.IH [of d'] Suc.prems(2) by simp
  qed
qed simp

lemma wait_drq_ok:
  assumes "ata_status p v late ok" "ok d" "late d < n" "a_phase (v d) \<noteq> AtaIdle"
  shows "\<exists>d'. wait_drq p n d = (True, d') \<and> ok d' \<and> late d' = 0 \<and> v d' = v d"
  using assms(2-4)
proof (induction n arbitrary: d)
  case (Suc n)
  obtain st d' where s: "p_inb p ATA_STATUS d = (st, d')" "ok d'" "v d' = v d" "late d' = late d - 1"
    "st AND ATA_SR_ERR = 0" "st AND ATA_SR_BSY = 0 \<longleftrightarrow> late d = 0"
    "late d = 0 \<longrightarrow> (st AND ATA_SR_DRQ = 0 \<longleftrightarrow> a_phase (v d) = AtaIdle)"
    using assms(1) Suc.prems(1) unfolding ata_status_def by blast
  show ?case
  proof (cases "late d = 0")
    case True
    then show ?thesis using s Suc.prems(3) by simp
  next
    case False
    then show ?thesis using s Suc.IH [of d'] Suc.prems(2,3) by simp
  qed
qed simp

lemma base256:
  "(l :: nat) = r0 + 256 * a \<Longrightarrow> a = r1 + 256 * b \<Longrightarrow> b = r2 + 256 * c
    \<Longrightarrow> r0 + 256 * r1 + 65536 * r2 + 16777216 * c = l"
  by simp

lemma select_bytes:
  fixes lba :: uint32_t
  assumes "unat lba < 2 ^ 28"
  shows "unat (ucast lba :: byte) + 256 * unat (ucast (drop_bit 8 lba) :: byte)
    + 65536 * unat (ucast (drop_bit 16 lba) :: byte)
    + 16777216 * (unat (0xE0 OR (ucast (drop_bit 24 lba) AND 0x0F) :: byte) mod 16) = unat lba"
proof -
  define L where "L = unat lba"
  have b: "unat (ucast (drop_bit n lba) :: byte) = L div 2 ^ n mod 256" for n
  proof -
    have "unat (drop_bit n lba) = drop_bit n (unat lba)"
      unfolding unsigned_drop_bit_eq
      by (metis take_bit_length_eq unsigned_take_bit_eq le_refl)
    then have "unat (drop_bit n lba) = L div 2 ^ n" unfolding L_def by (simp only: drop_bit_eq_div)
    then show ?thesis unfolding unsigned_ucast_eq take_bit_eq_mod by simp
  qed
  have "unat (0xE0 OR (y AND 0x0F) :: byte) mod 16 = unat y mod 16" for y :: byte
  proof -
    have "unat (0xE0 OR (y AND 0x0F) :: byte) mod 16 = unat (take_bit 4 (0xE0 OR (y AND 0x0F)) :: byte)"
      unfolding unsigned_take_bit_eq by (simp add: take_bit_eq_mod)
    also have "take_bit 4 (0xE0 OR (y AND 0x0F)) = take_bit 4 y"
    proof -
      have m: "(0x0F :: byte) = mask 4" by code_simp
      have "take_bit 4 (0xE0 :: byte) = 0" by code_simp
      then show ?thesis unfolding m by (simp add: take_bit_eq_mask and.assoc bit.conj_disj_distrib2)
    qed
    finally show ?thesis unfolding unsigned_take_bit_eq by (simp add: take_bit_eq_mod)
  qed
  moreover have "unat (ucast lba :: byte) = L mod 256" using b [of 0] by simp
  ultimately have "unat (ucast lba :: byte) + 256 * unat (ucast (drop_bit 8 lba) :: byte)
    + 65536 * unat (ucast (drop_bit 16 lba) :: byte)
    + 16777216 * (unat (0xE0 OR (ucast (drop_bit 24 lba) AND 0x0F) :: byte) mod 16)
      = L mod 256 + 256 * (L div 256 mod 256) + 65536 * (L div 65536 mod 256) + 16777216 * (L div 16777216 mod 256 mod 16)"
    unfolding b using b [of 24] by simp
  also have "L div 16777216 mod 256 mod 16 = L div 16777216" using assms by (simp add: L_def [symmetric] less_mult_imp_div_less)
  also have "L mod 256 + 256 * (L div 256 mod 256) + 65536 * (L div 65536 mod 256) + 16777216 * (L div 16777216) = L"
  proof -
    have "L div 65536 = L div 256 div 256" "L div 16777216 = L div 256 div 256 div 256"
      by (simp_all add: div_mult2_eq [symmetric])
    moreover have "L = L mod 256 + 256 * (L div 256)" "L div 256 = L div 256 mod 256 + 256 * (L div 256 div 256)"
      "L div 256 div 256 = L div 256 div 256 mod 256 + 256 * (L div 256 div 256 div 256)"
      by (simp_all only: mod_mult_div_eq)
    ultimately show ?thesis using base256 by metis
  qed
  finally show ?thesis unfolding L_def .
qed

lemma select_ok:
  assumes disk: "ata_disk p v late ok N" and d: "at_rest v late ok d" and lba: "unat lba < N"
  shows "\<exists>d'. ide_select_lba p lba d = (True, d') \<and> ok d' \<and> late d' = 0 \<and> a_phase (v d') = AtaIdle
    \<and> a_cnt (v d') = 1 \<and> a_sel (v d') AND 0xF0 = 0xE0 \<and> ata_lba (v d') = unat lba \<and> a_sectors (v d') = a_sectors (v d)"
proof -
  obtain d1 where d1: "ide_wait_ready p d = (True, d1)" "ok d1" "late d1 = 0" "v d1 = v d"
    using wait_ready_ok [of p v late ok d ATA_POLLS] disk d unfolding ata_disk_def at_rest_def ide_wait_ready_def by blast
  have set_reg: "ok (p_outb p port x e) \<and> late (p_outb p port x e) = 0 \<and> v (p_outb p port x e) = ata_set port x (v e)"
    if "ok e" "late e = 0" "a_phase (v e) = AtaIdle"
      "port \<in> {ATA_HDDEVSEL, ATA_SECCNT, ATA_LBA0, ATA_LBA1, ATA_LBA2}" for e port x
    using disk that(1-3) ata_registers_def [of p v late ok, THEN iffD1, rule_format, of e port x] that(4)
    unfolding ata_disk_def Let_def by simp
  have ph: "a_phase (ata_set port x a) = a_phase a" for port x a by (simp add: ata_set_def)
  define d2 where "d2 = p_outb p ATA_HDDEVSEL (0xE0 OR (ucast (drop_bit 24 lba) AND 0x0F)) d1"
  define d3 where "d3 = p_outb p ATA_SECCNT 1 d2"
  define d4 where "d4 = p_outb p ATA_LBA0 (ucast lba) d3"
  define d5 where "d5 = p_outb p ATA_LBA1 (ucast (drop_bit 8 lba)) d4"
  define d6 where "d6 = p_outb p ATA_LBA2 (ucast (drop_bit 16 lba)) d5"
  have run: "ide_select_lba p lba d = (True, d6)"
    using d1(1) by (simp add: ide_select_lba_def Let_def d6_def d5_def d4_def d3_def d2_def)
  have idle1: "a_phase (v d1) = AtaIdle" using d d1(4) by (simp add: at_rest_def)
  have 2: "ok d2" "late d2 = 0" "v d2 = ata_set ATA_HDDEVSEL (0xE0 OR (ucast (drop_bit 24 lba) AND 0x0F)) (v d1)"
    using set_reg [OF d1(2,3) idle1, of ATA_HDDEVSEL] by (simp_all add: d2_def)
  have 3: "ok d3" "late d3 = 0" "v d3 = ata_set ATA_SECCNT 1 (v d2)"
    using set_reg [OF 2(1,2), of ATA_SECCNT] idle1 2(3) by (simp_all add: d3_def ph)
  have 4: "ok d4" "late d4 = 0" "v d4 = ata_set ATA_LBA0 (ucast lba) (v d3)"
    using set_reg [OF 3(1,2), of ATA_LBA0] idle1 2(3) 3(3) by (simp_all add: d4_def ph)
  have 5: "ok d5" "late d5 = 0" "v d5 = ata_set ATA_LBA1 (ucast (drop_bit 8 lba)) (v d4)"
    using set_reg [OF 4(1,2), of ATA_LBA1] idle1 2(3) 3(3) 4(3) by (simp_all add: d5_def ph)
  have 6: "ok d6" "late d6 = 0" "v d6 = ata_set ATA_LBA2 (ucast (drop_bit 16 lba)) (v d5)"
    using set_reg [OF 5(1,2), of ATA_LBA2] idle1 2(3) 3(3) 4(3) 5(3) by (simp_all add: d6_def ph)
  have v6: "v d6 = (v d)\<lparr>a_sel := 0xE0 OR (ucast (drop_bit 24 lba) AND 0x0F), a_cnt := 1, a_lba0 := ucast lba,
      a_lba1 := ucast (drop_bit 8 lba), a_lba2 := ucast (drop_bit 16 lba)\<rparr>"
    unfolding 6(3) 5(3) 4(3) 3(3) 2(3) d1(4) by (simp add: ata_set_def)
  have sel: "(0xE0 OR (y AND 0x0F)) AND 0xF0 = (0xE0 :: byte)" for y
    by (rule bit_word_eqI) (auto simp: bit_simps numeral_eq_Suc less_Suc_eq)
  have "unat lba < 2 ^ 28" using lba disk unfolding ata_disk_def by linarith
  from select_bytes [OF this] have "ata_lba (v d6) = unat lba" unfolding v6 ata_lba_def by simp
  moreover have "a_sel (v d6) AND 0xF0 = 0xE0" unfolding v6 using sel by simp
  ultimately show ?thesis using run 6(1,2) d by (simp add: v6 at_rest_def)
qed

lemma word_bytes:
  "(ucast (word_at b i) :: byte) = b (2 * i)" "(ucast (drop_bit 8 (word_at b i)) :: byte) = b (2 * i + 1)"
  unfolding word_at_def by (rule bit_word_eqI; auto simp: bit_simps dest: bit_imp_le_length)+

lemma put_word_at: "put_word i (word_at b i) b' = b'(2 * i := b (2 * i), 2 * i + 1 := b (2 * i + 1))"
  unfolding put_word_def word_bytes by (rule refl)

lemma phase_idle: "x\<lparr>a_phase := AtaIdle\<rparr> = x \<longleftrightarrow> a_phase x = AtaIdle"
  by (metis ata.select_convs(6) ata.surjective ata.update_convs(6))

lemma data_in:
  assumes "ata_data p v late ok" "ok d" "late d = 0" "a_phase (v d) = AtaIn i"
  obtains w d' where "p_inw p ATA_DATA d = (w, d')" "w = word_at (a_sectors (v d) (ata_lba (v d))) i" "ok d'"
    "v d' = (v d)\<lparr>a_phase := ata_next AtaIn i\<rparr>" "late d' < ATA_POLLS" "i < 255 \<longrightarrow> late d' = 0"
proof -
  obtain w d' where w: "p_inw p ATA_DATA d = (w, d')" by (cases "p_inw p ATA_DATA d")
  have "case p_inw p ATA_DATA d of (w, d') \<Rightarrow> w = word_at (a_sectors (v d) (ata_lba (v d))) i \<and> ok d'
      \<and> v d' = (v d)\<lparr>a_phase := ata_next AtaIn i\<rparr> \<and> late d' < ATA_POLLS \<and> (i < 255 \<longrightarrow> late d' = 0)"
    by (rule assms(1) [unfolded ata_data_def Let_def, THEN conjunct1, rule_format]) (intro conjI assms(2-4))
  then show ?thesis using w that [of w d'] by simp
qed

lemma data_out:
  assumes "ata_data p v late ok" "ok d" "late d = 0" "a_phase (v d) = AtaOut i"
  shows "ok (p_outw p ATA_DATA w d)" "late (p_outw p ATA_DATA w d) < ATA_POLLS"
    "i < 255 \<longrightarrow> late (p_outw p ATA_DATA w d) = 0"
    "v (p_outw p ATA_DATA w d) = (v d)\<lparr>a_phase := ata_next AtaOut i,
       a_sectors := (a_sectors (v d))(ata_lba (v d) := put_word i w (a_sectors (v d) (ata_lba (v d))))\<rparr>"
  using assms unfolding ata_data_def by (simp_all add: Let_def)

text \<open>The last \<open>n\<close> words of a sector are read: those before them have gone to \<open>at\<close>.\<close>

lemma read_words_ok:
  assumes data: "ata_data p v late ok" and n: "0 < n" "n \<le> 256"
    and d: "ok d" "late d = 0" "a_phase (v d) = AtaIn (256 - n)"
  shows "\<exists>d'. read_words p at n (b, d)
      = ((\<lambda>i. if at \<le> i \<and> i < at + 2 * n then a_sectors (v d) (ata_lba (v d)) (i - at + 2 * (256 - n)) else b i), d')
    \<and> ok d' \<and> late d' < ATA_POLLS \<and> v d' = (v d)\<lparr>a_phase := AtaIdle\<rparr>"
  using n d
proof (induction n arbitrary: d at b)
  case (Suc n)
  let ?s = "a_sectors (v d) (ata_lba (v d))" and ?i = "256 - Suc n"
  obtain w d1 where w: "p_inw p ATA_DATA d = (w, d1)" "w = word_at ?s ?i" "ok d1"
    "v d1 = (v d)\<lparr>a_phase := ata_next AtaIn ?i\<rparr>" "late d1 < ATA_POLLS" "?i < 255 \<longrightarrow> late d1 = 0"
    using data_in [OF data Suc.prems(3-5)] by blast
  let ?b = "b(at := ?s (2 * ?i), Suc at := ?s (2 * ?i + 1))"
  have run: "read_words p at (Suc n) (b, d) = read_words p (at + 2) n (?b, d1)"
    using w(1) by (simp add: w(2) word_bytes)
  show ?case
  proof (cases "n = 0")
    case True
    have "(\<lambda>i. if at \<le> i \<and> i < at + 2 * Suc n then ?s (i - at + 2 * ?i) else b i) = ?b"
      using True by (auto simp: fun_eq_iff less_Suc_eq)
    then show ?thesis using w run True by (simp add: ata_next_def)
  next
    case False
    have "ata_next AtaIn ?i = AtaIn (256 - n)" "?i < 255" using False Suc.prems(2) by (auto simp: ata_next_def Suc_diff_Suc)
    then have v1: "v d1 = (v d)\<lparr>a_phase := AtaIn (256 - n)\<rparr>" "late d1 = 0" using w by simp_all
    have eq: "a_sectors (v d1) (ata_lba (v d1)) = ?s" using v1 by (simp add: ata_lba_def)
    have n: "0 < n" "n \<le> 256" and ph: "a_phase (v d1) = AtaIn (256 - n)" using False Suc.prems(2) v1(1) by simp_all
    obtain d' where d': "read_words p (at + 2) n (?b, d1)
        = ((\<lambda>i. if at + 2 \<le> i \<and> i < at + 2 + 2 * n then ?s (i - (at + 2) + 2 * (256 - n)) else ?b i), d')"
      "ok d'" "late d' < ATA_POLLS" "v d' = (v d1)\<lparr>a_phase := AtaIdle\<rparr>"
      using Suc.IH [OF n w(3) v1(2) ph, of "at + 2" ?b, unfolded eq] by blast
    have "(\<lambda>i. if at \<le> i \<and> i < at + 2 * Suc n then ?s (i - at + 2 * ?i) else b i)
        = (\<lambda>i. if at + 2 \<le> i \<and> i < at + 2 + 2 * n then ?s (i - (at + 2) + 2 * (256 - n)) else ?b i)"
    proof
      fix i
      have "i - (at + 2) + 2 * (256 - n) = i - at + 2 * ?i" if "at + 2 \<le> i" using that Suc.prems(2) by simp
      then show "(if at \<le> i \<and> i < at + 2 * Suc n then ?s (i - at + 2 * ?i) else b i)
        = (if at + 2 \<le> i \<and> i < at + 2 + 2 * n then ?s (i - (at + 2) + 2 * (256 - n)) else ?b i)"
        by (cases "at + 2 \<le> i") (auto simp: le_Suc_eq)
    qed
    then show ?thesis using run d' v1 by simp
  qed
qed simp

lemma ata_upd: "a\<lparr>a_phase := x, a_sectors := y, a_phase := x', a_sectors := y'\<rparr> = a\<lparr>a_phase := x', a_sectors := y'\<rparr>"
  "a_sectors (a\<lparr>a_phase := x, a_sectors := y\<rparr>) = y"
  by simp_all

lemma cut_word:
  fixes m N at :: nat
  assumes "m + 2 \<le> N"
  shows "(\<lambda>j. if m \<le> j \<and> j < N then b (at + (j - m)) else s j)
    = (\<lambda>j. if m + 2 \<le> j \<and> j < N then b (at + 2 + (j - (m + 2))) else (s(m := b at, m + 1 := b (at + 1))) j)"
proof
  fix j :: nat
  consider "j < m" | "j = m" | "j = m + 1" | "m + 2 \<le> j" by linarith
  then show "(if m \<le> j \<and> j < N then b (at + (j - m)) else s j)
    = (if m + 2 \<le> j \<and> j < N then b (at + 2 + (j - (m + 2))) else (s(m := b at, m + 1 := b (at + 1))) j)"
  proof cases
    case 4
    then have "at + 2 + (j - (m + 2)) = at + (j - m)" by linarith
    with 4 show ?thesis by simp
  qed (use assms in auto)
qed

lemma write_words_ok:
  assumes data: "ata_data p v late ok" and n: "0 < n" "n \<le> 256"
    and d: "ok d" "late d = 0" "a_phase (v d) = AtaOut (256 - n)"
  shows "ok (write_words p at n b d) \<and> late (write_words p at n b d) < ATA_POLLS
    \<and> v (write_words p at n b d) = (v d)\<lparr>a_phase := AtaIdle, a_sectors := (a_sectors (v d))(ata_lba (v d) :=
        (\<lambda>j. if 2 * (256 - n) \<le> j \<and> j < 512 then b (at + (j - 2 * (256 - n))) else a_sectors (v d) (ata_lba (v d)) j))\<rparr>"
  using n d
proof (induction n arbitrary: d at)
  case (Suc n)
  let ?i = "256 - Suc n" and ?A = "ata_lba (v d)"
  let ?w = "ucast (b at) OR push_bit 8 (ucast (b (at + 1))) :: 16 word"
  let ?s = "a_sectors (v d) ?A"
  define d1 where "d1 = p_outw p ATA_DATA ?w d"
  have w: "ok d1" "late d1 < ATA_POLLS" "?i < 255 \<longrightarrow> late d1 = 0"
    "v d1 = (v d)\<lparr>a_phase := ata_next AtaOut ?i, a_sectors := (a_sectors (v d))(?A := put_word ?i ?w ?s)\<rparr>"
    unfolding d1_def by (rule data_out [OF data Suc.prems(3-5)])+
  have pw: "put_word ?i ?w ?s = ?s(2 * ?i := b at, 2 * ?i + 1 := b (at + 1))"
    unfolding put_word_def by (intro arg_cong2 [where f = "\<lambda>x y. ?s(2 * ?i := x, 2 * ?i + 1 := y)"] bit_word_eqI)
      (auto simp: bit_simps dest: bit_imp_le_length)
  have run: "write_words p at (Suc n) b d = write_words p (at + 2) n b d1" by (simp add: d1_def)
  show ?case
  proof (cases "n = 0")
    case True
    have eq1: "(\<lambda>j. if 2 * ?i \<le> j \<and> j < 512 then b (at + (j - 2 * ?i)) else ?s j) = ?s(2 * ?i := b at, 2 * ?i + 1 := b (at + 1))"
    proof
      fix j :: nat
      consider "j = 510" | "j = 511" | "\<not> (510 \<le> j \<and> j < 512)" by linarith
      then show "(if 2 * ?i \<le> j \<and> j < 512 then b (at + (j - 2 * ?i)) else ?s j) = (?s(2 * ?i := b at, 2 * ?i + 1 := b (at + 1))) j"
        using True by cases auto
    qed
    show ?thesis unfolding eq1 run using w pw True by (simp add: ata_next_def fun_upd_def cong: if_cong)
  next
    case False
    have i: "ata_next AtaOut ?i = AtaOut (256 - n)" "?i < 255" using False Suc.prems(2) by (auto simp: ata_next_def Suc_diff_Suc)
    then have v1: "v d1 = (v d)\<lparr>a_phase := AtaOut (256 - n), a_sectors := (a_sectors (v d))(?A := put_word ?i ?w ?s)\<rparr>"
      "late d1 = 0" using w by simp_all
    have n: "0 < n" "n \<le> 256" and ph: "a_phase (v d1) = AtaOut (256 - n)" using False Suc.prems(2) v1(1) by simp_all
    have A: "ata_lba (v d1) = ?A" "a_sectors (v d1) ?A = put_word ?i ?w ?s" using v1(1) by (simp_all add: ata_lba_def)
    have n2: "2 * (256 - n) = 2 * ?i + 2" using Suc.prems(2) by linarith
    have eq: "(\<lambda>j. if 2 * ?i \<le> j \<and> j < 512 then b (at + (j - 2 * ?i)) else ?s j)
        = (\<lambda>j. if 2 * (256 - n) \<le> j \<and> j < 512 then b (at + 2 + (j - 2 * (256 - n))) else put_word ?i ?w ?s j)"
      unfolding pw n2 by (rule cut_word) (use i(2) in linarith)
    note ih = Suc.IH [OF n w(1) v1(2) ph, of "at + 2", unfolded A]
    have "v (write_words p (at + 2) n b d1) = (v d)\<lparr>a_phase := AtaIdle, a_sectors := (a_sectors (v d))(?A :=
        (\<lambda>j. if 2 * (256 - n) \<le> j \<and> j < 512 then b (at + 2 + (j - 2 * (256 - n))) else put_word ?i ?w ?s j))\<rparr>"
      unfolding ih [THEN conjunct2, THEN conjunct2] v1(1) ata_upd fun_upd_upd by (rule refl)
    then show ?thesis unfolding run eq using ih by blast
  qed
qed simp

subsection \<open>The transfer\<close>

lemma sector_read:
  assumes disk: "ata_disk p v late ok N" and d: "at_rest v late ok d" and lba: "unat lba < N"
  shows "\<exists>d'. ide_sector p True lba off (b, d)
      = (True, (\<lambda>i. if off \<le> i \<and> i < off + BSIZE then a_sectors (v d) (unat lba) (i - off) else b i), d')
    \<and> at_rest v late ok d' \<and> a_sectors (v d') = a_sectors (v d)"
proof -
  have laws: "ata_status p v late ok" "ata_commands p v late ok N" "ata_data p v late ok"
    using disk by (simp_all add: ata_disk_def)
  obtain d1 where d1: "ide_select_lba p lba d = (True, d1)" "ok d1" "late d1 = 0" "a_phase (v d1) = AtaIdle" "a_cnt (v d1) = 1"
    "a_sel (v d1) AND 0xF0 = 0xE0" "ata_lba (v d1) = unat lba" "a_sectors (v d1) = a_sectors (v d)"
    using select_ok [OF disk d lba] by blast
  let ?d2 = "p_outb p ATA_STATUS ATA_CMD_READ d1"
  have d2: "ok ?d2" "late ?d2 < ATA_POLLS" "v ?d2 = (v d1)\<lparr>a_phase := AtaIn 0\<rparr>"
    using laws(2) d1(2-7) lba unfolding ata_commands_def Let_def by auto
  obtain d3 where d3: "ide_wait_drq p ?d2 = (True, d3)" "ok d3" "late d3 = 0" "v d3 = (v d1)\<lparr>a_phase := AtaIn 0\<rparr>"
    using wait_drq_ok [OF laws(1) d2(1,2)] d2(3) unfolding ide_wait_drq_def by auto
  obtain d4 where d4: "read_words p off 256 (b, d3)
      = ((\<lambda>i. if off \<le> i \<and> i < off + 2 * 256 then a_sectors (v d3) (ata_lba (v d3)) (i - off + 2 * (256 - 256)) else b i), d4)"
    "ok d4" "late d4 < ATA_POLLS" "v d4 = (v d3)\<lparr>a_phase := AtaIdle\<rparr>"
    using read_words_ok [OF laws(3) _ _ d3(2,3), of 256 off b] d3(4) by auto
  have "a_sectors (v d3) (ata_lba (v d3)) = a_sectors (v d) (unat lba)" using d1(7,8) d3(4) by (simp add: ata_lba_def)
  then show ?thesis
    using d1(1,8) d3(1,4) d4 by (intro exI [of _ d4]) (simp add: ide_sector_def at_rest_def ata_lba_def cong: if_cong)
qed

lemma sector_write:
  assumes disk: "ata_disk p v late ok N" and d: "at_rest v late ok d" and lba: "unat lba < N"
  shows "\<exists>d'. ide_sector p False lba off (b, d) = (True, b, d') \<and> at_rest v late ok d'
    \<and> a_sectors (v d') = (a_sectors (v d))(unat lba := (\<lambda>j. if j < BSIZE then b (off + j) else a_sectors (v d) (unat lba) j))"
proof -
  have laws: "ata_status p v late ok" "ata_commands p v late ok N" "ata_data p v late ok"
    using disk by (simp_all add: ata_disk_def)
  obtain d1 where d1: "ide_select_lba p lba d = (True, d1)" "ok d1" "late d1 = 0" "a_phase (v d1) = AtaIdle" "a_cnt (v d1) = 1"
    "a_sel (v d1) AND 0xF0 = 0xE0" "ata_lba (v d1) = unat lba" "a_sectors (v d1) = a_sectors (v d)"
    using select_ok [OF disk d lba] by blast
  let ?d2 = "p_outb p ATA_STATUS ATA_CMD_WRITE d1"
  have d2: "ok ?d2" "late ?d2 < ATA_POLLS" "v ?d2 = (v d1)\<lparr>a_phase := AtaOut 0\<rparr>"
    using laws(2) d1(2-7) lba unfolding ata_commands_def Let_def by auto
  obtain d3 where d3: "ide_wait_drq p ?d2 = (True, d3)" "ok d3" "late d3 = 0" "v d3 = (v d1)\<lparr>a_phase := AtaOut 0\<rparr>"
    using wait_drq_ok [OF laws(1) d2(1,2)] d2(3) unfolding ide_wait_drq_def by auto
  let ?d4 = "write_words p off 256 b d3"
  have ph3: "a_phase (v d3) = AtaOut (256 - 256)" using d3(4) by simp
  have d4: "ok ?d4" "late ?d4 < ATA_POLLS" "v ?d4 = (v d3)\<lparr>a_phase := AtaIdle, a_sectors := (a_sectors (v d3))(ata_lba (v d3) :=
        (\<lambda>j. if 2 * (256 - 256) \<le> j \<and> j < 512 then b (off + (j - 2 * (256 - 256))) else a_sectors (v d3) (ata_lba (v d3)) j))\<rparr>"
    using write_words_ok [OF laws(3) _ _ d3(2,3) ph3, of off b] by simp_all
  have "a_sectors (v d3) = a_sectors (v d)" "ata_lba (v d3) = unat lba" using d1(7,8) d3(4) by (simp_all add: ata_lba_def)
  then have "a_sectors (v ?d4) = (a_sectors (v d))(unat lba := (\<lambda>j. if j < BSIZE then b (off + j) else a_sectors (v d) (unat lba) j))"
    "a_phase (v ?d4) = AtaIdle"
    unfolding d4(3) by (simp_all cong: if_cong)
  then show ?thesis
    using d1(1) d3(1) d4(1,2) by (intro exI [of _ ?d4]) (simp add: ide_sector_def at_rest_def)
qed

text \<open>All sectors: the disk and the buffer end as the RAM disk and its buffer do.\<close>

lemma rd_write_step:
  assumes "s' = s(l := (\<lambda>j. if j < BSIZE then b (off + j) else s l j))"
  shows "rd_write (Suc l) (n * BSIZE) (\<lambda>i. b (off + BSIZE + i)) s' = rd_write l (Suc n * BSIZE) (\<lambda>i. b (off + i)) s"
proof (intro ext)
  fix x j
  consider "x < l" | "x = l" | "Suc l \<le> x" by linarith
  then show "rd_write (Suc l) (n * BSIZE) (\<lambda>i. b (off + BSIZE + i)) s' x j = rd_write l (Suc n * BSIZE) (\<lambda>i. b (off + i)) s x j"
  proof cases
    case 3
    then obtain y where "x = Suc (l + y)" using less_iff_Suc_add [of l x] by auto
    then show ?thesis unfolding rd_write_def assms by (simp add: algebra_simps)
  qed (simp_all add: rd_write_def assms)
qed

lemma sectors_write:
  assumes disk: "ata_disk p v late ok N" and d: "at_rest v late ok d" and lba: "unat lba + n \<le> N"
  shows "\<exists>d'. ide_sectors p False n lba off (b, d) = (True, b, d') \<and> at_rest v late ok d'
    \<and> a_sectors (v d') = rd_write (unat lba) (n * BSIZE) (\<lambda>i. b (off + i)) (a_sectors (v d))"
  using d lba
proof (induction n arbitrary: lba off d)
  case 0
  then show ?case by (auto simp: rd_write_def)
next
  case (Suc n)
  have lt: "unat lba < N" using Suc.prems(2) by simp
  obtain d1 where d1: "ide_sector p False lba off (b, d) = (True, b, d1)" "at_rest v late ok d1"
    "a_sectors (v d1) = (a_sectors (v d))(unat lba := (\<lambda>j. if j < BSIZE then b (off + j) else a_sectors (v d) (unat lba) j))"
    using sector_write [OF disk Suc.prems(1) lt] by blast
  have "unat lba < 2 ^ 28" using lt disk unfolding ata_disk_def by linarith
  then have u: "unat (lba + 1) = Suc (unat lba)" by (simp add: unat_word_ariths)
  then obtain d' where "ide_sectors p False n (lba + 1) (off + BSIZE) (b, d1) = (True, b, d')" "at_rest v late ok d'"
    "a_sectors (v d') = rd_write (Suc (unat lba)) (n * BSIZE) (\<lambda>i. b (off + BSIZE + i)) (a_sectors (v d1))"
    using Suc.IH [OF d1(2), of "lba + 1" "off + BSIZE"] Suc.prems(2) by auto
  then show ?case using d1(1) rd_write_step [OF d1(3)] by (intro exI [of _ d']) simp
qed

lemma sectors_read:
  assumes disk: "ata_disk p v late ok N" and d: "at_rest v late ok d" and lba: "unat lba + n \<le> N"
  shows "\<exists>d'. ide_sectors p True n lba off (b, d) = (True, (\<lambda>i. if off \<le> i \<and> i < off + n * BSIZE
        then a_sectors (v d) (unat lba + (i - off) div BSIZE) ((i - off) mod BSIZE) else b i), d')
    \<and> at_rest v late ok d' \<and> a_sectors (v d') = a_sectors (v d)"
  using d lba
proof (induction n arbitrary: lba off d b)
  case 0
  then show ?case by (auto simp: fun_eq_iff)
next
  case (Suc n)
  let ?s = "a_sectors (v d)"
  let ?b = "\<lambda>i. if off \<le> i \<and> i < off + BSIZE then ?s (unat lba) (i - off) else b i"
  have lt: "unat lba < N" using Suc.prems(2) by simp
  obtain d1 where d1: "ide_sector p True lba off (b, d) = (True, ?b, d1)" "at_rest v late ok d1" "a_sectors (v d1) = ?s"
    using sector_read [OF disk Suc.prems(1) lt] by blast
  have "unat lba < 2 ^ 28" using lt disk unfolding ata_disk_def by linarith
  then have u: "unat (lba + 1) = Suc (unat lba)" by (simp add: unat_word_ariths)
  have le: "unat (lba + 1) + n \<le> N" using u Suc.prems(2) by simp
  obtain d' where d': "ide_sectors p True n (lba + 1) (off + BSIZE) (?b, d1)
      = (True, (\<lambda>i. if off + BSIZE \<le> i \<and> i < off + BSIZE + n * BSIZE
        then ?s (Suc (unat lba) + (i - (off + BSIZE)) div BSIZE) ((i - (off + BSIZE)) mod BSIZE) else ?b i), d')"
    "at_rest v late ok d'" "a_sectors (v d') = ?s"
    using Suc.IH [OF d1(2) le, of "off + BSIZE" ?b] unfolding u d1(3) by blast
  have "(if off + BSIZE \<le> i \<and> i < off + BSIZE + n * BSIZE
        then ?s (Suc (unat lba) + (i - (off + BSIZE)) div BSIZE) ((i - (off + BSIZE)) mod BSIZE) else ?b i)
      = (if off \<le> i \<and> i < off + Suc n * BSIZE then ?s (unat lba + (i - off) div BSIZE) ((i - off) mod BSIZE) else b i)" for i
  proof -
    consider "i < off" | "off \<le> i" "i < off + BSIZE" | "off + BSIZE \<le> i" by linarith
    then show ?thesis
    proof cases
      case 3
      then obtain y where "i = off + BSIZE + y" using le_Suc_ex by blast
      moreover have "(512 + y) div 512 = Suc (y div 512)" "(512 + y) mod 512 = y mod 512" by simp_all
      ultimately show ?thesis by simp
    qed auto
  qed
  then show ?case using d1(1) d' by (intro exI [of _ d']) simp
qed

lemma upd_buf_disk: "upd_buf bp f (upd_disk g k) = upd_disk g (upd_buf bp f k)"
  by (cases "k_bio k") (simp add: upd_buf_def upd_disk_def)

lemma sint_nonneg32: "0 \<le> sint w \<Longrightarrow> sint w = int (unat w)" for w :: int32_t
  by (simp add: sint_pos32 sint_small32)

lemma sint_minus_nat:
  assumes "m < 2 ^ 31"
  shows "sint (- of_nat m :: int32_t) = - int m"
proof -
  have "sint (of_nat m :: int32_t) = int m" using assms sint_small32 [of "of_nat m"] by (simp add: unat_of_nat)
  then have "sint (- of_nat m :: int32_t) = signed_take_bit 31 (- int m)" by (simp only: sint_word_ariths) simp
  also have "\<dots> = - int m" using assms by (intro signed_take_bit_int_eq_self) simp_all
  finally show ?thesis .
qed

lemma ide_count_sectors:
  assumes "b_wcount b = - of_nat (256 * n)" "n \<le> 16384"
  shows "ide_count b = int (n * BSIZE)"
proof -
  have "unat ((of_nat (256 * n) :: int32_t) * 2) = n * 512"
    using assms(2) by (simp add: unat_word_ariths unat_of_nat)
  then have "sint ((of_nat (256 * n) :: int32_t) * 2) = int (n * 512)"
    using assms(2) by (subst sint_small32) simp_all
  then show ?thesis unfolding ide_count_def assms(1) by simp
qed

text \<open>A disk that keeps to \<open>ata_disk\<close>: its state is what it means, and it is never late.\<close>

definition sim_ports :: "ata ports" where
  "sim_ports = \<lparr>
     p_inb = (\<lambda>port a. (if port = ATA_STATUS then if a_phase a = AtaIdle then 0x40 else 0x48 else 0, a)),
     p_outb = (\<lambda>port x a. if port = ATA_STATUS
        then if x = ATA_CMD_READ then a\<lparr>a_phase := AtaIn 0\<rparr> else if x = ATA_CMD_WRITE then a\<lparr>a_phase := AtaOut 0\<rparr> else a
        else ata_set port x a),
     p_inw = (\<lambda>port a. case a_phase a of
        AtaIn i \<Rightarrow> (word_at (a_sectors a (ata_lba a)) i, a\<lparr>a_phase := ata_next AtaIn i\<rparr>) | _ \<Rightarrow> (0, a)),
     p_outw = (\<lambda>port w a. case a_phase a of
        AtaOut i \<Rightarrow> a\<lparr>a_phase := ata_next AtaOut i,
          a_sectors := (a_sectors a)(ata_lba a := put_word i w (a_sectors a (ata_lba a)))\<rparr> | _ \<Rightarrow> a)\<rparr>"

lemma sim_disk: "ata_disk sim_ports (\<lambda>a. a) (\<lambda>_. 0) (\<lambda>_. True) (2 ^ 28)"
proof -
  have "(0x40 :: byte) AND 1 = 0" "(0x48 :: byte) AND 1 = 0" "(0x40 :: byte) AND 0x80 = 0" "(0x48 :: byte) AND 0x80 = 0"
    "(0x40 :: byte) AND 8 = 0" "(0x48 :: byte) AND 8 \<noteq> 0" by code_simp+
  then have "ata_status sim_ports (\<lambda>a. a) (\<lambda>_. 0) (\<lambda>_. True)" by (simp add: ata_status_def sim_ports_def)
  moreover have "ata_registers sim_ports (\<lambda>a. a) (\<lambda>_. 0) (\<lambda>_. True)" by (auto simp: ata_registers_def sim_ports_def)
  moreover have "ata_commands sim_ports (\<lambda>a. a) (\<lambda>_. 0) (\<lambda>_. True) (2 ^ 28)" by (simp add: ata_commands_def sim_ports_def)
  moreover have "ata_data sim_ports (\<lambda>a. a) (\<lambda>_. 0) (\<lambda>_. True)" by (simp add: ata_data_def sim_ports_def)
  ultimately show ?thesis by (simp add: ata_disk_def)
qed

text \<open>C20: The ATA driver against the RAM disk's driver: on a disk that answers in time and has
  the blocks asked for, a transfer of \<open>n\<close> sectors ends as \<^verbatim>\<open>rd_strategy\<close> ends on a RAM disk
  with the same contents.  A read gives the same buffer and leaves the sectors; a write gives
  the same buffer and leaves on the disk what it would have left in the RAM disk.  The disk is
  at rest afterwards, so transfers can follow one another.\<close>

theorem ide_like_ramdisk:
  assumes disk: "ata_disk p v late ok N" and d: "at_rest v late ok d"
    and n: "0 < n" "b_wcount (bufp k bp) = - of_nat (256 * n)"
    and l: "0 \<le> sint (b_blkno (bufp k bp))" "nat (sint (b_blkno (bufp k bp))) + n \<le> min N 16384"
    and same: "ramdisk (k_bio k) = a_sectors (v d)"
  shows "\<exists>d' k0. ide_strategy p True bp (d, k) = (0, d', iodone bp k0) \<and> at_rest v late ok d'
    \<and> rd_strategy bp k = iodone bp (upd_disk (\<lambda>_. a_sectors (v d')) k0) \<and> ramdisk (k_bio k0) = a_sectors (v d)
    \<and> (flagged k bp B_READ \<longrightarrow> a_sectors (v d') = a_sectors (v d))"
proof -
  let ?b = "bufp k bp"
  let ?l = "nat (sint (b_blkno ?b))"
  have cnt: "ide_count ?b = int (n * BSIZE)" by (rule ide_count_sectors [OF n(2)]) (use l in simp)
  have "sint (b_blkno ?b) = signed_take_bit 31 (uint (b_blkno ?b))" by (simp add: sint_uint)
  have ul: "unat (b_blkno ?b) = ?l" using sint_nonneg32 [OF l(1)] by simp
  have blocks: "nat (ide_count ?b div int BSIZE) = n" "\<not> ide_count ?b \<le> 0" "ide_count ?b mod int BSIZE = 0"
    unfolding cnt using n(1) by simp_all
  have "sint (b_wcount ?b) = - int (256 * n)" unfolding n(2) by (rule sint_minus_nat) (use l in simp)
  then have rdc: "rd_count ?b = int (n * BSIZE)" using l
    by (simp add: rd_count_def Let_def nat_le_iff le_diff_eq nat_plus_as_int)
  then have rdn: "nat (rd_count ?b) = n * BSIZE" by simp
  have lt: "\<not> sint (b_blkno ?b) < 0" "\<not> RAMDISK_BLOCKS \<le> sint (b_blkno ?b)"
  proof -
    have "?l < nat RAMDISK_BLOCKS" using l(2) n(1) by simp
    then show "\<not> RAMDISK_BLOCKS \<le> sint (b_blkno ?b)" by simp
  qed (use l(1) in simp)
  show ?thesis
  proof (cases "flagged k bp B_READ")
    case True
    obtain d' where d': "ide_sectors p True n (b_blkno ?b) 0 (b_addr ?b, d)
      = (True, rd_read ?l (n * BSIZE) (a_sectors (v d)) (b_addr ?b), d')" "at_rest v late ok d'" "a_sectors (v d') = a_sectors (v d)"
      using sectors_read [OF disk d, of "b_blkno ?b" n 0 "b_addr ?b"] l unfolding ul rd_read_def by (auto cong: if_cong)
    define k0 where "k0 = upd_buf bp (\<lambda>b. b\<lparr>b_resid := 0\<rparr>)
        (upd_buf bp (\<lambda>b. b\<lparr>b_addr := rd_read ?l (n * BSIZE) (a_sectors (v d)) (b_addr ?b)\<rparr>) k)"
    have "ide_strategy p True bp (d, k) = (0, d', iodone bp k0)"
      using d'(1) True blocks unfolding ide_strategy_def k0_def by (simp add: Let_def)
    moreover have "rd_strategy bp k = iodone bp k0"
      using True lt rdn same unfolding rd_strategy_def k0_def by (simp add: Let_def upd_buf_upd_buf upd_buf_def bufp_def)
    moreover have "upd_disk (\<lambda>_. a_sectors (v d')) k0 = k0" "ramdisk (k_bio k0) = a_sectors (v d)"
      using same d'(3) by (simp_all add: k0_def upd_disk_def)
    ultimately show ?thesis using d'(2,3) by (intro exI [of _ d'] exI [of _ k0]) simp
  next
    case False
    obtain d' where d': "ide_sectors p False n (b_blkno ?b) 0 (b_addr ?b, d) = (True, b_addr ?b, d')" "at_rest v late ok d'"
      "a_sectors (v d') = rd_write ?l (n * BSIZE) (b_addr ?b) (a_sectors (v d))"
      using sectors_write [OF disk d, of "b_blkno ?b" n 0 "b_addr ?b"] l unfolding ul by auto
    define k0 where "k0 = upd_buf bp (\<lambda>b. b\<lparr>b_resid := 0\<rparr>) k"
    have "ide_strategy p True bp (d, k) = (0, d', iodone bp k0)"
      using d'(1) False blocks unfolding ide_strategy_def k0_def by (simp add: Let_def upd_buf_upd_buf upd_buf_def bufp_def)
    moreover have "rd_strategy bp k = iodone bp (upd_disk (\<lambda>_. a_sectors (v d')) k0)"
      using False lt rdn same d'(3) unfolding rd_strategy_def k0_def
      by (simp add: Let_def upd_buf_disk) (simp add: upd_disk_def)
    ultimately show ?thesis using d'(2) False same by (intro exI [of _ d'] exI [of _ k0]) (simp add: k0_def)
  qed
qed

theorem ide_like_ramdisk_witness:
  "\<exists>d' k0. ide_strategy sim_ports True (Buf 0) (\<lparr>a_sel = 0, a_cnt = 0, a_lba0 = 0, a_lba1 = 0, a_lba2 = 0, a_phase = AtaIdle, a_sectors = (\<lambda>_ _. 0)\<rparr>,
       upd_buf (Buf 0) (\<lambda>b. b\<lparr>b_wcount := - 512, b_blkno := 9, b_addr := (\<lambda>i. of_nat i)\<rparr>) zero_kernel) = (0, d', iodone (Buf 0) k0)
     \<and> a_sectors d' = ramdisk (k_bio (upd_disk (\<lambda>_. a_sectors d') k0))"
  using ide_like_ramdisk [OF sim_disk, of "\<lparr>a_sel = 0, a_cnt = 0, a_lba0 = 0, a_lba1 = 0, a_lba2 = 0, a_phase = AtaIdle, a_sectors = (\<lambda>_ _. 0)\<rparr>"
     2 "upd_buf (Buf 0) (\<lambda>b. b\<lparr>b_wcount := - 512, b_blkno := 9, b_addr := (\<lambda>i. of_nat i)\<rparr>) zero_kernel" "Buf 0"]
  by (auto simp: at_rest_def zero_kernel_def upd_disk_def)

text \<open>A disk that never gets ready: the request fails with \<^verbatim>\<open>EIO\<close> after the last poll.\<close>

lemma wait_ready_busy:
  assumes "\<And>d. \<exists>st d'. p_inb p ATA_STATUS d = (st, d') \<and> st AND ATA_SR_BSY \<noteq> 0"
  shows "\<exists>d'. wait_ready p n d = (False, d')"
proof (induction n arbitrary: d)
  case (Suc n)
  obtain st d' where "p_inb p ATA_STATUS d = (st, d')" "st AND ATA_SR_BSY \<noteq> 0" using assms by blast
  then show ?case using Suc.IH [of d'] by simp
qed simp

lemma ide_busy_error:
  assumes "\<And>d. \<exists>st d'. p_inb p ATA_STATUS d = (st, d') \<and> st AND ATA_SR_BSY \<noteq> 0"
    and "0 < ide_count (bufp k bp)" "ide_count (bufp k bp) mod int BSIZE = 0"
  shows "\<exists>d'. ide_strategy p True bp (d, k)
    = (0, d', iodone bp (upd_buf bp (\<lambda>b. (set_flags B_ERROR b)\<lparr>b_error := EIO, b_resid := 0\<rparr>) k))"
proof -
  have "0 < ide_count (bufp k bp) div int BSIZE"
  proof -
    obtain q where q: "ide_count (bufp k bp) = int BSIZE * q" using assms(3) by (auto simp: mod_eq_0_iff_dvd)
    then have "0 < q" using assms(2) by (simp add: zero_less_mult_iff)
    then show ?thesis by (simp add: q)
  qed
  then obtain n where n: "nat (ide_count (bufp k bp) div int BSIZE) = Suc n" by (cases "nat (ide_count (bufp k bp) div int BSIZE)") auto
  obtain d' where "wait_ready p ATA_POLLS d = (False, d')" using wait_ready_busy [OF assms(1)] by blast
  then have "ide_sectors p rd (Suc n) lba 0 (a, d) = (False, a, d')" for rd lba a
    by (simp add: ide_sector_def ide_select_lba_def ide_wait_ready_def)
  then show ?thesis using assms(2,3) n unfolding ide_strategy_def
    by (simp add: Let_def ide_fail_def upd_buf_upd_buf) (simp add: upd_buf_def bufp_def set_flags_def)
qed

end
