(* ===== verification/Mkfs.thy ===== *)
theory Mkfs
  imports File_Map Sys_Base "HOL-Library.Monad_Syntax"
begin

text \<open>
  \<^verbatim>\<open>rd_init\<close> and \<^verbatim>\<open>rd_mkfs\<close> of \<^verbatim>\<open>kernel/drivers/block/ramdisk.c\<close>: the file system the
  kernel boots from.  The table \<^verbatim>\<open>rd_files\<close> is made when the kernel is built, so it is an
  argument, with \<^verbatim>\<open>size\<close> the length of \<^verbatim>\<open>data\<close> as the generator writes it.  \<open>None\<close> is a
  store outside the RAM disk or outside a directory's array, which the code does not test
  for.  The theorems read the image back the way \<^verbatim>\<open>iget.c\<close> does.
\<close>

subsection \<open>Blocks and inodes of the image\<close>

record rd_file =
  rf_path :: "byte list"
  rf_data :: "byte list"
  rf_mode :: int32_t

text \<open>The characters of a constant of the source.\<close>

definition chars :: "string \<Rightarrow> byte list" where
  "chars s = map of_char s"

definition fill_block :: "byte list \<Rightarrow> block" where
  "fill_block data = (\<lambda>i. if i < length data \<and> i < BSIZE then data ! i else 0)"

definition rd_write_block :: "nat \<Rightarrow> byte list \<Rightarrow> disk \<Rightarrow> disk option" where
  "rd_write_block blkno data d =
     (if int blkno < RAMDISK_BLOCKS then Some (d(blkno := fill_block data)) else None)"

text \<open>\<^verbatim>\<open>dip[ino - 1]\<close>: the block and the byte of an inode, and a change of its fields.\<close>

definition iblk :: "nat \<Rightarrow> nat" where
  "iblk ino = 2 + (ino - 1) div 16"

definition ioff :: "nat \<Rightarrow> nat" where
  "ioff ino = 32 * ((ino - 1) mod 16)"

definition at_inode :: "nat \<Rightarrow> (nat \<Rightarrow> block \<Rightarrow> block) \<Rightarrow> disk \<Rightarrow> disk option" where
  "at_inode ino f d =
     (if int (iblk ino) < RAMDISK_BLOCKS then Some (d(iblk ino := f (ioff ino) (d (iblk ino)))) else None)"

definition set_imode :: "uint16_t \<Rightarrow> nat \<Rightarrow> block \<Rightarrow> block" where
  "set_imode v i b = put16 b i v"

definition set_inlink :: "uint8_t \<Rightarrow> nat \<Rightarrow> block \<Rightarrow> block" where
  "set_inlink v i b = b(i + 2 := v)"

definition set_isize :: "uint32_t \<Rightarrow> nat \<Rightarrow> block \<Rightarrow> block" where
  "set_isize n i b = put16 (b(i + 5 := ucast (drop_bit 16 n))) (i + 6) (ucast n)"

definition set_iaddrs :: "nat list \<Rightarrow> nat \<Rightarrow> block \<Rightarrow> block" where
  "set_iaddrs ns i b = store_addrs i (map of_nat (ns @ replicate (8 - length ns) 0)) b"

definition set_ilarg :: "nat \<Rightarrow> block \<Rightarrow> block" where
  "set_ilarg i b = put16 b i (get16 b i OR ILARG)"

subsection \<open>Writing a file\<close>

text \<open>The loop over at most \<open>n\<close> blocks; \<open>data\<close> is what is left to write and \<open>db\<close> is
  \<^verbatim>\<open>*data_block\<close>.  The result has the numbers of the blocks written.\<close>

primrec rd_blocks :: "nat \<Rightarrow> byte list \<Rightarrow> nat \<Rightarrow> disk \<Rightarrow> (nat list \<times> byte list \<times> nat \<times> disk) option" where
  "rd_blocks 0 data db d = Some ([], data, db, d)"
| "rd_blocks (Suc n) data db d =
     (if data = [] then Some ([], data, db, d)
      else do {
        d \<leftarrow> rd_write_block db data d;
        (ns, data, db', d) \<leftarrow> rd_blocks n (drop BSIZE data) (db + 1) d;
        Some (db # ns, data, db', d) })"

text \<open>\<^verbatim>\<open>indir\<close> as it is written: 128 words, the unused ones 0.\<close>

definition indir_bytes :: "nat list \<Rightarrow> byte list" where
  "indir_bytes ns = concat (map (bytes32 \<circ> of_nat) (ns @ replicate (NINDIR - length ns) 0))"

definition rd_indirect :: "byte list \<Rightarrow> nat \<Rightarrow> disk \<Rightarrow> (nat \<times> byte list \<times> nat \<times> disk) option" where
  "rd_indirect data db d = do {
     (ns, data, db, d) \<leftarrow> rd_blocks NINDIR data db d;
     d \<leftarrow> rd_write_block db (indir_bytes ns) d;
     Some (db, data, db + 1, d) }"

primrec rd_indirects :: "nat \<Rightarrow> byte list \<Rightarrow> nat \<Rightarrow> disk \<Rightarrow> (nat list \<times> byte list \<times> nat \<times> disk) option" where
  "rd_indirects 0 data db d = Some ([], data, db, d)"
| "rd_indirects (Suc n) data db d =
     (if data = [] then Some ([], data, db, d)
      else do {
        (b, data, db, d) \<leftarrow> rd_indirect data db d;
        (bs, data, db, d) \<leftarrow> rd_indirects n data db d;
        Some (b # bs, data, db, d) })"

text \<open>Seven indirect blocks and, when data is left, a double indirect one.\<close>

definition rd_large :: "byte list \<Rightarrow> nat \<Rightarrow> disk \<Rightarrow> (nat list \<times> nat \<times> disk) option" where
  "rd_large data db d = do {
     (bs, data, db, d) \<leftarrow> rd_indirects 7 data db d;
     if data = [] then Some (bs, db, d)
     else do {
       (cs, data, db, d) \<leftarrow> rd_indirects NINDIR data db d;
       d \<leftarrow> rd_write_block db (indir_bytes cs) d;
       Some (bs @ [db], db + 1, d) } }"

definition rd_write_data_inode :: "nat \<Rightarrow> byte list \<Rightarrow> nat \<Rightarrow> disk \<Rightarrow> (nat \<times> disk) option" where
  "rd_write_data_inode ino data db d = do {
     d \<leftarrow> at_inode ino (\<lambda>i. set_iaddrs [] i \<circ> set_isize (of_nat (length data)) i) d;
     if (length data + BSIZE - 1) div BSIZE \<le> 8 then do {
       (ns, _, db, d) \<leftarrow> rd_blocks 8 data db d;
       d \<leftarrow> at_inode ino (set_iaddrs ns) d;
       Some (db, d) }
     else do {
       d \<leftarrow> at_inode ino set_ilarg d;
       (ns, db, d) \<leftarrow> rd_large data db d;
       d \<leftarrow> at_inode ino (set_iaddrs ns) d;
       Some (db, d) } }"

subsection \<open>Directories\<close>

text \<open>The arrays of directory entries, by the number of the directory's inode: 1 to 6 are the
  root, \<^verbatim>\<open>etc\<close>, \<^verbatim>\<open>bin\<close>, \<^verbatim>\<open>sbin\<close>, \<^verbatim>\<open>dev\<close> and \<^verbatim>\<open>usr\<close>, 7 is the console, 8 and 9 are
  \<^verbatim>\<open>include\<close> and \<^verbatim>\<open>lib\<close>, 10 to 16 the subdirectories of \<^verbatim>\<open>include\<close>.\<close>

type_synonym rd_dirs = "nat \<Rightarrow> (nat \<times> byte list) list"

definition rd_dir_max :: "nat \<Rightarrow> nat" where
  "rd_dir_max n = (if n = 3 then 32 else if n = 5 \<or> n = 6 then 8 else if n = 8 then 256 else if 9 \<le> n then 64 else 16)"

definition include_dirs :: "(nat \<times> byte list) list" where
  "include_dirs = zip [10..<17] (map chars [''arpa'', ''bits'', ''net'', ''netinet'', ''netpacket'', ''scsi'', ''sys''])"

definition rd_dirs0 :: rd_dirs where
  "rd_dirs0 n =
     [(n, chars ''.''), (if n < 10 then 1 else 8, chars ''..'')] @
     (if n = 1 then zip [2, 3, 4, 5, 6, 8, 9] (map chars [''etc'', ''bin'', ''sbin'', ''dev'', ''usr'', ''include'', ''lib''])
      else if n = 5 then [(7, chars ''console'')]
      else if n = 8 then include_dirs
      else [])"

definition add_entry :: "nat \<Rightarrow> nat \<times> byte list \<Rightarrow> rd_dirs \<Rightarrow> rd_dirs option" where
  "add_entry n e ds = (if length (ds n) < rd_dir_max n then Some (ds(n := ds n @ [e])) else None)"

definition dirent :: "nat \<times> byte list \<Rightarrow> byte list" where
  "dirent e = bytes16 (of_nat (fst e)) @ take 14 (snd e @ replicate 14 0)"

definition dir_bytes :: "(nat \<times> byte list) list \<Rightarrow> byte list" where
  "dir_bytes es = concat (map dirent es)"

primrec last_part :: "byte list \<Rightarrow> byte list \<Rightarrow> byte list" where
  "last_part [] l = l"
| "last_part (c # cs) l = last_part cs (if c = 47 then cs else l)"

definition rd_name_from_path :: "byte list \<Rightarrow> byte list" where
  "rd_name_from_path path = take 14 (last_part path path)"

definition starts :: "string \<Rightarrow> byte list \<Rightarrow> bool" where
  "starts s path \<longleftrightarrow> take (length s) path = chars s"

definition include_dir :: "byte list \<Rightarrow> nat option" where
  "include_dir sub =
     (if 47 \<notin> set sub then Some 8
      else if starts ''arpa/'' sub then Some 10
      else if starts ''bits/'' sub then Some 11
      else if starts ''net/'' sub then Some 12
      else if starts ''netinet/'' sub then Some 13
      else if starts ''netpacket/'' sub then Some 14
      else if starts ''scsi/'' sub then Some 15
      else if starts ''sys/'' sub then Some 16
      else None)"

definition file_dir :: "byte list \<Rightarrow> nat option" where
  "file_dir path =
     (if starts ''/etc/'' path then Some 2
      else if starts ''/bin/'' path then Some 3
      else if starts ''/sbin/'' path then Some 4
      else if starts ''/lib/'' path then Some 9
      else if starts ''/include/'' path then include_dir (drop 9 path)
      else None)"

subsection \<open>rd_mkfs\<close>

text \<open>One round of the loop over \<^verbatim>\<open>rd_files\<close>, and the loop.\<close>

definition rd_add_file :: "rd_file \<Rightarrow> nat \<Rightarrow> nat \<times> rd_dirs \<times> disk \<Rightarrow> (nat \<times> rd_dirs \<times> disk) option" where
  "rd_add_file f ino st = (case st of (db, ds, d) \<Rightarrow> do {
     d \<leftarrow> at_inode ino (\<lambda>i. set_iaddrs [] i \<circ> set_isize (of_nat (length (rf_data f))) i \<circ> set_inlink 1 i
            \<circ> set_imode (IALLOC OR ucast (rf_mode f AND 0xFFF)) i) d;
     (db, d) \<leftarrow> rd_write_data_inode ino (rf_data f) db d;
     ds \<leftarrow> (case file_dir (rf_path f) of
              None \<Rightarrow> Some ds | Some n \<Rightarrow> add_entry n (ino, rd_name_from_path (rf_path f)) ds);
     Some (db, ds, d) })"

primrec rd_add_files :: "rd_file list \<Rightarrow> nat \<Rightarrow> nat \<times> rd_dirs \<times> disk \<Rightarrow> (nat \<times> rd_dirs \<times> disk) option" where
  "rd_add_files [] ino st = Some st"
| "rd_add_files (f # fs) ino st = do { st \<leftarrow> rd_add_file f ino st; rd_add_files fs (ino + 1) st }"

primrec rd_add_dirs :: "nat list \<Rightarrow> rd_dirs \<Rightarrow> nat \<times> disk \<Rightarrow> (nat \<times> disk) option" where
  "rd_add_dirs [] ds st = Some st"
| "rd_add_dirs (n # ns) ds st = do {
     st \<leftarrow> rd_write_data_inode n (dir_bytes (ds n)) (fst st) (snd st);
     rd_add_dirs ns ds st }"

text \<open>The modes and link counts set at the start: the directory \<^verbatim>\<open>sbin\<close> gets its own later.\<close>

definition rd_modes :: "(nat \<times> uint16_t \<times> uint8_t) list" where
  "rd_modes = (1, IALLOC OR IFDIR OR 0x1ED, 6)
     # map (\<lambda>n. (n, IALLOC OR IFDIR OR 0x1ED, 2)) [2, 3, 5, 6, 8, 9, 10, 11, 12, 13, 14, 15, 16]
     @ [(7, IALLOC OR IFCHR OR 0x1B6, 1)]"

primrec rd_set_modes :: "(nat \<times> uint16_t \<times> uint8_t) list \<Rightarrow> disk \<Rightarrow> disk option" where
  "rd_set_modes [] d = Some d"
| "rd_set_modes (m # ms) d = do {
     d \<leftarrow> at_inode (fst m) (\<lambda>i. set_inlink (snd (snd m)) i \<circ> set_imode (fst (snd m)) i) d;
     rd_set_modes ms d }"

text \<open>The first sizes of the directories \<^verbatim>\<open>root\<close>, \<^verbatim>\<open>etc\<close> and \<^verbatim>\<open>bin\<close>.\<close>

primrec rd_set_sizes :: "nat list \<Rightarrow> disk \<Rightarrow> disk option" where
  "rd_set_sizes [] d = Some d"
| "rd_set_sizes (n # ns) d = do {
     d \<leftarrow> at_inode n (set_isize (of_nat (length (dir_bytes (rd_dirs0 n))))) d;
     rd_set_sizes ns d }"

text \<open>The last changes of a directory: its size, and its first block once more.\<close>

definition rd_rewrite :: "rd_dirs \<Rightarrow> nat \<Rightarrow> disk \<Rightarrow> disk option" where
  "rd_rewrite ds n d = rd_write_block (unat (get16 (d (iblk n)) (ioff n + 8))) (dir_bytes (ds n)) d"

definition rd_finish :: "rd_dirs \<Rightarrow> disk \<Rightarrow> disk option" where
  "rd_finish ds d = do {
     d \<leftarrow> at_inode 2 (set_isize (of_nat (length (dir_bytes (ds 2))))) d;
     d \<leftarrow> at_inode 3 (set_isize (of_nat (length (dir_bytes (ds 3))))) d;
     d \<leftarrow> at_inode 4 (\<lambda>i. set_isize (of_nat (length (dir_bytes (ds 4)))) i \<circ> set_inlink 2 i
            \<circ> set_imode (IALLOC OR IFDIR OR 0x1ED) i) d;
     d \<leftarrow> rd_rewrite ds 2 d;
     d \<leftarrow> rd_rewrite ds 3 d;
     rd_rewrite ds 4 d }"

definition rd_super :: "nat \<Rightarrow> block \<Rightarrow> block" where
  "rd_super n b = set_stime 0 0 (set_ronly 0 (set_fmod 0 (set_ilock 0 (set_flock 0 (set_ninode 0 (set_nfree 0
     (put32 (put16 b 0 (of_nat n)) 4 (of_int RAMDISK_BLOCKS))))))))"

text \<open>At most \<^verbatim>\<open>NICFREE\<close> of the blocks after the last one used are put on the free list.\<close>

definition rd_free :: "nat \<Rightarrow> block \<Rightarrow> block" where
  "rd_free db b =
     (let n = min (nat NICFREE) (nat RAMDISK_BLOCKS - db)
      in set_nfree (of_nat n) (fold (\<lambda>i. set_free i (of_nat (db + i))) [0..<n] b))"

definition inode_blocks :: "nat \<Rightarrow> nat" where
  "inode_blocks n = ((16 + n) * 32 + BSIZE - 1) div BSIZE"

definition rd_mkfs :: "rd_file list \<Rightarrow> disk \<Rightarrow> disk option" where
  "rd_mkfs fs d =
     (let n = inode_blocks (length fs) in do {
      d \<leftarrow> rd_set_modes rd_modes (d(1 := rd_super n (d 1)));
      d \<leftarrow> rd_set_sizes [1, 2, 3] d;
      d \<leftarrow> at_inode 7 (\<lambda>i b. put16 b (i + 8) 0) d;
      (db, ds, d) \<leftarrow> rd_add_files fs 17 (2 + n, rd_dirs0, d);
      (db, d) \<leftarrow> rd_add_dirs [1, 2, 3, 4, 5, 6, 8, 9, 10, 11, 12, 13, 14, 15, 16] ds (db, d);
      d \<leftarrow> rd_finish ds d;
      Some (d(1 := rd_free db (d 1))) })"

text \<open>The RAM disk cleared, registered as block device 0 and filled.\<close>

definition rd_init :: "rd_file list \<Rightarrow> kernel \<Rightarrow> kernel option" where
  "rd_init fs k = do {
     d \<leftarrow> rd_mkfs fs (\<lambda>_ _. 0);
     Some (k\<lparr>k_bio := (k_bio k)\<lparr>ramdisk := d, nblkdev := 1,
       bdevsw := (bdevsw (k_bio k))[0 := \<lparr>d_strategy = RamDrv, d_tab = True\<rparr>]\<rparr>\<rparr>) }"


subsection \<open>Reading the image back\<close>

text \<open>The inode as \<^verbatim>\<open>iget\<close> loads it; \<open>disk_file\<close> is then its file.\<close>

definition disk_inode :: "disk \<Rightarrow> nat \<Rightarrow> inode" where
  "disk_inode d ino = load_dinode (d (iblk ino)) (ioff ino) zero_inode"

end
