(* ===== verification/Mkfs_Image.thy ===== *)
theory Mkfs_Image
  imports Mkfs
begin

text \<open>
  What \<^verbatim>\<open>rd_mkfs\<close> builds.  The lemmas follow the code from the loop over the blocks of a
  file to the whole image: each step says which blocks it fills, which bytes of the i-list it
  changes and what reading through the inode finds, and that it leaves the rest alone.
\<close>

subsection \<open>What the loops write\<close>

text \<open>The number of blocks of \<open>n\<close> bytes, alone and with their indirect blocks.\<close>

definition nblk :: "nat \<Rightarrow> nat" where
  "nblk n = (n + BSIZE - 1) div BSIZE"

definition with_indirect :: "nat \<Rightarrow> nat" where
  "with_indirect m = m + (m + 127) div 128"

definition all_blocks :: "nat \<Rightarrow> nat" where
  "all_blocks n = (if nblk n \<le> 8 then nblk n else with_indirect (nblk n) + (if 896 < nblk n then 1 else 0))"

definition put_blocks :: "nat \<Rightarrow> nat \<Rightarrow> byte list \<Rightarrow> disk \<Rightarrow> disk" where
  "put_blocks db m data d = (\<lambda>b. if db \<le> b \<and> b < db + m then fill_block (drop (BSIZE * (b - db)) data) else d b)"

lemma nblk_0 [simp]: "nblk 0 = 0"
  by (simp add: nblk_def)

lemma nblk_pos: "0 < n \<Longrightarrow> nblk n = Suc (nblk (n - BSIZE))"
  by (cases "n \<le> BSIZE") (auto simp: nblk_def le_div_geq)

lemma nblk_diff: "nblk (n - BSIZE * m) = nblk n - m"
proof (induction m arbitrary: n)
  case (Suc m)
  have "n - BSIZE * Suc m = n - BSIZE - BSIZE * m" by simp
  then show ?case using Suc [of "n - BSIZE"] by (cases "n = 0") (simp_all add: nblk_pos)
qed simp

lemma in_nblk: "i < n \<Longrightarrow> i div BSIZE < nblk n"
  by (simp add: nblk_def less_eq_div_iff_mult_less_eq Suc_le_eq [symmetric] del: Suc_le_eq)

lemma put_blocks_0 [simp]: "put_blocks db 0 data d = d"
  by (rule ext) (auto simp: put_blocks_def)

lemma put_blocks_Suc:
  "put_blocks (Suc db) m (drop BSIZE data) (d(db := fill_block data)) = put_blocks db (Suc m) data d"
proof
  fix b
  have "drop (BSIZE * (b - Suc db)) (drop BSIZE data) = drop (BSIZE * (b - db)) data" if lt: "db < b"
  proof -
    obtain c where "b = Suc db + c" using lt less_iff_Suc_add [of db b] by auto
    then show ?thesis by (simp add: add.commute)
  qed
  then show "put_blocks (Suc db) m (drop BSIZE data) (d(db := fill_block data)) b = put_blocks db (Suc m) data d b"
    by (cases "b = db") (auto simp: put_blocks_def)
qed

lemma rd_blocks_run:
  assumes "m = min n (nblk (length data))" "m = 0 \<or> db + m \<le> 16384"
  shows "rd_blocks n data db d = Some ([db..<db + m], drop (BSIZE * m) data, db + m, put_blocks db m data d)"
  using assms
proof (induction n arbitrary: data db d m)
  case (Suc n)
  show ?case
  proof (cases "data = []")
    case False
    then have nb: "nblk (length data) = Suc (nblk (length data - BSIZE))" by (intro nblk_pos) simp
    then obtain m' where m': "m = Suc m'" "m' = min n (nblk (length (drop BSIZE data)))" using Suc.prems(1) by simp
    have lim: "db + m \<le> 16384" using Suc.prems(2) m' by simp
    have "rd_blocks n (drop BSIZE data) (Suc db) (d(db := fill_block data))
        = Some ([Suc db..<Suc db + m'], drop (BSIZE * m') (drop BSIZE data), Suc db + m',
            put_blocks (Suc db) m' (drop BSIZE data) (d(db := fill_block data)))"
      using lim m' by (intro Suc.IH) simp_all
    then show ?thesis using False lim m'(1)
      by (simp add: rd_write_block_def put_blocks_Suc upt_conv_Cons add.commute)
  qed (use Suc.prems in simp)
qed simp


lemma rd_write_block_run: "b < 16384 \<Longrightarrow> rd_write_block b data d = Some (d(b := fill_block data))"
  by (simp add: rd_write_block_def)

lemma concat_nth:
  "\<forall>x\<in>set xs. length x = n \<Longrightarrow> i < length xs \<Longrightarrow> j < n \<Longrightarrow> concat xs ! (n * i + j) = xs ! i ! j"
proof (induction xs arbitrary: i)
  case (Cons x xs)
  then show ?case by (cases i) (simp_all add: nth_append add.assoc)
qed simp

lemma length_concat_same: "\<forall>x\<in>set xs. length x = n \<Longrightarrow> length (concat xs) = n * length xs"
  by (induction xs) simp_all

lemma length_indir_bytes: "length ns \<le> 128 \<Longrightarrow> length (indir_bytes ns) = BSIZE"
  unfolding indir_bytes_def by (subst length_concat_same [where n = 4]) auto

lemma disk_word_indir:
  assumes "length ns \<le> 128" "i < length ns" "ns ! i < 16384" "d b = fill_block (indir_bytes ns)"
  shows "disk_word d b i = ns ! i"
proof -
  let ?w = "of_nat (ns ! i) :: 32 word"
  have "fill_block (indir_bytes ns) (4 * i + j) = put32 (\<lambda>_. 0) 0 ?w j" if j: "j < 4" for j
  proof -
    have "indir_bytes ns ! (4 * i + j) = bytes32 ?w ! j"
      unfolding indir_bytes_def using assms(1,2) j by (subst concat_nth) (auto simp: nth_append)
    then show ?thesis using assms(1,2) j by (simp add: fill_block_def length_indir_bytes bytes32_def)
  qed
  then have "get32 (fill_block (indir_bytes ns)) (4 * i) = get32 (put32 (\<lambda>_. 0) 0 ?w) 0"
    by (intro get32_cong) simp
  then show ?thesis using assms(3,4) by (simp add: disk_word_def unat_of_nat)
qed

lemma rd_indirect_run:
  assumes "m = min 128 (nblk (length data))" "db + m < 16384"
  shows "rd_indirect data db d = Some (db + m, drop (BSIZE * m) data, db + m + 1,
    (put_blocks db m data d)(db + m := fill_block (indir_bytes [db..<db + m])))"
  using assms rd_blocks_run [OF assms(1), of db d] by (simp add: rd_indirect_def rd_write_block_run)

text \<open>The blocks \<open>bs\<close> hold the numbers of the \<open>M\<close> blocks with the data, all of them from \<open>lw\<close>
  up to \<open>hg\<close>.\<close>

definition leaves :: "nat \<Rightarrow> nat \<Rightarrow> disk \<Rightarrow> nat list \<Rightarrow> nat \<Rightarrow> byte list \<Rightarrow> bool" where
  "leaves lw hg d bs M data \<longleftrightarrow> length bs = (M + 127) div 128 \<and> (\<forall>b\<in>set bs. lw \<le> b \<and> b < hg)
     \<and> (\<forall>m<M. lw \<le> disk_word d (bs ! (m div 128)) (m mod 128) \<and> disk_word d (bs ! (m div 128)) (m mod 128) < hg
          \<and> d (disk_word d (bs ! (m div 128)) (m mod 128)) = fill_block (drop (BSIZE * m) data))"

lemma leaves_index: "leaves lw hg d bs M data \<Longrightarrow> m < M \<Longrightarrow> m div 128 < length bs"
  by (simp add: leaves_def)

lemma leaves_cong:
  assumes l: "leaves lw hg d bs M data" and s: "\<And>b. lw \<le> b \<Longrightarrow> b < hg \<Longrightarrow> d' b = d b" and h: "lw' \<le> lw" "hg \<le> hg'"
  shows "leaves lw' hg' d' bs M data"
proof -
  have "disk_word d' (bs ! (m div 128)) (m mod 128) = disk_word d (bs ! (m div 128)) (m mod 128)" if "m < M" for m
    using l s leaves_index [OF l that] by (simp add: leaves_def disk_word_def)
  then show ?thesis using l s h unfolding leaves_def by (auto intro: order.trans order.strict_trans2)
qed


lemma rd_indirects_run:
  assumes "M = min (128 * n) (nblk (length data))" "M = 0 \<or> db + with_indirect M \<le> 16384"
  shows "\<exists>bs d'. rd_indirects n data db d = Some (bs, drop (BSIZE * M) data, db + with_indirect M, d')
    \<and> leaves db (db + with_indirect M) d' bs M data \<and> (\<forall>b. b < db \<or> db + with_indirect M \<le> b \<longrightarrow> d' b = d b)"
  using assms
proof (induction n arbitrary: data db d M)
  case 0
  then show ?case by (simp add: leaves_def with_indirect_def)
next
  case (Suc n)
  show ?case
  proof (cases "data = []")
    case True
    with Suc.prems show ?thesis by (simp add: leaves_def with_indirect_def)
  next
    case False
    define m where "m = min 128 (nblk (length data))"
    define M' where "M' = min (128 * n) (nblk (length (drop (BSIZE * m) data)))"
    have nb: "0 < nblk (length data)" using False by (simp add: nblk_pos)
    have sum: "M = m + M'" "0 < m" "m \<le> 128" "M' = 0 \<or> m = 128"
      using Suc.prems(1) nb by (auto simp: m_def M'_def nblk_diff)
    have wi: "with_indirect M = m + 1 + with_indirect M'"
      using sum by (auto simp: with_indirect_def)
    have room: "db + with_indirect M \<le> 16384" using Suc.prems(2) sum by simp
    let ?d = "(put_blocks db m data d)(db + m := fill_block (indir_bytes [db..<db + m]))"
    have run1: "rd_indirect data db d = Some (db + m, drop (BSIZE * m) data, db + m + 1, ?d)"
      using room wi by (intro rd_indirect_run [OF m_def]) simp
    have "M' = 0 \<or> db + m + 1 + with_indirect M' \<le> 16384" using room wi by simp
    then obtain bs d' where IH: "rd_indirects n (drop (BSIZE * m) data) (db + m + 1) ?d
        = Some (bs, drop (BSIZE * M') (drop (BSIZE * m) data), db + m + 1 + with_indirect M', d')"
      "leaves (db + m + 1) (db + m + 1 + with_indirect M') d' bs M' (drop (BSIZE * m) data)"
      "\<And>b. b < db + m + 1 \<or> db + m + 1 + with_indirect M' \<le> b \<Longrightarrow> d' b = ?d b"
      using Suc.IH [OF M'_def, of "db + m + 1" ?d] by blast
    have run: "rd_indirects (Suc n) data db d = Some ((db + m) # bs, drop (BSIZE * M) data, db + with_indirect M, d')"
    proof -
      have "drop (BSIZE * M) data = drop (BSIZE * M') (drop (BSIZE * m) data)"
        "db + with_indirect M = db + m + 1 + with_indirect M'" by (simp_all only: wi) (simp add: sum(1) algebra_simps)+
      then show ?thesis using False run1 IH(1) by simp
    qed
    have frame: "\<forall>b. b < db \<or> db + with_indirect M \<le> b \<longrightarrow> d' b = d b"
      using IH(3) by (auto simp: wi put_blocks_def)
    have lv: "leaves db (db + with_indirect M) d' ((db + m) # bs) M data"
    proof -
      have "db \<le> l \<and> l < db + with_indirect M \<and> d' l = fill_block (drop (BSIZE * i) data)"
        if i: "i < M" and l: "l = disk_word d' (((db + m) # bs) ! (i div 128)) (i mod 128)" for i l
      proof (cases "i < m")
        case True
        have "disk_word d' (db + m) i = [db..<db + m] ! i"
          using True sum(3) room wi IH(3) [of "db + m"] by (intro disk_word_indir) simp_all
        then have "l = db + i" unfolding l using True sum(3) by simp
        then show ?thesis using True wi IH(3) [of l] by (simp add: put_blocks_def)
      next
        case False
        then have m: "m = 128" using i sum by auto
        define q where "q = i - 128"
        have q: "i = 128 + q" "q < M'" using False i sum m by (auto simp: q_def)
        have l2: "l = disk_word d' (bs ! (q div 128)) (q mod 128)"
          unfolding l q(1) using div_add_self1 [of 128 q] mod_add_self1 [of 128 q] by (simp only:) simp
        have "drop (BSIZE * q) (drop (BSIZE * m) data) = drop (BSIZE * i) data" by (simp add: q(1) m algebra_simps)
        then show ?thesis using IH(2) q(2) unfolding leaves_def l2 by (auto simp: wi)
      qed
      moreover have "length ((db + m) # bs) = (M + 127) div 128"
        using IH(2) sum by (auto simp: leaves_def)
      moreover have "\<forall>b\<in>set ((db + m) # bs). db \<le> b \<and> b < db + with_indirect M"
        using IH(2) wi by (auto simp: leaves_def)
      ultimately show ?thesis unfolding leaves_def by blast
    qed
    show ?thesis using run frame lv by blast
  qed
qed


subsection \<open>Files in place\<close>

definition has_file :: "nat \<Rightarrow> nat \<Rightarrow> disk \<Rightarrow> inode \<Rightarrow> byte list \<Rightarrow> bool" where
  "has_file lw hg d p data \<longleftrightarrow> unat (isize p) = length data \<and> (hasf (i_mode p) ILARG \<longleftrightarrow> 8 < nblk (length data))
     \<and> (\<forall>n<nblk (length data). d (dblock d p n) = fill_block (drop (BSIZE * n) data)
          \<and> (\<forall>b\<in>set (dblock d p n # dmeta d p n). lw \<le> b \<and> b < hg))"

lemma has_file_cong:
  assumes f: "has_file lw hg d p data" and s: "\<And>b. lw \<le> b \<Longrightarrow> b < hg \<Longrightarrow> d' b = d b"
  shows "has_file lw hg d' p data"
proof -
  have m: "dmeta d' p n = dmeta d p n \<and> dblock d' p n = dblock d p n" if "n < nblk (length data)" for n
  proof -
    have "dmeta d' p n = dmeta d p n"
    proof (cases "hasf (i_mode p) ILARG \<and> 896 \<le> n")
      case True
      then have "lw \<le> unat (i_addr p ! 7) \<and> unat (i_addr p ! 7) < hg"
        using f that by (auto simp: has_file_def dmeta_def)
      with s True show ?thesis by (simp add: dmeta_def disk_word_def)
    qed (auto simp: dmeta_def)
    moreover have "dblock d' p n = dblock d p n"
    proof (cases "hasf (i_mode p) ILARG")
      case True
      then have "last (dmeta d p n) \<in> set (dmeta d p n)" by (intro last_in_set) (simp add: dmeta_def)
      then have "d' (last (dmeta d p n)) = d (last (dmeta d p n))" using f that s by (auto simp: has_file_def)
      with calculation True show ?thesis by (simp add: dblock_def disk_word_def)
    qed (simp add: dblock_def)
    ultimately show ?thesis ..
  qed
  show ?thesis using f s m by (simp add: has_file_def)
qed

lemma has_file_weaken: "has_file lw hg d p data \<Longrightarrow> lw' \<le> lw \<Longrightarrow> hg \<le> hg' \<Longrightarrow> has_file lw' hg' d p data"
  unfolding has_file_def by (blast intro: order.trans order.strict_trans2)

lemma disk_file_data: "has_file lw hg d p data \<Longrightarrow> disk_file d p = data"
proof (rule nth_equalityI)
  assume f: "has_file lw hg d p data"
  then show "length (disk_file d p) = length data" by (simp add: disk_file_def has_file_def)
  fix i assume i: "i < length (disk_file d p)"
  then have "i < length data" using f by (simp add: disk_file_def has_file_def)
  moreover have "BSIZE * (i div BSIZE) + i mod BSIZE = i" by simp
  moreover from calculation have "i mod BSIZE < length data - BSIZE * (i div BSIZE)" by linarith
  ultimately show "disk_file d p ! i = data ! i"
    using f in_nblk [of i "length data"] i by (auto simp: has_file_def disk_file_def dbyte_def fill_block_def)
qed

subsection \<open>Changing an inode\<close>

definition own_bytes :: "(nat \<Rightarrow> block \<Rightarrow> block) \<Rightarrow> bool" where
  "own_bytes f \<longleftrightarrow> (\<forall>i b p. p < i \<or> i + 32 \<le> p \<longrightarrow> f i b p = b p)"

text \<open>The bytes that differ between two images lie in the blocks from \<open>lw\<close> up to \<open>hg\<close> or in the
  inode.\<close>

definition dchange :: "nat \<Rightarrow> nat \<Rightarrow> nat \<Rightarrow> disk \<Rightarrow> disk \<Rightarrow> bool" where
  "dchange ino lw hg d d' \<longleftrightarrow> (\<forall>b i. (b < lw \<or> hg \<le> b) \<longrightarrow>
     \<not> (b = iblk ino \<and> ioff ino \<le> i \<and> i < ioff ino + 32) \<longrightarrow> d' b i = d b i)"

lemma own_bytes_ops:
  "own_bytes (set_imode v)" "own_bytes (set_inlink n)" "own_bytes (set_isize sz)" "own_bytes (set_iaddrs ns)" "own_bytes set_ilarg"
  by (auto simp: own_bytes_def set_imode_def set_inlink_def set_isize_def set_iaddrs_def set_ilarg_def
      put16_apply store_addrs_other)

lemma own_bytes_comp: "own_bytes f \<Longrightarrow> own_bytes g \<Longrightarrow> own_bytes (\<lambda>i. f i \<circ> g i)"
  by (simp add: own_bytes_def)

lemma at_inode_run:
  "iblk ino < 16384 \<Longrightarrow> at_inode ino f d = Some (d(iblk ino := f (ioff ino) (d (iblk ino))))"
  by (simp add: at_inode_def)

lemma dchange_refl: "dchange ino lw hg d d"
  by (simp add: dchange_def)

lemma dchange_trans: "dchange ino lw hg d d' \<Longrightarrow> dchange ino lw hg d' d'' \<Longrightarrow> dchange ino lw hg d d''"
  by (simp add: dchange_def)

lemma dchange_inode: "own_bytes f \<Longrightarrow> dchange ino lw hg d (d(iblk ino := f (ioff ino) (d (iblk ino))))"
  by (auto simp: dchange_def own_bytes_def)

lemma dchange_blocks: "(\<And>b. b < lw \<or> hg \<le> b \<Longrightarrow> d' b = d b) \<Longrightarrow> dchange ino lw hg d d'"
  by (simp add: dchange_def)

text \<open>The fields of the inode after each change.\<close>

lemma load_set_imode: "load_dinode (set_imode v i b) i p = (load_dinode b i p)\<lparr>i_mode := v\<rparr>"
  by (simp add: load_dinode_def set_imode_def dinode_simps)

lemma load_set_ilarg: "load_dinode (set_ilarg i b) i p = (load_dinode b i p)\<lparr>i_mode := i_mode (load_dinode b i p) OR ILARG\<rparr>"
  by (simp add: load_dinode_def set_ilarg_def dinode_simps)

lemma load_set_inlink: "load_dinode (set_inlink v i b) i p = (load_dinode b i p)\<lparr>i_nlink := v\<rparr>"
  by (simp add: load_dinode_def set_inlink_def dinode_simps)

lemma load_set_isize:
  "load_dinode (set_isize n i b) i p = (load_dinode b i p)\<lparr>i_size0 := ucast (drop_bit 16 n), i_size1 := ucast (ucast n :: uint16_t)\<rparr>"
  by (simp add: load_dinode_def set_isize_def dinode_simps)

lemma isize_set:
  assumes "n < 2 ^ 24"
  shows "unat (isize (p\<lparr>i_size0 := ucast (drop_bit 16 (of_nat n :: 32 word)), i_size1 := ucast (ucast (of_nat n :: 32 word) :: uint16_t)\<rparr>)) = n"
proof -
  define w where "w = (of_nat n :: 32 word)"
  have u: "unat w = n" using assms by (simp add: w_def unat_of_nat)
  have "take_bit 24 w = w"
    by (rule iffD2 [OF word_unat_eq_iff]) (use u assms in \<open>simp add: unsigned_take_bit_eq take_bit_nat_eq_self\<close>)
  then have hb: "j < 24" if "bit w j" for j using that by (metis bit_take_bit_iff)
  have "push_bit 16 (ucast (ucast (drop_bit 16 w) :: 8 word)) OR ucast (ucast w :: 16 word) = w"
    by (rule bit_word_eqI) (use hb in \<open>auto simp: bit_simps not_less less_diff_conv2\<close>)
  then show ?thesis using u by (simp add: isize_def w_def)
qed

lemma load_set_iaddrs:
  assumes "length ns \<le> 8" "\<forall>n\<in>set ns. n < 65536"
  shows "load_dinode (set_iaddrs ns i b) i p = (load_dinode b i p)\<lparr>i_addr := map of_nat (ns @ replicate (8 - length ns) 0)\<rparr>"
proof -
  let ?as = "ns @ replicate (8 - length ns) 0"
  have u: "ucast (ucast (of_nat n :: 32 word) :: 16 word) = (of_nat n :: 32 word)" if "n < 65536" for n
    using that by (intro iffD2 [OF word_unat_eq_iff]) (simp add: unat_of_nat unsigned_ucast_eq unsigned_take_bit_eq take_bit_nat_eq_self)
  have "map (\<lambda>j. ucast (get16 (set_iaddrs ns i b) (i + 8 + 2 * j))) [0..<8] = (map of_nat ?as :: daddr_t list)"
  proof (rule nth_equalityI)
    fix j assume "j < length (map (\<lambda>j. ucast (get16 (set_iaddrs ns i b) (i + 8 + 2 * j)) :: daddr_t) [0..<8])"
    then have j: "j < 8" by simp
    have "?as ! j \<in> set ?as" using assms(1) j by (intro nth_mem) simp
    then have "?as ! j < 65536" using assms(2) by (auto split: if_splits)
    then show "map (\<lambda>j. ucast (get16 (set_iaddrs ns i b) (i + 8 + 2 * j))) [0..<8] ! j = (map of_nat ?as ! j :: daddr_t)"
    proof -
      assume b: "?as ! j < 65536"
      have l: "j < length ?as" using j assms(1) by simp
      have "ucast (get16 (set_iaddrs ns i b) (i + 8 + 2 * j)) = (of_nat (?as ! j) :: daddr_t)"
        by (simp only: set_iaddrs_def get16_store_addrs [OF j] nth_map [OF l] u [OF b])
      then show ?thesis using j l by (simp del: map_append)
    qed
  qed (use assms(1) in simp)
  then show ?thesis by (simp add: load_dinode_def set_iaddrs_def dinode_simps)
qed


subsection \<open>Writing one file\<close>

lemma load_dinode_cong:
  assumes "\<And>j. j < 32 \<Longrightarrow> b' (i + j) = b (i + j)"
  shows "load_dinode b' i p = load_dinode b i p"
proof -
  have g: "get16 b' (i + j) = get16 b (i + j)" if "j < 31" for j
    by (rule get16_cong) (use assms [of j] assms [of "Suc j"] that in simp_all)
  have "get16 b' i = get16 b i" "b' (Suc (Suc i)) = b (Suc (Suc i))" using g [of 0] assms [of 2] by simp_all
  moreover have "b' (i + 3) = b (i + 3)" "b' (i + 4) = b (i + 4)" "b' (i + 5) = b (i + 5)" using assms by simp_all
  moreover have "get_time b' (i + 24) = get_time b (i + 24)" "get_time b' (i + 28) = get_time b (i + 28)"
    using g [of 24] g [of 26] g [of 28] g [of 30] by (simp_all add: get_time_def add.commute)
  moreover have "map (\<lambda>j. ucast (get16 b' (i + 8 + 2 * j)) :: daddr_t) [0..<8] = map (\<lambda>j. ucast (get16 b (i + 8 + 2 * j))) [0..<8]"
    using g by (intro map_cong) (simp_all add: add.assoc)
  moreover have "get16 b' (i + 6) = get16 b (i + 6)" using g by simp
  ultimately show ?thesis unfolding load_dinode_def by (simp del: upt_rec_numeral)
qed

lemma dchange_other:
  assumes "dchange ino lw hg d d'" "ino' \<noteq> ino" "0 < ino" "0 < ino'" "iblk ino' < lw"
  shows "disk_inode d' ino' = disk_inode d ino'"
proof -
  have "d' (iblk ino') (ioff ino' + j) = d (iblk ino') (ioff ino' + j)" if j: "j < 32" for j
  proof -
    have "\<not> (iblk ino' = iblk ino \<and> ioff ino \<le> ioff ino' + j \<and> ioff ino' + j < ioff ino + 32)"
    proof
      assume a: "iblk ino' = iblk ino \<and> ioff ino \<le> ioff ino' + j \<and> ioff ino' + j < ioff ino + 32"
      then have "(ino' - 1) mod 16 = (ino - 1) mod 16" using j unfolding ioff_def by linarith
      moreover have "(ino' - 1) div 16 = (ino - 1) div 16" using a by (simp add: iblk_def)
      ultimately have "ino' - 1 = ino - 1" by (metis div_mult_mod_eq)
      then show False using assms(2-4) by linarith
    qed
    then show ?thesis using assms(1,5) by (simp add: dchange_def)
  qed
  then show ?thesis unfolding disk_inode_def by (intro load_dinode_cong) blast
qed

lemma has_file_keep:
  assumes "has_file lw hg d (disk_inode d ino) data" "disk_inode d' ino = disk_inode d ino"
    and "\<And>b. lw \<le> b \<Longrightarrow> b < hg \<Longrightarrow> d' b = d b"
  shows "has_file lw hg d' (disk_inode d' ino) data"
  using has_file_cong [OF assms(1,3)] assms(2) by simp

lemma all_blocks_bound: "db + all_blocks n \<le> 16384 \<Longrightarrow> n < 2 ^ 24"
  by (simp add: all_blocks_def with_indirect_def nblk_def split: if_splits)

lemma has_file_small:
  assumes m: "m = nblk (length data)" "m \<le> 8" and sz: "unat (isize p) = length data" and fl: "\<not> hasf (i_mode p) ILARG"
    and a: "i_addr p = map of_nat ([db..<db + m] @ replicate (8 - m) 0)" "db + m \<le> 16384"
    and d: "\<And>b. db \<le> b \<Longrightarrow> b < db + m \<Longrightarrow> d b = fill_block (drop (BSIZE * (b - db)) data)"
  shows "has_file db (db + m) d p data"
proof -
  have "dblock d p n = db + n" if "n < m" for n
  proof -
    have "i_addr p ! n = of_nat (db + n)" using that m(2) unfolding a(1) by (simp add: nth_append)
    moreover have "unat (of_nat (db + n) :: daddr_t) = db + n"
      using that a(2) by (simp add: unat_of_nat del: of_nat_add)
    ultimately show ?thesis using fl by (simp only: dblock_def) simp
  qed
  then show ?thesis using assms by (simp add: has_file_def dmeta_def)
qed

text \<open>The addresses that \<open>rd_large\<close> returns and what the blocks behind them hold.\<close>

lemma rd_large_run:
  assumes m: "m = nblk (length data)" "8 < m"
    and hg: "hg = db + with_indirect m + (if 896 < m then 1 else 0)" "hg \<le> 16384"
    and p: "unat (isize p) = length data" "hasf (i_mode p) ILARG"
  shows "\<exists>ns d'. rd_large data db d = Some (ns, hg, d') \<and> length ns \<le> 8 \<and> (\<forall>n\<in>set ns. db \<le> n \<and> n < hg)
    \<and> (\<forall>b. b < db \<or> hg \<le> b \<longrightarrow> d' b = d b)
    \<and> (\<forall>d2. (\<forall>b. db \<le> b \<and> b < hg \<longrightarrow> d2 b = d' b) \<longrightarrow>
         has_file db hg d2 (p\<lparr>i_addr := map of_nat (ns @ replicate (8 - length ns) 0)\<rparr>) data)"
proof -
  define M where "M = min (128 * 7) m"
  have M: "M = min (128 * 7) (nblk (length data))" using m(1) by (simp add: M_def)
  have r1: "M = 0 \<or> db + with_indirect M \<le> 16384" using hg by (auto simp: M_def with_indirect_def)
  obtain bs d1 where i1: "rd_indirects 7 data db d = Some (bs, drop (BSIZE * M) data, db + with_indirect M, d1)"
    "leaves db (db + with_indirect M) d1 bs M data" "\<And>b. b < db \<or> db + with_indirect M \<le> b \<Longrightarrow> d1 b = d b"
    using rd_indirects_run [OF M r1] by blast
  have lb: "length bs = (M + 127) div 128" using i1(2) by (simp add: leaves_def)
  let ?p = "\<lambda>ns. p\<lparr>i_addr := map of_nat (ns @ replicate (8 - length ns) 0)\<rparr>"
  have addr: "unat (i_addr (?p ns) ! j) = ns ! j" if "j < length ns" "length ns \<le> 8" "\<forall>n\<in>set ns. n < 16384" for ns j
  proof -
    have "ns ! j < 16384" using that by (meson nth_mem)
    then have "unat (of_nat (ns ! j) :: 32 word) = ns ! j" by (simp add: unat_of_nat)
    then show ?thesis using that by (simp add: nth_append)
  qed
  have low: "dmeta d2 (?p ns) n = [bs ! (n div 128)]
      \<and> dblock d2 (?p ns) n = disk_word d2 (bs ! (n div 128)) (n mod 128)"
    if n: "n < M" and ns: "take (length bs) ns = bs" "length ns \<le> 8" "\<forall>n\<in>set ns. n < 16384" for d2 ns n
  proof -
    have b: "n div 128 < length bs" using leaves_index [OF i1(2) n] .
    have "length bs \<le> length ns" by (metis ns(1) length_take min.cobounded1)
    then have "n div 128 < length ns" using b by linarith
    moreover have "ns ! (n div 128) = bs ! (n div 128)" by (metis b ns(1) nth_take)
    ultimately have "unat (i_addr (?p ns) ! (n div 128)) = bs ! (n div 128)" using addr [of "n div 128" ns] ns(2,3) by metis
    moreover have "n < 896" using n by (simp add: M_def)
    ultimately show ?thesis using p(2) by (simp add: dmeta_def dblock_def del: map_append)
  qed
  have empty: "drop (BSIZE * M) data = [] \<longleftrightarrow> m \<le> 896"
  proof -
    have "drop (BSIZE * M) data = [] \<longleftrightarrow> nblk (length data - BSIZE * M) = 0" by (cases "length data - BSIZE * M") (auto simp: nblk_pos)
    then show ?thesis using m(1) by (simp add: nblk_diff M_def)
  qed
  show ?thesis
  proof (cases "m \<le> 896")
    case True
    then have e: "M = m" "hg = db + with_indirect M" using hg by (auto simp: M_def)
    have run: "rd_large data db d = Some (bs, hg, d1)" using i1(1) True empty by (simp add: rd_large_def e(2))
    have bs: "length bs \<le> 8" "\<forall>n\<in>set bs. db \<le> n \<and> n < hg" "\<forall>n\<in>set bs. n < 16384"
      using lb e True i1(2) hg(2) by (auto simp: leaves_def)
    have "has_file db hg d2 (?p bs) data" if d2: "\<forall>b. db \<le> b \<and> b < hg \<longrightarrow> d2 b = d1 b" for d2
    proof -
      have l2: "leaves db hg d2 bs M data" using leaves_cong [OF i1(2)] d2 e(2) by simp
      then show ?thesis unfolding has_file_def using low [of _ bs d2] bs p m e(1) leaves_index [OF l2]
        by (auto simp: leaves_def isize_def)
    qed
    with run bs i1(3) e(2) show ?thesis by auto
  next
    case False
    then have M7: "M = 896" and lb7: "length bs = 7" using lb by (simp_all add: M_def)
    define data2 where "data2 = drop (BSIZE * M) data"
    define M2 where "M2 = min (128 * 128) (nblk (length data2))"
    have n2: "nblk (length data2) = m - 896" using m(1) nblk_diff [of "length data" 896] by (simp add: data2_def M7)
    have m16: "m \<le> 16384" using hg by (simp add: with_indirect_def)
    have M2m: "M2 = m - 896" using n2 m16 by (simp add: M2_def)
    have wi: "with_indirect m = with_indirect M + with_indirect M2" using False by (simp add: with_indirect_def M7 M2m)
    let ?db = "db + with_indirect M"
    have r2: "M2 = 0 \<or> ?db + with_indirect M2 \<le> 16384" using hg wi by simp
    obtain cs d2 where i2: "rd_indirects 128 data2 ?db d1 = Some (cs, drop (BSIZE * M2) data2, ?db + with_indirect M2, d2)"
      "leaves ?db (?db + with_indirect M2) d2 cs M2 data2" "\<And>b. b < ?db \<or> ?db + with_indirect M2 \<le> b \<Longrightarrow> d2 b = d1 b"
      using rd_indirects_run [OF M2_def r2] by blast
    let ?x = "?db + with_indirect M2"
    let ?d3 = "d2(?x := fill_block (indir_bytes cs))"
    have x: "hg = ?x + 1" "?x < 16384" using hg wi False by auto
    have run: "rd_large data db d = Some (bs @ [?x], hg, ?d3)"
      using i1(1) i2(1) False empty x by (simp add: rd_large_def data2_def rd_write_block_run)
    have lc: "length cs = (M2 + 127) div 128" "length cs \<le> 128" using i2(2) m16 by (auto simp: leaves_def M2m)
    let ?ns = "bs @ [?x]"
    have ns: "take (length bs) ?ns = bs" "length ?ns \<le> 8" "\<forall>n\<in>set ?ns. n < 16384" "\<forall>n\<in>set ?ns. db \<le> n \<and> n < hg"
      using i1(2) x lb7 by (auto simp: leaves_def)
    have "has_file db hg d4 (?p ?ns) data" if d4: "\<forall>b. db \<le> b \<and> b < hg \<longrightarrow> d4 b = ?d3 b" for d4
    proof -
      have l1: "leaves db hg d4 bs M data"
        by (rule leaves_cong [OF i1(2)]) (use d4 x i2(3) in auto)
      have l2: "leaves db hg d4 cs M2 data2"
        by (rule leaves_cong [OF i2(2)]) (use d4 x in auto)
      have "d4 (dblock d4 (?p ?ns) n) = fill_block (drop (BSIZE * n) data)
          \<and> (\<forall>b\<in>set (dblock d4 (?p ?ns) n # dmeta d4 (?p ?ns) n). db \<le> b \<and> b < hg)" if n: "n < m" for n
      proof (cases "n < M")
        case True
        then show ?thesis using low [OF True ns(1-3), of d4] l1 leaves_index [OF l1 True] by (auto simp: leaves_def)
      next
        case False
        define q where "q = n - 896"
        have q: "n = 896 + q" "q < M2" using False n M7 by (auto simp: q_def M2m)
        have qi: "q div 128 < length cs" by (rule leaves_index [OF l2 q(2)])
        have a7: "unat (i_addr (?p ?ns) ! 7) = ?x" using addr [of 7 ?ns] ns(2,3) lb7 by (simp add: nth_append del: map_append)
        have "cs ! (q div 128) < hg" using l2 nth_mem [OF qi] by (simp add: leaves_def)
        then have "cs ! (q div 128) < 16384" using x by linarith
        then have w: "disk_word d4 ?x (q div 128) = cs ! (q div 128)"
          using lc(2) qi d4 x by (intro disk_word_indir) auto
        have md: "n mod 128 = q mod 128" unfolding q(1) using mod_mult_self4 [of 128 7 q] by simp
        have me: "dmeta d4 (?p ?ns) n = [?x, cs ! (q div 128)]" using a7 w p(2) q(1) by (simp add: dmeta_def del: map_append)
        then have bl: "dblock d4 (?p ?ns) n = disk_word d4 (cs ! (q div 128)) (q mod 128)" using p(2) md by (simp add: dblock_def)
        have "drop (BSIZE * q) data2 = drop (BSIZE * n) data" by (simp add: data2_def M7 q(1) algebra_simps)
        then show ?thesis using l2 q(2) qi x unfolding me bl by (auto simp: leaves_def)
      qed
      then show ?thesis using p m by (auto simp: has_file_def isize_def)
    qed
    moreover have "\<forall>b. b < db \<or> hg \<le> b \<longrightarrow> ?d3 b = d b" using i1(3) i2(3) x by auto
    ultimately show ?thesis using run ns by blast
  qed
qed


lemma disk_inode_same: "d' (iblk ino) = d (iblk ino) \<Longrightarrow> disk_inode d' ino = disk_inode d ino"
  by (simp add: disk_inode_def)

text \<open>\<open>stored ino lo hi d d' data\<close>: the file of the inode is in place and nothing else has
  changed.\<close>

definition stored_file :: "nat \<Rightarrow> nat \<Rightarrow> nat \<Rightarrow> disk \<Rightarrow> disk \<Rightarrow> byte list \<Rightarrow> bool" where
  "stored_file ino lw hg d d' data \<longleftrightarrow> has_file lw hg d' (disk_inode d' ino) data \<and> dchange ino lw hg d d'
     \<and> i_nlink (disk_inode d' ino) = i_nlink (disk_inode d ino)
     \<and> i_mode (disk_inode d' ino) = (if 8 < nblk (length data) then i_mode (disk_inode d ino) OR ILARG else i_mode (disk_inode d ino))"

lemma hasf_ilarg: "hasf (m OR ILARG :: mode_t) ILARG"
  by (simp add: hasf_or hasf_def)

lemma rd_write_data_inode_run:
  assumes i: "iblk ino < db" and hg: "hg = db + all_blocks (length data)" "hg \<le> 16384"
    and fl: "\<not> hasf (i_mode (disk_inode d ino)) ILARG"
  shows "\<exists>d'. rd_write_data_inode ino data db d = Some (hg, d') \<and> stored_file ino db hg d d' data"
proof -
  let ?b = "iblk ino" and ?o = "ioff ino"
  have ib: "?b < 16384" using i hg by simp
  have len: "length data < 2 ^ 24" using all_blocks_bound [of db "length data"] hg by simp
  have cl: "own_bytes (\<lambda>i. set_iaddrs [] i \<circ> set_isize (of_nat (length data)) i)"
    by (intro own_bytes_comp own_bytes_ops)
  define d1 where "d1 = d(?b := (set_iaddrs [] ?o \<circ> set_isize (of_nat (length data)) ?o) (d ?b))"
  have c1: "dchange ino db hg d d1" unfolding d1_def by (rule dchange_inode [OF cl])
  have p1: "disk_inode d1 ino = (disk_inode d ino)\<lparr>i_size0 := ucast (drop_bit 16 (of_nat (length data) :: 32 word)),
      i_size1 := ucast (ucast (of_nat (length data) :: 32 word) :: uint16_t), i_addr := replicate 8 0\<rparr>"
    by (simp add: d1_def disk_inode_def load_set_iaddrs load_set_isize)
  have s1: "unat (isize (disk_inode d1 ino)) = length data"
    using isize_set [OF len, of "disk_inode d ino"] by (simp add: p1 isize_def)
  let ?w = "\<lambda>ns d2. d2(?b := set_iaddrs ns ?o (d2 ?b))"
  have addrs: "disk_inode (?w ns d2) ino = (disk_inode d2 ino)\<lparr>i_addr := map of_nat (ns @ replicate (8 - length ns) 0)\<rparr>"
      "dchange ino db hg d2 (?w ns d2)" if "length ns \<le> 8" "\<forall>n\<in>set ns. n < 16384" for ns d2
  proof -
    have "\<forall>n\<in>set ns. n < 65536" using that(2) by auto
    then show "disk_inode (?w ns d2) ino = (disk_inode d2 ino)\<lparr>i_addr := map of_nat (ns @ replicate (8 - length ns) 0)\<rparr>"
      using that(1) by (simp add: disk_inode_def load_set_iaddrs del: map_append)
    show "dchange ino db hg d2 (?w ns d2)" by (rule dchange_inode [OF own_bytes_ops(4)])
  qed
  show ?thesis
  proof (cases "nblk (length data) \<le> 8")
    case True
    define m where "m = nblk (length data)"
    have m: "m = min 8 (nblk (length data))" "hg = db + m" "m \<le> 8" using True hg(1) by (simp_all add: m_def all_blocks_def)
    have r: "m = 0 \<or> db + m \<le> 16384" using m(2) hg(2) by simp
    let ?d2 = "put_blocks db m data d1" and ?ns = "[db..<db + m]"
    have ns: "length ?ns \<le> 8" "\<forall>n\<in>set ?ns. n < 16384" using m hg by auto
    have same: "disk_inode ?d2 ino = disk_inode d1 ino" using i by (intro disk_inode_same) (simp add: put_blocks_def)
    have run: "rd_write_data_inode ino data db d = Some (hg, ?w ?ns ?d2)"
      using True ib rd_blocks_run [OF m(1) r] by (simp add: rd_write_data_inode_def nblk_def at_inode_run m(2) d1_def)
    have "dchange ino db hg d1 ?d2" using m(2) by (intro dchange_blocks) (auto simp: put_blocks_def)
    then have ch: "dchange ino db hg d (?w ?ns ?d2)" using c1 addrs(2) [OF ns] by (blast intro: dchange_trans)
    have "has_file db (db + m) (?w ?ns ?d2) (disk_inode (?w ?ns ?d2) ino) data"
    proof (rule has_file_small)
      show "unat (isize (disk_inode (?w ?ns ?d2) ino)) = length data"
        using s1 addrs(1) [OF ns] by (simp add: same isize_def)
      show "\<not> hasf (i_mode (disk_inode (?w ?ns ?d2) ino)) ILARG" using fl addrs(1) [OF ns] by (simp add: same p1)
      show "i_addr (disk_inode (?w ?ns ?d2) ino) = map of_nat (?ns @ replicate (8 - m) 0)" using addrs(1) [OF ns, of ?d2] by simp
      show "?w ?ns ?d2 b = fill_block (drop (BSIZE * (b - db)) data)" if "db \<le> b" "b < db + m" for b
        using that i by (simp add: put_blocks_def)
    qed (use m hg m_def in auto)
    then have "stored_file ino db hg d (?w ?ns ?d2) data"
      using True ch addrs(1) [OF ns, of ?d2] m(2) by (simp add: stored_file_def same p1)
    with run show ?thesis by blast
  next
    case False
    define m where "m = nblk (length data)"
    have h: "hg = db + with_indirect m + (if 896 < m then 1 else 0)" "8 < m" using False hg(1) by (simp_all add: all_blocks_def m_def)
    define d2 where "d2 = d1(?b := set_ilarg ?o (d1 ?b))"
    have c2: "dchange ino db hg d1 d2" unfolding d2_def by (rule dchange_inode [OF own_bytes_ops(5)])
    have p2: "disk_inode d2 ino = (disk_inode d1 ino)\<lparr>i_mode := i_mode (disk_inode d1 ino) OR ILARG\<rparr>"
      by (simp add: d2_def disk_inode_def load_set_ilarg)
    have "unat (isize (disk_inode d2 ino)) = length data" "hasf (i_mode (disk_inode d2 ino)) ILARG"
      using s1 by (simp_all add: p2 isize_def hasf_ilarg)
    then obtain ns d3 where l: "rd_large data db d2 = Some (ns, hg, d3)" "length ns \<le> 8" "\<forall>n\<in>set ns. db \<le> n \<and> n < hg"
      "\<And>b. b < db \<or> hg \<le> b \<Longrightarrow> d3 b = d2 b"
      "\<And>d4. \<forall>b. db \<le> b \<and> b < hg \<longrightarrow> d4 b = d3 b \<Longrightarrow>
         has_file db hg d4 ((disk_inode d2 ino)\<lparr>i_addr := map of_nat (ns @ replicate (8 - length ns) 0)\<rparr>) data"
      using rd_large_run [OF m_def h(2) h(1) hg(2), of "disk_inode d2 ino" d2] by blast
    have ns: "length ns \<le> 8" "\<forall>n\<in>set ns. n < 16384" using l(2,3) hg(2) by auto
    have same: "disk_inode d3 ino = disk_inode d2 ino" using i l(4) by (intro disk_inode_same) simp
    have run: "rd_write_data_inode ino data db d = Some (hg, ?w ns d3)"
      using False ib l(1) by (simp add: rd_write_data_inode_def nblk_def at_inode_run d1_def d2_def)
    have "dchange ino db hg d2 d3" by (rule dchange_blocks [OF l(4)])
    then have ch: "dchange ino db hg d (?w ns d3)" using c1 c2 addrs(2) [OF ns] by (blast intro: dchange_trans)
    have "has_file db hg (?w ns d3) (disk_inode (?w ns d3) ino) data"
      unfolding addrs(1) [OF ns] same by (rule l(5)) (use i in auto)
    then have "stored_file ino db hg d (?w ns d3) data"
      using False ch addrs(1) [OF ns, of d3] by (simp add: stored_file_def same p1 p2)
    with run show ?thesis by blast
  qed
qed


subsection \<open>The loops over files and directories\<close>

definition keeps :: "nat \<Rightarrow> nat set \<Rightarrow> nat \<Rightarrow> nat \<Rightarrow> disk \<Rightarrow> disk \<Rightarrow> bool" where
  "keeps L I db hg d d' \<longleftrightarrow> (\<forall>ino. 0 < ino \<and> ino \<notin> I \<and> iblk ino < db \<longrightarrow> disk_inode d' ino = disk_inode d ino)
     \<and> (\<forall>b. (b < 2 \<or> L \<le> b) \<and> (b < db \<or> hg \<le> b) \<longrightarrow> d' b = d b)"

lemma keeps_refl: "keeps L I db hg d d"
  by (simp add: keeps_def)

lemma keeps_trans: "keeps L I db hg d d' \<Longrightarrow> keeps L J db' hg' d' d'' \<Longrightarrow> db \<le> db' \<Longrightarrow> hg \<le> hg' \<Longrightarrow> keeps L (I \<union> J) db hg' d d''"
proof -
  assume a: "keeps L I db hg d d'" "keeps L J db' hg' d' d''" and le: "db \<le> db'" "hg \<le> hg'"
  have "d'' b = d b" if b: "b < 2 \<or> L \<le> b" "b < db \<or> hg' \<le> b" for b
  proof -
    have "b < db \<or> hg \<le> b" "b < db' \<or> hg' \<le> b" using b(2) le by linarith+
    then show ?thesis using a b(1) by (simp add: keeps_def)
  qed
  moreover have "disk_inode d'' i = disk_inode d i" if "0 < i" "i \<notin> I \<union> J" "iblk i < db" for i
    using a le that by (simp add: keeps_def)
  ultimately show ?thesis by (simp add: keeps_def)
qed

lemma iblk_ge: "2 \<le> iblk ino"
  by (simp add: iblk_def)

lemma dchange_keeps: "dchange ino db hg d d' \<Longrightarrow> 0 < ino \<Longrightarrow> iblk ino < L \<Longrightarrow> keeps L {ino} db hg d d'"
  using iblk_ge [of ino] unfolding keeps_def by (auto intro!: dchange_other simp: dchange_def fun_eq_iff)

lemma keeps_file:
  assumes "has_file lw hg d (disk_inode d ino) data" "keeps L I db e d d'" "0 < ino" "ino \<notin> I" "iblk ino < db" "L \<le> lw" "hg \<le> db"
  shows "has_file lw hg d' (disk_inode d' ino) data \<and> disk_inode d' ino = disk_inode d ino"
proof -
  have same: "disk_inode d' ino = disk_inode d ino" using assms(2-5) by (simp add: keeps_def)
  have "has_file lw hg d' (disk_inode d' ino) data"
    by (rule has_file_keep [OF assms(1) same]) (use assms(2,6,7) in \<open>auto simp: keeps_def\<close>)
  with same show ?thesis by blast
qed

definition file_mode :: "rd_file \<Rightarrow> mode_t" where
  "file_mode f = (let m = IALLOC OR ucast (rf_mode f AND 0xFFF) in if 8 < nblk (length (rf_data f)) then m OR ILARG else m)"

definition file_in :: "nat \<Rightarrow> nat \<Rightarrow> disk \<Rightarrow> nat \<Rightarrow> rd_file \<Rightarrow> bool" where
  "file_in lw hg d ino f \<longleftrightarrow> has_file lw hg d (disk_inode d ino) (rf_data f)
     \<and> i_mode (disk_inode d ino) = file_mode f \<and> i_nlink (disk_inode d ino) = 1"

text \<open>The blocks that the files take.\<close>

primrec files_blocks :: "rd_file list \<Rightarrow> nat" where
  "files_blocks [] = 0"
| "files_blocks (f # fs) = all_blocks (length (rf_data f)) + files_blocks fs"

text \<open>The directories after the loop.\<close>

definition add_name :: "rd_file \<Rightarrow> nat \<Rightarrow> rd_dirs \<Rightarrow> rd_dirs" where
  "add_name f ino ds = (case file_dir (rf_path f) of None \<Rightarrow> ds
     | Some n \<Rightarrow> ds(n := ds n @ [(ino, rd_name_from_path (rf_path f))]))"

primrec add_names :: "rd_file list \<Rightarrow> nat \<Rightarrow> rd_dirs \<Rightarrow> rd_dirs" where
  "add_names [] ino ds = ds"
| "add_names (f # fs) ino ds = add_names fs (ino + 1) (add_name f ino ds)"

lemma file_mode_small: "\<not> hasf (IALLOC OR ucast (rf_mode f AND 0xFFF) :: mode_t) ILARG"
proof -
  have "(ucast (rf_mode f AND 0xFFF) :: mode_t) AND ILARG = 0"
    by (rule bit_word_eqI) (auto simp: bit_simps bit_iff_odd [of "4095 :: int32_t"] bit_iff_odd [of "4096 :: mode_t"] less_Suc_eq numeral_eq_Suc)
  then show ?thesis by (simp add: hasf_or) (simp add: hasf_def)
qed

lemma rd_add_file_run:
  assumes i: "iblk ino < db" "0 < ino" and hg: "hg = db + all_blocks (length (rf_data f))" "hg \<le> 16384"
    and r: "\<And>n. file_dir (rf_path f) = Some n \<Longrightarrow> length (ds n) < rd_dir_max n"
  shows "\<exists>d'. rd_add_file f ino (db, ds, d) = Some (hg, add_name f ino ds, d') \<and> file_in db hg d' ino f \<and> dchange ino db hg d d'"
proof -
  let ?b = "iblk ino" and ?o = "ioff ino"
  let ?m = "IALLOC OR ucast (rf_mode f AND 0xFFF) :: mode_t"
  let ?f = "\<lambda>i. set_iaddrs [] i \<circ> set_isize (of_nat (length (rf_data f))) i \<circ> set_inlink 1 i \<circ> set_imode ?m i"
  have ib: "?b < 16384" using i hg by simp
  define d1 where "d1 = d(?b := ?f ?o (d ?b))"
  have "own_bytes ?f" by (intro own_bytes_comp own_bytes_ops)
  then have c1: "dchange ino db hg d d1" unfolding d1_def by (rule dchange_inode)
  have p1: "i_mode (disk_inode d1 ino) = ?m" "i_nlink (disk_inode d1 ino) = 1"
    by (simp_all add: d1_def disk_inode_def load_set_iaddrs load_set_isize load_set_inlink load_set_imode)
  have "\<not> hasf (i_mode (disk_inode d1 ino)) ILARG" unfolding p1 by (rule file_mode_small)
  then obtain d2 where w: "rd_write_data_inode ino (rf_data f) db d1 = Some (hg, d2)" "stored_file ino db hg d1 d2 (rf_data f)"
    using rd_write_data_inode_run [OF i(1) hg] by blast
  have "rd_add_file f ino (db, ds, d) = Some (hg, add_name f ino ds, d2)"
    using w(1) r ib by (cases "file_dir (rf_path f)") (simp_all add: rd_add_file_def at_inode_run add_entry_def add_name_def d1_def)
  moreover have "file_in db hg d2 ino f" using w(2) p1 by (simp add: stored_file_def file_in_def file_mode_def)
  moreover have "dchange ino db hg d d2" using w(2) c1 by (auto simp: stored_file_def intro: dchange_trans)
  ultimately show ?thesis by blast
qed

lemma add_name_grows: "length (ds n) \<le> length (add_name f ino ds n)"
  by (auto simp: add_name_def split: option.splits)

lemma add_names_grows: "length (ds n) \<le> length (add_names fs ino ds n)"
proof (induction fs arbitrary: ino ds)
  case (Cons f fs)
  have "length (ds n) \<le> length (add_name f ino ds n)" by (rule add_name_grows)
  also have "\<dots> \<le> length (add_names fs (ino + 1) (add_name f ino ds) n)" by (rule Cons.IH)
  finally show ?case by simp
qed simp

lemma rd_add_files_run:
  assumes "\<And>j. j < length fs \<Longrightarrow> iblk (ino + j) < L" "L \<le> db" "0 < ino"
    and "db + files_blocks fs \<le> 16384"
    and "\<And>f n. f \<in> set fs \<Longrightarrow> file_dir (rf_path f) = Some n \<Longrightarrow> length (add_names fs ino ds n) \<le> rd_dir_max n"
  shows "\<exists>d'. rd_add_files fs ino (db, ds, d)
      = Some (db + files_blocks fs, add_names fs ino ds, d')
    \<and> (\<forall>j<length fs. file_in L (db + files_blocks fs) d' (ino + j) (fs ! j))
    \<and> keeps L {ino..<ino + length fs} db (db + files_blocks fs) d d'"
  using assms
proof (induction fs arbitrary: ino db ds d)
  case Nil
  then show ?case by (simp add: keeps_refl)
next
  case (Cons f fs)
  define hg where "hg = db + all_blocks (length (rf_data f))"
  define e where "e = hg + files_blocks fs"
  have e: "db + files_blocks (f # fs) = e" by (simp add: e_def hg_def)
  have i: "iblk ino < L" using Cons.prems(1) [of 0] by simp
  have room: "length (ds n) < rd_dir_max n" if "file_dir (rf_path f) = Some n" for n
  proof -
    have "Suc (length (ds n)) \<le> length (add_names fs (ino + 1) (add_name f ino ds) n)"
      using add_names_grows [of "add_name f ino ds" n fs "ino + 1"] that by (simp add: add_name_def)
    moreover have "length (add_names (f # fs) ino ds n) \<le> rd_dir_max n"
      using that by (intro Cons.prems(5) [of f]) simp_all
    ultimately show ?thesis by simp
  qed
  have "iblk ino < db" "hg \<le> 16384" using i Cons.prems(2,4) by (simp_all add: hg_def)
  then obtain d1 where d1: "rd_add_file f ino (db, ds, d) = Some (hg, add_name f ino ds, d1)" "file_in db hg d1 ino f" "dchange ino db hg d d1"
    using rd_add_file_run [OF _ Cons.prems(3) hg_def] room by blast
  have k1: "keeps L {ino} db hg d d1" by (rule dchange_keeps [OF d1(3) Cons.prems(3) i])
  have IHs: "iblk (ino + 1 + j) < L" if "j < length fs" for j using Cons.prems(1) [of "Suc j"] that by simp
  have "length (add_names fs (ino + 1) (add_name f ino ds) n) \<le> rd_dir_max n"
    if "g \<in> set fs" "file_dir (rf_path g) = Some n" for g n
    using that Cons.prems(5) [of g n] by simp
  moreover have "L \<le> hg" "hg + files_blocks fs \<le> 16384"
    using Cons.prems(2,4) by (simp_all add: hg_def)
  ultimately obtain d2 where d2: "rd_add_files fs (ino + 1) (hg, add_name f ino ds, d1) = Some (e, add_names fs (ino + 1) (add_name f ino ds), d2)"
    "\<And>j. j < length fs \<Longrightarrow> file_in L e d2 (ino + 1 + j) (fs ! j)" "keeps L {ino + 1..<ino + 1 + length fs} hg e d1 d2"
    using Cons.IH [of "ino + 1" hg "add_name f ino ds" d1, OF IHs] unfolding e_def [symmetric] by auto
  have f2: "file_in L e d2 ino f"
  proof -
    have "has_file db hg d2 (disk_inode d2 ino) (rf_data f) \<and> disk_inode d2 ino = disk_inode d1 ino"
      using d1(2) i Cons.prems(2,3) by (intro keeps_file [OF _ d2(3)]) (auto simp: file_in_def hg_def)
    then show ?thesis using d1(2) Cons.prems(2) by (auto simp: file_in_def e_def intro: has_file_weaken)
  qed
  have "file_in L e d2 (ino + j) ((f # fs) ! j)" if "j < length (f # fs)" for j
    using f2 d2(2) [of "j - 1"] that by (cases j) auto
  moreover have "keeps L {ino..<ino + length (f # fs)} db e d d2"
  proof -
    have "{ino} \<union> {ino + 1..<ino + 1 + length fs} = {ino..<ino + length (f # fs)}" by auto
    then show ?thesis using keeps_trans [OF k1 d2(3)] by (simp add: hg_def e_def)
  qed
  moreover have "rd_add_files (f # fs) ino (db, ds, d) = Some (e, add_names (f # fs) ino ds, d2)"
    using d1(1) d2(1) by simp
  ultimately show ?case unfolding e by blast
qed


primrec dirs_blocks :: "nat list \<Rightarrow> rd_dirs \<Rightarrow> nat" where
  "dirs_blocks [] ds = 0"
| "dirs_blocks (n # ns) ds = all_blocks (length (dir_bytes (ds n))) + dirs_blocks ns ds"

lemma length_dirent [simp]: "length (dirent e) = 16"
  by (simp add: dirent_def)

lemma length_dir_bytes [simp]: "length (dir_bytes es) = 16 * length es"
  unfolding dir_bytes_def by (induction es) simp_all

text \<open>A directory in place with its mode and link count unchanged.\<close>

definition dir_in :: "nat \<Rightarrow> nat \<Rightarrow> disk \<Rightarrow> disk \<Rightarrow> rd_dirs \<Rightarrow> nat \<Rightarrow> bool" where
  "dir_in lw hg d d' ds n \<longleftrightarrow> has_file lw hg d' (disk_inode d' n) (dir_bytes (ds n))
     \<and> i_mode (disk_inode d' n) = i_mode (disk_inode d n) \<and> i_nlink (disk_inode d' n) = i_nlink (disk_inode d n)"

lemma rd_add_dirs_run:
  assumes "\<And>n. n \<in> set ns \<Longrightarrow> 0 < n \<and> iblk n < L" "L \<le> db" "distinct ns" "db + dirs_blocks ns ds \<le> 16384"
    and "\<And>n. n \<in> set ns \<Longrightarrow> \<not> hasf (i_mode (disk_inode d n)) ILARG \<and> length (ds n) \<le> 256"
  shows "\<exists>d'. rd_add_dirs ns ds (db, d) = Some (db + dirs_blocks ns ds, d')
    \<and> (\<forall>n\<in>set ns. dir_in db (db + dirs_blocks ns ds) d d' ds n) \<and> keeps L (set ns) db (db + dirs_blocks ns ds) d d'"
  using assms
proof (induction ns arbitrary: db d)
  case Nil
  then show ?case by (simp add: keeps_refl)
next
  case (Cons n ns)
  define hg where "hg = db + all_blocks (length (dir_bytes (ds n)))"
  define e where "e = hg + dirs_blocks ns ds"
  have e: "db + dirs_blocks (n # ns) ds = e" by (simp add: e_def hg_def)
  have n: "0 < n" "iblk n < L" "\<not> hasf (i_mode (disk_inode d n)) ILARG" "length (ds n) \<le> 256" "n \<notin> set ns"
    using Cons.prems(1,3,5) by simp_all
  have "iblk n < db" "hg \<le> 16384" using n(2) Cons.prems(2,4) by (simp_all add: hg_def)
  then obtain d1 where d1: "rd_write_data_inode n (dir_bytes (ds n)) db d = Some (hg, d1)" "stored_file n db hg d d1 (dir_bytes (ds n))"
    using rd_write_data_inode_run [OF _ hg_def _ n(3)] by blast
  have k1: "keeps L {n} db hg d d1" using d1(2) n by (intro dchange_keeps) (auto simp: stored_file_def)
  have same: "disk_inode d1 m = disk_inode d m" if "m \<in> set ns" for m
    using k1 n(5) Cons.prems(1) [of m] Cons.prems(2) that by (auto simp: keeps_def)
  have "\<exists>d'. rd_add_dirs ns ds (hg, d1) = Some (e, d') \<and> (\<forall>n\<in>set ns. dir_in hg e d1 d' ds n) \<and> keeps L (set ns) hg e d1 d'"
    unfolding e_def using Cons.prems same by (intro Cons.IH) (simp_all add: hg_def)
  then obtain d2 where d2: "rd_add_dirs ns ds (hg, d1) = Some (e, d2)" "\<And>m. m \<in> set ns \<Longrightarrow> dir_in hg e d1 d2 ds m"
      "keeps L (set ns) hg e d1 d2" by blast
  have sm: "\<not> 8 < nblk (length (dir_bytes (ds n)))" using n(4) by (simp add: nblk_def)
  have kn: "has_file db hg d2 (disk_inode d2 n) (dir_bytes (ds n)) \<and> disk_inode d2 n = disk_inode d1 n"
    using d1(2) n Cons.prems(2) by (intro keeps_file [OF _ d2(3)]) (auto simp: stored_file_def hg_def)
  have "dir_in db e d d2 ds n"
    using kn d1(2) sm by (auto simp: dir_in_def stored_file_def e_def intro: has_file_weaken)
  moreover have "dir_in db e d d2 ds m" if "m \<in> set ns" for m
    using d2(2) [OF that] same [OF that] by (auto simp: dir_in_def hg_def intro: has_file_weaken)
  moreover have "keeps L (set (n # ns)) db e d d2" using keeps_trans [OF k1 d2(3)] by (simp add: hg_def e_def)
  ultimately show ?case using d1(1) d2(1) unfolding e by auto
qed

subsection \<open>The steps before and after\<close>

lemma at_inode_ok:
  assumes "own_bytes f" "0 < ino" "iblk ino < L" "L \<le> 16384"
  shows "\<exists>d'. at_inode ino f d = Some d' \<and> disk_inode d' ino = load_dinode (f (ioff ino) (d (iblk ino))) (ioff ino) zero_inode
    \<and> keeps L {ino} 16384 16384 d d'"
  using assms dchange_keeps [OF dchange_inode [OF assms(1), of ino 16384 16384 d] assms(2,3)]
  by (simp add: at_inode_run) (simp add: disk_inode_def)

lemma rd_set_modes_run:
  assumes "\<And>m. m \<in> set ms \<Longrightarrow> 0 < fst m \<and> iblk (fst m) < L" "L \<le> 16384" "distinct (map fst ms)"
  shows "\<exists>d'. rd_set_modes ms d = Some d' \<and> keeps L (fst ` set ms) 16384 16384 d d'
    \<and> (\<forall>m\<in>set ms. i_mode (disk_inode d' (fst m)) = fst (snd m) \<and> i_nlink (disk_inode d' (fst m)) = snd (snd m))"
  using assms
proof (induction ms arbitrary: d)
  case Nil
  then show ?case by (simp add: keeps_refl)
next
  case (Cons m ms)
  let ?f = "\<lambda>i. set_inlink (snd (snd m)) i \<circ> set_imode (fst (snd m)) i"
  have m: "0 < fst m" "iblk (fst m) < L" using Cons.prems(1) by simp_all
  have "own_bytes ?f" by (intro own_bytes_comp own_bytes_ops)
  then obtain d1 where d1: "at_inode (fst m) ?f d = Some d1" "keeps L {fst m} 16384 16384 d d1"
    "disk_inode d1 (fst m) = load_dinode (?f (ioff (fst m)) (d (iblk (fst m)))) (ioff (fst m)) zero_inode"
    using at_inode_ok [OF _ m Cons.prems(2)] by blast
  obtain d2 where d2: "rd_set_modes ms d1 = Some d2" "keeps L (fst ` set ms) 16384 16384 d1 d2"
    "\<And>m. m \<in> set ms \<Longrightarrow> i_mode (disk_inode d2 (fst m)) = fst (snd m) \<and> i_nlink (disk_inode d2 (fst m)) = snd (snd m)"
  proof -
    have "\<exists>d'. rd_set_modes ms d1 = Some d' \<and> keeps L (fst ` set ms) 16384 16384 d1 d'
      \<and> (\<forall>m\<in>set ms. i_mode (disk_inode d' (fst m)) = fst (snd m) \<and> i_nlink (disk_inode d' (fst m)) = snd (snd m))"
      using Cons.prems by (intro Cons.IH) simp_all
    then show ?thesis using that by blast
  qed
  have "fst m \<notin> fst ` set ms" using Cons.prems(3) by simp
  then have "disk_inode d2 (fst m) = disk_inode d1 (fst m)" using d2(2) m Cons.prems(2) by (simp add: keeps_def)
  then have "i_mode (disk_inode d2 (fst m)) = fst (snd m)" "i_nlink (disk_inode d2 (fst m)) = snd (snd m)"
    by (simp_all add: d1(3) load_set_inlink load_set_imode)
  moreover have "keeps L (fst ` set (m # ms)) 16384 16384 d d2" using keeps_trans [OF d1(2) d2(2)] by simp
  ultimately show ?case using d1(1) d2(1,3) by auto
qed

text \<open>Changes that leave modes and link counts alone.\<close>

definition same_modes :: "disk \<Rightarrow> disk \<Rightarrow> bool" where
  "same_modes d d' \<longleftrightarrow> (\<forall>ino. 0 < ino \<and> iblk ino < 16384 \<longrightarrow>
     i_mode (disk_inode d' ino) = i_mode (disk_inode d ino) \<and> i_nlink (disk_inode d' ino) = i_nlink (disk_inode d ino))"

lemma same_modes_at:
  assumes "own_bytes f" "0 < ino" "iblk ino < L" "L \<le> 16384"
    and f: "\<And>i b. i_mode (load_dinode (f i b) i zero_inode) = i_mode (load_dinode b i zero_inode)
      \<and> i_nlink (load_dinode (f i b) i zero_inode) = i_nlink (load_dinode b i zero_inode)"
  shows "\<exists>d'. at_inode ino f d = Some d' \<and> same_modes d d' \<and> keeps L {ino} 16384 16384 d d'"
proof -
  obtain d1 where d1: "at_inode ino f d = Some d1" "keeps L {ino} 16384 16384 d d1"
    "disk_inode d1 ino = load_dinode (f (ioff ino) (d (iblk ino))) (ioff ino) zero_inode"
    using at_inode_ok [OF assms(1-4)] by blast
  have "i_mode (disk_inode d1 x) = i_mode (disk_inode d x) \<and> i_nlink (disk_inode d1 x) = i_nlink (disk_inode d x)"
    if "0 < x" "iblk x < 16384" for x
    using that d1(2,3) f by (cases "x = ino") (simp_all add: keeps_def, simp add: disk_inode_def)
  with d1(1,2) show ?thesis by (auto simp: same_modes_def)
qed

lemma rd_set_sizes_run:
  assumes "\<And>n. n \<in> set ns \<Longrightarrow> 0 < n \<and> iblk n < L" "L \<le> 16384"
  shows "\<exists>d'. rd_set_sizes ns d = Some d' \<and> same_modes d d' \<and> keeps L (set ns) 16384 16384 d d'"
  using assms
proof (induction ns arbitrary: d)
  case Nil
  then show ?case by (simp add: keeps_refl same_modes_def)
next
  case (Cons n ns)
  have n: "0 < n" "iblk n < L" using Cons.prems(1) by simp_all
  obtain d1 where d1: "at_inode n (set_isize (of_nat (length (dir_bytes (rd_dirs0 n))))) d = Some d1" "same_modes d d1" "keeps L {n} 16384 16384 d d1"
    using same_modes_at [OF own_bytes_ops(3) n Cons.prems(2), of "of_nat (length (dir_bytes (rd_dirs0 n)))" d] by (auto simp: load_set_isize)
  obtain d2 where d2: "rd_set_sizes ns d1 = Some d2" "same_modes d1 d2" "keeps L (set ns) 16384 16384 d1 d2"
    using Cons.IH [of d1] Cons.prems by auto
  have "same_modes d d2" using d1(2) d2(2) by (simp add: same_modes_def)
  moreover have "keeps L (set (n # ns)) 16384 16384 d d2" using keeps_trans [OF d1(3) d2(3)] by simp
  ultimately show ?case using d1(1) d2(1) by (simp del: length_dir_bytes)
qed


lemma has_file_fields:
  "has_file lw hg d p data \<Longrightarrow> i_addr p' = i_addr p \<Longrightarrow> unat (isize p') = length data
    \<Longrightarrow> hasf (i_mode p') ILARG = hasf (i_mode p) ILARG \<Longrightarrow> has_file lw hg d p' data"
proof -
  assume a: "has_file lw hg d p data" "i_addr p' = i_addr p" "unat (isize p') = length data" "hasf (i_mode p') ILARG = hasf (i_mode p) ILARG"
  have "dmeta d p' = dmeta d p" "dblock d p' = dblock d p" using a(2,4) by (simp_all add: fun_eq_iff dblock_def dmeta_def)
  with a show ?thesis by (simp add: has_file_def)
qed

lemma has_file_change:
  assumes "has_file lw hg d (disk_inode d n) data" "keeps L I 16384 16384 d d'" "L \<le> lw" "hg \<le> 16384"
    and "i_addr (disk_inode d' n) = i_addr (disk_inode d n)" "unat (isize (disk_inode d' n)) = length data"
      "hasf (i_mode (disk_inode d' n)) ILARG = hasf (i_mode (disk_inode d n)) ILARG"
  shows "has_file lw hg d' (disk_inode d' n) data"
  by (rule has_file_cong [OF has_file_fields [OF assms(1,5-7)]]) (use assms(2-4) in \<open>auto simp: keeps_def\<close>)

lemma unat_ucast16: "unat (ucast w :: 32 word) = unat (w :: 16 word)"
proof -
  have "unat w < 2 ^ 16" using unsigned_less [of w] by simp
  then show ?thesis by (simp add: unsigned_ucast_eq take_bit_nat_eq_self)
qed

lemma rd_rewrite_run:
  assumes f: "has_file lw hg d (disk_inode d n) (dir_bytes (ds n))" and l: "0 < length (ds n)" "length (ds n) \<le> 256"
    and "hg \<le> 16384"
  shows "rd_rewrite ds n d = Some d"
proof -
  let ?b = "unat (get16 (d (iblk n)) (ioff n + 8))"
  have nb: "0 < nblk (length (dir_bytes (ds n)))" "\<not> 8 < nblk (length (dir_bytes (ds n)))" using l in_nblk [of 0 "length (dir_bytes (ds n))"] by (simp_all add: nblk_def)
  have "unat (i_addr (disk_inode d n) ! 0) = ?b"
    by (simp add: disk_inode_def load_dinode_def upt_conv_Cons unat_ucast16)
  then have "dblock d (disk_inode d n) 0 = ?b" using f nb(2) by (simp add: dblock_def has_file_def)
  then have "d ?b = fill_block (dir_bytes (ds n)) \<and> ?b < hg" using f nb(1) unfolding has_file_def by force
  then show ?thesis using assms(4) by (simp add: rd_rewrite_def rd_write_block_run fun_upd_idem)
qed

definition dir_mode :: mode_t where
  "dir_mode = IALLOC OR IFDIR OR 0x1ED"

lemma dir_mode_small: "\<not> hasf dir_mode ILARG" "\<not> hasf (IALLOC OR (IFDIR OR 0x1ED)) ILARG"
  by (simp_all add: dir_mode_def hasf_def)

definition finished :: "nat \<Rightarrow> nat \<Rightarrow> disk \<Rightarrow> rd_dirs \<Rightarrow> nat \<Rightarrow> bool" where
  "finished lw hg d ds n \<longleftrightarrow> has_file lw hg d (disk_inode d n) (dir_bytes (ds n)) \<and> i_mode (disk_inode d n) = dir_mode"

lemma finished_keep: "finished lw hg d ds n \<Longrightarrow> keeps L I 16384 16384 d d' \<Longrightarrow> 0 < n \<Longrightarrow> n \<notin> I \<Longrightarrow> iblk n < 16384
    \<Longrightarrow> L \<le> lw \<Longrightarrow> hg \<le> 16384 \<Longrightarrow> finished lw hg d' ds n"
  using keeps_file unfolding finished_def by metis

lemma set_isize_finished:
  assumes n: "0 < n" "iblk n < L" "L \<le> lw" "hg \<le> 16384" "L \<le> 16384" "length (ds n) \<le> 256"
    and f: "has_file lw hg d (disk_inode d n) (dir_bytes (ds n))"
    and own: "own_bytes f" and m: "\<And>i b. i_mode (load_dinode (f i b) i zero_inode) = (if same then i_mode (load_dinode b i zero_inode) else dir_mode)"
      "\<And>i b. i_addr (load_dinode (f i b) i zero_inode) = i_addr (load_dinode b i zero_inode)"
      "\<And>i b. isize (load_dinode (f i b) i zero_inode) = isize (load_dinode (set_isize (of_nat (length (dir_bytes (ds n)))) i b) i zero_inode)"
    and old: "\<not> hasf (i_mode (disk_inode d n)) ILARG" "same \<Longrightarrow> i_mode (disk_inode d n) = dir_mode"
  shows "\<exists>d'. at_inode n f d = Some d' \<and> finished lw hg d' ds n \<and> keeps L {n} 16384 16384 d d'"
proof -
  obtain d1 where d1: "at_inode n f d = Some d1" "keeps L {n} 16384 16384 d d1"
    "disk_inode d1 n = load_dinode (f (ioff n) (d (iblk n))) (ioff n) zero_inode"
    using at_inode_ok [OF own n(1,2,5)] by blast
  have sz: "unat (isize (disk_inode d1 n)) = length (dir_bytes (ds n))"
    unfolding d1(3) m(3) load_set_isize by (rule isize_set) (use n(6) in simp)
  have md: "i_mode (disk_inode d1 n) = dir_mode" "i_addr (disk_inode d1 n) = i_addr (disk_inode d n)"
    using old(2) by (simp_all add: d1(3) m(1,2)) (simp_all add: disk_inode_def)
  have "has_file lw hg d1 (disk_inode d1 n) (dir_bytes (ds n))"
    by (rule has_file_change [OF f d1(2) n(3,4) md(2) sz]) (use md(1) old(1) dir_mode_small in simp)
  with d1(1,2) md(1) show ?thesis by (auto simp: finished_def)
qed

lemma rd_finish_run:
  assumes L: "2 < L" "L \<le> lw" "hg \<le> 16384" "L \<le> 16384"
    and f: "\<And>n. n \<in> {2, 3, 4} \<Longrightarrow> has_file lw hg d (disk_inode d n) (dir_bytes (ds n)) \<and> 0 < length (ds n) \<and> length (ds n) \<le> 256"
    and m: "i_mode (disk_inode d 2) = dir_mode" "i_mode (disk_inode d 3) = dir_mode" "\<not> hasf (i_mode (disk_inode d 4)) ILARG"
  shows "\<exists>d'. rd_finish ds d = Some d' \<and> keeps L {2, 3, 4} 16384 16384 d d' \<and> (\<forall>n\<in>{2, 3, 4}. finished lw hg d' ds n)"
proof -
  let ?sz = "\<lambda>n. set_isize (of_nat (length (dir_bytes (ds n))))"
  let ?f4 = "\<lambda>i. ?sz 4 i \<circ> set_inlink 2 i \<circ> set_imode (IALLOC OR IFDIR OR 0x1ED) i"
  have b: "iblk 2 < L" "iblk 3 < L" "iblk 4 < L" "iblk 2 < 16384" "iblk 3 < 16384" "iblk 4 < 16384"
    using L(1) by (simp_all add: iblk_def)
  have o4: "own_bytes ?f4" by (intro own_bytes_comp own_bytes_ops)
  have f0: "finished lw hg d ds 2" "finished lw hg d ds 3" using f m(1,2) by (simp_all add: finished_def)
  have e: "length (ds 2) \<le> 256" "length (ds 3) \<le> 256" "length (ds 4) \<le> 256" using f by simp_all
  obtain d1 where d1: "at_inode 2 (?sz 2) d = Some d1" "finished lw hg d1 ds 2" "keeps L {2} 16384 16384 d d1"
    using set_isize_finished [of 2 L lw hg ds d "?sz 2" True] f0(1) L b e m(1) own_bytes_ops(3) dir_mode_small
    by (auto simp: finished_def load_set_isize)
  have k3: "finished lw hg d1 ds 3" using finished_keep [OF f0(2) d1(3)] L b by simp
  obtain d2 where d2: "at_inode 3 (?sz 3) d1 = Some d2" "finished lw hg d2 ds 3" "keeps L {3} 16384 16384 d1 d2"
    using set_isize_finished [of 3 L lw hg ds d1 "?sz 3" True] k3 L b e own_bytes_ops(3) dir_mode_small
    by (auto simp: finished_def load_set_isize)
  have k12: "keeps L ({2} \<union> {3}) 16384 16384 d d2" by (rule keeps_trans [OF d1(3) d2(3)]) simp_all
  have "has_file lw hg d2 (disk_inode d2 4) (dir_bytes (ds 4)) \<and> disk_inode d2 4 = disk_inode d 4"
    using f [of 4] by (intro keeps_file [OF _ k12]) (use L b in simp_all)
  then obtain d3 where d3: "at_inode 4 ?f4 d2 = Some d3" "finished lw hg d3 ds 4" "keeps L {4} 16384 16384 d2 d3"
    using set_isize_finished [of 4 L lw hg ds d2 ?f4 False] o4 L b e m(3)
    by (auto simp: load_set_isize load_set_inlink load_set_imode isize_def dir_mode_def or.assoc)
  have k: "keeps L ({2} \<union> {3} \<union> {4}) 16384 16384 d d3" by (rule keeps_trans [OF k12 d3(3)]) simp_all
  have k2: "finished lw hg d3 ds 2" "finished lw hg d3 ds 3"
    using finished_keep [OF finished_keep [OF d1(2) d2(3)] d3(3)] finished_keep [OF d2(2) d3(3)] L b by simp_all
  have "rd_rewrite ds n d3 = Some d3" if "n \<in> {2, 3, 4}" for n
    using k2 d3(2) that f [OF that] L(3) by (intro rd_rewrite_run) (auto simp: finished_def)
  then have "rd_finish ds d = Some d3" using d1(1) d2(1) d3(1) by (simp add: rd_finish_def del: length_dir_bytes)
  moreover have "{2} \<union> {3} \<union> {4} = {2, 3, 4 :: nat}" by auto
  ultimately show ?thesis using k k2 d3(2) by auto
qed


subsection \<open>The whole image\<close>

definition rd_dir_list :: "nat list" where
  "rd_dir_list = [1, 2, 3, 4, 5, 6, 8, 9, 10, 11, 12, 13, 14, 15, 16]"

text \<open>The directories and the first block not used, when the files fit.\<close>

definition rd_dirs_of :: "rd_file list \<Rightarrow> rd_dirs" where
  "rd_dirs_of fs = add_names fs 17 rd_dirs0"

definition rd_end :: "rd_file list \<Rightarrow> nat" where
  "rd_end fs = 2 + inode_blocks (length fs) + files_blocks fs + dirs_blocks rd_dir_list (rd_dirs_of fs)"

definition rd_fits :: "rd_file list \<Rightarrow> bool" where
  "rd_fits fs \<longleftrightarrow> rd_end fs \<le> 16384 \<and> (\<forall>n\<in>set rd_dir_list. length (rd_dirs_of fs n) \<le> rd_dir_max n)"

lemma file_dir_list: "file_dir path = Some n \<Longrightarrow> n \<in> set rd_dir_list"
  by (auto simp: file_dir_def include_dir_def rd_dir_list_def split: if_splits)

lemma rd_dirs_of_pos: "0 < length (rd_dirs_of fs n)"
proof -
  have "0 < length (rd_dirs0 n)" by (simp add: rd_dirs0_def)
  also have "\<dots> \<le> length (rd_dirs_of fs n)" unfolding rd_dirs_of_def by (rule add_names_grows)
  finally show ?thesis .
qed

lemma rd_mkfs_run:
  assumes "rd_fits fs"
  defines "L \<equiv> 2 + inode_blocks (length fs)" and "e \<equiv> rd_end fs" and "ds \<equiv> rd_dirs_of fs"
  shows "\<exists>d d5. rd_mkfs fs (\<lambda>_ _. 0) = Some d \<and> d = d5(1 := rd_free e (d5 1))
    \<and> (\<forall>j<length fs. file_in L e d (17 + j) (fs ! j)) \<and> (\<forall>n\<in>set rd_dir_list. finished L e d ds n)
    \<and> (\<forall>b. e \<le> b \<and> b < 16384 \<longrightarrow> d b = (\<lambda>_. 0)) \<and> d5 1 = rd_super (inode_blocks (length fs)) (\<lambda>_. 0)"
proof -
  have iL: "iblk (17 + j) < L" if "j < length fs" for j
    using that by (simp add: iblk_def L_def inode_blocks_def)
  have L3: "2 < L" by (simp add: L_def inode_blocks_def)
  have eL: "e = L + files_blocks fs + dirs_blocks rd_dir_list ds" "e \<le> 16384"
    using assms(1) by (simp_all add: e_def rd_end_def L_def ds_def rd_fits_def)
  have L16: "L \<le> 16384" using eL by linarith
  have b2: "iblk n = 2 \<and> 0 < n" if "n \<in> set rd_dir_list \<or> n = 7" for n using that by (auto simp: iblk_def rd_dir_list_def)
  let ?n = "inode_blocks (length fs)"
  define d0 :: disk where "d0 = (\<lambda>_ _. 0)(1 := rd_super ?n (\<lambda>_. 0))"
  have m0: "i_mode (disk_inode d0 4) = 0" by (simp add: d0_def disk_inode_def load_dinode_def iblk_def get16_def)
  obtain d1 where d1: "rd_set_modes rd_modes d0 = Some d1" "keeps L (fst ` set rd_modes) 16384 16384 d0 d1"
    "\<And>m. m \<in> set rd_modes \<Longrightarrow> i_mode (disk_inode d1 (fst m)) = fst (snd m)"
  proof -
    have "0 < fst m \<and> iblk (fst m) < L" if "m \<in> set rd_modes" for m using that L3 by (auto simp: rd_modes_def iblk_def)
    moreover have "distinct (map fst rd_modes)" by (simp add: rd_modes_def)
    ultimately show ?thesis using rd_set_modes_run [of rd_modes L d0] L16 that by blast
  qed
  have s3: "0 < n \<and> iblk n < L" if "n \<in> set [1, 2, 3]" for n using that L3 by (auto simp: iblk_def)
  obtain d2 where d2: "rd_set_sizes [1, 2, 3] d1 = Some d2" "same_modes d1 d2" "keeps L (set [1, 2, 3]) 16384 16384 d1 d2"
    using rd_set_sizes_run [of "[1, 2, 3]" L d1] s3 L16 by blast
  have o7: "own_bytes (\<lambda>i b. put16 b (i + 8) 0)" by (auto simp: own_bytes_def put16_apply)
  have b7: "iblk 7 < L" using L3 by (simp add: iblk_def)
  obtain d3 where d3: "at_inode 7 (\<lambda>i b. put16 b (i + 8) 0) d2 = Some d3" "same_modes d2 d3" "keeps L {7} 16384 16384 d2 d3"
    using same_modes_at [OF o7 _ b7 L16] by (auto simp: load_dinode_def dinode_simps)
  have k03: "keeps L (fst ` set rd_modes \<union> set [1, 2, 3] \<union> {7}) 16384 16384 d0 d3"
    by (rule keeps_trans [OF keeps_trans [OF d1(2) d2(3)] d3(3)]) simp_all
  have md: "i_mode (disk_inode d3 n) = i_mode (disk_inode d1 n)" if "n \<in> set rd_dir_list" for n
    using d2(2) d3(2) b2 [of n] that by (simp add: same_modes_def)
  have m4: "i_mode (disk_inode d3 4) = 0"
    using k03 m0 by (simp add: keeps_def rd_modes_def iblk_def)
  have mn: "i_mode (disk_inode d3 n) = dir_mode" if "n \<in> set rd_dir_list" "n \<noteq> 4" for n
  proof -
    have "(n, dir_mode, if n = 1 then 6 else 2) \<in> set rd_modes" using that by (auto simp: rd_dir_list_def rd_modes_def dir_mode_def)
    from d1(3) [OF this] md that show ?thesis by simp
  qed
  obtain d4 where d4: "rd_add_files fs 17 (L, rd_dirs0, d3) = Some (L + files_blocks fs, ds, d4)"
    "\<And>j. j < length fs \<Longrightarrow> file_in L (L + files_blocks fs) d4 (17 + j) (fs ! j)"
    "keeps L {17..<17 + length fs} L (L + files_blocks fs) d3 d4"
  proof -
    have "length (add_names fs 17 rd_dirs0 n) \<le> rd_dir_max n" if "f \<in> set fs" "file_dir (rf_path f) = Some n" for f n
      using assms(1) file_dir_list [OF that(2)] by (simp add: rd_fits_def rd_dirs_of_def)
    then show ?thesis using rd_add_files_run [of fs 17 L L rd_dirs0 d3] iL that eL by (auto simp: ds_def rd_dirs_of_def)
  qed
  have k4: "disk_inode d4 n = disk_inode d3 n" if "n \<in> set rd_dir_list" for n
    using d4(3) b2 [of n] that L3 by (auto simp: keeps_def rd_dir_list_def)
  have small: "length (ds n) \<le> 256" if "n \<in> set rd_dir_list" for n
  proof -
    have "length (ds n) \<le> rd_dir_max n" using assms(1) that by (simp add: rd_fits_def ds_def)
    then show ?thesis by (auto simp: rd_dir_max_def split: if_splits)
  qed
  obtain d5 where d5: "rd_add_dirs rd_dir_list ds (L + files_blocks fs, d4) = Some (e, d5)"
    "\<And>n. n \<in> set rd_dir_list \<Longrightarrow> dir_in (L + files_blocks fs) e d4 d5 ds n"
    "keeps L (set rd_dir_list) (L + files_blocks fs) e d4 d5"
  proof -
    have "0 < n \<and> iblk n < L" if "n \<in> set rd_dir_list" for n using b2 that L3 by auto
    moreover have "distinct rd_dir_list" by (simp add: rd_dir_list_def)
    moreover have "\<not> hasf (i_mode (disk_inode d4 n)) ILARG \<and> length (ds n) \<le> 256" if "n \<in> set rd_dir_list" for n
      using mn m4 that small [OF that] dir_mode_small by (cases "n = 4") (simp_all add: k4)
    ultimately show ?thesis
      using rd_add_dirs_run [of rd_dir_list L "L + files_blocks fs" ds d4] that eL by auto
  qed
  have fin0: "finished L e d5 ds n" if "n \<in> set rd_dir_list" "n \<noteq> 4" for n
    using d5(2) [OF that(1)] mn [OF that] k4 [OF that(1)] by (auto simp: dir_in_def finished_def intro: has_file_weaken)
  have f4: "has_file L e d5 (disk_inode d5 4) (dir_bytes (ds 4))" "\<not> hasf (i_mode (disk_inode d5 4)) ILARG"
    using d5(2) [of 4] m4 k4 [of 4] by (auto simp: dir_in_def rd_dir_list_def intro: has_file_weaken)
  obtain d6 where d6: "rd_finish ds d5 = Some d6" "keeps L {2, 3, 4} 16384 16384 d5 d6" "\<And>n. n \<in> {2, 3, 4} \<Longrightarrow> finished L e d6 ds n"
  proof -
    have "has_file L e d5 (disk_inode d5 n) (dir_bytes (ds n)) \<and> 0 < length (ds n) \<and> length (ds n) \<le> 256" if "n \<in> {2, 3, 4}" for n
      using that fin0 [of n] f4 small [of n] rd_dirs_of_pos [of fs n] by (auto simp: finished_def rd_dir_list_def ds_def)
    then show ?thesis
      using rd_finish_run [OF L3 order.refl eL(2) L16, of d5 ds] that mn [of 2] mn [of 3] fin0 [of 2] fin0 [of 3] f4(2)
      by (auto simp: rd_dir_list_def finished_def)
  qed
  have dirs6: "finished L e d6 ds n" if "n \<in> set rd_dir_list" for n
  proof (cases "n \<in> {2, 3, 4}")
    case False
    then show ?thesis using finished_keep [OF fin0 d6(2)] that b2 [of n] eL L16 by auto
  qed (rule d6(3))
  have k46: "keeps L (set rd_dir_list \<union> {2, 3, 4}) (L + files_blocks fs) 16384 d4 d6"
    by (rule keeps_trans [OF d5(3) d6(2)]) (use eL in simp_all)
  have files6: "file_in L e d6 (17 + j) (fs ! j)" if j: "j < length fs" for j
  proof -
    have "has_file L (L + files_blocks fs) d4 (disk_inode d4 (17 + j)) (rf_data (fs ! j))" using d4(2) [OF j] by (simp add: file_in_def)
    then have "has_file L (L + files_blocks fs) d6 (disk_inode d6 (17 + j)) (rf_data (fs ! j)) \<and> disk_inode d6 (17 + j) = disk_inode d4 (17 + j)"
      using iL [OF j] by (intro keeps_file [OF _ k46]) (auto simp: rd_dir_list_def)
    then show ?thesis using d4(2) [OF j] eL by (auto simp: file_in_def intro: has_file_weaken)
  qed
  have top: "d6 b = (\<lambda>_. 0)" if "e \<le> b" "b < 16384" for b
  proof -
    have "d6 b = d5 b" "d5 b = d4 b" "d4 b = d3 b" "d3 b = d0 b"
      using that d6(2) d5(3) d4(3) k03 eL by (auto simp: keeps_def)
    moreover have "b \<noteq> 1" using that eL L3 by linarith
    ultimately show ?thesis by (simp add: d0_def)
  qed
  have sb: "d6 1 = rd_super ?n (\<lambda>_. 0)"
  proof -
    have "d6 1 = d5 1" "d5 1 = d4 1" "d4 1 = d3 1" "d3 1 = d0 1" using d6(2) d5(3) d4(3) k03 L3 eL by (auto simp: keeps_def)
    then show ?thesis by (simp add: d0_def)
  qed
  define d where "d = d6(1 := rd_free e (d6 1))"
  have k: "keeps L {} 16384 16384 d6 d6" by (rule keeps_refl)
  have kd: "has_file L e d (disk_inode d n) data \<and> disk_inode d n = disk_inode d6 n" if "has_file L e d6 (disk_inode d6 n) data" for n data
  proof -
    have same: "disk_inode d n = disk_inode d6 n" using iblk_ge [of n] by (intro disk_inode_same) (simp add: d_def)
    have "has_file L e d (disk_inode d n) data"
      by (rule has_file_keep [OF that same]) (use L3 in \<open>simp add: d_def\<close>)
    with same show ?thesis by blast
  qed
  have "file_in L e d (17 + j) (fs ! j)" if "j < length fs" for j
    using files6 [OF that] kd by (auto simp: file_in_def)
  moreover have "finished L e d ds n" if "n \<in> set rd_dir_list" for n
    using dirs6 [OF that] kd by (auto simp: finished_def)
  moreover have "rd_mkfs fs (\<lambda>_ _. 0) = Some d"
    using d1(1) d2(1) d3(1) d4(1) d5(1) d6(1)
    by (simp add: rd_mkfs_def Let_def L_def d0_def d_def rd_dir_list_def del: rd_set_modes.simps rd_set_sizes.simps rd_add_dirs.simps)
  moreover have "d b = (\<lambda>_. 0)" if "e \<le> b" "b < 16384" for b using top [OF that] that eL L3 by (simp add: d_def)
  ultimately show ?thesis using sb d_def by blast
qed


subsection \<open>Properties\<close>

lemma s_free_set_free: "s_free (set_free j v b) i = (if i = j then v else s_free b i)"
  by (cases i j rule: linorder_cases) (simp_all add: s_free_def set_free_def mem_simps)

lemma s_free_fold: "s_free (fold (\<lambda>i. set_free i (v i)) [0..<n] b) i = (if i < n then v i else s_free b i)"
  by (induction n) (simp_all add: s_free_set_free less_Suc_eq)

lemma batch_rd_free: "batch (rd_free db b) = map of_nat [db..<db + min 50 (16384 - db)]"
proof -
  let ?n = "min 50 (16384 - db)"
  have "unat (of_nat ?n :: int16_t) = ?n" by (simp add: unat_of_nat)
  moreover have "s_nfree (rd_free db b) = of_nat ?n" by (simp add: rd_free_def Let_def sb_defs)
  ultimately have "batch (rd_free db b) = map (\<lambda>i. of_nat (db + i)) [0..<?n]"
    by (simp add: batch_def rd_free_def Let_def s_free_fold)
  also have "\<dots> = map of_nat [db..<db + ?n]" by (rule nth_equalityI) simp_all
  finally show ?thesis .
qed

lemma add_names_in: "(n, x) \<in> set (ds m) \<Longrightarrow> (n, x) \<in> set (add_names fs ino ds m)"
  by (induction fs arbitrary: ino ds) (simp_all add: add_name_def split: option.splits)

lemma add_names_entry:
  "j < length fs \<Longrightarrow> file_dir (rf_path (fs ! j)) = Some n
    \<Longrightarrow> (ino + j, rd_name_from_path (rf_path (fs ! j))) \<in> set (add_names fs ino ds n)"
proof (induction fs arbitrary: ino ds j)
  case (Cons f fs)
  show ?case
  proof (cases j)
    case 0
    then show ?thesis using Cons.prems by (simp add: add_name_def add_names_in)
  next
    case (Suc i)
    then show ?thesis using Cons.IH [of i "ino + 1" "add_name f ino ds"] Cons.prems by simp
  qed
qed simp

text \<open>C18: When the files and the directories' entries fit, \<^verbatim>\<open>rd_mkfs\<close> builds the image without
  a store outside its arrays; every file, direct, indirect or double indirect, is read back through
  its inode as it was given, the directories hold their entries, and each file is in its directory
  under the last part of its path.\<close>

theorem mkfs_files:
  assumes "rd_fits fs"
  shows "\<exists>d. rd_mkfs fs (\<lambda>_ _. 0) = Some d
    \<and> (\<forall>j<length fs. disk_file d (disk_inode d (17 + j)) = rf_data (fs ! j) \<and> i_mode (disk_inode d (17 + j)) = file_mode (fs ! j))
    \<and> (\<forall>n\<in>set rd_dir_list. disk_file d (disk_inode d n) = dir_bytes (rd_dirs_of fs n) \<and> i_mode (disk_inode d n) = dir_mode)
    \<and> (\<forall>j<length fs. \<forall>n. file_dir (rf_path (fs ! j)) = Some n \<longrightarrow>
         n \<in> set rd_dir_list \<and> (17 + j, rd_name_from_path (rf_path (fs ! j))) \<in> set (rd_dirs_of fs n))"
  using rd_mkfs_run [OF assms] file_dir_list add_names_entry [of _ fs _ 17 rd_dirs0]
  by (auto simp: file_in_def finished_def rd_dirs_of_def dest!: disk_file_data)

definition demo_files :: "rd_file list" where
  "demo_files = [\<lparr>rf_path = chars ''/sbin/init'', rf_data = replicate 700 7, rf_mode = 0x1ED\<rparr>,
     \<lparr>rf_path = chars ''/etc/motd'', rf_data = chars ''welcome'', rf_mode = 0x1A4\<rparr>]"

lemma demo_files_fit: "rd_fits demo_files"
  by code_simp

theorem mkfs_files_witness:
  "\<exists>d. rd_mkfs demo_files (\<lambda>_ _. 0) = Some d \<and> disk_file d (disk_inode d 17) = replicate 700 7
    \<and> (17, chars ''init'') \<in> set (rd_dirs_of demo_files 4)"
proof -
  have e: "file_dir (rf_path (demo_files ! 0)) = Some 4" "rd_name_from_path (rf_path (demo_files ! 0)) = chars ''init''"
    "rf_data (demo_files ! 0) = replicate 700 7" "0 < length demo_files" by code_simp+
  obtain d where d: "rd_mkfs demo_files (\<lambda>_ _. 0) = Some d"
    "\<And>j. j < length demo_files \<Longrightarrow> disk_file d (disk_inode d (17 + j)) = rf_data (demo_files ! j)"
    "\<And>j n. j < length demo_files \<Longrightarrow> file_dir (rf_path (demo_files ! j)) = Some n \<Longrightarrow>
       (17 + j, rd_name_from_path (rf_path (demo_files ! j))) \<in> set (rd_dirs_of demo_files n)"
    using mkfs_files [OF demo_files_fit] by blast
  show ?thesis using d(1) d(2) [OF e(4)] d(3) [OF e(4) e(1)] unfolding e(2,3) by auto
qed

text \<open>C19: The superblock lists only the next 50 blocks after the files, and the block at the bottom of the
  list, which \<^verbatim>\<open>alloc\<close> takes for the next batch of numbers, is all zeros, an empty batch: whatever the
  size of the disk, 50 blocks are all that can ever be allocated.\<close>

theorem mkfs_fifty_blocks:
  assumes "rd_fits fs" "rd_end fs < 16384"
  shows "\<exists>d. rd_mkfs fs (\<lambda>_ _. 0) = Some d \<and> batch (d 1) = map of_nat [rd_end fs..<rd_end fs + min 50 (16384 - rd_end fs)]
    \<and> hd (batch (d 1)) = of_nat (rd_end fs) \<and> chain_batch (d (rd_end fs)) = []"
proof -
  obtain d d5 where d: "rd_mkfs fs (\<lambda>_ _. 0) = Some d" "d = d5(1 := rd_free (rd_end fs) (d5 1))" "d (rd_end fs) = (\<lambda>_. 0)"
    using rd_mkfs_run [OF assms(1)] assms(2) by blast
  have "batch (d 1) = map of_nat [rd_end fs..<rd_end fs + min 50 (16384 - rd_end fs)]" unfolding d(2) by (simp add: batch_rd_free)
  moreover have "[rd_end fs..<rd_end fs + min 50 (16384 - rd_end fs)] \<noteq> []" using assms(2) by simp
  ultimately show ?thesis using d(1,3) by (auto simp: hd_map chain_batch_def get32_def)
qed

theorem mkfs_fifty_blocks_witness:
  "\<exists>d. rd_mkfs demo_files (\<lambda>_ _. 0) = Some d \<and> length (batch (d 1)) = 50"
proof -
  have "rd_end demo_files = 22" by code_simp
  then show ?thesis using mkfs_fifty_blocks [OF demo_files_fit] by auto
qed

end
