(* ===== verification/Boot.thy ===== *)
theory Boot
  imports Exec File_Io Mkfs_Image
begin

text \<open>
  \<^verbatim>\<open>kernel/main.c\<close>: from the boot loader to the first process.  \<open>kmain\<close> has one definition
  for each phase of the routine; the programming of the interrupt controller, the timer and
  the task segment, and the messages, change nothing of \<open>kernel\<close>.  What the linker and the
  build fix is an argument: the end of the kernel's image, the address of \<^verbatim>\<open>proc0_u\<close>, the
  address of the string \<^verbatim>\<open>/sbin/init\<close> and the table of files of the RAM disk.  The theorems
  follow the file system from the table of files through \<^verbatim>\<open>rd_init\<close>, \<^verbatim>\<open>binit\<close> and \<^verbatim>\<open>iinit\<close> to the
  bytes that \<^verbatim>\<open>readi\<close> delivers.
\<close>

subsection \<open>kmain\<close>

definition nulldev :: int where
  "nulldev = 0"

definition nodev :: "kernel \<Rightarrow> int \<times> kernel" where
  "nodev k = (-1, set_error ENODEV k)"

definition MAXMEM :: uint32_t where
  "MAXMEM = 1024 * 1024"

definition detect_memory :: "kernel \<Rightarrow> kernel" where
  "detect_memory k =
     (let m = 16 * 1024 * 1024 div 64 :: uint32_t in k\<lparr>maxmem := if m > MAXMEM then MAXMEM else m\<rparr>)"

text \<open>The units from the end of the kernel's image on are put into \<^verbatim>\<open>coremap\<close>.\<close>

definition kmain_memory :: "uint32_t \<Rightarrow> unit kop" where
  "kmain_memory kend = kseq (act detect_memory) (\<lambda>k.
     let mem_start = (kend + 63) div 64
     in if mem_start \<ge> maxmem k then Stop (Panicked ''Kernel too large for memory'') k
        else mfree_core (maxmem k - mem_start) mem_start k)"

definition kmain_proc0 :: "uint32_t \<Rightarrow> kernel \<Rightarrow> kernel" where
  "kmain_proc0 u0 k =
     (let k1 = upd_sch (\<lambda>s. s\<lparr>procs := map (\<lambda>p. p\<lparr>p_stat := SNULL, p_umask := 0, p_sigmask := 0, p_exit := 0,
              p_pgrp := 0, p_sid := 0\<rparr>) (procs s)\<rparr>) k;
          k2 = upd_proc 0 (\<lambda>p. p\<lparr>p_stat := SRUN, p_flag := SLOAD OR SSYS, p_pri := 127, p_addr := u0 div 64, p_size := USIZE,
              p_pid := 0, p_ppid := 0, p_umask := 0, p_sigmask := 0, p_exit := 0, p_pgrp := 0, p_sid := 0\<rparr>) k1;
          k3 = upd_sch (\<lambda>s. s\<lparr>curproc := Some 0, curpri := 127\<rparr>) k2
      in upd_u (\<lambda>u. u\<lparr>u_procp := 0\<rparr>) k3)"

text \<open>The subsystems of the file system: the RAM disk is made before \<^verbatim>\<open>binit\<close> counts the devices.
  Two steps between them work on other state and are not part of it: \<^verbatim>\<open>ide_init\<close> (in \<open>Ide\<close>), which
  on a machine without a disk only notes that there is none and with one fills the entry of major 1,
  where no device number of the boot leads, and \<^verbatim>\<open>cinit\<close> (in \<open>Tty\<close>) with the registration of the
  console as character device 0 (the argument \<^verbatim>\<open>nchrdev\<close> of the calls that open devices).\<close>

definition kmain_disk :: "rd_file list \<Rightarrow> unit kop" where
  "kmain_disk fs k = (case rd_init fs k of None \<Rightarrow> Stop OutOfBounds k | Some k \<Rightarrow> Ret () k)"

definition kmain_buffers :: "unit kop" where
  "kmain_buffers = act binit"

definition kmain_fs :: "rd_file list \<Rightarrow> unit kop" where
  "kmain_fs fs = kseq (kmain_disk fs) (kseq kmain_buffers iinit)"

definition set_rootdir :: "nat option \<Rightarrow> kernel \<Rightarrow> kernel" where
  "set_rootdir r k = k\<lparr>k_fs := (k_fs k)\<lparr>rootdir := r\<rparr>\<rparr>"

definition kmain_root :: "unit kop" where
  "kmain_root = kseq (act (\<lambda>k. k\<lparr>k_fs := (k_fs k)\<lparr>rootdev := 0\<rparr>\<rparr>))
     (kbind (iget 0 1) (\<lambda>r k. case r of
        None \<Rightarrow> Stop (Panicked ''cannot mount root'') (set_rootdir None k)
      | Some i \<Rightarrow> kbind (iget 0 1) (\<lambda>r k. case r of
            None \<Rightarrow> Stop (Panicked ''cannot get root for u.u_cdir'') (upd_u (\<lambda>u. u\<lparr>u_cdir := None\<rparr>) k)
          | Some j \<Rightarrow> Ret () (prele j (upd_u (\<lambda>u. u\<lparr>u_cdir := Some j\<rparr>) k))) (prele i (set_rootdir (Some i) k))))"

text \<open>The console as the files 0, 1 and 2 of the first process, over an inode of its own.\<close>

definition kmain_console :: "unit kop" where
  "kmain_console = kbind (\<lambda>k. ialloc (rootdev (k_fs k)) k) (\<lambda>r k. case r of
      None \<Rightarrow> Ret () k
    | Some c \<Rightarrow>
        (let k1 = upd_inode c (\<lambda>p. p\<lparr>i_mode := IFCHR OR 0x180, i_addr := (i_addr p)[0 := 0], i_nlink := 1,
               i_flag := i_flag p OR (IUPD OR IACC)\<rparr>) k
         in case falloc k1 of
              (None, k2) \<Rightarrow> iput c k2
            | (Some fp, k2) \<Rightarrow> Ret ()
                (upd_file fp (\<lambda>f. f\<lparr>f_count := 3\<rparr>)
                  (upd_u (\<lambda>u. u\<lparr>u_ofile := (u_ofile u)[0 := Some fp, 1 := Some fp, 2 := Some fp]\<rparr>)
                    (prele c (upd_inode c (\<lambda>p. p\<lparr>i_count := i_count p + 1\<rparr>)
                      (upd_file fp (\<lambda>f. f\<lparr>f_flag := FREAD OR FWRITE, f_inode := c\<rparr>) k2)))))))"

definition kmain :: "uint32_t \<Rightarrow> uint32_t \<Rightarrow> rd_file list \<Rightarrow> unit kop" where
  "kmain kend u0 fs = kseq (kmain_memory kend) (kseq (act (kmain_proc0 u0)) (kseq (kmain_fs fs) (kseq kmain_root kmain_console)))"

subsection \<open>proc0_main\<close>

text \<open>The frame the first process enters user mode with, and what it does when \<^verbatim>\<open>swtch\<close> first
  runs it: the result has the registers for \<^verbatim>\<open>return_to_user\<close>.\<close>

definition init_frame :: "uint32_t list" where
  "init_frame = (replicate 19 0)[0 := 0x23, 1 := 0x23, 2 := 0x23, 3 := 0x23, 15 := 0x1B, 18 := 0x23, 16 := 0x202]"

definition init_child :: "block \<Rightarrow> uint32_t \<Rightarrow> (uint32_t \<times> uint32_t) kop" where
  "init_child junk path k =
     (let cp = u_procp (k_u k);
          k1 = k\<lparr>k_uarea := (k_uarea k)(cp := (k_uarea k cp)\<lparr>u_ar0 := init_frame\<rparr>)\<rparr>;
          k2 = upd_u (\<lambda>u. u\<lparr>u_ar0 := init_frame, u_arg := (u_arg u)[0 := path, 1 := 0]\<rparr>) k1
      in kbind (exec junk) (\<lambda>_ k.
           if u_error (k_u k) \<noteq> 0 then Stop Spins k
           else Ret (u_ar0 (k_u k) ! EIP, u_ar0 (k_u k) ! 17) k) k2)"

text \<open>The parent's side: the loop calls \<^verbatim>\<open>swtch\<close> for ever, so it ends by another process running.\<close>

definition proc0_main :: "nat \<Rightarrow> unit kop" where
  "proc0_main rounds = kbind newproc (\<lambda>_. (kseq swtch ^^ rounds) (stop Spins))"

subsection \<open>The core map\<close>

text \<open>All memory between the kernel's image and the 16 megabytes, in units, becomes free.\<close>

lemma kmain_memory_free:
  assumes e: "unat kend \<le> 16777088" "0 < unat kend" and m: "wf_map (coremap k)" "has_room (coremap k)" "munits (coremap k) = {}"
  shows "\<exists>k'. kmain_memory kend k = Ret () k' \<and> wf_map (coremap k') \<and> munits (coremap k') = {(unat kend + 63) div 64..<262144}"
proof -
  let ?s = "(kend + 63) div 64" and ?k = "detect_memory k"
  have mm: "maxmem ?k = 262144" "coremap ?k = coremap k" by (simp_all add: detect_memory_def MAXMEM_def Let_def)
  have u: "unat (kend + 63) = unat kend + 63" using e(1) by (subst unat_add_lem [THEN iffD1]) simp_all
  then have s: "unat ?s = (unat kend + 63) div 64" by (simp add: unat_div)
  have lt: "(unat kend + 63) div 64 < 262144" "0 < (unat kend + 63) div 64" using e by auto
  have "unat ?s \<le> unat (262144 :: uint32_t)" using s lt by simp
  then have d: "unat (262144 - ?s) = 262144 - (unat kend + 63) div 64" using s by (simp add: unat_sub word_le_nat_alt)
  have ro: "release_ok (262144 - ?s) ?s" using d s lt by (simp add: release_ok_def)
  have ne: "\<not> maxmem ?k \<le> ?s" using s lt mm(1) by (simp add: word_le_nat_alt)
  obtain mp where mp: "mfree_map (coremap k) (262144 - ?s) ?s = Some mp" "wf_map mp"
    "munits mp = {unat ?s..<unat ?s + unat (262144 - ?s)} \<union> munits (coremap k)"
    using mfree_map_wfm [OF ro m(1) _ m(2)] m(3) s lt by auto
  have "kmain_memory kend k = Ret () (?k\<lparr>coremap := mp\<rparr>)"
    using ne mp(1) mm by (simp add: kmain_memory_def mfree_core_def Let_def)
  moreover have "munits mp = {(unat kend + 63) div 64..<262144}" unfolding mp(3) m(3) s d using lt by simp
  ultimately show ?thesis using mp(2) by simp
qed

subsection \<open>Mounting the root\<close>

lemma cache_at_time [simp]: "cache_at dv (set_time a b k) B = cache_at dv k B"
  by (simp add: set_time_def cache_at_def cache_inv_def dev_ok_def lists_ok_def data_ok_def clean_def dirty_ok_def
      holds_def bdev_def disk_def)

lemma content_time [simp]: "content dv (set_time a b k) = content dv k"
  by (rule ext) (simp add: set_time_def content_def holds_def disk_def cong: option.case_cong)

lemma set_time_sel [simp]: "k_fs (set_time a b k) = k_fs k" "k_u (set_time a b k) = k_u k" "k_sch (set_time a b k) = k_sch k"
  "bufp (set_time a b k) p = bufp k p" "coremap (set_time a b k) = coremap k" "maxmem (set_time a b k) = maxmem k"
  by (simp_all add: set_time_def bufp_def)

text \<open>The in-core superblock is the disk's, unlocked and writable.\<close>

definition core_super :: "block \<Rightarrow> block \<Rightarrow> block" where
  "core_super c b = set_ronly 0 (set_ilock 0 (set_flock 0 (bcopy c 0 b 0 BSIZE)))"

lemma core_super_fields:
  "s_nfree (core_super c b) = s_nfree (clip c)" "s_ninode (core_super c b) = s_ninode (clip c)" "s_flock (core_super c b) = 0"
  "s_ilock (core_super c b) = 0" "s_ronly (core_super c b) = 0" "s_isize (core_super c b) = s_isize (clip c)"
  "i < 50 \<Longrightarrow> s_free (core_super c b) i = s_free (clip c) i"
  by (simp_all add: core_super_def sb_defs s_free_def mem_simps bcopy_def clip_def get16_def get32_def)

lemma batch_core_super: "unat (s_nfree (clip c)) \<le> 50 \<Longrightarrow> batch (core_super c b) = batch (clip c)"
  by (simp add: batch_def core_super_fields)

text \<open>Only the cache, the inodes, the mounts and the time have changed.\<close>

definition rest_same :: "kernel \<Rightarrow> kernel \<Rightarrow> bool" where
  "rest_same k k' \<longleftrightarrow> bio_frame (k\<lparr>k_fs := k_fs k', k_clk := k_clk k'\<rparr>) k'"

lemma rest_same_trans: "rest_same k k' \<Longrightarrow> rest_same k' k'' \<Longrightarrow> rest_same k k''"
  by (simp add: rest_same_def bio_frame_def)

lemma rest_same_frame: "bio_frame k k' \<Longrightarrow> rest_same k k'"
  by (simp add: rest_same_def bio_frame_def)

lemma rest_same_u: "rest_same k k' \<Longrightarrow> k_u k' = k_u k" "rest_same k k' \<Longrightarrow> coremap k' = coremap k"
  by (simp_all add: rest_same_def bio_frame_def)

lemma iinit_ok:
  assumes c: "cache_at dv k {}" and r: "rootdev (k_fs k) = dv" and m: "mounts (k_fs k) \<noteq> []"
    and sb: "unat (s_nfree (content dv k 1)) \<le> 50" "unat (s_ninode (content dv k 1)) \<le> 50"
  shows "\<exists>s k'. iinit k = Ret () k' \<and> fs_at dv k' {s} s \<and> (\<forall>b. in_range b \<longrightarrow> content dv k' b = content dv k b)
    \<and> batch (sb k' (Buf s)) = batch (content dv k 1) \<and> s_ronly (sb k' (Buf s)) = 0
    \<and> (\<exists>ms. k_fs k' = (k_fs k)\<lparr>mounts := ms\<rparr>) \<and> rest_same k k'"
proof -
  have r1: "in_range 1" by (simp add: in_range_def)
  have dev: "major dv < length (bdevsw (k_bio k))" "nblkdev (k_bio k) \<noteq> 0"
  proof -
    have "dev_ok dv k" using c unfolding cache_at_def cache_inv_def by blast
    then show "major dv < length (bdevsw (k_bio k))" "nblkdev (k_bio k) \<noteq> 0"
      by (auto simp: dev_ok_def bdev_def split: if_splits)
  qed
  have ne: "{} \<noteq> {..<NBUF}" "{i} \<noteq> {..<NBUF}" for i :: nat
  proof -
    show "{} \<noteq> {..<NBUF}" by auto
    have "card {i} \<noteq> card {..<NBUF}" by simp
    then show "{i} \<noteq> {..<NBUF}" by metis
  qed
  obtain i k1 where b: "bread dv 1 k = Ret (Buf i) k1" "obtained dv k {} 1 i k1" "clip (sb k1 (Buf i)) = content dv k 1"
    using bread_ok [OF c ne(1) _ r1] by auto
  have o1: "cache_at dv k1 {i}" "holds dv k1 i 1" "clean dv k1 i" "bio_frame k k1"
    "\<And>b. in_range b \<Longrightarrow> content dv k1 b = content dv k b" "i < NBUF" using b(2) by (auto simp: obtained_def)
  note fl = obtained_flags [OF b(2) r1]
  obtain j k2 where g: "getblk NODEV 0 k1 = Ret (Buf j) k2" "taken NODEV dv k1 {i} 0 j k2"
    using getblk_nodev_ok [OF o1(1) ne(2)] by blast
  have o2: "cache_at dv k2 {j, i}" "j \<noteq> i" "b_dev (bufp k2 (Buf j)) = NODEV" "clean dv k2 i" "bio_frame k1 k2" "same_buf k1 k2 i"
    "\<And>b. in_range b \<Longrightarrow> content dv k2 b = content dv k1 b"
    using g(2) o1(3) by (auto simp: taken_def holds_def)
  let ?k3 = "upd_sb (Buf j) (\<lambda>b. bcopy (sb k2 (Buf i)) 0 b 0 BSIZE) k2"
  note s3 = sb_store [OF o2(1) insertI1 o2(3), where f = "\<lambda>b. bcopy (sb k2 (Buf i)) 0 b 0 BSIZE"]
  have cl: "clean dv ?k3 i" using o2(2,4) s3(5) [of i] s3(7) by (intro clean_keep [of k2 ?k3 i]) auto
  note r4 = brelse_at [OF s3(1) _ cl]
  let ?k4 = "brelse (Buf i) ?k3"
  have B: "{j, i} - {i} = {j}" using o2(2) by auto
  have k4: "cache_at dv ?k4 {j}" "bio_frame ?k3 ?k4" "same_buf ?k3 ?k4 j"
    "\<And>b. in_range b \<Longrightarrow> content dv ?k4 b = content dv ?k3 b"
    using r4(1,2) r4(3) r4(4) [of j] B o2(2) by auto
  have nd: "b_dev (bufp ?k4 (Buf j)) = NODEV" "sb ?k4 (Buf j) = bcopy (sb k2 (Buf i)) 0 (sb k2 (Buf j)) 0 BSIZE"
    using same_buf_facts [OF k4(3)] s3(3,4) by simp_all
  define mp where "mp = (mounts (k_fs ?k4))[0 := (mounts (k_fs ?k4) ! 0)\<lparr>m_bufp := Buf j, m_dev := dv\<rparr>]"
  define k5 where "k5 = ?k4\<lparr>k_fs := (k_fs ?k4)\<lparr>mounts := mp\<rparr>\<rparr>"
  have k5: "cache_at dv k5 {j}" "b_dev (bufp k5 (Buf j)) = NODEV" "sb k5 (Buf j) = sb ?k4 (Buf j)"
    using k4(1) nd(1) by (simp_all add: k5_def bufp_def)
  let ?f = "\<lambda>b. set_ronly 0 (set_ilock 0 (set_flock 0 b))"
  let ?k6 = "upd_sb (Buf j) ?f k5"
  note s6 = sb_store [OF k5(1) _ k5(2), where f = ?f]
  let ?k' = "set_time (get32 (sb ?k6 (Buf j)) 320) (get32 (sb ?k6 (Buf j)) 324) ?k6"
  have sbj: "sb ?k' (Buf j) = core_super (sb k2 (Buf i)) (sb k2 (Buf j))"
    using s6(4) k5(3) nd(2) by (simp add: core_super_def)
  have cs: "clip (sb k2 (Buf i)) = content dv k 1" using same_buf_facts(3) [OF o2(6)] b(3) by simp
  have f4: "bio_frame k ?k4" using o1(4) o2(5) s3(6) k4(2) by (blast intro: bio_frame_trans)
  then have fr: "k_fs ?k4 = k_fs k" by (rule bio_frame_fs)
  have run: "iinit k = Ret () ?k'"
    unfolding iinit_def Let_def r
    using dev b(1) g(1) fl(4) by (simp add: kbind_def k5_def mp_def Let_def)
  have "fs_at dv ?k' {j} j"
    using s6(1,3) sbj sb m k5_def mp_def fr
    by (cases "mounts (k_fs k)") (auto simp: fs_at_def core_super_fields cs upd_sb_def)
  moreover have "content dv ?k' b = content dv k b" if "in_range b" for b
    using s6(2) k4(4) [OF that] s3(2) o2(7) [OF that] o1(5) [OF that] by (simp add: k5_def)
  moreover have "batch (sb ?k' (Buf j)) = batch (content dv k 1)" "s_ronly (sb ?k' (Buf j)) = 0"
    unfolding sbj using batch_core_super [of "sb k2 (Buf i)"] sb(1) by (simp_all add: cs core_super_fields)
  moreover have "k_fs ?k' = (k_fs k)\<lparr>mounts := mp\<rparr>"
    using fr by (simp add: k5_def upd_sb_def upd_buf_def)
  moreover have "rest_same k ?k'"
    using f4 by (simp add: rest_same_def bio_frame_def k5_def upd_sb_def upd_buf_def set_time_def)
  ultimately show ?thesis using run by blast
qed

lemma bio_frame_nblkdev [simp]: "bio_frame k (k'\<lparr>k_bio := x\<rparr>) = bio_frame k k'"
  by (simp add: bio_frame_def)

lemma bio_frame_binit_buf [simp]: "bio_frame k (binit_buf i k') = bio_frame k k'"
  by (simp add: binit_buf_def)

lemma bio_frame_binit_bufs [simp]: "bio_frame k (fold binit_buf is k') = bio_frame k k'"
  by (induction "is" arbitrary: k') simp_all

lemma bio_frame_binit_devs [simp]: "bio_frame k (binit_devs m ds k') = bio_frame k k'"
  by (induction ds arbitrary: m k') (simp_all add: Let_def)

lemma bio_frame_binit [simp]: "bio_frame k (binit k') = bio_frame k k'"
  by (simp add: binit_def Let_def)

lemma free_counts: "n \<le> 50 \<Longrightarrow> s_ninode (fold (\<lambda>i. set_free i (v i)) [0..<n] b) = s_ninode b"
  by (induction n) (simp_all add: sb_defs mem_simps)

lemma super_counts:
  "unat (s_nfree (clip (rd_free e b))) \<le> 50" "s_ninode (clip (rd_free e b)) = s_ninode b"
proof -
  have "s_nfree (rd_free e b) = of_nat (min 50 (16384 - e))" by (simp add: rd_free_def Let_def sb_defs mem_simps)
  moreover have "unat (of_nat (min 50 (16384 - e)) :: int16_t) \<le> 50"
    by (simp add: unat_of_nat)
  ultimately show "unat (s_nfree (clip (rd_free e b))) \<le> 50" by (simp add: sb_defs get16_clip)
  show "s_ninode (clip (rd_free e b)) = s_ninode b"
    using free_counts [of "min 50 (16384 - e)" "\<lambda>i. of_nat (e + i)" b]
    by (simp add: rd_free_def Let_def s_ninode_def set_nfree_def mem_simps get16_clip)
qed

text \<open>A kernel as the boot loader leaves it, as far as the file system goes.\<close>

definition fresh :: "kernel \<Rightarrow> bool" where
  "fresh k \<longleftrightarrow> bdevsw (k_bio k) \<noteq> [] \<and> rootdev (k_fs k) = 0 \<and> mounts (k_fs k) \<noteq> [] \<and> rablock (k_fs k) = 0
     \<and> (\<forall>p\<in>set (inodes (k_fs k)). i_count p = 0 \<and> i_number p = 0) \<and> 2 < length (inodes (k_fs k))"

text \<open>The image \<open>d\<close> mounted: every block has the contents it has in the image.\<close>

definition mounted :: "disk \<Rightarrow> nat \<Rightarrow> kernel \<Rightarrow> bool" where
  "mounted d s k \<longleftrightarrow> fs_at 0 k {s} s \<and> (\<forall>b<16384. cached 0 k b = clip (d b)) \<and> rablock (k_fs k) = 0"

lemma one_block: "(1 :: daddr_t) = of_nat 1" "in_range 1"
  by (simp_all add: in_range_def)

lemma kmain_fs_ok:
  assumes f: "rd_fits fs" and k: "fresh k"
  shows "\<exists>d s k'. rd_mkfs fs (\<lambda>_ _. 0) = Some d \<and> kmain_fs fs k = Ret () k' \<and> mounted d s k'
    \<and> batch (sb k' (Buf s)) = batch (d 1) \<and> s_ronly (sb k' (Buf s)) = 0
    \<and> (\<exists>ms. k_fs k' = (k_fs k)\<lparr>mounts := ms\<rparr>) \<and> rest_same k k'"
proof -
  obtain d d5 where d: "rd_mkfs fs (\<lambda>_ _. 0) = Some d" "d = d5(1 := rd_free (rd_end fs) (d5 1))"
    "d5 1 = rd_super (inode_blocks (length fs)) (\<lambda>_. 0)" using rd_mkfs_run [OF f] by blast
  define k1 where "k1 = k\<lparr>k_bio := (k_bio k)\<lparr>ramdisk := d, nblkdev := 1,
       bdevsw := (bdevsw (k_bio k))[0 := \<lparr>d_strategy = RamDrv, d_tab = True\<rparr>]\<rparr>\<rparr>"
  have r: "rd_init fs k = Some k1" using d(1) by (simp add: rd_init_def k1_def)
  have dv: "major 0 < drivers (bdevsw (k_bio k1))" "bdevsw (k_bio k1) ! major 0 = \<lparr>d_strategy = RamDrv, d_tab = True\<rparr>"
    using k by (cases "bdevsw (k_bio k)"; simp add: fresh_def k1_def)+
  have "(0 :: dev_t) \<noteq> NODEV" by simp
  note b = binit_ok [OF this dv]
  have fr: "bio_frame k (binit k1)" by (simp add: k1_def)
  have cd: "content 0 (binit k1) (of_nat n) = clip (d n)" if "n < 16384" for n
  proof -
    have "unat (of_nat n :: daddr_t) = n" using block_number(2) [OF that] .
    then have "nat (sint (of_nat n :: daddr_t)) = n" using sint_small32 [of "of_nat n"] that by simp
    then show ?thesis using b(2) [of "of_nat n"] by (simp add: disk_def k1_def)
  qed
  have c1: "content 0 (binit k1) 1 = clip (rd_free (rd_end fs) (d5 1))" using cd [of 1] d(2) by simp
  have n0: "s_ninode (d5 1) = 0" unfolding d(3) by (simp add: rd_super_def sb_defs mem_simps)
  have sc: "unat (s_nfree (content 0 (binit k1) 1)) \<le> 50" "unat (s_ninode (content 0 (binit k1) 1)) \<le> 50"
    using super_counts [of "rd_end fs" "d5 1"] n0 unfolding c1 by simp_all
  have rt: "rootdev (k_fs (binit k1)) = 0" "mounts (k_fs (binit k1)) \<noteq> []" using fr k by (auto simp: bio_frame_def fresh_def)
  obtain s k' where w: "iinit (binit k1) = Ret () k'" "fs_at 0 k' {s} s"
    "\<forall>b. in_range b \<longrightarrow> content 0 k' b = content 0 (binit k1) b"
    "batch (sb k' (Buf s)) = batch (content 0 (binit k1) 1)" "s_ronly (sb k' (Buf s)) = 0"
    "\<exists>ms. k_fs k' = (k_fs (binit k1))\<lparr>mounts := ms\<rparr>" "rest_same (binit k1) k'"
    using iinit_ok [OF b(1) rt sc] by blast
  have "cached 0 k' n = clip (d n)" if "n < 16384" for n
    using w(3) cd [OF that] block_number(1) [OF that] by (simp add: cached_def)
  moreover have "batch (clip (rd_free (rd_end fs) (d5 1))) = batch (d 1)"
    using d(2) super_counts(1) [of "rd_end fs" "d5 1"]
    by (simp add: batch_def s_nfree_def s_free_def get16_clip get32_clip)
  moreover have "rablock (k_fs k') = 0" using w(6) fr k by (auto simp: bio_frame_def fresh_def)
  ultimately have "mounted d s k'" "batch (sb k' (Buf s)) = batch (d 1)" using w(2,4) c1 by (simp_all add: mounted_def)
  moreover have "rest_same k k'" using rest_same_trans [OF rest_same_frame [OF fr] w(7)] .
  moreover have "kmain_fs fs k = Ret () k'" using r w(1) by (simp add: kmain_fs_def kmain_disk_def kmain_buffers_def)
  moreover have "\<exists>ms. k_fs k' = (k_fs k)\<lparr>mounts := ms\<rparr>" using w(6) fr by (simp add: bio_frame_def)
  ultimately show ?thesis using d(1) w(5) by blast
qed

subsection \<open>Reading the files of the image\<close>

lemma disk_word_clip: "i < 128 \<Longrightarrow> disk_word (\<lambda>b. clip (d b)) b i = disk_word d b i"
  by (simp add: disk_word_def)

lemma has_file_clip:
  assumes f: "has_file lw hg d p data" and n: "nblk (length data) \<le> 16384"
  shows "has_file lw hg (\<lambda>b. clip (d b)) p data"
proof -
  have m: "dmeta (\<lambda>b. clip (d b)) p n = dmeta d p n" if "n < 16384" for n
    using that by (simp add: dmeta_def disk_word_clip)
  then have b: "dblock (\<lambda>b. clip (d b)) p n = dblock d p n" if "n < 16384" for n
    using that by (simp add: dblock_def disk_word_clip)
  have "clip (fill_block x) = fill_block x" for x by (auto simp: clip_def fill_block_def fun_eq_iff)
  then show ?thesis using f m b n by (simp add: has_file_def)
qed

lemma has_file_inode:
  assumes "has_file lw hg d p data" "i_addr q = i_addr p" "i_mode q = i_mode p" "isize q = isize p"
  shows "has_file lw hg d q data"
  using assms dblock_cong [of q p d] by (simp add: has_file_def)

lemma load_dinode_base:
  "i_addr (load_dinode b i p) = i_addr (load_dinode b i q)" "i_mode (load_dinode b i p) = i_mode (load_dinode b i q)"
  "isize (load_dinode b i p) = isize (load_dinode b i q)" "i_nlink (load_dinode b i p) = i_nlink (load_dinode b i q)"
  by (simp_all add: load_dinode_def isize_def)

lemma number_block:
  fixes n :: nat
  assumes "0 < n" "n < 65536"
  shows "inode_block (of_nat n) = of_nat (iblk n)" "inode_offset (of_nat n) = ioff n"
proof -
  have u: "unat (of_nat n :: ino_t) = n" using assms(2) by (simp add: unat_of_nat)
  have "n + 31 = (n - 1) + 2 * 16" using assms(1) by simp
  then have "(n + 31) div 16 = 2 + (n - 1) div 16" "(n + 31) mod 16 = (n - 1) mod 16" by (simp_all only: div_mult_self1 mod_mult_self1)
  with u show "inode_block (of_nat n) = of_nat (iblk n)" "inode_offset (of_nat n) = ioff n"
    by (simp_all add: inode_block_def inode_offset_def iblk_def ioff_def)
qed

lemma mounted_free: "mounted d s k \<Longrightarrow> \<not> holds 0 k s b" "mounted d s k \<Longrightarrow> cache_at 0 k {s}" "{s} \<noteq> {..<NBUF}"
proof -
  assume m: "mounted d s k"
  then show "cache_at 0 k {s}" by (simp add: mounted_def fs_at_def)
  from m show "\<not> holds 0 k s b" by (simp add: mounted_def fs_at_def holds_def)
next
  have "card {s} \<noteq> card {..<NBUF}" by simp
  then show "{s} \<noteq> {..<NBUF}" by metis
qed

text \<open>\<^verbatim>\<open>iget\<close> of an inode that is not in core: it is the image's, and nothing else changes.\<close>

lemma mounted_iget:
  assumes m: "mounted d s k" and n: "0 < n" "n < 65536" "iblk n < 16384"
    and out: "\<forall>j<length (inodes (k_fs k)). \<not> in_core 0 (of_nat n) (inodep k j)"
    and i: "i < length (inodes (k_fs k))" "i_count (inodep k i) = 0"
  shows "\<exists>j k'. iget 0 (of_nat n) k = Ret (Some j) k' \<and> mounted d s k' \<and> j < length (inodes (k_fs k)) \<and> i_count (inodep k j) = 0
    \<and> inodep k' j = load_dinode (d (iblk n)) (ioff n)
        ((inodep k j)\<lparr>i_dev := 0, i_number := of_nat n, i_flag := ILOCK, i_count := 1, i_lastr := - 1\<rparr>)
    \<and> (\<forall>l. l \<noteq> j \<longrightarrow> inodep k' l = inodep k l) \<and> length (inodes (k_fs k')) = length (inodes (k_fs k))
    \<and> bio_frame (k\<lparr>k_fs := k_fs k'\<rparr>) k' \<and> k_fs k' = (k_fs k)\<lparr>inodes := inodes (k_fs k')\<rparr>"
proof -
  obtain j where j: "j < length (inodes (k_fs k))" "i_count (inodep k j) = 0" "iget 0 (of_nat n) k = iget_new 0 (of_nat n) j k"
    using iget_absent [OF out i] by blast
  note f = mounted_free(1,2) [OF m]
  have fa: "fs_at 0 k {s} s" using m by (simp add: mounted_def)
  have bn: "inode_block (of_nat n) = of_nat (iblk n)" "in_range (inode_block (of_nat n))"
    using number_block [OF n(1,2)] block_number(1) [OF n(3)] by simp_all
  have h: "\<forall>l\<in>{s}. \<not> holds 0 k l (inode_block (of_nat n))" using f(1) by simp
  obtain k' where w: "iget_new 0 (of_nat n) j k = Ret (Some j) k'" "fs_at 0 k' {s} s"
    "inodep k' j = load_dinode (content 0 k (inode_block (of_nat n))) (inode_offset (of_nat n))
       ((inodep k j)\<lparr>i_dev := 0, i_number := of_nat n, i_flag := ILOCK, i_count := 1, i_lastr := - 1\<rparr>)"
    "\<forall>l. l \<noteq> j \<longrightarrow> inodep k' l = inodep k l" "length (inodes (k_fs k')) = length (inodes (k_fs k))"
    "\<forall>b. in_range b \<longrightarrow> content 0 k' b = content 0 k b"
    "bio_frame (k\<lparr>k_fs := k_fs k'\<rparr>) k'" "k_fs k' = (k_fs k)\<lparr>inodes := inodes (k_fs k')\<rparr>"
    using iget_new_ok [OF fa mounted_free(3) j(1) refl h bn(2)] by blast
  have "content 0 k (inode_block (of_nat n)) = clip (d (iblk n))"
    using m n(3) unfolding bn(1) by (simp add: mounted_def cached_def)
  then have "inodep k' j = load_dinode (d (iblk n)) (ioff n)
       ((inodep k j)\<lparr>i_dev := 0, i_number := of_nat n, i_flag := ILOCK, i_count := 1, i_lastr := - 1\<rparr>)"
    unfolding w(3) number_block(2) [OF n(1,2)] by (simp add: load_dinode_clip ioff_def)
  moreover have "mounted d s k'"
  proof -
    have "rablock (k_fs k') = rablock (k_fs k)" using arg_cong [OF w(8), of rablock] by simp
    moreover have "cached 0 k' b = cached 0 k b" if "b < 16384" for b
      using w(6) block_number(1) [OF that] by (simp add: cached_def)
    ultimately show ?thesis using m w(2) by (simp add: mounted_def)
  qed
  moreover have "iget 0 (of_nat n) k = Ret (Some j) k'" using j(3) w(1) by simp
  ultimately show ?thesis using w(4,5,7,8) j(1,2) by (intro exI [of _ j] exI [of _ k'] conjI) assumption+
qed

text \<open>A file of the image, its inode in core: every byte has a block the buffer of the superblock
  does not hold.\<close>

lemma mounted_file:
  assumes m: "mounted d s k" and f: "has_file lw hg d (inodep k x) data" "0 < lw" "hg \<le> 16384" "nblk (length data) \<le> 16384"
    and x: "x < length (inodes (k_fs k))" "i_dev (inodep k x) = 0" "i_mode (inodep k x) AND IFMT = 0"
  shows "mapped_file 0 k {s} x (length data)" "\<And>p. p < length data \<Longrightarrow> mapped_byte 0 x k p = data ! p"
    "unat (isize (inodep k x)) = length data"
proof -
  let ?p = "inodep k x"
  have c: "has_file lw hg (cached 0 k) ?p data"
  proof (rule has_file_cong [OF has_file_clip [OF f(1,4)]])
    fix b assume "lw \<le> b" "b < hg"
    then show "cached 0 k b = clip (d b)" using m f(3) by (simp add: mounted_def)
  qed
  have lg: "hasf (i_mode ?p) ILARG \<longleftrightarrow> 8 < nblk (length data)" using c by (simp add: has_file_def)
  have "length data \<le> nblk (length data) * BSIZE" by (simp add: nblk_def)
  then have "length data \<le> (if hasf (i_mode ?p) ILARG then 17280 else 8) * BSIZE"
    using lg f(4) by (auto split: if_splits)
  moreover have "0 < b \<and> b < 16384" if "p < length data" "b \<in> set (dblock (cached 0 k) ?p (p div BSIZE) # dmeta (cached 0 k) ?p (p div BSIZE))" for p b
    using c in_nblk [OF that(1)] that(2) f(2,3) unfolding has_file_def by fastforce
  ultimately show "mapped_file 0 k {s} x (length data)"
    using m x mounted_free(1,2) [OF m] mounted_free(3) [of s] unfolding mapped_file_def by (simp add: mounted_def)
  show sz: "unat (isize ?p) = length data" using c by (simp add: has_file_def)
  show "mapped_byte 0 x k p = data ! p" if "p < length data" for p
  proof -
    have "disk_file (cached 0 k) ?p ! p = data ! p" using disk_file_data [OF c] by simp
    then show ?thesis using that sz by (simp add: mapped_byte_def disk_file_def)
  qed
qed

lemma file_mode_plain: "file_mode f AND IFMT = 0"
proof -
  have "ucast (rf_mode f AND 0xFFF) = (ucast (rf_mode f) AND 0xFFF :: mode_t)" by (rule bit_word_eqI) (simp add: bit_simps)
  then show ?thesis by (simp add: file_mode_def Let_def bit.conj_disj_distrib2 and.assoc)
qed

lemma files_blocks_ge: "f \<in> set fs \<Longrightarrow> all_blocks (length (rf_data f)) \<le> files_blocks fs"
  by (induction fs) auto

lemma rest_same_user:
  assumes "rest_same k k'"
    and "u_procp (k_u k) < length (procs (k_sch k))"
  shows "image_of k' = image_of k" "length (procs (k_sch k')) = length (procs (k_sch k))" "k_u k' = k_u k"
  using image_of_frame [OF assms(1) [unfolded rest_same_def]] assms(2) by (simp_all add: image_of_def procp_def)

lemma mounted_upd [simp]: "mounted d s (upd_inode i f k) = mounted d s k" "mounted d s (upd_u g k) = mounted d s k"
  "mounted d s (set_rootdir r k) = mounted d s k" "mounted d s (prele i k) = mounted d s k"
proof -
  show i: "mounted d s (upd_inode i f k) = mounted d s k" for i f k
    by (simp add: mounted_def cached_def)
  have u: "mounted d s k' = mounted d s k" if "k_bio k' = k_bio k" "mounts (k_fs k') = mounts (k_fs k)" "rablock (k_fs k') = rablock (k_fs k)" for k k'
    using cache_bio [OF that(1)] that(2,3) by (simp add: mounted_def fs_at_def cached_def)
  show "mounted d s (upd_u g k) = mounted d s k" "mounted d s (set_rootdir r k) = mounted d s k"
    by (rule u; simp add: set_rootdir_def)+
  have w: "mounted d s (wakeup c k) = mounted d s k" for c k by (rule u) simp_all
  show "mounted d s (prele i k) = mounted d s k" by (simp add: prele_def Let_def i w)
qed

text \<open>After the file system comes the root directory: one inode, used twice and unlocked.\<close>

lemma kmain_root_ok:
  assumes m: "mounted d s k" and r: "rootdev (k_fs k) = 0"
    and out: "\<forall>j<length (inodes (k_fs k)). i_count (inodep k j) = 0 \<and> i_number (inodep k j) = 0"
    and len: "0 < length (inodes (k_fs k))"
  shows "\<exists>x k'. kmain_root k = Ret () k' \<and> mounted d s k' \<and> rootdir (k_fs k') = Some x \<and> u_cdir (k_u k') = Some x
    \<and> x < length (inodes (k_fs k')) \<and> i_count (inodep k' x) = 2 \<and> i_flag (inodep k' x) = 0 \<and> i_number (inodep k' x) = 1
    \<and> i_mode (inodep k' x) = i_mode (disk_inode d 1) \<and> i_addr (inodep k' x) = i_addr (disk_inode d 1)
    \<and> isize (inodep k' x) = isize (disk_inode d 1)
    \<and> length (inodes (k_fs k')) = length (inodes (k_fs k)) \<and> (\<forall>l. l \<noteq> x \<longrightarrow> inodep k' l = inodep k l)"
proof -
  have k0: "k\<lparr>k_fs := (k_fs k)\<lparr>rootdev := 0\<rparr>\<rparr> = k" using r by simp
  have out': "\<forall>j<length (inodes (k_fs k)). \<not> in_core 0 (of_nat 1) (inodep k j)"
    using out by (simp add: in_core_def)
  obtain x k1 where w: "iget 0 (of_nat 1) k = Ret (Some x) k1" "mounted d s k1" "x < length (inodes (k_fs k))"
    "inodep k1 x = load_dinode (d (iblk 1)) (ioff 1)
        ((inodep k x)\<lparr>i_dev := 0, i_number := of_nat 1, i_flag := ILOCK, i_count := 1, i_lastr := - 1\<rparr>)"
    "\<forall>l. l \<noteq> x \<longrightarrow> inodep k1 l = inodep k l" "length (inodes (k_fs k1)) = length (inodes (k_fs k))"
    using mounted_iget [OF m _ _ _ out' len] out len by (auto simp: iblk_def)
  let ?f = "\<lambda>p. p\<lparr>i_flag := i_flag p AND NOT ILOCK\<rparr>"
  have p1: "i_flag (inodep k1 x) = ILOCK" "i_count (inodep k1 x) = 1" "i_number (inodep k1 x) = 1" "i_dev (inodep k1 x) = 0"
    by (simp_all add: w(4) load_dinode_def)
  define k2 where "k2 = set_rootdir (Some x) k1"
  have i2: "inodep k2 = inodep k1" "length (inodes (k_fs k2)) = length (inodes (k_fs k))"
    using w(6) by (simp_all add: k2_def set_rootdir_def inodep_def fun_eq_iff)
  define k3 where "k3 = upd_inode x ?f k2"
  have x2: "x < length (inodes (k_fs k2))" using w(3) i2(2) by simp
  have pr: "prele x k2 = k3" using p1 x2 by (simp add: prele_def Let_def k3_def i2(1))
  have p3: "i_flag (inodep k3 x) = 0" "i_count (inodep k3 x) = 1" "in_core 0 1 (inodep k3 x)"
    using p1 x2 by (simp_all add: k3_def i2(1) in_core_def)
  have "find_slot (in_core 0 1) (inodes (k_fs k3)) = Some x"
  proof (rule find_slot_SomeI)
    show "x < length (inodes (k_fs k3))" using x2 by (simp add: k3_def)
    show "in_core 0 1 (inodes (k_fs k3) ! x)" using p3(3) by (simp add: inodep_def)
    show "\<forall>j<x. \<not> in_core 0 1 (inodes (k_fs k3) ! j)"
    proof (intro allI impI)
      fix j assume j: "j < x"
      then have "inodep k3 j = inodep k j" using w(5) x2 by (simp add: k3_def i2(1))
      then show "\<not> in_core 0 1 (inodes (k_fs k3) ! j)" using out' j w(3) by (simp add: inodep_def)
    qed
  qed
  then have g: "iget 0 1 k3 = Ret (Some x) (upd_inode x (\<lambda>p. p\<lparr>i_count := i_count p + 1, i_flag := i_flag p OR ILOCK\<rparr>) k3)"
    by (rule iget_in_core) (simp_all add: p3 hasf_def)
  define k4 where "k4 = upd_u (\<lambda>u. u\<lparr>u_cdir := Some x\<rparr>) (upd_inode x (\<lambda>p. p\<lparr>i_count := i_count p + 1, i_flag := i_flag p OR ILOCK\<rparr>) k3)"
  have x4: "x < length (inodes (k_fs k4))" "length (inodes (k_fs k4)) = length (inodes (k_fs k))"
    using x2 i2(2) by (simp_all add: k4_def k3_def)
  have "inodep k4 x = (inodep k3 x)\<lparr>i_count := i_count (inodep k3 x) + 1, i_flag := i_flag (inodep k3 x) OR ILOCK\<rparr>"
    using x2 by (simp add: k4_def k3_def)
  then have p4: "i_flag (inodep k4 x) = ILOCK" "inodep k4 x = (inodep k1 x)\<lparr>i_count := 2, i_flag := ILOCK\<rparr>"
    using p3 p1 x2 by (simp_all add: k3_def i2(1))
  have pr4: "prele x k4 = upd_inode x ?f k4" using p4(1) x4 by (simp add: prele_def Let_def)
  have run: "kmain_root k = Ret () (upd_inode x ?f k4)"
    unfolding kmain_root_def kseq_def using w(1) pr g pr4
    by (simp add: k0 kbind_def k2_def [symmetric] k4_def [symmetric])
  have "inodep (upd_inode x ?f k4) x = (inodep k1 x)\<lparr>i_count := 2, i_flag := 0\<rparr>" using x4 p4 by simp
  moreover have "mounted d s (upd_inode x ?f k4)" using w(2) by (simp add: k4_def k3_def k2_def)
  moreover have "inodep (upd_inode x ?f k4) l = inodep k l" if "l \<noteq> x" for l
    using that w(5) x2 x4 by (simp add: k4_def k3_def i2(1))
  moreover have "rootdir (k_fs (upd_inode x ?f k4)) = Some x" by (simp add: k4_def k3_def k2_def upd_inode_def set_rootdir_def)
  moreover have "u_cdir (k_u (upd_inode x ?f k4)) = Some x" by (simp add: k4_def)
  ultimately show ?thesis using run x4 p1(3) load_dinode_base [of "d (iblk 1)" "ioff 1" _ zero_inode]
    by (intro exI [of _ x] exI [of _ "upd_inode x ?f k4"])
      (simp add: w(4) disk_inode_def isize_def)
qed

text \<open>The process that runs reads a whole file of the image into its memory at \<open>a\<close>.\<close>

definition delivers :: "nat \<Rightarrow> byte list \<Rightarrow> uint32_t \<Rightarrow> kernel \<Rightarrow> bool" where
  "delivers ino data a k \<longleftrightarrow> (\<exists>i k1 k2. iget 0 (of_nat ino) k = Ret (Some i) k1
     \<and> readi i (set_io a (length data) 0 k1) = Ret () k2 \<and> user_list a (length data) k2 = data \<and> u_error (k_u k2) = 0)"

lemma mounted_u: "mounted d s k \<Longrightarrow> k_bio k' = k_bio k \<Longrightarrow> k_fs k' = k_fs k \<Longrightarrow> mounted d s k'"
  using cache_bio [of k' k] by (simp add: mounted_def fs_at_def cached_def)

lemma mounted_delivers:
  assumes m: "mounted d s k" and n: "0 < n" "n < 65536" "iblk n < 16384"
    and out: "\<forall>j<length (inodes (k_fs k)). \<not> in_core 0 (of_nat n) (inodep k j)"
    and i: "i < length (inodes (k_fs k))" "i_count (inodep k i) = 0"
    and f: "has_file lw hg d (disk_inode d n) data" "0 < lw" "hg \<le> 16384" "nblk (length data) \<le> 16384" "0 < length data"
      "i_mode (disk_inode d n) AND IFMT = 0"
    and u: "u_error (k_u k) = 0" "user_range a (length data) k" "u_procp (k_u k) < length (procs (k_sch k))"
  shows "delivers n data a k"
proof -
  obtain j k1 where w: "iget 0 (of_nat n) k = Ret (Some j) k1" "mounted d s k1" "j < length (inodes (k_fs k))"
    "inodep k1 j = load_dinode (d (iblk n)) (ioff n)
        ((inodep k j)\<lparr>i_dev := 0, i_number := of_nat n, i_flag := ILOCK, i_count := 1, i_lastr := - 1\<rparr>)"
    "length (inodes (k_fs k1)) = length (inodes (k_fs k))" "bio_frame (k\<lparr>k_fs := k_fs k1\<rparr>) k1"
    using mounted_iget [OF m n out i] by blast
  let ?N = "length data" let ?k = "set_io a ?N 0 k1"
  have "rest_same k k1" using w(6) by (simp add: rest_same_def bio_frame_def)
  note us = rest_same_user [OF this u(3)]
  have io: "io_at a ?N 0 0 ?k" using u us user_range_image [OF us(1)] by (intro set_io_at) simp_all
  have p: "inodep ?k = inodep k1" "k_fs ?k = k_fs k1" "k_bio ?k = k_bio k1" by (simp_all add: set_io_def)
  have mk: "mounted d s ?k" using mounted_u [OF w(2) p(3,2)] .
  have same: "i_addr (inodep ?k j) = i_addr (disk_inode d n)" "i_mode (inodep ?k j) = i_mode (disk_inode d n)"
    "isize (inodep ?k j) = isize (disk_inode d n)" "i_dev (inodep ?k j) = 0"
    by (simp_all add: p w(4) disk_inode_def load_dinode_def isize_def)
  have hf: "has_file lw hg d (inodep ?k j) data" by (rule has_file_inode [OF f(1) same(1-3)])
  have j: "j < length (inodes (k_fs ?k))" using w(3,5) p(2) by simp
  have md: "i_mode (inodep ?k j) AND IFMT = 0" using f(6) same(2) by simp
  note mf = mounted_file [OF mk hf f(2-4) j same(4) md]
  have sz: "0 + ?N \<le> unat (isize (inodep ?k j))" "unat (isize (inodep ?k j)) < 2 ^ 31"
  proof -
    have "?N \<le> nblk ?N * BSIZE" by (simp add: nblk_def)
    then show "0 + ?N \<le> unat (isize (inodep ?k j))" "unat (isize (inodep ?k j)) < 2 ^ 31" using mf(3) f(4) by simp_all
  qed
  obtain k2 where r: "readi j ?k = Ret () k2" "user_list a ?N k2 = map (mapped_byte 0 j ?k) [0..<0 + ?N]" "u_error (k_u k2) = 0"
    using readi_mapped [OF io f(5) mf(1) _ sz] by auto
  have "map (mapped_byte 0 j ?k) [0..<0 + ?N] = data"
    by (rule nth_equalityI) (use mf(2) in auto)
  then show ?thesis using w(1) r by (auto simp: delivers_def)
qed

subsection \<open>Properties\<close>

text \<open>C1: From the table of files to a process: after \<^verbatim>\<open>rd_init\<close>, \<^verbatim>\<open>binit\<close>, \<^verbatim>\<open>iinit\<close> and the part
  of \<^verbatim>\<open>kmain\<close> that opens the root, whatever process runs next, \<^verbatim>\<open>iget\<close> and \<^verbatim>\<open>readi\<close> deliver every file
  of the table, small or large, exactly as it was when the kernel was built.\<close>

theorem boot_delivers_files:
  assumes "rd_fits fs" "fresh k" "length fs \<le> 65519"
  shows "\<exists>k1. kseq (kmain_fs fs) kmain_root k = Ret () k1 \<and>
    (\<forall>k2 j a. k_bio k2 = k_bio k1 \<and> k_fs k2 = k_fs k1 \<and> u_error (k_u k2) = 0 \<and> u_procp (k_u k2) < length (procs (k_sch k2))
       \<and> j < length fs \<and> 0 < length (rf_data (fs ! j)) \<and> user_range a (length (rf_data (fs ! j))) k2
       \<longrightarrow> delivers (17 + j) (rf_data (fs ! j)) a k2)"
proof -
  obtain d s k0 where b: "rd_mkfs fs (\<lambda>_ _. 0) = Some d" "kmain_fs fs k = Ret () k0" "mounted d s k0"
    "\<exists>ms. k_fs k0 = (k_fs k)\<lparr>mounts := ms\<rparr>" using kmain_fs_ok [OF assms(1,2)] by blast
  have k0: "inodes (k_fs k0) = inodes (k_fs k)" "rootdev (k_fs k0) = rootdev (k_fs k)" using b(4) by auto
  have out: "\<forall>j<length (inodes (k_fs k0)). i_count (inodep k0 j) = 0 \<and> i_number (inodep k0 j) = 0"
    using assms(2) k0 by (simp add: fresh_def inodep_def)
  have rt: "rootdev (k_fs k0) = 0" "0 < length (inodes (k_fs k0))" using assms(2) k0 by (auto simp: fresh_def)
  obtain x k1 where r: "kmain_root k0 = Ret () k1" "mounted d s k1" "x < length (inodes (k_fs k1))" "i_number (inodep k1 x) = 1"
    "length (inodes (k_fs k1)) = length (inodes (k_fs k0))" "\<forall>l. l \<noteq> x \<longrightarrow> inodep k1 l = inodep k0 l"
    using kmain_root_ok [OF b(3) rt(1) out rt(2)] by blast
  have "delivers (17 + j) (rf_data (fs ! j)) a k2"
    if k2: "k_bio k2 = k_bio k1" "k_fs k2 = k_fs k1" "u_error (k_u k2) = 0" "u_procp (k_u k2) < length (procs (k_sch k2))"
      and j: "j < length fs" "0 < length (rf_data (fs ! j))" and a: "user_range a (length (rf_data (fs ! j))) k2" for k2 j a
  proof (rule mounted_delivers [OF mounted_u [OF r(2) k2(1,2)]])
    have f: "file_in (2 + inode_blocks (length fs)) (rd_end fs) d (17 + j) (fs ! j)"
      using rd_mkfs_run [OF assms(1)] b(1) j(1) by auto
    then show "has_file (2 + inode_blocks (length fs)) (rd_end fs) d (disk_inode d (17 + j)) (rf_data (fs ! j))"
      "i_mode (disk_inode d (17 + j)) AND IFMT = 0" by (simp_all add: file_in_def file_mode_plain)
    show e: "rd_end fs \<le> 16384" using assms(1) by (simp add: rd_fits_def)
    have "inode_blocks (length fs) \<le> 16384" using e by (simp add: rd_end_def)
    moreover have "iblk (17 + j) < 2 + inode_blocks (length fs)" using j(1) by (simp add: iblk_def inode_blocks_def)
    moreover have "2 + inode_blocks (length fs) \<le> 16384" using e by (simp add: rd_end_def)
    ultimately show "iblk (17 + j) < 16384" by linarith
    have "nblk (length (rf_data (fs ! j))) \<le> all_blocks (length (rf_data (fs ! j)))"
      by (simp add: all_blocks_def with_indirect_def)
    also have "\<dots> \<le> files_blocks fs" using j(1) by (intro files_blocks_ge) simp
    also have "\<dots> \<le> 16384" using e by (simp add: rd_end_def)
    finally show "nblk (length (rf_data (fs ! j))) \<le> 16384" .
    let ?y = "if x = 0 then 1 else 0 :: nat"
    have y: "?y \<noteq> x" "?y < length (inodes (k_fs k0))" using assms(2) k0 by (auto simp: fresh_def)
    show "?y < length (inodes (k_fs k2))" using y(2) r(5) k2(2) by simp
    have same: "inodep k2 = inodep k1" using k2(2) by (simp add: inodep_def fun_eq_iff)
    show "i_count (inodep k2 ?y) = 0" using out r(6) y same by simp
    have ne: "(of_nat (17 + j) :: ino_t) \<noteq> 0" "(of_nat (17 + j) :: ino_t) \<noteq> 1"
    proof -
      have u: "unat (of_nat (17 + j) :: ino_t) = 17 + j" using j(1) assms(3) by (subst unat_of_nat) simp
      show "(of_nat (17 + j) :: ino_t) \<noteq> 0" using u by (metis add_is_0 unat_0 zero_neq_numeral)
      show "(of_nat (17 + j) :: ino_t) \<noteq> 1" proof
        assume e: "(of_nat (17 + j) :: ino_t) = 1"
        have "unat (1 :: ino_t) = 17 + j" using u unfolding e .
        then show False by simp
      qed
    qed
    show "\<forall>l<length (inodes (k_fs k2)). \<not> in_core 0 (of_nat (17 + j)) (inodep k2 l)"
    proof (intro allI impI)
      fix l assume l: "l < length (inodes (k_fs k2))"
      show "\<not> in_core 0 (of_nat (17 + j)) (inodep k2 l)"
      proof (cases "l = x")
        case True
        then show ?thesis using r(4) same ne(2) unfolding in_core_def by metis
      next
        case False
        then have "i_number (inodep k2 l) = 0" using r(6) out l same k2(2) r(5) by simp
        then show ?thesis using ne(1) unfolding in_core_def by metis
      qed
    qed
  qed (use k2 j a assms(3) in simp_all)
  then show ?thesis using b(2) r(1) by (intro exI [of _ k1]) (simp add: kseq_def)
qed

lemma fresh_zero_kernel: "fresh zero_kernel"
  by (simp add: fresh_def zero_kernel_def zero_inode_def)

theorem boot_delivers_files_witness:
  "\<exists>k1 k2. kseq (kmain_fs demo_files) kmain_root zero_kernel = Ret () k1 \<and> k_bio k2 = k_bio k1 \<and> delivers 17 (replicate 700 7) 0 k2"
proof -
  have e: "rf_data (demo_files ! 0) = replicate 700 7" "length demo_files = 2" by code_simp+
  obtain k1 where b: "kseq (kmain_fs demo_files) kmain_root zero_kernel = Ret () k1"
    "\<And>k2 j a. k_bio k2 = k_bio k1 \<and> k_fs k2 = k_fs k1 \<and> u_error (k_u k2) = 0 \<and> u_procp (k_u k2) < length (procs (k_sch k2))
       \<and> j < length demo_files \<and> 0 < length (rf_data (demo_files ! j)) \<and> user_range a (length (rf_data (demo_files ! j))) k2
       \<Longrightarrow> delivers (17 + j) (rf_data (demo_files ! j)) a k2"
    using boot_delivers_files [OF demo_files_fit fresh_zero_kernel] e(2) by auto
  define k2 where "k2 = k1\<lparr>k_u := zero_user, k_sch := (k_sch zero_kernel)\<lparr>procs := (procs (k_sch zero_kernel))[0 := empty_proc\<lparr>p_addr := 100, p_size := 164\<rparr>]\<rparr>\<rparr>"
  have "user_range 0 700 k2"
    by (simp add: k2_def user_range_def placed_def procp_def zero_kernel_def zero_user_def)
  then have "delivers (17 + 0) (rf_data (demo_files ! 0)) 0 k2"
    unfolding e(1) by (intro b(2) [of k2 0 0, unfolded e(1)]) (simp_all add: k2_def e zero_user_def zero_kernel_def)
  then show ?thesis using b(1) by (intro exI [of _ k1] exI [of _ k2]) (simp add: e(1) k2_def)
qed

end
