(* ===== verification/Sleep_Lock.thy ===== *)
theory Sleep_Lock
  imports Text
begin

text \<open>
  The locks a process waits for asleep: the inode lock of \<^verbatim>\<open>plock\<close> and \<^verbatim>\<open>prele\<close>
  (\<^verbatim>\<open>kernel/pipe.c\<close>) and the lock of a text segment, \<^verbatim>\<open>xlock\<close> and \<^verbatim>\<open>xunlock\<close>
  (\<^verbatim>\<open>kernel/text.c\<close>).  The protocol is stated once, as a locale, and run by any number of
  processes as the step relation \<open>lock_step\<close>; both locks are interpretations.
\<close>

subsection \<open>What sleep keeps\<close>

lemma sleepers_wake_effect:
  "c \<noteq> ChNone \<Longrightarrow> sleepers c (wake_effect W s) \<subseteq> sleepers c s"
  by (auto simp: wake_effect_def sleepers_run_set)

lemma sleepers_wakeup:
  assumes "length (procs (k_sch k)) = NPROC" "c \<noteq> ChNone" "d \<noteq> ChNone"
  shows "sleepers c (k_sch (wakeup d k)) \<subseteq> sleepers c (k_sch k)"
  using assms by (simp add: sch_wakeup sleepers_wake_effect)

lemma sleepers_woken:
  assumes "length (procs (k_sch k)) = NPROC" "c \<noteq> ChNone"
  shows "sleepers c (k_sch (wakeup c k)) = {}"
    "j \<in> sleepers c (k_sch k) \<Longrightarrow> p_stat (procp (wakeup c k) j) = SRUN \<and> p_wchan (procp (wakeup c k) j) = ChNone"
  using assms by (auto simp: sch_wakeup wake_effect_def sleepers_run_set sleepers_def procp_def)

text \<open>The state in which a process leaves the processor on its way into \<open>sleep c\<close>: no other
  process has gone to sleep on \<open>c\<close>, and no inode or text segment has changed.\<close>

definition gone_to_sleep :: "chan \<Rightarrow> kernel \<Rightarrow> kernel \<Rightarrow> bool" where
  "gone_to_sleep c k k' \<longleftrightarrow> k_fs k' = k_fs k \<and> k_text k' = k_text k \<and> length (procs (k_sch k')) = NPROC
     \<and> sleepers c (k_sch k') \<subseteq> insert (u_procp (k_u k)) (sleepers c (k_sch k))"

lemma gone_refl: "length (procs (k_sch k)) = NPROC \<Longrightarrow> gone_to_sleep c k k"
  by (auto simp: gone_to_sleep_def)

lemma gone_wakeup:
  assumes "gone_to_sleep c k k'" "c \<noteq> ChNone" "d \<noteq> ChNone"
  shows "gone_to_sleep c k (wakeup d k')"
  using assms sleepers_wakeup [of k' c d] by (auto simp: gone_to_sleep_def)

lemma gone_upd_proc:
  assumes "gone_to_sleep c k k'"
  shows "gone_to_sleep c k (upd_proc (u_procp (k_u k)) f k')"
proof -
  have "sleepers c (k_sch (upd_proc i f k')) \<subseteq> insert i (sleepers c (k_sch k'))" for i
    by (auto simp: sleepers_def upd_proc_def upd_sch_def nth_list_update split: if_splits)
  moreover have "k_fs (upd_proc i f k') = k_fs k'" "k_text (upd_proc i f k') = k_text k'"
    "length (procs (k_sch (upd_proc i f k'))) = length (procs (k_sch k'))" for i
    by (simp_all add: upd_proc_def upd_sch_def)
  ultimately show ?thesis using assms unfolding gone_to_sleep_def by (metis insert_absorb2 insert_mono subset_trans)
qed

lemma gone_runin:
  assumes "gone_to_sleep c k k'"
  shows "gone_to_sleep c k (upd_sch (\<lambda>s. s\<lparr>runin := v\<rparr>) k')"
proof -
  have "sleepers c (s\<lparr>runin := v\<rparr>) = sleepers c s" for s by (simp add: sleepers_def)
  then show ?thesis using assms by (simp add: gone_to_sleep_def upd_sch_def)
qed

lemma stop_self_gone:
  assumes "length (procs (k_sch k)) = NPROC" "c \<noteq> ChNone"
  shows "\<exists>r k'. stop_self k = Stop r k' \<and> gone_to_sleep c k k'"
  using assms by (auto simp: stop_self_def Let_def gone_refl intro!: gone_upd_proc gone_wakeup split: option.splits)

lemma sleep_gone:
  assumes "length (procs (k_sch k)) = NPROC" "c \<noteq> ChNone"
  shows "\<exists>r k'. sleep c pri k = Stop r k' \<and> gone_to_sleep c k k'"
proof -
  have m: "gone_to_sleep c k (mark_asleep c st pri k)" for st
    unfolding mark_asleep_def by (intro gone_upd_proc gone_refl assms)
  obtain r k' where s: "stop_self k = Stop r k'" "gone_to_sleep c k k'" using stop_self_gone [OF assms] by blast
  have "\<exists>r k'. sleep_low c pri k = Stop r k' \<and> gone_to_sleep c k k'"
    unfolding sleep_low_def using s
    by (auto simp: issig_def Let_def kbind_def kseq_def gone_refl assms m intro!: gone_wakeup gone_runin)
  then show ?thesis by (simp add: sleep_def m)
qed

subsection \<open>The protocol\<close>

text \<open>The steps of a system in which processes take and release one lock: a process gets the
  lock, stops on the way to it, releases it, or anything else happens that leaves the lock alone
  and puts no process to sleep on its channel: another process gets the processor, a signal or
  another wakeup makes a sleeper runnable.\<close>

inductive lock_step :: "chan \<Rightarrow> unit kop \<Rightarrow> (kernel \<Rightarrow> kernel) \<Rightarrow> (kernel \<Rightarrow> bool) \<Rightarrow> (kernel \<Rightarrow> bool)
    \<Rightarrow> (kernel \<Rightarrow> bool) \<Rightarrow> kernel \<Rightarrow> kernel \<Rightarrow> bool"
  for ch acquire release ok locked wanted where
  gets: "acquire k = Ret () k' \<Longrightarrow> lock_step ch acquire release ok locked wanted k k'"
| waits: "acquire k = Stop r k' \<Longrightarrow> lock_step ch acquire release ok locked wanted k k'"
| releases: "locked k \<Longrightarrow> lock_step ch acquire release ok locked wanted k (release k)"
| others: "ok k' \<Longrightarrow> locked k' = locked k \<Longrightarrow> wanted k' = wanted k \<Longrightarrow>
    sleepers ch (k_sch k') \<subseteq> sleepers ch (k_sch k) \<Longrightarrow> lock_step ch acquire release ok locked wanted k k'"

text \<open>The contract of such a lock: a free lock is taken at once, a held one sends the process to
  sleep with a note that the lock is wanted, and the release of a wanted lock wakes the channel.\<close>

locale sleep_lock =
  fixes ch :: chan and acquire :: "unit kop" and release :: "kernel \<Rightarrow> kernel"
    and ok locked wanted :: "kernel \<Rightarrow> bool"
  assumes channel: "ch \<noteq> ChNone"
    and table: "ok k \<Longrightarrow> length (procs (k_sch k)) = NPROC"
    and take: "ok k \<Longrightarrow> \<not> locked k \<Longrightarrow> \<exists>k'. acquire k = Ret () k' \<and> ok k' \<and> locked k' \<and> k_sch k' = k_sch k"
    and wait: "ok k \<Longrightarrow> locked k \<Longrightarrow> \<exists>r k'. acquire k = Stop r k' \<and> ok k' \<and> locked k' \<and> wanted k'"
    and unlock: "ok k \<Longrightarrow> locked k \<Longrightarrow> ok (release k) \<and> \<not> locked (release k)
        \<and> k_sch (release k) \<in> {k_sch k, k_sch (wakeup ch k)}"
    and wake: "ok k \<Longrightarrow> locked k \<Longrightarrow> wanted k \<Longrightarrow> k_sch (release k) = k_sch (wakeup ch k)"
begin

text \<open>Who sleeps on the channel waits for a lock that is held and marked as wanted.\<close>

definition guarded :: "kernel \<Rightarrow> bool" where
  "guarded k \<longleftrightarrow> ok k \<and> (sleepers ch (k_sch k) \<noteq> {} \<longrightarrow> locked k \<and> wanted k)"

lemma release_wakes:
  assumes "guarded k" "locked k"
  shows "sleepers ch (k_sch (release k)) = {}"
    "j \<in> sleepers ch (k_sch k) \<Longrightarrow> p_stat (procp (release k) j) = SRUN \<and> p_wchan (procp (release k) j) = ChNone"
proof -
  have ok: "ok k" and s: "sleepers ch (k_sch k) \<noteq> {} \<longrightarrow> k_sch (release k) = k_sch (wakeup ch k)"
    using assms wake by (auto simp: guarded_def)
  have u: "k_sch (release k) \<in> {k_sch k, k_sch (wakeup ch k)}" using unlock [OF ok assms(2)] by blast
  note w = sleepers_woken [OF table [OF ok] channel]
  show "sleepers ch (k_sch (release k)) = {}" using u s w(1) by (cases "sleepers ch (k_sch k) = {}") auto
  show "j \<in> sleepers ch (k_sch k) \<Longrightarrow> p_stat (procp (release k) j) = SRUN \<and> p_wchan (procp (release k) j) = ChNone"
    using s w(2) [of j] by (auto simp: procp_def)
qed

lemma step_guarded:
  assumes "lock_step ch acquire release ok locked wanted k k'" "guarded k"
  shows "guarded k'"
  using assms(1)
proof (cases rule: lock_step.cases)
  case gets
  then have "\<not> locked k" using assms(2) wait [of k] by (force simp: guarded_def)
  with gets assms(2) take [of k] show ?thesis by (auto simp: guarded_def)
next
  case (waits r)
  then have "locked k" using assms(2) take [of k] by (auto simp: guarded_def)
  with waits assms(2) wait [of k] show ?thesis by (auto simp: guarded_def)
next
  case releases
  with assms(2) have "ok (release k)" using unlock by (simp add: guarded_def)
  with releases release_wakes(1) [OF assms(2)] show ?thesis by (simp add: guarded_def)
next
  case others
  with assms(2) show ?thesis by (auto simp: guarded_def)
qed

lemma reach_guarded:
  "(lock_step ch acquire release ok locked wanted)\<^sup>*\<^sup>* k k' \<Longrightarrow> guarded k \<Longrightarrow> guarded k'"
  by (induction rule: rtranclp_induct) (auto intro: step_guarded)

lemma no_lost_wakeup:
  assumes "(lock_step ch acquire release ok locked wanted)\<^sup>*\<^sup>* s k" "ok s" "sleepers ch (k_sch s) = {}"
  shows "sleepers ch (k_sch k) \<noteq> {} \<Longrightarrow> locked k"
    "locked k \<Longrightarrow> acquire k \<noteq> Ret () k'"
    "locked k \<Longrightarrow> j \<in> sleepers ch (k_sch k) \<Longrightarrow>
      p_stat (procp (release k) j) = SRUN \<and> p_wchan (procp (release k) j) = ChNone"
    "locked k \<Longrightarrow> \<exists>k'. acquire (release k) = Ret () k' \<and> locked k'"
proof -
  have g: "guarded k" using reach_guarded [OF assms(1)] assms(2,3) by (simp add: guarded_def)
  then have ok: "ok k" by (simp add: guarded_def)
  show "sleepers ch (k_sch k) \<noteq> {} \<Longrightarrow> locked k" using g by (simp add: guarded_def)
  show "locked k \<Longrightarrow> acquire k \<noteq> Ret () k'" using wait [OF ok] by auto
  show "locked k \<Longrightarrow> j \<in> sleepers ch (k_sch k) \<Longrightarrow>
      p_stat (procp (release k) j) = SRUN \<and> p_wchan (procp (release k) j) = ChNone"
    by (rule release_wakes(2) [OF g])
  show "locked k \<Longrightarrow> \<exists>k'. acquire (release k) = Ret () k' \<and> locked k'"
    using unlock [OF ok] take [of "release k"] by auto
qed

end

subsection \<open>The inode lock\<close>

definition inode_table :: "nat \<Rightarrow> kernel \<Rightarrow> bool" where
  "inode_table i k \<longleftrightarrow> length (procs (k_sch k)) = NPROC \<and> i < length (inodes (k_fs k))"

lemma hasf_self: "hasf a a \<longleftrightarrow> a \<noteq> 0"
  by (simp add: hasf_def)

lemmas lock_flags = hasf_or hasf_self hasf_mask

lemma plock_take:
  assumes "inode_table i k" "\<not> inode_locked i k"
  shows "\<exists>k'. plock i k = Ret () k' \<and> inode_table i k' \<and> inode_locked i k' \<and> k_sch k' = k_sch k"
  using assms by (simp add: plock_def inode_table_def inode_locked_def lock_flags)

lemma plock_wait:
  assumes "inode_table i k" "inode_locked i k"
  shows "\<exists>r k'. plock i k = Stop r k' \<and> inode_table i k' \<and> inode_locked i k' \<and> inode_wanted i k'"
proof -
  let ?k = "upd_inode i (\<lambda>p. p\<lparr>i_flag := i_flag p OR IWANT\<rparr>) k"
  have n: "length (procs (k_sch ?k)) = NPROC" using assms(1) by (simp add: inode_table_def)
  obtain r k' where s: "sleep (ChInode i 0) PPIPE ?k = Stop r k'" "gone_to_sleep (ChInode i 0) ?k k'"
    using sleep_gone [OF n, of "ChInode i 0" PPIPE] by blast
  have "inodep k' i = inodep ?k i" using s(2) by (simp add: gone_to_sleep_def inodep_def)
  with s assms show ?thesis
    by (simp add: plock_def inode_table_def inode_locked_def inode_wanted_def gone_to_sleep_def lock_flags)
qed

lemma prele_unlock:
  assumes "inode_table i k" "inode_locked i k"
  shows "inode_table i (prele i k) \<and> \<not> inode_locked i (prele i k)
    \<and> k_sch (prele i k) \<in> {k_sch k, k_sch (wakeup (ChInode i 0) k)}"
    "inode_wanted i k \<Longrightarrow> k_sch (prele i k) = k_sch (wakeup (ChInode i 0) k)"
proof -
  have i: "i < length (inodes (k_fs k))" using assms(1) by (simp add: inode_table_def)
  have s: "k_sch (prele i k) = (if inode_wanted i k then k_sch (wakeup (ChInode i 0) k) else k_sch k)"
    using prele_effect(1) [OF i] by (simp add: wakeup_def)
  have "length (inodes (k_fs (prele i k))) = length (inodes (k_fs k))"
    by (simp add: prele_def Let_def)
  with s i assms prele_effect(2) [OF i] show "inode_table i (prele i k) \<and> \<not> inode_locked i (prele i k)
      \<and> k_sch (prele i k) \<in> {k_sch k, k_sch (wakeup (ChInode i 0) k)}"
    by (simp add: inode_table_def)
  show "inode_wanted i k \<Longrightarrow> k_sch (prele i k) = k_sch (wakeup (ChInode i 0) k)" using s by simp
qed

interpretation ilock: sleep_lock "ChInode i 0" "plock i" "prele i" "inode_table i" "inode_locked i" "inode_wanted i" for i
  using plock_take plock_wait prele_unlock by unfold_locales (auto simp: inode_table_def)

subsection \<open>The lock of a text segment\<close>

definition text_table :: "nat \<Rightarrow> kernel \<Rightarrow> bool" where
  "text_table x k \<longleftrightarrow> length (procs (k_sch k)) = NPROC \<and> x < length (k_text k)"

definition text_locked :: "nat \<Rightarrow> kernel \<Rightarrow> bool" where
  "text_locked x k \<longleftrightarrow> hasf (x_flag (k_text k ! x)) XLOCK"

lemma xlock_take:
  assumes "text_table x k" "\<not> text_locked x k"
  shows "\<exists>k'. xlock (Some x) k = Ret () k' \<and> text_table x k' \<and> text_locked x k' \<and> k_sch k' = k_sch k"
  using assms by (simp add: xlock_def text_table_def text_locked_def upd_text_def lock_flags)

lemma xlock_wait:
  assumes "text_table x k" "text_locked x k"
  shows "\<exists>r k'. xlock (Some x) k = Stop r k' \<and> text_table x k' \<and> text_locked x k'"
proof -
  let ?k = "upd_text x (\<lambda>t. t\<lparr>x_flag := x_flag t OR XWANT\<rparr>) k"
  have n: "length (procs (k_sch ?k)) = NPROC" using assms(1) by (simp add: text_table_def upd_text_def)
  obtain r k' where s: "sleep (ChText x) PSWP ?k = Stop r k'" "gone_to_sleep (ChText x) ?k k'"
    using sleep_gone [OF n, of "ChText x" PSWP] by blast
  with assms show ?thesis
    by (simp add: xlock_def text_table_def text_locked_def gone_to_sleep_def upd_text_def lock_flags)
qed

lemma xunlock_unlock:
  assumes "text_table x k" "text_locked x k"
  shows "text_table x (xunlock (Some x) k)" "\<not> text_locked x (xunlock (Some x) k)"
    "k_sch (xunlock (Some x) k) = k_sch (wakeup (ChText x) k)"
proof -
  show "k_sch (xunlock (Some x) k) = k_sch (wakeup (ChText x) k)"
    using assms by (simp add: xunlock_def text_locked_def wakeup_def upd_sch_def upd_text_def)
  then show "text_table x (xunlock (Some x) k)" "\<not> text_locked x (xunlock (Some x) k)"
    using assms by (simp_all add: xunlock_def text_table_def text_locked_def upd_text_def lock_flags)
qed

interpretation tlock: sleep_lock "ChText x" "xlock (Some x)" "xunlock (Some x)" "text_table x" "text_locked x" "\<lambda>_. True" for x
  using xlock_take xlock_wait xunlock_unlock by unfold_locales (auto simp: text_table_def)

subsection \<open>Properties\<close>

text \<open>The same for the lock of a text segment.\<close>

lemma xlock_no_lost_wakeup:
  assumes "(lock_step (ChText x) (xlock (Some x)) (xunlock (Some x)) (text_table x) (text_locked x) (\<lambda>_. True))\<^sup>*\<^sup>* s k"
    and "text_table x s" "sleepers (ChText x) (k_sch s) = {}" "j \<in> sleepers (ChText x) (k_sch k)"
  shows "text_locked x k" "p_stat (procp (xunlock (Some x) k) j) = SRUN"
  using tlock.no_lost_wakeup [OF assms(1-3)] assms(4) by blast+

text \<open>C31: No process sleeps for ever on the lock of an inode because its wakeup was lost:
  whatever the processes do with \<^verbatim>\<open>plock\<close> and \<^verbatim>\<open>prele\<close>, in any order and
  whether or not signals interrupt them, a process that sleeps on the inode waits for a lock that
  is held, nobody else gets this lock meanwhile, and the \<^verbatim>\<open>prele\<close> of the holder makes
  every sleeper runnable and leaves a lock that the next \<^verbatim>\<open>plock\<close> takes at once.\<close>

theorem plock_no_lost_wakeup:
  assumes "(lock_step (ChInode i 0) (plock i) (prele i) (inode_table i) (inode_locked i) (inode_wanted i))\<^sup>*\<^sup>* s k"
    and "inode_table i s" "sleepers (ChInode i 0) (k_sch s) = {}" "j \<in> sleepers (ChInode i 0) (k_sch k)"
  shows "inode_locked i k \<and> (\<forall>k'. plock i k \<noteq> Ret () k')
    \<and> p_stat (procp (prele i k) j) = SRUN \<and> p_wchan (procp (prele i k) j) = ChNone
    \<and> (\<exists>k'. plock i (prele i k) = Ret () k' \<and> inode_locked i k')"
proof -
  note l = ilock.no_lost_wakeup [OF assms(1-3)]
  have "inode_locked i k" using l(1) assms(4) by blast
  with l(2-4) assms(4) show ?thesis by blast
qed

text \<open>The witness: process 0 locks inode 3, process 1 runs and has to wait for it.\<close>

definition waiting_kernel :: kernel where
  "waiting_kernel = mark_asleep (ChInode 3 0) SWAIT PPIPE
     (upd_inode 3 (\<lambda>p. p\<lparr>i_flag := i_flag p OR IWANT\<rparr>)
       (upd_u (\<lambda>u. u\<lparr>u_procp := 1\<rparr>) (upd_inode 3 (\<lambda>p. p\<lparr>i_flag := i_flag p OR ILOCK\<rparr>) zero_kernel)))"

lemma waiting_reached:
  "(lock_step (ChInode 3 0) (plock 3) (prele 3) (inode_table 3) (inode_locked 3) (inode_wanted 3))\<^sup>*\<^sup>* zero_kernel waiting_kernel"
proof -
  let ?step = "lock_step (ChInode 3 0) (plock 3) (prele 3) (inode_table 3) (inode_locked 3) (inode_wanted 3)"
  let ?k1 = "upd_inode 3 (\<lambda>p. p\<lparr>i_flag := i_flag p OR ILOCK\<rparr>) zero_kernel"
  let ?k2 = "upd_u (\<lambda>u. u\<lparr>u_procp := 1\<rparr>) ?k1"
  have "plock 3 zero_kernel = Ret () ?k1" by (simp add: plock_def zero_kernel_def inodep_def zero_inode_def)
  then have s1: "?step zero_kernel ?k1" by (rule lock_step.gets)
  have s2: "?step ?k1 ?k2"
    by (rule lock_step.others) (simp_all add: inode_table_def inode_locked_def inode_wanted_def zero_kernel_def)
  have "plock 3 ?k2 = Stop Slept waiting_kernel"
    by (simp add: plock_def sleep_def sleep_low_def issig_def issig_untraced_def waiting_kernel_def kbind_def kseq_def
        Let_def mark_asleep_def zero_kernel_def procp_def empty_proc_def inodep_def upd_inode_def upd_u_def
        zero_inode_def upd_proc_def upd_sch_def lock_flags)
  then have "?step ?k2 waiting_kernel" by (rule lock_step.waits)
  with s1 s2 show ?thesis by (meson converse_rtranclp_into_rtranclp r_into_rtranclp)
qed

theorem plock_no_lost_wakeup_witness:
  "p_wchan (procp waiting_kernel 1) = ChInode 3 0 \<and> p_stat (procp (prele 3 waiting_kernel) 1) = SRUN"
proof -
  have w: "1 \<in> sleepers (ChInode 3 0) (k_sch waiting_kernel)"
    by (simp add: sleepers_def waiting_kernel_def mark_asleep_def zero_kernel_def upd_proc_def upd_sch_def upd_u_def upd_inode_def)
  have t: "inode_table 3 zero_kernel" "sleepers (ChInode 3 0) (k_sch zero_kernel) = {}"
    by (simp_all add: inode_table_def zero_kernel_def sleepers_def empty_proc_def)
  show ?thesis using plock_no_lost_wakeup [OF waiting_reached t w] w by (simp add: sleepers_def procp_def)
qed

end
