(* ===== verification/Kept.thy ===== *)
theory Kept
  imports Fio Text
begin

text \<open>
  What the operations on buffers and inodes leave alone.  A part of the state that no change of
  the buffers, of the file system's tables and of the error, no wakeup and no sleep touches is the
  same after \<^verbatim>\<open>getblk\<close>, \<^verbatim>\<open>bread\<close>, \<^verbatim>\<open>bwrite\<close>, \<^verbatim>\<open>bfree\<close>, \<^verbatim>\<open>iupdat\<close>, \<^verbatim>\<open>itrunc\<close>,
  \<^verbatim>\<open>iput\<close> and \<^verbatim>\<open>closei\<close>: the locale \<open>kept_part\<close> proves it once, for a part \<open>P\<close>, and is
  interpreted for the descriptors with the counts of the files (\<open>File_Refs\<close>) and for the exit status
  of a process (\<open>Exit_Status\<close>).
\<close>

text \<open>The part has the value \<open>v\<close> after an operation that returns and, when \<open>strict\<close>, also in the
  state of one that stops.\<close>

definition kept :: "bool \<Rightarrow> (kernel \<Rightarrow> 'p) \<Rightarrow> 'p \<Rightarrow> 'a res \<Rightarrow> bool" where
  "kept strict P v r \<longleftrightarrow> (case r of Ret x k \<Rightarrow> P k = v | Stop c k \<Rightarrow> strict \<longrightarrow> P k = v)"

named_theorems keep

lemma kept_simps [simp]:
  "kept strict P v (Ret x k) \<longleftrightarrow> P k = v" "kept strict P v (Stop c k) \<longleftrightarrow> (strict \<longrightarrow> P k = v)"
  by (simp_all add: kept_def)

lemma kept_kbind [keep]:
  "kept strict P v (m k) \<Longrightarrow> (\<And>x k'. P k' = v \<Longrightarrow> kept strict P v (f x k')) \<Longrightarrow> kept strict P v (kbind m f k)"
  by (cases "m k") (simp_all add: kbind_def)

lemma kept_kseq [keep]:
  "kept strict P v (m k) \<Longrightarrow> (\<And>k'. P k' = v \<Longrightarrow> kept strict P v (n k')) \<Longrightarrow> kept strict P v (kseq m n k)"
  unfolding kseq_def by (rule kept_kbind)

lemma kept_if [keep]:
  "(c \<Longrightarrow> kept strict P v (m k)) \<Longrightarrow> (\<not> c \<Longrightarrow> kept strict P v (n k)) \<Longrightarrow> kept strict P v ((if c then m else n) k)"
  by simp

lemma kept_each [keep]:
  "(\<And>x k. P k = v \<Longrightarrow> kept strict P v (f x k)) \<Longrightarrow> P k = v \<Longrightarrow> kept strict P v (each f xs k)"
  by (induction xs arbitrary: k) (auto intro: keep)

locale kept_part =
  fixes strict :: bool and P :: "kernel \<Rightarrow> 'p"
  assumes bio: "P (k\<lparr>k_bio := b\<rparr>) = P k"
    and fs: "P (k\<lparr>k_fs := f\<rparr>) = P k"
    and error [simp]: "P (set_error e k) = P k"
    and wake [simp]: "P (wakeup c k) = P k"
    and sleep: "P k = v \<Longrightarrow> kept strict P v (sleep c pri k)"
begin

subsection \<open>Updates that leave the part alone\<close>

lemma kept_upd [simp]:
  "P (upd_buf bp g k) = P k" "P (upd_inode i p k) = P k" "P (upd_sb fp s k) = P k" "P (upd_disk t k) = P k"
  by (simp_all add: upd_buf_def upd_inode_def upd_sb_def upd_disk_def bio fs)

lemma kept_buffers [simp]:
  "P (brelse bp k) = P k" "P (notavail bp k) = P k" "P (iodone bp k) = P k" "P (geterror bp k) = P k"
  "P (clrbuf bp k) = P k" "P (bdwrite bp k) = P k" "P (reassign dv bn bp k) = P k"
  by (simp_all add: brelse_def av_append_def notavail_def av_unlink_def iodone_def geterror_def clrbuf_def bdwrite_def
      reassign_def rechain_def Let_def)

lemma kept_rd_strategy [simp]: "P (rd_strategy bp k) = P k"
  by (simp add: rd_strategy_def Let_def)

lemma kept_getfs [simp]: "P (snd (getfs dv k)) = P k"
  by (simp add: getfs_def Let_def split: option.splits)

lemma kept_getfs_eq: "getfs dv k = (r, k') \<Longrightarrow> P k' = P k"
  using kept_getfs [of dv k] by simp

lemma kept_inodes [simp]:
  "P (prele i k) = P k" "P (ifree dv ino k) = P k"
  by (auto simp: prele_def ifree_def Let_def dest: kept_getfs_eq split: prod.splits option.splits)

lemma kept_access [simp]: "P (snd (access i m k)) = P k"
  by (auto simp: access_def Let_def dest: kept_getfs_eq split: prod.splits)

subsection \<open>Operations that leave the part alone\<close>

declare sleep [keep]

lemma kept_iowait [keep]: "P k = d \<Longrightarrow> kept strict P d (iowait bp k)"
  by (auto simp: iowait_def intro: keep)

lemma kept_strategy [keep]:
  "P k = d \<Longrightarrow> (\<And>k. P (f k) = P k) \<Longrightarrow> kept strict P d (strategy dv bp f k)"
  by (simp add: strategy_def split: option.splits bdrv.splits)

lemma kept_bwrite [keep]: "P k = d \<Longrightarrow> kept strict P d (bwrite bp k)"
  unfolding bwrite_def Let_def by (auto intro!: keep)

lemma kept_getblk_free:
  "P k = d \<Longrightarrow> (\<And>k. P k = d \<Longrightarrow> kept strict P d (again k)) \<Longrightarrow> kept strict P d (getblk_free again dv bn k)"
  unfolding getblk_free_def Let_def by (auto intro!: keep)

lemma kept_getblk_found: "P k = d \<Longrightarrow> kept strict P d (getblk_found bp k)"
  unfolding getblk_found_def by (auto intro!: keep)

lemma kept_getblk_loop: "P k = d \<Longrightarrow> kept strict P d (getblk_loop n dv bn k)"
proof (induction n arbitrary: k)
  case 0
  then show ?case by (subst getblk_loop.simps)
    (auto simp: Let_def intro!: kept_getblk_free kept_getblk_found split: option.splits)
next
  case (Suc n)
  then show ?case by (subst getblk_loop.simps)
    (auto simp: Let_def intro!: kept_getblk_free kept_getblk_found split: option.splits)
qed

lemma kept_getblk [keep]: "P k = d \<Longrightarrow> kept strict P d (getblk dv bn k)"
  by (simp add: getblk_def kept_getblk_loop)

lemma kept_bread [keep]: "P k = d \<Longrightarrow> kept strict P d (bread dv bn k)"
  unfolding bread_def start_read_def by (auto intro!: keep)

lemma kept_spill [keep]: "P k = d \<Longrightarrow> kept strict P d (spill dv fp bn k)"
  unfolding spill_def by (auto intro!: keep)

lemma kept_bfree [keep]: "P k = d \<Longrightarrow> kept strict P d (bfree dv bn k)"
  unfolding bfree_def bfree_locked_def Let_def
  by (auto intro!: keep dest: kept_getfs_eq split: prod.splits option.splits)

lemma kept_iupdat [keep]: "P k = d \<Longrightarrow> kept strict P d (iupdat i k)"
  unfolding iupdat_def Let_def by (auto intro!: keep dest: kept_getfs_eq split: prod.splits option.splits)

lemma kept_free_word [keep]: "P k = d \<Longrightarrow> kept strict P d (free_word dv bp j k)"
  unfolding free_word_def by (auto intro!: keep)

lemma kept_free_indirect [keep]: "P k = d \<Longrightarrow> kept strict P d (free_indirect dv dbl bp j k)"
  unfolding free_indirect_def free_second_def by (auto intro!: keep)

lemma kept_itrunc [keep]: "P k = d \<Longrightarrow> kept strict P d (itrunc i k)"
  unfolding itrunc_def trunc_slot_def Let_def by (auto intro!: keep)

lemma kept_iput [keep]: "P k = d \<Longrightarrow> kept strict P d (iput i k)"
  unfolding iput_def iput_last_def Let_def by (auto intro!: keep)

lemma kept_closei [keep]: "P k = d \<Longrightarrow> kept strict P d (closei i rw k)"
  unfolding closei_def Let_def by (auto intro!: keep)

text \<open>The last close of a file and the release of a text segment, for a part that the tables of
  files and texts do not touch either.\<close>

lemma kept_closef:
  assumes "P k = v" "\<And>f k. P (upd_file fp f k) = P k"
  shows "kept strict P v (closef fp k)"
  using assms unfolding closef_def Let_def by (auto intro!: keep)

lemma kept_xfree:
  assumes "P k = v" "\<And>f k. P (upd_text x f k) = P k"
  shows "kept strict P v (xfree (Some x) k)"
  using assms unfolding xfree_def Let_def by (auto intro!: keep split: option.splits)

end

end
