(* ===== verification/Libc_String.thy ===== *)
theory Libc_String
  imports Prelude "HOL-Library.Sublist"
begin

text \<open>
  The string functions of the C library, \<^verbatim>\<open>userland/Libraries/libc/src/string.c\<close> and
  \<^verbatim>\<open>ctype.c\<close>.  A process sees a memory of \<open>2 ^ 32\<close> bytes, addressed by words that wrap
  around; a pointer is an address, and \<^verbatim>\<open>NULL\<close> as a result is \<open>None\<close>.  A loop that only a
  zero byte ends is a \<^theory_text>\<open>partial_function\<close>: without such a byte its value is \<open>None\<close>.  A
  loop that counts down a \<^verbatim>\<open>size_t\<close> recurses on the count.
\<close>

type_synonym addr = "32 word"
type_synonym cmem = "addr \<Rightarrow> byte"

subsection \<open>Strings and ranges in memory\<close>

text \<open>The \<open>n\<close> bytes at \<open>a\<close>, and the characters of a string that starts at \<open>a\<close>.\<close>

definition mem_list :: "cmem \<Rightarrow> addr \<Rightarrow> nat \<Rightarrow> byte list" where
  "mem_list m a n = map (\<lambda>i. m (a + of_nat i)) [0..<n]"

definition within :: "addr \<Rightarrow> nat \<Rightarrow> addr \<Rightarrow> bool" where
  "within d n a \<longleftrightarrow> unat (a - d) < n"

primrec cstr :: "cmem \<Rightarrow> addr \<Rightarrow> byte list \<Rightarrow> bool" where
  "cstr m a [] \<longleftrightarrow> m a = 0"
| "cstr m a (x # xs) \<longleftrightarrow> m a = x \<and> x \<noteq> 0 \<and> cstr m (a + 1) xs"

subsection \<open>The functions\<close>

partial_function (option) nul_from :: "cmem \<Rightarrow> addr \<Rightarrow> addr option" where
  "nul_from m p = (if m p = 0 then Some p else nul_from m (p + 1))"

definition strlen :: "cmem \<Rightarrow> addr \<Rightarrow> addr option" where
  "strlen m s = map_option (\<lambda>p. p - s) (nul_from m s)"

text \<open>\<^verbatim>\<open>while ((*d++ = *src++));\<close>\<close>

partial_function (option) copy_str :: "cmem \<Rightarrow> addr \<Rightarrow> addr \<Rightarrow> cmem option" where
  "copy_str m d s =
     (let m' = m(d := m s) in if m s = 0 then Some m' else copy_str m' (d + 1) (s + 1))"

definition strcpy :: "cmem \<Rightarrow> addr \<Rightarrow> addr \<Rightarrow> cmem option" where
  "strcpy m dest src = copy_str m dest src"

primrec fill_up :: "nat \<Rightarrow> byte \<Rightarrow> cmem \<Rightarrow> addr \<Rightarrow> cmem" where
  "fill_up 0 c m p = m"
| "fill_up (Suc n) c m p = fill_up n c (m(p := c)) (p + 1)"

definition memset :: "cmem \<Rightarrow> addr \<Rightarrow> int \<Rightarrow> nat \<Rightarrow> cmem" where
  "memset m s c n = fill_up n (of_int c) m s"

primrec strncpy_loop :: "nat \<Rightarrow> cmem \<Rightarrow> addr \<Rightarrow> addr \<Rightarrow> cmem" where
  "strncpy_loop 0 m d s = m"
| "strncpy_loop (Suc n) m d s =
     (if m s \<noteq> 0 then strncpy_loop n (m(d := m s)) (d + 1) (s + 1) else fill_up (Suc n) 0 m d)"

definition strncpy :: "cmem \<Rightarrow> addr \<Rightarrow> addr \<Rightarrow> nat \<Rightarrow> cmem" where
  "strncpy m dest src n = strncpy_loop n m dest src"

definition strcat :: "cmem \<Rightarrow> addr \<Rightarrow> addr \<Rightarrow> cmem option" where
  "strcat m dest src = Option.bind (nul_from m dest) (\<lambda>d. copy_str m d src)"

primrec strncat_loop :: "nat \<Rightarrow> cmem \<Rightarrow> addr \<Rightarrow> addr \<Rightarrow> cmem" where
  "strncat_loop 0 m d s = m(d := 0)"
| "strncat_loop (Suc n) m d s =
     (let m' = m(d := m s) in if m s = 0 then m' else strncat_loop n m' (d + 1) (s + 1))"

definition strncat :: "cmem \<Rightarrow> addr \<Rightarrow> addr \<Rightarrow> nat \<Rightarrow> cmem option" where
  "strncat m dest src n = map_option (\<lambda>d. strncat_loop n m d src) (nul_from m dest)"

text \<open>The value of a comparison is the difference of two unsigned characters.\<close>

partial_function (option) strcmp :: "cmem \<Rightarrow> addr \<Rightarrow> addr \<Rightarrow> int option" where
  "strcmp m s1 s2 =
     (if m s1 \<noteq> 0 \<and> m s1 = m s2 then strcmp m (s1 + 1) (s2 + 1)
      else Some (int (unat (m s1)) - int (unat (m s2))))"

primrec strncmp :: "nat \<Rightarrow> cmem \<Rightarrow> addr \<Rightarrow> addr \<Rightarrow> int" where
  "strncmp 0 m s1 s2 = 0"
| "strncmp (Suc n) m s1 s2 =
     (if m s1 \<noteq> 0 \<and> m s1 = m s2 then strncmp n m (s1 + 1) (s2 + 1)
      else int (unat (m s1)) - int (unat (m s2)))"

partial_function (option) strchr_loop :: "cmem \<Rightarrow> addr \<Rightarrow> byte \<Rightarrow> addr option option" where
  "strchr_loop m s c =
     (if m s \<noteq> 0 then if m s = c then Some (Some s) else strchr_loop m (s + 1) c
      else Some (if m s = c then Some s else None))"

definition strchr :: "cmem \<Rightarrow> addr \<Rightarrow> int \<Rightarrow> addr option option" where
  "strchr m s c = strchr_loop m s (of_int c)"

partial_function (option) strrchr_loop :: "cmem \<Rightarrow> addr \<Rightarrow> byte \<Rightarrow> addr option \<Rightarrow> addr option option" where
  "strrchr_loop m s c seen =
     (if m s \<noteq> 0 then strrchr_loop m (s + 1) c (if m s = c then Some s else seen)
      else Some (if m s = c then Some s else seen))"

definition strrchr :: "cmem \<Rightarrow> addr \<Rightarrow> int \<Rightarrow> addr option option" where
  "strrchr m s c = strrchr_loop m s (of_int c) None"

text \<open>\<^verbatim>\<open>strstr\<close>: the inner loop leaves \<open>n\<close> at the first character that does not agree.\<close>

partial_function (option) match_at :: "cmem \<Rightarrow> addr \<Rightarrow> addr \<Rightarrow> bool option" where
  "match_at m h n =
     (if m h \<noteq> 0 \<and> m n \<noteq> 0 \<and> m h = m n then match_at m (h + 1) (n + 1) else Some (m n = 0))"

partial_function (option) strstr_loop :: "cmem \<Rightarrow> addr \<Rightarrow> addr \<Rightarrow> addr option option" where
  "strstr_loop m h n =
     (if m h = 0 then Some None
      else Option.bind (match_at m h n) (\<lambda>b. if b then Some (Some h) else strstr_loop m (h + 1) n))"

definition strstr :: "cmem \<Rightarrow> addr \<Rightarrow> addr \<Rightarrow> addr option option" where
  "strstr m haystack needle = (if m needle = 0 then Some (Some haystack) else strstr_loop m haystack needle)"

primrec memcpy :: "nat \<Rightarrow> cmem \<Rightarrow> addr \<Rightarrow> addr \<Rightarrow> cmem" where
  "memcpy 0 m d s = m"
| "memcpy (Suc n) m d s = memcpy n (m(d := m s)) (d + 1) (s + 1)"

primrec copy_down :: "nat \<Rightarrow> cmem \<Rightarrow> addr \<Rightarrow> addr \<Rightarrow> cmem" where
  "copy_down 0 m d s = m"
| "copy_down (Suc n) m d s = copy_down n (m(d - 1 := m (s - 1))) (d - 1) (s - 1)"

definition memmove :: "cmem \<Rightarrow> addr \<Rightarrow> addr \<Rightarrow> nat \<Rightarrow> cmem" where
  "memmove m dest src n =
     (if dest < src then memcpy n m dest src else copy_down n m (dest + of_nat n) (src + of_nat n))"

primrec memcmp :: "nat \<Rightarrow> cmem \<Rightarrow> addr \<Rightarrow> addr \<Rightarrow> int" where
  "memcmp 0 m p1 p2 = 0"
| "memcmp (Suc n) m p1 p2 =
     (if m p1 \<noteq> m p2 then int (unat (m p1)) - int (unat (m p2)) else memcmp n m (p1 + 1) (p2 + 1))"

primrec memchr_loop :: "nat \<Rightarrow> cmem \<Rightarrow> addr \<Rightarrow> byte \<Rightarrow> addr option" where
  "memchr_loop 0 m p c = None"
| "memchr_loop (Suc n) m p c = (if m p = c then Some p else memchr_loop n m (p + 1) c)"

definition memchr :: "cmem \<Rightarrow> addr \<Rightarrow> int \<Rightarrow> nat \<Rightarrow> addr option" where
  "memchr m s c n = memchr_loop n m s (of_int c)"

definition bzero :: "cmem \<Rightarrow> addr \<Rightarrow> nat \<Rightarrow> cmem" where
  "bzero m s n = memset m s 0 n"

definition bcopy :: "cmem \<Rightarrow> addr \<Rightarrow> addr \<Rightarrow> nat \<Rightarrow> cmem" where
  "bcopy m src dest n = memmove m dest src n"

definition bcmp :: "cmem \<Rightarrow> addr \<Rightarrow> addr \<Rightarrow> nat \<Rightarrow> int" where
  "bcmp m s1 s2 n = memcmp n m s1 s2"

subsection \<open>Character classes (ctype.c)\<close>

definition isalpha :: "int \<Rightarrow> bool" where "isalpha c \<longleftrightarrow> (65 \<le> c \<and> c \<le> 90) \<or> (97 \<le> c \<and> c \<le> 122)"
definition isdigit :: "int \<Rightarrow> bool" where "isdigit c \<longleftrightarrow> 48 \<le> c \<and> c \<le> 57"
definition isalnum :: "int \<Rightarrow> bool" where "isalnum c \<longleftrightarrow> isalpha c \<or> isdigit c"
definition isspace :: "int \<Rightarrow> bool" where
  "isspace c \<longleftrightarrow> c = 32 \<or> c = 9 \<or> c = 10 \<or> c = 13 \<or> c = 12 \<or> c = 11"
definition isupper :: "int \<Rightarrow> bool" where "isupper c \<longleftrightarrow> 65 \<le> c \<and> c \<le> 90"
definition islower :: "int \<Rightarrow> bool" where "islower c \<longleftrightarrow> 97 \<le> c \<and> c \<le> 122"
definition isprint :: "int \<Rightarrow> bool" where "isprint c \<longleftrightarrow> 0x20 \<le> c \<and> c \<le> 0x7E"
definition isgraph :: "int \<Rightarrow> bool" where "isgraph c \<longleftrightarrow> 0x21 \<le> c \<and> c \<le> 0x7E"
definition iscntrl :: "int \<Rightarrow> bool" where "iscntrl c \<longleftrightarrow> (0 \<le> c \<and> c \<le> 0x1F) \<or> c = 0x7F"
definition isxdigit :: "int \<Rightarrow> bool" where
  "isxdigit c \<longleftrightarrow> isdigit c \<or> (65 \<le> c \<and> c \<le> 70) \<or> (97 \<le> c \<and> c \<le> 102)"
definition ispunct :: "int \<Rightarrow> bool" where "ispunct c \<longleftrightarrow> isprint c \<and> \<not> isalnum c \<and> \<not> isspace c"
definition isascii :: "int \<Rightarrow> bool" where "isascii c \<longleftrightarrow> 0 \<le> c \<and> c \<le> 127"
definition toupper :: "int \<Rightarrow> int" where "toupper c = (if islower c then c - 32 else c)"
definition tolower :: "int \<Rightarrow> int" where "tolower c = (if isupper c then c + 32 else c)"
definition toascii :: "int \<Rightarrow> int" where "toascii c = c AND 0x7F"

lemmas ctype_defs = isalpha_def isdigit_def isalnum_def isspace_def isupper_def islower_def isprint_def
  isgraph_def iscntrl_def isxdigit_def ispunct_def isascii_def toupper_def tolower_def

text \<open>Every ASCII character is a control character, a letter, a digit, punctuation or a space, and
  of exactly one of these kinds apart from the controls that count as spaces; folding the case
  twice is folding it once.\<close>

lemma ctype_partition:
  "isascii c \<Longrightarrow> iscntrl c \<or> isalpha c \<or> isdigit c \<or> ispunct c \<or> c = 32"
  "isalpha c \<Longrightarrow> \<not> isdigit c \<and> \<not> ispunct c \<and> \<not> iscntrl c \<and> \<not> isspace c"
  "isdigit c \<Longrightarrow> \<not> ispunct c \<and> \<not> iscntrl c \<and> \<not> isspace c"
  "ispunct c \<Longrightarrow> isgraph c \<and> \<not> iscntrl c"
  by (auto simp: ctype_defs)

lemma case_folding:
  "toupper (tolower c) = toupper c" "tolower (toupper c) = tolower c" "toupper (toupper c) = toupper c"
  "isalpha c \<longleftrightarrow> isupper c \<or> islower c" "isupper (toupper c) \<longleftrightarrow> isalpha c"
  by (auto simp: ctype_defs)

subsection \<open>Ranges of memory\<close>

lemma within_0 [simp]: "\<not> within d 0 a"
  by (simp add: within_def)

lemma within_iff:
  assumes "unat d + n \<le> 2 ^ 32"
  shows "within d n a \<longleftrightarrow> unat d \<le> unat a \<and> unat a < unat d + n"
proof -
  have a: "unat a < 2 ^ 32" using unsigned_less [of a] by simp
  show ?thesis
  proof (cases "unat d \<le> unat a")
    case True
    then have "unat (a - d) = unat a - unat d" by (simp add: unat_sub word_le_nat_alt)
    with True show ?thesis by (auto simp: within_def)
  next
    case False
    then have "unat (a - d) = 2 ^ 32 + unat a - unat d"
      using a assms by (simp add: unat_sub_if_size word_size)
    with False assms show ?thesis by (auto simp: within_def)
  qed
qed

lemma unat_plus:
  fixes d :: addr
  assumes "unat d + n < 2 ^ 32"
  shows "unat (d + of_nat n) = unat d + n"
  using assms by (simp add: unat_word_ariths unat_of_nat)

lemma within_add: "n \<le> 2 ^ 32 \<Longrightarrow> i < n \<Longrightarrow> within d n (d + of_nat i)"
  by (simp add: within_def unat_of_nat)

lemma mem_list_nth [simp]: "i < n \<Longrightarrow> mem_list m a n ! i = m (a + of_nat i)"
  "length (mem_list m a n) = n"
  by (simp_all add: mem_list_def)

lemma mem_list_Suc: "mem_list m a (Suc n) = m a # mem_list m (a + 1) n"
  unfolding mem_list_def by (subst upt_conv_Cons) (simp_all add: map_Suc_upt [symmetric] comp_def add.assoc del: upt_Suc)

subsection \<open>Copying\<close>

text \<open>Copying upwards is right unless the destination starts inside the source, copying downwards
  unless its end lies inside the source.\<close>

lemma memcpy_up:
  assumes "unat d + n \<le> 2 ^ 32" "unat s + n \<le> 2 ^ 32" "unat d \<le> unat s \<or> unat s + n \<le> unat d"
  shows "memcpy n m d s a = (if within d n a then m (s + (a - d)) else m a)"
  using assms
proof (induction n arbitrary: m d s)
  case 0
  then show ?case by simp
next
  case (Suc n)
  show ?case
  proof (cases n)
    case 0
    have "within d (Suc 0) a \<longleftrightarrow> a = d" by (simp add: within_def unat_eq_zero)
    then show ?thesis by (simp add: 0)
  next
    case (Suc l)
    have u: "unat (d + 1) = unat d + 1" "unat (s + 1) = unat s + 1"
      using Suc.prems Suc unat_plus [of d 1] unat_plus [of s 1] by simp_all
    have w: "within d (Suc n) a \<longleftrightarrow> a = d \<or> within (d + 1) n a"
      using within_iff [of d "Suc n" a] within_iff [of "d + 1" n a] Suc.prems u by (auto simp: word_unat_eq_iff)
    have nd: "\<not> within (d + 1) n d" using within_iff [of "d + 1" n d] Suc.prems u by auto
    have ns: "s + (a - d) \<noteq> d" if "within (d + 1) n a"
    proof -
      have r: "unat d + 1 \<le> unat a" "unat a < unat d + 1 + n"
        using that within_iff [of "d + 1" n a] Suc.prems u by auto
      then have e: "a - d = of_nat (unat a - unat d)" by (simp add: of_nat_diff)
      have "unat (s + (a - d)) = unat s + (unat a - unat d)"
        unfolding e using r Suc.prems by (intro unat_plus) linarith
      moreover have "unat s + (unat a - unat d) \<noteq> unat d" using r Suc.prems by linarith
      ultimately show ?thesis by (metis)
    qed
    have "memcpy (Suc n) m d s a = (if within (d + 1) n a then (m(d := m s)) (s + (a - d)) else (m(d := m s)) a)"
    proof -
      have e: "s + 1 + (a - (d + 1)) = s + (a - d)" by simp
      have "memcpy n (m(d := m s)) (d + 1) (s + 1) a
          = (if within (d + 1) n a then (m(d := m s)) (s + 1 + (a - (d + 1))) else (m(d := m s)) a)"
        by (rule Suc.IH) (use Suc.prems u in linarith)+
      then show ?thesis by (simp only: memcpy.simps e)
    qed
    also have "\<dots> = (if within d (Suc n) a then m (s + (a - d)) else m a)"
      using w nd ns by auto
    finally show ?thesis .
  qed
qed

lemma copy_down_effect:
  assumes "unat d + n \<le> 2 ^ 32" "unat s + n \<le> 2 ^ 32" "unat s \<le> unat d \<or> unat d + n \<le> unat s"
  shows "copy_down n m (d + of_nat n) (s + of_nat n) a = (if within d n a then m (s + (a - d)) else m a)"
  using assms
proof (induction n arbitrary: m)
  case 0
  then show ?case by simp
next
  case (Suc n)
  let ?d = "d + of_nat n" and ?s = "s + of_nat n"
  have u: "unat ?d = unat d + n" "unat ?s = unat s + n"
    using Suc.prems unat_plus [of d n] unat_plus [of s n] by simp_all
  have w: "within d (Suc n) a \<longleftrightarrow> a = ?d \<or> within d n a"
    using within_iff [of d "Suc n" a] within_iff [of d n a] Suc.prems u by (auto simp: word_unat_eq_iff)
  have nd: "\<not> within d n ?d" using within_iff [of d n ?d] Suc.prems u by auto
  have ns: "s + (a - d) \<noteq> ?d" if "within d n a"
  proof -
    have r: "unat d \<le> unat a" "unat a < unat d + n" using that within_iff [of d n a] Suc.prems by auto
    then have e: "a - d = of_nat (unat a - unat d)" by (simp add: of_nat_diff)
    have "unat (s + (a - d)) = unat s + (unat a - unat d)"
      unfolding e using r Suc.prems by (intro unat_plus) linarith
    moreover have "unat s + (unat a - unat d) \<noteq> unat ?d" unfolding u using r Suc.prems by linarith
    ultimately show ?thesis by (metis)
  qed
  have "copy_down (Suc n) m (d + of_nat (Suc n)) (s + of_nat (Suc n)) a
      = (if within d n a then (m(?d := m ?s)) (s + (a - d)) else (m(?d := m ?s)) a)"
  proof -
    have e: "d + of_nat (Suc n) - 1 = ?d" "s + of_nat (Suc n) - 1 = ?s" by simp_all
    have "copy_down n (m(?d := m ?s)) ?d ?s a
        = (if within d n a then (m(?d := m ?s)) (s + (a - d)) else (m(?d := m ?s)) a)"
      by (rule Suc.IH) (use Suc.prems in linarith)+
    then show ?thesis by (simp only: copy_down.simps e)
  qed
  also have "\<dots> = (if within d (Suc n) a then m (s + (a - d)) else m a)"
    using w nd ns by auto
  finally show ?case .
qed

lemma memmove_effect:
  assumes "unat d + n \<le> 2 ^ 32" "unat s + n \<le> 2 ^ 32"
  shows "memmove m d s n a = (if within d n a then m (s + (a - d)) else m a)"
  using assms memcpy_up [of d n s m a] copy_down_effect [of d n s m a]
  by (simp add: memmove_def word_less_nat_alt)

subsection \<open>Strings\<close>

declare nul_from.simps [simp del] copy_str.simps [simp del] strcmp.simps [simp del] strchr_loop.simps [simp del]
  match_at.simps [simp del] strstr_loop.simps [simp del]

lemma cstr_unique: "cstr m a xs \<Longrightarrow> cstr m a ys \<Longrightarrow> xs = ys"
proof (induction xs arbitrary: a ys)
  case Nil
  then show ?case by (cases ys) auto
next
  case (Cons x xs)
  then show ?case by (cases ys) auto
qed

lemma cstr_bytes: "cstr m a xs \<longleftrightarrow> mem_list m a (length xs) = xs \<and> 0 \<notin> set xs \<and> m (a + of_nat (length xs)) = 0"
proof (induction xs arbitrary: a)
  case Nil
  then show ?case by (simp add: mem_list_def)
next
  case (Cons x xs)
  then show ?case by (auto simp: mem_list_Suc add.assoc)
qed

lemma cstr_cong:
  assumes "cstr m a xs" "\<And>i. i \<le> length xs \<Longrightarrow> m' (a + of_nat i) = m (a + of_nat i)"
  shows "cstr m' a xs"
proof -
  have "mem_list m' a (length xs) = mem_list m a (length xs)"
    using assms(2) by (simp add: mem_list_def)
  then show ?thesis using assms by (simp add: cstr_bytes)
qed

lemma nul_from_cstr: "cstr m a xs \<Longrightarrow> nul_from m a = Some (a + of_nat (length xs))"
  by (induction xs arbitrary: a) (subst nul_from.simps, simp add: add.assoc)+

lemma strlen_cstr: "cstr m a xs \<Longrightarrow> strlen m a = Some (of_nat (length xs))"
  by (simp add: strlen_def nul_from_cstr)

text \<open>\<^verbatim>\<open>strcpy\<close> is a \<^verbatim>\<open>memcpy\<close> of the string with its terminator, and so right unless
  the destination begins inside the source.\<close>

lemma copy_str_memcpy:
  assumes "cstr m s xs" "unat d + Suc (length xs) \<le> 2 ^ 32" "unat s + Suc (length xs) \<le> 2 ^ 32"
    and "unat d \<le> unat s \<or> unat s + Suc (length xs) \<le> unat d"
  shows "copy_str m d s = Some (memcpy (Suc (length xs)) m d s)"
  using assms
proof (induction xs arbitrary: m d s)
  case Nil
  then show ?case by (subst copy_str.simps) simp
next
  case (Cons x xs)
  let ?m = "m(d := m s)"
  have u: "unat (d + 1) = unat d + 1" "unat (s + 1) = unat s + 1"
    using Cons.prems unat_plus [of d 1] unat_plus [of s 1] by simp_all
  have c: "cstr ?m (s + 1) xs"
  proof (rule cstr_cong)
    show "cstr m (s + 1) xs" using Cons.prems(1) by simp
    fix i assume "i \<le> length xs"
    then have "unat (s + 1 + of_nat i) = unat s + 1 + i"
      using Cons.prems(3) unat_plus [of "s + 1" i] u by simp
    then have "unat (s + 1 + of_nat i) \<noteq> unat d" using Cons.prems(4) \<open>i \<le> length xs\<close> by auto
    then have "s + 1 + of_nat i \<noteq> d" by metis
    then show "?m (s + 1 + of_nat i) = m (s + 1 + of_nat i)" by simp
  qed
  have "copy_str ?m (d + 1) (s + 1) = Some (memcpy (Suc (length xs)) ?m (d + 1) (s + 1))"
    using Cons.prems u by (intro Cons.IH [OF c]) auto
  with Cons.prems(1) show ?case by (subst copy_str.simps) (auto simp: Let_def)
qed

lemma strcpy_effect:
  assumes "cstr m s xs" "unat d + Suc (length xs) \<le> 2 ^ 32" "unat s + Suc (length xs) \<le> 2 ^ 32"
    and "unat d \<le> unat s \<or> unat s + Suc (length xs) \<le> unat d"
  shows "\<exists>m'. strcpy m d s = Some m' \<and> cstr m' d xs \<and> (\<forall>a. \<not> within d (Suc (length xs)) a \<longrightarrow> m' a = m a)"
proof -
  let ?m = "memcpy (Suc (length xs)) m d s"
  note e = memcpy_up [OF assms(2-4)]
  have "cstr (\<lambda>a. m (s + (a - d))) d xs" using assms(1) by (simp add: cstr_bytes mem_list_def)
  then have "cstr ?m d xs"
  proof (rule cstr_cong)
    fix i assume "i \<le> length xs"
    then have "within d (Suc (length xs)) (d + of_nat i)" using assms(2) by (intro within_add) auto
    then show "?m (d + of_nat i) = m (s + (d + of_nat i - d))" by (simp only: e if_True)
  qed
  then show ?thesis using copy_str_memcpy [OF assms] e by (simp add: strcpy_def)
qed

fun cmp_bytes :: "byte list \<Rightarrow> byte list \<Rightarrow> int" where
  "cmp_bytes [] [] = 0"
| "cmp_bytes (x # xs) [] = int (unat x)"
| "cmp_bytes [] (y # ys) = - int (unat y)"
| "cmp_bytes (x # xs) (y # ys) = (if x = y then cmp_bytes xs ys else int (unat x) - int (unat y))"

lemma strcmp_cstr:
  assumes "cstr m a xs" "cstr m b ys"
  shows "strcmp m a b = Some (cmp_bytes xs ys)"
  using assms
proof (induction xs ys arbitrary: a b rule: cmp_bytes.induct)
  case (4 x xs y ys)
  then have "strcmp m (a + 1) (b + 1) = Some (cmp_bytes xs ys)" if "x = y" using that by simp
  with "4.prems" show ?case by (subst strcmp.simps) auto
qed (subst strcmp.simps, simp)+

lemma cmp_bytes_order:
  assumes "0 \<notin> set xs" "0 \<notin> set ys"
  shows "cmp_bytes xs ys = 0 \<longleftrightarrow> xs = ys" "cmp_bytes xs ys < 0 \<longleftrightarrow> ord_class.lexordp xs ys"
proof -
  have z: "int (unat x) = 0 \<longleftrightarrow> x = 0" "0 < int (unat x) \<longleftrightarrow> x \<noteq> 0" for x :: byte
    using unat_gt_0 [of x] by (simp_all only: of_nat_eq_0_iff of_nat_0_less_iff unat_eq_zero)
  have d: "int (unat x) - int (unat y) = 0 \<longleftrightarrow> x = y" "int (unat x) - int (unat y) < 0 \<longleftrightarrow> x < y" for x y :: byte
    unfolding word_less_nat_alt word_unat_eq_iff by linarith+
  have z': "uint x = 0 \<longleftrightarrow> x = 0" "0 < uint x \<longleftrightarrow> x \<noteq> 0" and d': "uint x = uint y \<longleftrightarrow> x = y" "uint x < uint y \<longleftrightarrow> x < y"
    for x y :: byte
    using z [of x] d [of x y] by simp_all
  show "cmp_bytes xs ys = 0 \<longleftrightarrow> xs = ys"
    using assms by (induction xs ys rule: cmp_bytes.induct) (auto simp: z' d')
  show "cmp_bytes xs ys < 0 \<longleftrightarrow> ord_class.lexordp xs ys"
    using assms by (induction xs ys rule: cmp_bytes.induct) (auto simp: z' d')
qed

lemma match_at_cstr:
  assumes "cstr m h xs" "cstr m n ys"
  shows "match_at m h n = Some (prefix ys xs)"
  using assms
proof (induction xs ys arbitrary: h n rule: cmp_bytes.induct)
  case (4 x xs y ys)
  then have "match_at m (h + 1) (n + 1) = Some (prefix ys xs)" if "x = y" using that by simp
  with "4.prems" show ?case by (subst match_at.simps) auto
qed (subst match_at.simps, simp)+

lemma find_from_0:
  "find P [0..<Suc n] = (if P 0 then Some 0 else map_option Suc (find (\<lambda>i. P (Suc i)) [0..<n]))"
proof -
  have f: "find P (map Suc is) = map_option Suc (find (\<lambda>i. P (Suc i)) is)" for "is" by (induction "is") auto
  have "[0..<Suc n] = 0 # map Suc [0..<n]" by (simp add: upt_conv_Cons map_Suc_upt del: upt_Suc)
  then show ?thesis by (simp add: f del: upt_Suc)
qed

lemma strstr_loop_cstr:
  assumes "cstr m h xs" "cstr m n ys" "ys \<noteq> []"
  shows "strstr_loop m h n = Some (map_option (\<lambda>i. h + of_nat i) (find (\<lambda>i. prefix ys (drop i xs)) [0..<length xs]))"
  using assms
proof (induction xs arbitrary: h)
  case Nil
  then show ?case by (subst strstr_loop.simps) simp
next
  case (Cons x xs)
  have "match_at m h n = Some (prefix ys (x # xs))" using Cons.prems(1,2) by (rule match_at_cstr)
  moreover have "strstr_loop m (h + 1) n
      = Some (map_option (\<lambda>i. h + 1 + of_nat i) (find (\<lambda>i. prefix ys (drop i xs)) [0..<length xs]))"
    using Cons by simp
  ultimately show ?case using Cons.prems(1)
    by (subst strstr_loop.simps) (auto simp: find_from_0 option.map_comp comp_def add.assoc simp del: upt_Suc)
qed

subsection \<open>Properties\<close>

lemma memmove_overlap:
  assumes "unat dest + n \<le> 2 ^ 32" "unat src + n \<le> 2 ^ 32"
  shows "mem_list (memmove m dest src n) dest n = mem_list m src n
    \<and> (\<forall>a. within dest n a \<or> memmove m dest src n a = m a)"
  using assms by (simp_all add: mem_list_def memmove_effect within_add)

text \<open>\<^verbatim>\<open>memcpy\<close> does not promise this: copied two bytes up, the first two bytes repeat.\<close>

lemma memcpy_overlap:
  "mem_list (memcpy 5 (\<lambda>a. of_nat (unat a)) 12 10) 12 5 = [10, 11, 10, 11, 10]"
  by code_simp

lemma strstr_first:
  assumes "cstr m h xs" "cstr m n ys"
  shows "\<exists>r. strstr m h n = Some r \<and>
    (case r of None \<Rightarrow> \<not> sublist ys xs
     | Some p \<Rightarrow> \<exists>i\<le>length xs. p = h + of_nat i \<and> prefix ys (drop i xs) \<and> (\<forall>j<i. \<not> prefix ys (drop j xs)))"
proof (cases "ys = []")
  case True
  then have "strstr m h n = Some (Some h)" using assms(2) by (simp add: strstr_def)
  then show ?thesis using True by (auto intro!: exI [of _ 0])
next
  case False
  then have n: "m n \<noteq> 0" using assms(2) by (cases ys) auto
  let ?f = "find (\<lambda>i. prefix ys (drop i xs)) [0..<length xs]"
  have s: "strstr m h n = Some (map_option (\<lambda>i. h + of_nat i) ?f)"
    using strstr_loop_cstr [OF assms False] n by (simp add: strstr_def)
  show ?thesis
  proof (cases ?f)
    case None
    have "\<not> sublist ys xs"
    proof
      assume "sublist ys xs"
      then obtain us vs where x: "xs = us @ ys @ vs" by (auto simp: sublist_def)
      then have "prefix ys (drop (length us) xs)" "length us < length xs" using False by auto
      with None show False by (auto simp: find_None_iff)
    qed
    with s None show ?thesis by simp
  next
    case (Some i)
    then obtain l where l: "l < length [0..<length xs]" "prefix ys (drop ([0..<length xs] ! l) xs)"
      "i = [0..<length xs] ! l" "\<forall>j<l. \<not> prefix ys (drop ([0..<length xs] ! j) xs)"
      using find_Some_iff [of _ _ i] by fastforce
    then have "i = l" "l < length xs" by simp_all
    with l(2,4) s Some show ?thesis by (auto intro!: exI [of _ i])
  qed
qed

end
