(* ===== verification/Libc_Sys.thy ===== *)
theory Libc_Sys
  imports Trap Libc_String
begin

text \<open>
  The system calls of the C library, \<^verbatim>\<open>userland/Libraries/libc/src/syscalls.c\<close>, on top of
  the kernel's own \<^verbatim>\<open>trap\<close>: a call loads the registers, executes \<^verbatim>\<open>int $0x80\<close>, which is
  \<^const>\<open>trap_call\<close>, and looks at the carry flag.  A process may lose the processor and run a
  signal handler on the way out of the kernel; neither changes the two registers.  The value of a
  library function is the returned word together with what it stores into \<^verbatim>\<open>errno\<close>, \<open>None\<close>
  when it leaves \<^verbatim>\<open>errno\<close> alone.  Pointers are passed on as they are.
\<close>

subsection \<open>The numbers of sys/syscall.h\<close>

abbreviation (input) SYS_EXIT :: addr where "SYS_EXIT \<equiv> 1"
abbreviation (input) SYS_FORK :: addr where "SYS_FORK \<equiv> 2"
abbreviation (input) SYS_READ :: addr where "SYS_READ \<equiv> 3"
abbreviation (input) SYS_WRITE :: addr where "SYS_WRITE \<equiv> 4"
abbreviation (input) SYS_OPEN :: addr where "SYS_OPEN \<equiv> 5"
abbreviation (input) SYS_CLOSE :: addr where "SYS_CLOSE \<equiv> 6"
abbreviation (input) SYS_WAIT :: addr where "SYS_WAIT \<equiv> 7"
abbreviation (input) SYS_CREAT :: addr where "SYS_CREAT \<equiv> 8"
abbreviation (input) SYS_GETFBINFO :: addr where "SYS_GETFBINFO \<equiv> 39"
abbreviation (input) SYS_LSEEK :: addr where "SYS_LSEEK \<equiv> 19"
abbreviation (input) SYS_EXEC :: addr where "SYS_EXEC \<equiv> 11"
abbreviation (input) SYS_CHDIR :: addr where "SYS_CHDIR \<equiv> 12"
abbreviation (input) SYS_GETPID :: addr where "SYS_GETPID \<equiv> 20"
abbreviation (input) SYS_GETPPID :: addr where "SYS_GETPPID \<equiv> 21"
abbreviation (input) SYS_SETUID :: addr where "SYS_SETUID \<equiv> 23"
abbreviation (input) SYS_GETUID :: addr where "SYS_GETUID \<equiv> 24"
abbreviation (input) SYS_SETGID :: addr where "SYS_SETGID \<equiv> 46"
abbreviation (input) SYS_KILL :: addr where "SYS_KILL \<equiv> 37"
abbreviation (input) SYS_GETGID :: addr where "SYS_GETGID \<equiv> 47"
abbreviation (input) SYS_GETPGRP :: addr where "SYS_GETPGRP \<equiv> 48"
abbreviation (input) SYS_GETCWD :: addr where "SYS_GETCWD \<equiv> 49"
abbreviation (input) SYS_EXIT2 :: addr where "SYS_EXIT2 \<equiv> 50"
abbreviation (input) SYS_TRUNCATE :: addr where "SYS_TRUNCATE \<equiv> 51"
abbreviation (input) SYS_FTRUNCATE :: addr where "SYS_FTRUNCATE \<equiv> 52"
abbreviation (input) SYS_FSYNC :: addr where "SYS_FSYNC \<equiv> 53"
abbreviation (input) SYS_UTIME :: addr where "SYS_UTIME \<equiv> 54"
abbreviation (input) SYS_PIPE :: addr where "SYS_PIPE \<equiv> 55"
abbreviation (input) SYS_DUP :: addr where "SYS_DUP \<equiv> 56"
abbreviation (input) SYS_DUP2 :: addr where "SYS_DUP2 \<equiv> 57"
abbreviation (input) SYS_STAT :: addr where "SYS_STAT \<equiv> 58"
abbreviation (input) SYS_FSTAT :: addr where "SYS_FSTAT \<equiv> 59"
abbreviation (input) SYS_LSTAT :: addr where "SYS_LSTAT \<equiv> 60"
abbreviation (input) SYS_LINK :: addr where "SYS_LINK \<equiv> 61"
abbreviation (input) SYS_UNLINK :: addr where "SYS_UNLINK \<equiv> 62"
abbreviation (input) SYS_RENAME :: addr where "SYS_RENAME \<equiv> 63"
abbreviation (input) SYS_MKDIR :: addr where "SYS_MKDIR \<equiv> 64"
abbreviation (input) SYS_RMDIR :: addr where "SYS_RMDIR \<equiv> 65"
abbreviation (input) SYS_CHMOD :: addr where "SYS_CHMOD \<equiv> 66"
abbreviation (input) SYS_UMASK :: addr where "SYS_UMASK \<equiv> 67"
abbreviation (input) SYS_BRK :: addr where "SYS_BRK \<equiv> 68"
abbreviation (input) SYS_SBRK :: addr where "SYS_SBRK \<equiv> 69"
abbreviation (input) SYS_SIGACTION :: addr where "SYS_SIGACTION \<equiv> 70"
abbreviation (input) SYS_SIGPROCMASK :: addr where "SYS_SIGPROCMASK \<equiv> 71"
abbreviation (input) SYS_SIGSUSPEND :: addr where "SYS_SIGSUSPEND \<equiv> 72"
abbreviation (input) SYS_ALARM :: addr where "SYS_ALARM \<equiv> 73"
abbreviation (input) SYS_PAUSE :: addr where "SYS_PAUSE \<equiv> 74"
abbreviation (input) SYS_TIME :: addr where "SYS_TIME \<equiv> 75"
abbreviation (input) SYS_GETTIMEOFDAY :: addr where "SYS_GETTIMEOFDAY \<equiv> 76"
abbreviation (input) SYS_SLEEP :: addr where "SYS_SLEEP \<equiv> 77"
abbreviation (input) SYS_NANOSLEEP :: addr where "SYS_NANOSLEEP \<equiv> 78"
abbreviation (input) SYS_TCGETATTR :: addr where "SYS_TCGETATTR \<equiv> 79"
abbreviation (input) SYS_TCSETATTR :: addr where "SYS_TCSETATTR \<equiv> 80"
abbreviation (input) SYS_TCFLUSH :: addr where "SYS_TCFLUSH \<equiv> 81"
abbreviation (input) SYS_IOCTL :: addr where "SYS_IOCTL \<equiv> 82"
abbreviation (input) SYS_SELECT :: addr where "SYS_SELECT \<equiv> 83"
abbreviation (input) SYS_POLL :: addr where "SYS_POLL \<equiv> 84"
abbreviation (input) SYS_GETPGID :: addr where "SYS_GETPGID \<equiv> 85"
abbreviation (input) SYS_SETPGID :: addr where "SYS_SETPGID \<equiv> 86"
abbreviation (input) SYS_GETSID :: addr where "SYS_GETSID \<equiv> 87"
abbreviation (input) SYS_SETSID :: addr where "SYS_SETSID \<equiv> 88"
abbreviation (input) SYS_MMAP :: addr where "SYS_MMAP \<equiv> 89"
abbreviation (input) SYS_MUNMAP :: addr where "SYS_MUNMAP \<equiv> 90"
abbreviation (input) SYS_GETRLIMIT :: addr where "SYS_GETRLIMIT \<equiv> 91"
abbreviation (input) SYS_SETRLIMIT :: addr where "SYS_SETRLIMIT \<equiv> 92"
abbreviation (input) SYS_GETRUSAGE :: addr where "SYS_GETRUSAGE \<equiv> 93"
abbreviation (input) SYS_CHOWN :: addr where "SYS_CHOWN \<equiv> 94"
abbreviation (input) SYS_LCHOWN :: addr where "SYS_LCHOWN \<equiv> 95"
abbreviation (input) SYS_FCHOWN :: addr where "SYS_FCHOWN \<equiv> 96"
abbreviation (input) SYS_FCHMOD :: addr where "SYS_FCHMOD \<equiv> 97"
abbreviation (input) SYS_UTIMES :: addr where "SYS_UTIMES \<equiv> 98"
abbreviation (input) SYS_FCNTL :: addr where "SYS_FCNTL \<equiv> 99"
abbreviation (input) SYS_ACCESS :: addr where "SYS_ACCESS \<equiv> 100"
abbreviation (input) SYS_WAITPID :: addr where "SYS_WAITPID \<equiv> 101"
abbreviation (input) SYS_ISATTY :: addr where "SYS_ISATTY \<equiv> 102"
abbreviation (input) SYS_SIGPENDING :: addr where "SYS_SIGPENDING \<equiv> 103"
abbreviation (input) SYS_SIGRETURN :: addr where "SYS_SIGRETURN \<equiv> 104"
abbreviation (input) SYS_MPROTECT :: addr where "SYS_MPROTECT \<equiv> 105"

subsection \<open>Entering the kernel\<close>

type_synonym libc = "(int32_t \<times> int32_t option) kop"

abbreviation (input) EDI :: nat where "EDI \<equiv> 4"
abbreviation (input) ESI :: nat where "ESI \<equiv> 5"
abbreviation (input) EBX :: nat where "EBX \<equiv> 8"

text \<open>The saved frame holds the registers at the trap.\<close>

definition int80 :: "outside \<Rightarrow> addr \<Rightarrow> (nat \<times> addr) list \<Rightarrow> (bool \<times> int32_t) kop" where
  "int80 x num regs k =
     kseq (trap_call x) (ask (\<lambda>k. (hasf (u_ar0 (k_u k) ! EFLAGS) 1, u_ar0 (k_u k) ! EAX)))
       (fold (\<lambda>(r, v). set_ar0 r v) regs (set_ar0 EAX num k))"

definition result :: "bool \<times> int32_t \<Rightarrow> int32_t \<times> int32_t option" where
  "result c = (if fst c then (- 1, Some (snd c)) else (snd c, None))"

definition syscall0 :: "outside \<Rightarrow> addr \<Rightarrow> libc" where
  "syscall0 x num = kbind (int80 x num []) (\<lambda>c. ret (result c))"

definition syscall1 :: "outside \<Rightarrow> addr \<Rightarrow> addr \<Rightarrow> libc" where
  "syscall1 x num a1 = kbind (int80 x num [(EBX, a1)]) (\<lambda>c. ret (result c))"

definition syscall2 :: "outside \<Rightarrow> addr \<Rightarrow> addr \<Rightarrow> addr \<Rightarrow> libc" where
  "syscall2 x num a1 a2 = kbind (int80 x num [(EBX, a1), (ECX, a2)]) (\<lambda>c. ret (result c))"

definition syscall3 :: "outside \<Rightarrow> addr \<Rightarrow> addr \<Rightarrow> addr \<Rightarrow> addr \<Rightarrow> libc" where
  "syscall3 x num a1 a2 a3 =
     kbind (int80 x num [(EBX, a1), (ECX, a2), (EDX, a3)]) (\<lambda>c. ret (result c))"

definition syscall5 :: "outside \<Rightarrow> addr \<Rightarrow> addr \<Rightarrow> addr \<Rightarrow> addr \<Rightarrow> addr \<Rightarrow> addr \<Rightarrow> libc" where
  "syscall5 x num a1 a2 a3 a4 a5 =
     kbind (int80 x num [(EBX, a1), (ECX, a2), (EDX, a3), (ESI, a4), (EDI, a5)]) (\<lambda>c. ret (result c))"

text \<open>The sixth argument is pushed on the user's stack for the call.  The instruction that pops it
  stands before the one that reads the carry flag, so that the error of the call is lost: the flag is
  the carry of the addition to the stack pointer.\<close>

definition push_arg :: "addr \<Rightarrow> kernel \<Rightarrow> kernel" where
  "push_arg a k = (let sp = u_ar0 (k_u k) ! UESP - 4 in snd (suword sp a (set_ar0 UESP sp k)))"

definition pop_arg :: "kernel \<Rightarrow> kernel" where
  "pop_arg k = set_ar0 UESP (u_ar0 (k_u k) ! UESP + 4) k"

definition pop_carry :: "kernel \<Rightarrow> bool" where
  "pop_carry k \<longleftrightarrow> 2 ^ 32 \<le> unat (u_ar0 (k_u k) ! UESP) + 4"

definition syscall6 :: "outside \<Rightarrow> addr \<Rightarrow> addr \<Rightarrow> addr \<Rightarrow> addr \<Rightarrow> addr \<Rightarrow> addr \<Rightarrow> addr \<Rightarrow> libc" where
  "syscall6 x num a1 a2 a3 a4 a5 a6 k =
     kbind (int80 x num [(EBX, a1), (ECX, a2), (EDX, a3), (ESI, a4), (EDI, a5)])
       (\<lambda>c k. Ret (result (pop_carry k, snd c)) (pop_arg k)) (push_arg a6 k)"

subsection \<open>The functions that only pass their arguments on\<close>

definition libc_fork :: "outside \<Rightarrow> libc" where
  "libc_fork x = syscall0 x SYS_FORK"

definition libc_exec :: "outside \<Rightarrow> addr \<Rightarrow> addr \<Rightarrow> libc" where
  "libc_exec x filename argv = syscall2 x SYS_EXEC filename argv"

definition libc_waitpid :: "outside \<Rightarrow> addr \<Rightarrow> addr \<Rightarrow> addr \<Rightarrow> libc" where
  "libc_waitpid x pid status options = syscall3 x SYS_WAITPID pid status options"

definition libc_isatty :: "outside \<Rightarrow> addr \<Rightarrow> libc" where
  "libc_isatty x fd = syscall1 x SYS_ISATTY fd"

definition libc_sigpending :: "outside \<Rightarrow> addr \<Rightarrow> libc" where
  "libc_sigpending x set_p = syscall1 x SYS_SIGPENDING set_p"

definition libc_sigreturn :: "outside \<Rightarrow> libc" where
  "libc_sigreturn x = syscall0 x SYS_SIGRETURN"

definition libc_mprotect :: "outside \<Rightarrow> addr \<Rightarrow> addr \<Rightarrow> addr \<Rightarrow> libc" where
  "libc_mprotect x addr len prot = syscall3 x SYS_MPROTECT addr len prot"

definition libc_write :: "outside \<Rightarrow> addr \<Rightarrow> addr \<Rightarrow> addr \<Rightarrow> libc" where
  "libc_write x fd buf count = syscall3 x SYS_WRITE fd buf count"

definition libc_read :: "outside \<Rightarrow> addr \<Rightarrow> addr \<Rightarrow> addr \<Rightarrow> libc" where
  "libc_read x fd buf count = syscall3 x SYS_READ fd buf count"

definition libc_open :: "outside \<Rightarrow> addr \<Rightarrow> addr \<Rightarrow> libc" where
  "libc_open x path mode = syscall2 x SYS_OPEN path mode"

definition libc_close :: "outside \<Rightarrow> addr \<Rightarrow> libc" where
  "libc_close x fd = syscall1 x SYS_CLOSE fd"

definition libc_chdir :: "outside \<Rightarrow> addr \<Rightarrow> libc" where
  "libc_chdir x path = syscall1 x SYS_CHDIR path"

definition libc_getpid :: "outside \<Rightarrow> libc" where
  "libc_getpid x = syscall0 x SYS_GETPID"

definition libc_getuid :: "outside \<Rightarrow> libc" where
  "libc_getuid x = syscall0 x SYS_GETUID"

definition libc_getgid :: "outside \<Rightarrow> libc" where
  "libc_getgid x = syscall0 x SYS_GETGID"

definition libc_setuid :: "outside \<Rightarrow> addr \<Rightarrow> libc" where
  "libc_setuid x uid = syscall1 x SYS_SETUID uid"

definition libc_setgid :: "outside \<Rightarrow> addr \<Rightarrow> libc" where
  "libc_setgid x gid = syscall1 x SYS_SETGID gid"

definition libc_truncate :: "outside \<Rightarrow> addr \<Rightarrow> addr \<Rightarrow> libc" where
  "libc_truncate x path len = syscall2 x SYS_TRUNCATE path len"

definition libc_ftruncate :: "outside \<Rightarrow> addr \<Rightarrow> addr \<Rightarrow> libc" where
  "libc_ftruncate x fd len = syscall2 x SYS_FTRUNCATE fd len"

definition libc_fsync :: "outside \<Rightarrow> addr \<Rightarrow> libc" where
  "libc_fsync x fd = syscall1 x SYS_FSYNC fd"

definition libc_utime :: "outside \<Rightarrow> addr \<Rightarrow> addr \<Rightarrow> libc" where
  "libc_utime x path tms = syscall2 x SYS_UTIME path tms"

definition libc_dup :: "outside \<Rightarrow> addr \<Rightarrow> libc" where
  "libc_dup x oldfd = syscall1 x SYS_DUP oldfd"

definition libc_dup2 :: "outside \<Rightarrow> addr \<Rightarrow> addr \<Rightarrow> libc" where
  "libc_dup2 x oldfd newfd = syscall2 x SYS_DUP2 oldfd newfd"

definition libc_stat :: "outside \<Rightarrow> addr \<Rightarrow> addr \<Rightarrow> libc" where
  "libc_stat x path buf = syscall2 x SYS_STAT path buf"

definition libc_fstat :: "outside \<Rightarrow> addr \<Rightarrow> addr \<Rightarrow> libc" where
  "libc_fstat x fd buf = syscall2 x SYS_FSTAT fd buf"

definition libc_lstat :: "outside \<Rightarrow> addr \<Rightarrow> addr \<Rightarrow> libc" where
  "libc_lstat x path buf = syscall2 x SYS_LSTAT path buf"

definition libc_link :: "outside \<Rightarrow> addr \<Rightarrow> addr \<Rightarrow> libc" where
  "libc_link x oldpath newpath = syscall2 x SYS_LINK oldpath newpath"

definition libc_unlink :: "outside \<Rightarrow> addr \<Rightarrow> libc" where
  "libc_unlink x path = syscall1 x SYS_UNLINK path"

definition libc_rename :: "outside \<Rightarrow> addr \<Rightarrow> addr \<Rightarrow> libc" where
  "libc_rename x oldpath newpath = syscall2 x SYS_RENAME oldpath newpath"

definition libc_mkdir :: "outside \<Rightarrow> addr \<Rightarrow> addr \<Rightarrow> libc" where
  "libc_mkdir x path mode = syscall2 x SYS_MKDIR path mode"

definition libc_rmdir :: "outside \<Rightarrow> addr \<Rightarrow> libc" where
  "libc_rmdir x path = syscall1 x SYS_RMDIR path"

definition libc_chmod :: "outside \<Rightarrow> addr \<Rightarrow> addr \<Rightarrow> libc" where
  "libc_chmod x path mode = syscall2 x SYS_CHMOD path mode"

definition libc_umask :: "outside \<Rightarrow> addr \<Rightarrow> libc" where
  "libc_umask x m = syscall1 x SYS_UMASK m"

definition libc_brk :: "outside \<Rightarrow> addr \<Rightarrow> libc" where
  "libc_brk x addr = syscall1 x SYS_BRK addr"

definition libc_sigaction :: "outside \<Rightarrow> addr \<Rightarrow> addr \<Rightarrow> addr \<Rightarrow> libc" where
  "libc_sigaction x sig new_act oact = syscall3 x SYS_SIGACTION sig new_act oact"

definition libc_alarm :: "outside \<Rightarrow> addr \<Rightarrow> libc" where
  "libc_alarm x seconds = syscall1 x SYS_ALARM seconds"

definition libc_pause :: "outside \<Rightarrow> libc" where
  "libc_pause x = syscall0 x SYS_PAUSE"

definition libc_gettimeofday :: "outside \<Rightarrow> addr \<Rightarrow> addr \<Rightarrow> libc" where
  "libc_gettimeofday x tv tz = syscall2 x SYS_GETTIMEOFDAY tv tz"

definition libc_sleep :: "outside \<Rightarrow> addr \<Rightarrow> libc" where
  "libc_sleep x seconds = syscall1 x SYS_SLEEP seconds"

definition libc_nanosleep :: "outside \<Rightarrow> addr \<Rightarrow> addr \<Rightarrow> libc" where
  "libc_nanosleep x rqtp rmtp = syscall2 x SYS_NANOSLEEP rqtp rmtp"

definition libc_tcgetattr :: "outside \<Rightarrow> addr \<Rightarrow> addr \<Rightarrow> libc" where
  "libc_tcgetattr x fd termios_p = syscall2 x SYS_TCGETATTR fd termios_p"

definition libc_tcsetattr :: "outside \<Rightarrow> addr \<Rightarrow> addr \<Rightarrow> addr \<Rightarrow> libc" where
  "libc_tcsetattr x fd optional_actions termios_p = syscall3 x SYS_TCSETATTR fd optional_actions termios_p"

definition libc_tcflush :: "outside \<Rightarrow> addr \<Rightarrow> addr \<Rightarrow> libc" where
  "libc_tcflush x fd queue_selector = syscall2 x SYS_TCFLUSH fd queue_selector"

definition libc_ioctl :: "outside \<Rightarrow> addr \<Rightarrow> addr \<Rightarrow> addr \<Rightarrow> libc" where
  "libc_ioctl x fd request argp = syscall3 x SYS_IOCTL fd request argp"

definition libc_select :: "outside \<Rightarrow> addr \<Rightarrow> addr \<Rightarrow> addr \<Rightarrow> addr \<Rightarrow> addr \<Rightarrow> libc" where
  "libc_select x nfds readfds writefds exceptfds timeout = syscall5 x SYS_SELECT nfds readfds writefds exceptfds timeout"

definition libc_poll :: "outside \<Rightarrow> addr \<Rightarrow> addr \<Rightarrow> addr \<Rightarrow> libc" where
  "libc_poll x fds nfds timeout = syscall3 x SYS_POLL fds nfds timeout"

definition libc_getpgid :: "outside \<Rightarrow> addr \<Rightarrow> libc" where
  "libc_getpgid x pid = syscall1 x SYS_GETPGID pid"

definition libc_setpgid :: "outside \<Rightarrow> addr \<Rightarrow> addr \<Rightarrow> libc" where
  "libc_setpgid x pid pgid = syscall2 x SYS_SETPGID pid pgid"

definition libc_getsid :: "outside \<Rightarrow> addr \<Rightarrow> libc" where
  "libc_getsid x pid = syscall1 x SYS_GETSID pid"

definition libc_setsid :: "outside \<Rightarrow> libc" where
  "libc_setsid x = syscall0 x SYS_SETSID"

definition libc_mmap :: "outside \<Rightarrow> addr \<Rightarrow> addr \<Rightarrow> addr \<Rightarrow> addr \<Rightarrow> addr \<Rightarrow> addr \<Rightarrow> libc" where
  "libc_mmap x addr len prot flags fd offset = syscall6 x SYS_MMAP addr len prot flags fd offset"

definition libc_munmap :: "outside \<Rightarrow> addr \<Rightarrow> addr \<Rightarrow> libc" where
  "libc_munmap x addr len = syscall2 x SYS_MUNMAP addr len"

definition libc_getrlimit :: "outside \<Rightarrow> addr \<Rightarrow> addr \<Rightarrow> libc" where
  "libc_getrlimit x resource rlim = syscall2 x SYS_GETRLIMIT resource rlim"

definition libc_setrlimit :: "outside \<Rightarrow> addr \<Rightarrow> addr \<Rightarrow> libc" where
  "libc_setrlimit x resource rlim = syscall2 x SYS_SETRLIMIT resource rlim"

definition libc_getrusage :: "outside \<Rightarrow> addr \<Rightarrow> addr \<Rightarrow> libc" where
  "libc_getrusage x who usage = syscall2 x SYS_GETRUSAGE who usage"

definition libc_chown :: "outside \<Rightarrow> addr \<Rightarrow> addr \<Rightarrow> addr \<Rightarrow> libc" where
  "libc_chown x path owner grp = syscall3 x SYS_CHOWN path owner grp"

definition libc_lchown :: "outside \<Rightarrow> addr \<Rightarrow> addr \<Rightarrow> addr \<Rightarrow> libc" where
  "libc_lchown x path owner grp = syscall3 x SYS_LCHOWN path owner grp"

definition libc_fchown :: "outside \<Rightarrow> addr \<Rightarrow> addr \<Rightarrow> addr \<Rightarrow> libc" where
  "libc_fchown x fd owner grp = syscall3 x SYS_FCHOWN fd owner grp"

definition libc_fchmod :: "outside \<Rightarrow> addr \<Rightarrow> addr \<Rightarrow> libc" where
  "libc_fchmod x fd mode = syscall2 x SYS_FCHMOD fd mode"

definition libc_utimes :: "outside \<Rightarrow> addr \<Rightarrow> addr \<Rightarrow> libc" where
  "libc_utimes x filename tms = syscall2 x SYS_UTIMES filename tms"

definition libc_fcntl :: "outside \<Rightarrow> addr \<Rightarrow> addr \<Rightarrow> addr \<Rightarrow> libc" where
  "libc_fcntl x fd cmd a = syscall3 x SYS_FCNTL fd cmd a"

definition libc_access :: "outside \<Rightarrow> addr \<Rightarrow> addr \<Rightarrow> libc" where
  "libc_access x pathname mode = syscall2 x SYS_ACCESS pathname mode"

definition libc_creat :: "outside \<Rightarrow> addr \<Rightarrow> addr \<Rightarrow> libc" where
  "libc_creat x pathname mode = syscall2 x SYS_CREAT pathname mode"

definition libc_kill :: "outside \<Rightarrow> addr \<Rightarrow> addr \<Rightarrow> libc" where
  "libc_kill x pid sig = syscall2 x SYS_KILL pid sig"

definition libc_getppid :: "outside \<Rightarrow> libc" where
  "libc_getppid x = syscall0 x SYS_GETPPID"

definition libc_getpgrp :: "outside \<Rightarrow> libc" where
  "libc_getpgrp x = syscall0 x SYS_GETPGRP"

definition libc_getfbinfo :: "outside \<Rightarrow> addr \<Rightarrow> libc" where
  "libc_getfbinfo x info = syscall1 x SYS_GETFBINFO info"

subsection \<open>The others\<close>

definition libc_execv :: "outside \<Rightarrow> addr \<Rightarrow> addr \<Rightarrow> libc" where
  "libc_execv x filename argv = libc_exec x filename argv"

definition libc_execve :: "outside \<Rightarrow> addr \<Rightarrow> addr \<Rightarrow> addr \<Rightarrow> libc" where
  "libc_execve x filename argv envp = libc_exec x filename argv"

definition libc_exit :: "outside \<Rightarrow> addr \<Rightarrow> unit kop" where
  "libc_exit x status = kbind (syscall1 x SYS_EXIT status) (\<lambda>_. stop Spins)"

definition libc__exit :: "outside \<Rightarrow> addr \<Rightarrow> unit kop" where
  "libc__exit x status = kbind (syscall1 x SYS_EXIT2 status) (\<lambda>_. stop Spins)"

text \<open>A store of the library into a variable of the process.\<close>

definition store_user :: "addr \<Rightarrow> addr \<Rightarrow> kernel \<Rightarrow> kernel" where
  "store_user p v k = (if p = 0 then k else snd (suword p v k))"

definition libc_wait :: "outside \<Rightarrow> addr \<Rightarrow> libc" where
  "libc_wait x status = kbind (int80 x SYS_WAIT []) (\<lambda>c k.
     if fst c then Ret (- 1, Some (snd c)) k
     else Ret (snd c, None) (store_user status (u_ar0 (k_u k) ! ECX) k))"

text \<open>\<^verbatim>\<open>NULL\<close> on failure.\<close>

definition libc_getcwd :: "outside \<Rightarrow> addr \<Rightarrow> addr \<Rightarrow> libc" where
  "libc_getcwd x buf len = kbind (int80 x SYS_GETCWD [(EBX, buf), (ECX, len)])
     (\<lambda>c. ret (if fst c then (0, Some (snd c)) else (snd c, None)))"

definition libc_pipe :: "outside \<Rightarrow> addr \<Rightarrow> libc" where
  "libc_pipe x fd = kbind (int80 x SYS_PIPE [(EBX, fd)])
     (\<lambda>c. ret (if fst c then (- 1, Some (snd c)) else (0, None)))"

definition libc_sbrk :: "outside \<Rightarrow> addr \<Rightarrow> libc" where
  "libc_sbrk x incr = kbind (int80 x SYS_SBRK [(EBX, incr)])
     (\<lambda>c. ret (if fst c then (- 1, Some (snd c)) else (snd c, None)))"

definition load_user :: "addr \<Rightarrow> kernel \<Rightarrow> addr" where
  "load_user p k = (if p = 0 then 0 else fuword p k)"

definition libc_sigprocmask :: "outside \<Rightarrow> addr \<Rightarrow> addr \<Rightarrow> addr \<Rightarrow> libc" where
  "libc_sigprocmask x how set_p oset k =
     kbind (int80 x SYS_SIGPROCMASK [(EBX, how), (ECX, load_user set_p k), (EDX, oset)]) (\<lambda>c k.
       if fst c then Ret (- 1, Some (snd c)) k else Ret (0, None) (store_user oset (snd c) k)) k"

definition libc_sigsuspend :: "outside \<Rightarrow> addr \<Rightarrow> libc" where
  "libc_sigsuspend x m k = syscall1 x SYS_SIGSUSPEND (load_user m k) k"

definition libc_time :: "outside \<Rightarrow> addr \<Rightarrow> libc" where
  "libc_time x tloc = kbind (int80 x SYS_TIME [(EBX, tloc)])
     (\<lambda>c. ret (if fst c then (- 1, Some (snd c)) else (snd c, None)))"

definition libc_lseek :: "outside \<Rightarrow> addr \<Rightarrow> addr \<Rightarrow> addr \<Rightarrow> libc" where
  "libc_lseek x fd offset whence = kbind (int80 x SYS_LSEEK [(EBX, fd), (ECX, offset), (EDX, whence)])
     (\<lambda>c. ret (if fst c then (- 1, Some (snd c)) else (snd c, None)))"

subsection \<open>What a call does\<close>

lemma set_ar0_fields [simp]:
  "k_sch (set_ar0 r v k) = k_sch k" "k_fs (set_ar0 r v k) = k_fs k" "k_file (set_ar0 r v k) = k_file k"
  "k_bio (set_ar0 r v k) = k_bio k" "phys (set_ar0 r v k) = phys k" "maxmem (set_ar0 r v k) = maxmem k"
  "u_ar0 (k_u (set_ar0 r v k)) = (u_ar0 (k_u k))[r := v]"
  "u_procp (k_u (set_ar0 r v k)) = u_procp (k_u k)" "u_ofile (k_u (set_ar0 r v k)) = u_ofile (k_u k)"
  "u_uid (k_u (set_ar0 r v k)) = u_uid (k_u k)" "u_ruid (k_u (set_ar0 r v k)) = u_ruid (k_u k)"
  "u_intflg (k_u (set_ar0 r v k)) = u_intflg (k_u k)"
  "u_tsize (k_u (set_ar0 r v k)) = u_tsize (k_u k)" "u_dsize (k_u (set_ar0 r v k)) = u_dsize (k_u k)"
  "u_ssize (k_u (set_ar0 r v k)) = u_ssize (k_u k)"
  by (simp_all add: set_ar0_def)

lemma fold_set_ar0_len:
  "length (u_ar0 (k_u (fold (\<lambda>(r, v). set_ar0 r v) regs k))) = length (u_ar0 (k_u k))"
  by (induction regs arbitrary: k) auto

text \<open>The state in which the handler starts, and what the library makes of its end.\<close>

definition entered :: "addr \<Rightarrow> (nat \<times> addr) list \<Rightarrow> kernel \<Rightarrow> kernel" where
  "entered num regs k = load_args (set_error 0 (fold (\<lambda>(r, v). set_ar0 r v) regs (set_ar0 EAX num k)))"

definition outcome :: "kernel \<Rightarrow> bool \<times> int32_t" where
  "outcome k = (u_error (k_u k) \<noteq> 0, if u_error (k_u k) \<noteq> 0 then scast (u_error (k_u k)) else u_ar0 (k_u k) ! EAX)"

lemma fold_set_ar0_EAX:
  "EAX \<notin> fst ` set regs \<Longrightarrow> u_ar0 (k_u (fold (\<lambda>(r, v). set_ar0 r v) regs k)) ! EAX = u_ar0 (k_u k) ! EAX"
  by (induction regs arbitrary: k) auto

lemma int80_call:
  assumes "EFLAGS < length (u_ar0 (k_u k))" "unat num < 417" "EAX \<notin> fst ` set regs"
  shows "int80 x num regs k =
    kbind (sysent x (unat num)) (\<lambda>_. kseq (act trap_result)
      (ask (\<lambda>k. (hasf (u_ar0 (k_u k) ! EFLAGS) 1, u_ar0 (k_u k) ! EAX)))) (entered num regs k)"
proof -
  let ?k = "fold (\<lambda>(r, v). set_ar0 r v) regs (set_ar0 EAX num k)"
  have "u_ar0 (k_u ?k) ! EAX = num" using fold_set_ar0_EAX [OF assms(3), of "set_ar0 EAX num k"] assms(1) by simp
  moreover have e: "sint num = int (unat num)" by (rule sint_small32) (use assms(2) in simp)
  then have "0 \<le> sint num" "sint num < 417" unfolding e using assms(2) by linarith+
  ultimately have "trap_call x ?k = kbind (sysent x (unat num)) (\<lambda>_. act trap_result) (entered num regs k)"
    by (simp add: trap_call_def Let_def entered_def not_le not_less)
  then show ?thesis by (simp add: int80_def kseq_def kbind_def split: res.split)
qed

lemma int80_run:
  assumes "EFLAGS < length (u_ar0 (k_u k))" "unat num < 417" "EAX \<notin> fst ` set regs"
    and "sysent x (unat num) (entered num regs k) = Ret r k'"
    and "u_intflg (k_u k') = 0" "EFLAGS < length (u_ar0 (k_u k'))"
  shows "int80 x num regs k = Ret (outcome k') (trap_result k')"
proof -
  have "hasf (u_ar0 (k_u (trap_result k')) ! EFLAGS) 1 \<longleftrightarrow> u_error (k_u k') \<noteq> 0"
    "u_ar0 (k_u (trap_result k')) ! EAX = snd (outcome k')"
    using assms(5,6) by (simp_all add: trap_result_def trap_error_def outcome_def hasf_or hasf_mask Let_def)
       (simp add: hasf_def)
  then show ?thesis
    using assms(4) by (simp add: int80_call [OF assms(1-3)] outcome_def)
qed

lemma entered_sel [simp]:
  "u_error (k_u (entered num regs k)) = 0"
  by (simp add: entered_def load_args_def Let_def set_error_def)

lemma entered_args:
  assumes "EFLAGS < length (u_ar0 (k_u k))"
  shows "arg 0 (entered num [(EBX, a)] k) = a"
    "arg 0 (entered num [(EBX, a), (ECX, b)] k) = a" "arg 1 (entered num [(EBX, a), (ECX, b)] k) = b"
    "arg 0 (entered num [(EBX, a), (ECX, b), (EDX, c)] k) = a" "arg 1 (entered num [(EBX, a), (ECX, b), (EDX, c)] k) = b"
    "arg 2 (entered num [(EBX, a), (ECX, b), (EDX, c)] k) = c"
  using assms by (simp_all add: entered_def load_args_def Let_def arg_def set_error_def)

lemma entered_keeps [simp]:
  "k_file (entered num regs k) = k_file k" "u_ofile (k_u (entered num regs k)) = u_ofile (k_u k)"
  "k_fs (entered num regs k) = k_fs k" "u_intflg (k_u (entered num regs k)) = u_intflg (k_u k)"
  "u_procp (k_u (entered num regs k)) = u_procp (k_u k)" "k_sch (entered num regs k) = k_sch k"
  "u_tsize (k_u (entered num regs k)) = u_tsize (k_u k)" "u_dsize (k_u (entered num regs k)) = u_dsize (k_u k)"
  "u_ssize (k_u (entered num regs k)) = u_ssize (k_u k)" "maxmem (entered num regs k) = maxmem k"
  "length (u_ar0 (k_u (entered num regs k))) = length (u_ar0 (k_u k))"
proof -
  have "k_file (fold (\<lambda>(r, v). set_ar0 r v) regs s) = k_file s
    \<and> u_ofile (k_u (fold (\<lambda>(r, v). set_ar0 r v) regs s)) = u_ofile (k_u s)
    \<and> k_fs (fold (\<lambda>(r, v). set_ar0 r v) regs s) = k_fs s
    \<and> u_intflg (k_u (fold (\<lambda>(r, v). set_ar0 r v) regs s)) = u_intflg (k_u s)
    \<and> u_procp (k_u (fold (\<lambda>(r, v). set_ar0 r v) regs s)) = u_procp (k_u s)
    \<and> k_sch (fold (\<lambda>(r, v). set_ar0 r v) regs s) = k_sch s
    \<and> u_tsize (k_u (fold (\<lambda>(r, v). set_ar0 r v) regs s)) = u_tsize (k_u s)
    \<and> u_dsize (k_u (fold (\<lambda>(r, v). set_ar0 r v) regs s)) = u_dsize (k_u s)
    \<and> u_ssize (k_u (fold (\<lambda>(r, v). set_ar0 r v) regs s)) = u_ssize (k_u s)
    \<and> maxmem (fold (\<lambda>(r, v). set_ar0 r v) regs s) = maxmem s
    \<and> length (u_ar0 (k_u (fold (\<lambda>(r, v). set_ar0 r v) regs s))) = length (u_ar0 (k_u s))" for s
    by (induction regs arbitrary: s) auto
  note f = this [of "set_ar0 EAX num k"]
  show "k_file (entered num regs k) = k_file k" "u_ofile (k_u (entered num regs k)) = u_ofile (k_u k)"
    "k_fs (entered num regs k) = k_fs k" "u_intflg (k_u (entered num regs k)) = u_intflg (k_u k)"
    "u_procp (k_u (entered num regs k)) = u_procp (k_u k)" "k_sch (entered num regs k) = k_sch k"
    "u_tsize (k_u (entered num regs k)) = u_tsize (k_u k)" "u_dsize (k_u (entered num regs k)) = u_dsize (k_u k)"
    "u_ssize (k_u (entered num regs k)) = u_ssize (k_u k)" "maxmem (entered num regs k) = maxmem k"
    "length (u_ar0 (k_u (entered num regs k))) = length (u_ar0 (k_u k))"
    using f by (simp_all add: entered_def load_args_def Let_def set_error_def)
qed

lemma entered_EAX:
  assumes "EAX < length (u_ar0 (k_u k))" "EAX \<notin> fst ` set regs"
  shows "u_ar0 (k_u (entered num regs k)) ! EAX = num"
  using fold_set_ar0_EAX [OF assms(2), of "set_ar0 EAX num k"] assms(1)
  by (simp add: entered_def load_args_def Let_def set_error_def)

subsection \<open>The break\<close>

text \<open>The end of the data segment, and a process within the memory of the machine.\<close>

definition break :: "kernel \<Rightarrow> addr" where
  "break k = (u_tsize (k_u k) + u_dsize (k_u k)) * 64"

definition break_ok :: "kernel \<Rightarrow> bool" where
  "break_ok k \<longleftrightarrow> EFLAGS < length (u_ar0 (k_u k)) \<and> u_intflg (k_u k) = 0 \<and> unat (maxmem k) \<le> 2 ^ 25
     \<and> unat (u_tsize (k_u k)) + unat (u_dsize (k_u k)) + unat (u_ssize (k_u k)) + 64 \<le> unat (maxmem k)"

lemma of_nat_fits: "n < 2 ^ 32 \<Longrightarrow> unat (of_nat n :: 32 word) = n"
  by (simp add: unat_of_nat)

lemma break_unat:
  assumes "break_ok k"
  shows "unat (break k) = (unat (u_tsize (k_u k)) + unat (u_dsize (k_u k))) * 64"
proof -
  have "break k = of_nat ((unat (u_tsize (k_u k)) + unat (u_dsize (k_u k))) * 64)" by (simp add: break_def)
  then show ?thesis using assms by (simp only:) (rule of_nat_fits, simp add: break_ok_def)
qed

lemma sys_sbrk_run:
  assumes "break_ok k" "unat (arg 0 k) < 2 ^ 31" "u_error (k_u k) = 0"
  shows "\<exists>k'. arg 0 k \<noteq> 0 \<and> k' \<in> {k, set_error ENOMEM k} \<and> sys_sbrk k = Ret (- 1) k' \<and> u_error (k_u k') \<noteq> 0
    \<or> sys_sbrk k = Ret 0 k' \<and> break_ok k' \<and> u_error (k_u k') = 0 \<and> u_ar0 (k_u k') ! EAX = break k
      \<and> unat (break k) + unat (arg 0 k) \<le> unat (break k')"
proof -
  define ts where "ts = unat (u_tsize (k_u k))"
  define ss where "ss = unat (u_ssize (k_u k))"
  define T where "T = unat (break k) + unat (arg 0 k)"
  define M where "M = (T + 63) div 64"
  have b: "unat (break k) = (ts + unat (u_dsize (k_u k))) * 64" using break_unat [OF assms(1)] by (simp add: ts_def)
  have fit: "ts + unat (u_dsize (k_u k)) + ss + 64 \<le> unat (maxmem k)" "unat (maxmem k) \<le> 2 ^ 25"
    using assms(1) by (simp_all add: break_ok_def ts_def ss_def)
  have M: "ts \<le> M" "M < 2 ^ 27" "T \<le> M * 64" using b fit assms(2) by (simp_all add: M_def T_def)
  have "u_tsize (k_u k) * 64 = of_nat (ts * 64)" by (simp add: ts_def)
  then have t64: "unat (u_tsize (k_u k) * 64) = ts * 64"
    using fit by (simp only:) (rule of_nat_fits, simp)
  have tot: "int (unat (break k)) + sint (arg 0 k) = int T"
    using sint_small32 [OF assms(2)] by (simp add: T_def)
  have T: "ts * 64 \<le> T" using b by (simp add: T_def)
  define w :: addr where "w = of_nat (M - ts)"
  have u: "unat w = M - ts" unfolding w_def using M(2) by (intro of_nat_fits) simp
  have nd: "(of_int ((int T + 63) div 64) - u_tsize (k_u k) :: addr) = w"
  proof -
    have "(int T + 63) div 64 = int M" by (simp add: M_def zdiv_int)
    then show ?thesis using M(1) by (simp add: w_def of_nat_diff ts_def)
  qed
  have sb: "sys_sbrk k = set_dsize w (break k) k"
    using T unfolding sys_sbrk_def Let_def break_def [symmetric] tot t64 nd by simp
  have e: "u_tsize (k_u k) + w + u_ssize (k_u k) + USIZE = of_nat (M + ss + 64)"
    using M(1) by (simp add: w_def of_nat_diff ts_def ss_def)
  have big: "unat (of_nat (M + ss + 64) :: addr) = M + ss + 64"
    using M(2) fit by (intro of_nat_fits) simp
  show ?thesis
  proof (cases "M + ss + 64 \<le> unat (maxmem k)")
    case False
    then have "sys_sbrk k = Ret (- 1) (set_error ENOMEM k)"
      using big unfolding sb set_dsize_def estabur_def e by (simp add: word_less_nat_alt fails_def)
    moreover have "arg 0 k \<noteq> 0" using False fit b by (auto simp: M_def T_def)
    ultimately show ?thesis by auto
  next
    case True
    let ?k = "set_ar0 EAX (break k) (upd_u (\<lambda>u. u\<lparr>u_dsize := w\<rparr>) k)"
    have r: "sys_sbrk k = Ret 0 ?k"
      using True big unfolding sb set_dsize_def estabur_def e by (simp add: word_less_nat_alt returns_def okay_def)
    have ok: "break_ok ?k" using assms(1) True M(1) by (simp add: break_ok_def u ts_def ss_def)
    have "unat (break ?k) = M * 64" using break_unat [OF ok] M(1) by (simp add: u ts_def)
    then have "unat (break k) + unat (arg 0 k) \<le> unat (break ?k)" using M(3) by (simp add: T_def)
    moreover have "u_ar0 (k_u ?k) ! EAX = break k" using assms(1) by (simp add: break_ok_def)
    ultimately show ?thesis using r ok assms(3) by (intro exI [of _ ?k] disjI2) simp
  qed
qed

lemma trap_result_keeps [simp]:
  "u_tsize (k_u (trap_result k)) = u_tsize (k_u k)" "u_dsize (k_u (trap_result k)) = u_dsize (k_u k)"
  "u_ssize (k_u (trap_result k)) = u_ssize (k_u k)" "maxmem (trap_result k) = maxmem k"
  "u_intflg (k_u (trap_result k)) = u_intflg (k_u k)"
  "length (u_ar0 (k_u (trap_result k))) = length (u_ar0 (k_u k))"
  by (simp_all add: trap_result_def trap_error_def Let_def set_error_def)

text \<open>\<^verbatim>\<open>sbrk\<close> of a distance that is not negative returns the old break and moves it up by at
  least the distance, or fails and leaves it.\<close>

lemma libc_sbrk_run:
  assumes "break_ok k" "unat incr < 2 ^ 31"
  shows "\<exists>k' v e. libc_sbrk x incr k = Ret (v, e) k' \<and> break_ok k'
    \<and> (v = - 1 \<and> incr \<noteq> 0 \<and> break k' = break k \<or> v = break k \<and> unat (break k) + unat incr \<le> unat (break k'))"
proof -
  let ?e = "entered SYS_SBRK [(EBX, incr)] k"
  have l: "EFLAGS < length (u_ar0 (k_u k))" "u_intflg (k_u k) = 0" using assms(1) by (simp_all add: break_ok_def)
  have ok: "break_ok ?e" "break ?e = break k" using assms(1) by (simp_all add: break_ok_def break_def)
  have a: "arg 0 ?e = incr" using entered_args(1) [OF l(1)] .
  have s: "sysent x (unat SYS_SBRK) = sys_sbrk" by (simp add: sysent_def sysent_new_def)
  obtain k' where k': "incr \<noteq> 0 \<and> k' \<in> {?e, set_error ENOMEM ?e} \<and> sys_sbrk ?e = Ret (- 1) k' \<and> u_error (k_u k') \<noteq> 0
      \<or> sys_sbrk ?e = Ret 0 k' \<and> break_ok k' \<and> u_error (k_u k') = 0 \<and> u_ar0 (k_u k') ! EAX = break k
        \<and> unat (break k) + unat incr \<le> unat (break k')"
    using sys_sbrk_run [of ?e] ok assms(2) a by auto
  then obtain r where r: "sys_sbrk ?e = Ret r k'" by auto
  have k2: "EFLAGS < length (u_ar0 (k_u k'))" "u_intflg (k_u k') = 0"
    using k' ok(1) by (auto simp: break_ok_def set_error_def)
  have i: "int80 x SYS_SBRK [(EBX, incr)] k = Ret (outcome k') (trap_result k')"
    by (rule int80_run) (use l k2 r s in simp_all)
  have b: "break (trap_result k') = break k'" "break_ok (trap_result k') = break_ok k'"
    by (simp_all add: break_def break_ok_def)
  from k' show ?thesis
  proof
    assume f: "incr \<noteq> 0 \<and> k' \<in> {?e, set_error ENOMEM ?e} \<and> sys_sbrk ?e = Ret (- 1) k' \<and> u_error (k_u k') \<noteq> 0"
    then have "break_ok k'" "break k' = break k" using ok by (auto simp: break_ok_def break_def set_error_def)
    then show ?thesis using f i b by (simp add: libc_sbrk_def outcome_def)
  next
    assume "sys_sbrk ?e = Ret 0 k' \<and> break_ok k' \<and> u_error (k_u k') = 0 \<and> u_ar0 (k_u k') ! EAX = break k
        \<and> unat (break k) + unat incr \<le> unat (break k')"
    then show ?thesis using i b by (simp add: libc_sbrk_def outcome_def)
  qed
qed

subsection \<open>Properties\<close>

text \<open>C36: \<^verbatim>\<open>lseek(fd, 0, whence)\<close> does not go to the start of the file: the handler takes the
  descriptor for the distance and the offset for the kind of the seek, so the file is positioned at
  byte \<open>fd\<close> whatever \<^verbatim>\<open>whence\<close> is, and the value returned is 19, the number of the call.\<close>

theorem lseek_ignores_offset:
  assumes "EFLAGS < length (u_ar0 (k_u k))" "u_intflg (k_u k) = 0"
    and "n < NOFILE" "u_ofile (k_u k) ! n = Some fp" "fp < length (k_file k)" "\<not> hasf (f_flag (k_file k ! fp)) FPIPE"
  shows "\<exists>k'. libc_lseek x (of_nat n) 0 whence k = Ret (19, None) k'
    \<and> f_offset0 (k_file k' ! fp) = 0 \<and> f_offset1 (k_file k' ! fp) = of_nat n"
proof -
  let ?regs = "[(EBX, of_nat n), (ECX, 0), (EDX, whence)]"
  let ?e = "entered SYS_LSEEK ?regs k"
  let ?k = "upd_file fp (\<lambda>f. f\<lparr>f_offset0 := 0, f_offset1 := of_nat n\<rparr>) ?e"
  have a: "arg 0 ?e = of_nat n" "arg 1 ?e = 0" using entered_args [OF assms(1)] by simp_all
  have "seek ?e = (let f = k_file ?e ! fp in if hasf (f_flag f) FPIPE then error ESPIPE ?e
      else (case seek_target (arg 1 ?e) (arg 0 ?e) f (inodep ?e (f_inode f)) of
        (n0, n1) \<Rightarrow> Ret 0 (upd_file fp (\<lambda>f. f\<lparr>f_offset0 := n0, f_offset1 := n1\<rparr>) ?e)))"
    unfolding seek_def by (rule with_file_at [OF assms(3) a(1)]) (use assms(4) in simp)
  then have "seek ?e = Ret 0 ?k"
    using assms(6) by (simp only: a entered_keeps) (simp add: Let_def seek_target_def seek_amount_def)
  moreover have "sysent x (unat SYS_LSEEK) = seek" by (simp add: sysent_def sysent_v6_def)
  ultimately have "sysent x (unat SYS_LSEEK) ?e = Ret 0 ?k" by simp
  then have "int80 x SYS_LSEEK ?regs k = Ret (outcome ?k) (trap_result ?k)"
    using assms(1,2) by (intro int80_run) simp_all
  moreover have "outcome ?k = (False, 19)" using assms(1) by (simp add: outcome_def entered_EAX)
  ultimately show ?thesis using assms(2,5)
    by (simp add: libc_lseek_def trap_result_def Let_def)
qed

theorem lseek_ignores_offset_witness:
  "\<forall>x. \<exists>k'. libc_lseek x 3 0 2 (upd_u (\<lambda>u. u\<lparr>u_ofile := (u_ofile u)[3 := Some 0]\<rparr>) zero_kernel) = Ret (19, None) k'
    \<and> f_offset1 (k_file k' ! 0) = 3"
  using lseek_ignores_offset [of "upd_u (\<lambda>u. u\<lparr>u_ofile := (u_ofile u)[3 := Some 0]\<rparr>) zero_kernel" 3 0 _ 2]
  by (fastforce simp: zero_kernel_def zero_user_def)

end
