(* ===== verification/Exit_Status.thy ===== *)
theory Exit_Status
  imports Libc_Sys Kept
begin

text \<open>
  The status with which a process exits, from the library's \<^verbatim>\<open>exit(status)\<close> to the slot that the
  parent's \<^verbatim>\<open>wait\<close> reads.  Nothing between the store of the status and the switch to another
  process changes the exit code of any process: closing the files, putting the directory and the text,
  handing the children over, waking the parent and sleeping on the way.
\<close>

subsection \<open>Exit codes of all processes\<close>

definition exit_codes :: "sched \<Rightarrow> int16_t list" where
  "exit_codes s = map p_exit (procs s)"

abbreviation (input) codes :: "kernel \<Rightarrow> int16_t list" where
  "codes k \<equiv> exit_codes (k_sch k)"

lemma exit_codes_update:
  "(\<And>p. p_exit (g p) = p_exit p) \<Longrightarrow> exit_codes (s\<lparr>procs := (procs s)[i := g (procs s ! i)]\<rparr>) = exit_codes s"
  by (cases "i < length (procs s)") (simp_all add: exit_codes_def map_update list_update_same_conv list_update_beyond)

lemma codes_upd_proc [simp]: "(\<And>p. p_exit (g p) = p_exit p) \<Longrightarrow> codes (upd_proc i g k) = codes k"
  by (simp add: upd_proc_def upd_sch_def exit_codes_update)

lemma exit_codes_setrun_core: "exit_codes (setrun_core i s) = exit_codes s"
  by (cases "i < length (procs s)")
    (simp_all add: exit_codes_def setrun_core_def Let_def map_update list_update_same_conv list_update_beyond)

lemma exit_codes_wake_scan: "(\<And>i s. exit_codes (f i s) = exit_codes s) \<Longrightarrow> exit_codes (wake_scan f c s) = exit_codes s"
proof -
  assume f: "\<And>i s. exit_codes (f i s) = exit_codes s"
  have "exit_codes (fold (\<lambda>i s. if p_wchan (procs s ! i) = c then f i s else s) xs s) = exit_codes s" for xs s
    by (induction xs arbitrary: s) (simp_all add: f)
  then show ?thesis by (simp add: wake_scan_def)
qed

lemma exit_codes_setrun_s: "exit_codes (setrun_s i s) = exit_codes s"
proof -
  have "exit_codes (s\<lparr>runout := v\<rparr>) = exit_codes s" for s v by (simp add: exit_codes_def)
  then show ?thesis by (simp add: setrun_s_def wake_swapper_def exit_codes_setrun_core exit_codes_wake_scan)
qed

lemma codes_wakeup [simp]: "codes (wakeup c k) = codes k" "codes (setrun i k) = codes k"
  by (simp_all add: wakeup_def wakeup_s_def setrun_def exit_codes_wake_scan exit_codes_setrun_s)

lemma codes_runin [simp]: "exit_codes (s\<lparr>runin := v\<rparr>) = exit_codes s" "exit_codes (s\<lparr>runrun := w\<rparr>) = exit_codes s"
  "exit_codes (s\<lparr>curproc := c, curpri := q\<rparr>) = exit_codes s"
  by (simp_all add: exit_codes_def)

lemma kept_issig: "codes k = v \<Longrightarrow> kept True codes v (issig k)"
  by (auto simp: issig_def stop_self_def Let_def intro!: keep split: option.splits)

interpretation exit_status: kept_part True codes
proof unfold_locales
  fix v c pri k
  assume "codes k = v"
  then show "kept True codes v (sleep c pri k)"
    by (auto simp: sleep_def sleep_low_def mark_asleep_def Let_def intro!: kept_kbind kept_issig)
qed (simp_all add: set_error_def)

subsection \<open>The way out\<close>

lemma kept_exit_files: "codes k = v \<Longrightarrow> kept True codes v (exit_files k)"
  unfolding exit_files_def exit_close_def iput_opt_def
  by (auto intro!: keep exit_status.kept_closef split: option.splits simp: upd_file_def)

lemma kept_exit_text: "codes k = v \<Longrightarrow> kept True codes v (exit_text k)"
  unfolding exit_text_def
  by (auto intro!: keep exit_status.kept_xfree split: option.splits simp: upd_text_def)

lemma codes_zombie: "codes (zombie i k) = codes k"
proof -
  have "codes (fold (adopt i) xs k) = codes k" for xs k
    by (induction xs arbitrary: k) (simp_all add: adopt_def Let_def)
  then show ?thesis by (simp add: zombie_def reparent_def)
qed

lemma kept_swtch: "codes k = v \<Longrightarrow> kept True codes v (swtch k)"
  by (auto simp: swtch_def Let_def load_u_def save_u_def update_pos_def split: option.splits)

text \<open>Every outcome of \<^verbatim>\<open>exit\<close> has the status in the slot.\<close>

lemma kept_exit_proc: "kept True codes (codes (exit_begin k)) (exit_proc k)"
  unfolding exit_proc_def exit_with_def Let_def
  by (auto intro!: kept_kseq kept_exit_files kept_exit_text kept_swtch simp: codes_zombie split: option.splits)

lemma codes_trap_result: "codes (trap_result k) = codes k"
  by (simp add: trap_result_def trap_error_def Let_def set_error_def)

text \<open>The call, up to the handler.\<close>

definition in_exit :: "addr \<Rightarrow> kernel \<Rightarrow> kernel" where
  "in_exit status k = (let e = entered SYS_EXIT [(EBX, status)] k in set_arg 0 (push_bit 8 (u_ar0 (k_u e) ! EAX)) e)"

lemma libc_exit_run:
  assumes "EFLAGS < length (u_ar0 (k_u k))"
  shows "libc_exit x status k = kbind exit_proc (\<lambda>_ k. Stop Spins (trap_result k)) (in_exit status k)"
proof -
  let ?e = "entered SYS_EXIT [(EBX, status)] k"
  have "sysent x (unat SYS_EXIT) = rexit" by (simp add: sysent_def sysent_v6_def)
  then have "int80 x SYS_EXIT [(EBX, status)] k = kbind rexit (\<lambda>_. kseq (act trap_result)
      (ask (\<lambda>k. (hasf (u_ar0 (k_u k) ! EFLAGS) 1, u_ar0 (k_u k) ! EAX)))) ?e"
    using int80_call [OF assms(1), of SYS_EXIT "[(EBX, status)]" x] by simp
  then show ?thesis
    by (simp add: in_exit_def Let_def libc_exit_def syscall1_def rexit_def kbind_def kseq_def okay_def split: res.split)
qed

text \<open>C37: \<^verbatim>\<open>exit(status)\<close> loses the status: the handler of call 1 takes the status from
  \<^verbatim>\<open>EAX\<close>, which holds the number of the call. Whatever \<^verbatim>\<open>status\<close> is, the call does not
  return, and in the state it leaves behind (switched to another process, or asleep on the way) the
  slot of the process holds 256, the exit status 1, for its parent, and no other process's exit code
  has changed.\<close>

theorem exit_status_lost:
  assumes "EFLAGS < length (u_ar0 (k_u k))" "u_procp (k_u k) < length (procs (k_sch k))"
  shows "\<exists>c k'. libc_exit x status k = Stop c k' \<and> p_exit (procp k' (u_procp (k_u k))) = 256
    \<and> (\<forall>j. j \<noteq> u_procp (k_u k) \<and> j < length (procs (k_sch k)) \<longrightarrow> p_exit (procp k' j) = p_exit (procp k j))"
proof -
  let ?i = "u_procp (k_u k)" and ?k1 = "in_exit status k"
  let ?v = "(codes k)[?i := 256]"
  have "u_ar0 (k_u (entered SYS_EXIT [(EBX, status)] k)) ! EAX = 1" using assms(1) by (simp add: entered_EAX)
  then have v: "codes (exit_begin ?k1) = ?v"
    by (simp add: exit_begin_def arg_def set_arg_def upd_proc_def upd_sch_def exit_codes_def
        in_exit_def entered_def load_args_def Let_def map_update)
  note run = libc_exit_run [OF assms(1), of x status]
  have kp: "kept True codes ?v (libc_exit x status k)"
    using kept_exit_proc [of ?k1] unfolding v run by (intro kept_kbind) (simp_all add: codes_trap_result)
  have "\<exists>c k'. libc_exit x status k = Stop c k'" unfolding run by (simp add: kbind_def split: res.split)
  then obtain c k' where k': "libc_exit x status k = Stop c k'" by blast
  then have k': "libc_exit x status k = Stop c k'" "codes k' = ?v" using kp by simp_all
  have "length (procs (k_sch k')) = length (procs (k_sch k))"
    using arg_cong [OF k'(2), of length] by (simp add: exit_codes_def)
  then have "p_exit (procp k' j) = ?v ! j" if "j < length (procs (k_sch k))" for j
    using that arg_cong [OF k'(2), of "\<lambda>l. l ! j"] by (simp add: exit_codes_def procp_def)
  with k'(1) assms(2) show ?thesis
    by (intro exI [of _ c] exI [of _ k']) (simp add: exit_codes_def procp_def)
qed

text \<open>A process without open files, the last one in the table, exits with status 0: a zombie with
  the status 1.\<close>

definition exiting :: kernel where
  "exiting = upd_proc 0 (\<lambda>p. p\<lparr>p_pid := 7, p_ppid := 1, p_stat := SRUN, p_flag := SLOAD\<rparr>) zero_kernel"

lemma adopt_none: "\<forall>q\<in>set xs. p_ppid (procp k q) \<noteq> p_pid (procp k i) \<Longrightarrow> fold (adopt i) xs k = k"
  by (induction xs) (simp_all add: adopt_def)

lemma swtch_idle:
  assumes "\<forall>j<NPROC. \<not> runnable (procs (k_sch k) ! j)" shows "swtch k = Stop Idling k"
  using pick_cases [of "procs (k_sch k)"] assms by (auto simp: swtch_def split: option.splits)

lemma exit_zombie:
  assumes "u_ofile (k_u k) = replicate NOFILE None" "u_cdir (k_u k) = None" "u_procp (k_u k) = 0"
    "procs (k_sch k) = (replicate NPROC empty_proc)[0 := p]" "p_textp p = None" "p_pid p \<noteq> 0"
    "p_ppid p \<noteq> p_pid p" "p_ppid p \<noteq> 0"
  shows "\<exists>k'. exit_proc k = Stop Idling k' \<and> p_stat (procp k' 0) = SZOMB"
proof -
  define q where "q = p\<lparr>p_exit := ucast (arg 0 k), p_flag := p_flag p AND NOT STRC\<rparr>"
  let ?b = "exit_begin k"
  have b: "procs (k_sch ?b) = (replicate NPROC empty_proc)[0 := q]" "u_ofile (k_u ?b) = replicate NOFILE None"
    "u_cdir (k_u ?b) = None" "u_procp (k_u ?b) = 0"
    using assms by (simp_all add: exit_begin_def upd_proc_def upd_sch_def q_def)
  have "each exit_close xs ?b = Ret () ?b" if "set xs \<subseteq> {..<NOFILE}" for xs
    using that b(2) by (induction xs) (auto simp: exit_close_def kseq_def kbind_def ret_def)
  from this [of "[0..<NOFILE]"] have f: "exit_files ?b = Ret () ?b"
    using b(3) by (simp add: exit_files_def iput_opt_def kseq_def kbind_def ret_def atLeast0LessThan)
  have t: "exit_text ?b = Ret () ?b"
    using b(1,4) assms(5) by (simp add: exit_text_def procp_def q_def)
  let ?z = "upd_proc 0 (\<lambda>p. p\<lparr>p_stat := SZOMB\<rparr>) ?b"
  have z: "procs (k_sch ?z) = (replicate NPROC empty_proc)[0 := q\<lparr>p_stat := SZOMB\<rparr>]"
    using b(1) by (simp add: upd_proc_def upd_sch_def)
  have slot: "procp ?z j = (if j = 0 then q\<lparr>p_stat := SZOMB\<rparr> else empty_proc)" if "j < NPROC" for j
    using that z by (simp add: procp_def nth_list_update)
  have "zombie 0 ?b = ?z" unfolding zombie_def reparent_def
    using slot assms(6-8) by (intro adopt_none) (auto simp: q_def empty_proc_def)
  moreover have "parent_of 0 ?z = None"
    using assms(6-8) unfolding parent_of_def find_slot_None_iff z
    by (auto simp: in_set_conv_nth nth_list_update slot q_def empty_proc_def split: if_splits)
  moreover have "swtch ?z = Stop Idling ?z"
    using slot by (intro swtch_idle) (auto simp: procp_def runnable_def q_def empty_proc_def)
  ultimately have "exit_proc k = Stop Idling ?z"
    using f t b(4) by (simp add: exit_proc_def exit_with_def Let_def)
  then show ?thesis using slot [of 0] by simp
qed

theorem exit_status_lost_witness:
  "\<forall>x. \<exists>k'. libc_exit x 0 exiting = Stop Idling k' \<and> p_stat (procp k' 0) = SZOMB \<and> p_exit (procp k' 0) = 256"
proof
  fix x
  let ?p = "empty_proc\<lparr>p_pid := 7, p_ppid := 1, p_stat := SRUN, p_flag := SLOAD\<rparr>" and ?k = "in_exit 0 exiting"
  have e: "EFLAGS < length (u_ar0 (k_u exiting))" "u_procp (k_u exiting) = 0" "length (procs (k_sch exiting)) = NPROC"
    by (simp_all add: exiting_def zero_kernel_def zero_user_def)
  have k: "u_ofile (k_u ?k) = replicate NOFILE None" "u_cdir (k_u ?k) = None" "u_procp (k_u ?k) = 0"
    "procs (k_sch ?k) = (replicate NPROC empty_proc)[0 := ?p]"
    by (simp_all add: in_exit_def entered_def load_args_def set_arg_def Let_def exiting_def zero_kernel_def zero_user_def upd_proc_def upd_sch_def)
  obtain k' where k': "exit_proc ?k = Stop Idling k'" "p_stat (procp k' 0) = SZOMB"
    using exit_zombie [OF k] by (auto simp: empty_proc_def)
  then have run: "libc_exit x 0 exiting = Stop Idling k'"
    using libc_exit_run [OF e(1), of x 0] by simp
  moreover have "p_exit (procp k' 0) = 256"
    using exit_status_lost [OF e(1), of x 0] run e(2,3) by simp
  ultimately show "\<exists>k'. libc_exit x 0 exiting = Stop Idling k' \<and> p_stat (procp k' 0) = SZOMB \<and> p_exit (procp k' 0) = 256"
    using k'(2) by blast
qed

end
