(* ===== verification/Libc_Stdlib.thy ===== *)
theory Libc_Stdlib
  imports Libc_Sys
begin

text \<open>
  \<^verbatim>\<open>userland/Libraries/libc/src/stdlib.c\<close> and \<^verbatim>\<open>strdup\<close> of \<^verbatim>\<open>string.c\<close>: the
  allocator, the conversion of numbers and the environment.  The state of a process is its memory,
  its side of the kernel, from which \<^verbatim>\<open>sbrk\<close> takes new memory, and the static variables of the
  library.  A function that does not return, because a list of blocks has a cycle or the call of
  the kernel does not come back, has the value \<open>None\<close>; a null pointer is 0.
\<close>

record cproc =
  cm :: cmem
  kern :: kernel
  cerrno :: int32_t
  flist :: addr
  environ :: "addr list"
  environ_count :: nat

definition upd_cm :: "(cmem \<Rightarrow> cmem) \<Rightarrow> cproc \<Rightarrow> cproc" where
  "upd_cm f s = s\<lparr>cm := f (cm s)\<rparr>"

definition sbrk :: "outside \<Rightarrow> addr \<Rightarrow> cproc \<Rightarrow> (addr \<times> cproc) option" where
  "sbrk x incr s =
     (case libc_sbrk x incr (kern s) of
        Ret (v, e) k \<Rightarrow> Some (v, s\<lparr>kern := k, cerrno := (case e of None \<Rightarrow> cerrno s | Some n \<Rightarrow> n)\<rparr>)
      | Stop c k \<Rightarrow> None)"

subsection \<open>The blocks of malloc\<close>

text \<open>A block is a header of three words, \<^verbatim>\<open>size\<close>, \<^verbatim>\<open>free\<close> and \<^verbatim>\<open>next\<close>, and its data.\<close>

abbreviation (input) BLOCK_SIZE :: addr where "BLOCK_SIZE \<equiv> 12"

definition b_size :: "cmem \<Rightarrow> addr \<Rightarrow> addr" where "b_size m b = phys_word m b"
definition b_free :: "cmem \<Rightarrow> addr \<Rightarrow> bool" where "b_free m b \<longleftrightarrow> phys_word m (b + 4) \<noteq> 0"
definition b_next :: "cmem \<Rightarrow> addr \<Rightarrow> addr" where "b_next m b = phys_word m (b + 8)"
definition set_b_size :: "addr \<Rightarrow> addr \<Rightarrow> cmem \<Rightarrow> cmem" where "set_b_size b v = store_word b v"
definition set_b_free :: "addr \<Rightarrow> addr \<Rightarrow> cmem \<Rightarrow> cmem" where "set_b_free b v = store_word (b + 4) v"
definition set_b_next :: "addr \<Rightarrow> addr \<Rightarrow> cmem \<Rightarrow> cmem" where "set_b_next b v = store_word (b + 8) v"

text \<open>The result is the pair of \<^verbatim>\<open>current\<close> and \<^verbatim>\<open>*last\<close>.\<close>

partial_function (option) find_free_block :: "cmem \<Rightarrow> addr \<Rightarrow> addr \<Rightarrow> addr \<Rightarrow> (addr \<times> addr) option" where
  "find_free_block m current prev sz =
     (if current \<noteq> 0 \<and> \<not> (b_free m current \<and> sz \<le> b_size m current)
      then find_free_block m (b_next m current) current sz else Some (current, prev))"

definition request_space :: "outside \<Rightarrow> addr \<Rightarrow> addr \<Rightarrow> cproc \<Rightarrow> (addr \<times> cproc) option" where
  "request_space x prev sz s =
     Option.bind (sbrk x 0 s) (\<lambda>(block, s).
     Option.bind (sbrk x (sz + BLOCK_SIZE) s) (\<lambda>(request, s).
       if request = - 1 then Some (0, s)
       else Some (block, upd_cm (set_b_next block 0 \<circ> set_b_free block 0 \<circ> set_b_size block sz
              \<circ> (if prev \<noteq> 0 then set_b_next prev block else id)) s)))"

definition malloc :: "outside \<Rightarrow> addr \<Rightarrow> cproc \<Rightarrow> (addr \<times> cproc) option" where
  "malloc x sz s =
     (if sz = 0 then Some (0, s)
      else if flist s = 0 then
        Option.bind (request_space x 0 sz s) (\<lambda>(block, s).
          if block = 0 then Some (0, s) else Some (block + BLOCK_SIZE, s\<lparr>flist := block\<rparr>))
      else
        Option.bind (find_free_block (cm s) (flist s) (flist s) sz) (\<lambda>(block, prev).
          if block \<noteq> 0 then Some (block + BLOCK_SIZE, upd_cm (set_b_free block 0) s)
          else Option.bind (request_space x prev sz s) (\<lambda>(block, s).
            if block = 0 then Some (0, s) else Some (block + BLOCK_SIZE, s))))"

definition calloc :: "outside \<Rightarrow> addr \<Rightarrow> addr \<Rightarrow> cproc \<Rightarrow> (addr \<times> cproc) option" where
  "calloc x nmemb sz s =
     Option.bind (malloc x (nmemb * sz) s) (\<lambda>(ptr, s).
       Some (ptr, if ptr \<noteq> 0 then upd_cm (\<lambda>m. fill_up (unat (nmemb * sz)) 0 m ptr) s else s))"

definition get_block_ptr :: "addr \<Rightarrow> addr" where
  "get_block_ptr ptr = ptr - BLOCK_SIZE"

definition free :: "addr \<Rightarrow> cproc \<Rightarrow> cproc" where
  "free ptr s = (if ptr = 0 then s else upd_cm (set_b_free (get_block_ptr ptr) 1) s)"

definition realloc :: "outside \<Rightarrow> addr \<Rightarrow> addr \<Rightarrow> cproc \<Rightarrow> (addr \<times> cproc) option" where
  "realloc x ptr sz s =
     (if ptr = 0 then malloc x sz s
      else if sz = 0 then Some (0, free ptr s)
      else if sz \<le> b_size (cm s) (get_block_ptr ptr) then Some (ptr, s)
      else Option.bind (malloc x sz s) (\<lambda>(new_ptr, s).
        if new_ptr = 0 then Some (0, s)
        else
          (let old = b_size (cm s) (get_block_ptr ptr); n = (if old < sz then old else sz)
           in Some (new_ptr, free ptr (upd_cm (\<lambda>m. memcpy (unat n) m new_ptr ptr) s)))))"

definition strdup :: "outside \<Rightarrow> addr \<Rightarrow> cproc \<Rightarrow> (addr \<times> cproc) option" where
  "strdup x str s =
     Option.bind (strlen (cm s) str) (\<lambda>l.
     Option.bind (sbrk x (l + 1) s) (\<lambda>(new, s).
       Some (if new = - 1 then (0, s) else (new, upd_cm (\<lambda>m. memcpy (unat (l + 1)) m new str) s))))"

subsection \<open>Numbers\<close>

partial_function (option) skip_blanks :: "cmem \<Rightarrow> addr \<Rightarrow> addr option" where
  "skip_blanks m p = (if m p = 32 \<or> m p = 9 \<or> m p = 10 then skip_blanks m (p + 1) else Some p)"

definition is_digit :: "byte \<Rightarrow> bool" where
  "is_digit c \<longleftrightarrow> 48 \<le> c \<and> c \<le> 57"

text \<open>The sum wraps around where C leaves the overflow undefined.\<close>

partial_function (option) digits_value :: "cmem \<Rightarrow> addr \<Rightarrow> int32_t \<Rightarrow> int32_t option" where
  "digits_value m p r =
     (if is_digit (m p) then digits_value m (p + 1) (r * 10 + (ucast (m p) - 48)) else Some r)"

definition atoi :: "cmem \<Rightarrow> addr \<Rightarrow> int32_t option" where
  "atoi m nptr =
     Option.bind (skip_blanks m nptr) (\<lambda>p.
       if m p = 45 then map_option (\<lambda>r. - r) (digits_value m (p + 1) 0)
       else if m p = 43 then digits_value m (p + 1) 0
       else digits_value m p 0)"

text \<open>A \<^verbatim>\<open>long\<close> has the 32 bits of an \<^verbatim>\<open>int\<close>, and the two functions have the same body.\<close>

definition atol :: "cmem \<Rightarrow> addr \<Rightarrow> int32_t option" where
  "atol m nptr = atoi m nptr"

definition abs32 :: "int32_t \<Rightarrow> int32_t" where
  "abs32 n = (if sint n < 0 then - n else n)"

definition labs :: "int32_t \<Rightarrow> int32_t" where
  "labs n = (if sint n < 0 then - n else n)"

definition abort :: "outside \<Rightarrow> unit kop" where
  "abort x = libc_exit x 134"

subsection \<open>The environment\<close>

text \<open>\<^verbatim>\<open>name_len\<close>: the name ends at its zero byte or at an equals sign.\<close>

partial_function (option) name_end :: "cmem \<Rightarrow> addr \<Rightarrow> addr option" where
  "name_end m p = (if m p \<noteq> 0 \<and> m p \<noteq> 61 then name_end m (p + 1) else Some p)"

definition name_len :: "cmem \<Rightarrow> addr \<Rightarrow> nat option" where
  "name_len m name = map_option (\<lambda>p. unat (p - name)) (name_end m name)"

text \<open>The number \<open>j\<close> of leading characters that agree, at most \<open>n\<close>.\<close>

primrec agreeing :: "nat \<Rightarrow> cmem \<Rightarrow> addr \<Rightarrow> addr \<Rightarrow> nat" where
  "agreeing 0 m e name = 0"
| "agreeing (Suc n) m e name = (if m e = m name then Suc (agreeing n m (e + 1) (name + 1)) else 0)"

definition env_match :: "cmem \<Rightarrow> nat \<Rightarrow> addr \<Rightarrow> addr \<Rightarrow> bool" where
  "env_match m n name e \<longleftrightarrow> e \<noteq> 0 \<and> agreeing n m e name = n \<and> m (e + of_nat n) = 61"

definition find_env :: "nat \<Rightarrow> addr \<Rightarrow> cproc \<Rightarrow> nat option" where
  "find_env n name s = find (\<lambda>i. env_match (cm s) n name (environ s ! i)) [0..<environ_count s]"

definition getenv :: "addr \<Rightarrow> cproc \<Rightarrow> addr option" where
  "getenv name s =
     map_option (\<lambda>n. case find_env n name s of None \<Rightarrow> 0 | Some i \<Rightarrow> environ s ! i + of_nat n + 1)
       (name_len (cm s) name)"

text \<open>A new string \<open>name=value\<close>, 0 when there is no memory.\<close>

definition new_env :: "outside \<Rightarrow> nat \<Rightarrow> addr \<Rightarrow> addr \<Rightarrow> cproc \<Rightarrow> (addr \<times> cproc) option" where
  "new_env x n name val s =
     Option.bind (strlen (cm s) val) (\<lambda>l.
     Option.bind (malloc x (of_nat n + 1 + l + 1) s) (\<lambda>(p, s).
       if p = 0 then Some (0, s)
       else map_option (\<lambda>m. (p, s\<lparr>cm := m\<rparr>))
         (copy_str ((memcpy n (cm s) p name)(p + of_nat n := 61)) (p + of_nat n + 1) val)))"

definition setenv :: "outside \<Rightarrow> addr \<Rightarrow> addr \<Rightarrow> bool \<Rightarrow> cproc \<Rightarrow> (int \<times> cproc) option" where
  "setenv x name val overwrite s =
     Option.bind (name_len (cm s) name) (\<lambda>n.
       case find_env n name s of
         Some i \<Rightarrow>
           if \<not> overwrite then Some (0, s)
           else Option.bind (new_env x n name val s) (\<lambda>(e, s).
             Some (if e = 0 then (- 1, s) else (0, s\<lparr>environ := (environ s)[i := e]\<rparr>)))
       | None \<Rightarrow>
           if environ_count s \<ge> 255 then Some (- 1, s)
           else Option.bind (new_env x n name val s) (\<lambda>(e, s).
             Some (if e = 0 then (- 1, s)
               else (0, s\<lparr>environ := (environ s)[environ_count s := e, environ_count s + 1 := 0],
                        environ_count := environ_count s + 1\<rparr>))))"

definition unsetenv :: "addr \<Rightarrow> cproc \<Rightarrow> (int \<times> cproc) option" where
  "unsetenv name s =
     map_option (\<lambda>n. case find_env n name s of
         None \<Rightarrow> (0, s)
       | Some i \<Rightarrow>
           (0, s\<lparr>environ := (fold (\<lambda>k e. e[k := e ! (k + 1)]) [i..<environ_count s - 1] (environ s))
                    [environ_count s - 1 := 0],
                 environ_count := environ_count s - 1\<rparr>))
       (name_len (cm s) name)"

subsection \<open>The list of blocks\<close>

text \<open>A block as a triple: the address of its header, the size of its data, and whether it is
  free.  \<open>hseg m p bs q\<close>: the pointers lead from \<open>p\<close> through the blocks \<open>bs\<close> to \<open>q\<close>.\<close>

type_synonym hblock = "addr \<times> nat \<times> bool"

fun hseg :: "cmem \<Rightarrow> addr \<Rightarrow> hblock list \<Rightarrow> addr \<Rightarrow> bool" where
  "hseg m p [] q \<longleftrightarrow> p = q"
| "hseg m p ((b, n, f) # bs) q \<longleftrightarrow>
     p = b \<and> b \<noteq> 0 \<and> unat (b_size m b) = n \<and> b_free m b = f \<and> hseg m (b_next m b) bs q"

text \<open>The blocks lie one after the other, from \<open>low\<close> on and below \<open>high\<close>.\<close>

fun hplaced :: "nat \<Rightarrow> hblock list \<Rightarrow> nat \<Rightarrow> bool" where
  "hplaced low [] high \<longleftrightarrow> low \<le> high"
| "hplaced low ((b, n, f) # bs) high \<longleftrightarrow> low \<le> unat b \<and> hplaced (unat b + 12 + n) bs high"

definition heap :: "cproc \<Rightarrow> hblock list \<Rightarrow> bool" where
  "heap s bs \<longleftrightarrow> hseg (cm s) (flist s) bs 0 \<and> hplaced 1 bs (unat (break (kern s))) \<and> break_ok (kern s)"

text \<open>First fit on the list.\<close>

fun first_fit :: "nat \<Rightarrow> hblock list \<Rightarrow> (addr \<times> hblock list) option" where
  "first_fit sz [] = None"
| "first_fit sz ((b, n, f) # bs) =
     (if f \<and> sz \<le> n then Some (b, (b, n, False) # bs)
      else map_option (\<lambda>(p, bs). (p, (b, n, f) # bs)) (first_fit sz bs))"

lemma hseg_append: "hseg m p (xs @ ys) q \<longleftrightarrow> (\<exists>r. hseg m p xs r \<and> hseg m r ys q)"
  by (induction xs arbitrary: p) auto

lemma hplaced_append:
  "hplaced low (xs @ ys) high \<longleftrightarrow> (\<exists>mid. hplaced low xs mid \<and> hplaced mid ys high)"
proof (induction xs arbitrary: low)
  case Nil
  show ?case
  proof
    assume "hplaced low ([] @ ys) high"
    then show "\<exists>mid. hplaced low [] mid \<and> hplaced mid ys high" by auto
  next
    assume "\<exists>mid. hplaced low [] mid \<and> hplaced mid ys high"
    then show "hplaced low ([] @ ys) high" by (cases ys) auto
  qed
qed auto

lemma hplaced_le: "hplaced low bs high \<Longrightarrow> low \<le> high"
  by (induction bs arbitrary: low) fastforce+

lemma hplaced_weaken: "hplaced low bs high \<Longrightarrow> high \<le> high' \<Longrightarrow> hplaced low bs high'"
  by (induction bs arbitrary: low) auto

lemma hplaced_in:
  "hplaced low bs high \<Longrightarrow> (b, n, f) \<in> set bs \<Longrightarrow> low \<le> unat b \<and> unat b + 12 + n \<le> high"
proof (induction bs arbitrary: low)
  case (Cons x bs)
  then show ?case using hplaced_le [of _ bs high] by (cases x) fastforce
qed simp

text \<open>Two blocks of the list do not meet.\<close>

lemma hplaced_apart:
  assumes "hplaced low (xs @ (b, n, f) # ys) high" "(c, l, g) \<in> set (xs @ ys)"
  shows "unat c + 12 + l \<le> unat b \<or> unat b + 12 + n \<le> unat c"
proof -
  obtain mid where m: "hplaced low xs mid" "mid \<le> unat b" "hplaced (unat b + 12 + n) ys high"
    using assms(1) by (auto simp: hplaced_append)
  then show ?thesis using assms(2) hplaced_in [OF m(1), of c l g] hplaced_in [OF m(3), of c l g] by auto
qed

subsection \<open>Headers in memory\<close>

lemma phys_word_cong: "(\<And>i. i < 4 \<Longrightarrow> m (a + of_nat i) = m' (a + of_nat i)) \<Longrightarrow> phys_word m a = phys_word m' a"
  unfolding phys_word_def by (intro get32_cong) simp

definition same_on :: "cmem \<Rightarrow> cmem \<Rightarrow> addr \<Rightarrow> nat \<Rightarrow> bool" where
  "same_on m m' b n \<longleftrightarrow> (\<forall>i<n. m (b + of_nat i) = m' (b + of_nat i))"

lemma same_header:
  assumes "same_on m m' b 12"
  shows "b_size m' b = b_size m b" "b_free m' b = b_free m b" "b_next m' b = b_next m b"
proof -
  have e: "m (b + of_nat i) = m' (b + of_nat i)" if "i < 12" for i using assms that by (simp add: same_on_def)
  have "m (b + 4 + of_nat i) = m' (b + 4 + of_nat i)" "m (b + 8 + of_nat i) = m' (b + 8 + of_nat i)" if "i < 4" for i
    using e [of "4 + i"] e [of "8 + i"] that by (simp_all add: add.assoc)
  then show "b_size m' b = b_size m b" "b_free m' b = b_free m b" "b_next m' b = b_next m b"
    using e phys_word_cong [of m b m'] phys_word_cong [of m "b + 4" m'] phys_word_cong [of m "b + 8" m']
    by (simp_all add: b_size_def b_free_def b_next_def)
qed

lemma hseg_same:
  "hseg m p bs q \<Longrightarrow> (\<And>b n f. (b, n, f) \<in> set bs \<Longrightarrow> same_on m m' b 12) \<Longrightarrow> hseg m' p bs q"
proof (induction bs arbitrary: p)
  case (Cons x bs)
  obtain b n f where x: "x = (b, n, f)" by (cases x)
  have s: "same_on m m' b 12" using Cons.prems(2) [of b n f] by (simp add: x)
  show ?case using Cons.prems(1) Cons.IH [of "b_next m b"] Cons.prems(2) same_header [OF s] by (auto simp: x)
qed simp

text \<open>A store into the header of one block and the bytes elsewhere.\<close>

lemma store_word_at: "store_word a v m x = m x" if "\<not> within a 4 x"
  using that by (simp add: store_word_def within_def)

lemma not_within:
  assumes "unat b + n \<le> unat c \<or> unat c + l \<le> unat b" "unat b + n \<le> 2 ^ 32" "unat c + l \<le> 2 ^ 32" "i < n"
  shows "\<not> within c l (b + of_nat i)"
proof -
  have "unat (b + of_nat i) = unat b + i" using assms(2,4) by (intro unat_plus) simp
  with assms(1,4) show ?thesis unfolding within_iff [OF assms(3)] by linarith
qed

lemma hdr_field:
  fixes b :: addr
  assumes "unat b + 12 \<le> 2 ^ 32"
  shows "unat (b + 4) = unat b + 4" "unat (b + 8) = unat b + 8"
  using assms unat_plus [of b 4] unat_plus [of b 8] by simp_all

lemma set_hdr_same:
  assumes "unat b + n \<le> unat c \<or> unat c + 12 \<le> unat b" "unat b + n \<le> 2 ^ 32" "unat c + 12 \<le> 2 ^ 32"
  shows "same_on m (set_b_size c v m) b n" "same_on m (set_b_free c v m) b n" "same_on m (set_b_next c v m) b n"
proof -
  note h = hdr_field [OF assms(3)]
  have "\<not> within c 4 (b + of_nat i)" "\<not> within (c + 4) 4 (b + of_nat i)" "\<not> within (c + 8) 4 (b + of_nat i)" if "i < n" for i
    by (rule not_within [of b n]; use assms h that in auto)+
  then show "same_on m (set_b_size c v m) b n" "same_on m (set_b_free c v m) b n" "same_on m (set_b_next c v m) b n"
    by (simp_all add: same_on_def set_b_size_def set_b_free_def set_b_next_def store_word_at)
qed

text \<open>The data of a block do not change with a header, be it its own.\<close>

lemma data_same:
  assumes "unat c + 12 + l \<le> 2 ^ 32" "unat d + 12 \<le> 2 ^ 32"
    and "unat c + 12 + l \<le> unat d \<or> unat d + 12 \<le> unat c \<or> c = d"
  shows "same_on m (set_b_size d v m) (c + 12) l" "same_on m (set_b_free d v m) (c + 12) l"
    "same_on m (set_b_next d v m) (c + 12) l"
proof -
  have "unat (c + 12) = unat c + 12 \<or> l = 0" using assms(1) unat_plus [of c 12] by fastforce
  then have "l = 0 \<or> (unat (c + 12) + l \<le> unat d \<or> unat d + 12 \<le> unat (c + 12)) \<and> unat (c + 12) + l \<le> 2 ^ 32"
    using assms by auto
  moreover have "same_on m m' a 0" for m m' :: cmem and a by (simp add: same_on_def)
  ultimately show "same_on m (set_b_size d v m) (c + 12) l" "same_on m (set_b_free d v m) (c + 12) l"
    "same_on m (set_b_next d v m) (c + 12) l"
    using set_hdr_same [of "c + 12" l d] assms(2) by auto
qed

lemma same_on_trans: "same_on m1 m2 b n \<Longrightarrow> same_on m2 m3 b n \<Longrightarrow> same_on m1 m3 b n"
  by (simp add: same_on_def)

lemma set_hdr_read [simp]:
  assumes "unat b + 12 \<le> 2 ^ 32"
  shows "b_size (set_b_size b v m) b = v" "b_free (set_b_size b v m) b = b_free m b" "b_next (set_b_size b v m) b = b_next m b"
    "b_size (set_b_free b v m) b = b_size m b" "b_free (set_b_free b v m) b \<longleftrightarrow> v \<noteq> 0" "b_next (set_b_free b v m) b = b_next m b"
    "b_size (set_b_next b v m) b = b_size m b" "b_free (set_b_next b v m) b = b_free m b" "b_next (set_b_next b v m) b = v"
  using hdr_field [OF assms] assms
  by (simp_all add: b_size_def b_free_def b_next_def set_b_size_def set_b_free_def set_b_next_def phys_word_same
      phys_word_other phys_word_after)

subsection \<open>malloc, free and the list\<close>

fun unfit :: "nat \<Rightarrow> hblock \<Rightarrow> bool" where
  "unfit sz (b, n, f) \<longleftrightarrow> \<not> (f \<and> sz \<le> n)"

lemma find_free_block_hseg:
  "hseg m p bs 0 \<Longrightarrow> find_free_block m p prev sz =
    Some (case dropWhile (unfit (unat sz)) bs of [] \<Rightarrow> 0 | (b, _) # _ \<Rightarrow> b,
      case rev (takeWhile (unfit (unat sz)) bs) of [] \<Rightarrow> prev | (b, _) # _ \<Rightarrow> b)"
proof (induction bs arbitrary: p prev)
  case Nil
  then show ?case by (subst find_free_block.simps) simp
next
  case (Cons x bs)
  obtain b n f where x: "x = (b, n, f)" by (cases x)
  have h: "p = b" "b \<noteq> 0" "unat (b_size m b) = n" "b_free m b = f" "hseg m (b_next m b) bs 0"
    using Cons.prems by (auto simp: x)
  show ?case
  proof (cases "f \<and> unat sz \<le> n")
    case True
    then show ?thesis using h by (subst find_free_block.simps) (simp add: x word_le_nat_alt)
  next
    case False
    have r: "(case rev ys @ [(b, n, f)] of [] \<Rightarrow> prev | (b, _) # _ \<Rightarrow> b) = (case rev ys of [] \<Rightarrow> b | (b, _) # _ \<Rightarrow> b)" for ys
      by (cases "rev ys") auto
    show ?thesis using False h Cons.IH [OF h(5), of b]
      by (subst find_free_block.simps) (auto simp: x word_le_nat_alt r)
  qed
qed

lemma first_fit_split:
  assumes "dropWhile (unfit sz) bs = (b, n, f) # ys"
  shows "f" "first_fit sz bs = Some (b, takeWhile (unfit sz) bs @ (b, n, False) # ys)"
proof -
  show "f" using assms by (induction bs) (auto split: if_splits)
  show "first_fit sz bs = Some (b, takeWhile (unfit sz) bs @ (b, n, False) # ys)"
    using assms by (induction bs) (auto split: if_splits)
qed

lemma first_fit_None:
  "dropWhile (unfit sz) bs = [] \<Longrightarrow> first_fit sz bs = None"
  by (induction bs) (auto split: if_splits)

text \<open>A header that changes in one place of the list.\<close>

lemma heap_bounds:
  assumes "heap s bs" "(b, n, f) \<in> set bs"
  shows "1 \<le> unat b" "unat b + 12 + n \<le> unat (break (kern s))" "unat (break (kern s)) < 2 ^ 32"
  using assms hplaced_in [of 1 bs _ b n f] unsigned_less [of "break (kern s)"] by (auto simp: heap_def)

lemma set_free_heap:
  assumes "heap s (xs @ (b, n, f) # ys)"
  shows "heap (upd_cm (set_b_free b v) s) (xs @ (b, n, v \<noteq> 0) # ys)"
    "(c, l, g) \<in> set (xs @ (b, n, f) # ys) \<Longrightarrow> same_on (cm s) (cm (upd_cm (set_b_free b v) s)) (c + 12) l"
proof -
  let ?bs = "xs @ (b, n, f) # ys" and ?m = "set_b_free b v (cm s)"
  have pl: "hplaced 1 ?bs (unat (break (kern s)))" using assms by (simp add: heap_def)
  have b: "1 \<le> unat b" "unat b + 12 + n \<le> 2 ^ 32" using heap_bounds [OF assms, of b n f] by auto
  have ap: "same_on (cm s) ?m c 12" if "(c, l, g) \<in> set (xs @ ys)" for c l g
    using hplaced_apart [OF pl that] heap_bounds [OF assms, of c l g] that b by (intro set_hdr_same) auto
  obtain r where h: "hseg (cm s) (flist s) xs r" "hseg (cm s) r ((b, n, f) # ys) 0"
    using assms by (auto simp: heap_def hseg_append)
  have "hseg ?m (flist s) xs r" by (rule hseg_same [OF h(1)]) (use ap in auto)
  moreover have "hseg ?m (b_next (cm s) b) ys 0" by (rule hseg_same [of "cm s"]) (use h(2) ap in auto)
  ultimately have "hseg ?m (flist s) (xs @ (b, n, v \<noteq> 0) # ys) 0"
    using h(2) b by (auto simp: hseg_append)
  moreover have "hplaced 1 (xs @ (b, n, v \<noteq> 0) # ys) (unat (break (kern s)))" using pl by (simp add: hplaced_append)
  ultimately show "heap (upd_cm (set_b_free b v) s) (xs @ (b, n, v \<noteq> 0) # ys)"
    using assms by (simp add: heap_def upd_cm_def)
  assume c: "(c, l, g) \<in> set ?bs"
  have "unat c + 12 + l \<le> 2 ^ 32" using heap_bounds [OF assms c] by simp
  moreover have "unat c + 12 + l \<le> unat b \<or> unat b + 12 \<le> unat c \<or> c = b"
    using c hplaced_apart [OF pl, of c l g] by auto
  ultimately show "same_on (cm s) (cm (upd_cm (set_b_free b v) s)) (c + 12) l"
    using data_same(2) [of c l b] b by (simp add: upd_cm_def)
qed

lemma free_heap:
  assumes "heap s (xs @ (b, n, f) # ys)"
  shows "heap (free (b + 12) s) (xs @ (b, n, True) # ys)"
proof -
  have "unat b + 12 < 2 ^ 32" using heap_bounds [OF assms, of b n f] by simp
  then have "unat (b + 12) = unat b + 12" using unat_plus [of b 12] by simp
  then have "b + 12 \<noteq> 0" by (metis add_is_0 unat_0 zero_neq_numeral)
  then show ?thesis using set_free_heap(1) [OF assms, of 1] by (simp add: free_def get_block_ptr_def)
qed

lemma break_not_max:
  assumes "break_ok k"
  shows "break k \<noteq> - 1"
proof
  assume "break k = - 1"
  then have "unat (break k) = 2 ^ 32 - 1" by (simp add: unsigned_minus_1_eq_mask mask_eq_exp_minus_1)
  with break_unat [OF assms] show False by simp presburger
qed

text \<open>The memory after a new last block: the pointer in the old last block and the new header.\<close>

definition linked :: "addr \<Rightarrow> addr \<Rightarrow> addr \<Rightarrow> cmem \<Rightarrow> cmem" where
  "linked prev blk sz m =
     set_b_next blk 0 (set_b_free blk 0 (set_b_size blk sz (if prev \<noteq> 0 then set_b_next prev blk m else m)))"

definition last_addr :: "hblock list \<Rightarrow> addr" where
  "last_addr bs = (case rev bs of [] \<Rightarrow> 0 | (b, _) # _ \<Rightarrow> b)"

lemma linked_header:
  assumes "unat blk + 12 \<le> 2 ^ 32"
  shows "b_size (linked prev blk sz m) blk = sz" "\<not> b_free (linked prev blk sz m) blk" "b_next (linked prev blk sz m) blk = 0"
  using assms by (simp_all add: linked_def)

lemma linked_same:
  assumes "unat b + n \<le> unat blk" "unat blk + 12 \<le> 2 ^ 32" "same_on m (if prev \<noteq> 0 then set_b_next prev blk m else m) b n"
  shows "same_on m (linked prev blk sz m) b n"
proof -
  let ?m = "if prev \<noteq> 0 then set_b_next prev blk m else m"
  have d: "unat b + n \<le> unat blk \<or> unat blk + 12 \<le> unat b" "unat b + n \<le> 2 ^ 32" using assms by auto
  note s = set_hdr_same [OF d assms(2)]
  have "same_on m (set_b_size blk sz ?m) b n" by (rule same_on_trans [OF assms(3) s(1)])
  then have "same_on m (set_b_free blk 0 (set_b_size blk sz ?m)) b n" by (rule same_on_trans) (rule s(2))
  then have "same_on m (set_b_next blk 0 (set_b_free blk 0 (set_b_size blk sz ?m))) b n" by (rule same_on_trans) (rule s(3))
  then show ?thesis by (simp add: linked_def)
qed

lemma linked_hseg:
  assumes "hseg m p bs 0" "hplaced 1 bs (unat blk)" "unat blk + 12 \<le> 2 ^ 32" "blk \<noteq> 0"
  shows "hseg (linked (last_addr bs) blk sz m) (if bs = [] then blk else p) (bs @ [(blk, unat sz, False)]) 0"
proof (cases bs rule: rev_cases)
  case Nil
  then show ?thesis using assms linked_header [OF assms(3)] by (simp add: last_addr_def)
next
  case (snoc xs x)
  obtain b n f where x: "x = (b, n, f)" by (cases x)
  have bs: "bs = xs @ [(b, n, f)]" using snoc x by simp
  let ?m = "linked b blk sz m"
  have bb: "1 \<le> unat b" "unat b + 12 + n \<le> unat blk" using hplaced_in [OF assms(2), of b n f] by (auto simp: bs)
  then have b0: "b \<noteq> 0" by auto
  obtain r where h: "hseg m p xs r" "hseg m r [(b, n, f)] 0" using assms(1) by (auto simp: bs hseg_append)
  have "same_on m ?m c 12" if "(c, l, g) \<in> set xs" for c l g
  proof (rule linked_same)
    show "unat c + 12 \<le> unat blk" using hplaced_in [OF assms(2), of c l g] that by (auto simp: bs)
    have "unat c + 12 + l \<le> unat b \<or> unat b + 12 + n \<le> unat c"
      using hplaced_apart [of 1 xs b n f "[]" _ c l g] assms(2) that by (simp add: bs)
    then show "same_on m (if b \<noteq> 0 then set_b_next b blk m else m) c 12"
      using b0 bb assms(3) \<open>unat c + 12 \<le> unat blk\<close> set_hdr_same(3) [of c 12 b] by auto
  qed (rule assms(3))
  then have "hseg ?m p xs r" by (intro hseg_same [OF h(1)])
  moreover have "b_size ?m b = b_size m b \<and> b_free ?m b = b_free m b \<and> b_next ?m b = blk"
  proof -
    have "same_on (set_b_next b blk m) (linked 0 blk sz (set_b_next b blk m)) b 12"
      by (rule linked_same) (use bb assms(3) in \<open>auto simp: same_on_def\<close>)
    from same_header [OF this] show ?thesis using bb assms(3) b0 by (simp add: linked_def)
  qed
  ultimately have "hseg ?m p (xs @ (b, n, f) # [(blk, unat sz, False)]) 0"
    using h(2) linked_header [OF assms(3)] assms(4) by (auto simp: hseg_append)
  then show ?thesis by (simp add: bs last_addr_def)
qed

text \<open>A new block at the break, or no memory.\<close>

lemma request_space_run:
  assumes "heap s bs" "unat sz + 12 < 2 ^ 31"
  shows "\<exists>r s'. request_space x (last_addr bs) sz s = Some (r, s') \<and> flist s' = flist s
    \<and> (r = 0 \<and> cm s' = cm s \<and> heap s' bs
       \<or> r = break (kern s) \<and> r \<noteq> 0 \<and> cm s' = linked (last_addr bs) r sz (cm s) \<and> unat r + 12 + unat sz \<le> unat (break (kern s'))
         \<and> break_ok (kern s'))"
proof -
  have ok: "break_ok (kern s)" and pl: "hplaced 1 bs (unat (break (kern s)))" and seg: "hseg (cm s) (flist s) bs 0"
    using assms(1) by (simp_all add: heap_def)
  obtain k1 e1 where k1: "libc_sbrk x 0 (kern s) = Ret (break (kern s), e1) k1" "break_ok k1"
    "unat (break (kern s)) \<le> unat (break k1)"
    using libc_sbrk_run [OF ok, of 0 x] by auto
  have n: "unat (sz + 12) = unat sz + 12" using assms(2) unat_plus [of sz 12] by simp
  obtain k2 v2 e2 where k2: "libc_sbrk x (sz + 12) k1 = Ret (v2, e2) k2" "break_ok k2"
    "v2 = - 1 \<and> break k2 = break k1 \<or> v2 = break k1 \<and> unat (break k1) + (unat sz + 12) \<le> unat (break k2)"
    using libc_sbrk_run [OF k1(2), of "sz + 12" x] assms(2) n by auto
  have nz: "break (kern s) \<noteq> 0" using hplaced_le [OF pl] by auto
  show ?thesis
  proof (cases "v2 = - 1")
    case True
    then have "break k2 = break k1" using k2(3) break_not_max [OF k1(2)] by auto
    then have "hplaced 1 bs (unat (break k2))" using hplaced_weaken [OF pl k1(3)] by simp
    then show ?thesis using True k1(1) k2(1,2) seg by (simp add: request_space_def sbrk_def heap_def)
  next
    case False
    then show ?thesis using k1 k2 nz
      by (auto simp: request_space_def sbrk_def upd_cm_def linked_def)
  qed
qed

lemma first_fit_keeps:
  "first_fit sz bs = Some (b, bs') \<Longrightarrow> \<exists>n xs ys. bs = xs @ (b, n, True) # ys \<and> bs' = xs @ (b, n, False) # ys \<and> sz \<le> n"
proof (induction bs arbitrary: bs')
  case (Cons x bs)
  obtain c n f where x: "x = (c, n, f)" by (cases x)
  show ?case
  proof (cases "f \<and> sz \<le> n")
    case True
    then have "x # bs = [] @ (b, n, True) # bs \<and> bs' = [] @ (b, n, False) # bs \<and> sz \<le> n" using Cons.prems by (auto simp: x)
    then show ?thesis by blast
  next
    case False
    then obtain bs1 where "first_fit sz bs = Some (b, bs1)" "bs' = x # bs1" using Cons.prems by (auto simp: x)
    with Cons.IH obtain n' xs ys where "bs = xs @ (b, n', True) # ys" "bs1 = xs @ (b, n', False) # ys" "sz \<le> n'" by blast
    then have "x # bs = (x # xs) @ (b, n', True) # ys \<and> bs' = (x # xs) @ (b, n', False) # ys \<and> sz \<le> n'"
      using \<open>bs' = x # bs1\<close> by simp
    then show ?thesis by blast
  qed
qed simp

lemma malloc_at_break:
  assumes "heap s bs" "request_space x (last_addr bs) sz s = Some (r, s')" "flist s' = flist s" "r = break (kern s)" "r \<noteq> 0"
    and "cm s' = linked (last_addr bs) r sz (cm s)" "unat r + 12 + unat sz \<le> unat (break (kern s'))" "break_ok (kern s')"
  shows "heap (if bs = [] then s'\<lparr>flist := r\<rparr> else s') (bs @ [(r, unat sz, False)])"
    "(c, l, g) \<in> set bs \<Longrightarrow> same_on (cm s) (cm s') (c + 12) l"
proof -
  have pl: "hplaced 1 bs (unat r)" and seg: "hseg (cm s) (flist s) bs 0"
    using assms(1,4) by (simp_all add: heap_def)
  have u: "unat (break (kern s')) < 2 ^ 32" by (rule order_less_le_trans [OF unsigned_less]) simp
  then have r12: "unat r + 12 \<le> 2 ^ 32" using assms(7) by simp
  have "hplaced 1 (bs @ [(r, unat sz, False)]) (unat (break (kern s')))"
    unfolding hplaced_append using pl assms(7) by (intro exI [of _ "unat r"]) simp
  moreover have "hseg (cm s') (if bs = [] then r else flist s) (bs @ [(r, unat sz, False)]) 0"
    unfolding assms(6) by (rule linked_hseg [OF seg pl r12 assms(5)])
  ultimately show "heap (if bs = [] then s'\<lparr>flist := r\<rparr> else s') (bs @ [(r, unat sz, False)])"
    using assms(3,8) by (cases "bs = []") (simp_all add: heap_def)
  assume c: "(c, l, g) \<in> set bs"
  have cb: "unat c + 12 + l \<le> unat r" using hplaced_in [OF pl c] by simp
  show "same_on (cm s) (cm s') (c + 12) l"
  proof (cases "l = 0")
    case True
    then show ?thesis by (simp add: same_on_def)
  next
    case False
    then have c12: "unat (c + 12) = unat c + 12" using cb r12 unat_plus [of c 12] by fastforce
    obtain xs b n f where bs: "bs = xs @ [(b, n, f)]" using c by (cases bs rule: rev_cases) auto
    have b: "unat b + 12 + n \<le> unat r" using hplaced_in [OF pl, of b n f] by (simp add: bs)
    have "unat c + 12 + l \<le> unat b \<or> unat b + 12 + n \<le> unat c" if "(c, l, g) \<in> set xs"
      using hplaced_apart [of 1 xs b n f "[]" "unat r" c l g] pl that by (simp add: bs)
    then have "unat c + 12 + l \<le> unat b \<or> unat b + 12 \<le> unat c \<or> c = b"
      using c by (auto simp: bs)
    then have "same_on (cm s) (set_b_next b r (cm s)) (c + 12) l" using cb r12 b by (intro data_same) auto
    then show ?thesis unfolding assms(6)
      by (intro linked_same) (use cb c12 r12 in \<open>auto simp: bs last_addr_def same_on_def\<close>)
  qed
qed

subsection \<open>Properties\<close>

text \<open>C34: \<^verbatim>\<open>malloc\<close> is first fit on its list of blocks: it always returns, and when a free block
  of the list is large enough it takes the first one and returns the address of its data; else it
  appends a new block at the break of the process, or returns \<^verbatim>\<open>NULL\<close> with the list as it was
  (when the kernel must give the memory is not part of the statement).  In every case the data of all other blocks, and of the block
  it hands out, are as before.\<close>

theorem malloc_first_fit:
  assumes "heap s bs" "0 < unat sz" "unat sz + 12 < 2 ^ 31"
  shows "\<exists>p s'. malloc x sz s = Some (p, s')
    \<and> (case first_fit (unat sz) bs of
         Some (b, bs') \<Rightarrow> p = b + 12 \<and> heap s' bs'
       | None \<Rightarrow> p = 0 \<and> heap s' bs
           \<or> p = break (kern s) + 12 \<and> p \<noteq> 0 \<and> heap s' (bs @ [(break (kern s), unat sz, False)]))
    \<and> (\<forall>(c, l, g) \<in> set bs. same_on (cm s) (cm s') (c + 12) l)"
proof -
  have seg: "hseg (cm s) (flist s) bs 0" and sz: "sz \<noteq> 0" using assms(1,2) by (auto simp: heap_def)
  obtain r s1 where rs: "request_space x (last_addr bs) sz s = Some (r, s1)" "flist s1 = flist s"
    "r = 0 \<and> cm s1 = cm s \<and> heap s1 bs
      \<or> r = break (kern s) \<and> r \<noteq> 0 \<and> cm s1 = linked (last_addr bs) r sz (cm s) \<and> unat r + 12 + unat sz \<le> unat (break (kern s1))
        \<and> break_ok (kern s1)"
    using request_space_run [OF assms(1,3)] by blast
  let ?at = "if bs = [] then s1\<lparr>flist := r\<rparr> else s1"
  let ?done = "if r = 0 then (0, s1) else (r + 12, ?at)"
  have grow: "(case ?done of (p, s') \<Rightarrow> (p = 0 \<and> heap s' bs
      \<or> p = break (kern s) + 12 \<and> p \<noteq> 0 \<and> heap s' (bs @ [(break (kern s), unat sz, False)]))
      \<and> (\<forall>(c, l, g) \<in> set bs. same_on (cm s) (cm s') (c + 12) l))"
  proof (cases "r = 0")
    case True
    with rs(3) have "cm s1 = cm s" "heap s1 bs" using assms(1) hplaced_le by (auto simp: heap_def)
    with True show ?thesis by (auto simp: same_on_def)
  next
    case False
    with rs(3) have n: "r = break (kern s)" "r \<noteq> 0" "cm s1 = linked (last_addr bs) r sz (cm s)"
      "unat r + 12 + unat sz \<le> unat (break (kern s1))" "break_ok (kern s1)" by auto
    note m = malloc_at_break [OF assms(1) rs(1,2) n]
    have "unat (break (kern s1)) < 2 ^ 32" by (rule order_less_le_trans [OF unsigned_less]) simp
    then have "unat (r + 12) = unat r + 12" using n(4) unat_plus [of r 12] by simp
    then have "r + 12 \<noteq> 0" by (metis add_is_0 unat_0 zero_neq_numeral)
    then show ?thesis using False m n(1) by auto
  qed
  show ?thesis
  proof (cases "bs = []")
    case True
    then have "flist s = 0" "last_addr bs = 0" using seg by (simp_all add: last_addr_def)
    then have "malloc x sz s = Some ?done" using sz rs(1) True by (simp add: malloc_def)
    with True grow show ?thesis by (cases ?done) auto
  next
    case False
    then have f: "flist s \<noteq> 0" using seg by (cases bs) auto
    note ff = find_free_block_hseg [OF seg, of "flist s" sz]
    show ?thesis
    proof (cases "dropWhile (unfit (unat sz)) bs")
      case Nil
      then have all: "takeWhile (unfit (unat sz)) bs = bs" by (metis append_Nil2 takeWhile_dropWhile_id)
      have "(case rev bs of [] \<Rightarrow> flist s | (b, _) # _ \<Rightarrow> b) = last_addr bs" using False by (cases bs rule: rev_cases) (auto simp: last_addr_def)
      then have "malloc x sz s = Some ?done" using ff f sz rs(1) False by (simp add: malloc_def Nil all)
      with grow first_fit_None [OF Nil] show ?thesis by (cases ?done) auto
    next
      case (Cons y ys)
      obtain b n g where y: "y = (b, n, g)" by (cases y)
      note sp = first_fit_split [OF Cons [unfolded y]]
      let ?xs = "takeWhile (unfit (unat sz)) bs"
      have bs: "bs = ?xs @ (b, n, g) # ys" using takeWhile_dropWhile_id [of _ bs] Cons y by metis
      have h: "heap s (?xs @ (b, n, g) # ys)" using assms(1) bs by simp
      have "b \<noteq> 0" using heap_bounds [OF assms(1), of b n g] by (metis bs in_set_conv_decomp not_one_le_zero unat_0)
      then have "malloc x sz s = Some (b + 12, upd_cm (set_b_free b 0) s)"
        using ff f sz by (simp add: malloc_def Cons y)
      moreover have "heap (upd_cm (set_b_free b 0) s) (?xs @ (b, n, False) # ys)"
        using set_free_heap(1) [OF h, of 0] by simp
      moreover have "same_on (cm s) (cm (upd_cm (set_b_free b 0) s)) (c + 12) l" if "(c, l, q) \<in> set bs" for c l q
        by (rule set_free_heap(2) [OF h, of c l q]) (use that bs in metis)
      ultimately show ?thesis using sp(2) by auto
    qed
  qed
qed

lemma heap_blocks_disjoint:
  assumes "heap s (xs @ (b, n, f) # ys)" "(c, l, g) \<in> set (xs @ ys)"
  shows "\<not> (within b (12 + n) a \<and> within c (12 + l) a) \<and> unat b + 12 + n \<le> unat (break (kern s))"
proof -
  have "hplaced 1 (xs @ (b, n, f) # ys) (unat (break (kern s)))" using assms(1) by (simp add: heap_def)
  from hplaced_apart [OF this assms(2)] have "unat c + 12 + l \<le> unat b \<or> unat b + 12 + n \<le> unat c" .
  moreover have bd: "unat b + 12 + n \<le> unat (break (kern s))" "unat c + 12 + l \<le> unat (break (kern s))"
    using heap_bounds(2) [OF assms(1), of b n f] heap_bounds(2) [OF assms(1), of c l g] assms(2) by simp_all
  moreover have "unat (break (kern s)) < 2 ^ 32" by (rule order_less_le_trans [OF unsigned_less]) simp
  ultimately show ?thesis using within_iff [of b "12 + n" a] within_iff [of c "12 + l" a] by auto
qed

text \<open>The witness: a free block of 20 bytes at 64 and one in use at 96, below a break at 128.\<close>

definition heap_proc :: cproc where
  "heap_proc = \<lparr>cm = set_b_next 64 96 (set_b_size 64 20 (set_b_free 64 1 (set_b_size 96 20 (\<lambda>_. 0)))),
     kern = upd_u (\<lambda>u. u\<lparr>u_tsize := 2\<rparr>) (zero_kernel\<lparr>maxmem := 1000\<rparr>), cerrno = 0, flist = 64,
     environ = [], environ_count = 0\<rparr>"

lemma heap_proc_ok: "heap heap_proc [(64, 20, True), (96, 20, False)]" "break (kern heap_proc) = 128"
proof -
  let ?m = "set_b_size 96 20 (\<lambda>_. 0)" and ?m3 = "cm heap_proc"
  have z: "phys_word (\<lambda>_. 0) a = 0" for a by (simp add: phys_word_def get32_def)
  have "same_on ?m (set_b_free 64 1 ?m) 96 12" by (rule set_hdr_same) simp_all
  moreover have "same_on (set_b_free 64 1 ?m) (set_b_size 64 20 (set_b_free 64 1 ?m)) 96 12" by (rule set_hdr_same) simp_all
  moreover have "same_on (set_b_size 64 20 (set_b_free 64 1 ?m)) ?m3 96 12"
    unfolding heap_proc_def cproc.simps by (rule set_hdr_same) simp_all
  ultimately have "same_on ?m ?m3 96 12" by (blast intro: same_on_trans)
  from same_header [OF this] have "unat (b_size ?m3 96) = 20" "\<not> b_free ?m3 96" "b_next ?m3 96 = 0"
    by (simp_all add: b_free_def [of "\<lambda>_. 0"] b_next_def [of "\<lambda>_. 0"] z)
  then have "hseg (cm heap_proc) 64 [(64, 20, True), (96, 20, False)] 0"
    by simp (simp add: heap_proc_def)
  moreover show b: "break (kern heap_proc) = 128" by (simp add: heap_proc_def break_def zero_kernel_def zero_user_def)
  moreover have "break_ok (kern heap_proc)" by (simp add: heap_proc_def break_ok_def zero_kernel_def zero_user_def)
  ultimately show "heap heap_proc [(64, 20, True), (96, 20, False)]" by (simp add: heap_def) (simp add: heap_proc_def)
qed

theorem malloc_first_fit_witness:
  "\<forall>x. \<exists>s'. malloc x 16 heap_proc = Some (76, s') \<and> heap s' [(64, 20, False), (96, 20, False)]"
  using malloc_first_fit [OF heap_proc_ok(1), of 16] by fastforce

end
