(* ===== verification/Libc_Printf.thy ===== *)
theory Libc_Printf
  imports Libc_Stdlib
begin

text \<open>
  Formatted output, \<^verbatim>\<open>print_num\<close> and \<^verbatim>\<open>vsnprintf\<close> of
  \<^verbatim>\<open>userland/Libraries/libc/src/stdio.c\<close>.  The variable arguments are a list of words: every
  type the function takes from it has 32 bits.  The local array \<^verbatim>\<open>buf\<close> is a list.
\<close>

subsection \<open>print_num\<close>

text \<open>The digits of a number, the last one first; the loop runs while the number is positive.\<close>

definition digit_char :: "int \<Rightarrow> byte" where
  "digit_char d = (if d < 10 then of_int (48 + d) else of_int (97 + d - 10))"

function digits_rev :: "int \<Rightarrow> int \<Rightarrow> byte list" where
  "digits_rev base num = (if 0 < num \<and> 1 < base then digit_char (num mod base) # digits_rev base (num div base) else [])"
  by auto
termination
  by (relation "measure (\<lambda>(b, n). nat n)") (auto simp: int_div_less_self)

declare digits_rev.simps [simp del]

text \<open>The contents of \<open>buf\<close> up to its terminator.  The number is a \<^verbatim>\<open>long\<close>, also for the
  unsigned conversions, and the negation of the smallest one is itself.\<close>

definition print_num :: "int32_t \<Rightarrow> int \<Rightarrow> bool \<Rightarrow> byte list" where
  "print_num num base is_signed =
     (let neg = is_signed \<and> sint num < 0; n = (if neg then - num else num);
          tmp = (if n = 0 then [48] else digits_rev base (sint n)) @ (if neg then [45] else [])
      in rev tmp)"

subsection \<open>vsnprintf\<close>

text \<open>The state of the output is the memory and \<^verbatim>\<open>pos\<close>.  A loop stores while
  \<^verbatim>\<open>pos < size - 1\<close>; \<open>put_one\<close> stores without the test.\<close>

definition put_one :: "addr \<Rightarrow> byte \<Rightarrow> cmem \<times> addr \<Rightarrow> cmem \<times> addr" where
  "put_one str c o' = (case o' of (m, pos) \<Rightarrow> (m(str + pos := c), pos + 1))"

primrec put_list :: "addr \<Rightarrow> addr \<Rightarrow> byte list \<Rightarrow> cmem \<times> addr \<Rightarrow> cmem \<times> addr" where
  "put_list str sz [] o' = o'"
| "put_list str sz (c # cs) o' = (if snd o' < sz - 1 then put_list str sz cs (put_one str c o') else o')"

text \<open>\<^verbatim>\<open>while (width > len && pos < size - 1)\<close>, \<open>n\<close> times.\<close>

primrec put_pad :: "addr \<Rightarrow> addr \<Rightarrow> byte \<Rightarrow> nat \<Rightarrow> cmem \<times> addr \<Rightarrow> cmem \<times> addr" where
  "put_pad str sz c 0 o' = o'"
| "put_pad str sz c (Suc n) o' = (if snd o' < sz - 1 then put_pad str sz c n (put_one str c o') else o')"

definition put_num :: "addr \<Rightarrow> addr \<Rightarrow> bool \<Rightarrow> int32_t \<Rightarrow> byte list \<Rightarrow> cmem \<times> addr \<Rightarrow> cmem \<times> addr" where
  "put_num str sz zero_pad width buf o' =
     put_list str sz buf
       (put_pad str sz (if zero_pad then 48 else 32) (nat (sint width - int (length buf))) o')"

partial_function (option) put_str :: "addr \<Rightarrow> addr \<Rightarrow> addr \<Rightarrow> cmem \<Rightarrow> addr \<Rightarrow> (cmem \<times> addr) option" where
  "put_str str sz s m pos =
     (if m s \<noteq> 0 \<and> pos < sz - 1 then put_str str sz (s + 1) (m(str + pos := m s)) (pos + 1) else Some (m, pos))"

text \<open>\<^verbatim>\<open>(null)\<close>\<close>

definition null_text :: "byte list" where
  "null_text = [40, 110, 117, 108, 108, 41]"

definition put_string :: "addr \<Rightarrow> addr \<Rightarrow> int32_t \<Rightarrow> addr \<Rightarrow> cmem \<times> addr \<Rightarrow> (cmem \<times> addr) option" where
  "put_string str sz width s o' =
     (if s = 0 then Some (put_list str sz null_text (put_pad str sz 32 (nat (sint width - int (length null_text))) o'))
      else Option.bind (strlen (fst o') s) (\<lambda>l.
        case put_pad str sz 32 (nat (sint width - sint l)) o' of (m, pos) \<Rightarrow> put_str str sz s m pos))"

partial_function (option) skip_zeros :: "cmem \<Rightarrow> addr \<Rightarrow> bool \<Rightarrow> (addr \<times> bool) option" where
  "skip_zeros m f zero_pad = (if m f = 48 then skip_zeros m (f + 1) True else Some (f, zero_pad))"

partial_function (option) get_width :: "cmem \<Rightarrow> addr \<Rightarrow> int32_t \<Rightarrow> (addr \<times> int32_t) option" where
  "get_width m f width =
     (if is_digit (m f) then get_width m (f + 1) (width * 10 + (ucast (m f) - 48)) else Some (f, width))"

definition skip_long :: "cmem \<Rightarrow> addr \<Rightarrow> addr" where
  "skip_long m f = (if m f = 108 then if m (f + 1) = 108 then f + 2 else f + 1 else f)"

text \<open>The conversion at \<open>f\<close>: the output and the arguments that are left.\<close>

definition conversion :: "addr \<Rightarrow> addr \<Rightarrow> bool \<Rightarrow> int32_t \<Rightarrow> byte \<Rightarrow> addr list \<Rightarrow> cmem \<times> addr
    \<Rightarrow> ((cmem \<times> addr) \<times> addr list) option" where
  "conversion str sz zp width c ap o' =
     (if c = 100 \<or> c = 105 then Some (put_num str sz zp width (print_num (hd ap) 10 True) o', tl ap)
      else if c = 117 then Some (put_num str sz zp width (print_num (hd ap) 10 False) o', tl ap)
      else if c = 120 \<or> c = 88 then Some (put_num str sz zp width (print_num (hd ap) 16 False) o', tl ap)
      else if c = 112 then
        Some (put_list str sz (print_num (hd ap) 16 False) (put_one str 120 (put_one str 48 o')), tl ap)
      else if c = 115 then map_option (\<lambda>o'. (o', tl ap)) (put_string str sz width (hd ap) o')
      else if c = 99 then Some (put_one str (ucast (hd ap)) o', tl ap)
      else Some (put_one str c o', ap))"

partial_function (option) format_loop :: "addr \<Rightarrow> addr \<Rightarrow> addr \<Rightarrow> addr list \<Rightarrow> cmem \<times> addr \<Rightarrow> (cmem \<times> addr) option" where
  "format_loop str sz fmt ap o' =
     (let m = fst o'
      in if m fmt = 0 \<or> \<not> snd o' < sz - 1 then Some o'
         else if m fmt \<noteq> 37 then format_loop str sz (fmt + 1) ap (put_one str (m fmt) o')
         else
           Option.bind (skip_zeros m (fmt + 1) False) (\<lambda>(f, zp).
           Option.bind (get_width m f 0) (\<lambda>(f, width).
             let f = skip_long m f
             in Option.bind (conversion str sz zp width (m f) ap o') (\<lambda>(o', ap).
                  format_loop str sz (f + 1) ap o'))))"

definition vsnprintf :: "addr \<Rightarrow> addr \<Rightarrow> addr \<Rightarrow> addr list \<Rightarrow> cmem \<Rightarrow> (int32_t \<times> cmem) option" where
  "vsnprintf str sz fmt ap m =
     map_option (\<lambda>(m, pos). (pos, m(str + pos := 0))) (format_loop str sz fmt ap (m, 0))"

definition snprintf :: "addr \<Rightarrow> addr \<Rightarrow> addr \<Rightarrow> addr list \<Rightarrow> cmem \<Rightarrow> (int32_t \<times> cmem) option" where
  "snprintf str sz fmt ap m = vsnprintf str sz fmt ap m"

definition sprintf :: "addr \<Rightarrow> addr \<Rightarrow> addr list \<Rightarrow> cmem \<Rightarrow> (int32_t \<times> cmem) option" where
  "sprintf str fmt ap m = vsnprintf str 10000 fmt ap m"

subsection \<open>What the output should be\<close>

text \<open>The complete output of a format, on the characters of the format and of the string
  arguments (\<open>txt\<close>): \<open>None\<close> for a format that ends inside a conversion, uses \<^verbatim>\<open>%p\<close>, or
  has too few arguments.\<close>

definition padded :: "byte \<Rightarrow> int32_t \<Rightarrow> byte list \<Rightarrow> byte list" where
  "padded c width xs = replicate (nat (sint width - int (length xs))) c @ xs"

fun width_of :: "int32_t \<Rightarrow> byte list \<Rightarrow> int32_t" where
  "width_of w [] = w"
| "width_of w (c # cs) = width_of (w * 10 + (ucast c - 48)) cs"

text \<open>One conversion: its output and the arguments left.\<close>

definition convert :: "(addr \<Rightarrow> byte list option) \<Rightarrow> bool \<Rightarrow> int32_t \<Rightarrow> byte \<Rightarrow> addr list \<Rightarrow> (byte list \<times> addr list) option" where
  "convert txt zp w c ap =
     (let pad = (if zp then 48 else 32)
      in if c \<in> {100, 105, 117, 120, 88, 115, 99} then
           (case ap of [] \<Rightarrow> None
            | a # ap \<Rightarrow>
                if c = 115 then map_option (\<lambda>xs. (padded 32 w xs, ap)) (if a = 0 then Some null_text else txt a)
                else if c = 99 then Some ([ucast a], ap)
                else Some (padded pad w (print_num a (if c \<in> {120, 88} then 16 else 10) (c \<in> {100, 105})), ap))
         else if c = 112 then None else Some ([c], ap))"

fun skip_l :: "byte list \<Rightarrow> byte list" where
  "skip_l [] = []"
| "skip_l (c # cs) = (if c = 108 then (case cs of [] \<Rightarrow> [] | d # ds \<Rightarrow> if d = 108 then ds else cs) else c # cs)"

lemma length_skip_l: "length (skip_l xs) \<le> length xs"
  by (cases xs) (auto split: list.splits)

function formatted :: "(addr \<Rightarrow> byte list option) \<Rightarrow> byte list \<Rightarrow> addr list \<Rightarrow> byte list option" where
  "formatted txt xs ap =
     (case xs of [] \<Rightarrow> Some []
      | x # xs \<Rightarrow>
          if x \<noteq> 37 then map_option ((#) x) (formatted txt xs ap)
          else
            (let zs = dropWhile (\<lambda>c. c = 48) xs;
                 ws = dropWhile is_digit zs
             in case skip_l ws of [] \<Rightarrow> None
                | c # ls \<Rightarrow>
                    (case convert txt (zs \<noteq> xs) (width_of 0 (takeWhile is_digit zs)) c ap of
                       None \<Rightarrow> None
                     | Some (ys, ap) \<Rightarrow> map_option ((@) ys) (formatted txt ls ap))))"
  by pat_completeness auto
termination
proof (relation "measure (\<lambda>(txt, xs, ap). length xs)"; clarsimp)
  fix x xs c ls
  assume "skip_l (dropWhile is_digit (dropWhile (\<lambda>c. c = 48) xs)) = c # ls"
  then have "Suc (length ls) \<le> length (dropWhile is_digit (dropWhile (\<lambda>c. c = 48) xs))"
    using length_skip_l [of "dropWhile is_digit (dropWhile (\<lambda>c. c = 48) xs)"] by simp
  also have "\<dots> \<le> length xs" by (meson length_dropWhile_le order_trans)
  finally show "length ls < Suc (length xs)" by simp
qed

declare formatted.simps [simp del]

subsection \<open>Truncated output\<close>

text \<open>The output so far: the first \<open>size - 1\<close> bytes of \<open>full\<close> are in place, and no byte outside
  the buffer has changed since \<open>m0\<close>.\<close>

definition shown :: "cmem \<Rightarrow> addr \<Rightarrow> addr \<Rightarrow> byte list \<Rightarrow> cmem \<times> addr \<Rightarrow> bool" where
  "shown m0 str sz full o' \<longleftrightarrow>
     (case o' of (m, pos) \<Rightarrow> unat pos = length (take (unat sz - 1) full)
        \<and> mem_list m str (unat pos) = take (unat sz - 1) full
        \<and> (\<forall>a. \<not> within str (unat sz) a \<longrightarrow> m a = m0 a))"

lemma room_iff: "0 < unat sz \<Longrightarrow> pos < sz - 1 \<longleftrightarrow> unat pos < unat sz - 1" for pos sz :: addr
  by (simp add: word_less_nat_alt unat_minus_one unat_gt_0)

lemma shown_room:
  assumes "shown m0 str sz full (m, pos)" "0 < unat sz"
  shows "pos < sz - 1 \<longleftrightarrow> length full < unat sz - 1"
  using assms by (auto simp: room_iff shown_def)

lemma mem_list_snoc: "mem_list m a (Suc n) = mem_list m a n @ [m (a + of_nat n)]"
  by (simp add: mem_list_def)

lemma shown_put_one:
  assumes "shown m0 str sz full (m, pos)" "0 < unat sz" "pos < sz - 1"
  shows "shown m0 str sz (full @ [c]) (put_one str c (m, pos))"
proof -
  have l: "length full < unat sz - 1" using shown_room [OF assms(1,2)] assms(3) by simp
  have s32: "unat sz < 2 ^ 32" by (rule order_less_le_trans [OF unsigned_less]) simp
  have p: "unat pos = length full" "mem_list m str (length full) = full" "\<forall>a. \<not> within str (unat sz) a \<longrightarrow> m a = m0 a"
    using assms(1) l by (auto simp: shown_def)
  have "pos = of_nat (unat pos)" by simp
  then have pos: "pos = of_nat (length full)" by (simp only: p(1))
  have u: "unat (pos + 1) = Suc (length full)" using p(1) l s32 unat_plus [of pos 1] by simp
  have "str + of_nat i \<noteq> str + pos" if "i < length full" for i
  proof
    assume "str + of_nat i = str + pos"
    then have "unat (of_nat i :: addr) = unat (of_nat (length full) :: addr)" by (simp add: pos)
    then show False using that l s32 by (simp add: unat_of_nat)
  qed
  then have "mem_list (m(str + pos := c)) str (length full) = mem_list m str (length full)"
    unfolding mem_list_def by (intro map_cong) auto
  then have "mem_list (m(str + pos := c)) str (length full) = full" by (simp only: p(2))
  moreover have "within str (unat sz) (str + pos)" using p(1) l by (simp add: within_def)
  ultimately show ?thesis using p(3) u l
    by (auto simp: shown_def put_one_def mem_list_snoc pos)
qed

lemma shown_stop:
  assumes "shown m0 str sz full (m, pos)" "0 < unat sz" "\<not> pos < sz - 1"
  shows "shown m0 str sz (full @ cs) (m, pos)"
proof -
  have "unat sz - 1 \<le> length full" using shown_room [OF assms(1,2)] assms(3) by simp
  then show ?thesis using assms(1) by (auto simp: shown_def)
qed

lemma shown_put_list:
  assumes "0 < unat sz" "shown m0 str sz full o'"
  shows "shown m0 str sz (full @ cs) (put_list str sz cs o')"
  using assms(2)
proof (induction cs arbitrary: full o')
  case (Cons c cs)
  obtain m pos where o': "o' = (m, pos)" by (cases o')
  show ?case
  proof (cases "pos < sz - 1")
    case True
    then have "shown m0 str sz (full @ [c]) (put_one str c o')" using Cons.prems assms(1) by (simp add: o' shown_put_one)
    from Cons.IH [OF this] True show ?thesis by (simp add: o')
  next
    case False
    then show ?thesis using shown_stop [of m0 str sz full m pos] Cons.prems assms(1) by (simp add: o')
  qed
qed simp

lemma put_pad_list: "put_pad str sz c n o' = put_list str sz (replicate n c) o'"
  by (induction n arbitrary: o') simp_all

lemma shown_put_num:
  assumes "0 < unat sz" "shown m0 str sz full o'"
  shows "shown m0 str sz (full @ padded (if zp then 48 else 32) w xs) (put_num str sz zp w xs o')"
  using shown_put_list [OF assms(1) shown_put_list [OF assms]] by (simp add: put_num_def padded_def put_pad_list)

text \<open>A string argument: its bytes lie outside the buffer and are those of \<open>txt\<close>.\<close>

definition outside_buf :: "addr \<Rightarrow> addr \<Rightarrow> addr \<Rightarrow> nat \<Rightarrow> bool" where
  "outside_buf str sz a n \<longleftrightarrow> (\<forall>i<n. \<not> within str (unat sz) (a + of_nat i))"

lemma outside_buf_Suc: "outside_buf str sz a (Suc n) \<longleftrightarrow> \<not> within str (unat sz) a \<and> outside_buf str sz (a + 1) n"
  by (auto simp: outside_buf_def less_Suc_eq_0_disj add.assoc)

lemma cstr_outside:
  assumes "cstr m0 a xs" "outside_buf str sz a (Suc (length xs))" "\<forall>a. \<not> within str (unat sz) a \<longrightarrow> m a = m0 a"
  shows "cstr m a xs"
  by (rule cstr_cong [OF assms(1)]) (use assms(2,3) in \<open>auto simp: outside_buf_def\<close>)

lemma shown_put_str:
  assumes "0 < unat sz" "shown m0 str sz full (m, pos)" "cstr m0 s xs" "outside_buf str sz s (Suc (length xs))"
  shows "\<exists>o'. put_str str sz s m pos = Some o' \<and> shown m0 str sz (full @ xs) o'"
  using assms(2-)
proof (induction xs arbitrary: full m pos s)
  case Nil
  then have "m s = 0" by (auto simp: shown_def outside_buf_Suc)
  then show ?case using Nil.prems(1) by (subst put_str.simps) simp
next
  case (Cons x xs)
  have ms: "m s = x" "x \<noteq> 0" using Cons.prems by (auto simp: shown_def outside_buf_Suc)
  show ?case
  proof (cases "pos < sz - 1")
    case True
    have "shown m0 str sz (full @ [x]) (m(str + pos := x), pos + 1)"
      using shown_put_one [OF Cons.prems(1) assms(1) True, of x] by (simp add: put_one_def)
    moreover have "cstr m0 (s + 1) xs" "outside_buf str sz (s + 1) (Suc (length xs))"
      using Cons.prems(2,3) outside_buf_Suc [of str sz s "Suc (length xs)"] by simp_all
    ultimately obtain o' where "put_str str sz (s + 1) (m(str + pos := x)) (pos + 1) = Some o'"
      "shown m0 str sz ((full @ [x]) @ xs) o'"
      by (blast dest: Cons.IH)
    then show ?thesis using ms True by (subst put_str.simps) simp
  next
    case False
    then show ?thesis using shown_stop [OF Cons.prems(1) assms(1) False, of "x # xs"] by (subst put_str.simps) simp
  qed
qed

lemma shown_put_string:
  assumes "0 < unat sz" "shown m0 str sz full o'" "length xs < 2 ^ 31"
    and "if s = 0 then xs = null_text else cstr m0 s xs \<and> outside_buf str sz s (Suc (length xs))"
  shows "\<exists>o''. put_string str sz w s o' = Some o'' \<and> shown m0 str sz (full @ padded 32 w xs) o''"
proof (cases "s = 0")
  case True
  then show ?thesis using assms shown_put_list [OF assms(1) shown_put_list [OF assms(1,2)]]
    by (simp add: put_string_def padded_def put_pad_list)
next
  case False
  then have s: "cstr m0 s xs" "outside_buf str sz s (Suc (length xs))" using assms(4) by simp_all
  have "cstr (fst o') s xs" by (rule cstr_outside [OF s]) (use assms(2) in \<open>auto simp: shown_def\<close>)
  then have l: "strlen (fst o') s = Some (of_nat (length xs))" by (rule strlen_cstr)
  have n: "unat (of_nat (length xs) :: addr) = length xs" using assms(3) by (simp add: unat_of_nat)
  then have n': "sint (of_nat (length xs) :: addr) = int (length xs)" using sint_small32 [of "of_nat (length xs)"] assms(3) by simp
  define r where "r = nat (sint w - int (length xs))"
  have "shown m0 str sz (full @ replicate r 32) (put_pad str sz 32 r o')"
    unfolding put_pad_list by (rule shown_put_list [OF assms(1,2)])
  moreover obtain m pos where mp: "put_pad str sz 32 r o' = (m, pos)" by force
  ultimately have "shown m0 str sz (full @ replicate r 32) (m, pos)" by simp
  from shown_put_str [OF assms(1) this s] obtain o'' where "put_str str sz s m pos = Some o''"
    "shown m0 str sz ((full @ replicate r 32) @ xs) o''" by blast
  then show ?thesis using False l mp by (simp add: put_string_def n' r_def [symmetric] padded_def)
qed

subsection \<open>The format\<close>

text \<open>The characters of a format outside the buffer.\<close>

definition src :: "cmem \<Rightarrow> addr \<Rightarrow> addr \<Rightarrow> addr \<Rightarrow> byte list \<Rightarrow> bool" where
  "src m str sz f xs \<longleftrightarrow> cstr m f xs \<and> outside_buf str sz f (Suc (length xs))"

lemma src_Cons: "src m str sz f (x # xs) \<Longrightarrow> src m str sz (f + 1) xs"
  by (simp add: src_def outside_buf_Suc)

lemma src_shown:
  assumes "src m0 str sz f xs" "shown m0 str sz full (m, pos)"
  shows "src m str sz f xs"
  using assms cstr_outside [of m0 f xs str sz m] by (simp add: src_def shown_def)

lemma skip_zeros_src:
  "src m str sz f xs \<Longrightarrow> \<exists>f'. skip_zeros m f zp = Some (f', zp \<or> dropWhile (\<lambda>c. c = 48) xs \<noteq> xs)
    \<and> src m str sz f' (dropWhile (\<lambda>c. c = 48) xs)"
proof (induction xs arbitrary: f zp)
  case Nil
  then show ?case by (subst skip_zeros.simps) (simp add: src_def)
next
  case (Cons x xs)
  have x: "m f = x" using Cons.prems by (simp add: src_def)
  show ?case
  proof (cases "x = 48")
    case True
    then obtain f' where "skip_zeros m (f + 1) True = Some (f', True)" "src m str sz f' (dropWhile (\<lambda>c. c = 48) xs)"
      using Cons.IH [OF src_Cons [OF Cons.prems], of True] by auto
    moreover have "dropWhile (\<lambda>c. c = 48) xs \<noteq> x # xs"
      by (metis length_dropWhile_le length_Cons not_less_eq_eq order_refl)
    ultimately show ?thesis using True x by (subst skip_zeros.simps) simp
  next
    case False
    then show ?thesis using x Cons.prems by (subst skip_zeros.simps) simp
  qed
qed

lemma get_width_src:
  "src m str sz f xs \<Longrightarrow> \<exists>f'. get_width m f w = Some (f', width_of w (takeWhile is_digit xs))
    \<and> src m str sz f' (dropWhile is_digit xs)"
proof (induction xs arbitrary: f w)
  case Nil
  then show ?case by (subst get_width.simps) (simp add: src_def is_digit_def)
next
  case (Cons x xs)
  have x: "m f = x" using Cons.prems by (simp add: src_def)
  show ?case
  proof (cases "is_digit x")
    case True
    then show ?thesis using Cons.IH [OF src_Cons [OF Cons.prems], of "w * 10 + (ucast x - 48)"] x
      by (subst get_width.simps) simp
  next
    case False
    then show ?thesis using x Cons.prems by (subst get_width.simps) simp
  qed
qed

lemma skip_long_src: "src m str sz f xs \<Longrightarrow> src m str sz (skip_long m f) (skip_l xs)"
  by (cases xs; cases "tl xs") (auto simp: skip_long_def src_def outside_buf_Suc add.assoc)

lemma conversion_shown:
  assumes "0 < unat sz" "shown m0 str sz full (m, pos)" "pos < sz - 1" "convert txt zp w c ap = Some (ys, ap')"
    and "\<And>a xs. txt a = Some xs \<Longrightarrow> src m0 str sz a xs \<and> length xs < 2 ^ 31"
  shows "\<exists>o'. conversion str sz zp w c ap (m, pos) = Some (o', ap') \<and> shown m0 str sz (full @ ys) o'"
proof -
  note num = shown_put_num [OF assms(1,2)] and one = shown_put_one [OF assms(2,1,3)]
  show ?thesis
  proof (cases "c \<in> {100, 105, 117, 120, 88, 115, 99}")
    case False
    then have "ys = [c]" "ap' = ap" "c \<noteq> 112" using assms(4) by (auto simp: convert_def Let_def split: if_splits)
    then show ?thesis using False one [of c] by (simp add: conversion_def)
  next
    case True
    then obtain a where a: "ap = a # ap'" using assms(4)
      by (cases ap) (auto simp: convert_def Let_def split: if_splits)
    show ?thesis
    proof (cases "c = 115")
      case s: True
      then obtain xs where xs: "(if a = 0 then Some null_text else txt a) = Some xs" "ys = padded 32 w xs"
        using assms(4) by (auto simp: convert_def Let_def a split: if_splits)
      have "length xs < 2 ^ 31" "if a = 0 then xs = null_text else cstr m0 a xs \<and> outside_buf str sz a (Suc (length xs))"
        using xs(1) assms(5) by (auto simp: src_def null_text_def split: if_splits)
      from shown_put_string [OF assms(1,2) this, of w] show ?thesis
        using s a xs(2) by (auto simp: conversion_def)
    next
      case ns: False
      let ?n = "print_num a (if c \<in> {120, 88} then 16 else 10) (c \<in> {100, 105})"
      let ?o = "if c = 99 then put_one str (ucast a) (m, pos) else put_num str sz zp w ?n (m, pos)"
      have "conversion str sz zp w c ap (m, pos) = Some (?o, ap')" using True ns by (auto simp: conversion_def a)
      moreover have "ys = (if c = 99 then [ucast a] else padded (if zp then 48 else 32) w ?n)"
        using assms(4) True ns by (auto simp: convert_def Let_def a split: if_splits)
      then have "shown m0 str sz (full @ ys) ?o" using num [of zp w ?n] one [of "ucast a"] by (cases "c = 99") simp_all
      ultimately show ?thesis by blast
    qed
  qed
qed

lemma format_loop_shown:
  assumes "0 < unat sz" "\<And>a xs. txt a = Some xs \<Longrightarrow> src m0 str sz a xs \<and> length xs < 2 ^ 31"
  shows "formatted txt xs ap = Some ys \<Longrightarrow> shown m0 str sz full (m, pos) \<Longrightarrow> src m0 str sz fmt xs \<Longrightarrow>
    \<exists>o'. format_loop str sz fmt ap (m, pos) = Some o' \<and> shown m0 str sz (full @ ys) o'"
proof (induction "length xs" arbitrary: xs ap ys full m pos fmt rule: less_induct)
  case less
  note sm = src_shown [OF less.prems(3,2)]
  show ?case
  proof (cases xs)
    case Nil
    then have "ys = []" using less.prems(1) by (simp add: formatted.simps)
    then show ?thesis using less.prems(2) sm Nil by (subst format_loop.simps) (simp add: src_def)
  next
    case (Cons x xs')
    have m: "m fmt = x" "x \<noteq> 0" using sm by (simp_all add: Cons src_def)
    show ?thesis
    proof (cases "pos < sz - 1")
      case False
      then show ?thesis using shown_stop [OF less.prems(2) assms(1), of ys]
        by (subst format_loop.simps) (simp add: Let_def)
    next
      case room: True
      show ?thesis
      proof (cases "x = 37")
        case False
        then obtain ys' where ys: "formatted txt xs' ap = Some ys'" "ys = x # ys'"
          using less.prems(1) by (subst (asm) formatted.simps) (auto simp: Cons)
        obtain m' pos' where o': "put_one str x (m, pos) = (m', pos')" by force
        have "shown m0 str sz (full @ [x]) (m', pos')" using shown_put_one [OF less.prems(2) assms(1) room, of x] o' by simp
        with less.hyps [OF _ ys(1) this, of "fmt + 1"] src_Cons less.prems(3) Cons
        obtain o'' where "format_loop str sz (fmt + 1) ap (m', pos') = Some o''" "shown m0 str sz ((full @ [x]) @ ys') o''"
          by auto
        then show ?thesis using False m room o' ys(2) by (subst format_loop.simps) (simp add: Let_def)
      next
        case True
        let ?zs = "dropWhile (\<lambda>c. c = 48) xs'"
        let ?ws = "dropWhile is_digit ?zs" and ?w = "width_of 0 (takeWhile is_digit ?zs)"
        obtain c ls where ls: "skip_l ?ws = c # ls"
          using less.prems(1) True by (subst (asm) formatted.simps) (auto simp: Cons Let_def split: list.splits)
        then obtain zs' ap' ys' where cv: "convert txt (?zs \<noteq> xs') ?w c ap = Some (zs', ap')"
          "formatted txt ls ap' = Some ys'" "ys = zs' @ ys'"
          using less.prems(1) True by (subst (asm) formatted.simps) (auto simp: Cons Let_def split: option.splits)
        obtain f1 where f1: "skip_zeros m (fmt + 1) False = Some (f1, ?zs \<noteq> xs')" "src m str sz f1 ?zs"
          using skip_zeros_src [OF src_Cons, of m str sz fmt x xs' False] sm Cons by auto
        obtain f2 where f2: "get_width m f1 0 = Some (f2, ?w)" "src m str sz f2 ?ws"
          using get_width_src [OF f1(2), of 0] by auto
        let ?f = "skip_long m f2"
        have f3: "src m str sz ?f (c # ls)" using skip_long_src [OF f2(2)] ls by simp
        then have mf: "m ?f = c" by (simp add: src_def)
        obtain m' pos' where o': "conversion str sz (?zs \<noteq> xs') ?w c ap (m, pos) = Some ((m', pos'), ap')"
          "shown m0 str sz (full @ zs') (m', pos')"
          using conversion_shown [OF assms(1) less.prems(2) room cv(1) assms(2)] by auto
        have "src m0 str sz (?f + 1) ls"
        proof -
          have "src m str sz (?f + 1) ls" by (rule src_Cons [OF f3])
          moreover have "\<forall>a. \<not> within str (unat sz) a \<longrightarrow> m0 a = m a" using less.prems(2) by (simp add: shown_def)
          ultimately show ?thesis using cstr_outside [of m "?f + 1" ls str sz m0] by (simp add: src_def)
        qed
        moreover have "length ls < length xs"
        proof -
          have "Suc (length ls) \<le> length ?ws" using length_skip_l [of ?ws] ls by simp
          also have "\<dots> \<le> length xs'" by (meson length_dropWhile_le order_trans)
          finally show ?thesis by (simp add: Cons)
        qed
        ultimately obtain o'' where "format_loop str sz (?f + 1) ap' (m', pos') = Some o''"
          "shown m0 str sz ((full @ zs') @ ys') o''"
          using less.hyps [OF _ cv(2) o'(2)] by blast
        then show ?thesis using m True room f1(1) f2(1) mf o'(1) cv(3)
          by (subst format_loop.simps) (simp add: Let_def)
      qed
    qed
  qed
qed

subsection \<open>Printing a number and reading it back\<close>

lemma width_of_append: "width_of w (xs @ ys) = width_of (width_of w xs) ys"
  by (induction w xs rule: width_of.induct) simp_all

lemma digit_char_10:
  assumes "0 \<le> d" "d < 10"
  shows "is_digit (digit_char d)" "(ucast (digit_char d) :: int32_t) - 48 = of_int d"
proof -
  have "d = 0 \<or> d = 1 \<or> d = 2 \<or> d = 3 \<or> d = 4 \<or> d = 5 \<or> d = 6 \<or> d = 7 \<or> d = 8 \<or> d = 9"
    using assms by presburger
  then show "is_digit (digit_char d)" "(ucast (digit_char d) :: int32_t) - 48 = of_int d"
    by (auto simp: digit_char_def is_digit_def)
qed

lemma digits_rev_10:
  assumes "0 \<le> n"
  shows "width_of 0 (rev (digits_rev 10 n)) = of_int n" "\<forall>c \<in> set (digits_rev 10 n). is_digit c"
    "n < 10 ^ l \<Longrightarrow> length (digits_rev 10 n) \<le> l"
proof -
  have "width_of 0 (rev (digits_rev b n)) = of_int n \<and> (\<forall>c \<in> set (digits_rev b n). is_digit c)
      \<and> (\<forall>l. n < 10 ^ l \<longrightarrow> length (digits_rev b n) \<le> l)" if "b = 10" for b
    using assms that
  proof (induction b n rule: digits_rev.induct)
    case (1 b n)
    show ?case
    proof (cases "n = 0")
      case True
      then show ?thesis by (simp add: digits_rev.simps)
    next
      case False
      let ?ds = "digits_rev 10 (n div 10)"
      have d: "digits_rev b n = digit_char (n mod 10) # ?ds"
        using False 1(2,3) by (subst digits_rev.simps) simp
      have ih: "width_of 0 (rev ?ds) = of_int (n div 10)" "\<forall>c \<in> set ?ds. is_digit c"
        "\<forall>l. n div 10 < 10 ^ l \<longrightarrow> length ?ds \<le> l"
        using 1 False by auto
      have c: "is_digit (digit_char (n mod 10))" "(ucast (digit_char (n mod 10)) :: int32_t) - 48 = of_int (n mod 10)"
        by (rule digit_char_10; simp)+
      have "(of_int (n div 10) :: int32_t) * 10 + of_int (n mod 10) = of_int (n div 10 * 10 + n mod 10)"
        by (simp only: of_int_add of_int_mult of_int_numeral)
      then have "width_of 0 (rev (digits_rev b n)) = of_int n"
        by (simp add: d width_of_append ih(1) c(2))
      moreover have "length (digits_rev b n) \<le> l" if "n < 10 ^ l" for l
      proof (cases l)
        case 0
        then show ?thesis using that False 1(2) by simp
      next
        case (Suc k)
        then have "n div 10 < 10 ^ k" using that by (simp add: div_less_iff_less_mult)
        then show ?thesis using ih(3) Suc by (simp add: d)
      qed
      ultimately show ?thesis using ih(2) c(1) by (simp add: d)
    qed
  qed
  then show "width_of 0 (rev (digits_rev 10 n)) = of_int n" "\<forall>c \<in> set (digits_rev 10 n). is_digit c"
    "n < 10 ^ l \<Longrightarrow> length (digits_rev 10 n) \<le> l" by auto
qed

lemma digits_value_cstr:
  "cstr m p cs \<Longrightarrow> \<forall>c \<in> set cs. is_digit c \<Longrightarrow> digits_value m p r = Some (width_of r cs)"
proof (induction cs arbitrary: p r)
  case Nil
  then show ?case by (subst digits_value.simps) (simp add: is_digit_def)
next
  case (Cons c cs)
  then have "digits_value m (p + 1) (r * 10 + (ucast c - 48)) = Some (width_of (r * 10 + (ucast c - 48)) cs)" by simp
  with Cons.prems show ?case by (subst digits_value.simps) auto
qed

text \<open>The characters of a number: an optional sign before digits that stand for its magnitude.\<close>

lemma sint_of_int32: "- (2 ^ 31) \<le> x \<Longrightarrow> x < 2 ^ 31 \<Longrightarrow> sint (of_int x :: int32_t) = x"
  by (simp add: signed_of_int signed_take_bit_int_eq_self)

lemma print_num_10:
  assumes "sint n \<noteq> - (2 ^ 31)"
  shows "\<exists>ds. print_num n 10 True = (if sint n < 0 then [45] else []) @ ds \<and> ds \<noteq> [] \<and> (\<forall>c \<in> set ds. is_digit c)
    \<and> length ds \<le> 10 \<and> width_of 0 ds = (if sint n < 0 then - n else n)"
proof -
  define k where "k = (if sint n < 0 then - n else n)"
  have r: "- (2 ^ 31) \<le> sint n" "sint n < 2 ^ 31" using sint_greater_eq [of n] sint_less [of n] by simp_all
  have k: "sint k = \<bar>sint n\<bar>"
  proof (cases "sint n < 0")
    case True
    then have "sint (of_int (- sint n) :: int32_t) = - sint n" using r assms by (intro sint_of_int32) auto
    then show ?thesis using True by (simp add: k_def)
  qed (simp add: k_def)
  then have "0 \<le> sint k" "sint k < 10 ^ 10" using r by simp_all
  note d = digits_rev_10 [OF this(1)] and l = digits_rev_10(3) [OF this]
  have "k = of_int (sint k)" by simp
  then have "k = 0 \<longleftrightarrow> sint k = 0" by (metis of_int_0 signed_0)
  define ds where "ds = rev (if k = 0 then [48] else digits_rev 10 (sint k))"
  have "print_num n 10 True = (if sint n < 0 then [45] else []) @ ds"
    by (simp add: print_num_def Let_def ds_def k_def)
  moreover have "digits_rev 10 (sint k) \<noteq> []" if "k \<noteq> 0"
    using that \<open>0 \<le> sint k\<close> \<open>k = 0 \<longleftrightarrow> sint k = 0\<close> by (subst digits_rev.simps) auto
  then have "ds \<noteq> [] \<and> (\<forall>c \<in> set ds. is_digit c) \<and> length ds \<le> 10 \<and> width_of 0 ds = k"
    using d(1,2) l by (auto simp: ds_def is_digit_def)
  ultimately show ?thesis unfolding k_def by blast
qed

lemma atoi_cstr:
  assumes "cstr m p ((if neg then [45] else []) @ ds)" "ds \<noteq> []" "\<forall>c \<in> set ds. is_digit c"
  shows "atoi m p = Some (if neg then - width_of 0 ds else width_of 0 ds)"
proof -
  obtain d ds' where ds: "ds = d # ds'" using assms(2) by (cases ds) auto
  then have d: "is_digit d" "d \<noteq> 45 \<and> d \<noteq> 43 \<and> d \<noteq> 32 \<and> d \<noteq> 9 \<and> d \<noteq> 10" using assms(3) by (auto simp: is_digit_def)
  show ?thesis
  proof (cases neg)
    case True
    then have "cstr m (p + 1) ds" "m p = 45" using assms(1) by simp_all
    moreover have "skip_blanks m p = Some p" using \<open>m p = 45\<close> by (subst skip_blanks.simps) simp
    ultimately show ?thesis using True digits_value_cstr [of m "p + 1" ds 0] assms(3) by (simp add: atoi_def)
  next
    case False
    then have c: "cstr m p ds" "m p = d" using assms(1) by (simp_all add: ds)
    moreover have "skip_blanks m p = Some p" using c(2) d(2) by (subst skip_blanks.simps) simp
    ultimately show ?thesis using False digits_value_cstr [OF c(1) assms(3), of 0] d(2) by (simp add: atoi_def)
  qed
qed

subsection \<open>Properties\<close>

text \<open>C32: \<^verbatim>\<open>vsnprintf\<close> writes the output of its format cut off at \<open>size - 1\<close> characters: for
  a format with complete conversions other than \<^verbatim>\<open>%p\<close>, arguments for each of them and string
  arguments outside the buffer, it returns, the buffer holds the first \<open>size - 1\<close> characters of
  the output and a zero byte, the value is their number, and no byte outside the buffer changes.\<close>

theorem vsnprintf_truncates:
  assumes "0 < unat sz" "src m str sz fmt xs" "formatted txt xs ap = Some ys"
    and "\<And>a zs. txt a = Some zs \<Longrightarrow> src m str sz a zs \<and> length zs < 2 ^ 31"
  shows "\<exists>r m'. vsnprintf str sz fmt ap m = Some (r, m') \<and> unat r = min (length ys) (unat sz - 1)
    \<and> mem_list m' str (unat r) = take (unat sz - 1) ys \<and> m' (str + r) = 0
    \<and> (\<forall>a. within str (unat sz) a \<or> m' a = m a)"
proof -
  have "shown m str sz [] (m, 0)" by (simp add: shown_def mem_list_def)
  from format_loop_shown [OF assms(1,4,3) this assms(2)]
  obtain m1 pos where o': "format_loop str sz fmt ap (m, 0) = Some (m1, pos)" "shown m str sz ys (m1, pos)" by auto
  let ?m = "m1(str + pos := 0)"
  have p: "unat pos = min (length ys) (unat sz - 1)" "mem_list m1 str (unat pos) = take (unat sz - 1) ys"
    "\<forall>a. within str (unat sz) a \<or> m1 a = m a" using o'(2) by (auto simp: shown_def)
  have s: "unat pos < unat sz" using p(1) assms(1) by linarith
  then have w: "within str (unat sz) (str + pos)" by (simp add: within_def)
  have "of_nat i \<noteq> pos" if "i < unat pos" for i
  proof
    assume "of_nat i = pos"
    then have "unat (of_nat i :: addr) = unat pos" by simp
    then show False using that unsigned_less [of pos] by (simp add: unat_of_nat)
  qed
  then have "mem_list ?m str (unat pos) = mem_list m1 str (unat pos)"
    unfolding mem_list_def by (intro map_cong) auto
  with p(2) have "mem_list ?m str (unat pos) = take (unat sz - 1) ys" by (simp only:)
  moreover have "vsnprintf str sz fmt ap m = Some (pos, ?m)" using o'(1) by (simp add: vsnprintf_def)
  ultimately show ?thesis using p(1,3) w by (intro exI [of _ pos] exI [of _ ?m]) auto
qed

text \<open>C33: What \<^verbatim>\<open>snprintf\<close> prints with \<^verbatim>\<open>%d\<close> is read back by \<^verbatim>\<open>atoi\<close>: for every number
  but the smallest one and a buffer of at least 12 bytes, \<^verbatim>\<open>atoi\<close> of the buffer is the
  number.\<close>

theorem snprintf_atoi:
  assumes "12 \<le> unat sz" "src m str sz fmt [37, 100]" "sint n \<noteq> - (2 ^ 31)"
  shows "\<exists>r m'. snprintf str sz fmt [n] m = Some (r, m') \<and> atoi m' str = Some n"
proof -
  obtain ds where ds: "print_num n 10 True = (if sint n < 0 then [45] else []) @ ds" "ds \<noteq> []"
    "\<forall>c \<in> set ds. is_digit c" "length ds \<le> 10" "width_of 0 ds = (if sint n < 0 then - n else n)"
    using print_num_10 [OF assms(3)] by blast
  let ?ys = "(if sint n < 0 then [45] else []) @ ds"
  have "formatted (\<lambda>_. None) [] [] = Some []" by (simp add: formatted.simps)
  then have f: "formatted (\<lambda>_. None) [37, 100] [n] = Some ?ys"
    by (subst formatted.simps) (simp add: Let_def is_digit_def convert_def padded_def ds(1))
  obtain r m' where r: "vsnprintf str sz fmt [n] m = Some (r, m')" "unat r = min (length ?ys) (unat sz - 1)"
    "mem_list m' str (unat r) = take (unat sz - 1) ?ys" "m' (str + r) = 0"
    using vsnprintf_truncates [OF _ assms(2) f] assms(1) by auto
  have l: "length ?ys \<le> unat sz - 1" using ds(4) assms(1) by auto
  then have u: "unat r = length ?ys" using r(2) by simp
  have "r = of_nat (unat r)" by simp
  then have rr: "r = of_nat (length ?ys)" by (simp only: u)
  have "0 \<notin> set ?ys" using ds(3) by (auto simp: is_digit_def)
  moreover have "take (unat sz - 1) ?ys = ?ys" using l by (rule take_all)
  ultimately have "cstr m' str ?ys" unfolding cstr_bytes using r(3,4) [unfolded rr] r(3) [unfolded u] by (simp only: simp_thms)
  then show ?thesis using atoi_cstr [OF _ ds(2,3), of m' str "sint n < 0"] r(1) ds(5)
    by (auto simp: snprintf_def)
qed

lemma outside_bufI:
  assumes "unat a + n \<le> unat str" "unat str + unat sz \<le> 2 ^ 32"
  shows "outside_buf str sz a n"
  unfolding outside_buf_def using assms not_within [of a n str "unat sz"] by simp

text \<open>The format \<^verbatim>\<open>a%5d\<close> at 100, and \<^verbatim>\<open>%d\<close> at 110.\<close>

definition format_mem :: cmem where
  "format_mem = (\<lambda>_. 0)(100 := 97, 101 := 37, 102 := 53, 103 := 100, 110 := 37, 111 := 100)"

lemma format_mem_src: "src format_mem 200 5 100 [97, 37, 53, 100]" "src format_mem 200 12 110 [37, 100]"
  by (simp_all add: src_def format_mem_def outside_bufI)

theorem vsnprintf_truncates_witness:
  "\<exists>r m'. vsnprintf 200 5 100 [42] format_mem = Some (r, m') \<and> mem_list m' 200 (unat r) = [97, 32, 32, 32]"
proof -
  have "formatted (\<lambda>_. None) [97, 37, 53, 100] [42] = Some [97, 32, 32, 32, 52, 50]" by code_simp
  from vsnprintf_truncates [OF _ format_mem_src(1) this] show ?thesis by auto
qed

theorem snprintf_atoi_witness:
  "\<exists>r m'. snprintf 200 12 110 [- 37] format_mem = Some (r, m') \<and> atoi m' 200 = Some (- 37)"
  by (rule snprintf_atoi [OF _ format_mem_src(2)]) simp_all

text \<open>The exceptions: the smallest number prints as a lone sign, an unsigned number with its highest
  bit set prints as nothing, and \<^verbatim>\<open>%p\<close> into a buffer of two bytes writes three.\<close>

lemma print_num_exceptions:
  "print_num 0x80000000 10 True = [45]" "print_num 0xFFFFFFFF 10 False = []" "print_num 0x80000000 16 False = []"
  by code_simp+

lemma percent_p_overflow:
  assumes "m fmt = 37" "m (fmt + 1) = 112"
  shows "vsnprintf str 2 fmt [a] m = Some (2, m(str := 48, str + 1 := 120, str + 2 := 0))"
proof -
  have "skip_zeros m (fmt + 1) False = Some (fmt + 1, False)" "get_width m (fmt + 1) 0 = Some (fmt + 1, 0)"
    using assms(2) by (subst skip_zeros.simps get_width.simps; simp add: is_digit_def)+
  moreover have "put_list str 2 cs (m', 2) = (m', 2)" for cs m' by (cases cs) auto
  then have "conversion str 2 False 0 112 [a] (m, 0) = Some ((m(str := 48, str + 1 := 120), 2), [])"
    by (simp add: conversion_def put_one_def)
  moreover have "format_loop str 2 f ap (m', 2) = Some (m', 2)" for f ap m'
    by (subst format_loop.simps) (simp add: Let_def)
  ultimately have "format_loop str 2 fmt [a] (m, 0) = Some (m(str := 48, str + 1 := 120), 2)"
    using assms by (subst format_loop.simps) (simp add: Let_def skip_long_def)
  then show ?thesis by (simp add: vsnprintf_def)
qed

end
