(* ===== verification/Libc_Stdio.thy ===== *)
theory Libc_Stdio
  imports Libc_Printf
begin

text \<open>
  The streams of \<^verbatim>\<open>userland/Libraries/libc/src/stdio.c\<close>.  The system calls are the five
  functions of a record \<open>calls\<close> on a world of the caller's choice: \<^verbatim>\<open>read\<close> gives the value
  of the call and the bytes it stored.  A stream is an index into the list of all streams, the
  twenty of \<^verbatim>\<open>file_table\<close> followed by \<^verbatim>\<open>stdin\<close>, \<^verbatim>\<open>stdout\<close> and \<^verbatim>\<open>stderr\<close>; \<open>None\<close> is the
  null pointer.  Strings are in the memory of the process.
\<close>

record 'w calls =
  c_read :: "int \<Rightarrow> nat \<Rightarrow> 'w \<Rightarrow> int \<times> byte list \<times> 'w"
  c_write :: "int \<Rightarrow> byte list \<Rightarrow> 'w \<Rightarrow> int \<times> 'w"
  c_open :: "addr \<Rightarrow> int32_t \<Rightarrow> 'w \<Rightarrow> int \<times> 'w"
  c_close :: "int \<Rightarrow> 'w \<Rightarrow> int \<times> 'w"
  c_lseek :: "int \<Rightarrow> int \<Rightarrow> int \<Rightarrow> 'w \<Rightarrow> int \<times> 'w"

record stream =
  s_fd :: int
  s_flags :: int32_t
  ungetc_char :: int
  has_ungetc :: bool
  s_buffer :: "byte list"
  buf_pos :: int
  buf_len :: int

record 'w stdio =
  streams :: "stream list"
  world :: 'w

abbreviation (input) FOPEN_MAX :: nat where "FOPEN_MAX \<equiv> 20"
abbreviation (input) BUFSIZ :: nat where "BUFSIZ \<equiv> 1024"
abbreviation (input) FILE_READ :: int32_t where "FILE_READ \<equiv> 1"
abbreviation (input) FILE_WRITE :: int32_t where "FILE_WRITE \<equiv> 2"
abbreviation (input) FILE_EOF :: int32_t where "FILE_EOF \<equiv> 4"
abbreviation (input) FILE_ERR :: int32_t where "FILE_ERR \<equiv> 8"
abbreviation (input) FILE_UNBUF :: int32_t where "FILE_UNBUF \<equiv> 0x10"
abbreviation (input) p_stdin :: nat where "p_stdin \<equiv> 20"
abbreviation (input) p_stdout :: nat where "p_stdout \<equiv> 21"

definition upd_stream :: "nat \<Rightarrow> (stream \<Rightarrow> stream) \<Rightarrow> 'w stdio \<Rightarrow> 'w stdio" where
  "upd_stream i f s = s\<lparr>streams := (streams s)[i := f (streams s ! i)]\<rparr>"

definition std_stream :: "int \<Rightarrow> int32_t \<Rightarrow> stream" where
  "std_stream fd fl = \<lparr>s_fd = fd, s_flags = fl, ungetc_char = - 1, has_ungetc = False,
     s_buffer = replicate BUFSIZ 0, buf_pos = 0, buf_len = 0\<rparr>"

text \<open>The initial contents, where \<^verbatim>\<open>file_table\<close> is zero.\<close>

definition streams0 :: "stream list" where
  "streams0 = replicate FOPEN_MAX (std_stream 0 0\<lparr>ungetc_char := 0\<rparr>)
     @ [std_stream 0 FILE_READ, std_stream 1 (FILE_WRITE OR FILE_UNBUF), std_stream 2 (FILE_WRITE OR FILE_UNBUF)]"

definition stdio_init :: "'w stdio \<Rightarrow> 'w stdio" where
  "stdio_init s = fold (\<lambda>i. upd_stream i (\<lambda>f. f\<lparr>s_fd := - 1\<rparr>)) [0..<FOPEN_MAX] s"

subsection \<open>Flushing, opening and closing\<close>

definition fflush :: "'w calls \<Rightarrow> nat option \<Rightarrow> 'w stdio \<Rightarrow> int \<times> 'w stdio" where
  "fflush c p s =
     (case p of None \<Rightarrow> (0, s)
      | Some i \<Rightarrow>
          (let f = streams s ! i
           in if hasf (s_flags f) FILE_WRITE \<and> 0 < buf_len f then
                (case c_write c (s_fd f) (take (nat (buf_len f)) (s_buffer f)) (world s) of (written, w) \<Rightarrow>
                   let s = s\<lparr>world := w\<rparr>
                   in if written < 0 then (- 1, s) else (0, upd_stream i (\<lambda>f. f\<lparr>buf_len := 0, buf_pos := 0\<rparr>) s))
              else (0, s)))"

text \<open>The flags for \<^verbatim>\<open>open\<close> from the mode string at \<open>mode\<close>.\<close>

definition open_flags :: "cmem \<Rightarrow> addr \<Rightarrow> int32_t option" where
  "open_flags m mode =
     map_option (\<lambda>fl. if m (mode + 1) = 43 \<or> m (mode + 1) \<noteq> 0 \<and> m (mode + 2) = 43 then (fl AND NOT 3) OR 2 else fl)
       (if m mode = 114 then Some 0 else if m mode = 119 then Some 0x201
        else if m mode = 97 then Some 0x401 else None)"

definition fopen :: "'w calls \<Rightarrow> cmem \<Rightarrow> addr \<Rightarrow> addr \<Rightarrow> 'w stdio \<Rightarrow> nat option \<times> 'w stdio" where
  "fopen c m pathname mode s =
     (case open_flags m mode of None \<Rightarrow> (None, s)
      | Some fl \<Rightarrow>
          (case c_open c pathname fl (world s) of (fd, w) \<Rightarrow>
             let s = s\<lparr>world := w\<rparr>
             in if fd < 0 then (None, s)
                else (case find (\<lambda>i. s_fd (streams s ! i) < 0) [0..<FOPEN_MAX] of
                    Some i \<Rightarrow> (Some i, upd_stream i (\<lambda>f. f\<lparr>s_fd := fd,
                      s_flags := (if m mode = 114 then FILE_READ else FILE_WRITE),
                      has_ungetc := False, buf_pos := 0, buf_len := 0\<rparr>) s)
                  | None \<Rightarrow> (case c_close c fd (world s) of (r, w) \<Rightarrow> (None, s\<lparr>world := w\<rparr>)))))"

definition fclose :: "'w calls \<Rightarrow> nat option \<Rightarrow> 'w stdio \<Rightarrow> int \<times> 'w stdio" where
  "fclose c p s =
     (case p of None \<Rightarrow> (- 1, s)
      | Some i \<Rightarrow>
          if s_fd (streams s ! i) < 0 then (- 1, s)
          else
            (let s = snd (fflush c p s)
             in case c_close c (s_fd (streams s ! i)) (world s) of (r, w) \<Rightarrow>
                  (if r < 0 then - 1 else 0, upd_stream i (\<lambda>f. f\<lparr>s_fd := - 1\<rparr>) (s\<lparr>world := w\<rparr>))))"

subsection \<open>Characters\<close>

text \<open>The character at \<^verbatim>\<open>buf_pos\<close>.\<close>

definition next_char :: "nat \<Rightarrow> 'w stdio \<Rightarrow> int \<times> 'w stdio" where
  "next_char i s =
     (let f = streams s ! i
      in (int (unat (s_buffer f ! nat (buf_pos f))), upd_stream i (\<lambda>f. f\<lparr>buf_pos := buf_pos f + 1\<rparr>) s))"

definition refill :: "'w calls \<Rightarrow> nat \<Rightarrow> 'w stdio \<Rightarrow> 'w stdio" where
  "refill c i s =
     (case c_read c (s_fd (streams s ! i)) BUFSIZ (world s) of (n, bs, w) \<Rightarrow>
        upd_stream i (\<lambda>f. f\<lparr>buf_len := n, s_buffer := bs @ drop (length bs) (s_buffer f)\<rparr>) (s\<lparr>world := w\<rparr>))"

definition fgetc :: "'w calls \<Rightarrow> nat option \<Rightarrow> 'w stdio \<Rightarrow> int \<times> 'w stdio" where
  "fgetc c p s =
     (case p of None \<Rightarrow> (- 1, s)
      | Some i \<Rightarrow>
          (let f = streams s ! i
           in if \<not> hasf (s_flags f) FILE_READ then (- 1, s)
              else if has_ungetc f then (ungetc_char f, upd_stream i (\<lambda>f. f\<lparr>has_ungetc := False\<rparr>) s)
              else if buf_len f \<le> buf_pos f then
                (let s = refill c i s; n = buf_len (streams s ! i)
                 in if n \<le> 0 then
                      (- 1, upd_stream i (\<lambda>f. f\<lparr>s_flags := s_flags f OR (if n = 0 then FILE_EOF else FILE_ERR)\<rparr>) s)
                    else next_char i (upd_stream i (\<lambda>f. f\<lparr>buf_pos := 0\<rparr>) s))
              else next_char i s))"

definition fputc :: "'w calls \<Rightarrow> int \<Rightarrow> nat option \<Rightarrow> 'w stdio \<Rightarrow> int \<times> 'w stdio" where
  "fputc c ch p s =
     (case p of None \<Rightarrow> (- 1, s)
      | Some i \<Rightarrow>
          (let f = streams s ! i
           in if \<not> hasf (s_flags f) FILE_WRITE then (- 1, s)
              else if hasf (s_flags f) FILE_UNBUF then
                (case c_write c (s_fd f) [of_int ch] (world s) of (n, w) \<Rightarrow> (if n = 1 then ch else - 1, s\<lparr>world := w\<rparr>))
              else
                (let s = upd_stream i (\<lambda>f. f\<lparr>s_buffer := (s_buffer f)[nat (buf_len f) := of_int ch], buf_len := buf_len f + 1\<rparr>) s
                 in if int BUFSIZ \<le> buf_len (streams s ! i) \<or> ch = 10 then
                      (case fflush c p s of (r, s) \<Rightarrow> (if r = - 1 then - 1 else ch, s))
                    else (ch, s))))"

definition ungetc :: "int \<Rightarrow> nat option \<Rightarrow> 'w stdio \<Rightarrow> int \<times> 'w stdio" where
  "ungetc ch p s =
     (case p of None \<Rightarrow> (- 1, s)
      | Some i \<Rightarrow>
          if ch = - 1 \<or> has_ungetc (streams s ! i) then (- 1, s)
          else (ch, upd_stream i (\<lambda>f. f\<lparr>ungetc_char := ch, has_ungetc := True, s_flags := s_flags f AND NOT FILE_EOF\<rparr>) s))"

definition putchar :: "'w calls \<Rightarrow> int \<Rightarrow> 'w stdio \<Rightarrow> int \<times> 'w stdio" where
  "putchar c ch = fputc c ch (Some p_stdout)"

definition getchar :: "'w calls \<Rightarrow> 'w stdio \<Rightarrow> int \<times> 'w stdio" where
  "getchar c = fgetc c (Some p_stdin)"

subsection \<open>Lines and blocks\<close>

text \<open>The characters \<^verbatim>\<open>fgets\<close> stores before the terminator, in at most \<open>n\<close> rounds.\<close>

primrec fgets_loop :: "nat \<Rightarrow> 'w calls \<Rightarrow> nat option \<Rightarrow> 'w stdio \<Rightarrow> byte list \<times> 'w stdio" where
  "fgets_loop 0 c p s = ([], s)"
| "fgets_loop (Suc n) c p s =
     (case fgetc c p s of (ch, s) \<Rightarrow>
        if ch = - 1 then ([], s)
        else if ch = 10 then ([of_int ch], s)
        else (case fgets_loop n c p s of (cs, s) \<Rightarrow> (of_int ch # cs, s)))"

text \<open>The memory with a list of bytes at an address.\<close>

primrec store_list :: "addr \<Rightarrow> byte list \<Rightarrow> cmem \<Rightarrow> cmem" where
  "store_list a [] m = m"
| "store_list a (x # xs) m = store_list (a + 1) xs (m(a := x))"

definition fgets :: "'w calls \<Rightarrow> addr \<Rightarrow> int \<Rightarrow> nat option \<Rightarrow> cmem \<Rightarrow> 'w stdio \<Rightarrow> addr \<times> cmem \<times> 'w stdio" where
  "fgets c a sz p m s =
     (if a = 0 \<or> sz \<le> 0 \<or> p = None then (0, m, s)
      else (case fgets_loop (nat (sz - 1)) c p s of (cs, s) \<Rightarrow>
        if cs = [] \<and> 1 < sz then (0, m, s) else (a, store_list a (cs @ [0]) m, s)))"

partial_function (option) fputs :: "'w calls \<Rightarrow> cmem \<Rightarrow> addr \<Rightarrow> nat option \<Rightarrow> 'w stdio \<Rightarrow> (int \<times> 'w stdio) option" where
  "fputs c m a p s =
     (if m a = 0 then Some (0, s)
      else (case fputc c (sint (m a)) p s of (r, s) \<Rightarrow> if r = - 1 then Some (- 1, s) else fputs c m (a + 1) p s))"

primrec fread_loop :: "nat \<Rightarrow> 'w calls \<Rightarrow> nat option \<Rightarrow> 'w stdio \<Rightarrow> byte list \<times> 'w stdio" where
  "fread_loop 0 c p s = ([], s)"
| "fread_loop (Suc n) c p s =
     (case fgetc c p s of (ch, s) \<Rightarrow>
        if ch = - 1 then ([], s) else (case fread_loop n c p s of (cs, s) \<Rightarrow> (of_int ch # cs, s)))"

text \<open>The division by a size of 0 is a fault of the processor: \<open>None\<close>.\<close>

definition fread :: "'w calls \<Rightarrow> addr \<Rightarrow> addr \<Rightarrow> addr \<Rightarrow> nat option \<Rightarrow> cmem \<Rightarrow> 'w stdio \<Rightarrow> (nat \<times> cmem \<times> 'w stdio) option" where
  "fread c ptr sz nmemb p m s =
     (case fread_loop (unat (sz * nmemb)) c p s of (cs, s) \<Rightarrow>
        if sz = 0 then None else Some (length cs div unat sz, store_list ptr cs m, s))"

primrec fwrite_loop :: "byte list \<Rightarrow> 'w calls \<Rightarrow> nat option \<Rightarrow> 'w stdio \<Rightarrow> nat \<times> 'w stdio" where
  "fwrite_loop [] c p s = (0, s)"
| "fwrite_loop (x # xs) c p s =
     (case fputc c (sint x) p s of (r, s) \<Rightarrow>
        if r = - 1 then (0, s) else (case fwrite_loop xs c p s of (n, s) \<Rightarrow> (Suc n, s)))"

definition fwrite :: "'w calls \<Rightarrow> addr \<Rightarrow> addr \<Rightarrow> addr \<Rightarrow> nat option \<Rightarrow> cmem \<Rightarrow> 'w stdio \<Rightarrow> (nat \<times> 'w stdio) option" where
  "fwrite c ptr sz nmemb p m s =
     (case fwrite_loop (mem_list m ptr (unat (sz * nmemb))) c p s of (n, s) \<Rightarrow>
        if sz = 0 then None else Some (n div unat sz, s))"

subsection \<open>Positions and states\<close>

definition fseek :: "'w calls \<Rightarrow> nat option \<Rightarrow> int \<Rightarrow> int \<Rightarrow> 'w stdio \<Rightarrow> int \<times> 'w stdio" where
  "fseek c p offset whence s =
     (case p of None \<Rightarrow> (- 1, s)
      | Some i \<Rightarrow>
          (let s = upd_stream i (\<lambda>f. f\<lparr>buf_pos := 0, buf_len := 0\<rparr>) (snd (fflush c p s))
           in case c_lseek c (s_fd (streams s ! i)) offset whence (world s) of (r, w) \<Rightarrow>
                (if r < 0 then - 1 else 0, s\<lparr>world := w\<rparr>)))"

definition ftell :: "'w calls \<Rightarrow> nat option \<Rightarrow> 'w stdio \<Rightarrow> int \<times> 'w stdio" where
  "ftell c p s =
     (case p of None \<Rightarrow> (- 1, s)
      | Some i \<Rightarrow>
          (let f = streams s ! i
           in case c_lseek c (s_fd f) 0 1 (world s) of (r, w) \<Rightarrow>
                (if r < 0 then - 1 else r - (buf_len f - buf_pos f), s\<lparr>world := w\<rparr>)))"

definition feof :: "nat option \<Rightarrow> 'w stdio \<Rightarrow> bool" where
  "feof p s = (case p of None \<Rightarrow> False | Some i \<Rightarrow> hasf (s_flags (streams s ! i)) FILE_EOF)"

definition ferror :: "nat option \<Rightarrow> 'w stdio \<Rightarrow> bool" where
  "ferror p s = (case p of None \<Rightarrow> False | Some i \<Rightarrow> hasf (s_flags (streams s ! i)) FILE_ERR)"

definition clearerr :: "nat option \<Rightarrow> 'w stdio \<Rightarrow> 'w stdio" where
  "clearerr p s =
     (case p of None \<Rightarrow> s
      | Some i \<Rightarrow> upd_stream i (\<lambda>f. f\<lparr>s_flags := s_flags f AND NOT (FILE_EOF OR FILE_ERR)\<rparr>) s)"

subsection \<open>Formatted output to a stream\<close>

text \<open>\<^verbatim>\<open>buf\<close> is the address of the local array of 1024 bytes.\<close>

definition vfprintf :: "'w calls \<Rightarrow> addr \<Rightarrow> nat option \<Rightarrow> addr \<Rightarrow> addr list \<Rightarrow> cmem \<Rightarrow> 'w stdio \<Rightarrow> (int \<times> 'w stdio) option" where
  "vfprintf c buf p fmt ap m s =
     Option.bind (vsnprintf buf 1024 fmt ap m) (\<lambda>(r, m). fputs c m buf p s)"

definition fprintf :: "'w calls \<Rightarrow> addr \<Rightarrow> nat option \<Rightarrow> addr \<Rightarrow> addr list \<Rightarrow> cmem \<Rightarrow> 'w stdio \<Rightarrow> (int \<times> 'w stdio) option" where
  "fprintf c buf p fmt ap m s = vfprintf c buf p fmt ap m s"

definition printf :: "'w calls \<Rightarrow> addr \<Rightarrow> addr \<Rightarrow> addr list \<Rightarrow> cmem \<Rightarrow> 'w stdio \<Rightarrow> (int \<times> 'w stdio) option" where
  "printf c buf fmt ap m s =
     map_option (\<lambda>(r, s). (r, snd (fflush c (Some p_stdout) s))) (vfprintf c buf (Some p_stdout) fmt ap m s)"

definition puts :: "'w calls \<Rightarrow> addr \<Rightarrow> cmem \<Rightarrow> 'w stdio \<Rightarrow> (int \<times> 'w stdio) option" where
  "puts c a m s =
     map_option (\<lambda>(r, s). (0, snd (fflush c (Some p_stdout) (snd (fputc c 10 (Some p_stdout) s)))))
       (fputs c m a (Some p_stdout) s)"

subsection \<open>Reading delivers the contents of the file\<close>

text \<open>What \<^verbatim>\<open>read\<close> promises: each call takes the next bytes of the file, at most as many as
  asked for, and none only at its end.\<close>

definition reads :: "'w calls \<Rightarrow> int \<Rightarrow> ('w \<Rightarrow> byte list) \<Rightarrow> bool" where
  "reads c fd rest \<longleftrightarrow> (\<forall>n w. case c_read c fd n w of (r, bs, w') \<Rightarrow>
     r = int (length bs) \<and> length bs \<le> n \<and> rest w = bs @ rest w' \<and> (bs = [] \<longrightarrow> n = 0 \<or> rest w = []))"

text \<open>A stream open for reading, and the bytes that are still to come from it.\<close>

definition readable :: "nat \<Rightarrow> 'w stdio \<Rightarrow> bool" where
  "readable i s \<longleftrightarrow> i < length (streams s) \<and> (let f = streams s ! i in hasf (s_flags f) FILE_READ
     \<and> 0 \<le> buf_pos f \<and> buf_len f \<le> int BUFSIZ \<and> length (s_buffer f) = BUFSIZ
     \<and> (has_ungetc f \<longrightarrow> 0 \<le> ungetc_char f \<and> ungetc_char f < 256))"

definition pending :: "stream \<Rightarrow> byte list" where
  "pending f = (if has_ungetc f then [of_int (ungetc_char f)] else [])
     @ drop (nat (buf_pos f)) (take (nat (buf_len f)) (s_buffer f))"

definition to_come :: "('w \<Rightarrow> byte list) \<Rightarrow> nat \<Rightarrow> 'w stdio \<Rightarrow> byte list" where
  "to_come rest i s = pending (streams s ! i) @ rest (world s)"

lemma upd_stream_sel [simp]:
  "length (streams (upd_stream i f s)) = length (streams s)" "world (upd_stream i f s) = world s"
  "i < length (streams s) \<Longrightarrow> streams (upd_stream i f s) ! i = f (streams s ! i)"
  by (simp_all add: upd_stream_def)

lemma next_char_run:
  assumes "readable i s" "\<not> has_ungetc (streams s ! i)" "buf_pos (streams s ! i) < buf_len (streams s ! i)"
  shows "\<exists>x s'. next_char i s = (int (unat x), s') \<and> readable i s' \<and> pending (streams s ! i) = x # pending (streams s' ! i)
    \<and> world s' = world s \<and> s_fd (streams s' ! i) = s_fd (streams s ! i)"
proof -
  let ?f = "streams s ! i"
  let ?s = "upd_stream i (\<lambda>f. f\<lparr>buf_pos := buf_pos f + 1\<rparr>) s"
  have i: "i < length (streams s)" using assms(1) by (simp add: readable_def)
  have b: "nat (buf_pos ?f) < length (take (nat (buf_len ?f)) (s_buffer ?f))" "0 \<le> buf_pos ?f" "nat (buf_pos ?f) < nat (buf_len ?f)"
    using assms by (auto simp: readable_def Let_def)
  then have "pending ?f = s_buffer ?f ! nat (buf_pos ?f) # pending (streams ?s ! i)"
    using assms(2) i Cons_nth_drop_Suc [OF b(1)] by (simp add: pending_def nat_add_distrib)
  moreover have "readable i ?s" using assms(1) i by (simp add: readable_def Let_def)
  ultimately show ?thesis using i by (auto simp: next_char_def Let_def)
qed

lemma fgetc_next:
  assumes "readable i s" "reads c (s_fd (streams s ! i)) rest"
  shows "\<exists>s'. fgetc c (Some i) s = (case to_come rest i s of [] \<Rightarrow> - 1 | x # _ \<Rightarrow> int (unat x), s')
    \<and> readable i s' \<and> to_come rest i s' = tl (to_come rest i s) \<and> s_fd (streams s' ! i) = s_fd (streams s ! i)"
proof -
  let ?f = "streams s ! i"
  have i: "i < length (streams s)" and fl: "hasf (s_flags ?f) FILE_READ"
    and rd: "0 \<le> buf_pos ?f" "buf_len ?f \<le> int BUFSIZ" "length (s_buffer ?f) = BUFSIZ"
    using assms(1) by (simp_all add: readable_def Let_def)
  consider (pushed) "has_ungetc ?f" | (empty) "\<not> has_ungetc ?f" "buf_len ?f \<le> buf_pos ?f"
    | (more) "\<not> has_ungetc ?f" "buf_pos ?f < buf_len ?f" by linarith
  then show ?thesis
  proof cases
    case pushed
    let ?s = "upd_stream i (\<lambda>f. f\<lparr>has_ungetc := False\<rparr>) s"
    have u: "0 \<le> ungetc_char ?f" "ungetc_char ?f < 256" using pushed assms(1) by (simp_all add: readable_def Let_def)
    have "ungetc_char ?f = int (unat (of_int (ungetc_char ?f) :: byte))" using u by (simp add: uint_word_of_int)
    moreover have "readable i ?s" using assms(1) i by (simp add: readable_def Let_def)
    moreover have "to_come rest i s = of_int (ungetc_char ?f) # to_come rest i ?s"
      using pushed i by (simp add: to_come_def pending_def)
    ultimately show ?thesis using pushed fl i by (intro exI [of _ ?s]) (simp add: fgetc_def Let_def)
  next
    case more
    obtain x s' where n: "next_char i s = (int (unat x), s')" "readable i s'" "pending ?f = x # pending (streams s' ! i)"
      "world s' = world s" "s_fd (streams s' ! i) = s_fd ?f"
      using next_char_run [OF assms(1) more] by blast
    then show ?thesis using more fl by (intro exI [of _ s']) (simp add: fgetc_def Let_def to_come_def)
  next
    case empty
    obtain n bs w where r: "c_read c (s_fd ?f) BUFSIZ (world s) = (n, bs, w)" by (metis prod_cases3)
    have bs: "n = int (length bs)" "length bs \<le> BUFSIZ" "rest (world s) = bs @ rest w" "bs = [] \<longrightarrow> rest (world s) = []"
      using assms(2) [unfolded reads_def, rule_format, of BUFSIZ "world s"] r by auto
    have p: "pending ?f = []" using empty by (simp add: pending_def)
    let ?s1 = "refill c i s"
    have s1: "streams ?s1 ! i = ?f\<lparr>buf_len := n, s_buffer := bs @ drop (length bs) (s_buffer ?f)\<rparr>"
      "world ?s1 = w" "length (streams ?s1) = length (streams s)"
      using r i by (simp_all add: refill_def upd_stream_def)
    show ?thesis
    proof (cases "bs = []")
      case True
      let ?s2 = "upd_stream i (\<lambda>f. f\<lparr>s_flags := s_flags f OR FILE_EOF\<rparr>) ?s1"
      have "readable i ?s2" using assms(1) s1 i bs True by (simp add: readable_def Let_def hasf_or)
      moreover have "to_come rest i s = []" "to_come rest i ?s2 = []"
        using bs True p s1 i empty by (simp_all add: to_come_def pending_def)
      ultimately show ?thesis using empty fl i s1 bs True by (intro exI [of _ ?s2]) (simp add: fgetc_def Let_def)
    next
      case False
      let ?s2 = "upd_stream i (\<lambda>f. f\<lparr>buf_pos := 0\<rparr>) ?s1"
      have s2: "streams ?s2 ! i = ?f\<lparr>buf_len := n, s_buffer := bs @ drop (length bs) (s_buffer ?f), buf_pos := 0\<rparr>"
        using s1 i by simp
      have ok: "readable i ?s2" using assms(1) s1 s2 i bs rd by (simp add: readable_def Let_def)
      have "\<not> has_ungetc (streams ?s2 ! i)" "buf_pos (streams ?s2 ! i) < buf_len (streams ?s2 ! i)"
        using s2 empty bs False by simp_all
      from next_char_run [OF ok this] obtain x s' where n: "next_char i ?s2 = (int (unat x), s')" "readable i s'"
        "pending (streams ?s2 ! i) = x # pending (streams s' ! i)" "world s' = world ?s2" "s_fd (streams s' ! i) = s_fd (streams ?s2 ! i)"
        by blast
      have "pending (streams ?s2 ! i) = bs" using s2 empty bs by (simp add: pending_def)
      then have "to_come rest i s = x # to_come rest i s'"
        using n(3,4) p bs(3) s1 by (simp add: to_come_def)
      moreover have "fgetc c (Some i) s = (int (unat x), s')" using empty fl s1 bs False n(1) by (simp add: fgetc_def Let_def)
      ultimately show ?thesis using n(2,5) s2 by simp
    qed
  qed
qed

text \<open>The next line of a text, with its newline.\<close>

fun first_line :: "byte list \<Rightarrow> byte list" where
  "first_line [] = []"
| "first_line (x # xs) = (if x = 10 then [10] else x # first_line xs)"

lemma fgets_loop_line:
  assumes "readable i s" "reads c (s_fd (streams s ! i)) rest"
  shows "\<exists>s'. fgets_loop n c (Some i) s = (take n (first_line (to_come rest i s)), s') \<and> readable i s'
    \<and> to_come rest i s' = drop (length (take n (first_line (to_come rest i s)))) (to_come rest i s)"
  using assms
proof (induction n arbitrary: s)
  case (Suc n)
  obtain s1 where s1: "fgetc c (Some i) s = (case to_come rest i s of [] \<Rightarrow> - 1 | x # _ \<Rightarrow> int (unat x), s1)"
    "readable i s1" "to_come rest i s1 = tl (to_come rest i s)" "s_fd (streams s1 ! i) = s_fd (streams s ! i)"
    using fgetc_next [OF Suc.prems] by blast
  show ?case
  proof (cases "to_come rest i s")
    case Nil
    then show ?thesis using s1 by simp
  next
    case (Cons x xs)
    have x: "int (unat x) \<noteq> - 1" "of_int (int (unat x)) = x" "int (unat x) = 10 \<longleftrightarrow> x = 10"
      using uint_ge_0 [of x] by (simp_all flip: uint_nat add: word_uint_eq_iff, linarith)
    obtain s2 where s2: "fgets_loop n c (Some i) s1 = (take n (first_line xs), s2)" "readable i s2"
      "to_come rest i s2 = drop (length (take n (first_line xs))) xs"
      using Suc.IH [OF s1(2)] Suc.prems(2) s1(3,4) Cons by auto
    have f: "fgetc c (Some i) s = (int (unat x), s1)" using s1(1) by (simp add: Cons)
    show ?thesis
    proof (cases "x = 10")
      case True
      then show ?thesis using f s1(2,3) x by (simp add: Cons)
    next
      case False
      then have "fgets_loop (Suc n) c (Some i) s = (x # take n (first_line xs), s2)" using f s2(1) x by simp
      then show ?thesis using s2(2,3) False by (simp add: Cons)
    qed
  qed
qed simp

subsection \<open>Properties\<close>

text \<open>C35: \<^verbatim>\<open>fgets\<close> reads a file line by line: when \<^verbatim>\<open>read\<close> gives the bytes of the file in
  pieces of any length, \<^verbatim>\<open>fgets\<close> stores the next line of what is still to come, pushed-back and
  buffered characters included, or its first \<open>size - 1\<close> characters, with a zero byte behind it; it
  returns \<^verbatim>\<open>NULL\<close> exactly at the end of the file; and what is left to come is the rest.\<close>

theorem fgets_next_line:
  assumes "readable i s" "reads c (s_fd (streams s ! i)) rest" "a \<noteq> 0" "1 < sz"
  shows "let xs = to_come rest i s; l = take (nat (sz - 1)) (first_line xs)
    in \<exists>s'. fgets c a sz (Some i) m s = (if xs = [] then (0, m, s') else (a, store_list a (l @ [0]) m, s'))
      \<and> readable i s' \<and> to_come rest i s' = drop (length l) xs"
proof -
  let ?xs = "to_come rest i s"
  obtain s' where s': "fgets_loop (nat (sz - 1)) c (Some i) s = (take (nat (sz - 1)) (first_line ?xs), s')" "readable i s'"
    "to_come rest i s' = drop (length (take (nat (sz - 1)) (first_line ?xs))) ?xs"
    using fgets_loop_line [OF assms(1,2)] by blast
  have "take (nat (sz - 1)) (first_line ?xs) = [] \<longleftrightarrow> ?xs = []" using assms(4) by (cases ?xs) auto
  then show ?thesis using s' assms(3,4) unfolding Let_def
    by (intro exI [of _ s']) (simp add: fgets_def)
qed

text \<open>The witness: a file read seven bytes at a time.\<close>

definition list_calls :: "byte list calls" where
  "list_calls = \<lparr>c_read = (\<lambda>fd n w. (int (min 7 (min n (length w))), take (min 7 n) w, drop (min 7 n) w)),
     c_write = (\<lambda>fd bs w. (int (length bs), w)), c_open = (\<lambda>p fl w. (3, w)), c_close = (\<lambda>fd w. (0, w)),
     c_lseek = (\<lambda>fd off wh w. (0, w))\<rparr>"

definition line_file :: "byte list stdio" where
  "line_file = \<lparr>streams = [std_stream 0 FILE_READ], world = [104, 105, 10, 97, 98, 99, 100, 101, 102, 10]\<rparr>"

theorem fgets_next_line_witness:
  "\<exists>s'. fgets list_calls 100 80 (Some 0) (\<lambda>_. 0) line_file = (100, store_list 100 [104, 105, 10, 0] (\<lambda>_. 0), s')
    \<and> to_come id 0 s' = [97, 98, 99, 100, 101, 102, 10]"
proof -
  have "reads list_calls (s_fd (streams line_file ! 0)) id" by (auto simp: reads_def list_calls_def min_def)
  moreover have "readable 0 line_file" by (simp add: readable_def line_file_def std_stream_def hasf_def)
  moreover have "to_come id 0 line_file = [104, 105, 10, 97, 98, 99, 100, 101, 102, 10]"
    by (simp add: to_come_def pending_def line_file_def std_stream_def)
  ultimately show ?thesis using fgets_next_line [of 0 line_file list_calls id 100 80 "\<lambda>_. 0"]
    by (auto simp: Let_def)
qed

end
