(* ===== verification/Libc_Dirent.thy ===== *)
theory Libc_Dirent
  imports Libc_Stdio
begin

text \<open>
  The directory streams of \<^verbatim>\<open>userland/Libraries/libc/src/dirent.c\<close> and the messages of
  \<^verbatim>\<open>errno.c\<close>, over the same five system calls as the streams of \<^verbatim>\<open>stdio.c\<close>.  \<^verbatim>\<open>None\<close> is the
  null pointer.
\<close>

text \<open>What \<^verbatim>\<open>readdir\<close> leaves in \<^verbatim>\<open>dirp->entry\<close>, of which \<^verbatim>\<open>d_off\<close>, \<^verbatim>\<open>d_reclen\<close> and
  \<^verbatim>\<open>d_type\<close> are constants.\<close>

record dir_entry =
  de_ino :: "16 word"
  de_name :: "byte list"

record 'w dir =
  dir_fd :: int
  dir_entry :: dir_entry
  dir_buf :: "byte list"
  dir_pos :: int
  dir_len :: int
  dir_world :: 'w

abbreviation (input) DIRBUF :: nat where "DIRBUF \<equiv> 1024"
abbreviation (input) ENTRY :: nat where "ENTRY \<equiv> 16"

text \<open>\<^verbatim>\<open>opendir\<close>: \<open>mem\<close> is what \<^verbatim>\<open>malloc\<close> returned, with the bytes it left in the buffer.\<close>

definition opendir :: "'w calls \<Rightarrow> byte list option \<Rightarrow> addr \<Rightarrow> 'w \<Rightarrow> 'w dir option \<times> 'w" where
  "opendir c mem path w =
     (let (fd, w) = c_open c path 0 w
      in if fd < 0 then (None, w)
         else case mem of
             None \<Rightarrow> (None, snd (c_close c fd w))
           | Some b \<Rightarrow> (Some \<lparr>dir_fd = fd, dir_entry = \<lparr>de_ino = 0, de_name = []\<rparr>, dir_buf = b, dir_pos = 0, dir_len = 0,
               dir_world = w\<rparr>, w))"

text \<open>The entry at the position, and the position after it.\<close>

definition v6_entry :: "byte list \<Rightarrow> nat \<Rightarrow> dir_entry" where
  "v6_entry b i = \<lparr>de_ino = ucast (b ! i) OR push_bit 8 (ucast (b ! (i + 1))),
     de_name = takeWhile (\<lambda>x. x \<noteq> 0) (take 14 (drop (i + 2) b))\<rparr>"

partial_function (option) readdir :: "'w calls \<Rightarrow> 'w dir \<Rightarrow> (dir_entry option \<times> 'w dir) option" where
  "readdir c d =
     (let (r, bs, w) = (if dir_pos d \<ge> dir_len d then c_read c (dir_fd d) DIRBUF (dir_world d) else (0, [], dir_world d));
          refill = dir_pos d \<ge> dir_len d;
          d1 = (if refill then d\<lparr>dir_world := w, dir_buf := bs @ drop (length bs) (dir_buf d), dir_len := r\<rparr> else d)
      in if refill \<and> r \<le> 0 then Some (None, d1)
         else
           (let d2 = (if refill then d1\<lparr>dir_pos := 0\<rparr> else d1)
            in if dir_pos d2 + int ENTRY > dir_len d2 then readdir c (d2\<lparr>dir_pos := dir_len d2\<rparr>)
               else
                 (let e = v6_entry (dir_buf d2) (nat (dir_pos d2));
                      d3 = d2\<lparr>dir_pos := dir_pos d2 + int ENTRY\<rparr>
                  in if de_ino e = 0 then readdir c d3
                     else Some (Some e, d3\<lparr>dir_entry := e\<rparr>))))"

definition closedir :: "'w calls \<Rightarrow> 'w dir option \<Rightarrow> 'w \<Rightarrow> int \<times> 'w" where
  "closedir c d w = (case d of None \<Rightarrow> (- 1, w) | Some d \<Rightarrow> c_close c (dir_fd d) (dir_world d))"

definition seekdir :: "'w calls \<Rightarrow> int \<Rightarrow> 'w dir \<Rightarrow> 'w dir" where
  "seekdir c loc d = d\<lparr>dir_world := snd (c_lseek c (dir_fd d) loc 0 (dir_world d)), dir_pos := 0, dir_len := 0\<rparr>"

definition rewinddir :: "'w calls \<Rightarrow> 'w dir \<Rightarrow> 'w dir" where
  "rewinddir c d = d\<lparr>dir_world := snd (c_lseek c (dir_fd d) 0 0 (dir_world d)), dir_pos := 0, dir_len := 0\<rparr>"

definition telldir :: "'w calls \<Rightarrow> 'w dir \<Rightarrow> int \<times> 'w dir" where
  "telldir c d =
     (let (r, w) = c_lseek c (dir_fd d) 0 1 (dir_world d) in (r - dir_len d + dir_pos d, d\<lparr>dir_world := w\<rparr>))"

subsection \<open>A directory is listed entry by entry\<close>

text \<open>The entries in a sequence of bytes, and those in use.\<close>

fun entries :: "byte list \<Rightarrow> dir_entry list" where
  "entries b = (if length b < ENTRY then [] else v6_entry b 0 # entries (drop ENTRY b))"

declare entries.simps [simp del]

definition live :: "byte list \<Rightarrow> dir_entry list" where
  "live b = filter (\<lambda>e. de_ino e \<noteq> 0) (entries b)"

text \<open>What is still to come, and a stream in good order.\<close>

definition dir_rest :: "('w \<Rightarrow> byte list) \<Rightarrow> 'w dir \<Rightarrow> byte list" where
  "dir_rest rest d = drop (nat (dir_pos d)) (take (nat (dir_len d)) (dir_buf d)) @ rest (dir_world d)"

definition dir_ok :: "'w dir \<Rightarrow> bool" where
  "dir_ok d \<longleftrightarrow> 0 \<le> dir_pos d \<and> dir_len d \<le> int (length (dir_buf d)) \<and> length (dir_buf d) = DIRBUF
     \<and> int ENTRY dvd dir_pos d \<and> int ENTRY dvd dir_len d"

text \<open>What \<^verbatim>\<open>read\<close> promises for a directory, whose size is a multiple of an entry: each call
  takes the next entries, at most as many as the buffer holds, and none only at the end.  The
  worlds it is asked in are those with \<open>good\<close>.\<close>

definition reads_entries :: "'w calls \<Rightarrow> int \<Rightarrow> ('w \<Rightarrow> bool) \<Rightarrow> ('w \<Rightarrow> byte list) \<Rightarrow> bool" where
  "reads_entries c fd good rest \<longleftrightarrow> (\<forall>w. good w \<longrightarrow> (case c_read c fd DIRBUF w of (r, bs, w') \<Rightarrow>
     r = int (length bs) \<and> length bs \<le> DIRBUF \<and> ENTRY dvd length bs \<and> rest w = bs @ rest w' \<and> (bs = [] \<longrightarrow> rest w = [])
     \<and> good w'))"

lemma v6_entry_drop: "v6_entry b i = v6_entry (drop i b) 0" if "i + 1 < length b"
  using that by (simp add: v6_entry_def add.commute)

lemma v6_entry_append:
  assumes "ENTRY \<le> length b"
  shows "v6_entry (b @ b') 0 = v6_entry b 0"
  using assms by (cases b) (auto simp: v6_entry_def nth_append)

lemma live_Cons:
  assumes "ENTRY \<le> length b"
  shows "live b = (if de_ino (v6_entry b 0) \<noteq> 0 then [v6_entry b 0] else []) @ live (drop ENTRY b)"
  using assms by (subst live_def, subst entries.simps) (simp add: live_def)

lemma live_Nil: "live [] = []" by (simp add: live_def entries.simps)

text \<open>One round: what \<open>readdir\<close> does while the buffer has an entry.\<close>

lemma readdir_buffered:
  assumes ok: "dir_ok d" and p: "dir_pos d < dir_len d"
  defines "e \<equiv> v6_entry (dir_buf d) (nat (dir_pos d))" and "d' \<equiv> d\<lparr>dir_pos := dir_pos d + int ENTRY\<rparr>"
  shows "readdir c d = (if de_ino e = 0 then readdir c d' else Some (Some e, d'\<lparr>dir_entry := e\<rparr>))"
    and "dir_ok d'" and "live (dir_rest rest d) = (if de_ino e \<noteq> 0 then [e] else []) @ live (dir_rest rest d')"
    and "length (dir_rest rest d') < length (dir_rest rest d)"
proof -
  have "int ENTRY dvd dir_len d - dir_pos d" using ok by (auto simp: dir_ok_def)
  then have le: "dir_pos d + int ENTRY \<le> dir_len d" using p by (auto dest!: zdvd_imp_le)
  then show "readdir c d = (if de_ino e = 0 then readdir c d' else Some (Some e, d'\<lparr>dir_entry := e\<rparr>))"
    using p by (subst readdir.simps) (simp add: Let_def e_def d'_def)
  show "dir_ok d'" using ok le by (simp add: dir_ok_def d'_def)
  let ?b = "take (nat (dir_len d)) (dir_buf d)" and ?p = "nat (dir_pos d)"
  have len: "length ?b = nat (dir_len d)" "?p + ENTRY \<le> length ?b" using ok le by (auto simp: dir_ok_def)
  have q: "14 \<le> nat (dir_len d) - Suc (Suc ?p)" "?p < nat (dir_len d)" "Suc ?p < nat (dir_len d)" using len by linarith+
  have "v6_entry ?b ?p = e" unfolding e_def v6_entry_def using q by (simp add: drop_take min_def)
  then have e: "v6_entry (drop ?p ?b) 0 = e" using v6_entry_drop [of ?p ?b] len(2) by simp
  have r: "dir_rest rest d = drop ?p ?b @ rest (dir_world d)" by (simp add: dir_rest_def)
  have "nat (dir_pos d + int ENTRY) = ENTRY + ?p" using ok by (simp add: dir_ok_def nat_add_distrib)
  then have r': "dir_rest rest d' = drop ENTRY (drop ?p ?b) @ rest (dir_world d)" by (simp add: dir_rest_def d'_def)
  have dl: "ENTRY \<le> length (drop ?p ?b)" using len(2) unfolding length_drop by linarith
  then have "v6_entry (dir_rest rest d) 0 = e" "drop ENTRY (dir_rest rest d) = dir_rest rest d'" "ENTRY \<le> length (dir_rest rest d)"
    unfolding r r' using e by (simp_all only: v6_entry_append drop_append length_append) simp_all
  then show "live (dir_rest rest d) = (if de_ino e \<noteq> 0 then [e] else []) @ live (dir_rest rest d')"
    "length (dir_rest rest d') < length (dir_rest rest d)"
    using live_Cons [of "dir_rest rest d"] by (simp, metis length_drop diff_less zero_less_numeral less_le_trans)
qed

lemma readdir_refill:
  assumes ok: "dir_ok d" and p: "dir_len d \<le> dir_pos d" and r: "reads_entries c (dir_fd d) good rest" "good (dir_world d)"
  shows "if rest (dir_world d) = [] then \<exists>d'. readdir c d = Some (None, d') \<and> dir_ok d' \<and> dir_rest rest d' = []
           \<and> dir_fd d' = dir_fd d \<and> good (dir_world d')
         else \<exists>d'. readdir c d = readdir c d' \<and> dir_ok d' \<and> dir_pos d' < dir_len d' \<and> dir_fd d' = dir_fd d
           \<and> dir_rest rest d' = dir_rest rest d \<and> good (dir_world d')"
proof -
  obtain k bs w where rd: "c_read c (dir_fd d) DIRBUF (dir_world d) = (k, bs, w)" by (cases "c_read c (dir_fd d) DIRBUF (dir_world d)")
  have l: "k = int (length bs)" "length bs \<le> DIRBUF" "rest (dir_world d) = bs @ rest w" "bs = [] \<longrightarrow> rest (dir_world d) = []"
    "ENTRY dvd length bs" "good w"
    using r(1) [unfolded reads_entries_def, rule_format, OF r(2)]
    unfolding rd prod.case by auto
  let ?d = "d\<lparr>dir_world := w, dir_buf := bs @ drop (length bs) (dir_buf d), dir_len := k\<rparr>"
  have rest0: "dir_rest rest d = rest (dir_world d)" using p by (simp add: dir_rest_def)
  show ?thesis
  proof (cases "rest (dir_world d) = []")
    case True
    then have bs: "bs = []" using l(3) by simp
    then have "readdir c d = Some (None, ?d)" using l(1) p rd by (subst readdir.simps) (simp add: Let_def)
    then show ?thesis using True bs l ok by (simp add: dir_ok_def dir_rest_def)
  next
    case False
    have k: "0 < k" using False l(1,4) by auto
    let ?e = "?d\<lparr>dir_pos := 0\<rparr>"
    have "readdir c d = readdir c ?e" using k p rd by (subst (1 2) readdir.simps) (simp add: Let_def)
    moreover have "(16 :: int) dvd int (length bs)" using l(5) int_dvd_int_iff [of 16 "length bs"] by simp
    then have "dir_ok ?e" using ok l by (simp add: dir_ok_def)
    moreover have "dir_rest rest ?e = dir_rest rest d" unfolding rest0 using l by (simp add: dir_rest_def)
    ultimately show ?thesis unfolding if_not_P [OF False] using k l(6) by (intro exI [of _ ?e]) simp
  qed
qed

text \<open>C38: \<^verbatim>\<open>readdir\<close> lists a directory: each call returns the next entry that is in use, with its
  inode number and its name without the padding, skipping deleted entries across the refills of
  the buffer; it returns \<^verbatim>\<open>NULL\<close> exactly when no entry in use is left.  It always returns, and
  leaves a stream from which the remaining entries are listed.\<close>

theorem readdir_lists:
  assumes "dir_ok d" "reads_entries c (dir_fd d) good rest" "good (dir_world d)"
  shows "\<exists>d'. readdir c d = Some (case live (dir_rest rest d) of [] \<Rightarrow> None | e # es \<Rightarrow> Some e, d')
    \<and> dir_ok d' \<and> good (dir_world d') \<and> dir_fd d' = dir_fd d \<and> live (dir_rest rest d') = tl (live (dir_rest rest d))"
  using assms
proof (induction "length (dir_rest rest d)" arbitrary: d rule: less_induct)
  case less
  have step: ?case if p: "dir_pos e < dir_len e" and e: "dir_ok e" "dir_fd e = dir_fd d" "dir_rest rest e = dir_rest rest d"
    "good (dir_world e)" "readdir c d = readdir c e" for e
  proof -
    let ?x = "v6_entry (dir_buf e) (nat (dir_pos e))" and ?e = "e\<lparr>dir_pos := dir_pos e + int ENTRY\<rparr>"
    note b = readdir_buffered [OF e(1) p]
    show ?thesis
    proof (cases "de_ino ?x = 0")
      case True
      then show ?thesis using less.hyps [of ?e] less.prems b(1) [of c] b(2) b(3,4) [of rest] e by simp
    next
      case False
      then show ?thesis using b(1) [of c] b(2) b(3) [of rest] e
        by (intro exI [of _ "?e\<lparr>dir_entry := ?x\<rparr>"]) (simp add: dir_ok_def dir_rest_def)
    qed
  qed
  show ?case
  proof (cases "dir_pos d < dir_len d")
    case True
    then show ?thesis using step less.prems by blast
  next
    case False
    then have p: "dir_len d \<le> dir_pos d" by simp
    note r = readdir_refill [OF less.prems(1) p less.prems(2,3)]
    show ?thesis
    proof (cases "rest (dir_world d) = []")
      case True
      moreover have "dir_rest rest d = []" using True p by (simp add: dir_rest_def)
      ultimately show ?thesis using r live_Nil by auto
    next
      case False
      then show ?thesis using r step by auto
    qed
  qed
qed

definition list_dir_calls :: "byte list calls" where
  "list_dir_calls = \<lparr>c_read = (\<lambda>fd n w. (int (min n (length w)), take n w, drop n w)),
     c_write = (\<lambda>fd bs w. (int (length bs), w)), c_open = (\<lambda>p fl w. (3, w)), c_close = (\<lambda>fd w. (0, w)),
     c_lseek = (\<lambda>fd off wh w. (0, w))\<rparr>"

theorem readdir_lists_witness:
  "\<exists>d'. readdir list_dir_calls \<lparr>dir_fd = 3, dir_entry = \<lparr>de_ino = 0, de_name = []\<rparr>, dir_buf = replicate 1024 0, dir_pos = 0,
        dir_len = 0, dir_world = [0, 0, 120] @ replicate 13 0 @ [5, 0, 97, 98] @ replicate 12 0\<rparr>
     = Some (Some \<lparr>de_ino = 5, de_name = [97, 98]\<rparr>, d')"
proof -
  have "reads_entries list_dir_calls 3 (\<lambda>w. 16 dvd length w) id"
    by (auto simp: reads_entries_def list_dir_calls_def min_def)
  moreover have "live ([0, 0, 120] @ replicate 13 0 @ [5, 0, 97, 98] @ replicate 12 0) = [\<lparr>de_ino = 5, de_name = [97, 98]\<rparr>]"
    by code_simp
  ultimately show ?thesis
    using readdir_lists [of "\<lparr>dir_fd = 3, dir_entry = \<lparr>de_ino = 0, de_name = []\<rparr>, dir_buf = replicate 1024 0, dir_pos = 0,
        dir_len = 0, dir_world = [0, 0, 120] @ replicate 13 0 @ [5, 0, 97, 98] @ replicate 12 0\<rparr>" list_dir_calls
        "\<lambda>w. 16 dvd length w" id] by (auto simp: dir_ok_def dir_rest_def)
qed

subsection \<open>Messages for errors\<close>

definition error_messages :: "string list" where
  "error_messages = [''Success'', ''Operation not permitted'', ''No such file or directory'', ''No such process'',
     ''Interrupted system call'', ''Input/output error'', ''No such device or address'', ''Argument list too long'',
     ''Exec format error'', ''Bad file descriptor'', ''No child processes'', ''Resource temporarily unavailable'',
     ''Cannot allocate memory'', ''Permission denied'', ''Bad address'', ''Block device required'',
     ''Device or resource busy'', ''File exists'', ''Invalid cross-device link'', ''No such device'', ''Not a directory'',
     ''Is a directory'', ''Invalid argument'', ''Too many open files in system'', ''Too many open files'',
     ''Inappropriate ioctl for device'', ''Text file busy'', ''File too large'', ''No space left on device'',
     ''Illegal seek'', ''Read-only file system'', ''Too many links'', ''Broken pipe'', ''Numerical argument out of domain'',
     ''Numerical result out of range'']"

definition strerror :: "int \<Rightarrow> string" where
  "strerror errnum =
     (if errnum < 0 \<or> errnum \<ge> int (length error_messages) then ''Unknown error'' else error_messages ! nat errnum)"

definition c_text :: "string \<Rightarrow> byte list" where
  "c_text s = map (\<lambda>c. of_nat (of_char c)) s"

text \<open>\<^verbatim>\<open>perror\<close>: the values of the writes are ignored.\<close>

definition perror :: "'w calls \<Rightarrow> byte list option \<Rightarrow> int \<Rightarrow> 'w \<Rightarrow> 'w" where
  "perror c s errno w =
     (let put = (\<lambda>bs w. snd (c_write c 2 bs w));
          w1 = (case s of None \<Rightarrow> w | Some [] \<Rightarrow> w | Some bs \<Rightarrow> put (c_text '': '') (put bs w))
      in put (c_text [CHR 0x0A]) (put (c_text (strerror errno)) w1))"

text \<open>Every error number of the kernel has its message.\<close>

lemma strerror_known: "0 \<le> e \<Longrightarrow> e \<le> 34 \<Longrightarrow> strerror e = error_messages ! nat e"
  by (simp add: strerror_def error_messages_def)

lemma error_messages_distinct: "distinct (''Unknown error'' # error_messages)"
  by (simp add: error_messages_def)

end
