(* ===== verification/Shell.thy ===== *)
theory Shell
  imports Libc_Dirent
begin

text \<open>
  The two command interpreters: \<^verbatim>\<open>userland/Shell/sh.c\<close> and
  \<^verbatim>\<open>userland/Applications/Terminal/terminal.c\<close>.  A line is in the memory of the process; an
  argument vector is the list of its pointers, the null pointer at its end left out.
\<close>

subsection \<open>Splitting a line\<close>

definition is_space :: "byte \<Rightarrow> bool" where
  "is_space c \<longleftrightarrow> c = 32 \<or> c = 9 \<or> c = 10 \<or> c = 13"

partial_function (option) skip_space :: "cmem \<Rightarrow> addr \<Rightarrow> (cmem \<times> addr) option" where
  "skip_space m p = (if m p \<noteq> 0 \<and> is_space (m p) then skip_space (m(p := 0)) (p + 1) else Some (m, p))"

partial_function (option) skip_word :: "cmem \<Rightarrow> addr \<Rightarrow> addr option" where
  "skip_word m p = (if m p \<noteq> 0 \<and> \<not> is_space (m p) then skip_word m (p + 1) else Some p)"

text \<open>The loop of \<^verbatim>\<open>tokenize\<close> with room for \<open>n\<close> more arguments: each round but the last stores
  one.\<close>

primrec tokens :: "nat \<Rightarrow> cmem \<Rightarrow> addr \<Rightarrow> (addr list \<times> cmem) option" where
  "tokens 0 m p = Some ([], m)"
| "tokens (Suc n) m p =
     (if m p = 0 then Some ([], m)
      else Option.bind (skip_space m p) (\<lambda>(m, p).
        if m p = 0 then Some ([], m)
        else Option.bind (skip_word m p) (\<lambda>q. map_option (\<lambda>(args, m). (p # args, m)) (tokens n m q))))"

definition tokenize :: "cmem \<Rightarrow> addr \<Rightarrow> nat \<Rightarrow> (addr list \<times> cmem) option" where
  "tokenize m buf max_args = tokens (max_args - 1) m buf"

text \<open>The loop of \<^verbatim>\<open>parse_command\<close> in the terminal, which does not know the return character.\<close>

definition is_blank :: "byte \<Rightarrow> bool" where
  "is_blank c \<longleftrightarrow> c = 32 \<or> c = 9 \<or> c = 10"

partial_function (option) parse_loop :: "cmem \<Rightarrow> addr \<Rightarrow> bool \<Rightarrow> nat \<Rightarrow> (addr list \<times> cmem) option" where
  "parse_loop m p in_word n =
     (if m p = 0 \<or> n = 0 then Some ([], m)
      else if is_blank (m p) then parse_loop (if in_word then m(p := 0) else m) (p + 1) False n
      else if in_word then parse_loop m (p + 1) True n
      else Option.bind (parse_loop m (p + 1) True (n - 1)) (\<lambda>(args, m). Some (p # args, m)))"

definition parse_command :: "cmem \<Rightarrow> addr \<Rightarrow> (addr list \<times> cmem) option" where
  "parse_command m line = parse_loop m line False 31"

text \<open>What both are to do: the words of the line.  The last argument there is room for is not
  cut at the end of its word: it runs to the end of the line.\<close>

fun line_words :: "(byte \<Rightarrow> bool) \<Rightarrow> nat \<Rightarrow> byte list \<Rightarrow> byte list list" where
  "line_words sp 0 xs = []"
| "line_words sp (Suc n) xs =
     (case dropWhile sp xs of
        [] \<Rightarrow> []
      | ys \<Rightarrow> if n = 0 then [ys] else takeWhile (\<lambda>c. \<not> sp c) ys # line_words sp n (dropWhile (\<lambda>c. \<not> sp c) ys))"

subsection \<open>The shell\<close>

text \<open>The system calls of both programs on a world of the caller's choice.  A path is the
  string in memory or a local buffer; \<^verbatim>\<open>execv\<close> comes back with \<open>Some\<close> only when it failed.\<close>

record 'w sh_calls =
  sh_read :: "nat \<Rightarrow> 'w \<Rightarrow> int \<times> byte list \<times> 'w"
  sh_write :: "byte list \<Rightarrow> 'w \<Rightarrow> 'w"
  sh_chdir :: "byte list \<Rightarrow> 'w \<Rightarrow> int \<times> 'w"
  sh_getcwd :: "'w \<Rightarrow> byte list option \<times> 'w"
  sh_fork :: "'w \<Rightarrow> int \<times> 'w"
  sh_execv :: "byte list \<Rightarrow> cmem \<Rightarrow> addr list \<Rightarrow> 'w \<Rightarrow> 'w option"
  sh_wait :: "'w \<Rightarrow> 'w"

text \<open>How a command ends: with the program, with another program in its place, or with the
  next prompt.\<close>

datatype 'w sh_end = Exited int 'w | Replaced 'w | Going 'w

partial_function (option) str_bytes :: "cmem \<Rightarrow> addr \<Rightarrow> byte list option" where
  "str_bytes m a = (if m a = 0 then Some [] else Option.bind (str_bytes m (a + 1)) (\<lambda>bs. Some (m a # bs)))"

text \<open>The comparison of a word with a literal, byte by byte and its zero.\<close>

fun word_is :: "cmem \<Rightarrow> addr \<Rightarrow> byte list \<Rightarrow> bool" where
  "word_is m a [] \<longleftrightarrow> m a = 0"
| "word_is m a (x # xs) \<longleftrightarrow> m a = x \<and> word_is m (a + 1) xs"

text \<open>The path of a command: 63 bytes at most.\<close>

primrec name_upto :: "nat \<Rightarrow> cmem \<Rightarrow> addr \<Rightarrow> byte list" where
  "name_upto 0 m a = []"
| "name_upto (Suc n) m a = (if m a = 0 then [] else m a # name_upto n m (a + 1))"

definition sh_path :: "cmem \<Rightarrow> addr \<Rightarrow> byte list" where
  "sh_path m a = c_text ''/bin/'' @ name_upto 58 m a"

text \<open>\<^verbatim>\<open>write(1, lit, n)\<close>, where the literal ends with a zero byte.\<close>

definition sh_lit :: "'w sh_calls \<Rightarrow> string \<Rightarrow> nat \<Rightarrow> 'w \<Rightarrow> 'w" where
  "sh_lit c s n = sh_write c (take n (c_text s @ [0]))"

definition NL :: string where "NL = [CHR 0x0A]"

definition sh_prompt :: "'w sh_calls \<Rightarrow> 'w \<Rightarrow> 'w" where
  "sh_prompt c = sh_lit c ''$ '' 2"

definition sh_cd :: "'w sh_calls \<Rightarrow> cmem \<Rightarrow> addr list \<Rightarrow> 'w \<Rightarrow> 'w option" where
  "sh_cd c m args w =
     (case args of
        a0 # a1 # _ \<Rightarrow> Option.bind (str_bytes m a1) (\<lambda>p.
          let (r, w) = sh_chdir c p w in Some (if r < 0 then sh_lit c (''cd: failed'' @ NL) 11 w else w))
      | _ \<Rightarrow> Some (sh_lit c (''cd: missing operand'' @ NL) 21 w))"

definition sh_help :: "'w sh_calls \<Rightarrow> 'w \<Rightarrow> 'w" where
  "sh_help c = fold (\<lambda>(s, n). sh_lit c (s @ NL) n)
     [(''Available commands:'', 20), (''  cd <dir>   - Change directory'', 32), (''  ls         - List files'', 26),
      (''  cat <file> - Display file content'', 36), (''  echo <msg> - Print message'', 29),
      (''  pwd        - Print working directory'', 39), (''  exit       - Exit shell'', 26),
      (''  help       - Show this message'', 33)]"

definition sh_child :: "'w sh_calls \<Rightarrow> cmem \<Rightarrow> addr list \<Rightarrow> 'w \<Rightarrow> 'w sh_end option" where
  "sh_child c m args w =
     Option.bind (if m (hd args) = 47 then str_bytes m (hd args) else Some (sh_path m (hd args))) (\<lambda>path.
       Some (case sh_execv c path m args w of
               None \<Rightarrow> Replaced w
             | Some w \<Rightarrow> Exited 1 (sh_lit c (''command not found'' @ NL) 18 w)))"

definition sh_command :: "'w sh_calls \<Rightarrow> cmem \<Rightarrow> addr list \<Rightarrow> 'w \<Rightarrow> 'w sh_end option" where
  "sh_command c m args w =
     (case args of
        [] \<Rightarrow> Some (Going (sh_prompt c w))
      | a0 # _ \<Rightarrow>
          if word_is m a0 (c_text ''cd'') then map_option (\<lambda>w. Going (sh_prompt c w)) (sh_cd c m args w)
          else if word_is m a0 (c_text ''exit'') then Some (Exited 0 w)
          else if word_is m a0 (c_text ''help'') then Some (Going (sh_prompt c (sh_help c w)))
          else
            (let (pid, w) = sh_fork c w
             in if pid = 0 then sh_child c m args w else Some (Going (sh_prompt c (sh_wait c w)))))"

definition sh_round :: "'w sh_calls \<Rightarrow> addr \<Rightarrow> cmem \<Rightarrow> 'w \<Rightarrow> ('w sh_end \<times> cmem) option" where
  "sh_round c buf m w =
     (let (n, bs, w) = sh_read c 127 w
      in if n \<le> 0 then Some (Exited 0 (sh_lit c NL 1 w), m)
         else Option.bind (tokenize (store_list buf (bs @ [0]) m) buf 8) (\<lambda>(args, m).
           map_option (\<lambda>e. (e, m)) (sh_command c m args w)))"

partial_function (option) sh_loop :: "'w sh_calls \<Rightarrow> addr \<Rightarrow> cmem \<Rightarrow> 'w \<Rightarrow> 'w sh_end option" where
  "sh_loop c buf m w =
     Option.bind (sh_round c buf m w) (\<lambda>(e, m). case e of Going w \<Rightarrow> sh_loop c buf m w | _ \<Rightarrow> Some e)"

definition sh_main :: "'w sh_calls \<Rightarrow> addr \<Rightarrow> cmem \<Rightarrow> 'w \<Rightarrow> 'w sh_end option" where
  "sh_main c buf m w = sh_loop c buf m (sh_prompt c w)"

subsection \<open>The terminal\<close>

abbreviation (input) HISTORY_SIZE :: nat where "HISTORY_SIZE \<equiv> 50"

record history =
  h_commands :: "byte list list"
  h_count :: nat
  h_current :: nat

definition add_to_history :: "byte list \<Rightarrow> history \<Rightarrow> history" where
  "add_to_history cmd h =
     (let h = (if h_count h < HISTORY_SIZE
               then h\<lparr>h_commands := (h_commands h)[h_count h := cmd], h_count := h_count h + 1\<rparr>
               else h\<lparr>h_commands := (fold (\<lambda>i cs. cs[i := cs ! (i + 1)]) [0..<HISTORY_SIZE - 1] (h_commands h))
                        [HISTORY_SIZE - 1 := cmd]\<rparr>)
      in h\<lparr>h_current := h_count h\<rparr>)"

text \<open>\<^verbatim>\<open>execute_builtin\<close> as far as the choice; \<open>None\<close> is a command that is not built in.\<close>

datatype builtin = BHelp | BHistory | BClear | BPwd | BCd | BExit

definition builtin_of :: "cmem \<Rightarrow> addr \<Rightarrow> builtin option" where
  "builtin_of m a =
     (if word_is m a (c_text ''help'') then Some BHelp else if word_is m a (c_text ''history'') then Some BHistory
      else if word_is m a (c_text ''clear'') then Some BClear else if word_is m a (c_text ''pwd'') then Some BPwd
      else if word_is m a (c_text ''cd'') then Some BCd
      else if word_is m a (c_text ''exit'') \<or> word_is m a (c_text ''quit'') then Some BExit else None)"

text \<open>What the programs print without conversions, and \<^verbatim>\<open>%2d\<close> of a number below 100.\<close>

definition say :: "'w sh_calls \<Rightarrow> string \<Rightarrow> 'w \<Rightarrow> 'w" where
  "say c s = sh_write c (c_text s)"

definition digit :: "nat \<Rightarrow> byte" where
  "digit n = of_nat (48 + n)"

definition pad2 :: "nat \<Rightarrow> byte list" where
  "pad2 n = [if n < 10 then 32 else digit (n div 10), digit (n mod 10)]"

definition print_prompt :: "'w sh_calls \<Rightarrow> 'w \<Rightarrow> 'w" where
  "print_prompt c w =
     (let (cwd, w) = sh_getcwd c w
      in sh_write c (c_text ''unix-v6:'' @ (case cwd of None \<Rightarrow> c_text ''/'' | Some p \<Rightarrow> p) @ c_text ''$ '') w)"

definition print_welcome :: "'w sh_calls \<Rightarrow> 'w \<Rightarrow> 'w" where
  "print_welcome c = fold (\<lambda>s. say c (s @ NL))
     [[], ''========================================='', ''   Unix V6 Terminal - Interactive Shell'',
      ''   Type '' @ [CHR 0x27] @ ''help'' @ [CHR 0x27] @ '' for available commands'',
      ''========================================='', []]"

definition print_help :: "'w sh_calls \<Rightarrow> 'w \<Rightarrow> 'w" where
  "print_help c = fold (\<lambda>s. say c (s @ NL))
     [NL @ ''Built-in Commands:'', ''  help        - Show this help message'', ''  history     - Show command history'',
      ''  clear       - Clear the screen'', ''  pwd         - Print working directory'', ''  cd <dir>    - Change directory'',
      ''  exit        - Exit terminal'', ''  quit        - Exit terminal'',
      NL @ ''You can also run any system program available in the OS.'' @ NL]"

definition print_history :: "'w sh_calls \<Rightarrow> history \<Rightarrow> 'w \<Rightarrow> 'w" where
  "print_history c h w =
     say c NL (fold (\<lambda>i. sh_write c (c_text ''  '' @ pad2 (i + 1) @ c_text '': '' @ h_commands h ! i @ [10]))
       [0..<h_count h] (say c (NL @ ''Command History:'' @ NL) w))"

definition term_cd :: "'w sh_calls \<Rightarrow> cmem \<Rightarrow> addr list \<Rightarrow> 'w \<Rightarrow> 'w option" where
  "term_cd c m args w =
     (case args of
        a0 # a1 # _ \<Rightarrow> Option.bind (str_bytes m a1) (\<lambda>p. let (r, w) = sh_chdir c p w
          in Some (if r \<noteq> 0 then sh_write c (c_text (''cd: cannot access '' @ [CHR 0x27]) @ p @ [39, 10]) w else w))
      | _ \<Rightarrow> Some (snd (sh_chdir c (c_text ''/'') w)))"

definition run_builtin :: "'w sh_calls \<Rightarrow> history \<Rightarrow> cmem \<Rightarrow> addr list \<Rightarrow> builtin \<Rightarrow> 'w \<Rightarrow> 'w sh_end option" where
  "run_builtin c h m args b w =
     (case b of
        BHelp \<Rightarrow> Some (Going (print_help c w))
      | BHistory \<Rightarrow> Some (Going (print_history c h w))
      | BClear \<Rightarrow> Some (Going (say c ([CHR 0x1B] @ ''[2J'' @ [CHR 0x1B] @ ''[H'') w))
      | BPwd \<Rightarrow> (case sh_getcwd c w of
            (Some p, w) \<Rightarrow> Some (Going (sh_write c (p @ [10]) w))
          | (None, w) \<Rightarrow> Some (Going (say c (''pwd: error getting cwd'' @ NL) w)))
      | BCd \<Rightarrow> map_option Going (term_cd c m args w)
      | BExit \<Rightarrow> Some (Exited 0 (say c (NL @ ''Goodbye!'' @ NL) w)))"

text \<open>The child tries \<^verbatim>\<open>/bin\<close> and then the word itself.\<close>

definition term_child :: "'w sh_calls \<Rightarrow> cmem \<Rightarrow> addr list \<Rightarrow> 'w \<Rightarrow> 'w sh_end option" where
  "term_child c m args w =
     Option.bind (str_bytes m (hd args)) (\<lambda>name.
       let fail = (\<lambda>w. Exited 127 (sh_write c (name @ c_text '': command not found'' @ [10]) w))
       in Some (case sh_execv c (if m (hd args) = 47 then name else c_text ''/bin/'' @ name) m args w of
              None \<Rightarrow> Replaced w
            | Some w \<Rightarrow> if m (hd args) = 47 then fail w
                        else case sh_execv c name m args w of None \<Rightarrow> Replaced w | Some w \<Rightarrow> fail w))"

definition execute_command :: "'w sh_calls \<Rightarrow> history \<Rightarrow> addr \<Rightarrow> addr \<Rightarrow> cmem \<Rightarrow> 'w \<Rightarrow> ('w sh_end \<times> cmem) option" where
  "execute_command c h line cmd_copy m w =
     Option.bind (str_bytes m line) (\<lambda>bs.
       if bs = [] then Some (Going w, m)
       else
         (let e = line + of_nat (length bs) - 1;
              m = (if m e = 10 then m(e := 0) else m)
          in Option.bind (strcpy m cmd_copy line) (\<lambda>m.
             Option.bind (parse_command m cmd_copy) (\<lambda>(args, m).
             map_option (\<lambda>r. (r, m))
               (case args of
                  [] \<Rightarrow> Some (Going w)
                | a0 # _ \<Rightarrow>
                    (case builtin_of m a0 of
                       Some b \<Rightarrow> run_builtin c h m args b w
                     | None \<Rightarrow>
                         (let (pid, w) = sh_fork c w
                          in if pid = 0 then term_child c m args w
                             else if pid > 0 then Some (Going (sh_wait c w))
                             else Some (Going (say c (''fork failed'' @ NL) w)))))))))"

text \<open>A round of \<^verbatim>\<open>main\<close>; \<open>gets\<close> is \<^verbatim>\<open>fgets\<close> on the 512 bytes of \<^verbatim>\<open>input\<close>.\<close>

definition term_round :: "'w sh_calls \<Rightarrow> ('w \<Rightarrow> byte list option \<times> 'w) \<Rightarrow> addr \<Rightarrow> addr \<Rightarrow> history \<Rightarrow> cmem \<Rightarrow> 'w
    \<Rightarrow> ('w sh_end \<times> history \<times> cmem) option" where
  "term_round c gets input cmd_copy h m w =
     (case gets (print_prompt c w) of
        (None, w) \<Rightarrow> Some (Exited 0 (say c (NL @ ''Terminal closed.'' @ NL) w), h, m)
      | (Some bs, w) \<Rightarrow>
          (let m = store_list input (bs @ [0]) (memset m input 0 512)
           in if m input = 10 \<or> m input = 0 then Some (Going w, h, m)
              else
                (let cmd = takeWhile (\<lambda>x. x \<noteq> 0 \<and> x \<noteq> 10) bs;
                     m = m(input + of_nat (length cmd) := 0);
                     h = add_to_history cmd h
                 in map_option (\<lambda>(e, m). (e, h, m)) (execute_command c h input cmd_copy m w))))"

partial_function (option) term_loop :: "'w sh_calls \<Rightarrow> ('w \<Rightarrow> byte list option \<times> 'w) \<Rightarrow> addr \<Rightarrow> addr \<Rightarrow> history \<Rightarrow> cmem \<Rightarrow> 'w
    \<Rightarrow> 'w sh_end option" where
  "term_loop c gets input cmd_copy h m w =
     Option.bind (term_round c gets input cmd_copy h m w) (\<lambda>(e, h, m).
       case e of Going w \<Rightarrow> term_loop c gets input cmd_copy h m w | _ \<Rightarrow> Some e)"

definition term_main :: "'w sh_calls \<Rightarrow> ('w \<Rightarrow> byte list option \<times> 'w) \<Rightarrow> addr \<Rightarrow> addr \<Rightarrow> cmem \<Rightarrow> 'w \<Rightarrow> 'w sh_end option" where
  "term_main c gets input cmd_copy m w =
     term_loop c gets input cmd_copy \<lparr>h_commands = replicate HISTORY_SIZE [], h_count = 0, h_current = 0\<rparr> m (print_welcome c w)"

subsection \<open>What the splitting leaves in memory\<close>

lemma within_ex: "n \<le> 2 ^ 32 \<Longrightarrow> within d n a \<longleftrightarrow> (\<exists>i < n. a = d + of_nat i)"
  unfolding within_def
proof
  assume "unat (a - d) < n"
  moreover have "a = d + of_nat (unat (a - d))" by simp
  ultimately show "\<exists>i < n. a = d + of_nat i" by blast
next
  assume "n \<le> 2 ^ 32" "\<exists>i < n. a = d + of_nat i"
  then show "unat (a - d) < n" by (auto simp: unat_of_nat)
qed

lemma within_at: "i < 2 ^ 32 \<Longrightarrow> within d n (d + of_nat i) \<longleftrightarrow> i < n"
  by (simp add: within_def unat_of_nat)

lemma within_shift:
  assumes "j + n \<le> 2 ^ 32" "within (d + of_nat j) n a"
  shows "within d (j + n) a" "\<not> within d j a"
proof -
  obtain i where i: "i < n" "a = d + of_nat (j + i)" using assms within_ex [of n "d + of_nat j" a] by (auto simp: add.assoc)
  then have "j + i < 2 ^ 32" using assms(1) by simp
  with i show "within d (j + n) a" "\<not> within d j a" by (simp_all only: within_at not_less)
qed

lemma cstr_append: "cstr m a (xs @ ys) \<longleftrightarrow> 0 \<notin> set xs \<and> (\<forall>i < length xs. m (a + of_nat i) = xs ! i) \<and> cstr m (a + of_nat (length xs)) ys"
proof (induction xs arbitrary: a)
  case (Cons x xs)
  then show ?case by (auto simp: add.assoc less_Suc_eq_0_disj)
qed simp

lemma cstr_keep:
  assumes "cstr m a xs" "\<And>i. i \<le> length xs \<Longrightarrow> m' (a + of_nat i) = m (a + of_nat i)"
  shows "cstr m' a xs"
  using assms by (rule cstr_cong)

lemma skip_space_ok:
  assumes "cstr m p xs" "length xs < 2 ^ 32"
  defines "k \<equiv> length (takeWhile is_space xs)"
  shows "skip_space m p = Some (\<lambda>a. if within p k a then 0 else m a, p + of_nat k)"
  using assms(1,2) unfolding k_def
proof (induction xs arbitrary: m p)
  case Nil
  then show ?case by (subst skip_space.simps) simp
next
  case (Cons x xs)
  show ?case
  proof (cases "is_space x")
    case True
    have "cstr (m(p := 0)) (p + 1) xs"
    proof (rule cstr_keep)
      show "cstr m (p + 1) xs" using Cons.prems by simp
      fix i assume "i \<le> length xs"
      then have "p + of_nat (Suc i) \<noteq> p" using Cons.prems(2) within_at [of "Suc i" p 1] within_at [of 0 p 1] by auto
      then show "(m(p := 0)) (p + 1 + of_nat i) = m (p + 1 + of_nat i)" by (simp add: add.assoc)
    qed
    let ?k = "length (takeWhile is_space xs)"
    have kl: "Suc ?k \<le> 2 ^ 32" using Cons.prems(2) length_takeWhile_le [of is_space xs] by simp
    have "within p (Suc ?k) a \<longleftrightarrow> a = p \<or> within (p + 1) ?k a" for a
      using within_ex [OF kl, of p a] within_ex [of ?k "p + 1" a] kl by (auto simp: less_Suc_eq_0_disj add.assoc)
    then have eq: "(\<lambda>a. if within (p + 1) ?k a then 0 else (m(p := 0)) a) = (\<lambda>a. if within p (Suc ?k) a then 0 else m a)"
      by auto
    have "skip_space m p = skip_space (m(p := 0)) (p + 1)"
      using Cons.prems(1) True by (subst skip_space.simps) simp
    also have "\<dots> = Some (\<lambda>a. if within (p + 1) ?k a then 0 else (m(p := 0)) a, p + 1 + of_nat ?k)"
      by (rule Cons.IH [OF \<open>cstr (m(p := 0)) (p + 1) xs\<close>]) (use Cons.prems(2) in simp)
    finally show ?thesis unfolding eq using True by (simp add: add.assoc)
  next
    case False
    then show ?thesis using Cons.prems by (subst skip_space.simps) simp
  qed
qed

lemma skip_word_ok:
  assumes "cstr m p xs"
  shows "skip_word m p = Some (p + of_nat (length (takeWhile (\<lambda>c. \<not> is_space c) xs)))"
  using assms
proof (induction xs arbitrary: p)
  case Nil
  then show ?case by (subst skip_word.simps) simp
next
  case (Cons x xs)
  then show ?case by (subst skip_word.simps) (simp add: add.assoc)
qed

text \<open>What a scan of the string \<open>xs\<close> at \<open>p\<close> gives: the arguments are its words, bytes outside are
  as before, and those inside are as before or zero.\<close>

definition splits :: "(byte \<Rightarrow> bool) \<Rightarrow> nat \<Rightarrow> cmem \<Rightarrow> addr \<Rightarrow> byte list \<Rightarrow> addr list \<Rightarrow> cmem \<Rightarrow> bool" where
  "splits sp n m p xs args m' \<longleftrightarrow> list_all2 (cstr m') args (line_words sp n xs)
     \<and> (\<forall>a. m' a = m a \<or> within p (length xs) a \<and> m' a = 0)"

lemma splits_shift:
  assumes "splits sp n m1 (p + of_nat j) ys args m'" "j + length ys = length xs" "length xs < 2 ^ 32"
    and "\<And>a. m1 a = m a \<or> within p j a \<and> m1 a = 0"
  shows "m' a = m a \<or> within p (length xs) a \<and> m' a = 0"
proof -
  have "within p (length xs) a" if "within p j a" using that assms(2) by (simp add: within_def)
  moreover have "within p (length xs) a" if "within (p + of_nat j) (length ys) a"
    using within_shift(1) [OF _ that] assms(2,3) by simp
  ultimately show ?thesis using assms(1,4) unfolding splits_def by metis
qed

lemma tokens_split:
  assumes "cstr m p xs" "length xs < 2 ^ 32"
  shows "\<exists>args m'. tokens n m p = Some (args, m') \<and> splits is_space n m p xs args m'
    \<and> (0 < n \<longrightarrow> xs \<noteq> [] \<longrightarrow> is_space (hd xs) \<longrightarrow> m' p = 0)"
  using assms
proof (induction n arbitrary: m p xs)
  case 0
  then show ?case by (simp add: splits_def)
next
  case (Suc n)
  let ?k = "length (takeWhile is_space xs)" and ?ys = "dropWhile is_space xs"
  show ?case
  proof (cases "xs = []")
    case True
    then show ?thesis using Suc.prems by (simp add: splits_def)
  next
    case False
    define mm where "mm = (\<lambda>a. if within p ?k a then 0 else m a)"
    have len: "?k + length ?ys = length xs" by (metis length_append takeWhile_dropWhile_id)
    have skip: "skip_space m p = Some (mm, p + of_nat ?k)" unfolding mm_def by (rule skip_space_ok [OF Suc.prems])
    have mp: "m p \<noteq> 0" using False Suc.prems(1) by (cases xs) auto
    have first: "mm p = 0" if "is_space (hd xs)"
      using that False within_at [of 0 p ?k] by (cases xs) (auto simp: mm_def)
    have ys: "cstr mm (p + of_nat ?k) ?ys"
    proof (rule cstr_keep)
      show "cstr m (p + of_nat ?k) ?ys"
        using Suc.prems(1) cstr_append [of m p "takeWhile is_space xs" ?ys] by simp
      fix i assume "i \<le> length ?ys"
      then show "mm (p + of_nat ?k + of_nat i) = m (p + of_nat ?k + of_nat i)"
        using within_at [of "?k + i" p ?k] len Suc.prems(2) by (simp add: mm_def add.assoc)
    qed
    show ?thesis
    proof (cases "?ys")
      case Nil
      have "mm (p + of_nat ?k) = 0" using ys unfolding Nil by (simp only: cstr.simps)
      then have "tokens (Suc n) m p = Some ([], mm)" using mp skip by (simp only: tokens.simps if_False bind.bind_lunit prod.case if_True refl)
      moreover have "line_words is_space (Suc n) xs = []" using Nil by (simp only: line_words.simps list.case)
      moreover have "?k = length xs" using len Nil by simp
      ultimately show ?thesis using first by (auto simp: splits_def mm_def)
    next
      case (Cons y ys')
      have mq: "mm (p + of_nat ?k) \<noteq> 0" using ys unfolding Cons by simp
      let ?w = "takeWhile (\<lambda>c. \<not> is_space c) ?ys" and ?zs = "dropWhile (\<lambda>c. \<not> is_space c) ?ys"
      let ?q = "p + of_nat (?k + length ?w)"
      have wz: "?w @ ?zs = ?ys" by simp
      then have wl: "length ?w + length ?zs = length ?ys" by (metis length_append)
      have zs: "cstr mm ?q ?zs" using ys wz cstr_append [of mm "p + of_nat ?k" ?w ?zs] by (simp add: add.assoc)
      have "length ?zs < 2 ^ 32" using wl len Suc.prems(2) by linarith
      from Suc.IH [OF zs this] obtain args m' where r: "tokens n mm ?q = Some (args, m')"
        "splits is_space n mm ?q ?zs args m'" "0 < n \<longrightarrow> ?zs \<noteq> [] \<longrightarrow> is_space (hd ?zs) \<longrightarrow> m' ?q = 0" by blast
      have run: "tokens (Suc n) m p = Some ((p + of_nat ?k) # args, m')"
        using mp skip mq r(1) skip_word_ok [OF ys] by (simp add: add.assoc)
      have frame: "m' a = m a \<or> within p (length xs) a \<and> m' a = 0" for a
        by (rule splits_shift [OF r(2)]) (use wl len Suc.prems(2) in \<open>auto simp: within_def mm_def\<close>)
      have keep: "m' (p + of_nat (?k + i)) = mm (p + of_nat (?k + i))" if "i < length ?w" for i
      proof -
        have "\<not> within ?q (length ?zs) (p + of_nat (?k + i))"
          using within_shift(2) [of "?k + length ?w" "length ?zs" p] within_at [of "?k + i" p "?k + length ?w"] that wl len Suc.prems(2)
          by fastforce
        then show ?thesis using r(2) unfolding splits_def by blast
      qed
      have words: "line_words is_space (Suc n) xs = (if n = 0 then [?ys] else ?w # line_words is_space n ?zs)"
        using Cons by simp
      have "list_all2 (cstr m') ((p + of_nat ?k) # args) (line_words is_space (Suc n) xs)"
      proof (cases "n = 0")
        case True
        then have "m' = mm" "args = []" using r(1) by simp_all
        then show ?thesis using True words ys by simp
      next
        case nz: False
        have "m' ?q = 0"
        proof (cases "?zs = []")
          case True
          then have "mm ?q = 0" using zs unfolding True by (simp only: cstr.simps)
          then show ?thesis using r(2) True unfolding splits_def by (metis within_0 list.size(3))
        next
          case False
          then show ?thesis using r(3) nz hd_dropWhile [OF False] by simp
        qed
        moreover have "0 \<notin> set ?w" "\<forall>i < length ?w. mm (p + of_nat (?k + i)) = ?w ! i"
          using ys wz cstr_append [of mm "p + of_nat ?k" ?w ?zs] by (simp_all add: add.assoc)
        ultimately have "cstr m' (p + of_nat ?k) ?w"
          using cstr_append [of m' "p + of_nat ?k" ?w "[]"] keep by (simp add: add.assoc)
        then show ?thesis using nz words r(2) unfolding splits_def by simp
      qed
      moreover have "m' p = 0" if "is_space (hd xs)"
      proof -
        have "mm p = 0" by (rule first [OF that])
        then show ?thesis using r(2) unfolding splits_def by metis
      qed
      ultimately show ?thesis using run frame unfolding splits_def by blast
    qed
  qed
qed

text \<open>The scan of the terminal: outside a word, and inside one, whose rest is kept and closed.\<close>

lemma line_words_blank: "sp x \<Longrightarrow> line_words sp n (x # xs) = line_words sp n xs"
  by (cases n) simp_all

lemma not_within_1: "length xs < 2 ^ 32 - 1 \<Longrightarrow> \<not> within (p + 1) (length xs) p"
  using within_shift(2) [of 1 "length xs" p p] within_at [of 0 p 1] by auto

lemma splits_outside: "splits sp n m p xs args m' \<Longrightarrow> \<not> within p (length xs) a \<Longrightarrow> m' a = m a"
  unfolding splits_def by metis

lemma splits_zero: "splits sp n m p xs args m' \<Longrightarrow> m a = 0 \<Longrightarrow> m' a = 0"
  unfolding splits_def by metis

lemma parse_split:
  assumes "cstr m p xs" "length xs < 2 ^ 32 - 1"
  shows "(\<exists>args m'. parse_loop m p False n = Some (args, m') \<and> splits is_blank n m p xs args m')
    \<and> (0 < n \<longrightarrow> (\<exists>args m'. parse_loop m p True n = Some (args, m')
        \<and> list_all2 (cstr m') args (line_words is_blank n (dropWhile (\<lambda>c. \<not> is_blank c) xs))
        \<and> (\<forall>a. m' a = m a \<or> within p (length xs) a \<and> m' a = 0)
        \<and> cstr m' p (takeWhile (\<lambda>c. \<not> is_blank c) xs)))"
  using assms
proof (induction xs arbitrary: m p n)
  case Nil
  then have "parse_loop m p b n = Some ([], m)" for b by (subst parse_loop.simps) simp
  moreover have "line_words is_blank n [] = []" by (cases n) simp_all
  ultimately show ?case using Nil by (auto simp: splits_def)
next
  case (Cons x xs)
  have x: "m p = x" "x \<noteq> 0" "cstr m (p + 1) xs" "length xs < 2 ^ 32 - 1" using Cons.prems by simp_all
  have out: "\<not> within (p + 1) (length xs) p" by (rule not_within_1 [OF x(4)])
  have wider: "within p (length (x # xs)) a" if "within (p + 1) (length xs) a" for a
    using within_shift(1) [of 1 "length xs" p a] that x(4) by simp
  have at: "within p (length (x # xs)) p" using within_at [of 0 p "length (x # xs)"] by simp
  show ?case
  proof (cases "is_blank x")
    case True
    obtain args m' where a: "parse_loop m (p + 1) False n = Some (args, m')" "splits is_blank n m (p + 1) xs args m'"
      using Cons.IH [OF x(3,4)] by blast
    have "parse_loop m p False n = Some (if n = 0 then ([], m) else (args, m'))"
      using x True a(1) by (subst parse_loop.simps) simp
    moreover have "splits is_blank n m p (x # xs) args m'"
      using a(2) wider line_words_blank [of is_blank x n xs] True unfolding splits_def by metis
    moreover have "splits is_blank 0 m p (x # xs) [] m" by (simp add: splits_def)
    moreover have "\<exists>args m'. parse_loop m p True n = Some (args, m') \<and> list_all2 (cstr m') args (line_words is_blank n (x # xs))
        \<and> (\<forall>a. m' a = m a \<or> within p (length (x # xs)) a \<and> m' a = 0) \<and> m' p = 0" if "0 < n"
    proof -
      have "cstr (m(p := 0)) (p + 1) xs"
      proof (rule cstr_keep [OF x(3)])
        fix i assume "i \<le> length xs"
        then have "p + of_nat (Suc i) \<noteq> p" using x(4) within_at [of "Suc i" p 1] within_at [of 0 p 1] by auto
        then show "(m(p := 0)) (p + 1 + of_nat i) = m (p + 1 + of_nat i)" by (simp add: add.assoc)
      qed
      then obtain args m' where b: "parse_loop (m(p := 0)) (p + 1) False n = Some (args, m')"
        "splits is_blank n (m(p := 0)) (p + 1) xs args m'" using Cons.IH x(4) by blast
      have "parse_loop m p True n = Some (args, m')" using x True that b(1) by (subst parse_loop.simps) simp
      moreover have "m' p = 0" using splits_zero [OF b(2), of p] by simp
      moreover have "m' a = m a \<or> within p (length (x # xs)) a \<and> m' a = 0" for a
        using b(2) wider at \<open>m' p = 0\<close> unfolding splits_def by (metis fun_upd_other)
      ultimately show ?thesis using b(2) True unfolding splits_def line_words_blank [of is_blank, OF True] by blast
    qed
    ultimately show ?thesis using True by (cases "n = 0") auto
  next
    case False
    have closed: "\<exists>args m'. parse_loop m (p + 1) True n = Some (args, m')
        \<and> list_all2 (cstr m') args (line_words is_blank n (dropWhile (\<lambda>c. \<not> is_blank c) xs))
        \<and> (\<forall>a. m' a = m a \<or> within p (length (x # xs)) a \<and> m' a = 0)
        \<and> cstr m' p (x # takeWhile (\<lambda>c. \<not> is_blank c) xs)" if pos: "0 < n" for n
    proof -
      obtain args m' where b: "parse_loop m (p + 1) True n = Some (args, m')"
        "list_all2 (cstr m') args (line_words is_blank n (dropWhile (\<lambda>c. \<not> is_blank c) xs))"
        "\<forall>a. m' a = m a \<or> within (p + 1) (length xs) a \<and> m' a = 0" "cstr m' (p + 1) (takeWhile (\<lambda>c. \<not> is_blank c) xs)"
        using Cons.IH [OF x(3,4), of n, THEN conjunct2, THEN mp, OF pos] by blast
      moreover have "m' p = x" using b(3) out x(1) by metis
      ultimately show ?thesis using x(2) wider by (intro exI [of _ args] exI [of _ m']) auto
    qed
    have "parse_loop m p True n = parse_loop m (p + 1) True n" if "0 < n"
      using x False that by (subst parse_loop.simps) simp
    moreover have "\<exists>args m'. parse_loop m p False n = Some (args, m') \<and> splits is_blank n m p (x # xs) args m'"
    proof (cases n)
      case 0
      then have "parse_loop m p False n = Some ([], m)" by (subst parse_loop.simps) simp
      then show ?thesis using 0 by (simp add: splits_def)
    next
      case (Suc l)
      have run: "parse_loop m p False n = Option.bind (parse_loop m (p + 1) True l) (\<lambda>(args, m). Some (p # args, m))"
        using x False Suc by (subst parse_loop.simps) simp
      show ?thesis
      proof (cases "l = 0")
        case True
        then have "parse_loop m (p + 1) True l = Some ([], m)" by (subst parse_loop.simps) simp
        then show ?thesis using run True Suc False x Cons.prems(1) by (simp add: splits_def)
      next
        case nz: False
        then show ?thesis using closed [of l] run Suc False by (auto simp: splits_def)
      qed
    qed
    ultimately show ?thesis using closed [of n] False by simp
  qed
qed

subsection \<open>Properties\<close>

text \<open>C39: A shell splits its line into words: for a line in the buffer, \<^verbatim>\<open>tokenize\<close> returns, each
  argument is a string with the next word of the line (with room for \<open>max_args - 1\<close>, the last
  of them the rest of the line), and memory outside the line is as it was.\<close>

theorem tokenize_words:
  assumes "cstr m buf line" "length line < 2 ^ 32"
  shows "\<exists>args m'. tokenize m buf max_args = Some (args, m')
    \<and> list_all2 (cstr m') args (line_words is_space (max_args - 1) line)
    \<and> (\<forall>a. \<not> within buf (length line) a \<longrightarrow> m' a = m a)"
  using tokens_split [OF assms, of "max_args - 1"] splits_outside unfolding tokenize_def splits_def by metis

text \<open>The line is \<^verbatim>\<open>ls -l\<close> and a newline.\<close>

theorem tokenize_words_witness:
  "\<exists>args m'. tokenize (store_list 100 [108, 115, 32, 45, 108, 10, 0] (\<lambda>_. 7)) 100 8 = Some (args, m')
    \<and> list_all2 (cstr m') args [[108, 115], [45, 108]]"
proof -
  have "line_words is_space 7 [108, 115, 32, 45, 108, 10] = [[108, 115], [45, 108]]" by code_simp
  then show ?thesis
    using tokenize_words [of "store_list 100 [108, 115, 32, 45, 108, 10, 0] (\<lambda>_. 7)" 100 "[108, 115, 32, 45, 108, 10]" 8]
    by (auto simp del: line_words.simps)
qed

text \<open>The terminal does the same with its own blanks and room for 31.\<close>

lemma parse_command_words:
  assumes "cstr m line xs" "length xs < 2 ^ 32 - 1"
  shows "\<exists>args m'. parse_command m line = Some (args, m') \<and> list_all2 (cstr m') args (line_words is_blank 31 xs)
    \<and> (\<forall>a. \<not> within line (length xs) a \<longrightarrow> m' a = m a)"
  using parse_split [OF assms, of 31] splits_outside unfolding parse_command_def splits_def by metis

text \<open>As long as there is room for another, the arguments are words.\<close>

lemma line_words_clean: "length (line_words sp n xs) < n \<Longrightarrow> w \<in> set (line_words sp n xs) \<Longrightarrow> w \<noteq> [] \<and> (\<forall>c \<in> set w. \<not> sp c)"
proof (induction n arbitrary: xs)
  case (Suc n)
  show ?case
  proof (cases "dropWhile sp xs")
    case Nil
    then have "line_words sp (Suc n) xs = []" by (simp only: line_words.simps list.case)
    then show ?thesis using Suc.prems(2) by (simp del: line_words.simps)
  next
    case (Cons y ys)
    then have "\<not> sp y" by (metis hd_dropWhile list.distinct(1) list.sel(1))
    have e: "line_words sp (Suc n) xs = (if n = 0 then [y # ys]
        else takeWhile (\<lambda>c. \<not> sp c) (y # ys) # line_words sp n (dropWhile (\<lambda>c. \<not> sp c) (y # ys)))" by (simp add: Cons)
    have nz: "n \<noteq> 0" using Suc.prems(1) unfolding e by (cases n) simp_all
    define ws where "ws = line_words sp n (dropWhile (\<lambda>c. \<not> sp c) (y # ys))"
    have "length ws < n" "w = takeWhile (\<lambda>c. \<not> sp c) (y # ys) \<or> w \<in> set ws"
      using Suc.prems nz unfolding e ws_def by simp_all
    then show ?thesis using Suc.IH unfolding ws_def
    proof (elim disjE)
      assume "w = takeWhile (\<lambda>c. \<not> sp c) (y # ys)"
      then show ?thesis using \<open>\<not> sp y\<close> by (auto dest: set_takeWhileD)
    qed blast
  qed
qed simp

text \<open>Seven words and a newline: the seventh argument has the newline at its end.\<close>

lemma tokenize_seventh:
  "line_words is_space 7 (c_text ''a b c d e f g'' @ [10]) = [[97], [98], [99], [100], [101], [102], [103, 10]]"
  by code_simp

lemma cd_writes_zero: "sh_cd c m [a] w = Some (sh_write c (c_text ''cd: missing operand'' @ [10, 0]) w)"
  by (simp add: sh_cd_def sh_lit_def NL_def c_text_def)

text \<open>The history is the last commands.\<close>

definition history_ok :: "history \<Rightarrow> bool" where
  "history_ok h \<longleftrightarrow> length (h_commands h) = HISTORY_SIZE \<and> h_count h \<le> HISTORY_SIZE"

definition remembered :: "history \<Rightarrow> byte list list" where
  "remembered h = take (h_count h) (h_commands h)"

lemma shift_down: "n < length cs \<Longrightarrow> fold (\<lambda>i cs. cs[i := cs ! (i + 1)]) [0..<n] cs = take n (tl cs) @ drop n cs"
proof (induction n)
  case (Suc n)
  then have "fold (\<lambda>i cs. cs[i := cs ! (i + 1)]) [0..<Suc n] cs
      = (take n (tl cs) @ drop n cs)[n := (take n (tl cs) @ drop n cs) ! Suc n]" by simp
  also have "\<dots> = take n (tl cs) @ (drop n cs)[0 := drop n cs ! 1]"
    using Suc.prems by (simp add: list_update_append nth_append)
  also have "\<dots> = take (Suc n) (tl cs) @ drop (Suc n) cs"
    using Suc.prems by (simp add: take_Suc_conv_app_nth nth_tl Cons_nth_drop_Suc [symmetric])
  finally show ?case .
qed (cases cs; simp)

definition lastn :: "nat \<Rightarrow> 'a list \<Rightarrow> 'a list" where
  "lastn n xs = drop (length xs - n) xs"

lemma lastn_append: "lastn n (lastn n xs @ ys) = lastn n (xs @ ys)"
  by (cases "n \<le> length xs") (auto simp: lastn_def add.commute)

lemma history_add:
  assumes "history_ok h"
  shows "history_ok (add_to_history cmd h) \<and> remembered (add_to_history cmd h) = lastn HISTORY_SIZE (remembered h @ [cmd])"
proof (cases "h_count h < HISTORY_SIZE")
  case True
  then show ?thesis using assms
    by (simp add: add_to_history_def Let_def history_ok_def remembered_def lastn_def take_Suc_conv_app_nth)
next
  case False
  then have c: "h_count h = HISTORY_SIZE" "length (h_commands h) = HISTORY_SIZE" using assms by (simp_all add: history_ok_def)
  have "fold (\<lambda>i cs. cs[i := cs ! (i + 1)]) [0..<HISTORY_SIZE - 1] (h_commands h)
      = take (HISTORY_SIZE - 1) (tl (h_commands h)) @ drop (HISTORY_SIZE - 1) (h_commands h)"
    by (rule shift_down) (simp add: c)
  moreover have "drop (HISTORY_SIZE - 1) (h_commands h) = [h_commands h ! (HISTORY_SIZE - 1)]"
    using c Cons_nth_drop_Suc [of "HISTORY_SIZE - 1" "h_commands h"] by simp
  ultimately have "h_commands (add_to_history cmd h) = tl (h_commands h) @ [cmd]"
    using c unfolding add_to_history_def by (simp add: Let_def list_update_append del: upt_Suc)
  then show ?thesis using c
    by (cases "h_commands h") (simp_all add: history_ok_def remembered_def lastn_def add_to_history_def Let_def)
qed

lemma history_last:
  assumes "history_ok h"
  shows "history_ok (fold add_to_history cmds h) \<and> remembered (fold add_to_history cmds h) = lastn HISTORY_SIZE (remembered h @ cmds)"
  using assms
proof (induction cmds arbitrary: h)
  case Nil
  then show ?case by (simp add: lastn_def history_ok_def remembered_def)
next
  case (Cons cmd cmds)
  then show ?case using history_add [OF Cons.prems, of cmd] lastn_append [of HISTORY_SIZE "remembered h @ [cmd]" cmds] by simp
qed

end
