(* ===== verification/Tty_Ring.thy ===== *)
theory Tty_Ring
  imports Queues Sig Slp Umem
begin

text \<open>
  \<^verbatim>\<open>kernel/drivers/char/tty.c\<close>, a line discipline over queues in arrays that the kernel does
  not link (\<^verbatim>\<open>kernel/tty.c\<close> took its place), with the structures of \<^verbatim>\<open>include/unix/tty.h\<close>.
  The names end in \<open>_r\<close> where \<open>Tty\<close> has them too.  The output routine of a device, the
  addresses of its queues as channels, and its process group (a field the header does not
  have) are arguments.
\<close>

record char_ring =
  r_cc :: nat
  r_cf :: nat
  r_cl :: nat
  r_buf :: "byte list"

abbreviation (input) CLSIZE :: nat where "CLSIZE \<equiv> 256"

record ring_tty =
  rt_rawq :: char_ring
  rt_canq :: char_ring
  rt_outq :: char_ring
  rt_flags :: int32_t
  rt_state :: int32_t
  rt_col :: int
  rt_delct :: int

text \<open>A device: its output routine, where its queues are, its group.\<close>

record line =
  l_oproc :: "(ring_tty \<times> kernel \<Rightarrow> ring_tty \<times> kernel) option"
  l_rawq :: chan
  l_canq :: chan
  l_outq :: chan
  l_pgid :: int

subsection \<open>Queues\<close>

text \<open>\<open>None\<close> is the value \<^verbatim>\<open>-1\<close> of an empty queue; a character is read as a signed one.\<close>

definition getc_r :: "char_ring \<Rightarrow> byte option \<times> char_ring" where
  "getc_r q =
     (if r_cc q = 0 then (None, q)
      else (Some (r_buf q ! r_cf q), q\<lparr>r_cf := (r_cf q + 1) mod CLSIZE, r_cc := r_cc q - 1\<rparr>))"

definition putc_r :: "byte \<Rightarrow> char_ring \<Rightarrow> int \<times> char_ring" where
  "putc_r c q =
     (if r_cc q \<ge> CLSIZE then (- 1, q)
      else (0, q\<lparr>r_buf := (r_buf q)[r_cl q := c], r_cl := (r_cl q + 1) mod CLSIZE, r_cc := r_cc q + 1\<rparr>))"

definition unputc_r :: "char_ring \<Rightarrow> byte option \<times> char_ring" where
  "unputc_r q =
     (if r_cc q = 0 then (None, q)
      else (let l = (r_cl q + CLSIZE - 1) mod CLSIZE in (Some (r_buf q ! l), q\<lparr>r_cl := l, r_cc := r_cc q - 1\<rparr>)))"

text \<open>The loops that take a queue to its end, once for each character.\<close>

primrec drain_ring :: "nat \<Rightarrow> char_ring \<Rightarrow> char_ring" where
  "drain_ring 0 q = q"
| "drain_ring (Suc n) q = drain_ring n (snd (getc_r q))"

primrec unput_all :: "nat \<Rightarrow> char_ring \<Rightarrow> char_ring" where
  "unput_all 0 q = q"
| "unput_all (Suc n) q = unput_all n (snd (unputc_r q))"

primrec move_all :: "nat \<Rightarrow> char_ring \<times> char_ring \<Rightarrow> char_ring \<times> char_ring" where
  "move_all 0 qs = qs"
| "move_all (Suc n) qs =
     (case getc_r (fst qs) of
        (None, q) \<Rightarrow> move_all n (q, snd (putc_r (- 1) (snd qs)))
      | (Some c, q) \<Rightarrow> move_all n (q, snd (putc_r c (snd qs))))"

subsection \<open>Output\<close>

definition queue_output :: "byte \<Rightarrow> ring_tty \<Rightarrow> ring_tty" where
  "queue_output c t = t\<lparr>rt_outq := snd (putc_r c (rt_outq t))\<rparr>"

text \<open>The blanks of a tab: at most eight.\<close>

primrec tab_loop :: "nat \<Rightarrow> ring_tty \<Rightarrow> ring_tty" where
  "tab_loop 0 t = t"
| "tab_loop (Suc n) t =
     (let t = queue_output 32 t; t = t\<lparr>rt_col := rt_col t + 1\<rparr> in if rt_col t mod 8 \<noteq> 0 then tab_loop n t else t)"

abbreviation (input) CRMOD_R :: int32_t where "CRMOD_R \<equiv> 16"
abbreviation (input) ECHO_R :: int32_t where "ECHO_R \<equiv> 8"
abbreviation (input) LCASE_R :: int32_t where "LCASE_R \<equiv> 4"
abbreviation (input) CBREAK_R :: int32_t where "CBREAK_R \<equiv> 2"
abbreviation (input) RAW_R :: int32_t where "RAW_R \<equiv> 32"
abbreviation (input) ISOPEN_R :: int32_t where "ISOPEN_R \<equiv> 4"
abbreviation (input) CARR_ON_R :: int32_t where "CARR_ON_R \<equiv> 16"
abbreviation (input) ASLEEP_R :: int32_t where "ASLEEP_R \<equiv> 64"
abbreviation (input) XCLUDE_R :: int32_t where "XCLUDE_R \<equiv> 128"
abbreviation (input) TTSTOP_R :: int32_t where "TTSTOP_R \<equiv> 256"

definition ttyoutput_r :: "int \<Rightarrow> ring_tty \<Rightarrow> ring_tty" where
  "ttyoutput_r c t =
     (if c = 9 \<and> \<not> hasf (rt_flags t) RAW_R then tab_loop 8 t
      else queue_output (of_int c)
        (if c = 10 \<and> \<not> hasf (rt_flags t) RAW_R then t\<lparr>rt_col := 0\<rparr>
         else if c \<ge> 32 then t\<lparr>rt_col := rt_col t + 1\<rparr> else t))"

definition ttstart_r :: "line \<Rightarrow> ring_tty \<times> kernel \<Rightarrow> ring_tty \<times> kernel" where
  "ttstart_r l s =
     (if hasf (rt_state (fst s)) TTSTOP_R then s else case l_oproc l of None \<Rightarrow> s | Some f \<Rightarrow> f s)"

definition flushtty_r :: "line \<Rightarrow> ring_tty \<times> kernel \<Rightarrow> ring_tty \<times> kernel" where
  "flushtty_r l s =
     (let t = fst s
      in (t\<lparr>rt_rawq := drain_ring (r_cc (rt_rawq t)) (rt_rawq t), rt_canq := drain_ring (r_cc (rt_canq t)) (rt_canq t),
            rt_outq := drain_ring (r_cc (rt_outq t)) (rt_outq t)\<rparr>,
          wakeup (l_outq l) (wakeup (l_canq l) (wakeup (l_rawq l) (snd s)))))"

definition ttyopen_r :: "ring_tty \<Rightarrow> ring_tty" where
  "ttyopen_r t =
     (let t = t\<lparr>rt_state := rt_state t OR ISOPEN_R\<rparr> in if hasf (rt_state t) XCLUDE_R then t else t\<lparr>rt_delct := 0\<rparr>)"

definition ttyclose_r :: "ring_tty \<Rightarrow> ring_tty" where
  "ttyclose_r t = t\<lparr>rt_state := 0\<rparr>"

subsection \<open>Input\<close>

text \<open>The end of \<^verbatim>\<open>ttyinput\<close>, after the character is in the raw queue.\<close>

definition canon_input :: "line \<Rightarrow> int \<Rightarrow> ring_tty \<times> kernel \<Rightarrow> ring_tty \<times> kernel" where
  "canon_input l c s =
     (let t = fst s
      in if c = 35 then (t\<lparr>rt_rawq := snd (unputc_r (rt_rawq t))\<rparr>, snd s)
         else if c = 64 then (t\<lparr>rt_rawq := unput_all (r_cc (rt_rawq t)) (rt_rawq t)\<rparr>, snd s)
         else if c = 10 \<or> c = 4 then
           (let qs = move_all (r_cc (rt_rawq t)) (rt_rawq t, rt_canq t)
            in (t\<lparr>rt_delct := rt_delct t + 1, rt_rawq := fst qs, rt_canq := snd qs\<rparr>, wakeup (l_canq l) (snd s)))
         else s)"

definition queue_input :: "line \<Rightarrow> int \<Rightarrow> ring_tty \<times> kernel \<Rightarrow> ring_tty \<times> kernel" where
  "queue_input l c s =
     (let flags = rt_flags (fst s);
          s = (if hasf flags ECHO_R then ttstart_r l (ttyoutput_r c (fst s), snd s) else s);
          s = ((fst s)\<lparr>rt_rawq := snd (putc_r (of_int c) (rt_rawq (fst s)))\<rparr>, snd s)
      in if \<not> hasf flags RAW_R \<and> \<not> hasf flags CBREAK_R then canon_input l c s
         else (fst s, wakeup (l_canq l) (snd s)))"

definition ttyinput_r :: "line \<Rightarrow> int \<Rightarrow> ring_tty \<times> kernel \<Rightarrow> ring_tty \<times> kernel" where
  "ttyinput_r l c s =
     (if hasf (rt_flags (fst s)) RAW_R then queue_input l c s
      else
        (let c = c mod 128; t = fst s
         in if c = 127 then (let s = flushtty_r l s in (fst s, pgsignal (l_pgid l) 2 (snd s)))
            else if c = 28 then (let s = flushtty_r l s in (fst s, pgsignal (l_pgid l) 3 (snd s)))
            else if c = 19 then (t\<lparr>rt_state := rt_state t OR TTSTOP_R\<rparr>, snd s)
            else if c = 17 then ttstart_r l (t\<lparr>rt_state := rt_state t AND NOT TTSTOP_R\<rparr>, snd s)
            else queue_input l c s))"

subsection \<open>Reading and writing\<close>

text \<open>\<^verbatim>\<open>*u.u_base++\<close>, without the translation of a user address: the byte at that address itself.\<close>

definition base_addr :: "kernel \<Rightarrow> uint32_t" where
  "base_addr k = (case u_base (k_u k) of UAddr a \<Rightarrow> a | KDent n \<Rightarrow> of_nat n | KLocal n \<Rightarrow> of_nat n)"

definition base_step :: "kernel \<Rightarrow> kernel" where
  "base_step = upd_u (\<lambda>u. u\<lparr>u_base := caddr_add (u_base u) 1, u_count := u_count u - 1\<rparr>)"

primrec read_loop :: "nat \<Rightarrow> ring_tty \<times> kernel \<Rightarrow> ring_tty \<times> kernel" where
  "read_loop 0 s = s"
| "read_loop (Suc n) s =
     (if u_count (k_u (snd s)) = 0 then s
      else
        (case getc_r (rt_canq (fst s)) of
           (None, q) \<Rightarrow> s
         | (Some c, q) \<Rightarrow>
             (let t = (fst s)\<lparr>rt_canq := q\<rparr>
              in if c = 4 then (t, snd s)
                 else read_loop n (t, base_step ((snd s)\<lparr>phys := (phys (snd s))(base_addr (snd s) := c)\<rparr>)))))"

text \<open>After the first test; a reader that was woken goes on here.\<close>

definition ttread_wait :: "line \<Rightarrow> ring_tty \<times> kernel \<Rightarrow> ring_tty \<times> unit res" where
  "ttread_wait l s =
     (if r_cc (rt_canq (fst s)) \<noteq> 0
      then (let s = read_loop (r_cc (rt_canq (fst s))) s in (fst s, Ret () (snd s)))
      else if \<not> hasf (rt_state (fst s)) CARR_ON_R then (fst s, Ret () (snd s))
      else (fst s, sleep (l_canq l) 28 (snd s)))"

definition ttread_r :: "line \<Rightarrow> ring_tty \<times> kernel \<Rightarrow> ring_tty \<times> unit res" where
  "ttread_r l s =
     (if \<not> hasf (rt_state (fst s)) CARR_ON_R then (fst s, Ret () (upd_u (\<lambda>u. u\<lparr>u_error := EIO\<rparr>) (snd s)))
      else ttread_wait l s)"

definition write_char :: "byte \<Rightarrow> ring_tty \<Rightarrow> ring_tty" where
  "write_char b t =
     (let c = sint b
      in if hasf (rt_flags t) RAW_R then ttyoutput_r c t
         else
           (let t = (if c = 10 \<and> hasf (rt_flags t) CRMOD_R then ttyoutput_r 13 t else t)
            in ttyoutput_r (if hasf (rt_flags t) LCASE_R \<and> 65 \<le> c \<and> c \<le> 90 then c + 32 else c) t))"

text \<open>The loop of \<^verbatim>\<open>ttwrite\<close>; a writer that was woken goes on with it for what is left of \<^verbatim>\<open>u_count\<close>.\<close>

primrec write_loop :: "nat \<Rightarrow> line \<Rightarrow> ring_tty \<times> kernel \<Rightarrow> ring_tty \<times> unit res" where
  "write_loop 0 l s = (fst s, Ret () (snd s))"
| "write_loop (Suc n) l s =
     (if r_cc (rt_outq (fst s)) > 100
      then ((fst s)\<lparr>rt_state := rt_state (fst s) OR ASLEEP_R\<rparr>, sleep (l_outq l) 29 (snd s))
      else write_loop n l (write_char (phys (snd s) (base_addr (snd s))) (fst s), base_step (snd s)))"

definition ttwrite_r :: "line \<Rightarrow> ring_tty \<times> kernel \<Rightarrow> ring_tty \<times> unit res" where
  "ttwrite_r l s =
     (if \<not> hasf (rt_state (fst s)) CARR_ON_R then (fst s, Ret () (upd_u (\<lambda>u. u\<lparr>u_error := EIO\<rparr>) (snd s)))
      else write_loop (unat (u_count (k_u (snd s)))) l s)"

subsection \<open>The queues hold 256 characters, first in, first out\<close>

definition ring_inv :: "char_ring \<Rightarrow> bool" where
  "ring_inv q \<longleftrightarrow> length (r_buf q) = CLSIZE \<and> r_cf q < CLSIZE \<and> r_cc q \<le> CLSIZE \<and> r_cl q = (r_cf q + r_cc q) mod CLSIZE"

definition queued :: "char_ring \<Rightarrow> byte list" where
  "queued q = ring_slice CLSIZE (r_buf q) (r_cf q) (r_cc q)"

definition deq_r :: "char_ring \<Rightarrow> (byte \<times> char_ring) option" where
  "deq_r q = (case getc_r q of (None, q) \<Rightarrow> None | (Some c, q) \<Rightarrow> Some (c, q))"

lemma queued_length [simp]: "length (queued q) = r_cc q"
  by (simp add: queued_def)

lemma putc_r_inv: "ring_inv q \<Longrightarrow> ring_inv (snd (putc_r c q))"
  by (auto simp: ring_inv_def putc_r_def mod_simps)

lemma putc_r_queued:
  "ring_inv q \<Longrightarrow> queued (snd (putc_r c q)) = (if r_cc q < CLSIZE then queued q @ [c] else queued q)"
  using ring_slice_put [of "r_cc q" CLSIZE "r_buf q" "r_cf q" c] by (simp add: queued_def putc_r_def ring_inv_def)

lemma getc_r_empty: "queued q = [] \<Longrightarrow> getc_r q = (None, q)"
  using queued_length [of q] by (simp add: getc_r_def)

lemma getc_r_queued:
  assumes "ring_inv q" "queued q = c # cs"
  shows "\<exists>q'. getc_r q = (Some c, q') \<and> queued q' = cs \<and> ring_inv q'"
proof -
  obtain n where n: "r_cc q = Suc n" using assms(2) queued_length [of q] by (cases "r_cc q") auto
  let ?q = "q\<lparr>r_cf := (r_cf q + 1) mod CLSIZE, r_cc := n\<rparr>"
  have "r_buf q ! (r_cf q mod CLSIZE) = c" "queued ?q = cs"
    using assms(2) by (simp_all add: queued_def n ring_slice_get)
  moreover have "ring_inv ?q" using assms(1) n by (auto simp: ring_inv_def mod_simps)
  ultimately show ?thesis using n assms(1) by (intro exI [of _ ?q]) (simp add: getc_r_def ring_inv_def)
qed

interpretation rq: bounded_queue "\<lambda>c q. snd (putc_r c q)" deq_r queued ring_inv CLSIZE
proof unfold_locales
  fix q :: char_ring and c
  assume inv: "ring_inv q"
  show "ring_inv (snd (putc_r c q))" by (rule putc_r_inv [OF inv])
  show "queued (snd (putc_r c q)) = (if length (queued q) < CLSIZE then queued q @ [c] else queued q)"
    by (simp add: putc_r_queued [OF inv])
  show "length (queued q) \<le> CLSIZE" using inv by (simp add: ring_inv_def)
  show "deq_r q = None" if "queued q = []"
    using that by (simp add: deq_r_def getc_r_empty)
  show "\<exists>q'. deq_r q = Some (c, q') \<and> queued q' = cs \<and> ring_inv q'" if "queued q = c # cs" for cs
    using getc_r_queued [OF inv that] by (auto simp: deq_r_def)
qed

lemma unputc_r_queued:
  assumes "ring_inv q"
  shows "queued (snd (unputc_r q)) = butlast (queued q)" "ring_inv (snd (unputc_r q))"
proof -
  have "(r_cf q + r_cc q + 255) mod 256 = (r_cf q + (r_cc q - 1)) mod 256" if "r_cc q \<noteq> 0"
  proof -
    have "r_cf q + r_cc q + 255 = r_cf q + (r_cc q - 1) + 256" using that by simp
    then show ?thesis by (simp only: mod_add_self2)
  qed
  moreover have "((r_cf q + r_cc q) mod 256 + 255) mod 256 = (r_cf q + r_cc q + 255) mod 256" by (simp add: mod_simps)
  ultimately show "ring_inv (snd (unputc_r q))"
    using assms by (auto simp: unputc_r_def Let_def ring_inv_def add.commute)
  show "queued (snd (unputc_r q)) = butlast (queued q)"
    by (cases "r_cc q") (simp_all add: unputc_r_def Let_def queued_def ring_slice_def)
qed

lemma unput_all_queued:
  "ring_inv q \<Longrightarrow> n = r_cc q \<Longrightarrow> queued (unput_all n q) = [] \<and> ring_inv (unput_all n q)"
proof (induction n arbitrary: q)
  case 0
  then show ?case by (simp add: queued_def)
next
  case (Suc n)
  have "r_cc (snd (unputc_r q)) = n" using Suc.prems(2) by (simp add: unputc_r_def Let_def)
  then show ?case using Suc.IH [OF unputc_r_queued(2) [OF Suc.prems(1)]] by simp
qed

lemma move_all_queued:
  assumes "ring_inv (fst qs)" "ring_inv (snd qs)"
  shows "n = r_cc (fst qs) \<Longrightarrow> queued (fst (move_all n qs)) = [] \<and> ring_inv (fst (move_all n qs)) \<and> ring_inv (snd (move_all n qs))
    \<and> queued (snd (move_all n qs)) = queued (snd qs) @ take (CLSIZE - r_cc (snd qs)) (queued (fst qs))"
  using assms
proof (induction n arbitrary: qs)
  case 0
  then show ?case by (simp add: queued_def)
next
  case (Suc n)
  have "queued (fst qs) \<noteq> []" using Suc.prems(1) by (metis queued_length list.size(3) nat.distinct(1))
  then obtain c cs where q: "queued (fst qs) = c # cs" by (cases "queued (fst qs)") auto
  obtain q' where g: "getc_r (fst qs) = (Some c, q')" "queued q' = cs" "ring_inv q'"
    using getc_r_queued [OF Suc.prems(2) q] by blast
  let ?c = "snd (putc_r c (snd qs))"
  have len: "n = r_cc q'" using g(2) q Suc.prems(1) queued_length [of q'] queued_length [of "fst qs"] by simp
  have "queued ?c @ take (CLSIZE - r_cc ?c) cs = queued (snd qs) @ take (CLSIZE - r_cc (snd qs)) (c # cs)"
    using putc_r_queued [OF Suc.prems(3), of c]
    by (cases "r_cc (snd qs) < CLSIZE") (auto simp: putc_r_def take_Cons')
  then show ?case using Suc.IH [of "(q', ?c)"] len g(1,3) putc_r_inv [OF Suc.prems(3), of c] q g(2) by simp
qed

subsection \<open>The line discipline\<close>

text \<open>A terminal in its canonical mode, without echo.\<close>

definition canonical :: "ring_tty \<Rightarrow> bool" where
  "canonical t \<longleftrightarrow> \<not> hasf (rt_flags t) RAW_R \<and> \<not> hasf (rt_flags t) CBREAK_R \<and> \<not> hasf (rt_flags t) ECHO_R
     \<and> ring_inv (rt_rawq t) \<and> ring_inv (rt_canq t)"

lemmas input_defs = ttyinput_r_def queue_input_def canon_input_def Let_def canonical_def

text \<open>An ordinary character is added to the line; the kill character empties it.\<close>

lemma input_char:
  assumes "canonical t" "0 \<le> c" "c < 128" "c \<notin> {127, 28, 19, 17, 35, 64, 10, 4}"
  shows "queued (rt_rawq (fst (ttyinput_r l c (t, k))))
      = (if r_cc (rt_rawq t) < CLSIZE then queued (rt_rawq t) @ [of_int c] else queued (rt_rawq t))"
  using assms by (simp add: input_defs putc_r_queued)

lemma input_kill:
  assumes "canonical t"
  shows "queued (rt_rawq (fst (ttyinput_r l 64 (t, k)))) = []"
  using assms putc_r_inv unput_all_queued by (simp add: input_defs)

text \<open>The erase character is queued before it is looked at, so it erases itself and nothing
  else: the line stays as it is.  Only in a full queue, which it does not enter, it erases.\<close>

lemma input_erase:
  assumes "canonical t"
  shows "queued (rt_rawq (fst (ttyinput_r l 35 (t, k))))
    = (if r_cc (rt_rawq t) < CLSIZE then queued (rt_rawq t) else butlast (queued (rt_rawq t)))"
  using assms by (simp add: input_defs unputc_r_queued putc_r_inv putc_r_queued)

text \<open>The end of a line hands it to the reader, as far as there is room.\<close>

lemma input_newline:
  assumes "canonical t" "r_cc (rt_rawq t) < CLSIZE"
  shows "queued (rt_rawq (fst (ttyinput_r l 10 (t, k)))) = []"
    and "queued (rt_canq (fst (ttyinput_r l 10 (t, k))))
      = queued (rt_canq t) @ take (CLSIZE - r_cc (rt_canq t)) (queued (rt_rawq t) @ [10])"
proof -
  let ?q = "snd (putc_r 10 (rt_rawq t))"
  have q: "ring_inv ?q" "queued ?q = queued (rt_rawq t) @ [10]"
    using assms by (simp_all add: canonical_def putc_r_inv putc_r_queued)
  have "ring_inv (rt_canq t)" using assms by (simp add: canonical_def)
  note m = move_all_queued [of "(?q, rt_canq t)" "r_cc ?q", simplified, OF q(1) this]
  show "queued (rt_rawq (fst (ttyinput_r l 10 (t, k)))) = []"
    using assms m by (simp add: input_defs)
  show "queued (rt_canq (fst (ttyinput_r l 10 (t, k))))
      = queued (rt_canq t) @ take (CLSIZE - r_cc (rt_canq t)) (queued (rt_rawq t) @ [10])"
    using assms m q(2) by (simp add: input_defs)
qed

text \<open>A tab fills up to the next multiple of eight columns.\<close>

lemma next_col:
  assumes "(x + 1) mod 8 \<noteq> (0 :: int)"
  shows "(x + 1) div 8 = x div 8" "(x + 1) mod 8 = x mod 8 + 1"
proof -
  have x: "x + 1 = 8 * (x div 8) + (x mod 8 + 1)" by simp
  have "x mod 8 + 1 \<noteq> 8"
  proof
    assume e: "x mod 8 + 1 = 8"
    have "x + 1 = 8 * (x div 8) + 8" using x unfolding e .
    then show False using assms by (metis mod_add_self2 mod_mult_self1_is_0)
  qed
  moreover have "0 \<le> x mod 8" "x mod 8 < 8" by simp_all
  ultimately have r: "0 \<le> x mod 8 + 1" "x mod 8 + 1 < 8" by linarith+
  show "(x + 1) div 8 = x div 8" by (rule int_div_pos_eq [OF x r])
  show "(x + 1) mod 8 = x mod 8 + 1" by (rule int_mod_pos_eq [OF x r])
qed

lemma tab_loop_col:
  assumes "8 - nat (rt_col t mod 8) \<le> n"
  shows "rt_col (tab_loop n t) = (rt_col t div 8 + 1) * 8"
  using assms
proof (induction n arbitrary: t)
  case 0
  have "rt_col t mod 8 < 8" by simp
  then show ?case using 0 by linarith
next
  case (Suc n)
  let ?t = "(queue_output 32 t)\<lparr>rt_col := rt_col t + 1\<rparr>"
  have run: "tab_loop (Suc n) t = (if (rt_col t + 1) mod 8 \<noteq> 0 then tab_loop n ?t else ?t)"
    by (simp add: Let_def queue_output_def)
  have col: "rt_col ?t = rt_col t + 1" by simp
  show ?case
  proof (cases "(rt_col t + 1) mod 8 = 0")
    case True
    then have c: "rt_col t + 1 = (rt_col t div 8 + 1) * 8" by presburger
    have r: "tab_loop (Suc n) t = ?t" unfolding run using True by simp
    show ?thesis unfolding r col by (rule c)
  next
    case False
    note e = next_col [OF this]
    have "0 \<le> rt_col t mod 8" by simp
    then have "8 - nat (rt_col ?t mod 8) \<le> n" unfolding col e(2) using Suc.prems by linarith
    then have "rt_col (tab_loop n ?t) = (rt_col ?t div 8 + 1) * 8" by (rule Suc.IH)
    moreover have "tab_loop (Suc n) t = tab_loop n ?t" unfolding run using False by simp
    ultimately show ?thesis by (simp only: col e(1))
  qed
qed

end
