(* ===== verification/File_Refs.thy ===== *)
theory File_Refs
  imports Sys_File Kept
begin

text \<open>
  The reference counts of the open files.  What descriptors there are and what the table of
  files counts is \<open>desc\<close>; the operations on inodes and buffers under \<^verbatim>\<open>closef\<close> and \<^verbatim>\<open>open1\<close>
  leave it alone, and the calls on descriptors keep the count of each file the number of
  descriptors that refer to it.
\<close>

definition desc :: "kernel \<Rightarrow> int8_t list \<times> nat option list \<times> nat" where
  "desc k = (map f_count (k_file k), u_ofile (k_u k), length (u_ar0 (k_u k)))"

abbreviation (input) stays :: "int8_t list \<times> nat option list \<times> nat \<Rightarrow> 'a res \<Rightarrow> bool" where
  "stays \<equiv> kept False desc"

interpretation descriptors: kept_part False desc
  by unfold_locales
    (simp_all add: desc_def wakeup_def upd_sch_def upd_u_def set_error_def sleep_def sleep_low_def kbind_def Let_def kept_def split: res.splits)

lemma desc_upd [simp]:
  "desc (upd_sch h k) = desc k" "desc (set_ar0 r v k) = desc k"
  by (simp_all add: desc_def)

lemma stays_openi [keep]: "desc k = d \<Longrightarrow> stays d (openi n i rw k)"
  unfolding openi_def Let_def by simp

lemma desc_access_eq: "access i m k = (r, k') \<Longrightarrow> desc k' = desc k"
  using descriptors.kept_access [of i m k] by simp

lemma stays_open_denied: "open_denied i mode trf k = (r, k') \<Longrightarrow> desc k' = desc k"
  unfolding open_denied_def Let_def by (auto dest!: desc_access_eq split: prod.splits if_splits)

subsection \<open>Counting\<close>

text \<open>\<open>others fp\<close> is the number of references to a file from the other processes, and \<open>w fp\<close> by
  how much the count is ahead of the references in the middle of a call.  A count does not
  wrap, because all references together are at most 127.\<close>

definition refs :: "kernel \<Rightarrow> nat \<Rightarrow> nat" where
  "refs k fp = count_list (u_ofile (k_u k)) (Some fp)"

definition counts :: "(nat \<Rightarrow> nat) \<Rightarrow> (nat \<Rightarrow> int) \<Rightarrow> kernel \<Rightarrow> bool" where
  "counts others w k \<longleftrightarrow> length (u_ofile (k_u k)) = NOFILE \<and> EAX < length (u_ar0 (k_u k))
     \<and> (\<forall>fp. Some fp \<in> set (u_ofile (k_u k)) \<longrightarrow> fp < length (k_file k))
     \<and> (\<forall>fp < length (k_file k). others fp + NOFILE \<le> 127
          \<and> f_count (k_file k ! fp) = of_int (int (refs k fp) + int (others fp) + w fp))"

abbreviation (input) counted :: "(nat \<Rightarrow> nat) \<Rightarrow> kernel \<Rightarrow> bool" where
  "counted others \<equiv> counts others (\<lambda>q. 0)"

abbreviation (input) one_at :: "nat \<Rightarrow> nat option \<Rightarrow> int" where
  "one_at q o' \<equiv> (if o' = Some q then 1 else 0)"

lemma descD:
  assumes "desc k' = desc k"
  shows "length (k_file k') = length (k_file k)" "u_ofile (k_u k') = u_ofile (k_u k)"
    "length (u_ar0 (k_u k')) = length (u_ar0 (k_u k))"
    "fp < length (k_file k) \<Longrightarrow> f_count (k_file k' ! fp) = f_count (k_file k ! fp)"
proof -
  have m: "map f_count (k_file k') = map f_count (k_file k)" and u: "u_ofile (k_u k') = u_ofile (k_u k)"
    "length (u_ar0 (k_u k')) = length (u_ar0 (k_u k))"
    using assms by (simp_all add: desc_def)
  show l: "length (k_file k') = length (k_file k)" by (rule map_eq_imp_length_eq [OF m])
  show "f_count (k_file k' ! fp) = f_count (k_file k ! fp)" if "fp < length (k_file k)"
    using arg_cong [OF m, of "\<lambda>x. x ! fp"] that l by simp
  show "u_ofile (k_u k') = u_ofile (k_u k)" "length (u_ar0 (k_u k')) = length (u_ar0 (k_u k))" by (rule u)+
qed

lemma counts_desc:
  assumes "desc k' = desc k"
  shows "counts others w k' = counts others w k"
  unfolding counts_def refs_def descD(1-3) [OF assms] using descD(4) [OF assms] by auto

lemma counts_stays:
  assumes "m k = Ret x k'" "stays (desc k) (m k)" "counts others w k"
  shows "counts others w k'"
proof -
  have "desc k' = desc k" using assms(2) unfolding assms(1) by simp
  from counts_desc [OF this] show ?thesis using assms(3) by simp
qed

lemma count_list_update:
  "i < length xs \<Longrightarrow> count_list (xs[i := y]) x + (if xs ! i = x then 1 else 0) = count_list xs x + (if y = x then 1 else 0)"
proof (induction xs arbitrary: i)
  case (Cons a xs)
  show ?case
  proof (cases i)
    case (Suc j)
    then show ?thesis using Cons.IH [of j] Cons.prems by (auto split: if_splits)
  qed simp
qed simp

lemma count_le_length: "count_list xs x \<le> length xs"
  by (induction xs) auto

text \<open>What a change of one descriptor and of one count does.\<close>

definition set_fd :: "nat \<Rightarrow> nat option \<Rightarrow> kernel \<Rightarrow> kernel" where
  "set_fd i o' = upd_u (\<lambda>u. u\<lparr>u_ofile := (u_ofile u)[i := o']\<rparr>)"

definition bump :: "nat \<Rightarrow> int \<Rightarrow> kernel \<Rightarrow> kernel" where
  "bump fp d = upd_file fp (\<lambda>f. f\<lparr>f_count := f_count f + of_int d\<rparr>)"

lemma counts_set_fd:
  assumes c: "counts others w k" and i: "i < NOFILE" and o': "\<And>fp. o' = Some fp \<Longrightarrow> fp < length (k_file k)"
  shows "counts others (\<lambda>q. w q + one_at q (u_ofile (k_u k) ! i) - one_at q o') (set_fd i o' k)" (is "counts _ ?w ?k")
proof -
  have u: "k_u ?k = (k_u k)\<lparr>u_ofile := (u_ofile (k_u k))[i := o']\<rparr>" "k_file ?k = k_file k"
    by (simp_all add: set_fd_def upd_u_def)
  have i': "i < length (u_ofile (k_u k))" using c i by (simp add: counts_def)
  have e: "int (refs ?k q) + int (others q) + ?w q = int (refs k q) + int (others q) + w q" for q
    using count_list_update [OF i', of o' "Some q"] by (auto simp: refs_def u)
  have fc: "f_count (k_file ?k ! q) = of_int (int (refs ?k q) + int (others q) + ?w q)" if "q < length (k_file k)" for q
    using c that unfolding u(2) e counts_def by blast
  have "Some fp \<in> set (u_ofile (k_u ?k)) \<Longrightarrow> fp < length (k_file ?k)" for fp
    using c o' by (auto simp: u counts_def dest!: set_update_subset_insert [THEN subsetD])
  moreover have "length (u_ofile (k_u ?k)) = NOFILE" "EAX < length (u_ar0 (k_u ?k))" "q < length (k_file k) \<Longrightarrow> others q + NOFILE \<le> 127" for q
    using c by (simp_all add: u counts_def)
  ultimately show ?thesis unfolding counts_def u(2) using fc [unfolded u(2)] by blast
qed

lemma counts_bump:
  assumes c: "counts others w k"
  shows "counts others (\<lambda>q. w q + (if q = fp then d else 0)) (bump fp d k)" (is "counts _ ?w ?k")
proof -
  have r: "refs ?k q = refs k q" "length (k_file ?k) = length (k_file k)" "k_u ?k = k_u k" for q
    by (simp_all add: refs_def upd_file_def bump_def)
  have "f_count (k_file ?k ! q) = of_int (int (refs k q) + int (others q) + ?w q)" if "q < length (k_file k)" for q
  proof -
    have "f_count (k_file k ! q) = of_int (int (refs k q) + int (others q) + w q)"
      using c that by (simp add: counts_def)
    then show ?thesis using that by (cases "q = fp") (simp_all add: upd_file_def bump_def algebra_simps)
  qed
  then show ?thesis using c by (simp add: counts_def r)
qed

lemma counts_install:
  assumes c: "counts others w k" and i: "i < NOFILE" and fp: "fp < length (k_file k)"
  shows "counts others (\<lambda>q. w q + one_at q (u_ofile (k_u k) ! i)) (install i fp k)"
proof -
  have e: "install i fp k = bump fp 1 (set_fd i (Some fp) k)" by (simp add: install_def bump_def set_fd_def)
  have w: "(\<lambda>q. w q + one_at q (u_ofile (k_u k) ! i) - one_at q (Some fp) + (if q = fp then 1 else 0))
    = (\<lambda>q. w q + one_at q (u_ofile (k_u k) ! i))" by auto
  show ?thesis using counts_bump [OF counts_set_fd [OF c i, of "Some fp"], of fp 1] fp unfolding e w by simp
qed

lemma bump_sel: "k_u (bump fp d k) = k_u k" "length (k_file (bump fp d k)) = length (k_file k)"
  by (simp_all add: bump_def upd_file_def)

text \<open>\<^verbatim>\<open>closef\<close> takes one from the count.\<close>

lemma closef_run:
  assumes "closef fp k = Ret () k'"
  obtains k2 where "desc k2 = desc k" "k' = bump fp (- 1) k2"
proof -
  let ?i = "f_inode (k_file k ! fp)"
  define k1 where "k1 = (if hasf (f_flag (k_file k ! fp)) FPIPE
                then wakeup (ChInode ?i 2) (wakeup (ChInode ?i 1)
                  (upd_inode ?i (\<lambda>p. p\<lparr>i_mode := i_mode p AND NOT (IREAD OR IWRITE)\<rparr>) k)) else k)"
  have d1: "desc k1 = desc k" by (simp add: k1_def)
  obtain k2 where k2: "(if sint (f_count (k_file k1 ! fp)) \<le> 1 then closei (f_inode (k_file k1 ! fp)) (hasf (f_flag (k_file k1 ! fp)) FWRITE)
      else ret ()) k1 = Ret () k2" "k' = bump fp (- 1) k2"
    using assms unfolding closef_def Let_def k1_def [symmetric] by (auto simp: kseq_Ret_iff bump_def)
  have "desc k2 = desc k1"
  proof (cases "sint (f_count (k_file k1 ! fp)) \<le> 1")
    case True
    then show ?thesis
      using k2(1) descriptors.kept_closei [OF refl, of k1 "f_inode (k_file k1 ! fp)" "hasf (f_flag (k_file k1 ! fp)) FWRITE"] by simp
  qed (use k2(1) in \<open>simp add: ret_def\<close>)
  then show thesis using d1 k2(2) that by simp
qed

lemma counts_closef:
  assumes "counts others w k" "closef fp k = Ret () k'"
  shows "counts others (\<lambda>q. w q + (if q = fp then - 1 else 0)) k'"
  using closef_run [OF assms(2)] counts_bump counts_desc assms(1) by metis

lemma closef_slots:
  assumes "closef fp k = Ret () k'"
  shows "u_ofile (k_u k') = u_ofile (k_u k)" "length (k_file k') = length (k_file k)"
  using closef_run [OF assms] by (metis bump_sel(1,2) descD(1,2))+

lemma counts_slot: "counts others w k \<Longrightarrow> i < NOFILE \<Longrightarrow> u_ofile (k_u k) ! i = Some fp \<Longrightarrow> fp < length (k_file k)"
  unfolding counts_def by (metis nth_mem)


subsection \<open>The calls\<close>

text \<open>One step of a process: a call on its descriptors that returns, or anything that leaves
  the descriptors and the counts alone.\<close>

inductive fd_step :: "kernel \<Rightarrow> kernel \<Rightarrow> bool" where
  fd_open: "open1 nchrdev i mode trf k = Ret () k' \<Longrightarrow> fd_step k k'"
| fd_close: "sysclose k = Ret r k' \<Longrightarrow> fd_step k k'"
| fd_dup: "dup k = Ret r k' \<Longrightarrow> fd_step k k'"
| fd_sys_dup: "sys_dup k = Ret r k' \<Longrightarrow> fd_step k k'"
| fd_dup2: "sys_dup2 k = Ret r k' \<Longrightarrow> fd_step k k'"
| fd_fcntl: "sys_fcntl k = Ret r k' \<Longrightarrow> fd_step k k'"
| fd_other: "desc k' = desc k \<Longrightarrow> fd_step k k'"

lemma desc_returns: "returns v k = Ret r k' \<Longrightarrow> desc k' = desc k"
  by (auto simp: returns_def run_iffs okay_def)

lemma desc_error: "error e k = Ret r k' \<Longrightarrow> desc k' = desc k"
  by (auto simp: error_def run_iffs fails_def)

lemma desc_clear_fdflags [simp]: "desc (clear_fdflags i k) = desc k"
  by (simp add: desc_def clear_fdflags_def upd_u_def)

lemma desc_keeps_count [simp]: "(\<And>f. f_count (g f) = f_count f) \<Longrightarrow> desc (upd_file fp g k) = desc k"
  by (simp add: desc_def upd_file_def map_update list_update_beyond
      flip: map_update) (metis list_update_beyond list_update_id map_update nth_map linorder_not_less length_map)

lemma fd_range:
  assumes "\<not> (sint fd < 0 \<or> sint fd \<ge> int NOFILE)"
  shows "unat (fd :: int32_t) < NOFILE"
proof -
  have "sint fd = int (unat fd)" using assms sint_small32 sint_pos32 by (metis linorder_not_less)
  then show ?thesis using assms by linarith
qed

lemma getf_Some:
  assumes "getf fd k = (Some fp, k')"
  shows "k' = k" "unat fd < NOFILE" "u_ofile (k_u k) ! unat fd = Some fp"
proof -
  have "\<not> (sint fd < 0 \<or> sint fd \<ge> int NOFILE)" using assms by (auto simp: getf_def)
  then show "unat fd < NOFILE" by (rule fd_range)
  show "k' = k" "u_ofile (k_u k) ! unat fd = Some fp"
    using assms by (auto simp: getf_def split: if_splits option.splits)
qed

lemma getf_None: "getf fd k = (None, k') \<Longrightarrow> desc k' = desc k"
  by (auto simp: getf_def split: if_splits option.splits)

text \<open>A call that takes its file by descriptor.\<close>

lemma counts_with_file:
  assumes "with_file n f k = Ret r k'" "counted others k"
    and "\<And>fp. unat (arg n k) < NOFILE \<Longrightarrow> u_ofile (k_u k) ! unat (arg n k) = Some fp \<Longrightarrow> fp < length (k_file k)
      \<Longrightarrow> f fp k = Ret r k' \<Longrightarrow> counted others k'"
  shows "counted others k'"
proof -
  consider k1 where "getf (arg n k) k = (None, k1)" | fp k1 where "getf (arg n k) k = (Some fp, k1)"
    by (metis option.exhaust surj_pair)
  then show ?thesis
  proof cases
    case 1
    then have "desc k' = desc k" using assms(1) getf_None [OF 1] by (simp add: with_file_def fails_def)
    then show ?thesis using counts_desc assms(2) by blast
  next
    case (2 fp k1)
    note g = getf_Some [OF 2]
    have "f fp k = Ret r k'" using assms(1) 2 g(1) by (simp add: with_file_def)
    then show ?thesis using assms(3) g counts_slot [OF assms(2) g(2,3)] by blast
  qed
qed

lemma counts_free_slot:
  assumes "counted others k" "i < NOFILE" "u_ofile (k_u k) ! i = None" "fp < length (k_file k)"
  shows "counted others (install i fp k)"
  using counts_install [OF assms(1,2,4)] assms(3) by simp

lemma free_slot: "find_slot (\<lambda>f. f = None) (u_ofile (k_u k)) = Some i \<Longrightarrow> counted others k \<Longrightarrow> i < NOFILE \<and> u_ofile (k_u k) ! i = None"
  by (auto simp: counts_def dest!: find_slot_SomeD)

lemma counts_returns:
  assumes "returns v k = Ret r k'" "counts others w k"
  shows "counts others w k'"
  using counts_desc [OF desc_returns [OF assms(1)]] assms(2) by simp

lemma counts_error:
  assumes "error e k = Ret r k'" "counts others w k"
  shows "counts others w k'"
  using counts_desc [OF desc_error [OF assms(1)]] assms(2) by simp

lemma counts_clear_fdflags: "counts others w k \<Longrightarrow> counts others w (clear_fdflags i k)"
  by (simp add: counts_desc [OF desc_clear_fdflags])

lemma counts_dup:
  assumes "dup k = Ret r k'" "counted others k"
  shows "counted others k'"
proof (rule counts_with_file [OF assms(1) [unfolded dup_def] assms(2)])
  fix fp
  assume fp: "fp < length (k_file k)" and run: "(case find_slot (\<lambda>f. f = None) (u_ofile (k_u k)) of None \<Rightarrow> error EMFILE k
       | Some i \<Rightarrow> returns (of_nat i) (clear_fdflags i (install i fp k))) = Ret r k'"
  show "counted others k'"
  proof (cases "find_slot (\<lambda>f. f = None) (u_ofile (k_u k))")
    case None
    then show ?thesis using run counts_error assms(2) by simp
  next
    case (Some i)
    then show ?thesis using run counts_returns counts_clear_fdflags counts_free_slot [OF assms(2) _ _ fp] free_slot [OF Some assms(2)] by simp
  qed
qed

lemma counts_sys_dup:
  assumes "sys_dup k = Ret r k'" "counted others k"
  shows "counted others k'"
proof (rule counts_with_file [OF assms(1) [unfolded sys_dup_def] assms(2)])
  fix fp
  assume fp: "fp < length (k_file k)" and run: "(case find_slot (\<lambda>f. f = None) (u_ofile (k_u k)) of None \<Rightarrow> error EMFILE k
       | Some i \<Rightarrow> returns (of_nat i) (install i fp k)) = Ret r k'"
  show "counted others k'"
  proof (cases "find_slot (\<lambda>f. f = None) (u_ofile (k_u k))")
    case None
    then show ?thesis using run counts_error assms(2) by simp
  next
    case (Some i)
    then show ?thesis using run counts_returns counts_free_slot [OF assms(2) _ _ fp] free_slot [OF Some assms(2)] by simp
  qed
qed

lemma counts_dup_from:
  assumes run: "dup_from fp minfd k = Ret r k'" and c: "counted others k" and fp: "fp < length (k_file k)"
  shows "counted others k'"
proof (cases "sint minfd < 0 \<or> sint minfd \<ge> int NOFILE")
  case True
  then show ?thesis using run counts_error c by (simp add: dup_from_def split: if_splits)
next
  case pos: False
  show ?thesis
  proof (cases "find_slot (\<lambda>i. u_ofile (k_u k) ! i = None) [unat minfd..<NOFILE]")
    case None
    then show ?thesis using run pos counts_error c by (simp add: dup_from_def split: if_splits)
  next
    case (Some j)
    then have j: "unat minfd + j < NOFILE" "u_ofile (k_u k) ! (unat minfd + j) = None"
      using find_slot_SomeD [OF Some] by (auto simp: nth_upt)
    have "returns (of_nat (unat minfd + j)) (clear_fdflags (unat minfd + j) (install (unat minfd + j) fp k)) = Ret r k'"
      using run pos Some by (simp add: dup_from_def Let_def split: if_splits)
    then show ?thesis using counts_returns counts_clear_fdflags counts_free_slot [OF c j fp] by blast
  qed
qed

lemma counts_fcntl:
  assumes "sys_fcntl k = Ret r k'" "counted others k"
  shows "counted others k'"
proof (rule counts_with_file [OF assms(1) [unfolded sys_fcntl_def] assms(2)])
  fix fp
  assume fp: "fp < length (k_file k)" and run: "(let fd = unat (arg 0 k); cmd = arg 1 k; a = arg 2 k
     in if cmd = 0 then dup_from fp a k
        else if cmd = 1 then returns (if hasf (u_fdflags (k_u k) ! fd) 1 then 1 else 0) k
        else if cmd = 2 then
          Ret 0 (upd_u (\<lambda>u. u\<lparr>u_fdflags := (u_fdflags u)[fd :=
            if hasf a 1 then u_fdflags u ! fd OR 1 else u_fdflags u ! fd AND NOT 1]\<rparr>) k)
        else if cmd = 3 then returns (file_flags (f_flag (k_file k ! fp))) k
        else if cmd = 4 then Ret 0 (upd_file fp (\<lambda>f. f\<lparr>f_flag := set_file_flags a (f_flag f)\<rparr>) k)
        else error EINVAL k) = Ret r k'"
  show "counted others k'"
  proof (cases "arg 1 k = 0")
    case True
    then show ?thesis using run counts_dup_from [OF _ assms(2) fp] by (simp add: Let_def)
  next
    case False
    have u: "desc (upd_u (\<lambda>u. u\<lparr>u_fdflags := g u\<rparr>) k) = desc k" for g by (simp add: desc_def upd_u_def)
    have "desc k' = desc k"
      using run False desc_returns [of _ k r k'] desc_error [of _ k r k']
      by (auto simp: Let_def u split: if_splits)
    then show ?thesis using counts_desc assms(2) by blast
  qed
qed

lemma counts_dup2:
  assumes "sys_dup2 k = Ret r k'" "counted others k"
  shows "counted others k'"
proof (cases "sint (arg 1 k) < 0 \<or> sint (arg 1 k) \<ge> int NOFILE")
  case True
  then show ?thesis using assms counts_error by (simp add: sys_dup2_def split: if_splits)
next
  case pos: False
  define n where "n = unat (arg 1 k)"
  have n: "n < NOFILE" unfolding n_def using pos by (rule fd_range)
  have run: "with_file 0 (\<lambda>fp ka. if arg 0 ka = arg 1 k then returns (arg 1 k) ka
           else kseq (case u_ofile (k_u ka) ! n of None \<Rightarrow> ret () | Some g \<Rightarrow> closef g)
             (\<lambda>ka. returns (arg 1 k) (clear_fdflags n (install n fp ka))) ka) k = Ret r k'"
    using assms(1) pos unfolding sys_dup2_def Let_def n_def by (simp only: if_False)
  show ?thesis
  proof (rule counts_with_file [OF run assms(2)])
    fix fp
    assume fp: "fp < length (k_file k)" and go: "(if arg 0 k = arg 1 k then returns (arg 1 k) k
       else kseq (case u_ofile (k_u k) ! n of None \<Rightarrow> ret () | Some g \<Rightarrow> closef g)
             (\<lambda>k'. returns (arg 1 k) (clear_fdflags n (install n fp k'))) k) = Ret r k'"
    show "counted others k'"
    proof (cases "arg 0 k = arg 1 k")
      case True
      then show ?thesis using go counts_returns assms(2) by simp
    next
      case False
      then obtain k1 where k1: "(case u_ofile (k_u k) ! n of None \<Rightarrow> ret () | Some g \<Rightarrow> closef g) k = Ret () k1"
        "returns (arg 1 k) (clear_fdflags n (install n fp k1)) = Ret r k'"
        using go by (auto simp: kseq_Ret_iff)
      have "counted others (install n fp k1)"
      proof (cases "u_ofile (k_u k) ! n")
        case None
        then show ?thesis using k1(1) counts_free_slot [OF assms(2) n _ fp] by (simp add: ret_def)
      next
        case (Some g)
        then have cl: "closef g k = Ret () k1" using k1(1) by simp
        note s = closef_slots [OF cl]
        have "fp < length (k_file k1)" using fp s(2) by simp
        from counts_install [OF counts_closef [OF assms(2) cl] n this] show ?thesis
          unfolding s(1) Some by (simp add: if_distrib cong: if_cong)
      qed
      then show ?thesis using k1(2) counts_returns counts_clear_fdflags by blast
    qed
  qed
qed

lemma counts_sysclose:
  assumes "sysclose k = Ret r k'" "counted others k"
  shows "counted others k'"
proof (rule counts_with_file [OF assms(1) [unfolded sysclose_def] assms(2)])
  fix fp
  let ?n = "unat (arg 0 k)"
  let ?k = "upd_u (\<lambda>u. u\<lparr>u_ofile := (u_ofile u)[unat (u_arg u ! 0) := None],
          u_fdflags := (u_fdflags u)[unat (u_arg u ! 0) := 0]\<rparr>) k"
  assume n: "?n < NOFILE" "u_ofile (k_u k) ! ?n = Some fp" and run: "kseq (closef fp) okay ?k = Ret r k'"
  then have cl: "closef fp ?k = Ret () k'" by (auto simp: kseq_Ret_iff okay_def)
  have d: "desc ?k = desc (set_fd ?n None k)" by (simp add: desc_def set_fd_def upd_u_def arg_def)
  have "counts others (\<lambda>q. one_at q (Some fp)) ?k"
    using counts_set_fd [OF assms(2) n(1), of None] unfolding counts_desc [OF d] n(2) by simp
  from counts_closef [OF this cl] show "counted others k'" by (simp add: if_distrib cong: if_cong)
qed

text \<open>\<^verbatim>\<open>open1\<close>, with the file that \<^verbatim>\<open>falloc\<close> took and gives back when \<^verbatim>\<open>openi\<close> fails.\<close>

lemma falloc_Some:
  assumes "falloc k = (Some fp, k')" "counted others k"
  obtains i where "i < NOFILE" "u_ofile (k_u k) ! i = None" "fp < length (k_file k)" "desc k' = desc (install i fp k)"
    "u_ar0 (k_u k') ! EAX = of_nat i"
proof -
  obtain i where i: "find_slot (\<lambda>f. f = None) (u_ofile (k_u k)) = Some i"
    and f: "find_slot (\<lambda>fp. f_count fp = 0) (k_file k) = Some fp"
    and k': "k' = upd_file fp (\<lambda>f. f\<lparr>f_count := 1, f_offset0 := 0, f_offset1 := 0\<rparr>)
                  (set_ar0 EAX (of_nat i)
                    (upd_u (\<lambda>u. u\<lparr>u_ofile := (u_ofile u)[i := Some fp], u_fdflags := (u_fdflags u)[i := 0]\<rparr>) k))"
    using assms(1) by (auto simp: falloc_def split: option.splits)
  have fp: "fp < length (k_file k)" "f_count (k_file k ! fp) = 0" using find_slot_SomeD [OF f] by auto
  have "desc k' = desc (install i fp k)"
    using fp by (simp add: k' desc_def install_def upd_file_def upd_u_def set_ar0_def map_update)
  moreover have "u_ar0 (k_u k') ! EAX = of_nat i"
    using assms(2) by (simp add: k' counts_def upd_file_def upd_u_def set_ar0_def)
  ultimately show thesis using that free_slot [OF i assms(2)] fp(1) by blast
qed

lemma desc_falloc_None: "falloc k = (None, k') \<Longrightarrow> desc k' = desc k"
  by (auto simp: falloc_def split: option.splits)

lemma openi_keeps: "openi nchrdev i rw k = Ret () k' \<Longrightarrow> desc k' = desc k"
  using stays_openi [OF refl, of k nchrdev i rw] by simp

lemma counts_open1:
  assumes run: "open1 nchrdev i mode trf k = Ret () k'" and c: "counted others k"
  shows "counted others k'"
proof -
  obtain r0 k0 where r0: "open_denied i mode trf k = (r0, k0)" by (cases "open_denied i mode trf k")
  have c0: "counted others k0" using counts_desc [OF stays_open_denied [OF r0]] c by simp
  show ?thesis
  proof (cases r0)
    case True
    then have "iput i k0 = Ret () k'" using run r0 by (simp add: open1_def)
    then show ?thesis using counts_stays [of "iput i"] descriptors.kept_iput [OF refl] c0 by blast
  next
    case False
    obtain k1 where k1: "(if trf \<noteq> 0 then itrunc i else ret ()) k0 = Ret () k1"
      and go: "(case falloc (prele i k1) of
                (None, k) \<Rightarrow> iput i k
              | (Some fp, k) \<Rightarrow>
                  (let fd = u_ar0 (k_u k) ! EAX
                   in kseq (openi nchrdev i (hasf mode 2))
                        (\<lambda>k. if u_error (k_u k) = 0 then Ret () k
                             else iput i (upd_file fp (\<lambda>f. f\<lparr>f_count := f_count f - 1\<rparr>)
                               (upd_u (\<lambda>u. u\<lparr>u_ofile := (u_ofile u)[unat fd := None]\<rparr>) k)))
                        (upd_file fp (\<lambda>f. f\<lparr>f_flag := ucast (mode AND 3), f_inode := i\<rparr>) k))) = Ret () k'"
      using run r0 False unfolding open1_def by (auto simp: kseq_Ret_iff)
    have "stays (desc k0) ((if trf \<noteq> 0 then itrunc i else ret ()) k0)" by (auto intro: keep simp: ret_def)
    then have "desc (prele i k1) = desc k0" unfolding k1 by simp
    from counts_desc [OF this] have c1: "counted others (prele i k1)" using c0 by simp
    obtain r2 k2 where f: "falloc (prele i k1) = (r2, k2)" by (cases "falloc (prele i k1)")
    show ?thesis
    proof (cases r2)
      case None
      then have "counted others k2" using f c1 counts_desc desc_falloc_None by blast
      moreover have "iput i k2 = Ret () k'" using go f None by simp
      ultimately show ?thesis using counts_stays [of "iput i"] descriptors.kept_iput [OF refl] by blast
    next
      case (Some fp)
      obtain j where j: "j < NOFILE" "u_ofile (k_u (prele i k1)) ! j = None" "fp < length (k_file (prele i k1))"
        "desc k2 = desc (install j fp (prele i k1))" "u_ar0 (k_u k2) ! EAX = of_nat j"
        using falloc_Some [OF f [unfolded Some] c1] by blast
      have c2: "counted others k2" using counts_free_slot [OF c1 j(1,2,3)] counts_desc [OF j(4)] by simp
      let ?k2 = "upd_file fp (\<lambda>f. f\<lparr>f_flag := ucast (mode AND 3), f_inode := i\<rparr>) k2"
      obtain k3 where k3: "openi nchrdev i (hasf mode 2) ?k2 = Ret () k3"
        and end_run: "(if u_error (k_u k3) = 0 then Ret () k3
             else iput i (upd_file fp (\<lambda>f. f\<lparr>f_count := f_count f - 1\<rparr>)
               (upd_u (\<lambda>u. u\<lparr>u_ofile := (u_ofile u)[unat (u_ar0 (k_u k2) ! EAX) := None]\<rparr>) k3))) = Ret () k'"
        using go f Some by (auto simp: Let_def kseq_Ret_iff)
      have d3: "desc k3 = desc k2" using openi_keeps [OF k3] by simp
      have c3: "counted others k3" using c2 counts_desc [OF d3] by simp
      show ?thesis
      proof (cases "u_error (k_u k3) = 0")
        case True
        then show ?thesis using end_run c3 by simp
      next
        case False
        have "desc k3 = desc (install j fp (prele i k1))" using d3 j(4) by simp
        from descD(2) [OF this] have slot: "u_ofile (k_u k3) ! j = Some fp"
          using j(1) c1 by (simp add: install_def upd_file_def upd_u_def counts_def)
        have u: "unat (u_ar0 (k_u k2) ! EAX) = j" using j(1) by (simp add: j(5) unat_of_nat)
        have "iput i (bump fp (- 1) (set_fd j None k3)) = Ret () k'"
          using end_run False by (simp add: u bump_def set_fd_def)
        moreover have "counted others (bump fp (- 1) (set_fd j None k3))"
          using counts_bump [OF counts_set_fd [OF c3 j(1), of None], of fp "- 1"] unfolding slot
          by (simp add: if_distrib cong: if_cong)
        ultimately show ?thesis using counts_stays [of "iput i"] descriptors.kept_iput [OF refl] by blast
      qed
    qed
  qed
qed

lemma fd_step_counted: "fd_step k k' \<Longrightarrow> counted others k \<Longrightarrow> counted others k'"
  by (induction rule: fd_step.induct)
    (blast intro: counts_open1 counts_sysclose counts_dup counts_sys_dup counts_dup2 counts_fcntl counts_desc [THEN iffD2])+

lemma fd_steps_counted: "fd_step\<^sup>*\<^sup>* k k' \<Longrightarrow> counted others k \<Longrightarrow> counted others k'"
  by (induction rule: rtranclp_induct) (auto intro: fd_step_counted)

text \<open>An entry of the file table is free exactly when nobody refers to it.\<close>

lemma counted_free:
  assumes "counted others k" "fp < length (k_file k)"
  shows "f_count (k_file k ! fp) = 0 \<longleftrightarrow> others fp = 0 \<and> Some fp \<notin> set (u_ofile (k_u k))"
proof -
  have le: "refs k fp \<le> NOFILE" using count_le_length [of "u_ofile (k_u k)" "Some fp"] assms(1) by (simp add: refs_def counts_def)
  have o127: "others fp + NOFILE \<le> 127" and fc: "f_count (k_file k ! fp) = of_int (int (refs k fp) + int (others fp) + 0)"
    using assms by (simp_all add: counts_def)
  have lt: "refs k fp + others fp < 2 ^ LENGTH(8)" using le o127 by simp
  have "f_count (k_file k ! fp) = of_nat (refs k fp + others fp)" unfolding fc by simp
  then have "unat (f_count (k_file k ! fp)) = refs k fp + others fp" using of_nat_inverse [OF refl lt] by simp
  then have "f_count (k_file k ! fp) = 0 \<longleftrightarrow> refs k fp + others fp = 0" by (metis unat_eq_0)
  then show ?thesis by (auto simp: refs_def count_list_0_iff)
qed

text \<open>C17: the table of files is free of leaks and of dangling descriptors, whatever a process
  opens, duplicates and closes: if in the beginning every count is the number of descriptors
  that refer to the file (its own and \<open>others\<close>), then after any sequence of calls that return,
  an entry has the count 0, and may be given to another \<^verbatim>\<open>open\<close>, exactly when no descriptor
  of any process refers to it.  The steps are the calls of one process on its descriptors but
  \<^verbatim>\<open>pipe\<close>; \<^verbatim>\<open>fork\<close> and \<^verbatim>\<open>exit\<close>, which change \<open>others\<close>, are not among them, and \<open>counted\<close>
  includes that all references to a file fit its 8-bit count.\<close>

theorem file_free_iff_unreferenced:
  assumes "counted others k" "fd_step\<^sup>*\<^sup>* k k'" "fp < length (k_file k')"
  shows "f_count (k_file k' ! fp) = 0 \<longleftrightarrow> others fp = 0 \<and> Some fp \<notin> set (u_ofile (k_u k'))"
  by (rule counted_free [OF fd_steps_counted [OF assms(2,1)] assms(3)])

text \<open>A process with one open file duplicates the descriptor and closes the old one.\<close>

definition one_open :: kernel where
  "one_open = upd_file 0 (\<lambda>f. f\<lparr>f_count := 1\<rparr>) (upd_u (\<lambda>u. u\<lparr>u_ofile := (u_ofile u)[0 := Some 0]\<rparr>) zero_kernel)"

theorem file_free_iff_unreferenced_witness:
  "\<exists>k'. fd_step\<^sup>*\<^sup>* one_open k' \<and> f_count (k_file k' ! 0) = 1
     \<and> (f_count (k_file k' ! 0) = 0 \<longleftrightarrow> (0 :: nat) = 0 \<and> Some 0 \<notin> set (u_ofile (k_u k')))"
proof -
  have c: "counted (\<lambda>q. 0) one_open"
    by (auto simp: counts_def refs_def one_open_def zero_kernel_def zero_user_def upd_file_def upd_u_def
        numeral_eq_Suc nth_Cons' less_Suc_eq)
  define k1 where "k1 = set_ar0 EAX 1 (clear_fdflags 1 (install 1 0 one_open))"
  have s0: "u_ofile (k_u one_open) = Some 0 # replicate 14 None" "u_arg (k_u one_open) = replicate 6 0"
    "k_file one_open ! 0 = \<lparr>f_flag = 0, f_count = 1, f_inode = 0, f_offset0 = 0, f_offset1 = 0\<rparr>" "length (k_file one_open) = NFILE"
    by (simp_all add: one_open_def zero_kernel_def zero_user_def upd_file_def upd_u_def numeral_eq_Suc)
  have d: "dup one_open = Ret 0 k1"
    by (simp add: dup_def with_file_def getf_def arg_def s0 returns_def okay_def k1_def numeral_eq_Suc)
  have s1: "u_ofile (k_u k1) = Some 0 # Some 0 # replicate 13 None" "u_arg (k_u k1) = replicate 6 0"
    "f_count (k_file k1 ! 0) = 2" "f_flag (k_file k1 ! 0) = 0" "length (k_file k1) = NFILE"
    using s0 by (simp_all add: k1_def install_def clear_fdflags_def set_ar0_def upd_u_def upd_file_def numeral_eq_Suc)
  define k2 where "k2 = upd_file 0 (\<lambda>f. f\<lparr>f_count := f_count f - 1\<rparr>) (upd_u (\<lambda>u. u\<lparr>u_ofile := (u_ofile u)[0 := None],
          u_fdflags := (u_fdflags u)[0 := 0]\<rparr>) k1)"
  have e: "sysclose k1 = Ret 0 k2"
    by (simp add: sysclose_def with_file_def getf_def arg_def s1 okay_def closef_def Let_def upd_u_def k2_def)
  have s2: "f_count (k_file k2 ! 0) = 1" "length (k_file k2) = NFILE"
    using s1 by (simp_all add: k2_def upd_u_def upd_file_def)
  have st: "fd_step\<^sup>*\<^sup>* one_open k2" using fd_dup [OF d] fd_close [OF e] by (meson rtranclp.simps)
  show ?thesis using st s2 file_free_iff_unreferenced [OF c st, of 0] by auto
qed

end
