(* ===== verification/Programs.thy ===== *)
theory Programs
  imports Shell
begin

text \<open>
  The programs of \<^verbatim>\<open>userland/Utilities\<close>, \<^verbatim>\<open>userland/Init\<close> and \<^verbatim>\<open>userland/WindowServer\<close>.  The
  system calls and the routines of the C library they use are the functions of a record
  \<open>unix\<close> on a world of the caller's choice; strings are their bytes, an argument vector is a
  list of them, the value of a \<open>main\<close> is its exit status with the world.  A loop that may go
  on for ever is a \<^theory_text>\<open>partial_function\<close>.
\<close>

text \<open>The arguments of \<^verbatim>\<open>printf\<close>, and what \<^verbatim>\<open>stat\<close> fills in that a program looks at.\<close>

datatype print_arg = Str "byte list" | Num int

record status =
  st_mode :: "16 word"
  st_nlink :: "8 word"
  st_uid :: "16 word"
  st_gid :: "16 word"
  st_size :: int32_t
  st_mtime :: int32_t

text \<open>\<^verbatim>\<open>read\<close> gives its value and the bytes it stored, as many as its value says when that is
  positive; \<^verbatim>\<open>stat\<close> and its relatives give \<open>None\<close> for a negative value; \<^verbatim>\<open>execv\<close> comes back
  with \<open>Some\<close> only when it failed.\<close>

record 'w unix =
  x_open :: "byte list \<Rightarrow> int32_t \<Rightarrow> 'w \<Rightarrow> int \<times> 'w"
  x_read :: "int \<Rightarrow> nat \<Rightarrow> 'w \<Rightarrow> int \<times> byte list \<times> 'w"
  x_write :: "int \<Rightarrow> byte list \<Rightarrow> 'w \<Rightarrow> int \<times> 'w"
  x_close :: "int \<Rightarrow> 'w \<Rightarrow> 'w"
  x_fstat :: "int \<Rightarrow> 'w \<Rightarrow> status option \<times> 'w"
  x_stat :: "byte list \<Rightarrow> 'w \<Rightarrow> status option \<times> 'w"
  x_lstat :: "byte list \<Rightarrow> 'w \<Rightarrow> status option \<times> 'w"
  x_mkdir :: "byte list \<Rightarrow> 16 word \<Rightarrow> 'w \<Rightarrow> int \<times> 'w"
  x_rmdir :: "byte list \<Rightarrow> 'w \<Rightarrow> int \<times> 'w"
  x_unlink :: "byte list \<Rightarrow> 'w \<Rightarrow> int \<times> 'w"
  x_opendir :: "byte list \<Rightarrow> 'w \<Rightarrow> int option \<times> 'w"
  x_readdir :: "int \<Rightarrow> 'w \<Rightarrow> byte list option \<times> 'w"
  x_closedir :: "int \<Rightarrow> 'w \<Rightarrow> 'w"
  x_getcwd :: "nat \<Rightarrow> 'w \<Rightarrow> byte list option \<times> 'w"
  x_fork :: "'w \<Rightarrow> int \<times> 'w"
  x_execv :: "byte list \<Rightarrow> byte list list \<Rightarrow> 'w \<Rightarrow> 'w option"
  x_wait :: "'w \<Rightarrow> int \<times> 'w"
  x_printf :: "string \<Rightarrow> print_arg list \<Rightarrow> 'w \<Rightarrow> 'w"
  x_putchar :: "char \<Rightarrow> 'w \<Rightarrow> 'w"
  x_perror :: "string \<Rightarrow> 'w \<Rightarrow> 'w"

text \<open>\<^verbatim>\<open>write(1, lit, n)\<close>, where the literal ends with a zero byte; a byte past that, which only
  \<^verbatim>\<open>netdemo\<close> writes, is left out.\<close>

definition put_lit :: "'w unix \<Rightarrow> string \<Rightarrow> nat \<Rightarrow> 'w \<Rightarrow> 'w" where
  "put_lit c s n w = snd (x_write c 1 (take n (c_text s @ [0])) w)"

text \<open>\<^verbatim>\<open>write_str\<close> and \<^verbatim>\<open>put_str\<close>: the whole literal.\<close>

definition write_str :: "'w unix \<Rightarrow> string \<Rightarrow> 'w \<Rightarrow> 'w" where
  "write_str c s = put_lit c s (length s)"

definition is_dir :: "status \<Rightarrow> bool" where
  "is_dir st \<longleftrightarrow> st_mode st AND 0x6000 = 0x4000"

subsection \<open>cat and echo\<close>

partial_function (option) cat_fd :: "'w unix \<Rightarrow> int \<Rightarrow> 'w \<Rightarrow> 'w option" where
  "cat_fd c fd w =
     (let (n, bs, w) = x_read c fd 128 w
      in if n > 0 then cat_fd c fd (snd (x_write c 1 bs w)) else Some w)"

fun cat_files :: "'w unix \<Rightarrow> byte list list \<Rightarrow> 'w \<Rightarrow> 'w option" where
  "cat_files c [] w = Some w"
| "cat_files c (p # ps) w =
     (let (fd, w) = x_open c p 0 w
      in if fd < 0 then cat_files c ps (write_str c (''cat: cannot open'' @ NL) w)
         else Option.bind (cat_fd c fd w) (\<lambda>w. cat_files c ps (x_close c fd w)))"

definition cat_main :: "'w unix \<Rightarrow> byte list list \<Rightarrow> 'w \<Rightarrow> (int \<times> 'w) option" where
  "cat_main c argv w =
     map_option (Pair 0) (if length argv < 2 then cat_fd c 0 w else cat_files c (tl argv) w)"

fun echo_args :: "'w unix \<Rightarrow> byte list list \<Rightarrow> 'w \<Rightarrow> 'w" where
  "echo_args c [] w = w"
| "echo_args c (a # as) w =
     (let w = snd (x_write c 1 a w) in echo_args c as (if as \<noteq> [] then put_lit c '' '' 1 w else w))"

definition echo_main :: "'w unix \<Rightarrow> byte list list \<Rightarrow> 'w \<Rightarrow> int \<times> 'w" where
  "echo_main c argv w = (0, put_lit c NL 1 (echo_args c (tl argv) w))"

subsection \<open>cp\<close>

text \<open>Both loops: \<open>False\<close> and the error of \<^verbatim>\<open>read\<close> are how they end early.\<close>

partial_function (option) cp_write :: "'w unix \<Rightarrow> int \<Rightarrow> byte list \<Rightarrow> 'w \<Rightarrow> (bool \<times> 'w) option" where
  "cp_write c fd bs w =
     (if bs = [] then Some (True, w)
      else
        (let (n, w) = x_write c fd bs w
         in if n < 0 then Some (False, w) else cp_write c fd (drop (nat n) bs) w))"

partial_function (option) cp_loop :: "'w unix \<Rightarrow> int \<Rightarrow> int \<Rightarrow> 'w \<Rightarrow> (bool \<times> int \<times> 'w) option" where
  "cp_loop c sfd dfd w =
     (let (n, bs, w) = x_read c sfd 4096 w
      in if n > 0 then Option.bind (cp_write c dfd bs w) (\<lambda>(ok, w). if ok then cp_loop c sfd dfd w else Some (False, n, w))
         else Some (True, n, w))"

definition QUOTE :: string where "QUOTE = [CHR 0x27]"

definition quoted :: "string \<Rightarrow> string" where
  "quoted s = s @ QUOTE @ ''%s'' @ QUOTE"

definition cp_fds :: "'w unix \<Rightarrow> byte list list \<Rightarrow> int \<Rightarrow> int \<Rightarrow> 'w \<Rightarrow> (int \<times> 'w) option" where
  "cp_fds c argv sfd dfd w =
     Option.bind (cp_loop c sfd dfd w) (\<lambda>(ok, n, w).
       Some (if ok then
               (0, x_close c dfd (x_close c sfd
                  (if n < 0 then x_printf c (quoted ''cp: read error from '' @ NL) [Str (argv ! 1)] w else w)))
             else (1, x_close c dfd (x_close c sfd (x_printf c (quoted ''cp: write error to '' @ NL) [Str (argv ! 2)] w)))))"

definition cp_main :: "'w unix \<Rightarrow> byte list list \<Rightarrow> 'w \<Rightarrow> (int \<times> 'w) option" where
  "cp_main c argv w =
     (if length argv \<noteq> 3 then Some (1, x_printf c (''usage: cp source_file dest_file'' @ NL) [] w)
      else
        (let (sfd, w) = x_open c (argv ! 1) 0 w
         in if sfd < 0 then Some (1, x_printf c (quoted ''cp: cannot open source file '' @ NL) [Str (argv ! 1)] w)
            else
              (let (st, w) = x_fstat c sfd w
               in if st \<noteq> None \<and> is_dir (the st)
                  then Some (1, x_close c sfd (x_printf c (quoted ''cp: omitting directory '' @ NL) [Str (argv ! 1)] w))
                  else
                    (let (dfd, w) = x_open c (argv ! 2) 0x901 w
                     in if dfd < 0
                        then Some (1, x_close c sfd (x_printf c (quoted ''cp: cannot create destination file '' @ NL) [Str (argv ! 2)] w))
                        else cp_fds c argv sfd dfd w))))"

subsection \<open>mkdir\<close>

text \<open>The string ends with its zero byte here, as the characters are looked at one by one.\<close>

definition is_octal :: "byte list \<Rightarrow> bool" where
  "is_octal s \<longleftrightarrow> s \<noteq> [] \<and> (\<forall>c\<in>set s. 48 \<le> sint c \<and> sint c \<le> 55)"

definition oct_to_int :: "byte list \<Rightarrow> int32_t" where
  "oct_to_int s = fold (\<lambda>c v. push_bit 3 v + (of_int (sint c) - 48)) s 0"

text \<open>The options: \<open>Inl\<close> when one is wrong, with what is printed.\<close>

fun mkdir_args :: "byte list list \<Rightarrow> int32_t \<Rightarrow> byte list option \<Rightarrow> string \<times> print_arg list + int32_t \<times> byte list option" where
  "mkdir_args [] mode path = Inr (mode, path)"
| "mkdir_args (a # as) mode path =
     (if a \<noteq> [] \<and> hd a = 45 then
        (if tl a = [109] then
           (case as of
              m # as \<Rightarrow> if is_octal m then mkdir_args as (oct_to_int m) path else Inl (''mkdir: invalid mode'' @ NL, [])
            | [] \<Rightarrow> Inl (''mkdir: invalid mode'' @ NL, []))
         else Inl (''mkdir: unknown option %s'' @ NL, [Str a]))
      else mkdir_args as mode (Some a))"

definition mkdir_main :: "'w unix \<Rightarrow> byte list list \<Rightarrow> 'w \<Rightarrow> int \<times> 'w" where
  "mkdir_main c argv w =
     (if length argv < 2 then (1, x_printf c (''usage: mkdir [-m mode] directory'' @ NL) [] w)
      else
        (case mkdir_args (tl argv) 0x1ED None of
           Inl (fmt, args) \<Rightarrow> (1, x_printf c fmt args w)
         | Inr (mode, None) \<Rightarrow> (1, x_printf c (''usage: mkdir [-m mode] directory'' @ NL) [] w)
         | Inr (mode, Some path) \<Rightarrow>
             (let (r, w) = x_mkdir c path (ucast mode) w in if r < 0 then (1, x_perror c ''mkdir'' w) else (0, w))))"

subsection \<open>rm\<close>

text \<open>The loop of \<^verbatim>\<open>delete_recursive\<close> over the open directory \<open>d\<close> of \<open>path\<close>; a path below it is cut to
  255 bytes.\<close>

partial_function (option) delete_loop :: "'w unix \<Rightarrow> byte list \<Rightarrow> int \<Rightarrow> 'w \<Rightarrow> 'w option" where
  "delete_loop c path d w =
     (let (de, w) = x_readdir c d w
      in if de = None then Some (x_closedir c d w)
         else
           (let name = the de
            in if name = c_text ''.'' \<or> name = c_text ''..'' then delete_loop c path d w
               else
                 (let sub = take 255 (path @ c_text ''/'' @ name); (st, w) = x_stat c sub w
                  in if st \<noteq> None \<and> is_dir (the st) then
                       (let (d', w) = x_opendir c sub w
                        in if d' = None then delete_loop c path d (snd (x_rmdir c sub w))
                           else Option.bind (delete_loop c sub (the d') w)
                             (\<lambda>w. delete_loop c path d (snd (x_rmdir c sub w))))
                     else delete_loop c path d (snd (x_unlink c sub w)))))"

definition delete_recursive :: "'w unix \<Rightarrow> byte list \<Rightarrow> 'w \<Rightarrow> 'w option" where
  "delete_recursive c path w =
     (let (d, w) = x_opendir c path w in case d of None \<Rightarrow> Some w | Some d \<Rightarrow> delete_loop c path d w)"

definition rm_file :: "'w unix \<Rightarrow> bool \<Rightarrow> byte list \<Rightarrow> 'w \<Rightarrow> 'w option" where
  "rm_file c rec p w =
     (let (st, w) = x_lstat c p w
      in case st of
           None \<Rightarrow> Some (x_perror c ''rm'' w)
         | Some st \<Rightarrow>
             if is_dir st then
               (if rec
                then Option.bind (delete_recursive c p w) (\<lambda>w.
                  let (r, w) = x_rmdir c p w in Some (if r < 0 then x_perror c ''rmdir'' w else w))
                else Some (x_printf c (quoted ''rm: cannot remove '' @ '': Is a directory'' @ NL) [Str p] w))
             else (let (r, w) = x_unlink c p w in Some (if r < 0 then x_perror c ''rm'' w else w)))"

fun rm_args :: "'w unix \<Rightarrow> bool \<Rightarrow> byte list list \<Rightarrow> 'w \<Rightarrow> 'w option" where
  "rm_args c rec [] w = Some w"
| "rm_args c rec (p # ps) w =
     (if p = c_text ''-r'' \<or> p = c_text ''-R'' then rm_args c True ps w
      else Option.bind (rm_file c rec p w) (rm_args c rec ps))"

definition rm_main :: "'w unix \<Rightarrow> byte list list \<Rightarrow> 'w \<Rightarrow> (int \<times> 'w) option" where
  "rm_main c argv w =
     (if length argv < 2 then Some (1, x_printf c (''usage: rm [-r] file...'' @ NL) [] w)
      else map_option (Pair 0) (rm_args c False (tl argv) w))"

subsection \<open>ls\<close>

definition mode_text :: "16 word \<Rightarrow> string" where
  "mode_text m =
     (if m AND 0x6000 = 0x4000 then CHR ''d'' else if m AND 0x6000 = 0x2000 then CHR ''c''
      else if m AND 0x6000 = 0x6000 then CHR ''b'' else CHR ''-'')
     # map (\<lambda>(b, x). if m AND b \<noteq> 0 then x else CHR ''-'')
         [(0x100, CHR ''r''), (0x80, CHR ''w''), (0x40, CHR ''x''), (0x20, CHR ''r''), (0x10, CHR ''w''), (8, CHR ''x''),
          (4, CHR ''r''), (2, CHR ''w''), (1, CHR ''x'')]"

definition print_mode :: "'w unix \<Rightarrow> 16 word \<Rightarrow> 'w \<Rightarrow> 'w" where
  "print_mode c m = fold (x_putchar c) (mode_text m)"

definition list_file :: "'w unix \<Rightarrow> bool \<Rightarrow> byte list \<Rightarrow> byte list \<Rightarrow> 'w \<Rightarrow> 'w" where
  "list_file c flag_long path name w =
     (let (st, w) = x_stat c path w
      in case st of
           None \<Rightarrow> x_printf c (''ls: cannot stat %s'' @ NL) [Str name] w
         | Some st \<Rightarrow>
             if flag_long
             then x_printf c ('' %2d %4d %4d %6ld %ld %s'' @ NL)
                    [Num (sint (st_nlink st)), Num (uint (st_uid st)), Num (uint (st_gid st)), Num (sint (st_size st)),
                     Num (sint (st_mtime st)), Str name] (print_mode c (st_mode st) w)
             else x_printf c (''%s'' @ NL) [Str name] w)"

definition list_entry :: "'w unix \<Rightarrow> bool \<Rightarrow> byte list \<Rightarrow> byte list \<Rightarrow> 'w \<Rightarrow> 'w" where
  "list_entry c flag_long path ent w =
     (if de_ino (v6_entry ent 0) = 0 then w
      else
        (let name = de_name (v6_entry ent 0)
         in if flag_long
            then list_file c flag_long (take 511 (if path = c_text ''/'' then c_text ''/'' @ name else path @ c_text ''/'' @ name)) name w
            else x_printf c (''%s'' @ NL) [Str name] w))"

partial_function (option) list_loop :: "'w unix \<Rightarrow> bool \<Rightarrow> byte list \<Rightarrow> int \<Rightarrow> 'w \<Rightarrow> 'w option" where
  "list_loop c flag_long path fd w =
     (let (n, ent, w) = x_read c fd 16 w
      in if n = 16 then list_loop c flag_long path fd (list_entry c flag_long path ent w) else Some w)"

definition list_dir :: "'w unix \<Rightarrow> bool \<Rightarrow> byte list \<Rightarrow> 'w \<Rightarrow> 'w option" where
  "list_dir c flag_long path w =
     (let (st, w) = x_stat c path w
      in case st of
           None \<Rightarrow> Some (x_printf c (''ls: cannot access %s'' @ NL) [Str path] w)
         | Some st \<Rightarrow>
             if \<not> is_dir st then Some (list_file c flag_long path path w)
             else
               (let (fd, w) = x_open c path 0 w
                in if fd < 0 then Some (x_printf c (''ls: cannot open %s'' @ NL) [Str path] w)
                   else Option.bind (list_loop c flag_long path fd w) (\<lambda>w. Some (x_close c fd w))))"

definition is_option :: "byte list \<Rightarrow> bool" where
  "is_option a \<longleftrightarrow> a \<noteq> [] \<and> hd a = 45"

definition ls_main :: "'w unix \<Rightarrow> byte list list \<Rightarrow> 'w \<Rightarrow> (int \<times> 'w) option" where
  "ls_main c argv w =
     (let flag_long = (\<exists>a\<in>set (tl argv). is_option a \<and> 108 \<in> set (tl a));
          paths = filter (\<lambda>a. \<not> is_option a) (tl argv);
          run = fold (\<lambda>p r. Option.bind r (list_dir c flag_long p))
      in map_option (Pair 0) (run (if paths = [] then [c_text ''.''] else paths) (Some w)))"

subsection \<open>pwd and the programs that print\<close>

text \<open>\<^verbatim>\<open>getcwd\<close> gives the 256 bytes of the buffer, all of which are written.\<close>

definition pwd_main :: "'w unix \<Rightarrow> 'w \<Rightarrow> int \<times> 'w" where
  "pwd_main c w =
     (case x_getcwd c 256 w of
        (None, w) \<Rightarrow> (1, put_lit c (''pwd: getcwd failed'' @ NL) 19 w)
      | (Some buf, w) \<Rightarrow> (0, put_lit c NL 1 (snd (x_write c 1 (take 256 buf) w))))"

definition pwd_test_main :: "'w unix \<Rightarrow> 'w \<Rightarrow> int \<times> 'w" where
  "pwd_test_main c w =
     (case x_getcwd c 256 w of
        (None, w) \<Rightarrow> (1, put_lit c (''pwd: getcwd failed'' @ NL) 19 w)
      | (Some buf, w) \<Rightarrow> (0, put_lit c NL 1 (snd (x_write c 1 (take 256 buf) w))))"

definition uname_main :: "'w unix \<Rightarrow> 'w \<Rightarrow> int \<times> 'w" where
  "uname_main c w = (0, put_lit c (''Unix V6 x86 (i686)'' @ NL) 19 w)"

definition hello_main :: "'w unix \<Rightarrow> 'w \<Rightarrow> int \<times> 'w" where
  "hello_main c w = (0, put_lit c (''hello from userland'' @ NL) 21 w)"

definition netdemo_main :: "'w unix \<Rightarrow> 'w \<Rightarrow> int \<times> 'w" where
  "netdemo_main c w = (0, put_lit c (''netdemo: network not implemented'' @ NL) 35 w)"

definition clear_main :: "'w unix \<Rightarrow> 'w \<Rightarrow> int \<times> 'w" where
  "clear_main c w = (0, put_lit c (CHR 0x1B # ''[2J'' @ CHR 0x1B # ''[H'') 7 w)"

definition ps_main :: "'w unix \<Rightarrow> 'w \<Rightarrow> int \<times> 'w" where
  "ps_main c w =
     (0, fold (\<lambda>(s, n). put_lit c s n)
        [(''PID  STAT  CMD'' @ NL, 15), (''1    S     init'' @ NL, 16), (''2    R     sh'' @ NL, 14),
         (NL @ ''Note: Full ps requires kernel support'' @ NL, 39)] w)"

definition help_main :: "'w unix \<Rightarrow> 'w \<Rightarrow> int \<times> 'w" where
  "help_main c w =
     (0, write_str c (concat (map (\<lambda>s. s @ NL)
        [''Available commands:'',
         ''  cat <file>     - Display file contents'',
         ''  clear          - Clear the screen'',
         ''  echo <text>    - Print text to screen'',
         ''  help           - Show this help message'',
         ''  hello          - Test program'',
         ''  ls [dir]       - List directory contents'',
         ''  ps             - Show process list'',
         ''  pwd            - Print working directory'',
         ''  uname          - Show system information'',
         ''  netdemo        - Network loop test'',
         [],
         ''Built-in shell commands:'',
         ''  cd <dir>       - Change directory'',
         ''  exit           - Exit shell''])) w)"

definition tcc_main :: "'w unix \<Rightarrow> 'w \<Rightarrow> int \<times> 'w" where
  "tcc_main c w =
     (1, fold (\<lambda>s. write_str c (s @ NL))
        [''TinyCC: Tiny C Compiler - version 0.9.27'',
         [],
         ''Note: TinyCC is not yet fully ported to Unix V6.'',
         ''      This is a placeholder implementation.'',
         [],
         ''Usage: tcc [options] infile(s)'',
         [],
         ''General options:'',
         ''  -v             show version'',
         ''  -c             compile only'',
         ''  -o <file>      set output filename'',
         ''  -run <args>    run compiled source'',
         [],
         ''For full TinyCC functionality, please use the host system compiler.''] w)"

text \<open>\<open>None\<close> for the program replaced by another.\<close>

definition gui_main :: "'w unix \<Rightarrow> 'w \<Rightarrow> (int \<times> 'w) option" where
  "gui_main c w =
     (case x_execv c (c_text ''/bin/winserver'') [c_text ''/bin/winserver''] w of
        None \<Rightarrow> None
      | Some w \<Rightarrow> Some (1, x_printf c (''Failed to start WindowServer'' @ NL) [] w))"

subsection \<open>init\<close>

definition print_motd :: "'w unix \<Rightarrow> 'w \<Rightarrow> 'w option" where
  "print_motd c w =
     (let (fd, w) = x_open c (c_text ''/etc/motd'') 0 w
      in if fd < 0 then Some w else Option.bind (cat_fd c fd w) (\<lambda>w. Some (x_close c fd w)))"

partial_function (option) wait_all :: "'w unix \<Rightarrow> 'w \<Rightarrow> 'w option" where
  "wait_all c w = (let (r, w) = x_wait c w in if r \<noteq> - 1 then wait_all c w else Some w)"

text \<open>One round of the loop: the child becomes the shell or exits, the parent goes on when it has
  no child left.\<close>

definition init_round :: "'w unix \<Rightarrow> 'w \<Rightarrow> 'w sh_end option" where
  "init_round c w =
     (let (pid, w) = x_fork c w
      in if pid = 0 then
           Some (case x_execv c (c_text ''/bin/sh'') [c_text ''sh''] w of
                   None \<Rightarrow> Replaced w
                 | Some w \<Rightarrow> Exited 1 (put_lit c (''exec failed'' @ NL) 13 w))
         else map_option Going (wait_all c w))"

partial_function (option) init_loop :: "'w unix \<Rightarrow> 'w \<Rightarrow> 'w sh_end option" where
  "init_loop c w =
     Option.bind (init_round c w) (\<lambda>r. case r of Going w \<Rightarrow> init_loop c w | Exited n w \<Rightarrow> Some r | Replaced w \<Rightarrow> Some r)"

definition init_main :: "'w unix \<Rightarrow> 'w \<Rightarrow> 'w sh_end option" where
  "init_main c w = Option.bind (print_motd c (put_lit c (''INIT: Starting...'' @ NL) 18 w)) (init_loop c)"

subsection \<open>The window server\<close>

text \<open>The frame buffer is memory of the process.\<close>

record framebuffer =
  f_width :: uint32_t
  f_height :: uint32_t
  f_pitch :: uint32_t
  f_bpp :: uint32_t
  f_addr :: addr

definition rect_pixel :: "framebuffer \<Rightarrow> int \<Rightarrow> int \<Rightarrow> uint32_t \<Rightarrow> cmem \<Rightarrow> cmem" where
  "rect_pixel f x y color m =
     (if y < 0 \<or> y \<ge> sint (f_height f) \<or> x < 0 \<or> x \<ge> sint (f_width f) then m
      else store_word (f_addr f + of_int y * f_pitch f + 4 * of_int x) color m)"

definition draw_rect :: "framebuffer \<Rightarrow> int \<Rightarrow> int \<Rightarrow> int \<Rightarrow> int \<Rightarrow> uint32_t \<Rightarrow> cmem \<Rightarrow> cmem" where
  "draw_rect f x y wd ht color m =
     (if f_addr f = 0 then m
      else fold (\<lambda>j. fold (\<lambda>i. rect_pixel f (x + i) (y + j) color) [0..wd - 1]) [0..ht - 1] m)"

text \<open>The server draws and then does nothing for ever, which is the \<open>None\<close> here.\<close>

definition winserver_main :: "'w unix \<Rightarrow> ('w \<Rightarrow> framebuffer option \<times> 'w) \<Rightarrow> cmem \<Rightarrow> 'w \<Rightarrow> int option \<times> cmem \<times> 'w" where
  "winserver_main c getfbinfo m w =
     (let w = x_printf c (''Starting WindowServer...'' @ NL) [] w; (r, w) = getfbinfo w
      in case r of
           None \<Rightarrow> (Some 1, m, x_printf c (''WindowServer: Failed to get framebuffer info.'' @ NL) [] w)
         | Some f \<Rightarrow>
             (let w = x_printf c (''Display: %dx%dx%d at %p'' @ NL)
                        [Num (sint (f_width f)), Num (sint (f_height f)), Num (sint (f_bpp f)), Num (uint (f_addr f))] w;
                  m = draw_rect f 0 0 (sint (f_width f)) (sint (f_height f)) 0x8080 m;
                  m = draw_rect f 160 110 500 350 0 m;
                  m = draw_rect f 150 100 500 350 0xC0C0C0 m;
                  m = draw_rect f 152 102 496 25 0x80 m
              in (None, m, x_printf c (''WindowServer initialized.'' @ NL) [] w)))"

subsection \<open>What the programs do\<close>

text \<open>\<open>cp\<close> copies although \<^verbatim>\<open>write\<close> may take only a part: what \<^verbatim>\<open>read\<close> and \<^verbatim>\<open>write\<close> promise for the two
  files, where \<open>rest\<close> is what is left of the source and \<open>held\<close> what the destination holds.\<close>

definition copies :: "'w unix \<Rightarrow> int \<Rightarrow> int \<Rightarrow> ('w \<Rightarrow> byte list) \<Rightarrow> ('w \<Rightarrow> byte list) \<Rightarrow> bool" where
  "copies c sfd dfd rest held \<longleftrightarrow>
     (\<forall>w. case x_read c sfd 4096 w of (n, bs, w') \<Rightarrow>
        n = int (length bs) \<and> rest w = bs @ rest w' \<and> (bs = [] \<longrightarrow> rest w = []) \<and> held w' = held w)
   \<and> (\<forall>w bs. bs \<noteq> [] \<longrightarrow> (case x_write c dfd bs w of (n, w') \<Rightarrow>
        0 < n \<and> held w' = held w @ take (nat n) bs \<and> rest w' = rest w))"

lemma copies_read:
  "copies c sfd dfd rest held \<Longrightarrow> x_read c sfd 4096 w = (n, bs, w')
    \<Longrightarrow> n = int (length bs) \<and> rest w = bs @ rest w' \<and> (bs = [] \<longrightarrow> rest w = []) \<and> held w' = held w"
  unfolding copies_def by (metis (mono_tags, lifting) case_prod_conv)

lemma copies_write:
  "copies c sfd dfd rest held \<Longrightarrow> x_write c dfd bs w = (n, w') \<Longrightarrow> bs \<noteq> []
    \<Longrightarrow> 0 < n \<and> held w' = held w @ take (nat n) bs \<and> rest w' = rest w"
  unfolding copies_def by (metis (mono_tags, lifting) case_prod_conv)

lemma cp_write_all:
  assumes c: "copies c sfd dfd rest held"
  shows "\<exists>w'. cp_write c dfd bs w = Some (True, w') \<and> held w' = held w @ bs \<and> rest w' = rest w"
proof (induction bs arbitrary: w rule: length_induct)
  case (1 bs)
  show ?case
  proof (cases "bs = []")
    case True
    then show ?thesis by (simp add: cp_write.simps)
  next
    case False
    obtain n w' where x: "x_write c dfd bs w = (n, w')" by fastforce
    note n = copies_write [OF c x False]
    have "length (drop (nat n) bs) < length bs" using n False by (cases bs) auto
    then obtain w'' where w'': "cp_write c dfd (drop (nat n) bs) w' = Some (True, w'')"
      "held w'' = held w' @ drop (nat n) bs" "rest w'' = rest w'" using 1 by blast
    have "cp_write c dfd bs w = Some (True, w'')" using x n False w''(1) by (subst cp_write.simps) simp
    then show ?thesis using n w''(2,3) by simp
  qed
qed

lemma cp_loop_copies:
  assumes c: "copies c sfd dfd rest held"
  shows "\<exists>w'. cp_loop c sfd dfd w = Some (True, 0, w') \<and> held w' = held w @ rest w \<and> rest w' = []"
proof (induction "length (rest w)" arbitrary: w rule: less_induct)
  case less
  obtain n bs w1 where x: "x_read c sfd 4096 w = (n, bs, w1)" by (metis prod_cases3)
  note n = copies_read [OF c x]
  show ?case
  proof (cases "bs = []")
    case True
    then have "rest w = []" "rest w1 = []" using n by auto
    then show ?thesis using x n True by (subst cp_loop.simps) simp
  next
    case False
    obtain w2 where w2: "cp_write c dfd bs w1 = Some (True, w2)" "held w2 = held w1 @ bs" "rest w2 = rest w1"
      using cp_write_all [OF c] by blast
    have "length (rest w2) < length (rest w)" using n w2(3) False by simp
    from less [OF this] obtain w3 where w3: "cp_loop c sfd dfd w2 = Some (True, 0, w3)" "held w3 = held w2 @ rest w2" "rest w3 = []"
      by blast
    have "cp_loop c sfd dfd w = Some (True, 0, w3)" using x n False w2(1) w3(1) by (subst cp_loop.simps) simp
    then show ?thesis using n w2(2,3) w3(2,3) by simp
  qed
qed

lemma cp_copies:
  assumes c: "copies c sfd dfd rest held"
    and opens: "x_open c a 0 w = (sfd, w1)" "x_fstat c sfd w1 = (st, w2)" "x_open c b 0x901 w2 = (dfd, w3)"
    and ok: "0 \<le> sfd" "st = None \<or> \<not> is_dir (the st)" "0 \<le> dfd"
    and close: "\<And>fd w. held (x_close c fd w) = held w"
  shows "\<exists>w'. cp_main c [p, a, b] w = Some (0, w') \<and> held w' = held w3 @ rest w3"
proof -
  obtain w' where "cp_loop c sfd dfd w3 = Some (True, 0, w')" "held w' = held w3 @ rest w3"
    using cp_loop_copies [OF c] by blast
  then show ?thesis using opens ok close by (auto simp: cp_main_def cp_fds_def)
qed

text \<open>An error of \<^verbatim>\<open>read\<close> in the middle is reported, but the status is 0.\<close>

lemma cp_read_error_zero:
  assumes "x_read c sfd 4096 w = (- 1, bs, w1)"
  shows "\<exists>w'. cp_fds c argv sfd dfd w = Some (0, w')"
  using assms by (simp add: cp_fds_def cp_loop.simps [of c sfd dfd w])

text \<open>The digits of a mode are read as an octal number.\<close>

lemma oct_to_int_append: "oct_to_int (s @ [d]) = 8 * oct_to_int s + (of_int (sint d) - 48)"
  by (simp add: oct_to_int_def push_bit_eq_mult)

lemma mkdir_mode:
  assumes "is_octal m" "p = [] \<or> hd p \<noteq> 45" "x_mkdir c p (ucast (oct_to_int m)) w = (0, w')"
  shows "mkdir_main c [a, [45, 109], m, p] w = (0, w')"
  using assms by (auto simp: mkdir_main_def)

text \<open>The window server writes only inside the frame buffer.\<close>

lemma rect_pixel_inside:
  assumes w: "unat (f_width f) * 4 \<le> unat (f_pitch f)" "unat (f_addr f) + unat (f_height f) * unat (f_pitch f) \<le> 2 ^ 32"
    and a: "unat a < unat (f_addr f) \<or> unat (f_addr f) + unat (f_height f) * unat (f_pitch f) \<le> unat a"
  shows "rect_pixel f x y color m a = m a"
proof (cases "y < 0 \<or> y \<ge> sint (f_height f) \<or> x < 0 \<or> x \<ge> sint (f_width f)")
  case False
  define i j where "i = nat x" and "j = nat y"
  have ij: "of_int x = (of_nat i :: addr)" "of_int y = (of_nat j :: addr)" using False by (simp_all add: i_def j_def)
  have le: "sint v \<le> int (unat v)" for v :: uint32_t by (simp add: sint_unat_if)
  have lt: "i < unat (f_width f)" "j < unat (f_height f)"
    using False le [of "f_width f"] le [of "f_height f"] unfolding i_def j_def by linarith+
  let ?o = "j * unat (f_pitch f) + 4 * i"
  have "4 * i + 4 \<le> unat (f_pitch f)" using lt(1) w(1) by linarith
  then have "?o + 4 \<le> (j + 1) * unat (f_pitch f)" by simp
  also have "\<dots> \<le> unat (f_height f) * unat (f_pitch f)" using lt(2) by (intro mult_le_mono1) simp
  finally have o4: "?o + 4 \<le> unat (f_height f) * unat (f_pitch f)" .
  let ?a = "f_addr f + of_int y * f_pitch f + 4 * of_int x"
  have "of_nat (unat (f_addr f) + ?o) = ?a" by (simp add: ij)
  moreover have "unat (f_addr f) + ?o < 2 ^ LENGTH(32)" using o4 w(2) by simp
  ultimately have ua: "unat ?a = unat (f_addr f) + ?o" by (rule of_nat_inverse)
  have "unat ?a + 4 \<le> 2 ^ 32" unfolding ua using o4 w(2) by simp
  from within_iff [OF this] have "\<not> within ?a 4 a" unfolding ua using a o4 by auto
  then show ?thesis using False by (simp add: rect_pixel_def store_word_at)
qed (simp add: rect_pixel_def)

lemma fold_unchanged: "(\<And>i m. i \<in> set is \<Longrightarrow> g i m a = m a) \<Longrightarrow> fold g is m a = (m a :: byte)"
  by (induction "is" arbitrary: m) auto

lemma draw_rect_inside:
  assumes "unat (f_width f) * 4 \<le> unat (f_pitch f)" "unat (f_addr f) + unat (f_height f) * unat (f_pitch f) \<le> 2 ^ 32"
    and "unat a < unat (f_addr f) \<or> unat (f_addr f) + unat (f_height f) * unat (f_pitch f) \<le> unat a"
  shows "draw_rect f x y wd ht color m a = m a"
  by (simp add: draw_rect_def fold_unchanged rect_pixel_inside [OF assms])

end
