(* ===== verification/Startup.thy ===== *)
theory Startup
  imports Exec Shell
begin

text \<open>
  The start of a program: what \<^verbatim>\<open>crt/crt0.c\<close> of the C library finds on the stack that \<^verbatim>\<open>exec\<close>
  of the kernel has built.
\<close>

subsection \<open>The start-up code\<close>

text \<open>The memory as the process sees it.\<close>

definition user_mem :: "kernel \<Rightarrow> cmem" where
  "user_mem k a = phys k (user_phys_addr a k)"

text \<open>\<^verbatim>\<open>_start_c\<close> up to the call of \<^verbatim>\<open>main\<close>: \<^verbatim>\<open>argc\<close>, \<^verbatim>\<open>argv\<close> and \<^verbatim>\<open>envp\<close>.\<close>

definition start_c :: "cmem \<Rightarrow> addr \<Rightarrow> int \<times> addr \<times> addr" where
  "start_c m stack_ptr =
     (let argc = sint (phys_word m stack_ptr); argv = stack_ptr + 4
      in (argc, argv, argv + 4 * of_nat (nat (argc + 1))))"

subsection \<open>Stores into the stack\<close>

text \<open>The bytes from \<open>sp\<close> on, by their distance.\<close>

definition stack_byte :: "addr \<Rightarrow> kernel \<Rightarrow> nat \<Rightarrow> byte" where
  "stack_byte sp k i = user_mem k (sp + of_nat i)"

lemma above_user_list: "i < n \<Longrightarrow> stack_byte sp k i = user_list sp n k ! i"
  by (simp add: stack_byte_def user_mem_def user_list_def)

lemma word_above: "phys_word (user_mem k) (sp + of_nat i) = get32 (stack_byte sp k) i"
  unfolding phys_word_def by (simp add: get32_def stack_byte_def ac_simps)

lemma user_range_phys [simp]: "user_range a n (k\<lparr>phys := m\<rparr>) = user_range a n k"
  by (rule user_range_image) simp

lemma store_byte_above:
  assumes "user_range sp n k" "i < n"
  shows "\<exists>m. subyte (UAddr (sp + of_nat i)) v k = (True, k\<lparr>phys := m\<rparr>)
    \<and> (\<forall>j<n. stack_byte sp (k\<lparr>phys := m\<rparr>) j = (if j = i then v else stack_byte sp k j))"
  using subyte_user [OF assms, of v] assms(2) by (auto simp: above_user_list [of _ n])

lemma store_word_above:
  assumes r: "user_range sp n k" and i: "i + 4 \<le> n"
  shows "\<exists>m. suword (sp + of_nat i) v k = (True, k\<lparr>phys := m\<rparr>)
    \<and> (\<forall>j<n. stack_byte sp (k\<lparr>phys := m\<rparr>) j = (if i \<le> j \<and> j < i + 4 then put32 (\<lambda>_. 0) 0 v (j - i) else stack_byte sp k j))"
proof -
  let ?a = "\<lambda>j. user_phys_addr (sp + of_nat j) k"
  let ?m = "store_word (?a i) v (phys k)"
  have in_n: "i < n" "i + 3 < n" using i by auto
  have "unat (?a (i + 3)) < 2 ^ 32" by (rule order_less_le_trans [OF unsigned_less]) simp
  then have "unat (?a i) + 4 \<le> 2 ^ 32" using user_addr(1) [OF r in_n(1)] user_addr(1) [OF r in_n(2)] by linarith
  from within_iff [OF this] have w: "unat (?a j - ?a i) < 4 \<longleftrightarrow> i \<le> j \<and> j < i + 4" if "j < n" for j
    using user_addr(1) [OF r in_n(1)] user_addr(1) [OF r that] by (auto simp: within_def)
  have d: "unat (?a j - ?a i) = j - i" if "j < n" "i \<le> j" for j
    using user_addr(1) [OF r in_n(1)] user_addr(1) [OF r that(1)] that(2) by (simp add: unat_sub_if_size)
  have u: "user_phys_addr x (k\<lparr>phys := m\<rparr>) = user_phys_addr x k" for x m by (rule user_phys_image) simp
  have "stack_byte sp (k\<lparr>phys := ?m\<rparr>) j = (if i \<le> j \<and> j < i + 4 then put32 (\<lambda>_. 0) 0 v (j - i) else stack_byte sp k j)" if "j < n" for j
    using w [OF that] d [OF that] by (simp add: stack_byte_def user_mem_def u store_word_def)
  then show ?thesis using suword_in [OF user_addr(2) [OF r in_n(1)]] by blast
qed

lemma get32_put32_at: "(\<And>b. b < 4 \<Longrightarrow> f (i + b) = put32 (\<lambda>_. 0) 0 v b) \<Longrightarrow> get32 f i = v"
proof -
  assume a: "\<And>b. b < 4 \<Longrightarrow> f (i + b) = put32 (\<lambda>_. 0) 0 v b"
  have "get32 f i = get32 (\<lambda>b. f (i + b)) 0" by (simp add: get32_def)
  also have "\<dots> = get32 (put32 (\<lambda>_. 0) 0 v) 0" using a by (intro get32_cong) simp
  finally show ?thesis by simp
qed

subsection \<open>The strings and the pointers\<close>

definition flat :: "byte list list \<Rightarrow> byte list" where
  "flat args = concat (map (\<lambda>s. s @ [0]) args)"

lemma flat_simps [simp]: "flat [] = []" "flat (s # args) = s @ 0 # flat args"
  by (simp_all add: flat_def)

text \<open>The end of a string in the buffer.\<close>

lemma push_string_above:
  assumes "user_range sp N k" "off + length s < N" "length s \<le> n" "0 \<notin> set s"
    and "\<And>t. t \<le> length s \<Longrightarrow> b_addr (bufp k bp) (cp + t) = (s @ [0]) ! t"
  shows "\<exists>m. push_string n bp cp (sp + of_nat off) k = (Some (cp + length s + 1, sp + of_nat (off + length s + 1)), k\<lparr>phys := m\<rparr>)
    \<and> (\<forall>j<N. stack_byte sp (k\<lparr>phys := m\<rparr>) j = (if off \<le> j \<and> j \<le> off + length s then (s @ [0]) ! (j - off) else stack_byte sp k j))"
  using assms
proof (induction s arbitrary: n cp off k)
  case Nil
  have "off < N" "b_addr (bufp k bp) cp = 0" using Nil.prems(2) Nil.prems(5) [of 0] by simp_all
  then obtain m where m: "subyte (UAddr (sp + of_nat off)) 0 k = (True, k\<lparr>phys := m\<rparr>)"
    "\<forall>j<N. stack_byte sp (k\<lparr>phys := m\<rparr>) j = (if j = off then 0 else stack_byte sp k j)"
    using store_byte_above [OF Nil.prems(1), of off 0] by blast
  then show ?case using \<open>b_addr (bufp k bp) cp = 0\<close>
    by (intro exI [of _ m]) (auto simp: push_string.simps [of n] ac_simps)
next
  case (Cons c s)
  obtain n' where n: "n = Suc n'" using Cons.prems(3) by (cases n) auto
  have c: "b_addr (bufp k bp) cp = c" "c \<noteq> 0" "off < N" using Cons.prems(5) [of 0] Cons.prems(2,4) by auto
  obtain m where m: "subyte (UAddr (sp + of_nat off)) c k = (True, k\<lparr>phys := m\<rparr>)"
    "\<forall>j<N. stack_byte sp (k\<lparr>phys := m\<rparr>) j = (if j = off then c else stack_byte sp k j)"
    using store_byte_above [OF Cons.prems(1) c(3), of c] by blast
  have "b_addr (bufp (k\<lparr>phys := m\<rparr>) bp) (cp + 1 + t) = (s @ [0]) ! t" if "t \<le> length s" for t
    using Cons.prems(5) [of "Suc t"] that by simp
  then obtain m' where m': "push_string n' bp (cp + 1) (sp + of_nat (off + 1)) (k\<lparr>phys := m\<rparr>)
      = (Some (cp + 1 + length s + 1, sp + of_nat (off + 1 + length s + 1)), k\<lparr>phys := m'\<rparr>)"
    "\<forall>j<N. stack_byte sp (k\<lparr>phys := m'\<rparr>) j
      = (if off + 1 \<le> j \<and> j \<le> off + 1 + length s then (s @ [0]) ! (j - (off + 1)) else stack_byte sp (k\<lparr>phys := m\<rparr>) j)"
    using Cons.IH [of "k\<lparr>phys := m\<rparr>" "off + 1" n' "cp + 1"] Cons.prems n by auto
  have "push_string n bp cp (sp + of_nat off) k = push_string n' bp (cp + 1) (sp + of_nat (off + 1)) (k\<lparr>phys := m\<rparr>)"
    using c m(1) n by (subst push_string.simps) (simp add: ac_simps)
  moreover have "stack_byte sp (k\<lparr>phys := m'\<rparr>) j = (if off \<le> j \<and> j \<le> off + length (c # s) then ((c # s) @ [0]) ! (j - off) else stack_byte sp k j)"
    if "j < N" for j
    using m(2) m'(2) that by (cases "j = off") (auto simp: nth_Cons' Suc_diff_le)
  ultimately show ?case using m'(1) by auto
qed

text \<open>All strings: where they begin, and which bytes they leave alone.\<close>

definition begins :: "byte list list \<Rightarrow> nat \<Rightarrow> nat" where
  "begins args i = length (flat (take i args))"

lemma begins_simps [simp]: "begins args 0 = 0" "begins (s # args) (Suc i) = length s + 1 + begins args i"
  by (simp_all add: begins_def)

lemma push_args_above:
  assumes "user_range sp N k" "a + 4 * length args \<le> off" "off + length (flat args) \<le> N"
    and "\<forall>s\<in>set args. 0 \<notin> set s \<and> length s \<le> BSIZE"
    and "\<And>t. t < length (flat args) \<Longrightarrow> b_addr (bufp k bp) (cp + t) = flat args ! t"
  shows "\<exists>m. push_args (length args) bp cp (sp + of_nat a) (sp + of_nat off) k = (Some (sp + of_nat (a + 4 * length args)), k\<lparr>phys := m\<rparr>)
    \<and> (\<forall>j<N. j < a \<longrightarrow> stack_byte sp (k\<lparr>phys := m\<rparr>) j = stack_byte sp k j)
    \<and> (\<forall>i<length args. get32 (stack_byte sp (k\<lparr>phys := m\<rparr>)) (a + 4 * i) = sp + of_nat (off + begins args i))
    \<and> (\<forall>t<length (flat args). stack_byte sp (k\<lparr>phys := m\<rparr>) (off + t) = flat args ! t)
    \<and> (\<forall>j<off. a + 4 * length args \<le> j \<longrightarrow> stack_byte sp (k\<lparr>phys := m\<rparr>) j = stack_byte sp k j)"
  using assms
proof (induction args arbitrary: cp a off k)
  case Nil
  then show ?case by (intro exI [of _ "phys k"]) simp
next
  case (Cons s args)
  let ?w = "sp + of_nat off"
  have r: "user_range sp N k" and fit: "a + 4 \<le> N" "off + length s < N" "a + 4 + 4 * length args \<le> off"
    "off + length s + 1 + length (flat args) \<le> N" using Cons.prems(1,2,3) by auto
  obtain m where m: "suword (sp + of_nat a) ?w k = (True, k\<lparr>phys := m\<rparr>)"
    "\<forall>j<N. stack_byte sp (k\<lparr>phys := m\<rparr>) j = (if a \<le> j \<and> j < a + 4 then put32 (\<lambda>_. 0) 0 ?w (j - a) else stack_byte sp k j)"
    using store_word_above [OF r fit(1), of ?w] by blast
  have "b_addr (bufp (k\<lparr>phys := m\<rparr>) bp) (cp + t) = (s @ [0]) ! t" if "t \<le> length s" for t
    using Cons.prems(5) [of t] that by (auto simp: nth_append)
  then obtain m1 where m1: "push_string BSIZE bp cp ?w (k\<lparr>phys := m\<rparr>)
      = (Some (cp + length s + 1, sp + of_nat (off + length s + 1)), k\<lparr>phys := m1\<rparr>)"
    "\<forall>j<N. stack_byte sp (k\<lparr>phys := m1\<rparr>) j
      = (if off \<le> j \<and> j \<le> off + length s then (s @ [0]) ! (j - off) else stack_byte sp (k\<lparr>phys := m\<rparr>) j)"
    using push_string_above [of sp N "k\<lparr>phys := m\<rparr>" off s BSIZE bp cp] r fit(2) Cons.prems(4) by auto
  have "b_addr (bufp (k\<lparr>phys := m1\<rparr>) bp) (cp + length s + 1 + t) = flat args ! t" if "t < length (flat args)" for t
    using Cons.prems(5) [of "length s + 1 + t"] that by (simp add: nth_append ac_simps)
  then obtain m2 where m2: "push_args (length args) bp (cp + length s + 1) (sp + of_nat (a + 4)) (sp + of_nat (off + length s + 1)) (k\<lparr>phys := m1\<rparr>)
      = (Some (sp + of_nat (a + 4 + 4 * length args)), k\<lparr>phys := m2\<rparr>)"
    and lo: "\<And>j. j < N \<Longrightarrow> j < a + 4 \<Longrightarrow> stack_byte sp (k\<lparr>phys := m2\<rparr>) j = stack_byte sp (k\<lparr>phys := m1\<rparr>) j"
    and ptr: "\<And>i. i < length args \<Longrightarrow> get32 (stack_byte sp (k\<lparr>phys := m2\<rparr>)) (a + 4 + 4 * i) = sp + of_nat (off + length s + 1 + begins args i)"
    and str: "\<And>t. t < length (flat args) \<Longrightarrow> stack_byte sp (k\<lparr>phys := m2\<rparr>) (off + length s + 1 + t) = flat args ! t"
    and mid: "\<And>j. j < off + length s + 1 \<Longrightarrow> a + 4 + 4 * length args \<le> j \<Longrightarrow> stack_byte sp (k\<lparr>phys := m2\<rparr>) j = stack_byte sp (k\<lparr>phys := m1\<rparr>) j"
    using Cons.IH [of "k\<lparr>phys := m1\<rparr>" "a + 4" "off + length s + 1" "cp + length s + 1"] r fit Cons.prems(4) by auto
  have run: "push_args (length (s # args)) bp cp (sp + of_nat a) ?w k = (Some (sp + of_nat (a + 4 * length (s # args))), k\<lparr>phys := m2\<rparr>)"
    using m(1) m1(1) m2 by (simp add: ac_simps)
  have w: "get32 (stack_byte sp (k\<lparr>phys := m2\<rparr>)) a = ?w"
  proof (rule get32_put32_at)
    fix b :: nat assume "b < 4"
    then show "stack_byte sp (k\<lparr>phys := m2\<rparr>) (a + b) = put32 (\<lambda>_. 0) 0 ?w b"
      using lo [of "a + b"] m1(2) m(2) fit by simp
  qed
  have st: "stack_byte sp (k\<lparr>phys := m2\<rparr>) (off + t) = (s @ [0]) ! t" if "t \<le> length s" for t
    using mid [of "off + t"] m1(2) that fit by simp
  show ?case
  proof (intro exI [of _ m2] conjI allI impI)
    show "push_args (length (s # args)) bp cp (sp + of_nat a) (sp + of_nat off) k
      = (Some (sp + of_nat (a + 4 * length (s # args))), k\<lparr>phys := m2\<rparr>)" by (rule run)
    show "stack_byte sp (k\<lparr>phys := m2\<rparr>) j = stack_byte sp k j" if "j < N" "j < a" for j
      using lo [of j] m1(2) m(2) that fit by simp
    show "get32 (stack_byte sp (k\<lparr>phys := m2\<rparr>)) (a + 4 * i) = sp + of_nat (off + begins (s # args) i)"
      if "i < length (s # args)" for i
      using w ptr [of "i - 1"] that by (cases i) (simp_all add: ac_simps)
    show "stack_byte sp (k\<lparr>phys := m2\<rparr>) (off + t) = flat (s # args) ! t" if "t < length (flat (s # args))" for t
    proof (cases "t \<le> length s")
      case True
      then show ?thesis using st [OF True] by (auto simp: nth_append)
    next
      case False
      then obtain t' where t': "t = length s + 1 + t'" using le_Suc_ex [of "length s + 1" t] by auto
      then show ?thesis using str [of t'] that by (simp add: nth_append ac_simps)
    qed
    show "stack_byte sp (k\<lparr>phys := m2\<rparr>) j = stack_byte sp k j" if "j < off" "a + 4 * length (s # args) \<le> j" for j
      using mid [of j] m1(2) m(2) that fit by simp
  qed
qed

lemma push_zeros_above:
  assumes "user_range sp N k" "a + 4 * n \<le> N"
  shows "\<exists>m. push_zeros n (sp + of_nat a) k = (True, k\<lparr>phys := m\<rparr>)
    \<and> (\<forall>j<N. j < a \<or> a + 4 * n \<le> j \<longrightarrow> stack_byte sp (k\<lparr>phys := m\<rparr>) j = stack_byte sp k j)
    \<and> (\<forall>i<n. get32 (stack_byte sp (k\<lparr>phys := m\<rparr>)) (a + 4 * i) = 0)"
  using assms
proof (induction n arbitrary: a k)
  case 0
  then show ?case by (intro exI [of _ "phys k"]) simp
next
  case (Suc n)
  have fit: "a + 4 \<le> N" "a + 4 + 4 * n \<le> N" using Suc.prems(2) by auto
  obtain m where m: "suword (sp + of_nat a) 0 k = (True, k\<lparr>phys := m\<rparr>)"
    "\<forall>j<N. stack_byte sp (k\<lparr>phys := m\<rparr>) j = (if a \<le> j \<and> j < a + 4 then put32 (\<lambda>_. 0) 0 0 (j - a) else stack_byte sp k j)"
    using store_word_above [OF Suc.prems(1) fit(1), of 0] by blast
  obtain m1 where m1: "push_zeros n (sp + of_nat (a + 4)) (k\<lparr>phys := m\<rparr>) = (True, k\<lparr>phys := m1\<rparr>)"
    and same: "\<And>j. j < N \<Longrightarrow> j < a + 4 \<or> a + 4 + 4 * n \<le> j \<Longrightarrow> stack_byte sp (k\<lparr>phys := m1\<rparr>) j = stack_byte sp (k\<lparr>phys := m\<rparr>) j"
    and z: "\<And>i. i < n \<Longrightarrow> get32 (stack_byte sp (k\<lparr>phys := m1\<rparr>)) (a + 4 + 4 * i) = 0"
    using Suc.IH [of "k\<lparr>phys := m\<rparr>" "a + 4"] Suc.prems(1) fit(2) by auto
  have w: "get32 (stack_byte sp (k\<lparr>phys := m1\<rparr>)) a = 0"
    by (rule get32_put32_at) (use same m(2) fit in simp)
  show ?case
  proof (intro exI [of _ m1] conjI allI impI)
    show "push_zeros (Suc n) (sp + of_nat a) k = (True, k\<lparr>phys := m1\<rparr>)" using m(1) m1 by (simp add: ac_simps)
    show "stack_byte sp (k\<lparr>phys := m1\<rparr>) j = stack_byte sp k j" if "j < N" "j < a \<or> a + 4 * Suc n \<le> j" for j
      using same [of j] m(2) that by auto
    show "get32 (stack_byte sp (k\<lparr>phys := m1\<rparr>)) (a + 4 * i) = 0" if "i < Suc n" for i
      using w z [of "i - 1"] that by (cases i) (simp_all add: ac_simps)
  qed
qed

subsection \<open>What main is called with\<close>

lemma str_bytes_at:
  "(\<And>t. t < length s \<Longrightarrow> f (p + of_nat t) = s ! t) \<Longrightarrow> f (p + of_nat (length s)) = 0 \<Longrightarrow> 0 \<notin> set s \<Longrightarrow> str_bytes f p = Some s"
proof (induction s arbitrary: p)
  case Nil
  then show ?case by (simp add: str_bytes.simps)
next
  case (Cons c s)
  have "f p = c" "c \<noteq> 0" using Cons.prems(1) [of 0] Cons.prems(3) by auto
  moreover have "str_bytes f (p + 1) = Some s"
    using Cons.prems(1) [of "Suc t" for t] Cons.prems(2,3) by (intro Cons.IH) (auto simp: ac_simps)
  ultimately show ?case by (simp add: str_bytes.simps [of f p])
qed

lemma flat_split:
  assumes "i < length args"
  shows "flat args = flat (take i args) @ (args ! i @ [0]) @ flat (drop (Suc i) args)"
  unfolding flat_def by (subst id_take_nth_drop [OF assms]) simp

lemma flat_nth:
  assumes "i < length args" "t \<le> length (args ! i)"
  shows "begins args i + t < length (flat args)" "flat args ! (begins args i + t) = (args ! i @ [0]) ! t"
  using assms by (subst flat_split [OF assms(1)], simp add: begins_def nth_append)+

text \<open>C40: \<open>exec\<close> hands the arguments over: what \<^verbatim>\<open>_start_c\<close> of the C library reads off the stack that
  the kernel built from the strings in its buffer is the number of arguments, for each of them a
  pointer to exactly its string, the null pointer behind them, and an empty environment.\<close>

theorem exec_args_reach_main:
  assumes strs: "\<forall>s\<in>set args. 0 \<notin> set s \<and> length s \<le> BSIZE"
    and buffer: "\<forall>t<length (flat args). b_addr (bufp k bp) t = flat args ! t"
    and room: "user_range sp (20 + 4 * length args + length (flat args)) k"
  shows "\<exists>k'. build_stack bp (length args) sp k = (True, k')
    \<and> (case start_c (user_mem k') sp of (argc, argv, envp) \<Rightarrow>
         argc = int (length args)
         \<and> (\<forall>i<length args. str_bytes (user_mem k') (phys_word (user_mem k') (argv + 4 * of_nat i)) = Some (args ! i))
         \<and> phys_word (user_mem k') (argv + 4 * of_nat (length args)) = 0 \<and> phys_word (user_mem k') envp = 0)"
proof -
  let ?na = "length args" and ?N = "20 + 4 * length args + length (flat args)" and ?off = "4 + 4 * length args + 16"
  define k0 where "k0 = set_ar0 EIP 0 (set_ar0 17 sp k)"
  have r0: "user_range sp ?N k0" using room user_range_image [of k k0] by (simp add: k0_def image_of_def)
  have b0: "b_addr (bufp k0 bp) (0 + t) = flat args ! t" if "t < length (flat args)" for t
    using buffer that by (simp add: k0_def)
  obtain m1 where m1: "suword (sp + of_nat 0) (of_nat ?na) k0 = (True, k0\<lparr>phys := m1\<rparr>)"
    "\<forall>j<?N. stack_byte sp (k0\<lparr>phys := m1\<rparr>) j = (if 0 \<le> j \<and> j < 0 + 4 then put32 (\<lambda>_. 0) 0 (of_nat ?na) (j - 0) else stack_byte sp k0 j)"
    using store_word_above [OF r0, of 0 "of_nat ?na"] by auto
  obtain m2 where m2: "push_args ?na bp 0 (sp + of_nat 4) (sp + of_nat ?off) (k0\<lparr>phys := m1\<rparr>) = (Some (sp + of_nat (4 + 4 * ?na)), k0\<lparr>phys := m2\<rparr>)"
    and lo2: "\<And>j. j < ?N \<Longrightarrow> j < 4 \<Longrightarrow> stack_byte sp (k0\<lparr>phys := m2\<rparr>) j = stack_byte sp (k0\<lparr>phys := m1\<rparr>) j"
    and ptr2: "\<And>i. i < ?na \<Longrightarrow> get32 (stack_byte sp (k0\<lparr>phys := m2\<rparr>)) (4 + 4 * i) = sp + of_nat (?off + begins args i)"
    and str2: "\<And>t. t < length (flat args) \<Longrightarrow> stack_byte sp (k0\<lparr>phys := m2\<rparr>) (?off + t) = flat args ! t"
    using push_args_above [of sp ?N "k0\<lparr>phys := m1\<rparr>" 4 args ?off bp 0] r0 b0 strs by auto
  have "4 + 4 * ?na + 4 * 4 \<le> ?N" by simp
  then obtain m3 where m3: "push_zeros 4 (sp + of_nat (4 + 4 * ?na)) (k0\<lparr>phys := m2\<rparr>) = (True, k0\<lparr>phys := m3\<rparr>)"
    and same3: "\<And>j. j < ?N \<Longrightarrow> j < 4 + 4 * ?na \<or> ?off \<le> j \<Longrightarrow> stack_byte sp (k0\<lparr>phys := m3\<rparr>) j = stack_byte sp (k0\<lparr>phys := m2\<rparr>) j"
    and zero3: "\<And>i. i < 4 \<Longrightarrow> get32 (stack_byte sp (k0\<lparr>phys := m3\<rparr>)) (4 + 4 * ?na + 4 * i) = 0"
    using push_zeros_above [of sp ?N "k0\<lparr>phys := m2\<rparr>" "4 + 4 * ?na" 4] r0 by auto
  define k3 where "k3 = k0\<lparr>phys := m3\<rparr>"
  have run: "build_stack bp ?na sp k = (True, k3)"
    using m1(1) m2 m3 by (simp add: build_stack_def k0_def [symmetric] k3_def ac_simps)
  have at: "phys_word (user_mem k3) (sp + of_nat i) = get32 (stack_byte sp k3) i" for i by (rule word_above)
  have argc: "get32 (stack_byte sp k3) 0 = of_nat ?na"
    by (rule get32_put32_at) (use m1(2) lo2 same3 in \<open>simp add: k3_def\<close>)
  have "64 * (unat (p_size (cur k)) - unat USIZE) < 2 ^ 32"
    using placed_room [of "cur k" "64 * (unat (p_size (cur k)) - unat USIZE)"] room by (simp add: user_range_def)
  then have "4 * ?na < 2 ^ 32" using room unfolding user_range_def by linarith
  then have na: "?na < 2 ^ 30" by simp
  then have un: "unat (of_nat ?na :: addr) = ?na" by (simp add: unat_of_nat)
  have "sint (of_nat ?na :: addr) = int ?na" using sint_small32 [of "of_nat ?na"] na unfolding un by simp
  then have st: "start_c (user_mem k3) sp = (int ?na, sp + 4, sp + 4 + 4 * of_nat (?na + 1))"
    using at [of 0] argc by (simp add: start_c_def nat_add_distrib)
  have arg: "str_bytes (user_mem k3) (phys_word (user_mem k3) (sp + 4 + 4 * of_nat i)) = Some (args ! i)" if i: "i < ?na" for i
  proof -
    have p: "get32 (stack_byte sp k3) (4 + 4 * i) = sp + of_nat (?off + begins args i)"
      unfolding ptr2 [OF i, symmetric] using i by (intro get32_cong) (simp add: k3_def same3)
    have b: "user_mem k3 (sp + of_nat (?off + begins args i) + of_nat t) = (args ! i @ [0]) ! t" if t: "t \<le> length (args ! i)" for t
    proof -
      have "user_mem k3 (sp + of_nat (?off + begins args i) + of_nat t) = stack_byte sp k3 (?off + (begins args i + t))"
        by (simp add: stack_byte_def ac_simps)
      then show ?thesis using flat_nth [OF i t] str2 [of "begins args i + t"] by (simp add: k3_def same3)
    qed
    have "str_bytes (user_mem k3) (sp + of_nat (?off + begins args i)) = Some (args ! i)"
      using b strs i by (intro str_bytes_at) (auto simp: nth_append)
    then show ?thesis using at [of "4 + 4 * i"] p by (simp add: ac_simps)
  qed
  have z: "phys_word (user_mem k3) (sp + 4 + 4 * of_nat (?na + i)) = 0" if "i < 4" for i
    using at [of "4 + 4 * ?na + 4 * i"] zero3 [OF that] by (simp add: k3_def algebra_simps)
  show ?thesis using run arg z [of 0] z [of 1] by (intro exI [of _ k3]) (simp add: st)
qed

text \<open>A process of 65 clicks is given the arguments \<open>sh\<close> and an empty string.\<close>

definition started :: kernel where
  "started = upd_buf (Buf 0) (\<lambda>b. b\<lparr>b_addr := (\<lambda>i. ([115, 104, 0, 0] :: byte list) ! i)\<rparr>)
     (upd_sch (\<lambda>s. s\<lparr>procs := (procs s)[0 := (procs s ! 0)\<lparr>p_addr := 1000, p_size := 65\<rparr>]\<rparr>) zero_kernel)"

theorem exec_args_reach_main_witness:
  "\<exists>k'. build_stack (Buf 0) 2 16 started = (True, k')
    \<and> (case start_c (user_mem k') 16 of (argc, argv, envp) \<Rightarrow>
         argc = 2 \<and> str_bytes (user_mem k') (phys_word (user_mem k') argv) = Some [115, 104])"
proof -
  let ?args = "[[115, 104], []] :: byte list list"
  have p: "procp started (u_procp (k_u started)) = empty_proc\<lparr>p_addr := 1000, p_size := 65\<rparr>"
    by (simp add: started_def zero_kernel_def zero_user_def procp_def)
  have r: "user_range 16 32 started" by (simp add: user_range_def placed_def p)
  have b: "\<forall>t<length (flat ?args). b_addr (bufp started (Buf 0)) t = flat ?args ! t"
    by (simp add: started_def zero_kernel_def bufp_def upd_buf_def)
  have s: "\<forall>s\<in>set ?args. 0 \<notin> set s \<and> length s \<le> BSIZE" by simp
  have r': "user_range 16 (20 + 4 * length ?args + length (flat ?args)) started" using r by simp
  obtain k' where k': "build_stack (Buf 0) (length ?args) 16 started = (True, k')"
    "case start_c (user_mem k') 16 of (argc, argv, envp) \<Rightarrow>
       argc = int (length ?args)
       \<and> (\<forall>i<length ?args. str_bytes (user_mem k') (phys_word (user_mem k') (argv + 4 * of_nat i)) = Some (?args ! i))
       \<and> phys_word (user_mem k') (argv + 4 * of_nat (length ?args)) = 0 \<and> phys_word (user_mem k') envp = 0"
    using exec_args_reach_main [OF s b r'] by (elim exE conjE) (rule that)
  obtain argc argv envp where st: "start_c (user_mem k') 16 = (argc, argv, envp)" by (metis prod_cases3)
  have "argc = 2" and all: "\<forall>i<2. str_bytes (user_mem k') (phys_word (user_mem k') (argv + 4 * of_nat i)) = Some (?args ! i)"
    using k'(2) by (simp_all add: st numeral_2_eq_2)
  then show ?thesis using k'(1) spec [OF all, of 0] by (intro exI [of _ k']) (simp add: st numeral_2_eq_2)
qed

end
