(* ===== verification/Machine.thy ===== *)
theory Machine
  imports Boot
begin

text \<open>
  What the kernel sends to the machine when it starts, and the routines that have nothing to
  do or pass a call on.  The programming of a device is the list of the bytes written to its
  ports, in order.
\<close>

type_synonym port_writes = "(16 word \<times> byte) list"

subsection \<open>Interrupt controller, timer and serial line\<close>

definition pic_init :: port_writes where
  "pic_init = [(0x21, 0xFF), (0xA1, 0xFF), (0x20, 0x11), (0xA0, 0x11), (0x21, 0x20), (0xA1, 0x28), (0x21, 0x04), (0xA1, 0x02),
     (0x21, 0x01), (0xA1, 0x01), (0x21, 0x00), (0xA1, 0x00)]"

definition pic_eoi :: "int \<Rightarrow> port_writes" where
  "pic_eoi irq = (if irq \<ge> 8 then [(0xA0, 0x20)] else []) @ [(0x20, 0x20)]"

abbreviation (input) HZ_RATE :: nat where "HZ_RATE \<equiv> 100"

definition setup_clock :: port_writes where
  "setup_clock =
     (let divisor = of_nat (1193182 div HZ_RATE) :: 16 word
      in [(0x43, 0x36), (0x40, ucast (divisor AND 0xFF)), (0x40, ucast (drop_bit 8 divisor))])"

definition serial_init :: port_writes where
  "serial_init = map (\<lambda>(r, v). (0x3F8 + r, v)) [(1, 0x01), (3, 0x80), (0, 0x01), (1, 0x00), (3, 0x03), (2, 0xC7), (4, 0x0B)]"

text \<open>The two bytes of the timer are its divisor, and the ticks are within a tenth of a percent of
  the rate.\<close>

lemma clock_divisor:
  "map snd (tl setup_clock) = [d0, d1] \<Longrightarrow> unat d0 + 256 * unat d1 = 1193182 div HZ_RATE"
  by (auto simp: setup_clock_def)

subsection \<open>The task state segment\<close>

text \<open>\<open>base\<close> is the address of \<^verbatim>\<open>tss\<close>, which has 104 bytes; \<open>esp0\<close> and \<open>ss0\<close> are the two of its
  fields that are set.\<close>

definition setup_tss :: "uint32_t \<Rightarrow> uint32_t \<Rightarrow> 64 word \<times> uint32_t \<times> uint32_t" where
  "setup_tss base stack_end =
     (let limit = 104 :: uint32_t;
          low = push_bit 16 base OR (limit AND 0xFFFF);
          high = (base AND 0xFF000000) OR 0x00008900 OR (drop_bit 16 base AND 0xFF)
      in (push_bit 32 (ucast high) OR ucast low, 0x10, stack_end))"

text \<open>The base the processor reads from the descriptor is that address.\<close>

lemma descr_base_of:
  assumes a: "\<And>n. bit (a :: uint32_t) n \<Longrightarrow> 8 \<le> n \<and> n < 16" and l: "\<And>n. bit (l :: uint32_t) n \<Longrightarrow> n < 16"
  shows "descr_base (push_bit 32 (ucast ((base AND 0xFF000000) OR a OR (drop_bit 16 base AND 0xFF))) OR ucast (push_bit 16 base OR l)) = base"
proof (rule bit_word_eqI)
  fix n assume "n < LENGTH(32)"
  then have n: "n < 32" by simp
  have ba: "\<not> bit a n" if "n < 8 \<or> 16 \<le> n" for n using a [of n] that by auto
  have bl: "\<not> bit l n" if "16 \<le> n" for n using l [of n] that by auto
  consider "n < 16" | "16 \<le> n" "n < 24" | "24 \<le> n" by linarith
  then show "bit (descr_base (push_bit 32 (ucast ((base AND 0xFF000000) OR a OR (drop_bit 16 base AND 0xFF))) OR ucast (push_bit 16 base OR l))) n
    = bit base n"
    unfolding descr_base_def descr_consts using n by cases (auto simp: bit_simps ba bl)
qed

lemma high_bits:
  assumes "drop_bit 16 a = 0" "bit (a :: uint32_t) n"
  shows "n < 16"
proof (rule ccontr)
  assume "\<not> n < 16"
  with assms(2) have "bit (drop_bit 16 a) (n - 16)" by (simp add: bit_simps)
  with assms(1) show False by simp
qed

lemma low_bits:
  assumes "a AND 0xFF = 0" "bit (a :: uint32_t) n"
  shows "8 \<le> n"
proof (rule ccontr)
  assume "\<not> 8 \<le> n"
  with assms(2) have "bit (a AND 0xFF) n" unfolding descr_consts by (simp add: bit_simps)
  with assms(1) show False by simp
qed

lemma tss_base: "descr_base (fst (setup_tss base st)) = base"
proof -
  have a: "8 \<le> n \<and> n < 16" if "bit (0x8900 :: uint32_t) n" for n
    using low_bits [OF _ that] high_bits [OF _ that] by (simp add: drop_bit_eq_div)
  have l: "n < 16" if "bit (0x68 AND 0xFFFF :: uint32_t) n" for n
    using high_bits [OF _ that] by (simp add: drop_bit_eq_div)
  show ?thesis using descr_base_of [OF a l] by (simp only: setup_tss_def Let_def fst_conv)
qed

subsection \<open>Leaves\<close>

definition min_c :: "int32_t \<Rightarrow> int32_t \<Rightarrow> int32_t" where
  "min_c a b = (if sint a < sint b then a else b)"

definition max_c :: "int32_t \<Rightarrow> int32_t \<Rightarrow> int32_t" where
  "max_c a b = (if sint a > sint b then a else b)"

lemma min_max_c: "sint (min_c a b) = min (sint a) (sint b)" "sint (max_c a b) = max (sint a) (sint b)"
  by (simp_all add: min_c_def max_c_def min_def max_def)

definition rd_open :: "dev_t \<Rightarrow> int \<Rightarrow> int" where "rd_open dev flag = 0"
definition rd_close :: "dev_t \<Rightarrow> int \<Rightarrow> int" where "rd_close dev flag = 0"

definition sync_syscall :: "unit kop" where "sync_syscall = update"

definition grow :: "uint32_t \<Rightarrow> int" where "grow sp = 1"

definition fuiword :: "uint32_t \<Rightarrow> kernel \<Rightarrow> uint32_t" where "fuiword = fuword"
definition suiword :: "uint32_t \<Rightarrow> uint32_t \<Rightarrow> kernel \<Rightarrow> bool \<times> kernel" where "suiword = suword"

definition xswap :: "nat \<Rightarrow> int32_t \<Rightarrow> int32_t \<Rightarrow> int32_t \<Rightarrow> kernel \<Rightarrow> kernel" where "xswap p osiz nisz osec k = k"

end
