(* ===== verification/Interrupts.thy ===== *)
theory Interrupts
  imports Sys_Dev Clock Trap Machine
begin

text \<open>
  The whole of \<^verbatim>\<open>trap\<close> in \<^verbatim>\<open>kernel/trap.c\<close>: processor faults from user and from kernel mode, the
  system call, and the interrupts of the devices.  \<open>usr\<close> is \<^verbatim>\<open>from_user\<close>, \<open>frame\<close> the
  registers that were saved, which \<^verbatim>\<open>u.u_ar0\<close> points to meanwhile; the value of a trap that
  returns is what the frame holds then.
\<close>

subsection \<open>Faults\<close>

datatype trap_action = Signals nat | Fault | Goes_on

text \<open>The vectors outside \<^verbatim>\<open>0x80\<close> and the interrupts.\<close>

definition trap_action :: "bool \<Rightarrow> nat \<Rightarrow> trap_action" where
  "trap_action usr n =
     (if n = 8 \<or> n = 10 then Fault
      else if usr then (case trap_signal n of Some s \<Rightarrow> Signals s | None \<Rightarrow> Goes_on)
      else if n \<in> {0, 4, 5, 6, 11, 12, 13, 14, 17, 0x80} then Fault else Goes_on)"

text \<open>From the check for rescheduling to the end: the frame, and the old pointer.\<close>

definition trap_leave :: "uint32_t list \<Rightarrow> bool \<Rightarrow> uint32_t list kop" where
  "trap_leave prev usr k =
     Ret (u_ar0 (k_u k)) (if usr then k else upd_u (\<lambda>u. u\<lparr>u_ar0 := prev\<rparr>) k)"

definition trap_end :: "outside \<Rightarrow> uint32_t list \<Rightarrow> bool \<Rightarrow> uint32_t list kop" where
  "trap_end x prev usr =
     kseq (if usr then kseq (\<lambda>k. if runrun (k_sch k) \<noteq> 0 then swtch k else Ret () k) (trap_return x) else ret ())
       (trap_leave prev usr)"

definition enter_trap :: "uint32_t list \<Rightarrow> kernel \<Rightarrow> kernel" where
  "enter_trap frame = upd_u (\<lambda>u. u\<lparr>u_ar0 := frame\<rparr>)"

definition trap_soft :: "outside \<Rightarrow> bool \<Rightarrow> nat \<Rightarrow> uint32_t list \<Rightarrow> uint32_t list kop" where
  "trap_soft x usr n frame k =
     (let prev = u_ar0 (k_u k); k = enter_trap frame k
      in if usr \<and> n = 0x80 then kseq (trap_call x) (trap_end x prev usr) k
         else case trap_action usr n of
             Signals s \<Rightarrow> kseq (trap_fault x s) (trap_leave prev usr) k
           | Fault \<Rightarrow> Stop (Panicked ''trap'') k
           | Goes_on \<Rightarrow> trap_end x prev usr k)"

subsection \<open>Interrupts\<close>

text \<open>What the devices deliver: a byte of the keyboard, the state of the serial line; \<open>run\<close> does a
  callout.  The writes are those to the interrupt controller.\<close>

record irq_input =
  irq_run :: "nat \<Rightarrow> uint32_t \<Rightarrow> kernel \<Rightarrow> kernel"
  irq_scancode :: uint8_t
  irq_iir :: uint8_t

definition device :: "irq_input \<Rightarrow> nat \<Rightarrow> console \<Rightarrow> console" where
  "device d n s = (if n = 33 then kbd_intr (irq_scancode d) s else if n = 36 then serial_intr (irq_iir d) s else s)"

definition put_kern :: "kernel \<Rightarrow> console \<Rightarrow> console" where
  "put_kern k = on_k (\<lambda>_. k)"

text \<open>How a trap of the console's kernel ends.\<close>

definition ended :: "console \<Rightarrow> 'a res \<Rightarrow> ('a + stop) \<times> console" where
  "ended s r = (case r of Ret x k \<Rightarrow> (Inl x, put_kern k s) | Stop c k \<Rightarrow> (Inr c, put_kern k s))"

definition trap_irq :: "outside \<Rightarrow> irq_input \<Rightarrow> bool \<Rightarrow> nat \<Rightarrow> uint32_t list \<Rightarrow> console \<Rightarrow> port_writes \<times> (uint32_t list + stop) \<times> console" where
  "trap_irq x d usr n frame s =
     (let prev = u_ar0 (k_u (kern s)); s1 = on_k (enter_trap frame) s
      in if n = 32 then
           (case clock (irq_run d) (user_size x) (user_image x) (frame ! EFLAGS) (kern s1) of
              Stop c k \<Rightarrow> ([], Inr c, put_kern k s1)
            | Ret _ k \<Rightarrow> (pic_eoi 0, ended s1 (trap_end x prev usr k)))
         else
           (let s2 = device d n s1
            in (pic_eoi (int n - 32), ended s2 (trap_end x prev usr (kern s2)))))"

definition trap :: "outside \<Rightarrow> irq_input \<Rightarrow> bool \<Rightarrow> nat \<Rightarrow> uint32_t list \<Rightarrow> console \<Rightarrow> port_writes \<times> (uint32_t list + stop) \<times> console" where
  "trap x d usr n frame s =
     (if 32 \<le> n \<and> n < 48 then trap_irq x d usr n frame s
      else ([], ended s (trap_soft x usr n frame (kern s))))"

subsection \<open>What a trap leaves alone\<close>

lemma kern_put [simp]: "kern (put_kern k s) = k" "kern (on_k f s) = f (kern s)"
  by (simp_all add: put_kern_def on_k_def on_tty_def on_kern_def)

lemma u_kbd_putc [simp]: "k_u (kern (kbd_putc c s)) = k_u (kern s)"
  by (simp add: kbd_putc_def on_k_def on_tty_def on_kern_def Let_def)

lemma u_device [simp]: "k_u (kern (device d n s)) = k_u (kern s)"
  by (auto simp: device_def kbd_intr_def serial_intr_def Let_def split: list.splits)

text \<open>An interrupt of a device in the middle of the kernel gives back the frame as it was, leaves
  the u-area alone with its pointer to the registers, and is acknowledged.\<close>

lemma irq_in_kernel:
  assumes "32 < n" "n < 48"
  shows "\<exists>s'. trap x d False n frame s = (pic_eoi (int n - 32), Inl frame, s') \<and> k_u (kern s') = k_u (kern s)"
  using assms by (simp add: trap_def trap_irq_def trap_end_def trap_leave_def enter_trap_def ended_def kseq_def kbind_def
      ret_def Let_def upd_u_def)

text \<open>A clock interrupt that ends in another process, because a signal killed this one, is never
  acknowledged: nothing is written to the controller.\<close>

lemma clock_not_acknowledged:
  assumes "clock (irq_run d) (user_size x) (user_image x) (frame ! EFLAGS) (enter_trap frame (kern s)) = Stop c k"
  shows "\<exists>s'. trap x d usr 32 frame s = ([], Inr c, s')"
  using assms by (simp add: trap_def trap_irq_def Let_def)

text \<open>Bit 1 of \<^verbatim>\<open>EFLAGS\<close> is always set, so the clock takes the kernel for the user.\<close>

lemma clock_test_always:
  assumes "bit (ps :: uint32_t) 1"
  shows "ps AND 0xFFFF \<noteq> 0"
proof
  assume "ps AND 0xFFFF = 0"
  moreover have "bit (ps AND 0xFFFF) 1" using assms unfolding descr_consts by (simp add: bit_simps)
  ultimately show False by simp
qed

text \<open>The faults of the user are signals, those of the kernel the end.\<close>

lemma user_fault_signals:
  "usr \<and> n < 32 \<and> n \<notin> {2, 7, 8, 10} \<Longrightarrow> \<exists>s. trap_action usr n = Signals s"
  by (auto simp: trap_action_def trap_signal_def)

lemma kernel_fault_panics:
  assumes "n \<in> {0, 4, 5, 6, 8, 10, 11, 12, 13, 14, 17, 0x80}"
  shows "trap_soft x False n frame k = Stop (Panicked ''trap'') (enter_trap frame k)"
  using assms by (auto simp: trap_soft_def trap_action_def Let_def)

end
