(* ===== verification/Spec2Isabelle.thy ===== *)
theory Spec2Isabelle
  imports Malloc Wakeup Sig Slp Bio Linked_Rings Bio_Inv Cache Alloc Inode Umem Rdwri Fio Pipe Text Nami Sys_Base Sys_File Sys_Path Sys_Inode Sys_Proc Sys_Misc Exec Trap Clock Console Sys_Dev Bio_Raw Ide File_Map File_Io Mkfs Mkfs_Image Boot Sleep_Lock Kept Exit_Status Libc_Dirent Shell Tty_Ring File_Refs Programs Startup Machine Interrupts
begin

text \<open>
  Unix V6 for the x86: the kernel under \<^verbatim>\<open>src/kernel\<close> and the C library
  under \<^verbatim>\<open>src/userland/Libraries/libc\<close>.

  \<^bold>\<open>How the parts fit together.\<close>  A process enters the kernel through interrupt 0x80
  (\<^verbatim>\<open>trap.c\<close>), which calls a handler of the table in \<^verbatim>\<open>sysent.c\<close>; the handlers are in
  \<^verbatim>\<open>sys.c\<close>.  They find inodes by path name (\<^verbatim>\<open>nami.c\<close>) or by descriptor (\<^verbatim>\<open>fio.c\<close>), move
  data between the process and the file (\<^verbatim>\<open>rdwri.c\<close>, \<^verbatim>\<open>pipe.c\<close>) and change inodes
  (\<^verbatim>\<open>iget.c\<close>) and free lists (\<^verbatim>\<open>alloc.c\<close>), all through the buffer cache (\<^verbatim>\<open>bio.c\<close>) over the
  RAM disk (\<^verbatim>\<open>ramdisk.c\<close>).  Processes sleep and are woken, chosen, moved and signalled by
  \<^verbatim>\<open>slp.c\<close>, \<^verbatim>\<open>sig.c\<close>, \<^verbatim>\<open>text.c\<close> and \<^verbatim>\<open>malloc.c\<close> (core); \<^verbatim>\<open>clock.c\<close> charges time and runs
  callouts.  The console is \<^verbatim>\<open>console.c\<close> and \<^verbatim>\<open>tty.c\<close> over \<^verbatim>\<open>prf.c\<close> and \<^verbatim>\<open>fb.c\<close>.

  \<^bold>\<open>State.\<close>  \<open>kernel\<close> (\<open>Kernel_State\<close>) is a record of the C globals: the u-area, the process
  table and the scheduler's words, the buffers with the RAM disk's bytes, the in-core
  inodes, the open files, the text table, the callouts, the mailbox of \<^verbatim>\<open>ptrace\<close> and
  physical memory.  Pointers into a table are indices, integers have their C width
  (\<open>8 word\<close> to \<open>32 word\<close>), on-disk structures are bytes read and written at their offsets.
  An operation that can sleep, panic or kill its process has the type \<open>'a kop\<close>
  (\<open>Kernel_Monad\<close>): it ends in \<open>Ret\<close> with a result and a state, or in \<open>Stop\<close> with the reason
  and the state it leaves.  What such an operation does after it is woken is a definition of
  its own where it is not the same call again.

  \<^bold>\<open>Theories.\<close>
  \<^item> \<open>Prelude\<close>, \<open>Kernel_State\<close>, \<open>Kernel_Monad\<close>: integers, flags, bytes; the records; running.
  \<^item> \<open>Malloc\<close> (\<^verbatim>\<open>malloc.c\<close>): the resource map refines a set of free units kept sorted,
    apart and non-adjacent.
  \<^item> \<open>Wakeup\<close>, \<open>Sig\<close>, \<open>Slp\<close> (\<^verbatim>\<open>slp.c\<close>, \<^verbatim>\<open>sig.c\<close>): sleeping, posting signals, choosing,
    swapping, copying and growing processes.
  \<^item> \<open>Bio\<close> (\<^verbatim>\<open>bio.c\<close>, \<open>rd_strategy\<close>), \<open>Linked_Rings\<close> (the locale of doubly linked rings, with
    one interpretation for the free list and one for the device chains), \<open>Bio_Inv\<close> (the
    invariant and the abstraction: what a block holds is the cached copy or the disk's),
    \<open>Cache\<close> (the operations for their callers), \<open>Bio_Raw\<close> (\<open>swap\<close> and \<open>physio\<close>, which go past the
    cache), \<open>Ide\<close> (\<^verbatim>\<open>ide.c\<close>, against the driver of the RAM disk).
  \<^item> \<open>Alloc\<close> (\<^verbatim>\<open>alloc.c\<close>): the free list as a chain of batches, an inductive predicate that
    allocation and freeing push and pop.  \<open>Inode\<close> (\<^verbatim>\<open>iget.c\<close>): in-core inodes.
  \<^item> \<open>Umem\<close>, \<open>Rdwri\<close>, \<open>File_Map\<close>, \<open>File_Io\<close>: user memory; reading and writing files; the blocks of
    a file by its direct, indirect and double indirect addresses; a file is a list of bytes that
    \<open>writei\<close> overlays and \<open>readi\<close> delivers.
  \<^item> \<open>Mkfs\<close>, \<open>Mkfs_Image\<close> (\<^verbatim>\<open>rd_init\<close>, \<^verbatim>\<open>rd_mkfs\<close>): the file system built into the RAM disk, and
    what is read back from it.  \<open>Boot\<close> (\<^verbatim>\<open>main.c\<close>): \<open>kmain\<close> phase by phase, the mounting of the
    root and the way of a file from the table of files to the memory of a process.  \<open>Machine\<close>: the
    bytes sent to the interrupt controller, the timer and the serial line, the task state segment.
  \<^item> \<open>Fio\<close>, \<open>Pipe\<close>, \<open>Text\<close>, \<open>Nami\<close>: descriptors and permissions, pipes, shared text, path
    names.  \<open>Sleep_Lock\<close>: a locale for locks waited for asleep, with the inode lock and the
    text lock as its interpretations, and the absence of lost wakeups.  \<open>File_Refs\<close>: the counts of
    the file table are the numbers of descriptors, an invariant of the calls on descriptors.  \<open>Kept\<close>:
    the locale of the parts of the state that the operations on buffers and inodes leave alone,
    with the descriptors and the exit codes as its interpretations.
  \<^item> \<open>Sys_Base\<close>, \<open>Sys_File\<close>, \<open>Sys_Path\<close>, \<open>Sys_Inode\<close>, \<open>Sys_Proc\<close>, \<open>Sys_Misc\<close>, \<open>Sys_Stubs\<close>,
    \<open>Exec\<close> (\<^verbatim>\<open>sys.c\<close>), \<open>Trap\<close> (\<^verbatim>\<open>trap.c\<close>, \<^verbatim>\<open>sysent.c\<close>, \<open>psig\<close> and \<open>core\<close> of \<^verbatim>\<open>sig.c\<close>), \<open>Clock\<close>
    (\<^verbatim>\<open>clock.c\<close>), \<open>Interrupts\<close> (the whole of \<^verbatim>\<open>trap\<close>: faults, system calls, devices).
  \<^item> \<open>Font\<close>, \<open>Screen\<close> (\<^verbatim>\<open>prf.c\<close>, \<^verbatim>\<open>fb.c\<close>), \<open>Tty\<close> (\<^verbatim>\<open>tty.c\<close>), \<open>Queues\<close> (the locale of bounded
    queues), \<open>Console\<close> (\<^verbatim>\<open>console.c\<close>, its ring as the interpretation), \<open>Sys_Dev\<close> (the calls on the
    terminal of \<^verbatim>\<open>sys.c\<close> and \<^verbatim>\<open>sys_fb.c\<close>, over the state of the console), \<open>Tty_Ring\<close>
    (\<^verbatim>\<open>drivers/char/tty.c\<close>, the older line discipline; its queues are bounded queues too).
  \<^item> \<open>Libc_String\<close>, \<open>Libc_Sys\<close>, \<open>Libc_Stdlib\<close>, \<open>Libc_Printf\<close>, \<open>Libc_Stdio\<close>,
    \<open>Libc_Dirent\<close>: the C library.  \<open>Shell\<close> (\<^verbatim>\<open>sh.c\<close>, \<^verbatim>\<open>terminal.c\<close>): the two command interpreters.
    \<open>Programs\<close> (\<^verbatim>\<open>Utilities\<close>, \<^verbatim>\<open>Init\<close>, \<^verbatim>\<open>WindowServer\<close>).  \<open>Startup\<close> (\<^verbatim>\<open>crt0.c\<close>): the arguments on their way
    from \<^verbatim>\<open>exec\<close> to \<^verbatim>\<open>main\<close>.  \<open>Exit_Status\<close>: the status on its way from \<^verbatim>\<open>exit\<close> to the parent.
    \<open>Libc_Sys\<close> goes through \<open>trap_call\<close> of the kernel model, so \<open>sbrk\<close> under \<open>malloc\<close> is the
    kernel's; the memory of a library function is \<open>cmem\<close>, all 2^32 bytes of an address space.

  \<^bold>\<open>What the lemmas show.\<close>  The refinements read an operation against an abstract
  description: blocks as contents for the cache, a list for the free blocks and for the
  bytes of a file, due times for the callouts, a queue for the typed characters, first fit
  on a list of blocks for the library's \<open>malloc\<close>, an unbounded text cut off for
  \<open>vsnprintf\<close>, a text written with a pen on an endless sheet for \<open>kprintf\<close>.  The round trips compose two operations.  The error theorems record what the
  code does where it does not do what it means to.

  \<^bold>\<open>Bounds and fuel.\<close>  A path name is read up to 65536 characters (\<open>PATHFUEL\<close>) and the answer
  of \<open>getcwd\<close> up to 510 bytes, both more than the buffers hold.  The searches of the cache
  have \<open>NBUF + 1\<close> steps and \<open>bflush\<close> as many rounds as there are delayed writes, which the
  invariant proves enough; the loops over a transfer have \<open>u_count\<close> steps, one for each byte
  at most.  Loops whose end is a property of the data (the block list of \<open>malloc\<close>, strings) are
  \<open>partial_function\<close>s, and the theorems about them state that they return.

  \<^bold>\<open>Arguments of the model.\<close>  Drivers other than the RAM disk and the console, the number of
  character devices, the characters the keyboard delivers and the routines of callouts are
  arguments of the definitions that use them.  The streams of \<^verbatim>\<open>stdio.c\<close> and \<^verbatim>\<open>dirent.c\<close> take the five
  system calls they use as an argument, the shells and the other programs theirs, \<^verbatim>\<open>ide.c\<close> the ports of the disk, and \<open>rd_init\<close> the table of files made when the kernel is built.

  \<^bold>\<open>Not modelled.\<close>  Assembly and boot code, the tables of constructors around \<^verbatim>\<open>main\<close>, and the tools that build the image.
\<close>

end
